(* ===== verification/GoBase.thy ===== *)
theory GoBase
  imports Complex_Main "HOL-Library.Word"
begin

text \<open>
  The prelude of the development: the Go notions that every component uses.
  It names the model's types (times and durations as nanosecond counts, Go maps as
  partial functions, header maps), the error values of Go with the
  tree walk of \<open>errors.Is\<close> and \<open>errors.As\<close>, and the recording of external calls
  (Kafka, Redis, Postgres) as a trace over an unknown world, with the generic lemmas
  and the \<open>named_theorems\<close> collections that the component theories rely on.
\<close>

section \<open>Types shared by the components\<close>

text \<open>
  A \<^verbatim>\<open>time.Time\<close> that is set is its number of nanoseconds on one clock, a
  \<^verbatim>\<open>time.Duration\<close> is a number of nanoseconds. The zero time, where the code tests for
  it, is \<^term>\<open>None :: int option\<close>.
\<close>

type_synonym gotime = int
type_synonym duration = int
type_synonym bytes = string
type_synonym headers = "string \<rightharpoonup> string"

abbreviation (input) second :: duration where
  "second \<equiv> 1000000000"

abbreviation (input) millisecond :: duration where
  "millisecond \<equiv> 1000000"

abbreviation (input) minute :: duration where
  "minute \<equiv> 60000000000"

abbreviation (input) hour :: duration where
  "hour \<equiv> 3600000000000"

named_theorems inv_intros "introduction rules that establish a component's invariant"
named_theorems step_simps "unfoldings of the operations of a component"
named_theorems frame_simps "what an operation leaves unchanged"
named_theorems io_did_rules "which calls an operation adds to the trace"

section \<open>Go errors\<close>

text \<open>
  \<^verbatim>\<open>core.CrawlerError\<close> (\<^verbatim>\<open>internal/processor/fetcher/core/errors.go\<close>) and
  \<^verbatim>\<open>llm.Error\<close> (\<^verbatim>\<open>pkg/llm/errors.go\<close>) without their wrapped error, which is the
  last argument of the constructors below.
\<close>

datatype error_category =
    NoCategory
  | CatNetwork | CatRateLimit | CatTimeout
  | CatNotFound | CatForbidden | CatParse | CatValidation
  | CatDatabase | CatQueue | CatStorage
  | CatConfig | CatInternal

record crawler_error =
  ce_category :: error_category
  ce_code :: string
  ce_message :: string
  ce_source :: string
  ce_url :: string
  ce_status :: int
  ce_retryable :: bool

datatype llm_code =
    LlmNoCode | LlmAuth | LlmRateLimit | LlmServer | LlmBadRequest
  | LlmContextLimit | LlmNetwork | LlmUnknown

record llm_error =
  le_code :: llm_code
  le_provider :: string
  le_message :: string
  le_retryable :: bool

text \<open>\<^verbatim>\<open>rule.Error\<close> (\<^verbatim>\<open>internal/processor/parser/rule/errors.go\<close>).\<close>

datatype rule_code = RuleNoCode | ErrInvalidURL | ErrNoRule | ErrEmptySelector | ErrParseFailure

record rule_error =
  rer_code :: rule_code
  rer_message :: string
  rer_host :: string
  rer_url :: string
  rer_type :: string

text \<open>
  An error value is one of the sentinels the code compares against, an opaque error with
  its text, a \<^verbatim>\<open>fmt.Errorf\<close> wrapper (\<open>Wrapped\<close> for \<^verbatim>\<open>"text: %w"\<close>,
  \<open>Annotated\<close> for text before and after \<^verbatim>\<open>%w\<close>), an \<^verbatim>\<open>errors.Join\<close>, or one of the
  program's error structs.
\<close>

datatype sentinel =
    CtxCanceled | CtxDeadline
  | StageGateHeld | ParserGateNotAcquired | LockNotOwned | PublishSkipped
  | StorageNotFound | StorageDuplicate | StorageInvalid
  | LazyContentNeedsBrowser

datatype go_error =
    Sentinel sentinel
  | Opaque string
  | Wrapped string go_error
  | Annotated string go_error string
  | Joined "go_error list"
  | CircuitOpen string
  | CrawlerErr crawler_error "go_error option"
  | LlmErr llm_error "go_error option"
  | RuleErr rule_error "go_error option"

text \<open>\<^verbatim>\<open>errors.Is(err, sentinel)\<close>: the depth-first walk through \<^verbatim>\<open>Unwrap\<close>.\<close>

fun is_sentinel :: "sentinel \<Rightarrow> go_error \<Rightarrow> bool" where
  "is_sentinel s (Sentinel s') = (s = s')"
| "is_sentinel s (Opaque _) = False"
| "is_sentinel s (Wrapped _ e) = is_sentinel s e"
| "is_sentinel s (Annotated _ e _) = is_sentinel s e"
| "is_sentinel s (Joined es) = list_ex (is_sentinel s) es"
| "is_sentinel s (CircuitOpen _) = False"
| "is_sentinel s (CrawlerErr _ eo) = (case eo of None \<Rightarrow> False | Some e \<Rightarrow> is_sentinel s e)"
| "is_sentinel s (LlmErr _ eo) = (case eo of None \<Rightarrow> False | Some e \<Rightarrow> is_sentinel s e)"
| "is_sentinel s (RuleErr _ eo) = (case eo of None \<Rightarrow> False | Some e \<Rightarrow> is_sentinel s e)"

fun first_some :: "('a \<Rightarrow> 'b option) \<Rightarrow> 'a list \<Rightarrow> 'b option" where
  "first_some f [] = None"
| "first_some f (x # xs) = (case f x of None \<Rightarrow> first_some f xs | Some y \<Rightarrow> Some y)"

lemma first_some_cong [fundef_cong]:
  "xs = ys \<Longrightarrow> (\<And>x. x \<in> set ys \<Longrightarrow> f x = g x) \<Longrightarrow> first_some f xs = first_some g ys"
  by (induction xs arbitrary: ys) (auto split: option.splits)

lemma first_some_in: "first_some f xs = Some y \<Longrightarrow> \<exists>x \<in> set xs. f x = Some y"
  by (induction xs) (auto split: option.splits)

lemma first_some_none [simp]: "first_some f xs = None \<longleftrightarrow> (\<forall>x \<in> set xs. f x = None)"
  by (induction xs) (auto split: option.splits)

text \<open>\<^verbatim>\<open>errors.As\<close> for \<^verbatim>\<open>*CrawlerError\<close>, \<^verbatim>\<open>*llm.Error\<close> and \<^verbatim>\<open>*rule.Error\<close>: the first match.\<close>

fun as_crawler :: "go_error \<Rightarrow> crawler_error option" where
  "as_crawler (Sentinel _) = None"
| "as_crawler (Opaque _) = None"
| "as_crawler (Wrapped _ e) = as_crawler e"
| "as_crawler (Annotated _ e _) = as_crawler e"
| "as_crawler (Joined es) = first_some as_crawler es"
| "as_crawler (CircuitOpen _) = None"
| "as_crawler (CrawlerErr c _) = Some c"
| "as_crawler (LlmErr _ eo) = (case eo of None \<Rightarrow> None | Some e \<Rightarrow> as_crawler e)"
| "as_crawler (RuleErr _ eo) = (case eo of None \<Rightarrow> None | Some e \<Rightarrow> as_crawler e)"

fun as_llm :: "go_error \<Rightarrow> llm_error option" where
  "as_llm (Sentinel _) = None"
| "as_llm (Opaque _) = None"
| "as_llm (Wrapped _ e) = as_llm e"
| "as_llm (Annotated _ e _) = as_llm e"
| "as_llm (Joined es) = first_some as_llm es"
| "as_llm (CircuitOpen _) = None"
| "as_llm (CrawlerErr _ eo) = (case eo of None \<Rightarrow> None | Some e \<Rightarrow> as_llm e)"
| "as_llm (LlmErr l _) = Some l"
| "as_llm (RuleErr _ eo) = (case eo of None \<Rightarrow> None | Some e \<Rightarrow> as_llm e)"

fun as_rule :: "go_error \<Rightarrow> rule_error option" where
  "as_rule (Sentinel _) = None"
| "as_rule (Opaque _) = None"
| "as_rule (Wrapped _ e) = as_rule e"
| "as_rule (Annotated _ e _) = as_rule e"
| "as_rule (Joined es) = first_some as_rule es"
| "as_rule (CircuitOpen _) = None"
| "as_rule (CrawlerErr _ eo) = (case eo of None \<Rightarrow> None | Some e \<Rightarrow> as_rule e)"
| "as_rule (LlmErr _ eo) = (case eo of None \<Rightarrow> None | Some e \<Rightarrow> as_rule e)"
| "as_rule (RuleErr r _) = Some r"

abbreviation is_canceled :: "go_error \<Rightarrow> bool" where
  "is_canceled \<equiv> is_sentinel CtxCanceled"

section \<open>External calls\<close>

text \<open>
  Calls that leave the process (a Kafka publish, a commit, a Redis or Postgres command) are
  actions on a world \<open>'w\<close> the model knows nothing about. The parameter \<open>io\<close> answers an
  action in a world with nil or an error and the next world. The model keeps the trace of
  the calls it made, each with its answer, so that a property can say which calls happened,
  in which order and with which outcome.
\<close>

type_synonym ('a, 'w) io = "'a \<Rightarrow> 'w \<Rightarrow> go_error option \<times> 'w"
type_synonym ('a, 'w) sys = "'w \<times> ('a \<times> go_error option) list"

definition perform :: "('a, 'w) io \<Rightarrow> 'a \<Rightarrow> ('a, 'w) sys \<Rightarrow> go_error option \<times> ('a, 'w) sys" where
  "perform io a s =
     (let (r, w') = io a (fst s) in (r, (w', snd s @ [(a, r)])))"

definition did :: "'a \<Rightarrow> ('a, 'w) sys \<Rightarrow> bool" where
  "did a s \<longleftrightarrow> (a, None) \<in> set (snd s)"

definition attempted :: "'a \<Rightarrow> ('a, 'w) sys \<Rightarrow> bool" where
  "attempted a s \<longleftrightarrow> a \<in> fst ` set (snd s)"

lemma perform_trace:
  "perform io a s = (r, s') \<Longrightarrow> snd s' = snd s @ [(a, r)]"
  by (auto simp: perform_def Let_def split: prod.splits)

lemma perform_did:
  "perform io a s = (r, s') \<Longrightarrow> did b s' \<longleftrightarrow> did b s \<or> (b = a \<and> r = None)"
  by (auto simp: did_def perform_def Let_def split: prod.splits)

lemma perform_attempted:
  "perform io a s = (r, s') \<Longrightarrow> attempted b s' \<longleftrightarrow> attempted b s \<or> b = a"
  by (auto simp: attempted_def perform_def Let_def split: prod.splits)

lemma did_attempted: "did a s \<Longrightarrow> attempted a s"
  by (force simp: did_def attempted_def)

lemma did_start [simp]: "\<not> did a (w, [])"
  by (simp add: did_def)

lemma attempted_start [simp]: "\<not> attempted a (w, [])"
  by (simp add: attempted_def)

text \<open>
  A call that also returns a value: its trace entry is the error part of the answer.
\<close>

definition err_of :: "go_error + 'v \<Rightarrow> go_error option" where
  "err_of r = (case r of Inl e \<Rightarrow> Some e | Inr _ \<Rightarrow> None)"

lemma err_of_simps [simp]:
  "err_of (Inl e) = Some e" "err_of (Inr v) = None"
  by (simp_all add: err_of_def)

definition perform_val ::
  "('w \<Rightarrow> (go_error + 'v) \<times> 'w) \<Rightarrow> 'a \<Rightarrow> ('a, 'w) sys \<Rightarrow> (go_error + 'v) \<times> ('a, 'w) sys" where
  "perform_val call a s =
     (let (r, w') = call (fst s) in (r, (w', snd s @ [(a, err_of r)])))"

lemma perform_val_trace:
  "perform_val c a s = (r, s') \<Longrightarrow> snd s' = snd s @ [(a, err_of r)]"
  by (auto simp: perform_val_def Let_def split: prod.splits)

lemma perform_val_did:
  "perform_val c a s = (r, s') \<Longrightarrow> did b s' \<longleftrightarrow> did b s \<or> (b = a \<and> err_of r = None)"
  by (auto simp: did_def perform_val_def Let_def split: prod.splits)

lemma perform_val_attempted:
  "perform_val c a s = (r, s') \<Longrightarrow> attempted b s' \<longleftrightarrow> attempted b s \<or> b = a"
  by (auto simp: attempted_def perform_val_def Let_def split: prod.splits)

lemma perform_val_eq: "\<exists>s'. perform_val c a s = (fst (c (fst s)), s')"
  by (simp add: perform_val_def Let_def split: prod.split)

lemma perform_eq: "\<exists>s'. perform io a s = (fst (io a (fst s)), s')"
  by (simp add: perform_def Let_def split: prod.split)

text \<open>
  The shutdown pattern of the repository: when a call fails with
  \<^verbatim>\<open>context.Canceled\<close> it is tried once more under a detached drain context.
\<close>

definition with_drain ::
  "(go_error \<Rightarrow> go_error \<Rightarrow> go_error) \<Rightarrow> ('a, 'w) io \<Rightarrow> 'a \<Rightarrow> ('a, 'w) sys \<Rightarrow> go_error option \<times> ('a, 'w) sys" where
  "with_drain combine io a s =
     (case perform io a s of
        (None, s1) \<Rightarrow> (None, s1)
      | (Some e, s1) \<Rightarrow>
          if is_canceled e
          then (case perform io a s1 of
                  (None, s2) \<Rightarrow> (None, s2)
                | (Some e2, s2) \<Rightarrow> (Some (combine e e2), s2))
          else (Some e, s1))"

lemma with_drain_did:
  "with_drain cmb io a s = (r, s') \<Longrightarrow> did b s' \<longleftrightarrow> did b s \<or> (b = a \<and> r = None)"
  by (auto simp: with_drain_def perform_did split: prod.splits option.splits if_splits)

lemma with_drain_attempted:
  "with_drain cmb io a s = (r, s') \<Longrightarrow> attempted b s' \<longleftrightarrow> attempted b s \<or> b = a"
  by (auto simp: with_drain_def perform_attempted split: prod.splits option.splits if_splits)

text \<open>The same for all calls at once, as destruction rules.\<close>

lemma perform_dids:
  "perform io a s = (r, s') \<Longrightarrow> \<forall>b. did b s' \<longleftrightarrow> did b s \<or> (b = a \<and> r = None)"
  "perform_val c a s = (v, s') \<Longrightarrow> \<forall>b. did b s' \<longleftrightarrow> did b s \<or> (b = a \<and> err_of v = None)"
  by (simp_all add: perform_did perform_val_did)

lemmas io_did [io_did_rules] = perform_did perform_val_did with_drain_did
lemmas io_attempted = perform_attempted perform_val_attempted with_drain_attempted

section \<open>Header maps\<close>

text \<open>A Go map read of a missing key gives the zero value, the empty string.\<close>

definition hget :: "headers \<Rightarrow> string \<Rightarrow> string" where
  "hget h k = (case h k of None \<Rightarrow> [] | Some v \<Rightarrow> v)"

lemma hget_upd [simp]: "hget (h(k \<mapsto> v)) k' = (if k' = k then v else hget h k')"
  by (simp add: hget_def)

lemma hget_empty [simp]: "hget Map.empty k = []"
  by (simp add: hget_def)

section \<open>First occurrences\<close>

text \<open>The elements of a list without repetitions, in the order of their first occurrence.\<close>

definition firsts :: "'a list \<Rightarrow> 'a list" where
  "firsts xs = rev (remdups (rev xs))"

lemma firsts_simps [simp]:
  "firsts [] = []" "set (firsts xs) = set xs" "distinct (firsts xs)"
  "firsts (xs @ [x]) = (if x \<in> set xs then firsts xs else firsts xs @ [x])"
  by (simp_all add: firsts_def)

lemma firsts_append: "\<exists>zs. firsts (xs @ ys) = firsts xs @ zs"
proof (induction ys rule: rev_induct)
  case (snoc y ys)
  then show ?case by (metis append_assoc append_Nil2 firsts_simps(4))
qed simp

lemma take_firsts_append:
  "n \<le> length (firsts xs) \<Longrightarrow> take n (firsts (xs @ ys)) = take n (firsts xs)"
  using firsts_append [of xs ys] by auto

end
