(* ===== verification/CrawlCore.thy ===== *)
theory CrawlCore
  imports GoBase
begin

text \<open>
  The core types of the crawl side, \<^verbatim>\<open>internal/processor/fetcher/core\<close>: error codes and
  constructors (\<^verbatim>\<open>errors.go\<close>), the mapping of HTTP statuses to errors (\<^verbatim>\<open>http_status.go\<close>),
  the retry policy with its backoff and the retry loop (\<^verbatim>\<open>retry.go\<close>), jobs and contents
  (\<^verbatim>\<open>job.go\<close>, \<^verbatim>\<open>models.go\<close>), and the headers carried from an inbound to an outgoing
  message (\<^verbatim>\<open>headers.go\<close>, \<^verbatim>\<open>inbox_headers.go\<close>).

  Durations computed in \<^verbatim>\<open>float64\<close> are computed over the reals here and truncated
  toward zero as Go's conversion does; rounding of floats is not modelled.
\<close>

section \<open>Errors\<close>

fun category_text :: "error_category \<Rightarrow> string" where
  "category_text NoCategory = ''''"
| "category_text CatNetwork = ''network''"
| "category_text CatRateLimit = ''rate_limit''"
| "category_text CatTimeout = ''timeout''"
| "category_text CatNotFound = ''not_found''"
| "category_text CatForbidden = ''forbidden''"
| "category_text CatParse = ''parse''"
| "category_text CatValidation = ''validation''"
| "category_text CatDatabase = ''database''"
| "category_text CatQueue = ''queue''"
| "category_text CatStorage = ''storage''"
| "category_text CatConfig = ''config''"
| "category_text CatInternal = ''internal''"

definition CodeValMissingField :: string where "CodeValMissingField = ''VAL_001''"
definition CodeValInvalidFormat :: string where "CodeValInvalidFormat = ''VAL_002''"
definition CodeValContentShort :: string where "CodeValContentShort = ''VAL_003''"
definition CodeValContentLong :: string where "CodeValContentLong = ''VAL_004''"
definition CodeValQualityLow :: string where "CodeValQualityLow = ''VAL_005''"
definition CodeValSpam :: string where "CodeValSpam = ''VAL_006''"

lemmas val_codes =
  CodeValMissingField_def CodeValInvalidFormat_def CodeValContentShort_def
  CodeValContentLong_def CodeValQualityLow_def CodeValSpam_def

text \<open>
  \<^verbatim>\<open>fmt.Sprintf("%d", n)\<close> is decimal notation; the digits of a number and a sign.
\<close>

fun nat_text :: "nat \<Rightarrow> string" where
  "nat_text n = (if n < 10 then [char_of (48 + n)] else nat_text (n div 10) @ [char_of (48 + n mod 10)])"

declare nat_text.simps [simp del]

definition int_text :: "int \<Rightarrow> string" where
  "int_text i = (if i < 0 then ''-'' @ nat_text (nat (- i)) else nat_text (nat i))"

text \<open>The texts of the sentinels; a Go string is its UTF-8 bytes (the dashes of
  \<^verbatim>\<open>ErrPublishSkipped\<close> and \<^verbatim>\<open>ErrLazyContentNeedsBrowser\<close> are three).\<close>

fun sentinel_text :: "sentinel \<Rightarrow> string" where
  "sentinel_text CtxCanceled = ''context canceled''"
| "sentinel_text CtxDeadline = ''context deadline exceeded''"
| "sentinel_text StageGateHeld = ''locks: stage gate held by another worker''"
| "sentinel_text ParserGateNotAcquired = ''parser stage gate not acquired by this worker''"
| "sentinel_text LockNotOwned = ''locks: processing lock no longer owned by this instance''"
| "sentinel_text PublishSkipped =
     ''publish skipped '' @ [CHR 0xE2, CHR 0x80, CHR 0x94] @ '' url already in pipeline''"
| "sentinel_text StorageNotFound = ''record not found''"
| "sentinel_text StorageDuplicate = ''duplicate record''"
| "sentinel_text StorageInvalid = ''invalid record''"
| "sentinel_text LazyContentNeedsBrowser =
     ''lazy loading content detected '' @ [CHR 0xE2, CHR 0x80, CHR 0x94] @ '' chromedp pool republish required''"

fun llm_code_text :: "llm_code \<Rightarrow> string" where
  "llm_code_text LlmNoCode = ''''"
| "llm_code_text LlmAuth = ''auth''"
| "llm_code_text LlmRateLimit = ''rate_limit''"
| "llm_code_text LlmServer = ''server''"
| "llm_code_text LlmBadRequest = ''bad_request''"
| "llm_code_text LlmContextLimit = ''context_limit''"
| "llm_code_text LlmNetwork = ''network''"
| "llm_code_text LlmUnknown = ''unknown''"

fun rule_code_text :: "rule_code \<Rightarrow> string" where
  "rule_code_text RuleNoCode = ''''"
| "rule_code_text ErrInvalidURL = ''invalid_url''"
| "rule_code_text ErrNoRule = ''no_rule''"
| "rule_code_text ErrEmptySelector = ''empty_selector''"
| "rule_code_text ErrParseFailure = ''parse_failure''"

definition in_parens :: "string \<Rightarrow> string \<Rightarrow> string" where
  "in_parens name v = (if v = [] then [] else '' ('' @ name @ ''='' @ v @ '')'')"

text \<open>\<^verbatim>\<open>%q\<close> of a printable ASCII string: quotes and backslashes are escaped.\<close>

definition go_quote :: "string \<Rightarrow> string" where
  "go_quote s =
     CHR 0x22 # concat (map (\<lambda>c. if c = CHR 0x22 \<or> c = CHR 0x5C then [CHR 0x5C, c] else [c]) s)
       @ [CHR 0x22]"

text \<open>
  \<^verbatim>\<open>(*CrawlerError).Is\<close>: an unset field of the target matches everything, a target with
  both unset matches nothing.
\<close>

definition crawler_error_is :: "crawler_error \<Rightarrow> go_error \<Rightarrow> bool" where
  "crawler_error_is e target =
     (case target of
        CrawlerErr t _ \<Rightarrow>
          (if ce_code t \<noteq> [] \<and> ce_code t \<noteq> ce_code e then False
           else if ce_category t \<noteq> NoCategory \<and> ce_category t \<noteq> ce_category e then False
           else ce_code t \<noteq> [] \<or> ce_category t \<noteq> NoCategory)
      | _ \<Rightarrow> False)"

definition mk_crawler_error ::
  "error_category \<Rightarrow> string \<Rightarrow> string \<Rightarrow> string \<Rightarrow> int \<Rightarrow> bool \<Rightarrow> go_error option \<Rightarrow> go_error" where
  "mk_crawler_error cat code message url status retryable err =
     CrawlerErr \<lparr>ce_category = cat, ce_code = code, ce_message = message, ce_source = [],
       ce_url = url, ce_status = status, ce_retryable = retryable\<rparr> err"

definition NewNetworkError :: "string \<Rightarrow> string \<Rightarrow> string \<Rightarrow> go_error option \<Rightarrow> go_error" where
  "NewNetworkError code message url err = mk_crawler_error CatNetwork code message url 0 True err"

definition NewTimeoutError :: "string \<Rightarrow> string \<Rightarrow> string \<Rightarrow> go_error option \<Rightarrow> go_error" where
  "NewTimeoutError code message url err = mk_crawler_error CatTimeout code message url 0 True err"

definition NewRateLimitError :: "string \<Rightarrow> string \<Rightarrow> string \<Rightarrow> int \<Rightarrow> go_error" where
  "NewRateLimitError code message url status =
     mk_crawler_error CatRateLimit code message url status True None"

definition NewParseError :: "string \<Rightarrow> string \<Rightarrow> string \<Rightarrow> go_error option \<Rightarrow> go_error" where
  "NewParseError code message url err = mk_crawler_error CatParse code message url 0 False err"

definition NewValidationError :: "string \<Rightarrow> string \<Rightarrow> go_error option \<Rightarrow> go_error" where
  "NewValidationError code message err = mk_crawler_error CatValidation code message [] 0 False err"

definition NewNotFoundError :: "string \<Rightarrow> go_error" where
  "NewNotFoundError url =
     mk_crawler_error CatNotFound ''HTTP_404'' ''resource not found'' url 404 False None"

definition NewForbiddenError :: "string \<Rightarrow> go_error" where
  "NewForbiddenError url = mk_crawler_error CatForbidden ''HTTP_403'' ''forbidden'' url 403 False None"

definition NewHTTPServerError :: "string \<Rightarrow> int \<Rightarrow> go_error" where
  "NewHTTPServerError url status =
     mk_crawler_error CatNetwork (''HTTP_'' @ int_text status) ''server error'' url status True
       (Some (Opaque (''status code: '' @ int_text status)))"

definition NewHTTPClientError :: "string \<Rightarrow> int \<Rightarrow> go_error" where
  "NewHTTPClientError url status =
     mk_crawler_error CatInternal (''HTTP_'' @ int_text status) ''client error'' url status False
       (Some (Opaque (''status code: '' @ int_text status)))"

definition inheritRetryable :: "go_error option \<Rightarrow> bool \<Rightarrow> bool" where
  "inheritRetryable err dflt =
     (case err of Some (CrawlerErr ce _) \<Rightarrow> ce_retryable ce | _ \<Rightarrow> dflt)"

definition NewDatabaseError :: "string \<Rightarrow> string \<Rightarrow> bool \<Rightarrow> go_error option \<Rightarrow> go_error" where
  "NewDatabaseError code message retryable err =
     mk_crawler_error CatDatabase code message [] 0 (inheritRetryable err retryable) err"

definition NewQueueError :: "string \<Rightarrow> string \<Rightarrow> bool \<Rightarrow> go_error option \<Rightarrow> go_error" where
  "NewQueueError code message retryable err =
     mk_crawler_error CatQueue code message [] 0 (inheritRetryable err retryable) err"

definition NewStorageError :: "string \<Rightarrow> string \<Rightarrow> bool \<Rightarrow> go_error option \<Rightarrow> go_error" where
  "NewStorageError code message retryable err =
     mk_crawler_error CatStorage code message [] 0 (inheritRetryable err retryable) err"

definition NewConfigError :: "string \<Rightarrow> string \<Rightarrow> go_error option \<Rightarrow> go_error" where
  "NewConfigError code message err = mk_crawler_error CatConfig code message [] 0 False err"

definition NewInternalError :: "string \<Rightarrow> string \<Rightarrow> go_error option \<Rightarrow> go_error" where
  "NewInternalError code message err = mk_crawler_error CatInternal code message [] 0 False err"

text \<open>The error text, with \<^verbatim>\<open>errors.Join\<close> separating its members by a newline.\<close>

fun error_text :: "go_error \<Rightarrow> string" where
  "error_text (Sentinel s) = sentinel_text s"
| "error_text (Opaque t) = t"
| "error_text (Wrapped t e) = t @ '': '' @ error_text e"
| "error_text (Annotated t e u) = t @ error_text e @ u"
| "error_text (Joined []) = []"
| "error_text (Joined (e # es)) =
     error_text e @ concat (map (\<lambda>x. CHR 0x0A # error_text x) es)"
| "error_text (CircuitOpen src) = ''circuit breaker open for source '' @ go_quote src"
| "error_text (CrawlerErr c eo) =
     ''['' @ category_text (ce_category c) @ '':'' @ ce_code c @ ''] '' @ ce_message c
       @ (case eo of None \<Rightarrow> [] | Some e \<Rightarrow> '': '' @ error_text e)"
| "error_text (LlmErr l eo) =
     ''[llm:'' @ le_provider l @ '':'' @ llm_code_text (le_code l) @ ''] '' @ le_message l
       @ (case eo of None \<Rightarrow> [] | Some e \<Rightarrow> '': '' @ error_text e)"
| "error_text (RuleErr r eo) =
     ''[rule:'' @ rule_code_text (rer_code r) @ ''] '' @ rer_message r @ in_parens ''host'' (rer_host r)
       @ in_parens ''url'' (rer_url r) @ in_parens ''type'' (rer_type r)
       @ (case eo of None \<Rightarrow> [] | Some e \<Rightarrow> '': '' @ error_text e)"

text \<open>\<^verbatim>\<open>rule.Error.Is\<close>: the fields the target sets must agree.\<close>

definition rule_error_is :: "rule_error \<Rightarrow> rule_error \<Rightarrow> bool" where
  "rule_error_is e t \<longleftrightarrow>
     (rer_code t \<noteq> RuleNoCode \<longrightarrow> rer_code e = rer_code t)
     \<and> (rer_host t \<noteq> [] \<longrightarrow> rer_host e = rer_host t)
     \<and> (rer_url t \<noteq> [] \<longrightarrow> rer_url e = rer_url t)
     \<and> (rer_type t \<noteq> [] \<longrightarrow> rer_type e = rer_type t)"

section \<open>HTTP statuses\<close>

definition CheckHTTPStatus :: "string \<Rightarrow> int \<Rightarrow> go_error option" where
  "CheckHTTPStatus url status =
     (if status = 404 then Some (NewNotFoundError url)
      else if status = 429 then Some (NewRateLimitError ''HTTP_429'' ''rate limited'' url status)
      else if status \<ge> 500 then Some (NewHTTPServerError url status)
      else if status \<ge> 400 then Some (NewHTTPClientError url status)
      else None)"

section \<open>Retry policy\<close>

record retry_policy =
  rp_max_attempts :: int
  rp_initial :: duration
  rp_max_delay :: duration
  rp_multiplier :: real
  rp_jitter :: bool
  rp_retryable :: "error_category list"

definition DefaultRetryPolicy :: retry_policy where
  "DefaultRetryPolicy =
     \<lparr>rp_max_attempts = 3, rp_initial = 1 * second, rp_max_delay = 30 * second,
      rp_multiplier = 2, rp_jitter = True,
      rp_retryable = [CatNetwork, CatTimeout, CatRateLimit]\<rparr>"

text \<open>Go's conversion of a float to an integer drops the fraction.\<close>

definition trunc :: "real \<Rightarrow> int" where
  "trunc x = (if 0 \<le> x then \<lfloor>x\<rfloor> else \<lceil>x\<rceil>)"

text \<open>\<open>rnd\<close> is the number \<^verbatim>\<open>rand.Float64()\<close> draws.\<close>

definition CalculateBackoff :: "real \<Rightarrow> retry_policy \<Rightarrow> int \<Rightarrow> duration" where
  "CalculateBackoff rnd policy attempt =
     (let delay = of_int (rp_initial policy) * (rp_multiplier policy powi (attempt - 1));
          delay = (if delay > of_int (rp_max_delay policy) then of_int (rp_max_delay policy) else delay);
          delay = (if rp_jitter policy
                   then (let jitter = delay * (1 / 4) * (rnd * 2 - 1) in delay + jitter)
                   else delay)
      in trunc delay)"

definition IsRetryable :: "go_error \<Rightarrow> retry_policy \<Rightarrow> bool" where
  "IsRetryable err policy =
     (case as_crawler err of
        Some ce \<Rightarrow>
          (if \<not> ce_retryable ce then False
           else list_ex (\<lambda>cat. ce_category ce = cat) (rp_retryable policy))
      | None \<Rightarrow>
          (if is_sentinel CtxCanceled err \<or> is_sentinel CtxDeadline err then False else False))"

text \<open>
  The loop of \<^verbatim>\<open>WithRetry\<close>. A call of the function and a backoff wait (which answers
  the context's error when the context ends first) are external calls; \<open>rnd\<close> gives the
  random draw of each attempt. The first argument of type \<^typ>\<open>nat\<close> counts the attempts
  left, \<open>lastErr\<close> is the local variable.
\<close>

datatype retry_action = CallFn | WaitBackoff duration

fun retry_loop ::
  "(retry_action, 'w) io \<Rightarrow> (int \<Rightarrow> real) \<Rightarrow> retry_policy \<Rightarrow> nat \<Rightarrow> int \<Rightarrow> go_error option
     \<Rightarrow> (retry_action, 'w) sys \<Rightarrow> go_error option \<times> (retry_action, 'w) sys" where
  "retry_loop io rnd policy 0 attempt lastErr s = (lastErr, s)"
| "retry_loop io rnd policy (Suc left) attempt lastErr s =
     (let (ctx, s1) = (if attempt > 0
                       then perform io (WaitBackoff (CalculateBackoff (rnd attempt) policy attempt)) s
                       else (None, s))
      in case ctx of
           Some e \<Rightarrow> (Some e, s1)
         | None \<Rightarrow>
             (case perform io CallFn s1 of
                (None, s2) \<Rightarrow> (None, s2)
              | (Some err, s2) \<Rightarrow>
                  if \<not> IsRetryable err policy then (Some err, s2)
                  else retry_loop io rnd policy left (attempt + 1) (Some err) s2))"

definition WithRetry ::
  "(retry_action, 'w) io \<Rightarrow> (int \<Rightarrow> real) \<Rightarrow> retry_policy \<Rightarrow> (retry_action, 'w) sys
     \<Rightarrow> go_error option \<times> (retry_action, 'w) sys" where
  "WithRetry io rnd policy s = retry_loop io rnd policy (nat (rp_max_attempts policy)) 0 None s"

section \<open>Jobs and contents\<close>

text \<open>
  \<^verbatim>\<open>Priority\<close> is a Go integer type with three named values, so other values can occur.
\<close>

type_synonym priority = int

definition PriorityHigh :: priority where "PriorityHigh = 1"
definition PriorityNormal :: priority where "PriorityNormal = 2"
definition PriorityLow :: priority where "PriorityLow = 3"

lemmas priorities = PriorityHigh_def PriorityNormal_def PriorityLow_def

text \<open>
  A value of \<^verbatim>\<open>map[string]interface{}\<close>: the code tells strings, \<^verbatim>\<open>float64\<close>, \<^verbatim>\<open>int\<close> and bytes apart by type
  assertion, every other dynamic type is \<open>MOther\<close>.
\<close>

datatype meta_value = MStr string | MNum real | MInt int | MBytes bytes | MOther

type_synonym metadata = "string \<rightharpoonup> meta_value"

record target =
  tg_url :: string
  tg_type :: string
  tg_meta :: metadata

definition TargetTypeSitemap :: string where "TargetTypeSitemap = ''sitemap''"
definition TargetTypeArticle :: string where "TargetTypeArticle = ''article''"
definition TargetTypeCategory :: string where "TargetTypeCategory = ''category''"
definition TargetTypeSearchResults :: string where "TargetTypeSearchResults = ''search_results''"

record crawl_job =
  job_id :: string
  job_crawler :: string
  job_target :: target
  job_priority :: priority
  job_scheduled_at :: gotime
  job_timeout :: duration
  job_retry_count :: int
  job_max_retries :: int

record source_info =
  si_country :: string
  si_type :: string
  si_name :: string
  si_base_url :: string
  si_language :: string

record content_ref =
  cr_id :: string
  cr_url :: string
  cr_country :: string
  cr_source :: source_info

record processing_message =
  pm_id :: string
  pm_timestamp :: gotime
  pm_country :: string
  pm_stage :: string
  pm_data :: bytes
  pm_metadata :: metadata
  pm_retry_count :: int

text \<open>The fields of \<^verbatim>\<open>core.Content\<close>; \<open>None\<close> for a zero \<^verbatim>\<open>PublishedAt\<close>.\<close>

record content =
  c_id :: string
  c_source_id :: string
  c_source_type :: string
  c_country :: string
  c_language :: string
  c_title :: string
  c_body :: string
  c_summary :: string
  c_author :: string
  c_published_at :: "gotime option"
  c_updated_at :: "gotime option"
  c_category :: string
  c_tags :: "string list"
  c_url :: string
  c_canonical_url :: string
  c_image_urls :: "string list"
  c_content_hash :: string
  c_word_count :: int
  c_reliability :: real
  c_article :: bool
  c_extra :: metadata
  c_created_at :: gotime

record raw_content =
  rc_id :: string
  rc_source :: source_info
  rc_fetched_at :: gotime
  rc_url :: string
  rc_html :: string
  rc_status :: int
  rc_headers :: headers
  rc_meta :: metadata

text \<open>
  \<open>tok\<close> is the eight hex digits \<^verbatim>\<open>newRawContentID\<close> makes of four random bytes; a nil
  header map is \<open>None\<close>.
\<close>

definition newRawContentID :: "string \<Rightarrow> string \<Rightarrow> gotime \<Rightarrow> string" where
  "newRawContentID tok name t = name @ ''-'' @ int_text t @ ''-'' @ tok"

definition NewRawContent ::
  "string \<Rightarrow> gotime \<Rightarrow> string \<Rightarrow> source_info \<Rightarrow> target \<Rightarrow> string \<Rightarrow> int \<Rightarrow> headers option \<Rightarrow> raw_content" where
  "NewRawContent tok now name source tgt html status hs =
     \<lparr>rc_id = newRawContentID tok name now, rc_source = source, rc_fetched_at = now,
      rc_url = tg_url tgt, rc_html = html, rc_status = status,
      rc_headers = (case hs of None \<Rightarrow> Map.empty | Some h \<Rightarrow> h), rc_meta = tg_meta tgt\<rparr>"

section \<open>Headers carried through a stage\<close>

text \<open>\<^verbatim>\<open>precheck.Verdict\<close> on a URL.\<close>

datatype verdict = VerdictAllow | VerdictDrop | VerdictExtractLinksOnly

definition HeaderTargetType :: string where "HeaderTargetType = ''target_type''"
definition HeaderCrawler :: string where "HeaderCrawler = ''crawler''"
definition HeaderTimeoutMs :: string where "HeaderTimeoutMs = ''timeout_ms''"
definition HeaderValidateReparseCount :: string where
  "HeaderValidateReparseCount = ''validate_reparse_count''"
definition HeaderValidateReparseReason :: string where
  "HeaderValidateReparseReason = ''validate_reparse_reason''"
definition HeaderGateSkipCount :: string where "HeaderGateSkipCount = ''gate_skip_count''"

lemmas header_names =
  HeaderTargetType_def HeaderCrawler_def HeaderTimeoutMs_def HeaderValidateReparseCount_def
  HeaderValidateReparseReason_def HeaderGateSkipCount_def

definition MaxValidateReparseCount :: int where "MaxValidateReparseCount = 2"

text \<open>
  The context carries at most one header map; \<^verbatim>\<open>len(headers) == 0\<close> leaves the context as
  it is. Map values are immutable here, so the defensive copy is the map itself.
\<close>

definition WithInboxHeaders :: "headers option \<Rightarrow> headers \<Rightarrow> headers option" where
  "WithInboxHeaders ctx hs = (if hs = Map.empty then ctx else Some hs)"

definition propagatedInboxHeaderKeys :: "string list" where
  "propagatedInboxHeaderKeys =
     [HeaderValidateReparseCount, HeaderValidateReparseReason, HeaderGateSkipCount,
      ''x-trace-id'', ''x-request-id'']"

definition propagate_key :: "headers \<Rightarrow> string \<Rightarrow> headers \<Rightarrow> headers" where
  "propagate_key inbox k outgoing =
     (if outgoing k \<noteq> None then outgoing
      else if hget inbox k \<noteq> [] then outgoing(k \<mapsto> hget inbox k) else outgoing)"

definition PropagateInboxHeaders :: "headers option \<Rightarrow> headers \<Rightarrow> headers" where
  "PropagateInboxHeaders ctx outgoing =
     (case ctx of
        None \<Rightarrow> outgoing
      | Some inbox \<Rightarrow> fold (propagate_key inbox) propagatedInboxHeaderKeys outgoing)"

section \<open>Lemmas\<close>

lemma trunc_le: "x \<le> y \<Longrightarrow> trunc x \<le> trunc y"
  by (auto simp: trunc_def floor_mono ceiling_mono intro: order_trans [of _ 0])

lemma trunc_of_int: "trunc (of_int i) = i"
  by (simp add: trunc_def)

lemma trunc_nonneg: "0 \<le> x \<Longrightarrow> 0 \<le> trunc x \<and> of_int (trunc x) \<le> x \<and> x < of_int (trunc x) + 1"
  by (simp add: trunc_def)

text \<open>The delay before jitter.\<close>

definition backoff_base :: "retry_policy \<Rightarrow> int \<Rightarrow> real" where
  "backoff_base policy attempt =
     min (of_int (rp_max_delay policy))
         (of_int (rp_initial policy) * (rp_multiplier policy powi (attempt - 1)))"

lemma CalculateBackoff_base:
  "CalculateBackoff rnd policy attempt =
     trunc (backoff_base policy attempt * (if rp_jitter policy then 1 + (rnd * 2 - 1) / 4 else 1))"
proof -
  have cap: "(if x > m then m else x) = min m x" for x m :: real by simp
  have jit: "x + x * (1 / 4) * (rnd * 2 - 1) = x * (1 + (rnd * 2 - 1) / 4)" for x :: real
    by (simp add: field_simps)
  show ?thesis
    unfolding CalculateBackoff_def backoff_base_def Let_def cap jit by simp
qed

lemma backoff_base_nonneg:
  assumes "0 \<le> rp_initial policy" and "0 \<le> rp_max_delay policy" and "0 < rp_multiplier policy"
  shows "0 \<le> backoff_base policy attempt"
  using assms by (simp add: backoff_base_def min_def)

lemma IsRetryable_wrap [simp]:
  "IsRetryable (Wrapped t e) policy = IsRetryable e policy"
  "\<not> IsRetryable (Sentinel s) policy"
  by (simp_all add: IsRetryable_def)

abbreviation fn_calls :: "(retry_action \<times> go_error option) list \<Rightarrow> (retry_action \<times> go_error option) list" where
  "fn_calls tr \<equiv> filter (\<lambda>c. fst c = CallFn) tr"

text \<open>What a trace of the loop and its result have to do with each other.\<close>

definition retry_outcome ::
  "retry_policy \<Rightarrow> nat \<Rightarrow> (retry_action \<times> go_error option) list \<Rightarrow> go_error option \<Rightarrow> bool" where
  "retry_outcome policy n tr r \<longleftrightarrow>
     tr \<noteq> [] \<and> length (fn_calls tr) \<le> n
     \<and> (\<forall>c \<in> set (butlast tr). fst c = CallFn \<longrightarrow> (\<exists>e. snd c = Some e \<and> IsRetryable e policy))
     \<and> (case r of
          None \<Rightarrow> last tr = (CallFn, None)
        | Some e \<Rightarrow>
            (last tr = (CallFn, Some e) \<and> (IsRetryable e policy \<longrightarrow> length (fn_calls tr) = n))
            \<or> (\<exists>d. last tr = (WaitBackoff d, Some e)))"

lemma retry_outcome_call:
  "retry_outcome policy (Suc n) [(CallFn, None)] None"
  "\<not> IsRetryable e policy \<Longrightarrow> retry_outcome policy (Suc n) [(CallFn, Some e)] (Some e)"
  "retry_outcome policy (Suc 0) [(CallFn, Some e)] (Some e)"
  "retry_outcome policy (Suc n) [(WaitBackoff d, Some e)] (Some e)"
  by (simp_all add: retry_outcome_def)

lemma retry_outcome_cons:
  "retry_outcome policy n tr r \<Longrightarrow> IsRetryable e policy
     \<Longrightarrow> retry_outcome policy (Suc n) ((CallFn, Some e) # tr) r"
  "retry_outcome policy n tr r \<Longrightarrow> retry_outcome policy n ((WaitBackoff d, a) # tr) r"
  by (auto simp: retry_outcome_def split: option.splits)

lemma retry_loop_outcome:
  assumes "retry_loop io rnd policy (Suc n) attempt le s = (r, s')"
  shows "\<exists>tr. snd s' = snd s @ tr \<and> retry_outcome policy (Suc n) tr r"
  using assms
proof (induction n arbitrary: attempt le s)
  case 0
  then show ?case
    by (auto dest!: perform_trace intro: retry_outcome_call simp: retry_outcome_def
        split: prod.splits if_splits option.splits)
next
  case (Suc n)
  obtain ctx s1 where w: "(if attempt > 0
      then perform io (WaitBackoff (CalculateBackoff (rnd attempt) policy attempt)) s
      else (None, s)) = (ctx, s1)" by (rule prod.exhaust)
  then obtain pre where pre: "snd s1 = snd s @ pre"
    "pre = [] \<and> ctx = None \<or> (\<exists>d. pre = [(WaitBackoff d, ctx)])"
  proof (cases "attempt > 0")
    case True
    then have "perform io (WaitBackoff (CalculateBackoff (rnd attempt) policy attempt)) s = (ctx, s1)"
      using w by simp
    then show ?thesis by (intro that [OF perform_trace]) auto
  next
    case False
    then show ?thesis using w that [of "[]"] by simp
  qed
  obtain a s2 where c: "perform io CallFn s1 = (a, s2)" by (rule prod.exhaust)
  show ?case
  proof (cases ctx)
    case (Some e)
    then show ?thesis
      using Suc.prems w pre by (auto intro: retry_outcome_call)
  next
    case None
    have "\<exists>tr. snd s' = snd s1 @ tr \<and> retry_outcome policy (Suc (Suc n)) tr r"
    proof (cases "\<exists>e. a = Some e \<and> IsRetryable e policy")
      case True
      then obtain e where e: "a = Some e" "IsRetryable e policy" by blast
      then have "retry_loop io rnd policy (Suc n) (attempt + 1) (Some e) s2 = (r, s')"
        using Suc.prems w c None by simp
      from Suc.IH [OF this] show ?thesis
        using perform_trace [OF c] e by (auto intro: retry_outcome_cons)
    next
      case False
      then show ?thesis
        using Suc.prems w c None perform_trace [OF c]
        by (auto intro: retry_outcome_call split: option.splits)
    qed
    then show ?thesis
      using pre by (auto intro: retry_outcome_cons)
  qed
qed

lemma propagate_fold:
  "distinct ks \<Longrightarrow> fold (propagate_key inbox) ks out k =
     (if out k = None \<and> k \<in> set ks \<and> hget inbox k \<noteq> [] then Some (hget inbox k) else out k)"
proof (induction ks arbitrary: out)
  case (Cons a ks)
  then show ?case by (auto simp: propagate_key_def)
qed simp

section \<open>Properties\<close>

text \<open>The backoff before attempt k stays within a quarter of the capped exponential
  min(MaxDelay, InitialDelay * Multiplier^(k-1)): it is never negative and never more than
  1.25 times MaxDelay, whatever the random draw; without jitter it is the capped exponential
  itself, which does not shrink from one attempt to the next when the multiplier is at least 1.\<close>
theorem backoff_bounds:
  assumes "0 \<le> rp_initial policy" and "0 \<le> rp_max_delay policy" and "1 \<le> rp_multiplier policy"
    and "0 \<le> rnd" and "rnd < 1" and "1 \<le> attempt"
  shows "0 \<le> CalculateBackoff rnd policy attempt
    \<and> 3 / 4 * backoff_base policy attempt - 1 < of_int (CalculateBackoff rnd policy attempt)
    \<and> of_int (CalculateBackoff rnd policy attempt) \<le> 5 / 4 * backoff_base policy attempt
    \<and> of_int (CalculateBackoff rnd policy attempt) \<le> 5 / 4 * (of_int (rp_max_delay policy) :: real)
    \<and> (\<not> rp_jitter policy \<longrightarrow>
         CalculateBackoff rnd policy attempt \<le> rp_max_delay policy
         \<and> CalculateBackoff rnd policy attempt \<le> CalculateBackoff rnd policy (attempt + 1))"
proof -
  define f where "f = (if rp_jitter policy then 1 + (rnd * 2 - 1) / 4 else 1)"
  define b where "b = backoff_base policy attempt"
  have f: "3 / 4 \<le> f" "f \<le> 5 / 4" using assms(4,5) by (auto simp: f_def field_simps)
  have b0: "0 \<le> b" using assms by (simp add: b_def backoff_base_nonneg)
  have bm: "b \<le> of_int (rp_max_delay policy)" by (simp add: b_def backoff_base_def)
  have d: "CalculateBackoff rnd policy attempt = trunc (b * f)"
    by (simp add: CalculateBackoff_base b_def f_def)
  have bf: "3 / 4 * b \<le> b * f" "b * f \<le> 5 / 4 * b"
    using mult_left_mono [OF f(1) b0] mult_left_mono [OF f(2) b0] by (simp_all add: mult.commute)
  then have t: "0 \<le> trunc (b * f)" "of_int (trunc (b * f)) \<le> b * f" "b * f < of_int (trunc (b * f)) + 1"
    using trunc_nonneg [of "b * f"] b0 by auto
  have grow: "b \<le> backoff_base policy (attempt + 1)"
  proof -
    have "rp_multiplier policy powi (attempt - 1) \<le> rp_multiplier policy powi attempt"
      using assms(3) by (intro power_int_increasing) auto
    then have "of_int (rp_initial policy) * rp_multiplier policy powi (attempt - 1)
        \<le> of_int (rp_initial policy) * rp_multiplier policy powi attempt"
      using assms(1) by (intro mult_left_mono) auto
    then show ?thesis by (simp add: b_def backoff_base_def min.coboundedI2)
  qed
  have nojit: "CalculateBackoff rnd policy attempt \<le> rp_max_delay policy
      \<and> CalculateBackoff rnd policy attempt \<le> CalculateBackoff rnd policy (attempt + 1)"
    if "\<not> rp_jitter policy"
    using that trunc_le [OF grow] trunc_le [OF bm]
    by (simp add: CalculateBackoff_base b_def trunc_of_int)
  show ?thesis
    using t bf bm nojit unfolding d b_def [symmetric] by auto
qed

theorem backoff_bounds_witness:
  "CalculateBackoff 0 (DefaultRetryPolicy\<lparr>rp_jitter := False\<rparr>) 2 \<le> 30 * second"
  using backoff_bounds [of "DefaultRetryPolicy\<lparr>rp_jitter := False\<rparr>" 0 2]
  by (simp add: DefaultRetryPolicy_def)

text \<open>WithRetry calls the function at least once and at most MaxAttempts times; every call
  before the last one failed with a retryable error; it returns nil exactly when the last call
  succeeded, and an error only when that call's error is not retryable, the attempts are used
  up, or the context ended during a backoff. With MaxAttempts at most 0 it returns nil without
  having called the function.\<close>
theorem WithRetry_outcome:
  assumes "WithRetry io rnd policy (w, []) = (r, (w', tr))"
  shows "if rp_max_attempts policy \<le> 0 then r = None \<and> tr = []
         else retry_outcome policy (nat (rp_max_attempts policy)) tr r"
proof (cases "rp_max_attempts policy \<le> 0")
  case True
  then show ?thesis using assms by (simp add: WithRetry_def)
next
  case False
  then obtain n where "nat (rp_max_attempts policy) = Suc n"
    by (cases "nat (rp_max_attempts policy)") auto
  then show ?thesis
    using assms False retry_loop_outcome [of io rnd policy n 0 None "(w, [])" r "(w', tr)"]
    by (simp add: WithRetry_def)
qed

theorem WithRetry_outcome_witness:
  "retry_outcome DefaultRetryPolicy 3
     (snd (snd (WithRetry (\<lambda>a n. (if n = (0::nat) \<and> a = CallFn then Some (NewNetworkError [] [] [] None) else None,
       if a = CallFn then n + 1 else n)) (\<lambda>_. 0) DefaultRetryPolicy (0, [])))) None"
proof -
  let ?io = "\<lambda>a n. (if n = (0::nat) \<and> a = CallFn then Some (NewNetworkError [] [] [] None) else None,
       if a = CallFn then n + 1 else n)"
  obtain w tr where r: "WithRetry ?io (\<lambda>_. 0) DefaultRetryPolicy (0, []) = (None, (w, tr))"
    by (auto simp: WithRetry_def DefaultRetryPolicy_def numeral_3_eq_3 perform_def
        NewNetworkError_def mk_crawler_error_def IsRetryable_def)
  show ?thesis
    using WithRetry_outcome [OF r] unfolding r by (simp add: DefaultRetryPolicy_def)
qed

text \<open>Which HTTP statuses are errors and which of them the default policy retries: every
  status from 400 on is an error, 429 and 5xx are retried, all other errors are not, also when
  the error is wrapped on its way up.\<close>
theorem http_status_retry:
  "(CheckHTTPStatus url status = None \<longleftrightarrow> status < 400)
   \<and> (case CheckHTTPStatus url status of
        None \<Rightarrow> True
      | Some e \<Rightarrow> IsRetryable (Wrapped ctx e) DefaultRetryPolicy
                    = (status = 429 \<or> status \<ge> 500))"
  by (simp add: CheckHTTPStatus_def IsRetryable_def NewNotFoundError_def NewRateLimitError_def
      NewHTTPServerError_def NewHTTPClientError_def mk_crawler_error_def DefaultRetryPolicy_def)

text \<open>A stage forwards exactly the listed headers of the inbound message, and never one
  that the outgoing message already sets.\<close>
theorem propagate_headers_spec:
  "PropagateInboxHeaders ctx out k =
     (case ctx of
        None \<Rightarrow> out k
      | Some inbox \<Rightarrow>
          if out k = None \<and> k \<in> set propagatedInboxHeaderKeys \<and> hget inbox k \<noteq> []
          then Some (hget inbox k) else out k)"
proof -
  have "distinct propagatedInboxHeaderKeys"
    by (simp add: propagatedInboxHeaderKeys_def header_names)
  then show ?thesis
    by (simp add: PropagateInboxHeaders_def propagate_fold split: option.split)
qed

end
