(* ===== verification/Bus.thy ===== *)
theory Bus
  imports CrawlCore
begin

text \<open>
  The message bus shared by all workers: \<^verbatim>\<open>pkg/queue\<close> messages and topics, the
  \<^verbatim>\<open>bus.Publisher\<close> primitives of \<^verbatim>\<open>internal/bus/worker.go\<close> (\<^verbatim>\<open>Forward\<close>,
  \<^verbatim>\<open>PublishJob\<close>, \<^verbatim>\<open>buildMessage\<close>), the immediate retry scheduler and the retry headers
  of \<^verbatim>\<open>internal/bus/retry.go\<close>, the commit with its drain retry of
  \<^verbatim>\<open>internal/workerpool/pool.go\<close>, and the header helpers of the priority queue.

  Kafka is the producer and consumer behind the actions \<open>Publish\<close> and \<open>Commit\<close>; JSON
  encoding of a job is a field of the publisher, since it can fail.
\<close>

section \<open>Messages and topics\<close>

record message =
  m_topic :: string
  m_partition :: int
  m_offset :: int
  m_key :: bytes
  m_value :: bytes
  m_headers :: headers
  m_time :: "gotime option"

definition new_message :: "string \<Rightarrow> bytes \<Rightarrow> bytes \<Rightarrow> headers \<Rightarrow> message" where
  "new_message topic key val hs =
     \<lparr>m_topic = topic, m_partition = 0, m_offset = 0, m_key = key, m_value = val,
      m_headers = hs, m_time = None\<rparr>"

lemma new_message_simps [simp]:
  "m_topic (new_message t k v h) = t" "m_key (new_message t k v h) = k"
  "m_value (new_message t k v h) = v" "m_headers (new_message t k v h) = h"
  by (simp_all add: new_message_def)

definition TopicCrawlHigh :: string where "TopicCrawlHigh = ''issuetracker.crawl.high''"
definition TopicCrawlNormal :: string where "TopicCrawlNormal = ''issuetracker.crawl.normal''"
definition TopicCrawlLow :: string where "TopicCrawlLow = ''issuetracker.crawl.low''"
definition TopicFetched :: string where "TopicFetched = ''issuetracker.fetched''"
definition TopicNormalized :: string where "TopicNormalized = ''issuetracker.normalized''"
definition TopicValidated :: string where "TopicValidated = ''issuetracker.validated''"
definition TopicDLQ :: string where "TopicDLQ = ''issuetracker.dlq''"

lemmas topics =
  TopicCrawlHigh_def TopicCrawlNormal_def TopicCrawlLow_def TopicFetched_def
  TopicNormalized_def TopicValidated_def TopicDLQ_def

definition CrawlTopic :: "priority \<Rightarrow> string" where
  "CrawlTopic p =
     (if p = PriorityHigh then TopicCrawlHigh
      else if p = PriorityLow then TopicCrawlLow
      else TopicCrawlNormal)"

definition DefaultMaxRetries :: int where "DefaultMaxRetries = 3"

section \<open>Calls the workers make\<close>

text \<open>
  The external calls of the workers: the bus, the retry scheduler, the stage gate, the job
  handler, the content and raw stores, a timer, the rule parser, the counters and queues
  that follow a failed parse, the models of the enrich stage. \<open>GateRelease\<close> is the deferred
  call of the release function.
\<close>

datatype act =
    Publish message
  | PublishBatch "message list"
  | Commit message
  | EnqueueRetry crawl_job "go_error option"
  | WaitDelay duration
  | GateAcquire string
  | GateRelease string
  | HandleJob crawl_job
  | StoreContent content
  | LoadContent string
  | SetStatus string string string string
  | DeleteContent string
  | LoadRaw string
  | DeleteRaw string
  | ParseRaw string
  | PublishChain string "string list" string duration
  | ReleaseMarker string
  | CountFailure string string
  | TrackRaw string string
  | TriggerUpgrade string
  | CountStale string string
  | EnqueueLLM bool string string string int string duration
  | InsertSample int string
  | PurgeRaws gotime
  | CallModel string string
  | UpsertEnriched string

text \<open>
  \<^verbatim>\<open>workerpool.CommitWithDrain\<close>: a canceled commit is tried again under a drain context.
\<close>

definition CommitWithDrain ::
  "(act, 'w) io \<Rightarrow> message \<Rightarrow> (act, 'w) sys \<Rightarrow> go_error option \<times> (act, 'w) sys" where
  "CommitWithDrain io m s =
     (case perform io (Commit m) s of
        (None, s1) \<Rightarrow> (None, s1)
      | (Some e, s1) \<Rightarrow>
          if \<not> is_canceled e then (Some (Wrapped ''commit offset'' e), s1)
          else (case perform io (Commit m) s1 of
                  (None, s2) \<Rightarrow> (None, s2)
                | (Some e2, s2) \<Rightarrow>
                    (Some (Wrapped ''commit offset (drain retry failed)'' (Joined [e, e2])), s2)))"

lemma CommitWithDrain_did [io_did_rules]:
  "CommitWithDrain io m s = (r, s') \<Longrightarrow> did b s' \<longleftrightarrow> did b s \<or> (b = Commit m \<and> r = None)"
  by (auto simp: CommitWithDrain_def perform_did split: prod.splits option.splits if_splits)

lemma CommitWithDrain_attempted:
  "CommitWithDrain io m s = (r, s') \<Longrightarrow> attempted b s' \<longleftrightarrow> attempted b s \<or> b = Commit m"
  by (auto simp: CommitWithDrain_def perform_attempted split: prod.splits option.splits if_splits)

section \<open>The publisher\<close>

text \<open>
  The parts of \<^verbatim>\<open>bus.Publisher\<close> that its primitives read. A nil publisher is \<open>None\<close>, a
  publisher without a producer has \<open>pub_wired = False\<close>. DLQ metrics are left out.
\<close>

record publisher =
  pub_wired :: bool
  pub_resolver :: "(crawl_job \<Rightarrow> priority) option"
  pub_marshal :: "crawl_job \<Rightarrow> go_error + bytes"

definition Forward ::
  "(act, 'w) io \<Rightarrow> publisher option \<Rightarrow> message \<Rightarrow> (act, 'w) sys \<Rightarrow> go_error option \<times> (act, 'w) sys" where
  "Forward io p m s =
     (case p of
        None \<Rightarrow> (Some (Opaque ''publisher: Forward called on nil *Publisher''), s)
      | Some pub \<Rightarrow>
          if \<not> pub_wired pub then (Some (Opaque ''publisher: producer not wired''), s)
          else perform io (Publish m) s)"

lemma Forward_did [io_did_rules]:
  "Forward io p m s = (r, s') \<Longrightarrow> did b s' \<longleftrightarrow> did b s \<or> (b = Publish m \<and> r = None)"
  by (auto simp: Forward_def perform_did split: option.splits if_splits)

definition buildMessage :: "publisher \<Rightarrow> crawl_job \<Rightarrow> go_error + message" where
  "buildMessage p job =
     (let j = (case pub_resolver p of None \<Rightarrow> job | Some f \<Rightarrow> job\<lparr>job_priority := f job\<rparr>)
      in case pub_marshal p j of
           Inl err \<Rightarrow> Inl (Wrapped (''marshal job '' @ job_id j) err)
         | Inr data \<Rightarrow>
             Inr (new_message (CrawlTopic (job_priority j)) (job_id j) data
                    [''crawler'' \<mapsto> job_crawler j, ''priority'' \<mapsto> int_text (job_priority j)]))"

definition PublishJob ::
  "(act, 'w) io \<Rightarrow> publisher option \<Rightarrow> crawl_job option \<Rightarrow> (act, 'w) sys
     \<Rightarrow> go_error option \<times> (act, 'w) sys" where
  "PublishJob io p jo s =
     (case p of
        None \<Rightarrow> (Some (Opaque ''publisher: PublishJob called on nil *Publisher''), s)
      | Some pub \<Rightarrow>
         (case jo of
            None \<Rightarrow> (Some (Opaque ''publisher: PublishJob called with nil job''), s)
          | Some job \<Rightarrow>
             (case buildMessage pub job of
                Inl err \<Rightarrow> (Some err, s)
              | Inr m \<Rightarrow> Forward io p m s)))"

definition PublishUpgrade ::
  "(act, 'w) io \<Rightarrow> string \<Rightarrow> message list \<Rightarrow> (act, 'w) sys \<Rightarrow> go_error option \<times> (act, 'w) sys" where
  "PublishUpgrade io host msgs s =
     (if msgs = [] then (None, s)
      else (case perform io (PublishBatch msgs) s of
              (Some err, s1) \<Rightarrow>
                (Some (Wrapped (''upgrade publish batch (host='' @ host @ '', count=''
                         @ int_text (int (length msgs)) @ '')'') err), s1)
            | (None, s1) \<Rightarrow> (None, s1)))"

section \<open>Retries\<close>

definition applyRetryHeaders :: "crawl_job \<Rightarrow> go_error option \<Rightarrow> headers \<Rightarrow> headers" where
  "applyRetryHeaders job lastErr h =
     (let h1 = h(''retry-count'' \<mapsto> int_text (job_retry_count job));
          h2 = (case lastErr of None \<Rightarrow> h1 | Some e \<Rightarrow> h1(''last-error'' \<mapsto> error_text e))
      in case tg_meta (job_target job) HeaderGateSkipCount of
           Some (MStr str) \<Rightarrow> if str \<noteq> [] then h2(HeaderGateSkipCount \<mapsto> str) else h2
         | _ \<Rightarrow> h2)"

definition kafka_immediate_enqueue ::
  "(act, 'w) io \<Rightarrow> publisher \<Rightarrow> crawl_job \<Rightarrow> go_error option \<Rightarrow> (act, 'w) sys
     \<Rightarrow> go_error option \<times> (act, 'w) sys" where
  "kafka_immediate_enqueue io p job lastErr s =
     (case buildMessage p job of
        Inl err \<Rightarrow> (Some (Wrapped ''build retry message'' err), s)
      | Inr m \<Rightarrow>
         (case Forward io (Some p) (m\<lparr>m_headers := applyRetryHeaders job lastErr (m_headers m)\<rparr>) s of
            (Some err, s1) \<Rightarrow> (Some (Wrapped (''publish retry job '' @ job_id job) err), s1)
          | (None, s1) \<Rightarrow> (None, s1)))"

text \<open>
  The scheduler a worker resolves: the one injected (\<open>delayed\<close>), or the immediate one.
\<close>

definition retry_enqueue ::
  "bool \<Rightarrow> (act, 'w) io \<Rightarrow> publisher \<Rightarrow> crawl_job \<Rightarrow> go_error option \<Rightarrow> (act, 'w) sys
     \<Rightarrow> go_error option \<times> (act, 'w) sys" where
  "retry_enqueue delayed io p job lastErr s =
     (if delayed then perform io (EnqueueRetry job lastErr) s
      else kafka_immediate_enqueue io p job lastErr s)"

text \<open>The retry of a job is in safe hands: queued, or published under the job's key.\<close>

definition retry_accepted :: "crawl_job \<Rightarrow> (act, 'w) sys \<Rightarrow> bool" where
  "retry_accepted job s \<longleftrightarrow>
     (\<exists>e. did (EnqueueRetry job e) s) \<or> (\<exists>m. did (Publish m) s \<and> m_key m = job_id job)"

section \<open>The priority header\<close>

definition PriorityHeaderKey :: string where "PriorityHeaderKey = ''priority''"

text \<open>
  \<^verbatim>\<open>strconv.Atoi\<close>: an optional sign and at least one decimal digit, within 64 bits.
\<close>

definition is_digit :: "char \<Rightarrow> bool" where
  "is_digit c \<longleftrightarrow> 48 \<le> (of_char c :: nat) \<and> (of_char c :: nat) \<le> 57"

definition digits_val :: "string \<Rightarrow> int" where
  "digits_val s = fold (\<lambda>c n. 10 * n + (of_char c - 48)) s 0"

definition atoi :: "string \<Rightarrow> int option" where
  "atoi s =
     (let (neg, ds) = (case s of
             c # cs \<Rightarrow> if c = CHR ''-'' then (True, cs) else if c = CHR ''+'' then (False, cs) else (False, s)
           | [] \<Rightarrow> (False, []));
          v = (if neg then - digits_val ds else digits_val ds)
      in if ds = [] \<or> \<not> list_all is_digit ds \<or> v < - (2 ^ 63) \<or> 2 ^ 63 \<le> v then None else Some v)"

definition PriorityFromHeader :: "headers \<Rightarrow> int" where
  "PriorityFromHeader hs =
     (case hs PriorityHeaderKey of
        None \<Rightarrow> 2
      | Some v \<Rightarrow>
         (case atoi v of
            None \<Rightarrow> 2
          | Some n \<Rightarrow> if n < 1 \<or> 3 < n then 2 else n))"

section \<open>Decimal numbers read back\<close>

lemma digit_char:
  assumes "n < 10"
  shows "is_digit (char_of (48 + n :: nat))" "(of_char (char_of (48 + n :: nat)) :: int) = 48 + int n"
proof -
  have m: "(48 + n) mod 256 = 48 + n" using assms by simp
  have "(of_char (char_of (48 + n :: nat)) :: nat) = 48 + n"
    by (simp only: of_char_of m)
  then show "is_digit (char_of (48 + n :: nat))"
    using assms by (simp add: is_digit_def)
  have "(of_char (char_of (48 + n :: nat)) :: int) = int (of_char (char_of (48 + n :: nat)))"
    by (metis of_nat_of_char)
  then show "(of_char (char_of (48 + n :: nat)) :: int) = 48 + int n"
    by (simp only: of_char_of m of_nat_add of_nat_numeral)
qed

lemma digits_val_snoc: "digits_val (s @ [c]) = 10 * digits_val s + (of_char c - 48)"
  by (simp add: digits_val_def)

lemma nat_text_digits:
  "nat_text n \<noteq> [] \<and> list_all is_digit (nat_text n) \<and> digits_val (nat_text n) = int n"
proof (induction n rule: nat_text.induct)
  case (1 n)
  show ?case
  proof (cases "n < 10")
    case True
    have "nat_text n = [] @ [char_of (48 + n)]"
      using True by (simp add: nat_text.simps [of n])
    then show ?thesis
      using digit_char [OF True] by (simp only: digits_val_snoc) (simp add: digits_val_def)
  next
    case False
    have m: "n mod 10 < 10" by simp
    have "nat_text n = nat_text (n div 10) @ [char_of (48 + n mod 10)]"
      using False by (simp add: nat_text.simps [of n])
    moreover have "10 * int (n div 10) + int (n mod 10) = int n" by presburger
    ultimately show ?thesis
      using 1 [OF False] digit_char [OF m] by (simp only: digits_val_snoc) simp
  qed
qed

lemma nat_text_first_digit:
  assumes "nat_text n = c # cs"
  shows "is_digit c"
  using nat_text_digits [of n] assms by simp

lemma atoi_int_text:
  assumes "- (2 ^ 63) \<le> i" and "i < 2 ^ 63"
  shows "atoi (int_text i) = Some i"
proof -
  obtain c cs where c: "nat_text (nat i) = c # cs"
    using nat_text_digits [of "nat i"] by (cases "nat_text (nat i)") auto
  then have "c \<noteq> CHR ''-''" "c \<noteq> CHR ''+''"
    using nat_text_first_digit [OF c] by (auto simp: is_digit_def)
  then show ?thesis
    using assms nat_text_digits [of "nat i"] nat_text_digits [of "nat (- i)"] c
    by (auto simp: atoi_def int_text_def)
qed

lemma job_same_priority [simp]: "job\<lparr>job_priority := job_priority job\<rparr> = job"
  by (cases job) simp

lemma buildMessage_resolved:
  assumes "buildMessage p job = Inr m"
    and "pr = (case pub_resolver p of None \<Rightarrow> job_priority job | Some f \<Rightarrow> f job)"
  obtains data where "pub_marshal p (job\<lparr>job_priority := pr\<rparr>) = Inr data"
    and "m = new_message (CrawlTopic pr) (job_id job) data
               [''crawler'' \<mapsto> job_crawler job, ''priority'' \<mapsto> int_text pr]"
proof -
  have "(case pub_resolver p of None \<Rightarrow> job | Some f \<Rightarrow> job\<lparr>job_priority := f job\<rparr>)
      = job\<lparr>job_priority := pr\<rparr>"
    using assms(2) by (simp split: option.splits)
  then show ?thesis
    using assms(1) that by (auto simp: buildMessage_def Let_def split: sum.splits)
qed

section \<open>Properties\<close>

text \<open>A published job carries its resolved priority twice, consistently: the topic is the one
  of that priority, and the priority queue reads the same number back from the header; only a
  number outside 1..3 is read as normal. The message key is the job id and the value is the
  encoding of the job with that priority.\<close>
theorem build_message_priority:
  assumes "buildMessage p job = Inr m" and "pr = (case pub_resolver p of None \<Rightarrow> job_priority job | Some f \<Rightarrow> f job)"
    and "- (2 ^ 63) \<le> pr" and "pr < 2 ^ 63"
  shows "m_topic m = CrawlTopic pr \<and> m_key m = job_id job
    \<and> pub_marshal p (job\<lparr>job_priority := pr\<rparr>) = Inr (m_value m)
    \<and> PriorityFromHeader (m_headers m) = (if pr \<in> {1, 2, 3} then pr else 2)
    \<and> (m_topic m = TopicCrawlNormal \<longleftrightarrow> PriorityFromHeader (m_headers m) = 2)"
proof -
  obtain data where d: "pub_marshal p (job\<lparr>job_priority := pr\<rparr>) = Inr data"
    "m = new_message (CrawlTopic pr) (job_id job) data
           [''crawler'' \<mapsto> job_crawler job, ''priority'' \<mapsto> int_text pr]"
    using buildMessage_resolved [OF assms(1,2)] .
  have h: "PriorityFromHeader (m_headers m) = (if pr \<in> {1, 2, 3} then pr else 2)"
    using assms(3,4) by (auto simp: d(2) PriorityFromHeader_def PriorityHeaderKey_def atoi_int_text)
  show ?thesis
    unfolding h using d by (auto simp: CrawlTopic_def priorities topics)
qed

theorem build_message_priority_witness:
  "\<exists>m. buildMessage \<lparr>pub_wired = True, pub_resolver = Some (\<lambda>_. 3), pub_marshal = \<lambda>j. Inr (job_id j)\<rparr>
      \<lparr>job_id = ''j'', job_crawler = ''naver'',
       job_target = \<lparr>tg_url = ''u'', tg_type = TargetTypeArticle, tg_meta = Map.empty\<rparr>,
       job_priority = 1, job_scheduled_at = 0, job_timeout = 0, job_retry_count = 0, job_max_retries = 3\<rparr>
      = Inr m \<and> PriorityFromHeader (m_headers m) = 3"
  using build_message_priority [of "\<lparr>pub_wired = True, pub_resolver = Some (\<lambda>_. 3), pub_marshal = \<lambda>j. Inr (job_id j)\<rparr>"
      "\<lparr>job_id = ''j'', job_crawler = ''naver'',
       job_target = \<lparr>tg_url = ''u'', tg_type = TargetTypeArticle, tg_meta = Map.empty\<rparr>,
       job_priority = 1, job_scheduled_at = 0, job_timeout = 0, job_retry_count = 0, job_max_retries = 3\<rparr>" _ 3]
  by (simp add: buildMessage_def)

section \<open>What the bus operations add to the trace\<close>

lemma Forward_dids:
  "Forward io p m s = (r, s') \<Longrightarrow> \<forall>b. did b s' \<longleftrightarrow> did b s \<or> (b = Publish m \<and> r = None)"
  by (simp add: Forward_did)

lemma CommitWithDrain_dids:
  "CommitWithDrain io m s = (r, s') \<Longrightarrow> \<forall>b. did b s' \<longleftrightarrow> did b s \<or> (b = Commit m \<and> r = None)"
  by (simp add: CommitWithDrain_did)

lemma kafka_immediate_enqueue_did:
  assumes "kafka_immediate_enqueue io p job le s = (r, s')"
  shows "(did (Commit m) s' \<longleftrightarrow> did (Commit m) s) \<and> (did b s \<longrightarrow> did b s')
    \<and> (r = None \<longrightarrow> (\<exists>m. did (Publish m) s' \<and> m_key m = job_id job))"
proof (cases "buildMessage p job")
  case (Inl e)
  then show ?thesis using assms by (auto simp: kafka_immediate_enqueue_def)
next
  case (Inr m)
  have k: "m_key m = job_id job"
    using Inr by (rule buildMessage_resolved [OF _ refl]) simp
  show ?thesis
    using assms Inr k
    by (auto simp: kafka_immediate_enqueue_def dest!: Forward_dids split: prod.splits option.splits)
qed

lemma retry_enqueue_did:
  assumes "retry_enqueue d io p job le s = (r, s')"
  shows "(did (Commit m) s' \<longleftrightarrow> did (Commit m) s) \<and> (did b s \<longrightarrow> did b s')
    \<and> (r = None \<longrightarrow> retry_accepted job s')"
proof (cases d)
  case True
  then show ?thesis
    using assms by (auto simp: retry_enqueue_def retry_accepted_def dest!: perform_dids)
next
  case False
  then show ?thesis
    using assms kafka_immediate_enqueue_did [of io p job le s r s' m b]
    by (auto simp: retry_enqueue_def retry_accepted_def)
qed

lemma did_mono_accepted:
  "retry_accepted job s \<Longrightarrow> (\<And>b. did b s \<Longrightarrow> did b s') \<Longrightarrow> retry_accepted job s'"
  unfolding retry_accepted_def by blast

text \<open>
  A call of an operation only adds to what was done (\<open>grows\<close>), and it commits nothing but,
  possibly, the message at hand.
\<close>

definition grows :: "(act, 'w) sys \<Rightarrow> (act, 'w) sys \<Rightarrow> bool" where
  "grows s s' \<longleftrightarrow> set (snd s) \<subseteq> set (snd s')"

definition no_commit :: "(act, 'w) sys \<Rightarrow> (act, 'w) sys \<Rightarrow> bool" where
  "no_commit s s' \<longleftrightarrow> grows s s' \<and> (\<forall>m. did (Commit m) s' \<longrightarrow> did (Commit m) s)"

lemma grows_trans [trans]: "grows s s1 \<Longrightarrow> grows s1 s2 \<Longrightarrow> grows s s2"
  and grows_refl [simp]: "grows s s"
  and no_commit_refl [simp]: "no_commit s s"
  and no_commit_grows: "no_commit s s1 \<Longrightarrow> grows s s1"
  unfolding grows_def no_commit_def by blast+

lemma grows_did: "grows s s' \<Longrightarrow> did b s \<Longrightarrow> did b s'"
  unfolding grows_def did_def by blast

lemma no_commit_trans [trans]: "no_commit s s1 \<Longrightarrow> no_commit s1 s2 \<Longrightarrow> no_commit s s2"
  unfolding no_commit_def using grows_trans by blast

lemma perform_grows:
  "perform io a s = (r, s') \<Longrightarrow> grows s s'"
  "perform_val c a s = (v, s') \<Longrightarrow> grows s s'"
  by (auto simp: grows_def dest: perform_trace perform_val_trace)

lemma perform_no_commit:
  "perform io a s = (r, s') \<Longrightarrow> (\<And>m. a \<noteq> Commit m) \<Longrightarrow> no_commit s s'"
  using perform_grows(1) [of io a s r s'] perform_dids(1) [of io a s r s'] by (auto simp: no_commit_def)

lemma perform_val_no_commit:
  "perform_val c a s = (r, s') \<Longrightarrow> (\<And>m. a \<noteq> Commit m) \<Longrightarrow> no_commit s s'"
  using perform_grows(2) [of c a s r s'] perform_dids(2) [of c a s r s'] by (auto simp: no_commit_def)

lemma Forward_no_commit: "Forward io p m s = (r, s') \<Longrightarrow> no_commit s s'"
  by (auto simp: Forward_def intro: perform_no_commit split: option.splits if_splits)

lemma CommitWithDrain_grows: "CommitWithDrain io m s = (r, s') \<Longrightarrow> grows s s'"
  by (auto simp: CommitWithDrain_def dest!: perform_grows intro: grows_trans
      split: prod.splits option.splits if_splits)

lemma retry_enqueue_no_commit:
  assumes "retry_enqueue d io p job le s = (r, s')"
  shows "no_commit s s' \<and> (r = None \<longrightarrow> retry_accepted job s')"
proof -
  have "no_commit s s'"
    using assms
    by (auto simp: retry_enqueue_def kafka_immediate_enqueue_def
        intro: perform_no_commit Forward_no_commit split: sum.splits prod.splits option.splits if_splits)
  then show ?thesis using retry_enqueue_did [OF assms] by blast
qed

lemmas quiet = perform_no_commit perform_val_no_commit Forward_no_commit no_commit_trans

definition dead_lettered :: "message \<Rightarrow> (act, 'w) sys \<Rightarrow> bool" where
  "dead_lettered msg s \<longleftrightarrow>
     (\<exists>hs. did (Publish (new_message TopicDLQ (m_key msg) (m_value msg) hs)) s
           \<and> hs ''original-topic'' = Some (m_topic msg))"

definition commits_only ::
  "message \<Rightarrow> ((act, 'w) sys \<Rightarrow> bool) \<Rightarrow> (act, 'w) sys \<Rightarrow> (act, 'w) sys \<Rightarrow> bool" where
  "commits_only msg P s s' \<longleftrightarrow>
     grows s s' \<and> (\<forall>m. did (Commit m) s' \<longrightarrow> did (Commit m) s \<or> (m = msg \<and> P s'))"

lemma dead_lettered_grows: "dead_lettered msg s \<Longrightarrow> grows s s' \<Longrightarrow> dead_lettered msg s'"
  unfolding dead_lettered_def using grows_did by blast

lemma commits_only_quiet: "no_commit s s' \<Longrightarrow> commits_only msg P s s'"
  unfolding commits_only_def no_commit_def by blast

lemma commits_only_refl [simp]: "commits_only msg P s s"
  by (simp add: commits_only_quiet)

lemma commits_only_commit:
  assumes "no_commit s s1" and "CommitWithDrain io msg s1 = (r, s')"
    and "P s1" and "\<And>s2. P s1 \<Longrightarrow> grows s1 s2 \<Longrightarrow> P s2"
  shows "commits_only msg P s s'"
proof -
  have "grows s1 s'" using assms(2) by (rule CommitWithDrain_grows)
  then show ?thesis
    using assms CommitWithDrain_dids [OF assms(2)]
    unfolding commits_only_def no_commit_def by (auto intro: grows_trans)
qed

lemma commits_only_before:
  "no_commit s s1 \<Longrightarrow> commits_only msg P s1 s' \<Longrightarrow> commits_only msg P s s'"
  unfolding commits_only_def no_commit_def by (auto intro: grows_trans)

lemma commits_only_after:
  assumes "commits_only msg P s s1" and "no_commit s1 s'" and "\<And>s2. P s1 \<Longrightarrow> grows s1 s2 \<Longrightarrow> P s2"
  shows "commits_only msg P s s'"
  using assms grows_trans unfolding commits_only_def no_commit_def by blast

lemma commits_only_weaken:
  "commits_only msg P s s' \<Longrightarrow> (\<And>s2. P s2 \<Longrightarrow> Q s2) \<Longrightarrow> commits_only msg Q s s'"
  unfolding commits_only_def by blast

end
