(* ===== verification/GoFloat.thy ===== *)
theory GoFloat
  imports GoBase
begin

text \<open>
  Go's \<^verbatim>\<open>float64\<close> with its special values: a finite number is a real number (rounding and
  the sign of zero are left out), comparisons with NaN are false, and the arithmetic follows
  IEEE 754 on infinities and NaN. \<open>fl_max\<close> and \<open>fl_min\<close> are \<^verbatim>\<open>math.Max\<close> and \<^verbatim>\<open>math.Min\<close>.
\<close>

datatype flt = Fin real | PosInf | NegInf | NaN

fun fl_is_nan :: "flt \<Rightarrow> bool" where
  "fl_is_nan NaN = True"
| "fl_is_nan _ = False"

fun fl_le :: "flt \<Rightarrow> flt \<Rightarrow> bool" where
  "fl_le NaN _ = False"
| "fl_le _ NaN = False"
| "fl_le NegInf _ = True"
| "fl_le _ PosInf = True"
| "fl_le (Fin a) (Fin b) = (a \<le> b)"
| "fl_le _ _ = False"

fun fl_neg :: "flt \<Rightarrow> flt" where
  "fl_neg (Fin a) = Fin (- a)"
| "fl_neg PosInf = NegInf"
| "fl_neg NegInf = PosInf"
| "fl_neg NaN = NaN"

fun fl_add :: "flt \<Rightarrow> flt \<Rightarrow> flt" where
  "fl_add (Fin a) (Fin b) = Fin (a + b)"
| "fl_add NaN _ = NaN"
| "fl_add _ NaN = NaN"
| "fl_add PosInf NegInf = NaN"
| "fl_add NegInf PosInf = NaN"
| "fl_add PosInf _ = PosInf"
| "fl_add _ PosInf = PosInf"
| "fl_add NegInf _ = NegInf"
| "fl_add _ NegInf = NegInf"

definition fl_sub :: "flt \<Rightarrow> flt \<Rightarrow> flt" where
  "fl_sub a b = fl_add a (fl_neg b)"

text \<open>Infinity times a finite number has the sign of the number; zero gives NaN.\<close>

definition inf_times :: "real \<Rightarrow> flt" where
  "inf_times a = (if a = 0 then NaN else if a > 0 then PosInf else NegInf)"

fun fl_mul :: "flt \<Rightarrow> flt \<Rightarrow> flt" where
  "fl_mul (Fin a) (Fin b) = Fin (a * b)"
| "fl_mul NaN _ = NaN"
| "fl_mul _ NaN = NaN"
| "fl_mul PosInf (Fin b) = inf_times b"
| "fl_mul (Fin a) PosInf = inf_times a"
| "fl_mul NegInf (Fin b) = fl_neg (inf_times b)"
| "fl_mul (Fin a) NegInf = fl_neg (inf_times a)"
| "fl_mul PosInf PosInf = PosInf"
| "fl_mul NegInf NegInf = PosInf"
| "fl_mul _ _ = NegInf"

text \<open>A division by zero gives an infinity, \<open>0 / 0\<close> and \<open>Inf / Inf\<close> give NaN.\<close>

fun fl_div :: "flt \<Rightarrow> flt \<Rightarrow> flt" where
  "fl_div (Fin a) (Fin b) = (if b = 0 then inf_times a else Fin (a / b))"
| "fl_div NaN _ = NaN"
| "fl_div _ NaN = NaN"
| "fl_div (Fin a) _ = Fin 0"
| "fl_div PosInf (Fin b) = (if b < 0 then NegInf else PosInf)"
| "fl_div NegInf (Fin b) = (if b < 0 then PosInf else NegInf)"
| "fl_div _ _ = NaN"

definition fl_max :: "flt \<Rightarrow> flt \<Rightarrow> flt" where
  "fl_max a b = (if a = PosInf \<or> b = PosInf then PosInf
     else if fl_is_nan a \<or> fl_is_nan b then NaN
     else if fl_le a b then b else a)"

definition fl_min :: "flt \<Rightarrow> flt \<Rightarrow> flt" where
  "fl_min a b = (if a = NegInf \<or> b = NegInf then NegInf
     else if fl_is_nan a \<or> fl_is_nan b then NaN
     else if fl_le a b then a else b)"

lemma fl_sub_fin [simp]: "fl_sub (Fin a) (Fin b) = Fin (a - b)"
  by (simp add: fl_sub_def)

lemma fl_cap [simp]:
  "fl_max (Fin 0) (fl_min (Fin 1) (Fin x)) = Fin (max 0 (min 1 x))"
  "fl_max (Fin 0) (fl_min (Fin 1) PosInf) = Fin 1"
  "fl_max (Fin 0) (fl_min (Fin 1) NegInf) = Fin 0"
  by (auto simp: fl_max_def fl_min_def)

end
