(* ===== verification/PriorityRouting.thy ===== *)
theory PriorityRouting
  imports Bus GoFloat "HOL-Library.List_Lexorder" "HOL-Library.Char_ord" "HOL-Library.Product_Lexorder"
begin

text \<open>
  How a crawl job gets its priority: the resolvers of \<^verbatim>\<open>internal/bus\<close> (\<^verbatim>\<open>resolver.go\<close>,
  \<^verbatim>\<open>override_resolver.go\<close>, \<^verbatim>\<open>score_resolver.go\<close>) in the chain that
  \<^verbatim>\<open>cmd/issuetracker/main.go\<close> builds, and the refreshers that replace their snapshots. A Go map
  is an association list. The snapshots are read afresh by every call, so \<open>CanResolve\<close> and
  \<open>Resolve\<close> may see different ones: a \<open>view\<close> is what one call sees, the clock included.
  \<^verbatim>\<open>url.Parse\<close>, \<^verbatim>\<open>strings.ToLower\<close> and \<^verbatim>\<open>regexp\<close> are parameters.
\<close>

section \<open>Resolvers\<close>

record go_url =
  gu_host :: string
  gu_hostname :: string
  gu_path :: string

record route_env =
  ro_parse :: "string \<Rightarrow> go_url option"
  ro_lower :: "string \<Rightarrow> string"
  ro_compile :: "string \<Rightarrow> (string \<Rightarrow> bool) option"

record host_override =
  ho_priority :: priority
  ho_until :: "gotime option"

record host_path_rule =
  hr_host :: string
  hr_path :: string
  hr_priority :: priority

record compiled_rule =
  cr_host :: string
  cr_path :: "(string \<Rightarrow> bool) option"
  cr_len :: nat
  cr_priority :: priority

datatype resolver =
    ExplicitPriority
  | OverridePriority "(string \<times> host_override) list option"
  | SourcePriority "(string \<times> priority) list" priority
  | RuleBased "((crawl_job \<Rightarrow> bool) \<times> priority) list" "compiled_rule list option" priority
  | DynamicScore "(string \<times> flt) list option" flt "(string \<times> flt) list option"
  | DefaultPriority priority

definition SetOverrides :: "(string \<times> host_override) list \<Rightarrow> resolver" where
  "SetOverrides overrides = OverridePriority (if overrides = [] then None else Some overrides)"

definition SetScores :: "(string \<times> flt) list \<Rightarrow> (string \<times> flt) list option" where
  "SetScores scores = (if scores = [] then None else Some scores)"

definition SetHostThresholds :: "(string \<times> flt) list \<Rightarrow> (string \<times> flt) list option" where
  "SetHostThresholds thresholds = (if thresholds = [] then None else Some thresholds)"

text \<open>Rules whose path pattern does not compile are skipped; the sort is stable.\<close>

definition compile_rule :: "route_env \<Rightarrow> host_path_rule \<Rightarrow> compiled_rule option" where
  "compile_rule E rule =
     (if hr_path rule \<noteq> [] then
        (case ro_compile E (hr_path rule) of
           None \<Rightarrow> None
         | Some re \<Rightarrow> Some \<lparr>cr_host = ro_lower E (hr_host rule), cr_path = Some re,
             cr_len = length (hr_path rule), cr_priority = hr_priority rule\<rparr>)
      else Some \<lparr>cr_host = ro_lower E (hr_host rule), cr_path = None,
             cr_len = length (hr_path rule), cr_priority = hr_priority rule\<rparr>)"

definition rule_key :: "compiled_rule \<Rightarrow> string \<times> int" where
  "rule_key c = (cr_host c, - int (cr_len c))"

definition SetHostPathRules :: "route_env \<Rightarrow> host_path_rule list \<Rightarrow> compiled_rule list option" where
  "SetHostPathRules E rules = Some (sort_key rule_key (List.map_filter (compile_rule E) rules))"

definition override_active :: "host_override \<Rightarrow> gotime \<Rightarrow> bool" where
  "override_active o' now = (case ho_until o' of None \<Rightarrow> True | Some u \<Rightarrow> now < u)"

definition hostOf :: "route_env \<Rightarrow> string \<Rightarrow> string" where
  "hostOf E rawURL =
     (case ro_parse E rawURL of
        None \<Rightarrow> []
      | Some u \<Rightarrow> if gu_hostname u = [] then [] else ro_lower E (gu_hostname u))"

definition override_lookup ::
  "route_env \<Rightarrow> gotime \<Rightarrow> (string \<times> host_override) list option \<Rightarrow> crawl_job \<Rightarrow> host_override option" where
  "override_lookup E now overrides job =
     (case overrides of
        None \<Rightarrow> None
      | Some m \<Rightarrow>
          let host = hostOf E (tg_url (job_target job))
          in if host = [] then None
             else (case map_of m host of
                     None \<Rightarrow> None
                   | Some o' \<Rightarrow> if \<not> override_active o' now then None else Some o'))"

definition score_lookup :: "route_env \<Rightarrow> (string \<times> flt) list option \<Rightarrow> crawl_job \<Rightarrow> flt option" where
  "score_lookup E scores job =
     (case scores of
        None \<Rightarrow> None
      | Some m \<Rightarrow>
          let host = hostOf E (tg_url (job_target job))
          in if host = [] then None else map_of m host)"

definition thresholdFor :: "flt \<Rightarrow> (string \<times> flt) list option \<Rightarrow> string \<Rightarrow> flt" where
  "thresholdFor threshold hostThresholds host =
     (case hostThresholds of
        None \<Rightarrow> threshold
      | Some m \<Rightarrow> (case map_of m host of Some t \<Rightarrow> t | None \<Rightarrow> threshold))"

definition matchHostPath :: "route_env \<Rightarrow> compiled_rule list option \<Rightarrow> crawl_job \<Rightarrow> priority option" where
  "matchHostPath E rules job =
     (case rules of
        None \<Rightarrow> None
      | Some rs \<Rightarrow>
          if rs = [] then None
          else (case ro_parse E (tg_url (job_target job)) of
             None \<Rightarrow> None
           | Some u \<Rightarrow>
               if gu_host u = [] then None
               else
                 let host = ro_lower E (gu_hostname u);
                     path = (if gu_path u = [] then ''/'' else gu_path u)
                 in map_option cr_priority
                      (find (\<lambda>r. cr_host r = host \<and> (case cr_path r of None \<Rightarrow> True | Some re \<Rightarrow> re path)) rs)))"

definition first_rule :: "((crawl_job \<Rightarrow> bool) \<times> priority) list \<Rightarrow> crawl_job \<Rightarrow> priority option" where
  "first_rule rules job = map_option snd (find (\<lambda>(match, _). match job) rules)"

definition named_priority :: "priority \<Rightarrow> bool" where
  "named_priority p \<longleftrightarrow> p = PriorityHigh \<or> p = PriorityNormal \<or> p = PriorityLow"

fun CanResolve :: "route_env \<Rightarrow> gotime \<Rightarrow> resolver \<Rightarrow> crawl_job \<Rightarrow> bool" where
  "CanResolve E now ExplicitPriority job = named_priority (job_priority job)"
| "CanResolve E now (OverridePriority overrides) job = (override_lookup E now overrides job \<noteq> None)"
| "CanResolve E now (SourcePriority rules fallback) job = (map_of rules (job_crawler job) \<noteq> None)"
| "CanResolve E now (RuleBased rules hostPath fallback) job =
     (first_rule rules job \<noteq> None \<or> matchHostPath E hostPath job \<noteq> None)"
| "CanResolve E now (DynamicScore scores threshold hostThresholds) job = (score_lookup E scores job \<noteq> None)"
| "CanResolve E now (DefaultPriority p) job = True"

fun Resolve :: "route_env \<Rightarrow> gotime \<Rightarrow> resolver \<Rightarrow> crawl_job \<Rightarrow> priority" where
  "Resolve E now ExplicitPriority job =
     (if named_priority (job_priority job) then job_priority job else PriorityNormal)"
| "Resolve E now (OverridePriority overrides) job =
     (case override_lookup E now overrides job of None \<Rightarrow> PriorityNormal | Some o' \<Rightarrow> ho_priority o')"
| "Resolve E now (SourcePriority rules fallback) job =
     (case map_of rules (job_crawler job) of Some p \<Rightarrow> p | None \<Rightarrow> fallback)"
| "Resolve E now (RuleBased rules hostPath fallback) job =
     (case first_rule rules job of
        Some p \<Rightarrow> p
      | None \<Rightarrow> (case matchHostPath E hostPath job of Some p \<Rightarrow> p | None \<Rightarrow> fallback))"
| "Resolve E now (DynamicScore scores threshold hostThresholds) job =
     (case score_lookup E scores job of
        None \<Rightarrow> PriorityNormal
      | Some score \<Rightarrow>
          if fl_le (thresholdFor threshold hostThresholds (hostOf E (tg_url (job_target job)))) score
          then PriorityHigh else PriorityNormal)"
| "Resolve E now (DefaultPriority p) job = p"

text \<open>For each resolver of the chain: what its \<open>CanResolve\<close> sees, and what its \<open>Resolve\<close> sees.\<close>

type_synonym view = "gotime \<times> resolver"

fun composite_resolve :: "route_env \<Rightarrow> (view \<times> view) list \<Rightarrow> view \<Rightarrow> crawl_job \<Rightarrow> priority" where
  "composite_resolve E [] (t, terminal) job = Resolve E t terminal job"
| "composite_resolve E (((t1, r1), (t2, r2)) # chain) terminal job =
     (if CanResolve E t1 r1 job then Resolve E t2 r2 job else composite_resolve E chain terminal job)"

section \<open>Refreshers\<close>

definition refresh_interval :: "duration \<Rightarrow> duration" where
  "refresh_interval interval = (if interval \<le> 0 then 5 * minute else interval)"

definition rules_refreshOnce ::
  "route_env \<Rightarrow> go_error option \<Rightarrow> go_error + host_path_rule list \<Rightarrow> compiled_rule list option \<Rightarrow> compiled_rule list option" where
  "rules_refreshOnce E ctx loaded current =
     (if ctx \<noteq> None then current
      else (case loaded of Inl _ \<Rightarrow> current | Inr rules \<Rightarrow> SetHostPathRules E rules))"

definition overrides_refreshOnce ::
  "go_error option \<Rightarrow> go_error + (string \<times> host_override) list \<Rightarrow> resolver \<Rightarrow> resolver" where
  "overrides_refreshOnce ctx loaded current =
     (if ctx \<noteq> None then current
      else (case loaded of Inl _ \<Rightarrow> current | Inr overrides \<Rightarrow> SetOverrides overrides))"

text \<open>The rules of the priority loader are rows of \<^verbatim>\<open>parser_rules\<close>: host, path and stored priority.\<close>

definition priorityFromInt16 :: "int \<Rightarrow> priority" where
  "priorityFromInt16 v = (if v = 1 then PriorityHigh else if v = 3 then PriorityLow else PriorityNormal)"

definition priority_loader ::
  "go_error + (string \<times> string \<times> int) list \<Rightarrow> go_error + host_path_rule list" where
  "priority_loader records =
     (case records of
        Inl err \<Rightarrow> Inl err
      | Inr recs \<Rightarrow> Inr (map (\<lambda>(host, path, p). \<lparr>hr_host = host, hr_path = path, hr_priority = priorityFromInt16 p\<rparr>) recs))"

text \<open>The chain of the program; the score resolver is there only when host scoring is enabled.\<close>

definition wired_chain :: "resolver \<Rightarrow> compiled_rule list option \<Rightarrow> resolver option \<Rightarrow> resolver list" where
  "wired_chain overrides hostPath score =
     [ExplicitPriority, overrides, SourcePriority [] PriorityNormal, RuleBased [] hostPath PriorityNormal]
     @ (case score of None \<Rightarrow> [] | Some r \<Rightarrow> [r])"

definition steady :: "gotime \<Rightarrow> resolver list \<Rightarrow> (view \<times> view) list" where
  "steady now rs = map (\<lambda>r. ((now, r), (now, r))) rs"

section \<open>Stable sorting and search\<close>

lemma find_filter: "find P xs = (case filter P xs of [] \<Rightarrow> None | y # _ \<Rightarrow> Some y)"
  by (induction xs) auto

lemma filter_map_filter:
  "filter Q (List.map_filter g xs) = map (\<lambda>x. the (g x)) (filter (\<lambda>x. case g x of None \<Rightarrow> False | Some y \<Rightarrow> Q y) xs)"
  by (induction xs) (auto simp: List.map_filter_def split: option.split)

lemma hd_filter_map: "filter (\<lambda>y. Q (h y)) ys \<noteq> [] \<Longrightarrow> hd (filter Q (map h ys)) = h (hd (filter (\<lambda>y. Q (h y)) ys))"
  by (simp add: filter_map comp_def hd_map)

text \<open>The head of a stable sort is the first of the elements with the least key.\<close>

lemma hd_sort_key:
  assumes "ys \<noteq> []"
  shows "hd (sort_key f ys) = hd (filter (\<lambda>y. \<forall>z\<in>set ys. f y \<le> f z) ys)"
    and "filter (\<lambda>y. \<forall>z\<in>set ys. f y \<le> f z) ys \<noteq> []"
proof -
  obtain c cs where s: "sort_key f ys = c # cs"
    using assms by (metis list.exhaust set_empty set_sort)
  have least: "\<forall>z\<in>set ys. f c \<le> f z"
    using s sorted_sort_key [of f ys] set_sort [of f ys] by auto
  have mem: "c \<in> set ys" using s set_sort [of f ys] by auto
  have eq: "(\<forall>z\<in>set ys. f y \<le> f z) \<longleftrightarrow> f y = f c" if "y \<in> set ys" for y
    using least mem that by (auto intro: antisym)
  have "filter (\<lambda>y. f y = f c) (sort_key f ys) = filter (\<lambda>y. f y = f c) ys" by (rule sort_key_stable)
  then have "filter (\<lambda>y. f y = f c) ys = c # filter (\<lambda>y. f y = f c) cs" by (simp add: s)
  moreover have "filter (\<lambda>y. \<forall>z\<in>set ys. f y \<le> f z) ys = filter (\<lambda>y. f y = f c) ys"
    by (rule filter_cong) (use eq in auto)
  ultimately show "hd (sort_key f ys) = hd (filter (\<lambda>y. \<forall>z\<in>set ys. f y \<le> f z) ys)"
    and "filter (\<lambda>y. \<forall>z\<in>set ys. f y \<le> f z) ys \<noteq> []"
    by (simp_all add: s)
qed

lemma find_sort_key:
  "find P (sort_key f xs) =
     (if filter P xs = [] then None
      else Some (hd (filter (\<lambda>y. \<forall>z\<in>set (filter P xs). f y \<le> f z) (filter P xs))))"
proof (cases "filter P xs = []")
  case True
  then show ?thesis by (simp add: find_filter filter_sort)
next
  case False
  have "sort_key f (filter P xs) \<noteq> []" using False by (metis set_empty set_sort)
  then have "find P (sort_key f xs) = Some (hd (sort_key f (filter P xs)))"
    by (simp add: find_filter filter_sort split: list.split)
  then show ?thesis using False hd_sort_key(1) [OF False, of f] by simp
qed

section \<open>Properties\<close>

definition request_path :: "go_url \<Rightarrow> string" where
  "request_path u = (if gu_path u = [] then ''/'' else gu_path u)"

text \<open>A rule applies to a URL if its host is the URL's and its path pattern, if any, is valid and matches.\<close>

definition rule_applies :: "route_env \<Rightarrow> go_url \<Rightarrow> host_path_rule \<Rightarrow> bool" where
  "rule_applies E u rule \<longleftrightarrow> ro_lower E (hr_host rule) = ro_lower E (gu_hostname u)
     \<and> (hr_path rule = [] \<or> (case ro_compile E (hr_path rule) of None \<Rightarrow> False | Some re \<Rightarrow> re (request_path u)))"

lemma compiled_applies:
  "(case compile_rule E rule of None \<Rightarrow> False
     | Some c \<Rightarrow> cr_host c = ro_lower E (gu_hostname u)
         \<and> (case cr_path c of None \<Rightarrow> True | Some re \<Rightarrow> re (request_path u))) = rule_applies E u rule"
  by (auto simp: compile_rule_def rule_applies_def split: option.split)

lemma applies_compiled:
  assumes "rule_applies E u rule"
  shows "rule_key (the (compile_rule E rule)) = (ro_lower E (gu_hostname u), - int (length (hr_path rule)))"
    and "cr_priority (the (compile_rule E rule)) = hr_priority rule"
  using assms by (auto simp: compile_rule_def rule_applies_def rule_key_def split: option.splits)

text \<open>Host and path rules: the most specific rule wins. After any list of rules is installed, a URL gets the priority of
  the rule with the longest path pattern among those that apply to it, the first registered one on a tie, and no priority
  when none applies; rules with an invalid pattern are as if absent. The code scans a list sorted by host and length.\<close>
theorem most_specific_rule_wins:
  assumes "ro_parse E (tg_url (job_target job)) = Some u" and "gu_host u \<noteq> []"
    and "cands = filter (rule_applies E u) rules"
  shows "matchHostPath E (SetHostPathRules E rules) job =
    (if cands = [] then None
     else Some (hr_priority (hd (filter (\<lambda>r. \<forall>r'\<in>set cands. length (hr_path r') \<le> length (hr_path r)) cands))))"
proof -
  let ?P = "\<lambda>c. cr_host c = ro_lower E (gu_hostname u) \<and> (case cr_path c of None \<Rightarrow> True | Some re \<Rightarrow> re (request_path u))"
  let ?h = "\<lambda>r. the (compile_rule E r)"
  have fp: "filter ?P (List.map_filter (compile_rule E) rules) = map ?h cands"
    by (simp only: filter_map_filter compiled_applies assms(3))
  have key: "rule_key (?h r) = (ro_lower E (gu_hostname u), - int (length (hr_path r)))" if "r \<in> set cands" for r
    using that assms(3) by (intro applies_compiled(1)) auto
  have run: "matchHostPath E (SetHostPathRules E rules) job =
      map_option cr_priority (find ?P (sort_key rule_key (List.map_filter (compile_rule E) rules)))"
  proof (cases "List.map_filter (compile_rule E) rules = []")
    case True
    then show ?thesis using assms(1) by (simp add: matchHostPath_def SetHostPathRules_def)
  next
    case False
    then have "sort_key rule_key (List.map_filter (compile_rule E) rules) \<noteq> []" by (metis set_empty set_sort)
    then show ?thesis
      using assms(1,2) unfolding request_path_def by (simp add: matchHostPath_def SetHostPathRules_def Let_def)
  qed
  show ?thesis
  proof (cases "cands = []")
    case True
    then show ?thesis by (simp add: run find_sort_key fp)
  next
    case False
    let ?best = "\<lambda>r. \<forall>r'\<in>set cands. length (hr_path r') \<le> length (hr_path r)"
    have same: "filter (\<lambda>r. \<forall>z\<in>set (map ?h cands). rule_key (?h r) \<le> rule_key z) cands = filter ?best cands"
      by (rule filter_cong) (simp_all add: key less_eq_prod_def)
    have "filter (\<lambda>y. \<forall>z\<in>set (map ?h cands). rule_key y \<le> rule_key z) (map ?h cands) \<noteq> []"
      using hd_sort_key(2) [of "map ?h cands" rule_key] False by simp
    then have ne: "filter ?best cands \<noteq> []" by (simp only: filter_map comp_def same map_is_Nil_conv not_False_eq_True)
    have "hd (filter (\<lambda>y. \<forall>z\<in>set (map ?h cands). rule_key y \<le> rule_key z) (map ?h cands)) = ?h (hd (filter ?best cands))"
      using hd_filter_map [of "\<lambda>y. \<forall>z\<in>set (map ?h cands). rule_key y \<le> rule_key z" ?h cands] ne
      unfolding same by blast
    moreover have "rule_applies E u (hd (filter ?best cands))"
      using hd_in_set [OF ne] assms(3) by auto
    ultimately show ?thesis
      using False by (simp only: run find_sort_key fp) (simp add: applies_compiled(2))
  qed
qed

definition sample_route :: route_env where
  "sample_route = \<lparr>ro_parse = (\<lambda>url. Some \<lparr>gu_host = ''h'', gu_hostname = ''h'', gu_path = url\<rparr>),
     ro_lower = (\<lambda>x. x), ro_compile = (\<lambda>p. if p = ''('' then None else Some (\<lambda>path. take (length p) path = p))\<rparr>"

definition sample_job :: "priority \<Rightarrow> string \<Rightarrow> crawl_job" where
  "sample_job p url = \<lparr>job_id = [], job_crawler = [], job_target = \<lparr>tg_url = url, tg_type = [], tg_meta = Map.empty\<rparr>,
     job_priority = p, job_scheduled_at = 0, job_timeout = 0, job_retry_count = 0, job_max_retries = 0\<rparr>"

definition sample_rules :: "host_path_rule list" where
  "sample_rules = [\<lparr>hr_host = ''h'', hr_path = [], hr_priority = 3\<rparr>, \<lparr>hr_host = ''h'', hr_path = ''('', hr_priority = 1\<rparr>,
     \<lparr>hr_host = ''h'', hr_path = ''/a'', hr_priority = 2\<rparr>, \<lparr>hr_host = ''h'', hr_path = ''/b'', hr_priority = 1\<rparr>]"

theorem most_specific_rule_wins_witness:
  "matchHostPath sample_route (SetHostPathRules sample_route sample_rules) (sample_job 0 ''/ab'') = Some 2"
proof -
  have "filter (rule_applies sample_route \<lparr>gu_host = ''h'', gu_hostname = ''h'', gu_path = ''/ab''\<rparr>) sample_rules
      = [\<lparr>hr_host = ''h'', hr_path = [], hr_priority = 3\<rparr>, \<lparr>hr_host = ''h'', hr_path = ''/a'', hr_priority = 2\<rparr>]"
    by (simp add: sample_rules_def rule_applies_def request_path_def sample_route_def)
  from most_specific_rule_wins [OF _ _ this [symmetric], of "sample_job 0 ''/ab''"] show ?thesis
    by (simp add: sample_job_def sample_route_def)
qed

lemma steady_resolve:
  "composite_resolve E (steady now rs) (now, terminal) job =
     (case find (\<lambda>r. CanResolve E now r job) rs of
        None \<Rightarrow> Resolve E now terminal job
      | Some r \<Rightarrow> Resolve E now r job)"
  by (induction rs) (simp_all add: steady_def)

text \<open>An override that expires while the chain is being read gives a priority that neither the old nor the new settings
  give. The resolver that has claimed the job in CanResolve looks it up again in Resolve; if the
  override ends in between, the job is Normal, although the override said something else before and a rule of the
  chain says Low after. A chain that saw the same moment in both calls would have given the one or the other.\<close>
theorem torn_override_read:
  assumes "\<not> named_priority (job_priority job)"
    and "override_lookup E t1 overrides job = Some o'" and "ho_until o' = Some u" and "t1 < u" and "u \<le> t2"
    and "ho_priority o' \<noteq> PriorityNormal" and "matchHostPath E rules job = Some PriorityLow"
    and "chain = wired_chain (OverridePriority overrides) rules score"
    and "torn = ((t1, ExplicitPriority), (t1, ExplicitPriority))
      # ((t1, OverridePriority overrides), (t2, OverridePriority overrides)) # steady t2 (tl (tl chain))"
  shows "composite_resolve E torn (t2, DefaultPriority PriorityNormal) job = PriorityNormal
    \<and> composite_resolve E (steady t1 chain) (t1, DefaultPriority PriorityNormal) job = ho_priority o'
    \<and> composite_resolve E (steady t2 chain) (t2, DefaultPriority PriorityNormal) job = PriorityLow"
proof -
  have gone: "override_lookup E t2 overrides job = None"
    using assms(2-5) by (auto simp: override_lookup_def override_active_def Let_def split: option.splits if_splits)
  show ?thesis
    using assms(1,2,7) gone
    by (simp add: assms(8,9) wired_chain_def steady_def first_rule_def)
qed

theorem torn_override_read_witness:
  "\<exists>torn. composite_resolve sample_route torn (10, DefaultPriority PriorityNormal) (sample_job 0 ''/ab'') = PriorityNormal
    \<and> composite_resolve sample_route (steady 0 (wired_chain
         (OverridePriority (Some [(''h'', \<lparr>ho_priority = PriorityHigh, ho_until = Some 5\<rparr>)]))
         (Some [\<lparr>cr_host = ''h'', cr_path = None, cr_len = 0, cr_priority = PriorityLow\<rparr>]) None))
       (0, DefaultPriority PriorityNormal) (sample_job 0 ''/ab'') = PriorityHigh"
proof -
  let ?o = "\<lparr>ho_priority = PriorityHigh, ho_until = Some 5\<rparr>"
  let ?rules = "Some [\<lparr>cr_host = ''h'', cr_path = None, cr_len = 0, cr_priority = PriorityLow\<rparr>]"
  have j: "\<not> named_priority (job_priority (sample_job 0 ''/ab''))"
    by (simp add: sample_job_def named_priority_def priorities)
  have o': "override_lookup sample_route 0 (Some [(''h'', ?o)]) (sample_job 0 ''/ab'') = Some ?o"
    by (simp add: sample_job_def sample_route_def override_lookup_def override_active_def hostOf_def)
  have m: "matchHostPath sample_route ?rules (sample_job 0 ''/ab'') = Some PriorityLow"
    by (simp add: sample_job_def sample_route_def matchHostPath_def)
  have a: "ho_until ?o = Some 5" and b: "ho_priority ?o = PriorityHigh" and a': "ho_priority ?o \<noteq> PriorityNormal"
    and c: "(0::int) < 5" "(5::int) \<le> 10"
    by (simp_all add: priorities)
  show ?thesis
    using torn_override_read [OF j o' a c a' m refl refl, of None] unfolding b by blast
qed

end
