(* ===== verification/Scoring.thy ===== *)
theory Scoring
  imports PriorityRouting
begin

text \<open>
  Observed scores of hosts: the normalised signals (\<^verbatim>\<open>storage/postgres/host_signals.go\<close>, the SQL
  aggregation is a parameter), the score and its merge of weights (\<^verbatim>\<open>scoring/score.go\<close>), one
  cycle of the scorer (\<^verbatim>\<open>scoring/scorer.go\<close>), and the settings per host that tune it
  (\<^verbatim>\<open>storage/model/priority_config.go\<close> and \<^verbatim>\<open>splitPriorityConfigs\<close> of \<^verbatim>\<open>main.go\<close>). Numbers are
  Go floats with their special values. Message texts of errors are cut to their beginning.
\<close>

section \<open>Signals\<close>

record host_signals =
  sg_freshness :: flt
  sg_impact :: flt
  sg_trust :: flt
  sg_samples :: int

record host_signal_aggregate =
  ag_host :: string
  ag_lag :: flt
  ag_passed :: int
  ag_rejected :: int
  ag_category :: string
  ag_samples :: int

definition freshnessHorizon :: duration where "freshnessHorizon = 6 * hour"

definition seconds :: "duration \<Rightarrow> real" where "seconds d = real_of_int d / 1000000000"

definition normalizeFreshness :: "flt \<Rightarrow> flt" where
  "normalizeFreshness lagSeconds =
     (if fl_le lagSeconds (Fin 0) then Fin (1 / 2)
      else
        let horizon = Fin (seconds freshnessHorizon)
        in if fl_le horizon lagSeconds then Fin 0
           else fl_sub (Fin 1) (fl_div lagSeconds horizon))"

definition normalizeTrust :: "int \<Rightarrow> int \<Rightarrow> flt" where
  "normalizeTrust passed rejected =
     (let total = passed + rejected
      in if total = 0 then Fin (1 / 2) else fl_div (Fin (real_of_int passed)) (Fin (real_of_int total)))"

definition categoryImpact :: "string \<Rightarrow> flt" where
  "categoryImpact category =
     (if category \<in> {''politics'', ''economy'', ''social'', ''current_affairs'', ''breaking_news''} then Fin 1
      else if category \<in> {''international'', ''tech'', ''science''} then Fin (7 / 10)
      else if category \<in> {''sports'', ''culture'', ''entertainment'', ''lifestyle''} then Fin (4 / 10)
      else Fin (1 / 2))"

definition ToSignals :: "host_signal_aggregate \<Rightarrow> host_signals" where
  "ToSignals h =
     \<lparr>sg_freshness = normalizeFreshness (ag_lag h), sg_impact = categoryImpact (ag_category h),
      sg_trust = normalizeTrust (ag_passed h) (ag_rejected h), sg_samples = ag_samples h\<rparr>"

definition Aggregate_rows ::
  "(int \<Rightarrow> go_error + host_signal_aggregate list) \<Rightarrow> int \<Rightarrow> go_error + host_signal_aggregate list" where
  "Aggregate_rows query windowMinutes =
     (if windowMinutes \<le> 0 then Inl (Opaque ''aggregate host signals: window must be positive'')
      else (case query windowMinutes of
              Inl err \<Rightarrow> Inl (Wrapped ''aggregate host signals'' err)
            | Inr rows \<Rightarrow> Inr rows))"

definition Aggregate_adapter ::
  "(int \<Rightarrow> go_error + host_signal_aggregate list) \<Rightarrow> int \<Rightarrow> go_error + (string \<times> host_signals) list" where
  "Aggregate_adapter query windowMinutes =
     (case Aggregate_rows query windowMinutes of
        Inl err \<Rightarrow> Inl err
      | Inr rows \<Rightarrow> Inr (map (\<lambda>r. (ag_host r, ToSignals r)) rows))"

section \<open>The score\<close>

record weights =
  w_freshness :: flt
  w_impact :: flt
  w_trust :: flt

definition DefaultWeights :: weights where
  "DefaultWeights = \<lparr>w_freshness = Fin (3 / 10), w_impact = Fin (2 / 10), w_trust = Fin (5 / 10)\<rparr>"

definition MinSampleCount :: int where "MinSampleCount = 20"

definition clamp01 :: "flt \<Rightarrow> flt" where
  "clamp01 v = (if fl_is_nan v then Fin 0 else fl_max (Fin 0) (fl_min (Fin 1) v))"

definition Score :: "host_signals \<Rightarrow> weights \<Rightarrow> flt \<times> bool" where
  "Score s w =
     (if sg_samples s < MinSampleCount then (Fin 0, False)
      else
        let total = fl_add (fl_add (w_freshness w) (w_impact w)) (w_trust w)
        in if fl_le total (Fin 0) then (Fin 0, False)
           else
             let raw = fl_add (fl_add (fl_mul (w_freshness w) (clamp01 (sg_freshness s)))
                                      (fl_mul (w_impact w) (clamp01 (sg_impact s))))
                              (fl_mul (w_trust w) (clamp01 (sg_trust s)))
             in (clamp01 (fl_div raw total), True))"

definition MergeWeights :: "weights \<Rightarrow> flt option \<Rightarrow> flt option \<Rightarrow> flt option \<Rightarrow> weights option" where
  "MergeWeights base freshness impact hostTrust =
     (if freshness = None \<and> impact = None \<and> hostTrust = None then None
      else Some \<lparr>w_freshness = (case freshness of Some x \<Rightarrow> x | None \<Rightarrow> w_freshness base),
                 w_impact = (case impact of Some x \<Rightarrow> x | None \<Rightarrow> w_impact base),
                 w_trust = (case hostTrust of Some x \<Rightarrow> x | None \<Rightarrow> w_trust base)\<rparr>)"

section \<open>The scorer\<close>

record host_tuning =
  tu_weights :: "weights option"
  tu_threshold :: "flt option"

record scorer_config =
  sc_interval :: duration
  sc_window :: int
  sc_weights :: weights
  sc_timeout :: duration

record scoring_state =
  hs_host :: string
  hs_score :: flt
  hs_signals :: bytes
  hs_window :: int

definition NewScorer :: "scorer_config \<Rightarrow> scorer_config" where
  "NewScorer cfg = (if sc_timeout cfg \<le> 0 then cfg\<lparr>sc_timeout := 30 * second\<rparr> else cfg)"

definition row_weights :: "scorer_config \<Rightarrow> (string \<Rightarrow> host_tuning option) option \<Rightarrow> string \<Rightarrow> weights" where
  "row_weights cfg tuning host =
     (case tuning of
        None \<Rightarrow> sc_weights cfg
      | Some lookup \<Rightarrow>
          (case lookup host of
             None \<Rightarrow> sc_weights cfg
           | Some t \<Rightarrow> (case tu_weights t of None \<Rightarrow> sc_weights cfg | Some w \<Rightarrow> w)))"

text \<open>The loop over the rows: the map of scores, and the rows handed to the store (a failing store is only logged).\<close>

fun score_rows ::
  "scorer_config \<Rightarrow> (string \<Rightarrow> host_tuning option) option \<Rightarrow> (host_signals \<Rightarrow> go_error + bytes)
     \<Rightarrow> (string \<times> host_signals) list \<Rightarrow> (string \<times> flt) list \<times> scoring_state list
     \<Rightarrow> (string \<times> flt) list \<times> scoring_state list" where
  "score_rows cfg tuning marshal [] acc = acc"
| "score_rows cfg tuning marshal ((host, signals) # rows) (scores, stored) =
     (let (score, ok) = Score signals (row_weights cfg tuning host)
      in if \<not> ok then score_rows cfg tuning marshal rows (scores, stored)
         else
           let raw = (case marshal signals of Inl _ \<Rightarrow> ''{}'' | Inr raw \<Rightarrow> raw)
           in score_rows cfg tuning marshal rows
                ((host, score) # scores,
                 stored @ [\<lparr>hs_host = host, hs_score = score, hs_signals = raw, hs_window = sc_window cfg\<rparr>]))"

definition scorer_runOnce ::
  "scorer_config \<Rightarrow> (string \<Rightarrow> host_tuning option) option \<Rightarrow> (host_signals \<Rightarrow> go_error + bytes)
     \<Rightarrow> (int \<Rightarrow> go_error + (string \<times> host_signals) list) \<Rightarrow> (string \<times> flt) list option
     \<Rightarrow> (string \<times> flt) list option \<times> scoring_state list" where
  "scorer_runOnce cfg tuning marshal aggregate sink =
     (case aggregate (sc_window cfg) of
        Inl _ \<Rightarrow> (sink, [])
      | Inr aggregates \<Rightarrow>
          let (scores, stored) = score_rows cfg tuning marshal aggregates ([], [])
          in (SetScores scores, stored))"

section \<open>Settings per host\<close>

record signal_weights =
  pw_freshness :: "flt option"
  pw_impact :: "flt option"
  pw_trust :: "flt option"

record priority_config =
  pc_base :: string
  pc_until :: "gotime option"
  pc_weights :: "signal_weights option"
  pc_threshold :: "flt option"

definition weightOf :: "signal_weights option \<Rightarrow> (signal_weights \<Rightarrow> flt option) \<Rightarrow> flt option" where
  "weightOf s pick = (case s of None \<Rightarrow> None | Some s \<Rightarrow> pick s)"

definition fl_lt :: "flt \<Rightarrow> flt \<Rightarrow> bool" where
  "fl_lt a b \<longleftrightarrow> fl_le a b \<and> \<not> fl_le b a"

definition config_Validate :: "(string \<Rightarrow> string) \<Rightarrow> priority_config \<Rightarrow> go_error option" where
  "config_Validate lower c =
     (if pc_base c \<noteq> [] \<and> lower (pc_base c) \<notin> {''high'', ''normal'', ''low''} then Some (Opaque ''invalid base_priority'')
      else if pc_until c \<noteq> None \<and> pc_base c = [] then Some (Opaque ''override_until set without base_priority'')
      else if (case pc_threshold c of None \<Rightarrow> False | Some t \<Rightarrow> fl_lt t (Fin 0) \<or> fl_lt (Fin 1) t)
        then Some (Opaque ''invalid score_threshold'')
      else if \<exists>w\<in>set [weightOf (pc_weights c) pw_freshness, weightOf (pc_weights c) pw_impact, weightOf (pc_weights c) pw_trust].
          (case w of None \<Rightarrow> False | Some x \<Rightarrow> fl_lt x (Fin 0))
        then Some (Opaque ''invalid signal_weights'')
      else None)"

definition ParsePriorityConfig ::
  "(string \<Rightarrow> string) \<Rightarrow> (bytes \<Rightarrow> go_error + priority_config) \<Rightarrow> bytes \<Rightarrow> go_error + priority_config option" where
  "ParsePriorityConfig lower decode raw =
     (if raw = [] \<or> raw = ''null'' then Inr None
      else (case decode raw of
              Inl err \<Rightarrow> Inl (Wrapped ''parse priority_config'' err)
            | Inr cfg \<Rightarrow> (case config_Validate lower cfg of Some err \<Rightarrow> Inl err | None \<Rightarrow> Inr (Some cfg))))"

definition OverrideActive :: "priority_config option \<Rightarrow> gotime \<Rightarrow> bool" where
  "OverrideActive c now =
     (case c of
        None \<Rightarrow> False
      | Some cfg \<Rightarrow> if pc_base cfg = [] then False
                  else (case pc_until cfg of None \<Rightarrow> True | Some u \<Rightarrow> now < u))"

text \<open>One row of \<^verbatim>\<open>fetcher_rules\<close>: the host and what became of its settings when it was read.\<close>

record fetcher_rule_row =
  fr_host :: string
  fr_config :: "go_error + priority_config option"

definition read_rule_row ::
  "(string \<Rightarrow> string) \<Rightarrow> (bytes \<Rightarrow> go_error + priority_config) \<Rightarrow> string \<times> bytes \<Rightarrow> fetcher_rule_row" where
  "read_rule_row lower decode row = \<lparr>fr_host = fst row, fr_config = ParsePriorityConfig lower decode (snd row)\<rparr>"

definition priorityFromString :: "(string \<Rightarrow> string) \<Rightarrow> string \<Rightarrow> priority" where
  "priorityFromString lower v =
     (if lower v = ''high'' then PriorityHigh else if lower v = ''low'' then PriorityLow else PriorityNormal)"

fun splitPriorityConfigs ::
  "(string \<Rightarrow> string) \<Rightarrow> weights \<Rightarrow> fetcher_rule_row list
     \<Rightarrow> (string \<times> host_override) list \<times> (string \<times> host_tuning) list \<times> (string \<times> flt) list
     \<Rightarrow> (string \<times> host_override) list \<times> (string \<times> host_tuning) list \<times> (string \<times> flt) list" where
  "splitPriorityConfigs lower base [] acc = acc"
| "splitPriorityConfigs lower base (rec # recs) (overrides, tunings, thresholds) =
     (case fr_config rec of
        Inl _ \<Rightarrow> splitPriorityConfigs lower base recs (overrides, tunings, thresholds)
      | Inr None \<Rightarrow> splitPriorityConfigs lower base recs (overrides, tunings, thresholds)
      | Inr (Some cfg) \<Rightarrow>
          let host = fr_host rec;
              overrides = (if pc_base cfg \<noteq> []
                 then (host, \<lparr>ho_priority = priorityFromString lower (pc_base cfg), ho_until = pc_until cfg\<rparr>) # overrides
                 else overrides);
              thresholds = (case pc_threshold cfg of Some t \<Rightarrow> (host, t) # thresholds | None \<Rightarrow> thresholds);
              sw = pc_weights cfg;
              tunings = (case MergeWeights base (weightOf sw pw_freshness) (weightOf sw pw_impact) (weightOf sw pw_trust) of
                  Some w \<Rightarrow> (host, \<lparr>tu_weights = Some w, tu_threshold = None\<rparr>) # tunings
                | None \<Rightarrow> tunings)
          in splitPriorityConfigs lower base recs (overrides, tunings, thresholds))"

definition tuning_set :: "(string \<times> host_tuning) list \<Rightarrow> (string \<times> host_tuning) list option" where
  "tuning_set m = (if m = [] then None else Some m)"

definition tuning_lookup :: "(string \<times> host_tuning) list option \<Rightarrow> string \<Rightarrow> host_tuning option" where
  "tuning_lookup v host = (case v of None \<Rightarrow> None | Some m \<Rightarrow> map_of m host)"

section \<open>Properties\<close>

lemma clamp01_fin [simp]: "clamp01 (Fin x) = Fin (max 0 (min 1 x))"
  by (simp add: clamp01_def)

lemma clamp01_unit: "\<exists>x. clamp01 v = Fin x \<and> 0 \<le> x \<and> x \<le> 1"
  by (cases v) (auto simp: clamp01_def)

text \<open>A score is always a number between 0 and 1, whatever the signals and weights are: NaN, infinities, negative values
  and a zero total of the weights included; a host with fewer than 20 samples gets none.\<close>
theorem score_in_unit_interval:
  "(\<exists>x. fst (Score s w) = Fin x \<and> 0 \<le> x \<and> x \<le> 1)
   \<and> (snd (Score s w) \<longleftrightarrow> 20 \<le> sg_samples s \<and> \<not> fl_le (fl_add (fl_add (w_freshness w) (w_impact w)) (w_trust w)) (Fin 0))"
  using clamp01_unit [of "fl_div (fl_add (fl_add (fl_mul (w_freshness w) (clamp01 (sg_freshness s)))
      (fl_mul (w_impact w) (clamp01 (sg_impact s)))) (fl_mul (w_trust w) (clamp01 (sg_trust s))))
      (fl_add (fl_add (w_freshness w) (w_impact w)) (w_trust w))"]
  by (auto simp: Score_def Let_def MinSampleCount_def)

definition unit_value :: "flt \<Rightarrow> real \<Rightarrow> bool" where
  "unit_value v x \<longleftrightarrow> v = Fin x \<and> 0 \<le> x \<and> x \<le> 1"

lemma ex_unit [simp]: "(\<exists>x. unit_value (Fin v) x) \<longleftrightarrow> 0 \<le> v \<and> v \<le> 1"
  by (auto simp: unit_value_def)

lemma freshness_unit:
  assumes "\<not> fl_is_nan lag"
  shows "\<exists>x. unit_value (normalizeFreshness lag) x"
  using assms
  by (cases lag)
    (auto simp: normalizeFreshness_def freshnessHorizon_def seconds_def Let_def)

lemma trust_unit:
  assumes "0 \<le> passed" and "0 \<le> rejected"
  shows "\<exists>x. unit_value (normalizeTrust passed rejected) x"
proof (cases "passed + rejected = 0")
  case True
  then show ?thesis by (simp add: normalizeTrust_def)
next
  case False
  then have "0 < real_of_int (passed + rejected)" using assms by linarith
  then show ?thesis using assms False by (simp add: normalizeTrust_def Let_def)
qed

lemma impact_unit: "\<exists>x. unit_value (categoryImpact c) x"
  by (simp add: categoryImpact_def)

lemma score_mean:
  assumes "unit_value (sg_freshness s) a" "unit_value (sg_impact s) b" "unit_value (sg_trust s) c"
    and "w_freshness w = Fin f" "w_impact w = Fin i" "w_trust w = Fin t" "0 \<le> f" "0 \<le> i" "0 \<le> t" "0 < f + i + t"
    and "20 \<le> sg_samples s"
  shows "Score s w = (Fin ((f * a + i * b + t * c) / (f + i + t)), True)"
proof -
  have m: "0 \<le> k * x \<and> k * x \<le> k" if "0 \<le> k" "0 \<le> x \<and> x \<le> 1" for k x :: real
    using that mult_left_le [of x k] by simp
  have "0 \<le> f * a + i * b + t * c" "f * a + i * b + t * c \<le> f + i + t"
    using m [of f a] m [of i b] m [of t c] assms by (simp_all add: unit_value_def)
  then have "max 0 (min 1 ((f * a + i * b + t * c) / (f + i + t))) = (f * a + i * b + t * c) / (f + i + t)"
    using assms(10) by (simp add: min_def max_def divide_simps)
  then show ?thesis
    using assms by (simp add: Score_def MinSampleCount_def unit_value_def Let_def)
qed

text \<open>From the rows of the database to the score: for a host with at least 20 documents and weights that are not negative
  and not all zero, the score is the weighted mean of its three signals, each of them between 0 and 1, and more signal
  never lowers it.\<close>
theorem score_is_weighted_mean:
  assumes "w_freshness w = Fin f" and "w_impact w = Fin i" and "w_trust w = Fin t"
    and "0 \<le> f" and "0 \<le> i" and "0 \<le> t" and "0 < f + i + t"
    and "20 \<le> ag_samples h" and "0 \<le> ag_passed h" and "0 \<le> ag_rejected h" and "\<not> fl_is_nan (ag_lag h)"
  shows "\<exists>a b c. unit_value (sg_freshness (ToSignals h)) a \<and> unit_value (sg_impact (ToSignals h)) b
    \<and> unit_value (sg_trust (ToSignals h)) c
    \<and> Score (ToSignals h) w = (Fin ((f * a + i * b + t * c) / (f + i + t)), True)
    \<and> (\<forall>s a' b' c'. unit_value (sg_freshness s) a' \<and> unit_value (sg_impact s) b' \<and> unit_value (sg_trust s) c'
          \<and> 20 \<le> sg_samples s \<and> a \<le> a' \<and> b \<le> b' \<and> c \<le> c'
        \<longrightarrow> fl_le (fst (Score (ToSignals h) w)) (fst (Score s w)))"
proof -
  obtain a where a: "unit_value (sg_freshness (ToSignals h)) a"
    using freshness_unit [OF assms(11)] by (auto simp: ToSignals_def)
  obtain b where b: "unit_value (sg_impact (ToSignals h)) b" using impact_unit by (auto simp: ToSignals_def)
  obtain c where c: "unit_value (sg_trust (ToSignals h)) c"
    using trust_unit [OF assms(9,10)] by (auto simp: ToSignals_def)
  have mean: "Score (ToSignals h) w = (Fin ((f * a + i * b + t * c) / (f + i + t)), True)"
    by (rule score_mean [OF a b c assms(1-7)]) (simp add: ToSignals_def assms(8))
  have mono: "fl_le (fst (Score (ToSignals h) w)) (fst (Score s w))"
    if "unit_value (sg_freshness s) a' \<and> unit_value (sg_impact s) b' \<and> unit_value (sg_trust s) c'
      \<and> 20 \<le> sg_samples s \<and> a \<le> a' \<and> b \<le> b' \<and> c \<le> c'" for s a' b' c'
  proof -
    have "f * a + i * b + t * c \<le> f * a' + i * b' + t * c'"
      using that assms(4-6) by (intro add_mono mult_left_mono) auto
    moreover have "Score s w = (Fin ((f * a' + i * b' + t * c') / (f + i + t)), True)"
      using that by (intro score_mean [OF _ _ _ assms(1-7)]) auto
    ultimately show ?thesis using assms(7) by (simp add: mean divide_right_mono)
  qed
  show ?thesis using a b c mean mono by blast
qed

definition sample_rows :: host_signal_aggregate where
  "sample_rows = \<lparr>ag_host = ''h'', ag_lag = Fin 0, ag_passed = 1, ag_rejected = 1, ag_category = ''tech'', ag_samples = 20\<rparr>"

theorem score_is_weighted_mean_witness:
  "\<exists>a b c. unit_value (sg_freshness (ToSignals sample_rows)) a \<and> unit_value (sg_impact (ToSignals sample_rows)) b
    \<and> unit_value (sg_trust (ToSignals sample_rows)) c
    \<and> Score (ToSignals sample_rows) DefaultWeights = (Fin (3/10 * a + 2/10 * b + 5/10 * c), True)"
  using score_is_weighted_mean [of DefaultWeights "3/10" "2/10" "5/10" sample_rows]
  by (auto simp: DefaultWeights_def sample_rows_def)

lemma score_rows_lookup:
  assumes "distinct (map fst rows)" and "fst ` set rows \<inter> fst ` set scores = {}"
  shows "map_of (fst (score_rows cfg tuning marshal rows (scores, stored))) h =
    (case map_of rows h of
       Some signals \<Rightarrow> (if snd (Score signals (row_weights cfg tuning h)) then Some (fst (Score signals (row_weights cfg tuning h))) else None)
     | None \<Rightarrow> map_of scores h)"
  using assms
proof (induction rows arbitrary: scores stored)
  case (Cons row rows)
  obtain host signals where row: "row = (host, signals)" by (rule prod.exhaust)
  obtain v ok where v: "Score signals (row_weights cfg tuning host) = (v, ok)" by (rule prod.exhaust)
  have none: "map_of rows host = None" "map_of scores host = None"
    using Cons.prems row by (auto simp: map_of_eq_None_iff)
  show ?case
  proof (cases ok)
    case True
    have "fst ` set rows \<inter> fst ` set ((host, v) # scores) = {}" using Cons.prems row by auto
    then show ?thesis using Cons.prems(1) Cons.IH row v True none by (auto simp: Let_def split: option.split)
  next
    case False
    have "fst ` set rows \<inter> fst ` set scores = {}" using Cons.prems row by auto
    then show ?thesis using Cons.prems(1) Cons.IH row v False none by (auto simp: Let_def split: option.split)
  qed
qed simp

lemma SetScores_lookup: "score_lookup E (SetScores scores) job =
  (let host = hostOf E (tg_url (job_target job)) in if host = [] then None else map_of scores host)"
  by (simp add: score_lookup_def SetScores_def Let_def)

text \<open>Observation decides only where no person has decided. After a cycle of the scorer over rows of distinct hosts, a job
  whose publisher named no priority gets: the active override of its host if there is one; otherwise the priority of the
  matching rule; otherwise High exactly when its host was scored in this very cycle and the score reaches the threshold of
  the host (or the general one), and Normal in every other case. A cycle whose query fails changes nothing.\<close>
theorem scored_host_priority:
  assumes "\<not> named_priority (job_priority job)" and "host = hostOf E (tg_url (job_target job))" and "host \<noteq> []"
    and "aggregate (sc_window cfg) = Inr rows" and "distinct (map fst rows)"
    and "scores = fst (scorer_runOnce cfg tuning marshal aggregate sink)"
  shows "composite_resolve E (steady now (wired_chain (OverridePriority overrides) rules (Some (DynamicScore scores threshold hosts))))
      (now, DefaultPriority PriorityNormal) job
    = (case override_lookup E now overrides job of
         Some o' \<Rightarrow> ho_priority o'
       | None \<Rightarrow>
           (case matchHostPath E rules job of
              Some p \<Rightarrow> p
            | None \<Rightarrow>
                (case map_of rows host of
                   None \<Rightarrow> PriorityNormal
                 | Some signals \<Rightarrow>
                     (case Score signals (row_weights cfg tuning host) of
                        (score, ok) \<Rightarrow> if ok \<and> fl_le (thresholdFor threshold hosts host) score then PriorityHigh else PriorityNormal))))
    \<and> (\<forall>failing err. failing (sc_window cfg) = Inl err \<longrightarrow> fst (scorer_runOnce cfg tuning marshal failing sink) = sink)"
proof -
  have "scores = SetScores (fst (score_rows cfg tuning marshal rows ([], [])))"
    using assms(4,6) by (simp add: scorer_runOnce_def split_beta)
  then have l: "score_lookup E scores job =
    (case map_of rows host of
       Some signals \<Rightarrow> (if snd (Score signals (row_weights cfg tuning host)) then Some (fst (Score signals (row_weights cfg tuning host))) else None)
     | None \<Rightarrow> None)"
    using score_rows_lookup [OF assms(5), of "[]" cfg tuning marshal "[]" host] assms(2,3)
    by (simp add: SetScores_lookup Let_def cong: option.case_cong)
  have "composite_resolve E (steady now (wired_chain (OverridePriority overrides) rules (Some (DynamicScore scores threshold hosts))))
      (now, DefaultPriority PriorityNormal) job
    = (case override_lookup E now overrides job of
         Some o' \<Rightarrow> ho_priority o'
       | None \<Rightarrow>
           (case matchHostPath E rules job of
              Some p \<Rightarrow> p
            | None \<Rightarrow>
                (case score_lookup E scores job of
                   None \<Rightarrow> PriorityNormal
                 | Some score \<Rightarrow> if fl_le (thresholdFor threshold hosts host) score then PriorityHigh else PriorityNormal)))"
    using assms(1,2) by (simp add: wired_chain_def steady_def first_rule_def split: option.split)
  also have "(case score_lookup E scores job of
                   None \<Rightarrow> PriorityNormal
                 | Some score \<Rightarrow> if fl_le (thresholdFor threshold hosts host) score then PriorityHigh else PriorityNormal)
      = (case map_of rows host of
                   None \<Rightarrow> PriorityNormal
                 | Some signals \<Rightarrow>
                     (case Score signals (row_weights cfg tuning host) of
                        (score, ok) \<Rightarrow> if ok \<and> fl_le (thresholdFor threshold hosts host) score then PriorityHigh else PriorityNormal))"
    unfolding l by (simp add: split_beta split: option.split)
  finally show ?thesis by (simp add: scorer_runOnce_def)
qed

definition sample_scorer :: scorer_config where
  "sample_scorer = \<lparr>sc_interval = 1, sc_window = 60, sc_weights = DefaultWeights, sc_timeout = 1\<rparr>"

theorem scored_host_priority_witness:
  "let scores = fst (scorer_runOnce sample_scorer None (\<lambda>_. Inr []) (\<lambda>_. Inr [(''h'', ToSignals sample_rows)]) None)
   in composite_resolve sample_route (steady 0 (wired_chain (OverridePriority None) None (Some (DynamicScore scores (Fin (1/2)) None))))
      (0, DefaultPriority PriorityNormal) (sample_job 0 ''/a'') = PriorityHigh"
proof -
  have j: "\<not> named_priority (job_priority (sample_job 0 ''/a''))"
    by (simp add: sample_job_def named_priority_def priorities)
  have h: "''h'' = hostOf sample_route (tg_url (job_target (sample_job 0 ''/a'')))"
    by (simp add: hostOf_def sample_job_def sample_route_def)
  have "Score (ToSignals sample_rows) (row_weights sample_scorer None ''h'') = (Fin (54/100), True)"
    by (simp add: Score_def ToSignals_def sample_rows_def row_weights_def sample_scorer_def DefaultWeights_def
        MinSampleCount_def normalizeFreshness_def normalizeTrust_def categoryImpact_def Let_def)
  then show ?thesis
    using scored_host_priority [OF j h, of "\<lambda>_. Inr [(''h'', ToSignals sample_rows)]" sample_scorer _ _ None "\<lambda>_. Inr []" None 0 None None "Fin (1/2)" None]
    by (simp add: override_lookup_def matchHostPath_def thresholdFor_def)
qed

end
