(* ===== verification/Redis.thy ===== *)
theory Redis
  imports GoBase "HOL-Library.List_Lexorder" "HOL-Library.Char_ord" "HOL-Library.Product_Lexorder" "HOL-Library.Multiset"
begin

text \<open>
  The Redis server as the code relies on it. The server is not part of the repository, so its
  state is a type variable and its commands are parameters; two locales state the documented
  behaviour of the string commands with expiry (GET, SET PX, DEL) and of sorted sets (ZADD,
  ZREM, ZRANGE, ZREMRANGEBYRANK), one more that of lists. A command is executed at a time of the server clock.
  The locales are interpreted on a reference store with expiring keys, which the witnesses
  evaluate. A client call may fail without having reached the server or after it was executed.
\<close>

section \<open>Calls over the network\<close>

datatype delivery = Answered | NotSent go_error | ReplyLost go_error

definition redis_call :: "delivery \<Rightarrow> ('r \<Rightarrow> 'v \<times> 'r) \<Rightarrow> 'r \<Rightarrow> (go_error + 'v) \<times> 'r" where
  "redis_call d cmd r =
     (case d of
        Answered \<Rightarrow> (let (v, r') = cmd r in (Inr v, r'))
      | NotSent e \<Rightarrow> (Inl e, r)
      | ReplyLost e \<Rightarrow> (Inl e, snd (cmd r)))"

lemma redis_call_simps [simp]:
  "redis_call Answered cmd r = (Inr (fst (cmd r)), snd (cmd r))"
  "redis_call (NotSent e) cmd r = (Inl e, r)"
  "redis_call (ReplyLost e) cmd r = (Inl e, snd (cmd r))"
  by (simp_all add: redis_call_def split_beta)

section \<open>String keys that expire\<close>

locale redis_strings =
  fixes get :: "gotime \<Rightarrow> string \<Rightarrow> 'r \<Rightarrow> bytes option"
    and setx :: "gotime \<Rightarrow> string \<Rightarrow> bytes \<Rightarrow> duration \<Rightarrow> 'r \<Rightarrow> 'r"
    and del :: "string \<Rightarrow> 'r \<Rightarrow> 'r"
  assumes get_setx: "0 < ttl \<Longrightarrow> now \<le> t \<Longrightarrow> get t k' (setx now k v ttl r)
      = (if k' = k then (if t < now + ttl then Some v else None) else get t k' r)"
    and get_del: "get t k' (del k r) = (if k' = k then None else get t k' r)"
    and gone: "t \<le> t' \<Longrightarrow> get t k r = None \<Longrightarrow> get t' k r = None"
    and stays: "t \<le> t' \<Longrightarrow> get t k r = Some v \<Longrightarrow> get t' k r \<in> {Some v, None}"

text \<open>
  SET NX sets the key only if it does not exist. The script that releases a lock is executed
  as one command: it deletes the key if it still has the caller's token.
\<close>

definition set_nx ::
  "(gotime \<Rightarrow> string \<Rightarrow> 'r \<Rightarrow> bytes option) \<Rightarrow> (gotime \<Rightarrow> string \<Rightarrow> bytes \<Rightarrow> duration \<Rightarrow> 'r \<Rightarrow> 'r)
     \<Rightarrow> gotime \<Rightarrow> string \<Rightarrow> bytes \<Rightarrow> duration \<Rightarrow> 'r \<Rightarrow> bool \<times> 'r" where
  "set_nx get setx now k v ttl r =
     (if get now k r = None then (True, setx now k v ttl r) else (False, r))"

definition luaReleaseOwned ::
  "(gotime \<Rightarrow> string \<Rightarrow> 'r \<Rightarrow> bytes option) \<Rightarrow> (string \<Rightarrow> 'r \<Rightarrow> 'r)
     \<Rightarrow> gotime \<Rightarrow> string \<Rightarrow> bytes \<Rightarrow> 'r \<Rightarrow> int \<times> 'r" where
  "luaReleaseOwned get del now k arg r =
     (if get now k r = Some arg then (1, del k r) else (0, r))"

context redis_strings
begin

lemma set_nx_get:
  assumes "0 < ttl" and "now \<le> t"
  shows "get t k' (snd (set_nx get setx now k v ttl r)) =
    (if k' = k \<and> get now k r = None then (if t < now + ttl then Some v else None) else get t k' r)"
  using assms by (simp add: set_nx_def get_setx)

lemma set_nx_held:
  assumes "get t k r = Some v" and "now \<le> t"
  shows "set_nx get setx now k w ttl r = (False, r)"
proof -
  have "get now k r \<noteq> None" using gone [OF assms(2), of k r] assms(1) by (cases "get now k r") auto
  then show ?thesis by (simp add: set_nx_def)
qed

lemma release_get:
  "get t k' (snd (luaReleaseOwned get del now k arg r)) =
    (if k' = k \<and> get now k r = Some arg then None else get t k' r)"
  by (simp add: luaReleaseOwned_def get_del)

lemma still_there:
  assumes "get t k r = Some v" and "now \<le> t"
  shows "get now k r = Some v"
  using gone [OF assms(2), of k r] stays [OF assms(2), of k r] assms(1) by fastforce

end

section \<open>Sorted sets\<close>

text \<open>
  \<open>zall k r\<close> lists the members of a sorted set with their scores in ascending order, members
  of equal score in the order of their bytes. Scores are whole numbers here; the program's
  scores are below \<open>2 ^ 53\<close>, where a Redis double is exact.
\<close>

locale redis_zsets = redis_strings get setx del
  for get :: "gotime \<Rightarrow> string \<Rightarrow> 'r \<Rightarrow> bytes option" and setx and del +
  fixes zall :: "string \<Rightarrow> 'r \<Rightarrow> (int \<times> string) list"
    and zadd :: "string \<Rightarrow> int \<Rightarrow> string \<Rightarrow> 'r \<Rightarrow> 'r"
    and zrem :: "string \<Rightarrow> string \<Rightarrow> 'r \<Rightarrow> 'r"
    and zcut :: "string \<Rightarrow> nat \<Rightarrow> 'r \<Rightarrow> 'r"
  assumes z_sorted: "sorted (zall k r)"
    and z_distinct: "distinct (map snd (zall k r))"
    and z_add: "set (zall k' (zadd k s m r))
      = (if k' = k then insert (s, m) {e \<in> set (zall k r). snd e \<noteq> m} else set (zall k' r))"
    and z_rem: "set (zall k' (zrem k m r))
      = (if k' = k then {e \<in> set (zall k r). snd e \<noteq> m} else set (zall k' r))"
    and z_cut: "zall k' (zcut k n r) = (if k' = k then take n (zall k r) else zall k' r)"
    and z_strings: "zall k (setx now k' v ttl r) = zall k r" "zall k (del k' r) = zall k r"
      "get t k' (zadd k s m r) = get t k' r" "get t k' (zrem k m r) = get t k' r"
      "get t k' (zcut k n r) = get t k' r"

context redis_zsets
begin

text \<open>The score of a member.\<close>

lemma zadd_member [simp]: "(s, m) \<in> set (zall k (zadd k s m r))"
  by (simp add: z_add)

lemma zrem_member: "(s, m) \<notin> set (zall k (zrem k m r))"
  by (simp add: z_rem)

lemma one_score:
  assumes "(s, m) \<in> set (zall k r)" and "(s', m) \<in> set (zall k r)"
  shows "s = s'"
proof -
  have "inj_on snd (set (zall k r))" using z_distinct [of k r] by (simp add: distinct_map)
  from inj_onD [OF this _ assms] show ?thesis by simp
qed

lemma zall_length: "length (zall k r) = card (set (zall k r))"
  using z_distinct [of k r] by (metis distinct_card distinct_map)

text \<open>Adding a member makes the set longer by at most one, and removing never makes it longer.\<close>

lemma zadd_length: "length (zall k (zadd k s m r)) \<le> Suc (length (zall k r))"
proof -
  have "card {e \<in> set (zall k r). snd e \<noteq> m} \<le> card (set (zall k r))"
    by (intro card_mono) auto
  then show ?thesis
    unfolding zall_length by (simp add: z_add card_insert_if)
qed

end

section \<open>Lists\<close>

text \<open>
  The head of the list is its first element; \<open>lpush\<close> pushes its arguments one after the
  other to the head, \<open>lcut\<close> is LTRIM to the first \<open>n\<close>, \<open>rpop\<close> removes up to \<open>n\<close> from the
  tail and gives them in the order they are removed.
\<close>

locale redis_lists =
  fixes lall :: "string \<Rightarrow> 'r \<Rightarrow> bytes list"
    and lpush :: "string \<Rightarrow> bytes list \<Rightarrow> 'r \<Rightarrow> 'r"
    and lcut :: "string \<Rightarrow> nat \<Rightarrow> 'r \<Rightarrow> 'r"
    and rpop :: "string \<Rightarrow> nat \<Rightarrow> 'r \<Rightarrow> bytes list \<times> 'r"
  assumes l_push: "lall k' (lpush k xs r) = (if k' = k then rev xs @ lall k r else lall k' r)"
    and l_cut: "lall k' (lcut k n r) = (if k' = k then take n (lall k r) else lall k' r)"
    and l_pop: "fst (rpop k n r) = take n (rev (lall k r))"
    and l_pop_rest: "lall k' (snd (rpop k n r))
      = (if k' = k then rev (drop n (rev (lall k r))) else lall k' r)"

section \<open>A reference store\<close>

record ref_redis =
  rr_strings :: "string \<rightharpoonup> bytes \<times> gotime"
  rr_zsets :: "string \<Rightarrow> (int \<times> string) list"
  rr_lists :: "string \<Rightarrow> bytes list"

definition ref_empty :: ref_redis where
  "ref_empty = \<lparr>rr_strings = Map.empty, rr_zsets = (\<lambda>_. []), rr_lists = (\<lambda>_. [])\<rparr>"

definition ref_get :: "gotime \<Rightarrow> string \<Rightarrow> ref_redis \<Rightarrow> bytes option" where
  "ref_get t k r =
     (case rr_strings r k of None \<Rightarrow> None | Some (v, e) \<Rightarrow> if t < e then Some v else None)"

definition ref_setx :: "gotime \<Rightarrow> string \<Rightarrow> bytes \<Rightarrow> duration \<Rightarrow> ref_redis \<Rightarrow> ref_redis" where
  "ref_setx now k v ttl r = r\<lparr>rr_strings := (rr_strings r)(k \<mapsto> (v, now + ttl))\<rparr>"

definition ref_del :: "string \<Rightarrow> ref_redis \<Rightarrow> ref_redis" where
  "ref_del k r = r\<lparr>rr_strings := (rr_strings r)(k := None)\<rparr>"

text \<open>The sorted sets are kept sorted with distinct members; any other value reads as empty.\<close>

definition ref_zall :: "string \<Rightarrow> ref_redis \<Rightarrow> (int \<times> string) list" where
  "ref_zall k r =
     (let xs = rr_zsets r k in if sorted xs \<and> distinct (map snd xs) then xs else [])"

definition ref_zput :: "string \<Rightarrow> (int \<times> string) list \<Rightarrow> ref_redis \<Rightarrow> ref_redis" where
  "ref_zput k xs r = r\<lparr>rr_zsets := (rr_zsets r)(k := xs)\<rparr>"

definition ref_zrem :: "string \<Rightarrow> string \<Rightarrow> ref_redis \<Rightarrow> ref_redis" where
  "ref_zrem k m r = ref_zput k (filter (\<lambda>e. snd e \<noteq> m) (ref_zall k r)) r"

definition ref_zadd :: "string \<Rightarrow> int \<Rightarrow> string \<Rightarrow> ref_redis \<Rightarrow> ref_redis" where
  "ref_zadd k s m r = ref_zput k (insort (s, m) (filter (\<lambda>e. snd e \<noteq> m) (ref_zall k r))) r"

definition ref_zcut :: "string \<Rightarrow> nat \<Rightarrow> ref_redis \<Rightarrow> ref_redis" where
  "ref_zcut k n r = ref_zput k (take n (ref_zall k r)) r"

definition ref_lpush :: "string \<Rightarrow> bytes list \<Rightarrow> ref_redis \<Rightarrow> ref_redis" where
  "ref_lpush k xs r = r\<lparr>rr_lists := (rr_lists r)(k := rev xs @ rr_lists r k)\<rparr>"

definition ref_lcut :: "string \<Rightarrow> nat \<Rightarrow> ref_redis \<Rightarrow> ref_redis" where
  "ref_lcut k n r = r\<lparr>rr_lists := (rr_lists r)(k := take n (rr_lists r k))\<rparr>"

definition ref_rpop :: "string \<Rightarrow> nat \<Rightarrow> ref_redis \<Rightarrow> bytes list \<times> ref_redis" where
  "ref_rpop k n r =
     (let xs = rev (rr_lists r k)
      in (take n xs, r\<lparr>rr_lists := (rr_lists r)(k := rev (drop n xs))\<rparr>))"

definition ref_lall :: "string \<Rightarrow> ref_redis \<Rightarrow> bytes list" where
  "ref_lall k r = rr_lists r k"

lemmas ref_string_defs = ref_get_def ref_setx_def ref_del_def
lemmas ref_list_defs = ref_lall_def ref_lpush_def ref_lcut_def ref_rpop_def

lemma ref_zall_wf: "sorted (ref_zall k r)" "distinct (map snd (ref_zall k r))"
  by (simp_all add: ref_zall_def Let_def)

lemma ref_zall_zput:
  "sorted xs \<Longrightarrow> distinct (map snd xs) \<Longrightarrow>
     ref_zall k' (ref_zput k xs r) = (if k' = k then xs else ref_zall k' r)"
  by (simp add: ref_zall_def ref_zput_def)

lemma distinct_snd_insort:
  assumes "distinct (map snd xs)" and "m \<notin> snd ` set xs"
  shows "distinct (map snd (insort (s, m) xs))"
proof -
  have "mset (map snd (insort (s, m) xs)) = mset (map snd ((s, m) # xs))"
    unfolding mset_map by simp
  moreover have "distinct (map snd ((s, m) # xs))" using assms by simp
  ultimately show ?thesis using mset_eq_imp_distinct_iff by blast
qed

lemma ref_z_filter:
  "sorted (filter p (ref_zall k r))" "distinct (map snd (filter p (ref_zall k r)))"
  by (rule sorted_wrt_filter [OF ref_zall_wf(1)], rule distinct_map_filter [OF ref_zall_wf(2)])

lemma ref_z_take:
  "sorted (take n (ref_zall k r))" "distinct (map snd (take n (ref_zall k r)))"
  by (rule sorted_wrt_take [OF ref_zall_wf(1)])
    (simp only: take_map [symmetric] distinct_take ref_zall_wf(2))

lemma ref_z_insort:
  "sorted (insort (s, m) (filter (\<lambda>e. snd e \<noteq> m) (ref_zall k r)))"
  "distinct (map snd (insort (s, m) (filter (\<lambda>e. snd e \<noteq> m) (ref_zall k r))))"
  by (simp only: sorted_insort ref_z_filter) (rule distinct_snd_insort [OF ref_z_filter(2)], force)

lemmas ref_z_wf = ref_z_filter ref_z_take ref_z_insort

interpretation ref_strings: redis_strings ref_get ref_setx ref_del
  by unfold_locales (auto simp: ref_string_defs split: option.splits)

lemma ref_zsets_simps:
  "ref_zall k' (ref_zadd k s m r)
     = (if k' = k then insort (s, m) (filter (\<lambda>e. snd e \<noteq> m) (ref_zall k r)) else ref_zall k' r)"
  "ref_zall k' (ref_zrem k m r)
     = (if k' = k then filter (\<lambda>e. snd e \<noteq> m) (ref_zall k r) else ref_zall k' r)"
  "ref_zall k' (ref_zcut k n r) = (if k' = k then take n (ref_zall k r) else ref_zall k' r)"
  unfolding ref_zadd_def ref_zrem_def ref_zcut_def by (simp_all only: ref_zall_zput ref_z_wf)

lemma ref_zsets_frames:
  "ref_zall k (ref_setx now k' v ttl r) = ref_zall k r" "ref_zall k (ref_del k' r) = ref_zall k r"
  "ref_get t k' (ref_zput k xs r) = ref_get t k' r"
  by (simp_all add: ref_zall_def ref_zput_def ref_string_defs)

interpretation ref_zsets: redis_zsets ref_get ref_setx ref_del ref_zall ref_zadd ref_zrem ref_zcut
proof unfold_locales
  show "sorted (ref_zall k r)" "distinct (map snd (ref_zall k r))" for k r
    by (rule ref_zall_wf)+
  show "set (ref_zall k' (ref_zadd k s m r))
      = (if k' = k then insert (s, m) {e \<in> set (ref_zall k r). snd e \<noteq> m} else set (ref_zall k' r))"
    for k' k s m r by (simp add: ref_zsets_simps set_insort_key)
  show "set (ref_zall k' (ref_zrem k m r))
      = (if k' = k then {e \<in> set (ref_zall k r). snd e \<noteq> m} else set (ref_zall k' r))"
    for k' k m r by (simp add: ref_zsets_simps)
  show "ref_zall k' (ref_zcut k n r) = (if k' = k then take n (ref_zall k r) else ref_zall k' r)"
    for k' k n r by (rule ref_zsets_simps)
qed (simp_all add: ref_zsets_frames ref_zadd_def ref_zrem_def ref_zcut_def)

interpretation ref_lists: redis_lists ref_lall ref_lpush ref_lcut ref_rpop
  by unfold_locales (auto simp: ref_list_defs Let_def)

end
