(* ===== verification/Locks.thy ===== *)
theory Locks
  imports Redis CrawlCore
begin

text \<open>
  Distributed locks: the Redis lock commands of \<^verbatim>\<open>pkg/redis/lock.go\<close>, the processing
  lock, the semaphore and the stage gate of \<^verbatim>\<open>internal/locks\<close>, the ingestion marker and
  the pipeline guard, and the leader lock of \<^verbatim>\<open>pkg/redis/leader_lock.go\<close>. SHA-256 is
  a parameter \<open>hash\<close>; random tokens, the outcome of a network call and the times are
  arguments. Metrics and logging are left out.
\<close>

section \<open>Lock commands\<close>

record 'r redis_ops =
  rd_get :: "gotime \<Rightarrow> string \<Rightarrow> 'r \<Rightarrow> bytes option"
  rd_setx :: "gotime \<Rightarrow> string \<Rightarrow> bytes \<Rightarrow> duration \<Rightarrow> 'r \<Rightarrow> 'r"
  rd_del :: "string \<Rightarrow> 'r \<Rightarrow> 'r"

abbreviation redis_ok :: "('r, 'z) redis_ops_scheme \<Rightarrow> bool" where
  "redis_ok R \<equiv> redis_strings (rd_get R) (rd_setx R) (rd_del R)"

definition ref_ops :: "ref_redis redis_ops" where
  "ref_ops = \<lparr>rd_get = ref_get, rd_setx = ref_setx, rd_del = ref_del\<rparr>"

lemma ref_ops_ok: "redis_ok ref_ops"
  by (simp add: ref_ops_def ref_strings.redis_strings_axioms)

definition wrap_err :: "string \<Rightarrow> go_error + 'v \<Rightarrow> go_error + 'v" where
  "wrap_err ctx v = (case v of Inl e \<Rightarrow> Inl (Wrapped ctx e) | Inr x \<Rightarrow> Inr x)"

lemma wrap_err_simps [simp]:
  "wrap_err ctx (Inl e) = Inl (Wrapped ctx e)" "wrap_err ctx (Inr x) = Inr x"
  by (simp_all add: wrap_err_def)

definition AcquireLock ::
  "('r, 'z) redis_ops_scheme \<Rightarrow> delivery \<Rightarrow> gotime \<Rightarrow> string \<Rightarrow> duration \<Rightarrow> 'r \<Rightarrow> (go_error + bool) \<times> 'r" where
  "AcquireLock R d now key ttl r =
     (let (v, r') = redis_call d (set_nx (rd_get R) (rd_setx R) now key ''1'' ttl) r
      in (wrap_err (''acquire lock '' @ key) v, r'))"

definition ReleaseLock ::
  "('r, 'z) redis_ops_scheme \<Rightarrow> delivery \<Rightarrow> string \<Rightarrow> 'r \<Rightarrow> (go_error + unit) \<times> 'r" where
  "ReleaseLock R d key r =
     (let (v, r') = redis_call d (\<lambda>r. ((), rd_del R key r)) r
      in (wrap_err (''release lock '' @ key) v, r'))"

text \<open>
  \<open>rnd\<close> is what \<^verbatim>\<open>newLockToken\<close> returns: 32 hex digits, or the error of the random source.
  The answer is the token when the lock was acquired, \<open>None\<close> when another holds it.
\<close>

definition AcquireLockWithToken ::
  "('r, 'z) redis_ops_scheme \<Rightarrow> go_error + string \<Rightarrow> delivery \<Rightarrow> gotime \<Rightarrow> string \<Rightarrow> duration \<Rightarrow> 'r
     \<Rightarrow> (go_error + string option) \<times> 'r" where
  "AcquireLockWithToken R rnd d now key ttl r =
     (case rnd of
        Inl e \<Rightarrow> (Inl (Wrapped (''generate lock token for '' @ key) e), r)
      | Inr token \<Rightarrow>
          (case redis_call d (set_nx (rd_get R) (rd_setx R) now key token ttl) r of
             (Inl e, r') \<Rightarrow> (Inl (Wrapped (''acquire lock '' @ key) e), r')
           | (Inr ok, r') \<Rightarrow> (Inr (if ok then Some token else None), r')))"

definition ReleaseLockOwned ::
  "('r, 'z) redis_ops_scheme \<Rightarrow> delivery \<Rightarrow> gotime \<Rightarrow> string \<Rightarrow> string \<Rightarrow> 'r \<Rightarrow> (go_error + bool) \<times> 'r" where
  "ReleaseLockOwned R d now key token r =
     (if token = [] then (Inl (Opaque ''release lock: empty token''), r)
      else (case redis_call d (luaReleaseOwned (rd_get R) (rd_del R) now key token) r of
              (Inl e, r') \<Rightarrow> (Inl (Wrapped (''release lock '' @ key) e), r')
            | (Inr deleted, r') \<Rightarrow> (Inr (deleted > 0), r')))"

section \<open>The processing lock\<close>

definition processingLockKeyPrefix :: string where "processingLockKeyPrefix = ''processing:''"

definition ProcessingLockTTL :: duration where "ProcessingLockTTL = 10 * minute"

definition ProcessingKey :: "(string \<Rightarrow> string) \<Rightarrow> string \<Rightarrow> string \<Rightarrow> string" where
  "ProcessingKey hash stage url = processingLockKeyPrefix @ stage @ '':url:'' @ hash url"

definition NewRedisProcessingLock :: "duration \<Rightarrow> duration" where
  "NewRedisProcessingLock ttl = (if ttl \<le> 0 then ProcessingLockTTL else ttl)"

definition processing_acquire ::
  "('r, 'z) redis_ops_scheme \<Rightarrow> duration \<Rightarrow> go_error + string \<Rightarrow> delivery \<Rightarrow> gotime \<Rightarrow> string \<Rightarrow> 'r
     \<Rightarrow> (go_error + string option) \<times> 'r" where
  "processing_acquire R ttl rnd d now key r = AcquireLockWithToken R rnd d now key ttl r"

definition processing_release ::
  "('r, 'z) redis_ops_scheme \<Rightarrow> delivery \<Rightarrow> gotime \<Rightarrow> string \<Rightarrow> string \<Rightarrow> 'r \<Rightarrow> go_error option \<times> 'r" where
  "processing_release R d now key token r =
     (if token = [] then (None, r)
      else (case ReleaseLockOwned R d now key token r of
              (Inl e, r') \<Rightarrow> (Some e, r')
            | (Inr released, r') \<Rightarrow>
                (if \<not> released then Some (Annotated [] (Sentinel LockNotOwned) ('': '' @ key)) else None, r')))"

section \<open>The semaphore\<close>

text \<open>
  \<open>in_flight\<close> is the counter; the weighted semaphore admits a caller only while fewer than
  \<open>capacity\<close> slots are taken. \<open>ctx\<close> is the error of a context that ends while waiting; a
  caller that has to wait when its context does not end gets no answer (\<open>None\<close>).
\<close>

record semaphore =
  sem_capacity :: int
  in_flight :: int

definition NewSemaphore :: "int \<Rightarrow> semaphore option" where
  "NewSemaphore capacity =
     (if capacity < 1 then None else Some \<lparr>sem_capacity = capacity, in_flight = 0\<rparr>)"

definition sem_acquire :: "go_error option \<Rightarrow> semaphore \<Rightarrow> (go_error option \<times> semaphore) option" where
  "sem_acquire ctx sem =
     (case ctx of
        Some e \<Rightarrow> Some (Some e, sem)
      | None \<Rightarrow> if in_flight sem < sem_capacity sem
                then Some (None, sem\<lparr>in_flight := in_flight sem + 1\<rparr>) else None)"

definition sem_release :: "semaphore \<Rightarrow> semaphore" where
  "sem_release sem =
     (if in_flight sem \<le> 0 then sem else sem\<lparr>in_flight := in_flight sem - 1\<rparr>)"

section \<open>The stage gate\<close>

text \<open>
  A gate handle is the release function of a successful acquire: its key, its token and its
  \<^verbatim>\<open>released\<close> flag.
\<close>

record gate_handle =
  gh_key :: string
  gh_token :: string
  gh_released :: bool

definition gate_acquire ::
  "('r, 'z) redis_ops_scheme \<Rightarrow> (string \<Rightarrow> string) \<Rightarrow> string \<Rightarrow> duration \<Rightarrow> go_error option \<Rightarrow> go_error + string
     \<Rightarrow> delivery \<Rightarrow> gotime \<Rightarrow> string \<Rightarrow> semaphore \<times> 'r
     \<Rightarrow> ((go_error + gate_handle option) \<times> (semaphore \<times> 'r)) option" where
  "gate_acquire R hash stage ttl ctx rnd d now url st =
     (let (sem, r) = st
      in case sem_acquire ctx sem of
           None \<Rightarrow> None
         | Some (Some e, sem1) \<Rightarrow> Some (Inl e, (sem1, r))
         | Some (None, sem1) \<Rightarrow>
             (let key = ProcessingKey hash stage url
              in Some (case processing_acquire R ttl rnd d now key r of
                   (Inl lockErr, r1) \<Rightarrow> (Inl lockErr, (sem_release sem1, r1))
                 | (Inr None, r1) \<Rightarrow> (Inr None, (sem_release sem1, r1))
                 | (Inr (Some token), r1) \<Rightarrow>
                     (Inr (Some \<lparr>gh_key = key, gh_token = token, gh_released = False\<rparr>), (sem1, r1)))))"

definition gate_release ::
  "('r, 'z) redis_ops_scheme \<Rightarrow> delivery \<Rightarrow> gotime \<Rightarrow> gate_handle \<Rightarrow> semaphore \<times> 'r
     \<Rightarrow> gate_handle \<times> (semaphore \<times> 'r)" where
  "gate_release R d now h st =
     (let (sem, r) = st
      in if gh_released h then (h, st)
         else (h\<lparr>gh_released := True\<rparr>,
               (sem_release sem, snd (processing_release R d now (gh_key h) (gh_token h) r))))"

section \<open>The ingestion marker and the pipeline guard\<close>

definition DefaultIngestionMarkTTL :: duration where "DefaultIngestionMarkTTL = 24 * hour"
definition DefaultCategoryTTL :: duration where "DefaultCategoryTTL = 60 * second"

definition ingestionKey :: "(string \<Rightarrow> string) \<Rightarrow> string \<Rightarrow> string" where
  "ingestionKey hash url = ''ingestion:url:'' @ hash url"

definition NewRedisIngestionMarker :: "duration \<Rightarrow> duration" where
  "NewRedisIngestionMarker ttl = (if ttl \<le> 0 then DefaultIngestionMarkTTL else ttl)"

definition marker_acquire ::
  "('r, 'z) redis_ops_scheme \<Rightarrow> (string \<Rightarrow> string) \<Rightarrow> duration \<Rightarrow> delivery \<Rightarrow> gotime \<Rightarrow> string \<Rightarrow> 'r
     \<Rightarrow> (go_error + bool) \<times> 'r" where
  "marker_acquire R hash mttl d now url r = AcquireLock R d now (ingestionKey hash url) mttl r"

definition marker_acquire_with_ttl ::
  "('r, 'z) redis_ops_scheme \<Rightarrow> (string \<Rightarrow> string) \<Rightarrow> duration \<Rightarrow> duration \<Rightarrow> delivery \<Rightarrow> gotime \<Rightarrow> string
     \<Rightarrow> 'r \<Rightarrow> (go_error + bool) \<times> 'r" where
  "marker_acquire_with_ttl R hash mttl ttl0 d now url r =
     (let ttl = (if ttl0 \<le> 0 then mttl else ttl0)
      in AcquireLock R d now (ingestionKey hash url) ttl r)"

definition marker_invalidate ::
  "('r, 'z) redis_ops_scheme \<Rightarrow> (string \<Rightarrow> string) \<Rightarrow> delivery \<Rightarrow> string \<Rightarrow> 'r \<Rightarrow> (go_error + unit) \<times> 'r" where
  "marker_invalidate R hash d url r = ReleaseLock R d (ingestionKey hash url) r"

record guard_config =
  gc_marker_ttl :: duration
  gc_category_ttl :: duration

definition NewPipelineGuard :: "duration \<Rightarrow> duration \<Rightarrow> guard_config" where
  "NewPipelineGuard markerTTL categoryTTL =
     \<lparr>gc_marker_ttl = NewRedisIngestionMarker markerTTL,
      gc_category_ttl = (if categoryTTL \<le> 0 then DefaultCategoryTTL else categoryTTL)\<rparr>"

definition CheckAndAcquire ::
  "('r, 'z) redis_ops_scheme \<Rightarrow> (string \<Rightarrow> string) \<Rightarrow> guard_config \<Rightarrow> string \<Rightarrow> delivery \<Rightarrow> gotime \<Rightarrow> string
     \<Rightarrow> 'r \<Rightarrow> (go_error + bool) \<times> 'r" where
  "CheckAndAcquire R hash g targetType d now url r =
     (if targetType = TargetTypeCategory
      then marker_acquire_with_ttl R hash (gc_marker_ttl g) (gc_category_ttl g) d now url r
      else marker_acquire R hash (gc_marker_ttl g) d now url r)"

definition guard_release ::
  "('r, 'z) redis_ops_scheme \<Rightarrow> (string \<Rightarrow> string) \<Rightarrow> delivery \<Rightarrow> string \<Rightarrow> 'r \<Rightarrow> (go_error + unit) \<times> 'r" where
  "guard_release R hash d url r = marker_invalidate R hash d url r"

definition guard_hold :: "guard_config \<Rightarrow> string \<Rightarrow> duration" where
  "guard_hold g targetType =
     (if targetType = TargetTypeCategory then gc_category_ttl g else gc_marker_ttl g)"

lemma guard_ttls: "0 < gc_marker_ttl (NewPipelineGuard a b)" "0 < gc_category_ttl (NewPipelineGuard a b)"
  by (simp_all add: NewPipelineGuard_def NewRedisIngestionMarker_def DefaultIngestionMarkTTL_def
      DefaultCategoryTTL_def)

section \<open>The leader lock\<close>

text \<open>The token an instance holds, empty when it holds none.\<close>

definition LeaderLockKey :: "string \<Rightarrow> string" where
  "LeaderLockKey role = ''lock:leader:'' @ role"

definition leader_try_acquire ::
  "('r, 'z) redis_ops_scheme \<Rightarrow> string \<Rightarrow> duration \<Rightarrow> go_error + string \<Rightarrow> delivery \<Rightarrow> gotime
     \<Rightarrow> string \<times> 'r \<Rightarrow> (go_error + bool) \<times> (string \<times> 'r)" where
  "leader_try_acquire R role ttl rnd d now st =
     (let (tok, r) = st
      in if tok \<noteq> [] then (Inr False, st)
         else (case rnd of
                 Inl e \<Rightarrow> (Inl (Wrapped ''generate leader token'' e), st)
               | Inr token \<Rightarrow>
                   (case redis_call d (set_nx (rd_get R) (rd_setx R) now (LeaderLockKey role) token ttl) r of
                      (Inl e, r') \<Rightarrow>
                        (Inl (Wrapped (''acquire leader lock '' @ LeaderLockKey role) e), (tok, r'))
                    | (Inr ok, r') \<Rightarrow> if ok then (Inr True, (token, r')) else (Inr False, (tok, r')))))"

definition leader_release ::
  "('r, 'z) redis_ops_scheme \<Rightarrow> string \<Rightarrow> delivery \<Rightarrow> gotime \<Rightarrow> string \<times> 'r
     \<Rightarrow> go_error option \<times> (string \<times> 'r)" where
  "leader_release R role d now st =
     (let (tok, r) = st
      in if tok = [] then (None, ([], r))
         else (case redis_call d (luaReleaseOwned (rd_get R) (rd_del R) now (LeaderLockKey role) tok) r of
                 (Inl e, r') \<Rightarrow> (Some (Wrapped (''release leader lock '' @ LeaderLockKey role) e), ([], r'))
               | (Inr _, r') \<Rightarrow> (None, ([], r'))))"

definition leader_has_lock :: "string \<times> 'r \<Rightarrow> bool" where
  "leader_has_lock st \<longleftrightarrow> fst st \<noteq> []"

section \<open>The contract of a URL marker\<close>

text \<open>
  What the publisher relies on: the first caller marks a URL, the mark keeps everyone else
  out for the hold time, and removing the mark frees the URL.
\<close>

locale url_marker =
  fixes try_mark :: "gotime \<Rightarrow> string \<Rightarrow> 's \<Rightarrow> bool \<times> 's"
    and unmark :: "string \<Rightarrow> 's \<Rightarrow> 's"
    and marked :: "gotime \<Rightarrow> string \<Rightarrow> 's \<Rightarrow> bool"
    and hold :: duration
  assumes mark_iff: "fst (try_mark t u s) \<longleftrightarrow> \<not> marked t u s"
    and mark_new: "\<not> marked t u s \<Longrightarrow> t \<le> t' \<Longrightarrow> t' < t + hold \<Longrightarrow> marked t' u (snd (try_mark t u s))"
    and mark_keeps: "t \<le> t' \<Longrightarrow> marked t' v s \<Longrightarrow> marked t' v (snd (try_mark t u s))"
    and mark_earlier: "t \<le> t' \<Longrightarrow> marked t' v s \<Longrightarrow> marked t v s"
    and unmarked: "\<not> marked t u (unmark u s)"
begin

fun mark_all :: "gotime \<Rightarrow> string list \<Rightarrow> 's \<Rightarrow> string list \<times> 's" where
  "mark_all t [] s = ([], s)"
| "mark_all t (u # us) s =
     (let (ok, s1) = try_mark t u s; (vs, s2) = mark_all t us s1
      in (if ok then u # vs else vs, s2))"

lemma mark_all_keeps: "t \<le> t' \<Longrightarrow> marked t' v s \<Longrightarrow> marked t' v (snd (mark_all t us s))"
  by (induction us arbitrary: s) (auto simp: Let_def split_beta mark_keeps)

text \<open>The URLs that were new are marked for the hold time.\<close>

lemma mark_all_marks:
  "v \<in> set (fst (mark_all t us s)) \<Longrightarrow> t \<le> t' \<Longrightarrow> t' < t + hold \<Longrightarrow> marked t' v (snd (mark_all t us s))"
proof (induction us arbitrary: s)
  case (Cons u us)
  then show ?case
    using mark_iff [of t u s] mark_new [of t u s t']
      mark_all_keeps [of t t' u "snd (try_mark t u s)" us]
    by (auto simp: Let_def split_beta split: if_splits)
qed simp

text \<open>Marked URLs are all refused.\<close>

lemma mark_all_refused:
  "\<forall>u \<in> set us. marked t u s \<Longrightarrow> fst (mark_all t us s) = []"
proof (induction us arbitrary: s)
  case (Cons u us)
  moreover have "\<forall>v \<in> set us. marked t v (snd (try_mark t u s))"
    using Cons.prems mark_keeps by simp
  ultimately show ?case
    using mark_iff [of t u s] by (simp add: Let_def split_beta)
qed simp

lemma mark_all_subset: "set (fst (mark_all t us s)) \<subseteq> set us"
  by (induction us arbitrary: s) (auto simp: Let_def split_beta)

text \<open>Hence what one pass marked, a later pass within the hold time gets nothing of.\<close>

lemma mark_all_twice:
  assumes "t \<le> t'" and "t' < t + hold" and "set vs \<subseteq> set (fst (mark_all t us s))"
  shows "fst (mark_all t' vs (snd (mark_all t us s))) = []"
  by (rule mark_all_refused) (use assms mark_all_marks in blast)

end

text \<open>The pipeline guard provides this contract over any Redis.\<close>

definition guard_mark ::
  "('r, 'z) redis_ops_scheme \<Rightarrow> (string \<Rightarrow> string) \<Rightarrow> guard_config \<Rightarrow> string \<Rightarrow> gotime \<Rightarrow> string \<Rightarrow> 'r \<Rightarrow> bool \<times> 'r" where
  "guard_mark R hash g targetType t u r =
     (let (v, r') = CheckAndAcquire R hash g targetType Answered t u r in (v = Inr True, r'))"

definition guard_unmark ::
  "('r, 'z) redis_ops_scheme \<Rightarrow> (string \<Rightarrow> string) \<Rightarrow> string \<Rightarrow> 'r \<Rightarrow> 'r" where
  "guard_unmark R hash u r = snd (guard_release R hash Answered u r)"

definition guard_marked ::
  "('r, 'z) redis_ops_scheme \<Rightarrow> (string \<Rightarrow> string) \<Rightarrow> gotime \<Rightarrow> string \<Rightarrow> 'r \<Rightarrow> bool" where
  "guard_marked R hash t u r \<longleftrightarrow> rd_get R t (ingestionKey hash u) r \<noteq> None"

lemma CheckAndAcquire_answered:
  assumes "0 < gc_category_ttl g"
  shows "CheckAndAcquire R hash g tt Answered t u r =
    (let (ok, r') = set_nx (rd_get R) (rd_setx R) t (ingestionKey hash u) ''1'' (guard_hold g tt) r
     in (Inr ok, r'))"
  using assms
  by (simp add: CheckAndAcquire_def marker_acquire_with_ttl_def marker_acquire_def AcquireLock_def
      guard_hold_def Let_def split_beta)

lemma guard_is_marker:
  assumes "redis_ok R" and "0 < gc_category_ttl g" and "0 < gc_marker_ttl g"
  shows "url_marker (guard_mark R hash g tt) (guard_unmark R hash) (guard_marked R hash) (guard_hold g tt)"
proof -
  note laws = redis_strings.get_setx [OF assms(1)] redis_strings.get_del [OF assms(1)]
    redis_strings.gone [OF assms(1)]
  have hold: "0 < guard_hold g tt" using assms by (simp add: guard_hold_def)
  have mark: "guard_mark R hash g tt t u r =
      set_nx (rd_get R) (rd_setx R) t (ingestionKey hash u) ''1'' (guard_hold g tt) r" for t u r
    using assms by (simp add: guard_mark_def CheckAndAcquire_answered Let_def split_beta)
  have unm: "guard_unmark R hash u r = rd_del R (ingestionKey hash u) r" for u r
    by (simp add: guard_unmark_def guard_release_def marker_invalidate_def ReleaseLock_def)
  show ?thesis
  proof unfold_locales
    fix t t' u v r
    show "fst (guard_mark R hash g tt t u r) \<longleftrightarrow> \<not> guard_marked R hash t u r"
      by (simp add: mark set_nx_def guard_marked_def)
    show "guard_marked R hash t' u (snd (guard_mark R hash g tt t u r))"
      if "\<not> guard_marked R hash t u r" "t \<le> t'" "t' < t + guard_hold g tt"
      using that hold by (simp add: mark set_nx_def guard_marked_def laws)
    show "guard_marked R hash t' v (snd (guard_mark R hash g tt t u r))"
      if "t \<le> t'" "guard_marked R hash t' v r"
    proof (cases "rd_get R t (ingestionKey hash u) r = None")
      case True
      moreover have "ingestionKey hash v \<noteq> ingestionKey hash u"
        using that True laws(3) [of t t' "ingestionKey hash v" r] by (auto simp: guard_marked_def)
      ultimately show ?thesis using that hold by (simp add: mark set_nx_def guard_marked_def laws)
    qed (use that in \<open>auto simp: mark set_nx_def\<close>)
    show "guard_marked R hash t v r" if "t \<le> t'" "guard_marked R hash t' v r"
      using that laws(3) [of t t' "ingestionKey hash v" r] unfolding guard_marked_def by metis
    show "\<not> guard_marked R hash t u (guard_unmark R hash u r)"
      by (simp add: unm guard_marked_def laws)
  qed
qed

interpretation article_marker: url_marker
  "guard_mark ref_ops id (NewPipelineGuard 0 0) TargetTypeArticle" "guard_unmark ref_ops id"
  "guard_marked ref_ops id" "guard_hold (NewPipelineGuard 0 0) TargetTypeArticle"
  by (rule guard_is_marker) (simp_all add: ref_ops_ok guard_ttls)

section \<open>Lock runs\<close>

text \<open>
  What others may do to the lock table while one instance holds a key: acquire or release any
  key with tokens of their own, in any order, each call answered, lost or failing.
\<close>

datatype lock_op =
    OpAcquire delivery gotime string string duration
  | OpRelease delivery gotime string string

fun lock_step :: "('r, 'z) redis_ops_scheme \<Rightarrow> lock_op \<Rightarrow> 'r \<Rightarrow> 'r" where
  "lock_step R (OpAcquire d now key token ttl) r = snd (AcquireLockWithToken R (Inr token) d now key ttl r)"
| "lock_step R (OpRelease d now key token) r = snd (ReleaseLockOwned R d now key token r)"

fun op_time :: "lock_op \<Rightarrow> gotime" where
  "op_time (OpAcquire _ now _ _ _) = now"
| "op_time (OpRelease _ now _ _) = now"

fun op_token :: "lock_op \<Rightarrow> string" where
  "op_token (OpAcquire _ _ _ token _) = token"
| "op_token (OpRelease _ _ _ token) = token"

fun op_ok :: "lock_op \<Rightarrow> bool" where
  "op_ok (OpAcquire _ _ _ _ ttl) = (0 < ttl)"
| "op_ok (OpRelease _ _ _ _) = True"

lemma lock_step_holds:
  assumes R: "redis_ok R" and held: "rd_get R T key r = Some tok"
    and op: "op_ok p" "op_time p \<le> T" "op_token p \<noteq> tok"
  shows "rd_get R T key (lock_step R p r) = Some tok"
proof (cases p)
  case (OpAcquire d now k token ttl)
  then have ttl: "0 < ttl" "now \<le> T" using op by auto
  have "rd_get R T key (snd (set_nx (rd_get R) (rd_setx R) now k token ttl r)) = Some tok"
    using redis_strings.set_nx_get [OF R ttl, of key k token r] held
      redis_strings.still_there [OF R held ttl(2)] by auto
  then show ?thesis
    using OpAcquire held by (cases d) (simp_all add: AcquireLockWithToken_def split_beta)
next
  case (OpRelease d now k token)
  have "rd_get R T key (snd (luaReleaseOwned (rd_get R) (rd_del R) now k token r)) = Some tok"
    using redis_strings.release_get [OF R, of T key now k token r] held
      redis_strings.still_there [OF R held, of now] op OpRelease by auto
  then show ?thesis
    using OpRelease held by (cases d) (simp_all add: ReleaseLockOwned_def split_beta)
qed

lemma lock_run_holds:
  assumes "redis_ok R"
  shows "rd_get R T key r = Some tok \<Longrightarrow> \<forall>p \<in> set ps. op_ok p \<and> op_time p \<le> T \<and> op_token p \<noteq> tok
    \<Longrightarrow> rd_get R T key (fold (lock_step R) ps r) = Some tok"
proof (induction ps arbitrary: r)
  case (Cons p ps)
  then show ?case using lock_step_holds [OF assms, of T key r tok p] by simp
qed simp

section \<open>Runs of a stage gate\<close>

text \<open>
  One instance's gate: any number of workers acquire it for URLs and call their release
  functions, a release function any number of times, while other instances change Redis.
  The state holds every handle that was given out.
\<close>

inductive gate_run ::
  "('r, 'z) redis_ops_scheme \<Rightarrow> (string \<Rightarrow> string) \<Rightarrow> string \<Rightarrow> duration \<Rightarrow> int
     \<Rightarrow> semaphore \<Rightarrow> 'r \<Rightarrow> gate_handle list \<Rightarrow> bool"
  for R hash stage ttl cap where
  gate_start: "NewSemaphore cap = Some sem \<Longrightarrow> gate_run R hash stage ttl cap sem r []"
| gate_take: "gate_run R hash stage ttl cap sem r hs
    \<Longrightarrow> gate_acquire R hash stage ttl ctx rnd d now url (sem, r) = Some (Inr (Some h), (sem', r'))
    \<Longrightarrow> gate_run R hash stage ttl cap sem' r' (hs @ [h])"
| gate_refuse: "gate_run R hash stage ttl cap sem r hs
    \<Longrightarrow> gate_acquire R hash stage ttl ctx rnd d now url (sem, r) = Some (v, (sem', r'))
    \<Longrightarrow> v = Inr None \<or> (\<exists>e. v = Inl e)
    \<Longrightarrow> gate_run R hash stage ttl cap sem' r' hs"
| gate_done: "gate_run R hash stage ttl cap sem r hs \<Longrightarrow> i < length hs
    \<Longrightarrow> gate_release R d now (hs ! i) (sem, r) = (h', (sem', r'))
    \<Longrightarrow> gate_run R hash stage ttl cap sem' r' (hs[i := h'])"
| gate_others: "gate_run R hash stage ttl cap sem r hs \<Longrightarrow> gate_run R hash stage ttl cap sem r' hs"

fun open_handles :: "gate_handle list \<Rightarrow> int" where
  "open_handles [] = 0"
| "open_handles (h # hs) = (if gh_released h then 0 else 1) + open_handles hs"

lemma open_handles_append [simp]: "open_handles (hs @ gs) = open_handles hs + open_handles gs"
  by (induction hs) auto

lemma open_handles_nonneg: "0 \<le> open_handles hs"
  by (induction hs) auto

lemma open_handles_update:
  "i < length hs \<Longrightarrow> open_handles (hs[i := h]) = open_handles hs
    + (if gh_released h then 0 else 1) - (if gh_released (hs ! i) then 0 else 1)"
  by (induction hs arbitrary: i) (auto split: nat.split)

lemma open_handles_pos:
  "i < length hs \<Longrightarrow> \<not> gh_released (hs ! i) \<Longrightarrow> 0 < open_handles hs"
proof (induction hs arbitrary: i)
  case (Cons h hs)
  then show ?case using open_handles_nonneg [of hs] by (cases i) fastforce+
qed simp

lemma gate_acquire_sem:
  assumes "gate_acquire R hash stage ttl ctx rnd d now url (sem, r) = Some (v, (sem', r'))"
    and "0 \<le> in_flight sem"
  shows "case v of
      Inr (Some h) \<Rightarrow> \<not> gh_released h \<and> sem' = sem\<lparr>in_flight := in_flight sem + 1\<rparr>
        \<and> in_flight sem < sem_capacity sem
    | _ \<Rightarrow> sem' = sem"
  using assms
  by (auto simp: gate_acquire_def sem_acquire_def sem_release_def Let_def
      split: option.splits sum.splits prod.splits if_splits)

lemma gate_run_inv:
  "gate_run R hash stage ttl cap sem r hs \<Longrightarrow>
     in_flight sem = open_handles hs \<and> open_handles hs \<le> cap \<and> sem_capacity sem = cap"
proof (induction rule: gate_run.induct)
  case (gate_start sem r)
  then show ?case by (auto simp: NewSemaphore_def split: if_splits)
next
  case (gate_take sem r hs ctx rnd d now url h sem' r')
  then show ?case
    using gate_acquire_sem [OF gate_take.hyps(2)] open_handles_nonneg [of hs] by auto
next
  case (gate_refuse sem r hs ctx rnd d now url v sem' r')
  then show ?case
    using gate_acquire_sem [OF gate_refuse.hyps(2)] open_handles_nonneg [of hs] by auto
next
  case (gate_done sem r hs i d now h' sem' r')
  then show ?case
    using open_handles_pos [OF gate_done.hyps(2)]
    by (auto simp: gate_release_def sem_release_def open_handles_update split: if_splits)
qed simp

section \<open>Properties\<close>

text \<open>C11. Mutual exclusion of the processing lock. From the moment an instance got the token of a key
  until the TTL has passed, whatever the other instances do with tokens of their own, and
  whichever of their calls fail or lose their answer: nobody else acquires the key, a release
  with another token reports ErrLockNotOwned and changes nothing, and the owner's release
  succeeds and frees the key.\<close>
theorem processing_lock_exclusive:
  assumes "redis_ok R" and "0 < ttl" and "tok \<noteq> []"
    and "AcquireLockWithToken R (Inr tok) Answered now key ttl r = (Inr (Some tok), r1)"
    and "now \<le> T" and "T < now + ttl"
    and "\<forall>p \<in> set ps. op_ok p \<and> op_time p \<le> T \<and> op_token p \<noteq> tok"
    and "r2 = fold (lock_step R) ps r1"
  shows "AcquireLockWithToken R (Inr tok') Answered T key ttl' r2 = (Inr None, r2)
    \<and> (tok' \<noteq> [] \<and> tok' \<noteq> tok \<longrightarrow>
         processing_release R Answered T key tok' r2
           = (Some (Annotated [] (Sentinel LockNotOwned) ('': '' @ key)), r2))
    \<and> (\<exists>r3. processing_release R Answered T key tok r2 = (None, r3) \<and> rd_get R T key r3 = None)"
proof -
  have "rd_get R T key r1 = Some tok"
    using assms(4) redis_strings.set_nx_get [OF assms(1,2,5), of key key tok r] assms(6)
    by (auto simp: AcquireLockWithToken_def set_nx_def split: if_splits)
  then have held: "rd_get R T key r2 = Some tok"
    unfolding assms(8) using lock_run_holds [OF assms(1)] assms(7) by blast
  show ?thesis
    using held assms(3) redis_strings.get_del [OF assms(1)]
    by (simp add: AcquireLockWithToken_def set_nx_def processing_release_def ReleaseLockOwned_def
        luaReleaseOwned_def)
qed

theorem processing_lock_exclusive_witness:
  "fst (AcquireLockWithToken ref_ops (Inr ''b'') Answered 9 ''k'' 5
     (lock_step ref_ops (OpRelease Answered 3 ''k'' ''b'')
       (snd (AcquireLockWithToken ref_ops (Inr ''a'') Answered 0 ''k'' 10 ref_empty)))) = Inr None"
proof -
  have a: "AcquireLockWithToken ref_ops (Inr ''a'') Answered 0 ''k'' 10 ref_empty
      = (Inr (Some ''a''), ref_setx 0 ''k'' ''a'' 10 ref_empty)"
    by (simp add: AcquireLockWithToken_def set_nx_def ref_ops_def ref_get_def ref_empty_def)
  show ?thesis
    using processing_lock_exclusive [OF ref_ops_ok _ _ a, of 9 "[OpRelease Answered 3 ''k'' ''b'']" _ "''b''" 5]
    by (simp add: a)
qed

text \<open>A stage gate never admits more workers than its capacity and never leaks a slot: in every run
  of acquires, releases and foreign changes of Redis, the in-flight counter of the semaphore is
  the number of handles that were given out and not yet released, and it is at most the capacity,
  however often a release function is called and however the lock calls fail.\<close>
theorem stage_gate_slots:
  assumes "gate_run R hash stage ttl cap sem r hs"
  shows "in_flight sem = open_handles hs \<and> 0 \<le> in_flight sem \<and> in_flight sem \<le> cap"
  using gate_run_inv [OF assms] open_handles_nonneg [of hs] by auto

theorem stage_gate_slots_witness:
  "\<exists>sem r hs. gate_run ref_ops id ''fetcher'' 10 1 sem r hs \<and> in_flight sem = 1 \<and> open_handles hs = 1"
proof -
  have run0: "gate_run ref_ops id ''fetcher'' 10 1 \<lparr>sem_capacity = 1, in_flight = 0\<rparr> ref_empty []"
    by (rule gate_start) (simp add: NewSemaphore_def)
  obtain h r' where acq: "gate_acquire ref_ops id ''fetcher'' 10 None (Inr ''t'') Answered 0 ''u''
      (\<lparr>sem_capacity = 1, in_flight = 0\<rparr>, ref_empty)
      = Some (Inr (Some h), (\<lparr>sem_capacity = 1, in_flight = 1\<rparr>, r'))"
    by (simp add: gate_acquire_def sem_acquire_def processing_acquire_def AcquireLockWithToken_def
        set_nx_def ref_ops_def ref_get_def ref_empty_def Let_def)
  from gate_take [OF run0 acq] have run:
    "gate_run ref_ops id ''fetcher'' 10 1 \<lparr>sem_capacity = 1, in_flight = 1\<rparr> r' ([] @ [h])" .
  have "open_handles ([] @ [h]) = 1" using stage_gate_slots [OF run] by simp
  then show ?thesis using run by (intro exI conjI) auto
qed

end
