(* ===== verification/RedisClient.thy ===== *)
theory RedisClient
  imports Locks
begin

text \<open>
  A client of Redis that uses pipelines, sorted sets and lists (the \<^verbatim>\<open>Client\<close> of
  \<^verbatim>\<open>pkg/redis\<close> and the queues built on it). A pipeline is a sequence of commands between
  which other clients may act, and it may fail after a prefix of it was executed. What the
  client cannot decide is indexed by the number of steps it has taken.
\<close>

text \<open>\<^verbatim>\<open>time.Time.UnixMilli\<close>.\<close>

definition unix_milli :: "gotime \<Rightarrow> int" where "unix_milli t = t div millisecond"

section \<open>Redis with sorted sets and lists\<close>

record 'r zredis_ops = "'r redis_ops" +
  rd_zall :: "string \<Rightarrow> 'r \<Rightarrow> (int \<times> string) list"
  rd_zadd :: "string \<Rightarrow> int \<Rightarrow> string \<Rightarrow> 'r \<Rightarrow> 'r"
  rd_zrem :: "string \<Rightarrow> string \<Rightarrow> 'r \<Rightarrow> 'r"
  rd_zcut :: "string \<Rightarrow> nat \<Rightarrow> 'r \<Rightarrow> 'r"
  rd_lall :: "string \<Rightarrow> 'r \<Rightarrow> bytes list"
  rd_lpush :: "string \<Rightarrow> bytes list \<Rightarrow> 'r \<Rightarrow> 'r"
  rd_lcut :: "string \<Rightarrow> nat \<Rightarrow> 'r \<Rightarrow> 'r"
  rd_rpop :: "string \<Rightarrow> nat \<Rightarrow> 'r \<Rightarrow> bytes list \<times> 'r"

abbreviation zredis_ok :: "('r, 'z) zredis_ops_scheme \<Rightarrow> bool" where
  "zredis_ok R \<equiv> redis_zsets (rd_get R) (rd_setx R) (rd_del R) (rd_zall R) (rd_zadd R) (rd_zrem R) (rd_zcut R)"

abbreviation lredis_ok :: "('r, 'z) zredis_ops_scheme \<Rightarrow> bool" where
  "lredis_ok R \<equiv> redis_lists (rd_lall R) (rd_lpush R) (rd_lcut R) (rd_rpop R)"

definition ref_zops :: "ref_redis zredis_ops" where
  "ref_zops = \<lparr>rd_get = ref_get, rd_setx = ref_setx, rd_del = ref_del,
     rd_zall = ref_zall, rd_zadd = ref_zadd, rd_zrem = ref_zrem, rd_zcut = ref_zcut,
     rd_lall = ref_lall, rd_lpush = ref_lpush, rd_lcut = ref_lcut, rd_rpop = ref_rpop\<rparr>"

lemma ref_zops_ok: "zredis_ok ref_zops" "lredis_ok ref_zops"
  by (simp_all add: ref_zops_def ref_zsets.redis_zsets_axioms ref_lists.redis_lists_axioms)

lemma zredis_strings: "zredis_ok R \<Longrightarrow> redis_strings (rd_get R) (rd_setx R) (rd_del R)"
  by (rule redis_zsets.axioms(1))

section \<open>The environment of a client\<close>

text \<open>
  The outcome of a pipeline: all of it was executed, or an error is returned after the first
  \<open>k\<close> commands were.
\<close>

datatype pipe = PipeOk | PipeFail nat go_error

record 'r client_env =
  cl_redis :: "'r zredis_ops"
  cl_clock :: "nat \<Rightarrow> gotime"
  cl_pipe :: "nat \<Rightarrow> pipe"
  cl_others :: "nat \<Rightarrow> 'r \<Rightarrow> 'r"

record 'r client_state =
  cl_step :: nat
  cl_db :: 'r

definition cl_now :: "('r, 'e) client_env_scheme \<Rightarrow> ('r, 's) client_state_scheme \<Rightarrow> gotime" where
  "cl_now E s = cl_clock E (cl_step s)"

definition cl_elapse ::
  "('r, 'e) client_env_scheme \<Rightarrow> ('r, 's) client_state_scheme \<Rightarrow> ('r, 's) client_state_scheme" where
  "cl_elapse E s = s\<lparr>cl_db := cl_others E (cl_step s) (cl_db s), cl_step := Suc (cl_step s)\<rparr>"

definition run_cmd ::
  "('r, 'e) client_env_scheme \<Rightarrow> (gotime \<Rightarrow> 'r \<Rightarrow> 'r) \<Rightarrow> ('r, 's) client_state_scheme \<Rightarrow> ('r, 's) client_state_scheme" where
  "run_cmd E c s = (let s1 = cl_elapse E s in s1\<lparr>cl_db := c (cl_now E s1) (cl_db s1)\<rparr>)"

definition run_pipe ::
  "('r, 'e) client_env_scheme \<Rightarrow> (gotime \<Rightarrow> 'r \<Rightarrow> 'r) list \<Rightarrow> ('r, 's) client_state_scheme
     \<Rightarrow> go_error option \<times> ('r, 's) client_state_scheme" where
  "run_pipe E cmds s =
     (let s0 = cl_elapse E s
      in case cl_pipe E (cl_step s0) of
           PipeOk \<Rightarrow> (None, fold (run_cmd E) cmds s0)
         | PipeFail k e \<Rightarrow> (Some e, fold (run_cmd E) (take k cmds) s0))"

text \<open>A single command that returns a value; on a failure it may still have been executed.\<close>

definition run_query ::
  "('r, 'e) client_env_scheme \<Rightarrow> (gotime \<Rightarrow> 'r \<Rightarrow> 'v \<times> 'r) \<Rightarrow> ('r, 's) client_state_scheme
     \<Rightarrow> (go_error + 'v) \<times> ('r, 's) client_state_scheme" where
  "run_query E c s =
     (let s0 = cl_elapse E s; (v, r) = c (cl_now E s0) (cl_db s0)
      in case cl_pipe E (cl_step s0) of
           PipeOk \<Rightarrow> (Inr v, s0\<lparr>cl_db := r\<rparr>)
         | PipeFail k e \<Rightarrow> (Inl e, if k = 0 then s0 else s0\<lparr>cl_db := r\<rparr>))"

text \<open>A client that is alone, whose calls succeed, at one moment.\<close>

definition alone :: "('r, 'e) client_env_scheme \<Rightarrow> gotime \<Rightarrow> bool" where
  "alone E t \<longleftrightarrow> (\<forall>n. cl_pipe E n = PipeOk \<and> cl_clock E n = t \<and> cl_others E n = (\<lambda>r. r))"

lemma alone_run:
  assumes "alone E t"
  shows "cl_elapse E s = s\<lparr>cl_step := Suc (cl_step s)\<rparr>" "cl_now E s = t"
    "run_cmd E c s = s\<lparr>cl_step := Suc (cl_step s), cl_db := c t (cl_db s)\<rparr>"
    "cl_pipe E n = PipeOk"
    "run_query E q s = (Inr (fst (q t (cl_db s))), s\<lparr>cl_step := Suc (cl_step s), cl_db := snd (q t (cl_db s))\<rparr>)"
  using assms by (simp_all add: alone_def cl_elapse_def cl_now_def run_cmd_def run_query_def Let_def split_beta)

lemma client_more:
  "client_state.more (cl_elapse E s) = client_state.more s"
  "client_state.more (run_cmd E c s) = client_state.more s"
  by (simp_all add: cl_elapse_def run_cmd_def Let_def)

lemma fold_cmd_more: "client_state.more (fold (run_cmd E) cmds s) = client_state.more s"
  by (induction cmds arbitrary: s) (simp_all add: client_more)

lemma run_pipe_more: "run_pipe E cmds s = (e, s') \<Longrightarrow> client_state.more s' = client_state.more s"
  by (auto simp: run_pipe_def Let_def fold_cmd_more client_more split: pipe.splits)

lemma snd_run_pipe_more [simp]: "client_state.more (snd (run_pipe E cmds s)) = client_state.more s"
  by (rule run_pipe_more [OF surjective_pairing])

text \<open>Without interference, at one moment, a pipeline executes a prefix, or all of it if it succeeds.\<close>

definition undisturbed :: "('r, 'e) client_env_scheme \<Rightarrow> gotime \<Rightarrow> bool" where
  "undisturbed E t \<longleftrightarrow> (\<forall>n. cl_others E n = (\<lambda>r. r) \<and> cl_clock E n = t)"

lemma alone_undisturbed: "alone E t \<Longrightarrow> undisturbed E t"
  by (simp add: alone_def undisturbed_def)

text \<open>A read leaves the store alone, whatever its outcome.\<close>

lemma run_query_read:
  assumes "undisturbed E t"
  shows "run_query E (\<lambda>now r. (f now r, r)) s =
    ((case cl_pipe E (Suc (cl_step s)) of PipeOk \<Rightarrow> Inr (f t (cl_db s)) | PipeFail k e \<Rightarrow> Inl e),
     s\<lparr>cl_step := Suc (cl_step s)\<rparr>)"
  using assms by (simp add: run_query_def undisturbed_def cl_elapse_def cl_now_def Let_def split: pipe.split)

lemma fold_cmd_db:
  assumes "undisturbed E t"
  shows "cl_db (fold (run_cmd E) cmds s) = fold (\<lambda>c. c t) cmds (cl_db s)"
  using assms by (induction cmds arbitrary: s)
    (simp_all add: undisturbed_def run_cmd_def cl_elapse_def cl_now_def Let_def)

lemma run_pipe_db:
  assumes "undisturbed E t" and "run_pipe E cmds s = (e, s')"
  shows "\<exists>k. cl_db s' = fold (\<lambda>c. c t) (take k cmds) (cl_db s) \<and> (e = None \<longrightarrow> length cmds \<le> k)"
proof -
  have el: "cl_db (cl_elapse E s) = cl_db s" using assms(1) by (simp add: undisturbed_def cl_elapse_def)
  show ?thesis
  proof (cases "cl_pipe E (cl_step (cl_elapse E s))")
    case PipeOk
    then show ?thesis using assms(2) el
      by (intro exI [of _ "length cmds"]) (auto simp: run_pipe_def fold_cmd_db [OF assms(1)])
  next
    case (PipeFail k err)
    then show ?thesis using assms(2) el
      by (intro exI [of _ k]) (auto simp: run_pipe_def fold_cmd_db [OF assms(1)])
  qed
qed

definition ref_client :: "gotime \<Rightarrow> ref_redis client_env" where
  "ref_client t = \<lparr>cl_redis = ref_zops, cl_clock = (\<lambda>_. t), cl_pipe = (\<lambda>_. PipeOk), cl_others = (\<lambda>_ r. r)\<rparr>"

lemma ref_client_alone: "alone (ref_client t) t" "cl_redis (ref_client t) = ref_zops"
  by (simp_all add: alone_def ref_client_def)

end
