(* ===== verification/RetryQueue.thy ===== *)
theory RetryQueue
  imports Bus RedisClient
begin

text \<open>
  The delayed retry queue: the sorted set of job ids by due time with one string key per job
  (\<^verbatim>\<open>pkg/redis/retry_queue.go\<close>) and the scheduler that polls it and publishes due jobs
  again (\<^verbatim>\<open>RedisDelayedRetryScheduler\<close> of \<^verbatim>\<open>internal/bus/retry.go\<close>). The JSON codecs
  are parameters.
\<close>

section \<open>The environment\<close>

record 'r rq_env = "'r client_env" +
  re_pub :: publisher
  re_send :: "nat \<Rightarrow> message \<Rightarrow> go_error option"
  re_encode :: "bytes \<times> string \<Rightarrow> go_error + bytes"
  re_decode :: "bytes \<Rightarrow> (bytes \<times> string) option"
  re_marshal :: "crawl_job \<Rightarrow> go_error + bytes"
  re_job :: "bytes \<Rightarrow> crawl_job option"
  re_backoff :: duration
  re_batch :: int
  re_heartbeat :: int

record 'r rq_state = "'r client_state" +
  rq_sent :: "message list"
  rq_idle :: int

section \<open>The queue operations\<close>

definition RetryQueueZSetKey :: string where "RetryQueueZSetKey = ''retry:queue''"
definition retryEntryKeyPrefix :: string where "retryEntryKeyPrefix = ''retry:entry:''"
definition retryEntryTTL :: duration where "retryEntryTTL = 24 * hour"

definition retryEntryKey :: "string \<Rightarrow> string" where
  "retryEntryKey jobID = retryEntryKeyPrefix @ jobID"

definition Client_EnqueueRetry ::
  "'r rq_env \<Rightarrow> string \<Rightarrow> bytes \<Rightarrow> gotime \<Rightarrow> 'r rq_state \<Rightarrow> go_error option \<times> 'r rq_state" where
  "Client_EnqueueRetry E jobID payload scheduledAt s =
     (if jobID = [] then (Some (Opaque ''enqueue retry: empty jobID''), s)
      else if payload = [] then (Some (Opaque (''enqueue retry '' @ jobID @ '': empty payload'')), s)
      else (case run_pipe E
              [\<lambda>_. rd_zadd (cl_redis E) RetryQueueZSetKey (unix_milli scheduledAt) jobID,
               \<lambda>now. rd_setx (cl_redis E) now (retryEntryKey jobID) payload retryEntryTTL] s of
              (Some err, s1) \<Rightarrow> (Some (Wrapped (''enqueue retry '' @ jobID) err), s1)
            | (None, s1) \<Rightarrow> (None, s1)))"

text \<open>
  The GET pipeline: one answer per key, the commands after a failure answer with its error.
\<close>

fun get_entries ::
  "'r rq_env \<Rightarrow> pipe \<Rightarrow> string list \<Rightarrow> 'r rq_state \<Rightarrow> (string \<times> (go_error + bytes option)) list \<times> 'r rq_state" where
  "get_entries E p [] s = ([], s)"
| "get_entries E p (jobID # ids) s =
     (case p of
        PipeFail 0 e \<Rightarrow> let (rs, s') = get_entries E p ids s in ((jobID, Inl e) # rs, s')
      | _ \<Rightarrow>
          let s1 = cl_elapse E s;
              v = rd_get (cl_redis E) (cl_now E s1) (retryEntryKey jobID) (cl_db s1);
              p' = (case p of PipeFail k e \<Rightarrow> PipeFail (k - 1) e | PipeOk \<Rightarrow> PipeOk);
              (rs, s') = get_entries E p' ids s1
          in ((jobID, Inr v) # rs, s'))"

text \<open>
  \<^verbatim>\<open>Exec\<close> returns the error of the first command that has one; a missing key (\<^verbatim>\<open>redis.Nil\<close>)
  is one of them, and is not a failure of the pipeline.
\<close>

fun exec_error :: "(string \<times> (go_error + bytes option)) list \<Rightarrow> go_error option" where
  "exec_error [] = None"
| "exec_error ((_, Inl e) # rs) = Some e"
| "exec_error ((_, Inr None) # rs) = None"
| "exec_error ((_, Inr (Some _)) # rs) = exec_error rs"

fun collect_entries ::
  "(string \<times> (go_error + bytes option)) list \<Rightarrow> (string \<times> bytes) list \<times> string list \<times> go_error option" where
  "collect_entries [] = ([], [], None)"
| "collect_entries ((jobID, Inl e) # rs) = ([], [], Some (Wrapped (''get retry entry '' @ jobID) e))"
| "collect_entries ((jobID, Inr None) # rs) =
     (let (out, stale, e) = collect_entries rs in (out, jobID # stale, e))"
| "collect_entries ((jobID, Inr (Some payload)) # rs) =
     (let (out, stale, e) = collect_entries rs in ((jobID, payload) # out, stale, e))"

definition due_ids :: "'r rq_env \<Rightarrow> gotime \<Rightarrow> int \<Rightarrow> 'r \<Rightarrow> string list" where
  "due_ids E now limit r =
     map snd (take (nat limit) (filter (\<lambda>e. fst e \<le> unix_milli now) (rd_zall (cl_redis E) RetryQueueZSetKey r)))"

definition PeekDueRetries ::
  "'r rq_env \<Rightarrow> gotime \<Rightarrow> int \<Rightarrow> 'r rq_state
     \<Rightarrow> ((string \<times> bytes) list \<times> go_error option) \<times> 'r rq_state" where
  "PeekDueRetries E now limit s =
     (if limit \<le> 0 then (([], None), s)
      else
        let s0 = cl_elapse E s
        in case cl_pipe E (cl_step s0) of
             PipeFail _ e \<Rightarrow> (([], Some (Wrapped ''zrange byscore retry queue'' e)), s0)
           | PipeOk \<Rightarrow>
              let ids = due_ids E now limit (cl_db s0)
              in if ids = [] then (([], None), s0)
                 else
                   let s1 = cl_elapse E s0;
                       (rs, s2) = get_entries E (cl_pipe E (cl_step s1)) ids s1
                   in case exec_error rs of
                        Some e \<Rightarrow> (([], Some (Wrapped ''pipeline get retry entries'' e)), s2)
                      | None \<Rightarrow>
                         (case collect_entries rs of
                            (out, _, Some e) \<Rightarrow> ((out, Some e), s2)
                          | (out, stale, None) \<Rightarrow>
                              if stale = [] then ((out, None), s2)
                              else
                                (case run_pipe E
                                   [\<lambda>_ r. fold (rd_zrem (cl_redis E) RetryQueueZSetKey) stale r] s2 of
                                   (Some e, s3) \<Rightarrow> ((out, Some (Wrapped ''batch zrem stale retries'' e)), s3)
                                 | (None, s3) \<Rightarrow> ((out, None), s3))))"

definition AckRetry :: "'r rq_env \<Rightarrow> string \<Rightarrow> 'r rq_state \<Rightarrow> go_error option \<times> 'r rq_state" where
  "AckRetry E jobID s =
     (if jobID = [] then (Some (Opaque ''ack retry: empty jobID''), s)
      else (case run_pipe E
              [\<lambda>_. rd_zrem (cl_redis E) RetryQueueZSetKey jobID,
               \<lambda>_. rd_del (cl_redis E) (retryEntryKey jobID)] s of
              (Some err, s1) \<Rightarrow> (Some (Wrapped (''ack retry '' @ jobID) err), s1)
            | (None, s1) \<Rightarrow> (None, s1)))"

definition PendingRetryCount :: "'r rq_env \<Rightarrow> 'r rq_state \<Rightarrow> (go_error + int) \<times> 'r rq_state" where
  "PendingRetryCount E s =
     (let s0 = cl_elapse E s
      in case cl_pipe E (cl_step s0) of
           PipeFail _ e \<Rightarrow> (Inl (Wrapped ''zcard retry queue'' e), s0)
         | PipeOk \<Rightarrow> (Inr (int (length (rd_zall (cl_redis E) RetryQueueZSetKey (cl_db s0)))), s0))"

section \<open>The delayed retry scheduler\<close>

definition lastErrString :: "go_error option \<Rightarrow> string" where
  "lastErrString e = (case e of None \<Rightarrow> [] | Some err \<Rightarrow> error_text err)"

record retry_config =
  rc_poll_interval :: duration
  rc_batch :: int
  rc_backoff :: duration
  rc_heartbeat :: int

definition DefaultRedisRetrySchedulerConfig :: retry_config where
  "DefaultRedisRetrySchedulerConfig =
     \<lparr>rc_poll_interval = 1 * second, rc_batch = 50, rc_backoff = 1 * second, rc_heartbeat = 60\<rparr>"

definition NewRedisDelayedRetryScheduler :: "retry_config \<Rightarrow> retry_config" where
  "NewRedisDelayedRetryScheduler cfg =
     (let def = DefaultRedisRetrySchedulerConfig
      in \<lparr>rc_poll_interval = (if rc_poll_interval cfg \<le> 0 then rc_poll_interval def else rc_poll_interval cfg),
          rc_batch = (if rc_batch cfg \<le> 0 then rc_batch def else rc_batch cfg),
          rc_backoff = (if rc_backoff cfg \<le> 0 then rc_backoff def else rc_backoff cfg),
          rc_heartbeat = (if rc_heartbeat cfg < 0 then rc_heartbeat def else rc_heartbeat cfg)\<rparr>)"

definition delayed_enqueue ::
  "'r rq_env \<Rightarrow> crawl_job \<Rightarrow> go_error option \<Rightarrow> 'r rq_state \<Rightarrow> go_error option \<times> 'r rq_state" where
  "delayed_enqueue E job lastErr s =
     (case re_marshal E job of
        Inl err \<Rightarrow> (Some (Wrapped ''marshal job for redis retry'' err), s)
      | Inr jobBytes \<Rightarrow>
         (case re_encode E (jobBytes, lastErrString lastErr) of
            Inl err \<Rightarrow> (Some (Wrapped (''marshal retry entry '' @ job_id job) err), s)
          | Inr payload \<Rightarrow>
             (case Client_EnqueueRetry E (job_id job) payload (job_scheduled_at job) s of
                (Some err, s1) \<Rightarrow> (Some (Wrapped (''enqueue retry '' @ job_id job) err), s1)
              | (None, s1) \<Rightarrow> (None, s1))))"

definition ackOrLog :: "'r rq_env \<Rightarrow> string \<Rightarrow> 'r rq_state \<Rightarrow> 'r rq_state" where
  "ackOrLog E jobID s = snd (AckRetry E jobID s)"

definition forward_retry :: "'r rq_env \<Rightarrow> message \<Rightarrow> 'r rq_state \<Rightarrow> go_error option \<times> 'r rq_state" where
  "forward_retry E m s =
     (if \<not> pub_wired (re_pub E) then (Some (Opaque ''publisher: producer not wired''), s)
      else
        let s1 = cl_elapse E s
        in case re_send E (cl_step s1) m of
             Some e \<Rightarrow> (Some e, s1)
           | None \<Rightarrow> (None, s1\<lparr>rq_sent := rq_sent s1 @ [m]\<rparr>))"

definition retry_message :: "'r rq_env \<Rightarrow> crawl_job \<Rightarrow> bytes \<Rightarrow> string \<Rightarrow> go_error + message" where
  "retry_message E job jobBytes lastErrText =
     (case buildMessage (re_pub E) job of
        Inl err \<Rightarrow> Inl err
      | Inr m \<Rightarrow>
          let lastErr = (if lastErrText \<noteq> [] then Some (Opaque lastErrText) else None)
          in Inr (m\<lparr>m_value := jobBytes, m_headers := applyRetryHeaders job lastErr (m_headers m)\<rparr>))"

definition republish :: "'r rq_env \<Rightarrow> string \<times> bytes \<Rightarrow> 'r rq_state \<Rightarrow> 'r rq_state" where
  "republish E item s =
     (let (jobID, payload) = item
      in case re_decode E payload of
           None \<Rightarrow> ackOrLog E jobID s
         | Some (jobBytes, lastErrText) \<Rightarrow>
            (case re_job E jobBytes of
               None \<Rightarrow> ackOrLog E jobID s
             | Some job \<Rightarrow>
                (case retry_message E job jobBytes lastErrText of
                   Inl _ \<Rightarrow> ackOrLog E jobID s
                 | Inr msg \<Rightarrow>
                    (case forward_retry E msg s of
                       (Some _, s1) \<Rightarrow>
                         let retryAt = cl_now E s1 + re_backoff E
                         in snd (Client_EnqueueRetry E jobID payload retryAt s1)
                     | (None, s1) \<Rightarrow> ackOrLog E jobID s1))))"

definition pollOnce :: "'r rq_env \<Rightarrow> 'r rq_state \<Rightarrow> 'r rq_state" where
  "pollOnce E s =
     (case PeekDueRetries E (cl_now E s) (re_batch E) s of
        ((_, Some _), s1) \<Rightarrow> s1
      | ((due, None), s1) \<Rightarrow>
          let s2 = s1\<lparr>rq_idle := (if due \<noteq> [] then 0 else rq_idle s1 + 1)\<rparr>
          in fold (republish E) due s2)"

section \<open>The abstract queue\<close>

text \<open>
  What the queue stands for at time \<open>t\<close>: the jobs that have a place in the sorted set and an
  entry that has not expired, each with its due time in milliseconds and its payload.
\<close>

definition score_of :: "'r zredis_ops \<Rightarrow> 'r \<Rightarrow> string \<Rightarrow> int option" where
  "score_of R r j = map_of (map (\<lambda>(s, m). (m, s)) (rd_zall R RetryQueueZSetKey r)) j"

definition retry_abs :: "'r zredis_ops \<Rightarrow> gotime \<Rightarrow> 'r \<Rightarrow> string \<Rightarrow> (int \<times> bytes) option" where
  "retry_abs R t r j =
     (case (score_of R r j, rd_get R t (retryEntryKey j) r) of
        (Some s, Some p) \<Rightarrow> Some (s, p)
      | _ \<Rightarrow> None)"

lemma key_inj [simp]: "retryEntryKey i = retryEntryKey j \<longleftrightarrow> i = j"
  by (simp add: retryEntryKey_def)

lemma score_of_iff:
  assumes "zredis_ok R"
  shows "score_of R r j = Some s \<longleftrightarrow> (s, j) \<in> set (rd_zall R RetryQueueZSetKey r)"
proof -
  have "map fst (map (\<lambda>(s, m). (m, s)) xs) = map snd xs" for xs :: "(int \<times> string) list"
    by (induction xs) auto
  then have "distinct (map fst (map (\<lambda>(s, m). (m, s)) (rd_zall R RetryQueueZSetKey r)))"
    using redis_zsets.z_distinct [OF assms] by metis
  then show ?thesis unfolding score_of_def by (subst map_of_eq_Some_iff) auto
qed

lemma score_of_none:
  assumes "zredis_ok R"
  shows "score_of R r j = None \<longleftrightarrow> (\<forall>s. (s, j) \<notin> set (rd_zall R RetryQueueZSetKey r))"
  using score_of_iff [OF assms, of r j] by (metis not_Some_eq)

lemma score_of_zadd:
  assumes R: "zredis_ok R"
  shows "score_of R (rd_zadd R RetryQueueZSetKey s j r) i = (if i = j then Some s else score_of R r i)"
proof (cases "i = j")
  case True
  then show ?thesis using score_of_iff [OF R] redis_zsets.z_add [OF R] by simp
next
  case False
  have "score_of R (rd_zadd R RetryQueueZSetKey s j r) i = Some x \<longleftrightarrow> score_of R r i = Some x" for x
    using score_of_iff [OF R] redis_zsets.z_add [OF R] False by auto
  then show ?thesis using False by (metis not_Some_eq)
qed

lemma score_of_zrem:
  assumes R: "zredis_ok R"
  shows "score_of R (rd_zrem R RetryQueueZSetKey j r) i = (if i = j then None else score_of R r i)"
proof (cases "i = j")
  case True
  then show ?thesis using score_of_none [OF R] redis_zsets.z_rem [OF R] by simp
next
  case False
  have "score_of R (rd_zrem R RetryQueueZSetKey j r) i = Some x \<longleftrightarrow> score_of R r i = Some x" for x
    using score_of_iff [OF R] redis_zsets.z_rem [OF R] False by auto
  then show ?thesis using False by (metis not_Some_eq)
qed

lemma score_of_strings:
  assumes "zredis_ok R"
  shows "score_of R (rd_setx R now k v ttl r) = score_of R r" "score_of R (rd_del R k r) = score_of R r"
    "rd_get R t k (rd_zadd R K s m r) = rd_get R t k r" "rd_get R t k (rd_zrem R K m r) = rd_get R t k r"
  using redis_zsets.z_strings [OF assms] by (auto simp: score_of_def)

lemmas score_rules = score_of_zadd score_of_zrem score_of_strings

lemma retry_abs_zrems:
  assumes "zredis_ok R"
  shows "score_of R (fold (rd_zrem R RetryQueueZSetKey) js r) i = (if i \<in> set js then None else score_of R r i)"
    and "rd_get R t k (fold (rd_zrem R RetryQueueZSetKey) js r) = rd_get R t k r"
  by (induction js arbitrary: r) (auto simp: score_rules [OF assms])

lemma EnqueueRetry_abs:
  assumes R: "zredis_ok (cl_redis E)" and E: "alone E t" and "j \<noteq> []" and "p \<noteq> []"
  shows "\<exists>s'. Client_EnqueueRetry E j p at_time s = (None, s') \<and> rq_sent s' = rq_sent s \<and> rq_idle s' = rq_idle s
    \<and> retry_abs (cl_redis E) t (cl_db s')
      = (retry_abs (cl_redis E) t (cl_db s))(j \<mapsto> (unix_milli at_time, p))"
  using assms(3,4)
  by (simp add: Client_EnqueueRetry_def run_pipe_def alone_run [OF E] Let_def fun_eq_iff retry_abs_def
      score_rules [OF R] redis_strings.get_setx [OF zredis_strings [OF R]] retryEntryTTL_def
      split: option.split)

lemma AckRetry_abs:
  assumes R: "zredis_ok (cl_redis E)" and E: "alone E t" and "j \<noteq> []"
  shows "\<exists>s'. AckRetry E j s = (None, s') \<and> rq_sent s' = rq_sent s \<and> rq_idle s' = rq_idle s
    \<and> retry_abs (cl_redis E) t (cl_db s') = (retry_abs (cl_redis E) t (cl_db s))(j := None)"
  using assms(3)
  by (simp add: AckRetry_def run_pipe_def alone_run [OF E] Let_def fun_eq_iff retry_abs_def
      score_rules [OF R] redis_strings.get_del [OF zredis_strings [OF R]] split: option.split)

lemma get_entries_alone:
  assumes "alone E t"
  shows "get_entries E PipeOk ids s =
    (map (\<lambda>j. (j, Inr (rd_get (cl_redis E) t (retryEntryKey j) (cl_db s)))) ids,
     s\<lparr>cl_step := cl_step s + length ids\<rparr>)"
  by (induction ids arbitrary: s) (simp_all add: alone_run [OF assms] Let_def)

lemma entries_of_gets:
  "exec_error (map (\<lambda>j. (j, Inr (f j))) ids) = None"
  "collect_entries (map (\<lambda>j. (j, Inr (f j))) ids) =
     (map (\<lambda>j. (j, the (f j))) (filter (\<lambda>j. f j \<noteq> None) ids), filter (\<lambda>j. f j = None) ids, None)"
proof -
  show "exec_error (map (\<lambda>j. (j, Inr (f j))) ids) = None"
  proof (induction ids)
    case (Cons j ids)
    then show ?case by (cases "f j") simp_all
  qed simp
  show "collect_entries (map (\<lambda>j. (j, Inr (f j))) ids) =
     (map (\<lambda>j. (j, the (f j))) (filter (\<lambda>j. f j \<noteq> None) ids), filter (\<lambda>j. f j = None) ids, None)"
  proof (induction ids)
    case (Cons j ids)
    then show ?case by (cases "f j") simp_all
  qed simp
qed

text \<open>The due jobs, in the order of their due times.\<close>

definition due_abs :: "'r rq_env \<Rightarrow> gotime \<Rightarrow> int \<Rightarrow> 'r \<Rightarrow> (string \<times> bytes) list" where
  "due_abs E t limit r =
     map (\<lambda>j. (j, snd (the (retry_abs (cl_redis E) t r j))))
       (filter (\<lambda>j. retry_abs (cl_redis E) t r j \<noteq> None) (due_ids E t limit r))"

lemma due_ids_score:
  assumes "zredis_ok (cl_redis E)" and "j \<in> set (due_ids E now limit r)"
  shows "\<exists>s. score_of (cl_redis E) r j = Some s \<and> s \<le> unix_milli now"
proof -
  obtain e where "e \<in> set (filter (\<lambda>e. fst e \<le> unix_milli now) (rd_zall (cl_redis E) RetryQueueZSetKey r))"
    and "j = snd e"
    using assms(2) by (auto simp: due_ids_def dest: in_set_takeD)
  then show ?thesis using score_of_iff [OF assms(1), of r j "fst e"] by auto
qed

lemma due_ids_all:
  assumes "(sc, j) \<in> set (rd_zall (cl_redis E) RetryQueueZSetKey r)" and "sc \<le> unix_milli now"
    and "length (rd_zall (cl_redis E) RetryQueueZSetKey r) \<le> nat limit"
  shows "j \<in> set (due_ids E now limit r)"
proof -
  let ?due = "filter (\<lambda>e. fst e \<le> unix_milli now) (rd_zall (cl_redis E) RetryQueueZSetKey r)"
  have "take (nat limit) ?due = ?due"
    using assms(3) le_trans [OF length_filter_le assms(3)] by simp
  then show ?thesis using assms(1,2) by (force simp: due_ids_def)
qed

lemma due_ids_distinct:
  assumes "zredis_ok (cl_redis E)"
  shows "distinct (due_ids E now limit r)"
  unfolding due_ids_def take_map [symmetric]
  by (intro distinct_take distinct_map_filter redis_zsets.z_distinct [OF assms])

lemma PeekDueRetries_abs:
  assumes R: "zredis_ok (cl_redis E)" and E: "alone E t"
  shows "\<exists>s'. PeekDueRetries E t limit s = ((due_abs E t limit (cl_db s), None), s')
    \<and> rq_sent s' = rq_sent s \<and> rq_idle s' = rq_idle s
    \<and> retry_abs (cl_redis E) t (cl_db s') = retry_abs (cl_redis E) t (cl_db s)"
proof (cases "limit \<le> 0 \<or> due_ids E t limit (cl_db s) = []")
  case True
  then have "due_abs E t limit (cl_db s) = []"
    by (auto simp: due_abs_def due_ids_def)
  then show ?thesis using True by (auto simp: PeekDueRetries_def alone_run [OF E] Let_def)
next
  case False
  let ?ids = "due_ids E t limit (cl_db s)"
  let ?get = "\<lambda>j. rd_get (cl_redis E) t (retryEntryKey j) (cl_db s)"
  let ?stale = "filter (\<lambda>j. ?get j = None) ?ids"
  have abs: "retry_abs (cl_redis E) t (cl_db s) j =
      (case ?get j of None \<Rightarrow> None | Some p \<Rightarrow> Some (the (score_of (cl_redis E) (cl_db s) j), p))"
    if "j \<in> set ?ids" for j
    using due_ids_score [OF R that] by (auto simp: retry_abs_def split: option.split)
  have out: "map (\<lambda>j. (j, the (?get j))) (filter (\<lambda>j. ?get j \<noteq> None) ?ids) = due_abs E t limit (cl_db s)"
  proof -
    have "filter (\<lambda>j. ?get j \<noteq> None) ?ids = filter (\<lambda>j. retry_abs (cl_redis E) t (cl_db s) j \<noteq> None) ?ids"
      by (rule filter_cong [OF refl]) (simp add: abs split: option.split)
    then show ?thesis
      unfolding due_abs_def by (auto simp: abs split: option.splits)
  qed
  have "retry_abs (cl_redis E) t (fold (rd_zrem (cl_redis E) RetryQueueZSetKey) ?stale (cl_db s))
      = retry_abs (cl_redis E) t (cl_db s)"
    by (auto simp: fun_eq_iff retry_abs_def retry_abs_zrems [OF R] split: option.split)
  then show ?thesis
    using False out
    by (auto simp: PeekDueRetries_def alone_run [OF E] Let_def get_entries_alone [OF E] entries_of_gets
        run_pipe_def split: prod.splits option.splits)
qed

section \<open>A round of the scheduler\<close>

text \<open>
  The message a payload stands for, if it can be decoded, and what a round leaves behind for
  one job: it was published and is gone, it could not be decoded and is gone, or publishing
  failed and it waits again with the same payload.
\<close>

definition item_message :: "'r rq_env \<Rightarrow> bytes \<Rightarrow> message option" where
  "item_message E payload =
     (case re_decode E payload of
        None \<Rightarrow> None
      | Some (jobBytes, lastErrText) \<Rightarrow>
         (case re_job E jobBytes of
            None \<Rightarrow> None
          | Some job \<Rightarrow>
             (case retry_message E job jobBytes lastErrText of Inl _ \<Rightarrow> None | Inr m \<Rightarrow> Some m)))"

lemma republish_cases:
  "republish E (jobID, payload) s =
     (case item_message E payload of
        None \<Rightarrow> ackOrLog E jobID s
      | Some msg \<Rightarrow>
         (case forward_retry E msg s of
            (Some _, s1) \<Rightarrow> snd (Client_EnqueueRetry E jobID payload (cl_now E s1 + re_backoff E) s1)
          | (None, s1) \<Rightarrow> ackOrLog E jobID s1))"
  by (auto simp: republish_def item_message_def Let_def split: option.split sum.split prod.split)

text \<open>How a job may stand after a round: with the messages \<open>sent\<close> and the queue \<open>q\<close>.\<close>

definition item_done :: "'r rq_env \<Rightarrow> gotime \<Rightarrow> string \<times> bytes \<Rightarrow> (string \<Rightarrow> (int \<times> bytes) option) \<Rightarrow> message list \<Rightarrow> bool" where
  "item_done E t item q sent \<longleftrightarrow>
     (case item_message E (snd item) of
        None \<Rightarrow> q (fst item) = None
      | Some m \<Rightarrow> (q (fst item) = None \<and> m \<in> set sent)
          \<or> q (fst item) = Some (unix_milli (t + re_backoff E), snd item))"

lemma item_done_mono: "item_done E t item q ms \<Longrightarrow> set ms \<subseteq> set ms' \<Longrightarrow> item_done E t item q ms'"
  by (auto simp: item_done_def split: option.splits)

lemma republish_abs:
  assumes R: "zredis_ok (cl_redis E)" and E: "alone E t" and "j \<noteq> []" and "p \<noteq> []"
  shows "\<exists>ms. rq_sent (republish E (j, p) s) = rq_sent s @ ms
    \<and> set ms \<subseteq> set_option (item_message E p)
    \<and> (\<forall>i. i \<noteq> j \<longrightarrow> retry_abs (cl_redis E) t (cl_db (republish E (j, p) s)) i = retry_abs (cl_redis E) t (cl_db s) i)
    \<and> item_done E t (j, p) (retry_abs (cl_redis E) t (cl_db (republish E (j, p) s))) ms"
proof -
  have ack: "rq_sent (ackOrLog E j s0) = rq_sent s0
    \<and> retry_abs (cl_redis E) t (cl_db (ackOrLog E j s0)) = (retry_abs (cl_redis E) t (cl_db s0))(j := None)" for s0
    using AckRetry_abs [OF R E assms(3), of s0] by (auto simp: ackOrLog_def)
  show ?thesis
  proof (cases "item_message E p")
    case None
    then show ?thesis using ack [of s] by (simp add: republish_cases item_done_def)
  next
    case (Some m)
    obtain e s1 where f: "forward_retry E m s = (e, s1)" by (rule prod.exhaust)
    have s1: "cl_db s1 = cl_db s" "rq_sent s1 = rq_sent s @ (if e = None then [m] else [])"
      using f by (auto simp: forward_retry_def alone_run [OF E] Let_def split: if_splits option.splits)
    show ?thesis
    proof (cases e)
      case None
      then show ?thesis using Some f s1 ack [of s1] by (simp add: republish_cases item_done_def)
    next
      case (Some err)
      then show ?thesis
        using \<open>item_message E p = Some m\<close> f s1 EnqueueRetry_abs [OF R E assms(3,4), of "t + re_backoff E" s1]
        by (auto simp: republish_cases item_done_def alone_run(2) [OF E])
    qed
  qed
qed

lemma round_abs:
  assumes R: "zredis_ok (cl_redis E)" and E: "alone E t"
  shows "distinct (map fst items) \<Longrightarrow> \<forall>(j, p) \<in> set items. j \<noteq> [] \<and> p \<noteq> [] \<Longrightarrow>
    \<exists>ms. rq_sent (fold (republish E) items s) = rq_sent s @ ms
      \<and> set ms \<subseteq> {m. \<exists>(j, p) \<in> set items. item_message E p = Some m}
      \<and> (\<forall>i. i \<notin> fst ` set items \<longrightarrow> retry_abs (cl_redis E) t (cl_db (fold (republish E) items s)) i
            = retry_abs (cl_redis E) t (cl_db s) i)
      \<and> (\<forall>item \<in> set items. item_done E t item (retry_abs (cl_redis E) t (cl_db (fold (republish E) items s))) ms)"
proof (induction items arbitrary: s)
  case (Cons item items)
  obtain j p where item: "item = (j, p)" by (rule prod.exhaust)
  let ?s1 = "republish E (j, p) s"
  let ?q = "\<lambda>s. retry_abs (cl_redis E) t (cl_db s)"
  have jp: "j \<noteq> []" "p \<noteq> []" "j \<notin> fst ` set items" using Cons.prems item by auto
  obtain ms1 where m1: "rq_sent ?s1 = rq_sent s @ ms1" "set ms1 \<subseteq> set_option (item_message E p)"
    "\<And>i. i \<noteq> j \<Longrightarrow> ?q ?s1 i = ?q s i" "item_done E t (j, p) (?q ?s1) ms1"
    using republish_abs [OF R E jp(1,2), of s] by auto
  obtain ms2 where m2: "rq_sent (fold (republish E) items ?s1) = rq_sent ?s1 @ ms2"
    "set ms2 \<subseteq> {m. \<exists>(j, p) \<in> set items. item_message E p = Some m}"
    "\<And>i. i \<notin> fst ` set items \<Longrightarrow> ?q (fold (republish E) items ?s1) i = ?q ?s1 i"
    "\<forall>item \<in> set items. item_done E t item (?q (fold (republish E) items ?s1)) ms2"
    using Cons.IH [of ?s1] Cons.prems by auto
  have "item_done E t item (?q (fold (republish E) items ?s1)) (ms1 @ ms2)"
    using item_done_mono [OF m1(4), of "ms1 @ ms2"] m2(3) [OF jp(3)] by (simp add: item item_done_def split: option.splits)
  moreover have "item_done E t it (?q (fold (republish E) items ?s1)) (ms1 @ ms2)" if "it \<in> set items" for it
    using item_done_mono [of E t it _ ms2 "ms1 @ ms2"] m2(4) that by simp
  moreover have "set (ms1 @ ms2) \<subseteq> {m. \<exists>(j, p) \<in> set (item # items). item_message E p = Some m}"
    using m1(2) m2(2) item by fastforce
  ultimately show ?case
    using m1(1,3) m2(1,3) item by (intro exI [of _ "ms1 @ ms2"]) auto
qed simp

lemma sorted_fsts: "sorted es \<Longrightarrow> sorted (map fst es)" for es :: "(int \<times> string) list"
  by (induction es) (auto simp: less_eq_prod_def)

lemma due_abs_sorted:
  assumes R: "zredis_ok (cl_redis E)"
  shows "sorted (map (\<lambda>(i, _). fst (the (retry_abs (cl_redis E) t r i))) (due_abs E t limit r))"
proof -
  let ?zs = "rd_zall (cl_redis E) RetryQueueZSetKey r"
  let ?es = "filter (\<lambda>e. retry_abs (cl_redis E) t r (snd e) \<noteq> None)
    (take (nat limit) (filter (\<lambda>e. fst e \<le> unix_milli t) ?zs))"
  have "fst (the (retry_abs (cl_redis E) t r (snd e))) = fst e" if "e \<in> set ?es" for e
    using that score_of_iff [OF R, of r "snd e" "fst e"]
    by (auto simp: retry_abs_def dest!: in_set_takeD split: option.splits)
  then have "map (\<lambda>(i, _). fst (the (retry_abs (cl_redis E) t r i))) (due_abs E t limit r) = map fst ?es"
    by (simp add: due_abs_def due_ids_def filter_map comp_def)
  moreover have "sorted ?es"
    by (intro sorted_wrt_filter sorted_wrt_take redis_zsets.z_sorted [OF R])
  ultimately show ?thesis using sorted_fsts by metis
qed

lemma peek_removes_stale:
  assumes R: "zredis_ok (cl_redis E)" and E: "alone E t" and due: "j \<in> set (due_ids E t limit (cl_db s))"
    and gone: "rd_get (cl_redis E) t (retryEntryKey j) (cl_db s) = None"
  shows "score_of (cl_redis E) (cl_db (snd (PeekDueRetries E t limit s))) j = None"
proof -
  have "0 < limit" using due by (cases "0 < limit") (auto simp: due_ids_def)
  moreover have "due_ids E t limit (cl_db s) \<noteq> []" using due by auto
  moreover have "filter (\<lambda>j. rd_get (cl_redis E) t (retryEntryKey j) (cl_db s) = None)
      (due_ids E t limit (cl_db s)) \<noteq> []"
    using due gone by (auto simp: filter_empty_conv)
  ultimately show ?thesis
    using due gone
    by (simp add: PeekDueRetries_def alone_run [OF E] Let_def get_entries_alone [OF E] entries_of_gets
        run_pipe_def retry_abs_zrems [OF R])
qed

section \<open>A sample client\<close>

definition sample_rq_env :: "gotime \<Rightarrow> (nat \<Rightarrow> ref_redis \<Rightarrow> ref_redis) \<Rightarrow> ref_redis rq_env" where
  "sample_rq_env t others =
     \<lparr>cl_redis = ref_zops, cl_clock = (\<lambda>_. t), cl_pipe = (\<lambda>_. PipeOk), cl_others = others,
      re_pub = \<lparr>pub_wired = True, pub_resolver = None, pub_marshal = (\<lambda>j. Inr (job_id j))\<rparr>,
      re_send = (\<lambda>_ _. None), re_encode = (\<lambda>(b, _). Inr b), re_decode = (\<lambda>b. Some (b, [])),
      re_marshal = (\<lambda>j. Inr (job_id j)),
      re_job = (\<lambda>b. Some \<lparr>job_id = b, job_crawler = ''cnn'',
        job_target = \<lparr>tg_url = ''u'', tg_type = TargetTypeArticle, tg_meta = Map.empty\<rparr>,
        job_priority = 1, job_scheduled_at = 0, job_timeout = 0, job_retry_count = 1, job_max_retries = 3\<rparr>),
      re_backoff = 1 * second, re_batch = 50, re_heartbeat = 60\<rparr>"

section \<open>Properties\<close>

text \<open>C39. The retry queue implements a table of delayed jobs. At any moment, for a client that is alone:
  enqueueing stores the due time (in milliseconds) and payload of the job, replacing an older one;
  acknowledging removes the job; peeking changes nothing and returns, in order of due time and at
  most limit many, the due jobs with exactly the stored payloads.\<close>
theorem retry_queue_refines:
  assumes "zredis_ok (cl_redis E)" and "alone E t" and "q = retry_abs (cl_redis E) t (cl_db s)"
    and "j \<noteq> []" and "p \<noteq> []"
  shows "(\<exists>s1. Client_EnqueueRetry E j p due s = (None, s1)
        \<and> retry_abs (cl_redis E) t (cl_db s1) = q(j \<mapsto> (unix_milli due, p)))
    \<and> (\<exists>s2. AckRetry E j s = (None, s2) \<and> retry_abs (cl_redis E) t (cl_db s2) = q(j := None))
    \<and> (\<exists>out s3. PeekDueRetries E t limit s = ((out, None), s3) \<and> retry_abs (cl_redis E) t (cl_db s3) = q
        \<and> int (length out) \<le> max 0 limit
        \<and> sorted (map (\<lambda>(i, _). fst (the (q i))) out)
        \<and> (\<forall>(i, x) \<in> set out. \<exists>sc. q i = Some (sc, x) \<and> sc \<le> unix_milli t)
        \<and> (int (length (rd_zall (cl_redis E) RetryQueueZSetKey (cl_db s))) \<le> limit
             \<longrightarrow> (\<forall>i sc x. q i = Some (sc, x) \<longrightarrow> sc \<le> unix_milli t \<longrightarrow> (i, x) \<in> set out)))"
proof (intro conjI)
  let ?r = "cl_db s"
  let ?out = "due_abs E t limit ?r"
  let ?zs = "rd_zall (cl_redis E) RetryQueueZSetKey ?r"
  show "\<exists>s1. Client_EnqueueRetry E j p due s = (None, s1)
        \<and> retry_abs (cl_redis E) t (cl_db s1) = q(j \<mapsto> (unix_milli due, p))"
    using EnqueueRetry_abs [OF assms(1,2,4,5)] assms(3) by blast
  show "\<exists>s2. AckRetry E j s = (None, s2) \<and> retry_abs (cl_redis E) t (cl_db s2) = q(j := None)"
    using AckRetry_abs [OF assms(1,2,4)] assms(3) by blast
  have len: "int (length ?out) \<le> max 0 limit"
  proof -
    have "length ?out \<le> length (due_ids E t limit ?r)" by (simp add: due_abs_def)
    also have "\<dots> \<le> nat limit" by (simp add: due_ids_def)
    finally show ?thesis by simp
  qed
  have in_q: "\<exists>sc. q i = Some (sc, x) \<and> sc \<le> unix_milli t" if "(i, x) \<in> set ?out" for i x
    using that due_ids_score [OF assms(1), of i t limit ?r]
    by (auto simp: due_abs_def assms(3) retry_abs_def split: option.splits)
  have srt: "sorted (map (\<lambda>(i, _). fst (the (q i))) ?out)"
    unfolding assms(3) by (rule due_abs_sorted [OF assms(1)])
  have all: "(i, x) \<in> set ?out" if "int (length ?zs) \<le> limit" "q i = Some (sc, x)" "sc \<le> unix_milli t" for i sc x
  proof -
    have "score_of (cl_redis E) ?r i = Some sc"
      using that(2) by (auto simp: assms(3) retry_abs_def split: option.splits)
    then have "i \<in> set (due_ids E t limit ?r)"
      using due_ids_all [of sc i E ?r t limit] score_of_iff [OF assms(1)] that(1,3) by simp
    then show ?thesis using that(2) by (force simp: due_abs_def assms(3) [symmetric])
  qed
  obtain s3 where "PeekDueRetries E t limit s = ((?out, None), s3)"
    "retry_abs (cl_redis E) t (cl_db s3) = q"
    using PeekDueRetries_abs [OF assms(1,2)] assms(3) by blast
  then show "\<exists>out s3. PeekDueRetries E t limit s = ((out, None), s3) \<and> retry_abs (cl_redis E) t (cl_db s3) = q
        \<and> int (length out) \<le> max 0 limit
        \<and> sorted (map (\<lambda>(i, _). fst (the (q i))) out)
        \<and> (\<forall>(i, x) \<in> set out. \<exists>sc. q i = Some (sc, x) \<and> sc \<le> unix_milli t)
        \<and> (int (length ?zs) \<le> limit
             \<longrightarrow> (\<forall>i sc x. q i = Some (sc, x) \<longrightarrow> sc \<le> unix_milli t \<longrightarrow> (i, x) \<in> set out))"
    using len in_q srt all by blast
qed

theorem retry_queue_refines_witness:
  "\<exists>E :: ref_redis rq_env. \<exists>s s1. alone E 5000000 \<and> Client_EnqueueRetry E ''j'' ''p'' 3000000 s = (None, s1)
    \<and> (\<exists>out s3. PeekDueRetries E 5000000 10 s1 = ((out, None), s3) \<and> (''j'', ''p'') \<in> set out)"
proof -
  define E where "E = sample_rq_env 5000000 (\<lambda>_ r. r)"
  define s where "s = \<lparr>cl_step = 0, cl_db = ref_empty, rq_sent = [], rq_idle = 0\<rparr>"
  have R: "cl_redis E = ref_zops" and A: "alone E 5000000"
    by (simp_all add: E_def sample_rq_env_def alone_def)
  have ok: "zredis_ok (cl_redis E)" using R ref_zops_ok by simp
  obtain s1 where s1: "Client_EnqueueRetry E ''j'' ''p'' 3000000 s = (None, s1)"
    and q: "retry_abs (cl_redis E) 5000000 (cl_db s1) ''j'' = Some (3, ''p'')"
    using retry_queue_refines [OF ok A refl, where j = "''j''" and p = "''p''" and s = s and due = 3000000 and limit = 10]
    by (auto simp: unix_milli_def)
  have "cl_db s1 = rd_setx ref_zops 5000000 (retryEntryKey ''j'') ''p'' retryEntryTTL
      (rd_zadd ref_zops RetryQueueZSetKey 3 ''j'' ref_empty)"
    using s1 by (auto simp: Client_EnqueueRetry_def run_pipe_def alone_run [OF A] Let_def R s_def unix_milli_def)
  then have len: "length (rd_zall (cl_redis E) RetryQueueZSetKey (cl_db s1)) \<le> 10"
    by (simp add: R ref_zops_def ref_zsets_simps ref_zsets_frames) (simp add: ref_empty_def ref_zall_def)
  then have "\<exists>out s3. PeekDueRetries E 5000000 10 s1 = ((out, None), s3) \<and> (''j'', ''p'') \<in> set out"
    using q retry_queue_refines [OF ok A refl, where j = "''j''" and p = "''p''" and s = s1 and due = 0 and limit = 10]
    by (auto simp: unix_milli_def)
  then show ?thesis using A s1 by blast
qed



text \<open>A retry can be lost while it is being enqueued. EnqueueRetry adds the job to the sorted set before
  it writes the payload, as two commands. If the poller looks at the queue in between and the job is
  already due, it finds no payload, takes the job for a stale one and removes it. EnqueueRetry still
  reports success, but the job is not in the queue.\<close>
theorem enqueue_race_loses_retry:
  assumes "zredis_ok (cl_redis E)" and "cl_redis P = cl_redis E" and "alone P t"
    and "\<forall>n. cl_pipe E n = PipeOk" and "j \<noteq> []" and "p \<noteq> []"
    and "rd_get (cl_redis E) t (retryEntryKey j) (cl_db s) = None"
    and "unix_milli due \<le> unix_milli t"
    and "int (length (rd_zall (cl_redis E) RetryQueueZSetKey (cl_db s))) < limit"
    and "cl_others E = (\<lambda>n r. if n = cl_step s + 2
           then cl_db (snd (PeekDueRetries P t limit \<lparr>cl_step = 0, cl_db = r, rq_sent = [], rq_idle = 0\<rparr>)) else r)"
  shows "\<exists>s1. Client_EnqueueRetry E j p due s = (None, s1)
    \<and> (\<forall>t'. retry_abs (cl_redis E) t' (cl_db s1) j = None)"
proof -
  let ?R = "cl_redis E"
  let ?r = "rd_zadd ?R RetryQueueZSetKey (unix_milli due) j (cl_db s)"
  let ?peek = "PeekDueRetries P t limit \<lparr>cl_step = 0, cl_db = ?r, rq_sent = [], rq_idle = 0\<rparr>"
  have ok: "zredis_ok (cl_redis P)" using assms(1,2) by simp
  have get: "rd_get ?R t (retryEntryKey j) ?r = None"
    using assms(7) by (simp add: score_rules [OF assms(1)])
  have len: "length (rd_zall ?R RetryQueueZSetKey ?r) \<le> nat limit"
    using redis_zsets.zadd_length [OF assms(1), of RetryQueueZSetKey "unix_milli due" j "cl_db s"] assms(9)
    by simp
  have "(unix_milli due, j) \<in> set (rd_zall ?R RetryQueueZSetKey ?r)"
    using redis_zsets.zadd_member [OF assms(1)] .
  then have "j \<in> set (due_ids P t limit ?r)"
    using due_ids_all [of _ j P] assms(2,8) len by simp
  then have "score_of ?R (cl_db (snd ?peek)) j = None"
    using peek_removes_stale [OF ok assms(3)] get by (simp add: assms(2))
  then show ?thesis
    using assms(4-6)
    by (simp add: Client_EnqueueRetry_def run_pipe_def run_cmd_def cl_elapse_def Let_def assms(10)
        retry_abs_def score_rules [OF assms(1)])
qed

theorem enqueue_race_loses_retry_witness:
  "\<exists>E :: ref_redis rq_env. \<exists>s s1. Client_EnqueueRetry E ''j'' ''p'' 0 s = (None, s1)
    \<and> (\<forall>t. retry_abs ref_zops t (cl_db s1) ''j'' = None)"
proof -
  define P where "P = sample_rq_env 5 (\<lambda>_ r. r)"
  define s where "s = \<lparr>cl_step = 0, cl_db = ref_empty, rq_sent = [], rq_idle = 0\<rparr>"
  define E where "E = sample_rq_env 5 (\<lambda>n r. if n = cl_step s + 2
     then cl_db (snd (PeekDueRetries P 5 10 \<lparr>cl_step = 0, cl_db = r, rq_sent = [], rq_idle = 0\<rparr>)) else r)"
  have P: "cl_redis P = cl_redis E" "cl_redis E = ref_zops" "alone P 5"
    by (simp_all add: P_def E_def sample_rq_env_def alone_def)
  have oth: "cl_others E = (\<lambda>n r. if n = cl_step s + 2
     then cl_db (snd (PeekDueRetries P 5 10 \<lparr>cl_step = 0, cl_db = r, rq_sent = [], rq_idle = 0\<rparr>)) else r)"
    by (simp add: E_def sample_rq_env_def)
  have "rd_get ref_zops 5 (retryEntryKey ''j'') ref_empty = None"
    "rd_zall ref_zops RetryQueueZSetKey ref_empty = []"
    by (simp_all add: ref_zops_def ref_get_def ref_empty_def ref_zall_def)
  then have "\<exists>s1. Client_EnqueueRetry E ''j'' ''p'' 0 s = (None, s1)
    \<and> (\<forall>t'. retry_abs (cl_redis E) t' (cl_db s1) ''j'' = None)"
    using enqueue_race_loses_retry [OF _ P(1,3) _ _ _ _ _ _ oth, where j = "''j''" and p = "''p''" and due = 0] ref_zops_ok
    by (simp add: P(2) s_def E_def sample_rq_env_def unix_milli_def)
  then show ?thesis using P(2) by auto
qed

text \<open>Publishing a due retry can delete a newer one. The scheduler publishes the message and then
  removes the job id from the queue. If the job fails again in between and its worker enqueues the next attempt under the
  same id, with success, the acknowledgement removes that attempt: after republish the job is not in the queue.\<close>
theorem republish_race_deletes_newer:
  assumes "zredis_ok (cl_redis E)" and "cl_redis W = cl_redis E" and "alone W t"
    and "\<forall>n. cl_pipe E n = PipeOk" and "j \<noteq> []" and "p' \<noteq> []"
    and "item_message E p = Some m" and "pub_wired (re_pub E)" and "\<forall>n. re_send E n m = None"
    and "cl_others E = (\<lambda>n r. if n = cl_step s + 1
           then cl_db (snd (Client_EnqueueRetry W j p' due \<lparr>cl_step = 0, cl_db = r, rq_sent = [], rq_idle = 0\<rparr>)) else r)"
    and "s' = republish E (j, p) s"
  shows "fst (Client_EnqueueRetry W j p' due \<lparr>cl_step = 0, cl_db = cl_db s, rq_sent = [], rq_idle = 0\<rparr>) = None
    \<and> retry_abs (cl_redis E) t (cl_db (snd (Client_EnqueueRetry W j p' due
         \<lparr>cl_step = 0, cl_db = cl_db s, rq_sent = [], rq_idle = 0\<rparr>))) j = Some (unix_milli due, p')
    \<and> rq_sent s' = rq_sent s @ [m]
    \<and> (\<forall>t'. retry_abs (cl_redis E) t' (cl_db s') j = None)"
proof -
  have enq: "\<exists>s1. Client_EnqueueRetry W j p' due s0 = (None, s1)
      \<and> retry_abs (cl_redis E) t (cl_db s1) j = Some (unix_milli due, p')" for s0
    using EnqueueRetry_abs [OF _ assms(3,5,6), of due s0] assms(1,2) by auto
  have "forward_retry E m s = (None, s\<lparr>cl_step := Suc (cl_step s), rq_sent := rq_sent s @ [m]\<rparr>)"
    using assms(8,9) by (simp add: forward_retry_def cl_elapse_def assms(10) Let_def)
  then have "rq_sent s' = rq_sent s @ [m]" "score_of (cl_redis E) (cl_db s') j = None"
    using assms(4,5,7,11)
    by (simp_all add: republish_cases ackOrLog_def AckRetry_def run_pipe_def run_cmd_def cl_elapse_def Let_def
        assms(10) score_rules [OF assms(1)])
  then have "rq_sent s' = rq_sent s @ [m]" "\<forall>t'. retry_abs (cl_redis E) t' (cl_db s') j = None"
    by (simp_all add: retry_abs_def)
  then show ?thesis
    using enq [of "\<lparr>cl_step = 0, cl_db = cl_db s, rq_sent = [], rq_idle = 0\<rparr>"] by auto
qed

theorem republish_race_deletes_newer_witness:
  "\<exists>E :: ref_redis rq_env. \<exists>s. rq_sent (republish E (''j'', ''p'') s) \<noteq> []
    \<and> (\<forall>t. retry_abs ref_zops t (cl_db (republish E (''j'', ''p'') s)) ''j'' = None)"
proof -
  define W where "W = sample_rq_env 5 (\<lambda>_ r. r)"
  define s where "s = \<lparr>cl_step = 0, cl_db = ref_empty, rq_sent = [], rq_idle = 0\<rparr>"
  define E where "E = sample_rq_env 5 (\<lambda>n r. if n = cl_step s + 1
     then cl_db (snd (Client_EnqueueRetry W ''j'' ''q'' 0 \<lparr>cl_step = 0, cl_db = r, rq_sent = [], rq_idle = 0\<rparr>)) else r)"
  have W: "cl_redis W = cl_redis E" "cl_redis E = ref_zops" "alone W 5" "pub_wired (re_pub E)"
    "\<forall>n. cl_pipe E n = PipeOk" "\<forall>n m. re_send E n m = None"
    by (simp_all add: W_def E_def sample_rq_env_def alone_def)
  have oth: "cl_others E = (\<lambda>n r. if n = cl_step s + 1
     then cl_db (snd (Client_EnqueueRetry W ''j'' ''q'' 0 \<lparr>cl_step = 0, cl_db = r, rq_sent = [], rq_idle = 0\<rparr>)) else r)"
    by (simp add: E_def sample_rq_env_def)
  obtain m where m: "item_message E ''p'' = Some m"
    by (auto simp: item_message_def E_def sample_rq_env_def retry_message_def buildMessage_def Let_def)
  show ?thesis
    using republish_race_deletes_newer [OF _ W(1,3,5) _ _ m W(4) _ oth refl] ref_zops_ok W
    by (intro exI [of _ E] exI [of _ s]) (simp add: W(2))
qed

end
