(* ===== verification/Links.thy ===== *)
theory Links
  imports CrawlCore "HOL-Library.Sublist"
begin

text \<open>
  \<^verbatim>\<open>pkg/links\<close>: the URL normalizer (\<^verbatim>\<open>normalizer.go\<close>), whose result is the key of every
  deduplication marker, and the link extractor (\<^verbatim>\<open>extractor.go\<close>). A \<^verbatim>\<open>*url.URL\<close> is a record with
  the fields the code reads and writes; \<^verbatim>\<open>Hostname\<close> and \<^verbatim>\<open>Port\<close> are written out, parsing, printing and
  reference resolution are parameters, like \<^verbatim>\<open>strings.ToLower\<close>, \<^verbatim>\<open>strings.TrimSpace\<close> and the query codec. A
  parsed HTML document is the list of its anchors (their \<^verbatim>\<open>href\<close> and text) in document order.
\<close>

section \<open>URLs\<close>

record go_url =
  ur_scheme :: string
  ur_opaque :: string
  ur_user :: string
  ur_host :: string
  ur_path :: string
  ur_rawpath :: string
  ur_rawquery :: string
  ur_fragment :: string
  ur_rawfragment :: string

type_synonym query_values = "string \<rightharpoonup> string list"

record url_lib =
  ul_parse :: "string \<Rightarrow> go_error + go_url"
  ul_string :: "go_url \<Rightarrow> string"
  ul_resolve :: "go_url \<Rightarrow> go_url \<Rightarrow> go_url"
  ul_lower :: "string \<Rightarrow> string"
  ul_trim :: "string \<Rightarrow> string"
  ul_parse_query :: "string \<Rightarrow> query_values option"
  ul_encode :: "query_values \<Rightarrow> string"

text \<open>\<^verbatim>\<open>splitHostPort\<close> of \<^verbatim>\<open>net/url\<close>: the last colon starts the port when only digits follow.\<close>

definition ascii_digit :: "char \<Rightarrow> bool" where
  "ascii_digit c \<longleftrightarrow> 48 \<le> (of_char c :: nat) \<and> (of_char c :: nat) \<le> 57"

definition last_colon :: "string \<Rightarrow> (string \<times> string) option" where
  "last_colon s =
     (let r = rev s; after = takeWhile (\<lambda>c. c \<noteq> CHR '':'') r
      in if length after = length r then None
         else Some (rev (drop (Suc (length after)) r), rev after))"

definition strip_brackets :: "string \<Rightarrow> string" where
  "strip_brackets h =
     (if h \<noteq> [] \<and> hd h = CHR ''['' \<and> last h = CHR '']'' then butlast (tl h) else h)"

definition splitHostPort :: "string \<Rightarrow> string \<times> string" where
  "splitHostPort hostPort =
     (case last_colon hostPort of
        Some (h, p) \<Rightarrow> if list_all ascii_digit p then (strip_brackets h, p) else (strip_brackets hostPort, [])
      | None \<Rightarrow> (strip_brackets hostPort, []))"

definition Hostname :: "go_url \<Rightarrow> string" where "Hostname u = fst (splitHostPort (ur_host u))"
definition Port :: "go_url \<Rightarrow> string" where "Port u = snd (splitHostPort (ur_host u))"

section \<open>The normalizer\<close>

record normalize_config =
  nc_allowed :: "string \<rightharpoonup> string set"
  nc_force_https :: bool
  nc_strip_www :: bool
  nc_strip_slash :: bool
  nc_strip_fragment :: bool

definition trim_www :: "string \<Rightarrow> string" where
  "trim_www h = (if prefix ''www.'' h then drop 4 h else h)"

definition normalizeHostKey :: "url_lib \<Rightarrow> string \<Rightarrow> string" where
  "normalizeHostKey L host = trim_www (ul_lower L host)"

definition normalizeParamKey :: "url_lib \<Rightarrow> string \<Rightarrow> string" where
  "normalizeParamKey L k = ul_lower L k"

definition WithAllowedParams ::
  "url_lib \<Rightarrow> string \<Rightarrow> string list \<Rightarrow> normalize_config \<Rightarrow> normalize_config" where
  "WithAllowedParams L host params c =
     (let key = normalizeHostKey L host;
          old = (case nc_allowed c key of None \<Rightarrow> {} | Some s \<Rightarrow> s)
      in c\<lparr>nc_allowed := (nc_allowed c)(key \<mapsto> old \<union> set (map (normalizeParamKey L) params))\<rparr>)"

definition WithKeepHTTP :: "normalize_config \<Rightarrow> normalize_config" where
  "WithKeepHTTP c = c\<lparr>nc_force_https := False\<rparr>"

definition WithStripWWW :: "normalize_config \<Rightarrow> normalize_config" where
  "WithStripWWW c = c\<lparr>nc_strip_www := True\<rparr>"

definition WithKeepTrailingSlash :: "normalize_config \<Rightarrow> normalize_config" where
  "WithKeepTrailingSlash c = c\<lparr>nc_strip_slash := False\<rparr>"

definition WithKeepFragment :: "normalize_config \<Rightarrow> normalize_config" where
  "WithKeepFragment c = c\<lparr>nc_strip_fragment := False\<rparr>"

definition NewNormalizer :: "(normalize_config \<Rightarrow> normalize_config) list \<Rightarrow> normalize_config" where
  "NewNormalizer opts =
     fold (\<lambda>opt c. opt c) opts
       \<lparr>nc_allowed = Map.empty, nc_force_https = True, nc_strip_www = False,
        nc_strip_slash = True, nc_strip_fragment = True\<rparr>"

definition allowedFor :: "url_lib \<Rightarrow> normalize_config \<Rightarrow> string \<Rightarrow> string set" where
  "allowedFor L c host = (case nc_allowed c (normalizeHostKey L host) of None \<Rightarrow> {} | Some s \<Rightarrow> s)"

definition keep_params :: "url_lib \<Rightarrow> string set \<Rightarrow> query_values \<Rightarrow> query_values" where
  "keep_params L allowed vs = vs |` {k. normalizeParamKey L k \<in> allowed}"

definition filterQuery :: "url_lib \<Rightarrow> normalize_config \<Rightarrow> string \<Rightarrow> string \<Rightarrow> string" where
  "filterQuery L c host rawQuery =
     (let allowed = allowedFor L c host
      in if allowed = {} then []
         else (case ul_parse_query L rawQuery of
                 None \<Rightarrow> rawQuery
               | Some vs \<Rightarrow>
                   let kept = keep_params L allowed vs
                   in if kept = Map.empty then [] else ul_encode L kept))"

definition trim_right_slash :: "string \<Rightarrow> string" where
  "trim_right_slash p = rev (dropWhile (\<lambda>c. c = CHR ''/'') (rev p))"

text \<open>The changes \<^verbatim>\<open>Normalize\<close> makes to a parsed URL, in the code's order.\<close>

definition normalized_host :: "url_lib \<Rightarrow> normalize_config \<Rightarrow> go_url \<Rightarrow> string" where
  "normalized_host L c u =
     (let h = ul_lower L (Hostname u) in if nc_strip_www c then trim_www h else h)"

definition normalized_url :: "url_lib \<Rightarrow> normalize_config \<Rightarrow> go_url \<Rightarrow> go_url" where
  "normalized_url L c u0 =
     (let u = (if nc_force_https c \<and> ur_scheme u0 = ''http'' then u0\<lparr>ur_scheme := ''https''\<rparr> else u0);
          hostname = normalized_host L c u;
          u = (if Port u \<noteq> [] then u\<lparr>ur_host := hostname @ '':'' @ Port u\<rparr> else u\<lparr>ur_host := hostname\<rparr>);
          u = (if ur_rawquery u \<noteq> [] then u\<lparr>ur_rawquery := filterQuery L c hostname (ur_rawquery u)\<rparr> else u);
          u = (if nc_strip_slash c \<and> length (ur_path u) > 1 \<and> last (ur_path u) = CHR ''/''
               then u\<lparr>ur_path := trim_right_slash (ur_path u)\<rparr> else u)
      in if nc_strip_fragment c then u\<lparr>ur_fragment := [], ur_rawfragment := []\<rparr> else u)"

definition Normalize :: "url_lib \<Rightarrow> normalize_config \<Rightarrow> string \<Rightarrow> go_error + string" where
  "Normalize L c rawURL =
     (if rawURL = [] then Inr []
      else (case ul_parse L rawURL of
              Inl err \<Rightarrow> Inl (Wrapped (''parse url '' @ go_quote rawURL) err)
            | Inr u \<Rightarrow>
                if ur_host u = [] then Inr rawURL
                else Inr (ul_string L (normalized_url L c u))))"

definition NormalizeURL :: "url_lib \<Rightarrow> string \<Rightarrow> go_error + string" where
  "NormalizeURL L rawURL = Normalize L (NewNormalizer []) rawURL"

section \<open>The extractor\<close>

record link =
  ln_url :: string
  ln_text :: string

record extractor =
  ex_base_url :: string
  ex_same_origin :: bool
  ex_prefixes :: "string list"
  ex_exclude_lower :: "string list"
  ex_max :: int

record anchor =
  an_href :: string
  an_text :: string

definition defaultExcludePatterns :: "string list" where
  "defaultExcludePatterns =
     [''javascript:'', ''mailto:'', ''tel:'', ''/login'', ''/signup'', ''/register'', ''/share'', ''/print'', ''/rss'']"

definition WithSameOriginOnly :: "extractor \<Rightarrow> extractor" where
  "WithSameOriginOnly e = e\<lparr>ex_same_origin := True\<rparr>"

definition WithSameHostOnly :: "extractor \<Rightarrow> extractor" where
  "WithSameHostOnly = WithSameOriginOnly"

definition WithPathPrefixes :: "string list \<Rightarrow> extractor \<Rightarrow> extractor" where
  "WithPathPrefixes ps e = e\<lparr>ex_prefixes := ps\<rparr>"

definition WithExcludePatterns :: "url_lib \<Rightarrow> string list \<Rightarrow> extractor \<Rightarrow> extractor" where
  "WithExcludePatterns L patterns e =
     e\<lparr>ex_exclude_lower := ex_exclude_lower e @ map (ul_lower L) patterns\<rparr>"

definition WithMaxLinks :: "int \<Rightarrow> extractor \<Rightarrow> extractor" where
  "WithMaxLinks n e = (if n > 0 then e\<lparr>ex_max := n\<rparr> else e)"

definition NewExtractor :: "string \<Rightarrow> (extractor \<Rightarrow> extractor) list \<Rightarrow> extractor" where
  "NewExtractor baseURL opts =
     fold (\<lambda>opt e. opt e) opts
       \<lparr>ex_base_url = baseURL, ex_same_origin = False, ex_prefixes = [],
        ex_exclude_lower = defaultExcludePatterns, ex_max = 0\<rparr>"

definition resolveBase :: "url_lib \<Rightarrow> extractor \<Rightarrow> string \<Rightarrow> go_error + go_url option" where
  "resolveBase L e pageURL =
     (let src = (if pageURL = [] then ex_base_url e else pageURL)
      in if src = [] then Inr None
         else (case ul_parse L src of Inl err \<Rightarrow> Inl err | Inr u \<Rightarrow> Inr (Some u)))"

definition toAbsolute :: "url_lib \<Rightarrow> string \<Rightarrow> go_url option \<Rightarrow> string option" where
  "toAbsolute L href base =
     (case ul_parse L href of
        Inl _ \<Rightarrow> None
      | Inr ref \<Rightarrow>
          let absU = (case base of Some b \<Rightarrow> ul_resolve L b ref | None \<Rightarrow> ref)
          in if ur_scheme absU \<noteq> ''http'' \<and> ur_scheme absU \<noteq> ''https'' then None
             else Some (ul_string L (absU\<lparr>ur_fragment := []\<rparr>)))"

definition sameOrigin :: "url_lib \<Rightarrow> string \<Rightarrow> go_url \<Rightarrow> bool" where
  "sameOrigin L tgt base =
     (case ul_parse L tgt of
        Inl _ \<Rightarrow> False
      | Inr u \<Rightarrow> ur_scheme u = ur_scheme base \<and> ur_host u = ur_host base)"

definition shouldExclude :: "url_lib \<Rightarrow> extractor \<Rightarrow> string \<Rightarrow> bool" where
  "shouldExclude L e absURL \<longleftrightarrow> list_ex (\<lambda>p. sublist p (ul_lower L absURL)) (ex_exclude_lower e)"

definition matchesPathPrefix :: "url_lib \<Rightarrow> extractor \<Rightarrow> string \<Rightarrow> bool" where
  "matchesPathPrefix L e absURL =
     (if ex_prefixes e = [] then True
      else (case ul_parse L absURL of
              Inl _ \<Rightarrow> False
            | Inr u \<Rightarrow> list_ex (\<lambda>p. prefix p (ur_path u)) (ex_prefixes e)))"

text \<open>The body of the \<^verbatim>\<open>EachWithBreak\<close> callback up to the duplicate check.\<close>

definition eligible :: "url_lib \<Rightarrow> extractor \<Rightarrow> go_url option \<Rightarrow> anchor \<Rightarrow> string option" where
  "eligible L e base a =
     (let href = ul_trim L (an_href a)
      in if href = [] then None
         else (case toAbsolute L href base of
                 None \<Rightarrow> None
               | Some absU \<Rightarrow>
                   if shouldExclude L e absU then None
                   else if ex_same_origin e \<and> (case base of None \<Rightarrow> False | Some b \<Rightarrow> \<not> sameOrigin L absU b) then None
                   else if \<not> matchesPathPrefix L e absU then None
                   else Some absU))"

fun extract_loop :: "url_lib \<Rightarrow> extractor \<Rightarrow> go_url option \<Rightarrow> anchor list \<Rightarrow> link list \<Rightarrow> link list" where
  "extract_loop L e base [] result = result"
| "extract_loop L e base (a # as) result =
     (if ex_max e > 0 \<and> ex_max e \<le> int (length result) then result
      else (case eligible L e base a of
              None \<Rightarrow> extract_loop L e base as result
            | Some absU \<Rightarrow>
                if absU \<in> ln_url ` set result then extract_loop L e base as result
                else extract_loop L e base as (result @ [\<lparr>ln_url = absU, ln_text = ul_trim L (an_text a)\<rparr>])))"

definition Extract ::
  "url_lib \<Rightarrow> (string \<Rightarrow> go_error + anchor list) \<Rightarrow> extractor \<Rightarrow> string \<Rightarrow> string \<Rightarrow> go_error + link list" where
  "Extract L parse_html e html pageURL =
     (if html = [] then Inr []
      else (case parse_html html of
              Inl err \<Rightarrow> Inl (Wrapped ''parse html'' err)
            | Inr as \<Rightarrow>
                (case resolveBase L e pageURL of
                   Inl err \<Rightarrow> Inl (Wrapped ''resolve base url'' err)
                 | Inr base \<Rightarrow> Inr (extract_loop L e base as []))))"

section \<open>What is extracted\<close>

definition within_max :: "extractor \<Rightarrow> 'a list \<Rightarrow> 'a list" where
  "within_max e xs = (if ex_max e > 0 then take (nat (ex_max e)) xs else xs)"

lemma extract_loop_spec:
  assumes "map ln_url result = firsts seen" and "ex_max e > 0 \<Longrightarrow> int (length result) \<le> ex_max e"
  shows "map ln_url (extract_loop L e base as result)
    = within_max e (firsts (seen @ List.map_filter (eligible L e base) as))"
  using assms
proof (induction as arbitrary: result seen)
  case Nil
  have "length (firsts seen) = length result" using Nil(1) by (metis length_map)
  then show ?case using Nil by (auto simp: within_max_def map_filter_simps)
next
  case (Cons a as)
  have len: "length (firsts seen) = length result" using Cons.prems(1) by (metis length_map)
  have mem: "ln_url ` set result = set seen" using Cons.prems(1) by (metis list.set_map firsts_simps(2))
  show ?case
  proof (cases "ex_max e > 0 \<and> ex_max e \<le> int (length result)")
    case True
    then have "nat (ex_max e) = length (firsts seen)" using Cons.prems(2) len by simp
    then show ?thesis
      using True Cons.prems(1) by (simp add: within_max_def take_firsts_append)
  next
    case False
    show ?thesis
    proof (cases "eligible L e base a")
      case None
      from Cons.IH [OF Cons.prems] show ?thesis using None False by (auto simp: map_filter_simps)
    next
      case (Some absU)
      show ?thesis
      proof (cases "absU \<in> set seen")
        case True
        then have "map ln_url result = firsts (seen @ [absU])" using Cons.prems(1) by simp
        from Cons.IH [OF this Cons.prems(2)] show ?thesis
          using False Some True mem by (auto simp: map_filter_simps)
      next
        case new: False
        let ?r = "result @ [\<lparr>ln_url = absU, ln_text = ul_trim L (an_text a)\<rparr>]"
        have "map ln_url ?r = firsts (seen @ [absU])" using Cons.prems(1) new by simp
        moreover have "ex_max e > 0 \<Longrightarrow> int (length ?r) \<le> ex_max e" using False by simp
        ultimately show ?thesis
          using Cons.IH [of ?r "seen @ [absU]"] False Some new mem by (auto simp: map_filter_simps)
      qed
    qed
  qed
qed

lemma mem_map_filter: "x \<in> set (List.map_filter f xs) \<Longrightarrow> \<exists>a. f a = Some x"
  by (induction xs) (auto simp: map_filter_simps split: option.splits if_splits)

lemma eligible_props:
  assumes "eligible L e base a = Some absU"
  shows "\<not> shouldExclude L e absU \<and> matchesPathPrefix L e absU
    \<and> (ex_same_origin e \<longrightarrow> (\<forall>b. base = Some b \<longrightarrow> sameOrigin L absU b))"
  using assms by (auto simp: eligible_def Let_def split: if_splits option.splits)

section \<open>Normalizing twice\<close>

lemma last_colon_app:
  assumes "CHR '':'' \<notin> set p"
  shows "last_colon (h @ CHR '':'' # p) = Some (h, p)"
proof -
  have t: "takeWhile (\<lambda>c. c \<noteq> CHR '':'') (rev p @ CHR '':'' # rev h) = rev p"
    using assms by (subst takeWhile_append2) auto
  show ?thesis by (simp add: last_colon_def t Let_def)
qed

lemma last_colon_none:
  assumes "CHR '':'' \<notin> set h"
  shows "last_colon h = None"
proof -
  have "takeWhile (\<lambda>c. c \<noteq> CHR '':'') (rev h) = rev h" using assms by (subst takeWhile_eq_all_conv) auto
  from this [THEN arg_cong, of length] show ?thesis by (simp add: last_colon_def Let_def)
qed

lemma last_colon_parts:
  assumes "last_colon s = Some (h, p)"
  shows "s = h @ CHR '':'' # p \<and> CHR '':'' \<notin> set p"
proof -
  define r where "r = rev s"
  define t where "t = takeWhile (\<lambda>c. c \<noteq> CHR '':'') r"
  have ne: "length t \<noteq> length r" and hp: "h = rev (drop (Suc (length t)) r)" "p = rev t"
    using assms by (auto simp: last_colon_def r_def t_def Let_def split: if_splits)
  have d: "dropWhile (\<lambda>c. c \<noteq> CHR '':'') r = drop (length t) r" by (simp add: t_def dropWhile_eq_drop)
  have "drop (length t) r \<noteq> []" using ne t_def length_takeWhile_le [of "\<lambda>c. c \<noteq> CHR '':''" r] by auto
  then obtain c cs where c: "drop (length t) r = c # cs" by (meson neq_Nil_conv)
  then have "c = CHR '':''" using d hd_dropWhile [of "\<lambda>c. c \<noteq> CHR '':''" r] by auto
  moreover have "cs = drop (Suc (length t)) r" using c by (metis drop_Suc tl_drop list.sel(3))
  ultimately have "r = t @ CHR '':'' # drop (Suc (length t)) r"
    using c by (metis t_def takeWhile_dropWhile_id d)
  then have "s = rev (t @ CHR '':'' # drop (Suc (length t)) r)" by (metis r_def rev_rev_ident)
  then show ?thesis using hp by (auto simp: t_def dest: set_takeWhileD)
qed

definition plain_host :: "string \<Rightarrow> bool" where
  "plain_host h \<longleftrightarrow> CHR '':'' \<notin> set h \<and> CHR ''['' \<notin> set h"

lemma strip_brackets_plain: "plain_host h \<Longrightarrow> strip_brackets h = h"
  unfolding strip_brackets_def plain_host_def by (metis hd_in_set)

lemma splitHostPort_plain:
  assumes "plain_host h"
  shows "splitHostPort h = (h, [])"
    and "list_all ascii_digit p \<Longrightarrow> splitHostPort (h @ CHR '':'' # p) = (h, p)"
proof -
  show "splitHostPort h = (h, [])"
    using assms strip_brackets_plain by (simp add: splitHostPort_def last_colon_none plain_host_def)
  assume p: "list_all ascii_digit p"
  then have "CHR '':'' \<notin> set p" by (auto simp: list_all_iff ascii_digit_def)
  then show "splitHostPort (h @ CHR '':'' # p) = (h, p)"
    using p strip_brackets_plain [OF assms] by (simp add: splitHostPort_def last_colon_app)
qed

lemma Port_digits: "list_all ascii_digit (Port u)"
  by (auto simp: Port_def splitHostPort_def split: option.splits prod.splits)

lemma trim_right_slash_end:
  "trim_right_slash p = [] \<or> last (trim_right_slash p) \<noteq> CHR ''/''"
proof -
  have "dropWhile (\<lambda>c. c = CHR ''/'') (rev p) = [] \<or> hd (dropWhile (\<lambda>c. c = CHR ''/'') (rev p)) \<noteq> CHR ''/''"
    using hd_dropWhile by blast
  then show ?thesis unfolding trim_right_slash_def by (auto simp: last_rev)
qed

text \<open>
  What the code relies on of \<^verbatim>\<open>net/url\<close> and \<^verbatim>\<open>strings\<close>: lower-casing is idempotent and adds no colon or
  bracket, decoding an encoded part of decoded query values gives it back, and printing a URL and
  parsing the text again gives the same fields and the same text (the raw path aside).
\<close>

definition url_lib_ok :: "url_lib \<Rightarrow> bool" where
  "url_lib_ok L \<longleftrightarrow>
     (\<forall>s. ul_lower L (ul_lower L s) = ul_lower L s)
     \<and> (\<forall>s. plain_host s \<longrightarrow> plain_host (ul_lower L s))
     \<and> (\<forall>q vs S. ul_parse_query L q = Some vs \<and> vs |` S \<noteq> Map.empty
          \<longrightarrow> ul_parse_query L (ul_encode L (vs |` S)) = Some (vs |` S))"

definition reparses :: "url_lib \<Rightarrow> go_url \<Rightarrow> bool" where
  "reparses L u \<longleftrightarrow>
     (\<exists>raw. ul_parse L (ul_string L u) = Inr (u\<lparr>ur_rawpath := raw\<rparr>)
        \<and> ul_string L (u\<lparr>ur_rawpath := raw\<rparr>) = ul_string L u)"

lemma filterQuery_twice:
  assumes "url_lib_ok L" and "filterQuery L c h q \<noteq> []"
  shows "filterQuery L c h (filterQuery L c h q) = filterQuery L c h q"
proof -
  let ?A = "allowedFor L c h"
  have A: "?A \<noteq> {}" using assms(2) by (auto simp: filterQuery_def Let_def)
  show ?thesis
  proof (cases "ul_parse_query L q")
    case None
    then have "filterQuery L c h q = q" using A by (simp add: filterQuery_def Let_def)
    then show ?thesis by simp
  next
    case (Some vs)
    let ?S = "{k. normalizeParamKey L k \<in> ?A}"
    have ne: "vs |` ?S \<noteq> Map.empty" and q: "filterQuery L c h q = ul_encode L (vs |` ?S)"
      using assms(2) A Some by (auto simp: filterQuery_def keep_params_def Let_def split: if_splits)
    have "ul_parse_query L (ul_encode L (vs |` ?S)) = Some (vs |` ?S)"
      using assms(1) Some ne unfolding url_lib_ok_def by blast
    then have "filterQuery L c h (ul_encode L (vs |` ?S)) = ul_encode L (vs |` ?S)"
      using A ne by (simp add: filterQuery_def keep_params_def Let_def)
    then show ?thesis by (simp only: q)
  qed
qed

lemma normalized_url_fields:
  "ur_host (normalized_url L c u) =
     (if Port u \<noteq> [] then normalized_host L c u @ CHR '':'' # Port u else normalized_host L c u)"
  "ur_scheme (normalized_url L c u) =
     (if nc_force_https c \<and> ur_scheme u = ''http'' then ''https'' else ur_scheme u)"
  "ur_rawquery (normalized_url L c u) =
     (if ur_rawquery u \<noteq> [] then filterQuery L c (normalized_host L c u) (ur_rawquery u) else [])"
  "ur_path (normalized_url L c u) =
     (if nc_strip_slash c \<and> length (ur_path u) > 1 \<and> last (ur_path u) = CHR ''/''
      then trim_right_slash (ur_path u) else ur_path u)"
  "nc_strip_fragment c \<Longrightarrow> ur_fragment (normalized_url L c u) = [] \<and> ur_rawfragment (normalized_url L c u) = []"
proof -
  show "ur_path (normalized_url L c u) =
     (if nc_strip_slash c \<and> length (ur_path u) > 1 \<and> last (ur_path u) = CHR ''/''
      then trim_right_slash (ur_path u) else ur_path u)"
    unfolding normalized_url_def Let_def by auto
qed (simp_all add: normalized_url_def normalized_host_def Hostname_def Port_def Let_def)

lemma normalized_fixed:
  assumes "nc_force_https c \<longrightarrow> ur_scheme v \<noteq> ''http''"
    and "ur_host v = (if Port v \<noteq> [] then normalized_host L c v @ CHR '':'' # Port v else normalized_host L c v)"
    and "ur_rawquery v \<noteq> [] \<longrightarrow> filterQuery L c (normalized_host L c v) (ur_rawquery v) = ur_rawquery v"
    and "nc_strip_slash c \<and> length (ur_path v) > 1 \<longrightarrow> last (ur_path v) \<noteq> CHR ''/''"
    and "nc_strip_fragment c \<longrightarrow> ur_fragment v = [] \<and> ur_rawfragment v = []"
  shows "normalized_url L c v = v"
proof (rule go_url.equality)
  note f = normalized_url_fields [where L = L and c = c and u = v]
  show "ur_host (normalized_url L c v) = ur_host v" using f(1) assms(2) by simp
  show "ur_scheme (normalized_url L c v) = ur_scheme v" using f(2) assms(1) by simp
  show "ur_rawquery (normalized_url L c v) = ur_rawquery v" using f(3) assms(3) by simp
  show "ur_path (normalized_url L c v) = ur_path v" using f(4) assms(4) by auto
  show "ur_fragment (normalized_url L c v) = ur_fragment v"
    "ur_rawfragment (normalized_url L c v) = ur_rawfragment v"
    using assms(5) by (auto simp: normalized_url_def Let_def)
qed (simp_all add: normalized_url_def Let_def)

lemma normalized_host_twice:
  assumes "url_lib_ok L" and "\<not> nc_strip_www c" and "plain_host (Hostname u)"
    and "ur_host v = ur_host (normalized_url L c u)"
  shows "normalized_host L c v = normalized_host L c u \<and> Port v = Port u"
proof -
  define h where "h = ul_lower L (Hostname u)"
  have h: "plain_host h" "ul_lower L h = h" "normalized_host L c u = h"
    using assms(1-3) by (auto simp: url_lib_ok_def h_def normalized_host_def Let_def)
  have "splitHostPort (ur_host v) = (h, Port u)"
    using assms(4) splitHostPort_plain [OF h(1)] Port_digits [of u] h(3)
    by (auto simp: normalized_url_fields)
  then show ?thesis using h assms(2) by (simp add: normalized_host_def Hostname_def Port_def)
qed

lemma normalized_url_twice:
  assumes "url_lib_ok L" and "\<not> nc_strip_www c" and "plain_host (Hostname u)"
    and v: "v = (normalized_url L c u)\<lparr>ur_rawpath := raw\<rparr>"
  shows "normalized_url L c v = v"
proof (rule normalized_fixed)
  note f = normalized_url_fields [where c = c and u = u]
  have host: "normalized_host L c v = normalized_host L c u" "Port v = Port u"
    using normalized_host_twice [OF assms(1-3), of v] v by simp_all
  show "nc_force_https c \<longrightarrow> ur_scheme v \<noteq> ''http''" using v f(2) by simp
  show "ur_host v = (if Port v \<noteq> [] then normalized_host L c v @ CHR '':'' # Port v else normalized_host L c v)"
    using v f(1) host by simp
  show "ur_rawquery v \<noteq> [] \<longrightarrow> filterQuery L c (normalized_host L c v) (ur_rawquery v) = ur_rawquery v"
    using v f(3) host filterQuery_twice [OF assms(1)] by auto
  show "nc_strip_slash c \<and> length (ur_path v) > 1 \<longrightarrow> last (ur_path v) \<noteq> CHR ''/''"
    using v f(4) trim_right_slash_end [of "ur_path u"] by auto
  show "nc_strip_fragment c \<longrightarrow> ur_fragment v = [] \<and> ur_rawfragment v = []" using v f(5) by simp
qed

text \<open>A small library for the witnesses: a host and a path, printed as they are.\<close>

definition text_url :: "string \<Rightarrow> string \<Rightarrow> string \<Rightarrow> go_url" where
  "text_url scheme host path =
     \<lparr>ur_scheme = scheme, ur_opaque = [], ur_user = [], ur_host = host, ur_path = path, ur_rawpath = [],
      ur_rawquery = [], ur_fragment = [], ur_rawfragment = []\<rparr>"

definition split_url :: "string \<Rightarrow> go_error + go_url" where
  "split_url s =
     (let scheme = takeWhile (\<lambda>c. c \<noteq> CHR '':'') s; rest = drop (length scheme + 3) s
      in Inr (text_url scheme (takeWhile (\<lambda>c. c \<noteq> CHR ''/'') rest) (dropWhile (\<lambda>c. c \<noteq> CHR ''/'') rest)))"

definition text_lib :: url_lib where
  "text_lib = \<lparr>ul_parse = split_url, ul_string = (\<lambda>u. ur_scheme u @ ''://'' @ ur_host u @ ur_path u),
     ul_resolve = (\<lambda>b r. if ur_host r = [] then r\<lparr>ur_scheme := ur_scheme b, ur_host := ur_host b\<rparr> else r),
     ul_lower = id, ul_trim = id, ul_parse_query = (\<lambda>q. None), ul_encode = (\<lambda>m. [])\<rparr>"

lemma text_lib_ok: "url_lib_ok text_lib"
  by (simp add: url_lib_ok_def text_lib_def)

section \<open>Properties\<close>

text \<open>C17. The normal form is a fixed point. A URL whose host is not an IPv6 literal, normalized once by a
  normalizer that keeps www, is not changed by normalizing it again, whatever its scheme, port, query,
  trailing slashes and fragment: the key under which a page is marked does not depend on how often it passed
  through the pipeline.\<close>
theorem normalize_idempotent:
  assumes "url_lib_ok L" and "\<not> nc_strip_www c" and "ul_parse L rawURL = Inr u" and "rawURL \<noteq> []"
    and "plain_host (Hostname u)" and "reparses L (normalized_url L c u)"
    and "Normalize L c rawURL = Inr s"
  shows "Normalize L c s = Inr s"
proof (cases "ur_host u = [] \<or> s = []")
  case True
  then show ?thesis using assms(3,4,7) by (auto simp: Normalize_def)
next
  case False
  obtain raw where p: "ul_parse L s = Inr ((normalized_url L c u)\<lparr>ur_rawpath := raw\<rparr>)"
    "ul_string L ((normalized_url L c u)\<lparr>ur_rawpath := raw\<rparr>) = s"
    using assms(3,4,6,7) False by (auto simp: reparses_def Normalize_def)
  show ?thesis
    using False p normalized_url_twice [OF assms(1,2,5) refl, of raw] by (simp add: Normalize_def)
qed

theorem normalize_idempotent_witness:
  "Normalize text_lib (NewNormalizer []) ''http://a.b:8/x//'' = Inr ''https://a.b:8/x''
   \<and> Normalize text_lib (NewNormalizer []) ''https://a.b:8/x'' = Inr ''https://a.b:8/x''"
proof -
  let ?c = "NewNormalizer []" and ?u = "text_url ''http'' ''a.b:8'' ''/x//''"
  have p: "ul_parse text_lib ''http://a.b:8/x//'' = Inr ?u"
    by (simp add: text_lib_def split_url_def text_url_def Let_def)
  have hp: "splitHostPort ''a.b:8'' = (''a.b'', ''8'')"
    by (simp add: splitHostPort_def last_colon_def strip_brackets_def ascii_digit_def Let_def)
  then have h: "Hostname ?u = ''a.b''" "Port ?u = ''8''" by (simp_all add: Hostname_def Port_def text_url_def)
  have n: "normalized_url text_lib ?c ?u = text_url ''https'' ''a.b:8'' ''/x''"
    using hp by (simp add: normalized_url_def normalized_host_def Hostname_def Port_def NewNormalizer_def
        text_lib_def trim_right_slash_def Let_def text_url_def)
  have r: "reparses text_lib (normalized_url text_lib ?c ?u)"
    unfolding n reparses_def
    by (rule exI [of _ "[]"]) (simp add: text_lib_def split_url_def text_url_def Let_def)
  have one: "Normalize text_lib ?c ''http://a.b:8/x//'' = Inr ''https://a.b:8/x''"
    using p n by (simp add: Normalize_def) (simp add: text_lib_def text_url_def)
  have "plain_host (Hostname ?u)" by (simp add: h plain_host_def)
  from normalize_idempotent [OF text_lib_ok _ p _ this r one]
  have "Normalize text_lib ?c ''https://a.b:8/x'' = Inr ''https://a.b:8/x''"
    by (simp add: NewNormalizer_def)
  with one show ?thesis by blast
qed

text \<open>A defect: the normalizer drops the brackets of an IPv6 literal. The host it writes is the address
  followed by a colon and the port (or the bare address), which as a URL host means another address and port:
  reading the host back gives a different host name.\<close>
theorem normalizer_drops_brackets:
  assumes "ur_host u = CHR ''['' # h @ CHR '']'' # p" and "p = [] \<or> (p = CHR '':'' # q \<and> list_all ascii_digit q)"
    and "CHR '']'' \<notin> set h" and "\<not> nc_strip_www c" and "ul_lower L h = h"
    and "h = a @ CHR '':'' # b" and "list_all ascii_digit b" and "plain_host a"
  shows "ur_host (normalized_url L c u) = (if p = [] \<or> q = [] then h else h @ CHR '':'' # q)
    \<and> (p = [] \<longrightarrow> Hostname (normalized_url L c u) = a \<and> Port (normalized_url L c u) = b)"
proof -
  let ?host = "CHR ''['' # h @ [CHR '']'']"
  have b: "strip_brackets ?host = h" by (simp add: strip_brackets_def)
  have sp: "splitHostPort (ur_host u) = (h, if p = [] then [] else q)"
  proof (cases "p = []")
    case True
    have "last_colon ?host = Some (CHR ''['' # a, b @ [CHR '']''])"
    proof -
      have "CHR '':'' \<notin> set (b @ [CHR '']''])" using assms(7) by (auto simp: list_all_iff ascii_digit_def)
      from last_colon_app [OF this, of "CHR ''['' # a"] show ?thesis by (simp add: assms(6))
    qed
    moreover have "\<not> list_all ascii_digit (b @ [CHR '']''])" by (simp add: ascii_digit_def)
    ultimately show ?thesis using True b by (simp add: assms(1) splitHostPort_def)
  next
    case False
    then have q: "p = CHR '':'' # q" "list_all ascii_digit q" using assms(2) by auto
    have "CHR '':'' \<notin> set q" using q by (auto simp: list_all_iff ascii_digit_def)
    from last_colon_app [OF this, of ?host] show ?thesis
      using q b by (simp add: assms(1) splitHostPort_def)
  qed
  then have n: "normalized_host L c u = h" "Port u = (if p = [] then [] else q)"
    using assms(4,5) by (simp_all add: normalized_host_def Hostname_def Port_def)
  have host: "ur_host (normalized_url L c u) = (if p = [] \<or> q = [] then h else h @ CHR '':'' # q)"
    using n by (simp add: normalized_url_fields)
  moreover have "splitHostPort h = (a, b)"
    unfolding assms(6) using splitHostPort_plain(2) [OF assms(8,7)] by simp
  ultimately show ?thesis by (auto simp: Hostname_def Port_def)
qed

theorem normalizer_drops_brackets_witness:
  "ur_host (normalized_url text_lib (NewNormalizer []) (text_url ''http'' ''[a:1]:80'' ''/'')) = ''a:1:80''"
proof -
  define u where "u = text_url ''http'' ''[a:1]:80'' ''/''"
  have host: "ur_host u = CHR ''['' # ''a:1'' @ CHR '']'' # '':80''" by (simp add: u_def text_url_def)
  have p: "'':80'' = [] \<or> ('':80'' = CHR '':'' # ''80'' \<and> list_all ascii_digit ''80'')" by (simp add: ascii_digit_def)
  have c: "\<not> nc_strip_www (NewNormalizer [])" by (simp add: NewNormalizer_def)
  have low: "ul_lower text_lib ''a:1'' = ''a:1''" by (simp add: text_lib_def)
  have one: "list_all ascii_digit ''1''" by (simp add: ascii_digit_def)
  have a: "plain_host ''a''" by (simp add: plain_host_def)
  have br: "CHR '']'' \<notin> set ''a:1''" by simp
  have ab: "''a:1'' = ''a'' @ CHR '':'' # ''1''" by simp
  have "ur_host (normalized_url text_lib (NewNormalizer []) u)
      = (if '':80'' = [] \<or> ''80'' = [] then ''a:1'' else ''a:1'' @ CHR '':'' # ''80'')"
    by (rule conjunct1 [OF normalizer_drops_brackets [OF host p br c low ab one a]])
  then show ?thesis unfolding u_def by simp
qed

text \<open>The extractor returns each eligible link once, in document order, up to its limit. The URLs of the
  result are the first occurrences of the absolute URLs of the anchors that pass the exclusion patterns, the
  origin and the path prefixes, cut to the maximum; no URL of the result contains an excluded pattern.\<close>
theorem extract_first_eligible:
  assumes "html \<noteq> []" and "parse_html html = Inr anchors" and "resolveBase L e pageURL = Inr base"
  shows "\<exists>out. Extract L parse_html e html pageURL = Inr out
    \<and> map ln_url out = within_max e (firsts (List.map_filter (eligible L e base) anchors))
    \<and> distinct (map ln_url out) \<and> (ex_max e > 0 \<longrightarrow> int (length out) \<le> ex_max e)
    \<and> (\<forall>l \<in> set out. \<not> shouldExclude L e (ln_url l) \<and> matchesPathPrefix L e (ln_url l)
         \<and> (ex_same_origin e \<longrightarrow> (\<forall>b. base = Some b \<longrightarrow> sameOrigin L (ln_url l) b)))"
proof -
  define out where "out = extract_loop L e base anchors []"
  have run: "Extract L parse_html e html pageURL = Inr out" using assms by (simp add: Extract_def out_def)
  have m: "map ln_url out = within_max e (firsts (List.map_filter (eligible L e base) anchors))"
    using extract_loop_spec [of "[]" "[]" e L base anchors] by (simp add: out_def)
  then have d: "distinct (map ln_url out)" by (simp add: within_max_def)
  have "length out = length (within_max e (firsts (List.map_filter (eligible L e base) anchors)))"
    using m by (metis length_map)
  then have len: "ex_max e > 0 \<longrightarrow> int (length out) \<le> ex_max e" by (auto simp: within_max_def)
  have "ln_url l \<in> set (List.map_filter (eligible L e base) anchors)" if "l \<in> set out" for l
  proof -
    have "ln_url l \<in> set (within_max e (firsts (List.map_filter (eligible L e base) anchors)))"
      using that m by (metis image_eqI list.set_map)
    then show ?thesis by (auto simp: within_max_def split: if_splits dest: in_set_takeD)
  qed
  then have "\<forall>l \<in> set out. \<exists>a. eligible L e base a = Some (ln_url l)"
    by (intro ballI mem_map_filter)
  then have all: "\<forall>l \<in> set out. \<not> shouldExclude L e (ln_url l) \<and> matchesPathPrefix L e (ln_url l)
         \<and> (ex_same_origin e \<longrightarrow> (\<forall>b. base = Some b \<longrightarrow> sameOrigin L (ln_url l) b))"
    using eligible_props by blast
  show ?thesis by (rule exI [of _ out], rule conjI [OF run conjI [OF m conjI [OF d conjI [OF len all]]]])
qed

theorem extract_first_eligible_witness:
  "\<exists>out. Extract text_lib (\<lambda>h. Inr [\<lparr>an_href = ''http://h/a'', an_text = ''t''\<rparr>, \<lparr>an_href = ''http://h/login'', an_text = []\<rparr>,
      \<lparr>an_href = ''http://h/a'', an_text = ''u''\<rparr>]) (NewExtractor [] []) ''x'' [] = Inr out
    \<and> distinct (map ln_url out)"
proof -
  define as where "as = [\<lparr>an_href = ''http://h/a'', an_text = ''t''\<rparr>, \<lparr>an_href = ''http://h/login'', an_text = []\<rparr>,
      \<lparr>an_href = ''http://h/a'', an_text = ''u''\<rparr>]"
  have base: "resolveBase text_lib (NewExtractor [] []) [] = Inr None"
    by (simp add: resolveBase_def NewExtractor_def)
  show ?thesis
    unfolding as_def [symmetric]
    using extract_first_eligible [where parse_html = "\<lambda>h. Inr as" and html = "''x''", OF _ refl base] by blast
qed

end
