(* ===== verification/RuleLookup.thy ===== *)
theory RuleLookup
  imports Links "HOL-Library.AList" "HOL-Library.Product_Lexorder"
begin

text \<open>
  How the parser finds the rule of a URL and what keeps a URL from being parsed: the rule resolver with
  its two caches (\<^verbatim>\<open>internal/processor/parser/rule/resolver.go\<close>), the blacklist matcher
  (\<^verbatim>\<open>blacklist_matcher.go\<close>), the table behind it (\<^verbatim>\<open>internal/storage/postgres/blacklist.go\<close>), the
  automatic demotion (\<^verbatim>\<open>auto_demote.go\<close>) and the precheck (\<^verbatim>\<open>internal/processor/precheck\<close>).

  One call of an operation is one step; the record of the call holds what the outside gives it: the
  clock at its readings, the answers of the repository and the order in which Go iterates over a map.
  The resolver's regular expression cache is a memo without eviction and is left out; that
  of the matcher, which evicts, is modelled. Metrics and logging are left out.
\<close>

section \<open>Rules\<close>

record field_selector =
  fs_css :: string
  fs_attr :: string
  fs_multi :: bool

record link_discovery =
  ld_pattern :: string
  ld_exclude :: "string list"
  ld_prefixes :: "string list"
  ld_same_origin :: bool
  ld_max :: int

record selector_map =
  sm_title :: "field_selector option"
  sm_main :: "field_selector option"
  sm_summary :: "field_selector option"
  sm_author :: "field_selector option"
  sm_published :: "field_selector option"
  sm_category :: "field_selector option"
  sm_tags :: "field_selector option"
  sm_images :: "field_selector option"
  sm_item_container :: "field_selector option"
  sm_item_link :: "field_selector option"
  sm_item_title :: "field_selector option"
  sm_item_snippet :: "field_selector option"
  sm_discovery :: "link_discovery option"

record parser_rule =
  ru_id :: int
  ru_source :: string
  ru_host :: string
  ru_path :: string
  ru_type :: string
  ru_version :: int
  ru_enabled :: bool
  ru_selectors :: selector_map
  ru_article :: bool

definition TargetTypePage :: string where "TargetTypePage = ''page''"
definition TargetTypeList :: string where "TargetTypeList = ''list''"

definition mk_rule_error ::
  "rule_code \<Rightarrow> string \<Rightarrow> string \<Rightarrow> string \<Rightarrow> string \<Rightarrow> go_error option \<Rightarrow> go_error" where
  "mk_rule_error code msg host url tt err =
     RuleErr \<lparr>rer_code = code, rer_message = msg, rer_host = host, rer_url = url, rer_type = tt\<rparr> err"

definition extractHostPath :: "url_lib \<Rightarrow> string \<Rightarrow> go_error + string \<times> string" where
  "extractHostPath L rawURL =
     (case ul_parse L rawURL of
        Inl err \<Rightarrow> Inl (Wrapped ''parse url'' err)
      | Inr u \<Rightarrow>
          if Hostname u = [] then Inl (Opaque (''empty host in url '' @ go_quote rawURL))
          else Inr (ul_lower L (Hostname u), if ur_path u = [] then ''/'' else ur_path u))"

text \<open>A pattern matches a path: the empty one always, one that does not compile never.\<close>

type_synonym regex_lib = "string \<Rightarrow> go_error + (string \<Rightarrow> bool)"

definition pathMatches :: "regex_lib \<Rightarrow> string \<Rightarrow> string \<Rightarrow> bool" where
  "pathMatches re pat path =
     (if pat = [] then True else (case re pat of Inl _ \<Rightarrow> False | Inr f \<Rightarrow> f path))"

section \<open>The rule resolver\<close>

type_synonym cache_key = "string \<times> string"

definition DefaultCacheTTL :: duration where "DefaultCacheTTL = 5 * minute"
definition DefaultNegativeCacheTTL :: duration where "DefaultNegativeCacheTTL = 30 * second"
definition DefaultMaxCacheEntries :: int where "DefaultMaxCacheEntries = 10000"

record rule_resolver =
  rv_ttl :: duration
  rv_neg_ttl :: duration
  rv_max :: int
  rv_cache :: "(cache_key \<times> parser_rule list \<times> gotime) list"
  rv_has :: "(cache_key \<times> (bool \<times> bool) \<times> gotime) list"

definition NewResolver :: "(rule_resolver \<Rightarrow> rule_resolver) list \<Rightarrow> rule_resolver" where
  "NewResolver opts =
     fold (\<lambda>opt r. opt r) opts
       \<lparr>rv_ttl = DefaultCacheTTL, rv_neg_ttl = DefaultNegativeCacheTTL, rv_max = DefaultMaxCacheEntries,
        rv_cache = [], rv_has = []\<rparr>"

definition WithCacheTTL :: "duration \<Rightarrow> rule_resolver \<Rightarrow> rule_resolver" where
  "WithCacheTTL d r = r\<lparr>rv_ttl := d\<rparr>"

definition WithNegativeCacheTTL :: "duration \<Rightarrow> rule_resolver \<Rightarrow> rule_resolver" where
  "WithNegativeCacheTTL d r = r\<lparr>rv_neg_ttl := d\<rparr>"

definition WithMaxCacheEntries :: "int \<Rightarrow> rule_resolver \<Rightarrow> rule_resolver" where
  "WithMaxCacheEntries n r = (if n > 0 then r\<lparr>rv_max := n\<rparr> else r)"

record rule_call =
  kc_now :: gotime
  kc_later :: gotime
  kc_order :: "cache_key list \<Rightarrow> cache_key list"
  kc_find :: "string \<Rightarrow> string \<Rightarrow> go_error + parser_rule list"
  kc_has :: "string \<Rightarrow> string \<Rightarrow> go_error + bool \<times> bool"

text \<open>
  The loop of \<^verbatim>\<open>evictExpiringSoon\<close> and \<^verbatim>\<open>evictHasAnyExpiringSoon\<close>: the first entry with
  the least expiry, in the iteration order.
\<close>

fun soonest :: "('k \<times> gotime) option \<Rightarrow> ('k \<times> gotime) list \<Rightarrow> ('k \<times> gotime) option" where
  "soonest best [] = best"
| "soonest best ((k, t) # r) =
     soonest (case best of None \<Rightarrow> Some (k, t) | Some (k', t') \<Rightarrow> if t < t' then Some (k, t) else best) r"

definition evict_soonest ::
  "int \<Rightarrow> (cache_key list \<Rightarrow> cache_key list) \<Rightarrow> (cache_key \<times> 'v \<times> gotime) list \<Rightarrow> (cache_key \<times> 'v \<times> gotime) list" where
  "evict_soonest mx ord cache =
     (if int (length cache) < mx then cache
      else (case soonest None (map (\<lambda>k. (k, snd (the (map_of cache k)))) (ord (map fst cache))) of
              None \<Rightarrow> cache
            | Some (k, _) \<Rightarrow> AList.delete k cache))"

definition lookupCache :: "gotime \<Rightarrow> cache_key \<Rightarrow> rule_resolver \<Rightarrow> parser_rule list option" where
  "lookupCache now key r =
     (case map_of (rv_cache r) key of
        None \<Rightarrow> None
      | Some (cands, expires) \<Rightarrow> if expires < now then None else Some cands)"

definition storeCache ::
  "rule_call \<Rightarrow> cache_key \<Rightarrow> parser_rule list \<Rightarrow> duration \<Rightarrow> rule_resolver \<Rightarrow> rule_resolver" where
  "storeCache c key cands ttl r =
     r\<lparr>rv_cache := AList.update key (cands, kc_later c + ttl) (evict_soonest (rv_max r) (kc_order c) (rv_cache r))\<rparr>"

definition candidates_ttl :: "rule_resolver \<Rightarrow> parser_rule list \<Rightarrow> duration" where
  "candidates_ttl r cands = (if cands = [] then rv_neg_ttl r else rv_ttl r)"

text \<open>The candidates a call works on, and the choice among them.\<close>

definition resolve_candidates ::
  "rule_call \<Rightarrow> cache_key \<Rightarrow> rule_resolver \<Rightarrow> (go_error + parser_rule list) \<times> rule_resolver" where
  "resolve_candidates c key r =
     (case lookupCache (kc_now c) key r of
        Some cands \<Rightarrow> (Inr cands, r)
      | None \<Rightarrow>
         (case kc_find c (fst key) (snd key) of
            Inl err \<Rightarrow>
              (Inl (Wrapped (''find active candidates ('' @ fst key @ '', '' @ snd key @ '')'') err), r)
          | Inr fetched \<Rightarrow> (Inr fetched, storeCache c key fetched (candidates_ttl r fetched) r)))"

definition choose_rule ::
  "regex_lib \<Rightarrow> string \<Rightarrow> string \<Rightarrow> string \<Rightarrow> parser_rule list \<Rightarrow> go_error + parser_rule" where
  "choose_rule re host path tt cands =
     (if cands = [] then Inl (mk_rule_error ErrNoRule ''no active rule (cached)'' host [] tt None)
      else (case find (\<lambda>r. pathMatches re (ru_path r) path) cands of
              Some r \<Rightarrow> Inr r
            | None \<Rightarrow> Inl (mk_rule_error ErrNoRule ''no rule matched url path'' host path tt None)))"

definition rule_Resolve ::
  "url_lib \<Rightarrow> regex_lib \<Rightarrow> rule_call \<Rightarrow> string \<Rightarrow> string \<Rightarrow> string \<Rightarrow> rule_resolver
     \<Rightarrow> (go_error + parser_rule) \<times> rule_resolver" where
  "rule_Resolve L re c host0 path tt r =
     (let host = ul_lower L host0
      in case resolve_candidates c (host, tt) r of
           (Inl err, r1) \<Rightarrow> (Inl err, r1)
         | (Inr cands, r1) \<Rightarrow> (choose_rule re host path tt cands, r1))"

definition ResolveByURL ::
  "url_lib \<Rightarrow> regex_lib \<Rightarrow> rule_call \<Rightarrow> string \<Rightarrow> string \<Rightarrow> rule_resolver
     \<Rightarrow> (go_error + parser_rule) \<times> rule_resolver" where
  "ResolveByURL L re c rawURL tt r =
     (case extractHostPath L rawURL of
        Inl err \<Rightarrow> (Inl (mk_rule_error ErrInvalidURL (error_text err) [] rawURL [] None), r)
      | Inr (host, path) \<Rightarrow> rule_Resolve L re c host path tt r)"

definition rule_Invalidate :: "url_lib \<Rightarrow> string \<Rightarrow> string \<Rightarrow> rule_resolver \<Rightarrow> rule_resolver" where
  "rule_Invalidate L host0 tt r =
     (let key = (ul_lower L host0, tt)
      in r\<lparr>rv_cache := AList.delete key (rv_cache r), rv_has := AList.delete key (rv_has r)\<rparr>)"

definition rule_InvalidateAll :: "rule_resolver \<Rightarrow> rule_resolver" where
  "rule_InvalidateAll r = r\<lparr>rv_cache := [], rv_has := []\<rparr>"

definition has_any_query ::
  "rule_call \<Rightarrow> cache_key \<Rightarrow> rule_resolver \<Rightarrow> (go_error + bool \<times> bool) \<times> rule_resolver" where
  "has_any_query c key r =
     (case kc_has c (fst key) (snd key) of
        Inl err \<Rightarrow> (Inl err, r)
      | Inr v \<Rightarrow>
          (Inr v, r\<lparr>rv_has := AList.update key (v, kc_later c + rv_neg_ttl r)
                              (evict_soonest (rv_max r) (kc_order c) (rv_has r))\<rparr>))"

definition HasAnyRule ::
  "url_lib \<Rightarrow> rule_call \<Rightarrow> string \<Rightarrow> string \<Rightarrow> rule_resolver \<Rightarrow> (go_error + bool \<times> bool) \<times> rule_resolver" where
  "HasAnyRule L c host0 tt r =
     (let host = ul_lower L host0; key = (host, tt)
      in case map_of (rv_has r) key of
           Some (v, expires) \<Rightarrow> if kc_now c < expires then (Inr v, r) else has_any_query c key r
         | None \<Rightarrow> has_any_query c key r)"

section \<open>The blacklist table\<close>

text \<open>
  The rows of \<^verbatim>\<open>parser_blacklist\<close> and the statements of the repository on them. A statement that
  fails in the database gives the error \<open>db\<close> of its call; \<open>chars\<close> is the SQL \<^verbatim>\<open>LENGTH\<close>, the
  number of characters.
\<close>

record blacklist_row =
  br_id :: int
  br_host :: string
  br_path :: string
  br_reason :: string
  br_source :: string
  br_mode :: string
  br_enabled :: bool

definition BlacklistSourceManual :: string where "BlacklistSourceManual = ''manual''"
definition BlacklistSourceAuto :: string where "BlacklistSourceAuto = ''auto''"
definition BlacklistModeDrop :: string where "BlacklistModeDrop = ''drop''"
definition BlacklistModeExtractLinksOnly :: string where "BlacklistModeExtractLinksOnly = ''extract_links_only''"

lemmas blacklist_modes = BlacklistModeDrop_def BlacklistModeExtractLinksOnly_def

definition blacklist_Insert ::
  "url_lib \<Rightarrow> regex_lib \<Rightarrow> go_error option \<Rightarrow> int \<Rightarrow> blacklist_row \<Rightarrow> blacklist_row list
     \<Rightarrow> go_error option \<times> blacklist_row list" where
  "blacklist_Insert L re db fresh rec rows =
     (case (if br_path rec = [] then None else (case re (br_path rec) of Inl e \<Rightarrow> Some e | Inr _ \<Rightarrow> None)) of
        Some reErr \<Rightarrow>
          (Some (Annotated [] (Sentinel StorageInvalid)
             ('': path_pattern '' @ go_quote (br_path rec) @ '' is not a valid regex: '' @ error_text reErr)), rows)
      | None \<Rightarrow>
          let r = rec\<lparr>br_host := ul_lower L (br_host rec),
                      br_source := (if br_source rec = [] then BlacklistSourceManual else br_source rec),
                      br_mode := (if br_mode rec = [] then BlacklistModeDrop else br_mode rec), br_id := fresh\<rparr>
          in case db of
               Some err \<Rightarrow> (Some (Wrapped ''insert blacklist'' err), rows)
             | None \<Rightarrow>
                 if list_ex (\<lambda>x. br_host x = br_host r \<and> br_path x = br_path r) rows
                 then (Some (Sentinel StorageDuplicate), rows)
                 else (None, rows @ [r]))"

definition blacklist_Update ::
  "go_error option \<Rightarrow> blacklist_row \<Rightarrow> blacklist_row list \<Rightarrow> go_error option \<times> blacklist_row list" where
  "blacklist_Update db rec rows =
     (let mode = (if br_mode rec = [] then BlacklistModeDrop else br_mode rec)
      in case db of
           Some err \<Rightarrow> (Some (Wrapped ''update blacklist'' err), rows)
         | None \<Rightarrow>
             if list_ex (\<lambda>x. br_id x = br_id rec) rows
             then (None, map (\<lambda>x. if br_id x = br_id rec
                       then x\<lparr>br_reason := br_reason rec, br_source := br_source rec, br_mode := mode,
                              br_enabled := br_enabled rec\<rparr> else x) rows)
             else (Some (Sentinel StorageNotFound), rows))"

definition blacklist_Delete ::
  "go_error option \<Rightarrow> int \<Rightarrow> blacklist_row list \<Rightarrow> go_error option \<times> blacklist_row list" where
  "blacklist_Delete db i rows =
     (case db of
        Some err \<Rightarrow> (Some (Wrapped ''delete blacklist'' err), rows)
      | None \<Rightarrow> (None, filter (\<lambda>x. br_id x \<noteq> i) rows))"

definition blacklist_GetByID :: "go_error option \<Rightarrow> int \<Rightarrow> blacklist_row list \<Rightarrow> go_error + blacklist_row" where
  "blacklist_GetByID db i rows =
     (case db of
        Some err \<Rightarrow> Inl (Wrapped ''get blacklist by id'' err)
      | None \<Rightarrow> (case find (\<lambda>x. br_id x = i) rows of None \<Rightarrow> Inl (Sentinel StorageNotFound) | Some x \<Rightarrow> Inr x))"

definition FindEnabledByHost ::
  "url_lib \<Rightarrow> (string \<Rightarrow> nat) \<Rightarrow> go_error option \<Rightarrow> string \<Rightarrow> blacklist_row list \<Rightarrow> go_error + blacklist_row list" where
  "FindEnabledByHost L chars db host rows =
     (case db of
        Some err \<Rightarrow> Inl (Wrapped ''query blacklist by host'' err)
      | None \<Rightarrow> Inr (sort_key (\<lambda>x. (- int (chars (br_path x)), - br_id x))
                     (filter (\<lambda>x. br_host x = ul_lower L host \<and> br_enabled x) rows)))"

record blacklist_filter =
  bf_host :: string
  bf_source :: string
  bf_only_enabled :: bool
  bf_limit :: int
  bf_offset :: int

definition blacklist_List ::
  "url_lib \<Rightarrow> go_error option \<Rightarrow> blacklist_filter \<Rightarrow> blacklist_row list \<Rightarrow> go_error + blacklist_row list" where
  "blacklist_List L db f rows =
     (let limit = (if bf_limit f \<le> 0 then 50 else bf_limit f); host = ul_lower L (bf_host f)
      in case db of
           Some err \<Rightarrow> Inl (Wrapped ''list blacklist'' err)
         | None \<Rightarrow>
             Inr (take (nat limit) (drop (nat (bf_offset f))
                    (sort_key (\<lambda>x. - br_id x)
                      (filter (\<lambda>x. (host = [] \<or> br_host x = host) \<and> (bf_source f = [] \<or> br_source x = bf_source f)
                                 \<and> (\<not> bf_only_enabled f \<or> br_enabled x)) rows)))))"

section \<open>The blacklist matcher\<close>

definition DefaultBlacklistCacheTTL :: duration where "DefaultBlacklistCacheTTL = 5 * minute"
definition DefaultBlacklistNegativeCacheTTL :: duration where "DefaultBlacklistNegativeCacheTTL = 30 * second"
definition DefaultBlacklistMaxCacheEntries :: int where "DefaultBlacklistMaxCacheEntries = 10000"
definition DefaultBlacklistMaxRegexEntries :: int where "DefaultBlacklistMaxRegexEntries = 10000"

record matcher =
  bm_ttl :: duration
  bm_neg_ttl :: duration
  bm_max :: int
  bm_max_regex :: int
  bm_cache :: "(string \<times> blacklist_row list \<times> gotime) list"
  bm_regex :: "(string \<times> (go_error + (string \<Rightarrow> bool))) list"

definition WithBlacklistCacheTTL :: "duration \<Rightarrow> matcher \<Rightarrow> matcher" where
  "WithBlacklistCacheTTL d m = (if d > 0 then m\<lparr>bm_ttl := d\<rparr> else m)"

definition WithBlacklistNegativeCacheTTL :: "duration \<Rightarrow> matcher \<Rightarrow> matcher" where
  "WithBlacklistNegativeCacheTTL d m = (if d > 0 then m\<lparr>bm_neg_ttl := d\<rparr> else m)"

definition WithBlacklistMaxCacheEntries :: "int \<Rightarrow> matcher \<Rightarrow> matcher" where
  "WithBlacklistMaxCacheEntries n m = (if n > 0 then m\<lparr>bm_max := n\<rparr> else m)"

definition WithBlacklistMaxRegexEntries :: "int \<Rightarrow> matcher \<Rightarrow> matcher" where
  "WithBlacklistMaxRegexEntries n m = (if n > 0 then m\<lparr>bm_max_regex := n\<rparr> else m)"

definition NewBlacklistMatcher :: "(matcher \<Rightarrow> matcher) list \<Rightarrow> matcher" where
  "NewBlacklistMatcher opts =
     fold (\<lambda>opt m. opt m) opts
       \<lparr>bm_ttl = DefaultBlacklistCacheTTL, bm_neg_ttl = DefaultBlacklistNegativeCacheTTL,
        bm_max = DefaultBlacklistMaxCacheEntries, bm_max_regex = DefaultBlacklistMaxRegexEntries,
        bm_cache = [], bm_regex = []\<rparr>"

record blacklist_call =
  bc_now :: gotime
  bc_order :: "string list \<Rightarrow> string list"
  bc_find :: "string \<Rightarrow> go_error + blacklist_row list"

text \<open>A full map loses the entry its iteration meets first.\<close>

definition drop_first ::
  "int \<Rightarrow> (string list \<Rightarrow> string list) \<Rightarrow> (string \<times> 'v) list \<Rightarrow> (string \<times> 'v) list" where
  "drop_first mx ord m =
     (if int (length m) < mx then m
      else (case ord (map fst m) of [] \<Rightarrow> m | k # _ \<Rightarrow> AList.delete k m))"

definition compileRegex ::
  "regex_lib \<Rightarrow> blacklist_call \<Rightarrow> string \<Rightarrow> matcher \<Rightarrow> (go_error + (string \<Rightarrow> bool)) \<times> matcher" where
  "compileRegex re c pat m =
     (case map_of (bm_regex m) pat of
        Some cp \<Rightarrow> (cp, m)
      | None \<Rightarrow>
          (re pat, m\<lparr>bm_regex := AList.update pat (re pat) (drop_first (bm_max_regex m) (bc_order c) (bm_regex m))\<rparr>))"

definition bl_pathMatches ::
  "regex_lib \<Rightarrow> blacklist_call \<Rightarrow> string \<Rightarrow> string \<Rightarrow> matcher \<Rightarrow> bool \<times> matcher" where
  "bl_pathMatches re c pat path m =
     (if pat = [] then (True, m)
      else (case compileRegex re c pat m of
              (Inl _, m1) \<Rightarrow> (False, m1)
            | (Inr f, m1) \<Rightarrow> (f path, m1)))"

definition bl_lookup ::
  "blacklist_call \<Rightarrow> string \<Rightarrow> matcher \<Rightarrow> (go_error + blacklist_row list) \<times> matcher" where
  "bl_lookup c host m =
     (case (case map_of (bm_cache m) host of
              None \<Rightarrow> None
            | Some (rows, expires) \<Rightarrow> if bc_now c < expires then Some rows else None) of
        Some rows \<Rightarrow> (Inr rows, m)
      | None \<Rightarrow>
         (case bc_find c host of
            Inl err \<Rightarrow> (Inl err, m)
          | Inr fetched \<Rightarrow>
              let ttl = (if fetched = [] then bm_neg_ttl m else bm_ttl m)
              in (Inr fetched,
                  m\<lparr>bm_cache := AList.update host (fetched, bc_now c + ttl)
                                  (drop_first (bm_max m) (bc_order c) (bm_cache m))\<rparr>)))"

fun match_rows ::
  "regex_lib \<Rightarrow> blacklist_call \<Rightarrow> string \<Rightarrow> blacklist_row list \<Rightarrow> matcher \<Rightarrow> blacklist_row option \<times> matcher" where
  "match_rows re c path [] m = (None, m)"
| "match_rows re c path (r # rs) m =
     (case bl_pathMatches re c (br_path r) path m of
        (True, m1) \<Rightarrow> (Some r, m1)
      | (False, m1) \<Rightarrow> match_rows re c path rs m1)"

definition matchedRow ::
  "url_lib \<Rightarrow> regex_lib \<Rightarrow> blacklist_call \<Rightarrow> string \<Rightarrow> matcher \<Rightarrow> (go_error + blacklist_row option) \<times> matcher" where
  "matchedRow L re c rawURL m =
     (case extractHostPath L rawURL of
        Inl _ \<Rightarrow> (Inr None, m)
      | Inr (host0, path) \<Rightarrow>
         (case bl_lookup c (ul_lower L host0) m of
            (Inl err, m1) \<Rightarrow> (Inl err, m1)
          | (Inr rows, m1) \<Rightarrow> (let (r, m2) = match_rows re c path rows m1 in (Inr r, m2))))"

definition IsBlocked ::
  "url_lib \<Rightarrow> regex_lib \<Rightarrow> blacklist_call \<Rightarrow> string \<Rightarrow> matcher \<Rightarrow> (go_error + bool) \<times> matcher" where
  "IsBlocked L re c rawURL m =
     (case matchedRow L re c rawURL m of
        (Inl err, m1) \<Rightarrow> (Inl err, m1)
      | (Inr r, m1) \<Rightarrow> (Inr (r \<noteq> None), m1))"

definition MatchedMode ::
  "url_lib \<Rightarrow> regex_lib \<Rightarrow> blacklist_call \<Rightarrow> string \<Rightarrow> matcher \<Rightarrow> (go_error + string) \<times> matcher" where
  "MatchedMode L re c rawURL m =
     (case matchedRow L re c rawURL m of
        (Inl err, m1) \<Rightarrow> (Inl err, m1)
      | (Inr None, m1) \<Rightarrow> (Inr [], m1)
      | (Inr (Some r), m1) \<Rightarrow> (Inr (br_mode r), m1))"

text \<open>The calls of a batch: the \<open>n\<close>-th URL is looked up in the \<open>n\<close>-th call.\<close>

fun bl_Filter ::
  "url_lib \<Rightarrow> regex_lib \<Rightarrow> (nat \<Rightarrow> blacklist_call) \<Rightarrow> nat \<Rightarrow> string list \<Rightarrow> matcher \<Rightarrow> string list \<times> matcher" where
  "bl_Filter L re cs n [] m = ([], m)"
| "bl_Filter L re cs n (u # us) m =
     (case IsBlocked L re (cs n) u m of
        (Inr True, m1) \<Rightarrow> bl_Filter L re cs (Suc n) us m1
      | (_, m1) \<Rightarrow> (let (out, m2) = bl_Filter L re cs (Suc n) us m1 in (u # out, m2)))"

record blacklist_decision =
  bd_allowed :: "string list"
  bd_links_only :: "string list"

fun Classify ::
  "url_lib \<Rightarrow> regex_lib \<Rightarrow> (nat \<Rightarrow> blacklist_call) \<Rightarrow> nat \<Rightarrow> string list \<Rightarrow> matcher \<Rightarrow> blacklist_decision \<times> matcher" where
  "Classify L re cs n [] m = (\<lparr>bd_allowed = [], bd_links_only = []\<rparr>, m)"
| "Classify L re cs n (u # us) m =
     (let (mode, m1) = MatchedMode L re (cs n) u m; (d, m2) = Classify L re cs (Suc n) us m1
      in (case mode of
            Inl _ \<Rightarrow> d\<lparr>bd_allowed := u # bd_allowed d\<rparr>
          | Inr md \<Rightarrow>
              if md = [] then d\<lparr>bd_allowed := u # bd_allowed d\<rparr>
              else if md = BlacklistModeExtractLinksOnly then d\<lparr>bd_links_only := u # bd_links_only d\<rparr>
              else d, m2))"

definition bl_Invalidate :: "url_lib \<Rightarrow> string \<Rightarrow> matcher \<Rightarrow> matcher" where
  "bl_Invalidate L host m = m\<lparr>bm_cache := AList.delete (ul_lower L host) (bm_cache m)\<rparr>"

definition bl_InvalidateAll :: "matcher \<Rightarrow> matcher" where
  "bl_InvalidateAll m = m\<lparr>bm_cache := []\<rparr>"

section \<open>Automatic demotion\<close>

definition pathPatternFromURL :: "url_lib \<Rightarrow> (string \<Rightarrow> string) \<Rightarrow> string \<Rightarrow> (string \<times> string) option" where
  "pathPatternFromURL L quote_meta rawURL =
     (case ul_parse L rawURL of
        Inl _ \<Rightarrow> None
      | Inr u \<Rightarrow>
          if ur_host u = [] then None
          else Some (ul_lower L (ur_host u),
                 ''^'' @ quote_meta (if ur_path u = [] then ''/'' else ur_path u) @ ''$''))"

definition demote ::
  "url_lib \<Rightarrow> regex_lib \<Rightarrow> (string \<Rightarrow> string) \<Rightarrow> go_error option \<Rightarrow> int \<Rightarrow> string \<Rightarrow> blacklist_row list \<Rightarrow> blacklist_row list" where
  "demote L re quote_meta db fresh rawURL rows =
     (case pathPatternFromURL L quote_meta rawURL of
        None \<Rightarrow> rows
      | Some (host, pat) \<Rightarrow>
          snd (blacklist_Insert L re db fresh
            \<lparr>br_id = 0, br_host = host, br_path = pat, br_reason = ''auto: index-only heuristic detected'',
             br_source = BlacklistSourceAuto, br_mode = BlacklistModeExtractLinksOnly, br_enabled = True\<rparr> rows))"

section \<open>Precheck\<close>

record decision =
  dn_verdict :: verdict
  dn_reason :: string
  dn_source :: string

definition modeToDecision :: "string \<Rightarrow> decision" where
  "modeToDecision mode =
     (if mode = BlacklistModeExtractLinksOnly
      then \<lparr>dn_verdict = VerdictExtractLinksOnly, dn_reason = ''blacklist:extract_links_only'', dn_source = ''blacklist''\<rparr>
      else if mode = BlacklistModeDrop
      then \<lparr>dn_verdict = VerdictDrop, dn_reason = ''blacklist:drop'', dn_source = ''blacklist''\<rparr>
      else \<lparr>dn_verdict = VerdictAllow, dn_reason = [], dn_source = ''blacklist''\<rparr>)"

text \<open>
  A source of verdicts with its state \<open>'m\<close>: its name, the check of one URL in its \<open>n\<close>-th call and, when it
  is a \<^verbatim>\<open>BatchSource\<close>, the check of a batch.
\<close>

record 'm source =
  so_name :: string
  so_check :: "nat \<Rightarrow> string \<Rightarrow> 'm \<Rightarrow> decision \<times> 'm"
  so_batch :: "(nat \<Rightarrow> string list \<Rightarrow> 'm \<Rightarrow> decision list \<times> 'm) option"

definition bl_Check ::
  "url_lib \<Rightarrow> regex_lib \<Rightarrow> (nat \<Rightarrow> blacklist_call) \<Rightarrow> nat \<Rightarrow> string \<Rightarrow> matcher \<Rightarrow> decision \<times> matcher" where
  "bl_Check L re cs n rawURL m =
     (case MatchedMode L re (cs n) rawURL m of
        (Inl _, m1) \<Rightarrow> (\<lparr>dn_verdict = VerdictAllow, dn_reason = [], dn_source = ''blacklist''\<rparr>, m1)
      | (Inr mode, m1) \<Rightarrow> (modeToDecision mode, m1))"

fun bl_CheckBatch ::
  "url_lib \<Rightarrow> regex_lib \<Rightarrow> (nat \<Rightarrow> blacklist_call) \<Rightarrow> nat \<Rightarrow> string list \<Rightarrow> matcher \<Rightarrow> decision list \<times> matcher" where
  "bl_CheckBatch L re cs n [] m = ([], m)"
| "bl_CheckBatch L re cs n (u # us) m =
     (let (mode, m1) = MatchedMode L re (cs n) u m; (ds, m2) = bl_CheckBatch L re cs (Suc n) us m1
      in ((case mode of
             Inl _ \<Rightarrow> \<lparr>dn_verdict = VerdictAllow, dn_reason = [], dn_source = ''blacklist''\<rparr>
           | Inr md \<Rightarrow> modeToDecision md) # ds, m2))"

definition NewBlacklistSource :: "url_lib \<Rightarrow> regex_lib \<Rightarrow> (nat \<Rightarrow> blacklist_call) \<Rightarrow> matcher source" where
  "NewBlacklistSource L re cs =
     \<lparr>so_name = ''blacklist'', so_check = bl_Check L re cs, so_batch = Some (bl_CheckBatch L re cs)\<rparr>"

definition named_by :: "'m source \<Rightarrow> decision \<Rightarrow> decision" where
  "named_by s d = (if dn_verdict d \<noteq> VerdictAllow \<and> dn_source d = [] then d\<lparr>dn_source := so_name s\<rparr> else d)"

fun CheckURL :: "'m source list \<Rightarrow> nat \<Rightarrow> string \<Rightarrow> 'm \<Rightarrow> decision \<times> 'm" where
  "CheckURL [] n url m = (\<lparr>dn_verdict = VerdictAllow, dn_reason = [], dn_source = []\<rparr>, m)"
| "CheckURL (s # ss) n url m =
     (let (d, m1) = so_check s n url m
      in if dn_verdict d \<noteq> VerdictAllow then (named_by s d, m1) else CheckURL ss n url m1)"

fun check_each :: "'m source list \<Rightarrow> nat \<Rightarrow> string list \<Rightarrow> 'm \<Rightarrow> decision list \<times> 'm" where
  "check_each ss n [] m = ([], m)"
| "check_each ss n (u # us) m =
     (let (d, m1) = CheckURL ss n u m; (ds, m2) = check_each ss (Suc n) us m1 in (d # ds, m2))"

definition CheckURLs :: "'m source list \<Rightarrow> nat \<Rightarrow> string list \<Rightarrow> 'm \<Rightarrow> decision list \<times> 'm" where
  "CheckURLs ss n urls m =
     (if urls = [] then ([], m)
      else (case ss of
              [s] \<Rightarrow> (case so_batch s of
                        Some batch \<Rightarrow> (let (ds, m1) = batch n urls m in (map (named_by s) ds, m1))
                      | None \<Rightarrow> check_each ss n urls m)
            | _ \<Rightarrow> check_each ss n urls m))"

section \<open>The caches of the resolver\<close>

text \<open>
  A cache is good for a history of observations when each entry is an observation that expires its time to
  live after it was made, no key occurs twice and the cache is within its limit.
\<close>

definition cached_ok ::
  "(cache_key \<Rightarrow> (gotime \<times> 'v) set) \<Rightarrow> ('v \<Rightarrow> duration) \<Rightarrow> int \<Rightarrow> (cache_key \<times> 'v \<times> gotime) list \<Rightarrow> bool" where
  "cached_ok h ttl mx cache \<longleftrightarrow>
     (\<forall>k v e. map_of cache k = Some (v, e) \<longrightarrow> (\<exists>t. (t, v) \<in> h k \<and> e = t + ttl v))
     \<and> distinct (map fst cache) \<and> int (length cache) \<le> mx"

lemma soonest_in:
  "soonest best xs = Some (k, t) \<Longrightarrow> best = Some (k, t) \<or> (k, t) \<in> set xs"
  by (induction best xs rule: soonest.induct) (auto split: option.splits if_splits)

lemma soonest_none: "soonest best xs = None \<longleftrightarrow> best = None \<and> xs = []"
  by (induction best xs rule: soonest.induct) (auto split: option.splits)

lemma delete_length:
  assumes "distinct (map fst al)" and "k \<in> set (map fst al)"
  shows "length (AList.delete k al) < length al"
proof -
  have "length (AList.delete k al) = length (removeAll k (map fst al))"
    by (metis AList.delete_keys length_map)
  also have "\<dots> = length (remove1 k (map fst al))" using assms(1) by (simp add: distinct_remove1_removeAll)
  also have "\<dots> < length (map fst al)"
    using assms(2) length_pos_if_in_set [OF assms(2)] by (simp add: length_remove1)
  finally show ?thesis by simp
qed

lemma delete_map_of: "map_of (AList.delete k al) x = (if x = k then None else map_of al x)"
  by (simp add: delete_conv')

lemma evict_soonest_le: "map_of (evict_soonest mx ord cache) \<subseteq>\<^sub>m map_of cache"
  by (auto simp: evict_soonest_def map_le_def delete_map_of split: option.splits)

lemma evict_soonest_distinct: "distinct (map fst cache) \<Longrightarrow> distinct (map fst (evict_soonest mx ord cache))"
  by (auto simp: evict_soonest_def distinct_delete split: option.splits)

lemma evict_soonest_room:
  assumes "set (ord (map fst cache)) = set (map fst cache)" and "distinct (map fst cache)"
    and "int (length cache) \<le> mx" and "0 < mx"
  shows "int (length (evict_soonest mx ord cache)) < mx"
proof (cases "int (length cache) < mx")
  case True
  then show ?thesis by (simp add: evict_soonest_def)
next
  case False
  then have "map fst cache \<noteq> []" using assms(3,4) by auto
  then have "ord (map fst cache) \<noteq> []" using assms(1) by (metis set_empty)
  define so where "so = soonest None (map (\<lambda>k. (k, snd (the (map_of cache k)))) (ord (map fst cache)))"
  have "so \<noteq> None" using \<open>ord (map fst cache) \<noteq> []\<close> by (simp add: so_def soonest_none)
  then obtain k t where k: "so = Some (k, t)" by (cases so) auto
  then have "soonest None (map (\<lambda>k. (k, snd (the (map_of cache k)))) (ord (map fst cache))) = Some (k, t)"
    by (simp add: so_def)
  from soonest_in [OF this] have "k \<in> set (map fst cache)" using assms(1) by auto
  from delete_length [OF assms(2) this] show ?thesis
    using False k assms(3) unfolding so_def by (simp add: evict_soonest_def)
qed

lemma update_length: "length (AList.update k v al) \<le> Suc (length al)"
  by (metis AList.update_keys le_SucI length_append_singleton length_map order_refl)

lemma cached_store:
  assumes "cached_ok h ttl mx cache" and "0 < mx" and "set (ord (map fst cache)) = set (map fst cache)"
  shows "cached_ok (h(key := insert (t, v) (h key))) ttl mx
    (AList.update key (v, t + ttl v) (evict_soonest mx ord cache))"
proof -
  have d: "distinct (map fst cache)" and l: "int (length cache) \<le> mx"
    and e: "\<And>k v e. map_of cache k = Some (v, e) \<Longrightarrow> \<exists>t. (t, v) \<in> h k \<and> e = t + ttl v"
    using assms(1) by (auto simp: cached_ok_def)
  have sub: "map_of (evict_soonest mx ord cache) k = Some x \<Longrightarrow> map_of cache k = Some x" for k x
  proof -
    assume k: "map_of (evict_soonest mx ord cache) k = Some x"
    then have "k \<in> dom (map_of (evict_soonest mx ord cache))" by (rule domI)
    then have "map_of (evict_soonest mx ord cache) k = map_of cache k"
      using evict_soonest_le [of mx ord cache] unfolding map_le_def by (rule bspec [rotated])
    then show "map_of cache k = Some x" using k by simp
  qed
  have "int (length (AList.update key (v, t + ttl v) (evict_soonest mx ord cache))) \<le> mx"
    using evict_soonest_room [of ord cache mx, OF assms(3) d l assms(2)]
      update_length [of key "(v, t + ttl v)" "evict_soonest mx ord cache"] by linarith
  moreover have "distinct (map fst (AList.update key (v, t + ttl v) (evict_soonest mx ord cache)))"
    using evict_soonest_distinct [OF d] by (rule distinct_update)
  ultimately show ?thesis
    unfolding cached_ok_def using e sub by (fastforce simp: update_conv')
qed

lemma cached_delete:
  assumes "cached_ok h ttl mx cache"
  shows "cached_ok (h(key := {})) ttl mx (AList.delete key cache)"
proof -
  have "length (AList.delete key cache) \<le> length cache" by (rule length_delete_le)
  then show ?thesis using assms by (auto simp: cached_ok_def delete_map_of distinct_delete)
qed

lemma cached_more: "cached_ok h ttl mx cache \<Longrightarrow> cached_ok (h(key := insert x (h key))) ttl mx cache"
  unfolding cached_ok_def by (metis fun_upd_apply insertCI)

text \<open>Sequences of operations, and what was observed of a key since its last invalidation.\<close>

datatype rule_op =
    OpResolve rule_call string string string
  | OpHasAny rule_call string string
  | OpInvalidate string string
  | OpInvalidateAll

fun rule_step :: "url_lib \<Rightarrow> regex_lib \<Rightarrow> rule_op \<Rightarrow> rule_resolver \<Rightarrow> rule_resolver" where
  "rule_step L re (OpResolve c host path tt) r = snd (rule_Resolve L re c host path tt r)"
| "rule_step L re (OpHasAny c host tt) r = snd (HasAnyRule L c host tt r)"
| "rule_step L re (OpInvalidate host tt) r = rule_Invalidate L host tt r"
| "rule_step L re OpInvalidateAll r = rule_InvalidateAll r"

fun op_ok :: "rule_op \<Rightarrow> bool" where
  "op_ok (OpResolve c _ _ _) = (\<forall>ks. set (kc_order c ks) = set ks)"
| "op_ok (OpHasAny c _ _) = (\<forall>ks. set (kc_order c ks) = set ks)"
| "op_ok _ = True"

fun observe_candidates ::
  "url_lib \<Rightarrow> rule_op \<Rightarrow> (cache_key \<Rightarrow> (gotime \<times> parser_rule list) set) \<Rightarrow> cache_key \<Rightarrow> (gotime \<times> parser_rule list) set" where
  "observe_candidates L (OpResolve c host path tt) h =
     (let key = (ul_lower L host, tt)
      in case kc_find c (fst key) tt of Inr v \<Rightarrow> h(key := insert (kc_later c, v) (h key)) | Inl _ \<Rightarrow> h)"
| "observe_candidates L (OpInvalidate host tt) h = h((ul_lower L host, tt) := {})"
| "observe_candidates L OpInvalidateAll h = (\<lambda>_. {})"
| "observe_candidates L (OpHasAny c host tt) h = h"

fun observe_has ::
  "url_lib \<Rightarrow> rule_op \<Rightarrow> (cache_key \<Rightarrow> (gotime \<times> bool \<times> bool) set) \<Rightarrow> cache_key \<Rightarrow> (gotime \<times> bool \<times> bool) set" where
  "observe_has L (OpHasAny c host tt) h =
     (let key = (ul_lower L host, tt)
      in case kc_has c (fst key) tt of Inr v \<Rightarrow> h(key := insert (kc_later c, v) (h key)) | Inl _ \<Rightarrow> h)"
| "observe_has L (OpInvalidate host tt) h = h((ul_lower L host, tt) := {})"
| "observe_has L OpInvalidateAll h = (\<lambda>_. {})"
| "observe_has L (OpResolve c host path tt) h = h"

definition resolver_ok ::
  "(cache_key \<Rightarrow> (gotime \<times> parser_rule list) set) \<Rightarrow> (cache_key \<Rightarrow> (gotime \<times> bool \<times> bool) set) \<Rightarrow> rule_resolver \<Rightarrow> bool" where
  "resolver_ok hc hh r \<longleftrightarrow> 0 < rv_max r
     \<and> cached_ok hc (candidates_ttl r) (rv_max r) (rv_cache r)
     \<and> cached_ok hh (\<lambda>_. rv_neg_ttl r) (rv_max r) (rv_has r)"

lemma candidates_ttl_upd [simp]:
  "candidates_ttl (r\<lparr>rv_cache := x\<rparr>) = candidates_ttl r" "candidates_ttl (r\<lparr>rv_has := y\<rparr>) = candidates_ttl r"
  by (simp_all add: candidates_ttl_def fun_eq_iff)

definition same_settings :: "rule_resolver \<Rightarrow> rule_resolver \<Rightarrow> bool" where
  "same_settings r r' \<longleftrightarrow> rv_ttl r' = rv_ttl r \<and> rv_neg_ttl r' = rv_neg_ttl r \<and> rv_max r' = rv_max r"

lemma snd_rule_Resolve:
  "snd (rule_Resolve L re c host path tt r) = snd (resolve_candidates c (ul_lower L host, tt) r)"
  by (auto simp: rule_Resolve_def Let_def split: prod.split sum.split)

lemma resolve_candidates_ok:
  assumes "resolver_ok hc hh r" and "\<forall>ks. set (kc_order c ks) = set ks"
  shows "resolver_ok (observe_candidates L (OpResolve c host path tt) hc) hh
           (snd (resolve_candidates c (ul_lower L host, tt) r))
    \<and> same_settings r (snd (resolve_candidates c (ul_lower L host, tt) r))"
proof -
  let ?key = "(ul_lower L host, tt)"
  show ?thesis
  proof (cases "lookupCache (kc_now c) ?key r")
    case (Some cands)
    then show ?thesis
      using assms(1) by (auto simp: resolve_candidates_def resolver_ok_def same_settings_def Let_def cached_more split: sum.split)
  next
    case None
    show ?thesis
    proof (cases "kc_find c (ul_lower L host) tt")
      case (Inl e)
      then show ?thesis using None assms(1) by (simp add: resolve_candidates_def same_settings_def)
    next
      case (Inr v)
      then show ?thesis
        using None assms cached_store [of hc "candidates_ttl r" "rv_max r" "rv_cache r" "kc_order c" ?key "kc_later c" v]
        by (simp add: resolve_candidates_def storeCache_def resolver_ok_def same_settings_def Let_def)
    qed
  qed
qed

lemma has_any_ok:
  assumes "resolver_ok hc hh r" and "\<forall>ks. set (kc_order c ks) = set ks"
  shows "resolver_ok hc (observe_has L (OpHasAny c host tt) hh) (snd (HasAnyRule L c host tt r))
    \<and> same_settings r (snd (HasAnyRule L c host tt r))"
proof -
  let ?key = "(ul_lower L host, tt)"
  have q: "resolver_ok hc (observe_has L (OpHasAny c host tt) hh) (snd (has_any_query c ?key r))
      \<and> same_settings r (snd (has_any_query c ?key r))"
  proof (cases "kc_has c (ul_lower L host) tt")
    case (Inl e)
    then show ?thesis using assms(1) by (simp add: has_any_query_def same_settings_def)
  next
    case (Inr v)
    then show ?thesis
      using assms cached_store [of hh "\<lambda>_. rv_neg_ttl r" "rv_max r" "rv_has r" "kc_order c" ?key "kc_later c" v]
      by (simp add: has_any_query_def resolver_ok_def same_settings_def Let_def)
  qed
  have same: "resolver_ok hc (observe_has L (OpHasAny c host tt) hh) r \<and> same_settings r r"
    using assms(1) by (auto simp: resolver_ok_def same_settings_def Let_def cached_more split: sum.split)
  show ?thesis
    using q same by (auto simp: HasAnyRule_def Let_def split: option.split prod.split)
qed

lemma rule_step_ok:
  assumes "resolver_ok hc hh r" and "op_ok op"
  shows "resolver_ok (observe_candidates L op hc) (observe_has L op hh) (rule_step L re op r)
    \<and> same_settings r (rule_step L re op r)"
proof (cases op)
  case (OpResolve c host path tt)
  then show ?thesis
    using resolve_candidates_ok [OF assms(1), of c L host path tt] assms(2) by (simp add: snd_rule_Resolve)
next
  case (OpHasAny c host tt)
  then show ?thesis using has_any_ok [OF assms(1), of c L host tt] assms(2) by simp
next
  case (OpInvalidate host tt)
  then show ?thesis
    using assms(1) by (simp add: rule_Invalidate_def resolver_ok_def same_settings_def cached_delete Let_def)
next
  case OpInvalidateAll
  then show ?thesis
    using assms(1) by (simp add: rule_InvalidateAll_def resolver_ok_def same_settings_def cached_ok_def)
qed

lemma rule_run_ok:
  assumes "resolver_ok hc hh r" and "\<forall>op \<in> set ops. op_ok op"
  shows "resolver_ok (fold (observe_candidates L) ops hc) (fold (observe_has L) ops hh) (fold (rule_step L re) ops r)
    \<and> same_settings r (fold (rule_step L re) ops r)"
  using assms
proof (induction ops arbitrary: hc hh r)
  case (Cons op ops)
  have s: "resolver_ok (observe_candidates L op hc) (observe_has L op hh) (rule_step L re op r)"
    "same_settings r (rule_step L re op r)"
    using rule_step_ok [OF Cons.prems(1)] Cons.prems(2) by simp_all
  from Cons.IH [OF s(1)] Cons.prems(2) s(2) show ?case by (simp add: same_settings_def)
qed (simp add: same_settings_def)

lemma fresh_resolver_ok:
  "0 < rv_max r \<Longrightarrow> rv_cache r = [] \<Longrightarrow> rv_has r = [] \<Longrightarrow> resolver_ok (\<lambda>_. {}) (\<lambda>_. {}) r"
  by (simp add: resolver_ok_def cached_ok_def)

section \<open>The matcher without its caches\<close>

definition regex_memo_ok :: "regex_lib \<Rightarrow> matcher \<Rightarrow> bool" where
  "regex_memo_ok re m \<longleftrightarrow> (\<forall>p cp. map_of (bm_regex m) p = Some cp \<longrightarrow> cp = re p)"

lemma drop_first_map_of: "map_of (drop_first mx ord m) k = Some v \<Longrightarrow> map_of m k = Some v"
  by (auto simp: drop_first_def delete_map_of split: if_splits list.splits)

lemma compileRegex_memo:
  assumes "regex_memo_ok re m"
  shows "fst (compileRegex re c pat m) = re pat \<and> regex_memo_ok re (snd (compileRegex re c pat m))
    \<and> bm_cache (snd (compileRegex re c pat m)) = bm_cache m"
  using assms drop_first_map_of [where m = "bm_regex m"]
  by (auto simp: compileRegex_def regex_memo_ok_def update_conv' split: option.split)

lemma match_rows_memo:
  assumes "regex_memo_ok re m"
  shows "fst (match_rows re c path rows m) = find (\<lambda>r. pathMatches re (br_path r) path) rows
    \<and> regex_memo_ok re (snd (match_rows re c path rows m))
    \<and> bm_cache (snd (match_rows re c path rows m)) = bm_cache m"
  using assms
proof (induction rows arbitrary: m)
  case (Cons r rs)
  obtain cp m1 where c: "compileRegex re c (br_path r) m = (cp, m1)" by (rule prod.exhaust)
  have m1: "cp = re (br_path r)" "regex_memo_ok re m1" "bm_cache m1 = bm_cache m"
    using compileRegex_memo [OF Cons.prems, of c "br_path r"] c by auto
  show ?case
    using Cons.IH [OF Cons.prems] Cons.IH [OF m1(2)] m1 c Cons.prems
    by (cases "re (br_path r)") (auto simp: bl_pathMatches_def pathMatches_def split: prod.splits)
qed simp

definition known_modes :: "string set" where
  "known_modes = {[], BlacklistModeDrop, BlacklistModeExtractLinksOnly}"

definition modes_ok :: "(nat \<Rightarrow> blacklist_call) \<Rightarrow> matcher \<Rightarrow> bool" where
  "modes_ok cs m \<longleftrightarrow>
     (\<forall>n h rows. bc_find (cs n) h = Inr rows \<longrightarrow> br_mode ` set rows \<subseteq> known_modes)
     \<and> (\<forall>h rows e. map_of (bm_cache m) h = Some (rows, e) \<longrightarrow> br_mode ` set rows \<subseteq> known_modes)"

lemma match_rows_cache: "bm_cache (snd (match_rows re c path rows m)) = bm_cache m"
proof (induction rows arbitrary: m)
  case (Cons r rs)
  have "bm_cache (snd (bl_pathMatches re c (br_path r) path m)) = bm_cache m"
    by (auto simp: bl_pathMatches_def compileRegex_def split: sum.split option.split prod.split)
  then show ?case using Cons by (auto split: prod.split bool.split)
qed simp

lemma match_rows_in: "fst (match_rows re c path rows m) = Some r \<Longrightarrow> r \<in> set rows"
  by (induction rows arbitrary: m) (auto split: prod.splits bool.splits)

lemma bl_lookup_cases:
  assumes "bl_lookup c host m = (lr, m1)"
  obtains (cached) rows e where "map_of (bm_cache m) host = Some (rows, e)" "lr = Inr rows" "m1 = m"
  | (failed) err where "bc_find c host = Inl err" "lr = Inl err" "m1 = m"
  | (fetched) rows e where "bc_find c host = Inr rows" "lr = Inr rows"
      "m1 = m\<lparr>bm_cache := AList.update host (rows, e) (drop_first (bm_max m) (bc_order c) (bm_cache m))\<rparr>"
proof (cases "\<exists>rows e. map_of (bm_cache m) host = Some (rows, e) \<and> bc_now c < e")
  case True
  then obtain rows e where e: "map_of (bm_cache m) host = Some (rows, e)" "bc_now c < e" by blast
  then show ?thesis using assms cached [OF e(1)] by (simp add: bl_lookup_def)
next
  case False
  then have miss: "(case map_of (bm_cache m) host of None \<Rightarrow> None
      | Some (rows, expires) \<Rightarrow> if bc_now c < expires then Some rows else None) = None"
    by (simp split: option.split)
  show ?thesis
  proof (cases "bc_find c host")
    case (Inl err)
    then show ?thesis using assms miss failed [OF Inl] by (simp add: bl_lookup_def)
  next
    case (Inr rows)
    then show ?thesis using assms miss fetched [OF Inr] by (fastforce simp: bl_lookup_def Let_def)
  qed
qed

lemma bl_lookup_known:
  assumes "modes_ok cs m" and "bl_lookup (cs n) host m = (lr, m1)"
  shows "modes_ok cs m1 \<and> (\<forall>rows. lr = Inr rows \<longrightarrow> br_mode ` set rows \<subseteq> known_modes)"
  using assms(2)
proof (cases rule: bl_lookup_cases)
  case (cached rows e)
  then show ?thesis using assms(1) unfolding modes_ok_def by blast
next
  case (failed err)
  then show ?thesis using assms(1) by simp
next
  case (fetched rows e)
  have rows: "br_mode ` set rows \<subseteq> known_modes" using assms(1) fetched(1) unfolding modes_ok_def by blast
  have "br_mode ` set rs \<subseteq> known_modes" if "map_of (bm_cache m1) h = Some (rs, t)" for h rs t
  proof (cases "h = host")
    case True
    then show ?thesis using that rows fetched(3) by (simp add: update_conv')
  next
    case False
    then have "map_of (drop_first (bm_max m) (bc_order (cs n)) (bm_cache m)) h = Some (rs, t)"
      using that fetched(3) by (simp add: update_conv')
    from drop_first_map_of [OF this] show ?thesis using assms(1) unfolding modes_ok_def by blast
  qed
  then show ?thesis using assms(1) rows fetched(2) unfolding modes_ok_def by blast
qed

lemma MatchedMode_known:
  assumes "modes_ok cs m" and "MatchedMode L re (cs n) u m = (v, m')"
  shows "modes_ok cs m' \<and> (\<forall>md. v = Inr md \<longrightarrow> md \<in> known_modes)"
proof (cases "extractHostPath L u")
  case (Inl e)
  then show ?thesis using assms by (auto simp: MatchedMode_def matchedRow_def known_modes_def)
next
  case (Inr hp)
  obtain host path where hp: "hp = (host, path)" by (rule prod.exhaust)
  obtain lr m1 where l: "bl_lookup (cs n) (ul_lower L host) m = (lr, m1)" by (rule prod.exhaust)
  have ok1: "modes_ok cs m1" and rows: "\<forall>rows. lr = Inr rows \<longrightarrow> br_mode ` set rows \<subseteq> known_modes"
    using bl_lookup_known [OF assms(1) l] by blast+
  show ?thesis
  proof (cases lr)
    case (Inl e)
    then show ?thesis using assms(2) Inr hp l ok1 by (auto simp: MatchedMode_def matchedRow_def)
  next
    case lr: (Inr rs)
    obtain r m2 where m: "match_rows re (cs n) path rs m1 = (r, m2)" by (rule prod.exhaust)
    have "modes_ok cs m2"
      using ok1 match_rows_cache [of re "cs n" path rs m1] m by (simp add: modes_ok_def)
    moreover have "\<forall>x. r = Some x \<longrightarrow> br_mode x \<in> known_modes"
      using match_rows_in [of re "cs n" path rs m1] m rows lr by auto
    ultimately show ?thesis
      using assms(2) Inr hp l lr m by (auto simp: MatchedMode_def matchedRow_def known_modes_def split: option.splits)
  qed
qed

section \<open>Sources of verdicts\<close>

text \<open>
  The contract between \<^verbatim>\<open>Source\<close> and \<^verbatim>\<open>BatchSource\<close>: a batch is the checks of its URLs one after the other.
\<close>

locale batch_source =
  fixes check :: "nat \<Rightarrow> string \<Rightarrow> 'm \<Rightarrow> decision \<times> 'm"
    and batch :: "nat \<Rightarrow> string list \<Rightarrow> 'm \<Rightarrow> decision list \<times> 'm"
  assumes batch_nil: "batch n [] m = ([], m)"
    and batch_cons: "batch n (u # us) m =
      (let (d, m1) = check n u m; (ds, m2) = batch (Suc n) us m1 in (d # ds, m2))"
begin

definition this_source :: "string \<Rightarrow> 'm source" where
  "this_source name = \<lparr>so_name = name, so_check = check, so_batch = Some batch\<rparr>"

lemma batch_agrees:
  "(let (ds, m1) = batch n us m; (es, m2) = check_each [this_source name] n us m
    in m1 = m2 \<and> map dn_verdict ds = map dn_verdict es)"
proof (induction us arbitrary: n m)
  case (Cons u us)
  obtain d m1 where c: "check n u m = (d, m1)" by (rule prod.exhaust)
  show ?case
    using Cons.IH [of "Suc n" m1] c
    by (auto simp: batch_cons this_source_def named_by_def Let_def split: prod.splits)
qed (simp add: batch_nil)

lemma CheckURLs_agrees:
  "(let (ds, m1) = CheckURLs [this_source name] n us m; (es, m2) = check_each [this_source name] n us m
    in m1 = m2 \<and> map dn_verdict ds = map dn_verdict es)"
proof (cases "us = []")
  case False
  have v: "map dn_verdict (map (named_by s) ds) = map dn_verdict ds" for s :: "'m source" and ds
    by (simp add: named_by_def)
  show ?thesis
    using batch_agrees [of n us m name] False
    by (auto simp: CheckURLs_def this_source_def v Let_def split: prod.splits simp del: map_map)
qed (simp add: CheckURLs_def)

end

interpretation bl: batch_source "bl_Check L re cs" "bl_CheckBatch L re cs" for L re cs
  by unfold_locales (auto simp: bl_Check_def split: prod.split sum.split)

lemma bl_this_source: "bl.this_source L re cs ''blacklist'' = NewBlacklistSource L re cs"
  by (simp add: bl.this_source_def NewBlacklistSource_def)

text \<open>How a verdict sorts a URL.\<close>

definition with_verdict :: "verdict \<Rightarrow> string list \<Rightarrow> decision list \<Rightarrow> string list" where
  "with_verdict v urls ds = map fst (filter (\<lambda>(u, d). dn_verdict d = v) (zip urls ds))"

lemma Classify_batch:
  assumes "modes_ok cs m"
  shows "let (d, m1) = Classify L re cs n us m; (ds, m2) = bl_CheckBatch L re cs n us m
    in m1 = m2 \<and> length ds = length us \<and> bd_allowed d = with_verdict VerdictAllow us ds
     \<and> bd_links_only d = with_verdict VerdictExtractLinksOnly us ds"
  using assms
proof (induction us arbitrary: n m)
  case (Cons u us)
  obtain v m1 where c: "MatchedMode L re (cs n) u m = (v, m1)" by (rule prod.exhaust)
  note k = MatchedMode_known [OF Cons.prems c]
  obtain d m2 where d: "Classify L re cs (Suc n) us m1 = (d, m2)" by (rule prod.exhaust)
  obtain ds m3 where ds: "bl_CheckBatch L re cs (Suc n) us m1 = (ds, m3)" by (rule prod.exhaust)
  have ih: "m2 = m3" "length ds = length us" "bd_allowed d = with_verdict VerdictAllow us ds"
    "bd_links_only d = with_verdict VerdictExtractLinksOnly us ds"
    using Cons.IH [of m1 "Suc n"] k d ds by simp_all
  show ?case
    using ih k by (cases v) (auto simp: c d ds with_verdict_def modeToDecision_def known_modes_def blacklist_modes)
qed (simp add: with_verdict_def)

section \<open>Demoted pages\<close>

definition quote_ok :: "regex_lib \<Rightarrow> (string \<Rightarrow> string) \<Rightarrow> bool" where
  "quote_ok re quote_meta \<longleftrightarrow>
     (\<forall>p. \<exists>f. re (''^'' @ quote_meta p @ ''$'') = Inr f \<and> (\<forall>x. f x \<longleftrightarrow> x = p))"

lemma find_some: "find P xs \<noteq> None \<longleftrightarrow> (\<exists>x \<in> set xs. P x)"
  using find_None_iff [of P xs] by auto

lemma IsBlocked_fresh:
  assumes "extractHostPath L url = Inr (host, path)" and "ul_lower L host = host"
    and "bc_find c host = Inr rows" and "bm_cache m = []" and "bm_regex m = []"
  shows "fst (IsBlocked L re c url m) = Inr (\<exists>r \<in> set rows. pathMatches re (br_path r) path)"
proof -
  define m1 where "m1 = snd (bl_lookup c host m)"
  have l: "bl_lookup c host m = (Inr rows, m1)" and r: "bm_regex m1 = []"
    using assms(3-5) by (simp_all add: bl_lookup_def m1_def Let_def)
  have memo: "regex_memo_ok re m1" using r by (simp add: regex_memo_ok_def)
  obtain x m2 where x: "match_rows re c path rows m1 = (x, m2)" by (rule prod.exhaust)
  then have f: "x = find (\<lambda>r. pathMatches re (br_path r) path) rows"
    using match_rows_memo [OF memo, of c path rows] by simp
  have "fst (IsBlocked L re c url m) = Inr (x \<noteq> None)"
    using assms(1,2) l x by (simp add: IsBlocked_def matchedRow_def)
  then show ?thesis unfolding f find_some .
qed

lemma demote_result:
  assumes "pathPatternFromURL L q url = Some (host, pat)" and "ul_lower L host = host"
  obtains (same) "demote L re q db fresh url rows = rows"
  | (new) r where "demote L re q db fresh url rows = rows @ [r]" "br_host r = host" "br_path r = pat" "br_enabled r"
proof -
  define rec where "rec = \<lparr>br_id = 0, br_host = host, br_path = pat, br_reason = ''auto: index-only heuristic detected'',
     br_source = BlacklistSourceAuto, br_mode = BlacklistModeExtractLinksOnly, br_enabled = True\<rparr>"
  have run: "demote L re q db fresh url rows = snd (blacklist_Insert L re db fresh rec rows)"
    using assms(1) by (simp add: demote_def rec_def)
  have "snd (blacklist_Insert L re db fresh rec rows) = rows
      \<or> snd (blacklist_Insert L re db fresh rec rows) = rows @ [rec\<lparr>br_host := host, br_id := fresh\<rparr>]"
    using assms(2)
    by (auto simp: blacklist_Insert_def rec_def BlacklistSourceAuto_def BlacklistModeExtractLinksOnly_def Let_def
        split: option.split)
  then show thesis using same new [of "rec\<lparr>br_host := host, br_id := fresh\<rparr>"] by (auto simp: run rec_def)
qed

lemma demote_rows:
  assumes "pathPatternFromURL L q url = Some (host, pat)" and "ul_lower L host = host"
  shows "set rows \<subseteq> set (demote L re q db fresh url rows)"
    and "h \<noteq> host \<Longrightarrow> filter (\<lambda>x. br_host x = h \<and> br_enabled x) (demote L re q db fresh url rows)
      = filter (\<lambda>x. br_host x = h \<and> br_enabled x) rows"
  using assms by (cases rule: demote_result [where re = re and db = db and fresh = fresh and rows = rows]; auto)+

lemma demote_inserts:
  assumes "pathPatternFromURL L q url = Some (host, pat)" and "ul_lower L host = host"
    and "re pat = Inr f" and "\<not> list_ex (\<lambda>x. br_host x = host \<and> br_path x = pat) rows"
  shows "\<exists>r \<in> set (demote L re q None fresh url rows). br_host r = host \<and> br_path r = pat \<and> br_enabled r"
  using assms by (auto simp: demote_def blacklist_Insert_def)

section \<open>Properties\<close>

text \<open>C18. The rule a URL is parsed with is one the table recently had. After any sequence of resolutions,
  existence queries and invalidations, with any clocks and any map iteration order, Resolve answers an error of
  the repository or the first matching rule of candidates that the repository holds now, or that it
  gave for this host and type since their last invalidation, no longer ago than their time to live
  (the short one when there were none). The cache never exceeds its limit.\<close>
theorem resolver_bounded_staleness:
  assumes "0 < rv_max r0" and "rv_cache r0 = []" and "rv_has r0 = []" and "\<forall>op \<in> set ops. op_ok op"
    and "\<forall>ks. set (kc_order c ks) = set ks"
    and "r = fold (rule_step L re) ops r0" and "h = ul_lower L host"
    and "rule_Resolve L re c host path tt r = (res, r')"
  shows "((\<exists>err. kc_find c h tt = Inl err
              \<and> res = Inl (Wrapped (''find active candidates ('' @ h @ '', '' @ tt @ '')'') err))
          \<or> (\<exists>cands. res = choose_rule re h path tt cands
              \<and> (kc_find c h tt = Inr cands
                 \<or> (\<exists>t. (t, cands) \<in> fold (observe_candidates L) ops (\<lambda>_. {}) (h, tt)
                      \<and> kc_now c \<le> t + candidates_ttl r0 cands))))
    \<and> int (length (rv_cache r')) \<le> rv_max r0"
proof -
  note ok = rule_run_ok [OF fresh_resolver_ok [OF assms(1-3)] assms(4), of L re, folded assms(6)]
  have ttl: "candidates_ttl r cands = candidates_ttl r0 cands" for cands
    using ok by (simp add: same_settings_def candidates_ttl_def)
  note ok' = resolve_candidates_ok [OF conjunct1 [OF ok] assms(5), of L host path tt]
  have "int (length (rv_cache r')) \<le> rv_max r0"
    using ok' ok assms(8) snd_rule_Resolve [of L re c host path tt r]
    by (simp add: resolver_ok_def same_settings_def cached_ok_def)
  moreover have "(\<exists>err. kc_find c h tt = Inl err
              \<and> res = Inl (Wrapped (''find active candidates ('' @ h @ '', '' @ tt @ '')'') err))
          \<or> (\<exists>cands. res = choose_rule re h path tt cands
              \<and> (kc_find c h tt = Inr cands
                 \<or> (\<exists>t. (t, cands) \<in> fold (observe_candidates L) ops (\<lambda>_. {}) (h, tt)
                      \<and> kc_now c \<le> t + candidates_ttl r0 cands)))"
  proof (cases "lookupCache (kc_now c) (h, tt) r")
    case None
    then show ?thesis
      using assms(8) by (cases "kc_find c h tt") (auto simp: rule_Resolve_def resolve_candidates_def assms(7) Let_def)
  next
    case (Some cands)
    then obtain e where e: "map_of (rv_cache r) (h, tt) = Some (cands, e)" "kc_now c \<le> e"
      by (auto simp: lookupCache_def split: option.splits if_splits)
    then obtain t where "(t, cands) \<in> fold (observe_candidates L) ops (\<lambda>_. {}) (h, tt)"
      "e = t + candidates_ttl r cands"
      using ok unfolding resolver_ok_def cached_ok_def by blast
    moreover have "res = choose_rule re h path tt cands"
      using assms(8) Some by (simp add: rule_Resolve_def resolve_candidates_def assms(7) [symmetric])
    ultimately show ?thesis using e(2) ttl by auto
  qed
  ultimately show ?thesis by blast
qed

theorem resolver_bounded_staleness_witness:
  "let r0 = NewResolver [WithMaxCacheEntries 1];
       rule = \<lparr>ru_id = 1, ru_source = ''s'', ru_host = ''h'', ru_path = [], ru_type = TargetTypePage, ru_version = 1,
               ru_enabled = True, ru_selectors = \<lparr>sm_title = None, sm_main = None, sm_summary = None, sm_author = None,
                 sm_published = None, sm_category = None, sm_tags = None, sm_images = None, sm_item_container = None,
                 sm_item_link = None, sm_item_title = None, sm_item_snippet = None, sm_discovery = None\<rparr>, ru_article = True\<rparr>;
       c1 = \<lparr>kc_now = 0, kc_later = 0, kc_order = id, kc_find = \<lambda>_ _. Inr [rule], kc_has = \<lambda>_ _. Inr (True, True)\<rparr>;
       c2 = c1\<lparr>kc_now := minute, kc_find := \<lambda>_ _. Inr []\<rparr>;
       r = fold (rule_step text_lib (\<lambda>_. Inl (Opaque []))) [OpResolve c1 ''h'' ''/'' TargetTypePage] r0;
       (res, r') = rule_Resolve text_lib (\<lambda>_. Inl (Opaque [])) c2 ''h'' ''/'' TargetTypePage r
   in res = Inr rule \<and> int (length (rv_cache r')) \<le> 1"
proof -
  define re :: regex_lib where "re = (\<lambda>_. Inl (Opaque []))"
  define r0 where "r0 = NewResolver [WithMaxCacheEntries 1]"
  define rule where "rule = \<lparr>ru_id = 1, ru_source = ''s'', ru_host = ''h'', ru_path = [], ru_type = TargetTypePage, ru_version = 1,
               ru_enabled = True, ru_selectors = \<lparr>sm_title = None, sm_main = None, sm_summary = None, sm_author = None,
                 sm_published = None, sm_category = None, sm_tags = None, sm_images = None, sm_item_container = None,
                 sm_item_link = None, sm_item_title = None, sm_item_snippet = None, sm_discovery = None\<rparr>, ru_article = True\<rparr>"
  define c1 :: rule_call where
    "c1 = \<lparr>kc_now = 0, kc_later = 0, kc_order = id, kc_find = \<lambda>_ _. Inr [rule], kc_has = \<lambda>_ _. Inr (True, True)\<rparr>"
  define c2 where "c2 = c1\<lparr>kc_now := minute, kc_find := \<lambda>_ _. Inr []\<rparr>"
  define ops where "ops = [OpResolve c1 ''h'' ''/'' TargetTypePage]"
  define r where "r = fold (rule_step text_lib re) ops r0"
  obtain res r' where res: "rule_Resolve text_lib re c2 ''h'' ''/'' TargetTypePage r = (res, r')" by (rule prod.exhaust)
  have r0: "0 < rv_max r0" "rv_cache r0 = []" "rv_has r0 = []" "rv_max r0 = 1" "rv_ttl r0 = 5 * minute"
    by (simp_all add: r0_def NewResolver_def WithMaxCacheEntries_def DefaultCacheTTL_def)
  have ok: "\<forall>op \<in> set ops. op_ok op" "\<forall>ks. set (kc_order c2 ks) = set ks"
    by (simp_all add: ops_def c1_def c2_def)
  note bound = resolver_bounded_staleness [OF r0(1-3) ok r_def refl res]
  have "rv_cache r = [((''h'', TargetTypePage), [rule], 5 * minute)]"
    using r0 by (simp add: r_def ops_def c1_def snd_rule_Resolve resolve_candidates_def lookupCache_def text_lib_def
        storeCache_def candidates_ttl_def evict_soonest_def)
  then have "res = Inr rule"
    using res by (simp add: rule_Resolve_def resolve_candidates_def lookupCache_def text_lib_def c2_def c1_def
        choose_rule_def pathMatches_def rule_def)
  then have "case rule_Resolve text_lib re c2 ''h'' ''/'' TargetTypePage r of
      (res, r') \<Rightarrow> res = Inr rule \<and> int (length (rv_cache r')) \<le> 1"
    using bound r0(4) res by simp
  then show ?thesis unfolding r_def ops_def c2_def c1_def rule_def r0_def re_def Let_def .
qed

text \<open>A race of the resolver: an invalidation does not reach a resolution that has read the table but not
  yet stored what it read. The store brings the old candidates back, and they are served for
  their whole time to live, whatever the table holds by then.\<close>
theorem invalidation_overtaken:
  assumes "r1 = storeCache c (ul_lower L host, tt) old (candidates_ttl r old) (rule_Invalidate L host tt r)"
    and "kc_now c' \<le> kc_later c + candidates_ttl r old"
  shows "rule_Resolve L re c' host path tt r1 = (choose_rule re (ul_lower L host) path tt old, r1)"
  using assms by (simp add: storeCache_def rule_Resolve_def resolve_candidates_def lookupCache_def update_conv' Let_def)

theorem invalidation_overtaken_witness:
  "let c = \<lparr>kc_now = 0, kc_later = 1, kc_order = id, kc_find = \<lambda>_ _. Inr [], kc_has = \<lambda>_ _. Inr (True, True)\<rparr>;
       r1 = storeCache c (''h'', TargetTypePage) [] (30 * second) (rule_Invalidate text_lib ''h'' TargetTypePage (NewResolver []))
   in \<forall>re. fst (rule_Resolve text_lib re (c\<lparr>kc_now := 20 * second\<rparr>) ''h'' ''/'' TargetTypePage r1)
      = choose_rule re ''h'' ''/'' TargetTypePage []"
proof -
  define c :: rule_call where
    "c = \<lparr>kc_now = 0, kc_later = 1, kc_order = id, kc_find = \<lambda>_ _. Inr [], kc_has = \<lambda>_ _. Inr (True, True)\<rparr>"
  define r1 where "r1 = storeCache c (''h'', TargetTypePage) [] (30 * second)
      (rule_Invalidate text_lib ''h'' TargetTypePage (NewResolver []))"
  have lower: "ul_lower text_lib ''h'' = ''h''" by (simp add: text_lib_def)
  have ttl: "candidates_ttl (NewResolver []) [] = 30 * second"
    by (simp add: candidates_ttl_def NewResolver_def DefaultNegativeCacheTTL_def)
  have r1: "r1 = storeCache c (ul_lower text_lib ''h'', TargetTypePage) [] (candidates_ttl (NewResolver []) [])
      (rule_Invalidate text_lib ''h'' TargetTypePage (NewResolver []))"
    by (simp add: r1_def lower ttl)
  have "kc_now (c\<lparr>kc_now := 20 * second\<rparr>) \<le> kc_later c + candidates_ttl (NewResolver []) []"
    by (simp add: ttl c_def)
  from invalidation_overtaken [OF r1 this]
  have "\<forall>re. fst (rule_Resolve text_lib re (c\<lparr>kc_now := 20 * second\<rparr>) ''h'' ''/'' TargetTypePage r1)
      = choose_rule re ''h'' ''/'' TargetTypePage []"
    by (simp add: lower)
  then show ?thesis unfolding c_def [symmetric] Let_def r1_def [symmetric] .
qed

text \<open>C28. The two ways in which the parser worker sorts the links of a page agree. The verdicts of the
  precheck on a batch are those of its single checks, in the same order and with the same effect on the
  caches; and the blacklist's Classify puts into its two lists exactly the URLs the precheck allows and those
  it restricts to their links, as long as the rows have the modes the table admits.\<close>
theorem precheck_agrees_with_classify:
  assumes "modes_ok cs m"
    and "CheckURLs [NewBlacklistSource L re cs] n urls m = (ds, m1)"
    and "check_each [NewBlacklistSource L re cs] n urls m = (es, m2)"
    and "Classify L re cs n urls m = (d, m3)"
  shows "m1 = m2 \<and> m1 = m3 \<and> map dn_verdict ds = map dn_verdict es \<and> length ds = length urls
    \<and> bd_allowed d = with_verdict VerdictAllow urls ds
    \<and> bd_links_only d = with_verdict VerdictExtractLinksOnly urls ds"
proof (cases "urls = []")
  case True
  then show ?thesis using assms(2-4) by (auto simp: CheckURLs_def with_verdict_def)
next
  case False
  obtain bs mb where b: "bl_CheckBatch L re cs n urls m = (bs, mb)" by (rule prod.exhaust)
  have ds: "ds = map (named_by (NewBlacklistSource L re cs)) bs" "m1 = mb"
    using assms(2) False b by (auto simp: CheckURLs_def NewBlacklistSource_def)
  have v: "map dn_verdict ds = map dn_verdict bs" unfolding ds by (simp add: named_by_def)
  have w: "with_verdict x urls ds = with_verdict x urls bs" for x
  proof -
    have "with_verdict x us (map (named_by s) xs) = with_verdict x us xs" for us and s :: "matcher source" and xs
    proof (induction us arbitrary: xs)
      case (Cons u us)
      then show ?case by (cases xs) (auto simp: with_verdict_def named_by_def)
    qed (simp add: with_verdict_def)
    then show ?thesis unfolding ds .
  qed
  have "m3 = mb \<and> length bs = length urls \<and> bd_allowed d = with_verdict VerdictAllow urls bs
      \<and> bd_links_only d = with_verdict VerdictExtractLinksOnly urls bs"
    using Classify_batch [OF assms(1), of L re n urls] assms(4) b by simp
  moreover have "m1 = m2 \<and> map dn_verdict ds = map dn_verdict es"
    using bl.CheckURLs_agrees [of L re cs "''blacklist''" n urls m] assms(2,3) by (simp add: bl_this_source)
  ultimately show ?thesis using ds v w by (metis length_map)
qed

text \<open>A page demoted as an index is blocked from then on, unless its URL names a port. When the
  insertion succeeds and the URL's host has no port, a fresh matcher that reads the new table finds the
  page blocked. When the host has a port, the row carries host and port, but the
  matcher asks for the host name alone: the rows it reads are the ones before the demotion.\<close>
theorem demotion_needs_bare_host:
  assumes "ul_parse L url = Inr u" and "Hostname u \<noteq> []" and "ur_host u \<noteq> []"
    and "\<forall>s. ul_lower L (ul_lower L s) = ul_lower L s" and "quote_ok re q"
    and "rows' = demote L re q None fresh url rows"
    and "bc_find c (ul_lower L (Hostname u)) = FindEnabledByHost L chars None (ul_lower L (Hostname u)) rows'"
    and "bm_cache m = []" and "bm_regex m = []"
    and "\<not> list_ex (\<lambda>x. br_host x = ul_lower L (ur_host u) \<and> \<not> br_enabled x) rows"
  shows "(Hostname u = ur_host u \<longrightarrow> fst (IsBlocked L re c url m) = Inr True)
    \<and> (ul_lower L (Hostname u) \<noteq> ul_lower L (ur_host u) \<longrightarrow>
         bc_find c (ul_lower L (Hostname u)) = FindEnabledByHost L chars None (ul_lower L (Hostname u)) rows)"
proof -
  let ?h = "ul_lower L (Hostname u)" and ?path = "if ur_path u = [] then ''/'' else ur_path u"
  have ehp: "extractHostPath L url = Inr (?h, ?path)" using assms(1,2) by (simp add: extractHostPath_def)
  have low: "ul_lower L ?h = ?h" using assms(4) by blast
  let ?pat = "''^'' @ q ?path @ ''$''"
  obtain f where f: "re ?pat = Inr f" "\<forall>x. f x \<longleftrightarrow> x = ?path" using assms(5) unfolding quote_ok_def by blast
  have pp: "pathPatternFromURL L q url = Some (ul_lower L (ur_host u), ?pat)"
    using assms(1,3) by (simp add: pathPatternFromURL_def)
  have find: "FindEnabledByHost L chars None ?h rs
      = Inr (sort_key (\<lambda>x. (- int (chars (br_path x)), - br_id x)) (filter (\<lambda>x. br_host x = ?h \<and> br_enabled x) rs))" for rs
    using low by (simp add: FindEnabledByHost_def)
  show ?thesis
  proof (intro conjI impI)
    assume bare: "Hostname u = ur_host u"
    have "\<exists>r \<in> set rows'. br_host r = ?h \<and> br_path r = ?pat \<and> br_enabled r"
    proof (cases "list_ex (\<lambda>x. br_host x = ?h \<and> br_path x = ?pat) rows")
      case True
      then obtain x where "x \<in> set rows" "br_host x = ?h" "br_path x = ?pat" by (auto simp: list_ex_iff)
      moreover have "br_enabled x" using assms(10) calculation bare by (auto simp: list_ex_iff)
      ultimately show ?thesis
        using demote_rows(1) [OF pp, of rows re None fresh] assms(4,6) by auto
    next
      case False
      then show ?thesis
        using demote_inserts [where L = L and re = re, OF pp _ f(1)] bare low unfolding assms(6) by simp
    qed
    then have "\<exists>r \<in> set (filter (\<lambda>x. br_host x = ?h \<and> br_enabled x) rows'). pathMatches re (br_path r) ?path"
      using f by (auto simp: pathMatches_def)
    then show "fst (IsBlocked L re c url m) = Inr True"
      using IsBlocked_fresh [OF ehp low _ assms(8,9), of c _ re] assms(7) find [of rows'] by simp
  next
    assume "?h \<noteq> ul_lower L (ur_host u)"
    then have "filter (\<lambda>x. br_host x = ?h \<and> br_enabled x) rows' = filter (\<lambda>x. br_host x = ?h \<and> br_enabled x) rows"
      using demote_rows(2) [OF pp] assms(4,6) by simp
    then show "bc_find c ?h = FindEnabledByHost L chars None ?h rows" using assms(7) find by simp
  qed
qed

theorem demotion_needs_bare_host_witness:
  "let re = (\<lambda>p. Inr (\<lambda>x. p = ''^'' @ x @ ''$'')); c = \<lambda>h. \<lparr>bc_now = 0, bc_order = id,
         bc_find = \<lambda>_. FindEnabledByHost text_lib length None h (demote text_lib re id None 1 ''http://h/x'' [])\<rparr>
   in fst (IsBlocked text_lib re (c ''h'') ''http://h/x'' (NewBlacklistMatcher [])) = Inr True"
proof -
  define re :: regex_lib where "re = (\<lambda>p. Inr (\<lambda>x. p = ''^'' @ x @ ''$''))"
  define c where "c = \<lparr>bc_now = 0, bc_order = id,
         bc_find = \<lambda>_. FindEnabledByHost text_lib length None ''h'' (demote text_lib re id None 1 ''http://h/x'' [])\<rparr>"
  define u where "u = text_url ''http'' ''h'' ''/x''"
  have u: "ul_parse text_lib ''http://h/x'' = Inr u" "Hostname u = ''h''" "ur_host u = ''h''"
    by (simp_all add: u_def text_lib_def split_url_def text_url_def Hostname_def splitHostPort_def last_colon_def
        strip_brackets_def Let_def)
  have low: "ul_lower text_lib s = s" for s by (simp add: text_lib_def)
  have q: "quote_ok re id" by (auto simp: quote_ok_def re_def)
  have m: "bm_cache (NewBlacklistMatcher []) = []" "bm_regex (NewBlacklistMatcher []) = []"
    by (simp_all add: NewBlacklistMatcher_def)
  have h: "Hostname u \<noteq> []" "ur_host u \<noteq> []" "\<forall>s. ul_lower text_lib (ul_lower text_lib s) = ul_lower text_lib s"
    using u low by simp_all
  have f: "bc_find c (ul_lower text_lib (Hostname u))
      = FindEnabledByHost text_lib length None (ul_lower text_lib (Hostname u)) (demote text_lib re id None 1 ''http://h/x'' [])"
    using u low by (simp add: c_def)
  have e: "\<not> list_ex (\<lambda>x. br_host x = ul_lower text_lib (ur_host u) \<and> \<not> br_enabled x) []" by simp
  have "fst (IsBlocked text_lib re c ''http://h/x'' (NewBlacklistMatcher [])) = Inr True"
    using demotion_needs_bare_host [OF u(1) h q refl f m e] u by simp
  then show ?thesis unfolding c_def re_def Let_def .
qed

theorem precheck_agrees_with_classify_witness:
  "let row = \<lparr>br_id = 1, br_host = ''h'', br_path = [], br_reason = [], br_source = [],
              br_mode = BlacklistModeDrop, br_enabled = True\<rparr>;
       cs = (\<lambda>_. \<lparr>bc_now = 0, bc_order = id, bc_find = \<lambda>h. if h = ''h'' then Inr [row] else Inr []\<rparr>);
       re = (\<lambda>_. Inl (Opaque []));
       (d, _) = Classify text_lib re cs 0 [''http://h/'', ''http://g/''] (NewBlacklistMatcher []);
       (ds, _) = CheckURLs [NewBlacklistSource text_lib re cs] 0 [''http://h/'', ''http://g/''] (NewBlacklistMatcher [])
   in bd_allowed d = with_verdict VerdictAllow [''http://h/'', ''http://g/''] ds"
proof -
  define row where "row = \<lparr>br_id = 1, br_host = ''h'', br_path = [], br_reason = [], br_source = [],
              br_mode = BlacklistModeDrop, br_enabled = True\<rparr>"
  define cs :: "nat \<Rightarrow> blacklist_call" where
    "cs = (\<lambda>_. \<lparr>bc_now = 0, bc_order = id, bc_find = \<lambda>h. if h = ''h'' then Inr [row] else Inr []\<rparr>)"
  define re :: regex_lib where "re = (\<lambda>_. Inl (Opaque []))"
  define us where "us = [''http://h/'', ''http://g/'']"
  have ok: "modes_ok cs (NewBlacklistMatcher [])"
    by (simp add: modes_ok_def cs_def row_def known_modes_def NewBlacklistMatcher_def)
  obtain d m3 where d: "Classify text_lib re cs 0 us (NewBlacklistMatcher []) = (d, m3)" by (rule prod.exhaust)
  obtain ds m1 where ds: "CheckURLs [NewBlacklistSource text_lib re cs] 0 us (NewBlacklistMatcher []) = (ds, m1)"
    by (rule prod.exhaust)
  obtain es m2 where es: "check_each [NewBlacklistSource text_lib re cs] 0 us (NewBlacklistMatcher []) = (es, m2)"
    by (rule prod.exhaust)
  have "bd_allowed d = with_verdict VerdictAllow us ds"
    using precheck_agrees_with_classify [OF ok ds es d] by blast
  then show ?thesis
    unfolding row_def [symmetric] cs_def [symmetric] re_def [symmetric] us_def [symmetric] Let_def d ds by simp
qed

end
