(* ===== verification/FetcherRules.thy ===== *)
theory FetcherRules
  imports Scoring RetryQueue RuleLookup
begin

text \<open>
  Which fetcher a host is crawled with: the table of fetcher rules (\<^verbatim>\<open>internal/storage/postgres/fetcher_rule.go\<close>),
  the cached lookups on it (\<^verbatim>\<open>internal/processor/fetcher/rule/resolver.go\<close>), the upgrade of a failing host to the browser with the
  republishing of its failed pages (\<^verbatim>\<open>upgrader.go\<close>, \<^verbatim>\<open>internal/storage/redis/raw_id_tracker.go\<close>), the periodic
  downgrade (\<^verbatim>\<open>downgrader.go\<close>) and the token that authenticates a forced fetcher (\<^verbatim>\<open>force_fetcher_token.go\<close>).
  A statement takes the error the database gives it, if any. Logging is left out.
\<close>

section \<open>The table\<close>

definition FetcherGoQuery :: string where "FetcherGoQuery = ''goquery''"
definition FetcherChromedp :: string where "FetcherChromedp = ''chromedp''"

lemmas fetcher_kinds = FetcherGoQuery_def FetcherChromedp_def

definition FetcherKind_IsValid :: "string \<Rightarrow> bool" where
  "FetcherKind_IsValid k \<longleftrightarrow> k = FetcherGoQuery \<or> k = FetcherChromedp"

text \<open>The columns that are read as they are (NULL is the zero value), the stored row and the record made of it.\<close>

record frule_cols =
  fl_id :: int
  fl_host :: string
  fl_fetcher :: string
  fl_reason :: string
  fl_source :: string
  fl_source_type :: string
  fl_country :: string
  fl_language :: string
  fl_base_url :: string
  fl_rph :: int
  fl_created :: gotime
  fl_updated :: gotime

record frule = frule_cols +
  fl_priority_raw :: bytes

record frule_record = frule_cols +
  fl_priority :: "priority_config option"
  fl_priority_error :: string

text \<open>\<open>fd_decode\<close> decodes the JSON of a priority configuration, \<open>fd_arrange\<close> is the order by host of the database.\<close>

record frule_db =
  fd_lib :: url_lib
  fd_decode :: "bytes \<Rightarrow> go_error + priority_config"
  fd_arrange :: "frule list \<Rightarrow> frule list"

definition canonicalizeHost :: "url_lib \<Rightarrow> string \<Rightarrow> string" where
  "canonicalizeHost L host = ul_lower L (ul_trim L host)"

definition new_frule :: "int \<Rightarrow> gotime \<Rightarrow> string \<Rightarrow> string \<Rightarrow> string \<Rightarrow> frule" where
  "new_frule fresh now host fetcher reason =
     \<lparr>fl_id = fresh, fl_host = host, fl_fetcher = fetcher, fl_reason = reason, fl_source = [], fl_source_type = [],
      fl_country = [], fl_language = [], fl_base_url = [], fl_rph = 0, fl_created = now, fl_updated = now,
      fl_priority_raw = []\<rparr>"

definition set_fetcher :: "gotime \<Rightarrow> string \<Rightarrow> string \<Rightarrow> frule \<Rightarrow> frule" where
  "set_fetcher now fetcher reason x = x\<lparr>fl_fetcher := fetcher, fl_reason := reason, fl_updated := now\<rparr>"

definition fetcher_Upsert ::
  "frule_db \<Rightarrow> go_error option \<Rightarrow> int \<Rightarrow> gotime \<Rightarrow> string \<Rightarrow> string \<Rightarrow> string \<Rightarrow> frule list \<Rightarrow> go_error option \<times> frule list" where
  "fetcher_Upsert D db fresh now host0 fetcher reason rows =
     (let host = canonicalizeHost (fd_lib D) host0
      in if host = []
         then (Some (Annotated ''upsert fetcher rule: '' (Sentinel StorageInvalid) '': empty host_pattern''), rows)
         else if \<not> FetcherKind_IsValid fetcher
         then (Some (Annotated ''upsert fetcher rule: '' (Sentinel StorageInvalid) ('': invalid fetcher '' @ go_quote fetcher)), rows)
         else (case db of
                 Some err \<Rightarrow> (Some (Wrapped (''upsert fetcher rule for '' @ host) err), rows)
               | None \<Rightarrow>
                   (None, if list_ex (\<lambda>x. fl_host x = host) rows
                          then map (\<lambda>x. if fl_host x = host then set_fetcher now fetcher reason x else x) rows
                          else rows @ [new_frule fresh now host fetcher reason])))"

definition frule_record_of :: "priority_config option \<Rightarrow> string \<Rightarrow> frule \<Rightarrow> frule_record" where
  "frule_record_of cfg err x =
     \<lparr>fl_id = fl_id x, fl_host = fl_host x, fl_fetcher = fl_fetcher x, fl_reason = fl_reason x, fl_source = fl_source x,
      fl_source_type = fl_source_type x, fl_country = fl_country x, fl_language = fl_language x,
      fl_base_url = fl_base_url x, fl_rph = fl_rph x, fl_created = fl_created x, fl_updated = fl_updated x,
      fl_priority = cfg, fl_priority_error = err\<rparr>"

definition fetcher_GetByHost :: "frule_db \<Rightarrow> go_error option \<Rightarrow> string \<Rightarrow> frule list \<Rightarrow> go_error + frule_record" where
  "fetcher_GetByHost D db host0 rows =
     (let host = canonicalizeHost (fd_lib D) host0
      in case db of
           Some err \<Rightarrow> Inl (Wrapped (''get fetcher rule by host '' @ host) err)
         | None \<Rightarrow>
            (case find (\<lambda>x. fl_host x = host) rows of
               None \<Rightarrow> Inl (Sentinel StorageNotFound)
             | Some x \<Rightarrow>
                (case ParsePriorityConfig (ul_lower (fd_lib D)) (fd_decode D) (fl_priority_raw x) of
                   Inl perr \<Rightarrow> Inl (Wrapped (''fetcher rule '' @ host) perr)
                 | Inr cfg \<Rightarrow> Inr (frule_record_of cfg [] x))))"

definition list_record :: "frule_db \<Rightarrow> frule \<Rightarrow> frule_record" where
  "list_record D x =
     (case ParsePriorityConfig (ul_lower (fd_lib D)) (fd_decode D) (fl_priority_raw x) of
        Inl perr \<Rightarrow> frule_record_of None (error_text perr) x
      | Inr cfg \<Rightarrow> frule_record_of cfg [] x)"

definition fetcher_List :: "frule_db \<Rightarrow> go_error option \<Rightarrow> frule list \<Rightarrow> go_error + frule_record list" where
  "fetcher_List D db rows =
     (case db of
        Some err \<Rightarrow> Inl (Wrapped ''list fetcher rules'' err)
      | None \<Rightarrow> Inr (map (list_record D) (fd_arrange D rows)))"

definition fetcher_Delete :: "frule_db \<Rightarrow> go_error option \<Rightarrow> string \<Rightarrow> frule list \<Rightarrow> go_error option \<times> frule list" where
  "fetcher_Delete D db host0 rows =
     (let host = canonicalizeHost (fd_lib D) host0
      in case db of
           Some err \<Rightarrow> (Some (Wrapped (''delete fetcher rule '' @ host) err), rows)
         | None \<Rightarrow> (None, filter (\<lambda>x. fl_host x \<noteq> host) rows))"

definition AutoUpgradeReason :: string where "AutoUpgradeReason = ''auto_upgrade_validation''"

definition auto_upgraded :: "frule \<Rightarrow> bool" where
  "auto_upgraded x \<longleftrightarrow> fl_reason x = AutoUpgradeReason \<and> fl_fetcher x = FetcherChromedp"

definition BulkDowngradeAutoUpgraded :: "go_error option \<Rightarrow> gotime \<Rightarrow> frule list \<Rightarrow> (go_error + string list) \<times> frule list" where
  "BulkDowngradeAutoUpgraded db now rows =
     (case db of
        Some err \<Rightarrow> (Inl (Wrapped ''bulk downgrade auto-upgraded fetcher rules'' err), rows)
      | None \<Rightarrow>
          (Inr (map fl_host (filter auto_upgraded rows)),
           map (\<lambda>x. if auto_upgraded x then x\<lparr>fl_fetcher := FetcherGoQuery, fl_updated := now\<rparr> else x) rows))"

section \<open>The resolver\<close>

definition FetcherCacheTTL :: duration where "FetcherCacheTTL = 5 * minute"

record resolve_result =
  rr_found :: bool
  rr_fetcher :: string

definition no_rule :: resolve_result where "no_rule = \<lparr>rr_found = False, rr_fetcher = []\<rparr>"

text \<open>The entries of the \<^verbatim>\<open>sync.Map\<close> with the time they were stored.\<close>

type_synonym fetcher_cache = "string \<rightharpoonup> resolve_result \<times> gotime"

definition NewFetcherResolver :: "duration \<Rightarrow> duration" where
  "NewFetcherResolver ttl = (if ttl \<le> 0 then FetcherCacheTTL else ttl)"

definition fresh_entry :: "duration \<Rightarrow> gotime \<Rightarrow> string \<Rightarrow> fetcher_cache \<Rightarrow> resolve_result option" where
  "fresh_entry ttl now host cache =
     (case cache host of
        Some (v, cachedAt) \<Rightarrow> if now - cachedAt < ttl then Some v else None
      | None \<Rightarrow> None)"

text \<open>
  One call of \<^verbatim>\<open>Resolve\<close>. \<open>vc_shared\<close> is the answer of another call's flight for the host when this one joins it;
  otherwise the call runs its own: \<open>vc_before\<close> and \<open>vc_during\<close> are what other goroutines do to the cache before its
  second check and while it queries, \<open>vc_now\<close>, \<open>vc_again\<close> and \<open>vc_stored\<close> the clock at the checks and at the store,
  \<open>vc_rows\<close> the table at the query and \<open>vc_db\<close> the query's error.
\<close>

record resolve_call =
  vc_now :: gotime
  vc_again :: gotime
  vc_stored :: gotime
  vc_shared :: "(go_error + resolve_result) option"
  vc_before :: "fetcher_cache \<Rightarrow> fetcher_cache"
  vc_during :: "fetcher_cache \<Rightarrow> fetcher_cache"
  vc_db :: "go_error option"
  vc_rows :: "frule list"

definition table_answer :: "frule_db \<Rightarrow> go_error option \<Rightarrow> string \<Rightarrow> frule list \<Rightarrow> go_error + resolve_result" where
  "table_answer D db host rows =
     (case fetcher_GetByHost D db host rows of
        Inl err \<Rightarrow> if is_sentinel StorageNotFound err then Inr no_rule else Inl err
      | Inr rec \<Rightarrow> Inr \<lparr>rr_found = True, rr_fetcher = fl_fetcher rec\<rparr>)"

definition fetcher_Resolve ::
  "frule_db \<Rightarrow> duration \<Rightarrow> resolve_call \<Rightarrow> string \<Rightarrow> fetcher_cache \<Rightarrow> (go_error + resolve_result) \<times> fetcher_cache" where
  "fetcher_Resolve D ttl c host cache =
     (if host = [] then (Inr no_rule, cache)
      else (case fresh_entry ttl (vc_now c) host cache of
              Some v \<Rightarrow> (Inr v, cache)
            | None \<Rightarrow>
               (case vc_shared c of
                  Some answer \<Rightarrow> (answer, vc_before c cache)
                | None \<Rightarrow>
                   (case fresh_entry ttl (vc_again c) host (vc_before c cache) of
                      Some v \<Rightarrow> (Inr v, vc_before c cache)
                    | None \<Rightarrow>
                       (let cache' = vc_during c (vc_before c cache)
                        in case table_answer D (vc_db c) host (vc_rows c) of
                             Inl err \<Rightarrow> (Inl err, cache')
                           | Inr v \<Rightarrow> (Inr v, cache'(host \<mapsto> (v, vc_stored c))))))))"

definition fetcher_Invalidate :: "string \<Rightarrow> fetcher_cache \<Rightarrow> fetcher_cache" where
  "fetcher_Invalidate host cache = cache(host := None)"

section \<open>The ids of failed pages\<close>

text \<open>
  A set per host, scored by the time of the failure. \<open>rk_float\<close> is the conversion of a number of nanoseconds to the
  floating point numbers Redis keeps scores in (their value is again an integer); a bound in text is read by it too.
\<close>

record raw_tracker =
  rk_prefix :: string
  rk_ttl :: duration
  rk_fresh :: duration
  rk_float :: "int \<Rightarrow> int"

definition NewRawIDTrackerWithFreshness ::
  "(int \<Rightarrow> int) \<Rightarrow> duration \<Rightarrow> duration \<Rightarrow> string \<Rightarrow> go_error + raw_tracker" where
  "NewRawIDTrackerWithFreshness fl ttl freshness keyPrefix =
     (if ttl \<le> 0 then Inl (Opaque ''redisstore: raw id tracker requires positive ttl'')
      else Inr \<lparr>rk_prefix = (if keyPrefix = [] then ''fetcher:failed_raws'' else keyPrefix), rk_ttl = ttl,
                rk_fresh = (if freshness < 0 then 0 else freshness), rk_float = fl\<rparr>)"

definition NewRawIDTracker :: "(int \<Rightarrow> int) \<Rightarrow> duration \<Rightarrow> string \<Rightarrow> go_error + raw_tracker" where
  "NewRawIDTracker fl ttl keyPrefix = NewRawIDTrackerWithFreshness fl ttl 0 keyPrefix"

definition tracker_keyFor :: "raw_tracker \<Rightarrow> string \<Rightarrow> string" where
  "tracker_keyFor K host = rk_prefix K @ '':'' @ host"

text \<open>
  \<open>te_expire\<close> is EXPIRE, which says when the set may vanish; that it does, is something others do.
\<close>

record 'r tracker_env = "'r client_env" +
  te_expire :: "gotime \<Rightarrow> string \<Rightarrow> duration \<Rightarrow> 'r \<Rightarrow> 'r"

definition Track ::
  "('r, 'e) tracker_env_scheme \<Rightarrow> raw_tracker \<Rightarrow> string \<Rightarrow> string \<Rightarrow> ('r, 's) client_state_scheme
     \<Rightarrow> go_error option \<times> ('r, 's) client_state_scheme" where
  "Track E K host rawID s =
     (if host = [] \<or> rawID = [] then (None, s)
      else (case run_pipe E [\<lambda>_. rd_zadd (cl_redis E) (tracker_keyFor K host) (rk_float K (cl_now E s)) rawID,
                                \<lambda>now. te_expire E now (tracker_keyFor K host) (rk_ttl K)] s of
              (Some err, s1) \<Rightarrow> (Some (Wrapped (''redis raw id tracker ZADD for host '' @ host) err), s1)
            | (None, s1) \<Rightarrow> (None, s1)))"

definition recent_ids :: "'r zredis_ops \<Rightarrow> raw_tracker \<Rightarrow> gotime \<Rightarrow> string \<Rightarrow> int \<Rightarrow> 'r \<Rightarrow> string list" where
  "recent_ids R K now host limit r =
     (let ids = rev (rd_zall R (tracker_keyFor K host) r)
      in map snd (take (nat limit)
           (if rk_fresh K \<le> 0 then ids else filter (\<lambda>e. rk_float K (now - rk_fresh K) \<le> fst e) ids)))"

definition PeekByHost ::
  "('r, 'e) client_env_scheme \<Rightarrow> raw_tracker \<Rightarrow> string \<Rightarrow> int \<Rightarrow> ('r, 's) client_state_scheme
     \<Rightarrow> (go_error + string list) \<times> ('r, 's) client_state_scheme" where
  "PeekByHost E K host limit s =
     (if host = [] \<or> limit \<le> 0 then (Inr [], s)
      else (let now = cl_now E s
            in case run_query E (\<lambda>_ r. (recent_ids (cl_redis E) K now host limit r, r)) s of
                 (Inl err, s1) \<Rightarrow>
                   (Inl (Wrapped (''redis raw id tracker '' @ (if rk_fresh K \<le> 0 then ''ZREVRANGE'' else ''ZRANGE BYSCORE'')
                      @ '' for host '' @ host) err), s1)
               | (Inr ids, s1) \<Rightarrow> (Inr ids, s1)))"

definition RemoveByHost ::
  "('r, 'e) client_env_scheme \<Rightarrow> raw_tracker \<Rightarrow> string \<Rightarrow> string list \<Rightarrow> ('r, 's) client_state_scheme
     \<Rightarrow> go_error option \<times> ('r, 's) client_state_scheme" where
  "RemoveByHost E K host rawIDs s =
     (if host = [] \<or> rawIDs = [] then (None, s)
      else (let members = filter (\<lambda>i. i \<noteq> []) rawIDs
            in if members = [] then (None, s)
               else (case run_query E (\<lambda>_ r. ((), fold (rd_zrem (cl_redis E) (tracker_keyFor K host)) members r)) s of
                       (Inl err, s1) \<Rightarrow>
                         (Some (Wrapped (''redis raw id tracker ZREM for host '' @ host @ '' (count=''
                            @ int_text (int (length members)) @ '')'') err), s1)
                     | (Inr _, s1) \<Rightarrow> (None, s1))))"

section \<open>The token of a forced fetcher\<close>

definition MetadataKeyForceFetcher :: string where "MetadataKeyForceFetcher = ''force_fetcher''"
definition MetadataKeyForceFetcherToken :: string where "MetadataKeyForceFetcherToken = ''force_fetcher_token''"

text \<open>The token of the process, empty until it is made of 16 random bytes in hex digits.\<close>

definition InitForceFetcherToken :: "(go_error + string) \<Rightarrow> string \<Rightarrow> go_error option \<times> string" where
  "InitForceFetcherToken rnd token =
     (case rnd of
        Inl err \<Rightarrow> (Some (Wrapped ''init force_fetcher token'' err), token)
      | Inr hex \<Rightarrow> (None, hex))"

definition ValidateForceFetcherToken :: "string \<Rightarrow> string \<Rightarrow> bool" where
  "ValidateForceFetcherToken token provided \<longleftrightarrow> token \<noteq> [] \<and> provided = token"

section \<open>The upgrade\<close>

definition upgraderInflightTTL :: duration where "upgraderInflightTTL = 5 * minute"
definition upgraderMaxRepublishPerCycle :: int where "upgraderMaxRepublishPerCycle = 20"
definition republishedJobTimeout :: duration where "republishedJobTimeout = 30 * second"

definition hostnameOf :: "url_lib \<Rightarrow> string \<Rightarrow> string \<Rightarrow> string" where
  "hostnameOf L rawURL fallback =
     (case ul_parse L rawURL of
        Inl _ \<Rightarrow> fallback
      | Inr u \<Rightarrow> if Hostname u = [] then fallback else Hostname u)"

text \<open>\<open>rnd\<close> is 16 random bytes in hex digits, or the failure to read them.\<close>

definition newRepublishJobID :: "go_error + string \<Rightarrow> gotime \<Rightarrow> string" where
  "newRepublishJobID rnd now =
     (case rnd of Inl _ \<Rightarrow> ''republish-'' @ int_text now | Inr hex \<Rightarrow> ''republish-'' @ hex)"

text \<open>
  What an upgrader works with. \<open>ue_sql\<close> and \<open>ue_tables\<close> are, for each step, the error of a statement and what other
  clients did to the table before it; \<open>ue_raw\<close> is \<^verbatim>\<open>RawContentService.GetByID\<close>. A client without Redis has
  \<open>ue_lock = False\<close>. The state adds to Redis the table, the resolver's cache and the calls of the bus.
\<close>

record ('r, 'w) up_env = "'r tracker_env" +
  ue_db :: frule_db
  ue_sql :: "nat \<Rightarrow> go_error option"
  ue_tables :: "nat \<Rightarrow> frule list \<Rightarrow> frule list"
  ue_serial :: "nat \<Rightarrow> int"
  ue_tracker :: raw_tracker
  ue_lock :: bool
  ue_raw :: "nat \<Rightarrow> string \<Rightarrow> go_error + raw_content option"
  ue_token :: string
  ue_random :: "nat \<Rightarrow> go_error + string"
  ue_priority :: "(crawl_job \<Rightarrow> priority) option"
  ue_marshal :: "crawl_job \<Rightarrow> go_error + bytes"
  ue_bus :: "(act, 'w) io"

record ('r, 'w) up_state = "'r client_state" +
  us_rows :: "frule list"
  us_cache :: fetcher_cache
  us_bus :: "(act, 'w) sys"

definition up_sql :: "('r, 'w) up_env \<Rightarrow> ('r, 'w) up_state \<Rightarrow> go_error option \<times> ('r, 'w) up_state" where
  "up_sql E s =
     (let s1 = cl_elapse E s; s2 = s1\<lparr>us_rows := ue_tables E (cl_step s1) (us_rows s1)\<rparr>
      in (ue_sql E (cl_step s2), s2))"

definition upgrade_job :: "('r, 'w) up_env \<Rightarrow> string \<Rightarrow> raw_content \<Rightarrow> ('r, 'w) up_state \<Rightarrow> crawl_job" where
  "upgrade_job E rawID raw s =
     (let job = \<lparr>job_id = newRepublishJobID (ue_random E (cl_step s)) (cl_now E s),
                 job_crawler = hostnameOf (fd_lib (ue_db E)) (rc_url raw) (si_name (rc_source raw)),
                 job_target = \<lparr>tg_url = rc_url raw, tg_type = TargetTypeArticle,
                    tg_meta = [MetadataKeyForceFetcher \<mapsto> MStr FetcherChromedp, MetadataKeyForceFetcherToken \<mapsto> MStr (ue_token E),
                               ''retry_reason'' \<mapsto> MStr ''validation_upgrade'', ''original_raw_id'' \<mapsto> MStr rawID]\<rparr>,
                 job_priority = 0, job_scheduled_at = cl_now E s, job_timeout = republishedJobTimeout,
                 job_retry_count = 0, job_max_retries = 3\<rparr>
      in job\<lparr>job_priority := (case ue_priority E of Some f \<Rightarrow> f job | None \<Rightarrow> PriorityNormal)\<rparr>)"

definition upgrade_message :: "crawl_job \<Rightarrow> bytes \<Rightarrow> string \<Rightarrow> message" where
  "upgrade_message job data rawID =
     new_message (CrawlTopic (job_priority job)) (job_id job) data
       [''crawler'' \<mapsto> job_crawler job, ''priority'' \<mapsto> int_text (job_priority job),
        ''retry_reason'' \<mapsto> ''validation_upgrade'', ''original_raw_id'' \<mapsto> rawID]"

text \<open>The loop over the ids: the messages, the ids they are for, and the ids that are stale.\<close>

definition prepare_raw ::
  "('r, 'w) up_env \<Rightarrow> string \<Rightarrow> ('r, 'w) up_state \<Rightarrow> message option \<times> ('r, 'w) up_state" where
  "prepare_raw E rawID s =
     (let s1 = cl_elapse E s
      in (case ue_raw E (cl_step s1) rawID of
            Inl _ \<Rightarrow> None
          | Inr None \<Rightarrow> None
          | Inr (Some raw) \<Rightarrow>
              if rc_url raw = [] then None
              else (let job = upgrade_job E rawID raw s1
                    in case ue_marshal E job of Inl _ \<Rightarrow> None | Inr data \<Rightarrow> Some (upgrade_message job data rawID)),
          s1))"

fun prepare_raws ::
  "('r, 'w) up_env \<Rightarrow> string list \<Rightarrow> ('r, 'w) up_state \<Rightarrow> (message list \<times> string list \<times> string list) \<times> ('r, 'w) up_state" where
  "prepare_raws E [] s = (([], [], []), s)"
| "prepare_raws E (rawID # rest) s =
     (let (mo, s1) = prepare_raw E rawID s; ((msgs, sent, stale), s2) = prepare_raws E rest s1
      in (case mo of
            None \<Rightarrow> ((msgs, sent, rawID # stale), s2)
          | Some m \<Rightarrow> ((m # msgs, rawID # sent, stale), s2)))"

definition republishRaws :: "('r, 'w) up_env \<Rightarrow> string \<Rightarrow> string list \<Rightarrow> ('r, 'w) up_state \<Rightarrow> ('r, 'w) up_state" where
  "republishRaws E host rawIDs s =
     (case prepare_raws E rawIDs s of
        ((msgs, republished, stale), s1) \<Rightarrow>
          if msgs = [] then (if stale \<noteq> [] then snd (RemoveByHost E (ue_tracker E) host stale s1) else s1)
          else (case PublishUpgrade (ue_bus E) host msgs (us_bus s1) of
                  (Some err, b) \<Rightarrow> s1\<lparr>us_bus := b\<rparr>
                | (None, b) \<Rightarrow> snd (RemoveByHost E (ue_tracker E) host (republished @ stale) (s1\<lparr>us_bus := b\<rparr>))))"

definition upgrade_lock_key :: "string \<Rightarrow> string" where
  "upgrade_lock_key host = ''fetcher:upgrader:lock:'' @ host"

text \<open>Whether the call goes on: not when another holds the lock; a failure of Redis does not stop it.\<close>

definition upgrade_lock :: "('r, 'w) up_env \<Rightarrow> string \<Rightarrow> ('r, 'w) up_state \<Rightarrow> bool \<times> ('r, 'w) up_state" where
  "upgrade_lock E host s =
     (if \<not> ue_lock E then (True, s)
      else (case run_query E (\<lambda>now. set_nx (rd_get (cl_redis E)) (rd_setx (cl_redis E)) now
                                (upgrade_lock_key host) ''1'' upgraderInflightTTL) s of
              (Inr b, s1) \<Rightarrow> (b, s1)
            | (Inl _, s1) \<Rightarrow> (True, s1)))"

text \<open>Whether the host is to be upgraded: it has no rule, or one that is read and is not the browser's.\<close>

definition wants_upgrade :: "('r, 'w) up_env \<Rightarrow> string \<Rightarrow> ('r, 'w) up_state \<Rightarrow> bool \<times> ('r, 'w) up_state" where
  "wants_upgrade E host s =
     (let (db, s1) = up_sql E s
      in (case fetcher_GetByHost (ue_db E) db host (us_rows s1) of
            Inr existing \<Rightarrow> fl_fetcher existing \<noteq> FetcherChromedp
          | Inl err \<Rightarrow> is_sentinel StorageNotFound err, s1))"

definition upgrade_row :: "('r, 'w) up_env \<Rightarrow> string \<Rightarrow> ('r, 'w) up_state \<Rightarrow> go_error option \<times> ('r, 'w) up_state" where
  "upgrade_row E host s =
     (let (db, s1) = up_sql E s;
          (err, rows) = fetcher_Upsert (ue_db E) db (ue_serial E (cl_step s1)) (cl_now E s1) host FetcherChromedp AutoUpgradeReason (us_rows s1)
      in (err, s1\<lparr>us_rows := rows\<rparr>))"

definition Trigger :: "('r, 'w) up_env \<Rightarrow> string \<Rightarrow> ('r, 'w) up_state \<Rightarrow> ('r, 'w) up_state" where
  "Trigger E host s =
     (if host = [] then s
      else let (free, s1) = upgrade_lock E host s
           in if \<not> free then s1
              else let (wanted, s2) = wants_upgrade E host s1
                   in if \<not> wanted then s2
                      else (case upgrade_row E host s2 of
                              (Some _, s3) \<Rightarrow> s3
                            | (None, s3) \<Rightarrow>
                                (case PeekByHost E (ue_tracker E) host upgraderMaxRepublishPerCycle
                                        (s3\<lparr>us_cache := fetcher_Invalidate host (us_cache s3)\<rparr>) of
                                   (Inl _, s4) \<Rightarrow> s4
                                 | (Inr ids, s4) \<Rightarrow> if ids = [] then s4 else republishRaws E host ids s4)))"

section \<open>The downgrade\<close>

definition downgraderInitialGrace :: duration where "downgraderInitialGrace = minute"

definition first_downgrade :: "duration \<Rightarrow> duration" where
  "first_downgrade interval = (if interval < downgraderInitialGrace then interval else downgraderInitialGrace)"

definition Downgrader_Run :: "go_error option \<Rightarrow> gotime \<Rightarrow> frule list \<times> fetcher_cache \<Rightarrow> frule list \<times> fetcher_cache" where
  "Downgrader_Run db now s =
     (case BulkDowngradeAutoUpgraded db now (fst s) of
        (Inl _, rows) \<Rightarrow> (rows, snd s)
      | (Inr changed, rows) \<Rightarrow> (rows, fold fetcher_Invalidate changed (snd s)))"

section \<open>The table keeps its constraints\<close>

definition frules_ok :: "url_lib \<Rightarrow> frule list \<Rightarrow> bool" where
  "frules_ok L rows \<longleftrightarrow> distinct (map fl_host rows)
     \<and> (\<forall>x\<in>set rows. fl_host x \<noteq> [] \<and> canonicalizeHost L (fl_host x) = fl_host x \<and> FetcherKind_IsValid (fl_fetcher x))"

definition canonical_lib :: "url_lib \<Rightarrow> bool" where
  "canonical_lib L \<longleftrightarrow> (\<forall>h. canonicalizeHost L (canonicalizeHost L h) = canonicalizeHost L h)"

lemma fl_host_set [simp]: "fl_host (set_fetcher now k why x) = fl_host x" "fl_fetcher (set_fetcher now k why x) = k"
    "fl_reason (set_fetcher now k why x) = why" "fl_priority_raw (set_fetcher now k why x) = fl_priority_raw x"
  by (simp_all add: set_fetcher_def)

lemma map_host_kept [simp]:
  "(\<And>x. fl_host (f x) = fl_host x) \<Longrightarrow> map fl_host (map (\<lambda>x. if P x then f x else x) rows) = map fl_host rows"
  by (induction rows) simp_all

lemma Upsert_keeps_ok:
  assumes "canonical_lib (fd_lib D)" and "frules_ok (fd_lib D) rows"
    and "fetcher_Upsert D db fresh now host k why rows = (e, rows')"
  shows "frules_ok (fd_lib D) rows'"
proof -
  define h where "h = canonicalizeHost (fd_lib D) host"
  have can: "canonicalizeHost (fd_lib D) h = h" using assms(1) by (simp add: canonical_lib_def h_def)
  show ?thesis
  proof (cases "h \<noteq> [] \<and> FetcherKind_IsValid k \<and> db = None")
    case False
    then have "rows' = rows"
      using assms(3) by (auto simp: fetcher_Upsert_def Let_def h_def [symmetric] split: if_splits option.splits)
    then show ?thesis using assms(2) by simp
  next
    case go: True
    show ?thesis
    proof (cases "list_ex (\<lambda>x. fl_host x = h) rows")
      case True
      then have eq: "rows' = map (\<lambda>x. if fl_host x = h then set_fetcher now k why x else x) rows"
        using assms(3) go by (simp add: fetcher_Upsert_def Let_def h_def [symmetric])
      have "map fl_host rows' = map fl_host rows" unfolding eq by simp
      moreover have "fl_host x \<noteq> [] \<and> canonicalizeHost (fd_lib D) (fl_host x) = fl_host x \<and> FetcherKind_IsValid (fl_fetcher x)"
        if x: "x \<in> set rows'" for x
      proof -
        obtain y where "y \<in> set rows" and "x = (if fl_host y = h then set_fetcher now k why y else y)"
          using x unfolding eq by auto
        then show ?thesis using assms(2) go can by (auto simp: frules_ok_def)
      qed
      ultimately show ?thesis using assms(2) unfolding frules_ok_def by simp
    next
      case False
      then have "rows' = rows @ [new_frule fresh now h k why]"
        using assms(3) go by (simp add: fetcher_Upsert_def Let_def h_def [symmetric])
      then show ?thesis
        using assms(2) go can False by (auto simp: frules_ok_def new_frule_def list_ex_iff)
    qed
  qed
qed

lemma downgrade_keeps_ok:
  assumes "frules_ok L rows" and "BulkDowngradeAutoUpgraded db now rows = (res, rows')"
  shows "frules_ok L rows'"
proof (cases db)
  case None
  then have eq: "rows' = map (\<lambda>x. if auto_upgraded x then x\<lparr>fl_fetcher := FetcherGoQuery, fl_updated := now\<rparr> else x) rows"
    using assms(2) by (simp add: BulkDowngradeAutoUpgraded_def)
  have "map fl_host rows' = map fl_host rows" unfolding eq by simp
  moreover have "fl_host x \<noteq> [] \<and> canonicalizeHost L (fl_host x) = fl_host x \<and> FetcherKind_IsValid (fl_fetcher x)"
    if "x \<in> set rows'" for x
    using that assms(1) unfolding eq by (auto simp: frules_ok_def FetcherKind_IsValid_def)
  ultimately show ?thesis using assms(1) unfolding frules_ok_def by simp
next
  case (Some err)
  then show ?thesis using assms by (simp add: BulkDowngradeAutoUpgraded_def)
qed

lemma Delete_keeps_ok:
  "frules_ok (fd_lib D) rows \<Longrightarrow> fetcher_Delete D db host rows = (e, rows') \<Longrightarrow> frules_ok (fd_lib D) rows'"
  by (auto simp: fetcher_Delete_def frules_ok_def distinct_map_filter Let_def split: option.splits)

lemma find_unique:
  assumes "distinct (map f rows)" and "x \<in> set rows"
  shows "find (\<lambda>y. f y = f x) rows = Some x"
  using assms
proof (induction rows)
  case (Cons y ys)
  show ?case
  proof (cases "y = x")
    case False
    then have "x \<in> set ys" using Cons.prems(2) by simp
    then have "f y \<noteq> f x" using Cons.prems(1) by (metis distinct.simps(2) image_eqI list.set_map list.simps(9))
    then show ?thesis using Cons.IH Cons.prems(1) \<open>x \<in> set ys\<close> by simp
  qed simp
qed simp

section \<open>What a lookup answers\<close>

text \<open>The row of a host and the answers it gives: its fetcher, unless its priority settings cannot be read.\<close>

definition readable :: "frule_db \<Rightarrow> frule \<Rightarrow> bool" where
  "readable D x \<longleftrightarrow> \<not> isl (ParsePriorityConfig (ul_lower (fd_lib D)) (fd_decode D) (fl_priority_raw x))"

lemma GetByHost_found:
  assumes "find (\<lambda>x. fl_host x = canonicalizeHost (fd_lib D) host) rows = Some x" and "readable D x"
  shows "\<exists>rec. fetcher_GetByHost D None host rows = Inr rec \<and> fl_fetcher rec = fl_fetcher x \<and> fl_rph rec = fl_rph x"
  using assms by (auto simp: fetcher_GetByHost_def readable_def frule_record_of_def Let_def split: sum.splits)

lemma table_answer_found:
  assumes "find (\<lambda>x. fl_host x = canonicalizeHost (fd_lib D) host) rows = Some x" and "readable D x"
  shows "table_answer D None host rows = Inr \<lparr>rr_found = True, rr_fetcher = fl_fetcher x\<rparr>"
  using GetByHost_found [OF assms] by (auto simp: table_answer_def)

lemma table_answer_absent:
  "find (\<lambda>x. fl_host x = canonicalizeHost (fd_lib D) host) rows = None \<Longrightarrow> table_answer D None host rows = Inr no_rule"
  by (simp add: table_answer_def fetcher_GetByHost_def Let_def)

lemma table_answer_error: "table_answer D db host rows = Inl err \<Longrightarrow>
    (\<exists>e. db = Some e) \<or> (\<exists>x\<in>set rows. fl_host x = canonicalizeHost (fd_lib D) host \<and> \<not> readable D x)"
  by (auto simp: table_answer_def fetcher_GetByHost_def readable_def Let_def find_Some_iff set_conv_nth
      split: option.splits sum.splits if_splits)

lemma find_map_host:
  assumes "\<And>x. fl_host (f x) = fl_host x"
  shows "find (\<lambda>x. fl_host x = h) (map f rows) = map_option f (find (\<lambda>x. fl_host x = h) rows)"
  using assms by (induction rows) simp_all

section \<open>Ids are kept until their pages are on the bus\<close>

definition quiet :: "('r, 'e) client_env_scheme \<Rightarrow> bool" where
  "quiet E \<longleftrightarrow> (\<forall>n. cl_others E n = (\<lambda>r. r))"

definition tracked_ids :: "'r zredis_ops \<Rightarrow> raw_tracker \<Rightarrow> 'r \<Rightarrow> string \<Rightarrow> string set" where
  "tracked_ids R K r host = snd ` set (rd_zall R (tracker_keyFor K host) r)"

lemma tracker_key_inj [simp]: "tracker_keyFor K h = tracker_keyFor K h' \<longleftrightarrow> h = h'"
  by (simp add: tracker_keyFor_def)

text \<open>A page that cannot be crawled again: not read from the store, without address, or its job cannot be encoded.\<close>

definition stale_id :: "('r, 'w) up_env \<Rightarrow> string \<Rightarrow> bool" where
  "stale_id E i \<longleftrightarrow> (\<exists>n. case ue_raw E n i of
       Inl _ \<Rightarrow> True
     | Inr None \<Rightarrow> True
     | Inr (Some raw) \<Rightarrow> rc_url raw = [] \<or> (\<exists>job. tg_url (job_target job) = rc_url raw \<and> isl (ue_marshal E job)))"

definition original_raw :: "message \<Rightarrow> string option" where "original_raw m = m_headers m ''original_raw_id''"

definition on_the_bus :: "string \<Rightarrow> ('r, 'w) up_state \<Rightarrow> bool" where
  "on_the_bus i s \<longleftrightarrow> (\<exists>msgs. did (PublishBatch msgs) (us_bus s) \<and> Some i \<in> original_raw ` set msgs)"

abbreviation same_shared :: "('r, 'w) up_state \<Rightarrow> ('r, 'w) up_state \<Rightarrow> bool" where
  "same_shared s s' \<equiv> us_rows s' = us_rows s \<and> us_cache s' = us_cache s \<and> us_bus s' = us_bus s"

lemma quiet_elapse: "quiet E \<Longrightarrow> cl_elapse E s = s\<lparr>cl_step := Suc (cl_step s)\<rparr>"
  by (simp add: quiet_def cl_elapse_def)

lemma quiet_read:
  "quiet E \<Longrightarrow> cl_db (snd (run_query E (\<lambda>now r. (f now r, r)) s)) = cl_db s"
  by (simp add: run_query_def quiet_elapse Let_def split: pipe.split)

lemma query_shared: "same_shared s (snd (run_query E c s))"
  by (simp add: run_query_def cl_elapse_def Let_def split_beta split: pipe.split)

lemma upgrade_job_url [simp]: "tg_url (job_target (upgrade_job E i raw s)) = rc_url raw"
  by (simp add: upgrade_job_def Let_def)

lemma isl_Inl: "x = Inl e \<Longrightarrow> isl x"
  by simp

lemma prepare_raw_spec:
  assumes "quiet E" and "prepare_raw E i s = (mo, s')"
  shows "cl_db s' = cl_db s" and "same_shared s s'" and "mo = None \<Longrightarrow> stale_id E i"
    and "mo = Some m \<Longrightarrow> original_raw m = Some i"
proof -
  show "cl_db s' = cl_db s" "same_shared s s'"
    using assms by (auto simp: prepare_raw_def quiet_elapse Let_def)
  show "stale_id E i" if "mo = None"
  proof -
    let ?n = "Suc (cl_step s)"
    have "case ue_raw E ?n i of Inl _ \<Rightarrow> True | Inr None \<Rightarrow> True
       | Inr (Some raw) \<Rightarrow> rc_url raw = [] \<or> (\<exists>job. tg_url (job_target job) = rc_url raw \<and> isl (ue_marshal E job))"
      using assms that
      by (auto simp: prepare_raw_def quiet_elapse Let_def intro!: exI [of _ "upgrade_job E i _ _"] dest!: isl_Inl
          split: sum.splits option.splits if_splits)
    then show ?thesis unfolding stale_id_def by (rule exI)
  qed
  show "original_raw m = Some i" if "mo = Some m"
    using assms that
    by (auto simp: prepare_raw_def Let_def original_raw_def upgrade_message_def split: sum.splits option.splits if_splits)
qed

lemma prepare_raws_spec:
  assumes "quiet E" and "prepare_raws E ids s = ((msgs, sent, stale), s')"
  shows "cl_db s' = cl_db s \<and> same_shared s s' \<and> (\<forall>i\<in>set stale. stale_id E i)
    \<and> map original_raw msgs = map Some sent \<and> set sent \<union> set stale = set ids"
  using assms(2)
proof (induction ids arbitrary: s msgs sent stale)
  case (Cons i ids)
  obtain mo s1 where p: "prepare_raw E i s = (mo, s1)" by (rule prod.exhaust)
  obtain ms sn st s2 where rest: "prepare_raws E ids s1 = ((ms, sn, st), s2)" by (metis prod.exhaust)
  have "s2 = s'" using Cons.prems by (simp add: p rest split: option.splits)
  note ih = Cons.IH [OF rest [unfolded this]] and one = prepare_raw_spec [OF assms(1) p]
  show ?case using Cons.prems ih one \<open>s2 = s'\<close> by (auto simp: p rest split: option.splits)
qed simp

lemma fold_zrem:
  assumes "zredis_ok R"
  shows "set (rd_zall R k' (fold (rd_zrem R k) ms r))
    = (if k' = k then {e \<in> set (rd_zall R k r). snd e \<notin> set ms} else set (rd_zall R k' r))"
proof -
  note laws = redis_zsets.z_rem [OF assms]
  show ?thesis by (induction ms arbitrary: r) (auto simp: laws)
qed

lemma RemoveByHost_spec:
  assumes "quiet E" and "zredis_ok (cl_redis E)" and "RemoveByHost E K host ids s = (e, s')"
  shows "same_shared s s' \<and> (\<forall>h i. i \<in> tracked_ids (cl_redis E) K (cl_db s) h
      \<longrightarrow> i \<notin> tracked_ids (cl_redis E) K (cl_db s') h \<longrightarrow> h = host \<and> i \<in> set ids)"
proof -
  let ?ms = "filter (\<lambda>i. i \<noteq> []) ids"
  let ?q = "run_query E (\<lambda>_ r. ((), fold (rd_zrem (cl_redis E) (tracker_keyFor K host)) ?ms r)) s"
  have "s' = s \<or> s' = snd ?q"
    using assms(3) by (auto simp: RemoveByHost_def Let_def split: if_splits sum.splits prod.splits)
  moreover have "cl_db (snd ?q) \<in> {cl_db s, fold (rd_zrem (cl_redis E) (tracker_keyFor K host)) ?ms (cl_db s)}"
    by (simp add: run_query_def quiet_elapse [OF assms(1)] Let_def split: pipe.split)
  ultimately have "same_shared s s'"
    and "cl_db s' \<in> {cl_db s, fold (rd_zrem (cl_redis E) (tracker_keyFor K host)) ?ms (cl_db s)}"
    using query_shared [where E = E and s = s] by auto
  then show ?thesis
    by (auto simp: tracked_ids_def fold_zrem [OF assms(2)] image_iff split: if_splits)
qed

abbreviation tracked_at :: "('r, 'w) up_env \<Rightarrow> ('r, 'w) up_state \<Rightarrow> string \<Rightarrow> string set" where
  "tracked_at E s \<equiv> tracked_ids (cl_redis E) (ue_tracker E) (cl_db s)"

lemma upgrade_lock_spec:
  assumes "quiet E" and "zredis_ok (cl_redis E)" and "upgrade_lock E host s = (b, s')"
  shows "same_shared s s'" and "tracked_at E s' = tracked_at E s"
proof -
  let ?q = "run_query E (\<lambda>now. set_nx (rd_get (cl_redis E)) (rd_setx (cl_redis E)) now
              (upgrade_lock_key host) ''1'' upgraderInflightTTL) s"
  have s': "s' = s \<or> s' = snd ?q"
    using assms(3) by (auto simp: upgrade_lock_def split: if_splits sum.splits prod.splits)
  have "rd_zall (cl_redis E) k (cl_db (snd ?q)) = rd_zall (cl_redis E) k (cl_db s)" for k
    using redis_zsets.z_strings(1) [OF assms(2)]
    by (simp add: run_query_def quiet_elapse [OF assms(1)] Let_def set_nx_def split: pipe.split if_splits)
  then show "tracked_at E s' = tracked_at E s"
    using s' by (auto simp: tracked_ids_def fun_eq_iff)
  show "same_shared s s'" using s' query_shared [where E = E and s = s] by auto
qed

lemma up_sql_spec:
  "quiet E \<Longrightarrow> up_sql E s = (db, s') \<Longrightarrow> cl_db s' = cl_db s \<and> us_cache s' = us_cache s \<and> us_bus s' = us_bus s"
  by (auto simp: up_sql_def quiet_elapse Let_def)

lemma wants_upgrade_spec:
  "quiet E \<Longrightarrow> wants_upgrade E host s = (b, s') \<Longrightarrow> cl_db s' = cl_db s \<and> us_cache s' = us_cache s \<and> us_bus s' = us_bus s"
  by (auto simp: wants_upgrade_def dest: up_sql_spec split: prod.splits)

lemma upgrade_row_spec:
  "quiet E \<Longrightarrow> upgrade_row E host s = (e, s') \<Longrightarrow> cl_db s' = cl_db s \<and> us_cache s' = us_cache s \<and> us_bus s' = us_bus s"
  by (auto simp: upgrade_row_def dest: up_sql_spec split: prod.splits)

lemma PeekByHost_spec:
  assumes "quiet E" and "PeekByHost E K host limit s = (res, s')"
  shows "cl_db s' = cl_db s \<and> same_shared s s'"
  using assms by (auto simp: PeekByHost_def run_query_def quiet_elapse Let_def split: if_splits sum.splits prod.splits pipe.splits)

lemma republishRaws_spec:
  assumes "quiet E" and "zredis_ok (cl_redis E)" and "s' = republishRaws E host ids s"
  shows "us_rows s' = us_rows s \<and> us_cache s' = us_cache s
    \<and> (\<forall>h i. i \<in> tracked_at E s h \<longrightarrow> i \<notin> tracked_at E s' h \<longrightarrow> h = host \<and> (stale_id E i \<or> on_the_bus i s'))"
proof -
  obtain msgs sent stale s1 where prep: "prepare_raws E ids s = ((msgs, sent, stale), s1)" by (metis prod.exhaust)
  note p = prepare_raws_spec [OF assms(1) prep]
  have msgs: "original_raw ` set msgs = Some ` set sent" using p by (metis list.set_map)
  show ?thesis
  proof (cases "msgs = []")
    case True
    obtain e s2 where rem: "RemoveByHost E (ue_tracker E) host stale s1 = (e, s2)" by (rule prod.exhaust)
    have "s' = s1 \<or> s' = s2" using assms(3) True by (auto simp: republishRaws_def prep rem)
    then show ?thesis using p RemoveByHost_spec [OF assms(1,2) rem] by auto
  next
    case False
    obtain pe b where pub: "PublishUpgrade (ue_bus E) host msgs (us_bus s1) = (pe, b)" by (rule prod.exhaust)
    show ?thesis
    proof (cases pe)
      case (Some err)
      then have "s' = s1\<lparr>us_bus := b\<rparr>" using assms(3) False by (simp add: republishRaws_def prep pub)
      then show ?thesis using p by simp
    next
      case None
      obtain e s2 where rem: "RemoveByHost E (ue_tracker E) host (sent @ stale) (s1\<lparr>us_bus := b\<rparr>) = (e, s2)" by (rule prod.exhaust)
      have s': "s' = s2" using assms(3) False None by (simp add: republishRaws_def prep pub rem)
      have b: "did (PublishBatch msgs) b"
        using pub None False by (auto simp: PublishUpgrade_def perform_did split: prod.splits option.splits)
      note r = RemoveByHost_spec [OF assms(1,2) rem]
      have "on_the_bus i s'" if "i \<in> set sent" for i
        unfolding on_the_bus_def using that b r msgs s' by (intro exI [of _ msgs]) auto
      then have "\<forall>i\<in>set ids. stale_id E i \<or> on_the_bus i s'" using p by (metis UnE)
      then show ?thesis using p r s' by auto
    qed
  qed
qed

text \<open>C22. An id of a failed page is forgotten only when its page is on the bus again. If other clients leave Redis
  alone, then an id that was recorded for a host before an upgrade of any host and is not recorded after it was
  recorded for the upgraded host, and either a batch with a message for it was published, or its page could not be
  read, has no address, or its job could not be encoded: a refused batch, a table that cannot be read or written and
  every failure of Redis keep it.\<close>
theorem upgrade_keeps_failed_ids:
  assumes "quiet E" and "zredis_ok (cl_redis E)"
    and "i \<in> tracked_at E s h" and "i \<notin> tracked_at E (Trigger E host s) h"
  shows "h = host \<and> (stale_id E i \<or> on_the_bus i (Trigger E host s))"
proof -
  obtain free s1 where l: "upgrade_lock E host s = (free, s1)" by (rule prod.exhaust)
  obtain wanted s2 where w: "wants_upgrade E host s1 = (wanted, s2)" by (rule prod.exhaust)
  obtain e s3 where u: "upgrade_row E host s2 = (e, s3)" by (rule prod.exhaust)
  obtain res s4 where p: "PeekByHost E (ue_tracker E) host upgraderMaxRepublishPerCycle
      (s3\<lparr>us_cache := fetcher_Invalidate host (us_cache s3)\<rparr>) = (res, s4)" by (rule prod.exhaust)
  note l' = upgrade_lock_spec [OF assms(1,2) l] and w' = wants_upgrade_spec [OF assms(1) w]
    and u' = upgrade_row_spec [OF assms(1) u] and p' = PeekByHost_spec [OF assms(1) p]
  have same: "tracked_at E s1 = tracked_at E s" "tracked_at E s2 = tracked_at E s" "tracked_at E s3 = tracked_at E s"
      "tracked_at E s4 = tracked_at E s"
    using l' w' u' p' by simp_all
  show ?thesis
  proof (cases "\<exists>ids. host \<noteq> [] \<and> free \<and> wanted \<and> e = None \<and> res = Inr ids \<and> ids \<noteq> []")
    case True
    then obtain ids where "Trigger E host s = republishRaws E host ids s4"
      by (auto simp: Trigger_def l w u p Let_def)
    from republishRaws_spec [OF assms(1,2) this] show ?thesis using assms(3,4) same(4) by auto
  next
    case False
    then have "Trigger E host s \<in> {s, s1, s2, s3, s4}"
      by (auto simp: Trigger_def l w u p Let_def split: option.splits sum.splits)
    then show ?thesis using assms(3,4) same by auto
  qed
qed

section \<open>What an upgrade and a downgrade do\<close>

text \<open>
  The ids whose batch was refused, or that were beyond the first twenty, stay recorded, but no later trigger
  publishes them: it stops at the row the first one wrote.
\<close>

theorem upgraded_host_not_retried:
  assumes "quiet E" and "zredis_ok (cl_redis E)" and "\<forall>n. ue_sql E n = None" and "\<forall>n. ue_tables E n = (\<lambda>r. r)"
    and "find (\<lambda>x. fl_host x = canonicalizeHost (fd_lib (ue_db E)) host) (us_rows s) = Some x"
    and "fl_fetcher x = FetcherChromedp" and "readable (ue_db E) x"
  shows "same_shared s (Trigger E host s) \<and> tracked_at E (Trigger E host s) = tracked_at E s"
proof -
  obtain free s1 where l: "upgrade_lock E host s = (free, s1)" by (rule prod.exhaust)
  obtain wanted s2 where w: "wants_upgrade E host s1 = (wanted, s2)" by (rule prod.exhaust)
  note l' = upgrade_lock_spec [OF assms(1,2) l] and w' = wants_upgrade_spec [OF assms(1) w]
  obtain rec where rec: "fetcher_GetByHost (ue_db E) None host (us_rows s) = Inr rec" "fl_fetcher rec = FetcherChromedp"
    using GetByHost_found [OF assms(5,7)] assms(6) by auto
  have "\<not> wanted" and "us_rows s2 = us_rows s1"
    using w l' rec assms(3,4) by (auto simp: wants_upgrade_def up_sql_def quiet_elapse [OF assms(1)] Let_def)
  then have "Trigger E host s \<in> {s, s1, s2}" by (auto simp: Trigger_def l w)
  then show ?thesis using l' w' \<open>us_rows s2 = us_rows s1\<close> by auto
qed

text \<open>The row an upgrade leaves for the host, and the answers that follow.\<close>

definition upgraded_rows :: "url_lib \<Rightarrow> int \<Rightarrow> gotime \<Rightarrow> string \<Rightarrow> frule list \<Rightarrow> frule list" where
  "upgraded_rows L fresh now host rows =
     (if list_ex (\<lambda>x. fl_host x = canonicalizeHost L host) rows
      then map (\<lambda>x. if fl_host x = canonicalizeHost L host then set_fetcher now FetcherChromedp AutoUpgradeReason x else x) rows
      else rows @ [new_frule fresh now (canonicalizeHost L host) FetcherChromedp AutoUpgradeReason])"

lemma Upsert_upgrades:
  "canonicalizeHost (fd_lib D) host \<noteq> [] \<Longrightarrow>
    fetcher_Upsert D None fresh now host FetcherChromedp AutoUpgradeReason rows = (None, upgraded_rows (fd_lib D) fresh now host rows)"
  by (simp add: fetcher_Upsert_def upgraded_rows_def FetcherKind_IsValid_def Let_def)

lemma find_append_one: "find P (xs @ [x]) = (case find P xs of Some y \<Rightarrow> Some y | None \<Rightarrow> if P x then Some x else None)"
  by (induction xs) auto

lemma find_list_ex: "list_ex P xs \<longleftrightarrow> find P xs \<noteq> None"
  by (induction xs) auto

lemma upgraded_answers:
  assumes "\<And>x. x \<in> set rows \<Longrightarrow> fl_host x = canonicalizeHost (fd_lib D) host \<Longrightarrow> readable D x"
  shows "table_answer D None h (upgraded_rows (fd_lib D) fresh now host rows)
    = (if canonicalizeHost (fd_lib D) h = canonicalizeHost (fd_lib D) host
       then Inr \<lparr>rr_found = True, rr_fetcher = FetcherChromedp\<rparr> else table_answer D None h rows)"
proof -
  let ?c = "canonicalizeHost (fd_lib D)" and ?rows = "upgraded_rows (fd_lib D) fresh now host rows"
  have readable: "readable D (set_fetcher now FetcherChromedp AutoUpgradeReason x) = readable D x" for x
    by (simp add: readable_def)
  have new: "readable D (new_frule fresh now (?c host) FetcherChromedp AutoUpgradeReason)"
    by (simp add: readable_def new_frule_def ParsePriorityConfig_def)
  have found: "find (\<lambda>x. fl_host x = ?c h) ?rows = (if ?c h = ?c host
      then Some (case find (\<lambda>x. fl_host x = ?c host) rows of
          Some x \<Rightarrow> set_fetcher now FetcherChromedp AutoUpgradeReason x
        | None \<Rightarrow> new_frule fresh now (?c host) FetcherChromedp AutoUpgradeReason)
      else find (\<lambda>x. fl_host x = ?c h) rows)"
  proof (cases "find (\<lambda>x. fl_host x = ?c host) rows")
    case None
    then show ?thesis
      by (auto simp: upgraded_rows_def find_list_ex find_append_one new_frule_def split: option.split)
  next
    case (Some y)
    have "find (\<lambda>x. fl_host x = k) (map (\<lambda>x. if fl_host x = ?c host then set_fetcher now FetcherChromedp AutoUpgradeReason x else x) rows)
      = map_option (\<lambda>x. if fl_host x = ?c host then set_fetcher now FetcherChromedp AutoUpgradeReason x else x)
          (find (\<lambda>x. fl_host x = k) rows)" for k
      by (rule find_map_host) simp
    moreover have "fl_host y = ?c host" using Some by (auto simp: find_Some_iff)
    moreover have "fl_host x = ?c h" if "find (\<lambda>x. fl_host x = ?c h) rows = Some x" for x using that by (auto simp: find_Some_iff)
    ultimately show ?thesis using Some
      by (cases "find (\<lambda>x. fl_host x = ?c h) rows") (auto simp: upgraded_rows_def find_list_ex)
  qed
  show ?thesis
  proof (cases "?c h = ?c host")
    case True
    let ?x = "case find (\<lambda>x. fl_host x = ?c host) rows of
          Some x \<Rightarrow> set_fetcher now FetcherChromedp AutoUpgradeReason x
        | None \<Rightarrow> new_frule fresh now (?c host) FetcherChromedp AutoUpgradeReason"
    have r: "readable D ?x"
      using assms new readable by (auto simp: find_Some_iff split: option.split)
    have "fl_fetcher ?x = FetcherChromedp" by (simp add: new_frule_def split: option.split)
    then show ?thesis using table_answer_found [OF _ r, of h ?rows] found True by simp
  next
    case False
    then show ?thesis using found by (simp add: table_answer_def fetcher_GetByHost_def Let_def)
  qed
qed

text \<open>A call of \<^verbatim>\<open>Resolve\<close> that no other goroutine disturbs, on a database that answers.\<close>

definition plain_call :: "frule list \<Rightarrow> resolve_call \<Rightarrow> bool" where
  "plain_call rows c \<longleftrightarrow> vc_shared c = None \<and> vc_before c = (\<lambda>m. m) \<and> vc_during c = (\<lambda>m. m) \<and> vc_db c = None \<and> vc_rows c = rows"

lemma plain_Resolve:
  assumes "plain_call rows c" and "cache host = None" and "host \<noteq> []"
  shows "fst (fetcher_Resolve D ttl c host cache) = table_answer D None host rows"
  using assms by (simp add: plain_call_def fetcher_Resolve_def fresh_entry_def Let_def split: sum.split)


lemma Run_cache:
  assumes "Downgrader_Run None now (rows, cache) = (rows', cache')"
  shows "cache' h = (if \<exists>x\<in>set rows. auto_upgraded x \<and> fl_host x = h then None else cache h)"
proof -
  have fold_inv: "fold fetcher_Invalidate hs m h = (if h \<in> set hs then None else m h)" for hs m h
    by (induction hs arbitrary: m) (auto simp: fetcher_Invalidate_def)
  have "cache' = fold fetcher_Invalidate (map fl_host (filter auto_upgraded rows)) cache"
    using assms by (simp add: Downgrader_Run_def BulkDowngradeAutoUpgraded_def)
  then show ?thesis unfolding fold_inv by auto
qed

text \<open>The downgrade undoes upgrades and nothing else. After a run that the database executed: the rows the upgrader
  wrote have their host and reason and are fetched without a browser, every other row is as it was, a second run changes
  nothing, no cached answer of a downgraded host is left under its stored name, so that the next undisturbed Resolve
  answers what the table says, and the cache is otherwise as it was.\<close>
theorem downgrade_resets_upgrades:
  assumes "Downgrader_Run None now (rows, cache) = (rows', cache')"
  shows "rows' = map (\<lambda>x. if auto_upgraded x then x\<lparr>fl_fetcher := FetcherGoQuery, fl_updated := now\<rparr> else x) rows
    \<and> Downgrader_Run None now2 (rows', cache') = (rows', cache')
    \<and> (\<forall>h. cache' h = (if \<exists>x\<in>set rows. auto_upgraded x \<and> fl_host x = h then None else cache h))
    \<and> (\<forall>x c ttl. x \<in> set rows \<longrightarrow> auto_upgraded x \<longrightarrow> plain_call rows' c \<longrightarrow> fl_host x \<noteq> [] \<longrightarrow>
         fst (fetcher_Resolve D ttl c (fl_host x) cache') = table_answer D None (fl_host x) rows')"
proof -
  have rows': "rows' = map (\<lambda>x. if auto_upgraded x then x\<lparr>fl_fetcher := FetcherGoQuery, fl_updated := now\<rparr> else x) rows"
    using assms by (simp_all add: Downgrader_Run_def BulkDowngradeAutoUpgraded_def)
  have none: "\<not> auto_upgraded x" if "x \<in> set rows'" for x
    using that unfolding rows' by (auto simp: auto_upgraded_def fetcher_kinds)
  then have again: "filter auto_upgraded rows' = []" by (simp add: filter_empty_conv)
  have "map (\<lambda>x. if auto_upgraded x then x\<lparr>fl_fetcher := FetcherGoQuery, fl_updated := now2\<rparr> else x) rows' = rows'"
    using none by (auto intro: map_idI)
  then have "Downgrader_Run None now2 (rows', cache') = (rows', cache')"
    using again by (simp add: Downgrader_Run_def BulkDowngradeAutoUpgraded_def)
  moreover have c: "cache' h = (if \<exists>x\<in>set rows. auto_upgraded x \<and> fl_host x = h then None else cache h)" for h
    using Run_cache [OF assms] .
  moreover have "fst (fetcher_Resolve D ttl c (fl_host x) cache') = table_answer D None (fl_host x) rows'"
    if "x \<in> set rows" "auto_upgraded x" "plain_call rows' c" "fl_host x \<noteq> []" for x c ttl
  proof (rule plain_Resolve [OF that(3) _ that(4)])
    show "cache' (fl_host x) = None" using c [of "fl_host x"] that(1,2) by auto
  qed
  ultimately show ?thesis using rows' by blast
qed

section \<open>What the cache and the settings can hide\<close>

text \<open>
  An answer read from the table is cached when the query returns, whatever was done to the cache meanwhile: an
  invalidation during the query does not keep the old answer out, which then serves until it expires.
\<close>

theorem stale_flight_kept:
  assumes "host \<noteq> []" and "vc_shared c = None" and "fresh_entry ttl (vc_now c) host cache = None"
    and "fresh_entry ttl (vc_again c) host (vc_before c cache) = None"
    and "fetcher_Resolve D ttl c host cache = (Inr v, cache')" and "vc_now c' - vc_stored c < ttl"
  shows "table_answer D (vc_db c) host (vc_rows c) = Inr v \<and> fetcher_Resolve D ttl c' host cache' = (Inr v, cache')"
proof -
  have a: "table_answer D (vc_db c) host (vc_rows c) = Inr v"
    and "cache' = (vc_during c (vc_before c cache))(host \<mapsto> (v, vc_stored c))"
    using assms(1-5) by (auto simp: fetcher_Resolve_def Let_def split: sum.splits)
  then have "fresh_entry ttl (vc_now c') host cache' = Some v" using assms(6) by (simp add: fresh_entry_def)
  then show ?thesis using a assms(1) by (simp add: fetcher_Resolve_def)
qed

text \<open>The downgrade leaves the answers cached under any other spelling of a host than the stored one.\<close>

theorem downgrade_misses_spelling:
  assumes "frules_ok L rows" and "canonicalizeHost L h \<noteq> h" and "Downgrader_Run None now (rows, cache) = (rows', cache')"
  shows "cache' h = cache h"
  using Run_cache [OF assms(3), of h] assms(1,2) unfolding frules_ok_def by metis

text \<open>Priority settings that cannot be read hide the fetcher of their host, too.\<close>

theorem unreadable_settings_hide_rule:
  assumes "find (\<lambda>x. fl_host x = canonicalizeHost (fd_lib D) host) rows = Some x" and "\<not> readable D x"
  shows "\<exists>err. fetcher_GetByHost D None host rows = Inl err"
  using assms by (auto simp: fetcher_GetByHost_def readable_def Let_def split: sum.splits)

section \<open>Concrete runs\<close>

definition sample_page :: raw_content where
  "sample_page = \<lparr>rc_id = ''i'', rc_source = \<lparr>si_country = [], si_type = [], si_name = ''s'', si_base_url = [], si_language = []\<rparr>,
     rc_fetched_at = 0, rc_url = ''https://h/a'', rc_html = [], rc_status = 200, rc_headers = Map.empty, rc_meta = Map.empty\<rparr>"

definition sample_up_env :: "gotime \<Rightarrow> (act, unit) io \<Rightarrow> (ref_redis, unit) up_env" where
  "sample_up_env t bus =
     \<lparr>cl_redis = ref_zops, cl_clock = (\<lambda>_. t), cl_pipe = (\<lambda>_. PipeOk), cl_others = (\<lambda>_ r. r), te_expire = (\<lambda>_ _ _ r. r),
      ue_db = \<lparr>fd_lib = text_lib, fd_decode = (\<lambda>_. Inl (Opaque [])), fd_arrange = id\<rparr>, ue_sql = (\<lambda>_. None),
      ue_tables = (\<lambda>_ r. r), ue_serial = int, ue_tracker = \<lparr>rk_prefix = ''p'', rk_ttl = hour, rk_fresh = 0, rk_float = id\<rparr>,
      ue_lock = True, ue_raw = (\<lambda>_ i. if i = ''i'' then Inr (Some sample_page) else Inr None), ue_token = ''t'',
      ue_random = (\<lambda>_. Inr ''r''), ue_priority = None, ue_marshal = (\<lambda>j. Inr (job_id j)), ue_bus = bus\<rparr>"

definition sample_up_state :: "(ref_redis, unit) up_state" where
  "sample_up_state = \<lparr>cl_step = 0, cl_db = ref_zadd ''p:h'' 2 ''j'' (ref_zadd ''p:h'' 1 ''i'' ref_empty),
     us_rows = [], us_cache = [''h'' \<mapsto> (no_rule, 0)], us_bus = ((), [])\<rparr>"

lemma sample_up_env_ok:
  "alone (sample_up_env t bus) t" "quiet (sample_up_env t bus)" "cl_redis (sample_up_env t bus) = ref_zops"
  "ue_sql (sample_up_env t bus) n = None" "ue_tables (sample_up_env t bus) n = (\<lambda>r. r)"
  by (simp_all add: sample_up_env_def alone_def quiet_def)

theorem upgrade_keeps_failed_ids_witness:
  "let E = sample_up_env 5 (\<lambda>_ w. (None, w)); s' = Trigger E ''h'' sample_up_state
   in rd_zall ref_zops ''p:h'' (cl_db s') = [] \<and> (stale_id E ''i'' \<or> on_the_bus ''i'' s')"
proof -
  let ?E = "sample_up_env 5 (\<lambda>_ w. (None, w))"
  let ?s = "Trigger ?E ''h'' sample_up_state"
  have before: "rd_zall ref_zops ''p:h'' (cl_db sample_up_state) = [(1, ''i''), (2, ''j'')]" by code_simp
  have after: "rd_zall ref_zops ''p:h'' (cl_db ?s) = []" by code_simp
  have key: "tracker_keyFor (ue_tracker ?E) ''h'' = ''p:h''" by code_simp
  have "''i'' \<in> tracked_at ?E sample_up_state ''h''" "''i'' \<notin> tracked_at ?E ?s ''h''"
    unfolding tracked_ids_def key sample_up_env_ok(3) before after by simp_all
  from upgrade_keeps_failed_ids [OF sample_up_env_ok(2) _ this] show ?thesis
    using after by (simp add: sample_up_env_ok(3) ref_zops_ok Let_def)
qed


theorem downgrade_resets_upgrades_witness:
  "let x = set_fetcher 0 FetcherChromedp AutoUpgradeReason (new_frule 1 0 ''h'' FetcherGoQuery ''manual'');
       y = new_frule 2 0 ''g'' FetcherChromedp ''manual'';
       (rows, cache) = Downgrader_Run None 9 ([x, y], [''h'' \<mapsto> (no_rule, 0), ''g'' \<mapsto> (no_rule, 0)])
   in rows = [x\<lparr>fl_fetcher := FetcherGoQuery, fl_updated := 9\<rparr>, y] \<and> cache ''h'' = None \<and> cache ''g'' = Some (no_rule, 0)"
proof -
  define x where "x = set_fetcher 0 FetcherChromedp AutoUpgradeReason (new_frule 1 0 ''h'' FetcherGoQuery ''manual'')"
  define y where "y = new_frule 2 0 ''g'' FetcherChromedp ''manual''"
  have auto: "auto_upgraded x" "\<not> auto_upgraded y" "fl_host x = ''h''" "fl_host y = ''g''"
    by (simp_all add: x_def y_def auto_upgraded_def AutoUpgradeReason_def new_frule_def)
  obtain rows cache where run: "Downgrader_Run None 9 ([x, y], [''h'' \<mapsto> (no_rule, 0), ''g'' \<mapsto> (no_rule, 0)]) = (rows, cache)"
    by (rule prod.exhaust)
  show ?thesis
    unfolding Let_def x_def [symmetric] y_def [symmetric] run prod.case
    using downgrade_resets_upgrades [OF run] auto by simp
qed

end
