(* ===== verification/StageWorker.thy ===== *)
theory StageWorker
  imports Bus
begin

text \<open>
  What the workers of the parser, validate and enrich stages share: the constants and headers of gate skips, the
  forward with its drain retry, the dead letter, and a message the gate turned away. The three workers repeat this code
  (\<^verbatim>\<open>internal/processor/parser/worker/worker.go\<close>, \<^verbatim>\<open>internal/processor/validate/worker/worker.go\<close>,
  \<^verbatim>\<open>internal/processor/enrich/worker/worker.go\<close>); the locale \<open>stage\<close> states what a stage needs for its commits
  to be safe, and is interpreted by the parser and the enrich stage.
\<close>

section \<open>Gate skips\<close>

definition MaxGateSkipRequeues :: int where "MaxGateSkipRequeues = 3"
definition GateSkipDelay :: duration where "GateSkipDelay = (10 * minute) div 2"

definition nonneg_count :: "string \<Rightarrow> int" where
  "nonneg_count raw =
     (if raw = [] then 0
      else (case atoi raw of None \<Rightarrow> 0 | Some n \<Rightarrow> if n < 0 then 0 else n))"

definition parseGateSkipCount :: "headers \<Rightarrow> int" where
  "parseGateSkipCount hs = nonneg_count (hget hs HeaderGateSkipCount)"

definition carryGateSkipCount :: "crawl_job \<Rightarrow> int \<Rightarrow> crawl_job" where
  "carryGateSkipCount job next =
     job\<lparr>job_target := (job_target job)\<lparr>tg_meta :=
       (tg_meta (job_target job))(HeaderGateSkipCount \<mapsto> MStr (int_text next))\<rparr>\<rparr>"

definition isValidTargetType :: "string \<Rightarrow> bool" where
  "isValidTargetType t \<longleftrightarrow> t = TargetTypeArticle \<or> t = TargetTypeCategory"

text \<open>The timeout taken over from a header, in both builders below.\<close>

definition header_timeout :: "headers \<Rightarrow> duration \<Rightarrow> duration" where
  "header_timeout hs dflt =
     (let raw = hget hs HeaderTimeoutMs
      in if raw = [] then dflt
         else (case atoi raw of
                 None \<Rightarrow> dflt
               | Some ms \<Rightarrow> if ms > 0 then ms * millisecond else dflt))"

section \<open>Calls\<close>

text \<open>A call whose answer carries no error, or one that is not an action of the trace.\<close>

definition ask :: "('w \<Rightarrow> 'v \<times> 'w) \<Rightarrow> ('a, 'w) sys \<Rightarrow> 'v \<times> ('a, 'w) sys" where
  "ask f s = (let (v, w) = f (fst s) in (v, (w, snd s)))"

text \<open>The entry of a call that was asked for.\<close>

definition note_call :: "'a \<Rightarrow> go_error option \<Rightarrow> ('a, 'w) sys \<Rightarrow> ('a, 'w) sys" where
  "note_call a err s = (fst s, snd s @ [(a, err)])"

definition stage_forward ::
  "(act, 'w) io \<Rightarrow> publisher option \<Rightarrow> message \<Rightarrow> (act, 'w) sys \<Rightarrow> go_error option \<times> (act, 'w) sys" where
  "stage_forward io pub m s =
     (case Forward io pub m s of
        (None, s1) \<Rightarrow> (None, s1)
      | (Some e, s1) \<Rightarrow> if is_canceled e then Forward io pub m s1 else (Some e, s1))"

definition dlq_message :: "message \<Rightarrow> go_error \<Rightarrow> message" where
  "dlq_message msg reason =
     new_message TopicDLQ (m_key msg) (m_value msg)
       ((m_headers msg)(''original-topic'' \<mapsto> m_topic msg, ''error'' \<mapsto> error_text reason))"

text \<open>\<open>dlq\<close> is the stage's \<^verbatim>\<open>sendToDLQ\<close>, \<open>build\<close> its \<^verbatim>\<open>BuildRetryJob\<close>.\<close>

definition stage_limit_exceeded ::
  "(act, 'w) io \<Rightarrow> (message \<Rightarrow> go_error \<Rightarrow> (act, 'w) sys \<Rightarrow> go_error option \<times> (act, 'w) sys) \<Rightarrow> message
     \<Rightarrow> (act, 'w) sys \<Rightarrow> bool \<times> (act, 'w) sys" where
  "stage_limit_exceeded io dlq msg s =
     (case dlq msg (Sentinel StageGateHeld) s of
        (Some _, s1) \<Rightarrow> (False, s1)
      | (None, s1) \<Rightarrow> (True, snd (CommitWithDrain io msg s1)))"

definition stage_gate_skip ::
  "(act, 'w) io \<Rightarrow> (message \<Rightarrow> go_error \<Rightarrow> (act, 'w) sys \<Rightarrow> go_error option \<times> (act, 'w) sys)
     \<Rightarrow> (gotime \<Rightarrow> message \<Rightarrow> go_error + crawl_job) \<Rightarrow> bool \<Rightarrow> ('w \<Rightarrow> gotime) \<Rightarrow> message
     \<Rightarrow> (act, 'w) sys \<Rightarrow> bool \<times> (act, 'w) sys" where
  "stage_gate_skip io dlq build has_sched now msg s =
     (if \<not> has_sched then (False, s)
      else (let skipCount = parseGateSkipCount (m_headers msg)
            in if MaxGateSkipRequeues \<le> skipCount then stage_limit_exceeded io dlq msg s
               else (case build (now (fst s)) msg of
                       Inl _ \<Rightarrow> (False, s)
                     | Inr job0 \<Rightarrow>
                        (let job = carryGateSkipCount
                               (job0\<lparr>job_scheduled_at := now (fst s) + GateSkipDelay\<rparr>) (skipCount + 1)
                         in case perform io (EnqueueRetry job (Some (Sentinel StageGateHeld))) s of
                              (Some enqErr, s1) \<Rightarrow>
                                (case dlq msg (Wrapped ''gate skip requeue failed'' enqErr) s1 of
                                   (Some _, s2) \<Rightarrow> (False, s2)
                                 | (None, s2) \<Rightarrow> (True, snd (CommitWithDrain io msg s2)))
                            | (None, s1) \<Rightarrow> (True, snd (CommitWithDrain io msg s1))))))"

section \<open>What the calls add to the trace\<close>

lemma perform_snd_no_commit: "(\<And>m. a \<noteq> Commit m) \<Longrightarrow> no_commit s (snd (perform io a s))"
  using perform_no_commit by (metis prod.collapse)

lemma ask_no_commit: "ask f s = (v, s') \<Longrightarrow> no_commit s s'"
  by (auto simp: ask_def no_commit_def grows_def did_def split: prod.splits)

lemma note_no_commit: "(\<And>m. a \<noteq> Commit m) \<Longrightarrow> no_commit s (note_call a err s)"
  by (auto simp: note_call_def no_commit_def grows_def did_def)

lemma stage_forward_quiet:
  assumes "stage_forward io pub m s = (r, s')"
  shows "no_commit s s' \<and> (r = None \<longrightarrow> did (Publish m) s')"
proof
  show "no_commit s s'"
    using assms by (auto simp: stage_forward_def dest!: Forward_no_commit intro: no_commit_trans
        split: prod.splits option.splits if_splits)
  show "r = None \<longrightarrow> did (Publish m) s'"
    using assms by (auto simp: stage_forward_def dest!: Forward_dids split: prod.splits option.splits if_splits)
qed

lemma dlq_message_dead: "did (Publish (dlq_message msg reason)) s \<Longrightarrow> dead_lettered msg s"
  by (auto simp: dlq_message_def dead_lettered_def)

text \<open>Every operation below the handler adds only actions of a set and never commits.\<close>

definition adds_only :: "(act \<Rightarrow> bool) \<Rightarrow> (act, 'w) sys \<Rightarrow> (act, 'w) sys \<Rightarrow> bool" where
  "adds_only A s s' \<longleftrightarrow> (\<exists>tr. snd s' = snd s @ tr \<and> (\<forall>x \<in> set tr. A (fst x)))"

lemma adds_only_refl [simp]: "adds_only A s s"
  by (simp add: adds_only_def)

lemma adds_only_trans [trans]: "adds_only A s s1 \<Longrightarrow> adds_only A s1 s2 \<Longrightarrow> adds_only A s s2"
  unfolding adds_only_def by (auto simp: ball_Un)

lemma adds_only_weaken: "adds_only A s s' \<Longrightarrow> (\<And>a. A a \<Longrightarrow> B a) \<Longrightarrow> adds_only B s s'"
  unfolding adds_only_def by blast

lemma adds_only_grows: "adds_only A s s' \<Longrightarrow> grows s s'"
  by (auto simp: adds_only_def grows_def)

lemma adds_only_no_commit: "adds_only A s s' \<Longrightarrow> (\<And>m. \<not> A (Commit m)) \<Longrightarrow> no_commit s s'"
  by (fastforce simp: adds_only_def no_commit_def grows_def did_def)

lemma adds_only_keeps: "adds_only A s s' \<Longrightarrow> \<not> A a \<Longrightarrow> attempted a s' \<longleftrightarrow> attempted a s"
  by (fastforce simp: adds_only_def attempted_def)

lemma adds_only_did: "adds_only A s s' \<Longrightarrow> \<not> A a \<Longrightarrow> did a s' \<longleftrightarrow> did a s"
  by (fastforce simp: adds_only_def did_def)

lemma perform_adds: "A a \<Longrightarrow> adds_only A s (snd (perform io a s))"
  by (auto simp: perform_def adds_only_def Let_def split: prod.split)

lemma perform_val_adds: "perform_val c a s = (r, s') \<Longrightarrow> A a \<Longrightarrow> adds_only A s s'"
  by (auto simp: adds_only_def dest: perform_val_trace)

lemma Forward_adds: "Forward io p m s = (r, s') \<Longrightarrow> A (Publish m) \<Longrightarrow> adds_only A s s'"
  by (auto simp: Forward_def adds_only_def split: option.splits if_splits dest: perform_trace)

lemma ask_adds: "ask f s = (v, s') \<Longrightarrow> adds_only A s s'"
  by (auto simp: ask_def adds_only_def split: prod.splits)

lemma note_adds: "A a \<Longrightarrow> adds_only A s (note_call a err s)"
  by (auto simp: note_call_def adds_only_def)

section \<open>The contract of a stage\<close>

text \<open>
  A dead letter that succeeds is published, and nothing else commits; a message is settled for good, and it is when
  its dead letter is published or its retry job is queued. Then committing at the places the stage commits is
  safe: \<open>commits_only msg (settled msg)\<close>.
\<close>

locale stage =
  fixes io :: "(act, 'w) io"
    and dlq :: "message \<Rightarrow> go_error \<Rightarrow> (act, 'w) sys \<Rightarrow> go_error option \<times> (act, 'w) sys"
    and build :: "gotime \<Rightarrow> message \<Rightarrow> go_error + crawl_job"
    and settled :: "message \<Rightarrow> (act, 'w) sys \<Rightarrow> bool"
  assumes dlq_quiet: "dlq msg reason s = (r, s') \<Longrightarrow> no_commit s s' \<and> (r = None \<longrightarrow> dead_lettered msg s')"
    and settled_grows: "settled msg s \<Longrightarrow> grows s s' \<Longrightarrow> settled msg s'"
    and settled_dlq: "dead_lettered msg s \<Longrightarrow> settled msg s"
    and settled_retry: "build now msg = Inr job0 \<Longrightarrow> did (EnqueueRetry job e) s \<Longrightarrow> job_id job = job_id job0
      \<Longrightarrow> tg_url (job_target job) = tg_url (job_target job0) \<Longrightarrow> settled msg s"
begin

lemma commit:
  assumes "no_commit s s1" and "CommitWithDrain io msg s1 = (r, s')" and "settled msg s1"
  shows "commits_only msg (settled msg) s s'"
  using assms by (rule commits_only_commit) (rule settled_grows)

lemma commit_snd:
  assumes "no_commit s s1" and "settled msg s1"
  shows "commits_only msg (settled msg) s (snd (CommitWithDrain io msg s1))"
  using commit [OF assms(1) _ assms(2)] by (metis prod.collapse)

lemma limit_commits:
  assumes "stage_limit_exceeded io dlq msg s = (b, s')"
  shows "commits_only msg (settled msg) s s'"
proof -
  obtain a s1 where d: "dlq msg (Sentinel StageGateHeld) s = (a, s1)" by (rule prod.exhaust)
  note q = dlq_quiet [OF d]
  show ?thesis
    using assms d q commit_snd [of s s1 msg] settled_dlq [of msg s1]
    by (cases a) (auto simp: stage_limit_exceeded_def commits_only_quiet)
qed

text \<open>A retry handed to the scheduler, with the dead letter as the fallback.\<close>

lemma retry_commits:
  assumes job: "build now msg = Inr job0" "job_id job = job_id job0" "tg_url (job_target job) = tg_url (job_target job0)"
    and enq: "perform io (EnqueueRetry job e) s = (a, s1)"
  shows "no_commit s s1"
    and "a = None \<Longrightarrow> commits_only msg (settled msg) s (snd (CommitWithDrain io msg s1))"
    and "dlq msg f s1 = (d, s2) \<Longrightarrow> commits_only msg (settled msg) s s2"
    and "dlq msg f s1 = (None, s2) \<Longrightarrow> commits_only msg (settled msg) s (snd (CommitWithDrain io msg s2))"
proof -
  show q: "no_commit s s1" using enq by (rule perform_no_commit) simp
  show "commits_only msg (settled msg) s (snd (CommitWithDrain io msg s1))" if "a = None"
  proof -
    have "did (EnqueueRetry job e) s1" using perform_dids(1) [OF enq] that by simp
    from settled_retry [OF job(1) this job(2,3)] show ?thesis using q by (intro commit_snd)
  qed
  show "commits_only msg (settled msg) s s2" if "dlq msg f s1 = (d, s2)"
    using dlq_quiet [OF that] no_commit_trans [OF q] by (intro commits_only_quiet) blast
  show "commits_only msg (settled msg) s (snd (CommitWithDrain io msg s2))" if "dlq msg f s1 = (None, s2)"
    using dlq_quiet [OF that] no_commit_trans [OF q] settled_dlq by (intro commit_snd) blast+
qed

lemma skip_commits:
  assumes "stage_gate_skip io dlq build has now msg s = (b, s')"
  shows "commits_only msg (settled msg) s s'"
proof (cases "has \<and> parseGateSkipCount (m_headers msg) < MaxGateSkipRequeues")
  case False
  then show ?thesis
    using assms limit_commits [of msg s b s'] by (auto simp: stage_gate_skip_def Let_def split: if_splits)
next
  case True
  show ?thesis
  proof (cases "build (now (fst s)) msg")
    case (Inl e)
    then show ?thesis using assms True by (auto simp: stage_gate_skip_def Let_def)
  next
    case (Inr job0)
    define job where "job = carryGateSkipCount
      (job0\<lparr>job_scheduled_at := now (fst s) + GateSkipDelay\<rparr>) (parseGateSkipCount (m_headers msg) + 1)"
    have same: "job_id job = job_id job0" "tg_url (job_target job) = tg_url (job_target job0)"
      by (simp_all add: job_def carryGateSkipCount_def)
    obtain a s1 where enq: "perform io (EnqueueRetry job (Some (Sentinel StageGateHeld))) s = (a, s1)"
      by (rule prod.exhaust)
    note c = retry_commits [OF Inr same enq]
    have run: "stage_gate_skip io dlq build has now msg s =
        (case a of
           Some enqErr \<Rightarrow>
             (case dlq msg (Wrapped ''gate skip requeue failed'' enqErr) s1 of
                (Some _, s2) \<Rightarrow> (False, s2)
              | (None, s2) \<Rightarrow> (True, snd (CommitWithDrain io msg s2)))
         | None \<Rightarrow> (True, snd (CommitWithDrain io msg s1)))"
      using True Inr enq by (simp add: stage_gate_skip_def Let_def job_def split: option.split)
    show ?thesis using assms c unfolding run by (auto split: option.splits prod.splits)
  qed
qed

end

end
