(* ===== verification/Validation.thy ===== *)
theory Validation
  imports CrawlCore
begin

text \<open>
  Content validation: the news and community validators of
  \<^verbatim>\<open>internal/processor/validate/domain\<close>, and \<^verbatim>\<open>RunValidation\<close>,
  \<^verbatim>\<open>codeForValidationResult\<close> and \<^verbatim>\<open>IsReparseEligible\<close> of
  \<^verbatim>\<open>internal/processor/validate/worker\<close>. Go strings are byte strings and are decoded to
  runes as \<^verbatim>\<open>unicode/utf8\<close> does; the Unicode classes of a rune are a parameter, as the
  tables are data of the standard library. Scores are real numbers; their rounding to
  \<^verbatim>\<open>float32\<close> and the texts of messages are not modelled.
\<close>

section \<open>Runes\<close>

text \<open>
  The first byte of a multi-byte sequence: the number of continuation bytes, the range of
  the second byte and the value of its payload bits.
\<close>

definition utf8_lead :: "int \<Rightarrow> (nat \<times> int \<times> int \<times> int) option" where
  "utf8_lead b =
     (if 194 \<le> b \<and> b \<le> 223 then Some (1, 128, 191, b - 192)
      else if b = 224 then Some (2, 160, 191, 0)
      else if b = 237 then Some (2, 128, 159, 13)
      else if 225 \<le> b \<and> b \<le> 239 then Some (2, 128, 191, b - 224)
      else if b = 240 then Some (3, 144, 191, 0)
      else if 241 \<le> b \<and> b \<le> 243 then Some (3, 128, 191, b - 240)
      else if b = 244 then Some (3, 128, 143, 4)
      else None)"

text \<open>\<^verbatim>\<open>DecodeRuneInString\<close>: the rune and its width; an invalid byte is U+FFFD of width 1.\<close>

definition decode_rune :: "int list \<Rightarrow> int \<times> nat" where
  "decode_rune bs =
     (case bs of
        [] \<Rightarrow> (65533, 0)
      | b # rest \<Rightarrow>
          if b < 128 then (b, 1)
          else (case utf8_lead b of
                  None \<Rightarrow> (65533, 1)
                | Some (n, lo, hi, bits) \<Rightarrow>
                    (let cs = take n rest
                     in if length cs < n \<or> \<not> (lo \<le> hd cs \<and> hd cs \<le> hi)
                           \<or> \<not> list_all (\<lambda>c. 128 \<le> c \<and> c \<le> 191) (tl cs)
                        then (65533, 1)
                        else (fold (\<lambda>c v. 64 * v + (c - 128)) cs bits, n + 1))))"

function decode_runes :: "int list \<Rightarrow> int list" where
  "decode_runes bs =
     (if bs = [] then []
      else (let (r, w) = decode_rune bs in r # decode_runes (drop (max 1 w) bs)))"
  by pat_completeness auto
termination
  by (relation "measure length") (auto simp: max_def)

declare decode_runes.simps [simp del]

definition runes :: "string \<Rightarrow> int list" where
  "runes s = decode_runes (map of_char s)"

definition rune_count :: "string \<Rightarrow> int" where
  "rune_count s = int (length (runes s))"

text \<open>\<^verbatim>\<open>unicode.IsSpace\<close>, and \<^verbatim>\<open>strings.TrimSpace(s) != ""\<close>.\<close>

definition is_space_rune :: "int \<Rightarrow> bool" where
  "is_space_rune r \<longleftrightarrow>
     (9 \<le> r \<and> r \<le> 13) \<or> r = 32 \<or> r = 133 \<or> r = 160 \<or> r = 5760
     \<or> (8192 \<le> r \<and> r \<le> 8202) \<or> r = 8232 \<or> r = 8233 \<or> r = 8239 \<or> r = 8287 \<or> r = 12288"

definition trim_space_nonempty :: "string \<Rightarrow> bool" where
  "trim_space_nonempty s \<longleftrightarrow> list_ex (\<lambda>r. \<not> is_space_rune r) (runes s)"

record unicode_tables =
  is_letter :: "int \<Rightarrow> bool"
  is_upper :: "int \<Rightarrow> bool"
  is_punct :: "int \<Rightarrow> bool"
  is_symbol :: "int \<Rightarrow> bool"

section \<open>Configuration and results\<close>

record validate_config =
  NewsTitleMinLen :: int
  NewsTitleMaxLen :: int
  NewsBodyMinLen :: int
  NewsBodyMaxLen :: int
  NewsMinWordCount :: int
  NewsQualityThreshold :: real
  NewsMaxCapRatio :: real
  NewsMaxPunctRatio :: real
  NewsWeightWordCount :: real
  NewsWeightMeta :: real
  NewsWeightStructure :: real
  CommunityBodyMinLen :: int
  CommunityQualityThreshold :: real
  CommunityMaxRepeatRatio :: real
  CommunityMinRepeatRun :: int
  ReparseEnabled :: bool

definition DefaultValidateConfig :: validate_config where
  "DefaultValidateConfig =
     \<lparr>NewsTitleMinLen = 10, NewsTitleMaxLen = 500, NewsBodyMinLen = 100, NewsBodyMaxLen = 50000,
      NewsMinWordCount = 50, NewsQualityThreshold = 5 / 10, NewsMaxCapRatio = 20 / 100,
      NewsMaxPunctRatio = 10 / 100, NewsWeightWordCount = 4 / 10, NewsWeightMeta = 3 / 10,
      NewsWeightStructure = 3 / 10, CommunityBodyMinLen = 50, CommunityQualityThreshold = 4 / 10,
      CommunityMaxRepeatRatio = 30 / 100, CommunityMinRepeatRun = 4, ReparseEnabled = False\<rparr>"

record validation_error =
  ve_field :: string
  ve_rule :: string

definition verr :: "string \<Rightarrow> string \<Rightarrow> validation_error" where
  "verr field rule = \<lparr>ve_field = field, ve_rule = rule\<rparr>"

lemma verr_simps [simp]: "ve_rule (verr f r) = r" "ve_field (verr f r) = f"
  by (simp_all add: verr_def)

record validation_result =
  vr_is_valid :: bool
  vr_quality :: real
  vr_errors :: "validation_error list"

section \<open>News\<close>

definition validateTitle :: "validate_config \<Rightarrow> content \<Rightarrow> validation_error list" where
  "validateTitle cfg c =
     (let n = rune_count (c_title c)
      in if n < NewsTitleMinLen cfg then [verr ''Title'' ''min_length'']
         else if n > NewsTitleMaxLen cfg then [verr ''Title'' ''max_length'']
         else [])"

definition validateNewsBody :: "validate_config \<Rightarrow> content \<Rightarrow> validation_error list" where
  "validateNewsBody cfg c =
     (let n = rune_count (c_body c)
      in if n < NewsBodyMinLen cfg then [verr ''Body'' ''min_length'']
         else if n > NewsBodyMaxLen cfg then [verr ''Body'' ''max_length'']
         else [])"

definition validatePublishedAt :: "content \<Rightarrow> validation_error list" where
  "validatePublishedAt c =
     (if \<not> c_article c then []
      else if c_published_at c = None then [verr ''PublishedAt'' ''required''] else [])"

definition detectSpam :: "unicode_tables \<Rightarrow> validate_config \<Rightarrow> content \<Rightarrow> validation_error list" where
  "detectSpam u cfg c =
     (let rs = runes (c_title c @ '' '' @ c_body c); total = length rs
      in if total = 0 then []
         else
           (let capCount = length (filter (\<lambda>r. is_letter u r \<and> is_upper u r) rs);
                punctCount = length (filter (\<lambda>r. is_punct u r \<or> is_symbol u r) rs)
            in (if real capCount / real total > NewsMaxCapRatio cfg
                then [verr ''Body'' ''spam_caps''] else [])
               @ (if real punctCount / real total > NewsMaxPunctRatio cfg
                  then [verr ''Body'' ''spam_punct''] else [])))"

definition scoreWordCount :: "validate_config \<Rightarrow> int \<Rightarrow> real" where
  "scoreWordCount cfg wc =
     (let minWC = NewsMinWordCount cfg
      in if wc \<le> 0 then 1 / 2
         else if wc \<ge> minWC * 4 then 1
         else if wc < minWC then of_int wc / of_int minWC * (1 / 2)
         else 1 / 2 + of_int (wc - minWC) / of_int (minWC * 3) * (1 / 2))"

definition scoreMetadata :: "content \<Rightarrow> real" where
  "scoreMetadata c =
     (if c_author c \<noteq> [] then 4 / 10 else 0) + (if c_category c \<noteq> [] then 3 / 10 else 0)
     + (if length (c_tags c) > 0 then 3 / 10 else 0)"

definition scoreStructure :: "content \<Rightarrow> real" where
  "scoreStructure c =
     (if c_url c \<noteq> [] then 3 / 10 else 0) + (if c_summary c \<noteq> [] then 3 / 10 else 0)
     + (if CHR 0x0A \<in> set (c_body c) then 4 / 10 else 0)"

definition newsQualityScore :: "validate_config \<Rightarrow> content \<Rightarrow> real" where
  "newsQualityScore cfg c =
     scoreWordCount cfg (c_word_count c) * NewsWeightWordCount cfg
     + scoreMetadata c * NewsWeightMeta cfg + scoreStructure c * NewsWeightStructure cfg"

definition news_validate :: "unicode_tables \<Rightarrow> validate_config \<Rightarrow> content \<Rightarrow> validation_result" where
  "news_validate u cfg c =
     (let errs = validateTitle cfg c @ validateNewsBody cfg c @ validatePublishedAt c @ detectSpam u cfg c;
          score = newsQualityScore cfg c;
          threshold = NewsQualityThreshold cfg;
          errs = (if score < threshold \<and> errs = [] then errs @ [verr ''QualityScore'' ''quality_low'']
                  else errs)
      in \<lparr>vr_is_valid = (errs = [] \<and> score \<ge> threshold), vr_quality = score, vr_errors = errs\<rparr>)"

section \<open>Community\<close>

definition validateCommunityBody :: "validate_config \<Rightarrow> content \<Rightarrow> validation_error list" where
  "validateCommunityBody cfg c =
     (if rune_count (c_body c) < CommunityBodyMinLen cfg then [verr ''Body'' ''min_length''] else [])"

text \<open>
  \<^verbatim>\<open>countRepeatRunes\<close>: \<open>run\<close> is the length of the stretch of equal runes at the
  current position, and the position then moves past it.
\<close>

function countRepeatRunes :: "int \<Rightarrow> int list \<Rightarrow> int" where
  "countRepeatRunes minRun rs =
     (case rs of
        [] \<Rightarrow> 0
      | r # rest \<Rightarrow>
          (let run = Suc (length (takeWhile (\<lambda>x. x = r) rest))
           in (if int run \<ge> minRun then int run else 0) + countRepeatRunes minRun (drop run rs)))"
  by pat_completeness auto
termination
  by (relation "measure (length \<circ> snd)") auto

declare countRepeatRunes.simps [simp del]

definition detectFlood :: "validate_config \<Rightarrow> content \<Rightarrow> validation_error list" where
  "detectFlood cfg c =
     (let rs = runes (c_body c); total = length rs
      in if total = 0 then []
         else if of_int (countRepeatRunes (CommunityMinRepeatRun cfg) rs) / real total
                   > CommunityMaxRepeatRatio cfg
         then [verr ''Body'' ''spam_flood''] else [])"

definition scoreBody :: "validate_config \<Rightarrow> string \<Rightarrow> real" where
  "scoreBody cfg body =
     (let n = rune_count body
      in if n < CommunityBodyMinLen cfg then 0 else if n \<ge> 200 then 1 else of_int n / 200)"

definition scoreMeta :: "content \<Rightarrow> real" where
  "scoreMeta c =
     (if c_title c \<noteq> [] then 4 / 10 else 0) + (if c_published_at c \<noteq> None then 3 / 10 else 0)
     + (if trim_space_nonempty (c_url c) then 3 / 10 else 0)"

definition communityQualityScore :: "validate_config \<Rightarrow> content \<Rightarrow> real" where
  "communityQualityScore cfg c = scoreBody cfg (c_body c) * (6 / 10) + scoreMeta c * (4 / 10)"

definition community_validate :: "validate_config \<Rightarrow> content \<Rightarrow> validation_result" where
  "community_validate cfg c =
     (let errs = validateCommunityBody cfg c @ detectFlood cfg c;
          score = communityQualityScore cfg c;
          threshold = CommunityQualityThreshold cfg;
          errs = (if score < threshold \<and> errs = [] then errs @ [verr ''QualityScore'' ''quality_low'']
                  else errs)
      in \<lparr>vr_is_valid = (errs = [] \<and> score \<ge> threshold), vr_quality = score, vr_errors = errs\<rparr>)"

section \<open>The stage's use of the validators\<close>

definition run_validator :: "unicode_tables \<Rightarrow> validate_config \<Rightarrow> string \<Rightarrow> content \<Rightarrow> validation_result" where
  "run_validator u cfg sourceType c =
     (if sourceType = ''community'' then community_validate cfg c else news_validate u cfg c)"

definition codeForValidationResult :: "validation_result \<Rightarrow> string" where
  "codeForValidationResult result =
     (case vr_errors result of
        [] \<Rightarrow> CodeValQualityLow
      | e # _ \<Rightarrow>
          (let r = ve_rule e
           in if r = ''min_length'' then CodeValContentShort
              else if r = ''max_length'' then CodeValContentLong
              else if r = ''required'' then CodeValMissingField
              else if r \<in> {''spam_caps'', ''spam_punct'', ''spam_flood''} then CodeValSpam
              else if r = ''quality_low'' then CodeValQualityLow
              else CodeValInvalidFormat))"

text \<open>\<open>msg\<close> renders the errors, which only feeds logs and headers.\<close>

definition RunValidation ::
  "(string \<Rightarrow> validation_error list \<Rightarrow> string) \<Rightarrow> unicode_tables \<Rightarrow> validate_config \<Rightarrow> string \<Rightarrow> content
     \<Rightarrow> go_error + content" where
  "RunValidation msg u cfg sourceType c =
     (let result = run_validator u cfg sourceType c;
          c1 = c\<lparr>c_reliability := vr_quality result\<rparr>
      in if \<not> vr_is_valid result
         then Inl (NewValidationError (codeForValidationResult result) (msg (c_id c1) (vr_errors result)) None)
         else Inr c1)"

definition reparseEligibleCodes :: "string list" where
  "reparseEligibleCodes = [CodeValMissingField, CodeValContentShort]"

definition IsReparseEligible :: "go_error \<Rightarrow> bool" where
  "IsReparseEligible err =
     (case as_crawler err of None \<Rightarrow> False | Some cerr \<Rightarrow> ce_code cerr \<in> set reparseEligibleCodes)"

section \<open>Lemmas\<close>

lemma countRepeatRunes_Nil [simp]: "countRepeatRunes m [] = 0"
  by (simp add: countRepeatRunes.simps)

text \<open>A position of \<open>xs\<close> that lies in a window of \<open>m\<close> equal elements.\<close>

definition in_run :: "nat \<Rightarrow> int list \<Rightarrow> nat \<Rightarrow> bool" where
  "in_run m xs i \<longleftrightarrow>
     (\<exists>a. a \<le> i \<and> i < a + m \<and> a + m \<le> length xs \<and> (\<forall>j. a \<le> j \<and> j < a + m \<longrightarrow> xs ! j = xs ! a))"

lemma in_run_block:
  assumes "i < k" and "0 < m" and "rest = [] \<or> hd rest \<noteq> r"
  shows "in_run m (replicate k r @ rest) i \<longleftrightarrow> m \<le> k"
proof
  assume "m \<le> k"
  define a where "a = min i (k - m)"
  have "a \<le> i" "i < a + m" "a + m \<le> k" using assms \<open>m \<le> k\<close> by (auto simp: a_def)
  moreover from this have "\<forall>j. a \<le> j \<and> j < a + m \<longrightarrow> (replicate k r @ rest) ! j = (replicate k r @ rest) ! a"
    using \<open>0 < m\<close> by (auto simp: nth_append)
  moreover from calculation have "a + m \<le> length (replicate k r @ rest)" by simp
  ultimately show "in_run m (replicate k r @ rest) i"
    unfolding in_run_def by blast
next
  assume "in_run m (replicate k r @ rest) i"
  then obtain a where a: "a \<le> i" "i < a + m" "a + m \<le> k + length rest"
    "\<forall>j. a \<le> j \<and> j < a + m \<longrightarrow> (replicate k r @ rest) ! j = (replicate k r @ rest) ! a"
    by (auto simp: in_run_def)
  show "m \<le> k"
  proof (rule ccontr)
    assume "\<not> m \<le> k"
    then have "k < a + m" "a < k" using a assms by auto
    then have "(replicate k r @ rest) ! k = r" "rest \<noteq> []"
      using a(3) a(4) [rule_format, of k] assms by (auto simp: nth_append)
    then show False using assms(3) by (simp add: nth_append hd_conv_nth)
  qed
qed

lemma in_run_past:
  assumes "0 < m" and "rest = [] \<or> hd rest \<noteq> r"
  shows "in_run m (replicate k r @ rest) (k + i) \<longleftrightarrow> in_run m rest i"
proof
  assume "in_run m rest i"
  then obtain a where a: "a \<le> i" "i < a + m" "a + m \<le> length rest"
    "\<forall>j. a \<le> j \<and> j < a + m \<longrightarrow> rest ! j = rest ! a" by (auto simp: in_run_def)
  have eq: "(replicate k r @ rest) ! j = (replicate k r @ rest) ! (k + a)" if "k + a \<le> j \<and> j < k + a + m" for j
  proof -
    have "a \<le> j - k \<and> j - k < a + m" using that by auto
    with a(4) have "rest ! (j - k) = rest ! a" by blast
    then show ?thesis using that by (simp add: nth_append)
  qed
  have "k + a \<le> k + i" "k + i < k + a + m" "k + a + m \<le> length (replicate k r @ rest)"
    using a(1-3) by auto
  with eq show "in_run m (replicate k r @ rest) (k + i)"
    unfolding in_run_def by blast
next
  assume "in_run m (replicate k r @ rest) (k + i)"
  then obtain a where a: "a \<le> k + i" "k + i < a + m" "a + m \<le> k + length rest"
    "\<forall>j. a \<le> j \<and> j < a + m \<longrightarrow> (replicate k r @ rest) ! j = (replicate k r @ rest) ! a"
    by (auto simp: in_run_def)
  have "k \<le> a"
  proof (rule ccontr)
    assume "\<not> k \<le> a"
    then have "(replicate k r @ rest) ! k = r" "rest \<noteq> []"
      using a(2,3) a(4) [rule_format, of k] by (auto simp: nth_append)
    then show False using assms(2) by (simp add: nth_append hd_conv_nth)
  qed
  then obtain b where b: "a = k + b" using le_Suc_ex by blast
  have eq: "rest ! j = rest ! b" if "b \<le> j \<and> j < b + m" for j
    using a(4) [rule_format, of "k + j"] that b by (simp add: nth_append)
  have "b \<le> i" "i < b + m" "b + m \<le> length rest" using a(1-3) b by auto
  with eq show "in_run m rest i"
    unfolding in_run_def by blast
qed

lemma countRepeatRunes_block:
  assumes "0 < k" and "rest = [] \<or> hd rest \<noteq> r"
  shows "countRepeatRunes m (replicate k r @ rest)
    = (if m \<le> int k then int k else 0) + countRepeatRunes m rest"
proof -
  obtain k' where k: "k = Suc k'" using assms(1) by (cases k) auto
  have "takeWhile (\<lambda>x. x = r) rest = []" using assms(2) by (cases rest) auto
  then have "takeWhile (\<lambda>x. x = r) (replicate k' r @ rest) = replicate k' r"
    by (induction k') auto
  then show ?thesis
    by (subst countRepeatRunes.simps) (simp add: k Let_def)
qed

lemma split_block:
  assumes "xs \<noteq> []"
  obtains k r rest where "xs = replicate k r @ rest" "0 < k" "rest = [] \<or> hd rest \<noteq> r"
proof -
  obtain r ys where xs: "xs = r # ys" using assms by (cases xs) auto
  let ?P = "\<lambda>x. x = r"
  define k where "k = length (takeWhile ?P xs)"
  have t: "takeWhile ?P zs = replicate (length (takeWhile ?P zs)) r" for zs
    by (induction zs) auto
  have "xs = takeWhile ?P xs @ dropWhile ?P xs" by simp
  also have "\<dots> = replicate k r @ dropWhile ?P xs"
    unfolding k_def by (rule arg_cong [OF t [of xs]])
  finally have 1: "xs = replicate k r @ dropWhile ?P xs" .
  have 2: "dropWhile ?P xs = [] \<or> hd (dropWhile ?P xs) \<noteq> r"
    using hd_dropWhile [of ?P xs] by blast
  have 3: "0 < k" by (simp add: k_def xs)
  show ?thesis by (rule that [OF 1 3 2])
qed

lemma countRepeatRunes_card:
  assumes "0 < m"
  shows "countRepeatRunes (int m) xs = int (card {i. i < length xs \<and> in_run m xs i})"
proof (induction "length xs" arbitrary: xs rule: less_induct)
  case less
  show ?case
  proof (cases "xs = []")
    case False
    then obtain k r rest where b: "xs = replicate k r @ rest" "0 < k" "rest = [] \<or> hd rest \<noteq> r"
      by (rule split_block)
    have split: "{i. i < length xs \<and> in_run m xs i} =
        (if m \<le> k then {..<k} else {}) \<union> (\<lambda>i. k + i) ` {i. i < length rest \<and> in_run m rest i}"
      (is "?L = ?A \<union> ?B")
    proof (intro equalityI subsetI)
      fix i assume i: "i \<in> ?L"
      show "i \<in> ?A \<union> ?B"
      proof (cases "i < k")
        case True
        then show ?thesis using i in_run_block [OF True assms b(3)] b(1) by auto
      next
        case False
        then obtain j where "i = k + j" using le_Suc_ex not_less by blast
        then show ?thesis using i in_run_past [OF assms b(3), of k j] b(1) by auto
      qed
    next
      fix i assume "i \<in> ?A \<union> ?B"
      then show "i \<in> ?L"
        using in_run_block [OF _ assms b(3)] in_run_past [OF assms b(3), of k] b(1)
        by (auto split: if_splits)
    qed
    have "card ?L = card ?A + card ?B"
      unfolding split by (rule card_Un_disjoint) (auto split: if_splits)
    then have "card ?L = (if m \<le> k then k else 0) + card {i. i < length rest \<and> in_run m rest i}"
      by (simp add: card_image)
    moreover have "countRepeatRunes (int m) rest = int (card {i. i < length rest \<and> in_run m rest i})"
      using less b by simp
    ultimately show ?thesis
      using countRepeatRunes_block [OF b(2,3), of "int m"] b(1) by simp
  qed simp
qed

lemma RunValidation_cases:
  "RunValidation msg u cfg t c =
     (let r = run_validator u cfg t c
      in if vr_is_valid r then Inr (c\<lparr>c_reliability := vr_quality r\<rparr>)
         else Inl (NewValidationError (codeForValidationResult r) (msg (c_id c) (vr_errors r)) None))"
  by (simp add: RunValidation_def Let_def)

lemma detectSpam_rules: "set (map ve_rule (detectSpam u cfg c)) \<subseteq> {''spam_caps'', ''spam_punct''}"
  by (auto simp: detectSpam_def Let_def)

lemma as_crawler_validation [simp]:
  "as_crawler (NewValidationError code m e) = Some
     \<lparr>ce_category = CatValidation, ce_code = code, ce_message = m, ce_source = [], ce_url = [],
      ce_status = 0, ce_retryable = False\<rparr>"
  by (simp add: NewValidationError_def mk_crawler_error_def)

text \<open>The score of a part is a share between 0 and 1.\<close>

lemma part_scores:
  "0 \<le> scoreMetadata c \<and> scoreMetadata c \<le> 1"
  "0 \<le> scoreStructure c \<and> scoreStructure c \<le> 1"
  "0 \<le> scoreMeta c \<and> scoreMeta c \<le> 1"
  by (simp_all add: scoreMetadata_def scoreStructure_def scoreMeta_def)

lemma scoreWordCount_unit:
  assumes "0 \<le> NewsMinWordCount cfg"
  shows "0 \<le> scoreWordCount cfg wc \<and> scoreWordCount cfg wc \<le> 1"
proof -
  let ?m = "NewsMinWordCount cfg"
  have low: "0 \<le> of_int wc / of_int ?m * (1 / 2 :: real) \<and> of_int wc / of_int ?m * (1 / 2 :: real) \<le> 1"
    if "0 < wc" "wc < ?m"
  proof -
    have "0 \<le> of_int wc / (of_int ?m :: real)" "of_int wc / (of_int ?m :: real) \<le> 1"
      using that by (auto simp: divide_le_eq_1)
    then show ?thesis by auto
  qed
  have high: "0 \<le> of_int (wc - ?m) / (of_int (?m * 3) :: real)
      \<and> of_int (wc - ?m) / (of_int (?m * 3) :: real) \<le> 1"
    if "?m \<le> wc" "wc < ?m * 4" "0 < wc"
  proof -
    have "0 \<le> (of_int (wc - ?m) :: real)" "(0 :: real) < of_int (?m * 3)"
      "(of_int (wc - ?m) :: real) \<le> of_int (?m * 3)"
      using that assms by (simp_all only: of_int_0_le_iff of_int_0_less_iff of_int_le_iff)
    then show ?thesis by (simp only: divide_le_eq_1 zero_le_divide_iff) auto
  qed
  define q where "q = of_int (wc - ?m) / (of_int (?m * 3) :: real)"
  have "scoreWordCount cfg wc = (if wc \<le> 0 then 1 / 2 else if wc \<ge> ?m * 4 then 1
      else if wc < ?m then of_int wc / of_int ?m * (1 / 2) else 1 / 2 + q * (1 / 2))"
    by (simp only: scoreWordCount_def Let_def q_def)
  then show ?thesis
    using low high [folded q_def] by auto
qed

lemma scoreBody_unit: "0 \<le> scoreBody cfg b \<and> scoreBody cfg b \<le> 1"
  by (auto simp: scoreBody_def Let_def rune_count_def)

lemma weighted_unit:
  fixes x :: real
  assumes "0 \<le> x \<and> x \<le> 1" "0 \<le> y \<and> y \<le> 1" "0 \<le> z \<and> z \<le> 1"
    and "0 \<le> a" "0 \<le> b" "0 \<le> d" "a + b + d \<le> 1"
  shows "0 \<le> x * a + y * b + z * d \<and> x * a + y * b + z * d \<le> 1"
proof -
  have "x * a \<le> a" "y * b \<le> b" "z * d \<le> d"
    using assms mult_right_mono [of x 1 a] mult_right_mono [of y 1 b] mult_right_mono [of z 1 d] by auto
  then show ?thesis using assms by (simp add: add_nonneg_nonneg)
qed

section \<open>Properties\<close>

text \<open>countRepeatRunes counts exactly the characters that stand in some window of
  CommunityMinRepeatRun equal characters, so the flood ratio is the share of such characters.\<close>
theorem repeat_runes_in_windows:
  assumes "1 \<le> CommunityMinRepeatRun cfg"
  shows "countRepeatRunes (CommunityMinRepeatRun cfg) rs =
    int (card {i. i < length rs \<and> in_run (nat (CommunityMinRepeatRun cfg)) rs i})"
  using countRepeatRunes_card [of "nat (CommunityMinRepeatRun cfg)" rs] assms by simp

theorem repeat_runes_in_windows_witness:
  "int (card {i. i < length [7, 7, 8, 9, 9, 9 :: int]
     \<and> in_run (nat (CommunityMinRepeatRun (DefaultValidateConfig\<lparr>CommunityMinRepeatRun := 2\<rparr>)))
         [7, 7, 8, 9, 9, 9] i}) = 5"
  by (subst repeat_runes_in_windows [symmetric]) (simp_all add: countRepeatRunes.simps Let_def)

text \<open>The verdict on a news content. It passes exactly when title and body are within their
  lengths in characters, an article has a publication date, no spam pattern matches and the
  quality score reaches the threshold, and then only its reliability changes. A rejection is
  eligible for a reparse exactly when the first violated rule is a too short title, a too short
  body behind an acceptable title, or a missing date behind acceptable texts.\<close>
theorem news_verdict:
  assumes "sourceType \<noteq> ''community''"
  shows "case RunValidation msg u cfg sourceType c of
    Inr c' \<Rightarrow>
      rune_count (c_title c) \<in> {NewsTitleMinLen cfg .. NewsTitleMaxLen cfg}
      \<and> rune_count (c_body c) \<in> {NewsBodyMinLen cfg .. NewsBodyMaxLen cfg}
      \<and> (c_article c \<longrightarrow> c_published_at c \<noteq> None) \<and> detectSpam u cfg c = []
      \<and> NewsQualityThreshold cfg \<le> newsQualityScore cfg c
      \<and> c' = c\<lparr>c_reliability := newsQualityScore cfg c\<rparr>
  | Inl e \<Rightarrow>
      (IsReparseEligible e \<longleftrightarrow>
         rune_count (c_title c) < NewsTitleMinLen cfg
         \<or> (rune_count (c_title c) \<le> NewsTitleMaxLen cfg
            \<and> (rune_count (c_body c) < NewsBodyMinLen cfg
               \<or> (rune_count (c_body c) \<le> NewsBodyMaxLen cfg
                  \<and> c_article c \<and> c_published_at c = None))))
      \<and> \<not> (validateTitle cfg c = [] \<and> validateNewsBody cfg c = [] \<and> validatePublishedAt c = []
            \<and> detectSpam u cfg c = [] \<and> NewsQualityThreshold cfg \<le> newsQualityScore cfg c)"
proof -
  let ?r = "news_validate u cfg c"
  have run: "run_validator u cfg sourceType c = ?r" using assms by (simp add: run_validator_def)
  show ?thesis
  proof (cases "vr_is_valid ?r")
    case True
    then have "validateTitle cfg c = [] \<and> validateNewsBody cfg c = [] \<and> validatePublishedAt c = []
      \<and> detectSpam u cfg c = [] \<and> NewsQualityThreshold cfg \<le> newsQualityScore cfg c"
      by (auto simp: news_validate_def Let_def split: if_splits)
    then show ?thesis
      using True run
      by (auto simp: RunValidation_cases validateTitle_def validateNewsBody_def validatePublishedAt_def
          news_validate_def Let_def split: if_splits)
  next
    case False
    have code: "codeForValidationResult ?r \<in> set reparseEligibleCodes \<longleftrightarrow>
         rune_count (c_title c) < NewsTitleMinLen cfg
         \<or> (rune_count (c_title c) \<le> NewsTitleMaxLen cfg
            \<and> (rune_count (c_body c) < NewsBodyMinLen cfg
               \<or> (rune_count (c_body c) \<le> NewsBodyMaxLen cfg
                  \<and> c_article c \<and> c_published_at c = None)))"
      using detectSpam_rules [of u cfg c]
      by (cases "detectSpam u cfg c")
        (auto simp: codeForValidationResult_def news_validate_def validateTitle_def validateNewsBody_def
          validatePublishedAt_def reparseEligibleCodes_def val_codes Let_def split: if_splits)
    show ?thesis
      using False run code
      by (auto simp: RunValidation_cases IsReparseEligible_def news_validate_def Let_def split: if_splits)
  qed
qed

definition plain_content :: content where
  "plain_content =
     \<lparr>c_id = ''1'', c_source_id = ''s'', c_source_type = ''news'', c_country = [], c_language = [],
      c_title = ''t'', c_body = ''b'', c_summary = [], c_author = [], c_published_at = None,
      c_updated_at = None, c_category = [], c_tags = [], c_url = ''u'', c_canonical_url = [],
      c_image_urls = [], c_content_hash = [], c_word_count = 0, c_reliability = 0,
      c_article = True, c_extra = Map.empty, c_created_at = 0\<rparr>"

definition no_unicode :: unicode_tables where
  "no_unicode = \<lparr>is_letter = \<lambda>_. False, is_upper = \<lambda>_. False, is_punct = \<lambda>_. False, is_symbol = \<lambda>_. False\<rparr>"

lemma rune_count_ascii1: "rune_count ''t'' = 1"
  by (simp add: rune_count_def runes_def decode_runes.simps decode_rune_def)

theorem news_verdict_witness:
  "case RunValidation (\<lambda>i es. i) no_unicode DefaultValidateConfig ''news'' plain_content of
     Inr c' \<Rightarrow> False | Inl e \<Rightarrow> IsReparseEligible e"
  using news_verdict [where sourceType = "''news''" and msg = "\<lambda>i es. i" and u = no_unicode
      and cfg = DefaultValidateConfig and c = plain_content]
  by (simp add: plain_content_def DefaultValidateConfig_def rune_count_ascii1 split: sum.splits)

text \<open>The reliability that validation assigns is a number between 0 and 1, for news whenever
  the three weights are non-negative and sum to at most 1, and for community posts always.\<close>
theorem quality_scores_in_unit_interval:
  assumes "0 \<le> NewsMinWordCount cfg" and "0 \<le> NewsWeightWordCount cfg" and "0 \<le> NewsWeightMeta cfg"
    and "0 \<le> NewsWeightStructure cfg"
    and "NewsWeightWordCount cfg + NewsWeightMeta cfg + NewsWeightStructure cfg \<le> 1"
  shows "vr_quality (run_validator u cfg t c) \<in> {0 .. 1}"
proof -
  have "0 \<le> newsQualityScore cfg c \<and> newsQualityScore cfg c \<le> 1"
    unfolding newsQualityScore_def
    using assms by (intro weighted_unit scoreWordCount_unit part_scores) auto
  moreover have "0 \<le> communityQualityScore cfg c \<and> communityQualityScore cfg c \<le> 1"
    using weighted_unit [OF scoreBody_unit [of cfg "c_body c"] part_scores(3) [of c] part_scores(3) [of c],
        of "6 / 10" "4 / 10" 0]
    by (simp add: communityQualityScore_def)
  ultimately show ?thesis
    by (simp add: run_validator_def news_validate_def community_validate_def Let_def)
qed

theorem quality_scores_in_unit_interval_witness:
  "vr_quality (run_validator no_unicode DefaultValidateConfig ''news'' plain_content) \<in> {0 .. 1}"
  by (rule quality_scores_in_unit_interval) (simp_all add: DefaultValidateConfig_def)

end
