(* ===== verification/ValidateWorker.thy ===== *)
theory ValidateWorker
  imports StageWorker Validation
begin

text \<open>
  The validate stage's worker, \<^verbatim>\<open>internal/processor/validate/worker/worker.go\<close> and
  \<^verbatim>\<open>reparse.go\<close>: \<^verbatim>\<open>Handle\<close> with its retry fallback, \<^verbatim>\<open>process\<close> with every
  branch (undecodable messages, the stage gate, a missing content, database errors, reparse,
  requeue, dead letter, validated), and the messages it builds. The content store, Kafka,
  the gate and the retry schedulers are external calls of the environment; JSON codecs and
  the text of a rejection are parameters. Logging is left out.
\<close>

section \<open>Environment\<close>

record 'w validate_env =
  ve_io :: "(act, 'w) io"
  ve_load :: "string \<Rightarrow> 'w \<Rightarrow> (go_error + content) \<times> 'w"
  ve_acquire :: "string \<Rightarrow> 'w \<Rightarrow> (go_error + bool) \<times> 'w"
  ve_now :: "'w \<Rightarrow> gotime"
  ve_ctx_err :: "'w \<Rightarrow> go_error option"
  ve_dec_pm :: "bytes \<Rightarrow> go_error + processing_message"
  ve_dec_ref :: "bytes \<Rightarrow> go_error + content_ref"
  ve_enc_pm :: "processing_message \<Rightarrow> go_error + bytes"
  ve_enc_ref :: "content_ref \<Rightarrow> go_error + bytes"
  ve_enc_job :: "crawl_job \<Rightarrow> go_error + bytes"
  ve_errors_text :: "string \<Rightarrow> validation_error list \<Rightarrow> string"
  ve_unicode :: unicode_tables
  ve_cfg :: validate_config
  ve_pub :: publisher
  ve_has_retry :: bool
  ve_has_gate_skip :: bool

definition buildRetryDefaultTimeout :: duration where "buildRetryDefaultTimeout = 30 * second"
definition reparseJobTimeoutDefault :: duration where "reparseJobTimeoutDefault = 30 * second"

definition maxRetries :: "message \<Rightarrow> int" where
  "maxRetries msg = 3"

definition IsQueryTimeout :: "go_error \<Rightarrow> bool" where
  "IsQueryTimeout err = is_sentinel CtxDeadline err"

section \<open>Headers\<close>

definition readReparseCount :: "message \<Rightarrow> int" where
  "readReparseCount msg = nonneg_count (hget (m_headers msg) HeaderValidateReparseCount)"

section \<open>The retry job\<close>

definition BuildRetryJob :: "'w validate_env \<Rightarrow> gotime \<Rightarrow> message \<Rightarrow> go_error + crawl_job" where
  "BuildRetryJob env now msg =
     (case ve_dec_pm env (m_value msg) of
        Inl uerr \<Rightarrow> Inl (Wrapped ''retry unmarshal processing message'' uerr)
      | Inr pm \<Rightarrow>
         (case ve_dec_ref env (pm_data pm) of
            Inl uerr \<Rightarrow> Inl (Wrapped ''retry unmarshal content ref'' uerr)
          | Inr ref \<Rightarrow>
              if cr_url ref = []
              then Inl (Opaque (''retry unmarshal: empty URL in ContentRef '' @ cr_id ref))
              else
                (let priority = PriorityFromHeader (m_headers msg);
                     name = hget (m_headers msg) ''crawler'';
                     name = (if name = [] then si_name (cr_source ref) else name);
                     name = (if name = [] then ''validate-retry'' else name);
                     ttype = (case m_headers msg ''target_type'' of
                                None \<Rightarrow> TargetTypeArticle
                              | Some t \<Rightarrow> if isValidTargetType t then t else TargetTypeArticle);
                     timeout = header_timeout (m_headers msg) buildRetryDefaultTimeout
                 in Inr \<lparr>job_id = cr_id ref, job_crawler = name,
                      job_target = \<lparr>tg_url = cr_url ref, tg_type = ttype,
                        tg_meta = [''retry_reason'' \<mapsto> MStr ''validate_process_failed'',
                                   ''original_ref_id'' \<mapsto> MStr (cr_id ref)]\<rparr>,
                      job_priority = priority, job_scheduled_at = now, job_timeout = timeout,
                      job_retry_count = 0, job_max_retries = DefaultMaxRetries\<rparr>)))"

section \<open>Publishing\<close>

text \<open>\<^verbatim>\<open>Forward\<close>, tried once more under a drain context when canceled.\<close>

definition forward_drain ::
  "'w validate_env \<Rightarrow> message \<Rightarrow> (act, 'w) sys \<Rightarrow> go_error option \<times> (act, 'w) sys" where
  "forward_drain env m s =
     (case Forward (ve_io env) (Some (ve_pub env)) m s of
        (None, s1) \<Rightarrow> (None, s1)
      | (Some e, s1) \<Rightarrow>
          if is_canceled e then Forward (ve_io env) (Some (ve_pub env)) m s1 else (Some e, s1))"

definition v_sendToDLQ ::
  "'w validate_env \<Rightarrow> message \<Rightarrow> go_error \<Rightarrow> (act, 'w) sys \<Rightarrow> go_error option \<times> (act, 'w) sys" where
  "v_sendToDLQ env msg reason s =
     (let hs = (m_headers msg)(''original-topic'' \<mapsto> m_topic msg, ''error'' \<mapsto> error_text reason)
      in forward_drain env (new_message TopicDLQ (m_key msg) (m_value msg) hs) s)"

definition requeue_message :: "message \<Rightarrow> int \<Rightarrow> bytes \<Rightarrow> message" where
  "requeue_message msg retryCount data =
     new_message TopicNormalized (m_key msg) data [''retry-count'' \<mapsto> int_text retryCount]"

definition v_requeue ::
  "'w validate_env \<Rightarrow> message \<Rightarrow> processing_message \<Rightarrow> (act, 'w) sys \<Rightarrow> go_error option \<times> (act, 'w) sys" where
  "v_requeue env msg pm0 s =
     (let pm = pm0\<lparr>pm_retry_count := pm_retry_count pm0 + 1\<rparr>
      in case ve_enc_pm env pm of
           Inl err \<Rightarrow> (Some err, s)
         | Inr data \<Rightarrow> forward_drain env (requeue_message msg (pm_retry_count pm) data) s)"

definition reparse_job :: "gotime \<Rightarrow> message \<Rightarrow> content \<Rightarrow> int \<Rightarrow> crawl_job" where
  "reparse_job now orig c nextCount =
     \<lparr>job_id = ''reparse-'' @ c_id c @ ''-'' @ int_text nextCount, job_crawler = c_source_id c,
      job_target = \<lparr>tg_url = c_url c, tg_type = TargetTypeArticle, tg_meta = Map.empty\<rparr>,
      job_priority = PriorityNormal, job_scheduled_at = now,
      job_timeout = header_timeout (m_headers orig) reparseJobTimeoutDefault,
      job_retry_count = 0, job_max_retries = 3\<rparr>"

definition reparse_headers :: "message \<Rightarrow> content \<Rightarrow> int \<Rightarrow> go_error \<Rightarrow> headers" where
  "reparse_headers orig c nextCount reason =
     (let hs = (m_headers orig)(HeaderTargetType \<mapsto> TargetTypeArticle);
          hs = (if c_source_id c \<noteq> [] then hs(HeaderCrawler \<mapsto> c_source_id c) else hs);
          timeout = header_timeout (m_headers orig) reparseJobTimeoutDefault
      in hs(HeaderTimeoutMs \<mapsto> int_text (timeout div millisecond),
            HeaderValidateReparseCount \<mapsto> int_text nextCount,
            HeaderValidateReparseReason \<mapsto> error_text reason))"

definition republishForReparse ::
  "'w validate_env \<Rightarrow> content \<Rightarrow> int \<Rightarrow> go_error \<Rightarrow> message \<Rightarrow> (act, 'w) sys
     \<Rightarrow> go_error option \<times> (act, 'w) sys" where
  "republishForReparse env c currentCount reason orig s =
     (let nextCount = currentCount + 1; job = reparse_job (ve_now env (fst s)) orig c nextCount
      in case ve_enc_job env job of
           Inl err \<Rightarrow> (Some (Wrapped ''marshal reparse crawl job'' err), s)
         | Inr payload \<Rightarrow>
             forward_drain env
               (new_message TopicCrawlNormal (job_id job) payload (reparse_headers orig c nextCount reason)) s)"

definition publishValidatedRef ::
  "'w validate_env \<Rightarrow> content_ref \<Rightarrow> processing_message \<Rightarrow> message \<Rightarrow> (act, 'w) sys
     \<Rightarrow> go_error option \<times> (act, 'w) sys" where
  "publishValidatedRef env ref pm orig s =
     (case ve_enc_ref env ref of
        Inl err \<Rightarrow> (Some (Wrapped ''marshal content ref'' err), s)
      | Inr data \<Rightarrow>
          (let out = \<lparr>pm_id = pm_id pm, pm_timestamp = ve_now env (fst s), pm_country = cr_country ref,
                      pm_stage = ''validated'', pm_data = data, pm_metadata = pm_metadata pm,
                      pm_retry_count = 0\<rparr>
           in case ve_enc_pm env out of
                Inl err \<Rightarrow> (Some (Wrapped ''marshal processing message'' err), s)
              | Inr outBytes \<Rightarrow>
                  Forward (ve_io env) (Some (ve_pub env))
                    (new_message TopicValidated (m_key orig) outBytes
                       [''source'' \<mapsto> si_name (cr_source ref), ''country'' \<mapsto> cr_country ref,
                        ''stage'' \<mapsto> ''validated'']) s))"

text \<open>Recording the verdict; a failure is only logged.\<close>

definition recordValidationRejected ::
  "'w validate_env \<Rightarrow> string \<Rightarrow> go_error \<Rightarrow> (act, 'w) sys \<Rightarrow> (act, 'w) sys" where
  "recordValidationRejected env i reason s =
     (if i = [] then s
      else (let (code, detail) = (case as_crawler reason of
                  Some ce \<Rightarrow> (ce_code ce, ce_message ce) | None \<Rightarrow> ([], error_text reason))
            in snd (perform (ve_io env) (SetStatus i ''rejected'' code detail) s)))"

definition recordValidationPassed :: "'w validate_env \<Rightarrow> string \<Rightarrow> (act, 'w) sys \<Rightarrow> (act, 'w) sys" where
  "recordValidationPassed env i s =
     (if i = [] then s else snd (perform (ve_io env) (SetStatus i ''passed'' [] []) s))"

section \<open>Gate skips\<close>

definition commit_msg ::
  "'w validate_env \<Rightarrow> message \<Rightarrow> (act, 'w) sys \<Rightarrow> go_error option \<times> (act, 'w) sys" where
  "commit_msg env msg s = CommitWithDrain (ve_io env) msg s"

definition gateSkipLimitExceeded ::
  "'w validate_env \<Rightarrow> message \<Rightarrow> (act, 'w) sys \<Rightarrow> bool \<times> (act, 'w) sys" where
  "gateSkipLimitExceeded env msg s =
     (case v_sendToDLQ env msg (Sentinel StageGateHeld) s of
        (Some _, s1) \<Rightarrow> (False, s1)
      | (None, s1) \<Rightarrow> (True, snd (commit_msg env msg s1)))"

definition enqueueGateSkipRetry ::
  "'w validate_env \<Rightarrow> message \<Rightarrow> (act, 'w) sys \<Rightarrow> bool \<times> (act, 'w) sys" where
  "enqueueGateSkipRetry env msg s =
     (if \<not> ve_has_gate_skip env then (False, s)
      else (let skipCount = parseGateSkipCount (m_headers msg)
            in if MaxGateSkipRequeues \<le> skipCount then gateSkipLimitExceeded env msg s
               else (case BuildRetryJob env (ve_now env (fst s)) msg of
                       Inl _ \<Rightarrow> (False, s)
                     | Inr job0 \<Rightarrow>
                        (let job = carryGateSkipCount
                               (job0\<lparr>job_scheduled_at := ve_now env (fst s) + GateSkipDelay\<rparr>) (skipCount + 1)
                         in case perform (ve_io env) (EnqueueRetry job (Some (Sentinel StageGateHeld))) s of
                              (Some enqErr, s1) \<Rightarrow>
                                (case v_sendToDLQ env msg (Wrapped ''gate skip requeue failed'' enqErr) s1 of
                                   (Some _, s2) \<Rightarrow> (False, s2)
                                 | (None, s2) \<Rightarrow> (True, snd (commit_msg env msg s2)))
                            | (None, s1) \<Rightarrow> (True, snd (commit_msg env msg s1))))))"

section \<open>One message\<close>

text \<open>The branch for an undecodable message or a failed database read.\<close>

definition dlq_and_commit ::
  "'w validate_env \<Rightarrow> string \<Rightarrow> message \<Rightarrow> go_error \<Rightarrow> (act, 'w) sys
     \<Rightarrow> go_error option \<times> (act, 'w) sys" where
  "dlq_and_commit env ctx msg err s =
     (case v_sendToDLQ env msg err s of
        (Some dlqErr, s1) \<Rightarrow> (Some (Wrapped ctx dlqErr), s1)
      | (None, s1) \<Rightarrow> commit_msg env msg s1)"

text \<open>The content failed validation with \<open>err\<close>.\<close>

definition content_rejected ::
  "'w validate_env \<Rightarrow> message \<Rightarrow> processing_message \<Rightarrow> content_ref \<Rightarrow> content \<Rightarrow> go_error \<Rightarrow> (act, 'w) sys
     \<Rightarrow> go_error option \<times> (act, 'w) sys" where
  "content_rejected env msg pm ref c err s =
     (let reparseCount = readReparseCount msg
      in if ReparseEnabled (ve_cfg env) \<and> IsReparseEligible err \<and> reparseCount < MaxValidateReparseCount then
           (case republishForReparse env c reparseCount err msg s of
              (Some rpErr, s1) \<Rightarrow> (Some (Wrapped ''republish reparse'' rpErr), s1)
            | (None, s1) \<Rightarrow>
                commit_msg env msg (snd (perform (ve_io env) (DeleteContent (cr_id ref)) s1)))
         else if maxRetries msg \<le> pm_retry_count pm then
           (let s1 = recordValidationRejected env (cr_id ref) err s;
                s2 = snd (perform (ve_io env) (DeleteContent (cr_id ref)) s1)
            in dlq_and_commit env ''send to dlq (max retries)'' msg err s2)
         else
           (case v_requeue env msg pm s of
              (Some rqErr, s1) \<Rightarrow> (Some (Wrapped ''requeue'' rqErr), s1)
            | (None, s1) \<Rightarrow> commit_msg env msg s1))"

definition content_accepted ::
  "'w validate_env \<Rightarrow> message \<Rightarrow> processing_message \<Rightarrow> content_ref \<Rightarrow> (act, 'w) sys
     \<Rightarrow> go_error option \<times> (act, 'w) sys" where
  "content_accepted env msg pm ref s0 =
     (let s = recordValidationPassed env (cr_id ref) s0
      in case publishValidatedRef env ref pm msg s of
           (None, s1) \<Rightarrow> commit_msg env msg s1
         | (Some err, s1) \<Rightarrow>
             if is_canceled err then
               (case publishValidatedRef env ref pm msg s1 of
                  (Some drainErr, s2) \<Rightarrow>
                    (Some (Wrapped (''publish validated ref '' @ cr_id ref @ '' (drain retry failed)'') drainErr), s2)
                | (None, s2) \<Rightarrow> commit_msg env msg s2)
             else (Some (Wrapped (''publish validated ref '' @ cr_id ref) err), s1))"

text \<open>From the load of the content on.\<close>

definition validate_content ::
  "'w validate_env \<Rightarrow> message \<Rightarrow> processing_message \<Rightarrow> content_ref \<Rightarrow> (act, 'w) sys
     \<Rightarrow> go_error option \<times> (act, 'w) sys" where
  "validate_content env msg pm ref s =
     (case perform_val (ve_load env (cr_id ref)) (LoadContent (cr_id ref)) s of
        (Inl err, s1) \<Rightarrow>
          if is_sentinel StorageNotFound err then commit_msg env msg s1
          else if IsQueryTimeout err then (Some (Wrapped ''fetch content (timeout)'' err), s1)
          else dlq_and_commit env ''send to dlq (db fetch)'' msg err s1
      | (Inr content, s1) \<Rightarrow>
          (case RunValidation (ve_errors_text env) (ve_unicode env) (ve_cfg env) (c_source_type content) content of
             Inl err \<Rightarrow> content_rejected env msg pm ref content err s1
           | Inr _ \<Rightarrow> content_accepted env msg pm ref s1))"

definition process :: "'w validate_env \<Rightarrow> message \<Rightarrow> (act, 'w) sys \<Rightarrow> go_error option \<times> (act, 'w) sys" where
  "process env msg s =
     (case ve_dec_pm env (m_value msg) of
        Inl err \<Rightarrow> dlq_and_commit env ''send to dlq (unmarshal)'' msg err s
      | Inr pm \<Rightarrow>
         (case ve_dec_ref env (pm_data pm) of
            Inl err \<Rightarrow> dlq_and_commit env ''send to dlq (ref unmarshal)'' msg err s
          | Inr ref \<Rightarrow>
             (case perform_val (ve_acquire env (cr_url ref)) (GateAcquire (cr_url ref)) s of
                (Inl gateErr, s1) \<Rightarrow>
                  if ve_ctx_err env (fst s1) \<noteq> None
                  then (Some (Wrapped ''validator stage gate acquire aborted by ctx'' gateErr), s1)
                  else validate_content env msg pm ref s1
              | (Inr acquired, s1) \<Rightarrow>
                  if \<not> acquired then (None, snd (enqueueGateSkipRetry env msg s1))
                  else (let (r, s2) = validate_content env msg pm ref s1
                        in (r, snd (perform (ve_io env) (GateRelease (cr_url ref)) s2))))))"

definition validate_handle :: "'w validate_env \<Rightarrow> message \<Rightarrow> (act, 'w) sys \<Rightarrow> (act, 'w) sys" where
  "validate_handle env msg s =
     (case process env msg s of
        (None, s1) \<Rightarrow> s1
      | (Some err, s1) \<Rightarrow>
          if is_canceled err then s1
          else if \<not> ve_has_retry env then s1
          else
            (let (enqueueErr, s2) = (case BuildRetryJob env (ve_now env (fst s1)) msg of
                    Inl e \<Rightarrow> (Some e, s1)
                  | Inr job \<Rightarrow> perform (ve_io env) (EnqueueRetry job (Some err)) s1)
             in case enqueueErr of
                  Some e \<Rightarrow>
                    (case v_sendToDLQ env msg (Annotated ''retry enqueue failed: '' e
                              ('' (original: '' @ error_text err @ '')'')) s2 of
                       (Some _, s3) \<Rightarrow> s3
                     | (None, s3) \<Rightarrow> snd (commit_msg env msg s3))
                | None \<Rightarrow> snd (commit_msg env msg s2)))"

section \<open>What each operation adds to the trace\<close>

lemma forward_drain_quiet:
  assumes "forward_drain env m s = (r, s')"
  shows "no_commit s s' \<and> (\<forall>b. did b s' \<longleftrightarrow> did b s \<or> (b = Publish m \<and> r = None))"
proof
  show "no_commit s s'"
    using assms by (auto simp: forward_drain_def dest!: Forward_no_commit intro: no_commit_trans
        split: prod.splits option.splits if_splits)
  show "\<forall>b. did b s' \<longleftrightarrow> did b s \<or> (b = Publish m \<and> r = None)"
    using assms by (auto simp: forward_drain_def dest!: Forward_dids
        split: prod.splits option.splits if_splits)
qed

lemma v_sendToDLQ_quiet:
  assumes "v_sendToDLQ env msg reason s = (r, s')"
  shows "no_commit s s' \<and> (r = None \<longrightarrow> dead_lettered msg s')"
proof -
  have "forward_drain env (new_message TopicDLQ (m_key msg) (m_value msg)
      ((m_headers msg)(''original-topic'' \<mapsto> m_topic msg, ''error'' \<mapsto> error_text reason))) s = (r, s')"
    using assms by (simp add: v_sendToDLQ_def)
  from forward_drain_quiet [OF this] show ?thesis by (auto simp: dead_lettered_def)
qed

text \<open>How a message of the validate stage is settled.\<close>

definition requeued :: "'w validate_env \<Rightarrow> message \<Rightarrow> processing_message \<Rightarrow> (act, 'w) sys \<Rightarrow> bool" where
  "requeued env msg pm s \<longleftrightarrow>
     (\<exists>data. ve_enc_pm env (pm\<lparr>pm_retry_count := pm_retry_count pm + 1\<rparr>) = Inr data
        \<and> did (Publish (requeue_message msg (pm_retry_count pm + 1) data)) s)"

definition reparsed :: "message \<Rightarrow> (act, 'w) sys \<Rightarrow> bool" where
  "reparsed msg s \<longleftrightarrow>
     (\<exists>m c e. did (Publish m) s \<and> m_topic m = TopicCrawlNormal
        \<and> m_headers m = reparse_headers msg c (readReparseCount msg + 1) e
        \<and> readReparseCount msg < MaxValidateReparseCount)"

definition retry_queued :: "content_ref \<Rightarrow> (act, 'w) sys \<Rightarrow> bool" where
  "retry_queued ref s \<longleftrightarrow>
     (\<exists>job e. did (EnqueueRetry job e) s \<and> job_id job = cr_id ref \<and> tg_url (job_target job) = cr_url ref)"

definition validated_published :: "message \<Rightarrow> (act, 'w) sys \<Rightarrow> bool" where
  "validated_published msg s \<longleftrightarrow>
     (\<exists>m. did (Publish m) s \<and> m_topic m = TopicValidated \<and> m_key m = m_key msg)"

definition content_missing :: "content_ref \<Rightarrow> (act, 'w) sys \<Rightarrow> bool" where
  "content_missing ref s \<longleftrightarrow>
     (\<exists>e. (LoadContent (cr_id ref), Some e) \<in> set (snd s) \<and> is_sentinel StorageNotFound e)"

definition v_settled :: "'w validate_env \<Rightarrow> message \<Rightarrow> (act, 'w) sys \<Rightarrow> bool" where
  "v_settled env msg s \<longleftrightarrow>
     dead_lettered msg s
     \<or> (\<exists>pm ref. ve_dec_pm env (m_value msg) = Inr pm \<and> ve_dec_ref env (pm_data pm) = Inr ref
        \<and> (requeued env msg pm s \<and> pm_retry_count pm < maxRetries msg
           \<or> reparsed msg s \<or> retry_queued ref s \<or> validated_published msg s
           \<or> content_missing ref s))"

lemma v_settled_grows: "v_settled env msg s \<Longrightarrow> grows s s' \<Longrightarrow> v_settled env msg s'"
proof -
  assume g: "grows s s'"
  have d: "dead_lettered msg s \<Longrightarrow> dead_lettered msg s'" using g by (rule dead_lettered_grows [rotated])
  have rest: "requeued env msg pm s \<Longrightarrow> requeued env msg pm s'" "reparsed msg s \<Longrightarrow> reparsed msg s'"
    "retry_queued ref s \<Longrightarrow> retry_queued ref s'" "validated_published msg s \<Longrightarrow> validated_published msg s'"
    "content_missing ref s \<Longrightarrow> content_missing ref s'" for pm ref
    using g unfolding requeued_def reparsed_def retry_queued_def validated_published_def
      content_missing_def did_def grows_def by blast+
  show "v_settled env msg s \<Longrightarrow> v_settled env msg s'"
    unfolding v_settled_def using d rest by metis
qed

lemma v_commit:
  assumes "no_commit s s1" and "commit_msg env msg s1 = (r, s')" and "v_settled env msg s1"
  shows "commits_only msg (v_settled env msg) s s'"
  using assms(1) assms(2) [unfolded commit_msg_def] assms(3)
  by (rule commits_only_commit) (rule v_settled_grows)

lemma v_commit_snd:
  assumes "no_commit s s1" and "v_settled env msg s1"
  shows "commits_only msg (v_settled env msg) s (snd (commit_msg env msg s1))"
  using v_commit [OF assms(1) _ assms(2)] by (metis prod.collapse)

lemma v_settled_dlq: "dead_lettered msg s \<Longrightarrow> v_settled env msg s"
  by (simp add: v_settled_def)

lemma dlq_and_commit_commits:
  assumes "dlq_and_commit env ctx msg err s = (r, s')"
  shows "commits_only msg (v_settled env msg) s s'"
proof -
  obtain a s1 where d: "v_sendToDLQ env msg err s = (a, s1)" by (rule prod.exhaust)
  note q = v_sendToDLQ_quiet [OF d]
  show ?thesis
    using assms d q v_commit [of s s1 env msg r s'] v_settled_dlq [of msg s1 env]
    by (cases a) (auto simp: dlq_and_commit_def commits_only_quiet)
qed

lemma republishForReparse_quiet:
  assumes "republishForReparse env c k err msg s = (r, s')"
  shows "no_commit s s' \<and> (r = None \<longrightarrow> (\<exists>m. did (Publish m) s' \<and> m_topic m = TopicCrawlNormal
      \<and> m_headers m = reparse_headers msg c (k + 1) err))"
proof (cases "ve_enc_job env (reparse_job (ve_now env (fst s)) msg c (k + 1))")
  case (Inl e)
  then show ?thesis using assms by (auto simp: republishForReparse_def Let_def)
next
  case (Inr payload)
  define m where "m = new_message TopicCrawlNormal
      (job_id (reparse_job (ve_now env (fst s)) msg c (k + 1))) payload (reparse_headers msg c (k + 1) err)"
  have "forward_drain env m s = (r, s')"
    using assms Inr by (simp add: republishForReparse_def Let_def m_def)
  then have q: "no_commit s s'" "r = None \<longrightarrow> did (Publish m) s'"
    using forward_drain_quiet by blast+
  have "m_topic m = TopicCrawlNormal \<and> m_headers m = reparse_headers msg c (k + 1) err"
    by (simp add: m_def)
  with q show ?thesis by blast
qed

lemma content_rejected_commits:
  assumes r: "content_rejected env msg pm ref c err s = (r, s')"
    and dec: "ve_dec_pm env (m_value msg) = Inr pm" "ve_dec_ref env (pm_data pm) = Inr ref"
  shows "commits_only msg (v_settled env msg) s s'"
proof -
  let ?reparse = "ReparseEnabled (ve_cfg env) \<and> IsReparseEligible err \<and> readReparseCount msg < MaxValidateReparseCount"
  consider (reparse) ?reparse
    | (dlq) "\<not> ?reparse" "maxRetries msg \<le> pm_retry_count pm"
    | (requeue) "\<not> ?reparse" "pm_retry_count pm < maxRetries msg" by linarith
  then show ?thesis
  proof cases
    case reparse
    obtain a s1 where p: "republishForReparse env c (readReparseCount msg) err msg s = (a, s1)"
      by (rule prod.exhaust)
    have q: "no_commit s s1" "a = None \<Longrightarrow> reparsed msg s1"
      using republishForReparse_quiet [OF p] reparse by (auto simp: reparsed_def)
    let ?s2 = "snd (perform (ve_io env) (DeleteContent (cr_id ref)) s1)"
    have del: "no_commit s1 ?s2" by (rule perform_snd_no_commit) simp
    show ?thesis
    proof (cases a)
      case None
      then have "v_settled env msg s1" using q dec by (auto simp: v_settled_def)
      then have "v_settled env msg ?s2" using del no_commit_grows v_settled_grows by blast
      from v_commit_snd [OF no_commit_trans [OF q(1) del] this] show ?thesis
        using r reparse p None by (simp add: content_rejected_def)
    next
      case (Some e)
      then show ?thesis using r reparse p q(1) by (simp add: content_rejected_def commits_only_quiet)
    qed
  next
    case dlq
    let ?s1 = "recordValidationRejected env (cr_id ref) err s"
    let ?s2 = "snd (perform (ve_io env) (DeleteContent (cr_id ref)) ?s1)"
    have "no_commit s ?s1"
      by (simp add: recordValidationRejected_def perform_snd_no_commit split: prod.split)
    moreover have "no_commit ?s1 ?s2" by (rule perform_snd_no_commit) simp
    ultimately have q: "no_commit s ?s2" by (rule no_commit_trans)
    have "dlq_and_commit env ''send to dlq (max retries)'' msg err ?s2 = (r, s')"
      using r dlq by (auto simp: content_rejected_def Let_def split: if_splits)
    from commits_only_before [OF q dlq_and_commit_commits [OF this]] show ?thesis .
  next
    case requeue
    obtain a s1 where p: "v_requeue env msg pm s = (a, s1)" by (rule prod.exhaust)
    have q: "no_commit s s1" "a = None \<Longrightarrow> requeued env msg pm s1"
      using p by (auto simp: v_requeue_def Let_def requeued_def dest!: forward_drain_quiet split: sum.splits)
    have "a = None \<Longrightarrow> v_settled env msg s1" using q requeue dec by (auto simp: v_settled_def)
    then show ?thesis
      using r requeue p q v_commit [of s s1 env msg r s']
      by (cases a) (auto simp: content_rejected_def commits_only_quiet split: if_splits)
  qed
qed

lemma publishValidatedRef_quiet:
  assumes "publishValidatedRef env ref pm msg s = (r, s')"
  shows "no_commit s s' \<and> (r = None \<longrightarrow> validated_published msg s')"
proof
  show "no_commit s s'"
    using assms by (auto simp: publishValidatedRef_def Let_def dest!: Forward_no_commit split: sum.splits)
  show "r = None \<longrightarrow> validated_published msg s'"
    using assms by (auto simp: publishValidatedRef_def Let_def validated_published_def
        dest!: Forward_dids split: sum.splits)
qed

lemma content_accepted_commits:
  assumes r: "content_accepted env msg pm ref s = (r, s')"
    and dec: "ve_dec_pm env (m_value msg) = Inr pm" "ve_dec_ref env (pm_data pm) = Inr ref"
  shows "commits_only msg (v_settled env msg) s s'"
proof -
  let ?s0 = "recordValidationPassed env (cr_id ref) s"
  have q0: "no_commit s ?s0" by (simp add: recordValidationPassed_def perform_snd_no_commit)
  obtain a s1 where p: "publishValidatedRef env ref pm msg ?s0 = (a, s1)" by (rule prod.exhaust)
  obtain b s2 where p2: "publishValidatedRef env ref pm msg s1 = (b, s2)" by (rule prod.exhaust)
  note q = publishValidatedRef_quiet [OF p] publishValidatedRef_quiet [OF p2]
  have q1: "no_commit s s1" using q0 q(1) no_commit_trans by blast
  have q2: "no_commit s s2" using q1 q(2) no_commit_trans by blast
  have set: "a = None \<Longrightarrow> v_settled env msg s1" "b = None \<Longrightarrow> v_settled env msg s2"
    using q dec by (auto simp: v_settled_def)
  show ?thesis
  proof (cases a)
    case None
    then show ?thesis
      using r p v_commit_snd [OF q1 set(1) [OF None]] by (simp add: content_accepted_def Let_def)
  next
    case (Some e)
    then show ?thesis
      using r p p2 q1 q2 set(2) v_commit [OF q2]
      by (cases b) (auto simp: content_accepted_def Let_def commits_only_quiet split: if_splits)
  qed
qed

lemma validate_content_commits:
  assumes r: "validate_content env msg pm ref s = (r, s')"
    and dec: "ve_dec_pm env (m_value msg) = Inr pm" "ve_dec_ref env (pm_data pm) = Inr ref"
  shows "commits_only msg (v_settled env msg) s s'"
proof -
  obtain v s1 where l: "perform_val (ve_load env (cr_id ref)) (LoadContent (cr_id ref)) s = (v, s1)"
    by (rule prod.exhaust)
  have q: "no_commit s s1" using l by (rule perform_val_no_commit) simp
  show ?thesis
  proof (cases v)
    case (Inl err)
    have "content_missing ref s1" if "is_sentinel StorageNotFound err"
      using that Inl perform_val_trace [OF l] by (auto simp: content_missing_def)
    then have "v_settled env msg s1" if "is_sentinel StorageNotFound err"
      using that dec by (auto simp: v_settled_def)
    then show ?thesis
      using r l Inl v_commit [OF q] commits_only_quiet [OF q]
        commits_only_before [OF q dlq_and_commit_commits]
      by (auto simp: validate_content_def split: if_splits)
  next
    case (Inr c)
    then show ?thesis
      using r l commits_only_before [OF q content_rejected_commits [OF _ dec]]
        commits_only_before [OF q content_accepted_commits [OF _ dec]]
      by (auto simp: validate_content_def split: sum.splits)
  qed
qed

lemma gateSkipLimitExceeded_commits:
  assumes "gateSkipLimitExceeded env msg s = (b, s')"
  shows "commits_only msg (v_settled env msg) s s'"
proof -
  obtain a s1 where d: "v_sendToDLQ env msg (Sentinel StageGateHeld) s = (a, s1)" by (rule prod.exhaust)
  note q = v_sendToDLQ_quiet [OF d]
  show ?thesis
    using assms d q v_commit_snd [of s s1 env msg] v_settled_dlq [of msg s1 env]
    by (cases a) (auto simp: gateSkipLimitExceeded_def commits_only_quiet)
qed

lemma BuildRetryJob_ref:
  assumes "BuildRetryJob env now msg = Inr job"
  obtains pm ref where "ve_dec_pm env (m_value msg) = Inr pm" "ve_dec_ref env (pm_data pm) = Inr ref"
    "job_id job = cr_id ref" "tg_url (job_target job) = cr_url ref"
    "job_retry_count job = 0" "job_max_retries job = DefaultMaxRetries"
  using assms by (auto simp: BuildRetryJob_def Let_def split: sum.splits if_splits)

lemma retry_queued_settled:
  assumes "BuildRetryJob env now msg = Inr job0" and "did (EnqueueRetry job e) s"
    and "job_id job = job_id job0" and "tg_url (job_target job) = tg_url (job_target job0)"
  shows "v_settled env msg s"
proof -
  obtain pm ref where "ve_dec_pm env (m_value msg) = Inr pm" "ve_dec_ref env (pm_data pm) = Inr ref"
    "job_id job0 = cr_id ref" "tg_url (job_target job0) = cr_url ref"
    using assms(1) by (rule BuildRetryJob_ref)
  moreover from this have "retry_queued ref s"
    unfolding retry_queued_def using assms(2-4) by auto
  ultimately show ?thesis by (auto simp: v_settled_def)
qed

text \<open>A retry handed to the scheduler, with the dead letter as the fallback.\<close>

lemma enqueue_or_dlq_commits:
  assumes job: "BuildRetryJob env now msg = Inr job0" "job_id job = job_id job0"
      "tg_url (job_target job) = tg_url (job_target job0)"
    and enq: "perform (ve_io env) (EnqueueRetry job e) s = (a, s1)"
  shows "a = None \<Longrightarrow> commits_only msg (v_settled env msg) s (snd (commit_msg env msg s1))"
    and "v_sendToDLQ env msg f s1 = (d, s2) \<Longrightarrow> commits_only msg (v_settled env msg) s s2"
    and "v_sendToDLQ env msg f s1 = (None, s2)
      \<Longrightarrow> commits_only msg (v_settled env msg) s (snd (commit_msg env msg s2))"
proof -
  have q: "no_commit s s1" using enq by (rule perform_no_commit) simp
  show "commits_only msg (v_settled env msg) s (snd (commit_msg env msg s1))" if "a = None"
  proof -
    have "did (EnqueueRetry job e) s1" using perform_dids(1) [OF enq] that by simp
    from retry_queued_settled [OF job(1) this job(2,3)] show ?thesis
      using q by (intro v_commit_snd)
  qed
  show "commits_only msg (v_settled env msg) s s2" if "v_sendToDLQ env msg f s1 = (d, s2)"
    using v_sendToDLQ_quiet [OF that] no_commit_trans [OF q] by (intro commits_only_quiet) blast
  show "commits_only msg (v_settled env msg) s (snd (commit_msg env msg s2))"
    if "v_sendToDLQ env msg f s1 = (None, s2)"
    using v_sendToDLQ_quiet [OF that] no_commit_trans [OF q] v_settled_dlq
    by (intro v_commit_snd) blast+
qed

lemma enqueueGateSkipRetry_commits:
  assumes "enqueueGateSkipRetry env msg s = (b, s')"
  shows "commits_only msg (v_settled env msg) s s'"
proof (cases "ve_has_gate_skip env \<and> parseGateSkipCount (m_headers msg) < MaxGateSkipRequeues")
  case False
  then show ?thesis
    using assms gateSkipLimitExceeded_commits [of env msg s b s']
    by (auto simp: enqueueGateSkipRetry_def Let_def split: if_splits)
next
  case True
  show ?thesis
  proof (cases "BuildRetryJob env (ve_now env (fst s)) msg")
    case (Inl e)
    then show ?thesis
      using assms True
      by (auto simp: enqueueGateSkipRetry_def Let_def)
  next
    case (Inr job0)
    define job where "job = carryGateSkipCount
      (job0\<lparr>job_scheduled_at := ve_now env (fst s) + GateSkipDelay\<rparr>) (parseGateSkipCount (m_headers msg) + 1)"
    have same: "job_id job = job_id job0" "tg_url (job_target job) = tg_url (job_target job0)"
      by (simp_all add: job_def carryGateSkipCount_def)
    obtain a s1 where enq: "perform (ve_io env) (EnqueueRetry job (Some (Sentinel StageGateHeld))) s = (a, s1)"
      by (rule prod.exhaust)
    note c = enqueue_or_dlq_commits [OF Inr same enq]
    have run: "enqueueGateSkipRetry env msg s =
        (case a of
           Some enqErr \<Rightarrow>
             (case v_sendToDLQ env msg (Wrapped ''gate skip requeue failed'' enqErr) s1 of
                (Some _, s2) \<Rightarrow> (False, s2)
              | (None, s2) \<Rightarrow> (True, snd (commit_msg env msg s2)))
         | None \<Rightarrow> (True, snd (commit_msg env msg s1)))"
      using True Inr enq by (simp add: enqueueGateSkipRetry_def Let_def job_def split: option.split)
    show ?thesis
      using assms c unfolding run by (auto split: option.splits prod.splits)
  qed
qed

lemma process_commits:
  assumes "process env msg s = (r, s')"
  shows "commits_only msg (v_settled env msg) s s'"
proof (cases "\<exists>pm ref. ve_dec_pm env (m_value msg) = Inr pm \<and> ve_dec_ref env (pm_data pm) = Inr ref")
  case False
  then obtain ctx err where "dlq_and_commit env ctx msg err s = (r, s')"
    using assms by (auto simp: process_def split: sum.splits)
  then show ?thesis by (rule dlq_and_commit_commits)
next
  case True
  then obtain pm ref where dec: "ve_dec_pm env (m_value msg) = Inr pm" "ve_dec_ref env (pm_data pm) = Inr ref"
    by blast
  obtain v s1 where g: "perform_val (ve_acquire env (cr_url ref)) (GateAcquire (cr_url ref)) s = (v, s1)"
    by (rule prod.exhaust)
  have q: "no_commit s s1" using g by (rule perform_val_no_commit) simp
  obtain rv sv where vc: "validate_content env msg pm ref s1 = (rv, sv)" by (rule prod.exhaust)
  note cv = commits_only_before [OF q validate_content_commits [OF vc dec]]
  obtain b sk where sk: "enqueueGateSkipRetry env msg s1 = (b, sk)" by (rule prod.exhaust)
  note ck = commits_only_before [OF q enqueueGateSkipRetry_commits [OF sk]]
  have "no_commit sv (snd (perform (ve_io env) (GateRelease (cr_url ref)) sv))"
    by (rule perform_snd_no_commit) simp
  from commits_only_after [OF cv this v_settled_grows] have cr:
    "commits_only msg (v_settled env msg) s (snd (perform (ve_io env) (GateRelease (cr_url ref)) sv))" .
  show ?thesis
    using assms dec g vc sk cv ck cr commits_only_quiet [OF q]
    by (auto simp: process_def Let_def split: sum.splits if_splits)
qed

lemma validate_handle_commits:
  "commits_only msg (v_settled env msg) s (validate_handle env msg s)"
proof -
  obtain r s1 where p: "process env msg s = (r, s1)" by (rule prod.exhaust)
  note c1 = process_commits [OF p]
  show ?thesis
  proof (cases "\<exists>err. r = Some err \<and> \<not> is_canceled err \<and> ve_has_retry env")
    case False
    then show ?thesis using p c1 by (auto simp: validate_handle_def split: option.splits)
  next
    case True
    then obtain err where err: "r = Some err" "\<not> is_canceled err" "ve_has_retry env" by blast
    have "commits_only msg (v_settled env msg) s1 (validate_handle env msg s)"
    proof (cases "BuildRetryJob env (ve_now env (fst s1)) msg")
      case (Inl e)
      let ?f = "Annotated ''retry enqueue failed: '' e ('' (original: '' @ error_text err @ '')'')"
      obtain a s2 where d: "v_sendToDLQ env msg ?f s1 = (a, s2)" by (rule prod.exhaust)
      note q = v_sendToDLQ_quiet [OF d]
      show ?thesis
        using p err Inl d q v_commit_snd [of s1 s2 env msg] v_settled_dlq [of msg s2 env]
        by (cases a) (simp_all add: validate_handle_def commits_only_quiet)
    next
      case (Inr job)
      obtain a s2 where enq: "perform (ve_io env) (EnqueueRetry job (Some err)) s1 = (a, s2)"
        by (rule prod.exhaust)
      note c = enqueue_or_dlq_commits [OF Inr refl refl enq]
      show ?thesis
        using p err Inr enq c by (auto simp: validate_handle_def split: option.splits prod.splits)
    qed
    then show ?thesis using c1 unfolding commits_only_def
      using v_settled_grows grows_trans by blast
  qed
qed

section \<open>Only valid contents are published as validated\<close>

definition no_validated :: "(act, 'w) sys \<Rightarrow> (act, 'w) sys \<Rightarrow> bool" where
  "no_validated s s' \<longleftrightarrow>
     (\<forall>m. did (Publish m) s' \<and> m_topic m = TopicValidated \<longrightarrow> did (Publish m) s)"

lemma no_validated_refl [simp]: "no_validated s s"
  by (simp add: no_validated_def)

lemma no_validated_trans: "no_validated s s1 \<Longrightarrow> no_validated s1 s2 \<Longrightarrow> no_validated s s2"
  unfolding no_validated_def by blast

lemma topics_not_validated [simp]:
  "TopicDLQ \<noteq> TopicValidated" "TopicNormalized \<noteq> TopicValidated" "TopicCrawlNormal \<noteq> TopicValidated"
  by (simp_all add: topics)

lemma forward_drain_no_validated:
  "forward_drain env m s = (r, s') \<Longrightarrow> m_topic m \<noteq> TopicValidated \<Longrightarrow> no_validated s s'"
  using forward_drain_quiet [of env m s r s'] by (auto simp: no_validated_def)

lemma commit_no_validated: "no_validated s (snd (commit_msg env msg s))"
proof -
  obtain r s' where c: "CommitWithDrain (ve_io env) msg s = (r, s')" by (rule prod.exhaust)
  then show ?thesis
    using CommitWithDrain_dids [OF c] by (simp add: no_validated_def commit_msg_def)
qed

lemma perform_no_validated:
  "(\<And>m. a \<noteq> Publish m) \<Longrightarrow> no_validated s (snd (perform io a s))"
  "(\<And>m. a \<noteq> Publish m) \<Longrightarrow> no_validated s (snd (perform_val c a s))"
proof -
  obtain r s' where p: "perform io a s = (r, s')" by (rule prod.exhaust)
  obtain v t where q: "perform_val c a s = (v, t)" by (rule prod.exhaust)
  show "(\<And>m. a \<noteq> Publish m) \<Longrightarrow> no_validated s (snd (perform io a s))"
    using perform_dids(1) [OF p] p by (auto simp: no_validated_def)
  show "(\<And>m. a \<noteq> Publish m) \<Longrightarrow> no_validated s (snd (perform_val c a s))"
    using perform_dids(2) [OF q] q by (auto simp: no_validated_def)
qed

lemma v_sendToDLQ_no_validated: "no_validated s (snd (v_sendToDLQ env msg e s))"
  unfolding v_sendToDLQ_def Let_def
  by (rule forward_drain_no_validated [OF surjective_pairing]) simp

lemma dlq_and_commit_no_validated: "no_validated s (snd (dlq_and_commit env ctx msg e s))"
  using v_sendToDLQ_no_validated [of s env msg e] commit_no_validated no_validated_trans
  by (fastforce simp: dlq_and_commit_def split: prod.splits option.splits)

lemma v_requeue_no_validated: "no_validated s (snd (v_requeue env msg pm s))"
  unfolding v_requeue_def Let_def
  by (cases "ve_enc_pm env (pm\<lparr>pm_retry_count := pm_retry_count pm + 1\<rparr>)")
    (auto simp: requeue_message_def intro!: forward_drain_no_validated [OF surjective_pairing])

lemma republish_no_validated: "no_validated s (snd (republishForReparse env c k e msg s))"
  unfolding republishForReparse_def Let_def
  by (cases "ve_enc_job env (reparse_job (ve_now env (fst s)) msg c (k + 1))")
    (auto intro!: forward_drain_no_validated [OF surjective_pairing])

lemma content_rejected_no_validated: "no_validated s (snd (content_rejected env msg pm ref c e s))"
proof -
  have 1: "no_validated s (snd (case republishForReparse env c k e msg s of
              (Some rpErr, s1) \<Rightarrow> (Some (Wrapped ''republish reparse'' rpErr), s1)
            | (None, s1) \<Rightarrow> commit_msg env msg (snd (perform (ve_io env) (DeleteContent (cr_id ref)) s1))))" for k
  proof -
    obtain a s1 where p: "republishForReparse env c k e msg s = (a, s1)" by (rule prod.exhaust)
    have "no_validated s s1" using republish_no_validated [of s env c k e msg] p by simp
    moreover have "no_validated s1 (snd (perform (ve_io env) (DeleteContent (cr_id ref)) s1))"
      by (rule perform_no_validated) simp
    ultimately have "no_validated s s1" "no_validated s
        (snd (commit_msg env msg (snd (perform (ve_io env) (DeleteContent (cr_id ref)) s1))))"
      using no_validated_trans commit_no_validated by blast+
    then show ?thesis using p by (cases a) auto
  qed
  have 2: "no_validated s (snd (case v_requeue env msg pm s of
              (Some rqErr, s1) \<Rightarrow> (Some (Wrapped ''requeue'' rqErr), s1)
            | (None, s1) \<Rightarrow> commit_msg env msg s1))"
    using v_requeue_no_validated [of s env msg pm] commit_no_validated no_validated_trans
    by (fastforce split: prod.splits option.splits)
  have 3: "no_validated s (snd (dlq_and_commit env ctx msg e
      (snd (perform (ve_io env) (DeleteContent (cr_id ref)) (recordValidationRejected env (cr_id ref) e s)))))" for ctx
  proof -
    have "no_validated s (recordValidationRejected env (cr_id ref) e s)"
      by (auto simp: recordValidationRejected_def intro!: perform_no_validated split: prod.split)
    moreover have "no_validated t (snd (perform (ve_io env) (DeleteContent (cr_id ref)) t))" for t
      by (rule perform_no_validated) simp
    ultimately show ?thesis
      using no_validated_trans dlq_and_commit_no_validated by blast
  qed
  show ?thesis
    using 1 2 3 by (simp add: content_rejected_def Let_def)
qed

lemma enqueueGateSkipRetry_no_validated: "no_validated s (snd (enqueueGateSkipRetry env msg s))"
proof -
  have lim: "no_validated s (snd (gateSkipLimitExceeded env msg s))"
    using v_sendToDLQ_no_validated [of s env msg "Sentinel StageGateHeld"]
      commit_no_validated no_validated_trans
    by (fastforce simp: gateSkipLimitExceeded_def split: prod.splits option.splits)
  have enq: "no_validated s (snd (case perform (ve_io env) (EnqueueRetry job e) s of
      (Some enqErr, s1) \<Rightarrow>
        (case v_sendToDLQ env msg (Wrapped ''gate skip requeue failed'' enqErr) s1 of
           (Some _, s2) \<Rightarrow> (False, s2)
         | (None, s2) \<Rightarrow> (True, snd (commit_msg env msg s2)))
    | (None, s1) \<Rightarrow> (True, snd (commit_msg env msg s1))))" for job e
  proof -
    obtain a s1 where p: "perform (ve_io env) (EnqueueRetry job e) s = (a, s1)" by (rule prod.exhaust)
    have 1: "no_validated s s1"
      using perform_no_validated(1) [of "EnqueueRetry job e" s "ve_io env"] p by simp
    show ?thesis
    proof (cases a)
      case None
      then show ?thesis using p no_validated_trans [OF 1 commit_no_validated] by simp
    next
      case (Some x)
      obtain d s2 where q: "v_sendToDLQ env msg (Wrapped ''gate skip requeue failed'' x) s1 = (d, s2)"
        by (rule prod.exhaust)
      have 2: "no_validated s s2"
        using no_validated_trans [OF 1 v_sendToDLQ_no_validated] q by (metis snd_conv)
      then show ?thesis using p q Some no_validated_trans [OF 2 commit_no_validated] by (cases d) auto
    qed
  qed
  show ?thesis
    using lim enq by (simp add: enqueueGateSkipRetry_def Let_def split: sum.split)
qed

text \<open>The content that a worker loads and validates.\<close>

definition passes :: "'w validate_env \<Rightarrow> content_ref \<Rightarrow> bool" where
  "passes env ref \<longleftrightarrow>
     (\<exists>w c c'. fst (ve_load env (cr_id ref) w) = Inr c
        \<and> RunValidation (ve_errors_text env) (ve_unicode env) (ve_cfg env) (c_source_type c) c = Inr c')"

lemma validate_content_no_validated:
  assumes "\<not> passes env ref"
  shows "no_validated s (snd (validate_content env msg pm ref s))"
proof -
  obtain v s1 where l: "perform_val (ve_load env (cr_id ref)) (LoadContent (cr_id ref)) s = (v, s1)"
    by (rule prod.exhaust)
  have 1: "no_validated s s1"
    using perform_no_validated(2) [of "LoadContent (cr_id ref)" s "ve_load env (cr_id ref)"] l by simp
  have v: "v = fst (ve_load env (cr_id ref) (fst s))"
    using perform_val_eq [of "ve_load env (cr_id ref)" "LoadContent (cr_id ref)" s] l by auto
  show ?thesis
  proof (cases v)
    case (Inl err)
    then show ?thesis
      using l 1 no_validated_trans [OF 1 commit_no_validated] no_validated_trans [OF 1 dlq_and_commit_no_validated]
      by (simp add: validate_content_def)
  next
    case (Inr c)
    then have "\<exists>e. RunValidation (ve_errors_text env) (ve_unicode env) (ve_cfg env) (c_source_type c) c = Inl e"
      using assms v unfolding passes_def by (metis sumE)
    then show ?thesis
      using l Inr no_validated_trans [OF 1 content_rejected_no_validated]
      by (auto simp: validate_content_def)
  qed
qed

lemma process_no_validated:
  assumes "\<nexists>pm ref. ve_dec_pm env (m_value msg) = Inr pm \<and> ve_dec_ref env (pm_data pm) = Inr ref
             \<and> passes env ref"
  shows "no_validated s (snd (process env msg s))"
proof (cases "\<exists>pm ref. ve_dec_pm env (m_value msg) = Inr pm \<and> ve_dec_ref env (pm_data pm) = Inr ref")
  case False
  then show ?thesis by (auto simp: process_def dlq_and_commit_no_validated split: sum.splits)
next
  case True
  then obtain pm ref where dec: "ve_dec_pm env (m_value msg) = Inr pm" "ve_dec_ref env (pm_data pm) = Inr ref"
    by blast
  have np: "\<not> passes env ref" using assms dec by blast
  obtain v s1 where g: "perform_val (ve_acquire env (cr_url ref)) (GateAcquire (cr_url ref)) s = (v, s1)"
    by (rule prod.exhaust)
  have 1: "no_validated s s1"
    using perform_no_validated(2) [of "GateAcquire (cr_url ref)" s "ve_acquire env (cr_url ref)"] g by simp
  have 2: "no_validated s (snd (validate_content env msg pm ref s1))"
    using no_validated_trans [OF 1 validate_content_no_validated [OF np]] .
  have 3: "no_validated s (snd (enqueueGateSkipRetry env msg s1))"
    using no_validated_trans [OF 1 enqueueGateSkipRetry_no_validated] .
  have 4: "no_validated t (snd (perform (ve_io env) (GateRelease (cr_url ref)) t))" for t
    by (rule perform_no_validated) simp
  show ?thesis
    using dec g 1 2 3 no_validated_trans [OF 2 4]
    by (simp add: process_def Let_def split_beta split: sum.split)
qed

lemma validate_handle_no_validated:
  assumes "\<nexists>pm ref. ve_dec_pm env (m_value msg) = Inr pm \<and> ve_dec_ref env (pm_data pm) = Inr ref
             \<and> passes env ref"
  shows "no_validated s (validate_handle env msg s)"
proof -
  obtain r s1 where p: "process env msg s = (r, s1)" by (rule prod.exhaust)
  have 1: "no_validated s s1" using process_no_validated [OF assms, of s] p by simp
  have dlq: "no_validated s (case v_sendToDLQ env msg e t of
      (Some _, s3) \<Rightarrow> s3 | (None, s3) \<Rightarrow> snd (commit_msg env msg s3))" if t: "no_validated s t" for e t
  proof -
    obtain a s3 where d: "v_sendToDLQ env msg e t = (a, s3)" by (rule prod.exhaust)
    have 3: "no_validated s s3"
      using no_validated_trans [OF t v_sendToDLQ_no_validated] d by (metis snd_conv)
    show ?thesis using d 3 no_validated_trans [OF 3 commit_no_validated] by (cases a) auto
  qed
  have enq: "no_validated s (snd (perform (ve_io env) (EnqueueRetry job e) s1))" for job e
    by (rule no_validated_trans [OF 1 perform_no_validated(1)]) simp
  show ?thesis
    using p 1 dlq enq no_validated_trans [OF enq commit_no_validated]
    by (auto simp: validate_handle_def Let_def split_beta split: option.split sum.split)
qed

lemma attempted_grows: "attempted a s \<Longrightarrow> grows s s' \<Longrightarrow> attempted a s'"
  unfolding attempted_def grows_def by blast

lemma commit_msg_grows: "grows s (snd (commit_msg env msg s))"
  unfolding commit_msg_def by (rule CommitWithDrain_grows [OF surjective_pairing])

lemma v_sendToDLQ_grows: "grows s (snd (v_sendToDLQ env msg e s))"
  using v_sendToDLQ_quiet [OF surjective_pairing] no_commit_grows by blast

lemma gate_skip_attempted:
  "attempted (EnqueueRetry job e) (snd (case perform (ve_io env) (EnqueueRetry job e) s of
      (Some enqErr, s1) \<Rightarrow>
        (case v_sendToDLQ env msg (Wrapped ''gate skip requeue failed'' enqErr) s1 of
           (Some _, s2) \<Rightarrow> (False, s2)
         | (None, s2) \<Rightarrow> (True, snd (commit_msg env msg s2)))
    | (None, s1) \<Rightarrow> (True, snd (commit_msg env msg s1))))"
proof -
  obtain a s1 where p: "perform (ve_io env) (EnqueueRetry job e) s = (a, s1)" by (rule prod.exhaust)
  have 1: "attempted (EnqueueRetry job e) s1" using perform_attempted [OF p] by simp
  show ?thesis
  proof (cases a)
    case None
    then show ?thesis using p attempted_grows [OF 1 commit_msg_grows] by simp
  next
    case (Some x)
    obtain d s2 where q: "v_sendToDLQ env msg (Wrapped ''gate skip requeue failed'' x) s1 = (d, s2)"
      by (rule prod.exhaust)
    have 2: "attempted (EnqueueRetry job e) s2"
      using attempted_grows [OF 1 v_sendToDLQ_grows] q by (metis snd_conv)
    then show ?thesis using p q Some attempted_grows [OF 2 commit_msg_grows] by (cases d) auto
  qed
qed

lemma gate_skip_limit:
  "(\<forall>job e. did (EnqueueRetry job e) (snd (gateSkipLimitExceeded env msg s)) \<longrightarrow> did (EnqueueRetry job e) s)
   \<and> (did (Commit msg) (snd (gateSkipLimitExceeded env msg s)) \<longrightarrow>
        did (Commit msg) s \<or> dead_lettered msg (snd (gateSkipLimitExceeded env msg s)))"
proof -
  let ?hs = "(m_headers msg)(''original-topic'' \<mapsto> m_topic msg, ''error'' \<mapsto> error_text (Sentinel StageGateHeld))"
  obtain a s1 where d: "v_sendToDLQ env msg (Sentinel StageGateHeld) s = (a, s1)" by (rule prod.exhaust)
  have "forward_drain env (new_message TopicDLQ (m_key msg) (m_value msg) ?hs) s = (a, s1)"
    using d by (simp add: v_sendToDLQ_def)
  note f = forward_drain_quiet [OF this] v_sendToDLQ_quiet [OF d]
  obtain b s2 where c: "CommitWithDrain (ve_io env) msg s1 = (b, s2)" by (rule prod.exhaust)
  have "dead_lettered msg s1 \<Longrightarrow> dead_lettered msg s2"
    using dead_lettered_grows CommitWithDrain_grows [OF c] by blast
  then show ?thesis
    using d f c CommitWithDrain_dids [OF c]
    by (cases a) (auto simp: gateSkipLimitExceeded_def commit_msg_def)
qed

text \<open>A small concrete environment: every call succeeds, one short non-article content.\<close>

definition sample_pm :: processing_message where
  "sample_pm = \<lparr>pm_id = ''1'', pm_timestamp = 0, pm_country = ''KR'', pm_stage = ''normalized'',
     pm_data = [], pm_metadata = Map.empty, pm_retry_count = 0\<rparr>"

definition sample_ref :: content_ref where
  "sample_ref = \<lparr>cr_id = ''1'', cr_url = ''u'', cr_country = ''KR'',
     cr_source = \<lparr>si_country = ''KR'', si_type = ''news'', si_name = ''s'', si_base_url = [], si_language = []\<rparr>\<rparr>"

definition sample_venv :: "validate_config \<Rightarrow> nat validate_env" where
  "sample_venv cfg =
     \<lparr>ve_io = \<lambda>a w. (None, w + 1), ve_load = \<lambda>i w. (Inr (plain_content\<lparr>c_article := False\<rparr>), w + 1),
      ve_acquire = \<lambda>u w. (Inr True, w + 1), ve_now = \<lambda>w. 0, ve_ctx_err = \<lambda>w. None,
      ve_dec_pm = \<lambda>b. Inr sample_pm, ve_dec_ref = \<lambda>b. Inr sample_ref, ve_enc_pm = \<lambda>p. Inr [],
      ve_enc_ref = \<lambda>r. Inr [], ve_enc_job = \<lambda>j. Inr [], ve_errors_text = \<lambda>i es. i,
      ve_unicode = no_unicode, ve_cfg = cfg,
      ve_pub = \<lparr>pub_wired = True, pub_resolver = None, pub_marshal = \<lambda>j. Inr []\<rparr>,
      ve_has_retry = True, ve_has_gate_skip = True\<rparr>"

definition lenient_cfg :: validate_config where
  "lenient_cfg = DefaultValidateConfig\<lparr>NewsTitleMinLen := 0, NewsBodyMinLen := 0, NewsQualityThreshold := 0\<rparr>"

definition sample_vmsg :: "string \<Rightarrow> message" where
  "sample_vmsg n = new_message TopicNormalized ''k'' [] [HeaderValidateReparseCount \<mapsto> n]"

lemma sample_passes:
  "RunValidation (\<lambda>i es. i) no_unicode lenient_cfg ''news'' (plain_content\<lparr>c_article := False\<rparr>)
     = Inr (plain_content\<lparr>c_article := False, c_reliability := 29 / 100\<rparr>)"
proof -
  have b: "rune_count ''b'' = 1"
    by (simp add: rune_count_def runes_def decode_runes.simps decode_rune_def)
  show ?thesis
    by (simp add: RunValidation_cases run_validator_def news_validate_def validateTitle_def
        validateNewsBody_def validatePublishedAt_def detectSpam_def no_unicode_def lenient_cfg_def
        plain_content_def DefaultValidateConfig_def rune_count_ascii1 b newsQualityScore_def
        scoreWordCount_def scoreMetadata_def scoreStructure_def Let_def)
qed

lemma sample_accepted:
  "\<exists>w tr. validate_handle (sample_venv lenient_cfg) (sample_vmsg ''0'') (0, []) = (w, tr)
     \<and> (Commit (sample_vmsg ''0''), None) \<in> set tr
     \<and> (Publish (new_message TopicValidated ''k'' []
          [''source'' \<mapsto> ''s'', ''country'' \<mapsto> ''KR'', ''stage'' \<mapsto> ''validated'']), None) \<in> set tr"
  using sample_passes
  by (simp add: validate_handle_def process_def validate_content_def content_accepted_def
      recordValidationPassed_def publishValidatedRef_def commit_msg_def CommitWithDrain_def Forward_def
      perform_def perform_val_def sample_venv_def sample_ref_def sample_pm_def sample_vmsg_def
      plain_content_def Let_def)

section \<open>Properties\<close>

text \<open>C3. At-least-once for the validate stage: whatever Kafka, the database, the gate and the retry
  scheduler answer, the only offset a worker commits is that of its message, and then the
  message is dead-lettered, or requeued with one more retry within the limit, or sent back to the
  crawl topic for a reparse with its count increased, or handed to the retry scheduler, or
  published as validated, or its content is gone because an earlier delivery was processed.\<close>
theorem validate_commits_only_settled:
  assumes "did (Commit m) (validate_handle env msg (w, []))"
  shows "m = msg \<and> v_settled env msg (validate_handle env msg (w, []))"
  using validate_handle_commits [of msg env "(w, [])"] assms
  by (auto simp: commits_only_def)

theorem validate_commits_only_settled_witness:
  "v_settled (sample_venv lenient_cfg) (sample_vmsg ''0'')
     (validate_handle (sample_venv lenient_cfg) (sample_vmsg ''0'') (0, []))"
proof -
  have "did (Commit (sample_vmsg ''0'')) (validate_handle (sample_venv lenient_cfg) (sample_vmsg ''0'') (0, []))"
    using sample_accepted by (auto simp: did_def)
  from validate_commits_only_settled [OF this] show ?thesis by blast
qed

text \<open>C40. Only contents that pass validation reach the validated topic: if a worker published a
  message there, the content its message refers to was loaded and passes RunValidation.\<close>
theorem validated_only_if_valid:
  assumes "did (Publish m) (validate_handle env msg (w, []))" and "m_topic m = TopicValidated"
  shows "\<exists>pm ref. ve_dec_pm env (m_value msg) = Inr pm \<and> ve_dec_ref env (pm_data pm) = Inr ref
    \<and> passes env ref"
proof (rule ccontr)
  assume "\<not> ?thesis"
  then have "no_validated (w, []) (validate_handle env msg (w, []))"
    by (intro validate_handle_no_validated) blast
  then show False using assms by (auto simp: no_validated_def)
qed

theorem validated_only_if_valid_witness: "passes (sample_venv lenient_cfg) sample_ref"
proof -
  let ?m = "new_message TopicValidated ''k'' []
    [''source'' \<mapsto> ''s'', ''country'' \<mapsto> ''KR'', ''stage'' \<mapsto> ''validated'']"
  have "did (Publish ?m) (validate_handle (sample_venv lenient_cfg) (sample_vmsg ''0'') (0, []))"
    using sample_accepted by (auto simp: did_def)
  from validated_only_if_valid [OF this] show ?thesis by (simp add: sample_venv_def)
qed

text \<open>Gate skips are counted across requeues: the retry job of a skipped message carries the
  count in its target, the headers that the retry scheduler writes for it give the next delivery
  a count one higher, and once the count has reached MaxGateSkipRequeues the message is no
  longer requeued: nothing is enqueued and it is committed only as a dead letter.\<close>
theorem gate_skip_counted:
  assumes "ve_has_gate_skip env" and "BuildRetryJob env (ve_now env (fst s)) msg = Inr job0"
  shows "if parseGateSkipCount (m_headers msg) < MaxGateSkipRequeues
    then \<exists>job. attempted (EnqueueRetry job (Some (Sentinel StageGateHeld))) (snd (enqueueGateSkipRetry env msg s))
       \<and> job_id job = job_id job0
       \<and> (\<forall>le h. parseGateSkipCount (applyRetryHeaders job le h) = parseGateSkipCount (m_headers msg) + 1)
    else (\<forall>job e. did (EnqueueRetry job e) (snd (enqueueGateSkipRetry env msg s)) \<longrightarrow> did (EnqueueRetry job e) s)
       \<and> (did (Commit msg) (snd (enqueueGateSkipRetry env msg s)) \<longrightarrow>
            did (Commit msg) s \<or> dead_lettered msg (snd (enqueueGateSkipRetry env msg s)))"
proof (cases "parseGateSkipCount (m_headers msg) < MaxGateSkipRequeues")
  case True
  define k where "k = parseGateSkipCount (m_headers msg)"
  define job where "job = carryGateSkipCount
    (job0\<lparr>job_scheduled_at := ve_now env (fst s) + GateSkipDelay\<rparr>) (k + 1)"
  have "0 \<le> k" by (simp add: k_def parseGateSkipCount_def nonneg_count_def split: option.split)
  with True have a: "atoi (int_text (k + 1)) = Some (k + 1)"
    by (intro atoi_int_text) (auto simp: k_def MaxGateSkipRequeues_def)
  then have ne: "int_text (k + 1) \<noteq> []" by (auto simp: atoi_def)
  have "parseGateSkipCount (applyRetryHeaders job le h) = k + 1" for le h
    using a ne \<open>0 \<le> k\<close>
    by (simp add: parseGateSkipCount_def nonneg_count_def applyRetryHeaders_def job_def
        carryGateSkipCount_def Let_def)
  moreover have "attempted (EnqueueRetry job (Some (Sentinel StageGateHeld))) (snd (enqueueGateSkipRetry env msg s))"
    using assms True by (auto simp: enqueueGateSkipRetry_def Let_def job_def k_def
        intro!: gate_skip_attempted)
  ultimately show ?thesis
    using True by (auto simp: k_def job_def carryGateSkipCount_def)
next
  case False
  then have run: "enqueueGateSkipRetry env msg s = gateSkipLimitExceeded env msg s"
    using assms(1) by (simp add: enqueueGateSkipRetry_def)
  show ?thesis
    unfolding run using False gate_skip_limit [of env msg s] by (auto simp: not_less)
qed

theorem gate_skip_counted_witness:
  "\<exists>job. attempted (EnqueueRetry job (Some (Sentinel StageGateHeld)))
       (snd (enqueueGateSkipRetry (sample_venv lenient_cfg) (sample_vmsg ''0'') (0, [])))
     \<and> (\<forall>le h. parseGateSkipCount (applyRetryHeaders job le h) = 1)"
proof -
  obtain job0 where j: "BuildRetryJob (sample_venv lenient_cfg) (ve_now (sample_venv lenient_cfg) (fst (0, [] :: (act \<times> go_error option) list)))
      (sample_vmsg ''0'') = Inr job0"
    by (simp add: BuildRetryJob_def sample_venv_def sample_ref_def Let_def)
  have "ve_has_gate_skip (sample_venv lenient_cfg)" by (simp add: sample_venv_def)
  moreover have "parseGateSkipCount (m_headers (sample_vmsg ''0'')) = 0"
    by (simp add: parseGateSkipCount_def nonneg_count_def sample_vmsg_def header_names)
  ultimately show ?thesis
    using gate_skip_counted [of "sample_venv lenient_cfg" "(0, [])" "sample_vmsg ''0''" job0] j
    by (auto simp: MaxGateSkipRequeues_def)
qed

text \<open>A defect: the reparse limit is forgotten. When an eligible content fails again after
  MaxValidateReparseCount reparses, process falls through to requeue, whose message keeps none
  of the headers: its reparse count reads as 0. The next delivery of that message, if the content
  fails in the same way, is sent to yet another reparse, with count 1 and a retry count of 0,
  whatever its own retry count is, so the dead-letter branch is never reached this way.\<close>
theorem reparse_limit_forgotten:
  assumes "ReparseEnabled (ve_cfg env)" and "IsReparseEligible err"
    and "MaxValidateReparseCount \<le> readReparseCount msg" and "pm_retry_count pm < maxRetries msg"
    and "v_requeue env msg pm s = (None, s1)"
  shows "content_rejected env msg pm ref c err s = commit_msg env msg s1
    \<and> (\<exists>m. did (Publish m) s1 \<and> m_topic m = TopicNormalized \<and> m_key m = m_key msg
         \<and> readReparseCount m = 0
         \<and> (\<forall>pm' t. \<exists>job k.
              content_rejected env m pm' ref c err t =
                (case republishForReparse env c k err m t of
                   (Some e, t1) \<Rightarrow> (Some (Wrapped ''republish reparse'' e), t1)
                 | (None, t1) \<Rightarrow>
                     commit_msg env m (snd (perform (ve_io env) (DeleteContent (cr_id ref)) t1)))
              \<and> job = reparse_job (ve_now env (fst t)) m c (k + 1) \<and> job_retry_count job = 0
              \<and> reparse_headers m c (k + 1) err HeaderValidateReparseCount = Some (int_text 1)))"
proof -
  obtain data where d: "ve_enc_pm env (pm\<lparr>pm_retry_count := pm_retry_count pm + 1\<rparr>) = Inr data"
    and f: "forward_drain env (requeue_message msg (pm_retry_count pm + 1) data) s = (None, s1)"
    using assms(5) by (auto simp: v_requeue_def Let_def split: sum.splits)
  define m where "m = requeue_message msg (pm_retry_count pm + 1) data"
  have "did (Publish m) s1" using forward_drain_quiet [OF f] by (simp add: m_def)
  moreover have "m_topic m = TopicNormalized" "m_key m = m_key msg"
    by (simp_all add: m_def requeue_message_def)
  moreover have zero: "readReparseCount m = 0"
    by (simp add: readReparseCount_def nonneg_count_def m_def requeue_message_def header_names)
  moreover have "content_rejected env m pm' ref c err t =
      (case republishForReparse env c 0 err m t of
         (Some e, t1) \<Rightarrow> (Some (Wrapped ''republish reparse'' e), t1)
       | (None, t1) \<Rightarrow> commit_msg env m (snd (perform (ve_io env) (DeleteContent (cr_id ref)) t1)))" for pm' t
    using assms(1,2) zero by (simp add: content_rejected_def MaxValidateReparseCount_def)
  moreover have "reparse_headers m c (0 + 1) err HeaderValidateReparseCount = Some (int_text 1)"
    by (simp add: reparse_headers_def header_names Let_def)
  moreover have "job_retry_count (reparse_job now m c (0 + 1)) = 0" for now
    by (simp add: reparse_job_def)
  moreover have "content_rejected env msg pm ref c err s = commit_msg env msg s1"
    using assms by (simp add: content_rejected_def Let_def)
  ultimately show ?thesis by blast
qed

theorem reparse_limit_forgotten_witness:
  "\<exists>m. m_topic m = TopicNormalized \<and> readReparseCount m = 0 \<and>
     did (Publish m) (snd (v_requeue (sample_venv (DefaultValidateConfig\<lparr>ReparseEnabled := True\<rparr>))
       (sample_vmsg ''2'') sample_pm (0, [])))"
proof -
  let ?env = "sample_venv (DefaultValidateConfig\<lparr>ReparseEnabled := True\<rparr>)"
  let ?e = "NewValidationError CodeValContentShort [] None"
  obtain s1 where r: "v_requeue ?env (sample_vmsg ''2'') sample_pm (0, []) = (None, s1)"
    by (simp add: v_requeue_def sample_venv_def forward_drain_def Forward_def perform_def Let_def)
  have "readReparseCount (sample_vmsg ''2'') = 2"
    by (simp add: readReparseCount_def nonneg_count_def sample_vmsg_def atoi_def digits_val_def is_digit_def)
  then have "MaxValidateReparseCount \<le> readReparseCount (sample_vmsg ''2'')"
    by (simp add: MaxValidateReparseCount_def)
  moreover have "ReparseEnabled (ve_cfg ?env)" by (simp add: sample_venv_def)
  moreover have "IsReparseEligible ?e" by (simp add: IsReparseEligible_def reparseEligibleCodes_def)
  moreover have "pm_retry_count sample_pm < maxRetries (sample_vmsg ''2'')"
    by (simp add: sample_pm_def maxRetries_def)
  ultimately show ?thesis
    using reparse_limit_forgotten [OF _ _ _ _ r, of ?e sample_ref plain_content] unfolding r snd_conv by blast
qed

end
