(* ===== verification/ContentStore.thy ===== *)
theory ContentStore
  imports ValidateWorker "HOL-Library.Product_Lexorder"
begin

text \<open>
  Where pages and contents are kept: the table of raw pages (\<^verbatim>\<open>internal/storage/postgres/raw_content.go\<close>), the three
  tables of contents (\<^verbatim>\<open>postgres/content.go\<close>) and the services on them (\<^verbatim>\<open>internal/storage/service/raw_content.go\<close>,
  \<^verbatim>\<open>content.go\<close>). A table is the list of its rows, or a map from its key; a statement takes the error the database
  gives it, if any, and its effect is that of the SQL text. Lemmas: keys stay unique and every body and meta row has its
  content, an id that a service returns is that of a stored row, what is read back is what was stored, but for the
  flags the tables have no column for.
\<close>

section \<open>Raw pages\<close>

text \<open>
  \<open>rw_headers\<close> and \<open>rw_meta\<close> are the JSON encodings; a row keeps the encoded columns. \<open>rw_by_id\<close> is the database's order
  of rows by descending id.
\<close>

record raw_row =
  rx_id :: string
  rx_url :: string
  rx_html :: string
  rx_status :: int
  rx_fetched :: gotime
  rx_source :: source_info
  rx_headers :: bytes
  rx_meta :: bytes

record raw_db =
  rw_enc_headers :: "headers \<Rightarrow> go_error + bytes"
  rw_enc_meta :: "metadata \<Rightarrow> go_error + bytes"
  rw_dec_headers :: "bytes \<Rightarrow> go_error + headers"
  rw_dec_meta :: "bytes \<Rightarrow> go_error + metadata"
  rw_by_id :: "raw_row list \<Rightarrow> raw_row list"
  rw_date :: "gotime \<Rightarrow> string"

definition raw_row_of :: "raw_content \<Rightarrow> bytes \<Rightarrow> bytes \<Rightarrow> raw_row" where
  "raw_row_of raw hs ms = \<lparr>rx_id = rc_id raw, rx_url = rc_url raw, rx_html = rc_html raw, rx_status = rc_status raw,
     rx_fetched = rc_fetched_at raw, rx_source = rc_source raw, rx_headers = hs, rx_meta = ms\<rparr>"

definition raw_Save :: "raw_db \<Rightarrow> go_error option \<Rightarrow> raw_content \<Rightarrow> raw_row list \<Rightarrow> go_error option \<times> raw_row list" where
  "raw_Save D db raw rows =
     (case rw_enc_headers D (rc_headers raw) of
        Inl err \<Rightarrow> (Some (Wrapped ''marshal headers'' err), rows)
      | Inr hs \<Rightarrow>
         (case rw_enc_meta D (rc_meta raw) of
            Inl err \<Rightarrow> (Some (Wrapped ''marshal metadata'' err), rows)
          | Inr ms \<Rightarrow>
             (case db of
                Some err \<Rightarrow> (Some (Wrapped (''save raw content '' @ rc_id raw) err), rows)
              | None \<Rightarrow>
                  if list_ex (\<lambda>x. rx_id x = rc_id raw \<or> rx_url x = rc_url raw) rows
                  then (Some (Sentinel StorageDuplicate), rows)
                  else (None, rows @ [raw_row_of raw hs ms]))))"

definition decode_column :: "(bytes \<Rightarrow> go_error + (string \<rightharpoonup> 'v)) \<Rightarrow> string \<Rightarrow> bytes \<Rightarrow> go_error + (string \<rightharpoonup> 'v)" where
  "decode_column dec what b =
     (if b = [] \<or> b = ''null'' then Inr Map.empty
      else (case dec b of Inl err \<Rightarrow> Inl (Wrapped what err) | Inr m \<Rightarrow> Inr m))"

definition scanRawContent :: "raw_db \<Rightarrow> raw_row \<Rightarrow> go_error + raw_content" where
  "scanRawContent D x =
     (case decode_column (rw_dec_headers D) ''unmarshal headers'' (rx_headers x) of
        Inl err \<Rightarrow> Inl err
      | Inr hs \<Rightarrow>
         (case decode_column (rw_dec_meta D) ''unmarshal metadata'' (rx_meta x) of
            Inl err \<Rightarrow> Inl err
          | Inr ms \<Rightarrow> Inr \<lparr>rc_id = rx_id x, rc_source = rx_source x, rc_fetched_at = rx_fetched x, rc_url = rx_url x,
                            rc_html = rx_html x, rc_status = rx_status x, rc_headers = hs, rc_meta = ms\<rparr>))"

definition raw_lookup :: "raw_db \<Rightarrow> string \<Rightarrow> go_error option \<Rightarrow> raw_row option \<Rightarrow> go_error + raw_content" where
  "raw_lookup D what db found =
     (case db of
        Some err \<Rightarrow> Inl (Wrapped what err)
      | None \<Rightarrow>
         (case found of
            None \<Rightarrow> Inl (Sentinel StorageNotFound)
          | Some x \<Rightarrow> (case scanRawContent D x of Inl err \<Rightarrow> Inl (Wrapped what err) | Inr raw \<Rightarrow> Inr raw)))"

definition raw_GetByID :: "raw_db \<Rightarrow> go_error option \<Rightarrow> string \<Rightarrow> raw_row list \<Rightarrow> go_error + raw_content" where
  "raw_GetByID D db i rows = raw_lookup D (''get raw content by id '' @ i) db (find (\<lambda>x. rx_id x = i) rows)"

definition raw_GetByURL :: "raw_db \<Rightarrow> go_error option \<Rightarrow> string \<Rightarrow> raw_row list \<Rightarrow> go_error + raw_content" where
  "raw_GetByURL D db url rows = raw_lookup D ''get raw content by url'' db (find (\<lambda>x. rx_url x = url) rows)"

record raw_filter =
  xf_country :: string
  xf_source :: string
  xf_after :: "gotime option"
  xf_before :: "gotime option"
  xf_status :: int
  xf_limit :: int
  xf_offset :: int

definition buildRawContentWhere :: "raw_filter \<Rightarrow> raw_row \<Rightarrow> bool" where
  "buildRawContentWhere f x \<longleftrightarrow>
     (xf_country f \<noteq> [] \<longrightarrow> si_country (rx_source x) = xf_country f)
     \<and> (xf_source f \<noteq> [] \<longrightarrow> si_name (rx_source x) = xf_source f)
     \<and> (case xf_after f of None \<Rightarrow> True | Some t \<Rightarrow> t \<le> rx_fetched x)
     \<and> (case xf_before f of None \<Rightarrow> True | Some t \<Rightarrow> rx_fetched x \<le> t)
     \<and> (xf_status f \<noteq> 0 \<longrightarrow> rx_status x = xf_status f)"

text \<open>LIMIT and OFFSET with the defaults of the list queries.\<close>

definition sql_page :: "int \<Rightarrow> int \<Rightarrow> 'a list \<Rightarrow> 'a list" where
  "sql_page limit offset xs =
     take (nat (if limit \<le> 0 then 50 else limit)) (drop (nat (if offset < 0 then 0 else offset)) xs)"

fun scan_rows :: "('a \<Rightarrow> go_error + 'b) \<Rightarrow> string \<Rightarrow> 'a list \<Rightarrow> go_error + 'b list" where
  "scan_rows f what [] = Inr []"
| "scan_rows f what (x # xs) =
     (case f x of
        Inl err \<Rightarrow> Inl (Wrapped what err)
      | Inr y \<Rightarrow> (case scan_rows f what xs of Inl err \<Rightarrow> Inl err | Inr ys \<Rightarrow> Inr (y # ys)))"

definition raw_List :: "raw_db \<Rightarrow> go_error option \<Rightarrow> raw_filter \<Rightarrow> raw_row list \<Rightarrow> go_error + raw_content list" where
  "raw_List D db f rows =
     (case db of
        Some err \<Rightarrow> Inl (Wrapped ''list raw contents'' err)
      | None \<Rightarrow> scan_rows (scanRawContent D) ''scan raw content''
          (sql_page (xf_limit f) (xf_offset f) (sort_key (\<lambda>x. - rx_fetched x) (rw_by_id D (filter (buildRawContentWhere f) rows)))))"

definition raw_Delete :: "go_error option \<Rightarrow> string \<Rightarrow> raw_row list \<Rightarrow> go_error option \<times> raw_row list" where
  "raw_Delete db i rows =
     (case db of
        Some err \<Rightarrow> (Some (Wrapped (''delete raw content '' @ i) err), rows)
      | None \<Rightarrow> (None, filter (\<lambda>x. rx_id x \<noteq> i) rows))"

definition raw_DeleteBefore :: "raw_db \<Rightarrow> go_error option \<Rightarrow> gotime \<Rightarrow> raw_row list \<Rightarrow> (go_error + int) \<times> raw_row list" where
  "raw_DeleteBefore D db before rows =
     (case db of
        Some err \<Rightarrow> (Inl (Wrapped (''delete raw contents before '' @ rw_date D before) err), rows)
      | None \<Rightarrow> (Inr (int (length (filter (\<lambda>x. rx_fetched x < before) rows))), filter (\<lambda>x. \<not> rx_fetched x < before) rows))"

section \<open>The service of raw pages\<close>

definition CodeStorageRead :: string where "CodeStorageRead = ''STORAGE_001''"
definition CodeStorageWrite :: string where "CodeStorageWrite = ''STORAGE_002''"
definition CodeStorageDelete :: string where "CodeStorageDelete = ''STORAGE_003''"

text \<open>The two statements of a store have an error each, and \<open>others\<close> is what other clients do between them.\<close>

definition raw_svc_Store ::
  "raw_db \<Rightarrow> go_error option \<Rightarrow> (raw_row list \<Rightarrow> raw_row list) \<Rightarrow> go_error option \<Rightarrow> raw_content \<Rightarrow> raw_row list
     \<Rightarrow> (go_error + string \<times> bool) \<times> raw_row list" where
  "raw_svc_Store D db1 others db2 raw rows =
     (case raw_Save D db1 raw rows of
        (None, rows1) \<Rightarrow> (Inr (rc_id raw, False), rows1)
      | (Some err, rows1) \<Rightarrow>
          if \<not> is_sentinel StorageDuplicate err
          then (Inl (NewStorageError CodeStorageWrite ''save raw content'' True (Some err)), rows1)
          else (let rows2 = others rows1
                in case raw_GetByURL D db2 (rc_url raw) rows2 of
                     Inl err \<Rightarrow> (Inl (NewStorageError CodeStorageRead ''get existing raw content by url'' True (Some err)), rows2)
                   | Inr existing \<Rightarrow> (Inr (rc_id existing, True), rows2)))"

definition raw_svc_GetByID :: "raw_db \<Rightarrow> go_error option \<Rightarrow> string \<Rightarrow> raw_row list \<Rightarrow> go_error + raw_content" where
  "raw_svc_GetByID D db i rows =
     (case raw_GetByID D db i rows of
        Inl err \<Rightarrow> Inl (NewStorageError CodeStorageRead ''get raw content by id'' True (Some err))
      | Inr raw \<Rightarrow> Inr raw)"

definition raw_svc_Delete :: "go_error option \<Rightarrow> string \<Rightarrow> raw_row list \<Rightarrow> go_error option \<times> raw_row list" where
  "raw_svc_Delete db i rows =
     (case raw_Delete db i rows of
        (Some err, rows1) \<Rightarrow> (Some (NewStorageError CodeStorageDelete ''delete raw content'' True (Some err)), rows1)
      | (None, rows1) \<Rightarrow> (None, rows1))"

definition raw_svc_List :: "raw_db \<Rightarrow> go_error option \<Rightarrow> raw_filter \<Rightarrow> raw_row list \<Rightarrow> go_error + raw_content list" where
  "raw_svc_List D db f rows =
     (case raw_List D db f rows of
        Inl err \<Rightarrow> Inl (NewStorageError CodeStorageRead ''list raw contents'' True (Some err))
      | Inr raws \<Rightarrow> Inr raws)"

definition PurgeOlderThan :: "raw_db \<Rightarrow> go_error option \<Rightarrow> gotime \<Rightarrow> raw_row list \<Rightarrow> (go_error + int) \<times> raw_row list" where
  "PurgeOlderThan D db cutoff rows =
     (case raw_DeleteBefore D db cutoff rows of
        (Inl err, rows1) \<Rightarrow> (Inl (NewStorageError CodeStorageDelete ''purge raw contents'' True (Some err)), rows1)
      | (Inr n, rows1) \<Rightarrow> (Inr n, rows1))"

section \<open>Contents\<close>

text \<open>
  The columns of \<^verbatim>\<open>contents\<close> with the outcome of the validation, the body and the meta data of a content under its id.
  There is no column for the article flag. \<open>cs_encode\<close> is \<^verbatim>\<open>mustMarshalJSON\<close> (an empty object when the encoding fails),
  \<open>cs_decode\<close> the decoding of the extra column, \<open>cs_by_id\<close> the database's order by descending id.
\<close>

record content_cols =
  cc_id :: string
  cc_source_id :: string
  cc_source_type :: string
  cc_country :: string
  cc_language :: string
  cc_title :: string
  cc_author :: string
  cc_published_at :: "gotime option"
  cc_updated_at :: "gotime option"
  cc_category :: string
  cc_tags :: "string list"
  cc_url :: string
  cc_canonical_url :: string
  cc_hash :: string
  cc_reliability :: real
  cc_created_at :: gotime
  cc_status :: string
  cc_reject_code :: "string option"
  cc_reject_detail :: "string option"

record body_cols =
  bc_body :: string
  bc_summary :: string
  bc_words :: int

record meta_cols =
  mc_images :: "string list"
  mc_extra :: bytes

record content_tables =
  ct_rows :: "content_cols list"
  ct_bodies :: "string \<rightharpoonup> body_cols"
  ct_meta :: "string \<rightharpoonup> meta_cols"

record content_db =
  cs_encode :: "metadata \<Rightarrow> bytes"
  cs_decode :: "bytes \<Rightarrow> metadata option"
  cs_by_id :: "content_cols list \<Rightarrow> content_cols list"
  cs_duplicate :: go_error

definition ValidationStatusPending :: string where "ValidationStatusPending = ''pending''"
definition ValidationStatusPassed :: string where "ValidationStatusPassed = ''passed''"
definition ValidationStatusRejected :: string where "ValidationStatusRejected = ''rejected''"

definition new_content_cols :: "content \<Rightarrow> content_cols" where
  "new_content_cols c =
     \<lparr>cc_id = c_id c, cc_source_id = c_source_id c, cc_source_type = c_source_type c, cc_country = c_country c,
      cc_language = c_language c, cc_title = c_title c, cc_author = c_author c, cc_published_at = c_published_at c,
      cc_updated_at = c_updated_at c, cc_category = c_category c, cc_tags = c_tags c, cc_url = c_url c,
      cc_canonical_url = c_canonical_url c, cc_hash = c_content_hash c, cc_reliability = c_reliability c,
      cc_created_at = c_created_at c, cc_status = ValidationStatusPending, cc_reject_code = None, cc_reject_detail = None\<rparr>"

definition updated_content_cols :: "content \<Rightarrow> content_cols \<Rightarrow> content_cols" where
  "updated_content_cols c x =
     x\<lparr>cc_source_type := c_source_type c, cc_title := c_title c, cc_author := c_author c, cc_updated_at := c_updated_at c,
       cc_category := c_category c, cc_tags := c_tags c, cc_canonical_url := c_canonical_url c, cc_hash := c_content_hash c,
       cc_reliability := c_reliability c\<rparr>"

definition body_of :: "content \<Rightarrow> body_cols" where
  "body_of c = \<lparr>bc_body = c_body c, bc_summary = c_summary c, bc_words = c_word_count c\<rparr>"

definition meta_of :: "content_db \<Rightarrow> content \<Rightarrow> meta_cols" where
  "meta_of D c = \<lparr>mc_images = c_image_urls c, mc_extra = cs_encode D (c_extra c)\<rparr>"

text \<open>
  The common table expression: a new address is inserted (an error if its id is another row's), a known one is updated
  when the hash differs, and the body and the meta data go to the id the row has.
\<close>

definition upsertContentCTE :: "content_db \<Rightarrow> content \<Rightarrow> content_tables \<Rightarrow> go_error + content_tables" where
  "upsertContentCTE D c T =
     (let known = find (\<lambda>x. cc_url x = c_url c) (ct_rows T);
          put = (\<lambda>i rows. Inr \<lparr>ct_rows = rows, ct_bodies = (ct_bodies T)(i \<mapsto> body_of c), ct_meta = (ct_meta T)(i \<mapsto> meta_of D c)\<rparr>)
      in case known of
           None \<Rightarrow> if list_ex (\<lambda>x. cc_id x = c_id c) (ct_rows T) then Inl (cs_duplicate D)
                   else put (c_id c) (ct_rows T @ [new_content_cols c])
         | Some y \<Rightarrow> put (cc_id y)
             (if cc_hash y \<noteq> c_content_hash c
              then map (\<lambda>x. if cc_url x = c_url c then updated_content_cols c x else x) (ct_rows T) else ct_rows T))"

definition saveContentTx :: "content_db \<Rightarrow> go_error option \<Rightarrow> content \<Rightarrow> content_tables \<Rightarrow> go_error + content_tables" where
  "saveContentTx D db c T =
     (case (case db of Some err \<Rightarrow> Inl err | None \<Rightarrow> upsertContentCTE D c T) of
        Inl err \<Rightarrow> Inl (Wrapped (''upsert content '' @ c_id c) err)
      | Inr T' \<Rightarrow> Inr T')"

text \<open>How a transaction ends: begun or not, and a commit that fails may have been executed.\<close>

record tx_env =
  tx_begin :: "go_error option"
  tx_exec :: "nat \<Rightarrow> go_error option"
  tx_commit :: "(go_error \<times> bool) option"

definition tx_end :: "tx_env \<Rightarrow> 's \<Rightarrow> 's \<Rightarrow> go_error option \<times> 's" where
  "tx_end X s s' =
     (case tx_commit X of
        None \<Rightarrow> (None, s')
      | Some (err, done) \<Rightarrow> (Some err, if done then s' else s))"

definition content_Save :: "content_db \<Rightarrow> tx_env \<Rightarrow> content \<Rightarrow> content_tables \<Rightarrow> go_error option \<times> content_tables" where
  "content_Save D X c T =
     (case tx_begin X of
        Some err \<Rightarrow> (Some (Wrapped ''begin transaction'' err), T)
      | None \<Rightarrow>
         (case saveContentTx D (tx_exec X 0) c T of
            Inl err \<Rightarrow> (Some err, T)
          | Inr T' \<Rightarrow> tx_end X T T'))"

fun save_all :: "content_db \<Rightarrow> (nat \<Rightarrow> go_error option) \<Rightarrow> nat \<Rightarrow> content list \<Rightarrow> content_tables \<Rightarrow> go_error + content_tables" where
  "save_all D db i [] T = Inr T"
| "save_all D db i (c # cs) T =
     (case (case db i of Some err \<Rightarrow> Inl err | None \<Rightarrow> upsertContentCTE D c T) of
        Inl err \<Rightarrow> Inl (Wrapped (''batch save content (query '' @ int_text (int i) @ '')'') err)
      | Inr T' \<Rightarrow> save_all D db (Suc i) cs T')"

definition SaveBatch :: "content_db \<Rightarrow> tx_env \<Rightarrow> content list \<Rightarrow> content_tables \<Rightarrow> go_error option \<times> content_tables" where
  "SaveBatch D X cs T =
     (case tx_begin X of
        Some err \<Rightarrow> (Some (Wrapped ''begin transaction'' err), T)
      | None \<Rightarrow>
         (case save_all D (tx_exec X) 0 cs T of
            Inl err \<Rightarrow> (Some err, T)
          | Inr T' \<Rightarrow>
             (case tx_exec X (length cs) of
                Some err \<Rightarrow> (Some (Wrapped ''close batch results'' err), T)
              | None \<Rightarrow> tx_end X T T')))"

text \<open>The joined row of a content: what is missing in the other tables is empty.\<close>

definition scanContent :: "content_db \<Rightarrow> content_tables \<Rightarrow> content_cols \<Rightarrow> content" where
  "scanContent D T x =
     (let b = (case ct_bodies T (cc_id x) of Some b \<Rightarrow> b | None \<Rightarrow> \<lparr>bc_body = [], bc_summary = [], bc_words = 0\<rparr>)
      in \<lparr>c_id = cc_id x, c_source_id = cc_source_id x, c_source_type = cc_source_type x, c_country = cc_country x,
          c_language = cc_language x, c_title = cc_title x, c_body = bc_body b, c_summary = bc_summary b,
          c_author = cc_author x, c_published_at = cc_published_at x, c_updated_at = cc_updated_at x,
          c_category = cc_category x, c_tags = cc_tags x, c_url = cc_url x, c_canonical_url = cc_canonical_url x,
          c_image_urls = (case ct_meta T (cc_id x) of Some m \<Rightarrow> mc_images m | None \<Rightarrow> []),
          c_content_hash = cc_hash x, c_word_count = bc_words b, c_reliability = cc_reliability x, c_article = False,
          c_extra = (case ct_meta T (cc_id x) of
              Some m \<Rightarrow> (case cs_decode D (mc_extra m) of Some e \<Rightarrow> e | None \<Rightarrow> Map.empty)
            | None \<Rightarrow> Map.empty),
          c_created_at = cc_created_at x\<rparr>)"

definition scanContentList :: "content_tables \<Rightarrow> content_cols \<Rightarrow> content" where
  "scanContentList T x =
     (let b = (case ct_bodies T (cc_id x) of Some b \<Rightarrow> b | None \<Rightarrow> \<lparr>bc_body = [], bc_summary = [], bc_words = 0\<rparr>)
      in \<lparr>c_id = cc_id x, c_source_id = cc_source_id x, c_source_type = cc_source_type x, c_country = cc_country x,
          c_language = cc_language x, c_title = cc_title x, c_body = [], c_summary = bc_summary b,
          c_author = cc_author x, c_published_at = cc_published_at x, c_updated_at = cc_updated_at x,
          c_category = cc_category x, c_tags = cc_tags x, c_url = cc_url x, c_canonical_url = cc_canonical_url x,
          c_image_urls = [], c_content_hash = cc_hash x, c_word_count = bc_words b, c_reliability = cc_reliability x,
          c_article = False, c_extra = Map.empty, c_created_at = cc_created_at x\<rparr>)"

section \<open>Queries on contents\<close>

definition content_lookup :: "content_db \<Rightarrow> string \<Rightarrow> go_error option \<Rightarrow> (content_cols \<Rightarrow> bool) \<Rightarrow> content_tables \<Rightarrow> go_error + content" where
  "content_lookup D what db p T =
     (case db of
        Some err \<Rightarrow> Inl (Wrapped what err)
      | None \<Rightarrow> (case find p (ct_rows T) of None \<Rightarrow> Inl (Sentinel StorageNotFound) | Some x \<Rightarrow> Inr (scanContent D T x)))"

definition content_GetByID :: "content_db \<Rightarrow> go_error option \<Rightarrow> string \<Rightarrow> content_tables \<Rightarrow> go_error + content" where
  "content_GetByID D db i T = content_lookup D (''get content by id '' @ i) db (\<lambda>x. cc_id x = i) T"

definition content_GetByURL :: "content_db \<Rightarrow> go_error option \<Rightarrow> string \<Rightarrow> content_tables \<Rightarrow> go_error + content" where
  "content_GetByURL D db url T = content_lookup D ''get content by url'' db (\<lambda>x. cc_url x = url) T"

text \<open>Of the rows with a hash the query takes one, the first in the table's order.\<close>

definition GetByContentHash :: "content_db \<Rightarrow> go_error option \<Rightarrow> string \<Rightarrow> content_tables \<Rightarrow> go_error + content" where
  "GetByContentHash D db hash T = content_lookup D ''get content by content hash'' db (\<lambda>x. cc_hash x = hash) T"

record content_filter =
  cf_country :: string
  cf_language :: string
  cf_category :: string
  cf_source :: string
  cf_source_type :: string
  cf_after :: "gotime option"
  cf_before :: "gotime option"
  cf_tags :: "string list"
  cf_min_reliability :: "real option"
  cf_limit :: int
  cf_offset :: int

text \<open>A comparison with NULL is not true.\<close>

definition buildContentWhere :: "content_filter \<Rightarrow> content_cols \<Rightarrow> bool" where
  "buildContentWhere f x \<longleftrightarrow>
     (cf_country f \<noteq> [] \<longrightarrow> cc_country x = cf_country f)
     \<and> (cf_language f \<noteq> [] \<longrightarrow> cc_language x = cf_language f)
     \<and> (cf_category f \<noteq> [] \<longrightarrow> cc_category x = cf_category f)
     \<and> (cf_source f \<noteq> [] \<longrightarrow> cc_source_id x = cf_source f)
     \<and> (cf_source_type f \<noteq> [] \<longrightarrow> cc_source_type x = cf_source_type f)
     \<and> (case cf_after f of None \<Rightarrow> True | Some t \<Rightarrow> (case cc_published_at x of None \<Rightarrow> False | Some p \<Rightarrow> t \<le> p))
     \<and> (case cf_before f of None \<Rightarrow> True | Some t \<Rightarrow> (case cc_published_at x of None \<Rightarrow> False | Some p \<Rightarrow> p \<le> t))
     \<and> set (cf_tags f) \<subseteq> set (cc_tags x)
     \<and> (case cf_min_reliability f of None \<Rightarrow> True | Some r \<Rightarrow> r \<le> cc_reliability x)"

definition buildContentListQuery :: "content_db \<Rightarrow> content_filter \<Rightarrow> content_cols list \<Rightarrow> content_cols list" where
  "buildContentListQuery D f rows =
     sql_page (cf_limit f) (cf_offset f)
       (sort_key (\<lambda>x. case cc_published_at x of Some p \<Rightarrow> (False, - p) | None \<Rightarrow> (True, 0))
          (cs_by_id D (filter (buildContentWhere f) rows)))"

definition content_List :: "content_db \<Rightarrow> go_error option \<Rightarrow> content_filter \<Rightarrow> content_tables \<Rightarrow> go_error + content list" where
  "content_List D db f T =
     (case db of
        Some err \<Rightarrow> Inl (Wrapped ''list contents'' err)
      | None \<Rightarrow> Inr (map (scanContentList T) (buildContentListQuery D f (ct_rows T))))"

definition content_Count :: "go_error option \<Rightarrow> content_filter \<Rightarrow> content_tables \<Rightarrow> go_error + int" where
  "content_Count db f T =
     (case db of
        Some err \<Rightarrow> Inl (Wrapped ''count contents'' err)
      | None \<Rightarrow> Inr (int (length (filter (buildContentWhere f) (ct_rows T)))))"

text \<open>Bodies and meta data go with their content (ON DELETE CASCADE).\<close>

definition content_Delete :: "go_error option \<Rightarrow> string \<Rightarrow> content_tables \<Rightarrow> go_error option \<times> content_tables" where
  "content_Delete db i T =
     (case db of
        Some err \<Rightarrow> (Some (Wrapped (''delete content '' @ i) err), T)
      | None \<Rightarrow>
          (None, if list_ex (\<lambda>x. cc_id x = i) (ct_rows T)
                 then \<lparr>ct_rows = filter (\<lambda>x. cc_id x \<noteq> i) (ct_rows T), ct_bodies = (ct_bodies T)(i := None),
                       ct_meta = (ct_meta T)(i := None)\<rparr>
                 else T))"

definition content_ExistsByURL :: "go_error option \<Rightarrow> string \<Rightarrow> content_tables \<Rightarrow> go_error + bool" where
  "content_ExistsByURL db url T =
     (case db of
        Some err \<Rightarrow> Inl (Wrapped ''check content exists by url'' err)
      | None \<Rightarrow> Inr (list_ex (\<lambda>x. cc_url x = url) (ct_rows T)))"

definition UpdateValidationStatus ::
  "go_error option \<Rightarrow> string \<Rightarrow> string \<Rightarrow> string \<Rightarrow> string \<Rightarrow> content_tables \<Rightarrow> go_error option \<times> content_tables" where
  "UpdateValidationStatus db i status code detail T =
     (let rejected = (status = ValidationStatusRejected);
          codeArg = (if rejected \<and> code \<noteq> [] then Some code else None);
          detailArg = (if rejected \<and> detail \<noteq> [] then Some detail else None)
      in case db of
           Some err \<Rightarrow> (Some (Wrapped (''update validation status '' @ i) err), T)
         | None \<Rightarrow>
             if list_ex (\<lambda>x. cc_id x = i) (ct_rows T)
             then (None, T\<lparr>ct_rows := map (\<lambda>x. if cc_id x = i
                     then x\<lparr>cc_status := status, cc_reject_code := codeArg, cc_reject_detail := detailArg\<rparr> else x) (ct_rows T)\<rparr>)
             else (Some (Sentinel StorageNotFound), T))"

section \<open>The service of contents\<close>

definition content_svc_Store ::
  "content_db \<Rightarrow> go_error option \<Rightarrow> (content_tables \<Rightarrow> content_tables) \<Rightarrow> tx_env \<Rightarrow> content \<Rightarrow> content_tables
     \<Rightarrow> (go_error + string \<times> bool) \<times> content_tables" where
  "content_svc_Store D db others X c T =
     (let save = (\<lambda>T1. case content_Save D X c T1 of
             (Some err, T2) \<Rightarrow> (Inl (NewStorageError CodeStorageWrite ''save content'' True (Some err)), T2)
           | (None, T2) \<Rightarrow> (Inr (c_id c, False), T2))
      in if c_content_hash c = [] then save T
         else (case GetByContentHash D db (c_content_hash c) T of
                 Inr existing \<Rightarrow> (Inr (c_id existing, True), T)
               | Inl err \<Rightarrow>
                   if \<not> is_sentinel StorageNotFound err
                   then (Inl (NewStorageError CodeStorageRead ''check duplicate'' True (Some err)), T)
                   else save (others T)))"

record store_result =
  sr_id :: string
  sr_duplicate :: bool
  sr_err :: "go_error option"

text \<open>\<open>calls\<close> are the outcomes of the statements of each store.\<close>

fun content_svc_StoreBatch ::
  "content_db \<Rightarrow> (content \<times> go_error option \<times> (content_tables \<Rightarrow> content_tables) \<times> tx_env) list \<Rightarrow> content_tables
     \<Rightarrow> store_result list \<times> content_tables" where
  "content_svc_StoreBatch D [] T = ([], T)"
| "content_svc_StoreBatch D ((c, db, others, X) # rest) T =
     (let (res, T1) = content_svc_Store D db others X c T;
          r = (case res of
                 Inl err \<Rightarrow> \<lparr>sr_id = [], sr_duplicate = False, sr_err = Some err\<rparr>
               | Inr (i, dup) \<Rightarrow> \<lparr>sr_id = i, sr_duplicate = dup, sr_err = None\<rparr>);
          (rs, T2) = content_svc_StoreBatch D rest T1
      in (r # rs, T2))"

definition content_svc_GetByID :: "content_db \<Rightarrow> go_error option \<Rightarrow> string \<Rightarrow> content_tables \<Rightarrow> go_error + content" where
  "content_svc_GetByID D db i T =
     (case content_GetByID D db i T of
        Inl err \<Rightarrow> Inl (NewStorageError CodeStorageRead ''get content by id'' True (Some err))
      | Inr c \<Rightarrow> Inr c)"

definition ListByCountry :: "content_db \<Rightarrow> go_error option \<Rightarrow> string \<Rightarrow> content_filter \<Rightarrow> content_tables \<Rightarrow> go_error + content list" where
  "ListByCountry D db country f T =
     (case content_List D db (f\<lparr>cf_country := country\<rparr>) T of
        Inl err \<Rightarrow> Inl (NewStorageError CodeStorageRead (''list contents by country '' @ country) True (Some err))
      | Inr cs \<Rightarrow> Inr cs)"

definition content_svc_Search :: "content_db \<Rightarrow> go_error option \<Rightarrow> content_filter \<Rightarrow> content_tables \<Rightarrow> go_error + content list" where
  "content_svc_Search D db f T =
     (case content_List D db f T of
        Inl err \<Rightarrow> Inl (NewStorageError CodeStorageRead ''search contents'' True (Some err))
      | Inr cs \<Rightarrow> Inr cs)"

text \<open>\<open>after\<close> is the time some days ago; each count has an error.\<close>

definition CountByCountry :: "gotime \<Rightarrow> (string \<Rightarrow> go_error option) \<Rightarrow> content_tables \<Rightarrow> go_error + (string \<times> int) list" where
  "CountByCountry after db T =
     (let count = (\<lambda>country. case content_Count (db country)
              \<lparr>cf_country = country, cf_language = [], cf_category = [], cf_source = [], cf_source_type = [], cf_after = Some after,
               cf_before = None, cf_tags = [], cf_min_reliability = None, cf_limit = 0, cf_offset = 0\<rparr> T of
             Inl err \<Rightarrow> Inl (NewStorageError CodeStorageRead (''count contents for country '' @ country) True (Some err))
           | Inr n \<Rightarrow> Inr n)
      in case count ''US'' of
           Inl err \<Rightarrow> Inl err
         | Inr us \<Rightarrow> (case count ''KR'' of Inl err \<Rightarrow> Inl err | Inr kr \<Rightarrow> Inr [(''US'', us), (''KR'', kr)]))"

section \<open>The tables keep together\<close>

definition tables_ok :: "content_tables \<Rightarrow> bool" where
  "tables_ok T \<longleftrightarrow> distinct (map cc_id (ct_rows T)) \<and> distinct (map cc_url (ct_rows T))
     \<and> dom (ct_bodies T) = cc_id ` set (ct_rows T) \<and> dom (ct_meta T) = cc_id ` set (ct_rows T)"

definition empty_tables :: content_tables where
  "empty_tables = \<lparr>ct_rows = [], ct_bodies = Map.empty, ct_meta = Map.empty\<rparr>"

lemma empty_tables_ok: "tables_ok empty_tables"
  by (simp add: tables_ok_def empty_tables_def)

lemma updated_keeps [simp]:
  "cc_id (updated_content_cols c x) = cc_id x" "cc_url (updated_content_cols c x) = cc_url x"
  "cc_published_at (updated_content_cols c x) = cc_published_at x" "cc_status (updated_content_cols c x) = cc_status x"
  by (simp_all add: updated_content_cols_def)

lemma map_if_kept [simp]: "(\<And>x. g (f x) = g x) \<Longrightarrow> map g (map (\<lambda>x. if P x then f x else x) xs) = map g xs"
  by (induction xs) simp_all

lemma find_by_key:
  assumes "distinct (map f xs)"
  shows "find (\<lambda>x. f x = k) xs = Some x \<longleftrightarrow> x \<in> set xs \<and> f x = k"
  using assms by (induction xs) (auto simp: rev_image_eqI)

lemma find_no_key: "find (\<lambda>x. f x = k) xs = None \<longleftrightarrow> k \<notin> f ` set xs"
  by (induction xs) auto

text \<open>The abstract store: what a reader gets for an address.\<close>

definition content_abs :: "content_db \<Rightarrow> content_tables \<Rightarrow> string \<Rightarrow> content option" where
  "content_abs D T url = map_option (scanContent D T) (find (\<lambda>x. cc_url x = url) (ct_rows T))"

definition merged :: "content option \<Rightarrow> content \<Rightarrow> content" where
  "merged old c =
     (case old of
        None \<Rightarrow> c\<lparr>c_article := False\<rparr>
      | Some p \<Rightarrow>
          (if c_content_hash p \<noteq> c_content_hash c
           then p\<lparr>c_source_type := c_source_type c, c_title := c_title c, c_author := c_author c, c_updated_at := c_updated_at c,
                  c_category := c_category c, c_tags := c_tags c, c_canonical_url := c_canonical_url c,
                  c_content_hash := c_content_hash c, c_reliability := c_reliability c\<rparr>
           else p)\<lparr>c_body := c_body c, c_summary := c_summary c, c_word_count := c_word_count c,
                  c_image_urls := c_image_urls c, c_extra := c_extra c\<rparr>)"

definition codec_ok :: "content_db \<Rightarrow> content \<Rightarrow> bool" where
  "codec_ok D c \<longleftrightarrow> cs_decode D (cs_encode D (c_extra c)) = Some (c_extra c)"

text \<open>The rows after an upsert, and the id the body and the meta data go to.\<close>

definition upsert_rows :: "content \<Rightarrow> content_cols list \<Rightarrow> content_cols list" where
  "upsert_rows c rows =
     (case find (\<lambda>x. cc_url x = c_url c) rows of
        None \<Rightarrow> rows @ [new_content_cols c]
      | Some y \<Rightarrow> if cc_hash y \<noteq> c_content_hash c
                  then map (\<lambda>x. if cc_url x = c_url c then updated_content_cols c x else x) rows else rows)"

definition row_id :: "content \<Rightarrow> content_cols list \<Rightarrow> string" where
  "row_id c rows = (case find (\<lambda>x. cc_url x = c_url c) rows of None \<Rightarrow> c_id c | Some y \<Rightarrow> cc_id y)"

lemma upsert_Inr:
  assumes "upsertContentCTE D c T = Inr T'"
  shows "ct_rows T' = upsert_rows c (ct_rows T)" "ct_bodies T' = (ct_bodies T)(row_id c (ct_rows T) \<mapsto> body_of c)"
    "ct_meta T' = (ct_meta T)(row_id c (ct_rows T) \<mapsto> meta_of D c)"
    "find (\<lambda>x. cc_url x = c_url c) (ct_rows T) = None \<Longrightarrow> c_id c \<notin> cc_id ` set (ct_rows T)"
  using assms by (auto simp: upsertContentCTE_def upsert_rows_def row_id_def Let_def list_ex_iff split: option.splits if_splits)

lemma row_id_in: "row_id c rows \<in> cc_id ` set (upsert_rows c rows)"
  and upsert_ids: "cc_id ` set (upsert_rows c rows) = insert (row_id c rows) (cc_id ` set rows)"
proof -
  have kept: "cc_id ` set (map (\<lambda>x. if cc_url x = c_url c then updated_content_cols c x else x) rows) = cc_id ` set rows"
  proof -
    have "cc_id \<circ> (\<lambda>x. if cc_url x = c_url c then updated_content_cols c x else x) = cc_id"
      by (simp add: fun_eq_iff)
    then show ?thesis by (simp only: set_map image_comp)
  qed
  show ids: "cc_id ` set (upsert_rows c rows) = insert (row_id c rows) (cc_id ` set rows)"
  proof (cases "find (\<lambda>x. cc_url x = c_url c) rows")
    case None
    then show ?thesis by (simp add: upsert_rows_def row_id_def new_content_cols_def)
  next
    case (Some y)
    then have "y \<in> set rows" by (auto simp: find_Some_iff)
    then show ?thesis using Some kept by (auto simp: upsert_rows_def row_id_def)
  qed
  show "row_id c rows \<in> cc_id ` set (upsert_rows c rows)" unfolding ids by simp
qed

lemma upsert_ok:
  assumes "tables_ok T" and "upsertContentCTE D c T = Inr T'"
  shows "tables_ok T'"
proof -
  note u = upsert_Inr [OF assms(2)]
  have "distinct (map cc_id (upsert_rows c (ct_rows T))) \<and> distinct (map cc_url (upsert_rows c (ct_rows T)))"
  proof (cases "find (\<lambda>x. cc_url x = c_url c) (ct_rows T)")
    case None
    then have "upsert_rows c (ct_rows T) = ct_rows T @ [new_content_cols c]" by (simp add: upsert_rows_def)
    moreover have "c_url c \<notin> cc_url ` set (ct_rows T)" by (rule iffD1 [OF find_no_key None])
    ultimately show ?thesis using assms(1) u(4) [OF None] by (simp add: tables_ok_def new_content_cols_def)
  next
    case (Some y)
    have k: "map cc_id (map (\<lambda>x. if cc_url x = c_url c then updated_content_cols c x else x) (ct_rows T)) = map cc_id (ct_rows T)"
        "map cc_url (map (\<lambda>x. if cc_url x = c_url c then updated_content_cols c x else x) (ct_rows T)) = map cc_url (ct_rows T)"
      by (rule map_if_kept, simp)+
    show ?thesis
    proof (cases "cc_hash y = c_content_hash c")
      case True
      then show ?thesis using assms(1) Some by (simp add: upsert_rows_def tables_ok_def)
    next
      case False
      then have "upsert_rows c (ct_rows T) = map (\<lambda>x. if cc_url x = c_url c then updated_content_cols c x else x) (ct_rows T)"
        using Some by (simp add: upsert_rows_def)
      then show ?thesis using assms(1) k by (simp only: tables_ok_def)
    qed
  qed
  then show ?thesis using assms(1) unfolding tables_ok_def u(1-3) upsert_ids by auto
qed

section \<open>A save updates what readers of the address get\<close>

text \<open>What a row reads as depends on the body and the meta data of its id only.\<close>

lemma scan_cong: "ct_bodies T (cc_id x) = ct_bodies T' (cc_id x) \<Longrightarrow> ct_meta T (cc_id x) = ct_meta T' (cc_id x)
    \<Longrightarrow> scanContent D T x = scanContent D T' x"
  by (simp add: scanContent_def Let_def)

lemma scan_put:
  assumes "codec_ok D c" and "ct_bodies T' (cc_id x) = Some (body_of c)" and "ct_meta T' (cc_id x) = Some (meta_of D c)"
  shows "scanContent D T' x = (scanContent D T x)\<lparr>c_body := c_body c, c_summary := c_summary c, c_word_count := c_word_count c,
           c_image_urls := c_image_urls c, c_extra := c_extra c\<rparr>"
  using assms by (simp add: scanContent_def body_of_def meta_of_def codec_ok_def Let_def)

lemma find_upsert_other:
  "url \<noteq> c_url c \<Longrightarrow> find (\<lambda>x. cc_url x = url) (upsert_rows c rows) = find (\<lambda>x. cc_url x = url) rows"
proof -
  assume other: "url \<noteq> c_url c"
  have 1: "find (\<lambda>x. cc_url x = url) (rows @ [new_content_cols c]) = find (\<lambda>x. cc_url x = url) rows"
    using other by (induction rows) (auto simp: new_content_cols_def)
  have 2: "find (\<lambda>x. cc_url x = url) (map (\<lambda>x. if cc_url x = c_url c then updated_content_cols c x else x) rows)
      = find (\<lambda>x. cc_url x = url) rows"
    using other by (induction rows) auto
  show ?thesis by (simp add: upsert_rows_def 1 2 split: option.split)
qed

lemma find_upsert_own:
  "find (\<lambda>x. cc_url x = c_url c) (upsert_rows c rows) = Some (case find (\<lambda>x. cc_url x = c_url c) rows of
      None \<Rightarrow> new_content_cols c
    | Some y \<Rightarrow> if cc_hash y \<noteq> c_content_hash c then updated_content_cols c y else y)"
proof -
  have 1: "find (\<lambda>x. cc_url x = c_url c) rows = None \<Longrightarrow>
      find (\<lambda>x. cc_url x = c_url c) (rows @ [new_content_cols c]) = Some (new_content_cols c)"
    by (induction rows) (auto simp: new_content_cols_def split: if_splits)
  have 2: "find (\<lambda>x. cc_url x = c_url c) (map (\<lambda>x. if cc_url x = c_url c then updated_content_cols c x else x) rows)
      = map_option (updated_content_cols c) (find (\<lambda>x. cc_url x = c_url c) rows)"
    by (induction rows) auto
  show ?thesis
    by (cases "find (\<lambda>x. cc_url x = c_url c) rows") (simp_all add: upsert_rows_def 1 2)
qed

lemma upsert_refines:
  assumes "tables_ok T" and "codec_ok D c" and "upsertContentCTE D c T = Inr T'"
  shows "content_abs D T' = (content_abs D T)(c_url c \<mapsto> merged (content_abs D T (c_url c)) c)"
proof
  fix url
  note u = upsert_Inr [OF assms(3)]
  let ?i = "row_id c (ct_rows T)"
  show "content_abs D T' url = ((content_abs D T)(c_url c \<mapsto> merged (content_abs D T (c_url c)) c)) url"
  proof (cases "url = c_url c")
    case other: False
    show ?thesis
    proof (cases "find (\<lambda>x. cc_url x = url) (ct_rows T)")
      case None
      then show ?thesis using other by (simp add: content_abs_def u(1) find_upsert_other)
    next
      case (Some x)
      then have x: "x \<in> set (ct_rows T)" "cc_url x = url" by (auto simp: find_Some_iff)
      have "cc_id x \<noteq> ?i"
      proof (cases "find (\<lambda>x. cc_url x = c_url c) (ct_rows T)")
        case None
        have "?i = c_id c" by (simp add: row_id_def None)
        then show ?thesis using u(4) [OF None] x(1) by (metis imageI)
      next
        case (Some y)
        then have y: "y \<in> set (ct_rows T)" "cc_url y = c_url c" by (auto simp: find_Some_iff)
        have "inj_on cc_id (set (ct_rows T))" using assms(1) by (simp add: tables_ok_def distinct_map)
        then show ?thesis using x y other Some by (auto simp: row_id_def dest: inj_onD)
      qed
      then have "scanContent D T' x = scanContent D T x" by (intro scan_cong) (simp_all add: u(2,3))
      then show ?thesis using Some other by (simp add: content_abs_def u(1) find_upsert_other)
    qed
  next
    case own: True
    have at: "ct_bodies T' ?i = Some (body_of c)" "ct_meta T' ?i = Some (meta_of D c)" by (simp_all add: u(2,3))
    show ?thesis
    proof (cases "find (\<lambda>x. cc_url x = c_url c) (ct_rows T)")
      case None
      have "scanContent D T' (new_content_cols c) = c\<lparr>c_article := False\<rparr>"
        using at None assms(2) by (simp add: scanContent_def new_content_cols_def row_id_def body_of_def meta_of_def codec_ok_def Let_def)
      then show ?thesis using own None by (simp add: content_abs_def u(1) find_upsert_own merged_def)
    next
      case (Some y)
      let ?y = "if cc_hash y \<noteq> c_content_hash c then updated_content_cols c y else y"
      have i: "?i = cc_id y" "cc_id ?y = cc_id y" using Some by (simp_all add: row_id_def)
      have "scanContent D T' ?y = (scanContent D T ?y)\<lparr>c_body := c_body c, c_summary := c_summary c,
            c_word_count := c_word_count c, c_image_urls := c_image_urls c, c_extra := c_extra c\<rparr>"
        by (rule scan_put [OF assms(2)]) (use at i in simp_all)
      also have "\<dots> = merged (Some (scanContent D T y)) c"
        by (simp add: merged_def scanContent_def updated_content_cols_def Let_def)
      finally show ?thesis using own Some by (simp add: content_abs_def u(1) find_upsert_own)
    qed
  qed
qed

text \<open>C24. The three tables refine one map from addresses to contents. From tables that keep together (unique ids and
  addresses, exactly one body and one meta row for each content), with a codec that reads the extra data it wrote, a save that
  returns no error leaves tables that keep together, in which readers of the saved address get the content merged with
  the former one (all of it, but for the article flag, when the address is new; the body, summary, word count, images
  and extra data in any case; title, author, tags and the other columns of the update only when the hash changed; the
  publication date, source, country, language, id and creation time never), and readers of any other address what they
  got; a save that returns an error before its commit changes nothing.\<close>
theorem save_refines_map:
  assumes "tables_ok T" and "codec_ok D c" and "content_Save D X c T = (res, T')"
  shows "tables_ok T'
    \<and> (res = None \<longrightarrow> content_abs D T' = (content_abs D T)(c_url c \<mapsto> merged (content_abs D T (c_url c)) c))
    \<and> (res \<noteq> None \<longrightarrow> tx_commit X = None \<longrightarrow> T' = T)"
proof (cases "tx_begin X")
  case (Some err)
  then show ?thesis using assms by (auto simp: content_Save_def)
next
  case None
  show ?thesis
  proof (cases "saveContentTx D (tx_exec X 0) c T")
    case (Inl err)
    then show ?thesis using assms None by (auto simp: content_Save_def)
  next
    case (Inr T2)
    then have up: "upsertContentCTE D c T = Inr T2" by (auto simp: saveContentTx_def split: option.splits sum.splits)
    have "(res, T') = tx_end X T T2" using assms(3) None Inr by (simp add: content_Save_def)
    then show ?thesis using upsert_ok [OF assms(1) up] upsert_refines [OF assms(1,2) up] assms(1)
      by (auto simp: tx_end_def split: option.splits prod.splits)
  qed
qed

lemma save_all_ok: "tables_ok T \<Longrightarrow> save_all D db i cs T = Inr T' \<Longrightarrow> tables_ok T'"
proof (induction D db i cs T rule: save_all.induct)
  case (2 D db i c cs T)
  then show ?case using upsert_ok by (auto split: option.splits sum.splits)
qed simp

lemma SaveBatch_ok: "tables_ok T \<Longrightarrow> SaveBatch D X cs T = (e, T') \<Longrightarrow> tables_ok T'"
  by (auto simp: SaveBatch_def tx_end_def dest: save_all_ok split: option.splits sum.splits prod.splits if_splits)

lemma content_Delete_ok:
  assumes "tables_ok T" and "content_Delete db i T = (e, T')"
  shows "tables_ok T'"
proof -
  let ?R = "\<lparr>ct_rows = filter (\<lambda>x. cc_id x \<noteq> i) (ct_rows T), ct_bodies = (ct_bodies T)(i := None), ct_meta = (ct_meta T)(i := None)\<rparr>"
  have "T' = T \<or> T' = ?R" using assms(2) by (auto simp: content_Delete_def split: option.splits if_splits)
  moreover have "cc_id ` set (filter (\<lambda>x. cc_id x \<noteq> i) (ct_rows T)) = cc_id ` set (ct_rows T) - {i}" by auto
  then have "tables_ok ?R" using assms(1) by (simp add: tables_ok_def distinct_map_filter)
  ultimately show ?thesis using assms(1) by auto
qed

lemma tables_ok_rows:
  assumes "tables_ok T" and "map cc_id rows = map cc_id (ct_rows T)" and "map cc_url rows = map cc_url (ct_rows T)"
  shows "tables_ok (T\<lparr>ct_rows := rows\<rparr>)"
proof -
  have "cc_id ` set rows = cc_id ` set (ct_rows T)" using arg_cong [OF assms(2), of set] by (simp only: set_map)
  then show ?thesis using assms unfolding tables_ok_def by simp
qed

lemma UpdateValidationStatus_ok:
  assumes "tables_ok T" and "UpdateValidationStatus db i st code detail T = (e, T')"
  shows "tables_ok T'"
proof -
  have "T' = T \<or> (\<exists>a b. T' = T\<lparr>ct_rows := map (\<lambda>x. if cc_id x = i
      then x\<lparr>cc_status := st, cc_reject_code := a, cc_reject_detail := b\<rparr> else x) (ct_rows T)\<rparr>)"
    using assms(2) by (auto simp: UpdateValidationStatus_def Let_def split: option.splits if_splits)
  then show ?thesis using assms(1) tables_ok_rows [OF assms(1)] by auto
qed

section \<open>What is stored is found\<close>

definition raw_rows_ok :: "raw_row list \<Rightarrow> bool" where
  "raw_rows_ok rows \<longleftrightarrow> distinct (map rx_id rows) \<and> distinct (map rx_url rows)"

definition raw_codec_ok :: "raw_db \<Rightarrow> bool" where
  "raw_codec_ok D \<longleftrightarrow> (\<forall>h b w. rw_enc_headers D h = Inr b \<longrightarrow> decode_column (rw_dec_headers D) w b = Inr h)
     \<and> (\<forall>m b w. rw_enc_meta D m = Inr b \<longrightarrow> decode_column (rw_dec_meta D) w b = Inr m)"

lemma raw_row_of_keys [simp]: "rx_id (raw_row_of raw hs ms) = rc_id raw" "rx_url (raw_row_of raw hs ms) = rc_url raw"
  by (simp_all add: raw_row_of_def)

lemma scan_raw_row: "raw_codec_ok D \<Longrightarrow> rw_enc_headers D (rc_headers raw) = Inr hs \<Longrightarrow> rw_enc_meta D (rc_meta raw) = Inr ms
    \<Longrightarrow> scanRawContent D (raw_row_of raw hs ms) = Inr raw"
  by (simp add: raw_codec_ok_def scanRawContent_def raw_row_of_def)

lemma raw_Save_spec:
  assumes "raw_Save D db raw rows = (e, rows')"
  shows "e = None \<Longrightarrow> \<exists>x. rows' = rows @ [x] \<and> rx_id x = rc_id raw \<and> rx_url x = rc_url raw
      \<and> rc_id raw \<notin> rx_id ` set rows \<and> rc_url raw \<notin> rx_url ` set rows
      \<and> (raw_codec_ok D \<longrightarrow> scanRawContent D x = Inr raw)"
    and "e \<noteq> None \<Longrightarrow> rows' = rows"
proof -
  let ?hit = "list_ex (\<lambda>x. rx_id x = rc_id raw \<or> rx_url x = rc_url raw) rows"
  have "(\<exists>err. e = Some err \<and> rows' = rows) \<or> (\<exists>hs ms. e = None \<and> rows' = rows @ [raw_row_of raw hs ms] \<and> \<not> ?hit
      \<and> rw_enc_headers D (rc_headers raw) = Inr hs \<and> rw_enc_meta D (rc_meta raw) = Inr ms)"
    using assms unfolding raw_Save_def by (simp split: sum.splits option.splits if_splits) metis+
  then consider err where "e = Some err" "rows' = rows"
    | hs ms where "e = None" "rows' = rows @ [raw_row_of raw hs ms]" "\<not> ?hit"
        "rw_enc_headers D (rc_headers raw) = Inr hs" "rw_enc_meta D (rc_meta raw) = Inr ms" by blast
  note two = this
  show "\<exists>x. rows' = rows @ [x] \<and> rx_id x = rc_id raw \<and> rx_url x = rc_url raw
      \<and> rc_id raw \<notin> rx_id ` set rows \<and> rc_url raw \<notin> rx_url ` set rows
      \<and> (raw_codec_ok D \<longrightarrow> scanRawContent D x = Inr raw)" if "e = None"
  proof (cases rule: two)
    case (2 hs ms)
    then show ?thesis by (intro exI [of _ "raw_row_of raw hs ms"]) (auto simp: list_ex_iff scan_raw_row)
  qed (use that in simp)
  show "rows' = rows" if "e \<noteq> None" by (cases rule: two) (use that in simp_all)
qed

lemma scan_raw_keys: "scanRawContent D x = Inr raw \<Longrightarrow> rc_id raw = rx_id x \<and> rc_url raw = rx_url x"
  by (auto simp: scanRawContent_def split: sum.splits)

lemma raw_GetByURL_Inr:
  assumes "raw_GetByURL D db url rows = Inr raw"
  shows "\<exists>x\<in>set rows. rx_url x = url \<and> rx_id x = rc_id raw"
proof -
  obtain x where x: "find (\<lambda>x. rx_url x = url) rows = Some x" and s: "scanRawContent D x = Inr raw"
    using assms by (auto simp: raw_GetByURL_def raw_lookup_def split: option.splits sum.splits)
  from x have "x \<in> set rows" "rx_url x = url" by (auto simp: find_Some_iff)
  then show ?thesis using scan_raw_keys [OF s] by auto
qed

text \<open>The id that storing a page returns can be claimed. On a table with unique ids and addresses that no other
  client changes meanwhile, when the store returns an id: the table keeps its ids and addresses unique and has a row
  with that id and the page's address; it is the page's own id and the page read back under it is the page, if it is
  not reported as a duplicate; for a duplicate the table is what it was.\<close>
theorem stored_page_found:
  assumes "raw_rows_ok rows" and "raw_codec_ok D" and "raw_svc_Store D db1 (\<lambda>r. r) db2 raw rows = (Inr (i, dup), rows')"
  shows "raw_rows_ok rows' \<and> (\<exists>x\<in>set rows'. rx_id x = i \<and> rx_url x = rc_url raw)
    \<and> (if dup then rows' = rows else i = rc_id raw \<and> raw_svc_GetByID D None i rows' = Inr raw)"
proof (cases dup)
  case True
  then obtain e old where save: "raw_Save D db1 raw rows = (Some e, rows')" and old: "raw_GetByURL D db2 (rc_url raw) rows' = Inr old"
      "rc_id old = i"
    using assms(3) by (auto simp: raw_svc_Store_def Let_def split: prod.splits option.splits if_splits sum.splits)
  have "rows' = rows" by (rule raw_Save_spec(2) [OF save]) simp
  then show ?thesis using assms(1) True raw_GetByURL_Inr [OF old(1)] old(2) by auto
next
  case False
  then have i: "i = rc_id raw" and save: "raw_Save D db1 raw rows = (None, rows')"
    using assms(3) by (auto simp: raw_svc_Store_def Let_def split: prod.splits option.splits if_splits sum.splits)
  from raw_Save_spec(1) [OF save refl] obtain x where x: "rows' = rows @ [x]" "rx_id x = rc_id raw" "rx_url x = rc_url raw"
      "rc_id raw \<notin> rx_id ` set rows" "rc_url raw \<notin> rx_url ` set rows" "scanRawContent D x = Inr raw"
    using assms(2) by auto
  have ok: "raw_rows_ok rows'" using x assms(1) by (simp add: raw_rows_ok_def)
  then have "find (\<lambda>y. rx_id y = i) rows' = Some x"
    using find_by_key [of rx_id rows'] x i by (simp add: raw_rows_ok_def)
  then have "raw_svc_GetByID D None i rows' = Inr raw"
    using x(6) by (simp add: raw_svc_GetByID_def raw_GetByID_def raw_lookup_def)
  then show ?thesis using ok x(1-3) i False by auto
qed

text \<open>Every id that is found reads as a content whose article flag is not set: the tables do not keep it.\<close>

lemma content_lookup_Inr:
  assumes "content_lookup D what db p T = Inr c"
  shows "\<exists>x\<in>set (ct_rows T). p x \<and> c = scanContent D T x"
  using assms by (auto simp: content_lookup_def find_Some_iff set_conv_nth split: option.splits)

lemma loaded_not_article: "content_svc_GetByID D db i T = Inr c \<Longrightarrow> \<not> c_article c"
  by (auto simp: content_svc_GetByID_def content_GetByID_def scanContent_def Let_def dest!: content_lookup_Inr split: sum.splits)

lemma GetByID_abs:
  assumes "tables_ok T" and "x \<in> set (ct_rows T)"
  shows "content_svc_GetByID D None (cc_id x) T = Inr (scanContent D T x)" "content_abs D T (cc_url x) = Some (scanContent D T x)"
proof -
  have "find (\<lambda>y. cc_id y = cc_id x) (ct_rows T) = Some x" "find (\<lambda>y. cc_url y = cc_url x) (ct_rows T) = Some x"
    using assms by (simp_all add: find_by_key tables_ok_def)
  then show "content_svc_GetByID D None (cc_id x) T = Inr (scanContent D T x)" "content_abs D T (cc_url x) = Some (scanContent D T x)"
    by (simp_all add: content_svc_GetByID_def content_GetByID_def content_lookup_def content_abs_def)
qed

text \<open>C25. The id that storing a content returns loads. If ids are a function of addresses, the tables keep together and
  the codec reads the extra data it wrote, then on a database that executes every statement for this client alone, when the store
  of a content returns an id: a content loads under it, which is the merge of the stored content with the one of its
  address unless a duplicate was reported, and then is one with the same hash, the tables being as they were.\<close>
theorem stored_content_loads:
  assumes "tables_ok T" and "codec_ok D c" and "\<forall>x\<in>set (ct_rows T). cc_id x = f (cc_url x)" and "c_id c = f (c_url c)"
    and "content_svc_Store D None (\<lambda>t. t) X c T = (Inr (i, dup), T')"
  shows "\<exists>c'. content_svc_GetByID D None i T' = Inr c'
    \<and> (if dup then T' = T \<and> c_content_hash c' = c_content_hash c else c' = merged (content_abs D T (c_url c)) c)"
proof (cases dup)
  case True
  obtain e where "GetByContentHash D None (c_content_hash c) T = Inr e" "c_id e = i" and T': "T' = T"
    using assms(5) True by (auto simp: content_svc_Store_def Let_def split: if_splits sum.splits prod.splits option.splits)
  then obtain x where x: "x \<in> set (ct_rows T)" "cc_hash x = c_content_hash c" "e = scanContent D T x" "cc_id x = i"
    by (auto simp: GetByContentHash_def scanContent_def Let_def dest!: content_lookup_Inr)
  then have "content_svc_GetByID D None i T = Inr e" using GetByID_abs(1) [OF assms(1) x(1)] by auto
  moreover have "c_content_hash e = c_content_hash c" using x by (simp add: scanContent_def Let_def)
  ultimately show ?thesis using T' True by auto
next
  case False
  then have save: "content_Save D X c T = (None, T')" and i: "i = c_id c"
    using assms(5) by (auto simp: content_svc_Store_def Let_def split: if_splits sum.splits prod.splits option.splits)
  obtain T2 where up: "upsertContentCTE D c T = Inr T2" "T' = T2"
    using save by (auto simp: content_Save_def saveContentTx_def tx_end_def split: option.splits sum.splits prod.splits)
  note u = upsert_Inr [OF up(1)] and ok = upsert_ok [OF assms(1) up(1)]
  obtain x where x: "find (\<lambda>x. cc_url x = c_url c) (ct_rows T2) = Some x"
    unfolding u(1) find_upsert_own by auto
  then have "x \<in> set (ct_rows T2)" "cc_url x = c_url c" by (auto simp: find_Some_iff)
  note g = GetByID_abs [OF ok this(1), where D = D]
  have "cc_id x = c_id c"
  proof (cases "find (\<lambda>x. cc_url x = c_url c) (ct_rows T)")
    case None
    then have "x = new_content_cols c" using x by (simp add: u(1) find_upsert_own)
    then show ?thesis by (simp add: new_content_cols_def)
  next
    case (Some y)
    then have "y \<in> set (ct_rows T)" "cc_url y = c_url c" by (auto simp: find_Some_iff)
    then have "cc_id y = c_id c" using assms(3,4) by simp
    then show ?thesis using x Some by (auto simp: u(1) find_upsert_own)
  qed
  moreover have "scanContent D T2 x = merged (content_abs D T (c_url c)) c"
    using g(2) \<open>cc_url x = c_url c\<close> upsert_refines [OF assms(1,2) up(1)] by simp
  ultimately show ?thesis using g(1) i up(2) False by simp
qed

text \<open>
  The validator loads the content it validates, so that the rule on missing publication dates, which applies to
  articles, never applies.
\<close>

theorem missing_date_never_rejected:
  "content_svc_GetByID D db i T = Inr c \<Longrightarrow> validatePublishedAt c = []"
  by (simp add: validatePublishedAt_def loaded_not_article)

text \<open>
  A reparse that is stored before the rejected content is deleted is a duplicate of it: the id its message refers to is
  deleted with the rejected content.
\<close>

theorem deleted_duplicate_lost:
  assumes "content_svc_Store D db others X c T = (Inr (i, True), T1)" and "content_Delete None i T1 = (None, T2)"
  shows "content_GetByID D None i T2 = Inl (Sentinel StorageNotFound)"
proof -
  have "find (\<lambda>x. cc_id x = i) (ct_rows T2) = None"
    using assms(2) by (auto simp: content_Delete_def find_None_iff list_ex_iff split: if_splits)
  then show ?thesis by (simp add: content_GetByID_def content_lookup_def)
qed

section \<open>Concrete runs\<close>

definition sample_content_db :: content_db where
  "sample_content_db = \<lparr>cs_encode = (\<lambda>m. if m = Map.empty then ''{}'' else ''x''),
     cs_decode = (\<lambda>b. if b = ''{}'' then Some Map.empty else None), cs_by_id = rev, cs_duplicate = Opaque ''23505''\<rparr>"

definition tx_fine :: tx_env where "tx_fine = \<lparr>tx_begin = None, tx_exec = (\<lambda>_. None), tx_commit = None\<rparr>"

definition sample_raw_db :: raw_db where
  "sample_raw_db = \<lparr>rw_enc_headers = (\<lambda>h. if h = Map.empty then Inr ''null'' else Inl (Opaque ''enc'')),
     rw_enc_meta = (\<lambda>h. if h = Map.empty then Inr ''null'' else Inl (Opaque ''enc'')),
     rw_dec_headers = (\<lambda>_. Inl (Opaque ''dec'')), rw_dec_meta = (\<lambda>_. Inl (Opaque ''dec'')), rw_by_id = rev, rw_date = (\<lambda>_. ''d'')\<rparr>"

definition sample_raw :: "string \<Rightarrow> string \<Rightarrow> raw_content" where
  "sample_raw i url = \<lparr>rc_id = i, rc_source = \<lparr>si_country = [], si_type = [], si_name = ''s'', si_base_url = [], si_language = []\<rparr>,
     rc_fetched_at = 0, rc_url = url, rc_html = ''<p>'', rc_status = 200, rc_headers = Map.empty, rc_meta = Map.empty\<rparr>"

lemma sample_raw_codec: "raw_codec_ok sample_raw_db"
  by (simp add: raw_codec_ok_def sample_raw_db_def decode_column_def)

theorem stored_page_found_witness:
  "let rows = [raw_row_of (sample_raw ''1'' ''u'') ''null'' ''null''];
       (res, rows') = raw_svc_Store sample_raw_db None (\<lambda>r. r) None (sample_raw ''2'' ''u'') rows
   in res = Inr (''1'', True) \<and> raw_rows_ok rows' \<and> rows' = rows"
proof -
  define rows where "rows = [raw_row_of (sample_raw ''1'' ''u'') ''null'' ''null'']"
  have dup: "raw_Save sample_raw_db None (sample_raw ''2'' ''u'') rows = (Some (Sentinel StorageDuplicate), rows)"
    by (simp add: rows_def raw_Save_def sample_raw_db_def sample_raw_def)
  have old: "raw_GetByURL sample_raw_db None ''u'' rows = Inr (sample_raw ''1'' ''u'')"
    using scan_raw_row [OF sample_raw_codec, of "sample_raw ''1'' ''u''" "''null''" "''null''"]
    by (simp add: rows_def raw_GetByURL_def raw_lookup_def sample_raw_def sample_raw_db_def)
  have run: "raw_svc_Store sample_raw_db None (\<lambda>r. r) None (sample_raw ''2'' ''u'') rows = (Inr (''1'', True), rows)"
    using dup old by (simp add: raw_svc_Store_def sample_raw_def)
  have "raw_rows_ok rows" by (simp add: rows_def raw_rows_ok_def)
  from stored_page_found [OF this sample_raw_codec run] run show ?thesis by (simp add: rows_def Let_def)
qed

theorem save_refines_map_witness:
  "let c = plain_content; (res, T') = content_Save sample_content_db tx_fine c empty_tables
   in res = None \<and> tables_ok T' \<and> content_abs sample_content_db T' ''u'' = Some (c\<lparr>c_article := False\<rparr>)"
proof -
  obtain res T' where run: "content_Save sample_content_db tx_fine plain_content empty_tables = (res, T')" by (rule prod.exhaust)
  have codec: "codec_ok sample_content_db plain_content" by (simp add: codec_ok_def sample_content_db_def plain_content_def)
  have res: "res = None"
    using run by (simp add: content_Save_def tx_fine_def saveContentTx_def upsertContentCTE_def empty_tables_def tx_end_def Let_def)
  have "content_abs sample_content_db empty_tables ''u'' = None" by (simp add: content_abs_def empty_tables_def)
  then show ?thesis
    using save_refines_map [OF empty_tables_ok codec run] res run by (simp add: merged_def plain_content_def)
qed

theorem stored_content_loads_witness:
  "let c = plain_content\<lparr>c_content_hash := ''h''\<rparr>;
       (res, T') = content_svc_Store sample_content_db None (\<lambda>t. t) tx_fine c empty_tables
   in res = Inr (''1'', False) \<and> content_svc_GetByID sample_content_db None ''1'' T' = Inr (c\<lparr>c_article := False\<rparr>)"
proof -
  let ?c = "plain_content\<lparr>c_content_hash := ''h''\<rparr>"
  obtain res T' where run: "content_svc_Store sample_content_db None (\<lambda>t. t) tx_fine ?c empty_tables = (res, T')" by (rule prod.exhaust)
  have codec: "codec_ok sample_content_db ?c" by (simp add: codec_ok_def sample_content_db_def plain_content_def)
  have res: "res = Inr (''1'', False)"
    using run by (simp add: content_svc_Store_def content_Save_def tx_fine_def saveContentTx_def upsertContentCTE_def empty_tables_def
        tx_end_def GetByContentHash_def content_lookup_def plain_content_def Let_def)
  have rows: "\<forall>x\<in>set (ct_rows empty_tables). cc_id x = (\<lambda>_. ''1'') (cc_url x)" and id: "c_id ?c = (\<lambda>_. ''1'') (c_url ?c)"
    by (simp_all add: empty_tables_def plain_content_def)
  have "content_abs sample_content_db empty_tables (c_url ?c) = None" by (simp add: content_abs_def empty_tables_def)
  then show ?thesis
    using stored_content_loads [OF empty_tables_ok codec rows id run [unfolded res]] res run by (simp add: merged_def)
qed

end
