(* ===== verification/CircuitBreaker.thy ===== *)
theory CircuitBreaker
  imports GoBase
begin

text \<open>
  The circuit breaker of \<^verbatim>\<open>pkg/resilience/circuit_breaker.go\<close>: the three-state machine of
  one source (\<^verbatim>\<open>Allow\<close>, \<^verbatim>\<open>RecordSuccess\<close>, \<^verbatim>\<open>RecordFailure\<close>) and the registry that owns
  one breaker per source. The clock value a method reads is an argument; every method runs
  under the breaker's mutex, so one call is one step. \<^verbatim>\<open>logTransition\<close> only logs and is left
  out. The theory also states the contract of a failure gate, which the breaker and the
  LLM host breaker share.
\<close>

section \<open>The contract of a failure gate\<close>

text \<open>
  A failure gate is asked before each attempt and told the outcome. \<open>blocked_until s\<close> is the
  time before which a blocking gate refuses every attempt. The laws say that a blocking gate
  refuses without changing, that it lets an attempt through once the time has come, that a
  success never makes it block, and that a failure blocks only into the future.
\<close>

locale failure_gate =
  fixes allow :: "gotime \<Rightarrow> 's \<Rightarrow> bool \<times> 's"
    and success :: "'s \<Rightarrow> 's"
    and failure :: "gotime \<Rightarrow> 's \<Rightarrow> 's"
    and blocked_until :: "'s \<Rightarrow> gotime option"
    and window :: "'s \<Rightarrow> duration"
  assumes refuse: "blocked_until s = Some u \<Longrightarrow> t < u \<Longrightarrow> allow t s = (False, s)"
    and reopen: "blocked_until s = Some u \<Longrightarrow> u \<le> t \<Longrightarrow> fst (allow t s)"
    and reopen_clear: "blocked_until s = Some u \<Longrightarrow> u \<le> t \<Longrightarrow> blocked_until (snd (allow t s)) = None"
    and success_keeps: "blocked_until s = None \<Longrightarrow> blocked_until (success s) = None"
    and failure_window:
      "blocked_until s = None \<Longrightarrow> blocked_until (failure t s) = Some u \<Longrightarrow> u = t + window s"
begin

fun ask_all :: "gotime list \<Rightarrow> 's \<Rightarrow> bool list \<times> 's" where
  "ask_all [] s = ([], s)"
| "ask_all (t # ts) s =
     (let (b, s1) = allow t s; (bs, s2) = ask_all ts s1 in (b # bs, s2))"

lemma refuse_all:
  assumes "blocked_until s = Some u" and "\<forall>t \<in> set ts. t < u"
  shows "ask_all ts s = (replicate (length ts) False, s)"
  using assms(2) by (induction ts) (auto simp: refuse [OF assms(1)])

lemma blocked_after_failure:
  assumes "blocked_until s = None" and "blocked_until (failure t s) = Some u"
    and "t' < t + window s"
  shows "allow t' (failure t s) = (False, failure t s)"
  using assms failure_window refuse by blast

lemma retry_after_window:
  assumes "blocked_until s = None" and "blocked_until (failure t s) = Some u"
    and "t + window s \<le> t'"
  shows "fst (allow t' (failure t s)) \<and> blocked_until (snd (allow t' (failure t s))) = None"
  using assms failure_window reopen reopen_clear by blast

end

section \<open>The breaker of one source\<close>

datatype cb_state = CbClosed | CbOpen | CbHalfOpen

fun cb_state_string :: "cb_state \<Rightarrow> string" where
  "cb_state_string CbClosed = ''closed''"
| "cb_state_string CbOpen = ''open''"
| "cb_state_string CbHalfOpen = ''half_open''"

text \<open>\<^verbatim>\<open>ErrCircuitOpen.Is\<close>: a target with a source matches that source only.\<close>

definition circuit_open_is :: "string \<Rightarrow> go_error \<Rightarrow> bool" where
  "circuit_open_is e_source target =
     (case target of
        CircuitOpen t_source \<Rightarrow> \<not> (t_source \<noteq> [] \<and> t_source \<noteq> e_source)
      | _ \<Rightarrow> False)"

record cb_config =
  max_failures :: int
  open_timeout :: duration

definition default_cb_config :: cb_config where
  "default_cb_config = \<lparr>max_failures = 5, open_timeout = 60 * second\<rparr>"

record circuit_breaker =
  cb_config :: cb_config
  cb_source :: string
  cb_state :: cb_state
  failures :: int
  opened_at :: gotime
  probe_active :: bool

definition new_circuit_breaker :: "string \<Rightarrow> cb_config \<Rightarrow> circuit_breaker" where
  "new_circuit_breaker source config =
     \<lparr>cb_config = config, cb_source = source, cb_state = CbClosed,
      failures = 0, opened_at = 0, probe_active = False\<rparr>"

definition cb_allow :: "gotime \<Rightarrow> circuit_breaker \<Rightarrow> bool \<times> circuit_breaker" where
  "cb_allow now cb =
     (case cb_state cb of
        CbClosed \<Rightarrow> (True, cb)
      | CbOpen \<Rightarrow>
          (if open_timeout (cb_config cb) \<le> now - opened_at cb
           then (True, cb\<lparr>cb_state := CbHalfOpen, probe_active := True\<rparr>)
           else (False, cb))
      | CbHalfOpen \<Rightarrow>
          (if probe_active cb then (False, cb)
           else (True, cb\<lparr>probe_active := True\<rparr>)))"

definition cb_record_success :: "circuit_breaker \<Rightarrow> circuit_breaker" where
  "cb_record_success cb =
     (let cb1 = cb\<lparr>failures := 0\<rparr>
      in if cb_state cb1 = CbHalfOpen
         then cb1\<lparr>cb_state := CbClosed, probe_active := False\<rparr>
         else cb1)"

definition cb_record_failure :: "gotime \<Rightarrow> circuit_breaker \<Rightarrow> circuit_breaker" where
  "cb_record_failure now cb =
     (case cb_state cb of
        CbClosed \<Rightarrow>
          (let cb1 = cb\<lparr>failures := failures cb + 1\<rparr>
           in if max_failures (cb_config cb1) \<le> failures cb1
              then cb1\<lparr>cb_state := CbOpen, opened_at := now\<rparr>
              else cb1)
      | CbHalfOpen \<Rightarrow>
          cb\<lparr>cb_state := CbOpen, opened_at := now, probe_active := False\<rparr>
      | CbOpen \<Rightarrow> cb)"

lemmas cb_ops = cb_allow_def cb_record_success_def cb_record_failure_def

section \<open>Its invariant\<close>

text \<open>
  A probe is only outstanding while half-open, and a closed breaker has counted fewer
  failures than the limit.
\<close>

definition cb_inv :: "circuit_breaker \<Rightarrow> bool" where
  "cb_inv cb \<longleftrightarrow>
     (probe_active cb \<longrightarrow> cb_state cb = CbHalfOpen)
     \<and> 0 \<le> failures cb
     \<and> (cb_state cb = CbClosed \<longrightarrow> failures cb < max 1 (max_failures (cb_config cb)))"

lemma cb_inv_new [inv_intros]: "cb_inv (new_circuit_breaker src c)"
  by (simp add: cb_inv_def new_circuit_breaker_def)

lemma cb_inv_allow [inv_intros]: "cb_inv cb \<Longrightarrow> cb_inv (snd (cb_allow t cb))"
  by (auto simp: cb_inv_def cb_allow_def split: cb_state.splits)

lemma cb_inv_success [inv_intros]: "cb_inv cb \<Longrightarrow> cb_inv (cb_record_success cb)"
  by (auto simp: cb_inv_def cb_record_success_def Let_def)

lemma cb_inv_failure [inv_intros]: "cb_inv cb \<Longrightarrow> cb_inv (cb_record_failure t cb)"
  by (auto simp: cb_inv_def cb_record_failure_def Let_def split: cb_state.splits)

lemma cb_config_frame [frame_simps]:
  "cb_config (snd (cb_allow t cb)) = cb_config cb"
  "cb_config (cb_record_success cb) = cb_config cb"
  "cb_config (cb_record_failure t cb) = cb_config cb"
  by (auto simp: cb_ops Let_def split: cb_state.splits)

text \<open>A probe that nobody reports back on: the breaker refuses and never moves.\<close>

lemma cb_allow_probe_busy:
  "cb_state cb = CbHalfOpen \<Longrightarrow> probe_active cb \<Longrightarrow> cb_allow t cb = (False, cb)"
  by (simp add: cb_allow_def)

section \<open>The breaker as a failure gate\<close>

definition cb_blocked_until :: "circuit_breaker \<Rightarrow> gotime option" where
  "cb_blocked_until cb =
     (if cb_state cb = CbOpen then Some (opened_at cb + open_timeout (cb_config cb)) else None)"

interpretation cbg: failure_gate
  cb_allow cb_record_success cb_record_failure cb_blocked_until
  "\<lambda>cb. open_timeout (cb_config cb)"
  by unfold_locales
    (auto simp: cb_blocked_until_def cb_ops Let_def split: if_splits cb_state.splits)

section \<open>Runs of one breaker\<close>

text \<open>
  The calls the worker pool makes on one breaker, as events. \<open>cb_run\<close> performs them in order.
\<close>

datatype cb_event = EvAllow gotime | EvSuccess | EvFailure gotime

fun cb_step :: "cb_event \<Rightarrow> circuit_breaker \<Rightarrow> circuit_breaker" where
  "cb_step (EvAllow t) cb = snd (cb_allow t cb)"
| "cb_step EvSuccess cb = cb_record_success cb"
| "cb_step (EvFailure t) cb = cb_record_failure t cb"

definition cb_run :: "cb_event list \<Rightarrow> circuit_breaker \<Rightarrow> circuit_breaker" where
  "cb_run es cb = fold cb_step es cb"

lemma cb_run_simps [simp]:
  "cb_run [] cb = cb"
  "cb_run (e # es) cb = cb_run es (cb_step e cb)"
  "cb_run (es @ fs) cb = cb_run fs (cb_run es cb)"
  by (simp_all add: cb_run_def)

lemma cb_run_inv: "cb_inv cb \<Longrightarrow> cb_inv (cb_run es cb)"
proof (induction es arbitrary: cb)
  case (Cons e es)
  then show ?case by (cases e) (auto intro: inv_intros)
qed simp

lemma cb_run_config [frame_simps]: "cb_config (cb_run es cb) = cb_config cb"
proof (induction es arbitrary: cb)
  case (Cons e es)
  then show ?case by (cases e) (simp_all add: frame_simps)
qed simp

text \<open>
  The specification of tripping: \<open>burst m c es\<close> says that \<open>es\<close>, after \<open>c\<close> failures in a
  row, contains a failure that brings the number of failures in a row to \<open>m\<close>.
\<close>

fun burst :: "int \<Rightarrow> int \<Rightarrow> cb_event list \<Rightarrow> bool" where
  "burst m c [] = False"
| "burst m c (EvAllow t # es) = burst m c es"
| "burst m c (EvSuccess # es) = burst m 0 es"
| "burst m c (EvFailure t # es) = (m \<le> c + 1 \<or> burst m (c + 1) es)"

fun tail_failures :: "int \<Rightarrow> cb_event list \<Rightarrow> int" where
  "tail_failures c [] = c"
| "tail_failures c (EvAllow t # es) = tail_failures c es"
| "tail_failures c (EvSuccess # es) = tail_failures 0 es"
| "tail_failures c (EvFailure t # es) = tail_failures (c + 1) es"

lemma burst_snoc_failure:
  "burst m c (es @ [EvFailure t]) \<longleftrightarrow> burst m c es \<or> m \<le> tail_failures c es + 1"
  by (induction m c es rule: burst.induct) auto

lemma cb_run_no_burst:
  assumes "cb_state cb = CbClosed" and "\<not> burst (max_failures (cb_config cb)) (failures cb) es"
  shows "cb_state (cb_run es cb) = CbClosed
    \<and> failures (cb_run es cb) = tail_failures (failures cb) es"
  using assms
proof (induction es arbitrary: cb)
  case (Cons e es)
  show ?case
  proof (cases e)
    case (EvAllow t)
    with Cons show ?thesis by (simp add: cb_allow_def)
  next
    case EvSuccess
    with Cons.prems Cons.IH [of "cb_record_success cb"] show ?thesis
      by (simp add: cb_record_success_def)
  next
    case (EvFailure t)
    with Cons.prems Cons.IH [of "cb_record_failure t cb"] show ?thesis
      by (simp add: cb_record_failure_def)
  qed
qed simp

section \<open>The registry\<close>

record cb_registry =
  reg_config :: cb_config
  reg_cbs :: "string \<rightharpoonup> circuit_breaker"

definition new_registry :: "cb_config \<Rightarrow> cb_registry" where
  "new_registry config = \<lparr>reg_config = config, reg_cbs = Map.empty\<rparr>"

definition registry_get :: "string \<Rightarrow> cb_registry \<Rightarrow> circuit_breaker \<times> cb_registry" where
  "registry_get source r =
     (case reg_cbs r source of
        Some cb \<Rightarrow> (cb, r)
      | None \<Rightarrow>
          (let cb = new_circuit_breaker source (reg_config r)
           in (cb, r\<lparr>reg_cbs := (reg_cbs r)(source \<mapsto> cb)\<rparr>)))"

text \<open>
  \<^verbatim>\<open>Get\<close> hands out a pointer: a method called on it changes the registry's entry.
\<close>

definition registry_set :: "string \<Rightarrow> circuit_breaker \<Rightarrow> cb_registry \<Rightarrow> cb_registry" where
  "registry_set source cb r = r\<lparr>reg_cbs := (reg_cbs r)(source \<mapsto> cb)\<rparr>"

definition registry_allow :: "gotime \<Rightarrow> string \<Rightarrow> cb_registry \<Rightarrow> bool \<times> cb_registry" where
  "registry_allow now source r =
     (let (cb, r1) = registry_get source r; (ok, cb1) = cb_allow now cb
      in (ok, registry_set source cb1 r1))"

definition registry_success :: "string \<Rightarrow> cb_registry \<Rightarrow> cb_registry" where
  "registry_success source r =
     (let (cb, r1) = registry_get source r
      in registry_set source (cb_record_success cb) r1)"

definition registry_failure :: "gotime \<Rightarrow> string \<Rightarrow> cb_registry \<Rightarrow> cb_registry" where
  "registry_failure now source r =
     (let (cb, r1) = registry_get source r
      in registry_set source (cb_record_failure now cb) r1)"

definition breaker_of :: "cb_registry \<Rightarrow> string \<Rightarrow> circuit_breaker" where
  "breaker_of r source = fst (registry_get source r)"

lemmas registry_defs =
  registry_allow_def registry_success_def registry_failure_def registry_set_def
  registry_get_def breaker_of_def

lemma registry_get_stable: "breaker_of (snd (registry_get source r)) s = breaker_of r s"
  by (auto simp: registry_defs Let_def split: option.splits)

lemma registry_ops [step_simps]:
  "breaker_of (snd (registry_allow t src r)) s =
     (if s = src then snd (cb_allow t (breaker_of r src)) else breaker_of r s)"
  "fst (registry_allow t src r) = fst (cb_allow t (breaker_of r src))"
  "breaker_of (registry_success src r) s =
     (if s = src then cb_record_success (breaker_of r src) else breaker_of r s)"
  "breaker_of (registry_failure t src r) s =
     (if s = src then cb_record_failure t (breaker_of r src) else breaker_of r s)"
  by (auto simp: registry_defs Let_def split: option.splits prod.splits)

text \<open>A sequence of calls on the registry, each for its source.\<close>

fun registry_step :: "string \<times> cb_event \<Rightarrow> cb_registry \<Rightarrow> cb_registry" where
  "registry_step (src, EvAllow t) r = snd (registry_allow t src r)"
| "registry_step (src, EvSuccess) r = registry_success src r"
| "registry_step (src, EvFailure t) r = registry_failure t src r"

lemma registry_step_breaker [step_simps]:
  "breaker_of (registry_step (src, e) r) s =
     (if s = src then cb_step e (breaker_of r s) else breaker_of r s)"
  by (cases e) (simp_all add: step_simps)

section \<open>Properties\<close>

text \<open>A breaker opens exactly at the failure that completes a run of max_failures failures
  with no success in between, whatever the interleaving of Allow calls, and it then refuses
  every attempt until open_timeout has passed since that failure and lets the next one through.\<close>
theorem cb_trips_exactly:
  assumes "\<not> burst (max_failures c) 0 es"
  shows "cb_state (cb_run es (new_circuit_breaker src c)) = CbClosed
    \<and> (let cb = cb_run (es @ [EvFailure t]) (new_circuit_breaker src c);
           trips = max_failures c \<le> tail_failures 0 es + 1
       in cb_state cb = (if trips then CbOpen else CbClosed)
          \<and> fst (cb_allow t' cb) = (trips \<longrightarrow> open_timeout c \<le> t' - t))"
proof -
  let ?n = "new_circuit_breaker src c"
  have closed: "cb_state (cb_run es ?n) = CbClosed" "failures (cb_run es ?n) = tail_failures 0 es"
    using cb_run_no_burst [of ?n es] assms by (simp_all add: new_circuit_breaker_def)
  have conf: "cb_config (cb_run es ?n) = c"
    by (simp add: frame_simps) (simp add: new_circuit_breaker_def)
  show ?thesis
    using closed conf by (simp add: cb_record_failure_def cb_allow_def Let_def)
qed

theorem cb_trips_exactly_witness:
  "cb_state (cb_run [EvAllow 0, EvFailure 1, EvSuccess, EvFailure 2]
       (new_circuit_breaker ''naver'' \<lparr>max_failures = 2, open_timeout = 10\<rparr>)) = CbClosed
   \<and> cb_state (cb_run ([EvAllow 0, EvFailure 1, EvSuccess, EvFailure 2] @ [EvFailure 3])
       (new_circuit_breaker ''naver'' \<lparr>max_failures = 2, open_timeout = 10\<rparr>)) = CbOpen"
  using cb_trips_exactly [of "\<lparr>max_failures = 2, open_timeout = 10\<rparr>"
      "[EvAllow 0, EvFailure 1, EvSuccess, EvFailure 2]" "''naver''" 3 0]
  by (simp add: Let_def)

text \<open>The half-open state admits exactly one probe: once the open period is over the first
  Allow passes, every later one is refused until the probe reports, a reported success closes
  the breaker with its count cleared, and a reported failure opens it again for a full period.\<close>
theorem cb_single_probe:
  assumes "cb_state cb = CbOpen" and "opened_at cb + open_timeout (cb_config cb) \<le> t"
    and "set es \<subseteq> range EvAllow"
  shows "fst (cb_allow t cb)
    \<and> (let p = cb_run (EvAllow t # es) cb
       in (\<forall>u. \<not> fst (cb_allow u p))
          \<and> cb_state (cb_record_success p) = CbClosed \<and> failures (cb_record_success p) = 0
          \<and> cb_blocked_until (cb_record_failure v p) = Some (v + open_timeout (cb_config cb)))"
proof -
  let ?q = "snd (cb_allow t cb)"
  have q: "fst (cb_allow t cb)" "cb_state ?q = CbHalfOpen" "probe_active ?q"
    using assms(1,2) by (auto simp: cb_allow_def)
  have "cb_run es ?q = ?q"
    using assms(3) q(2,3) by (induction es) (auto simp: cb_allow_probe_busy)
  then show ?thesis
    using q by (simp add: Let_def cb_allow_probe_busy cb_record_success_def
        cb_record_failure_def cb_blocked_until_def frame_simps)
qed

theorem cb_single_probe_witness:
  "fst (cb_allow 60 (cb_run [EvFailure 0] (new_circuit_breaker ''s'' \<lparr>max_failures = 1, open_timeout = 60\<rparr>)))
   \<and> \<not> fst (cb_allow 90 (cb_run [EvAllow 60, EvAllow 61]
        (cb_run [EvFailure 0] (new_circuit_breaker ''s'' \<lparr>max_failures = 1, open_timeout = 60\<rparr>))))"
  using cb_single_probe [of "cb_run [EvFailure 0]
      (new_circuit_breaker ''s'' \<lparr>max_failures = 1, open_timeout = 60\<rparr>)" 60 "[EvAllow 61]" 0]
  by (simp add: cb_record_failure_def new_circuit_breaker_def Let_def)

text \<open>The registry isolates sources: after any interleaving of calls for any sources, the
  breaker of a source is the one that its own calls alone, in their order, give a fresh breaker.\<close>
theorem registry_isolates:
  "breaker_of (fold registry_step es (new_registry c)) s
     = cb_run (map snd (filter (\<lambda>e. fst e = s) es)) (new_circuit_breaker s c)"
proof -
  have fold_breaker: "breaker_of (fold registry_step es r) s
          = cb_run (map snd (filter (\<lambda>e. fst e = s) es)) (breaker_of r s)" for r
    by (induction es arbitrary: r) (auto simp: step_simps)
  have fresh: "breaker_of (new_registry c) s = new_circuit_breaker s c"
    by (simp add: breaker_of_def registry_get_def new_registry_def Let_def)
  show ?thesis
    by (simp only: fold_breaker fresh)
qed

end
