(* ===== verification/FetcherPool.thy ===== *)
theory FetcherPool
  imports CircuitBreaker Bus
begin

text \<open>
  The fetcher's worker, \<^verbatim>\<open>internal/processor/fetcher/worker/pool.go\<close>: one call of
  \<^verbatim>\<open>Handle\<close> on one Kafka message, with \<^verbatim>\<open>processJob\<close>, \<^verbatim>\<open>publishNormalized\<close>,
  \<^verbatim>\<open>sendToDLQ\<close>, \<^verbatim>\<open>requeueWithRetry\<close> and \<^verbatim>\<open>requeueGateSkip\<close> in the order of the
  code, every return included. The job handler, the content store, the stage gate, the
  clock and the context are fields of the environment; they act on an unknown world, so the
  theorems hold for every behaviour of theirs. The handler is one step of the model for the
  circuit breakers: calls of other workers happen before or after it. Logging and the busy
  counter are left out.
\<close>

section \<open>Environment and state\<close>

record 'w fetch_env =
  fe_io :: "(act, 'w) io"
  fe_handle :: "headers option \<Rightarrow> crawl_job \<Rightarrow> 'w \<Rightarrow> (go_error + content list) \<times> 'w"
  fe_store :: "content \<Rightarrow> 'w \<Rightarrow> (go_error + string) \<times> 'w"
  fe_acquire :: "string \<Rightarrow> 'w \<Rightarrow> (go_error + bool) \<times> 'w"
  fe_now :: "'w \<Rightarrow> gotime"
  fe_ctx_err :: "'w \<Rightarrow> go_error option"
  fe_rand :: "'w \<Rightarrow> real"
  fe_unmarshal :: "bytes \<Rightarrow> go_error + crawl_job"
  fe_marshal_ref :: "content_ref \<Rightarrow> go_error + bytes"
  fe_marshal_pm :: "processing_message \<Rightarrow> go_error + bytes"
  fe_normalizer :: "(string \<Rightarrow> go_error + string) option"
  fe_gate :: "(string \<Rightarrow> bool) option"
  fe_precheck :: "('w \<Rightarrow> string \<Rightarrow> verdict) option"
  fe_delayed_retry :: bool
  fe_pub :: publisher

type_synonym 'w fetch_state = "(act, 'w) sys \<times> cb_registry"

definition kafkaRequeuePolicy :: retry_policy where
  "kafkaRequeuePolicy =
     \<lparr>rp_max_attempts = 0, rp_initial = 5 * second, rp_max_delay = 5 * minute,
      rp_multiplier = 2, rp_jitter = True, rp_retryable = []\<rparr>"

definition DefaultProcessingLockTTL :: duration where
  "DefaultProcessingLockTTL = 10 * minute"

definition GateSkipRetryDelay :: duration where
  "GateSkipRetryDelay = DefaultProcessingLockTTL div 2"

definition normalizeURL :: "'w fetch_env \<Rightarrow> string \<Rightarrow> string" where
  "normalizeURL env rawURL =
     (case fe_normalizer env of
        None \<Rightarrow> rawURL
      | Some n \<Rightarrow>
          if rawURL = [] then rawURL
          else (case n rawURL of
                  Inl _ \<Rightarrow> rawURL
                | Inr normalized \<Rightarrow> if normalized = [] then rawURL else normalized))"

section \<open>Dead letters and retries\<close>

definition sendToDLQ ::
  "'w fetch_env \<Rightarrow> message \<Rightarrow> go_error \<Rightarrow> (act, 'w) sys \<Rightarrow> go_error option \<times> (act, 'w) sys" where
  "sendToDLQ env msg reason s =
     (let hs = (m_headers msg)(''original-topic'' \<mapsto> m_topic msg, ''error'' \<mapsto> error_text reason);
          dlqMsg = new_message TopicDLQ (m_key msg) (m_value msg) hs
      in case Forward (fe_io env) (Some (fe_pub env)) dlqMsg s of
           (None, s1) \<Rightarrow> (None, s1)
         | (Some e, s1) \<Rightarrow>
             if is_canceled e
             then (case Forward (fe_io env) (Some (fe_pub env)) dlqMsg s1 of
                     (Some e2, s2) \<Rightarrow> (Some (Wrapped ''send to dlq'' (Joined [e, e2])), s2)
                   | (None, s2) \<Rightarrow> (None, s2))
             else (Some (Wrapped ''send to dlq'' e), s1))"

definition requeueWithRetry ::
  "'w fetch_env \<Rightarrow> crawl_job \<Rightarrow> go_error \<Rightarrow> (act, 'w) sys \<Rightarrow> go_error option \<times> (act, 'w) sys" where
  "requeueWithRetry env job0 reason s =
     (let job = job0\<lparr>job_retry_count := job_retry_count job0 + 1\<rparr>;
          backoffDelay = CalculateBackoff (fe_rand env (fst s)) kafkaRequeuePolicy (job_retry_count job);
          job = job\<lparr>job_scheduled_at := fe_now env (fst s) + backoffDelay\<rparr>;
          enqueue = retry_enqueue (fe_delayed_retry env) (fe_io env) (fe_pub env) job (Some reason)
      in case enqueue s of
           (None, s1) \<Rightarrow> (None, s1)
         | (Some e, s1) \<Rightarrow>
             if is_canceled e
             then (case enqueue s1 of
                     (Some e2, s2) \<Rightarrow> (Some (Wrapped ''publish retry job'' (Joined [e, e2])), s2)
                   | (None, s2) \<Rightarrow> (None, s2))
             else (Some (Wrapped ''publish retry job'' e), s1))"

definition requeueGateSkip ::
  "'w fetch_env \<Rightarrow> message \<Rightarrow> crawl_job \<Rightarrow> (act, 'w) sys \<Rightarrow> go_error option \<times> (act, 'w) sys" where
  "requeueGateSkip env msg job s =
     (if job_max_retries job \<le> job_retry_count job then
        (case sendToDLQ env msg (Sentinel StageGateHeld) s of
           (Some _, s1) \<Rightarrow> (None, s1)
         | (None, s1) \<Rightarrow> (None, snd (CommitWithDrain (fe_io env) msg s1)))
      else
        (let job = job\<lparr>job_retry_count := job_retry_count job + 1,
                      job_scheduled_at := fe_now env (fst s) + GateSkipRetryDelay\<rparr>
         in case retry_enqueue (fe_delayed_retry env) (fe_io env) (fe_pub env) job
                   (Some (Sentinel StageGateHeld)) s of
              (Some _, s1) \<Rightarrow> (None, s1)
            | (None, s1) \<Rightarrow> (None, snd (CommitWithDrain (fe_io env) msg s1))))"

section \<open>Publishing the contents\<close>

definition canonical_content :: "'w fetch_env \<Rightarrow> content \<Rightarrow> content" where
  "canonical_content env c =
     (let source = (if c_canonical_url c = [] then c_url c else c_canonical_url c);
          normalized = normalizeURL env source
      in if normalized \<noteq> [] then c\<lparr>c_canonical_url := normalized\<rparr> else c)"

definition partition_key :: "content \<Rightarrow> bytes" where
  "partition_key c = (if c_canonical_url c = [] then c_url c else c_canonical_url c)"

definition publishNormalized ::
  "'w fetch_env \<Rightarrow> content \<Rightarrow> crawl_job \<Rightarrow> (act, 'w) sys \<Rightarrow> go_error option \<times> (act, 'w) sys" where
  "publishNormalized env content0 job s =
     (let content = canonical_content env content0
      in case perform_val (fe_store env content) (StoreContent content) s of
           (Inl err, s1) \<Rightarrow> (Some (Wrapped (''store content for job '' @ job_id job) err), s1)
         | (Inr storedID, s1) \<Rightarrow>
             (let ref = \<lparr>cr_id = storedID, cr_url = c_url content, cr_country = c_country content,
                        cr_source = \<lparr>si_country = c_country content, si_type = c_source_type content,
                          si_name = c_source_id content, si_base_url = [],
                          si_language = c_language content\<rparr>\<rparr>
              in case fe_marshal_ref env ref of
                   Inl err \<Rightarrow> (Some (Wrapped ''marshal content ref'' err), s1)
                 | Inr refData \<Rightarrow>
                     (let pm = \<lparr>pm_id = storedID, pm_timestamp = fe_now env (fst s1),
                               pm_country = c_country content, pm_stage = ''normalized'',
                               pm_data = refData,
                               pm_metadata = [''job_id'' \<mapsto> MStr (job_id job),
                                 ''crawler'' \<mapsto> MStr (job_crawler job)],
                               pm_retry_count = 0\<rparr>
                      in case fe_marshal_pm env pm of
                           Inl err \<Rightarrow> (Some (Wrapped ''marshal processing message'' err), s1)
                         | Inr pmBytes \<Rightarrow>
                             (let partitionKey = partition_key content;
                                  msg = new_message TopicNormalized partitionKey pmBytes
                                          [''source'' \<mapsto> c_source_id content,
                                           ''country'' \<mapsto> c_country content, ''job_id'' \<mapsto> job_id job]
                              in Forward (fe_io env) (Some (fe_pub env)) msg s1))))"

fun publish_contents ::
  "'w fetch_env \<Rightarrow> content list \<Rightarrow> crawl_job \<Rightarrow> (act, 'w) sys \<Rightarrow> go_error option \<times> (act, 'w) sys" where
  "publish_contents env [] job s = (None, s)"
| "publish_contents env (c # cs) job s =
     (case publishNormalized env c job s of
        (Some err, s1) \<Rightarrow> (Some (Wrapped (''publish normalized for job '' @ job_id job) err), s1)
      | (None, s1) \<Rightarrow> publish_contents env cs job s1)"

section \<open>One job\<close>

text \<open>The error branch of \<^verbatim>\<open>processJob\<close>, after \<^verbatim>\<open>cb.RecordFailure\<close>.\<close>

definition handle_failed ::
  "'w fetch_env \<Rightarrow> message \<Rightarrow> crawl_job \<Rightarrow> go_error \<Rightarrow> (act, 'w) sys \<Rightarrow> go_error option \<times> (act, 'w) sys" where
  "handle_failed env msg job err s =
     (case (if job_max_retries job \<le> job_retry_count job then sendToDLQ env msg err s
            else requeueWithRetry env job err s) of
        (Some publishErr, s1) \<Rightarrow>
          (Some (Wrapped (''handle job '' @ job_id job @ '': republish'') publishErr), s1)
      | (None, s1) \<Rightarrow>
          (Some (Wrapped (''handle job '' @ job_id job) err), snd (CommitWithDrain (fe_io env) msg s1)))"

text \<open>From \<^verbatim>\<open>cb.Allow\<close> to the end.\<close>

definition run_job ::
  "'w fetch_env \<Rightarrow> message \<Rightarrow> crawl_job \<Rightarrow> 'w fetch_state \<Rightarrow> go_error option \<times> 'w fetch_state" where
  "run_job env msg job st =
     (let (s, reg) = st;
          (allowed, reg1) = registry_allow (fe_now env (fst s)) (job_crawler job) reg
      in if \<not> allowed then
           (let cbErr = CircuitOpen (job_crawler job)
            in case sendToDLQ env msg cbErr s of
                 (Some publishErr, s1) \<Rightarrow>
                   (Some (Wrapped (''circuit open dlq for job '' @ job_id job) publishErr), (s1, reg1))
               | (None, s1) \<Rightarrow> (Some cbErr, (snd (CommitWithDrain (fe_io env) msg s1), reg1)))
         else
           (case perform_val (fe_handle env (WithInboxHeaders None (m_headers msg)) job) (HandleJob job) s of
              (Inl err, s1) \<Rightarrow>
                (let reg2 = registry_failure (fe_now env (fst s1)) (job_crawler job) reg1;
                     (r, s2) = handle_failed env msg job err s1
                 in (r, (s2, reg2)))
            | (Inr contents, s1) \<Rightarrow>
                if contents = [] then
                  (let (r, s2) = CommitWithDrain (fe_io env) msg s1
                   in (r, (s2, registry_success (job_crawler job) reg1)))
                else
                  (case publish_contents env contents job s1 of
                     (Some err, s2) \<Rightarrow> (Some err, (s2, reg1))
                   | (None, s2) \<Rightarrow>
                       (let (r, s3) = CommitWithDrain (fe_io env) msg s2
                        in (r, (s3, registry_success (job_crawler job) reg1))))))"

text \<open>The stage gate around it; the release function runs when \<^verbatim>\<open>processJob\<close> returns.\<close>

definition gated_job ::
  "'w fetch_env \<Rightarrow> message \<Rightarrow> crawl_job \<Rightarrow> 'w fetch_state \<Rightarrow> go_error option \<times> 'w fetch_state" where
  "gated_job env msg job st =
     (let (s, reg) = st; url = tg_url (job_target job)
      in case perform_val (fe_acquire env url) (GateAcquire url) s of
           (Inl gateErr, s1) \<Rightarrow>
             if fe_ctx_err env (fst s1) \<noteq> None
             then (Some (Wrapped ''fetcher stage gate acquire aborted by ctx'' gateErr), (s1, reg))
             else run_job env msg job (s1, reg)
         | (Inr acquired, s1) \<Rightarrow>
             if \<not> acquired
             then (let (r, s2) = requeueGateSkip env msg job s1 in (r, (s2, reg)))
             else (let (r, (s2, reg2)) = run_job env msg job (s1, reg);
                       s3 = snd (perform (fe_io env) (GateRelease url) s2)
                   in (r, (s3, reg2))))"

definition processJob ::
  "'w fetch_env \<Rightarrow> message \<Rightarrow> crawl_job \<Rightarrow> 'w fetch_state \<Rightarrow> go_error option \<times> 'w fetch_state" where
  "processJob env msg job st =
     (let (s, reg) = st;
          url = tg_url (job_target job);
          commit = (let (r, s1) = CommitWithDrain (fe_io env) msg s in (r, (s1, reg)));
          gate_ok = (case fe_gate env of None \<Rightarrow> True | Some g \<Rightarrow> g url)
      in if \<not> gate_ok then commit
         else if (case fe_precheck env of None \<Rightarrow> False | Some d \<Rightarrow> d (fst s) url = VerdictDrop) then commit
         else (let delay = job_scheduled_at job - fe_now env (fst s)
               in if delay > 0 then
                    (case perform (fe_io env) (WaitDelay delay) s of
                       (Some ctxErr, s1) \<Rightarrow> (Some ctxErr, (s1, reg))
                     | (None, s1) \<Rightarrow> gated_job env msg job (s1, reg))
                  else gated_job env msg job (s, reg)))"

definition normalized_job :: "'w fetch_env \<Rightarrow> crawl_job \<Rightarrow> crawl_job" where
  "normalized_job env job =
     job\<lparr>job_target := (job_target job)\<lparr>tg_url := normalizeURL env (tg_url (job_target job))\<rparr>\<rparr>"

definition fetch_handle :: "'w fetch_env \<Rightarrow> message \<Rightarrow> 'w fetch_state \<Rightarrow> 'w fetch_state" where
  "fetch_handle env msg st =
     (let (s, reg) = st
      in case fe_unmarshal env (m_value msg) of
           Inl err \<Rightarrow>
             (case sendToDLQ env msg err s of
                (Some _, s1) \<Rightarrow> (s1, reg)
              | (None, s1) \<Rightarrow> (snd (CommitWithDrain (fe_io env) msg s1), reg))
         | Inr job0 \<Rightarrow>
             snd (processJob env msg (normalized_job env job0) (s, reg)))"

section \<open>What each operation adds to the trace\<close>

lemma sendToDLQ_quiet:
  assumes "sendToDLQ env msg reason s = (r, s')"
  shows "no_commit s s' \<and> (r = None \<longrightarrow> dead_lettered msg s')"
proof
  show "no_commit s s'"
    using assms
    by (auto simp: sendToDLQ_def Let_def dest!: Forward_no_commit intro: no_commit_trans
        split: prod.splits option.splits if_splits)
  show "r = None \<longrightarrow> dead_lettered msg s'"
    using assms
    by (auto simp: sendToDLQ_def Let_def dead_lettered_def dest!: Forward_dids
        split: prod.splits option.splits if_splits)
qed

definition retried :: "crawl_job \<Rightarrow> (act, 'w) sys \<Rightarrow> bool" where
  "retried job s \<longleftrightarrow>
     (\<exists>job'. retry_accepted job' s \<and> job_id job' = job_id job
        \<and> job_target job' = job_target job \<and> job_max_retries job' = job_max_retries job
        \<and> job_retry_count job' = job_retry_count job + 1)"

lemma requeueWithRetry_quiet:
  assumes "requeueWithRetry env job reason s = (r, s')"
  shows "no_commit s s' \<and> (r = None \<longrightarrow> retried job s')"
  using assms
  by (auto simp: requeueWithRetry_def Let_def retried_def
      dest!: retry_enqueue_no_commit intro: no_commit_trans
      split: prod.splits option.splits if_splits)

section \<open>When a message is committed\<close>

definition content_published :: "'w fetch_env \<Rightarrow> crawl_job \<Rightarrow> content \<Rightarrow> (act, 'w) sys \<Rightarrow> bool" where
  "content_published env job c s \<longleftrightarrow>
     did (StoreContent (canonical_content env c)) s
     \<and> (\<exists>m. did (Publish m) s \<and> m_topic m = TopicNormalized
          \<and> m_key m = partition_key (canonical_content env c)
          \<and> hget (m_headers m) ''job_id'' = job_id job)"

definition delivered :: "'w fetch_env \<Rightarrow> crawl_job \<Rightarrow> (act, 'w) sys \<Rightarrow> bool" where
  "delivered env job s \<longleftrightarrow>
     (\<exists>cs hs w. did (HandleJob job) s \<and> fst (fe_handle env hs job w) = Inr cs
        \<and> (\<forall>c \<in> set cs. content_published env job c s))"

text \<open>
  The three ways a job is settled: dead-lettered, handed to the retry scheduler with one more
  retry counted and within its limit, or handled with every content stored and published.
\<close>

definition settled :: "'w fetch_env \<Rightarrow> message \<Rightarrow> crawl_job \<Rightarrow> (act, 'w) sys \<Rightarrow> bool" where
  "settled env msg job s \<longleftrightarrow>
     dead_lettered msg s
     \<or> (retried job s \<and> job_retry_count job < job_max_retries job)
     \<or> delivered env job s"

lemma retried_grows: "retried job s \<Longrightarrow> grows s s' \<Longrightarrow> retried job s'"
  unfolding retried_def retry_accepted_def using grows_did by blast

lemma content_published_grows:
  "content_published env job c s \<Longrightarrow> grows s s' \<Longrightarrow> content_published env job c s'"
  unfolding content_published_def using grows_did by blast

lemma delivered_grows: "delivered env job s \<Longrightarrow> grows s s' \<Longrightarrow> delivered env job s'"
  unfolding delivered_def using content_published_grows grows_did by metis

lemma settled_grows: "settled env msg job s \<Longrightarrow> grows s s' \<Longrightarrow> settled env msg job s'"
  unfolding settled_def using dead_lettered_grows retried_grows delivered_grows by metis

lemma settled_commit:
  assumes "no_commit s s1" and "CommitWithDrain io msg s1 = (r, s')" and "settled env msg job s1"
  shows "commits_only msg (settled env msg job) s s'"
  using assms by (rule commits_only_commit) (rule settled_grows)

lemma requeueGateSkip_commits:
  assumes "requeueGateSkip env msg job s = (r, s')"
  shows "commits_only msg (settled env msg job) s s'"
proof (cases "job_max_retries job \<le> job_retry_count job")
  case True
  obtain a s1 where d: "sendToDLQ env msg (Sentinel StageGateHeld) s = (a, s1)" by (rule prod.exhaust)
  note q = sendToDLQ_quiet [OF d]
  show ?thesis
  proof (cases a)
    case None
    obtain b s2 where c: "CommitWithDrain (fe_io env) msg s1 = (b, s2)" by (rule prod.exhaust)
    have "settled env msg job s1" using q None by (simp add: settled_def)
    from settled_commit [OF _ c this] q show ?thesis
      using assms True d None c by (simp add: requeueGateSkip_def)
  next
    case (Some e)
    then show ?thesis
      using assms True d q by (simp add: requeueGateSkip_def commits_only_quiet)
  qed
next
  case False
  define job' where "job' = job\<lparr>job_retry_count := job_retry_count job + 1,
    job_scheduled_at := fe_now env (fst s) + GateSkipRetryDelay\<rparr>"
  obtain a s1 where d: "retry_enqueue (fe_delayed_retry env) (fe_io env) (fe_pub env) job'
      (Some (Sentinel StageGateHeld)) s = (a, s1)" by (rule prod.exhaust)
  note q = retry_enqueue_no_commit [OF d]
  show ?thesis
  proof (cases a)
    case None
    obtain b s2 where c: "CommitWithDrain (fe_io env) msg s1 = (b, s2)" by (rule prod.exhaust)
    have "retry_accepted job' s1" using q None by simp
    then have "retried job s1" unfolding retried_def by (intro exI [of _ job']) (simp add: job'_def)
    then have "settled env msg job s1" using False by (simp add: settled_def)
    from settled_commit [OF _ c this] q show ?thesis
      using assms False d None c by (simp add: requeueGateSkip_def job'_def [symmetric])
  next
    case (Some e)
    then show ?thesis
      using assms False d q by (simp add: requeueGateSkip_def job'_def [symmetric] commits_only_quiet)
  qed
qed

lemma handle_failed_commits:
  assumes "handle_failed env msg job err s = (r, s')"
  shows "commits_only msg (settled env msg job) s s'"
proof -
  obtain a s1 where d: "(if job_max_retries job \<le> job_retry_count job then sendToDLQ env msg err s
            else requeueWithRetry env job err s) = (a, s1)" by (rule prod.exhaust)
  have q: "no_commit s s1" "a = None \<Longrightarrow> settled env msg job s1"
    using d sendToDLQ_quiet [of env msg err s a s1] requeueWithRetry_quiet [of env job err s a s1]
    by (auto simp: settled_def split: if_splits)
  show ?thesis
  proof (cases a)
    case None
    obtain b s2 where c: "CommitWithDrain (fe_io env) msg s1 = (b, s2)" by (rule prod.exhaust)
    from settled_commit [OF q(1) c q(2) [OF None]] show ?thesis
      using assms d None c by (simp add: handle_failed_def)
  next
    case (Some e)
    then show ?thesis
      using assms d q by (simp add: handle_failed_def commits_only_quiet)
  qed
qed

lemma publishNormalized_quiet:
  assumes "publishNormalized env c job s = (r, s')"
  shows "no_commit s s' \<and> (r = None \<longrightarrow> content_published env job c s')"
proof -
  obtain v s1 where st: "perform_val (fe_store env (canonical_content env c))
      (StoreContent (canonical_content env c)) s = (v, s1)" by (rule prod.exhaust)
  note q = perform_dids(2) [OF st] perform_val_no_commit [OF st]
  show ?thesis
  proof (cases v)
    case (Inl e)
    then show ?thesis using assms st q(2) by (auto simp: publishNormalized_def Let_def)
  next
    case (Inr i)
    have stored: "did (StoreContent (canonical_content env c)) s1" using q(1) Inr by simp
    have "no_commit s1 s'"
      using assms st Inr
      by (auto simp: publishNormalized_def Let_def dest!: Forward_no_commit split: sum.splits)
    moreover have "r = None \<longrightarrow> content_published env job c s'"
      using assms st Inr stored
      by (auto simp: publishNormalized_def Let_def content_published_def hget_def
          dest!: Forward_dids split: sum.splits)
    ultimately show ?thesis
      using q(2) no_commit_trans by blast
  qed
qed

lemma publish_contents_quiet:
  "publish_contents env cs job s = (r, s') \<Longrightarrow>
     no_commit s s' \<and> (r = None \<longrightarrow> (\<forall>c \<in> set cs. content_published env job c s'))"
proof (induction cs arbitrary: s)
  case (Cons c cs)
  obtain a s1 where p: "publishNormalized env c job s = (a, s1)" by (rule prod.exhaust)
  note q = publishNormalized_quiet [OF p]
  show ?case
  proof (cases a)
    case None
    then have "publish_contents env cs job s1 = (r, s')" using Cons.prems p by simp
    from Cons.IH [OF this] q None show ?thesis
      by (auto intro: no_commit_trans content_published_grows no_commit_grows)
  next
    case (Some e)
    then show ?thesis using Cons.prems p q by auto
  qed
qed simp

lemma run_job_commits:
  assumes "run_job env msg job (s, reg) = (r, (s', reg'))"
  shows "commits_only msg (settled env msg job) s s'"
proof -
  obtain ok reg1 where al: "registry_allow (fe_now env (fst s)) (job_crawler job) reg = (ok, reg1)"
    by (rule prod.exhaust)
  show ?thesis
  proof (cases ok)
    case False
    obtain a s1 where d: "sendToDLQ env msg (CircuitOpen (job_crawler job)) s = (a, s1)"
      by (rule prod.exhaust)
    note q = sendToDLQ_quiet [OF d]
    show ?thesis
    proof (cases a)
      case None
      obtain b s2 where c: "CommitWithDrain (fe_io env) msg s1 = (b, s2)" by (rule prod.exhaust)
      have "settled env msg job s1" using q None by (simp add: settled_def)
      from settled_commit [OF _ c this] q show ?thesis
        using assms al False d None c by (simp add: run_job_def)
    next
      case (Some e)
      then show ?thesis using assms al False d q by (simp add: run_job_def commits_only_quiet)
    qed
  next
    case True
    obtain v s1 where h: "perform_val (fe_handle env (WithInboxHeaders None (m_headers msg)) job)
        (HandleJob job) s = (v, s1)" by (rule prod.exhaust)
    have q: "no_commit s s1" using h by (rule perform_val_no_commit) simp
    have v: "v = fst (fe_handle env (WithInboxHeaders None (m_headers msg)) job (fst s))"
      using h by (auto simp: perform_val_def Let_def split: prod.splits)
    show ?thesis
    proof (cases v)
      case (Inl err)
      obtain a s2 where f: "handle_failed env msg job err s1 = (a, s2)" by (rule prod.exhaust)
      from commits_only_before [OF q handle_failed_commits [OF f]] show ?thesis
        using assms al True h Inl f by (simp add: run_job_def Let_def)
    next
      case (Inr cs)
      obtain a s2 where p: "publish_contents env cs job s1 = (a, s2)" by (rule prod.exhaust)
      note pq = publish_contents_quiet [OF p]
      have q2: "no_commit s s2" using q pq no_commit_trans by blast
      show ?thesis
      proof (cases a)
        case None
        obtain b s3 where c: "CommitWithDrain (fe_io env) msg s2 = (b, s3)" by (rule prod.exhaust)
        have "did (HandleJob job) s1" using perform_dids(2) [OF h] Inr by simp
        then have "did (HandleJob job) s2" using pq grows_did no_commit_grows by blast
        then have "delivered env job s2"
          unfolding delivered_def using pq None v Inr by metis
        then have "settled env msg job s2" by (simp add: settled_def)
        from settled_commit [OF q2 c this] show ?thesis
          using assms al True h Inr p None c by (auto simp: run_job_def Let_def split: if_splits)
      next
        case (Some e)
        then have "cs \<noteq> []" using p by auto
        then show ?thesis
          using assms al True h Inr p Some q2 by (simp add: run_job_def Let_def commits_only_quiet)
      qed
    qed
  qed
qed

lemma gated_job_commits:
  assumes "gated_job env msg job (s, reg) = (r, (s', reg'))"
  shows "commits_only msg (settled env msg job) s s'"
proof -
  let ?url = "tg_url (job_target job)"
  obtain v s1 where g: "perform_val (fe_acquire env ?url) (GateAcquire ?url) s = (v, s1)"
    by (rule prod.exhaust)
  have q: "no_commit s s1" using g by (rule perform_val_no_commit) simp
  obtain rr sr regr where run: "run_job env msg job (s1, reg) = (rr, (sr, regr))"
    by (metis prod.exhaust)
  note qr = commits_only_before [OF q run_job_commits [OF run]]
  obtain sk rk where skip: "requeueGateSkip env msg job s1 = (rk, sk)" by (metis prod.exhaust)
  note qk = commits_only_before [OF q requeueGateSkip_commits [OF skip]]
  obtain a se where rel: "perform (fe_io env) (GateRelease ?url) sr = (a, se)" by (rule prod.exhaust)
  have qe: "no_commit sr se" using rel by (rule perform_no_commit) simp
  have qf: "commits_only msg (settled env msg job) s se"
    using qr qe by (rule commits_only_after) (rule settled_grows)
  show ?thesis
    using assms g run skip rel qr qk qf commits_only_quiet [OF q]
    by (auto simp: gated_job_def Let_def split: sum.splits if_splits)
qed

text \<open>A job whose URL the gate or the precheck refuses.\<close>

definition blocked :: "'w fetch_env \<Rightarrow> 'w \<Rightarrow> crawl_job \<Rightarrow> bool" where
  "blocked env w job \<longleftrightarrow>
     (\<exists>g. fe_gate env = Some g \<and> \<not> g (tg_url (job_target job)))
     \<or> (\<exists>d. fe_precheck env = Some d \<and> d w (tg_url (job_target job)) = VerdictDrop)"

lemma processJob_commits:
  assumes "processJob env msg job (s, reg) = (r, (s', reg'))"
  shows "if blocked env (fst s) job then commits_only msg (\<lambda>_. True) s s'
         else commits_only msg (settled env msg job) s s'"
proof (cases "blocked env (fst s) job")
  case True
  obtain b s1 where c: "CommitWithDrain (fe_io env) msg s = (b, s1)" by (rule prod.exhaust)
  have "commits_only msg (\<lambda>_. True) s s1" using commits_only_commit [OF no_commit_refl c, of "\<lambda>_. True"] by simp
  then show ?thesis
    using assms True c
    by (auto simp: processJob_def blocked_def Let_def split: option.splits if_splits)
next
  case False
  let ?delay = "job_scheduled_at job - fe_now env (fst s)"
  obtain a s1 where w: "perform (fe_io env) (WaitDelay ?delay) s = (a, s1)" by (rule prod.exhaust)
  have q: "no_commit s s1" using w by (rule perform_no_commit) simp
  have nb: "processJob env msg job (s, reg) =
      (if ?delay > 0 then case a of Some e \<Rightarrow> (Some e, (s1, reg)) | None \<Rightarrow> gated_job env msg job (s1, reg)
       else gated_job env msg job (s, reg))"
    using False w by (auto simp: processJob_def blocked_def Let_def split: option.splits)
  show ?thesis
    using assms False nb q
    by (auto split: if_splits option.splits
        intro: gated_job_commits commits_only_before [OF q] commits_only_quiet)
qed

lemma fetch_handle_commits:
  assumes "fetch_handle env msg (s, reg) = (s', reg')"
  shows "case fe_unmarshal env (m_value msg) of
           Inl e \<Rightarrow> commits_only msg (dead_lettered msg) s s'
         | Inr job0 \<Rightarrow> (let job = normalized_job env job0 in
             if blocked env (fst s) job then commits_only msg (\<lambda>_. True) s s'
             else commits_only msg (settled env msg job) s s')"
proof (cases "fe_unmarshal env (m_value msg)")
  case (Inl e)
  obtain a s1 where d: "sendToDLQ env msg e s = (a, s1)" by (rule prod.exhaust)
  note q = sendToDLQ_quiet [OF d]
  obtain b s2 where c: "CommitWithDrain (fe_io env) msg s1 = (b, s2)" by (rule prod.exhaust)
  have "a = None \<Longrightarrow> commits_only msg (dead_lettered msg) s s2"
    using q c by (intro commits_only_commit) (auto intro: dead_lettered_grows)
  then show ?thesis
    using assms Inl d c q by (auto simp: fetch_handle_def commits_only_quiet split: option.splits)
next
  case (Inr job0)
  then have "snd (processJob env msg (normalized_job env job0) (s, reg)) = (s', reg')"
    using assms by (simp add: fetch_handle_def)
  then obtain r where "processJob env msg (normalized_job env job0) (s, reg) = (r, (s', reg'))"
    by (metis prod.collapse)
  from processJob_commits [OF this] Inr show ?thesis by (simp add: Let_def)
qed

section \<open>When everything works\<close>

text \<open>Every external call of the worker succeeds; the handler itself may still fail.\<close>

definition calls_succeed :: "'w fetch_env \<Rightarrow> bool" where
  "calls_succeed env \<longleftrightarrow>
     (\<forall>a w. fst (fe_io env a w) = None)
     \<and> (\<forall>c w. \<exists>i. fst (fe_store env c w) = Inr i)
     \<and> (\<forall>u w. \<exists>b. fst (fe_acquire env u w) = Inr b)
     \<and> (\<forall>x. \<exists>b. fe_marshal_ref env x = Inr b) \<and> (\<forall>x. \<exists>b. fe_marshal_pm env x = Inr b)
     \<and> pub_wired (fe_pub env) \<and> (\<forall>j. \<exists>b. pub_marshal (fe_pub env) j = Inr b)"

lemma io_ok:
  assumes "\<forall>a w. fst (io a w) = None"
  shows "\<exists>s'. perform io a s = (None, s')" "\<exists>s'. CommitWithDrain io m s = (None, s')"
  using assms [rule_format, of a "fst s"] assms [rule_format, of "Commit m" "fst s"]
  by (auto simp: perform_def CommitWithDrain_def Let_def split: prod.splits)

lemma calls_commit:
  assumes "calls_succeed env"
  shows "\<exists>s'. CommitWithDrain (fe_io env) m s = (None, s') \<and> did (Commit m) s'"
proof -
  obtain s' where c: "CommitWithDrain (fe_io env) m s = (None, s')"
    using assms io_ok(2) [of "fe_io env" m s] by (auto simp: calls_succeed_def)
  from CommitWithDrain_dids [OF c] c show ?thesis by blast
qed

lemma calls_commit_snd:
  "calls_succeed env \<Longrightarrow> did (Commit m) (snd (CommitWithDrain (fe_io env) m s))"
  using calls_commit [of env m s] by auto

lemma Forward_ok:
  assumes "calls_succeed env"
  shows "\<exists>s'. Forward (fe_io env) (Some (fe_pub env)) m s = (None, s')"
  using assms io_ok(1) [of "fe_io env" "Publish m" s] by (auto simp: calls_succeed_def Forward_def)

lemma sendToDLQ_ok:
  assumes "calls_succeed env"
  shows "\<exists>s'. sendToDLQ env msg reason s = (None, s')"
proof -
  let ?m = "new_message TopicDLQ (m_key msg) (m_value msg)
    ((m_headers msg)(''original-topic'' \<mapsto> m_topic msg, ''error'' \<mapsto> error_text reason))"
  obtain s' where "Forward (fe_io env) (Some (fe_pub env)) ?m s = (None, s')"
    using Forward_ok [OF assms] by blast
  then show ?thesis by (simp add: sendToDLQ_def Let_def)
qed

lemma retry_enqueue_ok:
  assumes "calls_succeed env"
  shows "\<exists>s'. retry_enqueue d (fe_io env) (fe_pub env) job le s = (None, s')"
proof -
  obtain b where b: "pub_marshal (fe_pub env)
      (case pub_resolver (fe_pub env) of None \<Rightarrow> job | Some f \<Rightarrow> job\<lparr>job_priority := f job\<rparr>) = Inr b"
    using assms by (fastforce simp: calls_succeed_def)
  then obtain m where m: "buildMessage (fe_pub env) job = Inr m"
    by (simp add: buildMessage_def Let_def)
  obtain s' where "Forward (fe_io env) (Some (fe_pub env))
      (m\<lparr>m_headers := applyRetryHeaders job le (m_headers m)\<rparr>) s = (None, s')"
    using Forward_ok [OF assms] by blast
  then show ?thesis
    using m assms io_ok(1) [of "fe_io env" "EnqueueRetry job le" s]
    by (auto simp: retry_enqueue_def kafka_immediate_enqueue_def calls_succeed_def)
qed

lemma requeueWithRetry_ok:
  assumes "calls_succeed env"
  shows "\<exists>s'. requeueWithRetry env job reason s = (None, s')"
  using retry_enqueue_ok [OF assms] unfolding requeueWithRetry_def Let_def
  by (metis (mono_tags, lifting) case_prod_conv option.simps(4))

lemma handle_failed_ok:
  assumes "calls_succeed env"
  shows "did (Commit msg) (snd (handle_failed env msg job err s))"
proof -
  obtain s1 where "(if job_max_retries job \<le> job_retry_count job then sendToDLQ env msg err s
      else requeueWithRetry env job err s) = (None, s1)"
    using sendToDLQ_ok [OF assms, of msg err s] requeueWithRetry_ok [OF assms, of job err s]
    by (cases "job_max_retries job \<le> job_retry_count job") auto
  moreover obtain s2 where "CommitWithDrain (fe_io env) msg s1 = (None, s2) \<and> did (Commit msg) s2"
    using calls_commit [OF assms] by blast
  ultimately show ?thesis by (simp add: handle_failed_def)
qed

lemma publishNormalized_ok:
  assumes "calls_succeed env"
  shows "\<exists>s'. publishNormalized env c job s = (None, s')"
proof -
  obtain i where "fst (fe_store env (canonical_content env c) (fst s)) = Inr i"
    using assms unfolding calls_succeed_def by blast
  then obtain s1 where "perform_val (fe_store env (canonical_content env c))
      (StoreContent (canonical_content env c)) s = (Inr i, s1)"
    using perform_val_eq by metis
  moreover obtain f where "\<And>x. fe_marshal_ref env x = Inr (f x)"
    using assms unfolding calls_succeed_def by metis
  moreover obtain g where "\<And>x. fe_marshal_pm env x = Inr (g x)"
    using assms unfolding calls_succeed_def by metis
  ultimately show ?thesis
    by (simp add: publishNormalized_def Let_def Forward_ok [OF assms, unfolded split_paired_Ex])
qed

lemma publish_contents_ok:
  assumes "calls_succeed env"
  shows "\<exists>s'. publish_contents env cs job s = (None, s')"
proof (induction cs arbitrary: s)
  case (Cons c cs)
  then show ?case using publishNormalized_ok [OF assms, of c job s] by force
qed simp

lemma run_job_ok:
  assumes "calls_succeed env"
  shows "did (Commit msg) (fst (snd (run_job env msg job (s, reg))))"
proof -
  obtain ok reg1 where al: "registry_allow (fe_now env (fst s)) (job_crawler job) reg = (ok, reg1)"
    by (rule prod.exhaust)
  obtain v s1 where h: "perform_val (fe_handle env (WithInboxHeaders None (m_headers msg)) job)
      (HandleJob job) s = (v, s1)" by (rule prod.exhaust)
  obtain sd where d: "sendToDLQ env msg (CircuitOpen (job_crawler job)) s = (None, sd)"
    using sendToDLQ_ok [OF assms] by blast
  obtain sp where p: "publish_contents env (projr v) job s1 = (None, sp)"
    using publish_contents_ok [OF assms] by blast
  note c = calls_commit_snd [OF assms] and f = handle_failed_ok [OF assms]
  show ?thesis
  proof (cases ok)
    case False
    then show ?thesis using al d c by (simp add: run_job_def)
  next
    case True
    show ?thesis
    proof (cases v)
      case (Inl e)
      then show ?thesis using al True h f by (simp add: run_job_def Let_def split_beta)
    next
      case (Inr cs)
      then show ?thesis using al True h p c by (simp add: run_job_def Let_def split_beta)
    qed
  qed
qed

lemma requeueGateSkip_ok:
  assumes "calls_succeed env"
  shows "did (Commit msg) (snd (requeueGateSkip env msg job s))"
proof -
  obtain sd where d: "sendToDLQ env msg (Sentinel StageGateHeld) s = (None, sd)"
    using sendToDLQ_ok [OF assms] by blast
  define job' where "job' = job\<lparr>job_retry_count := job_retry_count job + 1,
    job_scheduled_at := fe_now env (fst s) + GateSkipRetryDelay\<rparr>"
  obtain sq where q: "retry_enqueue (fe_delayed_retry env) (fe_io env) (fe_pub env) job'
      (Some (Sentinel StageGateHeld)) s = (None, sq)"
    using retry_enqueue_ok [OF assms] by blast
  obtain t1 t2 where t: "CommitWithDrain (fe_io env) msg sd = (None, t1)" "did (Commit msg) t1"
    "CommitWithDrain (fe_io env) msg sq = (None, t2)" "did (Commit msg) t2"
    using calls_commit [OF assms] by metis
  show ?thesis
    using d q t by (simp add: requeueGateSkip_def job'_def [symmetric])
qed

lemma gated_job_ok:
  assumes "calls_succeed env"
  shows "did (Commit msg) (fst (snd (gated_job env msg job (s, reg))))"
proof -
  let ?url = "tg_url (job_target job)"
  obtain b where "fst (fe_acquire env ?url (fst s)) = Inr b"
    using assms unfolding calls_succeed_def by blast
  then obtain s1 where g: "perform_val (fe_acquire env ?url) (GateAcquire ?url) s = (Inr b, s1)"
    using perform_val_eq by metis
  obtain r s2 reg2 where run: "run_job env msg job (s1, reg) = (r, (s2, reg2))"
    by (metis prod.exhaust)
  have c: "did (Commit msg) s2" using run_job_ok [OF assms, of msg job s1 reg] run by simp
  obtain a s3 where rel: "perform (fe_io env) (GateRelease ?url) s2 = (a, s3)" by (rule prod.exhaust)
  have c3: "did (Commit msg) s3" using perform_dids(1) [OF rel] c by simp
  show ?thesis
  proof (cases b)
    case True
    then show ?thesis using g run rel c3 by (simp add: gated_job_def Let_def)
  next
    case False
    then show ?thesis
      using g requeueGateSkip_ok [OF assms, of msg job s1]
      by (simp add: gated_job_def Let_def split_beta)
  qed
qed

lemma processJob_ok:
  assumes "calls_succeed env"
  shows "did (Commit msg) (fst (snd (processJob env msg job (s, reg))))"
proof -
  obtain t where t: "CommitWithDrain (fe_io env) msg s = (None, t)" "did (Commit msg) t"
    using calls_commit [OF assms] by blast
  let ?delay = "job_scheduled_at job - fe_now env (fst s)"
  obtain s1 where w: "perform (fe_io env) (WaitDelay ?delay) s = (None, s1)"
    using io_ok(1) [of "fe_io env"] assms by (metis calls_succeed_def)
  show ?thesis
    using t w gated_job_ok [OF assms] by (simp add: processJob_def Let_def)
qed

lemma fetch_handle_ok:
  assumes "calls_succeed env"
  shows "did (Commit msg) (fst (fetch_handle env msg (s, reg)))"
proof (cases "fe_unmarshal env (m_value msg)")
  case (Inl e)
  obtain s1 where "sendToDLQ env msg e s = (None, s1)" using sendToDLQ_ok [OF assms] by blast
  then show ?thesis using Inl calls_commit_snd [OF assms] by (simp add: fetch_handle_def)
next
  case (Inr job)
  then show ?thesis
    using processJob_ok [OF assms, of msg "normalized_job env job" s reg]
    by (simp add: fetch_handle_def)
qed

text \<open>
  A small concrete environment: the clock stands at 100, every call succeeds, the handler
  returns one content, and the store works or not.
\<close>

definition sample_content :: content where
  "sample_content =
     \<lparr>c_id = [], c_source_id = ''naver'', c_source_type = ''news'', c_country = ''KR'',
      c_language = ''ko'', c_title = ''t'', c_body = ''b'', c_summary = [], c_author = [],
      c_published_at = None, c_updated_at = None, c_category = [], c_tags = [],
      c_url = ''http://a/1'', c_canonical_url = [], c_image_urls = [], c_content_hash = [],
      c_word_count = 0, c_reliability = 0, c_article = True, c_extra = Map.empty, c_created_at = 0\<rparr>"

definition sample_job :: crawl_job where
  "sample_job =
     \<lparr>job_id = ''j1'', job_crawler = ''naver'',
      job_target = \<lparr>tg_url = ''http://a/1'', tg_type = TargetTypeArticle, tg_meta = Map.empty\<rparr>,
      job_priority = 2, job_scheduled_at = 0, job_timeout = 30 * second,
      job_retry_count = 0, job_max_retries = 3\<rparr>"

definition sample_msg :: message where
  "sample_msg = new_message TopicCrawlNormal ''j1'' ''{}'' Map.empty"

definition sample_env :: "bool \<Rightarrow> nat fetch_env" where
  "sample_env store_ok =
     \<lparr>fe_io = \<lambda>a w. (None, w + 1), fe_handle = \<lambda>hs j w. (Inr [sample_content], w + 1),
      fe_store = \<lambda>c w. (if store_ok then Inr ''id'' else Inl (Opaque ''db down''), w + 1),
      fe_acquire = \<lambda>u w. (Inr True, w + 1), fe_now = \<lambda>w. 100, fe_ctx_err = \<lambda>w. None,
      fe_rand = \<lambda>w. 0, fe_unmarshal = \<lambda>b. Inr sample_job, fe_marshal_ref = \<lambda>r. Inr [],
      fe_marshal_pm = \<lambda>r. Inr [], fe_normalizer = None, fe_gate = None, fe_precheck = None,
      fe_delayed_retry = True,
      fe_pub = \<lparr>pub_wired = True, pub_resolver = None, pub_marshal = \<lambda>j. Inr []\<rparr>\<rparr>"

lemma sample_env_ok: "calls_succeed (sample_env True)"
  by (auto simp: calls_succeed_def sample_env_def)

section \<open>Properties\<close>

text \<open>C1. At-least-once: a fetcher worker commits no offset but that of the message it handles, and
  only after the message is settled. If the message does not decode it has been dead-lettered;
  if its URL is refused by the gate or the precheck it is dropped; otherwise it has been
  dead-lettered, or its job handed to the retry scheduler with its retry count one higher and
  still within max_retries, or the handler returned contents that are all stored and published
  to the normalized topic. This holds for every answer of Kafka, Redis, the handler and the store.\<close>
theorem fetch_commits_only_settled:
  assumes "fetch_handle env msg ((w, []), reg) = (s', reg')" and "did (Commit m) s'"
  shows "m = msg
    \<and> (case fe_unmarshal env (m_value msg) of
         Inl e \<Rightarrow> dead_lettered msg s'
       | Inr job \<Rightarrow> blocked env w (normalized_job env job)
                     \<or> settled env msg (normalized_job env job) s')"
  using fetch_handle_commits [OF assms(1)] assms(2)
  by (auto simp: commits_only_def Let_def split: sum.splits if_splits)

theorem fetch_commits_only_settled_witness:
  "settled (sample_env True) sample_msg sample_job
     (fst (fetch_handle (sample_env True) sample_msg ((0, []), new_registry default_cb_config)))"
proof -
  obtain s' reg' where r: "fetch_handle (sample_env True) sample_msg
      ((0, []), new_registry default_cb_config) = (s', reg')" by (rule prod.exhaust)
  moreover have "did (Commit sample_msg) s'"
    using fetch_handle_ok [OF sample_env_ok, of sample_msg "(0, [])" "new_registry default_cb_config"] r
    by simp
  moreover have "normalized_job (sample_env True) sample_job = sample_job"
    by (simp add: normalized_job_def normalizeURL_def sample_env_def)
  ultimately show ?thesis
    using fetch_commits_only_settled [OF r]
    by (auto simp: sample_env_def blocked_def)
qed

text \<open>When every external call succeeds the worker does commit the message, whatever the
  handler answers and in whatever state the circuit breakers are.\<close>
theorem fetch_commits_when_calls_succeed:
  assumes "calls_succeed env"
  shows "did (Commit msg) (fst (fetch_handle env msg (s, reg)))"
  using assms by (rule fetch_handle_ok)

theorem fetch_commits_when_calls_succeed_witness:
  "did (Commit sample_msg)
     (fst (fetch_handle (sample_env True) sample_msg ((0, []), new_registry default_cb_config)))"
  using fetch_commits_when_calls_succeed [OF sample_env_ok] .

text \<open>A defect: when the probe job of a source whose breaker is not closed fetches contents but
  one of them cannot be stored or published, processJob returns without reporting to the breaker.
  The half-open breaker then refuses every later job of that source: no handler is called for it
  and its breaker never changes again, whatever the time, the message and the answers of the
  environment.\<close>
theorem publish_failure_wedges_breaker:
  assumes "cb_state (breaker_of reg (job_crawler job)) \<noteq> CbClosed"
    and "fst (registry_allow (fe_now env (fst s)) (job_crawler job) reg)"
    and "perform_val (fe_handle env (WithInboxHeaders None (m_headers msg)) job) (HandleJob job) s
           = (Inr (c # cs), s1)"
    and "publish_contents env (c # cs) job s1 = (Some err, s2)"
    and "job_crawler job' = job_crawler job"
  shows "\<exists>reg2. run_job env msg job (s, reg) = (Some err, (s2, reg2))
    \<and> (\<forall>reg3 env' msg' t. breaker_of reg3 (job_crawler job) = breaker_of reg2 (job_crawler job) \<longrightarrow>
         (let (r, (t', reg4)) = run_job env' msg' job' (t, reg3)
          in r \<noteq> None \<and> (\<forall>j. did (HandleJob j) t' \<longleftrightarrow> did (HandleJob j) t)
             \<and> breaker_of reg4 (job_crawler job) = breaker_of reg2 (job_crawler job)))"
proof -
  let ?src = "job_crawler job"
  define reg2 where "reg2 = snd (registry_allow (fe_now env (fst s)) ?src reg)"
  have run: "run_job env msg job (s, reg) = (Some err, (s2, reg2))"
    using assms(2-4) by (auto simp: run_job_def Let_def reg2_def split_beta)
  have half: "cb_state (breaker_of reg2 ?src) = CbHalfOpen" "probe_active (breaker_of reg2 ?src)"
    using assms(1,2) by (auto simp: reg2_def registry_ops cb_allow_def split: cb_state.splits if_splits)
  have later: "r \<noteq> None \<and> (\<forall>j. did (HandleJob j) t' \<longleftrightarrow> did (HandleJob j) t)
        \<and> breaker_of reg4 ?src = breaker_of reg2 ?src"
    if same: "breaker_of reg3 ?src = breaker_of reg2 ?src"
      and r: "run_job env' msg' job' (t, reg3) = (r, (t', reg4))"
    for reg3 and env' :: "'b fetch_env" and msg' t r t' reg4
  proof -
    let ?al = "registry_allow (fe_now env' (fst t)) ?src reg3"
    have busy: "cb_allow u (breaker_of reg3 ?src) = (False, breaker_of reg3 ?src)" for u
      using half same by (simp add: cb_allow_probe_busy)
    define rega where "rega = snd ?al"
    have "fst ?al = False" using busy by (simp add: registry_ops)
    then have al: "?al = (False, rega)" by (simp add: rega_def prod_eq_iff)
    have b_al: "breaker_of rega ?src = breaker_of reg2 ?src"
      using busy same by (simp add: rega_def registry_ops)
    obtain a t1 where d: "sendToDLQ env' msg' (CircuitOpen ?src) t = (a, t1)" by (rule prod.exhaust)
    obtain b t2 where c: "CommitWithDrain (fe_io env') msg' t1 = (b, t2)" by (rule prod.exhaust)
    have h: "did (HandleJob j) t1 \<longleftrightarrow> did (HandleJob j) t" for j
      using d by (auto simp: sendToDLQ_def Let_def dest!: Forward_dids
          split: prod.splits option.splits if_splits)
    have "did (HandleJob j) t2 \<longleftrightarrow> did (HandleJob j) t" for j
      using h CommitWithDrain_dids [OF c] by simp
    moreover have "run_job env' msg' job' (t, reg3) =
        (case a of
           Some e \<Rightarrow> (Some (Wrapped (''circuit open dlq for job '' @ job_id job') e), (t1, rega))
         | None \<Rightarrow> (Some (CircuitOpen ?src), (t2, rega)))"
      using al d c by (simp add: run_job_def Let_def assms(5) split: option.split)
    ultimately show ?thesis
      using r h b_al by (cases a) auto
  qed
  have "let (r, (t', reg4)) = run_job env' msg' job' (t, reg3)
        in r \<noteq> None \<and> (\<forall>j. did (HandleJob j) t' \<longleftrightarrow> did (HandleJob j) t)
           \<and> breaker_of reg4 ?src = breaker_of reg2 ?src"
    if same: "breaker_of reg3 ?src = breaker_of reg2 ?src"
    for reg3 and env' :: "'b fetch_env" and msg' t
  proof -
    obtain r t' reg4 where r: "run_job env' msg' job' (t, reg3) = (r, (t', reg4))"
      by (metis prod.exhaust)
    show ?thesis
      unfolding r Let_def prod.case by (rule later [OF same r])
  qed
  with run show ?thesis by blast
qed

theorem publish_failure_wedges_breaker_witness:
  "let reg = registry_failure 0 ''naver'' (new_registry \<lparr>max_failures = 1, open_timeout = 60\<rparr>);
       (r, (s, reg2)) = run_job (sample_env False) sample_msg sample_job ((0, []), reg)
   in \<not> did (HandleJob sample_job)
        (fst (snd (run_job (sample_env True) sample_msg sample_job ((0, []), reg2))))"
proof -
  define reg where "reg = registry_failure 0 ''naver'' (new_registry \<lparr>max_failures = 1, open_timeout = 60\<rparr>)"
  have b: "breaker_of reg ''naver'' =
      \<lparr>cb_config = \<lparr>max_failures = 1, open_timeout = 60\<rparr>, cb_source = ''naver'', cb_state = CbOpen,
       failures = 1, opened_at = 0, probe_active = False\<rparr>"
    by (simp add: reg_def registry_ops)
      (simp add: breaker_of_def registry_get_def new_registry_def new_circuit_breaker_def
        cb_record_failure_def Let_def)
  let ?env = "sample_env False"
  obtain s1 where h: "perform_val (fe_handle ?env (WithInboxHeaders None (m_headers sample_msg)) sample_job)
      (HandleJob sample_job) (0, []) = (Inr [sample_content], s1)"
    by (simp add: sample_env_def perform_val_def)
  obtain s2 err where p: "publish_contents ?env [sample_content] sample_job s1 = (Some err, s2)"
    by (simp add: publishNormalized_def sample_env_def perform_val_def Let_def)
  have "cb_state (breaker_of reg (job_crawler sample_job)) \<noteq> CbClosed"
    "fst (registry_allow (fe_now ?env (fst (0, [] :: (act \<times> go_error option) list))) (job_crawler sample_job) reg)"
    using b by (simp_all add: sample_job_def sample_env_def registry_ops cb_allow_def)
  from publish_failure_wedges_breaker [OF this h p refl] obtain reg2 where
    r2: "run_job ?env sample_msg sample_job ((0, []), reg) = (Some err, (s2, reg2))" and
    later: "\<And>(env' :: nat fetch_env) msg' t. (let (r, (t', reg4)) = run_job env' msg' sample_job (t, reg2)
      in r \<noteq> None \<and> (\<forall>j. did (HandleJob j) t' \<longleftrightarrow> did (HandleJob j) t)
         \<and> breaker_of reg4 (job_crawler sample_job) = breaker_of reg2 (job_crawler sample_job))"
    by blast
  show ?thesis
    using r2 later [of "sample_env True" sample_msg "(0, [])"]
    by (simp add: reg_def [symmetric] Let_def split_beta)
qed

end
