(* ===== verification/RulePages.thy ===== *)
theory RulePages
  imports RuleLookup Validation "HOL-Library.Multiset"
begin

text \<open>
  Parsing a page with a rule: field extraction (\<^verbatim>\<open>internal/processor/parser/rule/extract.go\<close>), pages and
  link lists (\<^verbatim>\<open>parser.go\<close>), link discovery (\<^verbatim>\<open>discovery.go\<close>) and the index-only heuristic
  (\<^verbatim>\<open>indexonly/indexonly.go\<close>). The HTML tree is a type \<open>'n\<close> with the operations of goquery the code
  calls; date parsing, regular expressions, the shuffle and URL functions are parameters.
\<close>

section \<open>Environment\<close>

record page =
  pg_url :: string
  pg_title :: string
  pg_main :: string
  pg_summary :: string
  pg_author :: string
  pg_published :: "gotime option"
  pg_category :: string
  pg_tags :: "string list"
  pg_images :: "string list"
  pg_article :: bool

record link_item =
  li_url :: string
  li_title :: string
  li_snippet :: string

record 'n rule_env =
  pn_lib :: url_lib
  pn_parse :: "string \<Rightarrow> go_error + 'n"
  pn_find :: "'n \<Rightarrow> string \<Rightarrow> 'n list"
  pn_text :: "'n \<Rightarrow> string"
  pn_attr :: "'n \<Rightarrow> string \<Rightarrow> string option"
  pn_layouts :: "string list"
  pn_time :: "string \<Rightarrow> string \<Rightarrow> gotime option"
  pn_regex :: regex_lib
  pn_shuffle :: "link_item list \<Rightarrow> link_item list"
  pn_fold_eq :: "string \<Rightarrow> string \<Rightarrow> bool"
  pn_demote :: bool

definition NormalizeHost :: "url_lib \<Rightarrow> string \<Rightarrow> string" where
  "NormalizeHost L rawURL = (case ul_parse L rawURL of Inl _ \<Rightarrow> [] | Inr u \<Rightarrow> ul_lower L (Hostname u))"

section \<open>Fields\<close>

definition hasRequiredSelector :: "'n rule_env \<Rightarrow> field_selector option \<Rightarrow> bool" where
  "hasRequiredSelector E fs = (case fs of None \<Rightarrow> False | Some f \<Rightarrow> ul_trim (pn_lib E) (fs_css f) \<noteq> [])"

definition validateRaw :: "'n rule_env \<Rightarrow> raw_content option \<Rightarrow> go_error option" where
  "validateRaw E raw =
     (if (case raw of None \<Rightarrow> False | Some r \<Rightarrow> ul_trim (pn_lib E) (rc_html r) \<noteq> []) then None
      else (let u = (case raw of None \<Rightarrow> [] | Some r \<Rightarrow> rc_url r)
            in Some (mk_rule_error ErrParseFailure ''raw content empty'' (NormalizeHost (pn_lib E) u) u [] None)))"

definition extractValue :: "'n rule_env \<Rightarrow> 'n \<Rightarrow> string \<Rightarrow> string" where
  "extractValue E sel attr =
     (if attr = [] then pn_text E sel else (case pn_attr E sel attr of None \<Rightarrow> [] | Some v \<Rightarrow> v))"

fun join_with :: "string \<Rightarrow> string list \<Rightarrow> string" where
  "join_with sep [] = []"
| "join_with sep [x] = x"
| "join_with sep (x # y # r) = x @ sep @ join_with sep (y # r)"

definition trimmed_values :: "'n rule_env \<Rightarrow> string \<Rightarrow> 'n list \<Rightarrow> string list" where
  "trimmed_values E attr sels =
     filter (\<lambda>v. v \<noteq> []) (map (\<lambda>sel. ul_trim (pn_lib E) (extractValue E sel attr)) sels)"

definition extractFromSelection :: "'n rule_env \<Rightarrow> 'n \<Rightarrow> field_selector \<Rightarrow> string" where
  "extractFromSelection E scope fs =
     (case pn_find E scope (fs_css fs) of
        [] \<Rightarrow> []
      | s # sels \<Rightarrow>
          if \<not> fs_multi fs then ul_trim (pn_lib E) (extractValue E s (fs_attr fs))
          else join_with [CHR 0x0A] (trimmed_values E (fs_attr fs) (s # sels)))"

definition extractField :: "'n rule_env \<Rightarrow> 'n \<Rightarrow> field_selector option \<Rightarrow> string" where
  "extractField E s fso =
     (case fso of
        None \<Rightarrow> []
      | Some fs \<Rightarrow> if fs_css fs = [] then [] else extractFromSelection E s fs)"

definition extractFieldMulti :: "'n rule_env \<Rightarrow> 'n \<Rightarrow> field_selector option \<Rightarrow> string list" where
  "extractFieldMulti E doc fso =
     (case fso of
        None \<Rightarrow> []
      | Some fs \<Rightarrow> if fs_css fs = [] then [] else trimmed_values E (fs_attr fs) (pn_find E doc (fs_css fs)))"

definition extractDate :: "'n rule_env \<Rightarrow> 'n \<Rightarrow> field_selector option \<Rightarrow> gotime option" where
  "extractDate E doc fs =
     (let raw = extractField E doc fs
      in if raw = [] then None else first_some (\<lambda>layout. pn_time E layout raw) (pn_layouts E))"

definition absoluteURL :: "url_lib \<Rightarrow> go_url option \<Rightarrow> string \<Rightarrow> go_error + string" where
  "absoluteURL L base link =
     (case base of
        None \<Rightarrow> Inr link
      | Some b \<Rightarrow>
         (case ul_parse L link of
            Inl err \<Rightarrow> Inl (Wrapped ''parse link'' err)
          | Inr ref \<Rightarrow> Inr (ul_string L (ul_resolve L b ref))))"

section \<open>Index-only pages\<close>

record index_config =
  ic_min_body :: int
  ic_min_ratio :: real
  ic_min_links :: int

record index_score =
  is_body_runes :: int
  is_body_short :: bool
  is_no_date :: bool
  is_link_ratio :: real
  is_high_ratio :: bool
  is_article_links :: int
  is_many_links :: bool

definition withDefaults :: "index_config \<Rightarrow> index_config" where
  "withDefaults c =
     (let c = (if ic_min_body c \<le> 0 then c\<lparr>ic_min_body := 200\<rparr> else c);
          c = (if ic_min_ratio c \<le> 0 then c\<lparr>ic_min_ratio := 8 / 10\<rparr> else c)
      in if ic_min_links c \<le> 0 then c\<lparr>ic_min_links := 5\<rparr> else c)"

text \<open>
  \<^verbatim>\<open>collapseWhitespace\<close> on the runes of its argument: what is kept before a rune, and whether it ended in a space.
\<close>

fun collapse :: "bool \<Rightarrow> int list \<Rightarrow> int list" where
  "collapse prevSpace [] = []"
| "collapse prevSpace (r # rs) =
     (if is_space_rune r
      then (if prevSpace then collapse True rs else 32 # collapse True rs)
      else r # collapse False rs)"

definition collapseWhitespace :: "string \<Rightarrow> int list" where
  "collapseWhitespace s = rev (dropWhile (\<lambda>r. r = 32) (rev (collapse True (runes s))))"

definition url_host :: "url_lib \<Rightarrow> string \<Rightarrow> string" where
  "url_host L rawURL = (case ul_parse L rawURL of Inl _ \<Rightarrow> [] | Inr u \<Rightarrow> ur_host u)"

definition isSameHostOrRelative :: "'n rule_env \<Rightarrow> go_url \<Rightarrow> string \<Rightarrow> bool" where
  "isSameHostOrRelative E u pageHost \<longleftrightarrow>
     (if ur_host u = [] then True else pageHost \<noteq> [] \<and> pn_fold_eq E (ur_host u) pageHost)"

definition isArticleLike :: "'n rule_env \<Rightarrow> go_url \<Rightarrow> string \<Rightarrow> bool" where
  "isArticleLike E u pageHost \<longleftrightarrow>
     (if ur_host u \<noteq> [] \<and> pageHost \<noteq> [] \<and> \<not> pn_fold_eq E (ur_host u) pageHost then False
      else list_ex (\<lambda>c. c \<noteq> CHR ''/'') (ul_trim (pn_lib E) (ur_path u)))"

text \<open>The loop over the anchors: text length, the links seen, their number.\<close>

definition count_anchor ::
  "'n rule_env \<Rightarrow> string \<Rightarrow> 'n \<Rightarrow> int \<times> string list \<times> int \<Rightarrow> int \<times> string list \<times> int" where
  "count_anchor E pageHost a st =
     (let (textLen, seen, links) = st
      in case pn_attr E a ''href'' of
           None \<Rightarrow> st
         | Some href0 \<Rightarrow>
             let href = ul_trim (pn_lib E) href0
             in if href = [] \<or> prefix ''#'' href \<or> prefix ''javascript:'' href \<or> prefix ''mailto:'' href then st
                else (case ul_parse (pn_lib E) href of
                        Inl _ \<Rightarrow> st
                      | Inr u \<Rightarrow>
                          if \<not> isSameHostOrRelative E u pageHost then st
                          else
                            let textLen' = textLen + int (length (collapseWhitespace (pn_text E a)))
                            in if \<not> isArticleLike E u pageHost \<or> href \<in> set seen then (textLen', seen, links)
                               else (textLen', href # seen, links + 1)))"

definition analyzeAnchors :: "'n rule_env \<Rightarrow> string \<Rightarrow> string \<Rightarrow> real \<times> int" where
  "analyzeAnchors E rawHTML0 pageURL =
     (let rawHTML = ul_trim (pn_lib E) rawHTML0
      in if rawHTML = [] then (0, 0)
         else (case pn_parse E rawHTML of
                 Inl _ \<Rightarrow> (0, 0)
               | Inr doc \<Rightarrow>
                   let bodySel = (if pn_find E doc ''body'' = [] then [doc] else pn_find E doc ''body'');
                       totalLen = int (length (collapseWhitespace (concat (map (pn_text E) bodySel))))
                   in if totalLen = 0 then (0, 0)
                      else
                        let anchors = concat (map (\<lambda>n. pn_find E n ''a[href]'') bodySel);
                            (textLen, _, links) =
                              fold (count_anchor E (url_host (pn_lib E) pageURL)) anchors (0, [], 0);
                            linkTextLen = (if textLen > totalLen then totalLen else textLen)
                        in (of_int linkTextLen / of_int totalLen, links)))"

definition IsIndexOnly ::
  "'n rule_env \<Rightarrow> page \<Rightarrow> string \<Rightarrow> index_config \<Rightarrow> bool \<times> index_score" where
  "IsIndexOnly E pg rawHTML cfg0 =
     (let cfg = withDefaults cfg0;
          bodyRunes = rune_count (pg_main pg);
          noDate = pg_published pg = None;
          (ratio, links) = analyzeAnchors E rawHTML (pg_url pg);
          score = \<lparr>is_body_runes = bodyRunes, is_body_short = bodyRunes < ic_min_body cfg, is_no_date = noDate,
                   is_link_ratio = ratio, is_high_ratio = ratio \<ge> ic_min_ratio cfg, is_article_links = links,
                   is_many_links = links \<ge> ic_min_links cfg\<rparr>
      in (is_body_short score \<and> is_no_date score \<and> (is_high_ratio score \<or> is_many_links score), score))"

section \<open>Pages\<close>

definition no_index_config :: index_config where
  "no_index_config = \<lparr>ic_min_body = 0, ic_min_ratio = 0, ic_min_links = 0\<rparr>"

definition page_of :: "'n rule_env \<Rightarrow> parser_rule \<Rightarrow> string \<Rightarrow> 'n \<Rightarrow> page" where
  "page_of E rule url doc =
     (let sm = ru_selectors rule
      in \<lparr>pg_url = url, pg_title = extractField E doc (sm_title sm), pg_main = extractField E doc (sm_main sm),
          pg_summary = extractField E doc (sm_summary sm), pg_author = extractField E doc (sm_author sm),
          pg_published = extractDate E doc (sm_published sm), pg_category = extractField E doc (sm_category sm),
          pg_tags = extractFieldMulti E doc (sm_tags sm), pg_images = extractFieldMulti E doc (sm_images sm),
          pg_article = ru_article rule\<rparr>)"

text \<open>
  The result, and whether the page is handed to the demoter. \<open>lookup\<close> answers \<^verbatim>\<open>ResolveByURL\<close> under the
  resolve timeout.
\<close>

definition ParsePage ::
  "'n rule_env \<Rightarrow> (string \<Rightarrow> string \<Rightarrow> go_error + parser_rule option) \<Rightarrow> raw_content option
     \<Rightarrow> (go_error + page) \<times> index_score option" where
  "ParsePage E lookup raw0 =
     (case validateRaw E raw0 of
        Some err \<Rightarrow> (Inl err, None)
      | None \<Rightarrow>
         (let raw = the raw0; L = pn_lib E; host = NormalizeHost L (rc_url raw)
          in case lookup (rc_url raw) TargetTypePage of
               Inl err \<Rightarrow> (Inl err, None)
             | Inr None \<Rightarrow>
                 (Inl (mk_rule_error ErrNoRule ''rule lookup returned nil rule'' host (rc_url raw) TargetTypePage None), None)
             | Inr (Some rule) \<Rightarrow>
                 if \<not> hasRequiredSelector E (sm_title (ru_selectors rule))
                    \<or> \<not> hasRequiredSelector E (sm_main (ru_selectors rule))
                 then (Inl (mk_rule_error ErrEmptySelector ''page rule missing required Title or MainContent selector''
                         host (rc_url raw) TargetTypePage None), None)
                 else (case pn_parse E (rc_html raw) of
                         Inl err \<Rightarrow>
                           (Inl (mk_rule_error ErrParseFailure ''goquery parse failed'' host (rc_url raw) [] (Some err)), None)
                       | Inr doc \<Rightarrow>
                           let pg = page_of E rule (rc_url raw) doc
                           in if pg_title pg = [] \<or> pg_main pg = []
                              then (Inl (mk_rule_error ErrParseFailure
                                      ''Title or MainContent selector matched 0 elements (rule may be stale)''
                                      host (rc_url raw) TargetTypePage None), None)
                              else (Inr pg,
                                    if pn_demote E \<and> fst (IsIndexOnly E pg (rc_html raw) no_index_config)
                                    then Some (snd (IsIndexOnly E pg (rc_html raw) no_index_config)) else None))))"

section \<open>Links\<close>

definition dom_anchors :: "'n rule_env \<Rightarrow> string \<Rightarrow> go_error + anchor list" where
  "dom_anchors E html =
     (case pn_parse E html of
        Inl err \<Rightarrow> Inl err
      | Inr doc \<Rightarrow>
          Inr (map (\<lambda>n. \<lparr>an_href = (case pn_attr E n ''href'' of None \<Rightarrow> [] | Some v \<Rightarrow> v), an_text = pn_text E n\<rparr>)
                (pn_find E doc ''a[href]'')))"

definition discovery_options :: "url_lib \<Rightarrow> link_discovery \<Rightarrow> (extractor \<Rightarrow> extractor) list" where
  "discovery_options L cfg =
     (if ld_same_origin cfg then [WithSameOriginOnly] else [])
     @ (if ld_prefixes cfg \<noteq> [] then [WithPathPrefixes (ld_prefixes cfg)] else [])
     @ (if ld_exclude cfg \<noteq> [] then [WithExcludePatterns L (ld_exclude cfg)] else [])"

definition discovered_items ::
  "'n rule_env \<Rightarrow> (string \<Rightarrow> bool) option \<Rightarrow> link list \<Rightarrow> link_item list" where
  "discovered_items E pat candidates =
     map (\<lambda>l. \<lparr>li_url = ln_url l, li_title = ln_text l, li_snippet = []\<rparr>)
       (filter (\<lambda>l. case pat of None \<Rightarrow> True | Some f \<Rightarrow> f (ln_url l)) candidates)"

definition same_host_item :: "url_lib \<Rightarrow> string \<Rightarrow> link_item \<Rightarrow> bool" where
  "same_host_item L pageHost it \<longleftrightarrow> pageHost \<noteq> [] \<and> NormalizeHost L (li_url it) = pageHost"

text \<open>The links of the page's host come first and are all kept; the others fill the rest of the limit.\<close>

definition mix_links :: "'n rule_env \<Rightarrow> int \<Rightarrow> link_item list \<Rightarrow> link_item list \<Rightarrow> link_item list" where
  "mix_links E maxOut same cross =
     (if cross = [] then same
      else if maxOut \<le> 0 then same @ cross
      else (let remaining = maxOut - int (length same)
            in if remaining \<le> 0 then same
               else if remaining \<ge> int (length cross) then same @ cross
               else same @ take (nat remaining) (pn_shuffle E cross)))"

definition Discover ::
  "'n rule_env \<Rightarrow> raw_content option \<Rightarrow> link_discovery option \<Rightarrow> go_error + link_item list" where
  "Discover E raw0 cfg0 =
     (case validateRaw E raw0 of
        Some err \<Rightarrow> Inl err
      | None \<Rightarrow>
         (let raw = the raw0; L = pn_lib E; url = rc_url raw; host = NormalizeHost L url
          in case cfg0 of
               None \<Rightarrow> Inl (mk_rule_error ErrEmptySelector ''link discovery requires non-nil LinkDiscoveryConfig''
                         host url TargetTypeList None)
             | Some cfg \<Rightarrow>
                (case (if ld_pattern cfg = [] then Inr None
                       else (case pn_regex E (ld_pattern cfg) of Inl err \<Rightarrow> Inl err | Inr f \<Rightarrow> Inr (Some f))) of
                   Inl err \<Rightarrow> Inl (mk_rule_error ErrEmptySelector
                       (''invalid ArticleURLPattern regex: '' @ go_quote (ld_pattern cfg)) host url TargetTypeList (Some err))
                 | Inr pat \<Rightarrow>
                    (case Extract L (dom_anchors E) (NewExtractor url (discovery_options L cfg)) (rc_html raw) url of
                       Inl err \<Rightarrow> Inl (mk_rule_error ErrParseFailure ''link extractor failed'' host url TargetTypeList (Some err))
                     | Inr candidates \<Rightarrow>
                         let items = discovered_items E pat candidates;
                             out = mix_links E (ld_max cfg) (filter (same_host_item L host) items)
                                     (filter (\<lambda>i. \<not> same_host_item L host i) items)
                         in if out = []
                            then Inl (mk_rule_error ErrParseFailure
                               (if pat = None then ''all <a href> filtered out (page has no eligible links)''
                                else ''ArticleURLPattern matched 0 links on page (pattern may be stale or page empty)'')
                               host url TargetTypeList None)
                            else Inr out))))"

definition container_item :: "'n rule_env \<Rightarrow> selector_map \<Rightarrow> go_url option \<Rightarrow> 'n \<Rightarrow> link_item option" where
  "container_item E sm base container =
     (let link = extractField E container (sm_item_link sm)
      in if link = [] then None
         else Some \<lparr>li_url = (case base of
                                None \<Rightarrow> link
                              | Some _ \<Rightarrow> (case absoluteURL (pn_lib E) base link of Inr a \<Rightarrow> a | Inl _ \<Rightarrow> link)),
                    li_title = extractField E container (sm_item_title sm),
                    li_snippet = extractField E container (sm_item_snippet sm)\<rparr>)"

definition ParseLinks ::
  "'n rule_env \<Rightarrow> (string \<Rightarrow> string \<Rightarrow> go_error + parser_rule option) \<Rightarrow> raw_content option
     \<Rightarrow> go_error + link_item list" where
  "ParseLinks E lookup raw0 =
     (case validateRaw E raw0 of
        Some err \<Rightarrow> Inl err
      | None \<Rightarrow>
         (let raw = the raw0; L = pn_lib E; url = rc_url raw; host = NormalizeHost L url
          in case lookup url TargetTypeList of
               Inl err \<Rightarrow> Inl err
             | Inr None \<Rightarrow> Inl (mk_rule_error ErrNoRule ''rule lookup returned nil rule'' host url TargetTypeList None)
             | Inr (Some rule) \<Rightarrow>
                 let sm = ru_selectors rule
                 in if sm_discovery sm \<noteq> None then Discover E raw0 (sm_discovery sm)
                    else if \<not> hasRequiredSelector E (sm_item_container sm) \<or> \<not> hasRequiredSelector E (sm_item_link sm)
                    then Inl (mk_rule_error ErrEmptySelector
                       ''list rule missing required ItemContainer or ItemLink selector (or set LinkDiscovery.ArticleURLPattern)''
                       host url TargetTypeList None)
                    else (case pn_parse E (rc_html raw) of
                            Inl err \<Rightarrow> Inl (mk_rule_error ErrParseFailure ''goquery parse failed'' host url [] (Some err))
                          | Inr doc \<Rightarrow>
                              let base = (case ul_parse L url of Inl _ \<Rightarrow> None | Inr u \<Rightarrow> Some u);
                                  containers = pn_find E doc (fs_css (the (sm_item_container sm)));
                                  items = List.map_filter (container_item E sm base) containers
                              in if containers = []
                                 then Inl (mk_rule_error ErrParseFailure
                                    ''ItemContainer selector matched 0 elements (rule may be stale)'' host url TargetTypeList None)
                                 else if items = []
                                 then Inl (mk_rule_error ErrParseFailure
                                    ''ItemContainer matched but no valid ItemLink found (ItemLink selector may be stale)''
                                    host url TargetTypeList None)
                                 else Inr items)))"

section \<open>What discovery keeps\<close>

lemma Extract_distinct:
  assumes "Extract L p e html pageURL = Inr out"
  shows "distinct (map ln_url out)"
proof (cases "html = []")
  case False
  then obtain base as where "out = extract_loop L e base as []"
    using assms by (auto simp: Extract_def split: sum.splits)
  then show ?thesis
    using extract_loop_spec [of "[]" "[]" e L base as] by (simp add: within_max_def)
qed (use assms in \<open>simp add: Extract_def\<close>)

lemma mix_links_props:
  assumes "\<forall>xs. mset (pn_shuffle E xs) = mset xs" and "distinct (map f same)" and "distinct (map f cross)"
    and "f ` set same \<inter> f ` set cross = {}"
  shows "\<exists>rest. mix_links E mx same cross = same @ rest \<and> set rest \<subseteq> set cross
    \<and> distinct (map f (same @ rest))
    \<and> (0 < mx \<longrightarrow> int (length (same @ rest)) \<le> max mx (int (length same)))
    \<and> (mx \<le> 0 \<or> int (length same + length cross) \<le> mx \<longrightarrow> rest = cross)
    \<and> (0 < mx \<and> mx < int (length same + length cross) \<longrightarrow> int (length (same @ rest)) = max mx (int (length same)))"
proof -
  define rest where "rest = drop (length same) (mix_links E mx same cross)"
  let ?sh = "pn_shuffle E cross"
  have perm: "mset ?sh = mset cross" by (rule spec [OF assms(1)])
  have sh: "set ?sh = set cross" "length ?sh = length cross"
    using perm by (metis set_mset_mset) (metis perm size_mset)
  have "mset (map f ?sh) = mset (map f cross)" using spec [OF assms(1), of cross] by (metis mset_map)
  then have dsh: "distinct (map f ?sh)" using assms(3) mset_eq_imp_distinct_iff by blast
  have run: "mix_links E mx same cross = same @ rest" by (auto simp: mix_links_def rest_def Let_def)
  have rest: "rest = (if cross = [] then [] else if mx \<le> 0 then cross
      else if mx - int (length same) \<le> 0 then []
      else if mx - int (length same) \<ge> int (length cross) then cross
      else take (nat (mx - int (length same))) ?sh)"
    by (auto simp: mix_links_def rest_def Let_def)
  have sub: "set rest \<subseteq> set cross" using sh by (auto simp: rest dest: in_set_takeD)
  have "distinct (map f rest)" using assms(3) dsh by (auto simp: rest take_map [symmetric])
  then have "distinct (map f (same @ rest))" using assms(2,4) sub by auto
  moreover have "0 < mx \<longrightarrow> int (length (same @ rest)) \<le> max mx (int (length same))"
    using sh(2) by (auto simp: rest)
  moreover have "mx \<le> 0 \<or> int (length same + length cross) \<le> mx \<longrightarrow> rest = cross"
    by (cases cross) (auto simp: rest)
  moreover have "0 < mx \<and> mx < int (length same + length cross) \<longrightarrow> int (length (same @ rest)) = max mx (int (length same))"
    using sh(2) by (auto simp: rest)
  ultimately show ?thesis using run sub by blast
qed

section \<open>Properties\<close>

text \<open>C29. Link discovery returns every eligible link of the page's own host, and fills up with others. With any
  shuffle, the result starts with all extracted links of the page's host that match the article pattern, in
  page order, followed by other matching links; no URL occurs twice; a positive limit bounds the
  result unless the page's own links alone exceed it, and is used up when there are more links than
  that; without a limit, or within it, nothing is dropped.\<close>
theorem discover_keeps_own_links:
  assumes "\<forall>xs. mset (pn_shuffle E xs) = mset xs" and "validateRaw E (Some raw) = None"
    and "if ld_pattern cfg = [] then pat = None else (\<exists>f. pn_regex E (ld_pattern cfg) = Inr f \<and> pat = Some f)"
    and "Extract (pn_lib E) (dom_anchors E) (NewExtractor (rc_url raw) (discovery_options (pn_lib E) cfg))
           (rc_html raw) (rc_url raw) = Inr cands"
    and "own = filter (same_host_item (pn_lib E) (NormalizeHost (pn_lib E) (rc_url raw))) (discovered_items E pat cands)"
    and "others = filter (\<lambda>i. \<not> same_host_item (pn_lib E) (NormalizeHost (pn_lib E) (rc_url raw)) i) (discovered_items E pat cands)"
    and "Discover E (Some raw) (Some cfg) = Inr out"
  shows "\<exists>rest. out = own @ rest \<and> set rest \<subseteq> set others \<and> distinct (map li_url out) \<and> out \<noteq> []
    \<and> (0 < ld_max cfg \<longrightarrow> int (length out) \<le> max (ld_max cfg) (int (length own)))
    \<and> (ld_max cfg \<le> 0 \<or> int (length own + length others) \<le> ld_max cfg \<longrightarrow> rest = others)
    \<and> (0 < ld_max cfg \<and> ld_max cfg < int (length own + length others)
         \<longrightarrow> int (length out) = max (ld_max cfg) (int (length own)))"
proof -
  let ?items = "discovered_items E pat cands"
  have "map li_url ?items = filter (\<lambda>u. case pat of None \<Rightarrow> True | Some f \<Rightarrow> f u) (map ln_url cands)"
    by (simp add: discovered_items_def filter_map comp_def)
  then have d: "distinct (map li_url ?items)" using Extract_distinct [OF assms(4)] by simp
  then have own: "distinct (map li_url own)" "distinct (map li_url others)"
    unfolding assms(5,6) by (simp_all add: distinct_map_filter)
  have "inj_on li_url (set ?items)" using d by (simp add: distinct_map)
  then have dis: "li_url ` set own \<inter> li_url ` set others = {}"
    unfolding assms(5,6) by (auto simp: inj_on_def)
  have pat: "(if ld_pattern cfg = [] then Inr None
      else (case pn_regex E (ld_pattern cfg) of Inl err \<Rightarrow> Inl err | Inr f \<Rightarrow> Inr (Some f))) = (Inr pat :: go_error + _)"
    using assms(3) by (auto split: if_splits)
  have "out = mix_links E (ld_max cfg) own others \<and> out \<noteq> []"
    using assms(7,2,4) pat assms(5,6) by (auto simp: Discover_def Let_def split: if_splits)
  with mix_links_props [where E = E and f = li_url and mx = "ld_max cfg", OF assms(1) own dis] show ?thesis by auto
qed

definition sample_rule_env :: "string rule_env" where
  "sample_rule_env =
     \<lparr>pn_lib = text_lib, pn_parse = Inr, pn_find = (\<lambda>n css. [''http://g/b'', ''http://h/a'']), pn_text = id,
      pn_attr = (\<lambda>n a. Some n), pn_layouts = [], pn_time = (\<lambda>_ _. None), pn_regex = (\<lambda>_. Inl (Opaque [])),
      pn_shuffle = id, pn_fold_eq = (\<lambda>a b. a = b), pn_demote = False\<rparr>"

definition sample_raw :: raw_content where
  "sample_raw = NewRawContent [] 0 ''s'' \<lparr>si_country = [], si_type = [], si_name = ''s'', si_base_url = [], si_language = []\<rparr>
     \<lparr>tg_url = ''http://h/'', tg_type = TargetTypeCategory, tg_meta = Map.empty\<rparr> ''x'' 200 None"

theorem discover_keeps_own_links_witness:
  "\<exists>out. Discover sample_rule_env (Some sample_raw) (Some \<lparr>ld_pattern = [], ld_exclude = [], ld_prefixes = [],
      ld_same_origin = False, ld_max = 1\<rparr>) = Inr out \<and> map li_url out = [''http://h/a'']"
proof -
  define cfg :: link_discovery where
    "cfg = \<lparr>ld_pattern = [], ld_exclude = [], ld_prefixes = [], ld_same_origin = False, ld_max = 1\<rparr>"
  define cands where
    "cands = [\<lparr>ln_url = ''http://g/b'', ln_text = ''http://g/b''\<rparr>, \<lparr>ln_url = ''http://h/a'', ln_text = ''http://h/a''\<rparr>]"
  define a b where "a = \<lparr>li_url = ''http://h/a'', li_title = ''http://h/a'', li_snippet = []\<rparr>"
    and "b = \<lparr>li_url = ''http://g/b'', li_title = ''http://g/b'', li_snippet = []\<rparr>"
  let ?E = sample_rule_env and ?raw = sample_raw
  have sh: "\<forall>xs. mset (pn_shuffle ?E xs) = mset xs" by (simp add: sample_rule_env_def)
  have val: "validateRaw ?E (Some ?raw) = None" by code_simp
  have pat: "if ld_pattern cfg = [] then None = (None :: (string \<Rightarrow> bool) option)
      else (\<exists>f. pn_regex ?E (ld_pattern cfg) = Inr f \<and> None = Some f)" by (simp add: cfg_def)
  have ex: "Extract (pn_lib ?E) (dom_anchors ?E) (NewExtractor (rc_url ?raw) (discovery_options (pn_lib ?E) cfg))
           (rc_html ?raw) (rc_url ?raw) = Inr cands"
    unfolding cfg_def cands_def by code_simp
  have own: "[a] = filter (same_host_item (pn_lib ?E) (NormalizeHost (pn_lib ?E) (rc_url ?raw))) (discovered_items ?E None cands)"
    unfolding a_def cands_def by code_simp
  have others: "[b] = filter (\<lambda>i. \<not> same_host_item (pn_lib ?E) (NormalizeHost (pn_lib ?E) (rc_url ?raw)) i) (discovered_items ?E None cands)"
    unfolding b_def cands_def by code_simp
  have out: "Discover ?E (Some ?raw) (Some cfg) = Inr [a]"
    unfolding cfg_def a_def by code_simp
  from discover_keeps_own_links [OF sh val pat ex own others out]
  have m: "map li_url [a] = [''http://h/a'']" by (simp add: a_def)
  show ?thesis unfolding cfg_def [symmetric] by (rule exI [of _ "[a]"], rule conjI [OF out m])
qed

end
