(* ===== verification/Prompt.thy ===== *)
theory Prompt
  imports CrawlCore "HOL-Library.Sublist" "HOL-Library.List_Lexorder" "HOL-Library.Char_ord"
begin

text \<open>
  The prompt templates, \<^verbatim>\<open>pkg/llm/prompt\<close>: the loaders with their cache and fallback
  (\<^verbatim>\<open>loader.go\<close>, \<^verbatim>\<open>embed.go\<close>), rendering, and the check that a template uses no
  placeholder its caller does not supply (\<^verbatim>\<open>verify.go\<close>). Reading a file or an embedded asset is a parameter,
  as is \<^verbatim>\<open>strings.TrimSpace\<close> (\<open>trim\<close>).
\<close>

section \<open>Loaders\<close>

text \<open>A loader maps a name to its template; \<open>None\<close> is a nil loader.\<close>

type_synonym loader = "string \<Rightarrow> go_error + string"
type_synonym prompt_cache = "string \<rightharpoonup> string"

definition checked_body :: "(string \<Rightarrow> string) \<Rightarrow> string \<Rightarrow> string \<Rightarrow> string \<Rightarrow> go_error + string" where
  "checked_body trim prefix_text path body =
     (if trim body = [] then Inl (Opaque (prefix_text @ go_quote path @ '' is empty'')) else Inr body)"

definition file_Load ::
  "(string \<Rightarrow> string) \<Rightarrow> string \<Rightarrow> (string \<Rightarrow> go_error + string) \<Rightarrow> string \<Rightarrow> prompt_cache
     \<Rightarrow> (go_error + string) \<times> prompt_cache" where
  "file_Load trim dir read name cache =
     (if name = [] then (Inl (Opaque ''prompt: Load requires non-empty name''), cache)
      else (case cache name of
              Some v \<Rightarrow> (Inr v, cache)
            | None \<Rightarrow>
                (let path = dir @ ''/'' @ name @ ''.txt''
                 in case read path of
                      Inl err \<Rightarrow> (Inl (Wrapped (''prompt: read '' @ go_quote path) err), cache)
                    | Inr data \<Rightarrow>
                       (case checked_body trim ''prompt: '' path data of
                          Inl err \<Rightarrow> (Inl err, cache)
                        | Inr body \<Rightarrow> (Inr body, cache(name \<mapsto> body))))))"

definition embed_Load :: "(string \<Rightarrow> string) \<Rightarrow> (string \<Rightarrow> go_error + string) \<Rightarrow> loader" where
  "embed_Load trim assets name =
     (if name = [] then Inl (Opaque ''prompt: EmbedLoader.Load requires non-empty name'')
      else (let path = ''assets/'' @ name @ ''.txt''
            in case assets path of
                 Inl err \<Rightarrow> Inl (Wrapped (''prompt: embedded read '' @ go_quote path) err)
               | Inr data \<Rightarrow> checked_body trim ''prompt: embedded '' path data))"

definition map_Load :: "(string \<Rightarrow> string) \<Rightarrow> (string \<rightharpoonup> string) \<Rightarrow> loader" where
  "map_Load trim m name =
     (case m name of
        None \<Rightarrow> Inl (Opaque (''prompt: '' @ go_quote name @ '' not in MapLoader''))
      | Some v \<Rightarrow> if trim v = [] then Inl (Opaque (''prompt: '' @ go_quote name @ '' is empty in MapLoader'')) else Inr v)"

text \<open>The loop keeps the first error.\<close>

fun chain_loop :: "loader list \<Rightarrow> string \<Rightarrow> go_error option \<Rightarrow> go_error + string" where
  "chain_loop [] name firstErr = Inl (case firstErr of Some e \<Rightarrow> e | None \<Rightarrow> Opaque [])"
| "chain_loop (l # ls) name firstErr =
     (case l name of
        Inr body \<Rightarrow> Inr body
      | Inl err \<Rightarrow> chain_loop ls name (case firstErr of None \<Rightarrow> Some err | Some e \<Rightarrow> Some e))"

definition chain_Load :: "loader list \<Rightarrow> loader" where
  "chain_Load ls name =
     (if ls = [] then Inl (Opaque ''prompt: no loaders available in chain'') else chain_loop ls name None)"

text \<open>\<open>stat\<close> tells whether a path is a directory.\<close>

definition NewFileLoader :: "(string \<Rightarrow> go_error + bool) \<Rightarrow> string \<Rightarrow> go_error option" where
  "NewFileLoader stat dir =
     (if dir = [] then Some (Opaque ''prompt: NewFileLoader requires non-empty directory path'')
      else (case stat dir of
              Inl err \<Rightarrow> Some (Wrapped (''prompt: stat '' @ go_quote dir) err)
            | Inr isDir \<Rightarrow> if isDir then None else Some (Opaque (''prompt: '' @ go_quote dir @ '' is not a directory''))))"

definition DefaultDir :: string where "DefaultDir = ''pkg/llm/prompt/assets''"

text \<open>The directory to look into before the embedded assets, and a warning.\<close>

definition NewDefaultLoader :: "(string \<Rightarrow> go_error + bool) \<Rightarrow> string \<Rightarrow> bool \<Rightarrow> string option \<times> string" where
  "NewDefaultLoader stat dir dirSet =
     (let resolved = (if \<not> dirSet then (case stat DefaultDir of Inl _ \<Rightarrow> None | Inr _ \<Rightarrow> Some DefaultDir)
                      else if dir = [] then None else Some dir)
      in case resolved of
           None \<Rightarrow> (None, [])
         | Some d \<Rightarrow>
            (case NewFileLoader stat d of
               None \<Rightarrow> (Some d, [])
             | Some err \<Rightarrow>
                 (None, ''prompt: file loader for '' @ go_quote d
                        @ '' unavailable, falling back to embed-only: '' @ error_text err)))"

section \<open>Rendering\<close>

text \<open>
  \<^verbatim>\<open>strings.NewReplacer\<close>: one pass from the left; at each position the first pair whose old text matches is
  replaced, and the replacement is not scanned again. Old texts are not empty.
\<close>

function Render :: "string \<Rightarrow> (string \<times> string) list \<Rightarrow> string" where
  "Render [] ps = []"
| "Render (c # cs) ps =
     (case find (\<lambda>(old, new). old \<noteq> [] \<and> prefix old (c # cs)) ps of
        None \<Rightarrow> c # Render cs ps
      | Some (old, new) \<Rightarrow> new @ Render (drop (length old - 1) cs) ps)"
  by pat_completeness auto
termination
  by (relation "measure (\<lambda>(t, ps). length t)") auto

section \<open>Contracts\<close>

record contract =
  ct_name :: string
  ct_placeholders :: "string list"

definition placeholder_char :: "char \<Rightarrow> bool" where
  "placeholder_char c \<longleftrightarrow> (CHR ''A'' \<le> c \<and> c \<le> CHR ''Z'') \<or> (CHR ''0'' \<le> c \<and> c \<le> CHR ''9'') \<or> c = CHR ''_''"

text \<open>The pattern of a placeholder, matched at the start of a text.\<close>

definition match_placeholder :: "string \<Rightarrow> string option" where
  "match_placeholder s =
     (let body = takeWhile placeholder_char (drop 2 s)
      in if prefix ''{{'' s \<and> body \<noteq> [] \<and> prefix ''}}'' (drop (2 + length body) s)
         then Some (''{{'' @ body @ ''}}'') else None)"

text \<open>\<^verbatim>\<open>FindAllString\<close>: leftmost matches that do not overlap.\<close>

function find_placeholders :: "string \<Rightarrow> string list" where
  "find_placeholders [] = []"
| "find_placeholders (c # cs) =
     (case match_placeholder (c # cs) of
        None \<Rightarrow> find_placeholders cs
      | Some tok \<Rightarrow> tok # find_placeholders (drop (length tok - 1) cs))"
  by pat_completeness auto
termination
  by (relation "measure length") auto

fun missing_loop :: "string list \<Rightarrow> string list \<Rightarrow> string list \<Rightarrow> string list" where
  "missing_loop supplied missing [] = missing"
| "missing_loop supplied missing (tok # toks) =
     (if tok \<in> set supplied \<or> tok \<in> set missing then missing_loop supplied missing toks
      else missing_loop supplied (missing @ [tok]) toks)"

definition unsuppliedPlaceholders :: "string \<Rightarrow> string list \<Rightarrow> string list" where
  "unsuppliedPlaceholders template supplied = sort (missing_loop supplied [] (find_placeholders template))"

fun join_comma :: "string list \<Rightarrow> string" where
  "join_comma [] = []"
| "join_comma [x] = x"
| "join_comma (x # y # r) = x @ '', '' @ join_comma (y # r)"

definition contract_problem :: "loader \<Rightarrow> contract \<Rightarrow> go_error option" where
  "contract_problem l c =
     (if ct_name c = [] then Some (Opaque ''prompt: contract with empty name'')
      else (case l (ct_name c) of
              Inl err \<Rightarrow> Some (Wrapped (''prompt '' @ go_quote (ct_name c) @ '': load failed'') err)
            | Inr body \<Rightarrow>
                (let missing = unsuppliedPlaceholders body (ct_placeholders c)
                 in if missing = [] then None
                    else Some (Opaque (''prompt '' @ go_quote (ct_name c)
                           @ '': template uses placeholder(s) the caller does not supply: '' @ join_comma missing)))))"

definition Verify :: "loader option \<Rightarrow> contract list \<Rightarrow> go_error option" where
  "Verify lo contracts =
     (case lo of
        None \<Rightarrow> Some (Opaque ''prompt: Verify requires non-nil loader'')
      | Some l \<Rightarrow>
          (let problems = List.map_filter (contract_problem l) contracts
           in if problems = [] then None else Some (Joined problems)))"

definition ContractNames :: "contract list \<Rightarrow> string list" where
  "ContractNames cs = map ct_name cs"

section \<open>Placeholders\<close>

text \<open>The reference: every placeholder of the template is replaced by its value.\<close>

function substitute :: "(string \<Rightarrow> string) \<Rightarrow> string \<Rightarrow> string" where
  "substitute v [] = []"
| "substitute v (c # cs) =
     (case match_placeholder (c # cs) of
        None \<Rightarrow> c # substitute v cs
      | Some tok \<Rightarrow> v tok @ substitute v (drop (length tok - 1) cs))"
  by pat_completeness auto
termination by (relation "measure (\<lambda>(v, t). length t)") auto

lemma brace_no_placeholder_char: "\<not> placeholder_char (CHR ''}'')"
  by (simp add: placeholder_char_def less_eq_char_def)

lemma match_placeholder_shape:
  "match_placeholder s = Some tok \<longleftrightarrow>
     (\<exists>body r. s = tok @ r \<and> tok = ''{{'' @ body @ ''}}'' \<and> body \<noteq> [] \<and> list_all placeholder_char body)"
proof
  assume m: "match_placeholder s = Some tok"
  define body where "body = takeWhile placeholder_char (drop 2 s)"
  have t: "tok = ''{{'' @ body @ ''}}''" "prefix ''{{'' s" "body \<noteq> []" "prefix ''}}'' (drop (2 + length body) s)"
    using m by (auto simp: match_placeholder_def Let_def body_def split: if_splits)
  obtain r1 where s1: "s = ''{{'' @ r1" using t(2) by (auto simp: prefix_def)
  have "r1 = body @ dropWhile placeholder_char r1" by (simp add: body_def s1)
  then have d: "drop (length body) r1 = dropWhile placeholder_char r1" by (metis append_eq_conv_conj)
  then obtain r where "dropWhile placeholder_char r1 = ''}}'' @ r" using t(4) by (auto simp: s1 prefix_def)
  then have "s = tok @ r" using \<open>r1 = body @ dropWhile placeholder_char r1\<close> s1 t(1) by simp
  moreover have "list_all placeholder_char body" by (auto simp: body_def list_all_iff dest: set_takeWhileD)
  ultimately show "\<exists>body r. s = tok @ r \<and> tok = ''{{'' @ body @ ''}}'' \<and> body \<noteq> [] \<and> list_all placeholder_char body"
    using t by blast
next
  assume "\<exists>body r. s = tok @ r \<and> tok = ''{{'' @ body @ ''}}'' \<and> body \<noteq> [] \<and> list_all placeholder_char body"
  then obtain body r where b: "s = tok @ r" "tok = ''{{'' @ body @ ''}}''" "body \<noteq> []" "list_all placeholder_char body"
    by blast
  have "takeWhile placeholder_char (body @ ''}}'' @ r) = body"
    using b(4) brace_no_placeholder_char by (simp add: takeWhile_append2 list_all_iff)
  then show "match_placeholder s = Some tok" using b by (simp add: match_placeholder_def)
qed

lemma match_placeholder_prefix:
  assumes "match_placeholder old = Some old"
  shows "prefix old s \<longleftrightarrow> match_placeholder s = Some old"
  using assms by (fastforce simp: match_placeholder_shape prefix_def)

lemma match_placeholder_self: "match_placeholder s = Some tok \<Longrightarrow> match_placeholder tok = Some tok"
  by (fastforce simp: match_placeholder_shape)

lemma find_first_pair:
  assumes "\<forall>(old, new) \<in> set ps. match_placeholder old = Some old"
  shows "find (\<lambda>(old, new). old \<noteq> [] \<and> prefix old s) ps =
    (case match_placeholder s of None \<Rightarrow> None | Some tok \<Rightarrow> map_option (\<lambda>v. (tok, v)) (map_of ps tok))"
  using assms
proof (induction ps)
  case Nil
  show ?case by (simp split: option.split)
next
  case (Cons p ps)
  obtain old new where p: "p = (old, new)" by (rule prod.exhaust)
  have m: "match_placeholder old = Some old" using Cons.prems p by simp
  then have "old \<noteq> []" by (auto simp: match_placeholder_def Let_def)
  then show ?case
    using Cons match_placeholder_prefix [OF m, of s] p by (auto split: option.splits)
qed

lemma missing_loop_set: "set (missing_loop supplied missing toks) = set missing \<union> (set toks - set supplied)"
  by (induction toks arbitrary: missing) auto

lemma unsupplied_none: "unsuppliedPlaceholders t supplied = [] \<longleftrightarrow> set (find_placeholders t) \<subseteq> set supplied"
proof -
  have "unsuppliedPlaceholders t supplied = [] \<longleftrightarrow> set (missing_loop supplied [] (find_placeholders t)) = {}"
    by (simp add: unsuppliedPlaceholders_def) (metis set_empty set_sort)
  then show ?thesis by (auto simp: missing_loop_set)
qed

lemma Render_substitute:
  assumes "\<forall>(old, new) \<in> set ps. match_placeholder old = Some old" and "set (find_placeholders t) \<subseteq> fst ` set ps"
  shows "Render t ps = substitute (\<lambda>tok. the (map_of ps tok)) t"
  using assms(2)
proof (induction "length t" arbitrary: t rule: less_induct)
  case less
  show ?case
  proof (cases t)
    case (Cons c cs)
    show ?thesis
    proof (cases "match_placeholder (c # cs)")
      case None
      then show ?thesis using less.hyps [of cs] less.prems Cons find_first_pair [OF assms(1), of "c # cs"] by simp
    next
      case (Some tok)
      then have "tok \<in> fst ` set ps" using less.prems Cons by simp
      then obtain v where v: "map_of ps tok = Some v" by (metis map_of_eq_None_iff option.exhaust)
      then have "find (\<lambda>(old, new). old \<noteq> [] \<and> prefix old (c # cs)) ps = Some (tok, v)"
        using find_first_pair [OF assms(1), of "c # cs"] Some by simp
      then show ?thesis
        using less.hyps [of "drop (length tok - 1) cs"] less.prems Cons Some v by simp
    qed
  qed simp
qed

lemma verified_contract:
  assumes "Verify (Some l) contracts = None" and "c \<in> set contracts"
  obtains body where "ct_name c \<noteq> []" "l (ct_name c) = Inr body"
    "set (find_placeholders body) \<subseteq> set (ct_placeholders c)"
proof -
  have "List.map_filter (contract_problem l) contracts = []"
    using assms(1) by (simp add: Verify_def Let_def split: if_splits)
  then have "contract_problem l c = None"
    using assms(2) by (induction contracts) (auto simp: List.map_filter_def split: option.splits if_splits)
  then show ?thesis
    using that by (auto simp: contract_problem_def Let_def unsupplied_none split: if_splits sum.splits)
qed

section \<open>Properties\<close>

text \<open>What startup verification buys: if Verify accepts the contracts, then for every contract the template
  loads, each of its placeholders is one the caller supplies, and rendering it with one value per placeholder
  of the contract replaces exactly the placeholders, each by its value, and changes nothing else, whatever order
  the pairs are given in and whatever the values contain.\<close>
theorem verified_prompt_renders:
  assumes "Verify (Some l) contracts = None" and "c \<in> set contracts"
    and "\<forall>p \<in> set (ct_placeholders c). match_placeholder p = Some p" and "fst ` set ps = set (ct_placeholders c)"
  shows "\<exists>body. l (ct_name c) = Inr body \<and> set (find_placeholders body) \<subseteq> set (ct_placeholders c)
    \<and> Render body ps = substitute (\<lambda>tok. the (map_of ps tok)) body"
proof -
  obtain body where b: "l (ct_name c) = Inr body" "set (find_placeholders body) \<subseteq> set (ct_placeholders c)"
    using verified_contract [OF assms(1,2)] by blast
  have "\<forall>(old, new) \<in> set ps. match_placeholder old = Some old" using assms(3,4) by force
  from Render_substitute [OF this] b assms(4) show ?thesis by blast
qed

theorem verified_prompt_renders_witness:
  "let l = (\<lambda>n. Inr ''a {{X}} b''); c = \<lparr>ct_name = ''p'', ct_placeholders = [''{{X}}'']\<rparr>
   in Verify (Some l) [c] = None \<and> Render ''a {{X}} b'' [(''{{X}}'', ''{{X}}'')]
        = substitute (\<lambda>tok. the (map_of [(''{{X}}'', ''{{X}}'')] tok)) ''a {{X}} b''"
proof -
  define l :: loader where "l = (\<lambda>n. Inr ''a {{X}} b'')"
  define c where "c = \<lparr>ct_name = ''p'', ct_placeholders = [''{{X}}'']\<rparr>"
  define ps where "ps = [(''{{X}}'', ''{{X}}'')]"
  have v: "Verify (Some l) [c] = None" unfolding l_def c_def by code_simp
  have m: "\<forall>p \<in> set (ct_placeholders c). match_placeholder p = Some p" unfolding c_def by code_simp
  have p: "fst ` set ps = set (ct_placeholders c)" by (simp add: ps_def c_def)
  have "Render ''a {{X}} b'' ps = substitute (\<lambda>tok. the (map_of ps tok)) ''a {{X}} b''"
    using verified_prompt_renders [OF v _ m p] by (simp add: l_def)
  with v show ?thesis unfolding Let_def l_def c_def ps_def by (rule conjI)
qed

text \<open>Loaders: a chain answers with its first success, else with the first error; a file is read once,
  its template is then served from the cache, whatever the file has become, and a failure is tried again.\<close>
theorem file_loader_caches:
  assumes "file_Load trim dir read name cache = (Inr body, cache')"
  shows "file_Load trim dir read' name cache' = (Inr body, cache')
    \<and> (cache name = None \<longrightarrow> read (dir @ ''/'' @ name @ ''.txt'') = Inr body \<and> trim body \<noteq> [])"
  using assms by (auto simp: file_Load_def checked_body_def Let_def split: if_splits option.splits sum.splits)

lemma chain_loop_first:
  "chain_loop ls name e =
     (case List.map_filter (\<lambda>l. case l name of Inr b \<Rightarrow> Some b | Inl _ \<Rightarrow> None) ls of
        b # _ \<Rightarrow> Inr b
      | [] \<Rightarrow> Inl (case e of Some x \<Rightarrow> x | None \<Rightarrow> (case ls of [] \<Rightarrow> Opaque [] | l # _ \<Rightarrow> (case l name of Inl x \<Rightarrow> x | Inr _ \<Rightarrow> Opaque []))))"
  by (induction ls arbitrary: e) (auto simp: List.map_filter_def split: sum.splits option.splits list.splits)

end
