(* ===== verification/RuleGenCore.thy ===== *)
theory RuleGenCore
  imports RulePages Prompt
begin

text \<open>
  The parts of the rule generator (\<^verbatim>\<open>internal/processor/parser/rule/llmgen\<close>): the host breaker
  (\<^verbatim>\<open>breaker.go\<close>), the call budget (\<^verbatim>\<open>budget.go\<close>), the prompt and the JSON object of an answer
  (\<^verbatim>\<open>prompt.go\<close>), the check of the generated selectors (\<^verbatim>\<open>generator.go\<close>) and the confidence filter
  (\<^verbatim>\<open>confidence.go\<close>). The generator itself is in \<open>RuleGen\<close>. A mutex makes each operation of the breaker and each
  step of the budget's local window one atomic step; \<open>budget_Allow\<close> as a whole is not one.
\<close>

section \<open>The host breaker\<close>

type_synonym host_key = "string \<times> string"

record host_state =
  hb_failures :: int
  hb_until :: "gotime option"

record host_breaker =
  hb_threshold :: int
  hb_cooldown :: duration
  hb_st :: "(host_key \<times> host_state) list"

definition NewHostBreaker :: "int \<Rightarrow> duration \<Rightarrow> host_breaker" where
  "NewHostBreaker threshold cooldown =
     \<lparr>hb_threshold = (if threshold \<le> 0 then 3 else threshold),
      hb_cooldown = (if cooldown \<le> 0 then 10 * minute else cooldown), hb_st = []\<rparr>"

definition breaker_Allow :: "gotime \<Rightarrow> host_key \<Rightarrow> host_breaker \<Rightarrow> (bool \<times> duration) \<times> host_breaker" where
  "breaker_Allow now key b =
     (case map_of (hb_st b) key of
        None \<Rightarrow> ((True, 0), b)
      | Some st \<Rightarrow>
         (case hb_until st of
            None \<Rightarrow> ((True, 0), b)
          | Some t \<Rightarrow>
              if \<not> now < t then ((True, 0), b\<lparr>hb_st := AList.delete key (hb_st b)\<rparr>)
              else ((False, t - now), b)))"

definition RecordRateLimit :: "gotime \<Rightarrow> host_key \<Rightarrow> host_breaker \<Rightarrow> host_breaker" where
  "RecordRateLimit now key b =
     (let st = (case map_of (hb_st b) key of None \<Rightarrow> \<lparr>hb_failures = 0, hb_until = None\<rparr> | Some st \<Rightarrow> st);
          n = hb_failures st + 1
      in b\<lparr>hb_st := AList.update key
             \<lparr>hb_failures = n,
              hb_until = (if n \<ge> hb_threshold b then Some (now + hb_cooldown b) else hb_until st)\<rparr> (hb_st b)\<rparr>)"

definition breaker_RecordSuccess :: "host_key \<Rightarrow> host_breaker \<Rightarrow> host_breaker" where
  "breaker_RecordSuccess key b = b\<lparr>hb_st := AList.delete key (hb_st b)\<rparr>"

text \<open>\<open>ord\<close> is the iteration order of the map.\<close>

definition breaker_Snapshot ::
  "((host_key \<times> host_state) list \<Rightarrow> (host_key \<times> host_state) list) \<Rightarrow> host_breaker
     \<Rightarrow> (string \<times> string \<times> int \<times> gotime option) list" where
  "breaker_Snapshot ord b = map (\<lambda>((h, t), st). (h, t, hb_failures st, hb_until st)) (ord (hb_st b))"

section \<open>The call budget\<close>

definition BudgetWindowDaily :: string where "BudgetWindowDaily = ''daily''"
definition BudgetWindowHourly :: string where "BudgetWindowHourly = ''hourly''"

lemmas budget_windows = BudgetWindowDaily_def BudgetWindowHourly_def

record budget_config =
  bg_daily :: int
  bg_hourly :: int

record call_budget =
  cbu_cfg :: budget_config
  cbu_local :: "string \<Rightarrow> gotime list"
  cbu_exceeded :: "string \<Rightarrow> bool"

definition budget_Enabled :: "budget_config \<Rightarrow> bool" where
  "budget_Enabled c \<longleftrightarrow> bg_daily c > 0 \<or> bg_hourly c > 0"

definition NewCallBudget :: "budget_config \<Rightarrow> call_budget option" where
  "NewCallBudget c =
     (if \<not> budget_Enabled c then None
      else Some \<lparr>cbu_cfg = c, cbu_local = (\<lambda>_. []), cbu_exceeded = (\<lambda>_. False)\<rparr>)"

definition windows_of :: "budget_config \<Rightarrow> (string \<times> int \<times> duration) list" where
  "windows_of c = [(BudgetWindowHourly, bg_hourly c, hour), (BudgetWindowDaily, bg_daily c, 24 * hour)]"

definition pruneLocked :: "gotime \<Rightarrow> string \<Rightarrow> duration \<Rightarrow> call_budget \<Rightarrow> call_budget" where
  "pruneLocked now w dur b =
     b\<lparr>cbu_local := (cbu_local b)(w := filter (\<lambda>t. t > now + - dur) (cbu_local b w))\<rparr>"

definition localCount :: "gotime \<Rightarrow> string \<Rightarrow> duration \<Rightarrow> call_budget \<Rightarrow> int \<times> call_budget" where
  "localCount now w dur b = (let b' = pruneLocked now w dur b in (int (length (cbu_local b' w)), b'))"

definition localRecord :: "gotime \<Rightarrow> gotime \<Rightarrow> string \<Rightarrow> duration \<Rightarrow> call_budget \<Rightarrow> call_budget" where
  "localRecord now later w dur b =
     (let b' = pruneLocked now w dur b
      in b'\<lparr>cbu_local := (cbu_local b')(w := cbu_local b' w @ [later])\<rparr>)"

definition budget_noteState :: "string \<Rightarrow> bool \<Rightarrow> call_budget \<Rightarrow> call_budget" where
  "budget_noteState w blocked b = b\<lparr>cbu_exceeded := (cbu_exceeded b)(w := blocked)\<rparr>"

text \<open>
  One call: the answers of the shared counter, if there is one, and the clock at the readings the call makes for a
  window, when it counts, when it prunes to record, and when it records.
\<close>

record budget_call =
  bc_count :: "(string \<Rightarrow> go_error + int) option"
  bc_now :: "string \<Rightarrow> gotime"
  bc_prune :: "string \<Rightarrow> gotime"
  bc_rec :: "string \<Rightarrow> gotime"

definition budget_count :: "budget_call \<Rightarrow> string \<Rightarrow> duration \<Rightarrow> call_budget \<Rightarrow> (go_error + int) \<times> call_budget" where
  "budget_count c w dur b =
     (case bc_count c of
        Some f \<Rightarrow> (f w, b)
      | None \<Rightarrow> (let (n, b') = localCount (bc_now c w) w dur b in (Inr n, b')))"

fun check_windows ::
  "budget_call \<Rightarrow> (string \<times> int \<times> duration) list \<Rightarrow> call_budget \<Rightarrow> string option \<times> call_budget" where
  "check_windows c [] b = (None, b)"
| "check_windows c ((w, cap, dur) # ws) b =
     (if cap \<le> 0 then check_windows c ws b
      else (case budget_count c w dur b of
              (Inl _, b1) \<Rightarrow> check_windows c ws b1
            | (Inr n, b1) \<Rightarrow>
                if n \<ge> cap then (Some w, budget_noteState w True b1)
                else check_windows c ws (budget_noteState w False b1)))"

text \<open>The second component is the list of windows recorded with the shared counter, whose answer is only logged.\<close>

fun budget_record ::
  "budget_call \<Rightarrow> (string \<times> int \<times> duration) list \<Rightarrow> call_budget \<Rightarrow> string list \<times> call_budget" where
  "budget_record c [] b = ([], b)"
| "budget_record c ((w, cap, dur) # ws) b =
     (if cap \<le> 0 then budget_record c ws b
      else (case bc_count c of
              Some _ \<Rightarrow> (let (out, b') = budget_record c ws b in (w # out, b'))
            | None \<Rightarrow> budget_record c ws (localRecord (bc_prune c w) (bc_rec c w) w dur b)))"

definition budget_Allow ::
  "budget_call \<Rightarrow> call_budget option \<Rightarrow> (bool \<times> string) \<times> string list \<times> call_budget option" where
  "budget_Allow c bo =
     (case bo of
        None \<Rightarrow> ((True, []), [], None)
      | Some b \<Rightarrow>
         (case check_windows c (windows_of (cbu_cfg b)) b of
            (Some w, b1) \<Rightarrow> ((False, w), [], Some b1)
          | (None, b1) \<Rightarrow>
              (let (recorded, b2) = budget_record c (windows_of (cbu_cfg b)) b1
               in ((True, []), recorded, Some b2))))"

section \<open>The prompt\<close>

definition promptMaxHTMLBytes :: nat where "promptMaxHTMLBytes = 32 * 1024"

definition PromptNameSystem :: string where "PromptNameSystem = ''parser/llmgen/system''"
definition PromptNamePage :: string where "PromptNamePage = ''parser/llmgen/page.user''"
definition PromptNameList :: string where "PromptNameList = ''parser/llmgen/list.user''"

definition userPlaceholders :: "string list" where
  "userPlaceholders = [''{{HOST}}'', ''{{TARGET_TYPE}}'', ''{{MAX_HTML_BYTES}}'', ''{{HTML}}'']"

definition llmgen_PromptContracts :: "contract list" where
  "llmgen_PromptContracts =
     [\<lparr>ct_name = PromptNameSystem, ct_placeholders = []\<rparr>,
      \<lparr>ct_name = PromptNamePage, ct_placeholders = userPlaceholders\<rparr>,
      \<lparr>ct_name = PromptNameList, ct_placeholders = userPlaceholders\<rparr>]"

definition starts_rune :: "char \<Rightarrow> bool" where
  "starts_rune c \<longleftrightarrow> (of_char c :: nat) < 0x80 \<or> 0xC0 \<le> (of_char c :: nat)"

text \<open>The loop looks at the last three bytes; \<open>n\<close> counts the bytes it may still look at.\<close>

fun cut_back :: "nat \<Rightarrow> nat \<Rightarrow> string \<Rightarrow> string \<Rightarrow> string" where
  "cut_back 0 i piece dflt = dflt"
| "cut_back (Suc n) 0 piece dflt = dflt"
| "cut_back (Suc n) (Suc i) piece dflt = (if starts_rune (piece ! i) then take i piece else cut_back n i piece dflt)"

definition truncateHTML :: "string \<Rightarrow> string" where
  "truncateHTML html =
     (if length html \<le> promptMaxHTMLBytes then html
      else (let piece = take promptMaxHTMLBytes html in cut_back 3 (length piece) piece piece))"

definition BuildPrompt :: "loader \<Rightarrow> string \<Rightarrow> string \<Rightarrow> string \<Rightarrow> go_error + string \<times> string" where
  "BuildPrompt ld host tt html =
     (case ld PromptNameSystem of
        Inl err \<Rightarrow> Inl (Wrapped ''load llmgen system prompt'' err)
      | Inr system \<Rightarrow>
          let name = (if tt = TargetTypeList then PromptNameList else PromptNamePage)
          in case ld name of
               Inl err \<Rightarrow> Inl (Wrapped (''load '' @ name @ '' prompt'') err)
             | Inr template \<Rightarrow>
                 Inr (system, Render template
                   [(''{{HOST}}'', host), (''{{TARGET_TYPE}}'', tt),
                    (''{{MAX_HTML_BYTES}}'', int_text (int promptMaxHTMLBytes)), (''{{HTML}}'', truncateHTML html)]))"

section \<open>The JSON object of an answer\<close>

fun json_scan :: "int \<Rightarrow> bool \<Rightarrow> bool \<Rightarrow> string \<Rightarrow> string option" where
  "json_scan depth inString escape [] = None"
| "json_scan depth inString escape (ch # r) =
     (if escape then map_option (Cons ch) (json_scan depth inString False r)
      else if ch = CHR 0x5C \<and> inString then map_option (Cons ch) (json_scan depth inString True r)
      else if ch = CHR 0x22 then map_option (Cons ch) (json_scan depth (\<not> inString) False r)
      else if inString then map_option (Cons ch) (json_scan depth inString False r)
      else if ch = CHR ''{'' then map_option (Cons ch) (json_scan (depth + 1) inString False r)
      else if ch = CHR ''}''
        then (if depth - 1 = 0 then Some [ch] else map_option (Cons ch) (json_scan (depth - 1) inString False r))
      else map_option (Cons ch) (json_scan depth inString False r))"

definition extractJSON :: "(string \<Rightarrow> string) \<Rightarrow> string \<Rightarrow> string" where
  "extractJSON trim s =
     (case dropWhile (\<lambda>c. c \<noteq> CHR ''{'') (trim s) of
        [] \<Rightarrow> []
      | r \<Rightarrow> (case json_scan 0 False False r of None \<Rightarrow> [] | Some obj \<Rightarrow> obj))"

definition parseSelectorMap ::
  "(string \<Rightarrow> string) \<Rightarrow> (string \<Rightarrow> go_error + selector_map) \<Rightarrow> string \<Rightarrow> go_error + selector_map" where
  "parseSelectorMap trim unmarshal body =
     (let jsonStr = extractJSON trim body
      in if jsonStr = [] then Inl (Opaque ''no JSON object found in response'')
         else (case unmarshal jsonStr of
                 Inl err \<Rightarrow> Inl (Wrapped ''unmarshal selector map'' err)
               | Inr sm \<Rightarrow> Inr sm))"

section \<open>Selectors and their confidence\<close>

definition selectorMatches :: "'n rule_env \<Rightarrow> 'n \<Rightarrow> field_selector option \<Rightarrow> bool" where
  "selectorMatches E doc fso =
     (case fso of
        None \<Rightarrow> False
      | Some fs \<Rightarrow> ul_trim (pn_lib E) (fs_css fs) \<noteq> [] \<and> pn_find E doc (fs_css fs) \<noteq> [])"

definition validateSelectors :: "'n rule_env \<Rightarrow> selector_map \<Rightarrow> string \<Rightarrow> string \<Rightarrow> go_error option" where
  "validateSelectors E sm tt html =
     (case pn_parse E html of
        Inl err \<Rightarrow> Some (Wrapped ''goquery parse html'' err)
      | Inr doc \<Rightarrow>
          if tt = TargetTypeList then
            (if \<not> selectorMatches E doc (sm_item_container sm)
             then Some (Opaque ''ItemContainer selector matched 0 elements'')
             else if \<not> selectorMatches E doc (sm_item_link sm)
             then Some (Opaque ''ItemLink selector matched 0 elements'') else None)
          else
            (if \<not> selectorMatches E doc (sm_title sm) then Some (Opaque ''Title selector matched 0 elements'')
             else if \<not> selectorMatches E doc (sm_main sm)
             then Some (Opaque ''MainContent selector matched 0 elements'') else None))"

definition confidenceThreshold :: real where "confidenceThreshold = 1 / 2"

record field_confidence =
  fc_hit :: real
  fc_count :: int

definition publishedAtTimeLayouts :: "string list" where
  "publishedAtTimeLayouts =
     [''2006-01-02T15:04:05Z07:00'', ''2006-01-02T15:04:05.999999999Z07:00'', ''2006-01-02T15:04:05Z'',
      ''2006-01-02T15:04:05'', ''2006-01-02 15:04:05'', ''2006-01-02 15:04'', ''2006-01-02'',
      ''2006/01/02 15:04:05'', ''2006/01/02 15:04'', ''2006/01/02'', ''2006.01.02 15:04:05'',
      ''2006.01.02 15:04'', ''2006.01.02'', ''Mon, 02 Jan 2006 15:04:05 MST'',
      ''Mon, 02 Jan 2006 15:04:05 -0700'', ''January 2, 2006'', ''Jan 2, 2006'']"

definition tryParseDateLayouts :: "'n rule_env \<Rightarrow> string \<Rightarrow> bool" where
  "tryParseDateLayouts E txt = list_ex (\<lambda>layout. pn_time E layout txt \<noteq> None) publishedAtTimeLayouts"

definition extractFirstValue :: "'n rule_env \<Rightarrow> 'n \<Rightarrow> field_selector \<Rightarrow> string" where
  "extractFirstValue E first fs =
     (if fs_attr fs \<noteq> []
      then (case pn_attr E first (fs_attr fs) of Some v \<Rightarrow> ul_trim (pn_lib E) v | None \<Rightarrow> [])
      else ul_trim (pn_lib E) (pn_text E first))"

definition isFieldHit :: "'n rule_env \<Rightarrow> 'n \<Rightarrow> string \<Rightarrow> field_selector \<Rightarrow> bool" where
  "isFieldHit E doc field fs =
     (if ul_trim (pn_lib E) (fs_css fs) = [] then False
      else (case pn_find E doc (fs_css fs) of
              [] \<Rightarrow> False
            | first # _ \<Rightarrow>
                (let txt = extractFirstValue E first fs
                 in if txt = [] then False
                    else if field = ''published_at'' then tryParseDateLayouts E txt else True)))"

text \<open>
  The fields that reflection visits: the selector pointers with their JSON names, in the order of the struct. The
  link discovery is a pointer of another type and is skipped.
\<close>

definition selector_fields :: "selector_map \<Rightarrow> (string \<times> field_selector option) list" where
  "selector_fields sm =
     [(''title'', sm_title sm), (''main_content'', sm_main sm), (''summary'', sm_summary sm),
      (''author'', sm_author sm), (''published_at'', sm_published sm), (''category'', sm_category sm),
      (''tags'', sm_tags sm), (''images'', sm_images sm), (''item_container'', sm_item_container sm),
      (''item_link'', sm_item_link sm), (''item_title'', sm_item_title sm), (''item_snippet'', sm_item_snippet sm)]"

definition ComputeFieldConfidence :: "'n rule_env \<Rightarrow> selector_map \<Rightarrow> string \<Rightarrow> (string \<rightharpoonup> field_confidence)" where
  "ComputeFieldConfidence E sm html =
     (case pn_parse E html of
        Inl _ \<Rightarrow> Map.empty
      | Inr doc \<Rightarrow>
          map_of (List.map_filter
            (\<lambda>(tag, fso). map_option
               (\<lambda>fs. (tag, \<lparr>fc_hit = (if isFieldHit E doc tag fs then 1 else 0), fc_count = 1\<rparr>)) fso)
            (selector_fields sm)))"

definition keep_field :: "(string \<rightharpoonup> field_confidence) \<Rightarrow> string \<Rightarrow> field_selector option \<Rightarrow> field_selector option" where
  "keep_field conf tag fso =
     (case fso of
        None \<Rightarrow> None
      | Some fs \<Rightarrow>
         (case conf tag of
            None \<Rightarrow> Some fs
          | Some c \<Rightarrow> if fc_hit c < confidenceThreshold then None else Some fs))"

definition ApplyConfidenceFilter :: "selector_map \<Rightarrow> (string \<rightharpoonup> field_confidence) \<Rightarrow> selector_map" where
  "ApplyConfidenceFilter sm conf =
     sm\<lparr>sm_title := keep_field conf ''title'' (sm_title sm),
        sm_main := keep_field conf ''main_content'' (sm_main sm),
        sm_summary := keep_field conf ''summary'' (sm_summary sm),
        sm_author := keep_field conf ''author'' (sm_author sm),
        sm_published := keep_field conf ''published_at'' (sm_published sm),
        sm_category := keep_field conf ''category'' (sm_category sm),
        sm_tags := keep_field conf ''tags'' (sm_tags sm),
        sm_images := keep_field conf ''images'' (sm_images sm),
        sm_item_container := keep_field conf ''item_container'' (sm_item_container sm),
        sm_item_link := keep_field conf ''item_link'' (sm_item_link sm),
        sm_item_title := keep_field conf ''item_title'' (sm_item_title sm),
        sm_item_snippet := keep_field conf ''item_snippet'' (sm_item_snippet sm)\<rparr>"

section \<open>Reject reasons\<close>

text \<open>The value a context carries under the package's private key, if any.\<close>

definition WithRejectReason :: "(string \<Rightarrow> string) \<Rightarrow> string option \<Rightarrow> string \<Rightarrow> string option" where
  "WithRejectReason trim ctx reason = (if trim reason = [] then ctx else Some (trim reason))"

definition RejectReasonFromContext :: "string option \<Rightarrow> string \<times> bool" where
  "RejectReasonFromContext ctx = (case ctx of None \<Rightarrow> ([], False) | Some v \<Rightarrow> if v = [] then ([], False) else (v, True))"

section \<open>The filter keeps exactly the selectors that hit\<close>

definition only_hits :: "'n rule_env \<Rightarrow> 'n \<Rightarrow> string \<Rightarrow> field_selector option \<Rightarrow> field_selector option" where
  "only_hits E doc tag fso = (case fso of None \<Rightarrow> None | Some fs \<Rightarrow> if isFieldHit E doc tag fs then Some fs else None)"

lemma computed_confidence:
  assumes p: "pn_parse E html = Inr doc" and "(tag, Some fs) \<in> set (selector_fields sm)"
  shows "ComputeFieldConfidence E sm html tag = Some \<lparr>fc_hit = (if isFieldHit E doc tag fs then 1 else 0), fc_count = 1\<rparr>"
proof -
  let ?g = "\<lambda>(tag, fso). map_option
               (\<lambda>fs. (tag, \<lparr>fc_hit = (if isFieldHit E doc tag fs then (1::real) else 0), fc_count = 1\<rparr>)) fso"
  have d: "distinct (map fst (selector_fields sm))" by (simp add: selector_fields_def)
  have "map_of (List.map_filter ?g xs) tag = Some \<lparr>fc_hit = (if isFieldHit E doc tag fs then 1 else 0), fc_count = 1\<rparr>"
    if "distinct (map fst xs)" and "(tag, Some fs) \<in> set xs" for xs
    using that
  proof (induction xs)
    case (Cons x xs)
    obtain t fso where x: "x = (t, fso)" by (rule prod.exhaust)
    show ?case
    proof (cases "x = (tag, Some fs)")
      case True
      then show ?thesis by (simp add: List.map_filter_def)
    next
      case False
      then have "(tag, Some fs) \<in> set xs" using Cons.prems by auto
      moreover from this have "t \<noteq> tag" using Cons.prems(1) by (force simp: x)
      ultimately show ?thesis using Cons.IH Cons.prems(1) by (cases fso) (simp_all add: x List.map_filter_def)
    qed
  qed simp
  from this [OF d assms(2)] show ?thesis by (simp add: ComputeFieldConfidence_def p)
qed

lemma keep_field_hits:
  assumes "pn_parse E html = Inr doc" and "(tag, fso) \<in> set (selector_fields sm)"
  shows "keep_field (ComputeFieldConfidence E sm html) tag fso = only_hits E doc tag fso"
  using computed_confidence [OF assms(1)] assms(2)
  by (cases fso) (auto simp: keep_field_def only_hits_def confidenceThreshold_def)

text \<open>On a sample page that parses, the selectors the generator stores are those of the model that
  hit the page, field by field: each kept selector finds a value (a date, for the publication date), and no selector that
  hits is dropped.\<close>

theorem stored_selectors_hit:
  assumes "pn_parse E html = Inr doc"
  shows "selector_fields (ApplyConfidenceFilter sm (ComputeFieldConfidence E sm html))
    = map (\<lambda>(tag, fso). (tag, only_hits E doc tag fso)) (selector_fields sm)"
proof -
  note k = keep_field_hits [OF assms, of _ _ sm]
  have "selector_fields (ApplyConfidenceFilter sm conf)
      = map (\<lambda>(tag, fso). (tag, keep_field conf tag fso)) (selector_fields sm)" for conf
    by (simp add: selector_fields_def ApplyConfidenceFilter_def)
  also have "map (\<lambda>(tag, fso). (tag, keep_field (ComputeFieldConfidence E sm html) tag fso)) (selector_fields sm)
      = map (\<lambda>(tag, fso). (tag, only_hits E doc tag fso)) (selector_fields sm)"
    using k by (intro map_cong) auto
  finally show ?thesis .
qed

text \<open>
  The check of the selectors asks for an element, the filter for a value: a title selector that matches an empty
  element passes the check and is then dropped, so the rule is stored without its title.
\<close>

lemma checked_title_dropped:
  assumes p: "pn_parse E html = Inr doc" and f: "pn_find E doc (fs_css fs) = n # ns"
    and c: "ul_trim (pn_lib E) (fs_css fs) \<noteq> []" and v: "extractFirstValue E n fs = []"
    and m: "selectorMatches E doc (sm_main sm)" and s: "sm_title sm = Some fs" and t: "tt \<noteq> TargetTypeList"
  shows "validateSelectors E sm tt html = None
    \<and> sm_title (ApplyConfidenceFilter sm (ComputeFieldConfidence E sm html)) = None"
proof -
  have "keep_field (ComputeFieldConfidence E sm html) ''title'' (sm_title sm) = only_hits E doc ''title'' (sm_title sm)"
    by (rule keep_field_hits [OF p]) (simp add: selector_fields_def)
  then show ?thesis
    by (simp add: validateSelectors_def p selectorMatches_def [of _ _ "Some fs"] s c f m t ApplyConfidenceFilter_def
        only_hits_def isFieldHit_def v)
qed

section \<open>The scanner finds balanced objects\<close>

text \<open>
  The texts of JSON shape: \<open>Quoted\<close> is the rest of a string literal, \<open>Body\<close> what may stand between braces,
  where strings are opaque and braces balanced.
\<close>

inductive json_quoted :: "string \<Rightarrow> bool" where
  quote_end: "json_quoted [CHR 0x22]"
| quote_escape: "json_quoted r \<Longrightarrow> json_quoted (CHR 0x5C # c # r)"
| quote_char: "json_quoted r \<Longrightarrow> c \<noteq> CHR 0x22 \<Longrightarrow> c \<noteq> CHR 0x5C \<Longrightarrow> json_quoted (c # r)"

inductive json_body :: "string \<Rightarrow> bool" where
  body_nil: "json_body []"
| body_char: "json_body r \<Longrightarrow> c \<notin> {CHR 0x22, CHR ''{'', CHR ''}''} \<Longrightarrow> json_body (c # r)"
| body_string: "json_quoted q \<Longrightarrow> json_body r \<Longrightarrow> json_body (CHR 0x22 # q @ r)"
| body_object: "json_body b \<Longrightarrow> json_body r \<Longrightarrow> json_body (CHR ''{'' # b @ CHR ''}'' # r)"

definition json_object :: "string \<Rightarrow> bool" where
  "json_object s \<longleftrightarrow> (\<exists>b. s = CHR ''{'' # b @ ''}'' \<and> json_body b)"

lemma scan_quoted:
  assumes "json_quoted q"
  shows "json_scan d True False (q @ r) = map_option ((@) q) (json_scan d False False r)"
  using assms by (induction) (auto simp: option.map_comp comp_def)

lemma scan_body:
  assumes "json_body b" and "0 < d"
  shows "json_scan d False False (b @ r) = map_option ((@) b) (json_scan d False False r)"
  using assms
proof (induction arbitrary: d r)
  case body_nil
  then show ?case by (simp add: option.map_ident)
next
  case (body_char b c)
  then show ?case by (simp add: option.map_comp comp_def)
next
  case (body_string q b)
  then show ?case using scan_quoted [OF body_string.hyps(1), of d "b @ r"] by (simp add: option.map_comp comp_def)
next
  case (body_object b b')
  have "json_scan (d + 1) False False (b @ CHR ''}'' # b' @ r)
      = map_option ((@) b) (map_option (Cons (CHR ''}'')) (json_scan d False False (b' @ r)))"
    using body_object.IH(1) [of "d + 1" "CHR ''}'' # b' @ r"] body_object.prems by simp
  then show ?case using body_object.IH(2) [of d r] body_object.prems by (simp add: option.map_comp comp_def)
qed

lemma scan_object: "json_object obj \<Longrightarrow> json_scan 0 False False (obj @ r) = Some obj"
  using scan_body [of _ 1 "''}'' @ r"] by (auto simp: json_object_def)

text \<open>Conversely, what the scanner returns closes the braces that are open: \<open>closes n s\<close>.\<close>

fun json_closes :: "nat \<Rightarrow> string \<Rightarrow> bool" where
  "json_closes 0 s \<longleftrightarrow> s = []"
| "json_closes (Suc n) s \<longleftrightarrow> (\<exists>b r. s = b @ CHR ''}'' # r \<and> json_body b \<and> json_closes n r)"

lemma closes_SucI: "json_body b \<Longrightarrow> json_closes n r \<Longrightarrow> s = b @ CHR ''}'' # r \<Longrightarrow> json_closes (Suc n) s"
  unfolding json_closes.simps by blast

lemma closes_SucE:
  assumes "json_closes (Suc n) s"
  obtains b r where "s = b @ CHR ''}'' # r" and "json_body b" and "json_closes n r"
  using assms unfolding json_closes.simps by blast

lemma closes_char:
  assumes "json_closes (Suc n) s" and c: "c \<notin> {CHR 0x22, CHR ''{'', CHR ''}''}"
  shows "json_closes (Suc n) (c # s)"
  using assms(1)
proof (rule closes_SucE)
  fix b r
  assume s: "s = b @ CHR ''}'' # r" and b: "json_body b" and r: "json_closes n r"
  show ?thesis by (rule closes_SucI [OF body_char [OF b c] r]) (simp add: s)
qed

lemma closes_string:
  assumes "json_closes (Suc n) s" and q: "json_quoted q"
  shows "json_closes (Suc n) (CHR 0x22 # q @ s)"
  using assms(1)
proof (rule closes_SucE)
  fix b r
  assume s: "s = b @ CHR ''}'' # r" and b: "json_body b" and r: "json_closes n r"
  show ?thesis by (rule closes_SucI [OF body_string [OF q b] r]) (simp add: s)
qed

lemma closes_open:
  assumes "json_closes (Suc (Suc n)) s"
  shows "json_closes (Suc n) (CHR ''{'' # s)"
  using assms
proof (rule closes_SucE)
  fix b r
  assume s: "s = b @ CHR ''}'' # r" and b: "json_body b" and r: "json_closes (Suc n) r"
  from r show ?thesis
  proof (rule closes_SucE)
    fix b' r'
    assume r': "r = b' @ CHR ''}'' # r'" and b': "json_body b'" and c: "json_closes n r'"
    show ?thesis by (rule closes_SucI [OF body_object [OF b b'] c]) (simp add: s r')
  qed
qed

lemma closes_close: "json_closes n s \<Longrightarrow> json_closes (Suc n) (CHR ''}'' # s)"
  by (rule closes_SucI [OF body_nil]) simp_all

lemma scan_prefix: "json_scan d inS esc s = Some out \<Longrightarrow> prefix out s"
  by (induction d inS esc s arbitrary: out rule: json_scan.induct) (auto split: if_splits)

text \<open>Outside a string, in one, and after its backslash.\<close>

definition closes_in :: "nat \<Rightarrow> string \<Rightarrow> bool" where
  "closes_in n s \<longleftrightarrow> (\<exists>q r. s = q @ r \<and> json_quoted q \<and> json_closes n r)"

lemma closes_inI: "json_quoted q \<Longrightarrow> json_closes n r \<Longrightarrow> s = q @ r \<Longrightarrow> closes_in n s"
  unfolding closes_in_def by blast

lemma closes_in_char:
  assumes "closes_in n s" and c: "c \<noteq> CHR 0x22" "c \<noteq> CHR 0x5C"
  shows "closes_in n (c # s)"
proof -
  obtain q r where q: "s = q @ r" "json_quoted q" "json_closes n r" using assms(1) unfolding closes_in_def by blast
  show ?thesis by (rule closes_inI [OF quote_char [OF q(2) c] q(3)]) (simp add: q(1))
qed

lemma closes_in_escape:
  assumes "closes_in n s"
  shows "closes_in n (CHR 0x5C # c # s)"
proof -
  obtain q r where q: "s = q @ r" "json_quoted q" "json_closes n r" using assms unfolding closes_in_def by blast
  show ?thesis by (rule closes_inI [OF quote_escape [OF q(2)] q(3)]) (simp add: q(1))
qed

lemma closes_in_end: "json_closes n s \<Longrightarrow> closes_in n (CHR 0x22 # s)"
  by (rule closes_inI [OF quote_end]) simp_all

lemma closes_in_string: "closes_in (Suc n) s \<Longrightarrow> json_closes (Suc n) (CHR 0x22 # s)"
  unfolding closes_in_def using closes_string by blast

lemma scan_sound:
  "(json_scan (int (Suc n)) False False s = Some out \<longrightarrow> json_closes (Suc n) out)
   \<and> (json_scan (int (Suc n)) True False s = Some out \<longrightarrow> closes_in (Suc n) out)
   \<and> (json_scan (int (Suc n)) True True s = Some out \<longrightarrow> closes_in (Suc n) (CHR 0x5C # out))"
proof (induction s arbitrary: n out)
  case (Cons ch s)
  have outside: "json_closes (Suc n) out" if a: "json_scan (int (Suc n)) False False (ch # s) = Some out"
  proof -
    consider "ch = CHR 0x22" | "ch = CHR ''{''" | "ch = CHR ''}''" | "ch \<notin> {CHR 0x22, CHR ''{'', CHR ''}''}" by blast
    then show ?thesis
    proof cases
      case 1
      then obtain o1 where o1: "out = ch # o1" "json_scan (int (Suc n)) True False s = Some o1" using a by auto
      then have "closes_in (Suc n) o1" using Cons by blast
      then show ?thesis using closes_in_string by (simp only: o1 1)
    next
      case 2
      then obtain o1 where o1: "out = ch # o1" "json_scan (int (Suc (Suc n))) False False s = Some o1" using a by auto
      then have "json_closes (Suc (Suc n)) o1" using Cons by blast
      then show ?thesis using closes_open by (simp only: o1 2)
    next
      case 3
      show ?thesis
      proof (cases n)
        case 0
        then show ?thesis using a closes_close [of 0 "[]"] by (simp add: 3 del: json_closes.simps(2))
      next
        case (Suc m)
        then obtain o1 where o1: "out = ch # o1" "json_scan (int (Suc m)) False False s = Some o1"
          using a by (auto simp: 3)
        then have "json_closes (Suc m) o1" using Cons by blast
        then show ?thesis using closes_close by (simp only: o1 3 Suc)
      qed
    next
      case 4
      then obtain o1 where o1: "out = ch # o1" "json_scan (int (Suc n)) False False s = Some o1" using a by auto
      then have "json_closes (Suc n) o1" using Cons by blast
      then show ?thesis using closes_char [OF _ 4] by (simp only: o1)
    qed
  qed
  have inside: "closes_in (Suc n) out" if a: "json_scan (int (Suc n)) True False (ch # s) = Some out"
  proof -
    consider "ch = CHR 0x22" | "ch = CHR 0x5C" | "ch \<noteq> CHR 0x22" "ch \<noteq> CHR 0x5C" by blast
    then show ?thesis
    proof cases
      case 1
      then obtain o1 where o1: "out = ch # o1" "json_scan (int (Suc n)) False False s = Some o1" using a by auto
      then have "json_closes (Suc n) o1" using Cons by blast
      then show ?thesis using closes_in_end by (simp only: o1 1)
    next
      case 2
      then obtain o1 where o1: "out = ch # o1" "json_scan (int (Suc n)) True True s = Some o1" using a by auto
      then show ?thesis using Cons by (simp only: o1 2)
    next
      case 3
      then obtain o1 where o1: "out = ch # o1" "json_scan (int (Suc n)) True False s = Some o1" using a by auto
      then have "closes_in (Suc n) o1" using Cons by blast
      then show ?thesis using closes_in_char 3 by (simp only: o1) 
    qed
  qed
  have escaped: "closes_in (Suc n) (CHR 0x5C # out)" if a: "json_scan (int (Suc n)) True True (ch # s) = Some out"
  proof -
    obtain o1 where o1: "out = ch # o1" "json_scan (int (Suc n)) True False s = Some o1" using a by auto
    then have "closes_in (Suc n) o1" using Cons by blast
    then show ?thesis using closes_in_escape by (simp only: o1)
  qed
  show ?case using outside inside escaped by blast
qed simp

lemma scan_object_sound:
  assumes "json_scan 0 False False (CHR ''{'' # s) = Some obj"
  shows "json_object obj"
proof -
  obtain o1 where o1: "obj = CHR ''{'' # o1" "json_scan (int (Suc 0)) False False s = Some o1" using assms by auto
  then have "json_closes (Suc 0) o1" using scan_sound by blast
  then show ?thesis by (auto simp: o1 json_object_def)
qed

text \<open>The text taken out of a model's answer is the balanced object at its first brace: braces in
  string literals do not count, escaped quotes do not end a literal; it is empty exactly when no balanced
  object starts at the first brace.\<close>

theorem answer_object_balanced:
  assumes "obj \<noteq> []"
  shows "extractJSON trim s = obj \<longleftrightarrow>
    (\<exists>pre post. trim s = pre @ obj @ post \<and> CHR ''{'' \<notin> set pre \<and> json_object obj)"
proof
  assume e: "extractJSON trim s = obj"
  define r where "r = dropWhile (\<lambda>c. c \<noteq> CHR ''{'') (trim s)"
  have sc: "r \<noteq> []" "json_scan 0 False False r = Some obj"
    using e assms unfolding extractJSON_def r_def [symmetric] by (auto simp del: json_scan.simps split: list.splits option.splits)
  then obtain t where t: "r = CHR ''{'' # t"
    using hd_dropWhile [of "\<lambda>c. c \<noteq> CHR ''{''" "trim s"] unfolding r_def [symmetric] by (cases r) auto
  have "trim s = takeWhile (\<lambda>c. c \<noteq> CHR ''{'') (trim s) @ r" by (simp add: r_def)
  moreover obtain post where "r = obj @ post" using scan_prefix [OF sc(2)] by (auto simp: prefix_def)
  moreover have "CHR ''{'' \<notin> set (takeWhile (\<lambda>c. c \<noteq> CHR ''{'') (trim s))" by (auto dest: set_takeWhileD)
  moreover have "json_object obj" using scan_object_sound sc(2) by (simp only: t)
  ultimately show "\<exists>pre post. trim s = pre @ obj @ post \<and> CHR ''{'' \<notin> set pre \<and> json_object obj" by metis
next
  assume "\<exists>pre post. trim s = pre @ obj @ post \<and> CHR ''{'' \<notin> set pre \<and> json_object obj"
  then obtain pre post where p: "trim s = pre @ obj @ post" "CHR ''{'' \<notin> set pre" "json_object obj" by blast
  obtain t where t: "obj = CHR ''{'' # t" using p(3) by (auto simp: json_object_def)
  have "dropWhile (\<lambda>c. c \<noteq> CHR ''{'') (pre @ obj @ post) = dropWhile (\<lambda>c. c \<noteq> CHR ''{'') (obj @ post)"
    using p(2) by (intro dropWhile_append2) auto
  then have "dropWhile (\<lambda>c. c \<noteq> CHR ''{'') (trim s) = obj @ post" by (simp add: p(1) t)
  moreover have "json_scan 0 False False (obj @ post) = Some obj" using scan_object [OF p(3)] .
  ultimately show "extractJSON trim s = obj" by (simp add: extractJSON_def t del: json_scan.simps)
qed

text \<open>The answer of a model: prose, a fence, an object with a brace in a string.\<close>

definition sample_answer :: string where
  "sample_answer = ''Here: {'' @ [CHR 0x22] @ ''css'' @ [CHR 0x22] @ '': '' @ [CHR 0x22] @ ''a}'' @ [CHR 0x22] @ ''} done }''"

theorem answer_object_balanced_witness:
  "extractJSON (\<lambda>x. x) sample_answer = take 13 (drop 6 sample_answer)
   \<and> (\<exists>pre post. sample_answer = pre @ take 13 (drop 6 sample_answer) @ post \<and> CHR ''{'' \<notin> set pre
        \<and> json_object (take 13 (drop 6 sample_answer)))"
proof -
  have n: "take 13 (drop 6 sample_answer) \<noteq> []" by code_simp
  have e: "extractJSON (\<lambda>x. x) sample_answer = take 13 (drop 6 sample_answer)" by code_simp
  show ?thesis using e answer_object_balanced [OF n, of "\<lambda>x. x" sample_answer] by simp
qed

definition sample_generated :: selector_map where
  "sample_generated =
     \<lparr>sm_title = Some \<lparr>fs_css = ''h1'', fs_attr = [], fs_multi = False\<rparr>, sm_main = None, sm_summary = None,
      sm_author = None, sm_published = Some \<lparr>fs_css = ''time'', fs_attr = [], fs_multi = False\<rparr>, sm_category = None,
      sm_tags = None, sm_images = None, sm_item_container = None, sm_item_link = None, sm_item_title = None,
      sm_item_snippet = None, sm_discovery = None\<rparr>"

theorem stored_selectors_hit_witness:
  "selector_fields (ApplyConfidenceFilter sample_generated (ComputeFieldConfidence sample_rule_env sample_generated ''x''))
     = map (\<lambda>(tag, fso). (tag, only_hits sample_rule_env ''x'' tag fso)) (selector_fields sample_generated)
   \<and> only_hits sample_rule_env ''x'' ''title'' (sm_title sample_generated) = sm_title sample_generated
   \<and> only_hits sample_rule_env ''x'' ''published_at'' (sm_published sample_generated) = None"
proof (intro conjI)
  have p: "pn_parse sample_rule_env ''x'' = Inr ''x''" by (simp add: sample_rule_env_def)
  show "selector_fields (ApplyConfidenceFilter sample_generated (ComputeFieldConfidence sample_rule_env sample_generated ''x''))
     = map (\<lambda>(tag, fso). (tag, only_hits sample_rule_env ''x'' tag fso)) (selector_fields sample_generated)"
    by (rule stored_selectors_hit [OF p])
  show "only_hits sample_rule_env ''x'' ''title'' (sm_title sample_generated) = sm_title sample_generated" by code_simp
  show "only_hits sample_rule_env ''x'' ''published_at'' (sm_published sample_generated) = None" by code_simp
qed

section \<open>The breaker blocks after the threshold and for the cooldown\<close>

lemma rate_limits_other: "k \<noteq> key \<Longrightarrow> map_of (hb_st (fold (\<lambda>t. RecordRateLimit t key) ts b)) k = map_of (hb_st b) k"
  by (induction ts arbitrary: b) (simp_all add: RecordRateLimit_def Let_def update_conv')

lemma rate_limits_cfg:
  "hb_threshold (fold (\<lambda>t. RecordRateLimit t key) ts b) = hb_threshold b
   \<and> hb_cooldown (fold (\<lambda>t. RecordRateLimit t key) ts b) = hb_cooldown b"
  by (induction ts arbitrary: b) (simp_all add: RecordRateLimit_def Let_def)

lemma rate_limit_first: "map_of (hb_st b) key = None \<Longrightarrow>
    map_of (hb_st (RecordRateLimit t key b)) key
      = Some \<lparr>hb_failures = 1, hb_until = (if hb_threshold b \<le> 1 then Some (t + hb_cooldown b) else None)\<rparr>"
  by (simp add: RecordRateLimit_def Let_def update_conv')

lemma rate_limit_again: "map_of (hb_st b) key = Some st \<Longrightarrow>
    map_of (hb_st (RecordRateLimit t key b)) key
      = Some \<lparr>hb_failures = hb_failures st + 1,
          hb_until = (if hb_threshold b \<le> hb_failures st + 1 then Some (t + hb_cooldown b) else hb_until st)\<rparr>"
  by (simp add: RecordRateLimit_def Let_def update_conv')

lemma rate_limits_state:
  assumes "map_of (hb_st b) key = None" and "ts \<noteq> []"
  shows "map_of (hb_st (fold (\<lambda>t. RecordRateLimit t key) ts b)) key
    = Some \<lparr>hb_failures = int (length ts),
            hb_until = (if hb_threshold b \<le> int (length ts) then Some (last ts + hb_cooldown b) else None)\<rparr>"
  using assms(2)
proof (induction ts rule: rev_induct)
  case (snoc t ts)
  let ?b = "fold (\<lambda>t. RecordRateLimit t key) ts b"
  note cfg = rate_limits_cfg [of key ts b]
  show ?case
  proof (cases "ts = []")
    case True
    then show ?thesis using rate_limit_first [OF assms(1), of t] by simp
  next
    case False
    then show ?thesis using rate_limit_again [OF snoc.IH [OF False], of t] cfg by auto
  qed
qed simp

text \<open>For a host without an entry, after any number of rate limits in a row the breaker refuses the
  next generation exactly when their number reached the threshold and the cooldown since the last one is not over, and
  it reports what is left of the cooldown; other hosts are not affected, and a success clears the host.\<close>

theorem breaker_blocks_exactly:
  assumes "map_of (hb_st b) key = None" and "ts \<noteq> []"
  shows "fst (breaker_Allow now key (fold (\<lambda>t. RecordRateLimit t key) ts b))
      = (if hb_threshold b \<le> int (length ts) \<and> now < last ts + hb_cooldown b
         then (False, last ts + hb_cooldown b - now) else (True, 0))
    \<and> (\<forall>k. k \<noteq> key \<longrightarrow> fst (breaker_Allow now k (fold (\<lambda>t. RecordRateLimit t key) ts b)) = fst (breaker_Allow now k b))
    \<and> map_of (hb_st (breaker_RecordSuccess key (fold (\<lambda>t. RecordRateLimit t key) ts b))) key = None"
  using rate_limits_state [OF assms]
  by (auto simp: breaker_Allow_def breaker_RecordSuccess_def delete_conv rate_limits_other split: option.splits)

theorem breaker_blocks_exactly_witness:
  "fst (breaker_Allow 15 (''h'', ''page'') (fold (\<lambda>t. RecordRateLimit t (''h'', ''page'')) [1, 2, 9] (NewHostBreaker 3 10)))
     = (False, 4)"
  using breaker_blocks_exactly [of "NewHostBreaker 3 10" "(''h'', ''page'')" "[1, 2, 9]" 15]
  by (simp add: NewHostBreaker_def)

section \<open>The local budget\<close>

text \<open>Calls one after another that use the local windows, no window's clock running backwards.\<close>

fun ordered_calls :: "(string \<Rightarrow> gotime) \<Rightarrow> budget_call list \<Rightarrow> bool" where
  "ordered_calls t0 [] \<longleftrightarrow> True"
| "ordered_calls t0 (c # cs) \<longleftrightarrow> bc_count c = None
     \<and> (\<forall>w. t0 w \<le> bc_now c w \<and> bc_now c w \<le> bc_prune c w \<and> bc_prune c w \<le> bc_rec c w) \<and> ordered_calls (bc_rec c) cs"

text \<open>The times at which granted calls are recorded in a window.\<close>

fun budget_grants :: "string \<Rightarrow> budget_call list \<Rightarrow> call_budget \<Rightarrow> gotime list" where
  "budget_grants w [] b = []"
| "budget_grants w (c # cs) b =
     (case budget_Allow c (Some b) of
        ((ok, _), _, bo) \<Rightarrow>
          (case bo of None \<Rightarrow> [] | Some b' \<Rightarrow> (if ok then [bc_rec c w] else []) @ budget_grants w cs b'))"

lemma allow_local:
  assumes c: "bc_count c = None" and a: "budget_Allow c (Some b) = ((ok, v), out, bo)"
    and w: "(w, cap, dur) \<in> set (windows_of (cbu_cfg b))" and cap: "0 < cap"
  shows "\<exists>b'. bo = Some b' \<and> cbu_cfg b' = cbu_cfg b
    \<and> (if ok then int (length (filter (\<lambda>t. bc_now c w + - dur < t) (cbu_local b w))) < cap
              \<and> cbu_local b' w = filter (\<lambda>t. bc_prune c w + - dur < t)
                                   (filter (\<lambda>t. bc_now c w + - dur < t) (cbu_local b w)) @ [bc_rec c w]
       else cbu_local b' w \<in> {cbu_local b w, filter (\<lambda>t. bc_now c w + - dur < t) (cbu_local b w)})"
proof -
  note d = budget_Allow_def windows_of_def budget_count_def localCount_def localRecord_def pruneLocked_def budget_noteState_def
    Let_def budget_windows c
  from w consider "w = BudgetWindowHourly" "cap = bg_hourly (cbu_cfg b)" "dur = hour"
    | "w = BudgetWindowDaily" "cap = bg_daily (cbu_cfg b)" "dur = 24 * hour"
    by (auto simp: windows_of_def)
  then show ?thesis
  proof cases
    case 1
    show ?thesis using a cap unfolding 1 by (simp add: d split: if_splits; auto)
  next
    case 2
    show ?thesis using a cap unfolding 2 by (simp add: d split: if_splits; auto)
  qed
qed

definition within_cap :: "int \<Rightarrow> duration \<Rightarrow> gotime list \<Rightarrow> bool" where
  "within_cap cap dur H \<longleftrightarrow> (\<forall>x. int (length (filter (\<lambda>t. x - dur < t \<and> t \<le> x) H)) \<le> cap)"

lemma filter_length_mono: "(\<And>x. P x \<Longrightarrow> Q x) \<Longrightarrow> length (filter P xs) \<le> length (filter Q xs)"
  by (induction xs) auto

lemma within_cap_snoc:
  assumes "within_cap cap dur H" and "int (length (filter (\<lambda>t. c - dur < t) H)) < cap" and "c \<le> g" and "\<forall>t \<in> set H. t \<le> g"
  shows "within_cap cap dur (H @ [g])"
  unfolding within_cap_def
proof
  fix x
  show "int (length (filter (\<lambda>t. x - dur < t \<and> t \<le> x) (H @ [g]))) \<le> cap"
  proof (cases "x - dur < g \<and> g \<le> x")
    case False
    then show ?thesis using assms(1) by (auto simp: within_cap_def)
  next
    case True
    have "length (filter (\<lambda>t. x - dur < t \<and> t \<le> x) H) \<le> length (filter (\<lambda>t. c - dur < t) H)"
      using True assms(3) by (intro filter_length_mono) auto
    then show ?thesis using True assms(2) by simp
  qed
qed

text \<open>The window holds the grants after some cutoff that no later reading reaches back to.\<close>

definition window_inv :: "string \<Rightarrow> int \<Rightarrow> duration \<Rightarrow> gotime \<Rightarrow> gotime list \<Rightarrow> call_budget \<Rightarrow> bool" where
  "window_inv w cap dur t0 H b \<longleftrightarrow> within_cap cap dur H \<and> (\<forall>t \<in> set H. t \<le> t0)
     \<and> (\<exists>edge \<le> t0 - dur. cbu_local b w = filter (\<lambda>t. edge < t) H)"

lemma window_inv_step:
  assumes inv: "window_inv w cap dur t0 H b" and c: "bc_count c = None"
    and o: "t0 \<le> bc_now c w" "bc_now c w \<le> bc_prune c w" "bc_prune c w \<le> bc_rec c w"
    and a: "budget_Allow c (Some b) = ((ok, v), out, bo)"
    and w: "(w, cap, dur) \<in> set (windows_of (cbu_cfg b))" and cap: "0 < cap" and dur: "0 < dur"
  shows "\<exists>b'. bo = Some b' \<and> cbu_cfg b' = cbu_cfg b
    \<and> window_inv w cap dur (bc_rec c w) (H @ (if ok then [bc_rec c w] else [])) b'"
proof -
  obtain b' where b': "bo = Some b'" "cbu_cfg b' = cbu_cfg b"
    and l: "if ok then int (length (filter (\<lambda>t. bc_now c w + - dur < t) (cbu_local b w))) < cap
              \<and> cbu_local b' w = filter (\<lambda>t. bc_prune c w + - dur < t)
                                   (filter (\<lambda>t. bc_now c w + - dur < t) (cbu_local b w)) @ [bc_rec c w]
       else cbu_local b' w \<in> {cbu_local b w, filter (\<lambda>t. bc_now c w + - dur < t) (cbu_local b w)}"
    using allow_local [OF c a w cap] by blast
  obtain edge where e: "edge \<le> t0 - dur" "cbu_local b w = filter (\<lambda>t. edge < t) H" and h: "within_cap cap dur H" "\<forall>t \<in> set H. t \<le> t0"
    using inv by (auto simp: window_inv_def)
  have f: "filter (\<lambda>t. m + - dur < t) (filter (\<lambda>t. edge < t) H) = filter (\<lambda>t. m - dur < t) H" if "t0 \<le> m" for m
    using that e(1) by (simp add: filter_filter) (intro filter_cong refl, auto)
  have twice: "filter (\<lambda>t. bc_prune c w + - dur < t) (filter (\<lambda>t. bc_now c w + - dur < t) (cbu_local b w))
      = filter (\<lambda>t. bc_prune c w - dur < t) H"
    unfolding e(2) filter_filter using o(1,2) e(1) by (intro filter_cong refl) auto
  have late: "\<forall>t \<in> set H. t \<le> bc_rec c w" using h(2) o by force
  show ?thesis
  proof (cases ok)
    case True
    have n: "int (length (filter (\<lambda>t. bc_now c w - dur < t) H)) < cap" using l True f [OF o(1)] by (simp add: e(2))
    have "cbu_local b' w = filter (\<lambda>t. bc_prune c w - dur < t) H @ [bc_rec c w]"
      using l True twice by simp
    then have "cbu_local b' w = filter (\<lambda>t. bc_prune c w - dur < t) (H @ [bc_rec c w])" using o dur by simp
    moreover have "within_cap cap dur (H @ [bc_rec c w])"
      using within_cap_snoc [OF h(1) n _ late] o by linarith
    ultimately show ?thesis using b' late o True by (auto simp: window_inv_def intro!: exI [of _ "bc_prune c w - dur"])
  next
    case False
    then have "cbu_local b' w \<in> {filter (\<lambda>t. edge < t) H, filter (\<lambda>t. bc_now c w - dur < t) H}"
      using l f [OF o(1)] by (simp add: e(2))
    moreover have "edge \<le> bc_rec c w - dur" "bc_now c w - dur \<le> bc_rec c w - dur" using e(1) o by auto
    ultimately have "\<exists>edge' \<le> bc_rec c w - dur. cbu_local b' w = filter (\<lambda>t. edge' < t) H" by blast
    then show ?thesis using b' late False h(1) by (auto simp: window_inv_def)
  qed
qed

lemma windows_positive: "(w, cap, dur) \<in> set (windows_of c) \<Longrightarrow> 0 < dur"
  by (auto simp: windows_of_def)

lemma grants_within:
  assumes "window_inv w cap dur (t0 w) H b" and "ordered_calls t0 cs"
    and "(w, cap, dur) \<in> set (windows_of (cbu_cfg b))" and "0 < cap"
  shows "within_cap cap dur (H @ budget_grants w cs b)"
  using assms
proof (induction cs arbitrary: t0 H b)
  case Nil
  then show ?case by (simp add: window_inv_def)
next
  case (Cons c cs)
  obtain ok v out bo where a: "budget_Allow c (Some b) = ((ok, v), out, bo)" by (metis prod.exhaust)
  have o: "bc_count c = None" "t0 w \<le> bc_now c w" "bc_now c w \<le> bc_prune c w" "bc_prune c w \<le> bc_rec c w"
    "ordered_calls (bc_rec c) cs"
    using Cons.prems(2) by auto
  obtain b' where b': "bo = Some b'" "cbu_cfg b' = cbu_cfg b"
      "window_inv w cap dur (bc_rec c w) (H @ (if ok then [bc_rec c w] else [])) b'"
    using window_inv_step [OF Cons.prems(1) o(1-4) a Cons.prems(3,4) windows_positive [OF Cons.prems(3)]] by blast
  have "within_cap cap dur ((H @ (if ok then [bc_rec c w] else [])) @ budget_grants w cs b')"
    by (rule Cons.IH [OF b'(3) o(5)]) (use Cons.prems b' in auto)
  then show ?case by (simp add: a b'(1))
qed

text \<open>C32. With the local windows and calls one after another, no hour and no day, wherever they start, sees
  more granted model calls than its cap.\<close>

theorem no_window_exceeds_cap:
  assumes "NewCallBudget c = Some b" and "(w, cap, dur) \<in> set (windows_of c)" and "0 < cap" and "ordered_calls t0 cs"
  shows "int (length (filter (\<lambda>t. x - dur < t \<and> t \<le> x) (budget_grants w cs b))) \<le> cap"
proof -
  have b: "b = \<lparr>cbu_cfg = c, cbu_local = (\<lambda>_. []), cbu_exceeded = (\<lambda>_. False)\<rparr>"
    using assms(1) by (auto simp: NewCallBudget_def split: if_splits)
  have "window_inv w cap dur (t0 w) [] b"
    using assms(3) by (auto simp: window_inv_def within_cap_def b)
  then have "within_cap cap dur ([] @ budget_grants w cs b)"
    by (rule grants_within [OF _ assms(4)]) (use assms in \<open>simp_all add: b\<close>)
  then show ?thesis by (simp add: within_cap_def)
qed

definition budget_call_at :: "gotime \<Rightarrow> budget_call" where
  "budget_call_at t = \<lparr>bc_count = None, bc_now = (\<lambda>_. t), bc_prune = (\<lambda>_. t), bc_rec = (\<lambda>_. t)\<rparr>"

definition hourly_two :: budget_config where "hourly_two = \<lparr>bg_daily = 0, bg_hourly = 2\<rparr>"

theorem no_window_exceeds_cap_witness:
  "budget_grants BudgetWindowHourly (map budget_call_at [0, 1, 2, hour, hour + 1]) (the (NewCallBudget hourly_two)) = [0, 1, hour, hour + 1]
   \<and> int (length (filter (\<lambda>t. hour - hour < t \<and> t \<le> hour)
        (budget_grants BudgetWindowHourly (map budget_call_at [0, 1, 2, hour, hour + 1]) (the (NewCallBudget hourly_two))))) \<le> 2"
proof
  show "budget_grants BudgetWindowHourly (map budget_call_at [0, 1, 2, hour, hour + 1]) (the (NewCallBudget hourly_two))
      = [0, 1, hour, hour + 1]"
    by code_simp
  have w: "(BudgetWindowHourly, 2, hour) \<in> set (windows_of hourly_two)" by (simp add: windows_of_def hourly_two_def)
  have n: "NewCallBudget hourly_two = Some (the (NewCallBudget hourly_two))"
    by (simp add: NewCallBudget_def budget_Enabled_def hourly_two_def)
  have o: "ordered_calls (\<lambda>_. 0) (map budget_call_at [0, 1, 2, hour, hour + 1])" by (simp add: budget_call_at_def)
  show "int (length (filter (\<lambda>t. hour - hour < t \<and> t \<le> hour)
        (budget_grants BudgetWindowHourly (map budget_call_at [0, 1, 2, hour, hour + 1]) (the (NewCallBudget hourly_two))))) \<le> 2"
    by (rule no_window_exceeds_cap [OF n w _ o]) simp
qed

section \<open>Truncation\<close>

text \<open>A page handed to the model is a prefix of the page, never longer than the limit; a page within
  the limit is whole, and a longer one loses at most three bytes of the limit and ends before the start of a character.\<close>

theorem truncation_bounds:
  "prefix (truncateHTML html) html \<and> length (truncateHTML html) \<le> promptMaxHTMLBytes
   \<and> (length html \<le> promptMaxHTMLBytes \<longrightarrow> truncateHTML html = html)
   \<and> (promptMaxHTMLBytes < length html \<longrightarrow> promptMaxHTMLBytes \<le> length (truncateHTML html) + 3
        \<and> (length (truncateHTML html) < promptMaxHTMLBytes \<longrightarrow> starts_rune (html ! length (truncateHTML html))))"
proof (cases "length html \<le> promptMaxHTMLBytes")
  case True
  then show ?thesis by (simp add: truncateHTML_def)
next
  case False
  define piece where "piece = take promptMaxHTMLBytes html"
  have len: "length piece = promptMaxHTMLBytes" using False by (simp add: piece_def)
  have c: "n \<le> i \<Longrightarrow> i \<le> length piece \<Longrightarrow> cut_back n i piece piece = piece
       \<or> (\<exists>j<i. cut_back n i piece piece = take j piece \<and> i \<le> j + n \<and> starts_rune (piece ! j))" for n i
  proof (induction n arbitrary: i)
    case (Suc n)
    then obtain k where k: "i = Suc k" by (cases i) auto
    show ?case
    proof (cases "starts_rune (piece ! k)")
      case True
      then have "cut_back (Suc n) i piece piece = take k piece" by (simp add: k)
      then show ?thesis using True by (intro disjI2 exI [of _ k]) (simp add: k)
    next
      case False
      then have e: "cut_back (Suc n) i piece piece = cut_back n k piece piece" by (simp add: k)
      have "n \<le> k" "k \<le> length piece" using Suc.prems by (simp_all add: k)
      from Suc.IH [OF this] show ?thesis unfolding e
      proof
        assume "\<exists>j<k. cut_back n k piece piece = take j piece \<and> k \<le> j + n \<and> starts_rune (piece ! j)"
        then obtain j where "j < k" "cut_back n k piece piece = take j piece" "k \<le> j + n" "starts_rune (piece ! j)" by blast
        then show "cut_back n k piece piece = piece
            \<or> (\<exists>j<i. cut_back n k piece piece = take j piece \<and> i \<le> j + Suc n \<and> starts_rune (piece ! j))"
          by (intro disjI2 exI [of _ j]) (simp add: k)
      qed simp
    qed
  qed simp
  have t: "truncateHTML html = cut_back 3 (length piece) piece piece"
    using False by (simp add: truncateHTML_def piece_def [symmetric] Let_def)
  have "3 \<le> length piece" by (simp add: len promptMaxHTMLBytes_def)
  from c [OF this order_refl] show ?thesis
  proof (elim disjE exE conjE)
    assume "cut_back 3 (length piece) piece piece = piece"
    then show ?thesis using False len by (simp add: t piece_def take_is_prefix)
  next
    fix j assume j: "j < length piece" "cut_back 3 (length piece) piece piece = take j piece" "length piece \<le> j + 3"
      "starts_rune (piece ! j)"
    have "take j piece = take j html" using j(1) len by (simp add: piece_def min_def)
    moreover have "piece ! j = html ! j" using j(1) len by (simp add: piece_def)
    ultimately show ?thesis using False j len by (simp add: t take_is_prefix)
  qed
qed

end
