(* ===== verification/ParserWorker.thy ===== *)
theory ParserWorker
  imports StageWorker RulePages
begin

text \<open>
  The parse stage's worker, \<^verbatim>\<open>internal/processor/parser/worker/worker.go\<close>: \<^verbatim>\<open>Handle\<close>,
  \<^verbatim>\<open>ProcessMessage\<close>, category and article pages, the reaction to a rule error (the LLM queue, the
  failure and stale counters), and the requeues the LLM generator asks for; the conversion of a page
  (\<^verbatim>\<open>fetcher/domain/general/convert.go\<close>) and the purge of stale raws (\<^verbatim>\<open>cleanup.go\<close>).
  The stores, counters, the precheck, the resolver and Kafka are calls of the environment; the rule parser is the
  model of \<open>RulePages\<close>. Logging and metrics are left out.
\<close>

section \<open>Environment\<close>

record raw_ref =
  rf_id :: string
  rf_url :: string
  rf_fetched_at :: gotime
  rf_source :: source_info
  rf_llm_retry :: int

record pending_item =
  pi_ref :: raw_ref
  pi_type :: string
  pi_llm_retry :: int
  pi_crawler :: string
  pi_timeout_ms :: int

type_synonym 'w precheck_decider =
  "(string \<Rightarrow> 'w \<Rightarrow> decision \<times> 'w) \<times> (string list \<Rightarrow> 'w \<Rightarrow> decision list \<times> 'w)"

text \<open>A nil field of the worker is \<open>None\<close>.\<close>

record ('n, 'w) parser_env =
  pw_io :: "(act, 'w) io"
  pw_pub :: "publisher option"
  pw_load :: "string \<Rightarrow> 'w \<Rightarrow> (go_error + raw_content) \<times> 'w"
  pw_store :: "content \<Rightarrow> 'w \<Rightarrow> (go_error + string) \<times> 'w"
  pw_acquire :: "string \<Rightarrow> 'w \<Rightarrow> (go_error + bool) \<times> 'w"
  pw_parser :: "'n rule_env option"
  pw_lookup :: "string \<Rightarrow> string \<Rightarrow> 'w \<Rightarrow> (go_error + parser_rule option) \<times> 'w"
  pw_has_resolver :: bool
  pw_any_rule :: "string \<Rightarrow> string \<Rightarrow> 'w \<Rightarrow> (go_error + bool \<times> bool) \<times> 'w"
  pw_precheck :: "'w precheck_decider option"
  pw_classify :: "(string list \<Rightarrow> 'w \<Rightarrow> blacklist_decision \<times> 'w) option"
  pw_has_guard :: bool
  pw_has_llm :: bool
  pw_has_samples :: bool
  pw_failures :: "string \<Rightarrow> string \<Rightarrow> 'w \<Rightarrow> (int \<times> bool \<times> go_error option) \<times> 'w"
  pw_has_upgrader :: bool
  pw_stale :: "(string \<Rightarrow> string \<Rightarrow> 'w \<Rightarrow> (int \<times> bool \<times> go_error option) \<times> 'w) option"
  pw_stale_threshold :: int
  pw_title_min :: int
  pw_body_min :: int
  pw_has_retry :: bool
  pw_has_gate_skip :: bool
  pw_now :: "'w \<Rightarrow> gotime"
  pw_ctx_err :: "'w \<Rightarrow> go_error option"
  pw_dec_ref :: "bytes \<Rightarrow> go_error + raw_ref"
  pw_enc_ref :: "raw_ref \<Rightarrow> go_error + bytes"
  pw_enc_content_ref :: "content_ref \<Rightarrow> go_error + bytes"
  pw_enc_pm :: "processing_message \<Rightarrow> go_error + bytes"
  pw_sha :: "string \<Rightarrow> string"

definition maxChainedURLs :: int where "maxChainedURLs = 200"
definition defaultJobTimeout :: duration where "defaultJobTimeout = 30 * second"
definition maxLLMRetries :: int where "maxLLMRetries = 3"
definition FailureReasonRuleParseFailure :: string where "FailureReasonRuleParseFailure = ''rule_parse_failure''"
definition FailureReasonEmptyBody :: string where "FailureReasonEmptyBody = ''empty_body''"
definition LLMAutoSourceName :: string where "LLMAutoSourceName = ''llm-auto''"

section \<open>Pure helpers\<close>

text \<open>\<open>seen\<close> is the map of the loop, \<open>urls\<close> what it has appended.\<close>

fun unique_loop :: "int \<Rightarrow> string list \<Rightarrow> string list \<Rightarrow> link_item list \<Rightarrow> string list" where
  "unique_loop limit seen urls [] = urls"
| "unique_loop limit seen urls (item # items) =
     (if li_url item = [] \<or> li_url item \<in> set seen then unique_loop limit seen urls items
      else (let urls' = urls @ [li_url item]
            in if limit \<le> int (length urls') then urls'
               else unique_loop limit (li_url item # seen) urls' items))"

definition uniqueURLs :: "link_item list \<Rightarrow> int \<Rightarrow> string list" where
  "uniqueURLs items limit = unique_loop limit [] [] items"

definition ShouldEnqueueLLMOnNoRule :: "bool \<Rightarrow> bool \<Rightarrow> go_error option \<Rightarrow> bool" where
  "ShouldEnqueueLLMOnNoRule exists hasEnabled lookupErr =
     (if lookupErr \<noteq> None then True else if exists \<and> \<not> hasEnabled then False else True)"

definition storageToFetcherTargetType :: "string \<Rightarrow> string" where
  "storageToFetcherTargetType t = (if t = TargetTypeList then TargetTypeCategory else TargetTypeArticle)"

definition parseTimeoutHeader :: "string \<Rightarrow> duration" where
  "parseTimeoutHeader s =
     (if s = [] then defaultJobTimeout
      else (case atoi s of
              None \<Rightarrow> defaultJobTimeout
            | Some ms \<Rightarrow> if ms \<le> 0 then defaultJobTimeout else ms * millisecond))"

text \<open>
  The decisions split the URLs. \<open>articleURLs[:0]\<close> shares the array of \<open>urls\<close>: the loop overwrites the array
  (\<open>buf\<close>, filled up to \<open>n\<close>) that it still reads.
\<close>

fun split_loop :: "nat \<Rightarrow> decision list \<Rightarrow> string list \<Rightarrow> nat \<Rightarrow> string list \<Rightarrow> string list \<times> string list" where
  "split_loop i [] buf n ls = (take n buf, ls)"
| "split_loop i (d # ds) buf n ls =
     (case dn_verdict d of
        VerdictAllow \<Rightarrow> split_loop (Suc i) ds (buf[n := buf ! i]) (Suc n) ls
      | VerdictExtractLinksOnly \<Rightarrow> split_loop (Suc i) ds buf n (ls @ [buf ! i])
      | VerdictDrop \<Rightarrow> split_loop (Suc i) ds buf n ls)"

text \<open>\<^verbatim>\<open>strings.Fields\<close> as far as its length.\<close>

fun count_fields :: "bool \<Rightarrow> int list \<Rightarrow> int" where
  "count_fields inField [] = 0"
| "count_fields inField (r # rs) =
     (if is_space_rune r then count_fields False rs
      else (if inField then 0 else 1) + count_fields True rs)"

text \<open>\<open>sha\<close> is the hexadecimal text of SHA-256: 32 of its 64 digits are the first 16 bytes.\<close>

definition ContentID :: "(string \<Rightarrow> string) \<Rightarrow> string \<Rightarrow> string" where
  "ContentID sha url = take 32 (sha url)"

definition ConvertPage :: "(string \<Rightarrow> string) \<Rightarrow> gotime \<Rightarrow> page \<Rightarrow> raw_content \<Rightarrow> content" where
  "ConvertPage sha now pg raw =
     (let url = (if pg_url pg = [] then rc_url raw else pg_url pg); si = rc_source raw
      in \<lparr>c_id = ContentID sha url, c_source_id = si_name si, c_source_type = si_type si, c_country = si_country si,
          c_language = si_language si, c_title = pg_title pg, c_body = pg_main pg, c_summary = pg_summary pg,
          c_author = pg_author pg, c_published_at = pg_published pg, c_updated_at = None, c_category = pg_category pg,
          c_tags = pg_tags pg, c_url = url, c_canonical_url = url, c_image_urls = pg_images pg,
          c_content_hash = sha (pg_main pg), c_word_count = count_fields False (runes (pg_main pg)),
          c_reliability = 0, c_article = pg_article pg, c_extra = Map.empty, c_created_at = now\<rparr>)"

section \<open>Retries, dead letters, gate skips\<close>

definition p_BuildRetryJob :: "('n, 'w) parser_env \<Rightarrow> gotime \<Rightarrow> message \<Rightarrow> go_error + crawl_job" where
  "p_BuildRetryJob env now msg =
     (case pw_dec_ref env (m_value msg) of
        Inl uerr \<Rightarrow> Inl (Wrapped ''retry unmarshal'' uerr)
      | Inr ref \<Rightarrow>
          if rf_url ref = [] then Inl (Opaque (''retry unmarshal: empty URL in RawContentRef '' @ rf_id ref))
          else
            (let name = hget (m_headers msg) ''crawler'';
                 name = (if name = [] then si_name (rf_source ref) else name);
                 name = (if name = [] then ''parser-retry'' else name);
                 ttype = (case m_headers msg ''target_type'' of
                            None \<Rightarrow> TargetTypeArticle
                          | Some t \<Rightarrow> if isValidTargetType t then t else TargetTypeArticle)
             in Inr \<lparr>job_id = rf_id ref, job_crawler = name,
                  job_target = \<lparr>tg_url = rf_url ref, tg_type = ttype,
                    tg_meta = [''retry_reason'' \<mapsto> MStr ''parser_process_failed'',
                               ''original_raw_id'' \<mapsto> MStr (rf_id ref)]\<rparr>,
                  job_priority = PriorityFromHeader (m_headers msg), job_scheduled_at = now,
                  job_timeout = defaultJobTimeout, job_retry_count = 0, job_max_retries = DefaultMaxRetries\<rparr>))"

definition p_enqueueRetry ::
  "('n, 'w) parser_env \<Rightarrow> message \<Rightarrow> go_error \<Rightarrow> (act, 'w) sys \<Rightarrow> go_error option \<times> (act, 'w) sys" where
  "p_enqueueRetry env msg lastErr s =
     (case p_BuildRetryJob env (pw_now env (fst s)) msg of
        Inl err \<Rightarrow> (Some err, s)
      | Inr job \<Rightarrow> perform (pw_io env) (EnqueueRetry job (Some lastErr)) s)"

definition p_sendToDLQ ::
  "('n, 'w) parser_env \<Rightarrow> message \<Rightarrow> go_error \<Rightarrow> (act, 'w) sys \<Rightarrow> go_error option \<times> (act, 'w) sys" where
  "p_sendToDLQ env msg reason s =
     (if pw_pub env = None then (Some (Opaque ''parser: publisher not wired, cannot send to dlq''), s)
      else stage_forward (pw_io env) (pw_pub env) (dlq_message msg reason) s)"

definition p_enqueueGateSkipRetry ::
  "('n, 'w) parser_env \<Rightarrow> message \<Rightarrow> (act, 'w) sys \<Rightarrow> bool \<times> (act, 'w) sys" where
  "p_enqueueGateSkipRetry env =
     stage_gate_skip (pw_io env) (p_sendToDLQ env) (p_BuildRetryJob env) (pw_has_gate_skip env) (pw_now env)"

definition p_gateSkipLimitExceeded ::
  "('n, 'w) parser_env \<Rightarrow> message \<Rightarrow> (act, 'w) sys \<Rightarrow> bool \<times> (act, 'w) sys" where
  "p_gateSkipLimitExceeded env = stage_limit_exceeded (pw_io env) (p_sendToDLQ env)"

section \<open>After a failed parse\<close>

definition deleteRaw :: "('n, 'w) parser_env \<Rightarrow> string \<Rightarrow> (act, 'w) sys \<Rightarrow> (act, 'w) sys" where
  "deleteRaw env rawID s = snd (perform (pw_io env) (DeleteRaw rawID) s)"

text \<open>The LLM is asked unless a rule exists that was disabled; without a resolver it is always asked.\<close>

definition llm_wanted ::
  "('n, 'w) parser_env \<Rightarrow> string \<Rightarrow> string \<Rightarrow> (act, 'w) sys \<Rightarrow> bool \<times> (act, 'w) sys" where
  "llm_wanted env host tt s =
     (if \<not> pw_has_resolver env then (True, s)
      else (case ask (pw_any_rule env host tt) s of
              (Inl herr, s1) \<Rightarrow> (ShouldEnqueueLLMOnNoRule False False (Some herr), s1)
            | (Inr (exists, hasEnabled), s1) \<Rightarrow> (ShouldEnqueueLLMOnNoRule exists hasEnabled None, s1)))"

definition recordHostFailure ::
  "('n, 'w) parser_env \<Rightarrow> string \<Rightarrow> string \<Rightarrow> string \<Rightarrow> (act, 'w) sys \<Rightarrow> (act, 'w) sys" where
  "recordHostFailure env host rawID reason s =
     (let ((_, thresholdReached, err), s1) = ask (pw_failures env host reason) s;
          s2 = note_call (CountFailure host reason) err s1;
          s3 = snd (perform (pw_io env) (TrackRaw host rawID) s2)
      in if thresholdReached \<and> pw_has_upgrader env then snd (perform (pw_io env) (TriggerUpgrade host) s3) else s3)"

definition recordStaleAndMaybeRelearn ::
  "('n, 'w) parser_env \<Rightarrow> string \<Rightarrow> string \<Rightarrow> raw_content \<Rightarrow> int \<Rightarrow> string \<Rightarrow> duration \<Rightarrow> (act, 'w) sys
     \<Rightarrow> (act, 'w) sys" where
  "recordStaleAndMaybeRelearn env host tt raw llmRetryCount crawlerName jobTimeout s =
     (case pw_stale env of
        None \<Rightarrow> s
      | Some counter \<Rightarrow>
          if \<not> pw_has_llm env \<or> host = [] then s
          else
            (let ((cnt, thresholdReached, err), s1) = ask (counter host tt) s;
                 s2 = note_call (CountStale host tt) err s1
             in if err \<noteq> None \<or> \<not> thresholdReached then s2
                else if 0 < pw_stale_threshold env \<and> cnt \<noteq> pw_stale_threshold env then s2
                else
                  (let (wanted, s3) = llm_wanted env host tt s2
                   in if \<not> wanted then s3
                      else snd (perform (pw_io env)
                             (EnqueueLLM True host tt (rc_id raw) llmRetryCount crawlerName jobTimeout) s3))))"

text \<open>A rule error keeps the raw and reports success; any other error is returned.\<close>

definition handleRuleError ::
  "('n, 'w) parser_env \<Rightarrow> url_lib \<Rightarrow> raw_content \<Rightarrow> string \<Rightarrow> string \<Rightarrow> string \<Rightarrow> go_error \<Rightarrow> int \<Rightarrow> string \<Rightarrow> duration
     \<Rightarrow> (act, 'w) sys \<Rightarrow> go_error option \<times> (act, 'w) sys" where
  "handleRuleError env L raw rawID stg tt err llmRetryCount crawlerName jobTimeout s =
     (case as_rule err of
        None \<Rightarrow> (Some (Wrapped stg err), s)
      | Some re \<Rightarrow>
          (let host = (if rer_host re = [] then NormalizeHost L (rc_url raw) else rer_host re);
               s1 = (if rer_code re = ErrNoRule \<and> pw_has_llm env
                     then (let (wanted, s1) = llm_wanted env host tt s
                           in if wanted then snd (perform (pw_io env)
                                  (EnqueueLLM False host tt (rc_id raw) llmRetryCount crawlerName jobTimeout) s1)
                              else s1)
                     else s)
           in if tt = TargetTypePage \<and> (rer_code re = ErrParseFailure \<or> rer_code re = ErrEmptySelector)
              then (None, recordStaleAndMaybeRelearn env host tt raw llmRetryCount crawlerName jobTimeout
                            (recordHostFailure env host rawID FailureReasonRuleParseFailure s1))
              else (None, s1)))"

definition recordEmptyBodyIfApplicable ::
  "('n, 'w) parser_env \<Rightarrow> url_lib \<Rightarrow> raw_content \<Rightarrow> string \<Rightarrow> page \<Rightarrow> (act, 'w) sys \<Rightarrow> (act, 'w) sys" where
  "recordEmptyBodyIfApplicable env L raw rawID pg s =
     (if pw_title_min env \<le> 0 \<and> pw_body_min env \<le> 0 then s
      else
        (let titleShort = (0 < pw_title_min env \<and> rune_count (pg_title pg) < pw_title_min env);
             bodyShort = (0 < pw_body_min env \<and> rune_count (pg_main pg) < pw_body_min env);
             host = NormalizeHost L (rc_url raw)
         in if \<not> titleShort \<and> \<not> bodyShort then s
            else if host = [] then s
            else recordHostFailure env host rawID FailureReasonEmptyBody s))"

definition accumulateSample :: "('n, 'w) parser_env \<Rightarrow> raw_content \<Rightarrow> (act, 'w) sys \<Rightarrow> (act, 'w) sys" where
  "accumulateSample env raw s =
     (if \<not> pw_has_resolver env \<or> \<not> pw_has_samples env then s
      else (case ask (pw_lookup env (rc_url raw) TargetTypePage) s of
              (Inr (Some matched), s1) \<Rightarrow>
                if ru_path matched \<noteq> [] \<or> ru_source matched \<noteq> LLMAutoSourceName then s1
                else snd (perform (pw_io env) (InsertSample (ru_id matched) (rc_url raw)) s1)
            | (_, s1) \<Rightarrow> s1))"

section \<open>Publishing a page\<close>

definition normalized_headers :: "headers option \<Rightarrow> content \<Rightarrow> string \<Rightarrow> headers" where
  "normalized_headers inbox c crawlerName =
     PropagateInboxHeaders inbox
       [''source'' \<mapsto> c_source_id c, ''country'' \<mapsto> c_country c, HeaderCrawler \<mapsto> crawlerName]"

definition p_content_ref :: "string \<Rightarrow> content \<Rightarrow> content_ref" where
  "p_content_ref storedID c =
     \<lparr>cr_id = storedID, cr_url = c_url c, cr_country = c_country c,
      cr_source = \<lparr>si_country = c_country c, si_type = c_source_type c, si_name = c_source_id c, si_base_url = [],
        si_language = c_language c\<rparr>\<rparr>"

fun p_publishContents ::
  "('n, 'w) parser_env \<Rightarrow> headers option \<Rightarrow> content list \<Rightarrow> string \<Rightarrow> (act, 'w) sys
     \<Rightarrow> go_error option \<times> (act, 'w) sys" where
  "p_publishContents env inbox [] crawlerName s = (None, s)"
| "p_publishContents env inbox (c # cs) crawlerName s =
     (case perform_val (pw_store env c) (StoreContent c) s of
        (Inl err, s1) \<Rightarrow> (Some (Wrapped ''store content'' err), s1)
      | (Inr storedID, s1) \<Rightarrow>
         (case pw_enc_content_ref env (p_content_ref storedID c) of
            Inl err \<Rightarrow> (Some (Wrapped ''marshal content ref'' err), s1)
          | Inr refData \<Rightarrow>
             (case pw_enc_pm env \<lparr>pm_id = storedID, pm_timestamp = pw_now env (fst s1), pm_country = c_country c,
                     pm_stage = ''normalized'', pm_data = refData, pm_metadata = [''crawler'' \<mapsto> MStr crawlerName],
                     pm_retry_count = 0\<rparr> of
                Inl err \<Rightarrow> (Some (Wrapped ''marshal processing message'' err), s1)
              | Inr pmBytes \<Rightarrow>
                 (let partitionKey = (if c_canonical_url c = [] then c_url c else c_canonical_url c)
                  in case Forward (pw_io env) (pw_pub env)
                       (new_message TopicNormalized partitionKey pmBytes (normalized_headers inbox c crawlerName)) s1 of
                       (Some err, s2) \<Rightarrow> (Some (Wrapped ''publish normalized'' err), s2)
                     | (None, s2) \<Rightarrow> p_publishContents env inbox cs crawlerName s2))))"

text \<open>The precheck at the entry of a page: whether its verdict is one of \<open>blocked\<close>.\<close>

definition precheck_entry ::
  "('n, 'w) parser_env \<Rightarrow> (verdict \<Rightarrow> bool) \<Rightarrow> string \<Rightarrow> (act, 'w) sys \<Rightarrow> bool \<times> (act, 'w) sys" where
  "precheck_entry env blocked url s =
     (case pw_precheck env of
        None \<Rightarrow> (False, s)
      | Some (check, _) \<Rightarrow> (let (d, s1) = ask (check url) s in (blocked (dn_verdict d), s1)))"

definition processArticlePage ::
  "('n, 'w) parser_env \<Rightarrow> headers option \<Rightarrow> raw_content \<Rightarrow> string \<Rightarrow> string \<Rightarrow> int \<Rightarrow> (act, 'w) sys
     \<Rightarrow> go_error option \<times> (act, 'w) sys" where
  "processArticlePage env inbox raw rawID crawlerName llmRetryCount s =
     (case pw_parser env of
        None \<Rightarrow> (Some (Opaque ''parser: parser not configured''), s)
      | Some E \<Rightarrow>
          (let (blocked, s1) = precheck_entry env (\<lambda>v. v \<noteq> VerdictAllow) (rc_url raw) s
           in if blocked then (None, deleteRaw env rawID s1)
              else (case perform_val (\<lambda>w. let (r, w') = pw_lookup env (rc_url raw) TargetTypePage w
                                        in (fst (ParsePage E (\<lambda>_ _. r) (Some raw)), w')) (ParseRaw rawID) s1 of
                      (Inl err, s2) \<Rightarrow>
                        handleRuleError env (pn_lib E) raw rawID ''parse_page'' TargetTypePage err llmRetryCount crawlerName 0 s2
                    | (Inr pg, s2) \<Rightarrow>
                        (let s3 = recordEmptyBodyIfApplicable env (pn_lib E) raw rawID pg s2;
                             c = ConvertPage (pw_sha env) (pw_now env (fst s3)) pg raw
                         in case p_publishContents env inbox [c] crawlerName s3 of
                              (Some err, s4) \<Rightarrow> (Some (Wrapped ''publish article content'' err), s4)
                            | (None, s4) \<Rightarrow> (None, deleteRaw env rawID (accumulateSample env raw s4))))))"

section \<open>Category pages\<close>

definition split_urls ::
  "('n, 'w) parser_env \<Rightarrow> string list \<Rightarrow> (act, 'w) sys \<Rightarrow> (string list \<times> string list) \<times> (act, 'w) sys" where
  "split_urls env urls s =
     (case pw_precheck env of
        Some (_, checks) \<Rightarrow>
          if urls = [] then ((urls, []), s)
          else (let (ds, s1) = ask (checks urls) s in (split_loop 0 ds urls 0 [], s1))
      | None \<Rightarrow>
          (case pw_classify env of
             Some classify \<Rightarrow>
               if urls = [] then ((urls, []), s)
               else (let (d, s1) = ask (classify urls) s in ((bd_allowed d, bd_links_only d), s1))
           | None \<Rightarrow> ((urls, []), s)))"

text \<open>The publisher's \<^verbatim>\<open>PublishChained\<close> is called for a non-empty list only.\<close>

definition publish_links ::
  "('n, 'w) parser_env \<Rightarrow> string \<Rightarrow> string list \<Rightarrow> string \<Rightarrow> duration \<Rightarrow> (act, 'w) sys
     \<Rightarrow> go_error option \<times> (act, 'w) sys" where
  "publish_links env crawlerName urls ttype timeout s =
     (if urls = [] then (None, s) else perform (pw_io env) (PublishChain crawlerName urls ttype timeout) s)"

definition category_links ::
  "('n, 'w) parser_env \<Rightarrow> string \<Rightarrow> string \<Rightarrow> duration \<Rightarrow> link_item list \<Rightarrow> (act, 'w) sys
     \<Rightarrow> go_error option \<times> (act, 'w) sys" where
  "category_links env rawID crawlerName jobTimeout items s =
     (let ((articleURLs, listURLs), s1) = split_urls env (uniqueURLs items maxChainedURLs) s
      in if articleURLs = [] \<and> listURLs = [] then (None, deleteRaw env rawID s1)
         else (case publish_links env crawlerName articleURLs TargetTypeArticle jobTimeout s1 of
                 (Some err, s2) \<Rightarrow> (Some (Wrapped ''publish chained article jobs'' err), s2)
               | (None, s2) \<Rightarrow>
                  (case publish_links env crawlerName listURLs TargetTypeCategory jobTimeout s2 of
                     (Some err, s3) \<Rightarrow> (Some (Wrapped ''publish chained list jobs (extract_links_only)'' err), s3)
                   | (None, s3) \<Rightarrow> (None, deleteRaw env rawID s3))))"

text \<open>\<^verbatim>\<open>processCategoryPage\<close> without its deferred release of the page's marker.\<close>

definition category_body ::
  "('n, 'w) parser_env \<Rightarrow> raw_content \<Rightarrow> string \<Rightarrow> string \<Rightarrow> duration \<Rightarrow> int \<Rightarrow> (act, 'w) sys
     \<Rightarrow> go_error option \<times> (act, 'w) sys" where
  "category_body env raw rawID crawlerName jobTimeout llmRetryCount s =
     (case (if pw_pub env = None then None else pw_parser env) of
        None \<Rightarrow> (Some (Opaque ''parser: parser or publisher not configured''), s)
      | Some E \<Rightarrow>
          (let (blocked, s1) = precheck_entry env (\<lambda>v. v = VerdictDrop) (rc_url raw) s
           in if blocked then (None, deleteRaw env rawID s1)
              else (case perform_val (\<lambda>w. let (r, w') = pw_lookup env (rc_url raw) TargetTypeList w
                                        in (ParseLinks E (\<lambda>_ _. r) (Some raw), w')) (ParseRaw rawID) s1 of
                      (Inl err, s2) \<Rightarrow>
                        handleRuleError env (pn_lib E) raw rawID ''parse_links'' TargetTypeList err llmRetryCount crawlerName
                          jobTimeout s2
                    | (Inr items, s2) \<Rightarrow>
                        if items = [] then (None, deleteRaw env rawID s2)
                        else category_links env rawID crawlerName jobTimeout items s2)))"

definition releaseCategoryMarker :: "('n, 'w) parser_env \<Rightarrow> string \<Rightarrow> (act, 'w) sys \<Rightarrow> (act, 'w) sys" where
  "releaseCategoryMarker env url s =
     (if pw_has_guard env then snd (perform (pw_io env) (ReleaseMarker url) s) else s)"

definition processCategoryPage ::
  "('n, 'w) parser_env \<Rightarrow> raw_content \<Rightarrow> string \<Rightarrow> string \<Rightarrow> duration \<Rightarrow> int \<Rightarrow> (act, 'w) sys
     \<Rightarrow> go_error option \<times> (act, 'w) sys" where
  "processCategoryPage env raw rawID crawlerName jobTimeout llmRetryCount s =
     (let (r, s1) = category_body env raw rawID crawlerName jobTimeout llmRetryCount s
      in (r, releaseCategoryMarker env (rc_url raw) s1))"

section \<open>One message\<close>

text \<open>\<^verbatim>\<open>ProcessMessage\<close> from the load of the raw on, under the gate or without it.\<close>

definition parse_raw ::
  "('n, 'w) parser_env \<Rightarrow> message \<Rightarrow> raw_ref \<Rightarrow> (act, 'w) sys \<Rightarrow> go_error option \<times> (act, 'w) sys" where
  "parse_raw env msg ref s =
     (case perform_val (pw_load env (rf_id ref)) (LoadRaw (rf_id ref)) s of
        (Inl err, s1) \<Rightarrow>
          if is_sentinel StorageNotFound err then (None, s1) else (Some (Wrapped ''get raw by id'' err), s1)
      | (Inr raw, s1) \<Rightarrow>
          (let name = hget (m_headers msg) ''crawler'';
               name = (if name = [] then si_name (rc_source raw) else name);
               inbox = WithInboxHeaders None (m_headers msg)
           in if hget (m_headers msg) ''target_type'' = TargetTypeCategory
              then processCategoryPage env raw (rf_id ref) name (parseTimeoutHeader (hget (m_headers msg) ''timeout_ms''))
                     (rf_llm_retry ref) s1
              else processArticlePage env inbox raw (rf_id ref) name (rf_llm_retry ref) s1))"

definition ProcessMessage ::
  "('n, 'w) parser_env \<Rightarrow> message \<Rightarrow> (act, 'w) sys \<Rightarrow> go_error option \<times> (act, 'w) sys" where
  "ProcessMessage env msg s =
     (case pw_dec_ref env (m_value msg) of
        Inl err \<Rightarrow>
          (case p_sendToDLQ env msg err s of
             (Some dlqErr, s1) \<Rightarrow> (Some (Wrapped ''send to dlq (unmarshal)'' dlqErr), s1)
           | (None, s1) \<Rightarrow> (None, s1))
      | Inr ref \<Rightarrow>
         (case perform_val (pw_acquire env (rf_url ref)) (GateAcquire (rf_url ref)) s of
            (Inl gateErr, s1) \<Rightarrow>
              if pw_ctx_err env (fst s1) \<noteq> None then (Some (Wrapped ''stage gate acquire aborted by ctx'' gateErr), s1)
              else parse_raw env msg ref s1
          | (Inr acquired, s1) \<Rightarrow>
              if \<not> acquired then (Some (Sentinel ParserGateNotAcquired), s1)
              else (let (r, s2) = parse_raw env msg ref s1
                    in (r, snd (perform (pw_io env) (GateRelease (rf_url ref)) s2)))))"

definition parser_handle :: "('n, 'w) parser_env \<Rightarrow> message \<Rightarrow> (act, 'w) sys \<Rightarrow> (act, 'w) sys" where
  "parser_handle env msg s =
     (case ProcessMessage env msg s of
        (None, s1) \<Rightarrow> snd (CommitWithDrain (pw_io env) msg s1)
      | (Some err, s1) \<Rightarrow>
          if is_sentinel ParserGateNotAcquired err then snd (p_enqueueGateSkipRetry env msg s1)
          else if \<not> pw_has_retry env then s1
          else (case p_enqueueRetry env msg err s1 of
                  (Some _, s2) \<Rightarrow> s2
                | (None, s2) \<Rightarrow> snd (CommitWithDrain (pw_io env) msg s2)))"

section \<open>What the LLM generator asks for\<close>

definition RequeueForLLMRetry ::
  "('n, 'w) parser_env \<Rightarrow> raw_ref \<Rightarrow> int \<Rightarrow> string \<Rightarrow> string \<Rightarrow> (act, 'w) sys \<Rightarrow> (act, 'w) sys" where
  "RequeueForLLMRetry env ref llmRetryCount tt crawlerName s =
     (let nextCount = llmRetryCount + 1
      in if maxLLMRetries < nextCount then s
         else (case pw_enc_ref env (ref\<lparr>rf_llm_retry := nextCount\<rparr>) of
                 Inl _ \<Rightarrow> s
               | Inr payload \<Rightarrow>
                   snd (Forward (pw_io env) (pw_pub env)
                     (new_message TopicFetched [] payload
                        [''target_type'' \<mapsto> storageToFetcherTargetType tt, ''crawler'' \<mapsto> crawlerName]) s)))"

definition requeue_item ::
  "('n, 'w) parser_env \<Rightarrow> pending_item \<Rightarrow> (act, 'w) sys \<Rightarrow> go_error option \<times> (act, 'w) sys" where
  "requeue_item env item s =
     (case pw_enc_ref env ((pi_ref item)\<lparr>rf_llm_retry := pi_llm_retry item\<rparr>) of
        Inl err \<Rightarrow> (Some err, s)
      | Inr payload \<Rightarrow>
          Forward (pw_io env) (pw_pub env)
            (new_message TopicFetched [] payload
               [''target_type'' \<mapsto> storageToFetcherTargetType (pi_type item), ''crawler'' \<mapsto> pi_crawler item,
                ''timeout_ms'' \<mapsto> int_text (pi_timeout_ms item)]) s)"

fun RequeueParsing ::
  "('n, 'w) parser_env \<Rightarrow> pending_item list \<Rightarrow> (act, 'w) sys \<Rightarrow> pending_item list \<times> (act, 'w) sys" where
  "RequeueParsing env [] s = ([], s)"
| "RequeueParsing env (item # items) s =
     (let (err, s1) = requeue_item env item s; (failed, s2) = RequeueParsing env items s1
      in (if err = None then failed else item # failed, s2))"

section \<open>The cleaner\<close>

record cleanup_config =
  cc_interval :: duration
  cc_stale_ttl :: duration

definition DefaultCleanupInterval :: duration where "DefaultCleanupInterval = 30 * minute"
definition DefaultStaleRawTTL :: duration where "DefaultStaleRawTTL = 60 * minute"

definition NewRawContentCleaner :: "cleanup_config \<Rightarrow> cleanup_config" where
  "NewRawContentCleaner c =
     (let c = (if cc_interval c \<le> 0 then c\<lparr>cc_interval := DefaultCleanupInterval\<rparr> else c)
      in if cc_stale_ttl c \<le> 0 then c\<lparr>cc_stale_ttl := DefaultStaleRawTTL\<rparr> else c)"

definition purgeOnce :: "('n, 'w) parser_env \<Rightarrow> cleanup_config \<Rightarrow> (act, 'w) sys \<Rightarrow> (act, 'w) sys" where
  "purgeOnce env c s = snd (perform (pw_io env) (PurgeRaws (pw_now env (fst s) - cc_stale_ttl c)) s)"

section \<open>What each operation adds to the trace\<close>

lemma llm_wanted_adds: "llm_wanted env host tt s = (b, s') \<Longrightarrow> adds_only A s s'"
  by (auto simp: llm_wanted_def split: if_splits prod.splits sum.splits dest: ask_adds)

text \<open>The actions that follow a failed or a thin parse.\<close>

fun after_parse :: "act \<Rightarrow> bool" where
  "after_parse (CountFailure _ _) = True"
| "after_parse (TrackRaw _ _) = True"
| "after_parse (TriggerUpgrade _) = True"
| "after_parse (CountStale _ _) = True"
| "after_parse (EnqueueLLM _ _ _ _ _ _ _) = True"
| "after_parse _ = False"

lemma recordHostFailure_adds:
  "adds_only (\<lambda>a. a = CountFailure host reason \<or> a = TrackRaw host rawID \<or> a = TriggerUpgrade host)
     s (recordHostFailure env host rawID reason s)
   \<and> attempted (CountFailure host reason) (recordHostFailure env host rawID reason s)"
proof -
  let ?A = "\<lambda>a. a = CountFailure host reason \<or> a = TrackRaw host rawID \<or> a = TriggerUpgrade host"
  obtain v s1 where a: "ask (pw_failures env host reason) s = (v, s1)" by (rule prod.exhaust)
  obtain k th err where v: "v = (k, th, err)" by (rule prod_cases3)
  let ?s2 = "note_call (CountFailure host reason) err s1"
  let ?s3 = "snd (perform (pw_io env) (TrackRaw host rawID) ?s2)"
  let ?s4 = "snd (perform (pw_io env) (TriggerUpgrade host) ?s3)"
  have 3: "adds_only ?A s ?s3"
    using ask_adds [OF a] by (rule adds_only_trans) (rule adds_only_trans [OF note_adds perform_adds]; simp)
  have 4: "adds_only ?A s ?s4" using 3 by (rule adds_only_trans) (rule perform_adds; simp)
  have "attempted (CountFailure host reason) ?s2" by (simp add: note_call_def attempted_def)
  then have "attempted (CountFailure host reason) ?s3" "attempted (CountFailure host reason) ?s4"
    by (auto simp: attempted_def perform_def Let_def split: prod.split)
  with a v 3 4 show ?thesis by (simp add: recordHostFailure_def Let_def)
qed

lemma recordStale_adds:
  "adds_only (\<lambda>a. a = CountStale host tt \<or> a = EnqueueLLM True host tt (rc_id raw) k c t)
     s (recordStaleAndMaybeRelearn env host tt raw k c t s)"
proof (cases "pw_stale env")
  case (Some counter)
  let ?A = "\<lambda>a. a = CountStale host tt \<or> a = EnqueueLLM True host tt (rc_id raw) k c t"
  obtain v s1 where a: "ask (counter host tt) s = (v, s1)" by (rule prod.exhaust)
  obtain n th err where v: "v = (n, th, err)" by (rule prod_cases3)
  let ?s2 = "note_call (CountStale host tt) err s1"
  obtain b s3 where w: "llm_wanted env host tt ?s2 = (b, s3)" by (rule prod.exhaust)
  have 2: "adds_only ?A s ?s2" using ask_adds [OF a] by (rule adds_only_trans) (rule note_adds; simp)
  then have 3: "adds_only ?A s s3" using llm_wanted_adds [OF w] by (rule adds_only_trans)
  then have 4: "adds_only ?A s (snd (perform (pw_io env) (EnqueueLLM True host tt (rc_id raw) k c t) s3))"
    by (rule adds_only_trans) (rule perform_adds; simp)
  from Some a v w 2 3 4 show ?thesis
    by (cases b) (auto simp: recordStaleAndMaybeRelearn_def Let_def)
qed (simp add: recordStaleAndMaybeRelearn_def)

lemma recordHostFailure_after: "adds_only after_parse s (recordHostFailure env host rawID reason s)"
  by (rule adds_only_weaken [OF conjunct1 [OF recordHostFailure_adds]]) auto

lemma recordStale_after: "adds_only after_parse s (recordStaleAndMaybeRelearn env host tt raw k c t s)"
  by (rule adds_only_weaken [OF recordStale_adds]) auto

lemma handleRuleError_adds:
  assumes "handleRuleError env L raw rawID stg tt err k c t s = (r, s')"
  shows "adds_only after_parse s s' \<and> (r = None \<longleftrightarrow> as_rule err \<noteq> None)"
proof (cases "as_rule err")
  case (Some re)
  define host where "host = (if rer_host re = [] then NormalizeHost L (rc_url raw) else rer_host re)"
  obtain b s1 where w: "llm_wanted env host tt s = (b, s1)" by (rule prod.exhaust)
  define s2 where "s2 = (if rer_code re = ErrNoRule \<and> pw_has_llm env
      then if b then snd (perform (pw_io env) (EnqueueLLM False host tt (rc_id raw) k c t) s1) else s1 else s)"
  have "adds_only after_parse s1 (snd (perform (pw_io env) (EnqueueLLM False host tt (rc_id raw) k c t) s1))"
    by (rule perform_adds) simp
  from adds_only_trans [OF llm_wanted_adds [OF w] this] llm_wanted_adds [OF w, of after_parse]
  have 2: "adds_only after_parse s s2" by (simp add: s2_def)
  have "r = None \<and> (s' = s2 \<or> s' = recordStaleAndMaybeRelearn env host tt raw k c t
      (recordHostFailure env host rawID FailureReasonRuleParseFailure s2))"
    using assms Some w by (auto simp: handleRuleError_def Let_def s2_def host_def [symmetric] split: if_splits)
  moreover have "adds_only after_parse s (recordStaleAndMaybeRelearn env host tt raw k c t
      (recordHostFailure env host rawID FailureReasonRuleParseFailure s2))"
    using adds_only_trans [OF 2 recordHostFailure_after] recordStale_after by (rule adds_only_trans)
  ultimately show ?thesis using 2 Some by auto
qed (use assms in \<open>auto simp: handleRuleError_def\<close>)

lemma recordEmptyBody_adds: "adds_only after_parse s (recordEmptyBodyIfApplicable env L raw rawID pg s)"
  by (simp add: recordEmptyBodyIfApplicable_def recordHostFailure_after Let_def)

lemma accumulateSample_adds:
  assumes "\<And>i u. A (InsertSample i u)"
  shows "adds_only A s (accumulateSample env raw s)"
proof -
  obtain v s1 where a: "ask (pw_lookup env (rc_url raw) TargetTypePage) s = (v, s1)" by (rule prod.exhaust)
  note 1 = ask_adds [OF a, of A]
  have "adds_only A s (snd (perform (pw_io env) (InsertSample i u) s1))" for i u
    using 1 by (rule adds_only_trans) (rule perform_adds; simp add: assms)
  with 1 a show ?thesis by (auto simp: accumulateSample_def split: sum.split option.split)
qed

lemma deleteRaw_adds: "A (DeleteRaw i) \<Longrightarrow> adds_only A s (deleteRaw env i s)"
  by (simp add: deleteRaw_def perform_adds)

lemma deleteRaw_attempts: "attempted (DeleteRaw i) (deleteRaw env i s)"
proof -
  obtain r s' where p: "perform (pw_io env) (DeleteRaw i) s = (r, s')" by (rule prod.exhaust)
  then show ?thesis by (simp add: deleteRaw_def perform_attempted [OF p])
qed

lemma precheck_entry_adds:
  "precheck_entry env blocked url s = (b, s') \<Longrightarrow> adds_only A s s' \<and>
     (b \<longrightarrow> (\<exists>check more w. pw_precheck env = Some (check, more) \<and> blocked (dn_verdict (fst (check url w)))))"
  by (auto simp: precheck_entry_def ask_def adds_only_def Let_def split: option.splits prod.splits)
     (metis fst_conv)+

section \<open>When a raw is deleted\<close>

definition parse_links :: "('n, 'w) parser_env \<Rightarrow> 'n rule_env \<Rightarrow> raw_content \<Rightarrow> 'w \<Rightarrow> go_error + link_item list" where
  "parse_links env E raw w = ParseLinks E (\<lambda>_ _. fst (pw_lookup env (rc_url raw) TargetTypeList w)) (Some raw)"

definition parse_page :: "('n, 'w) parser_env \<Rightarrow> 'n rule_env \<Rightarrow> raw_content \<Rightarrow> 'w \<Rightarrow> go_error + page" where
  "parse_page env E raw w = fst (ParsePage E (\<lambda>_ _. fst (pw_lookup env (rc_url raw) TargetTypePage w)) (Some raw))"

definition precheck_blocks :: "('n, 'w) parser_env \<Rightarrow> raw_content \<Rightarrow> bool" where
  "precheck_blocks env raw \<longleftrightarrow>
     (\<exists>check more w. pw_precheck env = Some (check, more) \<and> dn_verdict (fst (check (rc_url raw) w)) \<noteq> VerdictAllow)"

definition article_out :: "('n, 'w) parser_env \<Rightarrow> raw_content \<Rightarrow> (act, 'w) sys \<Rightarrow> bool" where
  "article_out env raw s \<longleftrightarrow>
     (\<exists>E w pg t m. pw_parser env = Some E \<and> parse_page env E raw w = Inr pg
        \<and> did (StoreContent (ConvertPage (pw_sha env) t pg raw)) s
        \<and> did (Publish m) s \<and> m_topic m = TopicNormalized \<and> m_key m = c_url (ConvertPage (pw_sha env) t pg raw))"

definition category_out :: "('n, 'w) parser_env \<Rightarrow> raw_content \<Rightarrow> (act, 'w) sys \<Rightarrow> bool" where
  "category_out env raw s \<longleftrightarrow>
     (\<exists>E w items s0 arts ls crawler t. pw_parser env = Some E \<and> parse_links env E raw w = Inr items
        \<and> fst (split_urls env (uniqueURLs items maxChainedURLs) s0) = (arts, ls)
        \<and> (arts = [] \<or> did (PublishChain crawler arts TargetTypeArticle t) s)
        \<and> (ls = [] \<or> did (PublishChain crawler ls TargetTypeCategory t) s))"

definition raw_out :: "('n, 'w) parser_env \<Rightarrow> raw_content \<Rightarrow> (act, 'w) sys \<Rightarrow> bool" where
  "raw_out env raw s \<longleftrightarrow> precheck_blocks env raw \<or> article_out env raw s \<or> category_out env raw s"

definition rule_failed :: "string \<Rightarrow> (act, 'w) sys \<Rightarrow> bool" where
  "rule_failed i s \<longleftrightarrow> (\<exists>e. (ParseRaw i, Some e) \<in> set (snd s) \<and> as_rule e \<noteq> None)"

lemma raw_out_grows: "raw_out env raw s \<Longrightarrow> grows s s' \<Longrightarrow> raw_out env raw s'"
  unfolding raw_out_def article_out_def category_out_def grows_def did_def by blast

lemma rule_failed_grows: "rule_failed i s \<Longrightarrow> grows s s' \<Longrightarrow> rule_failed i s'"
  unfolding rule_failed_def grows_def by blast

text \<open>Actions that neither commit nor delete a raw.\<close>

fun mild :: "act \<Rightarrow> bool" where
  "mild (Commit _) = False"
| "mild (DeleteRaw _) = False"
| "mild _ = True"

lemma after_parse_mild: "adds_only after_parse s s' \<Longrightarrow> adds_only mild s s'"
proof (erule adds_only_weaken)
  show "mild a" if "after_parse a" for a using that by (cases a) simp_all
qed

text \<open>What processing a page guarantees, whatever it returns.\<close>

definition page_ok ::
  "('n, 'w) parser_env \<Rightarrow> raw_content \<Rightarrow> string \<Rightarrow> (act, 'w) sys \<Rightarrow> go_error option \<Rightarrow> (act, 'w) sys \<Rightarrow> bool" where
  "page_ok env raw i s r s' \<longleftrightarrow>
     no_commit s s'
     \<and> (\<forall>j. attempted (DeleteRaw j) s' \<longrightarrow> attempted (DeleteRaw j) s \<or> j = i \<and> r = None \<and> raw_out env raw s')
     \<and> (r = None \<longrightarrow> attempted (DeleteRaw i) s' \<and> raw_out env raw s' \<or> rule_failed i s')"

lemma mild_no_commit: "adds_only mild s s' \<Longrightarrow> no_commit s s'"
  by (erule adds_only_no_commit) simp

lemma page_ok_error: "adds_only mild s s' \<Longrightarrow> r \<noteq> None \<or> rule_failed i s' \<Longrightarrow> page_ok env raw i s r s'"
proof -
  assume a: "adds_only mild s s'" "r \<noteq> None \<or> rule_failed i s'"
  have "attempted (DeleteRaw j) s' \<longleftrightarrow> attempted (DeleteRaw j) s" for j by (rule adds_only_keeps [OF a(1)]) simp
  with a mild_no_commit [OF a(1)] show ?thesis by (auto simp: page_ok_def)
qed

lemma page_ok_delete:
  assumes "adds_only mild s s1" and "raw_out env raw s1"
  shows "page_ok env raw i s None (deleteRaw env i s1)"
proof -
  have a: "adds_only (\<lambda>a. a = DeleteRaw i) s1 (deleteRaw env i s1)" by (rule deleteRaw_adds) simp
  have "no_commit s (deleteRaw env i s1)"
    using mild_no_commit [OF assms(1)] by (rule no_commit_trans) (rule adds_only_no_commit [OF a], simp)
  moreover have "raw_out env raw (deleteRaw env i s1)"
    using assms(2) adds_only_grows [OF a] by (rule raw_out_grows)
  moreover have "attempted (DeleteRaw j) (deleteRaw env i s1) \<longrightarrow> attempted (DeleteRaw j) s \<or> j = i" for j
    using adds_only_keeps [OF a, of "DeleteRaw j"] adds_only_keeps [OF assms(1), of "DeleteRaw j"] by auto
  ultimately show ?thesis using deleteRaw_attempts [of i env s1] by (simp add: page_ok_def)
qed

lemma publish_one:
  assumes "p_publishContents env inbox [c] crawler s = (r, s')"
  shows "adds_only mild s s' \<and> (r = None \<longrightarrow> did (StoreContent c) s'
    \<and> (\<exists>m. did (Publish m) s' \<and> m_topic m = TopicNormalized
          \<and> m_key m = (if c_canonical_url c = [] then c_url c else c_canonical_url c)))"
proof -
  obtain v s1 where st: "perform_val (pw_store env c) (StoreContent c) s = (v, s1)" by (rule prod.exhaust)
  have 1: "adds_only mild s s1" using st by (rule perform_val_adds) simp
  show ?thesis
  proof (cases v)
    case (Inl e)
    then show ?thesis using assms st 1 by auto
  next
    case (Inr storedID)
    have d: "did (StoreContent c) s1" using perform_dids(2) [OF st] Inr by simp
    define pk where "pk = (if c_canonical_url c = [] then c_url c else c_canonical_url c)"
    define pm where "pm refData = \<lparr>pm_id = storedID, pm_timestamp = pw_now env (fst s1), pm_country = c_country c,
       pm_stage = ''normalized'', pm_data = refData, pm_metadata = [''crawler'' \<mapsto> MStr crawler], pm_retry_count = 0\<rparr>"
      for refData
    define out where "out pmBytes = Forward (pw_io env) (pw_pub env)
       (new_message TopicNormalized pk pmBytes (normalized_headers inbox c crawler)) s1" for pmBytes
    have run: "(r, s') = (case pw_enc_content_ref env (p_content_ref storedID c) of
        Inl err \<Rightarrow> (Some (Wrapped ''marshal content ref'' err), s1)
      | Inr refData \<Rightarrow>
         (case pw_enc_pm env (pm refData) of
            Inl err \<Rightarrow> (Some (Wrapped ''marshal processing message'' err), s1)
          | Inr pmBytes \<Rightarrow>
             (case out pmBytes of (Some err, s2) \<Rightarrow> (Some (Wrapped ''publish normalized'' err), s2) | (None, s2) \<Rightarrow> (None, s2))))"
      using assms [symmetric] unfolding p_publishContents.simps st Inr pm_def out_def pk_def Let_def by simp
    consider (err) e where "r = Some e" "s' = s1"
      | (out) pmBytes err s2 where "out pmBytes = (err, s2)" "s' = s2" "r = None \<longleftrightarrow> err = None"
    proof (cases "\<exists>refData pmBytes. pw_enc_content_ref env (p_content_ref storedID c) = Inr refData
        \<and> pw_enc_pm env (pm refData) = Inr pmBytes")
      case False
      then show ?thesis using run err by (auto split: sum.splits)
    next
      case True
      then obtain refData pmBytes where "pw_enc_content_ref env (p_content_ref storedID c) = Inr refData"
        "pw_enc_pm env (pm refData) = Inr pmBytes" by blast
      moreover obtain e s2 where "out pmBytes = (e, s2)" by (rule prod.exhaust)
      ultimately show ?thesis using run out [of pmBytes e s2] by (cases e) simp_all
    qed
    then show ?thesis
    proof cases
      case err
      then show ?thesis using 1 by simp
    next
      case out
      have 2: "adds_only mild s1 s2" using out(1) unfolding out_def by (rule Forward_adds) simp
      have g: "did (StoreContent c) s2"
        using d adds_only_grows [OF 2] grows_did by blast
      show ?thesis
        using adds_only_trans [OF 1 2] g Forward_dids [OF out(1) [unfolded out_def]] out(2,3) unfolding pk_def by auto
    qed
  qed
qed

lemma processArticlePage_ok:
  assumes "processArticlePage env inbox raw i crawler k s = (r, s')"
  shows "page_ok env raw i s r s'"
proof (cases "pw_parser env")
  case None
  then show ?thesis using assms by (auto simp: processArticlePage_def intro: page_ok_error)
next
  case (Some E)
  obtain b s1 where pc: "precheck_entry env (\<lambda>v. v \<noteq> VerdictAllow) (rc_url raw) s = (b, s1)" by (rule prod.exhaust)
  note 1 = precheck_entry_adds [OF pc, of mild]
  let ?call = "\<lambda>w. let (r, w') = pw_lookup env (rc_url raw) TargetTypePage w
                      in (fst (ParsePage E (\<lambda>_ _. r) (Some raw)), w')"
  obtain v s2 where pv: "perform_val ?call (ParseRaw i) s1 = (v, s2)" by (rule prod.exhaust)
  have 2: "adds_only mild s s2" using conjunct1 [OF 1] perform_val_adds [OF pv] by (rule adds_only_trans) simp
  have v: "v = parse_page env E raw (fst s1)"
    using pv by (auto simp: perform_val_def parse_page_def Let_def split: prod.splits)
  show ?thesis
  proof (cases b)
    case True
    then have "raw_out env raw s1" using 1 by (auto simp: raw_out_def precheck_blocks_def)
    then show ?thesis
      using assms Some pc True page_ok_delete [OF conjunct1 [OF 1]] by (auto simp: processArticlePage_def)
  next
    case False
    show ?thesis
    proof (cases v)
      case (Inl err)
      then have h: "handleRuleError env (pn_lib E) raw i ''parse_page'' TargetTypePage err k crawler 0 s2 = (r, s')"
        using assms Some pc False pv by (simp add: processArticlePage_def)
      note a = handleRuleError_adds [OF h]
      have 3: "adds_only mild s s'" using 2 after_parse_mild [OF conjunct1 [OF a]] by (rule adds_only_trans)
      have "(ParseRaw i, Some err) \<in> set (snd s2)" using perform_val_trace [OF pv] Inl by simp
      then have "rule_failed i s2" if "as_rule err \<noteq> None" using that by (auto simp: rule_failed_def)
      then show ?thesis
        using a 3 by (intro page_ok_error) (auto intro: rule_failed_grows adds_only_grows)
    next
      case (Inr pg)
      define s3 where "s3 = recordEmptyBodyIfApplicable env (pn_lib E) raw i pg s2"
      define c where "c = ConvertPage (pw_sha env) (pw_now env (fst s3)) pg raw"
      obtain a s4 where p: "p_publishContents env inbox [c] crawler s3 = (a, s4)" by (rule prod.exhaust)
      note pub = publish_one [OF p]
      have 3: "adds_only mild s s3"
        unfolding s3_def using 2 after_parse_mild [OF recordEmptyBody_adds] by (rule adds_only_trans)
      have 4: "adds_only mild s s4" using 3 conjunct1 [OF pub] by (rule adds_only_trans)
      have run: "(r, s') = (case a of Some err \<Rightarrow> (Some (Wrapped ''publish article content'' err), s4)
          | None \<Rightarrow> (None, deleteRaw env i (accumulateSample env raw s4)))"
        using assms Some pc False pv Inr p
        by (simp add: processArticlePage_def Let_def s3_def [symmetric] c_def [symmetric] del: p_publishContents.simps)
      show ?thesis
      proof (cases a)
        case (Some e)
        then show ?thesis using run 4 by (simp add: page_ok_error)
      next
        case None
        let ?s5 = "accumulateSample env raw s4"
        have "c_canonical_url c = c_url c" by (simp add: c_def ConvertPage_def Let_def)
        then obtain m where "did (Publish m) s4" "m_topic m = TopicNormalized" "m_key m = c_url c"
          using pub None by auto
        moreover have "did (StoreContent c) s4" using pub None by simp
        moreover have "parse_page env E raw (fst s1) = Inr pg" using v Inr by simp
        ultimately have "article_out env raw s4"
          unfolding article_out_def c_def using \<open>pw_parser env = Some E\<close> by (intro exI conjI)
        then have "raw_out env raw s4" by (simp add: raw_out_def)
        moreover have 5: "adds_only mild s4 ?s5" by (rule accumulateSample_adds) simp
        ultimately have "raw_out env raw ?s5" using raw_out_grows adds_only_grows by blast
        from page_ok_delete [OF adds_only_trans [OF 4 5] this] show ?thesis using run None by simp
      qed
    qed
  qed
qed

lemma split_urls_adds: "split_urls env urls s = (v, s') \<Longrightarrow> adds_only A s s'"
  by (auto simp: split_urls_def Let_def split: option.splits if_splits prod.splits dest: ask_adds)

lemma publish_links_adds:
  assumes "publish_links env crawler urls tt t s = (r, s')"
  shows "adds_only mild s s' \<and> (r = None \<longrightarrow> urls = [] \<or> did (PublishChain crawler urls tt t) s')"
proof (cases "urls = []")
  case False
  then have p: "perform (pw_io env) (PublishChain crawler urls tt t) s = (r, s')"
    using assms by (simp add: publish_links_def)
  have "adds_only mild s (snd (perform (pw_io env) (PublishChain crawler urls tt t) s))" by (rule perform_adds) simp
  then show ?thesis using p perform_dids(1) [OF p] by simp
qed (use assms in \<open>simp add: publish_links_def\<close>)

lemma category_links_ok:
  assumes run: "category_links env i crawler t items s = (r, s')"
    and mild: "adds_only mild s0 s" and E: "pw_parser env = Some E" and items: "parse_links env E raw w = Inr items"
  shows "page_ok env raw i s0 r s'"
proof -
  let ?urls = "uniqueURLs items maxChainedURLs"
  obtain arts ls s1 where sp: "split_urls env ?urls s = ((arts, ls), s1)" by (metis prod.exhaust)
  have 1: "adds_only mild s0 s1" using mild split_urls_adds [OF sp] by (rule adds_only_trans)
  obtain a s2 where p: "publish_links env crawler arts TargetTypeArticle t s1 = (a, s2)" by (rule prod.exhaust)
  obtain b s3 where q: "publish_links env crawler ls TargetTypeCategory t s2 = (b, s3)" by (rule prod.exhaust)
  note pp = publish_links_adds [OF p] and qq = publish_links_adds [OF q]
  have 2: "adds_only mild s0 s2" using 1 conjunct1 [OF pp] by (rule adds_only_trans)
  have 3: "adds_only mild s0 s3" using 2 conjunct1 [OF qq] by (rule adds_only_trans)
  have out: "raw_out env raw s" if "arts = [] \<or> did (PublishChain crawler arts TargetTypeArticle t) s"
    "ls = [] \<or> did (PublishChain crawler ls TargetTypeCategory t) s" for s
    unfolding raw_out_def category_out_def using that E items sp by (metis fst_conv)
  show ?thesis
  proof (cases "arts = [] \<and> ls = []")
    case True
    then show ?thesis using run sp page_ok_delete [OF 1 out] by (auto simp: category_links_def)
  next
    case False
    have step: "(r, s') = (case a of Some err \<Rightarrow> (Some (Wrapped ''publish chained article jobs'' err), s2)
       | None \<Rightarrow> (case b of Some err \<Rightarrow> (Some (Wrapped ''publish chained list jobs (extract_links_only)'' err), s3)
          | None \<Rightarrow> (None, deleteRaw env i s3)))"
      using run sp p q False by (auto simp: category_links_def split: option.splits)
    show ?thesis
    proof (cases "a = None \<and> b = None")
      case True
      have "arts = [] \<or> did (PublishChain crawler arts TargetTypeArticle t) s3"
        using pp True adds_only_grows [OF conjunct1 [OF qq]] grows_did by blast
      then show ?thesis using step True page_ok_delete [OF 3 out] qq by simp
    next
      case False
      then show ?thesis using step 2 3 by (cases a; cases b) (simp_all add: page_ok_error)
    qed
  qed
qed

lemma category_body_ok:
  assumes "category_body env raw i crawler t k s = (r, s')"
  shows "page_ok env raw i s r s'"
proof (cases "if pw_pub env = None then None else pw_parser env")
  case None
  then show ?thesis using assms by (auto simp: category_body_def intro: page_ok_error)
next
  case (Some E)
  then have E: "pw_parser env = Some E" by (simp split: if_splits)
  obtain b s1 where pc: "precheck_entry env (\<lambda>v. v = VerdictDrop) (rc_url raw) s = (b, s1)" by (rule prod.exhaust)
  note 1 = precheck_entry_adds [OF pc, of mild]
  let ?call = "\<lambda>w. let (r, w') = pw_lookup env (rc_url raw) TargetTypeList w in (ParseLinks E (\<lambda>_ _. r) (Some raw), w')"
  obtain v s2 where pv: "perform_val ?call (ParseRaw i) s1 = (v, s2)" by (rule prod.exhaust)
  have 2: "adds_only mild s s2" using conjunct1 [OF 1] perform_val_adds [OF pv] by (rule adds_only_trans) simp
  have v: "v = parse_links env E raw (fst s1)"
    using pv by (auto simp: perform_val_def parse_links_def Let_def split: prod.splits)
  show ?thesis
  proof (cases b)
    case True
    then have "raw_out env raw s1" using 1 by (auto simp: raw_out_def precheck_blocks_def)
    then show ?thesis
      using assms Some pc True page_ok_delete [OF conjunct1 [OF 1]] by (auto simp: category_body_def)
  next
    case False
    show ?thesis
    proof (cases v)
      case (Inl err)
      then have h: "handleRuleError env (pn_lib E) raw i ''parse_links'' TargetTypeList err k crawler t s2 = (r, s')"
        using assms Some pc False pv by (simp add: category_body_def)
      note a = handleRuleError_adds [OF h]
      have 3: "adds_only mild s s'" using 2 after_parse_mild [OF conjunct1 [OF a]] by (rule adds_only_trans)
      have "(ParseRaw i, Some err) \<in> set (snd s2)" using perform_val_trace [OF pv] Inl by simp
      then have "rule_failed i s2" if "as_rule err \<noteq> None" using that by (auto simp: rule_failed_def)
      then show ?thesis
        using a 3 by (intro page_ok_error) (auto intro: rule_failed_grows adds_only_grows)
    next
      case (Inr items)
      have it: "parse_links env E raw (fst s1) = Inr items" using v Inr by simp
      show ?thesis
      proof (cases "items = []")
        case True
        have "fst (split_urls env (uniqueURLs [] maxChainedURLs) s1) = ([], [])"
          by (simp add: split_urls_def uniqueURLs_def split: option.split)
        then have "raw_out env raw s2"
          unfolding raw_out_def category_out_def using E it True by blast
        then show ?thesis
          using assms Some pc False pv Inr True page_ok_delete [OF 2] by (auto simp: category_body_def)
      next
        case ne: False
        have "category_links env i crawler t items s2 = (r, s')"
          using assms Some pc False pv Inr ne by (simp add: category_body_def)
        then show ?thesis using 2 E it by (rule category_links_ok)
      qed
    qed
  qed
qed

lemma page_ok_mild:
  assumes "page_ok env raw i s r s1" and "adds_only mild s1 s2"
  shows "page_ok env raw i s r s2"
proof -
  have "attempted (DeleteRaw j) s2 \<longleftrightarrow> attempted (DeleteRaw j) s1" for j
    using assms(2) by (rule adds_only_keeps) simp
  moreover have "no_commit s s2"
    using assms(1) mild_no_commit [OF assms(2)] unfolding page_ok_def by (blast intro: no_commit_trans)
  moreover have "raw_out env raw s1 \<Longrightarrow> raw_out env raw s2" "rule_failed i s1 \<Longrightarrow> rule_failed i s2"
    using adds_only_grows [OF assms(2)] raw_out_grows rule_failed_grows by blast+
  ultimately show ?thesis using assms(1) unfolding page_ok_def by blast
qed

lemma page_ok_before: "adds_only mild s0 s \<Longrightarrow> page_ok env raw i s r s1 \<Longrightarrow> page_ok env raw i s0 r s1"
proof -
  assume a: "adds_only mild s0 s" "page_ok env raw i s r s1"
  have "attempted (DeleteRaw j) s \<longleftrightarrow> attempted (DeleteRaw j) s0" for j
    using a(1) by (rule adds_only_keeps) simp
  then show ?thesis
    using a(2) no_commit_trans [OF mild_no_commit [OF a(1)]] unfolding page_ok_def by blast
qed

lemma processCategoryPage_ok:
  assumes "processCategoryPage env raw i crawler t k s = (r, s')"
  shows "page_ok env raw i s r s'"
proof -
  obtain r1 s1 where b: "category_body env raw i crawler t k s = (r1, s1)" by (rule prod.exhaust)
  have "adds_only mild s1 (releaseCategoryMarker env (rc_url raw) s1)"
    unfolding releaseCategoryMarker_def by (simp add: perform_adds)
  from page_ok_mild [OF category_body_ok [OF b] this] show ?thesis
    using assms b by (simp add: processCategoryPage_def)
qed

section \<open>One message\<close>

definition raw_missing :: "string \<Rightarrow> (act, 'w) sys \<Rightarrow> bool" where
  "raw_missing i s \<longleftrightarrow> (\<exists>e. (LoadRaw i, Some e) \<in> set (snd s) \<and> is_sentinel StorageNotFound e)"

definition loaded :: "('n, 'w) parser_env \<Rightarrow> string \<Rightarrow> raw_content \<Rightarrow> bool" where
  "loaded env i raw \<longleftrightarrow> (\<exists>w. fst (pw_load env i w) = Inr raw)"

definition raw_settled :: "('n, 'w) parser_env \<Rightarrow> string \<Rightarrow> (act, 'w) sys \<Rightarrow> bool" where
  "raw_settled env i s \<longleftrightarrow>
     raw_missing i s \<or> rule_failed i s
     \<or> (\<exists>raw. loaded env i raw \<and> attempted (DeleteRaw i) s \<and> raw_out env raw s)"

lemma raw_settled_grows: "raw_settled env i s \<Longrightarrow> grows s s' \<Longrightarrow> raw_settled env i s'"
proof -
  assume g: "grows s s'"
  have "raw_missing i s \<Longrightarrow> raw_missing i s'" "attempted (DeleteRaw i) s \<Longrightarrow> attempted (DeleteRaw i) s'"
    using g unfolding raw_missing_def attempted_def grows_def by blast+
  then show "raw_settled env i s \<Longrightarrow> raw_settled env i s'"
    using g raw_out_grows [OF _ g] rule_failed_grows [OF _ g] unfolding raw_settled_def by blast
qed

text \<open>What \<^verbatim>\<open>ProcessMessage\<close> guarantees of the raw with id \<open>i\<close>.\<close>

definition message_ok ::
  "('n, 'w) parser_env \<Rightarrow> string \<Rightarrow> (act, 'w) sys \<Rightarrow> go_error option \<Rightarrow> (act, 'w) sys \<Rightarrow> bool" where
  "message_ok env i s r s' \<longleftrightarrow>
     no_commit s s'
     \<and> (\<forall>j. attempted (DeleteRaw j) s' \<longrightarrow> attempted (DeleteRaw j) s \<or> j = i \<and> r = None
           \<and> (\<exists>raw. loaded env i raw \<and> raw_out env raw s'))
     \<and> (r = None \<longrightarrow> raw_settled env i s')"

lemma message_ok_mild: "adds_only mild s s' \<Longrightarrow> r \<noteq> None \<or> raw_settled env i s' \<Longrightarrow> message_ok env i s r s'"
proof -
  assume a: "adds_only mild s s'" "r \<noteq> None \<or> raw_settled env i s'"
  have "attempted (DeleteRaw j) s' \<longleftrightarrow> attempted (DeleteRaw j) s" for j by (rule adds_only_keeps [OF a(1)]) simp
  with a mild_no_commit [OF a(1)] show ?thesis by (auto simp: message_ok_def)
qed

lemma page_message_ok: "page_ok env raw i s r s' \<Longrightarrow> loaded env i raw \<Longrightarrow> message_ok env i s r s'"
  unfolding page_ok_def message_ok_def raw_settled_def by blast

lemma parse_raw_ok:
  assumes "parse_raw env msg ref s = (r, s')"
  shows "message_ok env (rf_id ref) s r s'"
proof -
  let ?i = "rf_id ref"
  obtain v s1 where l: "perform_val (pw_load env ?i) (LoadRaw ?i) s = (v, s1)" by (rule prod.exhaust)
  have 1: "adds_only mild s s1" using l by (rule perform_val_adds) simp
  show ?thesis
  proof (cases v)
    case (Inl err)
    have "raw_settled env ?i s1" if "is_sentinel StorageNotFound err"
      using that Inl perform_val_trace [OF l] by (auto simp: raw_settled_def raw_missing_def)
    then show ?thesis
      using assms l Inl 1 by (auto simp: parse_raw_def intro!: message_ok_mild split: if_splits)
  next
    case (Inr raw)
    have "fst (pw_load env ?i (fst s)) = Inr raw"
      using l Inr by (auto simp: perform_val_def Let_def split: prod.splits)
    then have ld: "loaded env ?i raw" unfolding loaded_def by (rule exI)
    have "page_ok env raw ?i s r s'"
    proof (cases "hget (m_headers msg) ''target_type'' = TargetTypeCategory")
      case True
      then have "\<exists>name. processCategoryPage env raw ?i name (parseTimeoutHeader (hget (m_headers msg) ''timeout_ms''))
          (rf_llm_retry ref) s1 = (r, s')"
        using assms l Inr by (simp add: parse_raw_def Let_def) blast
      then show ?thesis using processCategoryPage_ok page_ok_before [OF 1] by blast
    next
      case False
      then have "\<exists>name. processArticlePage env (WithInboxHeaders None (m_headers msg)) raw ?i name
          (rf_llm_retry ref) s1 = (r, s')"
        using assms l Inr by (simp add: parse_raw_def Let_def) blast
      then show ?thesis using processArticlePage_ok page_ok_before [OF 1] by blast
    qed
    then show ?thesis using ld by (rule page_message_ok)
  qed
qed

section \<open>The handler\<close>

definition p_retry_queued :: "raw_ref \<Rightarrow> (act, 'w) sys \<Rightarrow> bool" where
  "p_retry_queued ref s \<longleftrightarrow>
     (\<exists>job e. did (EnqueueRetry job e) s \<and> job_id job = rf_id ref \<and> tg_url (job_target job) = rf_url ref)"

definition p_settled :: "('n, 'w) parser_env \<Rightarrow> message \<Rightarrow> (act, 'w) sys \<Rightarrow> bool" where
  "p_settled env msg s \<longleftrightarrow>
     dead_lettered msg s
     \<or> (\<exists>ref. pw_dec_ref env (m_value msg) = Inr ref \<and> (p_retry_queued ref s \<or> raw_settled env (rf_id ref) s))"

lemma p_sendToDLQ_mild:
  assumes "p_sendToDLQ env msg reason s = (r, s')"
  shows "adds_only mild s s' \<and> (r = None \<longrightarrow> dead_lettered msg s')"
proof (cases "pw_pub env = None")
  case False
  then have f: "stage_forward (pw_io env) (pw_pub env) (dlq_message msg reason) s = (r, s')"
    using assms unfolding p_sendToDLQ_def by (simp only: if_False)
  obtain e s1 where 1: "Forward (pw_io env) (pw_pub env) (dlq_message msg reason) s = (e, s1)" by (rule prod.exhaust)
  obtain e2 s2 where 2: "Forward (pw_io env) (pw_pub env) (dlq_message msg reason) s1 = (e2, s2)" by (rule prod.exhaust)
  have "adds_only mild s s1" using 1 by (rule Forward_adds) simp
  moreover have "adds_only mild s1 s2" using 2 by (rule Forward_adds) simp
  ultimately have "adds_only mild s s1" "adds_only mild s s2" using adds_only_trans by blast+
  then have "adds_only mild s s'"
    using f 1 2 by (auto simp: stage_forward_def split: option.splits if_splits)
  then show ?thesis using stage_forward_quiet [OF f] dlq_message_dead by blast
qed (use assms in \<open>auto simp: p_sendToDLQ_def\<close>)

lemma p_settled_grows: "p_settled env msg s \<Longrightarrow> grows s s' \<Longrightarrow> p_settled env msg s'"
proof -
  assume g: "grows s s'"
  have "p_retry_queued ref s \<Longrightarrow> p_retry_queued ref s'" for ref
    using g unfolding p_retry_queued_def grows_def did_def by blast
  then show "p_settled env msg s \<Longrightarrow> p_settled env msg s'"
    unfolding p_settled_def using raw_settled_grows [OF _ g] dead_lettered_grows [OF _ g] by blast
qed

interpretation parser_stage: stage "pw_io env" "p_sendToDLQ env" "p_BuildRetryJob env" "p_settled env"
  for env :: "('n, 'w) parser_env"
proof
  fix msg reason r and s s' :: "(act, 'w) sys"
  assume "p_sendToDLQ env msg reason s = (r, s')"
  from p_sendToDLQ_mild [OF this]
  show "no_commit s s' \<and> (r = None \<longrightarrow> dead_lettered msg s')" using mild_no_commit by blast
next
  fix msg and s s' :: "(act, 'w) sys"
  show "p_settled env msg s \<Longrightarrow> grows s s' \<Longrightarrow> p_settled env msg s'" by (rule p_settled_grows)
next
  fix msg and s :: "(act, 'w) sys"
  show "dead_lettered msg s \<Longrightarrow> p_settled env msg s" by (simp add: p_settled_def)
next
  fix now msg job0 job e and s :: "(act, 'w) sys"
  assume a: "p_BuildRetryJob env now msg = Inr job0" "did (EnqueueRetry job e) s" "job_id job = job_id job0"
    "tg_url (job_target job) = tg_url (job_target job0)"
  obtain ref where "pw_dec_ref env (m_value msg) = Inr ref" "job_id job0 = rf_id ref" "tg_url (job_target job0) = rf_url ref"
    using a(1) by (auto simp: p_BuildRetryJob_def Let_def split: sum.splits if_splits)
  then show "p_settled env msg s" unfolding p_settled_def p_retry_queued_def using a(2-4) by auto
qed

lemma ProcessMessage_ok:
  assumes "ProcessMessage env msg s = (r, s')" and "pw_dec_ref env (m_value msg) = Inr ref"
  shows "message_ok env (rf_id ref) s r s'"
proof -
  obtain v s1 where g: "perform_val (pw_acquire env (rf_url ref)) (GateAcquire (rf_url ref)) s = (v, s1)"
    by (rule prod.exhaust)
  have 1: "adds_only mild s s1" using g by (rule perform_val_adds) simp
  obtain a s2 where p: "parse_raw env msg ref s1 = (a, s2)" by (rule prod.exhaust)
  have before: "message_ok env i s q t" if "message_ok env i s1 q t" for i q t
  proof -
    have "attempted (DeleteRaw j) s1 \<longleftrightarrow> attempted (DeleteRaw j) s" for j using 1 by (rule adds_only_keeps) simp
    then show ?thesis using that no_commit_trans [OF mild_no_commit [OF 1]] unfolding message_ok_def by blast
  qed
  let ?s3 = "snd (perform (pw_io env) (GateRelease (rf_url ref)) s2)"
  have 3: "adds_only mild s2 ?s3" by (rule perform_adds) simp
  have "message_ok env i s q ?s3" if "message_ok env i s q s2" for i q
  proof -
    have "attempted (DeleteRaw j) ?s3 \<longleftrightarrow> attempted (DeleteRaw j) s2" for j using 3 by (rule adds_only_keeps) simp
    moreover have "no_commit s ?s3"
      using that mild_no_commit [OF 3] unfolding message_ok_def by (blast intro: no_commit_trans)
    ultimately show ?thesis
      using that raw_out_grows [OF _ adds_only_grows [OF 3]] raw_settled_grows [OF _ adds_only_grows [OF 3]]
      unfolding message_ok_def by blast
  qed
  note ok = before [OF parse_raw_ok [OF p]] this [OF before [OF parse_raw_ok [OF p]]]
  have no: "message_ok env (rf_id ref) s (Some e) s1" for e using 1 by (rule message_ok_mild) simp
  show ?thesis
  proof (cases v)
    case (Inl ge)
    then show ?thesis using assms g p ok(1) no by (auto simp: ProcessMessage_def split: if_splits)
  next
    case (Inr acq)
    then show ?thesis using assms g p ok(2) no by (auto simp: ProcessMessage_def Let_def split: if_splits)
  qed
qed

lemma ProcessMessage_malformed:
  assumes "ProcessMessage env msg s = (r, s')" and "pw_dec_ref env (m_value msg) = Inl err"
  shows "adds_only mild s s' \<and> (r = None \<longrightarrow> dead_lettered msg s')"
proof -
  obtain a s1 where d: "p_sendToDLQ env msg err s = (a, s1)" by (rule prod.exhaust)
  then show ?thesis
    using assms p_sendToDLQ_mild [OF d] by (cases a) (auto simp: ProcessMessage_def)
qed

lemma ProcessMessage_settles:
  assumes "ProcessMessage env msg s = (r, s')"
  shows "no_commit s s' \<and> (r = None \<longrightarrow> p_settled env msg s')"
proof (cases "pw_dec_ref env (m_value msg)")
  case (Inl err)
  then show ?thesis
    using ProcessMessage_malformed [OF assms Inl] mild_no_commit [of s s'] by (simp add: p_settled_def)
next
  case (Inr ref)
  then show ?thesis using ProcessMessage_ok [OF assms Inr] by (auto simp: p_settled_def message_ok_def)
qed

lemma parser_handle_commits: "commits_only msg (p_settled env msg) s (parser_handle env msg s)"
proof -
  obtain r s1 where p: "ProcessMessage env msg s = (r, s1)" by (rule prod.exhaust)
  note q = ProcessMessage_settles [OF p]
  show ?thesis
  proof (cases r)
    case None
    then show ?thesis using p q parser_stage.commit_snd [of s s1 env msg] by (simp add: parser_handle_def)
  next
    case (Some err)
    obtain b s2 where g: "p_enqueueGateSkipRetry env msg s1 = (b, s2)" by (rule prod.exhaust)
    note gs = parser_stage.skip_commits [OF g [unfolded p_enqueueGateSkipRetry_def]]
    have retry: "commits_only msg (p_settled env msg) s1
        (case p_enqueueRetry env msg err s1 of (Some _, s2) \<Rightarrow> s2 | (None, s2) \<Rightarrow> snd (CommitWithDrain (pw_io env) msg s2))"
    proof (cases "p_BuildRetryJob env (pw_now env (fst s1)) msg")
      case (Inl e)
      then show ?thesis by (simp add: p_enqueueRetry_def)
    next
      case (Inr job)
      obtain a s3 where e: "perform (pw_io env) (EnqueueRetry job (Some err)) s1 = (a, s3)" by (rule prod.exhaust)
      note c = parser_stage.retry_commits [OF Inr refl refl e]
      show ?thesis using Inr e c(1,2) by (cases a) (simp_all add: p_enqueueRetry_def commits_only_quiet)
    qed
    show ?thesis
      using p Some g gs retry commits_only_before [OF conjunct1 [OF q]] commits_only_quiet [OF conjunct1 [OF q]]
      by (auto simp: parser_handle_def)
  qed
qed

section \<open>Links of a category page\<close>

definition link_urls :: "link_item list \<Rightarrow> string list" where
  "link_urls items = filter (\<lambda>u. u \<noteq> []) (map li_url items)"

lemma unique_loop_firsts:
  assumes "set seen = set urls" and "urls = firsts (link_urls pre)" and "int (length urls) < limit"
  shows "unique_loop limit seen urls items = take (nat limit) (firsts (link_urls (pre @ items)))"
  using assms
proof (induction items arbitrary: seen urls pre)
  case Nil
  then show ?case by (simp add: link_urls_def)
next
  case (Cons item items)
  show ?case
  proof (cases "li_url item = [] \<or> li_url item \<in> set seen")
    case True
    then have "urls = firsts (link_urls (pre @ [item]))" using Cons.prems(1,2) by (auto simp: link_urls_def)
    from Cons.IH [OF Cons.prems(1) this Cons.prems(3)] show ?thesis using True by auto
  next
    case False
    let ?urls = "urls @ [li_url item]"
    have u: "?urls = firsts (link_urls (pre @ [item]))"
      using False Cons.prems(1,2) by (auto simp: link_urls_def)
    show ?thesis
    proof (cases "limit \<le> int (length ?urls)")
      case True
      then have n: "nat limit = length (firsts (link_urls (pre @ [item])))" using u Cons.prems(3) by (metis int_ops(1) length_append_singleton nat_int not_less of_nat_Suc order_antisym_conv zless_imp_add1_zle add.commute)
      have "take (nat limit) (firsts (link_urls (pre @ [item]) @ link_urls items))
          = take (nat limit) (firsts (link_urls (pre @ [item])))"
        using n by (intro take_firsts_append) simp
      then show ?thesis using False True u n by (simp add: link_urls_def)
    next
      case False2: False
      have "set (li_url item # seen) = set ?urls" using Cons.prems(1) by auto
      from Cons.IH [OF this u] False False2 show ?thesis by simp
    qed
  qed
qed

lemma uniqueURLs_firsts: "0 < limit \<Longrightarrow> uniqueURLs items limit = take (nat limit) (firsts (link_urls items))"
  using unique_loop_firsts [of "[]" "[]" "[]" limit items] by (simp add: uniqueURLs_def link_urls_def)

definition chosen :: "verdict \<Rightarrow> string list \<Rightarrow> decision list \<Rightarrow> string list" where
  "chosen v urls ds = map fst (filter (\<lambda>(u, d). dn_verdict d = v) (zip urls ds))"

lemma split_loop_chosen:
  assumes "i + length ds \<le> length urls" and "length buf = length urls" and "n \<le> i"
    and "\<And>k. i \<le> k \<Longrightarrow> k < length urls \<Longrightarrow> buf ! k = urls ! k"
  shows "split_loop i ds buf n ls =
    (take n buf @ chosen VerdictAllow (drop i urls) ds, ls @ chosen VerdictExtractLinksOnly (drop i urls) ds)"
  using assms
proof (induction ds arbitrary: i buf n ls)
  case Nil
  then show ?case by (simp add: chosen_def)
next
  case (Cons d ds)
  have i: "i < length urls" using Cons.prems(1) by simp
  have dr: "drop i urls = urls ! i # drop (Suc i) urls" using i by (simp add: Cons_nth_drop_Suc)
  have bi: "buf ! i = urls ! i" using Cons.prems(4) i by simp
  show ?case
  proof (cases "dn_verdict d")
    case VerdictAllow
    let ?buf = "buf[n := urls ! i]"
    have "take (Suc n) ?buf = take n buf @ [urls ! i]"
      using Cons.prems(2,3) i by (simp add: take_Suc_conv_app_nth)
    moreover have "split_loop (Suc i) ds ?buf (Suc n) ls = (take (Suc n) ?buf @ chosen VerdictAllow (drop (Suc i) urls) ds,
        ls @ chosen VerdictExtractLinksOnly (drop (Suc i) urls) ds)"
      using Cons.prems by (intro Cons.IH) auto
    ultimately show ?thesis using VerdictAllow bi by (simp add: dr) (simp add: chosen_def)
  next
    case VerdictDrop
    have "split_loop (Suc i) ds buf n ls = (take n buf @ chosen VerdictAllow (drop (Suc i) urls) ds,
        ls @ chosen VerdictExtractLinksOnly (drop (Suc i) urls) ds)"
      using Cons.prems by (intro Cons.IH) auto
    then show ?thesis using VerdictDrop by (simp add: dr) (simp add: chosen_def)
  next
    case VerdictExtractLinksOnly
    have "split_loop (Suc i) ds buf n (ls @ [urls ! i]) = (take n buf @ chosen VerdictAllow (drop (Suc i) urls) ds,
        (ls @ [urls ! i]) @ chosen VerdictExtractLinksOnly (drop (Suc i) urls) ds)"
      using Cons.prems by (intro Cons.IH) auto
    then show ?thesis using VerdictExtractLinksOnly bi by (simp add: dr) (simp add: chosen_def)
  qed
qed

section \<open>The handler deletes no other raw\<close>

lemma CommitWithDrain_adds:
  assumes "A (Commit m)" shows "adds_only A s (snd (CommitWithDrain io m s))"
proof -
  obtain a s1 where 1: "perform io (Commit m) s = (a, s1)" by (rule prod.exhaust)
  obtain b s2 where 2: "perform io (Commit m) s1 = (b, s2)" by (rule prod.exhaust)
  have "adds_only A s s1" "adds_only A s1 s2"
    using perform_adds [of A "Commit m", OF assms] 1 2 by (metis snd_conv)+
  then show ?thesis using 1 2 adds_only_trans [of A s s1 s2] by (auto simp: CommitWithDrain_def split: option.split)
qed

fun no_delete :: "act \<Rightarrow> bool" where
  "no_delete (DeleteRaw _) = False"
| "no_delete _ = True"

lemma mild_no_delete: "adds_only mild s s' \<Longrightarrow> adds_only no_delete s s'"
proof (erule adds_only_weaken)
  show "no_delete a" if "mild a" for a using that by (cases a) simp_all
qed

lemma commit_no_delete: "adds_only no_delete s s1 \<Longrightarrow> adds_only no_delete s (snd (CommitWithDrain io m s1))"
  by (erule adds_only_trans) (rule CommitWithDrain_adds, simp)

lemma skip_no_delete: "adds_only no_delete s (snd (p_enqueueGateSkipRetry env msg s))"
proof -
  have dlq: "adds_only no_delete s s1" if "p_sendToDLQ env msg e s = (a, s1)" for e a s s1
    using conjunct1 [OF p_sendToDLQ_mild [OF that]] by (rule mild_no_delete)
  have limit: "adds_only no_delete s (snd (stage_limit_exceeded (pw_io env) (p_sendToDLQ env) msg s))"
    by (auto simp: stage_limit_exceeded_def intro: dlq commit_no_delete split: prod.split option.split)
  have enq: "adds_only no_delete s s1" if "perform (pw_io env) (EnqueueRetry job e) s = (a, s1)" for job e a s1
    using perform_adds [of no_delete "EnqueueRetry job e" s "pw_io env"] that by simp
  show ?thesis
    using limit
    by (auto simp: p_enqueueGateSkipRetry_def stage_gate_skip_def Let_def split: prod.split option.split sum.split
        intro: commit_no_delete enq adds_only_trans [OF enq dlq] adds_only_trans)
qed

lemma parser_handle_after:
  assumes "ProcessMessage env msg s = (r, s1)"
  shows "adds_only no_delete s1 (parser_handle env msg s)"
proof (cases r)
  case None
  then show ?thesis using assms by (simp add: parser_handle_def CommitWithDrain_adds)
next
  case (Some err)
  have enq: "adds_only no_delete s1 s2" if "perform (pw_io env) (EnqueueRetry job e) s1 = (a, s2)" for job e a s2
    using perform_adds [of no_delete "EnqueueRetry job e" s1 "pw_io env"] that by simp
  show ?thesis
    using assms Some skip_no_delete [of s1 env msg]
    by (auto simp: parser_handle_def p_enqueueRetry_def split: prod.split option.split sum.split
        intro: enq commit_no_delete)
qed

section \<open>A small environment\<close>

text \<open>Every call succeeds; the raw is the sample page, whose list rule discovers one link.\<close>

definition sample_list_rule :: parser_rule where
  "sample_list_rule = \<lparr>ru_id = 1, ru_source = ''s'', ru_host = ''h'', ru_path = [], ru_type = TargetTypeList, ru_version = 1,
     ru_enabled = True,
     ru_selectors = \<lparr>sm_title = None, sm_main = None, sm_summary = None, sm_author = None, sm_published = None,
       sm_category = None, sm_tags = None, sm_images = None, sm_item_container = None, sm_item_link = None,
       sm_item_title = None, sm_item_snippet = None,
       sm_discovery = Some \<lparr>ld_pattern = [], ld_exclude = [], ld_prefixes = [], ld_same_origin = False, ld_max = 1\<rparr>\<rparr>,
     ru_article = True\<rparr>"

definition sample_raw_ref :: raw_ref where
  "sample_raw_ref = \<lparr>rf_id = ''r'', rf_url = ''http://h/'', rf_fetched_at = 0, rf_source = rc_source sample_raw, rf_llm_retry = 0\<rparr>"

definition sample_penv :: "(go_error + parser_rule option) \<Rightarrow> (string, nat) parser_env" where
  "sample_penv rule =
     \<lparr>pw_io = \<lambda>a w. (None, w + 1),
      pw_pub = Some \<lparr>pub_wired = True, pub_resolver = None, pub_marshal = \<lambda>j. Inr []\<rparr>,
      pw_load = \<lambda>i w. (Inr sample_raw, w + 1), pw_store = \<lambda>c w. (Inr (c_id c), w + 1),
      pw_acquire = \<lambda>u w. (Inr True, w + 1), pw_parser = Some sample_rule_env,
      pw_lookup = \<lambda>u t w. (rule, w + 1), pw_has_resolver = True,
      pw_any_rule = \<lambda>h t w. (Inr (False, False), w + 1), pw_precheck = None, pw_classify = None,
      pw_has_guard = True, pw_has_llm = True, pw_has_samples = True,
      pw_failures = \<lambda>h r w. ((1, False, None), w + 1), pw_has_upgrader = False,
      pw_stale = None, pw_stale_threshold = 0, pw_title_min = 0, pw_body_min = 0,
      pw_has_retry = True, pw_has_gate_skip = True, pw_now = \<lambda>w. 0, pw_ctx_err = \<lambda>w. None,
      pw_dec_ref = \<lambda>b. Inr sample_raw_ref, pw_enc_ref = \<lambda>r. Inr [], pw_enc_content_ref = \<lambda>r. Inr [],
      pw_enc_pm = \<lambda>p. Inr [], pw_sha = \<lambda>b. b\<rparr>"

definition sample_pmsg :: message where
  "sample_pmsg = new_message TopicFetched ''k'' [] [''target_type'' \<mapsto> TargetTypeCategory, ''crawler'' \<mapsto> ''c'']"

lemma sample_links:
  "ParseLinks sample_rule_env (\<lambda>_ _. Inr (Some sample_list_rule)) (Some sample_raw)
     = Inr [\<lparr>li_url = ''http://h/a'', li_title = ''http://h/a'', li_snippet = []\<rparr>]"
  by code_simp

lemma sample_handled:
  "\<exists>w. parser_handle (sample_penv (Inr (Some sample_list_rule))) sample_pmsg (0, []) = (w,
     [(GateAcquire ''http://h/'', None), (LoadRaw ''r'', None), (ParseRaw ''r'', None),
      (PublishChain ''c'' [''http://h/a''] TargetTypeArticle defaultJobTimeout, None),
      (DeleteRaw ''r'', None), (ReleaseMarker ''http://h/'', None), (GateRelease ''http://h/'', None),
      (Commit sample_pmsg, None)])"
proof -
  have u: "rc_url sample_raw = ''http://h/''" by (simp add: sample_raw_def NewRawContent_def)
  have un: "uniqueURLs [\<lparr>li_url = ''http://h/a'', li_title = ''http://h/a'', li_snippet = []\<rparr>] maxChainedURLs = [''http://h/a'']"
    by (simp add: uniqueURLs_def maxChainedURLs_def)
  show ?thesis
    using sample_links u un
    by (simp add: parser_handle_def ProcessMessage_def parse_raw_def processCategoryPage_def category_body_def
        category_links_def split_urls_def publish_links_def precheck_entry_def releaseCategoryMarker_def deleteRaw_def
        perform_def perform_val_def CommitWithDrain_def sample_penv_def sample_raw_ref_def sample_pmsg_def
        parseTimeoutHeader_def hget_def Let_def)
qed

section \<open>Properties\<close>

text \<open>C4. At-least-once for the parse stage: whatever Kafka, the stores, the gate and the schedulers answer, the only
  offset a worker commits is that of its message, and then the message is dead-lettered (it could not be decoded, or
  its gate skips are used up), or its retry job is queued, or its raw is gone, or its parse ended in a rule error that
  leaves the raw for the LLM, or its raw was consumed: deleted after a precheck block, after the parsed article was
  stored and published, or after the links of the category page were published.\<close>
theorem parser_commits_only_settled:
  assumes "did (Commit m) (parser_handle env msg (w, []))"
  shows "m = msg \<and> p_settled env msg (parser_handle env msg (w, []))"
  using parser_handle_commits [of msg env "(w, [])"] assms by (auto simp: commits_only_def)

theorem parser_commits_only_settled_witness:
  "p_settled (sample_penv (Inr (Some sample_list_rule))) sample_pmsg
     (parser_handle (sample_penv (Inr (Some sample_list_rule))) sample_pmsg (0, []))"
proof -
  have "did (Commit sample_pmsg) (parser_handle (sample_penv (Inr (Some sample_list_rule))) sample_pmsg (0, []))"
    using sample_handled by (auto simp: did_def)
  from parser_commits_only_settled [OF this] show ?thesis by blast
qed



text \<open>The jobs chained from a category page: the links considered are the first maxChainedURLs distinct
  non-empty links of the page, in page order; with one decision per link, the allowed ones become article jobs and the
  links-only ones list jobs, in order, and dropped ones nothing, although the loop filters them into the array it reads.\<close>
theorem category_urls_split:
  assumes "pw_precheck env = Some (check, checks)" and "urls = uniqueURLs items maxChainedURLs"
    and "ds = fst (checks urls (fst s))" and "length ds = length urls"
  shows "urls = take 200 (firsts (filter (\<lambda>u. u \<noteq> []) (map li_url items)))
    \<and> fst (split_urls env urls s) = (chosen VerdictAllow urls ds, chosen VerdictExtractLinksOnly urls ds)"
proof
  show "urls = take 200 (firsts (filter (\<lambda>u. u \<noteq> []) (map li_url items)))"
    using uniqueURLs_firsts [of maxChainedURLs items] by (simp add: assms(2) maxChainedURLs_def link_urls_def)
  obtain s1 where a: "ask (checks urls) s = (ds, s1)"
    using assms(3) by (cases "checks urls (fst s)") (simp add: ask_def)
  show "fst (split_urls env urls s) = (chosen VerdictAllow urls ds, chosen VerdictExtractLinksOnly urls ds)"
    using assms(1,4) a split_loop_chosen [of 0 ds urls urls 0 "[]"]
    by (auto simp: split_urls_def chosen_def)
qed

theorem category_urls_split_witness:
  "let check = (\<lambda>u w. \<lparr>dn_verdict = (if u = ''a'' then VerdictAllow else if u = ''b'' then VerdictDrop else VerdictExtractLinksOnly),
                       dn_reason = [], dn_source = []\<rparr>);
       env = (sample_penv (Inr None))\<lparr>pw_precheck := Some (\<lambda>u w. (check u w, w), \<lambda>us w. (map (\<lambda>u. check u w) us, w))\<rparr>;
       item = (\<lambda>u. \<lparr>li_url = u, li_title = [], li_snippet = []\<rparr>)
   in fst (split_urls env (uniqueURLs [item ''b'', item [], item ''c'', item ''a'', item ''c''] maxChainedURLs) (0, []))
        = ([''a''], [''c''])"
proof -
  define check where "check = (\<lambda>(u :: string) (w :: nat). \<lparr>dn_verdict = (if u = ''a'' then VerdictAllow else if u = ''b'' then VerdictDrop
      else VerdictExtractLinksOnly), dn_reason = [] :: string, dn_source = [] :: string\<rparr>)"
  define env where "env = (sample_penv (Inr None))\<lparr>pw_precheck := Some (\<lambda>u w. (check u w, w), \<lambda>us w. (map (\<lambda>u. check u w) us, w))\<rparr>"
  define item where "item = (\<lambda>u. \<lparr>li_url = u, li_title = [], li_snippet = []\<rparr>)"
  define urls where "urls = uniqueURLs [item ''b'', item [], item ''c'', item ''a'', item ''c''] maxChainedURLs"
  have u: "urls = [''b'', ''c'', ''a'']" by (simp add: urls_def item_def uniqueURLs_def maxChainedURLs_def)
  have pre: "pw_precheck env = Some (\<lambda>u w. (check u w, w), \<lambda>us w. (map (\<lambda>u. check u w) us, w))" by (simp add: env_def)
  define ds where "ds = fst ((\<lambda>us w. (map (\<lambda>u. check u w) us, w)) urls (fst (0 :: nat, [] :: (act \<times> go_error option) list)))"
  have "length ds = length urls" by (simp add: ds_def)
  from category_urls_split [OF pre urls_def ds_def this]
  have "fst (split_urls env urls (0, [])) = (chosen VerdictAllow urls ds, chosen VerdictExtractLinksOnly urls ds)" by blast
  also have "\<dots> = ([''a''], [''c''])" by (simp add: chosen_def u ds_def check_def)
  finally show ?thesis
    unfolding Let_def urls_def env_def check_def item_def .
qed



text \<open>A defect: when the retry of a failed message cannot be enqueued, the parse stage gives up. Nothing is
  committed and nothing is dead-lettered; with the sorted-set consumer, whose pop was the acknowledgement, the message
  is lost. (The validate and enrich stages send such a message to the dead letter topic.)\<close>
theorem failed_retry_enqueue_strands:
  assumes "ProcessMessage env msg (w, []) = (Some err, s1)" and "\<not> is_sentinel ParserGateNotAcquired err"
    and "pw_has_retry env" and "p_enqueueRetry env msg err s1 = (Some e, s2)"
  shows "parser_handle env msg (w, []) = s2 \<and> \<not> did (Commit m) s2
    \<and> (attempted (Publish d) s2 \<longleftrightarrow> attempted (Publish d) s1)"
proof -
  have run: "parser_handle env msg (w, []) = s2" using assms by (simp add: parser_handle_def)
  have "adds_only (\<lambda>a. \<exists>job e. a = EnqueueRetry job e) s1 s2"
  proof (cases "p_BuildRetryJob env (pw_now env (fst s1)) msg")
    case (Inr job)
    have "adds_only (\<lambda>a. \<exists>job e. a = EnqueueRetry job e) s1 (snd (perform (pw_io env) (EnqueueRetry job (Some err)) s1))"
      by (rule perform_adds) blast
    then show ?thesis using assms(4) Inr by (simp add: p_enqueueRetry_def)
  qed (use assms(4) in \<open>simp add: p_enqueueRetry_def\<close>)
  note adds = adds_only_keeps [OF this, of "Publish d"] adds_only_did [OF this, of "Commit m"]
  have "\<not> did (Commit m) s1"
    using ProcessMessage_settles [OF assms(1)] by (auto simp: no_commit_def)
  with run adds show ?thesis by simp
qed

end
