(* ===== verification/RuleGen.thy ===== *)
theory RuleGen
  imports RuleGenCore ParserWorker
begin

text \<open>
  The rule generator (\<^verbatim>\<open>internal/processor/parser/rule/llmgen/generator.go\<close>, \<^verbatim>\<open>audit.go\<close>): a page for
  which no rule exists asks a model for selectors; they are checked against the page, filtered, and stored as an
  enabled rule, and the pages that waited for the rule go back to the parser. \<open>enqueueImpl\<close> is the part that runs in
  the caller and gives the job for a goroutine, \<open>run_gen_job\<close> the goroutine. The repository, the models, the slot lock, the
  pending queue and Kafka are calls of the environment; the generator's own shared parts (breaker, budget, resolver
  cache) are in the world, where the environment, that is other goroutines, may change them during a call. The last
  section has the interleavings of several calls for one host.
\<close>

section \<open>Environment\<close>

record gen_rule =
  gr_rule :: parser_rule
  gr_confidence :: "string \<rightharpoonup> field_confidence"
  gr_description :: string
  gr_page_type :: string

datatype gen_act =
    FindRule string string
  | AskBudget
  | BudgetRecorded string
  | ExtractSelectors string string
  | GenerateText string string
  | JudgeSelectors string
  | InsertRule gen_rule bool
  | DecideBlacklist string string string string string
  | Audit string string string string string string string
  | AcquireSlot string string
  | ReleaseSlot string string
  | PushPending string string bytes
  | FlushPending string string
  | RequeueItems "pending_item list" "pending_item list"
  | FailureHandler raw_ref int string string

record 'o gen_world =
  gw_breaker :: "host_breaker option"
  gw_budget :: "call_budget option"
  gw_resolver :: rule_resolver
  gw_stopped :: bool
  gw_now :: gotime
  gw_out :: 'o

definition PageTypeNews :: string where "PageTypeNews = ''news''"
definition PageTypeCommunity :: string where "PageTypeCommunity = ''community''"
definition PageTypeInfo :: string where "PageTypeInfo = ''info''"
definition PageTypeCommercial :: string where "PageTypeCommercial = ''commercial''"
definition PageTypePaper :: string where "PageTypePaper = ''paper''"
definition PageTypeOther :: string where "PageTypeOther = ''other''"
definition PageTypeUnspecified :: string where "PageTypeUnspecified = []"

record extract_result =
  xr_selectors :: selector_map
  xr_page_type :: string
  xr_page_confidence :: real
  xr_article :: bool
  xr_article_confidence :: real
  xr_blacklist :: "(string \<times> string) option"

datatype 'w gen_extractor =
    NoExtractor
  | PlainExtractor "string \<Rightarrow> string \<Rightarrow> string \<Rightarrow> 'w \<Rightarrow> (go_error + selector_map) \<times> 'w"
  | EnrichedExtractor "string \<Rightarrow> string \<Rightarrow> string \<Rightarrow> 'w \<Rightarrow> (go_error + extract_result) \<times> 'w"

record ('n, 'w) gen_env =
  ge_io :: "(gen_act, 'w) io"
  ge_rule :: "'n rule_env"
  ge_loader :: loader
  ge_unmarshal :: "string \<Rightarrow> go_error + selector_map"
  ge_marshal :: "selector_map \<Rightarrow> go_error + string"
  ge_sha_hex :: "string \<Rightarrow> string"
  ge_budget :: "'w \<Rightarrow> budget_call"
  ge_find :: "string \<Rightarrow> string \<Rightarrow> 'w \<Rightarrow> (go_error + parser_rule option) \<times> 'w"
  ge_extractor :: "'w gen_extractor"
  ge_model_name :: "string option"
  ge_generate :: "string \<Rightarrow> string \<Rightarrow> 'w \<Rightarrow> (go_error + (string \<times> string) option) \<times> 'w"
  ge_judge :: "(string \<Rightarrow> selector_map \<Rightarrow> string \<Rightarrow> 'w \<Rightarrow> (go_error + bool \<times> string) \<times> 'w) option"
  ge_has_blacklist :: bool
  ge_acquire :: "string \<Rightarrow> string \<Rightarrow> 'w \<Rightarrow> (go_error + bool) \<times> 'w"
  ge_has_pending :: bool
  ge_flush :: "string \<Rightarrow> string \<Rightarrow> 'w \<Rightarrow> (go_error + bytes list) \<times> 'w"
  ge_requeue :: "(pending_item list \<Rightarrow> 'w \<Rightarrow> pending_item list \<times> 'w) option"
  ge_encode :: "pending_item \<Rightarrow> go_error + bytes"
  ge_decode :: "bytes \<Rightarrow> go_error + pending_item"
  ge_has_failure_handler :: bool

type_synonym ('n, 'o) gen = "('n, 'o gen_world) gen_env"
type_synonym 'o gen_sys = "(gen_act, 'o gen_world) sys"

definition llmAutoDescription :: string where
  "llmAutoDescription = ''auto-generated by llmgen '' @ [CHR 0xE2, CHR 0x80, CHR 0x94] @ '' review before enabling''"

text \<open>
  The error of a run: \<open>GenInvalid\<close> is \<^verbatim>\<open>selectorValidationError\<close> with its cause, \<open>GenBudget\<close> and
  \<open>GenBlacklisted\<close> the two sentinels, which no wrapped error of another package can hold.
\<close>

datatype gen_error = GenOther go_error | GenInvalid go_error | GenBudget | GenBlacklisted

definition gen_rate_limited :: "gen_error option \<Rightarrow> bool" where
  "gen_rate_limited e =
     (case e of
        Some (GenOther err) \<Rightarrow> (case as_llm err of Some l \<Rightarrow> le_code l = LlmRateLimit | None \<Rightarrow> False)
      | Some (GenInvalid err) \<Rightarrow> (case as_llm err of Some l \<Rightarrow> le_code l = LlmRateLimit | None \<Rightarrow> False)
      | _ \<Rightarrow> False)"

section \<open>Audit\<close>

definition selectorFingerprint :: "('n, 'w) gen_env \<Rightarrow> selector_map \<Rightarrow> string" where
  "selectorFingerprint env sm = (case ge_marshal env sm of Inl _ \<Rightarrow> [] | Inr b \<Rightarrow> take 12 (ge_sha_hex env b))"

definition classifyOutcome :: "gen_error option \<Rightarrow> string \<times> string" where
  "classifyOutcome err =
     (case err of
        None \<Rightarrow> (''success'', ''success'')
      | Some GenBudget \<Rightarrow> (''cap_exceeded'', ''cap_exceeded'')
      | Some GenBlacklisted \<Rightarrow> (''blacklisted'', [])
      | Some (GenInvalid _) \<Rightarrow> (''validation_fail'', ''validation_fail'')
      | Some (GenOther _) \<Rightarrow> (''llm_error'', ''llm_error''))"

text \<open>The entry of the audit log: result, host, type, url, model, fingerprint, and the status of the metric.\<close>

definition auditRecord ::
  "('n, 'w) gen_env \<Rightarrow> string \<Rightarrow> string \<Rightarrow> string \<Rightarrow> string \<Rightarrow> selector_map \<Rightarrow> gen_error option
     \<Rightarrow> (gen_act, 'w) sys \<Rightarrow> (gen_act, 'w) sys" where
  "auditRecord env host tt url model sm err s =
     (let (result, status) = classifyOutcome err
      in note_call (Audit result host tt url model
           (if result = ''success'' then selectorFingerprint env sm else []) status) None s)"

section \<open>One run\<close>

definition handleBlacklistDecision ::
  "('n, 'w) gen_env \<Rightarrow> string \<Rightarrow> string \<Rightarrow> string \<Rightarrow> string \<times> string \<Rightarrow> (gen_act, 'w) sys \<Rightarrow> (gen_act, 'w) sys" where
  "handleBlacklistDecision env host url tt d s =
     (if \<not> ge_has_blacklist env then s
      else snd (perform (ge_io env) (DecideBlacklist host url tt (fst d) (snd d)) s))"

definition extractor_model :: "('n, 'w) gen_env \<Rightarrow> string" where
  "extractor_model env = (case ge_model_name env of Some n \<Rightarrow> n | None \<Rightarrow> ''claude-code'')"

text \<open>Selectors, the model's name, the page type and the article flag.\<close>

definition gather_selectors ::
  "('n, 'w) gen_env \<Rightarrow> string \<Rightarrow> string \<Rightarrow> string \<Rightarrow> string \<Rightarrow> (gen_act, 'w) sys
     \<Rightarrow> (gen_error + selector_map \<times> string \<times> string \<times> bool) \<times> (gen_act, 'w) sys" where
  "gather_selectors env host tt url html s =
     (case ge_extractor env of
        EnrichedExtractor f \<Rightarrow>
          (case perform_val (f host tt html) (ExtractSelectors host tt) s of
             (Inl err, s1) \<Rightarrow> (Inl (GenOther (Wrapped ''claude code extractor'' err)), s1)
           | (Inr res, s1) \<Rightarrow>
              (case xr_blacklist res of
                 Some d \<Rightarrow> (Inl GenBlacklisted, handleBlacklistDecision env host url tt d s1)
               | None \<Rightarrow> (Inr (xr_selectors res, extractor_model env, xr_page_type res,
                              if tt = TargetTypePage then xr_article res else False), s1)))
      | PlainExtractor f \<Rightarrow>
          (case perform_val (f host tt html) (ExtractSelectors host tt) s of
             (Inl err, s1) \<Rightarrow> (Inl (GenOther (Wrapped ''claude code extractor'' err)), s1)
           | (Inr sm, s1) \<Rightarrow> (Inr (sm, extractor_model env, [], False), s1))
      | NoExtractor \<Rightarrow>
          (case BuildPrompt (ge_loader env) host tt html of
             Inl err \<Rightarrow> (Inl (GenOther (Wrapped ''build llmgen prompt'' err)), s)
           | Inr (system, user) \<Rightarrow>
              (case perform_val (ge_generate env system user) (GenerateText system user) s of
                 (Inl err, s1) \<Rightarrow> (Inl (GenOther (Wrapped ''llm provider call'' err)), s1)
               | (Inr None, s1) \<Rightarrow> (Inl (GenOther (Opaque ''llm returned empty response'')), s1)
               | (Inr (Some (body, model)), s1) \<Rightarrow>
                   if body = [] then (Inl (GenOther (Opaque ''llm returned empty response'')), s1)
                   else (case parseSelectorMap (ul_trim (pn_lib (ge_rule env))) (ge_unmarshal env) body of
                           Inl err \<Rightarrow> (Inl (GenOther (Wrapped ''parse llm response'' err)), s1)
                         | Inr sm \<Rightarrow> (Inr (sm, model, [], False), s1)))))"

text \<open>An error of the judge itself does not stop the run.\<close>

definition judge_selectors ::
  "('n, 'w) gen_env \<Rightarrow> string \<Rightarrow> selector_map \<Rightarrow> string \<Rightarrow> (gen_act, 'w) sys \<Rightarrow> gen_error option \<times> (gen_act, 'w) sys" where
  "judge_selectors env html sm tt s =
     (case ge_judge env of
        None \<Rightarrow> (None, s)
      | Some f \<Rightarrow>
         (case perform_val (f html sm tt) (JudgeSelectors tt) s of
            (Inl _, s1) \<Rightarrow> (None, s1)
          | (Inr (valid, reason), s1) \<Rightarrow>
              (if valid then None else Some (GenInvalid (Opaque (''semantic validation failed: '' @ reason))), s1)))"

definition generated_record ::
  "'n rule_env \<Rightarrow> string \<Rightarrow> string \<Rightarrow> string \<Rightarrow> string \<Rightarrow> selector_map \<Rightarrow> string \<Rightarrow> string \<Rightarrow> bool \<Rightarrow> gen_rule" where
  "generated_record E host tt url html sm model page_type article =
     (let conf = ComputeFieldConfidence E sm html
      in \<lparr>gr_rule = \<lparr>ru_id = 0, ru_source = LLMAutoSourceName, ru_host = host, ru_path = [], ru_type = tt, ru_version = 1,
                     ru_enabled = True, ru_selectors = ApplyConfidenceFilter sm conf, ru_article = article\<rparr>,
          gr_confidence = conf,
          gr_description = llmAutoDescription @ '' (sample url: '' @ url @ '', model: '' @ model @ '')'',
          gr_page_type = page_type\<rparr>)"

text \<open>A duplicate is absorbed; the second lookup only feeds the log.\<close>

definition store_generated ::
  "('n, 'w) gen_env \<Rightarrow> string \<Rightarrow> string \<Rightarrow> gen_rule \<Rightarrow> bool \<Rightarrow> (gen_act, 'w) sys \<Rightarrow> gen_error option \<times> (gen_act, 'w) sys" where
  "store_generated env host tt r stale s =
     (case perform (ge_io env) (InsertRule r stale) s of
        (None, s1) \<Rightarrow> (None, s1)
      | (Some err, s1) \<Rightarrow>
          if is_sentinel StorageDuplicate err
          then (None, snd (perform_val (ge_find env host tt) (FindRule host tt) s1))
          else (Some (GenOther (Wrapped ''insert parsing rule'' err)), s1))"

definition no_selectors :: selector_map where
  "no_selectors =
     \<lparr>sm_title = None, sm_main = None, sm_summary = None, sm_author = None, sm_published = None, sm_category = None,
      sm_tags = None, sm_images = None, sm_item_container = None, sm_item_link = None, sm_item_title = None,
      sm_item_snippet = None, sm_discovery = None\<rparr>"

text \<open>What follows the budget: the error, and the model's name and the selectors for the audit.\<close>

definition attempt_rule ::
  "('n, 'w) gen_env \<Rightarrow> string \<Rightarrow> string \<Rightarrow> string \<Rightarrow> string \<Rightarrow> bool \<Rightarrow> (gen_act, 'w) sys
     \<Rightarrow> (gen_error option \<times> string \<times> selector_map) \<times> (gen_act, 'w) sys" where
  "attempt_rule env host tt url html stale s =
     (case gather_selectors env host tt url html s of
        (Inl err, s1) \<Rightarrow> ((Some err, [], no_selectors), s1)
      | (Inr (sm, model, page_type, article), s1) \<Rightarrow>
         (case validateSelectors (ge_rule env) sm tt html of
            Some err \<Rightarrow> ((Some (GenInvalid err), model, sm), s1)
          | None \<Rightarrow>
             (case judge_selectors env html sm tt s1 of
                (Some err, s2) \<Rightarrow> ((Some err, model, sm), s2)
              | (None, s2) \<Rightarrow>
                  (let r = generated_record (ge_rule env) host tt url html sm model page_type article;
                       (err, s3) = store_generated env host tt r stale s2
                   in ((err, model, ru_selectors (gr_rule r)), s3)))))"

definition ask_budget :: "('n, 'o) gen \<Rightarrow> 'o gen_sys \<Rightarrow> bool \<times> 'o gen_sys" where
  "ask_budget env s =
     (let ((ok, _), recorded, b) = budget_Allow (ge_budget env (fst s)) (gw_budget (fst s));
          s1 = ((fst s)\<lparr>gw_budget := b\<rparr>, snd s @ [(AskBudget, None)])
      in (ok, fold (\<lambda>w s. snd (perform (ge_io env) (BudgetRecorded w) s)) recorded s1))"

definition generate_rule ::
  "('n, 'o) gen \<Rightarrow> string \<Rightarrow> string \<Rightarrow> string \<Rightarrow> string \<Rightarrow> bool \<Rightarrow> 'o gen_sys \<Rightarrow> gen_error option \<times> 'o gen_sys" where
  "generate_rule env host tt url html stale s =
     (case ask_budget env s of
        (False, s1) \<Rightarrow> (Some GenBudget, auditRecord env host tt url [] no_selectors (Some GenBudget) s1)
      | (True, s1) \<Rightarrow>
         (case attempt_rule env host tt url html stale s1 of
            ((err, model, sm), s2) \<Rightarrow> (err, auditRecord env host tt url model sm err s2)))"

definition runOnce ::
  "('n, 'o) gen \<Rightarrow> string \<Rightarrow> string \<Rightarrow> string \<Rightarrow> string \<Rightarrow> bool \<Rightarrow> 'o gen_sys \<Rightarrow> gen_error option \<times> 'o gen_sys" where
  "runOnce env host tt url html stale s =
     (case perform_val (ge_find env host tt) (FindRule host tt) s of
        (Inr (Some r), s1) \<Rightarrow>
          if ru_enabled r then
            (if stale then generate_rule env host tt url html stale s1
             else (None, ((fst s1)\<lparr>gw_resolver :=
                            rule_Invalidate (pn_lib (ge_rule env)) host tt (gw_resolver (fst s1))\<rparr>, snd s1)))
          else (None, s1)
      | (_, s1) \<Rightarrow> generate_rule env host tt url html stale s1)"

section \<open>The goroutine and its caller\<close>

record gen_job =
  gj_host :: string
  gj_type :: string
  gj_url :: string
  gj_html :: string
  gj_ref :: raw_ref
  gj_retry :: int
  gj_crawler :: string
  gj_stale :: bool

definition Milliseconds :: "duration \<Rightarrow> int" where
  "Milliseconds d = (if d < 0 then - ((- d) div millisecond) else d div millisecond)"

definition defer_item :: "('n, 'w) gen_env \<Rightarrow> string \<Rightarrow> string \<Rightarrow> pending_item \<Rightarrow> (gen_act, 'w) sys \<Rightarrow> (gen_act, 'w) sys" where
  "defer_item env host tt item s =
     (case ge_encode env item of
        Inl _ \<Rightarrow> s
      | Inr payload \<Rightarrow> snd (perform (ge_io env) (PushPending host tt payload) s))"

definition breaker_allows :: "host_key \<Rightarrow> 'o gen_sys \<Rightarrow> bool \<times> 'o gen_sys" where
  "breaker_allows key s =
     (case gw_breaker (fst s) of
        None \<Rightarrow> (True, s)
      | Some b \<Rightarrow>
          (let ((ok, _), b') = breaker_Allow (gw_now (fst s)) key b
           in (ok, ((fst s)\<lparr>gw_breaker := Some b'\<rparr>, snd s))))"

definition enqueueImpl ::
  "('n, 'o) gen \<Rightarrow> string \<Rightarrow> string \<Rightarrow> raw_content option \<Rightarrow> int \<Rightarrow> string \<Rightarrow> duration \<Rightarrow> bool \<Rightarrow> 'o gen_sys
     \<Rightarrow> gen_job option \<times> 'o gen_sys" where
  "enqueueImpl env host0 tt rawo llmRetryCount crawlerName jobTimeout stale s =
     (if gw_stopped (fst s) then (None, s)
      else (case rawo of
              None \<Rightarrow> (None, s)
            | Some raw \<Rightarrow>
               if rc_html raw = [] then (None, s)
               else
                 (let L = pn_lib (ge_rule env); host = ul_lower L (ul_trim L host0)
                  in if host = [] then (None, s)
                     else (case breaker_allows (host, tt) s of
                             (False, s1) \<Rightarrow> (None, s1)
                           | (True, s1) \<Rightarrow>
                              (let ref = \<lparr>rf_id = rc_id raw, rf_url = rc_url raw, rf_fetched_at = rc_fetched_at raw,
                                          rf_source = rc_source raw, rf_llm_retry = 0\<rparr>
                               in case perform_val (ge_acquire env host tt) (AcquireSlot host tt) s1 of
                                    (Inl _, s2) \<Rightarrow> (None, s2)
                                  | (Inr False, s2) \<Rightarrow>
                                      (None, if ge_has_pending env
                                             then defer_item env host tt
                                               \<lparr>pi_ref = ref, pi_type = tt, pi_llm_retry = llmRetryCount,
                                                pi_crawler = crawlerName, pi_timeout_ms = Milliseconds jobTimeout\<rparr> s2
                                             else s2)
                                  | (Inr True, s2) \<Rightarrow>
                                      (Some \<lparr>gj_host = host, gj_type = tt, gj_url = rc_url raw, gj_html = rc_html raw,
                                             gj_ref = ref, gj_retry = llmRetryCount, gj_crawler = crawlerName,
                                             gj_stale = stale\<rparr>, s2))))))"

definition llm_Enqueue ::
  "('n, 'o) gen \<Rightarrow> string \<Rightarrow> string \<Rightarrow> raw_content option \<Rightarrow> int \<Rightarrow> string \<Rightarrow> duration \<Rightarrow> 'o gen_sys
     \<Rightarrow> gen_job option \<times> 'o gen_sys" where
  "llm_Enqueue env host tt raw n crawler timeout = enqueueImpl env host tt raw n crawler timeout False"

definition EnqueueStale ::
  "('n, 'o) gen \<Rightarrow> string \<Rightarrow> string \<Rightarrow> raw_content option \<Rightarrow> int \<Rightarrow> string \<Rightarrow> duration \<Rightarrow> 'o gen_sys
     \<Rightarrow> gen_job option \<times> 'o gen_sys" where
  "EnqueueStale env host tt raw n crawler timeout = enqueueImpl env host tt raw n crawler timeout True"

definition flush_pending :: "('n, 'w) gen_env \<Rightarrow> string \<Rightarrow> string \<Rightarrow> (gen_act, 'w) sys \<Rightarrow> (gen_act, 'w) sys" where
  "flush_pending env host tt s =
     (case ge_requeue env of
        None \<Rightarrow> s
      | Some requeue \<Rightarrow>
          if \<not> ge_has_pending env then s
          else (case perform_val (ge_flush env host tt) (FlushPending host tt) s of
                  (Inl _, s1) \<Rightarrow> s1
                | (Inr payloads, s1) \<Rightarrow>
                    if payloads = [] then s1
                    else (let items = List.map_filter (\<lambda>p. case ge_decode env p of Inl _ \<Rightarrow> None | Inr i \<Rightarrow> Some i) payloads;
                              (failed, s2) = ask (requeue items) s1
                          in fold (defer_item env host tt) failed
                               (note_call (RequeueItems items failed) None s2))))"

definition record_outcome :: "host_key \<Rightarrow> gen_error option \<Rightarrow> 'o gen_sys \<Rightarrow> 'o gen_sys" where
  "record_outcome key err s =
     (case gw_breaker (fst s) of
        None \<Rightarrow> s
      | Some b \<Rightarrow>
          ((fst s)\<lparr>gw_breaker := Some (if gen_rate_limited err then RecordRateLimit (gw_now (fst s)) key b
                                       else breaker_RecordSuccess key b)\<rparr>, snd s))"

definition after_run :: "('n, 'w) gen_env \<Rightarrow> gen_job \<Rightarrow> gen_error option \<Rightarrow> (gen_act, 'w) sys \<Rightarrow> (gen_act, 'w) sys" where
  "after_run env j err s =
     (case err of
        None \<Rightarrow> flush_pending env (gj_host j) (gj_type j) s
      | Some (GenInvalid _) \<Rightarrow>
          if ge_has_failure_handler env
          then note_call (FailureHandler (gj_ref j) (gj_retry j) (gj_type j) (gj_crawler j)) None s else s
      | Some _ \<Rightarrow> s)"

definition run_gen_job :: "('n, 'o) gen \<Rightarrow> gen_job \<Rightarrow> 'o gen_sys \<Rightarrow> 'o gen_sys" where
  "run_gen_job env j s =
     (case runOnce env (gj_host j) (gj_type j) (gj_url j) (gj_html j) (gj_stale j) s of
        (err, s1) \<Rightarrow>
          snd (perform (ge_io env) (ReleaseSlot (gj_host j) (gj_type j))
                 (after_run env j err (record_outcome (gj_host j, gj_type j) err s1))))"

section \<open>What a run adds to the trace\<close>

definition extends_by :: "(('a \<times> go_error option) list \<Rightarrow> bool) \<Rightarrow> ('a, 'w) sys \<Rightarrow> ('a, 'w) sys \<Rightarrow> bool" where
  "extends_by P s s' \<longleftrightarrow> (\<exists>tr. snd s' = snd s @ tr \<and> P tr)"

abbreviation all_acts :: "('a \<Rightarrow> bool) \<Rightarrow> ('a \<times> go_error option) list \<Rightarrow> bool" where
  "all_acts A tr \<equiv> \<forall>x \<in> set tr. A (fst x)"

definition tally :: "('a \<Rightarrow> bool) \<Rightarrow> ('a \<times> go_error option) list \<Rightarrow> nat" where
  "tally K tr = length (filter (\<lambda>x. K (fst x)) tr)"

lemma tally_simps [simp]: "tally K [] = 0" "tally K (x # tr) = (if K (fst x) then 1 else 0) + tally K tr"
    "tally K (tr @ tr') = tally K tr + tally K tr'"
  by (simp_all add: tally_def)

lemma tally_none: "all_acts A tr \<Longrightarrow> (\<And>a. A a \<Longrightarrow> \<not> K a) \<Longrightarrow> tally K tr = 0"
  by (induction tr) auto

lemma extends_refl: "P [] \<Longrightarrow> extends_by P s s"
  by (simp add: extends_by_def)

lemma extends_trans:
  "extends_by P s s1 \<Longrightarrow> extends_by Q s1 s2 \<Longrightarrow> (\<And>a b. P a \<Longrightarrow> Q b \<Longrightarrow> R (a @ b)) \<Longrightarrow> extends_by R s s2"
  unfolding extends_by_def by (metis append_assoc)

lemma extends_weaken: "extends_by P s s' \<Longrightarrow> (\<And>tr. P tr \<Longrightarrow> Q tr) \<Longrightarrow> extends_by Q s s'"
  unfolding extends_by_def by blast

lemma perform_extends: "perform io a s = (r, s') \<Longrightarrow> P [(a, r)] \<Longrightarrow> extends_by P s s'"
  by (auto simp: extends_by_def dest: perform_trace)

lemma perform_val_extends: "perform_val f a s = (r, s') \<Longrightarrow> P [(a, err_of r)] \<Longrightarrow> extends_by P s s'"
  by (auto simp: extends_by_def dest: perform_val_trace)

lemma note_extends: "P [(a, e)] \<Longrightarrow> extends_by P s (note_call a e s)"
  by (simp add: extends_by_def note_call_def)

lemma world_extends: "P [] \<Longrightarrow> extends_by P s (w, snd s)"
  by (simp add: extends_by_def)

lemma fold_perform_extends:
  "extends_by (all_acts A) s (fold (\<lambda>x s. snd (perform io (f x) s)) xs s)" if "\<And>x. A (f x)"
proof (induction xs arbitrary: s)
  case (Cons x xs)
  obtain r s1 where p: "perform io (f x) s = (r, s1)" by (rule prod.exhaust)
  have "extends_by (all_acts A) s s1" by (rule perform_extends [OF p]) (simp add: that)
  from extends_trans [OF this Cons [of s1], of "all_acts A"] show ?case by (simp add: p) blast
qed (simp add: extends_refl)

fun is_model_call :: "gen_act \<Rightarrow> bool" where
  "is_model_call (ExtractSelectors _ _) = True"
| "is_model_call (GenerateText _ _) = True"
| "is_model_call _ = False"

fun is_audit :: "gen_act \<Rightarrow> bool" where
  "is_audit (Audit _ _ _ _ _ _ _) = True"
| "is_audit _ = False"

fun is_flush :: "gen_act \<Rightarrow> bool" where
  "is_flush (FlushPending _ _) = True"
| "is_flush (RequeueItems _ _) = True"
| "is_flush _ = False"

fun is_release :: "gen_act \<Rightarrow> bool" where
  "is_release (ReleaseSlot _ _) = True"
| "is_release _ = False"

text \<open>The actions of the steps before the rule is stored.\<close>

fun gather_act :: "gen_act \<Rightarrow> bool" where
  "gather_act (ExtractSelectors _ _) = True"
| "gather_act (GenerateText _ _) = True"
| "gather_act (DecideBlacklist _ _ _ _ _) = True"
| "gather_act (JudgeSelectors _) = True"
| "gather_act _ = False"

definition quiet_gather :: "(gen_act \<times> go_error option) list \<Rightarrow> bool" where
  "quiet_gather tr \<longleftrightarrow> all_acts gather_act tr \<and> tally is_model_call tr \<le> 1"

lemma handleBlacklist_extends: "extends_by (all_acts (\<lambda>a. gather_act a \<and> \<not> is_model_call a)) s (handleBlacklistDecision env host url tt d s)"
proof -
  obtain r s1 where p: "perform (ge_io env) (DecideBlacklist host url tt (fst d) (snd d)) s = (r, s1)" by (rule prod.exhaust)
  show ?thesis by (auto simp: handleBlacklistDecision_def p intro: extends_refl perform_extends [OF p])
qed

lemma gather_extends:
  assumes "gather_selectors env host tt url html s = (r, s')"
  shows "extends_by quiet_gather s s'"
proof -
  have one: "extends_by quiet_gather s s1" if "perform_val f a s = (v, s1)" "gather_act a" for f a v s1
    by (rule perform_val_extends [OF that(1)]) (simp add: quiet_gather_def that)
  show ?thesis
  proof (cases "ge_extractor env")
    case NoExtractor
    then show ?thesis
      using assms
      by (auto simp: gather_selectors_def intro: one extends_refl simp: quiet_gather_def
          split: sum.splits prod.splits option.splits if_splits)
  next
    case (PlainExtractor f)
    then show ?thesis
      using assms by (auto simp: gather_selectors_def intro: one split: sum.splits prod.splits)
  next
    case (EnrichedExtractor f)
    obtain v s1 where p: "perform_val (f host tt html) (ExtractSelectors host tt) s = (v, s1)" by (rule prod.exhaust)
    have e: "extends_by quiet_gather s s1" by (rule one [OF p]) simp
    have b: "extends_by quiet_gather s (handleBlacklistDecision env host url tt d s1)" for d
      by (rule extends_trans [OF e handleBlacklist_extends]) (auto simp: quiet_gather_def tally_def filter_empty_conv)
    show ?thesis
      using assms e b by (auto simp: gather_selectors_def EnrichedExtractor p split: sum.splits option.splits)
  qed
qed

lemma judge_extends:
  assumes "judge_selectors env html sm tt s = (r, s')"
  shows "extends_by (all_acts (\<lambda>a. a = JudgeSelectors tt)) s s'"
  using assms
  by (auto simp: judge_selectors_def intro: extends_refl perform_val_extends split: option.splits prod.splits sum.splits)

definition store_act :: "gen_rule \<Rightarrow> bool \<Rightarrow> gen_act \<Rightarrow> bool" where
  "store_act r stale a \<longleftrightarrow> a = InsertRule r stale \<or> (\<exists>h t. a = FindRule h t)"

lemma store_extends:
  assumes "store_generated env host tt r stale s = (e, s')"
  shows "extends_by (all_acts (store_act r stale)) s s'"
proof -
  obtain v s1 where p: "perform (ge_io env) (InsertRule r stale) s = (v, s1)" by (rule prod.exhaust)
  obtain v2 s2 where f: "perform_val (ge_find env host tt) (FindRule host tt) s1 = (v2, s2)" by (rule prod.exhaust)
  have 1: "extends_by (all_acts (store_act r stale)) s s1"
    by (rule perform_extends [OF p]) (simp add: store_act_def)
  have "extends_by (all_acts (store_act r stale)) s s2"
    by (rule extends_trans [OF 1 perform_val_extends [OF f, of "all_acts (store_act r stale)"]]) (auto simp: store_act_def)
  with 1 show ?thesis
    using assms by (auto simp: store_generated_def p f split: option.splits if_splits)
qed

text \<open>An inserted rule is the record of selectors that passed the check.\<close>

definition checked_insert :: "'n rule_env \<Rightarrow> string \<Rightarrow> string \<Rightarrow> string \<Rightarrow> string \<Rightarrow> bool \<Rightarrow> gen_act \<Rightarrow> bool" where
  "checked_insert E host tt url html stale a \<longleftrightarrow>
     (case a of
        InsertRule g nx \<Rightarrow> nx = stale \<and> (\<exists>sm model page_type article. validateSelectors E sm tt html = None
           \<and> g = generated_record E host tt url html sm model page_type article)
      | _ \<Rightarrow> True)"

definition attempt_trace :: "'n rule_env \<Rightarrow> string \<Rightarrow> string \<Rightarrow> string \<Rightarrow> string \<Rightarrow> bool \<Rightarrow> (gen_act \<times> go_error option) list \<Rightarrow> bool" where
  "attempt_trace E host tt url html stale tr \<longleftrightarrow>
     all_acts (checked_insert E host tt url html stale) tr \<and> tally is_model_call tr \<le> 1
     \<and> all_acts (\<lambda>a. \<not> is_audit a \<and> \<not> is_flush a \<and> \<not> is_release a \<and> a \<noteq> AskBudget) tr"

lemma gather_act_quiet:
  "gather_act a \<Longrightarrow> checked_insert E host tt url html stale a \<and> \<not> is_audit a \<and> \<not> is_flush a \<and> \<not> is_release a \<and> a \<noteq> AskBudget"
  by (cases a) (auto simp: checked_insert_def)

lemma checked_insertI:
  "validateSelectors E sm tt html = None
   \<Longrightarrow> checked_insert E host tt url html stale (InsertRule (generated_record E host tt url html sm model pt art) stale)"
  unfolding checked_insert_def gen_act.case by blast

lemma attempt_quiet:
  assumes "all_acts A tr"
    and "\<And>a. A a \<Longrightarrow> checked_insert E host tt url html stale a \<and> \<not> is_audit a \<and> \<not> is_flush a \<and> \<not> is_release a
            \<and> a \<noteq> AskBudget \<and> \<not> is_model_call a"
  shows "attempt_trace E host tt url html stale tr \<and> tally is_model_call tr = 0"
  using assms tally_none [OF assms(1), of is_model_call] unfolding attempt_trace_def by auto

lemma attempt_extends:
  assumes "attempt_rule env host tt url html stale s = (res, s')"
  shows "extends_by (attempt_trace (ge_rule env) host tt url html stale) s s'"
proof -
  let ?P = "attempt_trace (ge_rule env) host tt url html stale"
  have quiet: "?P tr" if "quiet_gather tr" for tr
    using that gather_act_quiet unfolding attempt_trace_def quiet_gather_def by blast
  have more: "?P (tr @ tr')" if "?P tr" "?P tr'" "tally is_model_call tr' = 0" for tr tr'
    using that by (auto simp: attempt_trace_def)
  obtain g s1 where g: "gather_selectors env host tt url html s = (g, s1)" by (rule prod.exhaust)
  have 1: "extends_by ?P s s1" by (rule extends_weaken [OF gather_extends [OF g] quiet])
  show ?thesis
  proof (cases g)
    case (Inl e)
    then show ?thesis using assms 1 by (simp add: attempt_rule_def g)
  next
    case (Inr x)
    obtain sm model pt art where x: "x = (sm, model, pt, art)" by (rule prod_cases4)
    show ?thesis
    proof (cases "validateSelectors (ge_rule env) sm tt html")
      case (Some e)
      then show ?thesis using assms 1 by (simp add: attempt_rule_def g Inr x)
    next
      case None
      obtain v s2 where j: "judge_selectors env html sm tt s1 = (v, s2)" by (rule prod.exhaust)
      have 2: "extends_by ?P s s2"
      proof (rule extends_trans [OF 1 judge_extends [OF j]])
        fix a b :: "(gen_act \<times> go_error option) list"
        assume a: "?P a" and b: "all_acts (\<lambda>a. a = JudgeSelectors tt) b"
        have "?P b \<and> tally is_model_call b = 0" by (rule attempt_quiet [OF b]) (auto simp: checked_insert_def)
        then show "?P (a @ b)" using more [OF a] by blast
      qed
      show ?thesis
      proof (cases v)
        case (Some e)
        then show ?thesis using assms 2 None by (simp add: attempt_rule_def g Inr x j)
      next
        case v: None
        define r where "r = generated_record (ge_rule env) host tt url html sm model pt art"
        obtain e s3 where st: "store_generated env host tt r stale s2 = (e, s3)" by (rule prod.exhaust)
        have c: "checked_insert (ge_rule env) host tt url html stale a \<and> \<not> is_audit a \<and> \<not> is_flush a \<and> \<not> is_release a
            \<and> a \<noteq> AskBudget \<and> \<not> is_model_call a" if "store_act r stale a" for a
          using that checked_insertI [OF None] by (auto simp: store_act_def r_def) (simp add: checked_insert_def)
        have "extends_by ?P s s3"
        proof (rule extends_trans [OF 2 store_extends [OF st]])
          fix a b :: "(gen_act \<times> go_error option) list"
          assume a: "?P a" and b: "all_acts (store_act r stale) b"
          have "?P b \<and> tally is_model_call b = 0" by (rule attempt_quiet [OF b c])
          then show "?P (a @ b)" using more [OF a] by blast
        qed
        moreover have "s' = s3" using assms None st unfolding r_def by (simp add: attempt_rule_def g Inr x j v Let_def)
        ultimately show ?thesis by simp
      qed
    qed
  qed
qed

definition run_trace :: "'n rule_env \<Rightarrow> string \<Rightarrow> string \<Rightarrow> string \<Rightarrow> string \<Rightarrow> bool \<Rightarrow> (gen_act \<times> go_error option) list \<Rightarrow> bool" where
  "run_trace E host tt url html stale tr \<longleftrightarrow>
     all_acts (checked_insert E host tt url html stale) tr
     \<and> tally is_model_call tr \<le> tally (\<lambda>a. a = AskBudget) tr \<and> tally is_audit tr = tally (\<lambda>a. a = AskBudget) tr
     \<and> tally (\<lambda>a. a = AskBudget) tr \<le> 1 \<and> all_acts (\<lambda>a. \<not> is_flush a \<and> \<not> is_release a) tr"

definition budget_trace :: "(gen_act \<times> go_error option) list \<Rightarrow> bool" where
  "budget_trace tr \<longleftrightarrow> (\<exists>tr'. tr = (AskBudget, None) # tr' \<and> all_acts (\<lambda>a. \<exists>w. a = BudgetRecorded w) tr')"

lemma ask_budget_extends:
  assumes "ask_budget env s = (ok, s')"
  shows "extends_by budget_trace s s'"
proof -
  obtain o1 w rec b where a: "budget_Allow (ge_budget env (fst s)) (gw_budget (fst s)) = ((o1, w), rec, b)"
    by (metis prod.exhaust)
  have 1: "extends_by (\<lambda>tr. tr = [(AskBudget, None)]) s ((fst s)\<lparr>gw_budget := b\<rparr>, snd s @ [(AskBudget, None)])"
    by (simp add: extends_by_def)
  have 2: "s' = fold (\<lambda>w s. snd (perform (ge_io env) (BudgetRecorded w) s)) rec
                  ((fst s)\<lparr>gw_budget := b\<rparr>, snd s @ [(AskBudget, None)])"
    using assms by (simp add: ask_budget_def a)
  show ?thesis unfolding 2
    by (rule extends_trans [OF 1 fold_perform_extends [where A = "\<lambda>a. \<exists>w. a = BudgetRecorded w"]])
      (auto simp: budget_trace_def)
qed

lemma budget_trace_tally:
  assumes "budget_trace tr"
  shows "tally (\<lambda>a. a = AskBudget) tr = 1 \<and> tally is_model_call tr = 0
    \<and> tally is_audit tr = 0 \<and> all_acts (\<lambda>a. checked_insert E host tt url html stale a \<and> \<not> is_flush a \<and> \<not> is_release a) tr"
proof -
  obtain tr' where tr: "tr = (AskBudget, None) # tr'" and r: "all_acts (\<lambda>a. \<exists>w. a = BudgetRecorded w) tr'"
    using assms by (auto simp: budget_trace_def)
  have "all_acts (\<lambda>a. checked_insert E host tt url html stale a \<and> \<not> is_flush a \<and> \<not> is_release a) tr'"
    using r by (fastforce simp: checked_insert_def)
  moreover have "tally (\<lambda>a. a = AskBudget) tr' = 0" by (rule tally_none [OF r]) auto
  moreover have "tally is_model_call tr' = 0" by (rule tally_none [OF r]) auto
  moreover have "tally is_audit tr' = 0" by (rule tally_none [OF r]) auto
  ultimately show ?thesis by (simp add: tr) (simp add: checked_insert_def)
qed

lemma attempt_trace_tally: "attempt_trace E host tt url html stale tr \<Longrightarrow>
    tally (\<lambda>a. a = AskBudget) tr = 0 \<and> tally is_audit tr = 0 \<and> all_acts (\<lambda>a. \<not> is_flush a \<and> \<not> is_release a) tr"
  by (auto simp: attempt_trace_def
      intro!: tally_none [where A = "\<lambda>a. \<not> is_audit a \<and> \<not> is_flush a \<and> \<not> is_release a \<and> a \<noteq> AskBudget"])

lemma auditRecord_extends:
  "extends_by (\<lambda>tr. \<exists>r h t u m f st. tr = [(Audit r h t u m f st, None)] \<and> (r, st) = classifyOutcome err) s
     (auditRecord env host tt url model sm err s)"
  by (auto simp: auditRecord_def split: prod.splits intro!: note_extends)

lemma generate_extends:
  assumes "generate_rule env host tt url html stale s = (r, s')"
  shows "extends_by (run_trace (ge_rule env) host tt url html stale) s s'"
proof -
  let ?E = "ge_rule env"
  obtain ok s1 where b: "ask_budget env s = (ok, s1)" by (rule prod.exhaust)
  note b' = ask_budget_extends [OF b]
  show ?thesis
  proof (cases ok)
    case False
    have "s' = auditRecord env host tt url [] no_selectors (Some GenBudget) s1"
      using assms False by (auto simp: generate_rule_def b)
    moreover have "extends_by (run_trace ?E host tt url html stale) s
        (auditRecord env host tt url [] no_selectors (Some GenBudget) s1)"
    proof (rule extends_trans [OF b' auditRecord_extends])
      fix x y :: "(gen_act \<times> go_error option) list"
      assume x: "budget_trace x"
        and "\<exists>r h t u m f st. y = [(Audit r h t u m f st, None)] \<and> (r, st) = classifyOutcome (Some GenBudget)"
      then obtain r h t u m f st where y: "y = [(Audit r h t u m f st, None)]" by blast
      show "run_trace ?E host tt url html stale (x @ y)"
        using budget_trace_tally [OF x, of ?E host tt url html stale] by (auto simp: run_trace_def y) (simp add: checked_insert_def)
    qed
    ultimately show ?thesis by simp
  next
    case True
    obtain err model sm s2 where a: "attempt_rule env host tt url html stale s1 = ((err, model, sm), s2)"
      by (metis prod.exhaust)
    let ?Q = "\<lambda>tr. tally (\<lambda>a. a = AskBudget) tr = 1 \<and> tally is_model_call tr \<le> 1 \<and> tally is_audit tr = 0
       \<and> all_acts (\<lambda>a. checked_insert ?E host tt url html stale a \<and> \<not> is_flush a \<and> \<not> is_release a) tr"
    have m: "extends_by ?Q s s2"
    proof (rule extends_trans [OF b' attempt_extends [OF a]])
      fix x y :: "(gen_act \<times> go_error option) list"
      assume x: "budget_trace x" and y: "attempt_trace ?E host tt url html stale y"
      show "?Q (x @ y)"
        using budget_trace_tally [OF x, of ?E host tt url html stale] attempt_trace_tally [OF y] y
        by (auto simp: attempt_trace_def)
    qed
    have "s' = auditRecord env host tt url model sm err s2" using assms True by (auto simp: generate_rule_def b a)
    moreover have "extends_by (run_trace ?E host tt url html stale) s (auditRecord env host tt url model sm err s2)"
    proof (rule extends_trans [OF m auditRecord_extends])
      fix x y :: "(gen_act \<times> go_error option) list"
      assume x: "?Q x" and "\<exists>r h t u m f st. y = [(Audit r h t u m f st, None)] \<and> (r, st) = classifyOutcome err"
      then obtain r h t u m f st where y: "y = [(Audit r h t u m f st, None)]" by blast
      show "run_trace ?E host tt url html stale (x @ y)"
        using x by (auto simp: run_trace_def y) (simp add: checked_insert_def)
    qed
    ultimately show ?thesis by simp
  qed
qed

lemma run_extends:
  assumes "runOnce env host tt url html stale s = (r, s')"
  shows "extends_by (run_trace (ge_rule env) host tt url html stale) s s'"
proof -
  let ?P = "run_trace (ge_rule env) host tt url html stale"
  obtain v s1 where f: "perform_val (ge_find env host tt) (FindRule host tt) s = (v, s1)" by (rule prod.exhaust)
  have 1: "extends_by (\<lambda>tr. \<exists>e. tr = [(FindRule host tt, e)]) s s1" by (rule perform_val_extends [OF f]) simp
  have p: "?P [(FindRule host tt, e)]" for e by (simp add: run_trace_def checked_insert_def)
  then have found: "extends_by ?P s s1" by (intro extends_weaken [OF 1]) auto
  have inval: "extends_by ?P s (w, snd s1)" for w
    using found by (simp add: extends_by_def)
  have gen: "extends_by ?P s s'" if "generate_rule env host tt url html stale s1 = (r, s')"
    by (rule extends_trans [OF 1 generate_extends [OF that]]) (auto simp: run_trace_def checked_insert_def)
  consider (hit) u where "v = Inr (Some u)" "ru_enabled u" "\<not> stale" | (disabled) u where "v = Inr (Some u)" "\<not> ru_enabled u"
    | (go) "runOnce env host tt url html stale s = generate_rule env host tt url html stale s1"
  proof (cases v)
    case (Inl e)
    then show ?thesis by (intro go) (simp add: runOnce_def f)
  next
    case (Inr x)
    show ?thesis
    proof (cases x)
      case None
      then show ?thesis by (intro go) (simp add: runOnce_def f Inr)
    next
      case (Some u)
      show ?thesis
      proof (cases "ru_enabled u \<and> stale")
        case True
        then show ?thesis by (intro go) (simp add: runOnce_def f Inr Some)
      next
        case False
        then show ?thesis using hit [of u] disabled [of u] by (auto simp: Inr Some)
      qed
    qed
  qed
  then show ?thesis
  proof cases
    case hit
    then show ?thesis using assms inval by (auto simp: runOnce_def f)
  next
    case disabled
    then show ?thesis using assms found by (auto simp: runOnce_def f)
  next
    case go
    then show ?thesis using assms gen by simp
  qed
qed


definition sample_gen_selectors :: selector_map where
  "sample_gen_selectors = sample_generated\<lparr>sm_main := Some \<lparr>fs_css = ''p'', fs_attr = [], fs_multi = False\<rparr>\<rparr>"

definition sample_gen :: "(string, unit) gen" where
  "sample_gen =
     \<lparr>ge_io = (\<lambda>a w. (None, w)), ge_rule = sample_rule_env, ge_loader = (\<lambda>n. Inr []), ge_unmarshal = (\<lambda>s. Inr no_selectors),
      ge_marshal = (\<lambda>sm. Inr []), ge_sha_hex = (\<lambda>b. ''0123456789abcdef''), ge_budget = (\<lambda>w. budget_call_at 0),
      ge_find = (\<lambda>h t w. (Inr None, w)), ge_extractor = PlainExtractor (\<lambda>h t html w. (Inr sample_gen_selectors, w)),
      ge_model_name = Some ''m'', ge_generate = (\<lambda>a b w. (Inr None, w)), ge_judge = None, ge_has_blacklist = False,
      ge_acquire = (\<lambda>h t w. (Inr True, w)), ge_has_pending = True, ge_flush = (\<lambda>h t w. (Inr [''p''], w)),
      ge_requeue = Some (\<lambda>items w. (items, w)), ge_encode = (\<lambda>i. Inr ''q''),
      ge_decode = (\<lambda>b. Inr \<lparr>pi_ref = \<lparr>rf_id = ''r'', rf_url = [], rf_fetched_at = 0,
          rf_source = \<lparr>si_country = [], si_type = [], si_name = [], si_base_url = [], si_language = []\<rparr>, rf_llm_retry = 0\<rparr>,
        pi_type = TargetTypePage, pi_llm_retry = 0, pi_crawler = [], pi_timeout_ms = 0\<rparr>),
      ge_has_failure_handler = True\<rparr>"

definition sample_gen_world :: "unit gen_world" where
  "sample_gen_world =
     \<lparr>gw_breaker = Some (NewHostBreaker 3 10), gw_budget = None, gw_resolver = NewResolver [], gw_stopped = False,
      gw_now = 0, gw_out = ()\<rparr>"

lemma sample_checked: "validateSelectors sample_rule_env sample_gen_selectors TargetTypePage ''x'' = None"
  by code_simp

definition sample_gen_rule :: gen_rule where
  "sample_gen_rule = generated_record sample_rule_env ''h'' TargetTypePage ''u'' ''x'' sample_gen_selectors ''m'' [] False"

lemma sample_run:
  "\<exists>w a. runOnce sample_gen ''h'' TargetTypePage ''u'' ''x'' False (sample_gen_world, [])
     = (None, (w, [] @ [(FindRule ''h'' TargetTypePage, None), (AskBudget, None), (ExtractSelectors ''h'' TargetTypePage, None),
          (InsertRule sample_gen_rule False, None), (a, None)]))
     \<and> is_audit a \<and> gw_breaker w = gw_breaker sample_gen_world"
  by (simp add: runOnce_def perform_val_def sample_gen_def generate_rule_def ask_budget_def budget_Allow_def
      sample_gen_world_def attempt_rule_def gather_selectors_def sample_checked judge_selectors_def store_generated_def
      perform_def auditRecord_def classifyOutcome_def note_call_def sample_gen_rule_def extractor_model_def err_of_def Let_def)


section \<open>The goroutine\<close>

definition pushed :: "('n, 'w) gen_env \<Rightarrow> string \<Rightarrow> string \<Rightarrow> pending_item set \<Rightarrow> (gen_act \<times> go_error option) list \<Rightarrow> bool" where
  "pushed env host tt is tr \<longleftrightarrow> all_acts (\<lambda>a. \<exists>p. a = PushPending host tt p) tr
     \<and> (\<forall>i \<in> is. \<forall>p. ge_encode env i = Inr p \<longrightarrow> (\<exists>e. (PushPending host tt p, e) \<in> set tr))"

lemma pushed_append: "pushed env host tt is tr \<Longrightarrow> pushed env host tt js tr' \<Longrightarrow> pushed env host tt (is \<union> js) (tr @ tr')"
  unfolding pushed_def set_append by blast

lemma defer_extends: "extends_by (pushed env host tt {i}) s (defer_item env host tt i s)"
proof (cases "ge_encode env i")
  case (Inr p)
  obtain r s1 where d: "perform (ge_io env) (PushPending host tt p) s = (r, s1)" by (rule prod.exhaust)
  have "extends_by (pushed env host tt {i}) s s1" by (rule perform_extends [OF d]) (simp add: Inr pushed_def)
  then show ?thesis by (simp add: defer_item_def Inr d)
qed (simp add: defer_item_def extends_refl pushed_def)

lemma defers_extend: "extends_by (pushed env host tt (set is)) s (fold (defer_item env host tt) is s)"
proof (induction "is" arbitrary: s)
  case (Cons i "is")
  have "extends_by (pushed env host tt ({i} \<union> set is)) s (fold (defer_item env host tt) is (defer_item env host tt i s))"
    by (rule extends_trans [OF defer_extends Cons.IH]) (rule pushed_append)
  then show ?case by simp
qed (simp add: extends_refl pushed_def)

text \<open>Flushing hands on what it decoded, and puts back what Kafka refused.\<close>

definition put_back :: "('n, 'w) gen_env \<Rightarrow> string \<Rightarrow> string \<Rightarrow> (gen_act \<times> go_error option) list \<Rightarrow> bool" where
  "put_back env host tt tr \<longleftrightarrow>
     (\<forall>items failed e i p. (RequeueItems items failed, e) \<in> set tr \<longrightarrow> i \<in> set failed \<longrightarrow> ge_encode env i = Inr p
        \<longrightarrow> (\<exists>e'. (PushPending host tt p, e') \<in> set tr))"

fun is_flush_act :: "gen_act \<Rightarrow> bool" where
  "is_flush_act (PushPending _ _ _) = True"
| "is_flush_act a = is_flush a"

lemma flush_extends: "extends_by (\<lambda>tr. put_back env host tt tr \<and> all_acts is_flush_act tr) s (flush_pending env host tt s)"
proof (cases "ge_requeue env")
  case None
  then show ?thesis by (simp add: flush_pending_def extends_refl put_back_def)
next
  case (Some requeue)
  let ?P = "\<lambda>tr. put_back env host tt tr \<and> all_acts is_flush_act tr"
  obtain v s1 where f: "perform_val (ge_flush env host tt) (FlushPending host tt) s = (v, s1)" by (rule prod.exhaust)
  have 1: "extends_by (\<lambda>tr. \<exists>e. tr = [(FlushPending host tt, e)]) s s1" by (rule perform_val_extends [OF f]) simp
  have quiet: "extends_by ?P s s1" by (rule extends_weaken [OF 1]) (auto simp: put_back_def)
  define items where "items ps = List.map_filter (\<lambda>p. case ge_decode env p of Inl _ \<Rightarrow> None | Inr i \<Rightarrow> Some i) ps" for ps
  have full: "extends_by ?P s (fold (defer_item env host tt) failed (note_call (RequeueItems its failed) None s2))"
    if a: "ask (requeue its) s1 = (failed, s2)" for its failed s2
  proof -
    have "snd s2 = snd s1" using a by (auto simp: ask_def split: prod.splits)
    then have "extends_by (\<lambda>tr. \<exists>e. tr = [(FlushPending host tt, e), (RequeueItems its failed, None)]) s
        (note_call (RequeueItems its failed) None s2)"
      using 1 by (auto simp: extends_by_def note_call_def)
    then show ?thesis
    proof (rule extends_trans [OF _ defers_extend])
      fix x y :: "(gen_act \<times> go_error option) list"
      assume "\<exists>e. x = [(FlushPending host tt, e), (RequeueItems its failed, None)]" and y: "pushed env host tt (set failed) y"
      then obtain e where x: "x = [(FlushPending host tt, e), (RequeueItems its failed, None)]" by blast
      show "?P (x @ y)" using y by (auto simp: put_back_def pushed_def x)
    qed
  qed
  show ?thesis
  proof (cases "ge_has_pending env")
    case False
    then show ?thesis by (simp add: flush_pending_def Some extends_refl put_back_def)
  next
    case True
    show ?thesis
    proof (cases v)
      case (Inl e)
      then show ?thesis using quiet by (simp add: flush_pending_def Some True f)
    next
      case (Inr ps)
      obtain failed s2 where a: "ask (requeue (items ps)) s1 = (failed, s2)" by (rule prod.exhaust)
      show ?thesis
        using quiet full [OF a] a by (simp add: flush_pending_def Some True f Inr items_def Let_def)
    qed
  qed
qed

lemma record_outcome_trace: "snd (record_outcome key err s) = snd s"
  by (simp add: record_outcome_def split: option.split)

lemma is_flush_act_cases: "is_flush_act a \<Longrightarrow> \<not> is_release a \<and> \<not> is_audit a \<and> \<not> is_model_call a"
  by (cases a) auto


definition sample_gen_job :: gen_job where
  "sample_gen_job =
     \<lparr>gj_host = ''h'', gj_type = TargetTypePage, gj_url = ''u'', gj_html = ''x'',
      gj_ref = \<lparr>rf_id = ''r'', rf_url = ''u'', rf_fetched_at = 0,
          rf_source = \<lparr>si_country = [], si_type = [], si_name = [], si_base_url = [], si_language = []\<rparr>, rf_llm_retry = 0\<rparr>,
      gj_retry = 0, gj_crawler = ''c'', gj_stale = False\<rparr>"


section \<open>Several calls for one host\<close>

text \<open>
  The calls \<open>i\<close> of \<open>enqueueImpl\<close> for one host and their goroutines, \<open>Stop\<close> and its \<^verbatim>\<open>WaitGroup\<close>, as
  atomic steps in any order. A call passes the stopped check, then takes the slot or is deferred; the goroutine stores a
  rule and flushes, or fails; then it releases the slot. The parser calls only while it finds no rule.
\<close>

datatype gen_phase = GIdle | GPassed | GRunning | GFlushed | GDone | GDeferred

record gen_conc =
  gc_phase :: "nat \<Rightarrow> gen_phase"
  gc_slot :: "nat option"
  gc_pending :: "nat list"
  gc_requeued :: "nat list"
  gc_rule :: bool
  gc_stopped :: bool
  gc_waited :: bool

definition gen_start :: gen_conc where
  "gen_start = \<lparr>gc_phase = (\<lambda>_. GIdle), gc_slot = None, gc_pending = [], gc_requeued = [], gc_rule = False,
                gc_stopped = False, gc_waited = False\<rparr>"

inductive gen_step :: "gen_conc \<Rightarrow> gen_conc \<Rightarrow> bool" where
  gen_pass: "gc_phase s i = GIdle \<Longrightarrow> \<not> gc_stopped s \<Longrightarrow> \<not> gc_rule s
    \<Longrightarrow> gen_step s (s\<lparr>gc_phase := (gc_phase s)(i := GPassed)\<rparr>)"
| gen_take: "gc_phase s i = GPassed \<Longrightarrow> gc_slot s = None
    \<Longrightarrow> gen_step s (s\<lparr>gc_phase := (gc_phase s)(i := GRunning), gc_slot := Some i\<rparr>)"
| gen_defer: "gc_phase s i = GPassed \<Longrightarrow> gc_slot s \<noteq> None
    \<Longrightarrow> gen_step s (s\<lparr>gc_phase := (gc_phase s)(i := GDeferred), gc_pending := gc_pending s @ [i]\<rparr>)"
| gen_succeed: "gc_phase s i = GRunning
    \<Longrightarrow> gen_step s (s\<lparr>gc_phase := (gc_phase s)(i := GFlushed), gc_rule := True, gc_pending := [],
                       gc_requeued := gc_requeued s @ gc_pending s\<rparr>)"
| gen_fail: "gc_phase s i = GRunning
    \<Longrightarrow> gen_step s (s\<lparr>gc_phase := (gc_phase s)(i := GFlushed)\<rparr>)"
| gen_release: "gc_phase s i = GFlushed
    \<Longrightarrow> gen_step s (s\<lparr>gc_phase := (gc_phase s)(i := GDone), gc_slot := None\<rparr>)"
| gen_stop: "\<not> gc_stopped s \<Longrightarrow> gen_step s (s\<lparr>gc_stopped := True\<rparr>)"
| gen_waited: "gc_stopped s \<Longrightarrow> \<forall>i. gc_phase s i \<notin> {GRunning, GFlushed} \<Longrightarrow> gen_step s (s\<lparr>gc_waited := True\<rparr>)"

inductive_cases gen_stepE: "gen_step s s'"

definition gen_inv :: "gen_conc \<Rightarrow> bool" where
  "gen_inv s \<longleftrightarrow> (\<forall>i. gc_phase s i \<in> {GRunning, GFlushed} \<longleftrightarrow> gc_slot s = Some i)
     \<and> (\<forall>i. gc_phase s i = GDeferred \<longleftrightarrow> i \<in> set (gc_requeued s @ gc_pending s))
     \<and> distinct (gc_requeued s @ gc_pending s)"

lemma gen_inv_step: "gen_inv s \<Longrightarrow> gen_step s s' \<Longrightarrow> gen_inv s'"
  by (erule gen_stepE) (auto simp: gen_inv_def split: if_splits, (metis gen_phase.distinct option.inject)+)


definition gen_state :: "(nat \<Rightarrow> gen_phase) \<Rightarrow> nat option \<Rightarrow> nat list \<Rightarrow> bool \<Rightarrow> bool \<Rightarrow> bool \<Rightarrow> gen_conc" where
  "gen_state ph slot pend rule stopped waited =
     \<lparr>gc_phase = ph, gc_slot = slot, gc_pending = pend, gc_requeued = [], gc_rule = rule, gc_stopped = stopped,
      gc_waited = waited\<rparr>"

definition two_calls :: "gen_phase \<Rightarrow> gen_phase \<Rightarrow> nat option \<Rightarrow> nat list \<Rightarrow> bool \<Rightarrow> bool \<Rightarrow> bool \<Rightarrow> gen_conc" where
  "two_calls p q slot pend rule stopped waited =
     gen_state (\<lambda>i. if i = 0 then p else if i = 1 then q else GIdle) slot pend rule stopped waited"

lemmas two_defs = two_calls_def gen_state_def gen_start_def fun_eq_iff

lemma two_start: "gen_start = two_calls GIdle GIdle None [] False False False"
  by (simp add: two_defs)

lemma first_passes: "gen_step\<^sup>*\<^sup>* gen_start (two_calls GPassed GIdle None [] False False False)"
  by (rule r_into_rtranclp, rule back_subst [of "gen_step gen_start", OF gen_pass [of gen_start 0]]) (simp_all add: two_defs)

lemma gen_reach_flushed:
  "gen_step\<^sup>*\<^sup>* gen_start (two_calls GFlushed GPassed (Some 0) [] True False False)"
proof -
  note first_passes
  also have "gen_step (two_calls GPassed GIdle None [] False False False) (two_calls GPassed GPassed None [] False False False)"
    by (rule back_subst [of "gen_step _", OF gen_pass [of _ 1]]) (simp_all add: two_defs)
  also have "gen_step (two_calls GPassed GPassed None [] False False False) (two_calls GRunning GPassed (Some 0) [] False False False)"
    by (rule back_subst [of "gen_step _", OF gen_take [of _ 0]]) (simp_all add: two_defs)
  also have "gen_step (two_calls GRunning GPassed (Some 0) [] False False False) (two_calls GFlushed GPassed (Some 0) [] True False False)"
    by (rule back_subst [of "gen_step _", OF gen_succeed [of _ 0]]) (simp_all add: two_defs)
  finally show ?thesis by simp
qed

definition stranded :: gen_conc where
  "stranded = two_calls GDone GDeferred None [1] True False False"

lemma stranded_reachable: "gen_step\<^sup>*\<^sup>* gen_start stranded"
proof -
  note gen_reach_flushed
  also have "gen_step (two_calls GFlushed GPassed (Some 0) [] True False False) (two_calls GFlushed GDeferred (Some 0) [1] True False False)"
    by (rule back_subst [of "gen_step _", OF gen_defer [of _ 1]]) (simp_all add: two_defs)
  also have "gen_step (two_calls GFlushed GDeferred (Some 0) [1] True False False) stranded"
    by (rule back_subst [of "gen_step _", OF gen_release [of _ 0]]) (simp_all add: two_defs stranded_def)
  finally show ?thesis by simp
qed

text \<open>
  A page deferred between the flush and the release of the slot is not handed back: the rule exists, so no further
  call for the host is made, and nothing else empties the queue.
\<close>

theorem flush_window_strands_page:
  "gen_step\<^sup>*\<^sup>* gen_start stranded \<and> 1 \<in> set (gc_pending stranded) \<and> gc_rule stranded
   \<and> (\<forall>s. gen_step\<^sup>*\<^sup>* stranded s \<longrightarrow> gc_pending s = [1] \<and> gc_requeued s = [])"
proof (intro conjI allI impI)
  have inv: "gc_pending s = [1] \<and> gc_requeued s = [] \<and> gc_rule s \<and> (\<forall>i. gc_phase s i \<in> {GIdle, GDone, GDeferred})"
    if "gen_step\<^sup>*\<^sup>* stranded s" for s
    using that
  proof induction
    case base
    show ?case by (simp add: stranded_def two_defs)
  next
    case (step s s')
    from step.hyps(2) step.IH show ?case by (elim gen_stepE) (auto, (metis gen_phase.distinct)+)
  qed
  show "gc_pending s = [1]" "gc_requeued s = []" if "gen_step\<^sup>*\<^sup>* stranded s" for s using inv [OF that] by simp_all
qed (simp_all add: stranded_reachable, simp_all add: stranded_def two_defs)

text \<open>A call that passed the stopped check starts its goroutine after \<open>Stop\<close> saw none running and returned.\<close>

theorem stop_misses_late_start:
  "gen_step\<^sup>*\<^sup>* gen_start (two_calls GRunning GIdle (Some 0) [] False True True)"
proof -
  note first_passes
  also have "gen_step (two_calls GPassed GIdle None [] False False False) (two_calls GPassed GIdle None [] False True False)"
    by (rule back_subst [of "gen_step _", OF gen_stop]) (simp_all add: two_defs)
  also have "gen_step (two_calls GPassed GIdle None [] False True False) (two_calls GPassed GIdle None [] False True True)"
    by (rule back_subst [of "gen_step _", OF gen_waited]) (simp_all add: two_defs)
  also have "gen_step (two_calls GPassed GIdle None [] False True True) (two_calls GRunning GIdle (Some 0) [] False True True)"
    by (rule back_subst [of "gen_step _", OF gen_take [of _ 0]]) (simp_all add: two_defs)
  finally show ?thesis by simp
qed


end
