(* ===== verification/FetchHandlers.thy ===== *)
theory FetchHandlers
  imports FetcherRules ContentStore FetcherPool RuleGen
begin

text \<open>
  What a fetcher's worker does with a job (\<^verbatim>\<open>internal/processor/fetcher/domain/general/handler.go\<close>,
  \<^verbatim>\<open>chain_handler.go\<close>, \<^verbatim>\<open>fetcher/handler/handler.go\<close>, \<^verbatim>\<open>noop.go\<close>): the chain of fetchers, the choice between it and
  the queue of the browser pool, the storing of the page and the publishing of a reference to it; the handler of the
  browser pool with its semaphores (\<^verbatim>\<open>fetcher/worker/chromedp_handler.go\<close>, \<^verbatim>\<open>semaphore.go\<close>); and the registration of
  the sources (\<^verbatim>\<open>domain/general/sources/registry.go\<close>). Fetching a page is a parameter; logging is left out.
\<close>

section \<open>Fetchers in a chain\<close>

text \<open>A handler holds the number of its fetcher and the next handler.\<close>

datatype fetch_handler =
    GoQueryFetch nat "string list" "fetch_handler option"
  | BrowserFetch nat "fetch_handler option"

definition hasLazyContent :: "(string \<Rightarrow> string) \<Rightarrow> string list \<Rightarrow> string \<Rightarrow> bool" where
  "hasLazyContent lower kws html \<longleftrightarrow> list_ex (\<lambda>kw. sublist (lower kw) (lower html)) kws"

text \<open>
  The environment: \<open>hv_fetch\<close> fetches with a fetcher, the raw store and the lookups take their outcomes from the world,
  \<open>hv_token\<close> is the process's token. The state adds to the trace of the bus the raw table, the resolver's cache and the
  fetchers that were called.
\<close>

record 'w fh_env =
  hv_lib :: url_lib
  hv_fetch :: "nat \<Rightarrow> target \<Rightarrow> 'w \<Rightarrow> (go_error + raw_content) \<times> 'w"
  hv_raw :: raw_db
  hv_save :: "'w \<Rightarrow> go_error option"
  hv_reread :: "'w \<Rightarrow> go_error option"
  hv_others :: "'w \<Rightarrow> raw_row list \<Rightarrow> raw_row list"
  hv_rules :: frule_db
  hv_ttl :: duration
  hv_call :: "'w \<Rightarrow> resolve_call"
  hv_token :: string
  hv_io :: "(act, 'w) io"
  hv_pub :: publisher
  hv_marshal_job :: "crawl_job \<Rightarrow> go_error + bytes"
  hv_marshal_ref :: "raw_ref \<Rightarrow> go_error + bytes"

record 'w fh_state =
  fh_bus :: "(act, 'w) sys"
  fh_rows :: "raw_row list"
  fh_cache :: fetcher_cache
  fh_fetched :: "nat list"

definition fetch_page :: "'w fh_env \<Rightarrow> nat \<Rightarrow> target \<Rightarrow> 'w fh_state \<Rightarrow> (go_error + raw_content) \<times> 'w fh_state" where
  "fetch_page E f t s =
     (let (r, w) = hv_fetch E f t (fst (fh_bus s))
      in (r, s\<lparr>fh_bus := (w, snd (fh_bus s)), fh_fetched := fh_fetched s @ [f]\<rparr>))"

definition is_not_found :: "go_error \<Rightarrow> bool" where
  "is_not_found err \<longleftrightarrow> (case as_crawler err of None \<Rightarrow> False | Some e \<Rightarrow> ce_category e = CatNotFound)"

fun chain_Handle ::
  "'w fh_env \<Rightarrow> fetch_handler \<Rightarrow> crawl_job \<Rightarrow> 'w fh_state \<Rightarrow> (go_error + raw_content option) \<times> 'w fh_state" where
  "chain_Handle E (GoQueryFetch f kws nextHandler) job s =
     (case fetch_page E f (job_target job) s of
        (Inl err, s1) \<Rightarrow>
          if is_not_found err then (Inl err, s1)
          else (case nextHandler of
                  None \<Rightarrow> (Inl (Wrapped (''all fetch strategies exhausted for '' @ tg_url (job_target job)) err), s1)
                | Some h \<Rightarrow> chain_Handle E h job s1)
      | (Inr raw, s1) \<Rightarrow>
          if hasLazyContent (ul_lower (hv_lib E)) kws (rc_html raw) then (Inl (Sentinel LazyContentNeedsBrowser), s1)
          else (Inr (Some raw), s1))"
| "chain_Handle E (BrowserFetch f nextHandler) job s =
     (case fetch_page E f (job_target job) s of
        (Inl err, s1) \<Rightarrow> (Inl err, s1)
      | (Inr raw, s1) \<Rightarrow> (Inr (Some raw), s1))"

text \<open>\<open>None\<close> for a nil fetcher.\<close>

definition BuildChain :: "nat option \<Rightarrow> nat option \<Rightarrow> string list \<Rightarrow> go_error + fetch_handler" where
  "BuildChain gq br lazyKeywords =
     (case (gq, br) of
        (None, None) \<Rightarrow> Inl (Opaque ''BuildChain: at least one fetcher (goquery / browser) must be non-nil'')
      | (Some g, None) \<Rightarrow> Inr (GoQueryFetch g lazyKeywords None)
      | (None, Some b) \<Rightarrow> Inr (BrowserFetch b None)
      | (Some g, Some b) \<Rightarrow> Inr (GoQueryFetch g lazyKeywords (Some (BrowserFetch b None))))"

section \<open>The handler of a source\<close>

definition TopicCrawlChromedp :: string where "TopicCrawlChromedp = ''issuetracker.crawl.chromedp''"

record chain_handler =
  ch_default :: "fetch_handler option"
  ch_chromedp :: "fetch_handler list"
  ch_resolver :: bool
  ch_wired :: bool

definition NoWorkerID :: int where "NoWorkerID = -1"

text \<open>The chain of a worker, the first for any number out of range.\<close>

definition resolveChromedpChain :: "chain_handler \<Rightarrow> int \<Rightarrow> fetch_handler option" where
  "resolveChromedpChain h wid =
     (if ch_chromedp h = [] then None
      else if wid < 0 \<or> int (length (ch_chromedp h)) \<le> wid then Some (ch_chromedp h ! 0)
      else Some (ch_chromedp h ! nat wid))"

definition chain_host :: "url_lib \<Rightarrow> string \<Rightarrow> string" where
  "chain_host L rawURL =
     (case ul_parse L rawURL of Inl _ \<Rightarrow> [] | Inr u \<Rightarrow> if ur_host u = [] then [] else Hostname u)"

text \<open>Whether the job asks for the browser and may: the text of the fetcher and the token of this process.\<close>

definition meta_text :: "metadata \<Rightarrow> string \<Rightarrow> string" where
  "meta_text m k = (case m k of Some (MStr s) \<Rightarrow> s | _ \<Rightarrow> [])"

definition force_chromedp :: "string \<Rightarrow> metadata \<Rightarrow> bool" where
  "force_chromedp token m \<longleftrightarrow> m MetadataKeyForceFetcher = Some (MStr FetcherChromedp)
     \<and> ValidateForceFetcherToken token (meta_text m MetadataKeyForceFetcherToken)"

text \<open>\<open>True\<close>: to the browser's queue, \<open>False\<close>: the default chain.\<close>

definition selectChain :: "'w fh_env \<Rightarrow> chain_handler \<Rightarrow> crawl_job \<Rightarrow> 'w fh_state \<Rightarrow> bool \<times> 'w fh_state" where
  "selectChain E h job s =
     (if force_chromedp (hv_token E) (tg_meta (job_target job)) \<and> ch_chromedp h \<noteq> [] then (True, s)
      else if \<not> ch_resolver h then (False, s)
      else let host = chain_host (hv_lib E) (tg_url (job_target job))
           in if host = [] then (False, s)
              else let (res, cache) = fetcher_Resolve (hv_rules E) (hv_ttl E) (hv_call E (fst (fh_bus s))) host (fh_cache s);
                       s1 = s\<lparr>fh_cache := cache\<rparr>
                   in (case res of
                         Inl _ \<Rightarrow> False
                       | Inr r \<Rightarrow> rr_found r \<and> rr_fetcher r = FetcherChromedp \<and> ch_chromedp h \<noteq> [], s1))"

definition chromedp_message :: "crawl_job \<Rightarrow> bytes \<Rightarrow> message" where
  "chromedp_message job data =
     new_message TopicCrawlChromedp (job_id job) data
       [''crawler'' \<mapsto> job_crawler job, ''job_id'' \<mapsto> job_id job, ''original'' \<mapsto> ''goquery_pool'']"

definition fh_forward :: "'w fh_env \<Rightarrow> message \<Rightarrow> 'w fh_state \<Rightarrow> go_error option \<times> 'w fh_state" where
  "fh_forward E m s = (let (e, b) = Forward (hv_io E) (Some (hv_pub E)) m (fh_bus s) in (e, s\<lparr>fh_bus := b\<rparr>))"

definition republishToChromedpQueue :: "'w fh_env \<Rightarrow> crawl_job \<Rightarrow> 'w fh_state \<Rightarrow> go_error option \<times> 'w fh_state" where
  "republishToChromedpQueue E job s =
     (case hv_marshal_job E job of
        Inl err \<Rightarrow> (Some (Wrapped (''marshal job '' @ job_id job) err), s)
      | Inr data \<Rightarrow>
         (case fh_forward E (chromedp_message job data) s of
            (Some err, s1) \<Rightarrow> (Some (Wrapped ''publish chromedp queue'' err), s1)
          | (None, s1) \<Rightarrow> (None, s1)))"

definition fetched_headers :: "headers option \<Rightarrow> crawl_job \<Rightarrow> raw_content \<Rightarrow> headers" where
  "fetched_headers ctx job raw =
     PropagateInboxHeaders ctx
       [''source'' \<mapsto> si_name (rc_source raw), ''country'' \<mapsto> si_country (rc_source raw), HeaderCrawler \<mapsto> job_crawler job,
        ''job_id'' \<mapsto> job_id job, HeaderTargetType \<mapsto> tg_type (job_target job),
        HeaderTimeoutMs \<mapsto> int_text (Milliseconds (job_timeout job))]"

definition publishFetchedRef ::
  "'w fh_env \<Rightarrow> headers option \<Rightarrow> crawl_job \<Rightarrow> raw_content \<Rightarrow> string \<Rightarrow> 'w fh_state \<Rightarrow> go_error option \<times> 'w fh_state" where
  "publishFetchedRef E ctx job raw rawID s =
     (case hv_marshal_ref E \<lparr>rf_id = rawID, rf_url = rc_url raw, rf_fetched_at = rc_fetched_at raw, rf_source = rc_source raw,
             rf_llm_retry = 0\<rparr> of
        Inl err \<Rightarrow> (Some (Wrapped ''marshal raw content ref'' err), s)
      | Inr payload \<Rightarrow> fh_forward E (new_message TopicFetched rawID payload (fetched_headers ctx job raw)) s)"

definition processFetchedRaw ::
  "'w fh_env \<Rightarrow> headers option \<Rightarrow> crawl_job \<Rightarrow> raw_content \<Rightarrow> 'w fh_state \<Rightarrow> go_error option \<times> 'w fh_state" where
  "processFetchedRaw E ctx job raw s =
     (let w = fst (fh_bus s);
          (res, rows) = raw_svc_Store (hv_raw E) (hv_save E w) (hv_others E w) (hv_reread E w) raw (fh_rows s);
          s1 = s\<lparr>fh_rows := rows\<rparr>
      in case res of
           Inl err \<Rightarrow> (Some (Wrapped (''store raw content for '' @ tg_url (job_target job)) err), s1)
         | Inr (rawID, dup) \<Rightarrow>
            (case publishFetchedRef E ctx job raw rawID s1 of
               (Some err, s2) \<Rightarrow> (Some (Wrapped (''publish fetched ref for '' @ tg_url (job_target job)) err), s2)
             | (None, s2) \<Rightarrow> (None, s2)))"

definition ChainHandler_Handle ::
  "'w fh_env \<Rightarrow> chain_handler \<Rightarrow> headers option \<Rightarrow> crawl_job \<Rightarrow> 'w fh_state \<Rightarrow> go_error option \<times> 'w fh_state" where
  "ChainHandler_Handle E h ctx job s =
     (case ch_default h of
        None \<Rightarrow> (Some (Opaque ''chain handler is not properly initialized''), s)
      | Some chain \<Rightarrow>
         if \<not> ch_wired h then (Some (Opaque ''chain handler is not properly initialized''), s)
         else
           (case selectChain E h job s of
              (True, s1) \<Rightarrow>
                (case republishToChromedpQueue E job s1 of
                   (Some err, s2) \<Rightarrow> (Some (Wrapped (''republish to chromedp queue for '' @ tg_url (job_target job)) err), s2)
                 | (None, s2) \<Rightarrow> (None, s2))
            | (False, s1) \<Rightarrow>
                (case chain_Handle E chain job s1 of
                   (Inl err, s2) \<Rightarrow>
                     if is_sentinel LazyContentNeedsBrowser err
                     then (case republishToChromedpQueue E job s2 of
                             (Some pubErr, s3) \<Rightarrow>
                               (Some (Wrapped (''republish to chromedp queue (lazy detect) for '' @ tg_url (job_target job)) pubErr), s3)
                           | (None, s3) \<Rightarrow> (None, s3))
                     else (Some err, s2)
                 | (Inr None, s2) \<Rightarrow> (Some (Opaque (''chain returned nil raw content for '' @ tg_url (job_target job))), s2)
                 | (Inr (Some raw), s2) \<Rightarrow> processFetchedRaw E ctx job raw s2)))"

definition HandleChromedpOnly ::
  "'w fh_env \<Rightarrow> chain_handler \<Rightarrow> headers option \<Rightarrow> int \<Rightarrow> crawl_job \<Rightarrow> 'w fh_state \<Rightarrow> go_error option \<times> 'w fh_state" where
  "HandleChromedpOnly E h ctx wid job s =
     (if \<not> ch_wired h then (Some (Opaque ''chain handler is not properly initialized''), s)
      else if ch_chromedp h = [] then (Some (Opaque (''crawler '' @ job_crawler job @ '' has no chromedp chain wired'')), s)
      else (case resolveChromedpChain h wid of
              None \<Rightarrow> (Some (Opaque (''crawler '' @ job_crawler job @ '' resolved nil chromedp chain (invariant violation)'')), s)
            | Some chain \<Rightarrow>
               (case chain_Handle E chain job s of
                  (Inl err, s1) \<Rightarrow> (Some err, s1)
                | (Inr None, s1) \<Rightarrow> (Some (Opaque (''chromedp chain returned nil raw content for '' @ tg_url (job_target job))), s1)
                | (Inr (Some raw), s1) \<Rightarrow> processFetchedRaw E ctx job raw s1)))"

section \<open>The browser pool\<close>

text \<open>
  A semaphore is a buffered channel. An acquisition that waits has no result yet; \<open>early\<close> and \<open>late\<close> are the context's
  error before it and when the wait takes the branch of the context.
\<close>

record chan_semaphore =
  sm_cap :: int
  sm_used :: int

definition NewChanSemaphore :: "int \<Rightarrow> go_error + chan_semaphore" where
  "NewChanSemaphore capacity =
     (if capacity \<le> 0 then Inl (Opaque ''worker: semaphore requires positive capacity'')
      else Inr \<lparr>sm_cap = capacity, sm_used = 0\<rparr>)"

definition sem_Acquire :: "go_error option \<Rightarrow> go_error option \<Rightarrow> chan_semaphore \<Rightarrow> (go_error option \<times> chan_semaphore) option" where
  "sem_Acquire early late m =
     (case early of
        Some err \<Rightarrow> Some (Some err, m)
      | None \<Rightarrow>
         (case late of
            Some err \<Rightarrow> Some (Some err, m)
          | None \<Rightarrow> if sm_used m < sm_cap m then Some (None, m\<lparr>sm_used := sm_used m + 1\<rparr>) else None))"

definition ErrReleaseWithoutAcquire :: go_error where
  "ErrReleaseWithoutAcquire = Opaque ''worker: release called without matching acquire''"

definition sem_Release :: "chan_semaphore \<Rightarrow> go_error option \<times> chan_semaphore" where
  "sem_Release m = (if 0 < sm_used m then (None, m\<lparr>sm_used := sm_used m - 1\<rparr>) else (Some ErrReleaseWithoutAcquire, m))"

text \<open>The registry of handlers; those of other types than \<^verbatim>\<open>ChainHandler\<close> are a parameter.\<close>

datatype job_handler = ChainJob chain_handler | OtherJob

type_synonym handler_registry = "string \<rightharpoonup> job_handler"

definition registry_Handle ::
  "'w fh_env \<Rightarrow> (crawl_job \<Rightarrow> 'w fh_state \<Rightarrow> go_error option \<times> 'w fh_state) \<Rightarrow> handler_registry \<Rightarrow> headers option \<Rightarrow> crawl_job
     \<Rightarrow> 'w fh_state \<Rightarrow> go_error option \<times> 'w fh_state" where
  "registry_Handle E other R ctx job s =
     (case R (job_crawler job) of
        None \<Rightarrow> (None, s)
      | Some (ChainJob h) \<Rightarrow> ChainHandler_Handle E h ctx job s
      | Some OtherJob \<Rightarrow> other job s)"

record slot_call =
  sl_worker :: int
  sl_early :: "go_error option"
  sl_late :: "go_error option"
  sl_others :: "chan_semaphore list \<Rightarrow> chan_semaphore list"

definition resolveSemaphore :: "chan_semaphore list \<Rightarrow> int \<Rightarrow> nat" where
  "resolveSemaphore sems wid = (if wid < 0 \<or> int (length sems) \<le> wid then 0 else nat wid)"

definition ChromedpJob_Handle ::
  "'w fh_env \<Rightarrow> handler_registry \<Rightarrow> slot_call \<Rightarrow> headers option \<Rightarrow> crawl_job option \<Rightarrow> 'w fh_state \<times> chan_semaphore list
     \<Rightarrow> (go_error option \<times> 'w fh_state \<times> chan_semaphore list) option" where
  "ChromedpJob_Handle E R c ctx jo st =
     (case jo of
        None \<Rightarrow> Some (Some (Opaque ''chromedp handler received nil job''), st)
      | Some job \<Rightarrow>
         (let (s, sems) = st; i = resolveSemaphore sems (sl_worker c)
          in case sem_Acquire (sl_early c) (sl_late c) (sems ! i) of
               None \<Rightarrow> None
             | Some (Some err, m) \<Rightarrow>
                 Some (Some (Wrapped (''chromedp semaphore acquire (worker_id='' @ int_text (int i) @ '')'') err), s, sems[i := m])
             | Some (None, m) \<Rightarrow>
                 (let (err, s1) = (case R (job_crawler job) of
                        None \<Rightarrow> (Some (Opaque (''no chain handler registered for crawler '' @ job_crawler job)), s)
                      | Some OtherJob \<Rightarrow>
                          (Some (Opaque (''registered handler for crawler '' @ job_crawler job @ '' is not *ChainHandler'')), s)
                      | Some (ChainJob h) \<Rightarrow> HandleChromedpOnly E h ctx (sl_worker c) job s);
                      sems1 = sl_others c (sems[i := m])
                  in Some (err, s1, sems1[i := snd (sem_Release (sems1 ! i))]))))"

section \<open>The sources\<close>

definition defaultLazyKeywords :: "string list" where
  "defaultLazyKeywords = [''data-lazy-src'', ''lazyload'', ''data-lazy'']"

record source_entry =
  se_rec :: frule_record
  se_exact :: bool

definition isCanonicalHost :: "url_lib \<Rightarrow> frule_record \<Rightarrow> bool" where
  "isCanonicalHost L r =
     (if fl_base_url r = [] then False
      else (case ul_parse L (fl_base_url r) of Inl _ \<Rightarrow> False | Inr u \<Rightarrow> Hostname u = fl_host r))"

definition source_mismatch :: "frule_record \<Rightarrow> frule_record \<Rightarrow> string option" where
  "source_mismatch p r =
     (if fl_country p \<noteq> fl_country r then Some ''Country''
      else if fl_language p \<noteq> fl_language r then Some ''Language''
      else if fl_source_type p \<noteq> fl_source_type r then Some ''SourceType''
      else if fl_rph p \<noteq> fl_rph r then Some ''RequestsPerHour''
      else None)"

text \<open>The three maps, and the names in the order they were first seen.\<close>

record source_maps =
  sc_names :: "string list"
  sc_entries :: "string \<rightharpoonup> source_entry"
  sc_hosts :: "string \<rightharpoonup> string list"
  sc_base_urls :: "string \<rightharpoonup> string set"

definition no_sources :: source_maps where
  "no_sources = \<lparr>sc_names = [], sc_entries = Map.empty, sc_hosts = Map.empty, sc_base_urls = Map.empty\<rparr>"

definition analyze_one :: "url_lib \<Rightarrow> frule_record \<Rightarrow> source_maps \<Rightarrow> go_error + source_maps" where
  "analyze_one L r M =
     (let n = fl_source r
      in if n = [] then Inr M
         else let M1 = M\<lparr>sc_hosts := (sc_hosts M)(n \<mapsto> (case sc_hosts M n of None \<Rightarrow> [] | Some hs \<Rightarrow> hs) @ [fl_host r]),
                         sc_base_urls := (sc_base_urls M)(n \<mapsto> insert (fl_base_url r) (case sc_base_urls M n of None \<Rightarrow> {} | Some us \<Rightarrow> us))\<rparr>
              in case sc_entries M1 n of
                   None \<Rightarrow> Inr (M1\<lparr>sc_names := sc_names M1 @ [n], sc_entries := (sc_entries M1)(n \<mapsto> \<lparr>se_rec = r, se_exact = isCanonicalHost L r\<rparr>)\<rparr>)
                 | Some prev \<Rightarrow>
                    (case source_mismatch (se_rec prev) r of
                       Some what \<Rightarrow>
                         Inl (Opaque (''inconsistent '' @ what @ '' for source_name='' @ go_quote n @ '' (host='' @ go_quote (fl_host (se_rec prev))
                            @ '' vs host='' @ go_quote (fl_host r) @ '')''))
                     | None \<Rightarrow>
                         if \<not> se_exact prev \<and> isCanonicalHost L r
                         then Inr (M1\<lparr>sc_entries := (sc_entries M1)(n \<mapsto> \<lparr>se_rec = r, se_exact = True\<rparr>)\<rparr>)
                         else Inr M1))"

fun analyze_all :: "url_lib \<Rightarrow> frule_record list \<Rightarrow> source_maps \<Rightarrow> go_error + source_maps" where
  "analyze_all L [] M = Inr M"
| "analyze_all L (r # rs) M = (case analyze_one L r M of Inl err \<Rightarrow> Inl err | Inr M1 \<Rightarrow> analyze_all L rs M1)"

definition AnalyzeSources :: "url_lib \<Rightarrow> frule_record list \<Rightarrow> go_error + source_maps" where
  "AnalyzeSources L rules = analyze_all L rules no_sources"

text \<open>
  \<open>fx name None\<close> is the plain fetcher made for a source, \<open>fx name (Some i)\<close> its browser fetcher of the \<open>i\<close>th remote
  address, of which there are \<open>remotes\<close>.
\<close>

fun build_browsers :: "(nat option \<Rightarrow> nat) \<Rightarrow> string \<Rightarrow> nat list \<Rightarrow> go_error + fetch_handler list" where
  "build_browsers fx name [] = Inr []"
| "build_browsers fx name (i # is) =
     (case BuildChain None (Some (fx (Some i))) [] of
        Inl err \<Rightarrow> Inl (Wrapped (name @ '' chromedp chain wiring (worker_id='' @ int_text (int i) @ '')'') err)
      | Inr c \<Rightarrow> (case build_browsers fx name is of Inl err \<Rightarrow> Inl err | Inr cs \<Rightarrow> Inr (c # cs)))"

definition buildHandler :: "(string \<Rightarrow> nat option \<Rightarrow> nat) \<Rightarrow> bool \<Rightarrow> bool \<Rightarrow> nat \<Rightarrow> string \<Rightarrow> go_error + job_handler" where
  "buildHandler fx resolver wired remotes name =
     (case BuildChain (Some (fx name None)) None (if remotes > 0 then defaultLazyKeywords else []) of
        Inl err \<Rightarrow> Inl (Wrapped (name @ '' default chain wiring'') err)
      | Inr def \<Rightarrow>
         (case build_browsers (fx name) name [0..<remotes] of
            Inl err \<Rightarrow> Inl err
          | Inr browsers \<Rightarrow> Inr (ChainJob \<lparr>ch_default = Some def, ch_chromedp = browsers, ch_resolver = resolver, ch_wired = wired\<rparr>)))"

fun register_sources ::
  "(string \<Rightarrow> go_error + job_handler) \<Rightarrow> source_maps \<Rightarrow> string list \<Rightarrow> handler_registry \<Rightarrow> go_error option \<times> handler_registry" where
  "register_sources build M [] R = (None, R)"
| "register_sources build M (n # ns) R =
     (case build n of
        Inl err \<Rightarrow> (Some err, R)
      | Inr h \<Rightarrow>
          register_sources build M ns
            (fold (\<lambda>host R. R(host \<mapsto> h)) (case sc_hosts M n of None \<Rightarrow> [] | Some hs \<Rightarrow> hs) (R(n \<mapsto> h))))"

text \<open>\<open>ord\<close> puts the sources in the order in which Go iterates over them.\<close>

definition RegisterAll ::
  "frule_db \<Rightarrow> go_error option \<Rightarrow> (string list \<Rightarrow> string list) \<Rightarrow> (string \<Rightarrow> nat option \<Rightarrow> nat) \<Rightarrow> bool \<Rightarrow> bool \<Rightarrow> nat
     \<Rightarrow> frule list \<Rightarrow> handler_registry \<Rightarrow> go_error option \<times> handler_registry" where
  "RegisterAll D db ord fx resolver wired remotes rows R =
     (case fetcher_List D db rows of
        Inl err \<Rightarrow> (Some (Wrapped ''list fetcher rules'' err), R)
      | Inr rules \<Rightarrow>
         (case AnalyzeSources (fd_lib D) rules of
            Inl err \<Rightarrow> (Some (Wrapped ''analyze sources'' err), R)
          | Inr M \<Rightarrow>
              if sc_names M = []
              then (Some (Opaque ''no sources found in fetcher_rules; apply migration 014 seed data''), R)
              else register_sources (buildHandler fx resolver wired remotes) M (ord (sc_names M)) R))"

section \<open>Every handled job is on the bus once\<close>

lemma raw_store_in:
  assumes "raw_svc_Store D db1 others db2 raw rows = (Inr (i, dup), rows')"
  shows "\<exists>x\<in>set rows'. rx_id x = i \<and> rx_url x = rc_url raw"
proof -
  obtain e rows1 where save: "raw_Save D db1 raw rows = (e, rows1)" by (rule prod.exhaust)
  show ?thesis
  proof (cases e)
    case None
    then have "i = rc_id raw" "rows' = rows1" using assms by (simp_all add: raw_svc_Store_def save)
    with raw_Save_spec(1) [OF save None] show ?thesis by auto
  next
    case (Some err)
    then obtain old where old: "raw_GetByURL D db2 (rc_url raw) rows' = Inr old" "rc_id old = i"
      using assms by (auto simp: raw_svc_Store_def save Let_def split: if_splits sum.splits)
    show ?thesis using raw_GetByURL_Inr [OF old(1)] old(2) by auto
  qed
qed

lemma fetch_page_bus: "fetch_page E f t s = (r, s') \<Longrightarrow> snd (fh_bus s') = snd (fh_bus s) \<and> fh_rows s' = fh_rows s \<and> fh_cache s' = fh_cache s"
  by (auto simp: fetch_page_def Let_def split: prod.splits)

lemma chain_Handle_bus:
  "chain_Handle E c job s = (r, s') \<Longrightarrow> snd (fh_bus s') = snd (fh_bus s) \<and> fh_rows s' = fh_rows s \<and> fh_cache s' = fh_cache s"
proof (induction E c job s arbitrary: r s' rule: chain_Handle.induct)
  case (1 E f kws nextHandler job s)
  obtain fr s1 where f: "fetch_page E f (job_target job) s = (fr, s1)" by (rule prod.exhaust)
  show ?case
  proof (cases "\<exists>err h. fr = Inl err \<and> \<not> is_not_found err \<and> nextHandler = Some h")
    case True
    then obtain err h where "fr = Inl err" "\<not> is_not_found err" "nextHandler = Some h" by blast
    then show ?thesis using "1.prems" "1.IH" [OF f [symmetric]] fetch_page_bus [OF f] f by (simp add: f)
  next
    case False
    then have "s' = s1" using "1.prems" by (auto simp: f split: sum.splits if_splits option.splits)
    then show ?thesis using fetch_page_bus [OF f] by simp
  qed
next
  case (2 E f nextHandler job s)
  then show ?case by (auto dest: fetch_page_bus split: prod.splits sum.splits)
qed

lemma fh_forward_bus:
  assumes "fh_forward E m s = (e, s')"
  shows "fh_rows s' = fh_rows s" and "e = None \<Longrightarrow> snd (fh_bus s') = snd (fh_bus s) @ [(Publish m, None)]"
    and "e \<noteq> None \<Longrightarrow> did a (fh_bus s') \<longleftrightarrow> did a (fh_bus s)"
proof -
  obtain b where f: "Forward (hv_io E) (Some (hv_pub E)) m (fh_bus s) = (e, b)" and s': "s' = s\<lparr>fh_bus := b\<rparr>"
    using assms by (auto simp: fh_forward_def Let_def split: prod.splits)
  show "fh_rows s' = fh_rows s" by (simp add: s')
  show "snd (fh_bus s') = snd (fh_bus s) @ [(Publish m, None)]" if "e = None"
    using f that by (auto simp: s' Forward_def dest: perform_trace split: if_splits)
  show "did a (fh_bus s') \<longleftrightarrow> did a (fh_bus s)" if "e \<noteq> None"
    using Forward_did [OF f, of a] that by (auto simp: s')
qed

lemma did_cong: "snd b' = snd b \<Longrightarrow> did a b' \<longleftrightarrow> did a b"
  by (simp add: did_def)

definition fetched_ref :: "'w fh_env \<Rightarrow> raw_row list \<Rightarrow> message \<Rightarrow> bool" where
  "fetched_ref E rows m \<longleftrightarrow> m_topic m = TopicFetched \<and> (\<exists>x\<in>set rows. rx_id x = m_key m \<and> (\<exists>raw :: raw_content. rc_url raw = rx_url x
     \<and> hv_marshal_ref E \<lparr>rf_id = rx_id x, rf_url = rx_url x, rf_fetched_at = rc_fetched_at raw, rf_source = rc_source raw,
           rf_llm_retry = 0\<rparr> = Inr (m_value m)))"

lemma republish_bus:
  assumes "republishToChromedpQueue E job s = (e, s')"
  shows "fh_rows s' = fh_rows s"
    and "e = None \<Longrightarrow> \<exists>data. hv_marshal_job E job = Inr data
          \<and> snd (fh_bus s') = snd (fh_bus s) @ [(Publish (chromedp_message job data), None)]"
    and "e \<noteq> None \<Longrightarrow> did a (fh_bus s') \<longleftrightarrow> did a (fh_bus s)"
  using assms fh_forward_bus [of E _ s]
  by (auto simp: republishToChromedpQueue_def split: sum.splits prod.splits option.splits)

lemma process_bus:
  assumes "processFetchedRaw E ctx job raw s = (e, s')"
  shows "e = None \<Longrightarrow> \<exists>m. snd (fh_bus s') = snd (fh_bus s) @ [(Publish m, None)] \<and> fetched_ref E (fh_rows s') m
          \<and> m_headers m = fetched_headers ctx job raw"
    and "e \<noteq> None \<Longrightarrow> did a (fh_bus s') \<longleftrightarrow> did a (fh_bus s)"
proof -
  let ?w = "fst (fh_bus s)"
  obtain res rows where st: "raw_svc_Store (hv_raw E) (hv_save E ?w) (hv_others E ?w) (hv_reread E ?w) raw (fh_rows s) = (res, rows)"
    by (rule prod.exhaust)
  let ?s1 = "s\<lparr>fh_rows := rows\<rparr>"
  show "\<exists>m. snd (fh_bus s') = snd (fh_bus s) @ [(Publish m, None)] \<and> fetched_ref E (fh_rows s') m
          \<and> m_headers m = fetched_headers ctx job raw" if none: "e = None"
  proof -
    obtain i dup where res: "res = Inr (i, dup)" and pub: "publishFetchedRef E ctx job raw i ?s1 = (None, s')"
      using assms none by (auto simp: processFetchedRaw_def st Let_def split: sum.splits prod.splits option.splits)
    obtain payload where p: "hv_marshal_ref E \<lparr>rf_id = i, rf_url = rc_url raw, rf_fetched_at = rc_fetched_at raw,
          rf_source = rc_source raw, rf_llm_retry = 0\<rparr> = Inr payload"
      and f: "fh_forward E (new_message TopicFetched i payload (fetched_headers ctx job raw)) ?s1 = (None, s')"
      using pub by (auto simp: publishFetchedRef_def split: sum.splits)
    obtain x where x: "x \<in> set rows" "rx_id x = i" "rx_url x = rc_url raw" using raw_store_in [OF st [unfolded res]] by auto
    have "fh_rows s' = rows" using fh_forward_bus(1) [OF f] by simp
    then have "fetched_ref E (fh_rows s') (new_message TopicFetched i payload (fetched_headers ctx job raw))"
      using x p by (auto simp: fetched_ref_def intro!: bexI [of _ x] exI [of _ raw])
    then show ?thesis using fh_forward_bus(2) [OF f refl] by (intro exI) auto
  qed
  show "did a (fh_bus s') \<longleftrightarrow> did a (fh_bus s)" if some: "e \<noteq> None"
  proof (cases res)
    case (Inl err)
    then show ?thesis using assms by (auto simp: processFetchedRaw_def st Let_def)
  next
    case (Inr p)
    then obtain i dup pe where pub: "publishFetchedRef E ctx job raw i ?s1 = (pe, s')" and "pe \<noteq> None"
      using assms some by (auto simp: processFetchedRaw_def st Let_def split: prod.splits option.splits)
    then show ?thesis
      using fh_forward_bus(3) [of E _ ?s1 pe s' a] by (auto simp: publishFetchedRef_def split: sum.splits)
  qed
qed

lemma selectChain_bus: "selectChain E h job s = (b, s') \<Longrightarrow> fh_bus s' = fh_bus s \<and> fh_rows s' = fh_rows s"
  by (auto simp: selectChain_def Let_def split: if_splits prod.splits)

text \<open>C2. A job that is handled without error is on the bus exactly once. Whatever the fetchers, the database, the lookup of
  the host's rule and the bus do: when Handle returns no error, the trace of the bus has one more entry, a published
  message, and it is either the whole job under its id on the queue of the browser pool, the stored pages being as they
  were, or a reference under the id of a stored page to that page; when Handle returns an error, no call of the bus has
  succeeded, so that the retry of the job repeats nothing.\<close>
theorem handled_job_published_once:
  assumes "ChainHandler_Handle E h ctx job s = (res, s')"
  shows "(res = None \<longrightarrow> (\<exists>m. snd (fh_bus s') = snd (fh_bus s) @ [(Publish m, None)]
          \<and> (m_topic m = TopicCrawlChromedp \<and> m_key m = job_id job \<and> hv_marshal_job E job = Inr (m_value m) \<and> fh_rows s' = fh_rows s
             \<or> fetched_ref E (fh_rows s') m)))
    \<and> (res \<noteq> None \<longrightarrow> (\<forall>a. did a (fh_bus s') \<longleftrightarrow> did a (fh_bus s)))"
proof -
  have same: "?thesis" if "snd (fh_bus s') = snd (fh_bus s)" "res \<noteq> None"
    using that by (simp add: did_def)
  have sent: "?thesis" if r: "republishToChromedpQueue E job s2 = (e, s')" and "res = None \<longleftrightarrow> e = None"
    and s2: "snd (fh_bus s2) = snd (fh_bus s)" "fh_rows s2 = fh_rows s" for s2 e
  proof (cases e)
    case None
    obtain data where "hv_marshal_job E job = Inr data"
        "snd (fh_bus s') = snd (fh_bus s2) @ [(Publish (chromedp_message job data), None)]"
      using republish_bus(2) [OF r None] by auto
    then show ?thesis using republish_bus(1) [OF r] s2 that(2) None
      by (auto simp: chromedp_message_def intro!: exI [of _ "chromedp_message job data"])
  next
    case (Some err)
    have "did a (fh_bus s') \<longleftrightarrow> did a (fh_bus s)" for a
      using republish_bus(3) [OF r, of a] Some did_cong [OF s2(1), of a] by simp
    then show ?thesis using that(2) Some by auto
  qed
  show ?thesis
  proof (cases "ch_wired h \<and> ch_default h \<noteq> None")
    case False
    then have "s' = s" "res \<noteq> None" using assms by (auto simp: ChainHandler_Handle_def split: option.splits)
    then show ?thesis by simp
  next
    case True
    then obtain chain where chain: "ch_default h = Some chain" and wired: "ch_wired h" by auto
    obtain browser s1 where sel: "selectChain E h job s = (browser, s1)" by (rule prod.exhaust)
    note sel' = selectChain_bus [OF sel]
    show ?thesis
    proof (cases browser)
      case True
      obtain e s2 where r: "republishToChromedpQueue E job s1 = (e, s2)" by (rule prod.exhaust)
      have "s' = s2" and "res = None \<longleftrightarrow> e = None"
        using assms True by (auto simp: ChainHandler_Handle_def chain wired sel r split: option.splits)
      then show ?thesis using sent r sel' by simp
    next
      case False
      obtain fr s2 where f: "chain_Handle E chain job s1 = (fr, s2)" by (rule prod.exhaust)
      note f' = chain_Handle_bus [OF f]
      have bus: "snd (fh_bus s2) = snd (fh_bus s)" "fh_rows s2 = fh_rows s" using f' sel' by simp_all
      consider (page) raw where "fr = Inr (Some raw)" | (lazy) err where "fr = Inl err" "is_sentinel LazyContentNeedsBrowser err"
        | (failed) "s' = s2" "res \<noteq> None"
        using assms False by (auto simp: ChainHandler_Handle_def chain wired sel f split: sum.splits option.splits if_splits)
      then show ?thesis
      proof cases
        case page
        then have p: "processFetchedRaw E ctx job raw s2 = (res, s')"
          using assms False by (simp add: ChainHandler_Handle_def chain wired sel f)
        have "did a (fh_bus s') \<longleftrightarrow> did a (fh_bus s)" if "res \<noteq> None" for a
          using process_bus(2) [OF p that, of a] did_cong [OF bus(1), of a] by simp
        then show ?thesis using process_bus(1) [OF p] bus by auto
      next
        case lazy
        obtain e s3 where r: "republishToChromedpQueue E job s2 = (e, s3)" by (rule prod.exhaust)
        have "s' = s3" and "res = None \<longleftrightarrow> e = None"
          using assms False lazy by (auto simp: ChainHandler_Handle_def chain wired sel f r split: option.splits)
        then show ?thesis using sent r bus by simp
      next
        case failed
        then show ?thesis using same bus by simp
      qed
    qed
  qed
qed

section \<open>The browser pool settles its jobs\<close>

lemma HandleChromedpOnly_bus:
  assumes "HandleChromedpOnly E h ctx wid job s = (res, s')"
  shows "res = None \<Longrightarrow> \<exists>m. snd (fh_bus s') = snd (fh_bus s) @ [(Publish m, None)] \<and> fetched_ref E (fh_rows s') m"
    and "res \<noteq> None \<Longrightarrow> did a (fh_bus s') \<longleftrightarrow> did a (fh_bus s)"
proof -
  have two: "(\<exists>raw s1. processFetchedRaw E ctx job raw s1 = (res, s') \<and> snd (fh_bus s1) = snd (fh_bus s))
      \<or> (snd (fh_bus s') = snd (fh_bus s) \<and> res \<noteq> None)"
    using assms by (auto simp: HandleChromedpOnly_def dest: chain_Handle_bus split: if_splits option.splits prod.splits sum.splits)
  show "\<exists>m. snd (fh_bus s') = snd (fh_bus s) @ [(Publish m, None)] \<and> fetched_ref E (fh_rows s') m" if none: "res = None"
  proof -
    obtain raw s1 where p: "processFetchedRaw E ctx job raw s1 = (None, s')" "snd (fh_bus s1) = snd (fh_bus s)"
      using two none by auto
    show ?thesis using process_bus(1) [OF p(1) refl] p(2) by auto
  qed
  show "did a (fh_bus s') \<longleftrightarrow> did a (fh_bus s)" if some: "res \<noteq> None"
    using two
  proof
    assume "\<exists>raw s1. processFetchedRaw E ctx job raw s1 = (res, s') \<and> snd (fh_bus s1) = snd (fh_bus s)"
    then obtain raw s1 where p: "processFetchedRaw E ctx job raw s1 = (res, s')" "snd (fh_bus s1) = snd (fh_bus s)" by blast
    show ?thesis using process_bus(2) [OF p(1) some, of a] did_cong [OF p(2), of a] by simp
  qed (auto dest: did_cong)
qed


section \<open>Only the token of the process forces the browser\<close>

lemma upgrade_job_meta:
  "tg_meta (job_target (upgrade_job E i raw s)) = [MetadataKeyForceFetcher \<mapsto> MStr FetcherChromedp,
     MetadataKeyForceFetcherToken \<mapsto> MStr (ue_token E), ''retry_reason'' \<mapsto> MStr ''validation_upgrade'', ''original_raw_id'' \<mapsto> MStr i]"
  by (simp add: upgrade_job_def Let_def)

lemma force_upgrade: "force_chromedp token (tg_meta (job_target (upgrade_job E i raw s))) \<longleftrightarrow> token \<noteq> [] \<and> token = ue_token E"
  by (auto simp: force_chromedp_def upgrade_job_meta meta_text_def ValidateForceFetcherToken_def MetadataKeyForceFetcher_def
      MetadataKeyForceFetcherToken_def)

text \<open>C21. The pages an upgrade publishes again go to the browser, and nobody else's do by their own word. A job made by the
  upgrader of the same process, once the process has a token, is sent to the browser's queue by every handler that has
  a browser, without a look at the rules of the host; a job whose metadata does not carry the token of this process, be
  it of another process or of a process without a token, is sent where it would be sent without any metadata.\<close>
theorem only_token_forces_browser:
  "(hv_token E \<noteq> [] \<and> ue_token U = hv_token E \<and> ch_chromedp h \<noteq> [] \<longrightarrow> selectChain E h (upgrade_job U i raw us) s = (True, s))
   \<and> (meta_text (tg_meta (job_target job)) MetadataKeyForceFetcherToken \<noteq> hv_token E \<or> hv_token E = []
      \<longrightarrow> selectChain E h job s = selectChain E h (job\<lparr>job_target := (job_target job)\<lparr>tg_meta := Map.empty\<rparr>\<rparr>) s)"
proof -
  have "\<not> force_chromedp (hv_token E) (tg_meta (job_target job))"
    if "meta_text (tg_meta (job_target job)) MetadataKeyForceFetcherToken \<noteq> hv_token E \<or> hv_token E = []"
    using that by (auto simp: force_chromedp_def ValidateForceFetcherToken_def)
  moreover have "\<not> force_chromedp (hv_token E) Map.empty" by (simp add: force_chromedp_def)
  ultimately show ?thesis
    using force_upgrade [of "hv_token E" U i raw us] by (simp add: selectChain_def)
qed

theorem only_token_forces_browser_witness:
  "force_chromedp ''t'' (tg_meta (job_target (upgrade_job (sample_up_env 0 (\<lambda>_ w. (None, w))) ''i'' sample_page sample_up_state)))"
proof -
  let ?E = "\<lparr>hv_lib = text_lib, hv_fetch = (\<lambda>_ _ w. (Inl (Opaque []), w)), hv_raw = sample_raw_db, hv_save = (\<lambda>_. None),
      hv_reread = (\<lambda>_. None), hv_others = (\<lambda>_ r. r), hv_rules = \<lparr>fd_lib = text_lib, fd_decode = (\<lambda>_. Inl (Opaque [])), fd_arrange = id\<rparr>,
      hv_ttl = 0, hv_call = (\<lambda>_. \<lparr>vc_now = 0, vc_again = 0, vc_stored = 0, vc_shared = None, vc_before = id, vc_during = id,
        vc_db = None, vc_rows = []\<rparr>), hv_token = ''t'', hv_io = (\<lambda>_ w. (None, w)),
      hv_pub = \<lparr>pub_wired = True, pub_resolver = None, pub_marshal = (\<lambda>j. Inr (job_id j))\<rparr>,
      hv_marshal_job = (\<lambda>j. Inr (job_id j)), hv_marshal_ref = (\<lambda>r. Inr (rf_id r))\<rparr> :: unit fh_env"
  let ?h = "\<lparr>ch_default = None, ch_chromedp = [BrowserFetch 0 None], ch_resolver = False, ch_wired = True\<rparr>"
  let ?s = "\<lparr>fh_bus = ((), []), fh_rows = [], fh_cache = Map.empty, fh_fetched = []\<rparr>"
  let ?job = "upgrade_job (sample_up_env 0 (\<lambda>_ w. (None, w))) ''i'' sample_page sample_up_state"
  have "hv_token ?E \<noteq> [] \<and> ue_token (sample_up_env 0 (\<lambda>_ w. (None, w))) = hv_token ?E \<and> ch_chromedp ?h \<noteq> []"
    by (simp add: sample_up_env_def)
  then have "selectChain ?E ?h ?job ?s = (True, ?s)"
    using only_token_forces_browser [of ?E "sample_up_env 0 (\<lambda>_ w. (None, w))" ?h "''i''" sample_page sample_up_state ?s ?job] by blast
  then show ?thesis by (simp add: selectChain_def split: if_splits)
qed

section \<open>The count of reparses is lost on the way to the browser\<close>

text \<open>
  A rejected content is crawled again with the count of its reparses in a header, which bounds them. A page that is
  fetched without the browser carries it on; one that goes through the browser's queue, and one whose job is retried,
  does not.
\<close>

lemma fetched_headers_count:
  "hget (fetched_headers ctx job raw) HeaderValidateReparseCount = (case ctx of None \<Rightarrow> [] | Some inbox \<Rightarrow> hget inbox HeaderValidateReparseCount)"
  by (auto simp: fetched_headers_def hget_def propagate_headers_spec header_names propagatedInboxHeaderKeys_def split: option.split)

theorem browser_queue_drops_reparse_count:
  "hget (fetched_headers (WithInboxHeaders None hs) job raw) HeaderValidateReparseCount = hget hs HeaderValidateReparseCount
   \<and> hget (fetched_headers (WithInboxHeaders None (m_headers (chromedp_message job data))) job raw) HeaderValidateReparseCount = []"
  unfolding fetched_headers_count by (simp add: WithInboxHeaders_def chromedp_message_def header_names hget_def)

theorem retry_drops_reparse_count:
  assumes "buildMessage p job = Inr m"
  shows "hget (applyRetryHeaders job e (m_headers m)) HeaderValidateReparseCount = []"
  using assms by (auto simp: buildMessage_def applyRetryHeaders_def header_names hget_def Let_def split: sum.splits option.splits meta_value.splits)

section \<open>The slots of a worker\<close>

text \<open>Workers going in and out of a section guarded by a semaphore.\<close>

datatype slot_event = SlotIn nat | SlotOut nat

fun slot_step :: "slot_event \<Rightarrow> nat list \<times> chan_semaphore \<Rightarrow> nat list \<times> chan_semaphore" where
  "slot_step (SlotIn g) (inside, m) =
     (if g \<in> set inside then (inside, m)
      else (case sem_Acquire None None m of Some (None, m') \<Rightarrow> (g # inside, m') | _ \<Rightarrow> (inside, m)))"
| "slot_step (SlotOut g) (inside, m) = (if g \<in> set inside then (remove1 g inside, snd (sem_Release m)) else (inside, m))"

definition slots_ok :: "nat list \<times> chan_semaphore \<Rightarrow> bool" where
  "slots_ok s \<longleftrightarrow> distinct (fst s) \<and> sm_used (snd s) = int (length (fst s)) \<and> sm_used (snd s) \<le> sm_cap (snd s)"

lemma slot_step_ok: "slots_ok s \<Longrightarrow> slots_ok (slot_step e s) \<and> sm_cap (snd (slot_step e s)) = sm_cap (snd s)"
proof (induction e s rule: slot_step.induct)
  case (1 g inside m)
  then show ?case by (auto simp: slots_ok_def sem_Acquire_def)
next
  case (2 g inside m)
  then show ?case by (auto simp: slots_ok_def sem_Release_def length_remove1 of_nat_diff Suc_leI length_pos_if_in_set)
qed

lemma slots_bounded:
  assumes "NewChanSemaphore cap = Inr m" and "(inside, m') = fold slot_step es ([], m)"
  shows "int (length inside) \<le> cap \<and> (\<forall>g\<in>set inside. fst (sem_Release m') = None)"
proof -
  have "slots_ok ([], m) \<and> sm_cap m = cap"
    using assms(1) by (auto simp: NewChanSemaphore_def slots_ok_def split: if_splits)
  then have "slots_ok (fold slot_step es ([], m)) \<and> sm_cap (snd (fold slot_step es ([], m))) = cap"
  proof (induction es arbitrary: m rule: rev_induct)
    case (snoc e es)
    then show ?case using slot_step_ok [of "fold slot_step es ([], m)" e] by simp
  qed simp
  then have ok: "slots_ok (inside, m')" "sm_cap m' = cap" using assms(2) by (metis snd_conv)+
  then have "fst (sem_Release m') = None" if "g \<in> set inside" for g
    using that length_pos_if_in_set [OF that] by (simp add: slots_ok_def sem_Release_def)
  then show ?thesis using ok by (simp add: slots_ok_def)
qed

section \<open>What is registered\<close>

definition rules_of :: "string \<Rightarrow> frule_record list \<Rightarrow> frule_record list" where
  "rules_of n rs = filter (\<lambda>r. fl_source r = n) rs"

definition canonical_entry :: "url_lib \<Rightarrow> frule_record list \<Rightarrow> source_entry" where
  "canonical_entry L xs =
     (case find (isCanonicalHost L) xs of Some r \<Rightarrow> \<lparr>se_rec = r, se_exact = True\<rparr> | None \<Rightarrow> \<lparr>se_rec = hd xs, se_exact = False\<rparr>)"

definition analyzed :: "url_lib \<Rightarrow> frule_record list \<Rightarrow> source_maps \<Rightarrow> bool" where
  "analyzed L rs M \<longleftrightarrow>
     (\<forall>n. sc_hosts M n = (if n = [] \<or> rules_of n rs = [] then None else Some (map fl_host (rules_of n rs))))
     \<and> (\<forall>n. sc_entries M n = (if n = [] \<or> rules_of n rs = [] then None else Some (canonical_entry L (rules_of n rs))))
     \<and> set (sc_names M) = {n. n \<noteq> [] \<and> rules_of n rs \<noteq> []}
     \<and> (\<forall>p\<in>set rs. \<forall>r\<in>set rs. fl_source p = fl_source r \<longrightarrow> fl_source p \<noteq> [] \<longrightarrow> source_mismatch p r = None)"

lemma analyze_all_append:
  "analyze_all L (xs @ ys) M = (case analyze_all L xs M of Inl err \<Rightarrow> Inl err | Inr M1 \<Rightarrow> analyze_all L ys M1)"
  by (induction xs arbitrary: M) (simp_all split: sum.split)

lemma rules_of_snoc: "rules_of n (rs @ [r]) = (if fl_source r = n then rules_of n rs @ [r] else rules_of n rs)"
  by (simp add: rules_of_def)

lemma find_append: "find P (xs @ ys) = (case find P xs of Some x \<Rightarrow> Some x | None \<Rightarrow> find P ys)"
  by (induction xs) simp_all

lemma canonical_entry_one: "canonical_entry L [r] = \<lparr>se_rec = r, se_exact = isCanonicalHost L r\<rparr>"
  by (simp add: canonical_entry_def)

lemma canonical_entry_snoc:
  "xs \<noteq> [] \<Longrightarrow> canonical_entry L (xs @ [r]) = (if \<not> se_exact (canonical_entry L xs) \<and> isCanonicalHost L r
      then \<lparr>se_rec = r, se_exact = True\<rparr> else canonical_entry L xs)"
  by (simp add: canonical_entry_def find_append split: option.split)

lemma canonical_entry_in: "xs \<noteq> [] \<Longrightarrow> se_rec (canonical_entry L xs) \<in> set xs"
  by (auto simp: canonical_entry_def find_Some_iff split: option.split)

lemma mismatch_trans:
  "source_mismatch p q = None \<Longrightarrow> source_mismatch q r = None \<Longrightarrow> source_mismatch p r = None"
  "source_mismatch p q = None \<Longrightarrow> source_mismatch q p = None" "source_mismatch p p = None"
  by (auto simp: source_mismatch_def split: if_splits)

lemma analyze_one_spec:
  assumes "analyzed L rs M" and "analyze_one L r M = Inr M'"
  shows "analyzed L (rs @ [r]) M'"
proof (cases "fl_source r = []")
  case True
  then have "M' = M" using assms(2) by (simp add: analyze_one_def)
  then show ?thesis using assms(1) True by (auto simp: analyzed_def rules_of_snoc)
next
  case named: False
  let ?n = "fl_source r"
  let ?M = "M\<lparr>sc_hosts := (sc_hosts M)(?n \<mapsto> (case sc_hosts M ?n of None \<Rightarrow> [] | Some hs \<Rightarrow> hs) @ [fl_host r]),
         sc_base_urls := (sc_base_urls M)(?n \<mapsto> insert (fl_base_url r) (case sc_base_urls M ?n of None \<Rightarrow> {} | Some us \<Rightarrow> us))\<rparr>"
  have hosts: "(case sc_hosts M ?n of None \<Rightarrow> [] | Some hs \<Rightarrow> hs) = map fl_host (rules_of ?n rs)"
    using assms(1) named by (simp add: analyzed_def)
  have agree: "source_mismatch p q = None" if "p \<in> set rs" "q \<in> set rs" "fl_source p = fl_source q" "fl_source p \<noteq> []" for p q
    using assms(1) that by (auto simp: analyzed_def)
  show ?thesis
  proof (cases "rules_of ?n rs = []")
    case True
    then have "sc_entries M ?n = None" using assms(1) by (simp add: analyzed_def)
    then have M': "M' = ?M\<lparr>sc_names := sc_names M @ [?n],
          sc_entries := (sc_entries M)(?n \<mapsto> \<lparr>se_rec = r, se_exact = isCanonicalHost L r\<rparr>)\<rparr>"
      using assms(2) named by (auto simp: analyze_one_def Let_def)
    have "fl_source p \<noteq> ?n" if "p \<in> set rs" for p using True that by (auto simp: rules_of_def filter_empty_conv)
    then have "\<forall>p\<in>set (rs @ [r]). \<forall>q\<in>set (rs @ [r]). fl_source p = fl_source q \<longrightarrow> fl_source p \<noteq> [] \<longrightarrow> source_mismatch p q = None"
      using agree mismatch_trans(3) by (metis (no_types) set_append Un_iff empty_iff empty_set insert_iff list.simps(15))
    then show ?thesis
      using assms(1) named True hosts unfolding M' analyzed_def
      by (auto simp: rules_of_snoc canonical_entry_one)
  next
    case old: False
    let ?e = "canonical_entry L (rules_of ?n rs)"
    have e: "sc_entries M ?n = Some ?e" using assms(1) named old by (simp add: analyzed_def)
    have rec: "se_rec ?e \<in> set rs" "fl_source (se_rec ?e) = ?n" using canonical_entry_in [OF old, of L] by (auto simp: rules_of_def)
    have ok: "source_mismatch (se_rec ?e) r = None"
      using assms(2) named e by (auto simp: analyze_one_def Let_def split: option.splits if_splits)
    then have M': "M' = (if \<not> se_exact ?e \<and> isCanonicalHost L r
        then ?M\<lparr>sc_entries := (sc_entries M)(?n \<mapsto> \<lparr>se_rec = r, se_exact = True\<rparr>)\<rparr> else ?M)"
      using assms(2) named e by (auto simp: analyze_one_def Let_def)
    have new: "source_mismatch p r = None \<and> source_mismatch r p = None" if "p \<in> set rs" "fl_source p = ?n" for p
    proof -
      have "source_mismatch p (se_rec ?e) = None" using agree that rec named by simp
      then show ?thesis using ok mismatch_trans(1,2) by blast
    qed
    have "\<forall>p\<in>set (rs @ [r]). \<forall>q\<in>set (rs @ [r]). fl_source p = fl_source q \<longrightarrow> fl_source p \<noteq> [] \<longrightarrow> source_mismatch p q = None"
      using agree new mismatch_trans(3) by auto
    moreover have "set (sc_names M') = {n. n \<noteq> [] \<and> rules_of n (rs @ [r]) \<noteq> []}"
      using assms(1) old unfolding M' by (auto simp: analyzed_def rules_of_snoc)
    moreover have "sc_hosts M' = (sc_hosts M)(?n \<mapsto> map fl_host (rules_of ?n rs) @ [fl_host r])" unfolding M' hosts by simp
    then have "\<forall>n. sc_hosts M' n = (if n = [] \<or> rules_of n (rs @ [r]) = [] then None else Some (map fl_host (rules_of n (rs @ [r]))))"
      using assms(1) named by (auto simp: analyzed_def rules_of_snoc)
    moreover have "sc_entries M' = (sc_entries M)(?n \<mapsto> canonical_entry L (rules_of ?n rs @ [r]))"
      unfolding M' canonical_entry_snoc [OF old] using e by (auto simp: fun_upd_idem)
    then have "\<forall>n. sc_entries M' n = (if n = [] \<or> rules_of n (rs @ [r]) = [] then None else Some (canonical_entry L (rules_of n (rs @ [r]))))"
      using assms(1) named by (auto simp: analyzed_def rules_of_snoc)
    ultimately show ?thesis unfolding analyzed_def by blast
  qed
qed

lemma AnalyzeSources_spec: "AnalyzeSources L rs = Inr M \<Longrightarrow> analyzed L rs M"
proof (induction rs arbitrary: M rule: rev_induct)
  case Nil
  then show ?case by (auto simp: AnalyzeSources_def analyzed_def no_sources_def rules_of_def)
next
  case (snoc r rs)
  then obtain M1 where "AnalyzeSources L rs = Inr M1" "analyze_one L r M1 = Inr M"
    by (auto simp: AnalyzeSources_def analyze_all_append split: sum.splits)
  then show ?case using snoc.IH analyze_one_spec by blast
qed

lemma build_browsers_Inr: "\<exists>cs. build_browsers fx name is = Inr cs \<and> length cs = length is"
  by (induction "is") (auto simp: BuildChain_def)

lemma buildHandler_Inr:
  "\<exists>h. buildHandler fx res wired remotes n = Inr (ChainJob h) \<and> length (ch_chromedp h) = remotes \<and> ch_default h \<noteq> None"
  using build_browsers_Inr [of "fx n" n "[0..<remotes]"] by (auto simp: buildHandler_def BuildChain_def)

definition owns :: "source_maps \<Rightarrow> string \<Rightarrow> string \<Rightarrow> bool" where
  "owns M n k \<longleftrightarrow> k = n \<or> k \<in> set (case sc_hosts M n of None \<Rightarrow> [] | Some hs \<Rightarrow> hs)"

lemma fold_register: "fold (\<lambda>host R. R(host \<mapsto> h)) hs R k = (if k \<in> set hs then Some h else R k)"
  by (induction hs arbitrary: R) auto

lemma register_sources_spec:
  assumes "\<And>n. \<exists>h. build n = Inr h" and "register_sources build M ns R = (e, R')"
    and "\<forall>n\<in>set ns. \<forall>n'\<in>set ns. owns M n k \<longrightarrow> owns M n' k \<longrightarrow> n = n'"
  shows "e = None \<and> (\<forall>n h. n \<in> set ns \<longrightarrow> owns M n k \<longrightarrow> build n = Inr h \<longrightarrow> R' k = Some h)
    \<and> ((\<forall>n\<in>set ns. \<not> owns M n k) \<longrightarrow> R' k = R k)"
  using assms(2,3)
proof (induction ns arbitrary: R)
  case Nil
  then show ?case by simp
next
  case (Cons m ns)
  obtain hm where hm: "build m = Inr hm" using assms(1) by blast
  define R1 where "R1 = fold (\<lambda>host R. R(host \<mapsto> hm)) (case sc_hosts M m of None \<Rightarrow> [] | Some hs \<Rightarrow> hs) (R(m \<mapsto> hm))"
  have run: "register_sources build M ns R1 = (e, R')" using Cons.prems(1) hm by (simp add: R1_def)
  have Rk: "R1 k = (if owns M m k then Some hm else R k)" unfolding R1_def fold_register owns_def by (cases "k = m") auto
  have ih: "e = None \<and> (\<forall>n h. n \<in> set ns \<longrightarrow> owns M n k \<longrightarrow> build n = Inr h \<longrightarrow> R' k = Some h)
    \<and> ((\<forall>n\<in>set ns. \<not> owns M n k) \<longrightarrow> R' k = R1 k)"
    using Cons.IH [OF run] Cons.prems(2) by simp
  have "R' k = Some h" if n: "n \<in> set (m # ns)" "owns M n k" "build n = Inr h" for n h
  proof (cases "n \<in> set ns")
    case True
    then show ?thesis using ih n by blast
  next
    case False
    then have "n = m" "h = hm" using n hm by auto
    moreover have "\<not> owns M n' k" if "n' \<in> set ns" for n'
      using Cons.prems(2) n that False \<open>n = m\<close> by auto
    ultimately show ?thesis using ih n(2) Rk by simp
  qed
  moreover have "R' k = R k" if "\<forall>n\<in>set (m # ns). \<not> owns M n k" using ih that Rk by simp
  ultimately show ?case using ih by blast
qed

definition unambiguous :: "frule list \<Rightarrow> bool" where
  "unambiguous rows \<longleftrightarrow> (\<forall>x\<in>set rows. \<forall>y\<in>set rows. fl_source x \<noteq> [] \<longrightarrow> fl_source y \<noteq> []
     \<longrightarrow> fl_host x = fl_host y \<or> fl_host x = fl_source y \<longrightarrow> fl_source x = fl_source y)"

lemma list_record_cols:
  "fl_host (list_record D x) = fl_host x" "fl_source (list_record D x) = fl_source x"
  "fl_country (list_record D x) = fl_country x" "fl_language (list_record D x) = fl_language x"
  "fl_source_type (list_record D x) = fl_source_type x" "fl_rph (list_record D x) = fl_rph x"
  by (simp_all add: list_record_def frule_record_of_def split: sum.split)

lemma owns_rows:
  assumes "analyzed L (map (list_record D) xs) M" and "n \<in> set (sc_names M)"
  shows "owns M n k \<longleftrightarrow> k = n \<or> (\<exists>x\<in>set xs. fl_source x = n \<and> fl_host x = k)"
proof -
  have "sc_hosts M n = Some (map fl_host (rules_of n (map (list_record D) xs)))" using assms by (auto simp: analyzed_def)
  then show ?thesis by (auto simp: owns_def rules_of_def image_iff list_record_cols)
qed

lemma names_rows:
  "analyzed L (map (list_record D) xs) M \<Longrightarrow> n \<in> set (sc_names M) \<longleftrightarrow> n \<noteq> [] \<and> (\<exists>x\<in>set xs. fl_source x = n)"
  by (auto simp: analyzed_def rules_of_def list_record_cols filter_empty_conv)



section \<open>Concrete runs\<close>

definition plain_raw_db :: raw_db where
  "plain_raw_db = \<lparr>rw_enc_headers = (\<lambda>_. Inr ''null''), rw_enc_meta = (\<lambda>_. Inr ''null''), rw_dec_headers = (\<lambda>_. Inr Map.empty),
     rw_dec_meta = (\<lambda>_. Inr Map.empty), rw_by_id = rev, rw_date = (\<lambda>_. ''d'')\<rparr>"

definition sample_fh_env :: "unit fh_env" where
  "sample_fh_env = \<lparr>hv_lib = text_lib, hv_fetch = (\<lambda>_ _ w. (Inr sample_page, w)), hv_raw = plain_raw_db, hv_save = (\<lambda>_. None),
      hv_reread = (\<lambda>_. None), hv_others = (\<lambda>_ r. r), hv_rules = \<lparr>fd_lib = text_lib, fd_decode = (\<lambda>_. Inl (Opaque [])), fd_arrange = id\<rparr>,
      hv_ttl = 0, hv_call = (\<lambda>_. \<lparr>vc_now = 0, vc_again = 0, vc_stored = 0, vc_shared = None, vc_before = id, vc_during = id,
        vc_db = None, vc_rows = []\<rparr>), hv_token = ''t'', hv_io = (\<lambda>_ w. (None, w)),
      hv_pub = \<lparr>pub_wired = True, pub_resolver = None, pub_marshal = (\<lambda>j. Inr (job_id j))\<rparr>,
      hv_marshal_job = (\<lambda>j. Inr (job_id j)), hv_marshal_ref = (\<lambda>r. Inr (rf_id r))\<rparr>"

definition sample_fh_state :: "unit fh_state" where
  "sample_fh_state = \<lparr>fh_bus = ((), []), fh_rows = [], fh_cache = Map.empty, fh_fetched = []\<rparr>"

definition sample_chain :: chain_handler where
  "sample_chain = \<lparr>ch_default = Some (GoQueryFetch 0 [] None), ch_chromedp = [BrowserFetch 1 None], ch_resolver = False, ch_wired = True\<rparr>"

definition sample_fh_job :: crawl_job where
  "sample_fh_job = \<lparr>job_id = ''j'', job_crawler = ''s'', job_target = \<lparr>tg_url = ''https://h/a'', tg_type = TargetTypeSitemap, tg_meta = Map.empty\<rparr>,
     job_priority = PriorityNormal, job_scheduled_at = 0, job_timeout = 0, job_retry_count = 0, job_max_retries = 3\<rparr>"

lemma sample_chain_run:
  "fst (ChainHandler_Handle sample_fh_env sample_chain None sample_fh_job sample_fh_state) = None"
  "fst (the (ChromedpJob_Handle sample_fh_env [''s'' \<mapsto> ChainJob sample_chain] \<lparr>sl_worker = 0, sl_early = None, sl_late = None,
     sl_others = (\<lambda>m. m)\<rparr> None (Some sample_fh_job) (sample_fh_state, [\<lparr>sm_cap = 1, sm_used = 0\<rparr>]))) = None"
  by code_simp+

theorem handled_job_published_once_witness:
  "let (res, s') = ChainHandler_Handle sample_fh_env sample_chain None sample_fh_job sample_fh_state
   in res = None \<and> (\<exists>m. snd (fh_bus s') = [(Publish m, None)])"
proof -
  obtain res s' where run: "ChainHandler_Handle sample_fh_env sample_chain None sample_fh_job sample_fh_state = (res, s')" by (rule prod.exhaust)
  have res: "res = None" using sample_chain_run(1) run by simp
  have "snd (fh_bus sample_fh_state) = []" by (simp add: sample_fh_state_def)
  then show ?thesis using handled_job_published_once [OF run] res run by auto
qed


definition sample_rule :: "string \<Rightarrow> string \<Rightarrow> frule" where
  "sample_rule host name = (new_frule 1 0 host ''goquery'' ''manual'')\<lparr>fl_source := name\<rparr>"


end
