(* ===== verification/EnrichCore.thy ===== *)
theory EnrichCore
  imports Prompt
begin

text \<open>
  The models of the enrich stage, \<^verbatim>\<open>internal/processor/enrich/core\<close>: the facts, and the extractor, verifier,
  contextualizer and scorer that run an agent session on a rendered prompt and parse what it prints. The session
  (\<^verbatim>\<open>pkg/agent\<close>), the JSON codec and \<^verbatim>\<open>strings.TrimSpace\<close> are parameters; a JSON slice that may be
  null is an option.
\<close>

section \<open>Facts\<close>

record entity =
  en_type :: string
  en_name :: string
  en_mentions :: int

record claim =
  cl_text :: string
  cl_subject :: string
  cl_predicate :: string
  cl_object :: string

record fact =
  fa_key :: string
  fa_value :: string
  fa_unit :: string

record verification =
  vf_claim :: int
  vf_verdict :: string
  vf_sources :: "string list"
  vf_note :: string

record background_item =
  bi_subject :: string
  bi_category :: string
  bi_summary :: string
  bi_sources :: "string list"

record timeline_event =
  te_date :: string
  te_event :: string
  te_source :: string

record implications =
  im_political :: string
  im_social :: string
  im_technical :: string

record page_context =
  pc_background :: "background_item list"
  pc_timeline :: "timeline_event list"
  pc_implications :: "implications option"

record score_factors =
  sf_support :: real
  sf_diversity :: real
  sf_completeness :: real

record enriched_facts =
  ef_entities :: "entity list"
  ef_claims :: "claim list"
  ef_facts :: "fact list"
  ef_topics :: "string list"
  ef_sentiment :: string
  ef_verifications :: "verification list"
  ef_context :: "page_context option"
  ef_trust :: "real option"
  ef_rationale :: string
  ef_factors :: "score_factors option"

record trust_score_result =
  ts_score :: real
  ts_rationale :: string
  ts_factors :: score_factors

definition SentimentNeutral :: string where "SentimentNeutral = ''neutral''"

definition NoopExtract :: enriched_facts where
  "NoopExtract =
     \<lparr>ef_entities = [], ef_claims = [], ef_facts = [], ef_topics = [], ef_sentiment = SentimentNeutral,
      ef_verifications = [], ef_context = None, ef_trust = None, ef_rationale = [], ef_factors = None\<rparr>"

definition context_IsEmpty :: "page_context option \<Rightarrow> bool" where
  "context_IsEmpty c =
     (case c of None \<Rightarrow> True
      | Some pc \<Rightarrow> pc_background pc = [] \<and> pc_timeline pc = [] \<and> pc_implications pc = None)"

section \<open>The output of a session\<close>

text \<open>\<^verbatim>\<open>strings.Index\<close> and \<^verbatim>\<open>LastIndex\<close> of a substring, as the texts before and after it.\<close>

fun split_first :: "string \<Rightarrow> string \<Rightarrow> (string \<times> string) option" where
  "split_first pat [] = (if pat = [] then Some ([], []) else None)"
| "split_first pat (c # cs) =
     (if prefix pat (c # cs) then Some ([], drop (length pat) (c # cs))
      else map_option (\<lambda>(a, b). (c # a, b)) (split_first pat cs))"

fun before_last :: "string \<Rightarrow> string \<Rightarrow> string option" where
  "before_last pat [] = None"
| "before_last pat (c # cs) =
     (case before_last pat cs of
        Some a \<Rightarrow> Some (c # a)
      | None \<Rightarrow> if prefix pat (c # cs) then Some [] else None)"

definition fence :: string where "fence = [CHR 0x60, CHR 0x60, CHR 0x60]"

definition stripFences :: "(string \<Rightarrow> string) \<Rightarrow> string \<Rightarrow> string" where
  "stripFences trim s0 =
     (let s = trim s0
      in case split_first fence s of
           None \<Rightarrow> s
         | Some (_, s1) \<Rightarrow>
             let s2 = (case split_first [CHR 0x0A] s1 of
                         Some (_, rest) \<Rightarrow> rest
                       | None \<Rightarrow> (let t = dropWhile (\<lambda>c. c \<noteq> CHR ''{'' \<and> c \<noteq> CHR ''['') s1
                                  in if t = [] then s1 else t));
                 s3 = (case before_last fence s2 of Some a \<Rightarrow> a | None \<Rightarrow> s2)
             in trim s3)"

text \<open>What the JSON decoder makes of a body, before the defaults; a null or missing array is \<open>None\<close>.\<close>

record raw_facts =
  rw_entities :: "entity list option"
  rw_claims :: "claim list option"
  rw_facts :: "fact list option"
  rw_topics :: "string list option"
  rw_sentiment :: string
  rw_verifications :: "verification list"
  rw_context :: "page_context option"
  rw_trust :: "real option"
  rw_rationale :: string
  rw_factors :: "score_factors option"

record raw_context =
  rx_background :: "background_item list option"
  rx_timeline :: "timeline_event list option"
  rx_implications :: "implications option"

record raw_score =
  rs_score :: "real option"
  rs_rationale :: string
  rs_factors :: score_factors

definition or_empty :: "'a list option \<Rightarrow> 'a list" where
  "or_empty x = (case x of None \<Rightarrow> [] | Some xs \<Rightarrow> xs)"

definition parseEnrichOutput ::
  "(string \<Rightarrow> string) \<Rightarrow> (string \<Rightarrow> go_error + raw_facts) \<Rightarrow> string \<Rightarrow> go_error + enriched_facts" where
  "parseEnrichOutput trim dec output =
     (let body = stripFences trim (trim output)
      in if body = [] then Inl (Opaque ''empty output'')
         else (case dec body of
                 Inl err \<Rightarrow> Inl (Wrapped ''unmarshal'' err)
               | Inr r \<Rightarrow>
                   Inr \<lparr>ef_entities = or_empty (rw_entities r), ef_claims = or_empty (rw_claims r),
                     ef_facts = or_empty (rw_facts r), ef_topics = or_empty (rw_topics r),
                     ef_sentiment = (if rw_sentiment r = [] then SentimentNeutral else rw_sentiment r),
                     ef_verifications = rw_verifications r, ef_context = rw_context r, ef_trust = rw_trust r,
                     ef_rationale = rw_rationale r, ef_factors = rw_factors r\<rparr>))"

definition parseContextOutput ::
  "(string \<Rightarrow> string) \<Rightarrow> (string \<Rightarrow> go_error + raw_context) \<Rightarrow> string \<Rightarrow> go_error + page_context" where
  "parseContextOutput trim dec output =
     (let body = stripFences trim output
      in if body = [] then Inl (Opaque ''empty output'')
         else (case dec body of
                 Inl err \<Rightarrow> Inl (Wrapped ''unmarshal'' err)
               | Inr r \<Rightarrow>
                   Inr \<lparr>pc_background = or_empty (rx_background r), pc_timeline = or_empty (rx_timeline r),
                     pc_implications = (case rx_implications r of
                        None \<Rightarrow> None
                      | Some im \<Rightarrow> if im_political im = [] \<and> im_social im = [] \<and> im_technical im = [] then None else Some im)\<rparr>))"

definition known_verdict :: "string \<Rightarrow> bool" where
  "known_verdict v \<longleftrightarrow> v \<in> {''supported'', ''contradicted'', ''unverified''}"

definition parseVerifyOutput ::
  "(string \<Rightarrow> string) \<Rightarrow> (string \<Rightarrow> go_error + verification list option) \<Rightarrow> string \<Rightarrow> go_error + verification list" where
  "parseVerifyOutput trim dec output =
     (let body = stripFences trim output
      in if body = [] then Inl (Opaque ''empty output'')
         else (case dec body of
                 Inl err \<Rightarrow> Inl (Wrapped ''unmarshal'' err)
               | Inr vs \<Rightarrow>
                   Inr (map (\<lambda>v. if known_verdict (vf_verdict v) then v else v\<lparr>vf_verdict := ''unverified''\<rparr>) (or_empty vs))))"

definition parseScoreOutput ::
  "(string \<Rightarrow> string) \<Rightarrow> (string \<Rightarrow> go_error + raw_score) \<Rightarrow> (real \<Rightarrow> string) \<Rightarrow> string \<Rightarrow> go_error + trust_score_result" where
  "parseScoreOutput trim dec show_real output =
     (let body = stripFences trim output
      in if body = [] then Inl (Opaque ''empty output'')
         else (case dec body of
                 Inl err \<Rightarrow> Inl (Wrapped ''unmarshal'' err)
               | Inr r \<Rightarrow>
                  (case rs_score r of
                     None \<Rightarrow> Inl (Opaque ''missing trust_score'')
                   | Some sc \<Rightarrow>
                       if trim (rs_rationale r) = [] then Inl (Opaque ''missing rationale'')
                       else if sc < 0 \<or> 1 < sc
                       then Inl (Opaque (''trust_score '' @ show_real sc @ '' out of range [0.0, 1.0]''))
                       else Inr \<lparr>ts_score = sc, ts_rationale = rs_rationale r, ts_factors = rs_factors r\<rparr>)))"

section \<open>Sessions\<close>

text \<open>
  The models share a runner (\<^verbatim>\<open>RunSession\<close>: label, files and prompt), a prompt loader and a JSON codec.
\<close>

record agent_env =
  ag_run :: "string \<Rightarrow> (string \<times> string) list \<Rightarrow> string \<Rightarrow> go_error + string"
  ag_load :: loader
  ag_trim :: "string \<Rightarrow> string"
  ag_dec_facts :: "string \<Rightarrow> go_error + raw_facts"
  ag_dec_context :: "string \<Rightarrow> go_error + raw_context"
  ag_dec_verify :: "string \<Rightarrow> go_error + verification list option"
  ag_dec_score :: "string \<Rightarrow> go_error + raw_score"
  ag_enc_entities :: "entity list \<Rightarrow> go_error + string"
  ag_enc_claims :: "claim list \<Rightarrow> go_error + string"
  ag_enc_indexed :: "(int \<times> claim) list \<Rightarrow> go_error + string"
  ag_show_real :: "real \<Rightarrow> string"

definition promptName :: string where "promptName = ''enrich/claude/extract.user''"
definition verifierPromptName :: string where "verifierPromptName = ''enrich/claude/cross_verify.user''"
definition contextPromptName :: string where "contextPromptName = ''enrich/claude/context.user''"
definition scorerPromptName :: string where "scorerPromptName = ''enrich/claude/score.user''"

definition PromptContracts :: "contract list" where
  "PromptContracts =
     [\<lparr>ct_name = promptName, ct_placeholders = [''{{SESSION_PATH}}'', ''{{HOST}}'', ''{{URL}}'', ''{{TITLE}}'']\<rparr>,
      \<lparr>ct_name = verifierPromptName, ct_placeholders = [''{{URL}}'', ''{{HOST}}'', ''{{TITLE}}'', ''{{CLAIMS_JSON}}'']\<rparr>,
      \<lparr>ct_name = contextPromptName,
       ct_placeholders = [''{{URL}}'', ''{{HOST}}'', ''{{TITLE}}'', ''{{ENTITIES_JSON}}'', ''{{CLAIMS_JSON}}'']\<rparr>,
      \<lparr>ct_name = scorerPromptName,
       ct_placeholders = [''{{URL}}'', ''{{HOST}}'', ''{{TITLE}}'', ''{{FACTS_JSON}}'', ''{{VERIFICATIONS_JSON}}'', ''{{CONTEXT_JSON}}'']\<rparr>]"

record extract_input =
  ei_url :: string
  ei_host :: string
  ei_title :: string
  ei_html :: string

definition extract_replacements :: "extract_input \<Rightarrow> (string \<times> string) list" where
  "extract_replacements i =
     [(''{{SESSION_PATH}}'', ''.''), (''{{HOST}}'', ei_host i), (''{{URL}}'', ei_url i), (''{{TITLE}}'', ei_title i)]"

definition claude_Extract :: "agent_env \<Rightarrow> extract_input \<Rightarrow> go_error + enriched_facts" where
  "claude_Extract A i =
     (case ag_load A promptName of
        Inl err \<Rightarrow> Inl (Wrapped (''load enrich prompt '' @ go_quote promptName) err)
      | Inr tpl \<Rightarrow>
         (case ag_run A ''enrich-extract'' [(''page.html'', ei_html i)] (Render tpl (extract_replacements i)) of
            Inl err \<Rightarrow> Inl (Wrapped ''claudegen enrich session'' err)
          | Inr stdout \<Rightarrow>
             (case parseEnrichOutput (ag_trim A) (ag_dec_facts A) stdout of
                Inl err \<Rightarrow> Inl (Wrapped ''parse enrich output'' err)
              | Inr facts \<Rightarrow> Inr facts)))"

record verify_input =
  vi_url :: string
  vi_host :: string
  vi_title :: string
  vi_claims :: "claim list"

definition marshalIndexedClaims :: "agent_env \<Rightarrow> claim list \<Rightarrow> go_error + string" where
  "marshalIndexedClaims A claims = ag_enc_indexed A (zip (map int [0..<length claims]) claims)"

definition verify_replacements :: "verify_input \<Rightarrow> string \<Rightarrow> (string \<times> string) list" where
  "verify_replacements i claimsJSON =
     [(''{{URL}}'', vi_url i), (''{{HOST}}'', vi_host i), (''{{TITLE}}'', vi_title i), (''{{CLAIMS_JSON}}'', claimsJSON)]"

definition claude_Verify :: "agent_env \<Rightarrow> verify_input \<Rightarrow> go_error + verification list" where
  "claude_Verify A i =
     (if vi_claims i = [] then Inr []
      else (case ag_load A verifierPromptName of
        Inl err \<Rightarrow> Inl (Wrapped (''load verifier prompt '' @ go_quote verifierPromptName) err)
      | Inr tpl \<Rightarrow>
         (case marshalIndexedClaims A (vi_claims i) of
            Inl err \<Rightarrow> Inl (Wrapped ''marshal claims'' err)
          | Inr claimsJSON \<Rightarrow>
             (case ag_run A ''enrich-verify'' [] (Render tpl (verify_replacements i claimsJSON)) of
                Inl err \<Rightarrow> Inl (Wrapped ''claudegen verify session'' err)
              | Inr stdout \<Rightarrow>
                 (case parseVerifyOutput (ag_trim A) (ag_dec_verify A) stdout of
                    Inl err \<Rightarrow> Inl (Wrapped ''parse verify output'' err)
                  | Inr vs \<Rightarrow> Inr vs)))))"

record context_input =
  ci_url :: string
  ci_host :: string
  ci_title :: string
  ci_entities :: "entity list"
  ci_claims :: "claim list"

definition marshalSlice :: "('a list \<Rightarrow> go_error + string) \<Rightarrow> 'a list \<Rightarrow> go_error + string" where
  "marshalSlice enc v = (if v = [] then Inr ''[]'' else enc v)"

definition context_replacements :: "context_input \<Rightarrow> string \<Rightarrow> string \<Rightarrow> (string \<times> string) list" where
  "context_replacements i entitiesJSON claimsJSON =
     [(''{{URL}}'', ci_url i), (''{{HOST}}'', ci_host i), (''{{TITLE}}'', ci_title i),
      (''{{ENTITIES_JSON}}'', entitiesJSON), (''{{CLAIMS_JSON}}'', claimsJSON)]"

definition claude_Provide :: "agent_env \<Rightarrow> context_input \<Rightarrow> go_error + page_context option" where
  "claude_Provide A i =
     (if ci_entities i = [] \<and> ci_claims i = [] then Inr None
      else (case ag_load A contextPromptName of
        Inl err \<Rightarrow> Inl (Wrapped (''load context prompt '' @ go_quote contextPromptName) err)
      | Inr tpl \<Rightarrow>
         (case marshalSlice (ag_enc_entities A) (ci_entities i) of
            Inl err \<Rightarrow> Inl (Wrapped ''marshal entities'' err)
          | Inr entitiesJSON \<Rightarrow>
             (case marshalSlice (ag_enc_claims A) (ci_claims i) of
                Inl err \<Rightarrow> Inl (Wrapped ''marshal claims'' err)
              | Inr claimsJSON \<Rightarrow>
                 (case ag_run A ''enrich-context'' [] (Render tpl (context_replacements i entitiesJSON claimsJSON)) of
                    Inl err \<Rightarrow> Inl (Wrapped ''claudegen context session'' err)
                  | Inr stdout \<Rightarrow>
                     (case parseContextOutput (ag_trim A) (ag_dec_context A) stdout of
                        Inl err \<Rightarrow> Inl (Wrapped ''parse context output'' err)
                      | Inr pc \<Rightarrow> Inr (Some pc)))))))"

record score_input =
  sn_url :: string
  sn_host :: string
  sn_title :: string
  sn_facts :: string
  sn_verifications :: string
  sn_context :: string

definition isEmptyJSON :: "(string \<Rightarrow> string) \<Rightarrow> string \<Rightarrow> bool" where
  "isEmptyJSON trim b = (let s = trim b in s \<in> {[], ''{}'', ''[]'', ''null''})"

definition jsonOrEmptyObject :: "string \<Rightarrow> string" where "jsonOrEmptyObject b = (if b = [] then ''{}'' else b)"
definition jsonOrEmptyArray :: "string \<Rightarrow> string" where "jsonOrEmptyArray b = (if b = [] then ''[]'' else b)"

definition score_replacements :: "score_input \<Rightarrow> (string \<times> string) list" where
  "score_replacements i =
     [(''{{URL}}'', sn_url i), (''{{HOST}}'', sn_host i), (''{{TITLE}}'', sn_title i),
      (''{{FACTS_JSON}}'', jsonOrEmptyObject (sn_facts i)),
      (''{{VERIFICATIONS_JSON}}'', jsonOrEmptyArray (sn_verifications i)),
      (''{{CONTEXT_JSON}}'', jsonOrEmptyObject (sn_context i))]"

definition claude_Score :: "agent_env \<Rightarrow> score_input \<Rightarrow> go_error + trust_score_result option" where
  "claude_Score A i =
     (if isEmptyJSON (ag_trim A) (sn_facts i) \<and> isEmptyJSON (ag_trim A) (sn_verifications i) \<and> isEmptyJSON (ag_trim A) (sn_context i)
      then Inr None
      else (case ag_load A scorerPromptName of
        Inl err \<Rightarrow> Inl (Wrapped (''load scorer prompt '' @ go_quote scorerPromptName) err)
      | Inr tpl \<Rightarrow>
         (case ag_run A ''enrich-score'' [] (Render tpl (score_replacements i)) of
            Inl err \<Rightarrow> Inl (Wrapped ''claudegen score session'' err)
          | Inr stdout \<Rightarrow>
             (case parseScoreOutput (ag_trim A) (ag_dec_score A) (ag_show_real A) stdout of
                Inl err \<Rightarrow> Inl (Wrapped ''parse score output'' err)
              | Inr res \<Rightarrow> Inr (Some res)))))"

section \<open>Fences\<close>

lemma before_last_short: "length s < length pat \<Longrightarrow> before_last pat s = None"
  by (induction s) (auto dest: prefix_length_le)

lemma before_last_append: "pat \<noteq> [] \<Longrightarrow> before_last pat (xs @ pat) = Some xs"
proof (induction xs)
  case Nil
  then obtain c cs where "pat = c # cs" by (cases pat) auto
  then show ?case using before_last_short [of cs pat] by simp
qed auto

lemma split_first_prefix: "split_first pat (pat @ x) = Some ([], x)"
proof (cases "pat @ x")
  case (Cons a l)
  have "prefix pat (a # l)" "drop (length pat) (a # l) = x" unfolding Cons [symmetric] by simp_all
  then show ?thesis by (simp add: Cons)
qed simp

lemma split_first_newline: "c \<notin> set a \<Longrightarrow> split_first [c] (a @ c # b) = Some (a, b)"
  by (induction a) (auto simp: prefix_def)

lemma split_first_none: "pat \<noteq> [] \<Longrightarrow> split_first pat s = None \<longleftrightarrow> \<not> sublist pat s"
  by (induction s) (auto simp: sublist_Cons_right)

section \<open>Properties\<close>

text \<open>Reading a fenced block back. A body printed between fences, after any language tag, is read back as it
  was, and so is a body without fences; the body itself may contain fences when it is fenced.\<close>
theorem strip_fences_roundtrip:
  assumes "trim body = body" and "trim (body @ [CHR 0x0A]) = body" and "CHR 0x0A \<notin> set lang"
    and "out = fence @ lang @ [CHR 0x0A] @ body @ [CHR 0x0A] @ fence" and "trim out = out"
  shows "stripFences trim out = body \<and> (\<not> sublist fence body \<longrightarrow> stripFences trim body = body)"
proof
  have "split_first fence out = Some ([], lang @ CHR 0x0A # body @ [CHR 0x0A] @ fence)"
    unfolding assms(4) by (simp add: split_first_prefix)
  moreover have "split_first [CHR 0x0A] (lang @ CHR 0x0A # body @ [CHR 0x0A] @ fence) = Some (lang, body @ [CHR 0x0A] @ fence)"
    using assms(3) by (rule split_first_newline)
  moreover have "before_last fence ((body @ [CHR 0x0A]) @ fence) = Some (body @ [CHR 0x0A])"
    by (rule before_last_append) (simp add: fence_def)
  ultimately show "stripFences trim out = body"
    using assms(2,5) by (simp add: stripFences_def)
  show "\<not> sublist fence body \<longrightarrow> stripFences trim body = body"
  proof
    assume "\<not> sublist fence body"
    then have "split_first fence body = None" using split_first_none [of fence body] by (simp add: fence_def)
    then show "stripFences trim body = body" using assms(1) by (simp add: stripFences_def)
  qed
qed

definition trim_nl :: "string \<Rightarrow> string" where
  "trim_nl s = rev (dropWhile (\<lambda>c. c = CHR 0x0A) (rev s))"

theorem strip_fences_roundtrip_witness:
  "stripFences trim_nl (fence @ ''json'' @ [CHR 0x0A] @ ''{}'' @ [CHR 0x0A] @ fence) = ''{}''"
proof -
  define out where "out = fence @ ''json'' @ [CHR 0x0A] @ ''{}'' @ [CHR 0x0A] @ fence"
  have "trim_nl ''{}'' = ''{}''" "trim_nl (''{}'' @ [CHR 0x0A]) = ''{}''" "trim_nl out = out"
    by (simp_all add: trim_nl_def out_def fence_def)
  with strip_fences_roundtrip [of trim_nl "''{}''" "''json''" out, OF _ _ _ out_def]
  show ?thesis unfolding out_def by simp
qed


definition sample_agent :: agent_env where
  "sample_agent =
     \<lparr>ag_run = \<lambda>label files prompt. Inr ''x'', ag_load = \<lambda>n. Inr ''t'', ag_trim = id,
      ag_dec_facts = \<lambda>b. Inl (Opaque []), ag_dec_context = \<lambda>b. Inl (Opaque []),
      ag_dec_verify = \<lambda>b. Inr (Some [\<lparr>vf_claim = 0, vf_verdict = ''maybe'', vf_sources = [], vf_note = []\<rparr>]),
      ag_dec_score = \<lambda>b. Inl (Opaque []), ag_enc_entities = \<lambda>e. Inr [], ag_enc_claims = \<lambda>c. Inr [],
      ag_enc_indexed = \<lambda>c. Inr [], ag_show_real = \<lambda>r. []\<rparr>"


text \<open>A defect: extraction trusts the whole JSON object. A trust score (and verifications, or a context) in the
  extractor's own output passes through unchecked, whatever its value.\<close>
theorem extraction_passes_trust_score:
  assumes "ag_load A promptName = Inr tpl" and "ag_run A ''enrich-extract'' [(''page.html'', ei_html i)] (Render tpl (extract_replacements i)) = Inr out"
    and "stripFences (ag_trim A) (ag_trim A out) = body" and "body \<noteq> []" and "ag_dec_facts A body = Inr r"
  shows "\<exists>f. claude_Extract A i = Inr f \<and> ef_trust f = rw_trust r \<and> ef_verifications f = rw_verifications r"
  using assms by (simp add: claude_Extract_def parseEnrichOutput_def)

text \<open>The prompts of the four models name exactly the placeholders of their contracts, so that a startup check that
  accepts the contracts makes every session run on its template with the placeholders filled in.\<close>

lemma contract_placeholders:
  "\<forall>c \<in> set PromptContracts. \<forall>p \<in> set (ct_placeholders c). match_placeholder p = Some p"
  by code_simp

lemma enrich_prompts_filled:
  assumes "Verify (Some (ag_load A)) PromptContracts = None"
  shows "(\<exists>t. ag_load A promptName = Inr t \<and> Render t (extract_replacements i) = substitute (\<lambda>k. the (map_of (extract_replacements i) k)) t)
    \<and> (\<exists>t. ag_load A verifierPromptName = Inr t \<and> Render t (verify_replacements j cs) = substitute (\<lambda>k. the (map_of (verify_replacements j cs) k)) t)
    \<and> (\<exists>t. ag_load A contextPromptName = Inr t \<and> Render t (context_replacements k es cs) = substitute (\<lambda>h. the (map_of (context_replacements k es cs) h)) t)
    \<and> (\<exists>t. ag_load A scorerPromptName = Inr t \<and> Render t (score_replacements l) = substitute (\<lambda>k. the (map_of (score_replacements l) k)) t)"
proof -
  have fill: "\<exists>t. ag_load A (ct_name c) = Inr t \<and> Render t ps = substitute (\<lambda>k. the (map_of ps k)) t"
    if c: "c \<in> set PromptContracts" and f: "fst ` set ps = set (ct_placeholders c)" for c ps
  proof -
    obtain body where b: "ag_load A (ct_name c) = Inr body" "set (find_placeholders body) \<subseteq> set (ct_placeholders c)"
      using verified_contract [OF assms c] by blast
    have "\<forall>(old, new) \<in> set ps. match_placeholder old = Some old"
    proof safe
      fix old new assume "(old, new) \<in> set ps"
      then have "old \<in> fst ` set ps" by (rule image_eqI [rotated]) simp
      then show "match_placeholder old = Some old" using contract_placeholders c f by blast
    qed
    from Render_substitute [OF this] b f show ?thesis by blast
  qed
  show ?thesis
    using fill [of "PromptContracts ! 0" "extract_replacements i"] fill [of "PromptContracts ! 1" "verify_replacements j cs"]
      fill [of "PromptContracts ! 2" "context_replacements k es cs"] fill [of "PromptContracts ! 3" "score_replacements l"]
    by (simp add: PromptContracts_def extract_replacements_def verify_replacements_def context_replacements_def
        score_replacements_def)
qed

end
