(* ===== verification/EnrichWorker.thy ===== *)
theory EnrichWorker
  imports StageWorker EnrichCore Links
begin

text \<open>
  The enrich stage, \<^verbatim>\<open>internal/processor/enrich/worker\<close>: the cost guard (\<^verbatim>\<open>cost_guard.go\<close>) and the worker
  (\<^verbatim>\<open>worker.go\<close>): \<^verbatim>\<open>Handle\<close>, \<^verbatim>\<open>process\<close>, the four models in order, persistence of the
  result and the forwarded message. Every model failure is soft: the message goes on without that part. The content
  store, the models, the repository, the guard's backlog check, Kafka and the JSON codec are calls of the environment;
  \<open>EnrichCore\<close> gives the models the program uses. Logging and metrics are left out.
\<close>

section \<open>The cost guard\<close>

datatype skip_reason = SkipReasonNone | SkipReasonDailyBudget | SkipReasonBacklog

record cost_guard =
  cg_daily :: int
  cg_max_backlog :: int
  cg_has_checker :: bool
  cg_interval :: duration
  cg_day :: int
  cg_count :: int
  cg_checked_at :: "gotime option"
  cg_last :: int
  cg_blocked :: skip_reason

definition DefaultBacklogCheckInterval :: duration where "DefaultBacklogCheckInterval = 10 * second"

definition NewCostGuard :: "int \<Rightarrow> int \<Rightarrow> bool \<Rightarrow> duration \<Rightarrow> cost_guard" where
  "NewCostGuard daily maxBacklog checker interval =
     \<lparr>cg_daily = daily, cg_max_backlog = maxBacklog, cg_has_checker = checker,
      cg_interval = (if interval \<le> 0 then DefaultBacklogCheckInterval else interval),
      cg_day = 0, cg_count = 0, cg_checked_at = None, cg_last = 0, cg_blocked = SkipReasonNone\<rparr>"

definition cg_Enabled :: "cost_guard option \<Rightarrow> bool" where
  "cg_Enabled g = (case g of None \<Rightarrow> False
     | Some c \<Rightarrow> cg_daily c > 0 \<or> (cg_max_backlog c > 0 \<and> cg_has_checker c))"

text \<open>What a call of \<^verbatim>\<open>Allow\<close> sees: the clock, its UTC day, and the answer of the backlog checker.\<close>

record guard_call =
  gc_now :: gotime
  gc_day :: int
  gc_backlog :: "go_error + int"

definition consumeDailyBudget :: "int \<Rightarrow> cost_guard \<Rightarrow> bool \<times> cost_guard" where
  "consumeDailyBudget today g =
     (if cg_daily g \<le> 0 then (True, g)
      else (let g = (if today \<noteq> cg_day g then g\<lparr>cg_day := today, cg_count := 0\<rparr> else g)
            in if cg_daily g \<le> cg_count g then (False, g) else (True, g\<lparr>cg_count := cg_count g + 1\<rparr>)))"

definition over_backlog :: "cost_guard \<Rightarrow> int \<Rightarrow> skip_reason" where
  "over_backlog g lag = (if cg_max_backlog g < lag then SkipReasonBacklog else SkipReasonNone)"

definition checkBacklog :: "guard_call \<Rightarrow> cost_guard \<Rightarrow> skip_reason \<times> cost_guard" where
  "checkBacklog c g =
     (if cg_max_backlog g \<le> 0 \<or> \<not> cg_has_checker g then (SkipReasonNone, g)
      else if (case cg_checked_at g of None \<Rightarrow> False | Some t \<Rightarrow> gc_now c - t < cg_interval g)
      then (over_backlog g (cg_last g), g)
      else (case gc_backlog c of
              Inl _ \<Rightarrow> (SkipReasonNone, g\<lparr>cg_last := 0, cg_checked_at := Some (gc_now c)\<rparr>)
            | Inr lag \<Rightarrow> (over_backlog g lag, g\<lparr>cg_last := lag, cg_checked_at := Some (gc_now c)\<rparr>)))"

definition noteState :: "skip_reason \<Rightarrow> cost_guard \<Rightarrow> cost_guard" where
  "noteState reason g = g\<lparr>cg_blocked := reason\<rparr>"

definition cg_Allow :: "guard_call \<Rightarrow> cost_guard \<Rightarrow> (bool \<times> skip_reason) \<times> cost_guard" where
  "cg_Allow c g =
     (case checkBacklog c g of
        (SkipReasonNone, g1) \<Rightarrow>
          (let (allowed, g2) = consumeDailyBudget (gc_day c) g1
           in if \<not> allowed then ((False, SkipReasonDailyBudget), noteState SkipReasonDailyBudget g2)
              else ((True, SkipReasonNone), noteState SkipReasonNone g2))
      | (reason, g1) \<Rightarrow> ((False, reason), noteState reason g1))"

fun allow_all :: "guard_call list \<Rightarrow> cost_guard \<Rightarrow> (int \<times> bool) list \<times> cost_guard" where
  "allow_all [] g = ([], g)"
| "allow_all (c # cs) g =
     (let ((ok, _), g1) = cg_Allow c g; (res, g2) = allow_all cs g1 in ((gc_day c, ok) # res, g2))"

section \<open>Environment\<close>

record enriched_record =
  er_content :: string
  er_trust :: real
  er_facts :: bytes
  er_verifications :: bytes
  er_context :: bytes
  er_rationale :: string
  er_factors :: bytes

text \<open>\<^verbatim>\<open>ew_attach\<close> stands for the dynamic value of the metadata entry.\<close>

record 'w enrich_env =
  ew_io :: "(act, 'w) io"
  ew_pub :: "publisher option"
  ew_url :: url_lib
  ew_load :: "string \<Rightarrow> 'w \<Rightarrow> (go_error + content) \<times> 'w"
  ew_extract :: "extract_input \<Rightarrow> 'w \<Rightarrow> (go_error + enriched_facts) \<times> 'w"
  ew_verify :: "verify_input \<Rightarrow> 'w \<Rightarrow> (go_error + verification list) \<times> 'w"
  ew_provide :: "context_input \<Rightarrow> 'w \<Rightarrow> (go_error + page_context option) \<times> 'w"
  ew_score :: "score_input \<Rightarrow> 'w \<Rightarrow> (go_error + trust_score_result option) \<times> 'w"
  ew_upsert :: "(enriched_record \<Rightarrow> 'w \<Rightarrow> (go_error + unit) \<times> 'w) option"
  ew_guard :: "'w \<Rightarrow> (bool \<times> skip_reason) \<times> 'w"
  ew_acquire :: "string \<Rightarrow> 'w \<Rightarrow> (go_error + bool) \<times> 'w"
  ew_now :: "'w \<Rightarrow> gotime"
  ew_ctx_err :: "'w \<Rightarrow> go_error option"
  ew_has_retry :: bool
  ew_has_gate_skip :: bool
  ew_dec_pm :: "bytes \<Rightarrow> go_error + processing_message"
  ew_dec_ref :: "bytes \<Rightarrow> go_error + content_ref"
  ew_enc_pm :: "processing_message \<Rightarrow> go_error + bytes"
  ew_enc_ref :: "content_ref \<Rightarrow> go_error + bytes"
  ew_enc_facts :: "enriched_facts \<Rightarrow> go_error + bytes"
  ew_enc_verifications :: "verification list \<Rightarrow> go_error + bytes"
  ew_enc_context :: "page_context \<Rightarrow> go_error + bytes"
  ew_enc_factors :: "score_factors \<Rightarrow> go_error + bytes"
  ew_attach :: "enriched_facts \<Rightarrow> meta_value"

definition TopicEnriched :: string where "TopicEnriched = ''issuetracker.enriched''"
definition enrichRetryDefaultTimeout :: duration where "enrichRetryDefaultTimeout = 30 * second"

definition enrich_hostOf :: "url_lib \<Rightarrow> string \<Rightarrow> string" where
  "enrich_hostOf L u = (case ul_parse L u of Inl _ \<Rightarrow> [] | Inr p \<Rightarrow> ur_host p)"

section \<open>Retries, dead letters, gate skips\<close>

definition e_BuildRetryJob :: "'w enrich_env \<Rightarrow> gotime \<Rightarrow> message \<Rightarrow> go_error + crawl_job" where
  "e_BuildRetryJob env now msg =
     (case ew_dec_pm env (m_value msg) of
        Inl uerr \<Rightarrow> Inl (Wrapped ''retry unmarshal processing message'' uerr)
      | Inr pm \<Rightarrow>
         (case ew_dec_ref env (pm_data pm) of
            Inl uerr \<Rightarrow> Inl (Wrapped ''retry unmarshal content ref'' uerr)
          | Inr ref \<Rightarrow>
              if cr_url ref = [] then Inl (Opaque (''retry unmarshal: empty URL in ContentRef '' @ cr_id ref))
              else
                (let name = hget (m_headers msg) ''crawler'';
                     name = (if name = [] then si_name (cr_source ref) else name);
                     name = (if name = [] then ''enrich-retry'' else name);
                     ttype = (case m_headers msg ''target_type'' of
                                None \<Rightarrow> TargetTypeArticle
                              | Some t \<Rightarrow> if isValidTargetType t then t else TargetTypeArticle)
                 in Inr \<lparr>job_id = cr_id ref, job_crawler = name,
                      job_target = \<lparr>tg_url = cr_url ref, tg_type = ttype,
                        tg_meta = [''retry_reason'' \<mapsto> MStr ''enrich_process_failed'',
                                   ''original_ref_id'' \<mapsto> MStr (cr_id ref)]\<rparr>,
                      job_priority = PriorityFromHeader (m_headers msg), job_scheduled_at = now,
                      job_timeout = header_timeout (m_headers msg) enrichRetryDefaultTimeout,
                      job_retry_count = 0, job_max_retries = DefaultMaxRetries\<rparr>)))"

definition e_enqueueRetry ::
  "'w enrich_env \<Rightarrow> message \<Rightarrow> go_error \<Rightarrow> (act, 'w) sys \<Rightarrow> go_error option \<times> (act, 'w) sys" where
  "e_enqueueRetry env msg lastErr s =
     (case e_BuildRetryJob env (ew_now env (fst s)) msg of
        Inl err \<Rightarrow> (Some err, s)
      | Inr job \<Rightarrow> perform (ew_io env) (EnqueueRetry job (Some lastErr)) s)"

definition e_sendToDLQ ::
  "'w enrich_env \<Rightarrow> message \<Rightarrow> go_error \<Rightarrow> (act, 'w) sys \<Rightarrow> go_error option \<times> (act, 'w) sys" where
  "e_sendToDLQ env msg reason s = stage_forward (ew_io env) (ew_pub env) (dlq_message msg reason) s"

definition e_enqueueGateSkipRetry ::
  "'w enrich_env \<Rightarrow> message \<Rightarrow> (act, 'w) sys \<Rightarrow> bool \<times> (act, 'w) sys" where
  "e_enqueueGateSkipRetry env =
     stage_gate_skip (ew_io env) (e_sendToDLQ env) (e_BuildRetryJob env) (ew_has_gate_skip env) (ew_now env)"

section \<open>The models\<close>

text \<open>The JSON triple the scorer and the repository take.\<close>

definition marshalFactsTriple :: "'w enrich_env \<Rightarrow> enriched_facts \<Rightarrow> go_error + bytes \<times> bytes \<times> bytes" where
  "marshalFactsTriple env f =
     (case ew_enc_facts env f of
        Inl err \<Rightarrow> Inl (Wrapped ''marshal facts'' err)
      | Inr fj \<Rightarrow>
         (case ew_enc_verifications env (ef_verifications f) of
            Inl err \<Rightarrow> Inl (Wrapped ''marshal verifications'' err)
          | Inr vj \<Rightarrow>
             (case ef_context f of
                None \<Rightarrow> Inr (fj, vj, [])
              | Some pc \<Rightarrow>
                 (case ew_enc_context env pc of
                    Inl err \<Rightarrow> Inl (Wrapped ''marshal context'' err)
                  | Inr cj \<Rightarrow> Inr (fj, vj, cj)))))"

definition runExtraction ::
  "'w enrich_env \<Rightarrow> content_ref \<Rightarrow> (act, 'w) sys \<Rightarrow> (content option \<times> enriched_facts option) \<times> (act, 'w) sys" where
  "runExtraction env ref s =
     (case perform_val (ew_load env (cr_id ref)) (LoadContent (cr_id ref)) s of
        (Inl _, s1) \<Rightarrow> ((None, None), s1)
      | (Inr c, s1) \<Rightarrow>
         (case perform_val (ew_extract env \<lparr>ei_url = cr_url ref, ei_host = enrich_hostOf (ew_url env) (cr_url ref),
                   ei_title = c_title c, ei_html = c_body c\<rparr>) (CallModel ''extract'' (cr_id ref)) s1 of
            (Inl _, s2) \<Rightarrow> ((Some c, None), s2)
          | (Inr facts, s2) \<Rightarrow> ((Some c, Some facts), s2)))"

definition runVerification ::
  "'w enrich_env \<Rightarrow> content_ref \<Rightarrow> content option \<Rightarrow> enriched_facts \<Rightarrow> (act, 'w) sys \<Rightarrow> enriched_facts \<times> (act, 'w) sys" where
  "runVerification env ref co facts s =
     (if ef_claims facts = [] then (facts, s)
      else (case co of
              None \<Rightarrow> (facts, s)
            | Some c \<Rightarrow>
               (case perform_val (ew_verify env \<lparr>vi_url = cr_url ref, vi_host = enrich_hostOf (ew_url env) (cr_url ref),
                         vi_title = c_title c, vi_claims = ef_claims facts\<rparr>) (CallModel ''verify'' (cr_id ref)) s of
                  (Inl _, s1) \<Rightarrow> (facts, s1)
                | (Inr vs, s1) \<Rightarrow> (facts\<lparr>ef_verifications := vs\<rparr>, s1))))"

definition title_of :: "content option \<Rightarrow> string" where
  "title_of co = (case co of None \<Rightarrow> [] | Some c \<Rightarrow> c_title c)"

definition runContextEnrichment ::
  "'w enrich_env \<Rightarrow> content_ref \<Rightarrow> content option \<Rightarrow> enriched_facts \<Rightarrow> (act, 'w) sys \<Rightarrow> enriched_facts \<times> (act, 'w) sys" where
  "runContextEnrichment env ref co facts s =
     (if ef_entities facts = [] \<and> ef_claims facts = [] then (facts, s)
      else (case perform_val (ew_provide env \<lparr>ci_url = cr_url ref, ci_host = enrich_hostOf (ew_url env) (cr_url ref),
                      ci_title = title_of co, ci_entities = ef_entities facts, ci_claims = ef_claims facts\<rparr>)
                   (CallModel ''context'' (cr_id ref)) s of
              (Inl _, s1) \<Rightarrow> (facts, s1)
            | (Inr pc, s1) \<Rightarrow> if context_IsEmpty pc then (facts, s1) else (facts\<lparr>ef_context := pc\<rparr>, s1)))"

definition runScoring ::
  "'w enrich_env \<Rightarrow> content_ref \<Rightarrow> content option \<Rightarrow> enriched_facts \<Rightarrow> (act, 'w) sys \<Rightarrow> enriched_facts \<times> (act, 'w) sys" where
  "runScoring env ref co facts s =
     (if ef_claims facts = [] \<and> ef_verifications facts = [] \<and> context_IsEmpty (ef_context facts) then (facts, s)
      else (case marshalFactsTriple env facts of
              Inl _ \<Rightarrow> (facts, s)
            | Inr (fj, vj, cj) \<Rightarrow>
               (case perform_val (ew_score env \<lparr>sn_url = cr_url ref, sn_host = enrich_hostOf (ew_url env) (cr_url ref),
                         sn_title = title_of co, sn_facts = fj, sn_verifications = vj, sn_context = cj\<rparr>)
                       (CallModel ''score'' (cr_id ref)) s of
                  (Inr (Some res), s1) \<Rightarrow>
                    (facts\<lparr>ef_trust := Some (ts_score res), ef_rationale := ts_rationale res,
                           ef_factors := Some (ts_factors res)\<rparr>, s1)
                | (_, s1) \<Rightarrow> (facts, s1))))"

definition persistEnriched ::
  "'w enrich_env \<Rightarrow> content_ref \<Rightarrow> enriched_facts \<Rightarrow> (act, 'w) sys \<Rightarrow> (act, 'w) sys" where
  "persistEnriched env ref facts s =
     (case (ew_upsert env, ef_trust facts) of
        (Some upsert, Some trust) \<Rightarrow>
          (case marshalFactsTriple env facts of
             Inl _ \<Rightarrow> s
           | Inr (fj, vj, cj) \<Rightarrow>
              (let kj = (case ef_factors facts of
                           None \<Rightarrow> []
                         | Some k \<Rightarrow> (case ew_enc_factors env k of Inl _ \<Rightarrow> [] | Inr b \<Rightarrow> b))
               in snd (perform_val (upsert \<lparr>er_content = cr_id ref, er_trust = trust, er_facts = fj,
                          er_verifications = vj, er_context = cj, er_rationale = ef_rationale facts, er_factors = kj\<rparr>)
                         (UpsertEnriched (cr_id ref)) s)))
      | _ \<Rightarrow> s)"

definition attachFacts :: "'w enrich_env \<Rightarrow> enriched_facts \<Rightarrow> processing_message \<Rightarrow> processing_message" where
  "attachFacts env facts pm = pm\<lparr>pm_metadata := (pm_metadata pm)(''enriched_facts'' \<mapsto> ew_attach env facts)\<rparr>"

definition enrich_message ::
  "'w enrich_env \<Rightarrow> content_ref \<Rightarrow> processing_message \<Rightarrow> (act, 'w) sys \<Rightarrow> processing_message \<times> (act, 'w) sys" where
  "enrich_message env ref pm s =
     (case runExtraction env ref s of
        ((_, None), s1) \<Rightarrow> (pm, s1)
      | ((co, Some f0), s1) \<Rightarrow>
          (let (f1, s2) = runVerification env ref co f0 s1;
               (f2, s3) = runContextEnrichment env ref co f1 s2;
               (f3, s4) = runScoring env ref co f2 s3;
               s5 = persistEnriched env ref f3 s4
           in (attachFacts env f3 pm, s5)))"

section \<open>One message\<close>

definition enriched_headers :: "headers \<Rightarrow> content_ref \<Rightarrow> headers" where
  "enriched_headers hs ref =
     hs(''source'' \<mapsto> si_name (cr_source ref), ''country'' \<mapsto> cr_country ref, ''stage'' \<mapsto> ''enriched'')"

definition publishEnriched ::
  "'w enrich_env \<Rightarrow> content_ref \<Rightarrow> processing_message \<Rightarrow> message \<Rightarrow> (act, 'w) sys
     \<Rightarrow> go_error option \<times> (act, 'w) sys" where
  "publishEnriched env ref pm orig s =
     (case ew_enc_ref env ref of
        Inl err \<Rightarrow> (Some (Wrapped ''marshal content ref'' err), s)
      | Inr data \<Rightarrow>
         (case ew_enc_pm env \<lparr>pm_id = pm_id pm, pm_timestamp = ew_now env (fst s), pm_country = cr_country ref,
                 pm_stage = ''enriched'', pm_data = data, pm_metadata = pm_metadata pm, pm_retry_count = 0\<rparr> of
            Inl err \<Rightarrow> (Some (Wrapped ''marshal processing message'' err), s)
          | Inr outBytes \<Rightarrow>
              Forward (ew_io env) (ew_pub env)
                (new_message TopicEnriched (m_key orig) outBytes (enriched_headers (m_headers orig) ref)) s))"

text \<open>From the cost guard on, under the gate or without it.\<close>

definition enrich_and_forward ::
  "'w enrich_env \<Rightarrow> message \<Rightarrow> processing_message \<Rightarrow> content_ref \<Rightarrow> (act, 'w) sys
     \<Rightarrow> go_error option \<times> (act, 'w) sys" where
  "enrich_and_forward env msg pm0 ref s =
     (let ((allowed, _), s1) = ask (ew_guard env) s;
          (pm, s2) = (if allowed then enrich_message env ref pm0 s1 else (pm0, s1))
      in case publishEnriched env ref pm msg s2 of
           (None, s3) \<Rightarrow> CommitWithDrain (ew_io env) msg s3
         | (Some err, s3) \<Rightarrow>
             if is_canceled err
             then (case publishEnriched env ref pm msg s3 of
                     (Some drainErr, s4) \<Rightarrow>
                       (Some (Wrapped (''publish enriched ref '' @ cr_id ref @ '' (drain retry failed)'') drainErr), s4)
                   | (None, s4) \<Rightarrow> CommitWithDrain (ew_io env) msg s4)
             else (Some (Wrapped (''publish enriched ref '' @ cr_id ref) err), s3))"

definition e_dlq_and_commit ::
  "'w enrich_env \<Rightarrow> string \<Rightarrow> message \<Rightarrow> go_error \<Rightarrow> (act, 'w) sys \<Rightarrow> go_error option \<times> (act, 'w) sys" where
  "e_dlq_and_commit env ctx msg err s =
     (case e_sendToDLQ env msg err s of
        (Some dlqErr, s1) \<Rightarrow> (Some (Wrapped ctx dlqErr), s1)
      | (None, s1) \<Rightarrow> CommitWithDrain (ew_io env) msg s1)"

definition enrich_process ::
  "'w enrich_env \<Rightarrow> message \<Rightarrow> (act, 'w) sys \<Rightarrow> go_error option \<times> (act, 'w) sys" where
  "enrich_process env msg s =
     (case ew_dec_pm env (m_value msg) of
        Inl err \<Rightarrow> e_dlq_and_commit env ''send to dlq (unmarshal)'' msg err s
      | Inr pm \<Rightarrow>
         (case ew_dec_ref env (pm_data pm) of
            Inl err \<Rightarrow> e_dlq_and_commit env ''send to dlq (ref unmarshal)'' msg err s
          | Inr ref \<Rightarrow>
             (case perform_val (ew_acquire env (cr_url ref)) (GateAcquire (cr_url ref)) s of
                (Inl gateErr, s1) \<Rightarrow>
                  if ew_ctx_err env (fst s1) \<noteq> None
                  then (Some (Wrapped ''enricher stage gate acquire aborted by ctx'' gateErr), s1)
                  else enrich_and_forward env msg pm ref s1
              | (Inr acquired, s1) \<Rightarrow>
                  if \<not> acquired then (None, snd (e_enqueueGateSkipRetry env msg s1))
                  else (let (r, s2) = enrich_and_forward env msg pm ref s1
                        in (r, snd (perform (ew_io env) (GateRelease (cr_url ref)) s2))))))"

definition enrich_handle :: "'w enrich_env \<Rightarrow> message \<Rightarrow> (act, 'w) sys \<Rightarrow> (act, 'w) sys" where
  "enrich_handle env msg s =
     (case enrich_process env msg s of
        (None, s1) \<Rightarrow> s1
      | (Some err, s1) \<Rightarrow>
          if is_canceled err then s1
          else if \<not> ew_has_retry env then s1
          else (case e_enqueueRetry env msg err s1 of
                  (Some e, s2) \<Rightarrow>
                    (case e_sendToDLQ env msg (Annotated ''retry enqueue failed: '' e
                              ('' (original: '' @ error_text err @ '')'')) s2 of
                       (Some _, s3) \<Rightarrow> s3
                     | (None, s3) \<Rightarrow> snd (CommitWithDrain (ew_io env) msg s3))
                | (None, s2) \<Rightarrow> snd (CommitWithDrain (ew_io env) msg s2)))"

section \<open>What the calls add to the trace\<close>

lemma run_no_commit:
  "runExtraction env ref s = (v, s') \<Longrightarrow> no_commit s s'"
  "runVerification env ref co f s = (g, s') \<Longrightarrow> no_commit s s'"
  "runContextEnrichment env ref co f s = (g, s') \<Longrightarrow> no_commit s s'"
  "runScoring env ref co f s = (g, s') \<Longrightarrow> no_commit s s'"
proof -
  note pv = perform_val_no_commit
  show "runExtraction env ref s = (v, s') \<Longrightarrow> no_commit s s'"
    by (auto simp: runExtraction_def split: prod.splits sum.splits dest!: pv intro: no_commit_trans)
  show "runVerification env ref co f s = (g, s') \<Longrightarrow> no_commit s s'"
    by (auto simp: runVerification_def split: if_splits option.splits prod.splits sum.splits dest!: pv)
  show "runContextEnrichment env ref co f s = (g, s') \<Longrightarrow> no_commit s s'"
    by (auto simp: runContextEnrichment_def split: if_splits prod.splits sum.splits dest!: pv)
  show "runScoring env ref co f s = (g, s') \<Longrightarrow> no_commit s s'"
    by (auto simp: runScoring_def split: if_splits option.splits prod.splits sum.splits dest!: pv)
qed

lemma persistEnriched_no_commit:
  fixes s :: "(act, 'w) sys"
  shows "no_commit s (persistEnriched env ref f s)"
proof -
  have "no_commit s (snd (perform_val c (UpsertEnriched i) s))" for c :: "'w \<Rightarrow> (go_error + unit) \<times> 'w" and i
    by (rule perform_val_no_commit [OF prod.collapse [symmetric]]) simp
  then show ?thesis by (auto simp: persistEnriched_def Let_def split: option.split sum.split prod.split)
qed

lemma enrich_message_no_commit:
  assumes "enrich_message env ref pm s = (pm', s')"
  shows "no_commit s s'"
proof -
  obtain co fo s1 where x: "runExtraction env ref s = ((co, fo), s1)" by (metis prod.exhaust)
  note 1 = run_no_commit(1) [OF x]
  show ?thesis
  proof (cases fo)
    case None
    then show ?thesis using assms x 1 by (simp add: enrich_message_def)
  next
    case (Some f0)
    obtain f1 s2 where 2: "runVerification env ref co f0 s1 = (f1, s2)" by (rule prod.exhaust)
    obtain f2 s3 where 3: "runContextEnrichment env ref co f1 s2 = (f2, s3)" by (rule prod.exhaust)
    obtain f3 s4 where 4: "runScoring env ref co f2 s3 = (f3, s4)" by (rule prod.exhaust)
    have "no_commit s s4"
      using no_commit_trans [OF no_commit_trans [OF no_commit_trans [OF 1 run_no_commit(2) [OF 2]] run_no_commit(3) [OF 3]]
          run_no_commit(4) [OF 4]] .
    from no_commit_trans [OF this persistEnriched_no_commit [of s4 env ref f3]] show ?thesis
      using assms x Some 2 3 4 by (simp add: enrich_message_def)
  qed
qed

definition enriched_out :: "message \<Rightarrow> content_ref \<Rightarrow> (act, 'w) sys \<Rightarrow> bool" where
  "enriched_out msg ref s \<longleftrightarrow>
     (\<exists>m. did (Publish m) s \<and> m_topic m = TopicEnriched \<and> m_key m = m_key msg
        \<and> m_headers m = enriched_headers (m_headers msg) ref)"

definition e_retry_queued :: "content_ref \<Rightarrow> (act, 'w) sys \<Rightarrow> bool" where
  "e_retry_queued ref s \<longleftrightarrow>
     (\<exists>job e. did (EnqueueRetry job e) s \<and> job_id job = cr_id ref \<and> tg_url (job_target job) = cr_url ref)"

definition e_settled :: "'w enrich_env \<Rightarrow> message \<Rightarrow> (act, 'w) sys \<Rightarrow> bool" where
  "e_settled env msg s \<longleftrightarrow>
     dead_lettered msg s
     \<or> (\<exists>pm ref. ew_dec_pm env (m_value msg) = Inr pm \<and> ew_dec_ref env (pm_data pm) = Inr ref
        \<and> (e_retry_queued ref s \<or> enriched_out msg ref s))"

lemma e_settled_grows: "e_settled env msg s \<Longrightarrow> grows s s' \<Longrightarrow> e_settled env msg s'"
proof -
  assume g: "grows s s'"
  have "e_retry_queued ref s \<Longrightarrow> e_retry_queued ref s'" "enriched_out msg ref s \<Longrightarrow> enriched_out msg ref s'" for ref
    using g unfolding e_retry_queued_def enriched_out_def grows_def did_def by blast+
  then show "e_settled env msg s \<Longrightarrow> e_settled env msg s'"
    unfolding e_settled_def using dead_lettered_grows [OF _ g] by blast
qed

lemma e_sendToDLQ_quiet:
  assumes "e_sendToDLQ env msg reason s = (r, s')"
  shows "no_commit s s' \<and> (r = None \<longrightarrow> dead_lettered msg s')"
  using stage_forward_quiet [OF assms [unfolded e_sendToDLQ_def]] dlq_message_dead by blast

interpretation enrich_stage: stage "ew_io env" "e_sendToDLQ env" "e_BuildRetryJob env" "e_settled env"
  for env :: "'w enrich_env"
proof
  fix msg reason r and s s' :: "(act, 'w) sys"
  assume "e_sendToDLQ env msg reason s = (r, s')"
  then show "no_commit s s' \<and> (r = None \<longrightarrow> dead_lettered msg s')" by (rule e_sendToDLQ_quiet)
next
  fix msg and s s' :: "(act, 'w) sys"
  show "e_settled env msg s \<Longrightarrow> grows s s' \<Longrightarrow> e_settled env msg s'" by (rule e_settled_grows)
next
  fix msg and s :: "(act, 'w) sys"
  show "dead_lettered msg s \<Longrightarrow> e_settled env msg s" by (simp add: e_settled_def)
next
  fix now msg job0 job e and s :: "(act, 'w) sys"
  assume a: "e_BuildRetryJob env now msg = Inr job0" "did (EnqueueRetry job e) s" "job_id job = job_id job0"
    "tg_url (job_target job) = tg_url (job_target job0)"
  obtain pm ref where "ew_dec_pm env (m_value msg) = Inr pm" "ew_dec_ref env (pm_data pm) = Inr ref"
    "job_id job0 = cr_id ref" "tg_url (job_target job0) = cr_url ref"
    using a(1) by (auto simp: e_BuildRetryJob_def Let_def split: sum.splits if_splits)
  then show "e_settled env msg s" unfolding e_settled_def e_retry_queued_def using a(2-4) by auto
qed

lemma publishEnriched_quiet:
  assumes "publishEnriched env ref pm msg s = (r, s')"
  shows "no_commit s s' \<and> (r = None \<longrightarrow> enriched_out msg ref s')"
proof
  show "no_commit s s'"
    using assms by (auto simp: publishEnriched_def dest!: Forward_no_commit split: sum.splits)
  show "r = None \<longrightarrow> enriched_out msg ref s'"
    using assms by (auto simp: publishEnriched_def enriched_out_def dest!: Forward_dids split: sum.splits)
qed

lemma enrich_and_forward_commits:
  assumes r: "enrich_and_forward env msg pm0 ref s = (r, s')"
    and dec: "ew_dec_pm env (m_value msg) = Inr pm0" "ew_dec_ref env (pm_data pm0) = Inr ref"
  shows "commits_only msg (e_settled env msg) s s'"
proof -
  obtain v s1 where a: "ask (ew_guard env) s = (v, s1)" by (rule prod.exhaust)
  obtain allowed reason where v: "v = (allowed, reason)" by (rule prod.exhaust)
  obtain pm s2 where e: "(if allowed then enrich_message env ref pm0 s1 else (pm0, s1)) = (pm, s2)" by (rule prod.exhaust)
  have 2: "no_commit s s2"
    using ask_no_commit [OF a] e enrich_message_no_commit [of env ref pm0 s1 pm s2]
    by (cases allowed) (auto intro: no_commit_trans)
  obtain x s3 where p: "publishEnriched env ref pm msg s2 = (x, s3)" by (rule prod.exhaust)
  obtain y s4 where q: "publishEnriched env ref pm msg s3 = (y, s4)" by (rule prod.exhaust)
  note pq = publishEnriched_quiet [OF p] publishEnriched_quiet [OF q]
  have 3: "no_commit s s3" using 2 conjunct1 [OF pq(1)] by (rule no_commit_trans)
  have 4: "no_commit s s4" using 3 conjunct1 [OF pq(2)] by (rule no_commit_trans)
  have st: "x = None \<Longrightarrow> e_settled env msg s3" "y = None \<Longrightarrow> e_settled env msg s4"
    using pq dec unfolding e_settled_def by blast+
  have run: "(r, s') = (case x of
      None \<Rightarrow> CommitWithDrain (ew_io env) msg s3
    | Some err \<Rightarrow> if is_canceled err
        then (case y of Some drainErr \<Rightarrow>
             (Some (Wrapped (''publish enriched ref '' @ cr_id ref @ '' (drain retry failed)'') drainErr), s4)
           | None \<Rightarrow> CommitWithDrain (ew_io env) msg s4)
        else (Some (Wrapped (''publish enriched ref '' @ cr_id ref) err), s3))"
    using r [symmetric] a v e p q by (cases x; cases y) (simp_all add: enrich_and_forward_def)
  note c = enrich_stage.commit [of s s3 env msg r s'] enrich_stage.commit [of s s4 env msg r s']
  show ?thesis
    using run c 3 4 st by (cases x; cases y) (auto simp: commits_only_quiet split: if_splits)
qed

lemma e_dlq_and_commit_commits:
  assumes "e_dlq_and_commit env ctx msg err s = (r, s')"
  shows "commits_only msg (e_settled env msg) s s'"
proof -
  obtain a s1 where d: "e_sendToDLQ env msg err s = (a, s1)" by (rule prod.exhaust)
  note q = e_sendToDLQ_quiet [OF d]
  have "a = None \<Longrightarrow> e_settled env msg s1" using q by (simp add: e_settled_def)
  then show ?thesis
    using assms d q enrich_stage.commit [of s s1 env msg r s']
    by (cases a) (auto simp: e_dlq_and_commit_def commits_only_quiet)
qed

lemma enrich_process_commits:
  assumes "enrich_process env msg s = (r, s')"
  shows "commits_only msg (e_settled env msg) s s'"
proof (cases "\<exists>pm ref. ew_dec_pm env (m_value msg) = Inr pm \<and> ew_dec_ref env (pm_data pm) = Inr ref")
  case False
  then obtain ctx err where "e_dlq_and_commit env ctx msg err s = (r, s')"
    using assms by (auto simp: enrich_process_def split: sum.splits)
  then show ?thesis by (rule e_dlq_and_commit_commits)
next
  case True
  then obtain pm ref where dec: "ew_dec_pm env (m_value msg) = Inr pm" "ew_dec_ref env (pm_data pm) = Inr ref" by blast
  obtain v s1 where g: "perform_val (ew_acquire env (cr_url ref)) (GateAcquire (cr_url ref)) s = (v, s1)" by (rule prod.exhaust)
  have q: "no_commit s s1" using g by (rule perform_val_no_commit) simp
  obtain rv sv where f: "enrich_and_forward env msg pm ref s1 = (rv, sv)" by (rule prod.exhaust)
  note cf = commits_only_before [OF q enrich_and_forward_commits [OF f dec]]
  obtain b sk where sk: "e_enqueueGateSkipRetry env msg s1 = (b, sk)" by (rule prod.exhaust)
  note ck = commits_only_before [OF q enrich_stage.skip_commits [OF sk [unfolded e_enqueueGateSkipRetry_def]]]
  have "no_commit sv (snd (perform (ew_io env) (GateRelease (cr_url ref)) sv))" by (rule perform_snd_no_commit) simp
  from commits_only_after [OF cf this e_settled_grows] have cr:
    "commits_only msg (e_settled env msg) s (snd (perform (ew_io env) (GateRelease (cr_url ref)) sv))" .
  show ?thesis
    using assms dec g f sk cf ck cr commits_only_quiet [OF q]
    by (auto simp: enrich_process_def Let_def split: sum.splits if_splits)
qed

lemma enrich_handle_commits: "commits_only msg (e_settled env msg) s (enrich_handle env msg s)"
proof -
  obtain r s1 where p: "enrich_process env msg s = (r, s1)" by (rule prod.exhaust)
  note c1 = enrich_process_commits [OF p]
  show ?thesis
  proof (cases "\<exists>err. r = Some err \<and> \<not> is_canceled err \<and> ew_has_retry env")
    case False
    then show ?thesis using p c1 by (auto simp: enrich_handle_def split: option.splits)
  next
    case True
    then obtain err where err: "r = Some err" "\<not> is_canceled err" "ew_has_retry env" by blast
    have "commits_only msg (e_settled env msg) s1 (enrich_handle env msg s)"
    proof (cases "e_BuildRetryJob env (ew_now env (fst s1)) msg")
      case (Inl e)
      let ?f = "Annotated ''retry enqueue failed: '' e ('' (original: '' @ error_text err @ '')'')"
      obtain a s2 where d: "e_sendToDLQ env msg ?f s1 = (a, s2)" by (rule prod.exhaust)
      note q = e_sendToDLQ_quiet [OF d]
      have "a = None \<Longrightarrow> e_settled env msg s2" using q by (simp add: e_settled_def)
      then show ?thesis
        using p err Inl d q enrich_stage.commit_snd [of s1 s2 env msg]
        by (cases a) (simp_all add: enrich_handle_def e_enqueueRetry_def commits_only_quiet)
    next
      case (Inr job)
      obtain a s2 where enq: "perform (ew_io env) (EnqueueRetry job (Some err)) s1 = (a, s2)" by (rule prod.exhaust)
      note c = enrich_stage.retry_commits [OF Inr refl refl enq]
      show ?thesis
        using p err Inr enq c by (auto simp: enrich_handle_def e_enqueueRetry_def split: option.splits prod.splits)
    qed
    then show ?thesis using c1 unfolding commits_only_def
      using e_settled_grows grows_trans by blast
  qed
qed

section \<open>The budget of a day\<close>

definition allowed_on :: "int \<Rightarrow> (int \<times> bool) list \<Rightarrow> int" where
  "allowed_on d res = int (length (filter (\<lambda>(d', ok). d' = d \<and> ok) res))"

lemma allowed_on_simps [simp]:
  "allowed_on d [] = 0" "allowed_on d ((d', ok) # res) = (if d' = d \<and> ok then 1 else 0) + allowed_on d res"
  by (simp_all add: allowed_on_def)

lemma allow_all_days: "map fst (fst (allow_all cs g)) = map gc_day cs"
  by (induction cs arbitrary: g) (simp_all add: split_beta Let_def)

lemma allowed_on_other: "d \<notin> fst ` set res \<Longrightarrow> allowed_on d res = 0"
  by (induction res) force+

lemma checkBacklog_keeps:
  "checkBacklog c g = (r, g1) \<Longrightarrow> cg_daily g1 = cg_daily g \<and> cg_day g1 = cg_day g \<and> cg_count g1 = cg_count g
     \<and> cg_max_backlog g1 = cg_max_backlog g"
  by (auto simp: checkBacklog_def split: if_splits sum.splits)

text \<open>One call: refused with the counts unchanged, or allowed and counted on its day.\<close>

lemma cg_Allow_cases:
  assumes "cg_Allow c g = ((ok, reason), g1)" and "0 < cg_daily g" and "cg_count g \<le> cg_daily g"
  shows "cg_daily g1 = cg_daily g \<and> cg_max_backlog g1 = cg_max_backlog g
    \<and> (if ok then cg_day g1 = gc_day c \<and> cg_count g1 = (if gc_day c = cg_day g then cg_count g + 1 else 1)
                \<and> cg_count g1 \<le> cg_daily g
       else cg_day g1 = cg_day g \<and> cg_count g1 = cg_count g
            \<and> (cg_max_backlog g \<le> 0 \<longrightarrow> gc_day c = cg_day g \<and> cg_count g = cg_daily g))"
proof -
  obtain r g2 where k: "checkBacklog c g = (r, g2)" by (rule prod.exhaust)
  note kk = checkBacklog_keeps [OF k]
  have "cg_max_backlog g \<le> 0 \<Longrightarrow> r = SkipReasonNone" using k by (simp add: checkBacklog_def)
  then show ?thesis
    using assms k kk
    by (cases r) (auto simp: cg_Allow_def consumeDailyBudget_def noteState_def Let_def split: if_splits)
qed

lemma allow_all_budget:
  assumes "0 < cg_daily g" and "0 \<le> cg_count g" and "cg_count g \<le> cg_daily g"
    and "sorted (map gc_day cs)" and "\<forall>c \<in> set cs. cg_day g \<le> gc_day c"
  shows "allowed_on d (fst (allow_all cs g)) \<le> cg_daily g - (if d = cg_day g then cg_count g else 0)
    \<and> (cg_max_backlog g \<le> 0 \<longrightarrow> allowed_on d (fst (allow_all cs g))
         = min (int (length (filter (\<lambda>c. gc_day c = d) cs))) (cg_daily g - (if d = cg_day g then cg_count g else 0)))"
  using assms
proof (induction cs arbitrary: g)
  case Nil
  then show ?case by simp
next
  case (Cons c cs)
  obtain ok reason g1 where a: "cg_Allow c g = ((ok, reason), g1)" by (metis prod.exhaust)
  note k = cg_Allow_cases [OF a Cons.prems(1,3)]
  have run: "fst (allow_all (c # cs) g) = (gc_day c, ok) # fst (allow_all cs g1)"
    using a by (simp split: prod.split)
  have srt: "sorted (map gc_day cs)" "\<forall>x \<in> set cs. gc_day c \<le> gc_day x" "cg_day g \<le> gc_day c"
    using Cons.prems(4,5) by auto
  have days: "\<forall>x \<in> set cs. cg_day g1 \<le> gc_day x"
    using k srt Cons.prems(5) by (cases ok) auto
  have "0 < cg_daily g1" "0 \<le> cg_count g1" "cg_count g1 \<le> cg_daily g1"
    using k Cons.prems(1-3) by (auto split: if_splits)
  note ih = Cons.IH [OF this srt(1) days]
  have none: "allowed_on d (fst (allow_all cs g1)) = 0 \<and> filter (\<lambda>c. gc_day c = d) cs = []" if "d < gc_day c"
  proof
    have "d \<notin> set (map gc_day cs)" using that srt(2) by fastforce
    then have "d \<notin> fst ` set (fst (allow_all cs g1))" using allow_all_days [of cs g1] by (metis list.set_map)
    then show "allowed_on d (fst (allow_all cs g1)) = 0" by (rule allowed_on_other)
    show "filter (\<lambda>c. gc_day c = d) cs = []" using that srt(2) by (fastforce simp: filter_empty_conv)
  qed
  show ?case
    unfolding run using k ih none srt(3) Cons.prems(1-3)
    by (cases ok; cases "d < gc_day c"; cases "d = gc_day c") (auto split: if_splits)
qed

section \<open>A small environment\<close>

definition sample_eref :: content_ref where
  "sample_eref = \<lparr>cr_id = ''1'', cr_url = ''u'', cr_country = ''KR'',
     cr_source = \<lparr>si_country = ''KR'', si_type = ''news'', si_name = ''s'', si_base_url = [], si_language = []\<rparr>\<rparr>"

definition sample_epm :: processing_message where
  "sample_epm = \<lparr>pm_id = ''1'', pm_timestamp = 0, pm_country = ''KR'', pm_stage = ''validated'',
     pm_data = [], pm_metadata = Map.empty, pm_retry_count = 0\<rparr>"

text \<open>Every call succeeds but those of the models.\<close>

definition sample_eenv :: "nat enrich_env" where
  "sample_eenv =
     \<lparr>ew_io = \<lambda>a w. (None, w + 1),
      ew_pub = Some \<lparr>pub_wired = True, pub_resolver = None, pub_marshal = \<lambda>j. Inr []\<rparr>, ew_url = text_lib,
      ew_load = \<lambda>i w. (Inl (Sentinel CtxCanceled), w + 1), ew_extract = \<lambda>i w. (Inl (Opaque []), w + 1),
      ew_verify = \<lambda>i w. (Inl (Opaque []), w + 1), ew_provide = \<lambda>i w. (Inl (Opaque []), w + 1),
      ew_score = \<lambda>i w. (Inl (Opaque []), w + 1), ew_upsert = None, ew_guard = \<lambda>w. ((True, SkipReasonNone), w),
      ew_acquire = \<lambda>u w. (Inr True, w + 1), ew_now = \<lambda>w. 0, ew_ctx_err = \<lambda>w. None,
      ew_has_retry = True, ew_has_gate_skip = True,
      ew_dec_pm = \<lambda>b. Inr sample_epm, ew_dec_ref = \<lambda>b. Inr sample_eref, ew_enc_pm = \<lambda>p. Inr [],
      ew_enc_ref = \<lambda>r. Inr [], ew_enc_facts = \<lambda>f. Inr [], ew_enc_verifications = \<lambda>v. Inr [],
      ew_enc_context = \<lambda>c. Inr [], ew_enc_factors = \<lambda>k. Inr [], ew_attach = \<lambda>f. MOther\<rparr>"

definition sample_emsg :: message where
  "sample_emsg = new_message ''issuetracker.validated'' ''k'' [] [''x-trace-id'' \<mapsto> ''t'']"

lemma sample_enriched:
  "\<exists>w tr. enrich_handle sample_eenv sample_emsg (0, []) = (w, tr) \<and> (Commit sample_emsg, None) \<in> set tr"
  by (simp add: enrich_handle_def enrich_process_def enrich_and_forward_def enrich_message_def runExtraction_def
      publishEnriched_def CommitWithDrain_def Forward_def perform_def perform_val_def ask_def sample_eenv_def
      sample_eref_def sample_epm_def sample_emsg_def Let_def)

section \<open>Properties\<close>

text \<open>C6. At-least-once for the enrich stage: whatever the models, the stores, Kafka, the gate and the schedulers
  answer, the only offset a worker commits is that of its message, and then the message is dead-lettered, or handed to
  the retry scheduler, or published on the enriched topic under its own key, with its own headers and the stage's.\<close>
theorem enrich_commits_only_settled:
  assumes "did (Commit m) (enrich_handle env msg (w, []))"
  shows "m = msg \<and> e_settled env msg (enrich_handle env msg (w, []))"
  using enrich_handle_commits [of msg env "(w, [])"] assms by (auto simp: commits_only_def)

theorem enrich_commits_only_settled_witness:
  "e_settled sample_eenv sample_emsg (enrich_handle sample_eenv sample_emsg (0, []))"
proof -
  have "did (Commit sample_emsg) (enrich_handle sample_eenv sample_emsg (0, []))"
    using sample_enriched by (auto simp: did_def)
  from enrich_commits_only_settled [OF this] show ?thesis by blast
qed

text \<open>C31. The daily budget is a bound, and is spent in full: over any calls whose UTC days do not go back, a new
  guard with a daily limit allows at most that many enrichments on each day; and when no backlog limit is set, it
  allows exactly the first ones, as many as there are calls on that day or the limit.\<close>
theorem daily_budget_bound:
  assumes "0 < daily" and "g = NewCostGuard daily maxBacklog checker interval"
    and "sorted (map gc_day cs)" and "\<forall>c \<in> set cs. 0 < gc_day c"
  shows "allowed_on d (fst (allow_all cs g)) \<le> daily
    \<and> (maxBacklog \<le> 0 \<longrightarrow> allowed_on d (fst (allow_all cs g)) = min (int (length (filter (\<lambda>c. gc_day c = d) cs))) daily)"
  using allow_all_budget [of g cs d] assms by (auto simp: NewCostGuard_def less_imp_le)

theorem daily_budget_bound_witness:
  "let c = \<lparr>gc_now = 0, gc_day = 20260101, gc_backlog = Inr 0\<rparr>
   in allowed_on 20260101 (fst (allow_all [c, c, c] (NewCostGuard 2 0 False 0))) = 2"
proof -
  define c where "c = \<lparr>gc_now = 0, gc_day = 20260101, gc_backlog = Inr 0\<rparr>"
  have "sorted (map gc_day [c, c, c])" "\<forall>x \<in> set [c, c, c]. 0 < gc_day x" by (simp_all add: c_def)
  from daily_budget_bound [where daily = 2 and maxBacklog = 0 and checker = False and interval = 0 and d = 20260101, OF _ refl this]
  have "allowed_on 20260101 (fst (allow_all [c, c, c] (NewCostGuard 2 0 False 0)))
      = min (int (length (filter (\<lambda>c. gc_day c = 20260101) [c, c, c]))) 2"
    by (simp del: allow_all.simps)
  also have "\<dots> = 2" by (simp add: c_def)
  finally show ?thesis unfolding c_def Let_def .
qed

text \<open>C10. Enrichment never holds a message back: when the message decodes, the gate is acquired, Kafka accepts
  and the codec works, the message is published on the enriched topic and committed, whatever the content store, the
  cost guard and the four models answer, and however many of them fail.\<close>
theorem enrich_never_blocks:
  assumes "ew_dec_pm env (m_value msg) = Inr pm" and "ew_dec_ref env (pm_data pm) = Inr ref"
    and "\<forall>w. fst (ew_acquire env (cr_url ref) w) = Inr True"
    and "\<forall>a w. fst (ew_io env a w) = None" and "\<exists>p. ew_pub env = Some p \<and> pub_wired p"
    and "\<forall>r. \<exists>b. ew_enc_ref env r = Inr b" and "\<forall>p. \<exists>b. ew_enc_pm env p = Inr b"
  shows "enriched_out msg ref (enrich_handle env msg s) \<and> did (Commit msg) (enrich_handle env msg s)"
proof -
  have io: "\<exists>s'. perform (ew_io env) a s = (None, s')" for a and s :: "(act, 'a) sys"
    using assms(4) perform_eq [of "ew_io env" a s] by simp
  have pub: "\<exists>s'. publishEnriched env ref p msg s = (None, s')" for p and s :: "(act, 'a) sys"
  proof -
    obtain b where b: "ew_enc_ref env ref = Inr b" using assms(6) by blast
    obtain b2 where b2: "ew_enc_pm env \<lparr>pm_id = pm_id p, pm_timestamp = ew_now env (fst s), pm_country = cr_country ref,
        pm_stage = ''enriched'', pm_data = b, pm_metadata = pm_metadata p, pm_retry_count = 0\<rparr> = Inr b2"
      using assms(7) by blast
    from assms(5) obtain q where "ew_pub env = Some q" "pub_wired q" by blast
    then show ?thesis using b b2 io by (simp add: publishEnriched_def Forward_def)
  qed
  obtain s1 where g: "perform_val (ew_acquire env (cr_url ref)) (GateAcquire (cr_url ref)) s = (Inr True, s1)"
    using perform_val_eq [of "ew_acquire env (cr_url ref)" "GateAcquire (cr_url ref)" s] assms(3) by auto
  obtain v s2 where a: "ask (ew_guard env) s1 = (v, s2)" by (rule prod.exhaust)
  obtain allowed reason where v: "v = (allowed, reason)" by (rule prod.exhaust)
  obtain pm' s3 where e: "(if allowed then enrich_message env ref pm s2 else (pm, s2)) = (pm', s3)" by (rule prod.exhaust)
  obtain s4 where p: "publishEnriched env ref pm' msg s3 = (None, s4)" using pub by blast
  obtain s5 where c: "CommitWithDrain (ew_io env) msg s4 = (None, s5)"
    using io [of "Commit msg" s4] by (auto simp: CommitWithDrain_def)
  have f: "enrich_and_forward env msg pm ref s1 = (None, s5)"
    using a v e p c by (simp add: enrich_and_forward_def)
  obtain s6 where r: "perform (ew_io env) (GateRelease (cr_url ref)) s5 = (None, s6)" using io by blast
  have run: "enrich_handle env msg s = s6"
    using assms(1,2) g f r by (simp add: enrich_handle_def enrich_process_def)
  have "grows s4 s6" using CommitWithDrain_grows [OF c] perform_grows(1) [OF r] by (rule grows_trans)
  moreover have "enriched_out msg ref s4" using publishEnriched_quiet [OF p] by blast
  ultimately have "enriched_out msg ref s6" unfolding enriched_out_def grows_def did_def by blast
  moreover have "did (Commit msg) s6"
    using CommitWithDrain_dids [OF c] perform_grows(1) [OF r] grows_did by blast
  ultimately show ?thesis unfolding run by blast
qed

theorem enrich_never_blocks_witness:
  "enriched_out sample_emsg sample_eref (enrich_handle sample_eenv sample_emsg (0, []))"
proof -
  have d: "ew_dec_pm sample_eenv (m_value sample_emsg) = Inr sample_epm"
    "ew_dec_ref sample_eenv (pm_data sample_epm) = Inr sample_eref"
    "\<forall>w. fst (ew_acquire sample_eenv (cr_url sample_eref) w) = Inr True"
    "\<forall>a w. fst (ew_io sample_eenv a w) = None" "\<exists>p. ew_pub sample_eenv = Some p \<and> pub_wired p"
    "\<forall>r. \<exists>b. ew_enc_ref sample_eenv r = Inr b" "\<forall>p. \<exists>b. ew_enc_pm sample_eenv p = Inr b"
    by (simp_all add: sample_eenv_def)
  from enrich_never_blocks [OF d] show ?thesis by blast
qed

text \<open>A defect: a shutdown drops the enrichment for good. When the context is canceled while the content is
  loaded or extracted, the message is treated like one whose model failed: it is published without facts under the
  drain context and committed, so that no later delivery enriches it.\<close>
theorem canceled_enrichment_is_final:
  assumes "ask (ew_guard env) s = ((True, SkipReasonNone), s1)"
    and "runExtraction env ref s1 = ((co, None), s2)"
    and "publishEnriched env ref pm msg s2 = (Some err, s3)" and "is_canceled err"
    and "publishEnriched env ref pm msg s3 = (None, s4)"
  shows "enrich_and_forward env msg pm ref s = CommitWithDrain (ew_io env) msg s4"
  using assms by (simp add: enrich_and_forward_def enrich_message_def)

end
