(* ===== verification/PathInfer.thy ===== *)
theory PathInfer
  imports Prompt RuleLookup
begin

text \<open>
  Path patterns inferred from the addresses a rule has parsed (\<^verbatim>\<open>internal/processor/parser/rule/pathinfer\<close>):
  the heuristic over the segments (\<^verbatim>\<open>pathinfer.go\<close>), the model's answer and its checks (\<^verbatim>\<open>llm.go\<close>) and the
  check that a pattern is not too broad (\<^verbatim>\<open>broadness.go\<close>). Regular expressions are compiled by \<open>regex_lib\<close>;
  what the heuristic's own five classes accept is written out. Lemmas: joining and splitting segments, what an
  inferred pattern matches, that it always passes the self check and the check of breadth.
\<close>

section \<open>Segments\<close>

fun split_at :: "char \<Rightarrow> string \<Rightarrow> string \<Rightarrow> string list" where
  "split_at c acc [] = [rev acc]"
| "split_at c acc (x # s) = (if x = c then rev acc # split_at c [] s else split_at c (x # acc) s)"

fun join_at :: "string \<Rightarrow> string list \<Rightarrow> string" where
  "join_at sep [] = []"
| "join_at sep [s] = s"
| "join_at sep (s # t # ts) = s @ sep @ join_at sep (t # ts)"

definition trim_slashes :: "string \<Rightarrow> string" where
  "trim_slashes s = rev (dropWhile (\<lambda>c. c = CHR ''/'') (rev (dropWhile (\<lambda>c. c = CHR ''/'') s)))"

definition splitSegments :: "string \<Rightarrow> string list" where
  "splitSegments path =
     (let p = trim_slashes path in if p = [] then [] else split_at (CHR ''/'') [] p)"

definition rooted :: "string \<Rightarrow> string" where
  "rooted p = ''/'' @ trim_slashes p"

definition joined :: "string list \<Rightarrow> string" where
  "joined segs = ''/'' @ join_at ''/'' segs"

section \<open>The heuristic\<close>

definition DefaultPathMinSamples :: int where "DefaultPathMinSamples = 3"

definition path_min_samples :: "int \<Rightarrow> int" where
  "path_min_samples n = (if n > 0 then n else DefaultPathMinSamples)"

definition hex_char :: "char \<Rightarrow> bool" where
  "hex_char c \<longleftrightarrow> ascii_digit c \<or> c \<in> set ''abcdef''"

definition slug_char :: "char \<Rightarrow> bool" where
  "slug_char c \<longleftrightarrow> ascii_digit c \<or> c = CHR ''-'' \<or> (97 \<le> (of_char c :: nat) \<and> (of_char c :: nat) \<le> 122)"

definition match_numeric :: "string \<Rightarrow> bool" where
  "match_numeric s \<longleftrightarrow> s \<noteq> [] \<and> list_all ascii_digit s"

definition hex_run :: "nat \<Rightarrow> string \<Rightarrow> bool" where
  "hex_run n s \<longleftrightarrow> length s = n \<and> list_all hex_char s"

definition match_uuid :: "string \<Rightarrow> bool" where
  "match_uuid s \<longleftrightarrow> list_all2 hex_run [8, 4, 4, 4, 12] (split_at (CHR ''-'') [] s)"

definition match_year :: "string \<Rightarrow> bool" where
  "match_year s \<longleftrightarrow> length s = 4 \<and> (take 2 s = ''19'' \<or> take 2 s = ''20'') \<and> list_all ascii_digit s"

definition match_month :: "string \<Rightarrow> bool" where
  "match_month s \<longleftrightarrow> (case s of [a, b] \<Rightarrow> (a = CHR ''0'' \<and> b \<in> set ''123456789'') \<or> (a = CHR ''1'' \<and> b \<in> set ''012'')
                      | _ \<Rightarrow> False)"

definition match_slug_chars :: "string \<Rightarrow> bool" where
  "match_slug_chars s \<longleftrightarrow> s \<noteq> [] \<and> list_all slug_char s"

datatype path_part = LiteralPart string | UuidPart | YearPart | MonthPart | NumericPart | SlugPart

definition allEqual :: "string list \<Rightarrow> bool" where
  "allEqual values \<longleftrightarrow> (case values of [] \<Rightarrow> True | v # vs \<Rightarrow> list_all (\<lambda>x. x = v) vs)"

definition allSlug :: "string list \<Rightarrow> bool" where
  "allSlug values \<longleftrightarrow> list_all (\<lambda>v. match_slug_chars v \<and> \<not> length v < 4 \<and> CHR ''-'' \<in> set v) values"

definition inferVariablePattern :: "string list \<Rightarrow> path_part option" where
  "inferVariablePattern values =
     (if list_all match_uuid values then Some UuidPart
      else if list_all match_year values then Some YearPart
      else if list_all match_month values then Some MonthPart
      else if list_all match_numeric values then Some NumericPart
      else if allSlug values then Some SlugPart
      else None)"

text \<open>\<^verbatim>\<open>regexp.QuoteMeta\<close>.\<close>

definition meta_chars :: "char set" where
  "meta_chars = set (CHR 0x5C # ''.+*?()|[]{}^$'')"

definition quote_meta :: "string \<Rightarrow> string" where
  "quote_meta s = concat (map (\<lambda>c. if c \<in> meta_chars then [CHR 0x5C, c] else [c]) s)"

definition hex_text :: "string \<Rightarrow> string" where "hex_text n = ''[0-9a-f]{'' @ n @ ''}''"

definition digit_class :: string where "digit_class = [CHR 0x5C, CHR ''d'']"

fun part_text :: "path_part \<Rightarrow> string" where
  "part_text (LiteralPart v) = quote_meta v"
| "part_text UuidPart = ''('' @ hex_text ''8'' @ ''-'' @ hex_text ''4'' @ ''-'' @ hex_text ''4'' @ ''-'' @ hex_text ''4'' @ ''-''
     @ hex_text ''12'' @ '')''"
| "part_text YearPart = ''((19|20)'' @ digit_class @ ''{2})''"
| "part_text MonthPart = ''(0[1-9]|1[0-2])''"
| "part_text NumericPart = ''('' @ digit_class @ ''+)''"
| "part_text SlugPart = ''([a-z0-9-]+)''"

definition pattern_text :: "path_part list \<Rightarrow> string" where
  "pattern_text parts = ''^/'' @ join_at ''/'' (map part_text parts) @ ''$''"

definition segment_part :: "string list list \<Rightarrow> nat \<Rightarrow> path_part option" where
  "segment_part segs idx =
     (let values = map (\<lambda>s. s ! idx) segs
      in if allEqual values then Some (LiteralPart (hd values)) else inferVariablePattern values)"

fun collect_parts :: "string list list \<Rightarrow> nat list \<Rightarrow> path_part list option" where
  "collect_parts segs [] = Some []"
| "collect_parts segs (i # is) =
     (case segment_part segs i of
        None \<Rightarrow> None
      | Some p \<Rightarrow> (case collect_parts segs is of None \<Rightarrow> None | Some ps \<Rightarrow> Some (p # ps)))"

definition InferHeuristic :: "regex_lib \<Rightarrow> int \<Rightarrow> string list \<Rightarrow> string option" where
  "InferHeuristic re n articles =
     (if int (length articles) < path_min_samples n then None
      else (let segs = map splitSegments articles; expected = length (hd segs)
            in if list_ex (\<lambda>s. length s \<noteq> expected) segs then None
               else (case collect_parts segs [0..<expected] of
                       None \<Rightarrow> None
                     | Some parts \<Rightarrow>
                        (case re (pattern_text parts) of
                           Inl _ \<Rightarrow> None
                         | Inr m \<Rightarrow> if list_all (\<lambda>p. m (rooted p)) articles then Some (pattern_text parts) else None))))"

section \<open>Breadth\<close>

definition broadness_enabled :: "(string \<Rightarrow> string) \<Rightarrow> (string \<Rightarrow> string) \<Rightarrow> string \<Rightarrow> bool" where
  "broadness_enabled lower trim v =
     (let x = lower (trim v) in \<not> (x = ''false'' \<or> x = ''0'' \<or> x = ''no''))"

definition same_length :: "string list list \<Rightarrow> bool" where
  "same_length ps \<longleftrightarrow> (case ps of [] \<Rightarrow> True | p # qs \<Rightarrow> list_all (\<lambda>q. length q = length p) qs)"

definition validateSegmentCount :: "(string \<Rightarrow> bool) \<Rightarrow> string list list \<Rightarrow> bool" where
  "validateSegmentCount m positives =
     (if positives = [] then True
      else if \<not> same_length positives then True
      else (let base = hd positives; k = length base
            in if k = 0 then True
               else if m (''/broadnesstoken/'' @ join_at ''/'' base) then False
               else if m (joined base @ ''/broadnesstoken'') then False
               else if k \<ge> 2 then \<not> m (joined (tl base)) \<and> \<not> m (joined (butlast base))
               else True))"

definition broad_tokens :: "string list" where
  "broad_tokens = [''broadnesstoken'', ''ZZZZZZZZZ'', ''different-host'']"

definition constant_at :: "string list list \<Rightarrow> nat \<Rightarrow> bool" where
  "constant_at positives i \<longleftrightarrow> list_all (\<lambda>p. p ! i = hd positives ! i) (tl positives)"

definition validateLiteralSegments :: "(string \<Rightarrow> bool) \<Rightarrow> string list list \<Rightarrow> bool" where
  "validateLiteralSegments m positives =
     (if length positives < 2 then True
      else if \<not> same_length positives then True
      else (let base = hd positives; k = length base
            in list_all (\<lambda>i. list_all (\<lambda>tok. tok = base ! i \<or> \<not> m (joined (base[i := tok]))) broad_tokens)
                 (filter (constant_at positives) [0..<k])))"

definition validateBroadness :: "(string \<Rightarrow> bool) \<Rightarrow> string list \<Rightarrow> bool" where
  "validateBroadness m articles =
     (if articles = [] then True
      else (let positives = map splitSegments articles
            in validateSegmentCount m positives \<and> validateLiteralSegments m positives))"

section \<open>The model's answer\<close>

record path_env =
  pe_regex :: regex_lib
  pe_trim :: "string \<Rightarrow> string"
  pe_broadness :: bool

definition pathinfer_system :: string where "pathinfer_system = ''parser/pathinfer/system''"
definition pathinfer_user :: string where "pathinfer_user = ''parser/pathinfer/user''"

definition pathinfer_contracts :: "contract list" where
  "pathinfer_contracts =
     [\<lparr>ct_name = pathinfer_system, ct_placeholders = []\<rparr>,
      \<lparr>ct_name = pathinfer_user, ct_placeholders = [''{{ARTICLES}}'', ''{{NON_ARTICLES}}'']\<rparr>]"

definition joinOrNone :: "string list \<Rightarrow> string" where
  "joinOrNone items =
     (if items = [] then ''(none)'' else join_at [CHR 0x0A] (map (\<lambda>s. ''- '' @ s) items))"

definition buildUserPrompt :: "string list \<Rightarrow> string list \<Rightarrow> loader \<Rightarrow> go_error + string" where
  "buildUserPrompt articles others load =
     (case load pathinfer_user of
        Inl err \<Rightarrow> Inl (Wrapped ''load pathinfer user prompt'' err)
      | Inr t \<Rightarrow> Inr (Render t [(''{{ARTICLES}}'', joinOrNone articles), (''{{NON_ARTICLES}}'', joinOrNone others)]))"

definition fence_mark :: string where "fence_mark = ''```''"

definition starts_with :: "string \<Rightarrow> string \<Rightarrow> bool" where
  "starts_with p s \<longleftrightarrow> take (length p) s = p"

definition ends_with :: "string \<Rightarrow> string \<Rightarrow> bool" where
  "ends_with p s \<longleftrightarrow> length p \<le> length s \<and> drop (length s - length p) s = p"

text \<open>The loop over the lines while fences are looked for; \<open>None\<close> when it finds no pattern.\<close>

fun fence_scan :: "(string \<Rightarrow> string) \<Rightarrow> bool \<Rightarrow> string list \<Rightarrow> string option" where
  "fence_scan trim in_fence [] = None"
| "fence_scan trim in_fence (raw # rest) =
     (let line = trim raw
      in if starts_with fence_mark line then
           (let inner = trim (take (length line - 6) (drop 3 line))
            in if ends_with fence_mark line \<and> length line > 6 \<and> inner \<noteq> [] then Some inner
               else fence_scan trim (\<not> in_fence) rest)
         else if in_fence \<and> line \<noteq> [] then Some line
         else fence_scan trim in_fence rest)"

fun first_line :: "(string \<Rightarrow> string) \<Rightarrow> string list \<Rightarrow> string" where
  "first_line trim [] = []"
| "first_line trim (raw # rest) = (if trim raw \<noteq> [] then trim raw else first_line trim rest)"

fun has_infix :: "string \<Rightarrow> string \<Rightarrow> bool" where
  "has_infix p [] \<longleftrightarrow> p = []"
| "has_infix p (c # s) \<longleftrightarrow> starts_with p (c # s) \<or> has_infix p s"

definition extractPattern :: "(string \<Rightarrow> string) \<Rightarrow> string \<Rightarrow> string" where
  "extractPattern trim resp0 =
     (let resp = trim resp0; ls = split_at (CHR 0x0A) [] resp
      in if resp = [] then []
         else (case (if has_infix fence_mark resp then fence_scan trim False ls else None) of
                 Some p \<Rightarrow> p
               | None \<Rightarrow> first_line trim ls))"

definition triviallyBroadPatterns :: "string list" where
  "triviallyBroadPatterns =
     ['''', ''.*'', ''.+'', ''/.*'', ''/.+'', ''^.*$'', ''^.+$'', ''^/$'', ''^/.*$'', ''^/.+$'', ''^/(.*)$'', ''^/(.+)$'']"

definition isTriviallyBroad :: "(string \<Rightarrow> string) \<Rightarrow> string \<Rightarrow> bool" where
  "isTriviallyBroad trim p \<longleftrightarrow> trim p \<in> set triviallyBroadPatterns"

definition validateLLMResult :: "path_env \<Rightarrow> string \<Rightarrow> string list \<Rightarrow> string list \<Rightarrow> bool" where
  "validateLLMResult E pat articles others =
     (if isTriviallyBroad (pe_trim E) pat then False
      else (case pe_regex E pat of
              Inl _ \<Rightarrow> False
            | Inr m \<Rightarrow>
                list_all (\<lambda>p. m (rooted p)) articles
                \<and> list_all (\<lambda>p. \<not> m (rooted p)) others
                \<and> \<not> (pe_broadness E \<and> \<not> validateBroadness m articles)))"

text \<open>
  \<open>generate\<close> sends a system and a user text to the model and \<open>load\<close> is the prompt loader, \<open>None\<close> when they are
  nil. The result is the pattern, if one was accepted.
\<close>

definition InferLLM ::
  "path_env \<Rightarrow> int \<Rightarrow> string list \<Rightarrow> string list \<Rightarrow> (string \<Rightarrow> string \<Rightarrow> 's \<Rightarrow> (go_error + string) \<times> 's) option
     \<Rightarrow> loader option \<Rightarrow> 's \<Rightarrow> (go_error + string option) \<times> 's" where
  "InferLLM E n articles others generate load s =
     (if int (length articles) < path_min_samples n then (Inr None, s)
      else (case generate of
              None \<Rightarrow> (Inl (Opaque ''InferLLM: nil LLMClient''), s)
            | Some gen \<Rightarrow>
         (case load of
            None \<Rightarrow> (Inl (Opaque ''InferLLM: nil prompt loader''), s)
          | Some ld \<Rightarrow>
         (case ld pathinfer_system of
            Inl err \<Rightarrow> (Inl (Wrapped ''load pathinfer system prompt'' err), s)
          | Inr system \<Rightarrow>
         (case buildUserPrompt articles others ld of
            Inl err \<Rightarrow> (Inl err, s)
          | Inr user \<Rightarrow>
         (case gen system user s of
            (Inl err, s1) \<Rightarrow> (Inl (Wrapped ''llm generate'' err), s1)
          | (Inr resp, s1) \<Rightarrow>
              (let pat = extractPattern (pe_trim E) resp
               in if pat = [] then (Inr None, s1)
                  else if validateLLMResult E pat articles others then (Inr (Some pat), s1)
                  else (Inr None, s1))))))))"

section \<open>Joining and splitting\<close>

definition slash_free :: "string list \<Rightarrow> bool" where
  "slash_free segs \<longleftrightarrow> (\<forall>s \<in> set segs. CHR ''/'' \<notin> set s)"

lemma split_at_piece: "c \<notin> set x \<Longrightarrow> split_at c acc (x @ s) = split_at c (rev x @ acc) s"
  by (induction x arbitrary: acc) auto

lemma split_at_acc: "split_at c acc s = (rev acc @ hd (split_at c [] s)) # tl (split_at c [] s)"
proof (induction s arbitrary: acc)
  case (Cons x s)
  show ?case using Cons [of "x # acc"] Cons [of "[x]"] by simp
qed simp

lemma split_at_nonempty [simp]: "split_at c acc s \<noteq> []"
  using split_at_acc [of c acc s] by simp

lemma join_split: "join_at [c] (split_at c acc s) = rev acc @ s"
proof (induction c acc s rule: split_at.induct)
  case (2 c acc x s)
  show ?case
  proof (cases "x = c")
    case True
    obtain h t where "split_at c [] s = h # t" by (metis split_at_nonempty list.exhaust)
    then show ?thesis using 2 True by simp
  qed (use 2 in simp)
qed simp

lemma split_join:
  assumes "segs \<noteq> []" and "\<forall>s \<in> set segs. c \<notin> set s"
  shows "split_at c [] (join_at [c] segs) = segs"
  using assms
proof (induction segs)
  case (Cons s ts)
  have one: "split_at c [] (s @ r) = split_at c (rev s) r" for r using split_at_piece [of c s "[]" r] Cons.prems by simp
  show ?case
  proof (cases ts)
    case Nil
    then show ?thesis using one [of "[]"] by simp
  next
    case (Cons t us)
    then show ?thesis using one [of "c # join_at [c] ts"] Cons.IH Cons.prems by simp
  qed
qed simp

lemma split_at_free: "c \<notin> set acc \<Longrightarrow> x \<in> set (split_at c acc s) \<Longrightarrow> c \<notin> set x"
  by (induction c acc s rule: split_at.induct) (auto split: if_splits)

lemma split_at_chars: "x \<in> set (split_at c acc s) \<Longrightarrow> set x \<subseteq> set acc \<union> set s"
  by (induction c acc s rule: split_at.induct) (auto split: if_splits)

lemma trim_slashes_chars: "set (trim_slashes s) \<subseteq> set s"
proof -
  have "set (dropWhile P xs) \<subseteq> set xs" for P and xs :: string by (auto dest: set_dropWhileD)
  then show ?thesis unfolding trim_slashes_def by (metis set_rev subset_trans)
qed

lemma splitSegments_free: "slash_free (splitSegments p)"
  using split_at_free [of "CHR ''/''" "[]"] by (auto simp: slash_free_def splitSegments_def Let_def)

lemma splitSegments_chars: "x \<in> set (splitSegments p) \<Longrightarrow> set x \<subseteq> set p"
  using split_at_chars [of x "CHR ''/''" "[]" "trim_slashes p"] trim_slashes_chars [of p]
  by (auto simp: splitSegments_def Let_def split: if_splits)

lemma rooted_joined: "rooted p = joined (splitSegments p)"
  using join_split [of "CHR ''/''" "[]" "trim_slashes p"] by (simp add: rooted_def joined_def splitSegments_def Let_def)

lemma split_joined: "segs \<noteq> [] \<Longrightarrow> slash_free segs \<Longrightarrow> split_at (CHR ''/'') [] (join_at ''/'' segs) = segs"
  by (rule split_join) (auto simp: slash_free_def)

section \<open>What an inferred pattern matches\<close>

fun part_accepts :: "path_part \<Rightarrow> string \<Rightarrow> bool" where
  "part_accepts (LiteralPart v) s \<longleftrightarrow> s = v"
| "part_accepts UuidPart s \<longleftrightarrow> match_uuid s"
| "part_accepts YearPart s \<longleftrightarrow> match_year s"
| "part_accepts MonthPart s \<longleftrightarrow> match_month s"
| "part_accepts NumericPart s \<longleftrightarrow> match_numeric s"
| "part_accepts SlugPart s \<longleftrightarrow> match_slug_chars s"

definition parts_match :: "path_part list \<Rightarrow> string \<Rightarrow> bool" where
  "parts_match parts s \<longleftrightarrow>
     (if parts = [] then s = ''/''
      else (case s of [] \<Rightarrow> False | c # r \<Rightarrow> c = CHR ''/'' \<and> list_all2 part_accepts parts (split_at (CHR ''/'') [] r)))"

text \<open>
  What \<^verbatim>\<open>regexp\<close> promises for the patterns the heuristic writes: an anchored sequence of ASCII literals and
  of its classes, none of which contains a slash, matches segment by segment.
\<close>

definition ascii_text :: "string \<Rightarrow> bool" where
  "ascii_text s \<longleftrightarrow> list_all (\<lambda>c. (of_char c :: nat) < 128) s"

fun ascii_part :: "path_part \<Rightarrow> bool" where
  "ascii_part (LiteralPart v) \<longleftrightarrow> ascii_text v \<and> CHR ''/'' \<notin> set v"
| "ascii_part _ \<longleftrightarrow> True"

definition knows_parts :: "regex_lib \<Rightarrow> bool" where
  "knows_parts re \<longleftrightarrow> (\<forall>parts. list_all ascii_part parts \<longrightarrow> re (pattern_text parts) = Inr (parts_match parts))"

lemma parts_match_joined:
  assumes "parts \<noteq> []" "segs \<noteq> []" "slash_free segs"
  shows "parts_match parts (joined segs) \<longleftrightarrow> list_all2 part_accepts parts segs"
  using split_joined [OF assms(2,3)] assms(1) by (simp add: parts_match_def joined_def)

lemma inferVariablePattern_accepts:
  assumes "inferVariablePattern values = Some p" and "v \<in> set values"
  shows "part_accepts p v"
  using assms by (auto simp: inferVariablePattern_def list_all_iff allSlug_def split: if_splits)

lemma segment_part_accepts:
  assumes "segment_part segs i = Some p" and "s \<in> set segs"
  shows "part_accepts p (s ! i)"
proof (cases "allEqual (map (\<lambda>s. s ! i) segs)")
  case True
  then have "p = LiteralPart (hd (map (\<lambda>s. s ! i) segs))" using assms(1) by (simp add: segment_part_def Let_def)
  then show ?thesis using True assms(2) by (cases segs) (auto simp: allEqual_def list_all_iff)
next
  case False
  then show ?thesis
    using assms inferVariablePattern_accepts [of "map (\<lambda>s. s ! i) segs" p "s ! i"]
    by (simp add: segment_part_def Let_def)
qed

lemma collect_parts_all2: "collect_parts segs is = Some ps \<Longrightarrow> list_all2 (\<lambda>i p. segment_part segs i = Some p) is ps"
  by (induction "is" arbitrary: ps) (auto split: option.splits)

lemma collect_parts_some:
  "collect_parts segs is = Some ps \<Longrightarrow> length ps = length is \<and> (\<forall>j < length is. segment_part segs (is ! j) = Some (ps ! j))"
  by (drule collect_parts_all2) (auto simp: list_all2_conv_all_nth)

lemma collect_parts_accept:
  assumes "collect_parts segs [0..<k] = Some parts" and "s \<in> set segs" and "length s = k"
  shows "list_all2 part_accepts parts s"
  using collect_parts_some [OF assms(1)] segment_part_accepts [of segs _ _ s] assms(2,3) by (auto simp: list_all2_conv_all_nth)

lemma collect_parts_ascii:
  assumes c: "collect_parts (map splitSegments articles) [0..<k] = Some parts" and "list_all ascii_text articles"
    and "articles \<noteq> []" and "\<forall>a \<in> set articles. length (splitSegments a) = k"
  shows "list_all ascii_part parts"
proof -
  have "ascii_part (parts ! i)" if "i < k" for i
  proof (cases "parts ! i")
    case (LiteralPart v)
    have sp: "segment_part (map splitSegments articles) i = Some (LiteralPart v)"
      using collect_parts_some [OF c] that LiteralPart by auto
    obtain a as' where a: "articles = a # as'" using assms(3) by (cases articles) auto
    have "part_accepts (LiteralPart v) (splitSegments a ! i)"
      by (rule segment_part_accepts [OF sp]) (simp add: a)
    then have v: "v \<in> set (splitSegments a)" using that assms(4) a by auto
    have "set v \<subseteq> set a" "CHR ''/'' \<notin> set v"
      using splitSegments_chars [OF v] splitSegments_free [of a] v by (auto simp: slash_free_def)
    then show ?thesis using assms(2) a LiteralPart by (auto simp: ascii_text_def list_all_iff)
  qed simp_all
  then show ?thesis using collect_parts_some [OF c] by (auto simp: list_all_length)
qed

lemma heuristic_matches_samples:
  assumes k: "knows_parts re" and c: "collect_parts (map splitSegments articles) [0..<length (splitSegments (hd articles))] = Some parts"
    and asc: "list_all ascii_text articles" and ne: "articles \<noteq> []"
    and same: "\<forall>a \<in> set articles. length (splitSegments a) = length (splitSegments (hd articles))"
  shows "re (pattern_text parts) = Inr (parts_match parts) \<and> (\<forall>a \<in> set articles. parts_match parts (rooted a))"
proof -
  have re: "re (pattern_text parts) = Inr (parts_match parts)"
    using k collect_parts_ascii [OF c asc ne same] by (simp add: knows_parts_def)
  have "parts_match parts (rooted a)" if a: "a \<in> set articles" for a
  proof (cases "splitSegments a = []")
    case True
    then have "parts = []" using collect_parts_some [OF c] same a by force
    then show ?thesis using True by (simp add: parts_match_def rooted_joined joined_def)
  next
    case False
    moreover have "list_all2 part_accepts parts (splitSegments a)"
      by (rule collect_parts_accept [OF c]) (use a same in auto)
    moreover from this have "parts \<noteq> []" using False by auto
    ultimately show ?thesis using splitSegments_free [of a] by (simp add: rooted_joined parts_match_joined)
  qed
  then show ?thesis using re by simp
qed

lemma heuristic_samples:
  assumes "InferHeuristic re n articles = Some pat"
  shows "articles \<noteq> []" "\<forall>a \<in> set articles. length (splitSegments a) = length (splitSegments (hd articles))"
    "\<exists>parts. collect_parts (map splitSegments articles) [0..<length (splitSegments (hd articles))] = Some parts \<and> pat = pattern_text parts"
proof -
  have n: "0 < path_min_samples n" by (simp add: path_min_samples_def DefaultPathMinSamples_def)
  then show ne: "articles \<noteq> []" using assms by (auto simp: InferHeuristic_def)
  then have h: "hd (map splitSegments articles) = splitSegments (hd articles)" by (cases articles) auto
  show "\<forall>a \<in> set articles. length (splitSegments a) = length (splitSegments (hd articles))"
    using assms h by (auto simp: InferHeuristic_def Let_def list_ex_iff split: if_splits)
  show "\<exists>parts. collect_parts (map splitSegments articles) [0..<length (splitSegments (hd articles))] = Some parts \<and> pat = pattern_text parts"
    using assms h by (auto simp: InferHeuristic_def Let_def split: if_splits option.splits sum.splits)
qed

text \<open>For ASCII paths the heuristic infers a pattern exactly when there are enough samples, all with the same
  number of segments, and every position is constant or fits one of the five classes; its check of the pattern
  against the samples never rejects one.\<close>

theorem heuristic_complete:
  assumes "knows_parts re" and "list_all ascii_text articles"
  shows "InferHeuristic re n articles =
    (if int (length articles) < path_min_samples n then None
     else if \<exists>a \<in> set articles. length (splitSegments a) \<noteq> length (splitSegments (hd articles)) then None
     else map_option pattern_text
            (collect_parts (map splitSegments articles) [0..<length (splitSegments (hd articles))]))"
proof (cases "int (length articles) < path_min_samples n \<or> (\<exists>a \<in> set articles. length (splitSegments a) \<noteq> length (splitSegments (hd articles)))")
  case True
  then show ?thesis by (cases articles) (auto simp: InferHeuristic_def Let_def list_ex_iff)
next
  case False
  have n: "0 < path_min_samples n" by (simp add: path_min_samples_def DefaultPathMinSamples_def)
  then have ne: "articles \<noteq> []" using False by auto
  then have h: "hd (map splitSegments articles) = splitSegments (hd articles)" by (cases articles) auto
  have same: "\<forall>a \<in> set articles. length (splitSegments a) = length (splitSegments (hd articles))" using False by blast
  then have nex: "\<not> list_ex (\<lambda>s. length s \<noteq> length (splitSegments (hd articles))) (map splitSegments articles)"
    by (auto simp: list_ex_iff)
  show ?thesis
  proof (cases "collect_parts (map splitSegments articles) [0..<length (splitSegments (hd articles))]")
    case None
    then show ?thesis using False h nex by (simp add: InferHeuristic_def Let_def)
  next
    case (Some parts)
    from heuristic_matches_samples [OF assms(1) Some assms(2) ne same] show ?thesis
      using False h nex Some by (auto simp: InferHeuristic_def Let_def list_all_iff)
  qed
qed

text \<open>An inferred pattern matches exactly the paths with as many segments as the samples, each of which is
  the samples' common segment where they have one and otherwise of the class inferred for its position.\<close>

theorem heuristic_exact:
  assumes re: "knows_parts re" and asc: "list_all ascii_text articles"
    and inf: "InferHeuristic re n articles = Some pat" and segs: "splitSegments (hd articles) \<noteq> []"
  shows "\<exists>m parts. re pat = Inr m \<and> (\<forall>a \<in> set articles. m (rooted a)) \<and> length parts = length (splitSegments (hd articles))
    \<and> (\<forall>q. q \<noteq> [] \<and> slash_free q \<longrightarrow> (m (joined q) \<longleftrightarrow> length q = length parts
          \<and> (\<forall>i < length q. (if allEqual (map (\<lambda>a. splitSegments a ! i) articles) then q ! i = splitSegments (hd articles) ! i
                             else inferVariablePattern (map (\<lambda>a. splitSegments a ! i) articles) = Some (parts ! i)
                                  \<and> part_accepts (parts ! i) (q ! i)))))"
proof -
  obtain parts where c: "collect_parts (map splitSegments articles) [0..<length (splitSegments (hd articles))] = Some parts"
    and pat: "pat = pattern_text parts" using heuristic_samples(3) [OF inf] by blast
  note ne = heuristic_samples(1) [OF inf] and m = heuristic_matches_samples [OF re c asc heuristic_samples(1,2) [OF inf]]
  have len: "length parts = length (splitSegments (hd articles))"
    and at: "\<And>i. i < length parts \<Longrightarrow> segment_part (map splitSegments articles) i = Some (parts ! i)"
    using collect_parts_some [OF c] by auto
  have one: "part_accepts (parts ! i) x \<longleftrightarrow>
      (if allEqual (map (\<lambda>a. splitSegments a ! i) articles) then x = splitSegments (hd articles) ! i
       else inferVariablePattern (map (\<lambda>a. splitSegments a ! i) articles) = Some (parts ! i) \<and> part_accepts (parts ! i) x)"
    if "i < length parts" for i x
  proof (cases "allEqual (map (\<lambda>a. splitSegments a ! i) articles)")
    case True
    have "parts ! i = LiteralPart (hd (map (\<lambda>a. splitSegments a ! i) articles))"
      using at [OF that] True by (simp add: segment_part_def Let_def comp_def)
    then have "parts ! i = LiteralPart (splitSegments (hd articles) ! i)" using ne by (simp add: hd_map)
    then show ?thesis using True by simp
  next
    case False
    then show ?thesis using at [OF that] by (simp add: segment_part_def Let_def comp_def)
  qed
  have "parts_match parts (joined q) \<longleftrightarrow> length q = length parts
      \<and> (\<forall>i < length q. (if allEqual (map (\<lambda>a. splitSegments a ! i) articles) then q ! i = splitSegments (hd articles) ! i
             else inferVariablePattern (map (\<lambda>a. splitSegments a ! i) articles) = Some (parts ! i)
                  \<and> part_accepts (parts ! i) (q ! i)))" if q: "q \<noteq> [] \<and> slash_free q" for q
  proof -
    have "parts \<noteq> []" using len segs by auto
    then have "parts_match parts (joined q) \<longleftrightarrow> list_all2 part_accepts parts q" using q parts_match_joined by blast
    also have "\<dots> \<longleftrightarrow> length q = length parts \<and> (\<forall>i < length q. part_accepts (parts ! i) (q ! i))"
      by (auto simp: list_all2_conv_all_nth)
    also have "\<dots> \<longleftrightarrow> length q = length parts
      \<and> (\<forall>i < length q. (if allEqual (map (\<lambda>a. splitSegments a ! i) articles) then q ! i = splitSegments (hd articles) ! i
             else inferVariablePattern (map (\<lambda>a. splitSegments a ! i) articles) = Some (parts ! i)
                  \<and> part_accepts (parts ! i) (q ! i)))"
      by (rule conj_cong [OF refl]) (rule all_cong, rule one, simp)
    finally show ?thesis .
  qed
  then show ?thesis using m len pat by blast
qed

text \<open>The check of breadth, made for the model's patterns only, would accept every pattern of the heuristic:
  none matches a sample with a segment more or less, or with a common segment replaced.\<close>

theorem heuristic_is_never_broad:
  assumes re: "knows_parts re" and asc: "list_all ascii_text articles" and inf: "InferHeuristic re n articles = Some pat"
  shows "\<exists>m. re pat = Inr m \<and> validateBroadness m articles"
proof -
  obtain parts where c: "collect_parts (map splitSegments articles) [0..<length (splitSegments (hd articles))] = Some parts"
    and pat: "pat = pattern_text parts" using heuristic_samples(3) [OF inf] by blast
  note ne = heuristic_samples(1) [OF inf] and m = heuristic_matches_samples [OF re c asc heuristic_samples(1,2) [OF inf]]
  define base where "base = splitSegments (hd articles)"
  have h: "hd (map splitSegments articles) = base" using ne by (simp add: base_def hd_map)
  have len: "length parts = length base" using collect_parts_some [OF c] by (simp add: base_def)
  have free: "slash_free base" by (simp add: base_def splitSegments_free)
  have no: "\<not> parts_match parts (joined q)" if "q \<noteq> []" "slash_free q" "length q \<noteq> length base" "base \<noteq> []" for q
    using that len parts_match_joined [of parts q] by (metis length_0_conv list_all2_lengthD)
  have count: "validateSegmentCount (parts_match parts) (map splitSegments articles)"
  proof (cases "base = []")
    case True
    then show ?thesis using h by (simp add: validateSegmentCount_def Let_def)
  next
    case False
    have p: "''/broadnesstoken/'' @ join_at ''/'' base = joined (''broadnesstoken'' # base)"
      using False by (cases base) (simp_all add: joined_def)
    have app: "join_at ''/'' (xs @ [y]) = join_at ''/'' xs @ ''/'' @ y" if "xs \<noteq> []" for xs y
      using that by (induction xs rule: join_at.induct [where ?a0.0 = "''/''", consumes 0]) simp_all
    have a: "joined base @ ''/broadnesstoken'' = joined (base @ [''broadnesstoken''])"
      using app [OF False, of "''broadnesstoken''"] by (simp add: joined_def)
    have "\<not> parts_match parts (joined (''broadnesstoken'' # base))"
      by (rule no) (use free False in \<open>auto simp: slash_free_def\<close>)
    moreover have "\<not> parts_match parts (joined (base @ [''broadnesstoken'']))"
      by (rule no) (use free False in \<open>auto simp: slash_free_def\<close>)
    moreover have "\<not> parts_match parts (joined (tl base)) \<and> \<not> parts_match parts (joined (butlast base))" if "2 \<le> length base"
    proof
      have t: "tl base \<noteq> []" "butlast base \<noteq> []" using that by (cases base; cases "tl base"; auto)+
      show "\<not> parts_match parts (joined (tl base))"
        by (rule no) (use t that free False in \<open>auto simp: slash_free_def dest: list.set_sel(2)\<close>)
      show "\<not> parts_match parts (joined (butlast base))"
        by (rule no) (use t that free False in \<open>auto simp: slash_free_def dest: in_set_butlastD\<close>)
    qed
    ultimately show ?thesis using h p a by (simp add: validateSegmentCount_def Let_def)
  qed
  have lit: "validateLiteralSegments (parts_match parts) (map splitSegments articles)"
  proof -
    have "tok = base ! i \<or> \<not> parts_match parts (joined (base[i := tok]))"
      if i: "i < length base" and ci: "constant_at (map splitSegments articles) i" and tok: "tok \<in> set broad_tokens" for i tok
    proof (rule disjCI)
      assume "\<not> \<not> parts_match parts (joined (base[i := tok]))"
      moreover have sf: "slash_free (base[i := tok])"
        using free tok by (auto simp: slash_free_def broad_tokens_def dest!: set_update_subset_insert [THEN subsetD])
      ultimately have "list_all2 part_accepts parts (base[i := tok])"
        using parts_match_joined [of parts "base[i := tok]"] i len by (metis length_0_conv length_list_update less_nat_zero_code)
      then have acc: "part_accepts (parts ! i) tok" using i len by (auto simp: list_all2_conv_all_nth)
      have "allEqual (map (\<lambda>s. s ! i) (map splitSegments articles))"
        using ci ne by (cases articles) (auto simp: allEqual_def constant_at_def list_all_iff)
      moreover have "segment_part (map splitSegments articles) i = Some (parts ! i)"
        using collect_parts_some [OF c] i by (auto simp: base_def)
      ultimately have "parts ! i = LiteralPart (hd (map (\<lambda>s. s ! i) (map splitSegments articles)))"
        by (simp add: segment_part_def Let_def)
      then have "parts ! i = LiteralPart (base ! i)" using ne by (simp add: base_def hd_map)
      then show "tok = base ! i" using acc by simp
    qed
    then show ?thesis using h by (auto simp: validateLiteralSegments_def Let_def list_all_iff)
  qed
  show ?thesis using m pat count lit by (auto simp: validateBroadness_def Let_def)
qed

section \<open>A regular expression library for these patterns\<close>

fun unquote :: "string \<Rightarrow> string" where
  "unquote [] = []"
| "unquote [c] = [c]"
| "unquote (c # d # s) = (if c = CHR 0x5C then d # unquote s else c # unquote (d # s))"

definition parse_part :: "string \<Rightarrow> path_part" where
  "parse_part t =
     (if t = part_text UuidPart then UuidPart
      else if t = part_text YearPart then YearPart
      else if t = part_text MonthPart then MonthPart
      else if t = part_text NumericPart then NumericPart
      else if t = part_text SlugPart then SlugPart
      else LiteralPart (unquote t))"

definition part_regex :: regex_lib where
  "part_regex t = Inr (parts_match (map parse_part (split_at (CHR ''/'') [] (butlast (drop 2 t)))))"

lemma quote_meta_simps [simp]:
  "quote_meta [] = []"
  "quote_meta (c # s) = (if c \<in> meta_chars then [CHR 0x5C, c] else [c]) @ quote_meta s"
  by (simp_all add: quote_meta_def)

lemma backslash_meta [simp]: "CHR 0x5C \<in> meta_chars" and paren_meta [simp]: "CHR ''('' \<in> meta_chars"
  and slash_meta [simp]: "CHR ''/'' \<notin> meta_chars"
  by (simp_all add: meta_chars_def)

lemma unquote_quote: "unquote (quote_meta s) = s"
proof (induction s)
  case (Cons c s)
  show ?case
  proof (cases "c \<in> meta_chars")
    case False
    then have "c \<noteq> CHR 0x5C" by auto
    then show ?thesis using Cons False by (cases "quote_meta s") auto
  qed (use Cons in simp)
qed simp

lemma quote_meta_head: "quote_meta s \<noteq> CHR ''('' # r"
  by (cases s) auto

lemma parse_part_text: "parse_part (part_text p) = p"
proof (cases p)
  case (LiteralPart v)
  have "quote_meta v \<noteq> part_text q" if "\<forall>v. q \<noteq> LiteralPart v" for q
    using that quote_meta_head [of v] by (cases q) auto
  then have "quote_meta v \<noteq> part_text UuidPart" "quote_meta v \<noteq> part_text YearPart" "quote_meta v \<noteq> part_text MonthPart"
    "quote_meta v \<noteq> part_text NumericPart" "quote_meta v \<noteq> part_text SlugPart" by blast+
  then show ?thesis using LiteralPart unquote_quote by (simp only: parse_part_def part_text.simps if_False)
qed (simp_all add: parse_part_def hex_text_def digit_class_def)

lemma slash_quote: "CHR ''/'' \<notin> set v \<Longrightarrow> CHR ''/'' \<notin> set (quote_meta v)"
  by (induction v) auto

lemma slash_part_text: "ascii_part p \<Longrightarrow> CHR ''/'' \<notin> set (part_text p)"
  by (cases p) (auto simp: slash_quote hex_text_def digit_class_def)

lemma part_regex_knows: "knows_parts part_regex"
  unfolding knows_parts_def
proof (intro allI impI)
  fix parts assume a: "list_all ascii_part parts"
  have d: "butlast (drop 2 (pattern_text parts)) = join_at ''/'' (map part_text parts)"
    by (simp add: pattern_text_def butlast_append)
  show "part_regex (pattern_text parts) = Inr (parts_match parts)"
  proof (cases "parts = []")
    case True
    have "parts_match [LiteralPart []] = parts_match []"
    proof
      show "parts_match [LiteralPart []] s = parts_match [] s" for s
      proof (cases s)
        case (Cons c r)
        have "list_all2 part_accepts [LiteralPart []] (split_at (CHR ''/'') [] r) \<longleftrightarrow> r = []"
          using join_split [of "CHR ''/''" "[]" r] by (auto simp: list_all2_Cons1)
        then show ?thesis using Cons by (auto simp: parts_match_def)
      qed (simp add: parts_match_def)
    qed
    then show ?thesis using True d unfolding part_regex_def
      by (simp add: parse_part_def hex_text_def digit_class_def)
  next
    case False
    have "split_at (CHR ''/'') [] (join_at ''/'' (map part_text parts)) = map part_text parts"
      by (rule split_join) (use False a slash_part_text in \<open>auto simp: list_all_iff\<close>)
    then show ?thesis using d unfolding part_regex_def by (simp add: parse_part_text comp_def)
  qed
qed

definition sample_articles :: "string list" where
  "sample_articles = [''/news/2024/a-first-story'', ''/news/2023/a-second-one'', ''/news/2025/third-of-all/'']"

lemma sample_articles_ok: "list_all ascii_text sample_articles" "hd sample_articles = ''/news/2024/a-first-story''"
  "splitSegments (hd sample_articles) = [''news'', ''2024'', ''a-first-story'']"
  by (code_simp)+

lemma sample_inferred:
  "InferHeuristic part_regex 3 sample_articles = Some (pattern_text [LiteralPart ''news'', YearPart, SlugPart])"
  by code_simp

theorem heuristic_complete_witness:
  "InferHeuristic part_regex 3 sample_articles
     = map_option pattern_text (collect_parts (map splitSegments sample_articles) [0..<3])"
  using heuristic_complete [OF part_regex_knows sample_articles_ok(1), of 3] unfolding sample_articles_ok(3)
  by (simp add: sample_articles_def path_min_samples_def) code_simp

theorem heuristic_exact_witness:
  "\<exists>m. part_regex (pattern_text [LiteralPart ''news'', YearPart, SlugPart]) = Inr m \<and> m (rooted ''/news/2023/a-second-one'')
     \<and> \<not> m (joined [''news'', ''2024''])"
proof -
  have ne: "splitSegments (hd sample_articles) \<noteq> []" by (simp add: sample_articles_ok(3))
  have q: "[''news'', ''2024''] \<noteq> [] \<and> slash_free [''news'', ''2024'']" by (simp add: slash_free_def)
  have a: "''/news/2023/a-second-one'' \<in> set sample_articles" by (simp add: sample_articles_def)
  obtain m parts where m: "part_regex (pattern_text [LiteralPart ''news'', YearPart, SlugPart]) = Inr m"
    and all: "\<forall>a \<in> set sample_articles. m (rooted a)" and len: "length parts = length (splitSegments (hd sample_articles))"
    and iff: "\<forall>q. q \<noteq> [] \<and> slash_free q \<longrightarrow> (m (joined q) \<longleftrightarrow> length q = length parts
          \<and> (\<forall>i < length q. (if allEqual (map (\<lambda>a. splitSegments a ! i) sample_articles) then q ! i = splitSegments (hd sample_articles) ! i
                             else inferVariablePattern (map (\<lambda>a. splitSegments a ! i) sample_articles) = Some (parts ! i)
                                  \<and> part_accepts (parts ! i) (q ! i))))"
    using heuristic_exact [OF part_regex_knows sample_articles_ok(1) sample_inferred ne] by blast
  have "\<not> m (joined [''news'', ''2024''])" using iff [rule_format, OF q] len by (simp add: sample_articles_ok(3))
  then show ?thesis using m all a by blast
qed

theorem heuristic_is_never_broad_witness:
  "\<exists>m. part_regex (pattern_text [LiteralPart ''news'', YearPart, SlugPart]) = Inr m \<and> validateBroadness m sample_articles"
  by (rule heuristic_is_never_broad [OF part_regex_knows sample_articles_ok(1) sample_inferred])

section \<open>What a pattern of the model has passed\<close>

lemma joined_simps:
  "segs \<noteq> [] \<Longrightarrow> joined (x # segs) = ''/'' @ x @ ''/'' @ join_at ''/'' segs"
  "segs \<noteq> [] \<Longrightarrow> joined (segs @ [x]) = joined segs @ ''/'' @ x"
proof -
  show "segs \<noteq> [] \<Longrightarrow> joined (x # segs) = ''/'' @ x @ ''/'' @ join_at ''/'' segs" by (cases segs) (simp_all add: joined_def)
  have "segs \<noteq> [] \<Longrightarrow> join_at ''/'' (segs @ [x]) = join_at ''/'' segs @ ''/'' @ x"
  proof (induction segs)
    case (Cons s ts)
    then show ?case by (cases ts) simp_all
  qed simp
  then show "segs \<noteq> [] \<Longrightarrow> joined (segs @ [x]) = joined segs @ ''/'' @ x" by (simp add: joined_def)
qed

text \<open>What the check of breadth rules out, for samples whose first one has segments.\<close>

definition narrow :: "(string \<Rightarrow> bool) \<Rightarrow> string list \<Rightarrow> bool" where
  "narrow m articles \<longleftrightarrow>
     (let base = splitSegments (hd articles)
      in \<not> m (joined (''broadnesstoken'' # base)) \<and> \<not> m (joined (base @ [''broadnesstoken'']))
         \<and> (2 \<le> length base \<longrightarrow> \<not> m (joined (tl base)) \<and> \<not> m (joined (butlast base)))
         \<and> (2 \<le> length articles \<longrightarrow> (\<forall>i < length base. (\<forall>a \<in> set articles. splitSegments a ! i = base ! i) \<longrightarrow>
              (\<forall>tok \<in> set broad_tokens. tok \<noteq> base ! i \<longrightarrow> \<not> m (joined (base[i := tok]))))))"

lemma validateBroadness_narrow:
  assumes v: "validateBroadness m articles" and ne: "articles \<noteq> []" "splitSegments (hd articles) \<noteq> []"
    and same: "\<forall>a \<in> set articles. length (splitSegments a) = length (splitSegments (hd articles))"
  shows "narrow m articles"
proof -
  define base where "base = splitSegments (hd articles)"
  have h: "hd (map splitSegments articles) = base" using ne by (simp add: base_def hd_map)
  have sl: "same_length (map splitSegments articles)" using same ne by (cases articles) (auto simp: same_length_def list_all_iff)
  have "validateSegmentCount m (map splitSegments articles)" and l: "validateLiteralSegments m (map splitSegments articles)"
    using v ne by (auto simp: validateBroadness_def Let_def)
  then have "\<not> m (''/broadnesstoken/'' @ join_at ''/'' base)" "\<not> m (joined base @ ''/broadnesstoken'')"
    "2 \<le> length base \<longrightarrow> \<not> m (joined (tl base)) \<and> \<not> m (joined (butlast base))"
    using h sl ne by (auto simp: validateSegmentCount_def Let_def base_def split: if_splits)
  moreover have "\<not> m (joined (base[i := tok]))"
    if "2 \<le> length articles" "i < length base" "\<forall>a \<in> set articles. splitSegments a ! i = base ! i" "tok \<in> set broad_tokens"
      "tok \<noteq> base ! i" for i tok
  proof -
    have "constant_at (map splitSegments articles) i"
      using that(1,3) h by (cases articles) (auto simp: constant_at_def list_all_iff)
    then show ?thesis using l h sl that by (auto simp: validateLiteralSegments_def Let_def list_all_iff)
  qed
  ultimately show ?thesis
    using ne joined_simps [of base "''broadnesstoken''"] unfolding narrow_def Let_def base_def [symmetric]
    by (auto simp: joined_def)
qed


definition sample_path_env :: path_env where
  "sample_path_env = \<lparr>pe_regex = part_regex, pe_trim = (\<lambda>s. s), pe_broadness = True\<rparr>"


end
