(* ===== verification/RuleStore.thy ===== *)
theory RuleStore
  imports RuleGen
begin

text \<open>
  The tables of parsing rules and of their sample addresses (\<^verbatim>\<open>internal/storage/postgres/parser_rule.go\<close>,
  \<^verbatim>\<open>sample_url.go\<close>) and the decorator that keeps the resolver's cache in step with them
  (\<^verbatim>\<open>decorator/parser_rule_invalidating.go\<close>; \<^verbatim>\<open>service/parser_rule.go\<close> only puts it on). A table is the
  list of its rows; a statement takes the error the database gives it, if any, and its effect is that of the SQL text.
  Lemmas: keys stay unique, the cache holds what the table holds, a new version changes the rule of the paths it
  matches only.
\<close>

section \<open>Rows\<close>

record rule_row = gen_rule +
  pr_priority :: int

text \<open>
  \<open>rd_marshal_sel\<close>, \<open>rd_marshal_conf\<close> and \<open>rd_scan\<close> say why the JSON columns of a record cannot be written or read, \<open>rd_chars\<close> is the SQL
  \<^verbatim>\<open>LENGTH\<close>, \<open>rd_unique\<close> the error of an update that would repeat a natural key, \<open>rd_arrange\<close> the order of a listing.
\<close>

record rule_db =
  rd_regex :: regex_lib
  rd_chars :: "string \<Rightarrow> nat"
  rd_marshal_sel :: "selector_map \<Rightarrow> go_error option"
  rd_marshal_conf :: "(string \<rightharpoonup> field_confidence) \<Rightarrow> go_error option"
  rd_scan :: "rule_row \<Rightarrow> go_error option"
  rd_unique :: go_error
  rd_arrange :: "rule_row list \<Rightarrow> rule_row list"

definition bad_rule_pattern :: "rule_db \<Rightarrow> string \<Rightarrow> string \<Rightarrow> go_error option" where
  "bad_rule_pattern D path shown =
     (if path = [] then None
      else (case rd_regex D path of
              Inr _ \<Rightarrow> None
            | Inl reErr \<Rightarrow> Some (Annotated [] (Sentinel StorageInvalid)
                ('': path_pattern '' @ go_quote shown @ '' is not a valid regex: '' @ error_text reErr))))"

definition marshal_error :: "rule_db \<Rightarrow> rule_row \<Rightarrow> go_error option" where
  "marshal_error D rec =
     (case rd_marshal_sel D (ru_selectors (gr_rule rec)) of
        Some err \<Rightarrow> Some (Wrapped ''marshal selectors'' err)
      | None \<Rightarrow> map_option (Wrapped ''marshal confidence'') (rd_marshal_conf D (gr_confidence rec)))"

definition natural_key :: "rule_row \<Rightarrow> string \<times> string \<times> string \<times> string \<times> int" where
  "natural_key x = (ru_source (gr_rule x), ru_host (gr_rule x), ru_path (gr_rule x), ru_type (gr_rule x), ru_version (gr_rule x))"

definition normalized_row :: "int \<Rightarrow> rule_row \<Rightarrow> rule_row" where
  "normalized_row fresh rec =
     rec\<lparr>gr_rule := (gr_rule rec)\<lparr>ru_version := (if ru_version (gr_rule rec) = 0 then 1 else ru_version (gr_rule rec)),
                                   ru_id := fresh\<rparr>,
         pr_priority := (if pr_priority rec < 1 \<or> pr_priority rec > 3 then 2 else pr_priority rec)\<rparr>"

section \<open>Statements\<close>

definition rule_Insert ::
  "rule_db \<Rightarrow> go_error option \<Rightarrow> int \<Rightarrow> rule_row \<Rightarrow> rule_row list \<Rightarrow> go_error option \<times> rule_row list" where
  "rule_Insert D db fresh rec rows =
     (case bad_rule_pattern D (ru_path (gr_rule rec)) (ru_path (gr_rule rec)) of
        Some err \<Rightarrow> (Some err, rows)
      | None \<Rightarrow>
         (case marshal_error D rec of
            Some err \<Rightarrow> (Some err, rows)
          | None \<Rightarrow>
             (case db of
                Some err \<Rightarrow> (Some (Wrapped ''insert parsing rule'' err), rows)
              | None \<Rightarrow>
                  if natural_key (normalized_row fresh rec) \<in> natural_key ` set rows
                  then (Some (Sentinel StorageDuplicate), rows)
                  else (None, rows @ [normalized_row fresh rec]))))"

definition rule_Update ::
  "rule_db \<Rightarrow> go_error option \<Rightarrow> rule_row \<Rightarrow> rule_row list \<Rightarrow> go_error option \<times> rule_row list" where
  "rule_Update D db rec rows =
     (let i = ru_id (gr_rule rec)
      in case marshal_error D rec of
           Some err \<Rightarrow> (Some err, rows)
         | None \<Rightarrow>
            (case db of
               Some err \<Rightarrow> (Some (Wrapped (''update parsing rule '' @ int_text i) err), rows)
             | None \<Rightarrow>
                 if list_ex (\<lambda>x. ru_id (gr_rule x) = i) rows
                 then (None, map (\<lambda>x. if ru_id (gr_rule x) = i
                         then x\<lparr>gr_rule := (gr_rule x)\<lparr>ru_selectors := ru_selectors (gr_rule rec),
                                                        ru_enabled := ru_enabled (gr_rule rec),
                                                        ru_article := ru_article (gr_rule rec)\<rparr>,
                                gr_confidence := gr_confidence rec, gr_description := gr_description rec\<rparr>
                         else x) rows)
                 else (Some (Sentinel StorageNotFound), rows)))"

definition UpdatePathPattern ::
  "rule_db \<Rightarrow> go_error option \<Rightarrow> int \<Rightarrow> string \<Rightarrow> string \<Rightarrow> rule_row list \<Rightarrow> go_error option \<times> rule_row list" where
  "UpdatePathPattern D db i pat desc rows =
     (let hit = (\<lambda>x. ru_id (gr_rule x) = i \<and> ru_source (gr_rule x) = ''llm-auto'' \<and> ru_enabled (gr_rule x)
                     \<and> ru_path (gr_rule x) = [])
      in case bad_rule_pattern D pat pat of
           Some err \<Rightarrow> (Some err, rows)
         | None \<Rightarrow>
            (case db of
               Some err \<Rightarrow> (Some (Wrapped (''update path_pattern (id='' @ int_text i @ '')'') err), rows)
             | None \<Rightarrow>
                 if \<not> list_ex hit rows then (Some (Sentinel StorageNotFound), rows)
                 else (let rows' = map (\<lambda>x. if hit x then x\<lparr>gr_rule := (gr_rule x)\<lparr>ru_path := pat\<rparr>, gr_description := desc\<rparr>
                                          else x) rows
                       in if distinct (map natural_key rows') then (None, rows')
                          else (Some (Wrapped (''update path_pattern (id='' @ int_text i @ '')'') (rd_unique D)), rows))))"

text \<open>A query whose rows are read by \<open>rd_scan\<close>.\<close>

definition scan_one :: "rule_db \<Rightarrow> string \<Rightarrow> go_error option \<Rightarrow> rule_row option \<Rightarrow> go_error + rule_row" where
  "scan_one D what db found =
     (case db of
        Some err \<Rightarrow> Inl (Wrapped what err)
      | None \<Rightarrow>
         (case found of
            None \<Rightarrow> Inl (Sentinel StorageNotFound)
          | Some x \<Rightarrow> (case rd_scan D x of None \<Rightarrow> Inr x | Some err \<Rightarrow> Inl (Wrapped what err))))"

definition rule_GetByID :: "rule_db \<Rightarrow> go_error option \<Rightarrow> int \<Rightarrow> rule_row list \<Rightarrow> go_error + rule_row" where
  "rule_GetByID D db i rows = scan_one D (''get parsing rule '' @ int_text i) db (find (\<lambda>x. ru_id (gr_rule x) = i) rows)"

definition FindByNaturalKey ::
  "rule_db \<Rightarrow> go_error option \<Rightarrow> string \<Rightarrow> string \<Rightarrow> string \<Rightarrow> string \<Rightarrow> int \<Rightarrow> rule_row list \<Rightarrow> go_error + rule_row" where
  "FindByNaturalKey D db source host path tt version rows =
     scan_one D ''find parsing rule by natural key'' db
       (find (\<lambda>x. ru_source (gr_rule x) = source \<and> ru_host (gr_rule x) = host \<and> ru_path (gr_rule x) = path
                  \<and> ru_type (gr_rule x) = tt \<and> ru_version (gr_rule x) = version) rows)"

definition max_version :: "rule_row \<Rightarrow> rule_row list \<Rightarrow> int" where
  "max_version rec rows =
     (let vs = map (ru_version \<circ> gr_rule)
                 (filter (\<lambda>x. ru_source (gr_rule x) = ru_source (gr_rule rec) \<and> ru_host (gr_rule x) = ru_host (gr_rule rec)
                              \<and> ru_path (gr_rule x) = ru_path (gr_rule rec) \<and> ru_type (gr_rule x) = ru_type (gr_rule rec)) rows)
      in if vs = [] then 0 else foldr max vs (hd vs))"

definition at_version :: "int \<Rightarrow> rule_row \<Rightarrow> rule_row" where
  "at_version v rec = rec\<lparr>gr_rule := (gr_rule rec)\<lparr>ru_version := v\<rparr>\<rparr>"

text \<open>\<open>between\<close> is what other clients do to the table between the two statements.\<close>

definition InsertNextVersion ::
  "rule_db \<Rightarrow> go_error option \<Rightarrow> (rule_row list \<Rightarrow> rule_row list) \<Rightarrow> go_error option \<Rightarrow> int \<Rightarrow> rule_row
     \<Rightarrow> rule_row list \<Rightarrow> go_error option \<times> rule_row list" where
  "InsertNextVersion D db1 between db2 fresh rec rows =
     (case bad_rule_pattern D (ru_path (gr_rule rec)) (ru_path (gr_rule rec)) of
        Some err \<Rightarrow> (Some err, rows)
      | None \<Rightarrow>
         (case db1 of
            Some err \<Rightarrow> (Some (Wrapped ''query max version'' err), rows)
          | None \<Rightarrow> rule_Insert D db2 fresh (at_version (max_version rec rows + 1) rec) (between rows)))"

definition stmt_HasAnyRule :: "go_error option \<Rightarrow> string \<Rightarrow> string \<Rightarrow> rule_row list \<Rightarrow> go_error + bool \<times> bool" where
  "stmt_HasAnyRule db host tt rows =
     (case db of
        Some err \<Rightarrow> Inl (Wrapped (''has any rule ('' @ host @ '', '' @ tt @ '')'') err)
      | None \<Rightarrow> (let hits = filter (\<lambda>x. ru_host (gr_rule x) = host \<and> ru_type (gr_rule x) = tt) rows
                 in Inr (hits \<noteq> [], list_ex (\<lambda>x. ru_enabled (gr_rule x)) hits)))"

text \<open>The active candidates in their order; equal keys stay in the order of the rows.\<close>

definition active_rows :: "rule_db \<Rightarrow> string \<Rightarrow> string \<Rightarrow> rule_row list \<Rightarrow> rule_row list" where
  "active_rows D host tt rows =
     sort_key (\<lambda>x. (- int (rd_chars D (ru_path (gr_rule x))), - ru_version (gr_rule x)))
       (filter (\<lambda>x. ru_host (gr_rule x) = host \<and> ru_type (gr_rule x) = tt \<and> ru_enabled (gr_rule x)) rows)"

definition scan_all :: "rule_db \<Rightarrow> string \<Rightarrow> rule_row list \<Rightarrow> go_error + rule_row list" where
  "scan_all D what xs =
     (case first_some (rd_scan D) xs of None \<Rightarrow> Inr xs | Some err \<Rightarrow> Inl (Wrapped what err))"

definition FindActiveCandidates ::
  "rule_db \<Rightarrow> go_error option \<Rightarrow> string \<Rightarrow> string \<Rightarrow> rule_row list \<Rightarrow> go_error + rule_row list" where
  "FindActiveCandidates D db host tt rows =
     (case db of
        Some err \<Rightarrow> Inl (Wrapped (''find active candidates ('' @ host @ '', '' @ tt @ '')'') err)
      | None \<Rightarrow> scan_all D ''scan candidate'' (active_rows D host tt rows))"

definition FindActive :: "rule_db \<Rightarrow> go_error option \<Rightarrow> string \<Rightarrow> string \<Rightarrow> rule_row list \<Rightarrow> go_error + rule_row" where
  "FindActive D db host tt rows =
     (case FindActiveCandidates D db host tt rows of
        Inl err \<Rightarrow> Inl err
      | Inr [] \<Rightarrow> Inl (Sentinel StorageNotFound)
      | Inr (x # _) \<Rightarrow> Inr x)"

record rule_filter =
  rf_source :: string
  rf_host :: string
  rf_type :: string
  rf_only_enabled :: bool
  rf_article :: "bool option"
  rf_limit :: int
  rf_offset :: int

definition rule_List :: "rule_db \<Rightarrow> go_error option \<Rightarrow> rule_filter \<Rightarrow> rule_row list \<Rightarrow> go_error + rule_row list" where
  "rule_List D db f rows =
     (let limit = (if rf_limit f \<le> 0 then 50 else rf_limit f)
      in case db of
           Some err \<Rightarrow> Inl (Wrapped ''list parsing rules'' err)
         | None \<Rightarrow>
             scan_all D ''scan parsing rule row''
               (take (nat limit) (drop (nat (rf_offset f)) (rd_arrange D
                 (filter (\<lambda>x. (rf_source f = [] \<or> ru_source (gr_rule x) = rf_source f)
                            \<and> (rf_host f = [] \<or> ru_host (gr_rule x) = rf_host f)
                            \<and> (rf_type f = [] \<or> ru_type (gr_rule x) = rf_type f)
                            \<and> (rf_only_enabled f \<longrightarrow> ru_enabled (gr_rule x))
                            \<and> (case rf_article f of None \<Rightarrow> True | Some b \<Rightarrow> ru_article (gr_rule x) = b)) rows)))))"

definition rule_Delete :: "go_error option \<Rightarrow> int \<Rightarrow> rule_row list \<Rightarrow> go_error option \<times> rule_row list" where
  "rule_Delete db i rows =
     (case db of
        Some err \<Rightarrow> (Some (Wrapped (''delete parsing rule '' @ int_text i) err), rows)
      | None \<Rightarrow> (None, filter (\<lambda>x. ru_id (gr_rule x) \<noteq> i) rows))"

section \<open>Sample addresses\<close>

record sample_url =
  su_id :: int
  su_rule :: int
  su_url :: string
  su_seen :: gotime

definition SampleCapPerRule :: int where "SampleCapPerRule = 100"

definition sample_Count :: "go_error option \<Rightarrow> int \<Rightarrow> sample_url list \<Rightarrow> go_error + int" where
  "sample_Count db i rows =
     (case db of
        Some err \<Rightarrow> Inl (Wrapped (''count samples (rule='' @ int_text i @ '')'') err)
      | None \<Rightarrow> Inr (int (length (filter (\<lambda>x. su_rule x = i) rows))))"

definition sample_Insert ::
  "go_error option \<Rightarrow> (sample_url list \<Rightarrow> sample_url list) \<Rightarrow> go_error option \<Rightarrow> int \<Rightarrow> gotime \<Rightarrow> int \<Rightarrow> string
     \<Rightarrow> sample_url list \<Rightarrow> go_error option \<times> sample_url list" where
  "sample_Insert db1 between db2 fresh now i url rows =
     (case sample_Count db1 i rows of
        Inl err \<Rightarrow> (Some (Wrapped ''count samples for cap check'' err), rows)
      | Inr n \<Rightarrow>
          if n \<ge> SampleCapPerRule then (None, rows)
          else (let rows1 = between rows
                in case db2 of
                     Some err \<Rightarrow> (Some (Wrapped (''insert sample url (rule='' @ int_text i @ '')'') err), rows1)
                   | None \<Rightarrow>
                       if list_ex (\<lambda>x. su_rule x = i \<and> su_url x = url) rows1
                       then (Some (Sentinel StorageDuplicate), rows1)
                       else (None, rows1 @ [\<lparr>su_id = fresh, su_rule = i, su_url = url, su_seen = now\<rparr>])))"

definition sample_List :: "go_error option \<Rightarrow> int \<Rightarrow> int \<Rightarrow> sample_url list \<Rightarrow> go_error + sample_url list" where
  "sample_List db i limit0 rows =
     (let limit = (if limit0 \<le> 0 then 50 else limit0)
      in case db of
           Some err \<Rightarrow> Inl (Wrapped (''list samples (rule='' @ int_text i @ '')'') err)
         | None \<Rightarrow> Inr (take (nat limit) (sort_key (\<lambda>x. - su_seen x) (filter (\<lambda>x. su_rule x = i) rows))))"

definition sample_Purge :: "go_error option \<Rightarrow> int \<Rightarrow> sample_url list \<Rightarrow> go_error option \<times> sample_url list" where
  "sample_Purge db i rows =
     (case db of
        Some err \<Rightarrow> (Some (Wrapped (''purge samples (rule='' @ int_text i @ '')'') err), rows)
      | None \<Rightarrow> (None, filter (\<lambda>x. su_rule x \<noteq> i) rows))"

section \<open>The invalidating decorator\<close>

text \<open>\<open>cb\<close> is the cache's \<^verbatim>\<open>Invalidate\<close>, \<open>None\<close> when it is nil.\<close>

definition invalidate_cache :: "(string \<Rightarrow> string \<Rightarrow> 'c \<Rightarrow> 'c) option \<Rightarrow> rule_row \<Rightarrow> 'c \<Rightarrow> 'c" where
  "invalidate_cache cb rec c = (case cb of None \<Rightarrow> c | Some f \<Rightarrow> f (ru_host (gr_rule rec)) (ru_type (gr_rule rec)) c)"

definition written_or_there :: "go_error option \<Rightarrow> bool" where
  "written_or_there err \<longleftrightarrow> (case err of None \<Rightarrow> True | Some e \<Rightarrow> is_sentinel StorageDuplicate e)"

definition inv_Insert ::
  "rule_db \<Rightarrow> (string \<Rightarrow> string \<Rightarrow> 'c \<Rightarrow> 'c) option \<Rightarrow> go_error option \<Rightarrow> int \<Rightarrow> rule_row \<Rightarrow> rule_row list \<times> 'c
     \<Rightarrow> go_error option \<times> (rule_row list \<times> 'c)" where
  "inv_Insert D cb db fresh rec s =
     (let (err, rows) = rule_Insert D db fresh rec (fst s)
      in (err, (rows, if written_or_there err then invalidate_cache cb rec (snd s) else snd s)))"

definition inv_InsertNextVersion ::
  "rule_db \<Rightarrow> (string \<Rightarrow> string \<Rightarrow> 'c \<Rightarrow> 'c) option \<Rightarrow> go_error option \<Rightarrow> (rule_row list \<Rightarrow> rule_row list)
     \<Rightarrow> go_error option \<Rightarrow> int \<Rightarrow> rule_row \<Rightarrow> rule_row list \<times> 'c \<Rightarrow> go_error option \<times> (rule_row list \<times> 'c)" where
  "inv_InsertNextVersion D cb db1 between db2 fresh rec s =
     (let (err, rows) = InsertNextVersion D db1 between db2 fresh rec (fst s)
      in (err, (rows, if written_or_there err then invalidate_cache cb rec (snd s) else snd s)))"

definition inv_Update ::
  "rule_db \<Rightarrow> (string \<Rightarrow> string \<Rightarrow> 'c \<Rightarrow> 'c) option \<Rightarrow> go_error option \<Rightarrow> rule_row \<Rightarrow> rule_row list \<times> 'c
     \<Rightarrow> go_error option \<times> (rule_row list \<times> 'c)" where
  "inv_Update D cb db rec s =
     (let (err, rows) = rule_Update D db rec (fst s)
      in (err, (rows, if err = None then invalidate_cache cb rec (snd s) else snd s)))"

text \<open>The last two look the row up before they change it: \<open>db1\<close> is the error of the lookup.\<close>

definition after_lookup ::
  "(string \<Rightarrow> string \<Rightarrow> 'c \<Rightarrow> 'c) option \<Rightarrow> go_error + rule_row \<Rightarrow> go_error option \<times> rule_row list \<Rightarrow> 'c
     \<Rightarrow> go_error option \<times> (rule_row list \<times> 'c)" where
  "after_lookup cb found result c =
     (case result of
        (Some err, rows) \<Rightarrow> (Some err, (rows, c))
      | (None, rows) \<Rightarrow> (None, (rows, case found of Inl _ \<Rightarrow> c | Inr rec \<Rightarrow> invalidate_cache cb rec c)))"

definition inv_UpdatePathPattern ::
  "rule_db \<Rightarrow> (string \<Rightarrow> string \<Rightarrow> 'c \<Rightarrow> 'c) option \<Rightarrow> go_error option \<Rightarrow> go_error option \<Rightarrow> int \<Rightarrow> string \<Rightarrow> string
     \<Rightarrow> rule_row list \<times> 'c \<Rightarrow> go_error option \<times> (rule_row list \<times> 'c)" where
  "inv_UpdatePathPattern D cb db1 db2 i pat desc s =
     after_lookup cb (rule_GetByID D db1 i (fst s)) (UpdatePathPattern D db2 i pat desc (fst s)) (snd s)"

definition inv_Delete ::
  "rule_db \<Rightarrow> (string \<Rightarrow> string \<Rightarrow> 'c \<Rightarrow> 'c) option \<Rightarrow> go_error option \<Rightarrow> go_error option \<Rightarrow> int
     \<Rightarrow> rule_row list \<times> 'c \<Rightarrow> go_error option \<times> (rule_row list \<times> 'c)" where
  "inv_Delete D cb db1 db2 i s =
     after_lookup cb (rule_GetByID D db1 i (fst s)) (rule_Delete db2 i (fst s)) (snd s)"

section \<open>The table\<close>

definition table_ok :: "rule_row list \<Rightarrow> bool" where
  "table_ok rows \<longleftrightarrow> distinct (map natural_key rows) \<and> distinct (map (ru_id \<circ> gr_rule) rows)"

definition fresh_id :: "int \<Rightarrow> rule_row list \<Rightarrow> bool" where
  "fresh_id i rows \<longleftrightarrow> i \<notin> (ru_id \<circ> gr_rule) ` set rows"

lemma rule_Insert_result:
  "snd (rule_Insert D db fresh rec rows) = rows \<and> fst (rule_Insert D db fresh rec rows) \<noteq> None
   \<or> rule_Insert D db fresh rec rows = (None, rows @ [normalized_row fresh rec])
       \<and> natural_key (normalized_row fresh rec) \<notin> natural_key ` set rows"
  by (simp add: rule_Insert_def split: option.split)

lemma rule_Insert_cases:
  "rule_Insert D db fresh rec rows = (err, rows') \<Longrightarrow>
     rows' = rows \<and> err \<noteq> None
     \<or> err = None \<and> rows' = rows @ [normalized_row fresh rec] \<and> natural_key (normalized_row fresh rec) \<notin> natural_key ` set rows"
  using rule_Insert_result [of D db fresh rec rows] by (simp only: fst_conv snd_conv prod.inject) blast

lemma InsertNextVersion_cases:
  "InsertNextVersion D db1 between db2 fresh rec rows = (err, rows') \<Longrightarrow>
     rows' \<in> {rows, between rows} \<and> err \<noteq> None
     \<or> err = None \<and> rows' = between rows @ [normalized_row fresh (at_version (max_version rec rows + 1) rec)]
       \<and> natural_key (normalized_row fresh (at_version (max_version rec rows + 1) rec)) \<notin> natural_key ` set (between rows)"
  by (auto simp: InsertNextVersion_def dest: rule_Insert_cases split: option.splits)

definition updated_row :: "rule_row \<Rightarrow> rule_row \<Rightarrow> rule_row" where
  "updated_row rec x = x\<lparr>gr_rule := (gr_rule x)\<lparr>ru_selectors := ru_selectors (gr_rule rec), ru_enabled := ru_enabled (gr_rule rec),
       ru_article := ru_article (gr_rule rec)\<rparr>, gr_confidence := gr_confidence rec, gr_description := gr_description rec\<rparr>"

lemma rule_Update_cases:
  "rule_Update D db rec rows = (err, rows') \<Longrightarrow>
     rows' = rows \<and> err \<noteq> None
     \<or> err = None \<and> rows' = map (\<lambda>x. if ru_id (gr_rule x) = ru_id (gr_rule rec) then updated_row rec x else x) rows"
  by (auto simp: rule_Update_def updated_row_def Let_def split: option.splits if_splits)

definition repath :: "string \<Rightarrow> string \<Rightarrow> rule_row \<Rightarrow> rule_row" where
  "repath pat desc x = x\<lparr>gr_rule := (gr_rule x)\<lparr>ru_path := pat\<rparr>, gr_description := desc\<rparr>"

definition catch_all_of :: "int \<Rightarrow> rule_row \<Rightarrow> bool" where
  "catch_all_of i x \<longleftrightarrow> ru_id (gr_rule x) = i \<and> ru_source (gr_rule x) = ''llm-auto'' \<and> ru_enabled (gr_rule x)
     \<and> ru_path (gr_rule x) = []"

lemma UpdatePathPattern_cases:
  "UpdatePathPattern D db i pat desc rows = (err, rows') \<Longrightarrow>
     rows' = rows \<and> err \<noteq> None
     \<or> err = None \<and> rows' = map (\<lambda>x. if catch_all_of i x then repath pat desc x else x) rows
         \<and> distinct (map natural_key rows') \<and> (\<exists>x \<in> set rows. catch_all_of i x)"
  by (auto simp: UpdatePathPattern_def repath_def catch_all_of_def Let_def list_ex_iff split: option.splits if_splits)

lemma rule_Delete_cases:
  "rule_Delete db i rows = (err, rows') \<Longrightarrow>
     rows' = rows \<and> err \<noteq> None \<or> err = None \<and> rows' = filter (\<lambda>x. ru_id (gr_rule x) \<noteq> i) rows"
  by (auto simp: rule_Delete_def split: option.splits)

lemma updated_row_simps [simp]:
  "natural_key (updated_row rec x) = natural_key x" "ru_id (gr_rule (updated_row rec x)) = ru_id (gr_rule x)"
  "ru_host (gr_rule (updated_row rec x)) = ru_host (gr_rule x)" "ru_type (gr_rule (updated_row rec x)) = ru_type (gr_rule x)"
  by (simp_all add: updated_row_def natural_key_def)

lemma repath_simps [simp]:
  "ru_id (gr_rule (repath pat desc x)) = ru_id (gr_rule x)" "ru_host (gr_rule (repath pat desc x)) = ru_host (gr_rule x)"
  "ru_type (gr_rule (repath pat desc x)) = ru_type (gr_rule x)"
  by (simp_all add: repath_def)

lemma normalized_row_simps [simp]:
  "ru_id (gr_rule (normalized_row i x)) = i" "ru_host (gr_rule (normalized_row i x)) = ru_host (gr_rule x)"
  "ru_type (gr_rule (normalized_row i x)) = ru_type (gr_rule x)" "ru_path (gr_rule (normalized_row i x)) = ru_path (gr_rule x)"
  "ru_enabled (gr_rule (normalized_row i x)) = ru_enabled (gr_rule x)"
  "ru_article (gr_rule (normalized_row i x)) = ru_article (gr_rule x)"
  by (simp_all add: normalized_row_def)

lemma at_version_simps [simp]:
  "ru_host (gr_rule (at_version v x)) = ru_host (gr_rule x)" "ru_type (gr_rule (at_version v x)) = ru_type (gr_rule x)"
  "ru_path (gr_rule (at_version v x)) = ru_path (gr_rule x)" "ru_enabled (gr_rule (at_version v x)) = ru_enabled (gr_rule x)"
  "ru_article (gr_rule (at_version v x)) = ru_article (gr_rule x)"
  by (simp_all add: at_version_def)

text \<open>No statement ever stores two rows with the same natural key or the same id, whatever the database answers
  and whatever other clients do between the two statements of a versioned insert.\<close>

lemma statements_keep_keys:
  assumes ok: "table_ok rows" and other: "table_ok (between rows)" and fresh: "fresh_id i rows" "fresh_id i (between rows)"
  shows "table_ok (snd (rule_Insert D db i rec rows)) \<and> table_ok (snd (InsertNextVersion D db1 between db i rec rows))
    \<and> table_ok (snd (rule_Update D db rec rows)) \<and> table_ok (snd (UpdatePathPattern D db n pat desc rows))
    \<and> table_ok (snd (rule_Delete db n rows))"
proof (intro conjI)
  have add: "table_ok (xs @ [normalized_row i r])"
    if "table_ok xs" "fresh_id i xs" "natural_key (normalized_row i r) \<notin> natural_key ` set xs" for xs r
    using that by (auto simp: table_ok_def fresh_id_def)
  show "table_ok (snd (rule_Insert D db i rec rows))"
    using rule_Insert_cases [OF prod.collapse [symmetric], of D db i rec rows] add [OF ok fresh(1)] ok by auto
  show "table_ok (snd (InsertNextVersion D db1 between db i rec rows))"
    using InsertNextVersion_cases [OF prod.collapse [symmetric], of D db1 between db i rec rows] add [OF other fresh(2)] ok other
    by auto
  have upd: "table_ok (map (\<lambda>x. if P x then f x else x) rows)"
    if "\<And>x. ru_id (gr_rule (f x)) = ru_id (gr_rule x)" "distinct (map natural_key (map (\<lambda>x. if P x then f x else x) rows))" for P f
  proof -
    have "map (ru_id \<circ> gr_rule) (map (\<lambda>x. if P x then f x else x) rows) = map (ru_id \<circ> gr_rule) rows" by (simp add: that(1))
    then show ?thesis using that(2) ok unfolding table_ok_def by metis
  qed
  have keys: "map natural_key (map (\<lambda>x. if P x then updated_row rec x else x) rows) = map natural_key rows" for P by simp
  have "table_ok (map (\<lambda>x. if P x then updated_row rec x else x) rows)" for P
  proof (rule upd)
    show "distinct (map natural_key (map (\<lambda>x. if P x then updated_row rec x else x) rows))"
      unfolding keys using ok by (simp add: table_ok_def)
  qed simp
  then show "table_ok (snd (rule_Update D db rec rows))"
    using rule_Update_cases [OF prod.collapse [symmetric], of D db rec rows] ok by auto
  show "table_ok (snd (UpdatePathPattern D db n pat desc rows))"
    using UpdatePathPattern_cases [OF prod.collapse [symmetric], of D db n pat desc rows] upd [of "repath pat desc" "catch_all_of n"] ok
    by auto
  show "table_ok (snd (rule_Delete db n rows))"
    using rule_Delete_cases [OF prod.collapse [symmetric], of db n rows] ok by (auto simp: table_ok_def distinct_map_filter)
qed

section \<open>Cache and table\<close>

definition has_answer :: "string \<Rightarrow> string \<Rightarrow> rule_row list \<Rightarrow> bool \<times> bool" where
  "has_answer host tt rows =
     (let hits = filter (\<lambda>x. ru_host (gr_rule x) = host \<and> ru_type (gr_rule x) = tt) rows
      in (hits \<noteq> [], list_ex (\<lambda>x. ru_enabled (gr_rule x)) hits))"

text \<open>A cache whose entries are the values of a function, under keys whose host is in lower case.\<close>

definition cache_holds :: "url_lib \<Rightarrow> (cache_key \<Rightarrow> 'v) \<Rightarrow> (cache_key \<times> 'v \<times> gotime) list \<Rightarrow> bool" where
  "cache_holds L f cache \<longleftrightarrow> (\<forall>k v e. map_of cache k = Some (v, e) \<longrightarrow> v = f k \<and> ul_lower L (fst k) = fst k)"

definition table_rules :: "rule_db \<Rightarrow> rule_row list \<Rightarrow> cache_key \<Rightarrow> parser_rule list" where
  "table_rules D rows k = map gr_rule (active_rows D (fst k) (snd k) rows)"

definition table_has :: "rule_row list \<Rightarrow> cache_key \<Rightarrow> bool \<times> bool" where
  "table_has rows k = has_answer (fst k) (snd k) rows"

definition coherent :: "url_lib \<Rightarrow> rule_db \<Rightarrow> rule_row list \<Rightarrow> rule_resolver \<Rightarrow> bool" where
  "coherent L D rows r \<longleftrightarrow> cache_holds L (table_rules D rows) (rv_cache r) \<and> cache_holds L (table_has rows) (rv_has r)"

text \<open>A resolver's call whose queries go to the table; \<open>db\<close> is the error of its statement.\<close>

definition with_table :: "rule_db \<Rightarrow> go_error option \<Rightarrow> rule_row list \<Rightarrow> rule_call \<Rightarrow> rule_call" where
  "with_table D db rows c =
     c\<lparr>kc_find := (\<lambda>h t. map_sum id (map gr_rule) (FindActiveCandidates D db h t rows)),
       kc_has := (\<lambda>h t. stmt_HasAnyRule db h t rows)\<rparr>"

datatype store_op =
    PInsert "go_error option" int rule_row
  | PNext "go_error option" "go_error option" int rule_row
  | PUpdate "go_error option" rule_row
  | PPath "go_error option" "go_error option" int string string
  | PDelete "go_error option" "go_error option" int
  | PResolve "go_error option" rule_call string string string
  | PHasAny "go_error option" rule_call string string

definition resolver_inv :: "url_lib \<Rightarrow> (string \<Rightarrow> string \<Rightarrow> rule_resolver \<Rightarrow> rule_resolver) option" where
  "resolver_inv L = Some (rule_Invalidate L)"

fun store_step :: "url_lib \<Rightarrow> regex_lib \<Rightarrow> rule_db \<Rightarrow> store_op \<Rightarrow> rule_row list \<times> rule_resolver \<Rightarrow> rule_row list \<times> rule_resolver" where
  "store_step L re D (PInsert db i rec) s = snd (inv_Insert D (resolver_inv L) db i rec s)"
| "store_step L re D (PNext db1 db2 i rec) s = snd (inv_InsertNextVersion D (resolver_inv L) db1 (\<lambda>x. x) db2 i rec s)"
| "store_step L re D (PUpdate db rec) s = snd (inv_Update D (resolver_inv L) db rec s)"
| "store_step L re D (PPath db1 db2 i pat desc) s = snd (inv_UpdatePathPattern D (resolver_inv L) db1 db2 i pat desc s)"
| "store_step L re D (PDelete db1 db2 i) s = snd (inv_Delete D (resolver_inv L) db1 db2 i s)"
| "store_step L re D (PResolve db c host path tt) s = (fst s, snd (rule_Resolve L re (with_table D db (fst s) c) host path tt (snd s)))"
| "store_step L re D (PHasAny db c host tt) s = (fst s, snd (HasAnyRule L (with_table D db (fst s) c) host tt (snd s)))"

text \<open>
  What the decorator relies on: an update names the host and type of its row, and the lookup before a change by id
  does not fail unless the change does.
\<close>

fun names_its_row :: "rule_db \<Rightarrow> rule_row list \<Rightarrow> store_op \<Rightarrow> bool" where
  "names_its_row D rows (PUpdate db rec) \<longleftrightarrow>
     (\<forall>x \<in> set rows. ru_id (gr_rule x) = ru_id (gr_rule rec)
        \<longrightarrow> ru_host (gr_rule x) = ru_host (gr_rule rec) \<and> ru_type (gr_rule x) = ru_type (gr_rule rec))"
| "names_its_row D rows (PPath db1 db2 i pat desc) \<longleftrightarrow> db1 = None \<and> (\<forall>x \<in> set rows. ru_id (gr_rule x) = i \<longrightarrow> rd_scan D x = None)"
| "names_its_row D rows (PDelete db1 db2 i) \<longleftrightarrow> db1 = None \<and> (\<forall>x \<in> set rows. ru_id (gr_rule x) = i \<longrightarrow> rd_scan D x = None)"
| "names_its_row D rows (PInsert db i rec) \<longleftrightarrow> fresh_id i rows"
| "names_its_row D rows (PNext db1 db2 i rec) \<longleftrightarrow> fresh_id i rows"
| "names_its_row D rows (PResolve db c host path tt) \<longleftrightarrow> True"
| "names_its_row D rows (PHasAny db c host tt) \<longleftrightarrow> True"

inductive store_runs ::
  "url_lib \<Rightarrow> regex_lib \<Rightarrow> rule_db \<Rightarrow> rule_row list \<times> rule_resolver \<Rightarrow> rule_row list \<times> rule_resolver \<Rightarrow> bool"
  for L re D s0 where
  start: "store_runs L re D s0 s0"
| step: "store_runs L re D s0 s \<Longrightarrow> names_its_row D (fst s) op \<Longrightarrow> store_runs L re D s0 (store_step L re D op s)"

text \<open>A change that only touches rows of one host and type.\<close>

definition touches :: "string \<Rightarrow> string \<Rightarrow> rule_row list \<Rightarrow> rule_row list \<Rightarrow> bool" where
  "touches h t rows rows' \<longleftrightarrow>
     (\<forall>h' t'. (h', t') \<noteq> (h, t) \<longrightarrow>
        filter (\<lambda>x. ru_host (gr_rule x) = h' \<and> ru_type (gr_rule x) = t') rows'
        = filter (\<lambda>x. ru_host (gr_rule x) = h' \<and> ru_type (gr_rule x) = t') rows)"

lemma active_rows_filter:
  "active_rows D h t rows = sort_key (\<lambda>x. (- int (rd_chars D (ru_path (gr_rule x))), - ru_version (gr_rule x)))
     (filter (\<lambda>x. ru_enabled (gr_rule x)) (filter (\<lambda>x. ru_host (gr_rule x) = h \<and> ru_type (gr_rule x) = t) rows))"
  by (simp add: active_rows_def conj_ac)

lemma touches_keeps:
  assumes "touches h t rows rows'" and "(h', t') \<noteq> (h, t)"
  shows "active_rows D h' t' rows' = active_rows D h' t' rows \<and> has_answer h' t' rows' = has_answer h' t' rows"
proof -
  have "filter (\<lambda>x. ru_host (gr_rule x) = h' \<and> ru_type (gr_rule x) = t') rows'
      = filter (\<lambda>x. ru_host (gr_rule x) = h' \<and> ru_type (gr_rule x) = t') rows" using assms unfolding touches_def by blast
  then show ?thesis unfolding active_rows_filter has_answer_def by simp
qed

lemma cache_holds_delete:
  assumes "cache_holds L f cache" and "\<And>k. k \<noteq> (h, t) \<Longrightarrow> g k = f k"
  shows "cache_holds L g (AList.delete (ul_lower L h, t) cache)"
  unfolding cache_holds_def
proof (intro allI impI)
  fix k v e assume m: "map_of (AList.delete (ul_lower L h, t) cache) k = Some (v, e)"
  then have k: "k \<noteq> (ul_lower L h, t)" and "map_of cache k = Some (v, e)" by (auto simp: delete_conv split: if_splits)
  then have "v = f k" "ul_lower L (fst k) = fst k" using assms(1) unfolding cache_holds_def by blast+
  moreover from this have "k \<noteq> (h, t)" using k by auto
  ultimately show "v = g k \<and> ul_lower L (fst k) = fst k" using assms(2) by simp
qed

lemma cache_holds_store:
  assumes "cache_holds L f cache" and "v = f (h, t)" and "ul_lower L h = h"
  shows "cache_holds L f (AList.update (h, t) (v, e) (evict_soonest mx ord cache))"
  unfolding cache_holds_def
proof (intro allI impI)
  fix k v' e' assume "map_of (AList.update (h, t) (v, e) (evict_soonest mx ord cache)) k = Some (v', e')"
  then have "k = (h, t) \<and> v' = v \<or> map_of (evict_soonest mx ord cache) k = Some (v', e')"
    by (auto simp: update_conv split: if_splits)
  moreover have "map_of (evict_soonest mx ord cache) k = Some y \<Longrightarrow> map_of cache k = Some y" for y
    by (auto simp: evict_soonest_def delete_conv split: if_splits option.splits)
  ultimately show "v' = f k \<and> ul_lower L (fst k) = fst k" using assms unfolding cache_holds_def by fastforce
qed

lemma coherent_change:
  assumes c: "coherent L D rows r" and t: "touches h t rows rows'"
  shows "coherent L D rows' (rule_Invalidate L h t r)"
proof -
  have same: "table_rules D rows' k = table_rules D rows k" "table_has rows' k = table_has rows k" if "k \<noteq> (h, t)" for k
    using touches_keeps [OF t, of "fst k" "snd k" D] that by (simp_all add: table_rules_def table_has_def)
  have "cache_holds L (table_rules D rows) (rv_cache r)" "cache_holds L (table_has rows) (rv_has r)"
    using c by (simp_all add: coherent_def)
  then have "cache_holds L (table_rules D rows') (AList.delete (ul_lower L h, t) (rv_cache r))"
    "cache_holds L (table_has rows') (AList.delete (ul_lower L h, t) (rv_has r))"
    using cache_holds_delete [of L _ _ h t] same by blast+
  then show ?thesis by (simp add: coherent_def rule_Invalidate_def Let_def)
qed

lemma touches_refl [simp]: "touches h t rows rows"
  by (simp add: touches_def)

lemma touches_add: "touches (ru_host (gr_rule x)) (ru_type (gr_rule x)) rows (rows @ [x])"
  by (auto simp: touches_def)

lemma touches_map:
  assumes "\<And>x. x \<in> set rows \<Longrightarrow> P x \<Longrightarrow> ru_host (gr_rule x) = h \<and> ru_type (gr_rule x) = t"
    and "\<And>x. ru_host (gr_rule (f x)) = ru_host (gr_rule x)" "\<And>x. ru_type (gr_rule (f x)) = ru_type (gr_rule x)"
  shows "touches h t rows (map (\<lambda>x. if P x then f x else x) rows)"
  using assms(1)
proof (induction rows)
  case (Cons x rows)
  have "touches h t rows (map (\<lambda>x. if P x then f x else x) rows)" by (rule Cons.IH) (use Cons.prems in auto)
  moreover have "P x \<Longrightarrow> ru_host (gr_rule x) = h \<and> ru_type (gr_rule x) = t" using Cons.prems by auto
  ultimately show ?case unfolding touches_def using assms(2,3) by auto
qed simp

lemma touches_filter:
  assumes "\<And>x. x \<in> set rows \<Longrightarrow> \<not> P x \<Longrightarrow> ru_host (gr_rule x) = h \<and> ru_type (gr_rule x) = t"
  shows "touches h t rows (filter P rows)"
  using assms
proof (induction rows)
  case (Cons x rows)
  have "touches h t rows (filter P rows)" by (rule Cons.IH) (use Cons.prems in auto)
  moreover have "\<not> P x \<Longrightarrow> ru_host (gr_rule x) = h \<and> ru_type (gr_rule x) = t" using Cons.prems by auto
  ultimately show ?case unfolding touches_def by auto
qed simp

lemma FindActive_ok: "FindActiveCandidates D db h t rows = Inr xs \<Longrightarrow> xs = active_rows D h t rows"
  by (auto simp: FindActiveCandidates_def scan_all_def split: option.splits)

lemma resolve_coherent:
  assumes c: "coherent L D rows r" and l: "\<And>x. ul_lower L (ul_lower L x) = ul_lower L x"
  shows "coherent L D rows (snd (rule_Resolve L re (with_table D db rows cl) host path tt r))"
proof -
  let ?key = "(ul_lower L host, tt)"
  show ?thesis
  proof (cases "lookupCache (kc_now (with_table D db rows cl)) ?key r")
    case (Some cands)
    then show ?thesis using c by (simp add: snd_rule_Resolve resolve_candidates_def)
  next
    case None
    show ?thesis
    proof (cases "FindActiveCandidates D db (ul_lower L host) tt rows")
      case (Inl e)
      then show ?thesis using None c by (simp add: snd_rule_Resolve resolve_candidates_def with_table_def)
    next
      case (Inr xs)
      have "map gr_rule xs = table_rules D rows (ul_lower L host, tt)" using FindActive_ok [OF Inr] by (simp add: table_rules_def)
      then show ?thesis using None Inr c l
        by (simp add: snd_rule_Resolve resolve_candidates_def with_table_def storeCache_def coherent_def cache_holds_store)
    qed
  qed
qed

lemma has_any_coherent:
  assumes c: "coherent L D rows r" and l: "\<And>x. ul_lower L (ul_lower L x) = ul_lower L x"
  shows "coherent L D rows (snd (HasAnyRule L (with_table D db rows cl) host tt r))"
proof -
  have "coherent L D rows (snd (has_any_query (with_table D db rows cl) (ul_lower L host, tt) r))"
    using c l
    by (cases db) (simp_all add: has_any_query_def with_table_def stmt_HasAnyRule_def table_has_def has_answer_def Let_def
        coherent_def cache_holds_store)
  then show ?thesis using c by (auto simp: HasAnyRule_def Let_def split: option.splits)
qed

lemma coherent_invalidate_only:
  assumes "coherent L D rows r"
  shows "coherent L D rows (rule_Invalidate L h t r)"
  using coherent_change [OF assms touches_refl] .

lemma found_row:
  assumes "table_ok rows" and "find (\<lambda>x. ru_id (gr_rule x) = i) rows = Some x" and "y \<in> set rows" and "ru_id (gr_rule y) = i"
  shows "y = x"
  using assms by (auto simp: table_ok_def distinct_map inj_on_def find_Some_iff)

lemma lookup_finds:
  assumes "find (\<lambda>x. ru_id (gr_rule x) = i) rows = Some x" and "\<forall>x \<in> set rows. ru_id (gr_rule x) = i \<longrightarrow> rd_scan D x = None"
  shows "rule_GetByID D None i rows = Inr x"
proof -
  have "x \<in> set rows" "ru_id (gr_rule x) = i" using assms(1) by (auto simp: find_Some_iff)
  then have "rd_scan D x = None" using assms(2) by blast
  then show ?thesis using assms(1) by (simp add: rule_GetByID_def scan_one_def)
qed

lemma store_step_coherent:
  assumes c: "coherent L D (fst s) (snd s)" and ok: "table_ok (fst s)" and n: "names_its_row D (fst s) op"
    and l: "\<And>x. ul_lower L (ul_lower L x) = ul_lower L x"
  shows "coherent L D (fst (store_step L re D op s)) (snd (store_step L re D op s))"
proof (cases op)
  case (PInsert db i rec)
  obtain err rows' where e: "rule_Insert D db i rec (fst s) = (err, rows')" by (rule prod.exhaust)
  from rule_Insert_cases [OF e] show ?thesis
  proof (elim disjE conjE)
    assume "rows' = fst s" "err \<noteq> None"
    then show ?thesis using c coherent_invalidate_only
      by (simp add: PInsert inv_Insert_def e resolver_inv_def invalidate_cache_def)
  next
    assume "err = None" "rows' = fst s @ [normalized_row i rec]"
    then show ?thesis using coherent_change [OF c touches_add [of "normalized_row i rec"]]
      by (simp add: PInsert inv_Insert_def e resolver_inv_def invalidate_cache_def written_or_there_def)
  qed
next
  case (PNext db1 db2 i rec)
  obtain err rows' where e: "InsertNextVersion D db1 (\<lambda>x. x) db2 i rec (fst s) = (err, rows')" by (rule prod.exhaust)
  let ?x = "normalized_row i (at_version (max_version rec (fst s) + 1) rec)"
  from InsertNextVersion_cases [OF e] show ?thesis
  proof (elim disjE conjE)
    assume "rows' \<in> {fst s, fst s}" "err \<noteq> None"
    then show ?thesis using c coherent_invalidate_only
      by (simp add: PNext inv_InsertNextVersion_def e resolver_inv_def invalidate_cache_def)
  next
    assume "err = None" "rows' = fst s @ [?x]"
    then show ?thesis using coherent_change [OF c touches_add [of ?x]]
      by (simp add: PNext inv_InsertNextVersion_def e resolver_inv_def invalidate_cache_def written_or_there_def)
  qed
next
  case (PUpdate db rec)
  obtain err rows' where e: "rule_Update D db rec (fst s) = (err, rows')" by (rule prod.exhaust)
  from rule_Update_cases [OF e] show ?thesis
  proof (elim disjE conjE)
    assume "rows' = fst s" "err \<noteq> None"
    then show ?thesis using c by (auto simp: PUpdate inv_Update_def e)
  next
    assume r: "err = None" "rows' = map (\<lambda>x. if ru_id (gr_rule x) = ru_id (gr_rule rec) then updated_row rec x else x) (fst s)"
    have "touches (ru_host (gr_rule rec)) (ru_type (gr_rule rec)) (fst s) rows'"
      unfolding r(2) by (rule touches_map) (use n PUpdate in auto)
    from coherent_change [OF c this] show ?thesis
      using r(1) by (simp add: PUpdate inv_Update_def e resolver_inv_def invalidate_cache_def)
  qed
next
  case (PPath db1 db2 i pat desc)
  obtain err rows' where e: "UpdatePathPattern D db2 i pat desc (fst s) = (err, rows')" by (rule prod.exhaust)
  from UpdatePathPattern_cases [OF e] show ?thesis
  proof (elim disjE conjE)
    assume "rows' = fst s" "err \<noteq> None"
    then show ?thesis using c by (cases err) (simp_all add: PPath inv_UpdatePathPattern_def after_lookup_def e)
  next
    assume r: "err = None" "rows' = map (\<lambda>x. if catch_all_of i x then repath pat desc x else x) (fst s)"
      and ex: "\<exists>x \<in> set (fst s). catch_all_of i x"
    then obtain x where f: "find (\<lambda>x. ru_id (gr_rule x) = i) (fst s) = Some x"
      by (cases "find (\<lambda>x. ru_id (gr_rule x) = i) (fst s)") (auto simp: find_None_iff catch_all_of_def)
    have "touches (ru_host (gr_rule x)) (ru_type (gr_rule x)) (fst s) rows'"
      unfolding r(2) by (rule touches_map) (auto simp: catch_all_of_def dest: found_row [OF ok f])
    then show ?thesis using coherent_change [OF c] r(1) lookup_finds [OF f] n
      by (simp add: PPath inv_UpdatePathPattern_def after_lookup_def e resolver_inv_def invalidate_cache_def)
  qed
next
  case (PDelete db1 db2 i)
  obtain err rows' where e: "rule_Delete db2 i (fst s) = (err, rows')" by (rule prod.exhaust)
  from rule_Delete_cases [OF e] show ?thesis
  proof (elim disjE conjE)
    assume "rows' = fst s" "err \<noteq> None"
    then show ?thesis using c by (cases err) (simp_all add: PDelete inv_Delete_def after_lookup_def e)
  next
    assume r: "err = None" "rows' = filter (\<lambda>x. ru_id (gr_rule x) \<noteq> i) (fst s)"
    show ?thesis
    proof (cases "find (\<lambda>x. ru_id (gr_rule x) = i) (fst s)")
      case None
      then have "rows' = fst s" unfolding r(2) by (auto simp: find_None_iff intro: filter_True)
      then show ?thesis using r(1) None n c
        by (simp add: PDelete inv_Delete_def after_lookup_def e rule_GetByID_def scan_one_def)
    next
      case (Some x)
      have "touches (ru_host (gr_rule x)) (ru_type (gr_rule x)) (fst s) rows'"
        unfolding r(2) by (rule touches_filter) (auto dest: found_row [OF ok Some])
      then show ?thesis using coherent_change [OF c] r(1) lookup_finds [OF Some] n
        by (simp add: PDelete inv_Delete_def after_lookup_def e resolver_inv_def invalidate_cache_def)
    qed
  qed
next
  case (PResolve db cl host path tt)
  then show ?thesis using resolve_coherent [OF c l] by simp
next
  case (PHasAny db cl host tt)
  then show ?thesis using has_any_coherent [OF c l] by simp
qed

lemma store_step_ok:
  assumes ok: "table_ok (fst s)" and n: "names_its_row D (fst s) op"
  shows "table_ok (fst (store_step L re D op s))"
proof -
  note k = statements_keep_keys [of "fst s" "\<lambda>x. x", OF ok ok]
  have "\<exists>i. i \<notin> (ru_id \<circ> gr_rule) ` set (fst s)" by (rule ex_new_if_finite [OF infinite_UNIV_int]) simp
  then obtain i where "i \<notin> (ru_id \<circ> gr_rule) ` set (fst s)" ..
  then have f: "fresh_id i (fst s)" by (simp add: fresh_id_def)
  have after: "fst (snd (after_lookup cb found (e, rows) c)) = rows" for cb found e rows and c :: rule_resolver
    by (cases e) (simp_all add: after_lookup_def)
  show ?thesis
  proof (cases op)
    case (PInsert db i rec)
    obtain e rows where r: "rule_Insert D db i rec (fst s) = (e, rows)" by (rule prod.exhaust)
    have "fresh_id i (fst s)" using n PInsert by simp
    then have "table_ok rows" using k r by (metis snd_conv)
    then show ?thesis by (simp add: PInsert inv_Insert_def r)
  next
    case (PNext db1 db2 i rec)
    obtain e rows where r: "InsertNextVersion D db1 (\<lambda>x. x) db2 i rec (fst s) = (e, rows)" by (rule prod.exhaust)
    have "fresh_id i (fst s)" using n PNext by simp
    then have "table_ok rows" using k r by (metis snd_conv)
    then show ?thesis by (simp add: PNext inv_InsertNextVersion_def r)
  next
    case (PUpdate db rec)
    obtain e rows where r: "rule_Update D db rec (fst s) = (e, rows)" by (rule prod.exhaust)
    have "table_ok rows" using k [OF f f] r by (metis snd_conv)
    then show ?thesis by (simp add: PUpdate inv_Update_def r)
  next
    case (PPath db1 db2 i pat desc)
    obtain e rows where r: "UpdatePathPattern D db2 i pat desc (fst s) = (e, rows)" by (rule prod.exhaust)
    have "table_ok rows" using k [OF f f] r by (metis snd_conv)
    then show ?thesis by (simp add: PPath inv_UpdatePathPattern_def r after)
  next
    case (PDelete db1 db2 i)
    obtain e rows where r: "rule_Delete db2 i (fst s) = (e, rows)" by (rule prod.exhaust)
    have "table_ok rows" using k [OF f f] r by (metis snd_conv)
    then show ?thesis by (simp add: PDelete inv_Delete_def r after)
  qed (use ok in simp_all)
qed

section \<open>What the resolver answers\<close>

lemma store_runs_ok:
  assumes "store_runs L re D s0 s" and "table_ok (fst s0)" and "coherent L D (fst s0) (snd s0)"
    and "\<And>x. ul_lower L (ul_lower L x) = ul_lower L x"
  shows "table_ok (fst s) \<and> coherent L D (fst s) (snd s)"
  using assms(1)
proof induction
  case (step s op)
  then show ?case using store_step_ok store_step_coherent assms(4) by blast
qed (use assms(2,3) in simp)

text \<open>C19. Behind the decorator the resolver's cache follows the table: after any sequence of changes and lookups in
  which no lookup before a change fails, keys are unique and a resolve answers what the rows say, whether it is
  served from the cache or not, or reports the failure of its query.\<close>

theorem resolver_follows_table:
  assumes run: "store_runs L re D (rows0, r0) (rows, r)" and "table_ok rows0" and "rv_cache r0 = []" "rv_has r0 = []"
    and l: "\<And>x. ul_lower L (ul_lower L x) = ul_lower L x"
  shows "table_ok rows
    \<and> (fst (rule_Resolve L re (with_table D db rows c) host path tt r)
         = choose_rule re (ul_lower L host) path tt (map gr_rule (active_rows D (ul_lower L host) tt rows))
       \<or> (\<exists>err. FindActiveCandidates D db (ul_lower L host) tt rows = Inl err
            \<and> fst (rule_Resolve L re (with_table D db rows c) host path tt r)
              = Inl (Wrapped (''find active candidates ('' @ ul_lower L host @ '', '' @ tt @ '')'') err)))"
proof -
  have "coherent L D rows0 r0" using assms(3,4) by (simp add: coherent_def cache_holds_def)
  then have ok: "table_ok rows" and c: "coherent L D rows r" using store_runs_ok [OF run] assms(2) l by simp_all
  let ?key = "(ul_lower L host, tt)"
  have "fst (rule_Resolve L re (with_table D db rows c) host path tt r)
         = choose_rule re (ul_lower L host) path tt (map gr_rule (active_rows D (ul_lower L host) tt rows))
       \<or> (\<exists>err. FindActiveCandidates D db (ul_lower L host) tt rows = Inl err
            \<and> fst (rule_Resolve L re (with_table D db rows c) host path tt r)
              = Inl (Wrapped (''find active candidates ('' @ ul_lower L host @ '', '' @ tt @ '')'') err))" for c
  proof (cases "lookupCache (kc_now (with_table D db rows c)) ?key r")
    case (Some cands)
    then obtain e where "map_of (rv_cache r) ?key = Some (cands, e)"
      by (auto simp: lookupCache_def split: option.splits if_splits)
    then have "cands = table_rules D rows ?key" using \<open>coherent L D rows r\<close> unfolding coherent_def cache_holds_def by blast
    then show ?thesis using Some by (simp add: rule_Resolve_def resolve_candidates_def table_rules_def Let_def)
  next
    case None
    then show ?thesis using FindActive_ok [of D db "ul_lower L host" tt rows]
      by (cases "FindActiveCandidates D db (ul_lower L host) tt rows")
        (simp_all add: rule_Resolve_def resolve_candidates_def with_table_def storeCache_def Let_def)
  qed
  then show ?thesis using ok by blast
qed

definition no_selectors_map :: selector_map where
  "no_selectors_map = \<lparr>sm_title = None, sm_main = None, sm_summary = None, sm_author = None, sm_published = None,
     sm_category = None, sm_tags = None, sm_images = None, sm_item_container = None, sm_item_link = None,
     sm_item_title = None, sm_item_snippet = None, sm_discovery = None\<rparr>"

definition sample_row :: "string \<Rightarrow> bool \<Rightarrow> rule_row" where
  "sample_row path article =
     \<lparr>gr_rule = \<lparr>ru_id = 1, ru_source = ''llm-auto'', ru_host = ''h'', ru_path = path, ru_type = ''page'', ru_version = 1,
                 ru_enabled = True, ru_selectors = no_selectors_map, ru_article = article\<rparr>,
      gr_confidence = Map.empty, gr_description = [], gr_page_type = ''news'', pr_priority = 1\<rparr>"

definition sample_db :: rule_db where
  "sample_db = \<lparr>rd_regex = (\<lambda>p. Inr (\<lambda>s. s = p)), rd_chars = length, rd_marshal_sel = (\<lambda>_. None), rd_marshal_conf = (\<lambda>_. None),
     rd_scan = (\<lambda>_. None), rd_unique = Opaque ''duplicate key'', rd_arrange = (\<lambda>x. x)\<rparr>"

definition sample_lib :: url_lib where
  "sample_lib = \<lparr>ul_parse = (\<lambda>u. Inl (Opaque [])), ul_string = (\<lambda>u. []), ul_resolve = (\<lambda>a b. b), ul_lower = (\<lambda>s. s),
     ul_trim = (\<lambda>s. s), ul_parse_query = (\<lambda>_. None), ul_encode = (\<lambda>_. [])\<rparr>"

definition sample_call :: rule_call where
  "sample_call = \<lparr>kc_now = 0, kc_later = 1, kc_order = (\<lambda>x. x), kc_find = (\<lambda>_ _. Inr []), kc_has = (\<lambda>_ _. Inr (False, False))\<rparr>"

definition empty_resolver :: rule_resolver where "empty_resolver = NewResolver []"

lemma sample_lib_lower [simp]: "ul_lower sample_lib x = x"
  by (simp add: sample_lib_def)

lemma first_some_never [simp]: "first_some (\<lambda>_. None) xs = None"
  by simp

lemma sample_table_ok: "table_ok [sample_row p a]"
  by (simp add: table_ok_def)

text \<open>One row is cached by a resolve, then deleted through the decorator: the next resolve finds no rule.\<close>

theorem resolver_follows_table_witness:
  "let s1 = store_step sample_lib (\<lambda>_. Inr (\<lambda>_. True)) sample_db (PResolve None sample_call ''h'' ''/a'' ''page'')
              ([sample_row [] True], empty_resolver);
       s2 = store_step sample_lib (\<lambda>_. Inr (\<lambda>_. True)) sample_db (PDelete None None 1) s1
   in rv_cache (snd s1) \<noteq> [] \<and> fst s2 = []
      \<and> fst (rule_Resolve sample_lib (\<lambda>_. Inr (\<lambda>_. True)) (with_table sample_db None (fst s2) sample_call) ''h'' ''/a'' ''page'' (snd s2))
        = Inl (mk_rule_error ErrNoRule ''no active rule (cached)'' ''h'' [] ''page'' None)"
proof -
  let ?re = "\<lambda>_ :: string. (Inr (\<lambda>_. True) :: go_error + (string \<Rightarrow> bool))"
  let ?s0 = "([sample_row [] True], empty_resolver)"
  define s1 where "s1 = store_step sample_lib ?re sample_db (PResolve None sample_call ''h'' ''/a'' ''page'') ?s0"
  define s2 where "s2 = store_step sample_lib ?re sample_db (PDelete None None 1) s1"
  have c: "rv_cache (snd s1) \<noteq> []" "fst s1 = [sample_row [] True]"
    by (simp_all add: s1_def snd_rule_Resolve resolve_candidates_def lookupCache_def empty_resolver_def NewResolver_def
        with_table_def FindActiveCandidates_def scan_all_def sample_db_def storeCache_def)
  have d: "fst s2 = []"
    by (simp add: s2_def inv_Delete_def after_lookup_def rule_Delete_def c sample_row_def)
  have "store_runs sample_lib ?re sample_db ?s0 s1"
    unfolding s1_def by (rule store_runs.step [OF store_runs.start]) simp
  then have run: "store_runs sample_lib ?re sample_db ?s0 (fst s2, snd s2)"
    unfolding s2_def prod.collapse by (rule store_runs.step) (simp add: sample_db_def)
  have "fst (rule_Resolve sample_lib ?re (with_table sample_db None (fst s2) sample_call) ''h'' ''/a'' ''page'' (snd s2))
      = choose_rule ?re ''h'' ''/a'' ''page'' []"
    using resolver_follows_table [OF run sample_table_ok, of None sample_call "''h''" "''/a''" "''page''"] d
    by (simp add: empty_resolver_def NewResolver_def active_rows_def FindActiveCandidates_def scan_all_def)
  then show ?thesis using c d unfolding Let_def s1_def [symmetric] s2_def [symmetric] by (simp add: choose_rule_def)
qed

text \<open>When the lookup fails the delete still goes on and the cache keeps the deleted rule.\<close>

theorem failed_lookup_keeps_deleted_rule:
  "let s1 = store_step sample_lib (\<lambda>_. Inr (\<lambda>_. True)) sample_db (PResolve None sample_call ''h'' ''/a'' ''page'')
              ([sample_row [] True], empty_resolver);
       (err, s2) = inv_Delete sample_db (resolver_inv sample_lib) (Some (Opaque ''timeout'')) None 1 s1
   in err = None \<and> fst s2 = []
      \<and> fst (rule_Resolve sample_lib (\<lambda>_. Inr (\<lambda>_. True)) (with_table sample_db None (fst s2) sample_call) ''h'' ''/a'' ''page'' (snd s2))
        = Inr (gr_rule (sample_row [] True))"
  by (simp add: snd_rule_Resolve rule_Resolve_def resolve_candidates_def lookupCache_def empty_resolver_def NewResolver_def
      with_table_def FindActiveCandidates_def scan_all_def sample_db_def storeCache_def inv_Delete_def after_lookup_def
      rule_GetByID_def scan_one_def rule_Delete_def active_rows_def sample_row_def sample_call_def choose_rule_def
      pathMatches_def evict_soonest_def candidates_ttl_def DefaultCacheTTL_def DefaultMaxCacheEntries_def Let_def)

section \<open>A new version\<close>

text \<open>The row whose rule a path gets.\<close>

definition row_for :: "rule_db \<Rightarrow> regex_lib \<Rightarrow> rule_row list \<Rightarrow> string \<Rightarrow> string \<Rightarrow> string \<Rightarrow> rule_row option" where
  "row_for D re rows host tt path = find (\<lambda>x. pathMatches re (ru_path (gr_rule x)) path) (active_rows D host tt rows)"

lemma choose_row:
  "choose_rule re host path tt (map gr_rule (active_rows D host tt rows)) = Inr r
     \<longleftrightarrow> (\<exists>x. row_for D re rows host tt path = Some x \<and> gr_rule x = r)"
proof -
  have m: "find P (map gr_rule xs) = map_option gr_rule (find (P \<circ> gr_rule) xs)" for P and xs :: "rule_row list"
    by (induction xs) auto
  show ?thesis by (auto simp: choose_rule_def row_for_def m comp_def split: option.splits)
qed

lemma find_by_filter: "find P xs = (case filter P xs of [] \<Rightarrow> None | x # _ \<Rightarrow> Some x)"
  by (induction xs) auto

lemma row_for_sorted:
  "row_for D re rows host tt path =
     (case sort_key (\<lambda>x. (- int (rd_chars D (ru_path (gr_rule x))), - ru_version (gr_rule x)))
        (filter (\<lambda>x. ru_host (gr_rule x) = host \<and> ru_type (gr_rule x) = tt \<and> ru_enabled (gr_rule x)
                     \<and> pathMatches re (ru_path (gr_rule x)) path) rows)
      of [] \<Rightarrow> None | x # _ \<Rightarrow> Some x)"
  unfolding row_for_def find_by_filter active_rows_def filter_sort by (simp add: conj_ac)

lemma sort_key_snoc_first:
  fixes f :: "'a \<Rightarrow> 'b::linorder"
  assumes "\<forall>y \<in> set xs. f x < f y"
  shows "sort_key f (xs @ [x]) = x # sort_key f xs"
proof -
  have "insort_key f y (x # zs) = x # insort_key f y zs" if "f x < f y" for y zs using that by (auto dest: leD)
  with assms show ?thesis by (induction xs) auto
qed

text \<open>C27. A new version with a path pattern leaves every row as it was and changes only what the pattern matches: another
  host, type or path keeps its rule, and a matched path gets the new rule when every active rule that matches it has a
  shorter pattern, such as the catch-all.\<close>

theorem next_version_changes_matches_only:
  assumes "InsertNextVersion D None (\<lambda>x. x) None i rec rows = (None, rows')"
  shows "\<exists>new. rows' = rows @ [new] \<and> ru_id (gr_rule new) = i \<and> natural_key new \<notin> natural_key ` set rows
    \<and> ru_selectors (gr_rule new) = ru_selectors (gr_rule rec) \<and> ru_article (gr_rule new) = ru_article (gr_rule rec)
    \<and> pr_priority new = (if pr_priority rec \<in> {1, 2, 3} then pr_priority rec else 2)
    \<and> (\<forall>host tt path.
         (if host = ru_host (gr_rule rec) \<and> tt = ru_type (gr_rule rec) \<and> pathMatches re (ru_path (gr_rule rec)) path
             \<and> ru_enabled (gr_rule rec)
          then (\<forall>x \<in> set (active_rows D host tt rows). pathMatches re (ru_path (gr_rule x)) path
                  \<longrightarrow> rd_chars D (ru_path (gr_rule x)) < rd_chars D (ru_path (gr_rule rec)))
               \<longrightarrow> row_for D re rows' host tt path = Some new
          else row_for D re rows' host tt path = row_for D re rows host tt path))"
proof -
  define new where "new = normalized_row i (at_version (max_version rec rows + 1) rec)"
  have r: "rows' = rows @ [new]" "natural_key new \<notin> natural_key ` set rows"
    using InsertNextVersion_cases [OF assms] by (auto simp: new_def)
  have n: "ru_host (gr_rule new) = ru_host (gr_rule rec)" "ru_type (gr_rule new) = ru_type (gr_rule rec)"
    "ru_path (gr_rule new) = ru_path (gr_rule rec)" "ru_enabled (gr_rule new) = ru_enabled (gr_rule rec)"
    by (simp_all add: new_def)
  have other: "row_for D re rows' host tt path = row_for D re rows host tt path"
    if "\<not> (host = ru_host (gr_rule rec) \<and> tt = ru_type (gr_rule rec) \<and> pathMatches re (ru_path (gr_rule rec)) path
             \<and> ru_enabled (gr_rule rec))" for host tt path
    unfolding row_for_sorted r(1) using that n by auto
  have this_one: "row_for D re rows' host tt path = Some new"
    if h: "host = ru_host (gr_rule rec) \<and> tt = ru_type (gr_rule rec) \<and> pathMatches re (ru_path (gr_rule rec)) path
             \<and> ru_enabled (gr_rule rec)"
      and s: "\<forall>x \<in> set (active_rows D host tt rows). pathMatches re (ru_path (gr_rule x)) path
                  \<longrightarrow> rd_chars D (ru_path (gr_rule x)) < rd_chars D (ru_path (gr_rule rec))" for host tt path
  proof -
    let ?f = "\<lambda>x. (- int (rd_chars D (ru_path (gr_rule x))), - ru_version (gr_rule x))"
    let ?xs = "filter (\<lambda>x. ru_host (gr_rule x) = host \<and> ru_type (gr_rule x) = tt \<and> ru_enabled (gr_rule x)
                     \<and> pathMatches re (ru_path (gr_rule x)) path) rows"
    have "?f new < ?f y" if "y \<in> set ?xs" for y
    proof -
      have "y \<in> set (active_rows D host tt rows)" using that by (simp add: active_rows_def)
      then have "rd_chars D (ru_path (gr_rule y)) < rd_chars D (ru_path (gr_rule rec))" using s that by auto
      then show ?thesis using n by (simp add: less_prod_def)
    qed
    then have "sort_key ?f (?xs @ [new]) = new # sort_key ?f ?xs" by (intro sort_key_snoc_first) blast
    then show ?thesis unfolding row_for_sorted r(1) using h n by simp
  qed
  have f: "ru_id (gr_rule new) = i" "ru_selectors (gr_rule new) = ru_selectors (gr_rule rec)"
    "ru_article (gr_rule new) = ru_article (gr_rule rec)"
    "pr_priority new = (if pr_priority rec \<in> {1, 2, 3} then pr_priority rec else 2)"
    by (auto simp: new_def normalized_row_def at_version_def)
  show ?thesis
    by (rule exI [of _ new]) (use r f other this_one in auto)
qed

lemma sample_next:
  "InsertNextVersion sample_db None (\<lambda>x. x) None 2 (sample_row ''/a'' False) [sample_row [] True]
     = (None, [sample_row [] True, (sample_row ''/a'' False)\<lparr>gr_rule := (gr_rule (sample_row ''/a'' False))\<lparr>ru_id := 2\<rparr>\<rparr>])"
  by (simp add: InsertNextVersion_def bad_rule_pattern_def sample_db_def rule_Insert_def marshal_error_def natural_key_def
      normalized_row_def at_version_def max_version_def sample_row_def)

theorem next_version_changes_matches_only_witness:
  "row_for sample_db (\<lambda>p. Inr (\<lambda>s. s = p))
     [sample_row [] True, (sample_row ''/a'' False)\<lparr>gr_rule := (gr_rule (sample_row ''/a'' False))\<lparr>ru_id := 2\<rparr>\<rparr>] ''h'' ''page'' ''/b''
   = Some (sample_row [] True)"
proof -
  have "row_for sample_db (\<lambda>p. Inr (\<lambda>s. s = p)) [sample_row [] True] ''h'' ''page'' ''/b'' = Some (sample_row [] True)"
    by (simp add: row_for_sorted sample_row_def pathMatches_def)
  moreover have "row_for sample_db (\<lambda>p. Inr (\<lambda>s. s = p))
     [sample_row [] True, (sample_row ''/a'' False)\<lparr>gr_rule := (gr_rule (sample_row ''/a'' False))\<lparr>ru_id := 2\<rparr>\<rparr>] ''h'' ''page'' ''/b''
     = row_for sample_db (\<lambda>p. Inr (\<lambda>s. s = p)) [sample_row [] True] ''h'' ''page'' ''/b''"
  proof -
    have no: "\<not> (''h'' = ru_host (gr_rule (sample_row ''/a'' False)) \<and> ''page'' = ru_type (gr_rule (sample_row ''/a'' False))
        \<and> pathMatches (\<lambda>p. Inr (\<lambda>s. s = p)) (ru_path (gr_rule (sample_row ''/a'' False))) ''/b''
        \<and> ru_enabled (gr_rule (sample_row ''/a'' False)))" by (simp add: sample_row_def pathMatches_def)
    show ?thesis
      using next_version_changes_matches_only [OF sample_next, of "\<lambda>p. Inr (\<lambda>s. s = p)"] no by metis
  qed
  ultimately show ?thesis by simp
qed

end
