(* ===== verification/LlmClients.thy ===== *)
theory LlmClients
  imports CrawlCore "HOL-Library.Multiset" "HOL-Library.Product_Lexorder"
begin

text \<open>
  The model clients (\<^verbatim>\<open>pkg/llm\<close>): the HTTP client and its error classes (\<^verbatim>\<open>http.go\<close>), the three
  providers (\<^verbatim>\<open>providers\<close>), the retry decorator (\<^verbatim>\<open>retry.go\<close>), the measuring decorator
  (\<^verbatim>\<open>measured.go\<close>), the chain (\<^verbatim>\<open>chain\<close>) with its routing policies (\<^verbatim>\<open>policy\<close>) and the wiring
  (\<^verbatim>\<open>wiring\<close>, \<^verbatim>\<open>factory.go\<close>). A provider is a function on the system state, so decorators are functions
  of providers; the trace records calls and waits. Costs, latencies and weights are exact reals; the HTTP transport,
  JSON, URL escaping and the environment variables are parameters. Prometheus and logging are left out.
\<close>

section \<open>Requests and providers\<close>

record llm_message =
  lm_role :: string
  lm_content :: string

record llm_request =
  lq_messages :: "llm_message list"
  lq_model :: string
  lq_temperature :: real
  lq_max_tokens :: int
  lq_hint :: string

record llm_response =
  lr_content :: string
  lr_model :: string
  lr_in :: int
  lr_out :: int
  lr_stop :: string

definition RoleSystem :: string where "RoleSystem = ''system''"
definition RoleUser :: string where "RoleUser = ''user''"
definition RoleAssistant :: string where "RoleAssistant = ''assistant''"

lemmas llm_roles = RoleSystem_def RoleUser_def RoleAssistant_def

datatype llm_act = LlmCall string | LlmWait duration

type_synonym 'w llm_gen = "llm_request \<Rightarrow> (llm_act, 'w) sys \<Rightarrow> (go_error + llm_response) \<times> (llm_act, 'w) sys"

text \<open>The statistics of a measuring provider, read when a policy selects; \<open>None\<close> for another provider.\<close>

record llm_stats =
  ls_calls :: nat
  ls_failures :: nat
  ls_latency :: real

record 'w llm_provider =
  lp_name :: string
  lp_generate :: "'w llm_gen"
  lp_stats :: "llm_stats option"

definition llm_error :: "llm_code \<Rightarrow> string \<Rightarrow> string \<Rightarrow> bool \<Rightarrow> go_error option \<Rightarrow> go_error" where
  "llm_error code provider msg retryable err =
     LlmErr \<lparr>le_code = code, le_provider = provider, le_message = msg, le_retryable = retryable\<rparr> err"

definition llm_error_is :: "llm_error \<Rightarrow> llm_error \<Rightarrow> bool" where
  "llm_error_is e t \<longleftrightarrow> (le_code t = LlmNoCode \<or> le_code e = le_code t)
     \<and> (le_provider t = [] \<or> le_provider e = le_provider t) \<and> (le_message t = [] \<or> le_message e = le_message t)"

definition llm_IsRetryable :: "go_error option \<Rightarrow> bool" where
  "llm_IsRetryable eo =
     (case eo of None \<Rightarrow> False
      | Some err \<Rightarrow> (case as_llm err of None \<Rightarrow> False | Some l \<Rightarrow> le_retryable l))"

section \<open>The HTTP client\<close>

record http_env =
  he_url_err :: "string \<Rightarrow> go_error option"
  he_net_timeout :: "go_error \<Rightarrow> bool"
  he_status_text :: "int \<Rightarrow> string"
  he_trim :: "string \<Rightarrow> string"
  he_lower :: "string \<Rightarrow> string"

definition DefaultTimeout :: duration where "DefaultTimeout = 60 * second"

definition NewHTTPClient :: "duration \<Rightarrow> duration" where
  "NewHTTPClient timeout = (if timeout \<le> 0 then DefaultTimeout else timeout)"

text \<open>The branch for \<^verbatim>\<open>url.Error\<close> and the default give the same error.\<close>

definition classifyTransportError :: "http_env \<Rightarrow> string \<Rightarrow> go_error \<Rightarrow> go_error" where
  "classifyTransportError H provider err =
     (if is_sentinel CtxCanceled err \<or> is_sentinel CtxDeadline err
      then llm_error LlmNetwork provider ''request canceled or timed out'' False (Some err)
      else if he_net_timeout H err then llm_error LlmNetwork provider ''network timeout'' True (Some err)
      else llm_error LlmNetwork provider ''transport error'' True (Some err))"

fun contains :: "string \<Rightarrow> string \<Rightarrow> bool" where
  "contains pat [] \<longleftrightarrow> pat = []"
| "contains pat (c # s) \<longleftrightarrow> take (length pat) (c # s) = pat \<or> contains pat s"

definition context_limit_text :: "string \<Rightarrow> bool" where
  "context_limit_text s \<longleftrightarrow> contains ''context length'' s \<or> contains ''maximum context'' s
     \<or> contains ''too many tokens'' s \<or> contains ''context window'' s"

definition mapHTTPError :: "http_env \<Rightarrow> string \<Rightarrow> int \<Rightarrow> string \<Rightarrow> go_error" where
  "mapHTTPError H provider status body =
     (let msg0 = he_trim H body; msg = (if msg0 = [] then he_status_text H status else msg0)
      in if status = 401 \<or> status = 403 then llm_error LlmAuth provider msg False None
         else if status = 429 then llm_error LlmRateLimit provider msg True None
         else if status \<ge> 500 \<and> status < 600 then llm_error LlmServer provider msg True None
         else if status = 400 then
           (if context_limit_text (he_lower H msg) then llm_error LlmContextLimit provider msg False None
            else llm_error LlmBadRequest provider msg False None)
         else if status \<ge> 400 \<and> status < 500 then llm_error LlmBadRequest provider msg False None
         else llm_error LlmUnknown provider (''HTTP '' @ int_text status @ '': '' @ msg) False None)"

text \<open>
  A transport answers an endpoint, headers and payload with an error or a status and the body, whose
  reading may fail. \<open>payload\<close> is the result of \<^verbatim>\<open>json.Marshal\<close>.
\<close>

type_synonym 'w transport =
  "string \<Rightarrow> (string \<times> string) list \<Rightarrow> string \<Rightarrow> 'w \<Rightarrow> (go_error + int \<times> (go_error + string)) \<times> 'w"

definition PostJSON ::
  "http_env \<Rightarrow> 'w transport \<Rightarrow> string \<Rightarrow> string \<Rightarrow> (string \<times> string) list \<Rightarrow> go_error + string
     \<Rightarrow> (llm_act, 'w) sys \<Rightarrow> (go_error + string) \<times> (llm_act, 'w) sys" where
  "PostJSON H tr provider endpoint hs payload s =
     (case payload of
        Inl err \<Rightarrow> (Inl (llm_error LlmBadRequest provider ''marshal request body'' False (Some err)), s)
      | Inr body \<Rightarrow>
         (case he_url_err H endpoint of
            Some err \<Rightarrow> (Inl (llm_error LlmBadRequest provider ''build http request'' False (Some err)), s)
          | None \<Rightarrow>
             (case perform_val (tr endpoint ((''Content-Type'', ''application/json'') # hs) body) (LlmCall provider) s of
                (Inl err, s1) \<Rightarrow> (Inl (classifyTransportError H provider err), s1)
              | (Inr (status, rd), s1) \<Rightarrow>
                 (case rd of
                    Inl readErr \<Rightarrow> (Inl (llm_error LlmNetwork provider ''read response body'' True (Some readErr)), s1)
                  | Inr resp \<Rightarrow>
                      if status < 200 \<or> status \<ge> 300 then (Inl (mapHTTPError H provider status resp), s1)
                      else (Inr resp, s1)))))"

section \<open>The providers\<close>

text \<open>An optional field that is omitted is \<open>None\<close>.\<close>

record openai_request =
  oq_model :: string
  oq_messages :: "(string \<times> string) list"
  oq_temperature :: "real option"
  oq_max_tokens :: "int option"

record openai_response =
  or_model :: string
  or_choices :: "(string \<times> string) list"
  or_prompt :: int
  or_completion :: int

record anthropic_request =
  aq_model :: string
  aq_system :: string
  aq_messages :: "(string \<times> string) list"
  aq_max_tokens :: int
  aq_temperature :: "real option"

record anthropic_response =
  ar_model :: string
  ar_content :: "(string \<times> string) list"
  ar_stop :: string
  ar_in :: int
  ar_out :: int

record gemini_request =
  gq_contents :: "(string \<times> string list) list"
  gq_system :: "string option"
  gq_temperature :: "real option"
  gq_max_tokens :: "int option"

record gemini_response =
  gr_candidates :: "(string list \<times> string) list"
  gr_prompt :: int
  gr_completion :: int
  gr_version :: string

definition positive_opt :: "'a::{zero,ord} \<Rightarrow> 'a option" where
  "positive_opt x = (if x > 0 then Some x else None)"

definition no_messages :: "string \<Rightarrow> go_error" where
  "no_messages provider = llm_error LlmBadRequest provider ''request has no messages'' False None"

definition buildOpenAIRequest :: "llm_request \<Rightarrow> string \<Rightarrow> go_error + openai_request" where
  "buildOpenAIRequest req model =
     (if lq_messages req = [] then Inl (no_messages ''openai'')
      else Inr \<lparr>oq_model = model, oq_messages = map (\<lambda>m. (lm_role m, lm_content m)) (lq_messages req),
                oq_temperature = positive_opt (lq_temperature req), oq_max_tokens = positive_opt (lq_max_tokens req)\<rparr>)"

definition parseOpenAIResponse :: "(string \<Rightarrow> go_error + openai_response) \<Rightarrow> string \<Rightarrow> string \<Rightarrow> go_error + llm_response" where
  "parseOpenAIResponse dec body requested =
     (case dec body of
        Inl err \<Rightarrow> Inl (llm_error LlmUnknown ''openai'' ''decode response'' False (Some err))
      | Inr raw \<Rightarrow>
         (case or_choices raw of
            [] \<Rightarrow> Inl (llm_error LlmUnknown ''openai'' ''empty response (no choices)'' False None)
          | (txt, finish) # _ \<Rightarrow>
              Inr \<lparr>lr_content = txt, lr_model = (if or_model raw = [] then requested else or_model raw),
                   lr_in = or_prompt raw, lr_out = or_completion raw, lr_stop = finish\<rparr>))"

text \<open>
  The loop over the messages: the system texts, and the others under the provider's name for their role. \<open>bad\<close>
  is the message about an unknown role.
\<close>

fun split_roles ::
  "string \<Rightarrow> (string \<Rightarrow> string) \<Rightarrow> string \<Rightarrow> llm_message list \<Rightarrow> string list \<Rightarrow> (string \<times> string) list
     \<Rightarrow> go_error + string list \<times> (string \<times> string) list" where
  "split_roles provider bad model_role [] system out = Inr (system, out)"
| "split_roles provider bad model_role (m # ms) system out =
     (if lm_role m = RoleSystem then split_roles provider bad model_role ms (system @ [lm_content m]) out
      else if lm_role m = RoleUser then split_roles provider bad model_role ms system (out @ [(''user'', lm_content m)])
      else if lm_role m = RoleAssistant
      then split_roles provider bad model_role ms system (out @ [(model_role, lm_content m)])
      else Inl (llm_error LlmBadRequest provider (bad (lm_role m)) False None))"

definition blank_line :: string where "blank_line = [CHR 0x0A, CHR 0x0A]"

fun join_texts :: "string list \<Rightarrow> string" where
  "join_texts [] = []"
| "join_texts (t # ts) = t @ concat (map (\<lambda>x. blank_line @ x) ts)"

definition buildAnthropicRequest :: "llm_request \<Rightarrow> string \<Rightarrow> go_error + anthropic_request" where
  "buildAnthropicRequest req model =
     (if lq_messages req = [] then Inl (no_messages ''anthropic'')
      else (case split_roles ''anthropic'' (\<lambda>r. ''unsupported role '' @ r) ''assistant'' (lq_messages req) [] [] of
              Inl err \<Rightarrow> Inl err
            | Inr (system, msgs) \<Rightarrow>
                Inr \<lparr>aq_model = model, aq_system = join_texts system, aq_messages = msgs,
                     aq_max_tokens = (if lq_max_tokens req \<le> 0 then 4096 else lq_max_tokens req),
                     aq_temperature = positive_opt (lq_temperature req)\<rparr>))"

definition parseAnthropicResponse ::
  "(string \<Rightarrow> go_error + anthropic_response) \<Rightarrow> string \<Rightarrow> string \<Rightarrow> go_error + llm_response" where
  "parseAnthropicResponse dec body requested =
     (case dec body of
        Inl err \<Rightarrow> Inl (llm_error LlmUnknown ''anthropic'' ''decode response'' False (Some err))
      | Inr raw \<Rightarrow>
          if ar_content raw = []
          then Inl (llm_error LlmUnknown ''anthropic'' ''empty response (no content blocks)'' False None)
          else Inr \<lparr>lr_content = concat (map snd (filter (\<lambda>(t, x). t = ''text'') (ar_content raw))),
                    lr_model = (if ar_model raw = [] then requested else ar_model raw),
                    lr_in = ar_in raw, lr_out = ar_out raw, lr_stop = ar_stop raw\<rparr>)"

definition buildGeminiRequest :: "llm_request \<Rightarrow> go_error + gemini_request" where
  "buildGeminiRequest req =
     (if lq_messages req = [] then Inl (no_messages ''gemini'')
      else (case split_roles ''gemini'' (\<lambda>r. ''unsupported role '' @ go_quote r) ''model'' (lq_messages req) [] [] of
              Inl err \<Rightarrow> Inl err
            | Inr (system, msgs) \<Rightarrow>
                Inr \<lparr>gq_contents = map (\<lambda>(r, x). (r, [x])) msgs,
                     gq_system = (if system = [] then None else Some (join_texts system)),
                     gq_temperature = positive_opt (lq_temperature req),
                     gq_max_tokens = positive_opt (lq_max_tokens req)\<rparr>))"

definition parseGeminiResponse ::
  "(string \<Rightarrow> go_error + gemini_response) \<Rightarrow> string \<Rightarrow> string \<Rightarrow> go_error + llm_response" where
  "parseGeminiResponse dec body requested =
     (case dec body of
        Inl err \<Rightarrow> Inl (llm_error LlmUnknown ''gemini'' ''decode response'' False (Some err))
      | Inr raw \<Rightarrow>
         (case gr_candidates raw of
            (p # parts, finish) # _ \<Rightarrow>
              Inr \<lparr>lr_content = concat (p # parts), lr_model = (if gr_version raw = [] then requested else gr_version raw),
                   lr_in = gr_prompt raw, lr_out = gr_completion raw, lr_stop = finish\<rparr>
          | _ \<Rightarrow> Inl (llm_error LlmUnknown ''gemini'' ''empty response (no candidates)'' False None)))"

record provider_cfg =
  pv_key :: string
  pv_model :: string
  pv_base :: string
  pv_timeout :: duration

record 'w codec_env =
  ce_http :: http_env
  ce_send :: "'w transport"
  ce_openai_enc :: "openai_request \<Rightarrow> go_error + string"
  ce_openai_dec :: "string \<Rightarrow> go_error + openai_response"
  ce_anthropic_enc :: "anthropic_request \<Rightarrow> go_error + string"
  ce_anthropic_dec :: "string \<Rightarrow> go_error + anthropic_response"
  ce_gemini_enc :: "gemini_request \<Rightarrow> go_error + string"
  ce_gemini_dec :: "string \<Rightarrow> go_error + gemini_response"
  ce_path_escape :: "string \<Rightarrow> string"
  ce_query_escape :: "string \<Rightarrow> string"

definition missing_key :: "string \<Rightarrow> go_error" where
  "missing_key provider = llm_error LlmAuth provider ''missing API key'' False None"

definition the_model :: "provider_cfg \<Rightarrow> llm_request \<Rightarrow> string" where
  "the_model c req = (if lq_model req = [] then pv_model c else lq_model req)"

definition parsed ::
  "(string \<Rightarrow> go_error + llm_response) \<Rightarrow> (go_error + string) \<times> (llm_act, 'w) sys
     \<Rightarrow> (go_error + llm_response) \<times> (llm_act, 'w) sys" where
  "parsed parse r = (case r of (Inl err, s) \<Rightarrow> (Inl err, s) | (Inr body, s) \<Rightarrow> (parse body, s))"

definition openai_Generate :: "'w codec_env \<Rightarrow> provider_cfg \<Rightarrow> 'w llm_gen" where
  "openai_Generate C c req s =
     (if pv_key c = [] then (Inl (missing_key ''openai''), s)
      else (case buildOpenAIRequest req (the_model c req) of
              Inl err \<Rightarrow> (Inl err, s)
            | Inr body \<Rightarrow>
                parsed (\<lambda>b. parseOpenAIResponse (ce_openai_dec C) b (the_model c req))
                  (PostJSON (ce_http C) (ce_send C) ''openai'' (pv_base c @ ''/chat/completions'')
                     [(''Authorization'', ''Bearer '' @ pv_key c)] (ce_openai_enc C body) s)))"

definition anthropic_Generate :: "'w codec_env \<Rightarrow> provider_cfg \<Rightarrow> 'w llm_gen" where
  "anthropic_Generate C c req s =
     (if pv_key c = [] then (Inl (missing_key ''anthropic''), s)
      else (case buildAnthropicRequest req (the_model c req) of
              Inl err \<Rightarrow> (Inl err, s)
            | Inr body \<Rightarrow>
                parsed (\<lambda>b. parseAnthropicResponse (ce_anthropic_dec C) b (the_model c req))
                  (PostJSON (ce_http C) (ce_send C) ''anthropic'' (pv_base c @ ''/messages'')
                     [(''x-api-key'', pv_key c), (''anthropic-version'', ''2023-06-01'')] (ce_anthropic_enc C body) s)))"

definition gemini_Generate :: "'w codec_env \<Rightarrow> provider_cfg \<Rightarrow> 'w llm_gen" where
  "gemini_Generate C c req s =
     (if pv_key c = [] then (Inl (missing_key ''gemini''), s)
      else (case buildGeminiRequest req of
              Inl err \<Rightarrow> (Inl err, s)
            | Inr body \<Rightarrow>
                parsed (\<lambda>b. parseGeminiResponse (ce_gemini_dec C) b (the_model c req))
                  (PostJSON (ce_http C) (ce_send C) ''gemini''
                     (pv_base c @ ''/models/'' @ ce_path_escape C (the_model c req) @ '':generateContent?key=''
                        @ ce_query_escape C (pv_key c))
                     [] (ce_gemini_enc C body) s)))"

section \<open>Retries\<close>

record llm_retry_policy =
  ly_max :: int
  ly_initial :: duration
  ly_max_delay :: duration
  ly_mult :: real
  ly_jitter :: bool

definition DefaultRateLimitRetryPolicy :: llm_retry_policy where
  "DefaultRateLimitRetryPolicy =
     \<lparr>ly_max = 5, ly_initial = 10 * second, ly_max_delay = 5 * minute, ly_mult = 2, ly_jitter = False\<rparr>"

definition DefaultNetworkRetryPolicy :: llm_retry_policy where
  "DefaultNetworkRetryPolicy =
     \<lparr>ly_max = 3, ly_initial = 1 * second, ly_max_delay = 30 * second, ly_mult = 2, ly_jitter = True\<rparr>"

text \<open>\<open>rr_draw\<close> is the random number of a wait, \<open>rr_io\<close> answers a wait with the context's error if that ends first.\<close>

record 'w retry_provider =
  rr_inner :: "'w llm_provider"
  rr_rate :: llm_retry_policy
  rr_net :: llm_retry_policy
  rr_draw :: "nat \<Rightarrow> real"
  rr_io :: "(llm_act, 'w) io"

definition NewRetryProvider ::
  "'w llm_provider \<Rightarrow> llm_retry_policy \<Rightarrow> llm_retry_policy \<Rightarrow> (nat \<Rightarrow> real) \<Rightarrow> (llm_act, 'w) io \<Rightarrow> 'w retry_provider" where
  "NewRetryProvider inner rate net draw io =
     \<lparr>rr_inner = inner, rr_rate = (if ly_max rate = 0 then DefaultRateLimitRetryPolicy else rate),
      rr_net = (if ly_max net = 0 then DefaultNetworkRetryPolicy else net), rr_draw = draw, rr_io = io\<rparr>"

definition computeBackoff :: "real \<Rightarrow> llm_retry_policy \<Rightarrow> int \<Rightarrow> duration" where
  "computeBackoff draw p attempt =
     (let attempt = (if attempt < 1 then 1 else attempt);
          delay = of_int (ly_initial p) * ly_mult p ^ nat (attempt - 1);
          delay = (if of_int (ly_max_delay p) > (0::real) \<and> delay > of_int (ly_max_delay p) then of_int (ly_max_delay p) else delay);
          delay = (if ly_jitter p then delay * (1 / 2 + draw) else delay)
      in trunc delay)"

fun retry_generate ::
  "'w retry_provider \<Rightarrow> nat \<Rightarrow> int \<Rightarrow> int \<Rightarrow> go_error option \<Rightarrow> 'w llm_gen" where
  "retry_generate R 0 rate net lastErr req s =
     (Inl (case lastErr of None \<Rightarrow> Opaque ''llm: retry exhausted without error capture'' | Some e \<Rightarrow> e), s)"
| "retry_generate R (Suc left) rate net lastErr req s =
     (case lp_generate (rr_inner R) req s of
        (Inr resp, s1) \<Rightarrow> (Inr resp, s1)
      | (Inl err, s1) \<Rightarrow>
         (case as_llm err of
            None \<Rightarrow> (Inl err, s1)
          | Some l \<Rightarrow>
              if \<not> le_retryable l then (Inl err, s1)
              else
                (let is_rate = (le_code l = LlmRateLimit);
                     p = (if is_rate then rr_rate R else rr_net R);
                     n = (if is_rate then rate else net) + 1
                 in if n \<ge> ly_max p then (Inl err, s1)
                    else (case perform (rr_io R) (LlmWait (computeBackoff (rr_draw R left) p n)) s1 of
                            (Some ctxErr, s2) \<Rightarrow> (Inl ctxErr, s2)
                          | (None, s2) \<Rightarrow>
                              retry_generate R left (if is_rate then n else rate) (if is_rate then net else n)
                                (Some err) req s2))))"

definition RetryProvider_Generate :: "'w retry_provider \<Rightarrow> 'w llm_gen" where
  "RetryProvider_Generate R = retry_generate R (nat (ly_max (rr_rate R) + ly_max (rr_net R))) 0 0 None"

section \<open>Statistics\<close>

definition LatencyEMAAlpha :: real where "LatencyEMAAlpha = 1 / 5"

definition FailureRate :: "llm_stats \<Rightarrow> real" where
  "FailureRate st = (if ls_calls st = 0 then 0 else real (ls_failures st) / real (ls_calls st))"

definition stats_record :: "real \<Rightarrow> bool \<Rightarrow> llm_stats \<Rightarrow> llm_stats" where
  "stats_record latencyMs failed st =
     \<lparr>ls_calls = ls_calls st + 1, ls_failures = (if failed then ls_failures st + 1 else ls_failures st),
      ls_latency = (if ls_latency st = 0 then latencyMs
                    else LatencyEMAAlpha * latencyMs + (1 - LatencyEMAAlpha) * ls_latency st)\<rparr>"

definition new_stats :: llm_stats where "new_stats = \<lparr>ls_calls = 0, ls_failures = 0, ls_latency = 0\<rparr>"

text \<open>\<open>elapsed\<close> is the duration of the call in whole milliseconds.\<close>

definition Measured_Generate ::
  "'w llm_gen \<Rightarrow> ((llm_act, 'w) sys \<Rightarrow> (llm_act, 'w) sys \<Rightarrow> int) \<Rightarrow> llm_stats \<Rightarrow> llm_request \<Rightarrow> (llm_act, 'w) sys
     \<Rightarrow> (go_error + llm_response) \<times> llm_stats \<times> (llm_act, 'w) sys" where
  "Measured_Generate inner elapsed st req s =
     (case inner req s of
        (r, s1) \<Rightarrow> (r, stats_record (of_int (elapsed s s1)) (case r of Inl _ \<Rightarrow> True | Inr _ \<Rightarrow> False) st, s1))"

section \<open>The chain\<close>

definition shouldDelegate :: "go_error \<Rightarrow> bool" where
  "shouldDelegate err = (case as_llm err of None \<Rightarrow> True | Some l \<Rightarrow> le_code l \<noteq> LlmBadRequest)"

definition chain_error :: "llm_code \<Rightarrow> string \<Rightarrow> go_error option \<Rightarrow> go_error" where
  "chain_error code msg err = llm_error code ''chain'' msg False err"

text \<open>The loop over at least one handler; \<open>ctx\<close> is the error of the context, if it has ended.\<close>

fun delegate_loop :: "('w \<Rightarrow> go_error option) \<Rightarrow> 'w llm_provider list \<Rightarrow> 'w llm_gen" where
  "delegate_loop ctx [] req s = (Inl (chain_error LlmBadRequest ''chain has no handlers'' None), s)"
| "delegate_loop ctx (h # hs) req s =
     (case lp_generate h req s of
        (Inr resp, s1) \<Rightarrow> (Inr resp, s1)
      | (Inl err, s1) \<Rightarrow>
          if \<not> shouldDelegate err then (Inl err, s1)
          else (case ctx (fst s1) of
                  Some ctxErr \<Rightarrow> (Inl (chain_error LlmNetwork ''context canceled during chain execution'' (Some ctxErr)), s1)
                | None \<Rightarrow> if hs = [] then (Inl err, s1) else delegate_loop ctx hs req s1))"

definition chain_Generate :: "('w \<Rightarrow> go_error option) \<Rightarrow> 'w llm_provider list \<Rightarrow> 'w llm_gen" where
  "chain_Generate ctx hs req s =
     (if hs = [] then (Inl (chain_error LlmBadRequest ''chain has no handlers'' None), s)
      else (case ctx (fst s) of
              Some err \<Rightarrow> (Inl (chain_error LlmNetwork ''context already canceled before first handler'' (Some err)), s)
            | None \<Rightarrow> delegate_loop ctx hs req s))"

type_synonym 'w llm_policy = "llm_request \<Rightarrow> 'w llm_provider list \<Rightarrow> go_error + 'w llm_provider list"

definition policy_Generate :: "('w \<Rightarrow> go_error option) \<Rightarrow> 'w llm_policy option \<Rightarrow> 'w llm_provider list \<Rightarrow> 'w llm_gen" where
  "policy_Generate ctx pol cands req s =
     (case pol of
        None \<Rightarrow> (Inl (chain_error LlmBadRequest ''policy chain has no policy'' None), s)
      | Some select \<Rightarrow>
          if cands = [] then (Inl (chain_error LlmBadRequest ''policy chain has no candidates'' None), s)
          else (case ctx (fst s) of
                  Some err \<Rightarrow> (Inl (chain_error LlmNetwork ''context already canceled before policy select'' (Some err)), s)
                | None \<Rightarrow>
                   (case select req cands of
                      Inl err \<Rightarrow> (Inl (chain_error LlmUnknown ''policy.Select failed'' (Some err)), s)
                    | Inr ordered \<Rightarrow>
                        if ordered = [] then (Inl (chain_error LlmBadRequest ''policy returned empty candidate list'' None), s)
                        else chain_Generate ctx ordered req s)))"

section \<open>Error classes\<close>

text \<open>The class of an HTTP failure: an answer outside 200 to 299 gives an error of the provider, worth
  retrying exactly for 429 and 500 to 599, and a rate limit exactly for 429; a canceled request is never retried.\<close>

theorem http_error_classes:
  "\<exists>l. mapHTTPError H provider status body = LlmErr l None \<and> le_provider l = provider
    \<and> (le_retryable l \<longleftrightarrow> status = 429 \<or> (500 \<le> status \<and> status < 600))
    \<and> (le_code l = LlmRateLimit \<longleftrightarrow> status = 429)
    \<and> (le_code l = LlmAuth \<longleftrightarrow> status = 401 \<or> status = 403)
    \<and> (le_code l = LlmServer \<longleftrightarrow> 500 \<le> status \<and> status < 600)
    \<and> (le_code l \<in> {LlmBadRequest, LlmContextLimit} \<longleftrightarrow> 400 \<le> status \<and> status < 500 \<and> status \<notin> {401, 403, 429})
    \<and> (\<forall>err. llm_IsRetryable (Some (classifyTransportError H provider err))
         = (\<not> is_sentinel CtxCanceled err \<and> \<not> is_sentinel CtxDeadline err))"
proof -
  have c: "llm_IsRetryable (Some (classifyTransportError H provider err))
         = (\<not> is_sentinel CtxCanceled err \<and> \<not> is_sentinel CtxDeadline err)" for err
    by (simp add: llm_IsRetryable_def classifyTransportError_def llm_error_def)
  show ?thesis by (simp add: mapHTTPError_def llm_error_def Let_def c)
qed

section \<open>What the providers send\<close>

lemma split_roles_result:
  assumes "\<forall>m \<in> set ms. lm_role m \<in> {RoleSystem, RoleUser, RoleAssistant}"
  shows "split_roles provider bad model_role ms sys0 out =
    Inr (sys0 @ map lm_content (filter (\<lambda>m. lm_role m = RoleSystem) ms),
         out @ map (\<lambda>m. (if lm_role m = RoleUser then ''user'' else model_role, lm_content m))
                 (filter (\<lambda>m. lm_role m \<noteq> RoleSystem) ms))"
  using assms by (induction ms arbitrary: sys0 out) (auto simp: llm_roles)

lemma split_roles_error:
  assumes "m \<in> set ms" and "lm_role m \<notin> {RoleSystem, RoleUser, RoleAssistant}"
  shows "\<exists>l. split_roles provider bad model_role ms sys0 out = Inl (LlmErr l None) \<and> le_code l = LlmBadRequest"
  using assms by (induction ms arbitrary: sys0 out) (auto simp: llm_error_def)

text \<open>For a request with messages of the three roles, the three providers send the same conversation:
  the texts of users and assistants in order, each under the provider's name for its role; OpenAI keeps system
  messages in place, the other two send their texts joined, apart from the conversation. A message of another role
  is refused by those two as a bad request.\<close>

theorem providers_send_conversation:
  assumes "lq_messages req \<noteq> []" and roles: "\<forall>m \<in> set (lq_messages req). lm_role m \<in> {RoleSystem, RoleUser, RoleAssistant}"
  defines "talk \<equiv> filter (\<lambda>m. lm_role m \<noteq> RoleSystem) (lq_messages req)"
    and "system \<equiv> map lm_content (filter (\<lambda>m. lm_role m = RoleSystem) (lq_messages req))"
  shows "\<exists>o1 a g. buildOpenAIRequest req model = Inr o1 \<and> buildAnthropicRequest req model = Inr a
    \<and> buildGeminiRequest req = Inr g
    \<and> filter (\<lambda>(r, _). r \<noteq> RoleSystem) (oq_messages o1) = map (\<lambda>m. (lm_role m, lm_content m)) talk
    \<and> aq_messages a = map (\<lambda>m. (lm_role m, lm_content m)) talk
    \<and> gq_contents g = map (\<lambda>m. (if lm_role m = RoleUser then ''user'' else ''model'', [lm_content m])) talk
    \<and> aq_system a = join_texts system \<and> gq_system g = (if system = [] then None else Some (join_texts system))
    \<and> 0 < aq_max_tokens a"
proof -
  have f: "filter (\<lambda>(r, _). r \<noteq> RoleSystem) (map (\<lambda>m. (lm_role m, lm_content m)) ms)
      = map (\<lambda>m. (lm_role m, lm_content m)) (filter (\<lambda>m. lm_role m \<noteq> RoleSystem) ms)" for ms
    by (induction ms) auto
  have t: "lm_role m \<in> {RoleUser, RoleAssistant}" if "m \<in> set talk" for m
    using that roles by (auto simp: talk_def)
  have a: "map (\<lambda>m. (if lm_role m = RoleUser then ''user'' else ''assistant'', lm_content m)) talk
      = map (\<lambda>m. (lm_role m, lm_content m)) talk"
  proof (intro map_cong refl)
    fix m
    assume "m \<in> set talk"
    then show "(if lm_role m = RoleUser then ''user'' else ''assistant'', lm_content m) = (lm_role m, lm_content m)"
      using t [of m] by (auto simp: llm_roles)
  qed
  show ?thesis
    using assms(1) a
    by (simp add: buildOpenAIRequest_def buildAnthropicRequest_def buildGeminiRequest_def split_roles_result [OF roles] f
        talk_def [symmetric] system_def [symmetric])
qed

definition sample_request :: llm_request where
  "sample_request =
     \<lparr>lq_messages = [\<lparr>lm_role = RoleSystem, lm_content = ''s''\<rparr>, \<lparr>lm_role = RoleUser, lm_content = ''u''\<rparr>],
      lq_model = [], lq_temperature = 0, lq_max_tokens = 0, lq_hint = ''json''\<rparr>"

theorem providers_send_conversation_witness:
  "\<exists>g. buildGeminiRequest sample_request = Inr g \<and> gq_contents g = [(''user'', [''u''])] \<and> gq_system g = Some ''s''"
proof -
  have n: "lq_messages sample_request \<noteq> []" by (simp add: sample_request_def)
  have r: "\<forall>m \<in> set (lq_messages sample_request). lm_role m \<in> {RoleSystem, RoleUser, RoleAssistant}"
    by (simp add: sample_request_def)
  have l: "lq_messages sample_request
      = [\<lparr>lm_role = RoleSystem, lm_content = ''s''\<rparr>, \<lparr>lm_role = RoleUser, lm_content = ''u''\<rparr>]"
    by (simp add: sample_request_def)
  show ?thesis using providers_send_conversation [OF n r, of "''m''"] unfolding l by (auto simp: llm_roles)
qed

section \<open>The chain\<close>

text \<open>The first handler whose answer ends the chain.\<close>

fun chain_ends :: "go_error + llm_response \<Rightarrow> bool" where
  "chain_ends (Inr _) = True"
| "chain_ends (Inl err) = (\<not> shouldDelegate err)"

text \<open>\<open>runs_through hs s s'\<close>: the handlers fail one after another with errors that are delegated, under a live context.\<close>

fun runs_through ::
  "('w \<Rightarrow> go_error option) \<Rightarrow> 'w llm_provider list \<Rightarrow> llm_request \<Rightarrow> (llm_act, 'w) sys \<Rightarrow> (llm_act, 'w) sys \<Rightarrow> bool" where
  "runs_through ctx [] req s s' \<longleftrightarrow> s' = s"
| "runs_through ctx (h # hs) req s s' \<longleftrightarrow>
     (case lp_generate h req s of
        (r, s1) \<Rightarrow> \<not> chain_ends r \<and> ctx (fst s1) = None \<and> runs_through ctx hs req s1 s')"

lemma delegate_loop_append:
  "runs_through ctx pre req s s1 \<Longrightarrow> bs \<noteq> [] \<Longrightarrow> delegate_loop ctx (pre @ bs) req s = delegate_loop ctx bs req s1"
proof (induction pre arbitrary: s)
  case (Cons h hs)
  obtain r s2 where g: "lp_generate h req s = (r, s2)" by (rule prod.exhaust)
  show ?case using Cons by (cases r) (simp_all add: g)
qed simp

text \<open>C35. When all earlier handlers fail with errors worth delegating and the context lives, the chain's
  result is that of the first handler that succeeds or meets a bad request, and no later handler is called; when the
  context ends during a failing handler, the chain reports that and calls no further one; when all fail, the last
  error is returned.\<close>

theorem chain_first_decisive:
  assumes "runs_through ctx pre req s s1" and "ctx (fst s) = None" and "lp_generate h req s1 = (r, s2)"
  shows "(chain_ends r \<longrightarrow> chain_Generate ctx (pre @ h # bs) req s = (r, s2))
    \<and> (\<forall>e c. r = Inl e \<longrightarrow> shouldDelegate e \<longrightarrow> ctx (fst s2) = Some c \<longrightarrow>
         chain_Generate ctx (pre @ h # bs) req s
           = (Inl (chain_error LlmNetwork ''context canceled during chain execution'' (Some c)), s2))
    \<and> (\<not> chain_ends r \<longrightarrow> ctx (fst s2) = None \<longrightarrow> bs = [] \<longrightarrow> chain_Generate ctx (pre @ h # bs) req s = (r, s2))"
proof -
  have g: "chain_Generate ctx (pre @ h # bs) req s = delegate_loop ctx (h # bs) req s1"
    using delegate_loop_append [OF assms(1), of "h # bs"] assms(2) by (simp add: chain_Generate_def)
  show ?thesis unfolding g using assms(3) by (cases r) auto
qed

definition answers :: "string \<Rightarrow> go_error + llm_response \<Rightarrow> nat llm_provider" where
  "answers name r = \<lparr>lp_name = name, lp_generate = (\<lambda>req s. (r, (fst s, snd s @ [(LlmCall name, err_of r)]))), lp_stats = None\<rparr>"

definition sample_response :: llm_response where
  "sample_response = \<lparr>lr_content = ''c'', lr_model = ''m'', lr_in = 0, lr_out = 0, lr_stop = []\<rparr>"

definition busy :: go_error where "busy = llm_error LlmRateLimit ''a'' ''busy'' True None"

theorem chain_first_decisive_witness:
  "chain_Generate (\<lambda>_. None) [answers ''a'' (Inl busy), answers ''b'' (Inr sample_response), answers ''c'' (Inl busy)]
     sample_request (0, []) = (Inr sample_response, (0, [(LlmCall ''a'', Some busy), (LlmCall ''b'', None)]))"
proof -
  have r: "runs_through (\<lambda>_. None) [answers ''a'' (Inl busy)] sample_request (0, []) (0, [(LlmCall ''a'', Some busy)])"
    by (simp add: answers_def shouldDelegate_def busy_def llm_error_def err_of_def)
  have g: "lp_generate (answers ''b'' (Inr sample_response)) sample_request (0, [(LlmCall ''a'', Some busy)])
      = (Inr sample_response, (0, [(LlmCall ''a'', Some busy), (LlmCall ''b'', None)]))"
    by (simp add: answers_def err_of_def)
  show ?thesis using chain_first_decisive [OF r _ g, of "[answers ''c'' (Inl busy)]"] by simp
qed

section \<open>Retries end, and end with the last answer\<close>

text \<open>A provider that records one call.\<close>

definition records_calls :: "'w llm_provider \<Rightarrow> bool" where
  "records_calls p \<longleftrightarrow> (\<forall>req s r s'. lp_generate p req s = (r, s') \<longrightarrow> snd s' = snd s @ [(LlmCall (lp_name p), err_of r)])"

definition llm_calls :: "(llm_act \<times> go_error option) list \<Rightarrow> nat" where
  "llm_calls tr = length (filter (\<lambda>x. case fst x of LlmCall _ \<Rightarrow> True | LlmWait _ \<Rightarrow> False) tr)"

definition llm_waits :: "(llm_act \<times> go_error option) list \<Rightarrow> nat" where
  "llm_waits tr = length (filter (\<lambda>x. case fst x of LlmCall _ \<Rightarrow> False | LlmWait _ \<Rightarrow> True) tr)"

lemma llm_count_simps [simp]:
  "llm_calls [] = 0" "llm_calls ((LlmCall n, e) # tr) = Suc (llm_calls tr)" "llm_calls ((LlmWait d, e) # tr) = llm_calls tr"
  "llm_waits [] = 0" "llm_waits ((LlmCall n, e) # tr) = llm_waits tr" "llm_waits ((LlmWait d, e) # tr) = Suc (llm_waits tr)"
  by (simp_all add: llm_calls_def llm_waits_def)

text \<open>The trace of a run that ends with result \<open>r\<close>: calls with waits between them, at most \<open>n\<close> calls.\<close>

definition retry_trace :: "string \<Rightarrow> nat \<Rightarrow> go_error + llm_response \<Rightarrow> (llm_act \<times> go_error option) list \<Rightarrow> bool" where
  "retry_trace name n r tr \<longleftrightarrow> llm_calls tr \<le> n \<and> llm_waits tr \<le> llm_calls tr
     \<and> (last tr = (LlmCall name, err_of r) \<and> llm_waits tr < llm_calls tr
        \<or> (\<exists>d e. last tr = (LlmWait d, Some e) \<and> r = Inl e)) \<and> tr \<noteq> []"

lemma retry_trace_one: "0 < n \<Longrightarrow> retry_trace name n r [(LlmCall name, err_of r)]"
  by (simp add: retry_trace_def)

lemma retry_trace_more:
  "retry_trace name n r tr \<Longrightarrow> retry_trace name (Suc n) r ((LlmCall name, e) # (LlmWait d, None) # tr)"
  by (auto simp: retry_trace_def)

lemma retry_generate_ends:
  assumes rec: "records_calls (rr_inner R)" and "retry_generate R left rate net le req s = (r, s')"
    and "rate < ly_max (rr_rate R)" and "net < ly_max (rr_net R)"
    and "int left = ly_max (rr_rate R) + ly_max (rr_net R) - rate - net"
  shows "\<exists>tr. snd s' = snd s @ tr \<and> retry_trace (lp_name (rr_inner R)) (left - 1) r tr"
  using assms(2-)
proof (induction left arbitrary: rate net le s)
  case (Suc left)
  let ?n = "lp_name (rr_inner R)"
  have left: "0 < left" using Suc.prems(2,3,4) by simp
  obtain a s1 where g: "lp_generate (rr_inner R) req s = (a, s1)" by (rule prod.exhaust)
  have s1: "snd s1 = snd s @ [(LlmCall ?n, err_of a)]" using rec g unfolding records_calls_def by blast
  have stop: ?case if "r = a" "s' = s1" using that s1 retry_trace_one [of left ?n a] left by auto
  show ?case
  proof (cases a)
    case (Inr resp)
    then show ?thesis using stop Suc.prems(1) by (simp add: g)
  next
    case (Inl err)
    show ?thesis
    proof (cases "as_llm err")
      case None
      then show ?thesis using stop Suc.prems(1) by (simp add: g Inl)
    next
      case (Some l)
      define rt where "rt = (le_code l = LlmRateLimit)"
      define p where "p = (if rt then rr_rate R else rr_net R)"
      define n where "n = (if rt then rate else net) + 1"
      show ?thesis
      proof (cases "le_retryable l \<and> n < ly_max p")
        case False
        then show ?thesis
          using stop Suc.prems(1) by (auto simp: g Inl Some rt_def p_def n_def Let_def split: if_splits)
      next
        case True
        obtain c s2 where w: "perform (rr_io R) (LlmWait (computeBackoff (rr_draw R left) p n)) s1 = (c, s2)"
          by (rule prod.exhaust)
        have s2: "snd s2 = snd s @ [(LlmCall ?n, Some err), (LlmWait (computeBackoff (rr_draw R left) p n), c)]"
          using perform_trace [OF w] s1 by (simp add: Inl)
        have e: "retry_generate R (Suc left) rate net le req s =
          (case c of Some x \<Rightarrow> (Inl x, s2)
           | None \<Rightarrow> retry_generate R left (if rt then n else rate) (if rt then net else n) (Some err) req s2)"
          using True w unfolding p_def n_def by (cases rt) (simp_all add: g Inl Some rt_def [symmetric] Let_def)
        show ?thesis
        proof (cases c)
          case (Some x)
          then have "r = Inl x" "s' = s2" using Suc.prems(1) e by auto
          then show ?thesis using s2 left Some by (auto simp: retry_trace_def)
        next
          case None
          have run: "retry_generate R left (if rt then n else rate) (if rt then net else n) (Some err) req s2 = (r, s')"
            using Suc.prems(1) e None by simp
          obtain tr where tr: "snd s' = snd s2 @ tr" "retry_trace ?n (left - 1) r tr"
            using Suc.IH [OF run] Suc.prems(2-4) True by (auto simp: p_def n_def split: if_splits)
          have "retry_trace ?n (Suc (left - 1)) r ((LlmCall ?n, Some err) # (LlmWait (computeBackoff (rr_draw R left) p n), None) # tr)"
            by (rule retry_trace_more [OF tr(2)])
          then show ?thesis using tr(1) s2 left None by auto
        qed
      qed
    qed
  qed
qed simp

lemma backoff_within:
  assumes "0 \<le> ly_initial p" "0 \<le> ly_mult p" "0 < ly_max_delay p" "0 \<le> d" "d < 1"
  shows "0 \<le> computeBackoff d p n \<and> (if ly_jitter p then 2 * computeBackoff d p n \<le> 3 * ly_max_delay p
           else computeBackoff d p n \<le> ly_max_delay p)"
proof -
  define x where "x = (of_int (ly_initial p) :: real) * ly_mult p ^ nat ((if n < 1 then 1 else n) - 1)"
  define y where "y = (if x > of_int (ly_max_delay p) then of_int (ly_max_delay p) else x)"
  have y: "0 \<le> y" "y \<le> of_int (ly_max_delay p)" using assms by (auto simp: y_def x_def)
  have c: "computeBackoff d p n = trunc (if ly_jitter p then y * (1 / 2 + d) else y)"
    using assms(3) by (simp add: computeBackoff_def Let_def y_def x_def)
  show ?thesis
  proof (cases "ly_jitter p")
    case False
    then show ?thesis using y by (simp add: c trunc_def floor_le_iff)
  next
    case True
    have j: "y * (1 / 2 + d) \<le> of_int (ly_max_delay p) * (3 / 2)"
      using y assms(4,5) by (intro mult_mono) auto
    have k: "0 \<le> y * (1 / 2 + d)" using y assms(4) by simp
    have "real_of_int (computeBackoff d p n) \<le> y * (1 / 2 + d)"
      using k True by (simp add: c trunc_def)
    then have "real_of_int (2 * computeBackoff d p n) \<le> real_of_int (3 * ly_max_delay p)" using j by simp
    then show ?thesis using True k by (simp add: c trunc_def)
  qed
qed

text \<open>A retried call returns: it calls the provider once at least and fewer times than both policies
  allow together, waits only between calls, and its result is the answer of the last call or, when the context ends
  during a wait, the context's error; a wait never exceeds the policy's cap by more than the jitter.\<close>

theorem retries_end:
  assumes "records_calls (rr_inner R)" and "0 < ly_max (rr_rate R)" and "0 < ly_max (rr_net R)"
    and "RetryProvider_Generate R req s = (r, s')"
  shows "\<exists>tr. snd s' = snd s @ tr \<and> 0 < llm_calls tr \<and> llm_calls tr < nat (ly_max (rr_rate R) + ly_max (rr_net R))
    \<and> llm_waits tr \<le> llm_calls tr
    \<and> (last tr = (LlmCall (lp_name (rr_inner R)), err_of r) \<or> (\<exists>d e. last tr = (LlmWait d, Some e) \<and> r = Inl e))"
proof -
  obtain tr where "snd s' = snd s @ tr" and t: "retry_trace (lp_name (rr_inner R))
      (nat (ly_max (rr_rate R) + ly_max (rr_net R)) - 1) r tr"
    using retry_generate_ends [OF assms(1), of "nat (ly_max (rr_rate R) + ly_max (rr_net R))" 0 0 None req s r s'] assms(2-4)
    by (auto simp: RetryProvider_Generate_def)
  moreover have "0 < llm_calls tr" using t by (cases tr rule: rev_cases) (auto simp: retry_trace_def llm_waits_def llm_calls_def)
  ultimately show ?thesis using assms(2,3) by (auto simp: retry_trace_def)
qed

definition sample_retry :: "nat retry_provider" where
  "sample_retry = NewRetryProvider (answers ''a'' (Inl busy)) DefaultRateLimitRetryPolicy DefaultNetworkRetryPolicy
     (\<lambda>_. 0) (\<lambda>a w. (None, w))"

theorem retries_end_witness:
  "\<exists>r s' tr. RetryProvider_Generate sample_retry sample_request (0, []) = (r, s') \<and> snd s' = tr \<and> 0 < llm_calls tr \<and> llm_calls tr < 8"
proof -
  obtain r s' where g: "RetryProvider_Generate sample_retry sample_request (0, []) = (r, s')" by (rule prod.exhaust)
  have "records_calls (rr_inner sample_retry)" "ly_max (rr_rate sample_retry) = 5" "ly_max (rr_net sample_retry) = 3"
    by (simp_all add: sample_retry_def NewRetryProvider_def answers_def records_calls_def
        DefaultRateLimitRetryPolicy_def DefaultNetworkRetryPolicy_def)
  then show ?thesis using retries_end [OF _ _ _ g] g by auto
qed

section \<open>Statistics\<close>

lemma stats_record_simps [simp]:
  "ls_calls (stats_record ms failed st) = Suc (ls_calls st)"
  "ls_failures (stats_record ms failed st) = (if failed then Suc (ls_failures st) else ls_failures st)"
  "ls_latency (stats_record ms failed st) = (if ls_latency st = 0 then ms else ms / 5 + 4 * ls_latency st / 5)"
  by (simp_all add: stats_record_def LatencyEMAAlpha_def)

text \<open>However many calls are recorded, the failures never exceed the calls, so the failure rate is
  between 0 and 1, and the latency average stays between the least and the greatest latency recorded.\<close>

theorem measured_average_bounded:
  assumes "xs \<noteq> []" and "\<forall>x \<in> set xs. lo \<le> fst x \<and> fst x \<le> hi" and "0 \<le> lo"
  defines "st \<equiv> fold (\<lambda>(ms, failed). stats_record ms failed) xs new_stats"
  shows "ls_calls st = length xs \<and> ls_failures st \<le> ls_calls st \<and> 0 \<le> FailureRate st \<and> FailureRate st \<le> 1
    \<and> lo \<le> ls_latency st \<and> ls_latency st \<le> hi"
proof -
  have inv: "ls_calls (fold (\<lambda>(ms, failed). stats_record ms failed) xs new_stats) = length xs
      \<and> ls_failures (fold (\<lambda>(ms, failed). stats_record ms failed) xs new_stats) \<le> length xs
      \<and> (xs \<noteq> [] \<longrightarrow> lo \<le> ls_latency (fold (\<lambda>(ms, failed). stats_record ms failed) xs new_stats)
           \<and> ls_latency (fold (\<lambda>(ms, failed). stats_record ms failed) xs new_stats) \<le> hi)"
    using assms(2)
  proof (induction xs rule: rev_induct)
    case Nil
    then show ?case by (simp add: new_stats_def)
  next
    case (snoc x xs)
    obtain ms failed where x: "x = (ms, failed)" by (rule prod.exhaust)
    define a where "a = ls_latency (fold (\<lambda>(ms, failed). stats_record ms failed) xs new_stats)"
    have ms: "lo \<le> ms" "ms \<le> hi" using snoc.prems by (auto simp: x)
    have "lo \<le> (if a = 0 then ms else ms / 5 + 4 * a / 5) \<and> (if a = 0 then ms else ms / 5 + 4 * a / 5) \<le> hi"
    proof (cases "xs = []")
      case True
      then show ?thesis using ms by (simp add: a_def new_stats_def)
    next
      case False
      then have "lo \<le> a" "a \<le> hi" using snoc by (auto simp: a_def)
      then show ?thesis using ms by auto
    qed
    then show ?case using snoc by (auto simp: x a_def [symmetric])
  qed
  then show ?thesis using assms(1) by (auto simp: st_def FailureRate_def)
qed

theorem measured_average_bounded_witness:
  "ls_calls (fold (\<lambda>(ms, failed). stats_record ms failed) [(10, False), (20, True)] new_stats) = 2
   \<and> ls_latency (fold (\<lambda>(ms, failed). stats_record ms failed) [(10, False), (20, True)] new_stats) \<le> 20"
  using measured_average_bounded [of "[(10, False), (20, True)]" 10 20] by simp

end
