(* ===== verification/RuleRefiner.thy ===== *)
theory RuleRefiner
  imports PathInfer RuleStore LlmClients
begin

text \<open>
  The refiner of catch-all rules (\<^verbatim>\<open>internal/processor/parser/rule/refiner\<close>) and the semantic validators of
  generated selectors (\<^verbatim>\<open>rule/validator\<close>). A refiner's calls are the actions of its trace; what it would record
  as a metric is the outcome of a rule. Lemmas: a new version is written only for a catch-all rule with enough
  samples, with a pattern that matches all of them, samples are purged only after that, and no failure stops a cycle;
  the validator pool returns the first verdict.
\<close>

section \<open>The refiner\<close>

definition DefaultRefineInterval :: duration where "DefaultRefineInterval = 5 * minute"
definition DefaultRefineMinSamples :: int where "DefaultRefineMinSamples = 5"

definition ResultSuccess :: string where "ResultSuccess = ''success''"
definition ResultSkipped :: string where "ResultSkipped = ''skipped''"
definition ResultError :: string where "ResultError = ''error''"
definition MethodAlgorithm :: string where "MethodAlgorithm = ''algorithm''"
definition MethodLLM :: string where "MethodLLM = ''llm''"
definition MethodNone :: string where "MethodNone = ''none''"

lemmas refine_texts = ResultSuccess_def ResultSkipped_def ResultError_def MethodAlgorithm_def MethodLLM_def MethodNone_def

datatype refine_act =
    ListAutoRules
  | CountSamples int
  | ListSamples int int
  | AskPathModel
  | InsertVersion rule_row
  | PurgeSamples int

text \<open>\<open>rfe_model\<close> and \<open>rfe_loader\<close> are \<open>None\<close> when they are nil; \<open>rfe_now\<close> is the time in RFC 3339.\<close>

record 'w refiner =
  rfe_min :: int
  rfe_interval :: duration
  rfe_paths :: path_env
  rfe_lib :: url_lib
  rfe_list :: "'w \<Rightarrow> (go_error + rule_row list) \<times> 'w"
  rfe_count :: "int \<Rightarrow> 'w \<Rightarrow> (go_error + int) \<times> 'w"
  rfe_samples :: "int \<Rightarrow> int \<Rightarrow> 'w \<Rightarrow> (go_error + sample_url list) \<times> 'w"
  rfe_model :: "(string \<Rightarrow> string \<Rightarrow> 'w \<Rightarrow> (go_error + string) \<times> 'w) option"
  rfe_loader :: "loader option"
  rfe_io :: "(refine_act, 'w) io"
  rfe_now :: "'w \<Rightarrow> string"

definition WithRefineInterval :: "duration \<Rightarrow> 'w refiner \<Rightarrow> 'w refiner" where
  "WithRefineInterval d r = (if d > 0 then r\<lparr>rfe_interval := d\<rparr> else r)"

definition WithRefineMinSamples :: "int \<Rightarrow> 'w refiner \<Rightarrow> 'w refiner" where
  "WithRefineMinSamples n r = (if n > 0 then r\<lparr>rfe_min := n\<rparr> else r)"

fun extractPaths :: "url_lib \<Rightarrow> sample_url list \<Rightarrow> string list" where
  "extractPaths L [] = []"
| "extractPaths L (x # xs) =
     (case ul_parse L (su_url x) of
        Inl _ \<Rightarrow> extractPaths L xs
      | Inr u \<Rightarrow> (if ur_path u = [] then ''/'' else ur_path u) # extractPaths L xs)"

definition buildDescription :: "(string \<Rightarrow> string) \<Rightarrow> string \<Rightarrow> string \<Rightarrow> string \<Rightarrow> int \<Rightarrow> string" where
  "buildDescription trim now existing method n =
     (let tag = ''refined(method='' @ method @ '', samples='' @ int_text n @ '', at='' @ now @ '')''; old = trim existing
      in if old = [] then tag else old @ '' | '' @ tag)"

text \<open>The pattern with its method, if one was inferred.\<close>

definition inferPattern ::
  "'w refiner \<Rightarrow> string list \<Rightarrow> (refine_act, 'w) sys \<Rightarrow> (go_error + (string \<times> string) option) \<times> (refine_act, 'w) sys" where
  "inferPattern R paths s =
     (case InferHeuristic (pe_regex (rfe_paths R)) (rfe_min R) paths of
        Some pat \<Rightarrow> (Inr (Some (pat, MethodAlgorithm)), s)
      | None \<Rightarrow>
         (case rfe_model R of
            None \<Rightarrow> (Inr None, s)
          | Some f \<Rightarrow>
             (case InferLLM (rfe_paths R) (rfe_min R) paths [] (Some (\<lambda>sy us. perform_val (f sy us) AskPathModel))
                     (rfe_loader R) s of
                (Inl err, s1) \<Rightarrow> (Inl err, s1)
              | (Inr None, s1) \<Rightarrow> (Inr None, s1)
              | (Inr (Some pat), s1) \<Rightarrow> (Inr (Some (pat, MethodLLM)), s1))))"

text \<open>The fields the new record takes; the others have Go's zero values.\<close>

definition refined_row :: "rule_row \<Rightarrow> string \<Rightarrow> string \<Rightarrow> rule_row" where
  "refined_row rec pat desc =
     \<lparr>gr_rule = \<lparr>ru_id = 0, ru_source = ru_source (gr_rule rec), ru_host = ru_host (gr_rule rec), ru_path = pat,
                 ru_type = ru_type (gr_rule rec), ru_version = 0, ru_enabled = True,
                 ru_selectors = ru_selectors (gr_rule rec), ru_article = False\<rparr>,
      gr_confidence = gr_confidence rec, gr_description = desc, gr_page_type = [], pr_priority = 0\<rparr>"

definition store_refined ::
  "'w refiner \<Rightarrow> rule_row \<Rightarrow> string list \<Rightarrow> string \<Rightarrow> string \<Rightarrow> (refine_act, 'w) sys \<Rightarrow> (string \<times> string) \<times> (refine_act, 'w) sys" where
  "store_refined R rec paths pat method s =
     (let desc = buildDescription (ul_trim (rfe_lib R)) (rfe_now R (fst s)) (gr_description rec) method (int (length paths))
      in case perform (rfe_io R) (InsertVersion (refined_row rec pat desc)) s of
           (Some err, s1) \<Rightarrow> ((if is_sentinel StorageDuplicate err then ResultSkipped else ResultError, method), s1)
         | (None, s1) \<Rightarrow>
             let (_, s2) = perform (rfe_io R) (PurgeSamples (ru_id (gr_rule rec))) s1
             in ((ResultSuccess, method), s2))"

definition refineOne ::
  "'w refiner \<Rightarrow> rule_row \<Rightarrow> (refine_act, 'w) sys \<Rightarrow> (string \<times> string) \<times> (refine_act, 'w) sys" where
  "refineOne R rec s =
     (let i = ru_id (gr_rule rec)
      in case perform_val (rfe_count R i) (CountSamples i) s of
           (Inl _, s1) \<Rightarrow> ((ResultError, MethodNone), s1)
         | (Inr cnt, s1) \<Rightarrow>
             if cnt < rfe_min R then ((ResultSkipped, MethodNone), s1)
             else (case perform_val (rfe_samples R i (rfe_min R)) (ListSamples i (rfe_min R)) s1 of
                     (Inl _, s2) \<Rightarrow> ((ResultError, MethodNone), s2)
                   | (Inr samples, s2) \<Rightarrow>
                      (let paths = extractPaths (rfe_lib R) samples
                       in if int (length paths) < rfe_min R then ((ResultSkipped, MethodNone), s2)
                          else (case inferPattern R paths s2 of
                                  (Inl _, s3) \<Rightarrow> ((ResultError, MethodLLM), s3)
                                | (Inr None, s3) \<Rightarrow>
                                    ((ResultSkipped, case rfe_model R of None \<Rightarrow> MethodAlgorithm | Some _ \<Rightarrow> MethodLLM), s3)
                                | (Inr (Some (pat, method)), s3) \<Rightarrow> store_refined R rec paths pat method s3))))"

fun refine_all ::
  "'w refiner \<Rightarrow> rule_row list \<Rightarrow> (refine_act, 'w) sys \<Rightarrow> (string \<times> string) list \<times> (refine_act, 'w) sys" where
  "refine_all R [] s = ([], s)"
| "refine_all R (rec # recs) s =
     (if ru_path (gr_rule rec) \<noteq> [] then refine_all R recs s
      else (let (out, s1) = refineOne R rec s; (outs, s2) = refine_all R recs s1 in (out # outs, s2)))"

definition auto_rules_filter :: rule_filter where
  "auto_rules_filter = \<lparr>rf_source = LLMAutoSourceName, rf_host = [], rf_type = [], rf_only_enabled = True, rf_article = None,
     rf_limit = 1000, rf_offset = 0\<rparr>"

definition RunOnce ::
  "'w refiner \<Rightarrow> (refine_act, 'w) sys \<Rightarrow> (go_error + (string \<times> string) list) \<times> (refine_act, 'w) sys" where
  "RunOnce R s =
     (case perform_val (rfe_list R) ListAutoRules s of
        (Inl err, s1) \<Rightarrow> (Inl (Wrapped ''list llm-auto rules'' err), s1)
      | (Inr recs, s1) \<Rightarrow> (let (outs, s2) = refine_all R recs s1 in (Inr outs, s2)))"

datatype refine_event = RefineTick | RefineDone

fun refiner_Run :: "'w refiner \<Rightarrow> refine_event list \<Rightarrow> (refine_act, 'w) sys \<Rightarrow> (refine_act, 'w) sys" where
  "refiner_Run R [] s = s"
| "refiner_Run R (RefineDone # evs) s = s"
| "refiner_Run R (RefineTick # evs) s = refiner_Run R evs (snd (RunOnce R s))"

record refiner_life =
  rl_started :: bool
  rl_stopped :: bool
  rl_running :: nat

definition refiner_Start :: "refiner_life \<Rightarrow> refiner_life" where
  "refiner_Start l =
     (if rl_stopped l then l
      else if rl_started l then l
      else l\<lparr>rl_started := True, rl_running := Suc (rl_running l)\<rparr>)"

text \<open>Whether the call waits for the goroutine.\<close>

definition refiner_Stop :: "refiner_life \<Rightarrow> bool \<times> refiner_life" where
  "refiner_Stop l = (if rl_stopped l then (False, l) else (rl_started l, l\<lparr>rl_stopped := True\<rparr>))"

definition adapter_Generate :: "'w llm_gen \<Rightarrow> string \<Rightarrow> string \<Rightarrow> (llm_act, 'w) sys \<Rightarrow> (go_error + string) \<times> (llm_act, 'w) sys" where
  "adapter_Generate gen system user s =
     (case gen \<lparr>lq_messages = (if system \<noteq> [] then [\<lparr>lm_role = RoleSystem, lm_content = system\<rparr>] else [])
                               @ [\<lparr>lm_role = RoleUser, lm_content = user\<rparr>],
                lq_model = [], lq_temperature = 0, lq_max_tokens = 0, lq_hint = []\<rparr> s of
        (Inl err, s1) \<Rightarrow> (Inl err, s1)
      | (Inr resp, s1) \<Rightarrow>
          if lr_content resp = [] then (Inl (Opaque ''llm provider returned empty response''), s1)
          else (Inr (lr_content resp), s1))"

section \<open>Semantic validators\<close>

type_synonym validity = "bool \<times> string"

record extracted =
  xc_title :: string
  xc_body :: string
  xc_published :: string
  xc_container :: string
  xc_links :: "string list"

text \<open>
  \<open>ve_text\<close> is the conversion of runes to a string, \<open>ve_json\<close> \<^verbatim>\<open>json.Unmarshal\<close> of a verdict.
\<close>

record 'n validator_env =
  ve_page :: "'n rule_env"
  ve_text :: "int list \<Rightarrow> string"
  ve_json :: "string \<Rightarrow> go_error + validity"
  ve_load :: loader

definition css_of :: "field_selector option \<Rightarrow> string" where
  "css_of f = (case f of None \<Rightarrow> [] | Some x \<Rightarrow> fs_css x)"

definition first_text :: "'n rule_env \<Rightarrow> 'n list \<Rightarrow> string" where
  "first_text E ns = ul_trim (pn_lib E) (case ns of [] \<Rightarrow> [] | n # _ \<Rightarrow> pn_text E n)"

definition ellipsis :: string where "ellipsis = [CHR 0xE2, CHR 0x80, CHR 0xA6]"

definition shortened :: "'n validator_env \<Rightarrow> nat \<Rightarrow> string \<Rightarrow> string" where
  "shortened V n s = (if length (runes s) > n then ve_text V (take n (runes s)) @ ellipsis else s)"

text \<open>The values of the first three elements a link selector finds.\<close>

definition link_values :: "'n rule_env \<Rightarrow> field_selector \<Rightarrow> 'n list \<Rightarrow> string list" where
  "link_values E f ns =
     (if fs_attr f \<noteq> [] then List.map_filter (\<lambda>n. pn_attr E n (fs_attr f)) (take 3 ns)
      else map (\<lambda>n. ul_trim (pn_lib E) (pn_text E n)) (take 3 ns))"

definition extractContent :: "'n validator_env \<Rightarrow> string \<Rightarrow> selector_map \<Rightarrow> go_error + extracted" where
  "extractContent V html sm =
     (let E = ve_page V
      in case pn_parse E html of
           Inl err \<Rightarrow> Inl err
         | Inr doc \<Rightarrow>
             Inr \<lparr>xc_title = (if css_of (sm_title sm) = [] then [] else first_text E (pn_find E doc (css_of (sm_title sm)))),
                  xc_body =
                    (case sm_main sm of
                       None \<Rightarrow> []
                     | Some f \<Rightarrow>
                         if fs_css f = [] then []
                         else shortened V 500
                           (if fs_multi f
                            then join_at '' '' (filter (\<lambda>t. t \<noteq> []) (map (\<lambda>n. ul_trim (pn_lib E) (pn_text E n)) (pn_find E doc (fs_css f))))
                            else first_text E (pn_find E doc (fs_css f)))),
                  xc_published =
                    (case sm_published sm of
                       None \<Rightarrow> []
                     | Some f \<Rightarrow>
                         if fs_css f = [] then []
                         else if fs_attr f \<noteq> []
                         then (case pn_find E doc (fs_css f) of
                                 [] \<Rightarrow> []
                               | n # _ \<Rightarrow> (case pn_attr E n (fs_attr f) of None \<Rightarrow> [] | Some v \<Rightarrow> v))
                         else first_text E (pn_find E doc (fs_css f))),
                  xc_container =
                    (if css_of (sm_item_container sm) = [] then []
                     else shortened V 200 (first_text E (pn_find E doc (css_of (sm_item_container sm))))),
                  xc_links =
                    (case sm_item_link sm of
                       None \<Rightarrow> []
                     | Some f \<Rightarrow>
                         if fs_css f = [] then []
                         else if css_of (sm_item_container sm) = [] then link_values E f (pn_find E doc (fs_css f))
                         else link_values E f
                           (case pn_find E doc (css_of (sm_item_container sm)) of [] \<Rightarrow> [] | n # _ \<Rightarrow> pn_find E n (fs_css f)))\<rparr>)"

definition vl_system :: string where "vl_system = ''parser/validator/system''"
definition vl_page :: string where "vl_page = ''parser/validator/page.user''"
definition vl_list :: string where "vl_list = ''parser/validator/list.user''"

definition validator_contracts :: "contract list" where
  "validator_contracts =
     [\<lparr>ct_name = vl_system, ct_placeholders = []\<rparr>,
      \<lparr>ct_name = vl_page, ct_placeholders = [''{{TITLE}}'', ''{{BODY}}'', ''{{PUBLISHED_AT_LINE}}'', ''{{PUBLISHED_AT_CRITERIA}}'']\<rparr>,
      \<lparr>ct_name = vl_list, ct_placeholders = [''{{ITEM_CONTAINER}}'', ''{{ITEM_LINKS_LINE}}'']\<rparr>]"

definition newline :: string where "newline = [CHR 0x0A]"

definition buildValidationPrompt :: "extracted \<Rightarrow> string \<Rightarrow> loader \<Rightarrow> go_error + string" where
  "buildValidationPrompt ec tt load =
     (if tt = TargetTypeList then
        (case load vl_list of
           Inl err \<Rightarrow> Inl (Wrapped ''load validator list user prompt'' err)
         | Inr t \<Rightarrow>
             Inr (Render t
               [(''{{ITEM_CONTAINER}}'', go_quote (xc_container ec)),
                (''{{ITEM_LINKS_LINE}}'',
                 if xc_links ec = [] then []
                 else ''- item_links (first '' @ int_text (int (length (xc_links ec))) @ ''): ['' @ join_at '' '' (xc_links ec) @ '']'' @ newline)]))
      else
        (case load vl_page of
           Inl err \<Rightarrow> Inl (Wrapped ''load validator page user prompt'' err)
         | Inr t \<Rightarrow>
             Inr (Render t
               [(''{{TITLE}}'', go_quote (xc_title ec)), (''{{BODY}}'', go_quote (xc_body ec)),
                (''{{PUBLISHED_AT_LINE}}'',
                 if xc_published ec = [] then [] else ''- published_at: '' @ go_quote (xc_published ec) @ newline),
                (''{{PUBLISHED_AT_CRITERIA}}'',
                 if xc_published ec = [] then [] else ''- published_at: looks like a date/time string'' @ newline)])))"

text \<open>The expression \<^verbatim>\<open>"valid"\s*:\s*(true|false)\<close>.\<close>

definition regex_space :: "char \<Rightarrow> bool" where
  "regex_space c \<longleftrightarrow> c \<in> {CHR 0x09, CHR 0x0A, CHR 0x0C, CHR 0x0D, CHR '' ''}"

definition quoted_valid :: string where "quoted_valid = CHR 0x22 # ''valid'' @ [CHR 0x22]"

definition verdict_here :: "string \<Rightarrow> bool option" where
  "verdict_here s =
     (if starts_with quoted_valid s
      then (case dropWhile regex_space (drop 7 s) of
              [] \<Rightarrow> None
            | c # r \<Rightarrow>
                (if c = CHR '':''
                 then (let v = dropWhile regex_space r
                       in if starts_with ''true'' v then Some True else if starts_with ''false'' v then Some False else None)
                 else None))
      else None)"

fun find_verdict :: "string \<Rightarrow> bool option" where
  "find_verdict [] = None"
| "find_verdict (c # s) = (case verdict_here (c # s) of Some b \<Rightarrow> Some b | None \<Rightarrow> find_verdict s)"

definition salvageValid :: "string \<Rightarrow> go_error + validity" where
  "salvageValid s =
     (case find_verdict s of
        None \<Rightarrow> Inl (Opaque ''salvage: no valid key found in truncated response'')
      | Some b \<Rightarrow> Inr (b, []))"

definition from_brace :: "string \<Rightarrow> string" where
  "from_brace s = (if CHR ''{'' \<in> set s then dropWhile (\<lambda>c. c \<noteq> CHR ''{'') s else s)"

definition to_brace :: "string \<Rightarrow> string" where
  "to_brace s = (if CHR ''}'' \<in> set s then rev (dropWhile (\<lambda>c. c \<noteq> CHR ''}'') (rev s)) else s)"

definition parseValidationResponse :: "(string \<Rightarrow> go_error + validity) \<Rightarrow> string \<Rightarrow> go_error + validity" where
  "parseValidationResponse json content =
     (let s = to_brace (from_brace content)
      in case json s of
           Inr v \<Rightarrow> Inr v
         | Inl err \<Rightarrow>
            (case salvageValid s of
               Inr v \<Rightarrow> Inr v
             | Inl _ \<Rightarrow> Inl (Annotated ''unmarshal: '' err ('' (raw: '' @ go_quote content @ '')''))))"

definition truncatedStopReasons :: "string set" where
  "truncatedStopReasons = {''length'', ''max_tokens'', ''MAX_TOKENS''}"

type_synonym 'w validator_fn = "string \<Rightarrow> selector_map \<Rightarrow> string \<Rightarrow> (llm_act, 'w) sys \<Rightarrow> (go_error + validity) \<times> (llm_act, 'w) sys"

definition validator_Validate :: "'n validator_env \<Rightarrow> 'w llm_gen \<Rightarrow> 'w validator_fn" where
  "validator_Validate V gen html sm tt s =
     (case extractContent V html sm of
        Inl err \<Rightarrow> (Inl (Wrapped ''extract content for validation'' err), s)
      | Inr ec \<Rightarrow>
     (case ve_load V vl_system of
        Inl err \<Rightarrow> (Inl (Wrapped ''load validator system prompt'' err), s)
      | Inr system \<Rightarrow>
     (case buildValidationPrompt ec tt (ve_load V) of
        Inl err \<Rightarrow> (Inl err, s)
      | Inr user \<Rightarrow>
     (case gen \<lparr>lq_messages = [\<lparr>lm_role = RoleSystem, lm_content = system\<rparr>, \<lparr>lm_role = RoleUser, lm_content = user\<rparr>],
                lq_model = [], lq_temperature = 0, lq_max_tokens = 512, lq_hint = ''json''\<rparr> s of
        (Inl err, s1) \<Rightarrow> (Inl (Wrapped ''llm validation call'' err), s1)
      | (Inr resp, s1) \<Rightarrow>
          if lr_content resp = [] then (Inl (Opaque ''llm returned empty validation response''), s1)
          else (case parseValidationResponse (ve_json V) (lr_content resp) of
                  Inr v \<Rightarrow> (Inr v, s1)
                | Inl perr \<Rightarrow>
                    if lr_stop resp \<in> truncatedStopReasons
                    then (Inl (Wrapped (''llm validation response truncated (stop_reason='' @ lr_stop resp @ '', max_tokens=512)'') perr), s1)
                    else (Inl (Wrapped ''parse validation response'' perr), s1))))))"

text \<open>The result and the error of the pool, which returns both when every validator failed.\<close>

fun pool_loop ::
  "'w validator_fn list \<Rightarrow> string \<Rightarrow> selector_map \<Rightarrow> string \<Rightarrow> go_error list \<Rightarrow> (llm_act, 'w) sys
     \<Rightarrow> (validity \<times> go_error option) \<times> (llm_act, 'w) sys" where
  "pool_loop [] html sm tt errs s =
     (((True, ''all validators unavailable ('' @ int_text (int (length errs)) @ '' errors)''), Some (Joined errs)), s)"
| "pool_loop (v # vs) html sm tt errs s =
     (case v html sm tt s of
        (Inl err, s1) \<Rightarrow> pool_loop vs html sm tt (errs @ [err]) s1
      | (Inr res, s1) \<Rightarrow> ((res, None), s1))"

definition validator_Pool ::
  "'w validator_fn list \<Rightarrow> string \<Rightarrow> selector_map \<Rightarrow> string \<Rightarrow> (llm_act, 'w) sys
     \<Rightarrow> (validity \<times> go_error option) \<times> (llm_act, 'w) sys" where
  "validator_Pool vs html sm tt s =
     (if vs = [] then (((True, ''no validators configured''), None), s) else pool_loop vs html sm tt [] s)"

section \<open>What a cycle writes\<close>

definition matches_all :: "regex_lib \<Rightarrow> string \<Rightarrow> string list \<Rightarrow> bool" where
  "matches_all re pat paths \<longleftrightarrow> pat \<noteq> [] \<and> (\<exists>m. re pat = Inr m \<and> (\<forall>p \<in> set paths. m (rooted p)))"

lemma InferHeuristic_matches: "InferHeuristic re n paths = Some pat \<Longrightarrow> matches_all re pat paths"
  by (auto simp: InferHeuristic_def matches_all_def Let_def list_all_iff pattern_text_def
      split: if_splits option.splits sum.splits)

lemma InferLLM_some:
  assumes "InferLLM E n articles others gen ld s = (Inr (Some pat), s')"
  shows "matches_all (pe_regex E) pat articles"
proof -
  have "pat \<noteq> []" "validateLLMResult E pat articles others"
    using assms by (auto simp: InferLLM_def Let_def split: if_splits option.splits sum.splits prod.splits)
  then show ?thesis by (auto simp: validateLLMResult_def matches_all_def list_all_iff split: if_splits sum.splits)
qed

lemma InferLLM_state:
  assumes "InferLLM E n articles others (Some g) ld s = (r, s')"
  shows "s' = s \<or> (\<exists>sy us r1. g sy us s = (r1, s'))"
  using assms by (auto simp: InferLLM_def Let_def split: if_splits option.splits sum.splits prod.splits)

lemma inferPattern_spec:
  assumes "inferPattern R paths s = (r, s')"
  shows "extends_by (all_acts (\<lambda>a. a = AskPathModel)) s s'"
    and "r = Inr (Some (pat, method)) \<Longrightarrow> matches_all (pe_regex (rfe_paths R)) pat paths"
proof -
  have "extends_by (all_acts (\<lambda>a. a = AskPathModel)) s s' \<and> (r = Inr (Some (pat, method)) \<longrightarrow> matches_all (pe_regex (rfe_paths R)) pat paths)"
  proof (cases "InferHeuristic (pe_regex (rfe_paths R)) (rfe_min R) paths")
    case (Some p)
    then show ?thesis using assms InferHeuristic_matches [OF Some] by (auto simp: inferPattern_def intro: extends_refl)
  next
    case None
    show ?thesis
    proof (cases "rfe_model R")
      case None
      then show ?thesis using assms \<open>InferHeuristic _ _ _ = None\<close> by (auto simp: inferPattern_def intro: extends_refl)
    next
      case (Some f)
      let ?g = "\<lambda>sy us. perform_val (f sy us) AskPathModel"
      obtain r1 s1 where i: "InferLLM (rfe_paths R) (rfe_min R) paths [] (Some ?g) (rfe_loader R) s = (r1, s1)" by (rule prod.exhaust)
      have "extends_by (all_acts (\<lambda>a. a = AskPathModel)) s s1"
        using InferLLM_state [OF i] by (auto intro: extends_refl perform_val_extends)
      moreover have "r1 = Inr (Some p) \<Longrightarrow> matches_all (pe_regex (rfe_paths R)) p paths" for p
        using i by (auto dest: InferLLM_some)
      ultimately show ?thesis
        using assms \<open>InferHeuristic _ _ _ = None\<close> Some i by (auto simp: inferPattern_def split: sum.splits option.splits)
    qed
  qed
  then show "extends_by (all_acts (\<lambda>a. a = AskPathModel)) s s'"
    and "r = Inr (Some (pat, method)) \<Longrightarrow> matches_all (pe_regex (rfe_paths R)) pat paths" by simp_all
qed

definition inserted_for :: "'w refiner \<Rightarrow> rule_row \<Rightarrow> rule_row \<Rightarrow> bool" where
  "inserted_for R rec x \<longleftrightarrow>
     (\<exists>w samples w' pat desc. rfe_samples R (ru_id (gr_rule rec)) (rfe_min R) w = (Inr samples, w')
        \<and> rfe_min R \<le> int (length (extractPaths (rfe_lib R) samples))
        \<and> x = refined_row rec pat desc \<and> matches_all (pe_regex (rfe_paths R)) pat (extractPaths (rfe_lib R) samples))"

fun refine_act_for :: "'w refiner \<Rightarrow> rule_row \<Rightarrow> refine_act \<Rightarrow> bool" where
  "refine_act_for R rec ListAutoRules \<longleftrightarrow> False"
| "refine_act_for R rec (CountSamples i) \<longleftrightarrow> i = ru_id (gr_rule rec)"
| "refine_act_for R rec (ListSamples i n) \<longleftrightarrow> i = ru_id (gr_rule rec) \<and> n = rfe_min R"
| "refine_act_for R rec AskPathModel \<longleftrightarrow> True"
| "refine_act_for R rec (InsertVersion x) \<longleftrightarrow> inserted_for R rec x"
| "refine_act_for R rec (PurgeSamples i) \<longleftrightarrow> i = ru_id (gr_rule rec)"

fun is_insert_version :: "refine_act \<Rightarrow> bool" where
  "is_insert_version (InsertVersion _) \<longleftrightarrow> True"
| "is_insert_version _ \<longleftrightarrow> False"

fun is_purge :: "refine_act \<Rightarrow> bool" where
  "is_purge (PurgeSamples _) \<longleftrightarrow> True"
| "is_purge _ \<longleftrightarrow> False"

text \<open>The calls for one rule: nothing is written before its end, and samples are purged just after a written version.\<close>

definition refine_trace :: "'w refiner \<Rightarrow> rule_row \<Rightarrow> string \<times> string \<Rightarrow> (refine_act \<times> go_error option) list \<Rightarrow> bool" where
  "refine_trace R rec out tr \<longleftrightarrow> all_acts (refine_act_for R rec) tr \<and>
     (if fst out = ResultSuccess
      then (\<exists>pre x e. tr = pre @ [(InsertVersion x, None), (PurgeSamples (ru_id (gr_rule rec)), e)]
              \<and> all_acts (\<lambda>a. \<not> is_insert_version a \<and> \<not> is_purge a) pre)
      else (\<exists>pre post. tr = pre @ post \<and> all_acts (\<lambda>a. \<not> is_insert_version a \<and> \<not> is_purge a) pre
              \<and> (post = [] \<or> (\<exists>x e. post = [(InsertVersion x, Some e)]))))"

definition quiet_refine :: "'w refiner \<Rightarrow> rule_row \<Rightarrow> (refine_act \<times> go_error option) list \<Rightarrow> bool" where
  "quiet_refine R rec tr \<longleftrightarrow> all_acts (\<lambda>a. refine_act_for R rec a \<and> \<not> is_insert_version a \<and> \<not> is_purge a) tr"

lemma quiet_refine_simps: "quiet_refine R rec []" "quiet_refine R rec (a @ b) \<longleftrightarrow> quiet_refine R rec a \<and> quiet_refine R rec b"
  by (auto simp: quiet_refine_def)

lemma quiet_trace: "quiet_refine R rec tr \<Longrightarrow> fst out \<noteq> ResultSuccess \<Longrightarrow> refine_trace R rec out tr"
  by (auto simp: quiet_refine_def refine_trace_def)

lemma store_refined_trace:
  assumes "store_refined R rec paths pat method s = (out, s')"
    and ok: "\<And>desc. inserted_for R rec (refined_row rec pat desc)"
  shows "extends_by (\<lambda>tr. \<forall>pre. quiet_refine R rec pre \<longrightarrow> refine_trace R rec out (pre @ tr)) s s'"
proof -
  define x where "x = refined_row rec pat (buildDescription (ul_trim (rfe_lib R)) (rfe_now R (fst s)) (gr_description rec) method (int (length paths)))"
  obtain r s1 where i: "perform (rfe_io R) (InsertVersion x) s = (r, s1)" by (rule prod.exhaust)
  have x: "inserted_for R rec x" using ok by (simp add: x_def)
  show ?thesis
  proof (cases r)
    case None
    obtain e s2 where p: "perform (rfe_io R) (PurgeSamples (ru_id (gr_rule rec))) s1 = (e, s2)" by (rule prod.exhaust)
    have out: "out = (ResultSuccess, method)" "s' = s2"
      using assms(1) i p None by (simp_all add: store_refined_def Let_def x_def)
    have "snd s' = snd s @ [(InsertVersion x, None), (PurgeSamples (ru_id (gr_rule rec)), e)]"
      using perform_trace [OF i] perform_trace [OF p] None out by simp
    moreover have "refine_trace R rec out (pre @ [(InsertVersion x, None), (PurgeSamples (ru_id (gr_rule rec)), e)])"
      if "quiet_refine R rec pre" for pre
      using that x out by (auto simp: refine_trace_def quiet_refine_def)
    ultimately show ?thesis by (auto simp: extends_by_def)
  next
    case (Some err)
    have out: "fst out \<noteq> ResultSuccess" "s' = s1"
      using assms(1) i Some by (auto simp: store_refined_def Let_def x_def refine_texts split: if_splits)
    have "snd s' = snd s @ [(InsertVersion x, Some err)]" using perform_trace [OF i] Some out by simp
    moreover have "refine_trace R rec out (pre @ [(InsertVersion x, Some err)])" if "quiet_refine R rec pre" for pre
    proof -
      have "all_acts (refine_act_for R rec) (pre @ [(InsertVersion x, Some err)])" "all_acts (\<lambda>a. \<not> is_insert_version a \<and> \<not> is_purge a) pre"
        using that x by (auto simp: quiet_refine_def)
      then show ?thesis using out unfolding refine_trace_def by auto
    qed
    ultimately show ?thesis by (auto simp: extends_by_def)
  qed
qed

lemma refineOne_trace:
  assumes "refineOne R rec s = (out, s')"
  shows "extends_by (refine_trace R rec out) s s'"
proof -
  let ?i = "ru_id (gr_rule rec)" and ?q = "quiet_refine R rec"
  obtain c s1 where c: "perform_val (rfe_count R ?i) (CountSamples ?i) s = (c, s1)" by (rule prod.exhaust)
  obtain l s2 where l: "perform_val (rfe_samples R ?i (rfe_min R)) (ListSamples ?i (rfe_min R)) s1 = (l, s2)" by (rule prod.exhaust)
  have q1: "extends_by ?q s s1" by (rule perform_val_extends [OF c]) (simp add: quiet_refine_def)
  have "extends_by ?q s1 s2" by (rule perform_val_extends [OF l]) (simp add: quiet_refine_def)
  from extends_trans [OF q1 this, of ?q] have q2: "extends_by ?q s s2" by (simp add: quiet_refine_simps)
  have quit: "extends_by (refine_trace R rec out) s s'" if "extends_by ?q s s'" "fst out \<noteq> ResultSuccess"
    using that by (auto intro: extends_weaken quiet_trace)
  show ?thesis
  proof (cases "\<exists>cnt samples. c = Inr cnt \<and> \<not> cnt < rfe_min R \<and> l = Inr samples
      \<and> \<not> int (length (extractPaths (rfe_lib R) samples)) < rfe_min R")
    case False
    then have "s' \<in> {s1, s2} \<and> fst out \<noteq> ResultSuccess"
      using assms c l by (auto simp: refineOne_def Let_def refine_texts split: sum.splits if_splits)
    then show ?thesis using quit q1 q2 by auto
  next
    case True
    then obtain cnt samples where k: "c = Inr cnt" "\<not> cnt < rfe_min R" "l = Inr samples"
      "\<not> int (length (extractPaths (rfe_lib R) samples)) < rfe_min R" by blast
    define paths where "paths = extractPaths (rfe_lib R) samples"
    obtain r s3 where f: "inferPattern R paths s2 = (r, s3)" by (rule prod.exhaust)
    have "extends_by ?q s2 s3"
      by (rule extends_weaken [OF inferPattern_spec(1) [OF f]]) (simp add: quiet_refine_def)
    from extends_trans [OF q2 this, of ?q] have q3: "extends_by ?q s s3" by (simp add: quiet_refine_simps)
    show ?thesis
    proof (cases "\<exists>pat method. r = Inr (Some (pat, method))")
      case False
      then have "s' = s3 \<and> fst out \<noteq> ResultSuccess"
        using assms c l k f by (auto simp: refineOne_def Let_def refine_texts paths_def split: sum.splits if_splits option.splits)
      then show ?thesis using quit q3 by auto
    next
      case True
      then obtain pat mt where r: "r = Inr (Some (pat, mt))" by blast
      have st: "store_refined R rec paths pat mt s3 = (out, s')"
        using assms c l k f r by (simp add: refineOne_def Let_def paths_def)
      have samples: "\<exists>w w'. rfe_samples R ?i (rfe_min R) w = (Inr samples, w')"
        using l k(3) by (auto simp: perform_val_def Let_def split: prod.splits)
      have enough: "rfe_min R \<le> int (length (extractPaths (rfe_lib R) samples))" using k(4) by simp
      have "inserted_for R rec (refined_row rec pat desc)" for desc
        using samples enough inferPattern_spec(2) [OF f r] unfolding inserted_for_def paths_def by blast
      from extends_trans [OF q3 store_refined_trace [OF st this]] show ?thesis by blast
    qed
  qed
qed

fun traced_rules :: "'w refiner \<Rightarrow> rule_row list \<Rightarrow> (string \<times> string) list \<Rightarrow> (refine_act \<times> go_error option) list \<Rightarrow> bool" where
  "traced_rules R [] outs tr \<longleftrightarrow> outs = [] \<and> tr = []"
| "traced_rules R (rec # recs) outs tr \<longleftrightarrow>
     (\<exists>out outs' tr1 tr2. outs = out # outs' \<and> tr = tr1 @ tr2 \<and> refine_trace R rec out tr1 \<and> traced_rules R recs outs' tr2)"

abbreviation catch_alls :: "rule_row list \<Rightarrow> rule_row list" where
  "catch_alls recs \<equiv> filter (\<lambda>rec. ru_path (gr_rule rec) = []) recs"

lemma refine_all_trace: "refine_all R recs s = (outs, s') \<Longrightarrow> extends_by (traced_rules R (catch_alls recs) outs) s s'"
proof (induction recs arbitrary: s outs s')
  case Nil
  then show ?case by (auto intro: extends_refl)
next
  case (Cons rec recs)
  show ?case
  proof (cases "ru_path (gr_rule rec) = []")
    case True
    obtain out s1 where o: "refineOne R rec s = (out, s1)" by (rule prod.exhaust)
    obtain outs1 s2 where os: "refine_all R recs s1 = (outs1, s2)" by (rule prod.exhaust)
    have r: "outs = out # outs1" "s' = s2" using Cons.prems True o os by auto
    have step: "traced_rules R (catch_alls (rec # recs)) outs (a @ b)"
      if "refine_trace R rec out a" "traced_rules R (catch_alls recs) outs1 b" for a b using that True r by auto
    show ?thesis unfolding r(2) by (rule extends_trans [OF refineOne_trace [OF o] Cons.IH [OF os]]) (rule step)
  next
    case False
    then show ?thesis using Cons by simp
  qed
qed


definition sample_url_lib :: url_lib where
  "sample_url_lib = sample_lib\<lparr>ul_parse := (\<lambda>u. Inr \<lparr>ur_scheme = [], ur_opaque = [], ur_user = [], ur_host = ''h'', ur_path = u,
     ur_rawpath = [], ur_rawquery = [], ur_fragment = [], ur_rawfragment = []\<rparr>)\<rparr>"

definition sample_refiner :: "unit refiner" where
  "sample_refiner = \<lparr>rfe_min = 3, rfe_interval = 1, rfe_paths = sample_path_env, rfe_lib = sample_url_lib,
     rfe_list = (\<lambda>w. (Inr [sample_row [] True], w)), rfe_count = (\<lambda>_ w. (Inr 3, w)),
     rfe_samples = (\<lambda>_ _ w. (Inr (map (\<lambda>u. \<lparr>su_id = 0, su_rule = 1, su_url = u, su_seen = 0\<rparr>) sample_articles), w)),
     rfe_model = None, rfe_loader = None, rfe_io = (\<lambda>_ w. (None, w)), rfe_now = (\<lambda>_. ''t'')\<rparr>"

definition sample_pattern :: string where
  "sample_pattern = pattern_text [LiteralPart ''news'', YearPart, SlugPart]"

lemma sample_paths:
  "extractPaths sample_url_lib (map (\<lambda>u. \<lparr>su_id = 0, su_rule = 1, su_url = u, su_seen = 0\<rparr>) sample_articles) = sample_articles"
  by (simp add: sample_articles_def sample_url_lib_def)

lemma sample_refine_run:
  "\<exists>x. RunOnce sample_refiner ((), []) = (Inr [(ResultSuccess, MethodAlgorithm)],
     ((), [(ListAutoRules, None), (CountSamples 1, None), (ListSamples 1 3, None), (InsertVersion x, None), (PurgeSamples 1, None)]))
   \<and> (\<exists>desc. x = refined_row (sample_row [] True) sample_pattern desc)"
proof -
  have i: "InferHeuristic part_regex 3 sample_articles = Some sample_pattern"
    using sample_inferred by (simp add: sample_pattern_def)
  have len: "length sample_articles = 3" by (simp add: sample_articles_def)
  have r: "ru_path (gr_rule (sample_row [] True)) = []" "ru_id (gr_rule (sample_row [] True)) = 1" by (simp_all add: sample_row_def)
  show ?thesis
    by (simp add: RunOnce_def sample_refiner_def perform_val_def err_of_def refineOne_def r sample_paths len inferPattern_def i
        sample_path_env_def store_refined_def perform_def Let_def) blast
qed


text \<open>
  The record of a new version takes neither the article mark nor the page type nor the crawl priority of the rule it
  refines: a path of an article rule, with priority 1, resolves to a rule that is not for articles, with priority 2.
\<close>

theorem refined_rule_forgets_article:
  "\<exists>desc rows'. InsertNextVersion (sample_db\<lparr>rd_regex := part_regex\<rparr>) None (\<lambda>x. x) None 2
       (refined_row (sample_row [] True) sample_pattern desc) [sample_row [] True] = (None, rows')
     \<and> pr_priority (sample_row [] True) = 1 \<and> ru_article (gr_rule (sample_row [] True))
     \<and> (\<exists>x. row_for (sample_db\<lparr>rd_regex := part_regex\<rparr>) part_regex rows' ''h'' ''page'' ''/news/2024/a-first-story'' = Some x
          \<and> \<not> ru_article (gr_rule x) \<and> pr_priority x = 2 \<and> gr_page_type x = [])"
proof -
  let ?D = "sample_db\<lparr>rd_regex := part_regex\<rparr>" and ?p = "''/news/2024/a-first-story''"
  let ?new = "(normalized_row 2 (at_version 1 (refined_row (sample_row [] True) sample_pattern [])))"
  have re: "part_regex sample_pattern = Inr (parts_match [LiteralPart ''news'', YearPart, SlugPart])"
    using part_regex_knows by (simp add: knows_parts_def sample_pattern_def ascii_text_def)
  have m: "parts_match [LiteralPart ''news'', YearPart, SlugPart] ?p" by code_simp
  have ne: "sample_pattern \<noteq> []" "0 < length sample_pattern" by (simp_all add: sample_pattern_def pattern_text_def)
  have i: "InsertNextVersion ?D None (\<lambda>x. x) None 2 (refined_row (sample_row [] True) sample_pattern []) [sample_row [] True]
      = (None, [sample_row [] True, ?new])"
    using ne re by (simp add: InsertNextVersion_def bad_rule_pattern_def rule_Insert_def marshal_error_def natural_key_def
        normalized_row_def at_version_def max_version_def sample_row_def refined_row_def sample_db_def)
  have "row_for ?D part_regex [sample_row [] True, ?new] ''h'' ''page'' ?p = Some ?new"
    using ne re m by (simp add: row_for_sorted sample_row_def refined_row_def normalized_row_def at_version_def pathMatches_def
        sample_db_def less_eq_prod_def)
  then show ?thesis using i
    by (intro exI [of _ "[]"] exI [of _ "[sample_row [] True, ?new]"])
      (simp add: sample_row_def refined_row_def normalized_row_def at_version_def)
qed

text \<open>At most one goroutine is ever started, and a stop that waits is one after a start.\<close>

definition new_life :: refiner_life where "new_life = \<lparr>rl_started = False, rl_stopped = False, rl_running = 0\<rparr>"

fun life_step :: "bool \<Rightarrow> refiner_life \<Rightarrow> refiner_life" where
  "life_step start l = (if start then refiner_Start l else snd (refiner_Stop l))"

theorem refiner_starts_once:
  "rl_running (fold life_step calls new_life) \<le> 1
   \<and> (rl_running (fold life_step calls new_life) = 1 \<longleftrightarrow> rl_started (fold life_step calls new_life))"
proof -
  have "rl_running (fold life_step calls l) = (if rl_started (fold life_step calls l) then 1 else 0)"
    if "rl_running l = (if rl_started l then 1 else 0)" for l
    using that by (induction calls arbitrary: l) (auto simp: refiner_Start_def refiner_Stop_def)
  from this [of new_life] show ?thesis by (simp add: new_life_def)
qed

section \<open>What the validators answer\<close>

fun fails_through :: "'w validator_fn list \<Rightarrow> string \<Rightarrow> selector_map \<Rightarrow> string \<Rightarrow> go_error list \<Rightarrow> (llm_act, 'w) sys \<Rightarrow> (llm_act, 'w) sys \<Rightarrow> bool" where
  "fails_through [] html sm tt errs s s' \<longleftrightarrow> errs = [] \<and> s' = s"
| "fails_through (v # vs) html sm tt errs s s' \<longleftrightarrow>
     (case errs of [] \<Rightarrow> False
      | e # es \<Rightarrow> \<exists>s1. v html sm tt s = (Inl e, s1) \<and> fails_through vs html sm tt es s1 s')"

lemma pool_loop_append:
  "fails_through vs html sm tt errs s s1 \<Longrightarrow> pool_loop (vs @ post) html sm tt acc s = pool_loop post html sm tt (acc @ errs) s1"
  by (induction vs arbitrary: errs s acc) (auto split: list.splits)

text \<open>The pool asks the validators in order and returns the first verdict with no error; only when all of them fail
  is the rule let through, with all their errors in order. An empty pool lets every rule through.\<close>

theorem pool_first_verdict:
  assumes "fails_through pre html sm tt errs s s1"
  shows "(\<forall>v res s2 post. v html sm tt s1 = (Inr res, s2) \<longrightarrow> validator_Pool (pre @ v # post) html sm tt s = ((res, None), s2))
    \<and> validator_Pool pre html sm tt s =
        (if pre = [] then (((True, ''no validators configured''), None), s)
         else (((True, ''all validators unavailable ('' @ int_text (int (length errs)) @ '' errors)''), Some (Joined errs)), s1))"
  using pool_loop_append [OF assms, of _ "[]"] pool_loop_append [OF assms, of "[]" "[]"]
  by (auto simp: validator_Pool_def)

theorem pool_first_verdict_witness:
  "validator_Pool [\<lambda>_ _ _ s. (Inl (Opaque ''a''), s), \<lambda>_ _ _ s. (Inr (False, ''b''), s), \<lambda>_ _ _ s. (Inr (True, []), s)]
     [] no_selectors_map ''page'' ((), []) = (((False, ''b''), None), ((), []))"
proof -
  have f: "fails_through [\<lambda>_ _ _ s. (Inl (Opaque ''a''), s)] [] no_selectors_map ''page'' [Opaque ''a''] ((), []) ((), [])" by simp
  show ?thesis using pool_first_verdict [OF f] by simp
qed

lemma starts_with_append [simp]: "starts_with p (p @ s)"
  by (simp add: starts_with_def)

lemma verdict_here_match:
  assumes "list_all regex_space ws1" "list_all regex_space ws2" "word = (if b then ''true'' else ''false'')"
  shows "verdict_here (quoted_valid @ ws1 @ '':'' @ ws2 @ word @ rest) = Some b"
proof -
  have d: "dropWhile regex_space (ws @ c # r) = c # r" if "list_all regex_space ws" "\<not> regex_space c" for ws c r
    using that by (induction ws) auto
  have w: "\<exists>c r. word = c # r \<and> \<not> regex_space c" using assms(3) by (auto simp: regex_space_def)
  then obtain c r where cr: "word = c # r" "\<not> regex_space c" by blast
  have d1: "dropWhile regex_space (ws1 @ '':'' @ ws2 @ word @ rest) = '':'' @ ws2 @ word @ rest"
    using d [OF assms(1), of "CHR '':''"] by (simp add: regex_space_def)
  have d2: "dropWhile regex_space (ws2 @ word @ rest) = word @ rest" using d [OF assms(2) cr(2)] cr(1) by simp
  have l: "drop 7 quoted_valid = []" "length quoted_valid = 7" by (simp_all add: quoted_valid_def)
  show ?thesis using d1 d2 assms(3) by (simp add: verdict_here_def l starts_with_def)
qed

text \<open>A verdict survives the cut of a truncated answer: when the text after it has no closing brace and the
  object cannot be decoded, the parser returns the verdict with an empty reason.\<close>

theorem verdict_survives_cut:
  assumes ws: "list_all regex_space ws0" "list_all regex_space ws1" "list_all regex_space ws2"
    and cut_off: "CHR ''}'' \<notin> set rest"
    and word: "word = (if b then ''true'' else ''false'')"
    and s: "content = ''{'' @ ws0 @ quoted_valid @ ws1 @ '':'' @ ws2 @ word @ rest" and bad: "json content = Inl err"
  shows "parseValidationResponse json content = Inr (b, [])"
proof -
  have nb: "CHR ''}'' \<notin> set ws" if "list_all regex_space ws" for ws
    using that by (induction ws) (auto simp: regex_space_def)
  have "CHR ''}'' \<notin> set word" "CHR ''}'' \<notin> set quoted_valid" using word by (simp_all add: quoted_valid_def)
  then have no: "CHR ''}'' \<notin> set content" unfolding s using nb [OF ws(1)] nb [OF ws(2)] nb [OF ws(3)] cut_off by simp
  have "from_brace content = content" unfolding s by (simp add: from_brace_def)
  then have t: "to_brace (from_brace content) = content" using no by (simp add: to_brace_def)
  have skip: "find_verdict (c # x) = find_verdict x" if "c \<noteq> CHR 0x22" for c x
    using that by (simp add: verdict_here_def starts_with_def quoted_valid_def)
  have ws_skip: "find_verdict (ws @ x) = find_verdict x" if "list_all regex_space ws" for ws x
    using that by (induction ws) (auto simp: skip regex_space_def simp del: find_verdict.simps)
  have first: "find_verdict x = Some b" if "verdict_here x = Some b" for x
    using that by (cases x) (auto simp: verdict_here_def starts_with_def quoted_valid_def split: if_splits)
  have "find_verdict content = Some b"
    unfolding s using skip ws_skip [OF ws(1)] first [OF verdict_here_match [OF ws(2,3) word]] by simp
  then show ?thesis using t bad by (simp add: parseValidationResponse_def salvageValid_def Let_def)
qed

theorem verdict_survives_cut_witness:
  "parseValidationResponse (\<lambda>_. Inl (Opaque ''unexpected end''))
     (''{'' @ quoted_valid @ '':'' @ '' '' @ ''false'' @ '', ...'') = Inr (False, [])"
  using verdict_survives_cut [of "[]" "[]" "'' ''" "'', ...''" "''false''" False _ "\<lambda>_. Inl (Opaque ''unexpected end'')"]
  by (simp add: regex_space_def)

end
