(* ===== verification/LlmPolicies.thy ===== *)
theory LlmPolicies
  imports LlmClients
begin

text \<open>
  The routing policies (\<^verbatim>\<open>pkg/llm/policy\<close>), the table of capabilities (\<^verbatim>\<open>capabilities.go\<close>), the
  factory and the wiring that builds the provider from the environment (\<^verbatim>\<open>factory.go\<close>, \<^verbatim>\<open>wiring/wiring.go\<close>).
  Costs, latencies and scores are exact reals, the random draws of a shuffle a function of the position.
\<close>

section \<open>Capabilities\<close>

record capabilities =
  cp_in :: real
  cp_out :: real
  cp_window :: int
  cp_latency :: int

definition no_capabilities :: capabilities where
  "no_capabilities = \<lparr>cp_in = 0, cp_out = 0, cp_window = 0, cp_latency = 0\<rparr>"

type_synonym caps_table = "(string \<times> string) \<rightharpoonup> capabilities"

definition caps_of :: "real \<Rightarrow> real \<Rightarrow> int \<Rightarrow> int \<Rightarrow> capabilities" where
  "caps_of i out w l = \<lparr>cp_in = i, cp_out = out, cp_window = w, cp_latency = l\<rparr>"

definition defaultCapabilitiesTable :: caps_table where
  "defaultCapabilitiesTable =
     [(''openai'', ''gpt-4o-mini'') \<mapsto> caps_of (15 / 100) (60 / 100) 128000 800,
      (''openai'', ''gpt-4o'') \<mapsto> caps_of (25 / 10) 10 128000 1500,
      (''anthropic'', ''claude-opus-4-7'') \<mapsto> caps_of 15 75 200000 3500,
      (''anthropic'', ''claude-sonnet-4-6'') \<mapsto> caps_of 3 15 200000 1800,
      (''anthropic'', ''claude-haiku-4-5'') \<mapsto> caps_of (8 / 10) 4 200000 700,
      (''gemini'', ''gemini-1.5-pro'') \<mapsto> caps_of (125 / 100) 5 2000000 2200,
      (''gemini'', ''gemini-2.5-flash'') \<mapsto> caps_of (75 / 1000) (30 / 100) 1000000 600]"

definition NewStaticCapabilitiesProviderFrom :: "(string \<rightharpoonup> (string \<rightharpoonup> capabilities)) \<Rightarrow> caps_table" where
  "NewStaticCapabilitiesProviderFrom table =
     (\<lambda>(provider, model). case table provider of None \<Rightarrow> None | Some models \<Rightarrow> models model)"

text \<open>A nil table is \<open>None\<close>, as the interface and as the receiver.\<close>

definition capabilityFor :: "caps_table option \<Rightarrow> 'w llm_provider \<Rightarrow> llm_request \<Rightarrow> capabilities" where
  "capabilityFor caps p req =
     (case caps of
        None \<Rightarrow> no_capabilities
      | Some table \<Rightarrow> (case table (lp_name p, lq_model req) of None \<Rightarrow> no_capabilities | Some c \<Rightarrow> c))"

section \<open>Policies\<close>

definition cheapest_key :: "caps_table option \<Rightarrow> llm_request \<Rightarrow> 'w llm_provider \<Rightarrow> real \<times> real" where
  "cheapest_key caps req p = (cp_in (capabilityFor caps p req), cp_out (capabilityFor caps p req))"

definition CheapestFirst :: "caps_table option \<Rightarrow> 'w llm_policy" where
  "CheapestFirst caps req cands = Inr (sort_key (cheapest_key caps req) cands)"

text \<open>\<open>byName\<close> keeps the last candidate of a name.\<close>

definition by_name :: "'w llm_provider list \<Rightarrow> string \<rightharpoonup> 'w llm_provider" where
  "by_name cands = map_of (rev (map (\<lambda>c. (lp_name c, c)) cands))"

definition FixedOrder :: "string list \<Rightarrow> 'w llm_policy" where
  "FixedOrder names req cands = Inr (if names = [] then cands else List.map_filter (by_name cands) names)"

definition latency_ms :: "caps_table option \<Rightarrow> llm_request \<Rightarrow> 'w llm_provider \<Rightarrow> real" where
  "latency_ms caps req p =
     (case lp_stats p of
        Some st \<Rightarrow> if ls_calls st > 0 then ls_latency st else of_int (cp_latency (capabilityFor caps p req))
      | None \<Rightarrow> of_int (cp_latency (capabilityFor caps p req)))"

text \<open>The index drawn from the weights: the first whose running sum reaches \<open>r\<close>, else the last.\<close>

fun pick_idx :: "real \<Rightarrow> real \<Rightarrow> real list \<Rightarrow> nat" where
  "pick_idx r acc [] = 0"
| "pick_idx r acc [w] = 0"
| "pick_idx r acc (w # x # ws) = (if r \<le> acc + w then 0 else Suc (pick_idx r (acc + w) (x # ws)))"

definition swap :: "nat \<Rightarrow> nat \<Rightarrow> 'a list \<Rightarrow> 'a list" where
  "swap i j xs = xs[i := xs ! j, j := xs ! i]"

text \<open>From position \<open>i\<close> on; \<open>n\<close> positions are left before the last one.\<close>

fun shuffle_from :: "(nat \<Rightarrow> real) \<Rightarrow> nat \<Rightarrow> nat \<Rightarrow> 'a list \<Rightarrow> real list \<Rightarrow> 'a list" where
  "shuffle_from draw 0 i xs ws = xs"
| "shuffle_from draw (Suc n) i xs ws =
     (let pick = i + pick_idx (draw i * sum_list (drop i ws)) 0 (drop i ws)
      in shuffle_from draw n (Suc i) (swap i pick xs) (swap i pick ws))"

definition shuffleByInverseWeight :: "(nat \<Rightarrow> real) \<Rightarrow> ('a \<times> real) list \<Rightarrow> ('a \<times> real) list" where
  "shuffleByInverseWeight draw scored =
     shuffle_from draw (length scored - 1) 0 scored (map (\<lambda>(_, sc). 1 / (sc + 1)) scored)"

definition LatencyWeighted :: "caps_table option \<Rightarrow> (nat \<Rightarrow> real) option \<Rightarrow> 'w llm_policy" where
  "LatencyWeighted caps stochastic req cands =
     (let scored = map (\<lambda>c. (c, latency_ms caps req c)) cands
      in Inr (map fst (case stochastic of
                         None \<Rightarrow> sort_key snd scored
                       | Some draw \<Rightarrow> shuffleByInverseWeight draw scored)))"

record hybrid_weights =
  hw_cost :: real
  hw_latency :: real
  hw_failure :: real

definition DefaultHybridWeights :: hybrid_weights where
  "DefaultHybridWeights = \<lparr>hw_cost = 1, hw_latency = 1, hw_failure = 1 / 2\<rparr>"

definition normalize_by :: "real \<Rightarrow> real \<Rightarrow> real" where
  "normalize_by mx v = (if mx = 0 then 0 else v / mx)"

fun maxNonZero :: "real \<Rightarrow> real list \<Rightarrow> real" where
  "maxNonZero m [] = m"
| "maxNonZero m (x # xs) = maxNonZero (if x > m then x else m) xs"

definition hybrid_failure :: "'w llm_provider \<Rightarrow> real" where
  "hybrid_failure p = (case lp_stats p of None \<Rightarrow> 0 | Some st \<Rightarrow> FailureRate st)"

definition hybrid_score :: "caps_table option \<Rightarrow> hybrid_weights \<Rightarrow> llm_request \<Rightarrow> 'w llm_provider list \<Rightarrow> 'w llm_provider \<Rightarrow> real" where
  "hybrid_score caps W req cands c =
     (let cost = (\<lambda>p. cp_in (capabilityFor caps p req)); lat = latency_ms caps req
      in 0 + hw_cost W * normalize_by (maxNonZero 0 (map cost cands)) (cost c)
           + hw_latency W * normalize_by (maxNonZero 0 (map lat cands)) (lat c)
           + hw_failure W * normalize_by (maxNonZero 0 (map hybrid_failure cands)) (hybrid_failure c))"

definition Hybrid :: "caps_table option \<Rightarrow> hybrid_weights \<Rightarrow> 'w llm_policy" where
  "Hybrid caps W req cands =
     (if cands = [] then Inr []
      else if hw_cost W = 0 \<and> hw_latency W = 0 \<and> hw_failure W = 0 then Inr cands
      else Inr (map fst (sort_key snd (map (\<lambda>c. (c, hybrid_score caps W req cands c)) cands))))"

section \<open>Factory and wiring\<close>

record llm_config =
  lc_enabled :: bool
  lc_provider :: string
  lc_key :: string
  lc_model :: string
  lc_timeout :: duration

type_synonym 'w factories = "string \<rightharpoonup> (provider_cfg \<Rightarrow> go_error + 'w llm_provider)"

definition RegisterProvider ::
  "(string \<Rightarrow> string) \<Rightarrow> string \<Rightarrow> (provider_cfg \<Rightarrow> go_error + 'w llm_provider) \<Rightarrow> 'w factories \<Rightarrow> 'w factories" where
  "RegisterProvider lower name builder F = F(lower name \<mapsto> builder)"

text \<open>\<open>names\<close> is the text of the registered names, in the map's order.\<close>

definition factory_New ::
  "(string \<Rightarrow> string) \<Rightarrow> (string \<Rightarrow> string) \<Rightarrow> string \<Rightarrow> 'w factories \<Rightarrow> string \<Rightarrow> provider_cfg \<Rightarrow> go_error + 'w llm_provider" where
  "factory_New lower trim names F provider cfg =
     (let name = lower (trim provider)
      in if name = [] then Inl (llm_error LlmBadRequest ''factory'' ''Config.Provider is empty'' False None)
         else (case F name of
                 None \<Rightarrow> Inl (llm_error LlmBadRequest ''factory''
                           (''unknown provider '' @ go_quote provider @ '' (registered: '' @ names @ '')'') False None)
               | Some builder \<Rightarrow> builder cfg))"

definition provider_builder ::
  "string \<Rightarrow> string \<Rightarrow> string \<Rightarrow> (provider_cfg \<Rightarrow> 'w llm_gen) \<Rightarrow> provider_cfg \<Rightarrow> go_error + 'w llm_provider" where
  "provider_builder name base model gen cfg =
     Inr \<lparr>lp_name = name,
          lp_generate = gen (cfg\<lparr>pv_model := (if pv_model cfg = [] then model else pv_model cfg),
                                 pv_base := (if pv_base cfg = [] then base else pv_base cfg),
                                 pv_timeout := NewHTTPClient (pv_timeout cfg)\<rparr>),
          lp_stats = None\<rparr>"

definition openai_builder :: "'w codec_env \<Rightarrow> provider_cfg \<Rightarrow> go_error + 'w llm_provider" where
  "openai_builder C = provider_builder ''openai'' ''https://api.openai.com/v1'' ''gpt-4o-mini'' (openai_Generate C)"

definition anthropic_builder :: "'w codec_env \<Rightarrow> provider_cfg \<Rightarrow> go_error + 'w llm_provider" where
  "anthropic_builder C =
     provider_builder ''anthropic'' ''https://api.anthropic.com/v1'' ''claude-opus-4-7'' (anthropic_Generate C)"

definition gemini_builder :: "'w codec_env \<Rightarrow> provider_cfg \<Rightarrow> go_error + 'w llm_provider" where
  "gemini_builder C =
     provider_builder ''gemini'' ''https://generativelanguage.googleapis.com/v1beta'' ''gemini-2.5-flash'' (gemini_Generate C)"

text \<open>The registrations of the three packages, whose names are in lower case.\<close>

definition all_factories :: "'w codec_env \<Rightarrow> 'w factories" where
  "all_factories C =
     RegisterProvider id ''openai'' (openai_builder C)
       (RegisterProvider id ''gemini'' (gemini_builder C)
         (RegisterProvider id ''claude'' (anthropic_builder C)
           (RegisterProvider id ''anthropic'' (anthropic_builder C) Map.empty)))"

definition lookupProviderAPIKey :: "(string \<Rightarrow> string) \<Rightarrow> string \<Rightarrow> string" where
  "lookupProviderAPIKey getenv name =
     (if name = ''gemini'' then getenv ''GEMINI_API_KEY''
      else if name = ''openai'' then getenv ''OPENAI_API_KEY''
      else if name = ''anthropic'' \<or> name = ''claude'' then getenv ''ANTHROPIC_API_KEY''
      else [])"

definition normalizePrimary :: "string \<Rightarrow> string" where
  "normalizePrimary name = (if name = ''claude'' then ''anthropic'' else name)"

definition fallbackOrder :: "string list" where "fallbackOrder = [''gemini'', ''openai'', ''anthropic'']"

fun split_commas :: "string \<Rightarrow> string \<Rightarrow> string list" where
  "split_commas acc [] = [rev acc]"
| "split_commas acc (c # s) = (if c = CHR '','' then rev acc # split_commas [] s else split_commas (c # acc) s)"

text \<open>\<open>parse\<close> is \<^verbatim>\<open>strconv.ParseFloat\<close> of a trimmed text; a result that is not finite is \<open>None\<close> inside.\<close>

record wiring_env =
  we_getenv :: "string \<Rightarrow> string"
  we_lower :: "string \<Rightarrow> string"
  we_trim :: "string \<Rightarrow> string"
  we_float :: "string \<Rightarrow> go_error + real option"
  we_float_text :: "string \<Rightarrow> string"
  we_caps :: caps_table

definition weight_error :: "string \<Rightarrow> go_error" where
  "weight_error txt = Opaque (''invalid LLM_HYBRID_WEIGHTS: '' @ txt)"

definition parse_weight :: "wiring_env \<Rightarrow> string \<Rightarrow> string \<Rightarrow> go_error + real" where
  "parse_weight E s label =
     (case we_float E (we_trim E s) of
        Inl err \<Rightarrow> Inl (Wrapped (''invalid LLM_HYBRID_WEIGHTS: parse '' @ label @ '' weight '' @ go_quote s) err)
      | Inr None \<Rightarrow> Inl (weight_error (label @ '' weight must be a finite number, got '' @ we_float_text E s))
      | Inr (Some f) \<Rightarrow>
          if f < 0 then Inl (weight_error (label @ '' weight must be non-negative, got '' @ we_float_text E s)) else Inr f)"

definition loadHybridWeights :: "wiring_env \<Rightarrow> go_error + hybrid_weights" where
  "loadHybridWeights E =
     (let v = we_trim E (we_getenv E ''LLM_HYBRID_WEIGHTS'')
      in if v = [] then Inr DefaultHybridWeights
         else (case split_commas [] v of
                 [a, b, c] \<Rightarrow>
                   (case parse_weight E a ''cost'' of
                      Inl err \<Rightarrow> Inl err
                    | Inr cost \<Rightarrow>
                       (case parse_weight E b ''latency'' of
                          Inl err \<Rightarrow> Inl err
                        | Inr lat \<Rightarrow>
                           (case parse_weight E c ''failure_rate'' of
                              Inl err \<Rightarrow> Inl err
                            | Inr fail \<Rightarrow> Inr \<lparr>hw_cost = cost, hw_latency = lat, hw_failure = fail\<rparr>)))
               | _ \<Rightarrow> Inl (weight_error (''expected 3 comma-separated floats (cost,latency,failure_rate), got '' @ go_quote v))))"

definition selectPolicy :: "wiring_env \<Rightarrow> 'w llm_policy \<times> string" where
  "selectPolicy E =
     (let raw = we_lower E (we_trim E (we_getenv E ''LLM_POLICY''))
      in if raw = [] \<or> raw = ''chain'' \<or> raw = ''fixed'' then (FixedOrder fallbackOrder, ''FixedOrder'')
         else if raw = ''cheapest'' then (CheapestFirst (Some (we_caps E)), ''CheapestFirst'')
         else if raw = ''latency'' then (LatencyWeighted (Some (we_caps E)) None, ''LatencyWeighted'')
         else if raw = ''hybrid'' then
           (Hybrid (Some (we_caps E)) (case loadHybridWeights E of Inl _ \<Rightarrow> DefaultHybridWeights | Inr w \<Rightarrow> w), ''Hybrid'')
         else (FixedOrder fallbackOrder, ''FixedOrder''))"

text \<open>
  The candidates, in the fallback order: the providers with a key, each under retries and measured. \<open>wrap\<close> is that
  pair of decorators, \<open>build\<close> the factory.
\<close>

definition candidate_for ::
  "wiring_env \<Rightarrow> llm_config \<Rightarrow> (string \<Rightarrow> provider_cfg \<Rightarrow> go_error + 'w llm_provider) \<Rightarrow> string \<Rightarrow> 'w llm_provider option" where
  "candidate_for E cfg build name =
     (let primary = normalizePrimary (lc_provider cfg);
          key0 = lookupProviderAPIKey (we_getenv E) name;
          key = (if key0 = [] \<and> name = primary then lc_key cfg else key0)
      in if key = [] then None
         else (case build name \<lparr>pv_key = key, pv_model = (if name = primary then lc_model cfg else []), pv_base = [],
                                pv_timeout = lc_timeout cfg\<rparr> of
                 Inl _ \<Rightarrow> None
               | Inr p \<Rightarrow> Some p))"

definition BuildProviderWithOptions ::
  "wiring_env \<Rightarrow> (go_error + llm_config) \<Rightarrow> (string \<Rightarrow> provider_cfg \<Rightarrow> go_error + 'w llm_provider)
     \<Rightarrow> ('w llm_provider \<Rightarrow> 'w llm_provider) \<Rightarrow> ('w \<Rightarrow> go_error option) \<Rightarrow> 'w llm_gen option" where
  "BuildProviderWithOptions E loaded build wrap ctx =
     (case loaded of
        Inl _ \<Rightarrow> None
      | Inr cfg \<Rightarrow>
          if \<not> lc_enabled cfg then None
          else (let cands = map wrap (List.map_filter (candidate_for E cfg build) fallbackOrder)
                in if cands = [] then None else Some (policy_Generate ctx (Some (fst (selectPolicy E))) cands)))"

section \<open>What the policies return\<close>

lemma pick_idx_less: "ws \<noteq> [] \<Longrightarrow> pick_idx r acc ws < length ws"
  by (induction r acc ws rule: pick_idx.induct) auto

lemma swap_length [simp]: "length (swap i j xs) = length xs"
  by (simp add: swap_def)

lemma swap_mset: "i < length xs \<Longrightarrow> j < length xs \<Longrightarrow> mset (swap i j xs) = mset xs"
  using mset_swap [of j xs i] by (simp add: swap_def)

lemma shuffle_mset:
  "length ws = length xs \<Longrightarrow> i + n < length xs \<or> n = 0 \<Longrightarrow> mset (shuffle_from draw n i xs ws) = mset xs"
proof (induction n arbitrary: i xs ws)
  case (Suc n)
  define pick where "pick = i + pick_idx (draw i * sum_list (drop i ws)) 0 (drop i ws)"
  have i: "i < length xs" using Suc.prems by auto
  have "pick_idx (draw i * sum_list (drop i ws)) 0 (drop i ws) < length (drop i ws)"
    by (rule pick_idx_less) (use i Suc.prems in auto)
  then have p: "pick < length xs" using Suc.prems(1) by (simp add: pick_def)
  have "mset (shuffle_from draw n (Suc i) (swap i pick xs) (swap i pick ws)) = mset (swap i pick xs)"
    by (rule Suc.IH) (use Suc.prems in auto)
  then show ?case using swap_mset [OF i p] by (simp add: pick_def Let_def)
qed simp

lemma mset_fst: "mset xs = mset ys \<Longrightarrow> mset (map fst xs) = mset (map fst ys)"
  by (metis mset_map)

lemma scored_sorted:
  fixes f :: "'a \<Rightarrow> 'b::linorder"
  shows "map fst (sort_key snd (map (\<lambda>c. (c, f c)) cands)) = sort_key f cands"
proof -
  have i: "insort_key snd (c, f c) (map (\<lambda>c. (c, f c)) xs) = map (\<lambda>c. (c, f c)) (insort_key f c xs)" for c xs
    by (induction xs) auto
  have "sort_key snd (map (\<lambda>c. (c, f c)) cands) = map (\<lambda>c. (c, f c)) (sort_key f cands)"
    by (induction cands) (simp_all add: i)
  then show ?thesis by (simp add: comp_def)
qed

text \<open>The cost, latency and hybrid policies return every candidate exactly once: the first two in
  ascending order of their costs and latencies, equal ones as given, the random one in any order, the hybrid one by
  score. The fixed order returns candidates only, each under the name it was asked by, in the order of the names.\<close>

theorem policies_permute:
  "CheapestFirst caps req cands = Inr (sort_key (cheapest_key caps req) cands)
    \<and> LatencyWeighted caps None req cands = Inr (sort_key (latency_ms caps req) cands)
    \<and> (\<exists>out. LatencyWeighted caps (Some draw) req cands = Inr out \<and> mset out = mset cands)
    \<and> (\<exists>out. Hybrid caps W req cands = Inr out \<and> mset out = mset cands
         \<and> (out = cands \<or> sorted (map (hybrid_score caps W req cands) out)))
    \<and> (\<exists>out. FixedOrder names req cands = Inr out \<and> set out \<subseteq> set cands
         \<and> map lp_name out = (if names = [] then map lp_name cands else filter (\<lambda>n. n \<in> lp_name ` set cands) names))"
proof (intro conjI)
  show "CheapestFirst caps req cands = Inr (sort_key (cheapest_key caps req) cands)" by (simp add: CheapestFirst_def)
  show "LatencyWeighted caps None req cands = Inr (sort_key (latency_ms caps req) cands)"
    by (simp add: LatencyWeighted_def scored_sorted Let_def)
  show "\<exists>out. LatencyWeighted caps (Some draw) req cands = Inr out \<and> mset out = mset cands"
  proof -
    let ?sc = "map (\<lambda>c. (c, latency_ms caps req c)) cands"
    have "mset (shuffleByInverseWeight draw ?sc) = mset ?sc"
      unfolding shuffleByInverseWeight_def by (rule shuffle_mset) auto
    then have "mset (map fst (shuffleByInverseWeight draw ?sc)) = mset (map fst ?sc)" by (rule mset_fst)
    then show ?thesis by (simp add: LatencyWeighted_def comp_def Let_def)
  qed
  show "\<exists>out. Hybrid caps W req cands = Inr out \<and> mset out = mset cands
         \<and> (out = cands \<or> sorted (map (hybrid_score caps W req cands) out))"
    by (simp add: Hybrid_def scored_sorted)
  show "\<exists>out. FixedOrder names req cands = Inr out \<and> set out \<subseteq> set cands
         \<and> map lp_name out = (if names = [] then map lp_name cands else filter (\<lambda>n. n \<in> lp_name ` set cands) names)"
  proof -
    have b: "by_name cands n = Some c \<Longrightarrow> c \<in> set cands \<and> lp_name c = n" for n c
      by (auto simp: by_name_def dest: map_of_SomeD)
    have d: "by_name cands n = None \<longleftrightarrow> n \<notin> lp_name ` set cands" for n
      by (force simp: by_name_def map_of_eq_None_iff image_iff comp_def)
    have "set (List.map_filter (by_name cands) ns) \<subseteq> set cands
        \<and> map lp_name (List.map_filter (by_name cands) ns) = filter (\<lambda>n. n \<in> lp_name ` set cands) ns" for ns
    proof (induction ns)
      case (Cons n ns)
      then show ?case using b [of n] d [of n] by (cases "by_name cands n") (auto simp: List.map_filter_def)
    qed (simp add: List.map_filter_def)
    then show ?thesis by (simp add: FixedOrder_def)
  qed
qed

section \<open>The wiring\<close>

text \<open>
  No request of the program names a model, and the capabilities are looked up under the request's model only: the
  table never has an entry, so the cost policy leaves the candidates as they are.
\<close>

theorem cheapest_without_costs:
  assumes "lq_model req = []"
  shows "CheapestFirst (Some defaultCapabilitiesTable) req cands = Inr cands"
proof -
  have "capabilityFor (Some defaultCapabilitiesTable) p req = no_capabilities" for p :: "'a llm_provider"
    using assms by (simp add: capabilityFor_def defaultCapabilitiesTable_def)
  then have "cheapest_key (Some defaultCapabilitiesTable) req p = (0, 0)" for p :: "'a llm_provider"
    by (simp add: cheapest_key_def no_capabilities_def)
  then have "cheapest_key (Some defaultCapabilitiesTable) req = (\<lambda>p :: 'a llm_provider. (0, 0))" by (rule ext)
  then show ?thesis by (simp add: CheapestFirst_def sort_key_const)
qed

text \<open>With LLM_POLICY unset the provider built from the environment is the chain over the providers that
  have a key and could be built, in the order gemini, openai, anthropic; it is absent when the configuration cannot be
  loaded or is disabled, or no provider has a key.\<close>

theorem default_wiring_is_fallback_chain:
  assumes raw: "we_lower E (we_trim E (we_getenv E ''LLM_POLICY'')) = []" and "lc_enabled cfg"
    and names: "\<forall>n c p. build n c = Inr p \<longrightarrow> lp_name p = n" and wrap: "\<forall>p. lp_name (wrap p) = lp_name p"
  defines "cands \<equiv> map wrap (List.map_filter (candidate_for E cfg build) fallbackOrder)"
  shows "(cands = [] \<longrightarrow> BuildProviderWithOptions E (Inr cfg) build wrap ctx = None)
    \<and> (cands \<noteq> [] \<longrightarrow> (\<exists>g. BuildProviderWithOptions E (Inr cfg) build wrap ctx = Some g
          \<and> (\<forall>req s. ctx (fst s) = None \<longrightarrow> g req s = chain_Generate ctx cands req s)))"
proof -
  have n: "candidate_for E cfg build name = Some p \<Longrightarrow> lp_name p = name" for name p
    using names by (auto simp: candidate_for_def Let_def split: if_splits sum.splits)
  have sel: "fst (selectPolicy E) = (FixedOrder fallbackOrder :: 'a llm_policy)" using raw by (simp add: selectPolicy_def)
  have fixed: "FixedOrder fallbackOrder req cands = Inr cands" for req
  proof -
    have one: "List.map_filter f [a, b, c] = (case f a of None \<Rightarrow> [] | Some x \<Rightarrow> [x])
        @ (case f b of None \<Rightarrow> [] | Some x \<Rightarrow> [x]) @ (case f c of None \<Rightarrow> [] | Some x \<Rightarrow> [x])"
      for f :: "string \<Rightarrow> 'a llm_provider option" and a b c
      by (simp add: List.map_filter_def split: option.split)
    show ?thesis
      using n wrap
      by (cases "candidate_for E cfg build ''gemini''"; cases "candidate_for E cfg build ''openai''";
          cases "candidate_for E cfg build ''anthropic''")
        (simp_all add: FixedOrder_def cands_def fallbackOrder_def one by_name_def)
  qed
  have "policy_Generate ctx (Some (FixedOrder fallbackOrder)) cands req s = chain_Generate ctx cands req s"
    if "cands \<noteq> []" "ctx (fst s) = None" for req s
    using that fixed by (simp add: policy_Generate_def)
  then show ?thesis
    unfolding BuildProviderWithOptions_def Let_def sum.case sel cands_def [symmetric] using assms(2) by auto
qed

theorem cheapest_without_costs_witness:
  "CheapestFirst (Some defaultCapabilitiesTable) sample_request [answers ''anthropic'' (Inl busy), answers ''gemini'' (Inl busy)]
     = Inr [answers ''anthropic'' (Inl busy), answers ''gemini'' (Inl busy)]"
  by (rule cheapest_without_costs) (simp add: sample_request_def)

definition sample_wiring :: wiring_env where
  "sample_wiring = \<lparr>we_getenv = (\<lambda>v. if v = ''ANTHROPIC_API_KEY'' then ''k'' else []), we_lower = (\<lambda>s. s), we_trim = (\<lambda>s. s),
     we_float = (\<lambda>s. Inr None), we_float_text = (\<lambda>s. s), we_caps = defaultCapabilitiesTable\<rparr>"

definition sample_llm_config :: llm_config where
  "sample_llm_config = \<lparr>lc_enabled = True, lc_provider = ''gemini'', lc_key = [], lc_model = ''m'', lc_timeout = 0\<rparr>"

theorem default_wiring_is_fallback_chain_witness:
  "\<exists>g. BuildProviderWithOptions sample_wiring (Inr sample_llm_config) (\<lambda>n c. Inr (answers n (Inr sample_response))) (\<lambda>p. p)
          (\<lambda>_. None) = Some g
     \<and> g sample_request (0, []) = (Inr sample_response, (0, [(LlmCall ''anthropic'', None)]))"
proof -
  let ?b = "\<lambda>n c. Inr (answers n (Inr sample_response)) :: go_error + nat llm_provider"
  have c: "map (\<lambda>p. p) (List.map_filter (candidate_for sample_wiring sample_llm_config ?b) fallbackOrder)
      = [answers ''anthropic'' (Inr sample_response)]"
    by (simp add: List.map_filter_def fallbackOrder_def candidate_for_def lookupProviderAPIKey_def normalizePrimary_def
        sample_wiring_def sample_llm_config_def)
  have "\<exists>g. BuildProviderWithOptions sample_wiring (Inr sample_llm_config) ?b (\<lambda>p. p) (\<lambda>_. None) = Some g
      \<and> (\<forall>req s. None = None \<longrightarrow> g req s = chain_Generate (\<lambda>_. None) [answers ''anthropic'' (Inr sample_response)] req s)"
    using default_wiring_is_fallback_chain [of sample_wiring sample_llm_config ?b "\<lambda>p. p" "\<lambda>_. None"] unfolding c
    by (simp add: sample_wiring_def sample_llm_config_def answers_def)
  then show ?thesis by (auto simp: chain_Generate_def answers_def err_of_def)
qed

end
