(* ===== verification/Publish.thy ===== *)
theory Publish
  imports Bus Locks "HOL-Library.AList" "HOL-Library.Sublist"
begin

text \<open>
  Publishing of crawl jobs (\<^verbatim>\<open>internal/bus\<close>): the short-term memory of URLs already in the
  pipeline (\<^verbatim>\<open>seen_cache.go\<close>), chained URLs (\<^verbatim>\<open>chain.go\<close>), seed jobs (\<^verbatim>\<open>seed.go\<close>), and
  the URL gate of \<^verbatim>\<open>pkg/urlguard\<close>. The pipeline guard and the ingestion marker are the
  models of theory Locks over a Redis. What the process cannot decide (clock readings, the
  context, delivery of Redis calls, answers of the broker, ids, what other instances do to
  Redis) is a field of the environment, indexed by the number of steps taken so far.
\<close>

section \<open>The seen cache\<close>

record seen_cache =
  sc_ttl :: duration
  sc_max :: int
  sc_entries :: "(string \<times> gotime) list"
  sc_order :: "string list"

definition DefaultSeenCacheSize :: int where "DefaultSeenCacheSize = 10000"

definition newSeenCache :: "int \<Rightarrow> duration \<Rightarrow> seen_cache option" where
  "newSeenCache sz ttl =
     (if ttl \<le> 0 then None
      else Some \<lparr>sc_ttl = ttl, sc_max = (if sz \<le> 0 then DefaultSeenCacheSize else sz),
                 sc_entries = [], sc_order = []\<rparr>)"

definition seen_has :: "gotime \<Rightarrow> string \<Rightarrow> seen_cache option \<Rightarrow> bool \<times> seen_cache option" where
  "seen_has now url co =
     (case co of
        None \<Rightarrow> (False, None)
      | Some c \<Rightarrow>
         (case map_of (sc_entries c) url of
            None \<Rightarrow> (False, Some c)
          | Some since \<Rightarrow>
              if sc_ttl c \<le> now - since
              then (False, Some (c\<lparr>sc_entries := AList.delete url (sc_entries c)\<rparr>))
              else (True, Some c)))"

text \<open>The eviction loop of \<open>Add\<close>; it walks the order list.\<close>

fun seen_evict :: "int \<Rightarrow> (string \<times> gotime) list \<Rightarrow> string list \<Rightarrow> (string \<times> gotime) list \<times> string list" where
  "seen_evict mx es [] = (es, [])"
| "seen_evict mx es (oldest # rest) =
     (if mx < int (length es) then seen_evict mx (AList.delete oldest es) rest
      else (es, oldest # rest))"

definition seen_add :: "gotime \<Rightarrow> string \<Rightarrow> seen_cache option \<Rightarrow> seen_cache option" where
  "seen_add now url co =
     (case co of
        None \<Rightarrow> None
      | Some c \<Rightarrow>
          let order0 = (if map_of (sc_entries c) url = None then sc_order c @ [url] else sc_order c);
              (es, order) = seen_evict (sc_max c) (AList.update url now (sc_entries c)) order0;
              order1 = (if 2 * sc_max c < int (length order)
                        then filter (\<lambda>k. map_of es k \<noteq> None) order else order)
          in Some (c\<lparr>sc_entries := es, sc_order := order1\<rparr>))"

definition seen_len :: "seen_cache option \<Rightarrow> int" where
  "seen_len co = (case co of None \<Rightarrow> 0 | Some c \<Rightarrow> int (length (sc_entries c)))"

text \<open>
  The invariant: the entries are a map, every remembered URL is in the order list, and there
  are never more than the maximum.
\<close>

definition seen_ok :: "seen_cache \<Rightarrow> bool" where
  "seen_ok c \<longleftrightarrow> distinct (map fst (sc_entries c)) \<and> fst ` set (sc_entries c) \<subseteq> set (sc_order c)
     \<and> int (length (sc_entries c)) \<le> sc_max c \<and> 0 < sc_max c \<and> 0 < sc_ttl c"

text \<open>What deleting and updating do to the keys of an association list.\<close>

lemma alist_delete_set: "fst ` set (AList.delete k es) = fst ` set es - {k}"
  using arg_cong [OF delete_keys [of k es], of set] by (simp only: set_map set_removeAll)

lemmas alist_delete = alist_delete_set distinct_delete

lemma alist_update_keys: "fst ` set (AList.update k v es) = insert k (fst ` set es)"
  by (induction es) auto

lemma newSeenCache_ok [inv_intros]: "newSeenCache sz ttl = Some c \<Longrightarrow> seen_ok c"
  by (auto simp: newSeenCache_def seen_ok_def DefaultSeenCacheSize_def split: if_splits)

lemma seen_has_ok [inv_intros]:
  assumes "seen_ok c" and "seen_has now url (Some c) = (b, Some c')"
  shows "seen_ok c'"
proof -
  have "seen_ok (c\<lparr>sc_entries := AList.delete url (sc_entries c)\<rparr>)"
    using assms(1) length_delete_le [of url "sc_entries c"]
    by (auto simp: seen_ok_def alist_delete)
  then show ?thesis
    using assms by (auto simp: seen_has_def split: option.splits if_splits)
qed

lemma seen_evict_inv:
  assumes "distinct (map fst es)" and "fst ` set es \<subseteq> set order" and "0 \<le> mx"
    and "seen_evict mx es order = (es', order')"
  shows "distinct (map fst es') \<and> fst ` set es' \<subseteq> set order' \<and> int (length es') \<le> mx"
  using assms
proof (induction mx es order rule: seen_evict.induct)
  case (2 mx es oldest rest)
  show ?case
  proof (cases "mx < int (length es)")
    case True
    have "fst ` set (AList.delete oldest es) \<subseteq> set rest"
      using 2(3) by (auto simp: alist_delete)
    then show ?thesis
      using 2 True distinct_delete [of es oldest] by simp
  qed (use 2 in auto)
qed auto

lemma seen_add_ok [inv_intros]:
  assumes "seen_ok c" and "seen_add now url (Some c) = Some c'"
  shows "seen_ok c'"
proof -
  let ?order0 = "if map_of (sc_entries c) url = None then sc_order c @ [url] else sc_order c"
  let ?es0 = "AList.update url now (sc_entries c)"
  obtain es order where ev: "seen_evict (sc_max c) ?es0 ?order0 = (es, order)"
    by (rule prod.exhaust)
  have c: "distinct (map fst (sc_entries c))" "fst ` set (sc_entries c) \<subseteq> set (sc_order c)"
    "0 < sc_max c" "0 < sc_ttl c"
    using assms(1) by (simp_all add: seen_ok_def)
  have "url \<in> set ?order0"
    using c(2) map_of_eq_None_iff [of "sc_entries c" url] by auto
  moreover have "set (sc_order c) \<subseteq> set ?order0" by auto
  ultimately have "fst ` set ?es0 \<subseteq> set ?order0"
    using c(2) unfolding alist_update_keys by blast
  then have es: "distinct (map fst es)" "fst ` set es \<subseteq> set order" "int (length es) \<le> sc_max c"
    using seen_evict_inv [OF _ _ _ ev] c by (simp_all add: distinct_update)
  let ?kept = "if 2 * sc_max c < int (length order) then filter (\<lambda>k. map_of es k \<noteq> None) order else order"
  have kept: "fst ` set es \<subseteq> set ?kept"
    using es(2) map_of_eq_None_iff [of es] by auto
  have "c' = c\<lparr>sc_entries := es, sc_order := ?kept\<rparr>"
    using assms(2) ev by (simp only: seen_add_def Let_def option.case prod.case option.inject)
  moreover have "seen_ok (c\<lparr>sc_entries := es, sc_order := ?kept\<rparr>)"
    using c(3,4) es(1,3) kept by (simp only: seen_ok_def) simp
  ultimately show ?thesis by simp
qed

section \<open>The URL gate\<close>

text \<open>
  \<^verbatim>\<open>PatternGuard\<close> holds lower-case patterns; \<open>to_lower\<close> is \<^verbatim>\<open>strings.ToLower\<close>, a parameter
  because of its Unicode tables. The answer is \<open>None\<close> when the URL is allowed, the reason when not.
\<close>

definition NewPatternGuard :: "(string \<Rightarrow> string) \<Rightarrow> string list \<Rightarrow> string list" where
  "NewPatternGuard to_lower patterns = map to_lower patterns"

fun blocking_pattern :: "string list \<Rightarrow> string \<Rightarrow> string option" where
  "blocking_pattern [] s = None"
| "blocking_pattern (pat # pats) s =
     (if pat = [] then blocking_pattern pats s
      else if sublist pat s then Some (''blocked by pattern: '' @ pat)
      else blocking_pattern pats s)"

definition PatternGuard_Allow :: "(string \<Rightarrow> string) \<Rightarrow> string list \<Rightarrow> string \<Rightarrow> string option" where
  "PatternGuard_Allow to_lower patternsLower url =
     (if url = [] then None else blocking_pattern patternsLower (to_lower url))"

definition defaultPatterns :: "string list" where
  "defaultPatterns = [''/rss'', ''mailto:'', ''tel:'', ''javascript:'']"

definition gate_allow :: "(string \<Rightarrow> string option) \<Rightarrow> string \<Rightarrow> bool" where
  "gate_allow guard url \<longleftrightarrow> guard url = None"

fun gate_filter :: "(string \<Rightarrow> string option) \<Rightarrow> string list \<Rightarrow> string list" where
  "gate_filter guard [] = []"
| "gate_filter guard (url # urls) =
     (if gate_allow guard url then url # gate_filter guard urls else gate_filter guard urls)"

lemma gate_filter_eq: "gate_filter guard urls = filter (gate_allow guard) urls"
  by (induction urls) auto

lemma blocking_pattern_none:
  "blocking_pattern pats s = None \<longleftrightarrow> (\<forall>p \<in> set pats. p = [] \<or> \<not> sublist p s)"
  by (induction pats) auto

section \<open>The publisher in its environment\<close>

text \<open>
  \<open>pe_broker n msgs\<close> is the answer of the broker at step \<open>n\<close> and the messages it has kept: a
  batch may be written in part. The guard is given by its times to live, the ingestion marker
  by its own; \<open>None\<close> is a nil pointer. \<open>pe_others\<close> is what other instances did to Redis
  before a step.
\<close>

record 'r pub_env =
  pe_pub :: publisher
  pe_normalizer :: "(string \<Rightarrow> go_error + string) option"
  pe_gate :: "(string \<Rightarrow> string option) option"
  pe_guard :: "guard_config option"
  pe_marker :: "duration option"
  pe_redis :: "'r redis_ops"
  pe_hash :: "string \<Rightarrow> string"
  pe_clock :: "nat \<Rightarrow> gotime"
  pe_ctx :: "nat \<Rightarrow> go_error option"
  pe_deliver :: "nat \<Rightarrow> delivery"
  pe_broker :: "nat \<Rightarrow> message list \<Rightarrow> go_error option \<times> message list"
  pe_ids :: "nat \<Rightarrow> string"
  pe_others :: "nat \<Rightarrow> 'r \<Rightarrow> 'r"

record 'r pub_state =
  ps_step :: nat
  ps_redis :: 'r
  ps_sent :: "message list"
  ps_cache :: "seen_cache option"

text \<open>One step of time: others may act, then the step counter moves.\<close>

definition elapse :: "'r pub_env \<Rightarrow> 'r pub_state \<Rightarrow> 'r pub_state" where
  "elapse E s = s\<lparr>ps_redis := pe_others E (ps_step s) (ps_redis s), ps_step := Suc (ps_step s)\<rparr>"

definition now_of :: "'r pub_env \<Rightarrow> 'r pub_state \<Rightarrow> gotime" where
  "now_of E s = pe_clock E (ps_step s)"

definition guard_check ::
  "'r pub_env \<Rightarrow> guard_config \<Rightarrow> string \<Rightarrow> string \<Rightarrow> 'r pub_state \<Rightarrow> (go_error + bool) \<times> 'r pub_state" where
  "guard_check E g targetType url s =
     (let s1 = elapse E s;
          (v, r) = CheckAndAcquire (pe_redis E) (pe_hash E) g targetType (pe_deliver E (ps_step s1))
                     (now_of E s1) url (ps_redis s1)
      in (v, s1\<lparr>ps_redis := r\<rparr>))"

definition marker_check ::
  "'r pub_env \<Rightarrow> duration \<Rightarrow> string \<Rightarrow> 'r pub_state \<Rightarrow> (go_error + bool) \<times> 'r pub_state" where
  "marker_check E mttl url s =
     (let s1 = elapse E s;
          (v, r) = marker_acquire (pe_redis E) (pe_hash E) mttl (pe_deliver E (ps_step s1))
                     (now_of E s1) url (ps_redis s1)
      in (v, s1\<lparr>ps_redis := r\<rparr>))"

definition guard_free :: "'r pub_env \<Rightarrow> string \<Rightarrow> 'r pub_state \<Rightarrow> (go_error + unit) \<times> 'r pub_state" where
  "guard_free E url s =
     (let s1 = elapse E s;
          (v, r) = guard_release (pe_redis E) (pe_hash E) (pe_deliver E (ps_step s1)) url (ps_redis s1)
      in (v, s1\<lparr>ps_redis := r\<rparr>))"

definition broker_send :: "'r pub_env \<Rightarrow> message list \<Rightarrow> 'r pub_state \<Rightarrow> go_error option \<times> 'r pub_state" where
  "broker_send E msgs s =
     (let s1 = elapse E s; (err, kept) = pe_broker E (ps_step s1) msgs
      in (err, s1\<lparr>ps_sent := ps_sent s1 @ kept\<rparr>))"

section \<open>Chained URLs\<close>

fun normalizeURLs :: "(string \<Rightarrow> go_error + string) \<Rightarrow> string list \<Rightarrow> string list" where
  "normalizeURLs n [] = []"
| "normalizeURLs n (url # urls) =
     (case n url of
        Inl _ \<Rightarrow> url # normalizeURLs n urls
      | Inr normalized \<Rightarrow>
          if normalized = [] then normalizeURLs n urls else normalized # normalizeURLs n urls)"

text \<open>
  \<open>op\<close> is the acquire operation. \<open>use_cache\<close> tells whether the caller passed the cache or nil.
\<close>

fun filterByAcquire ::
  "'r pub_env \<Rightarrow> (string \<Rightarrow> 'r pub_state \<Rightarrow> (go_error + bool) \<times> 'r pub_state) \<Rightarrow> bool \<Rightarrow> string list
     \<Rightarrow> 'r pub_state \<Rightarrow> string list \<times> 'r pub_state" where
  "filterByAcquire E op use_cache [] s = ([], s)"
| "filterByAcquire E op use_cache (url # urls) s =
     (if pe_ctx E (ps_step s) \<noteq> None then (url # urls, s)
      else
        let (seen, c) = (if use_cache then seen_has (now_of E s) url (ps_cache s) else (False, ps_cache s));
            s1 = s\<lparr>ps_cache := c\<rparr>
        in if seen then filterByAcquire E op use_cache urls s1
           else (case op url s1 of
                   (Inl _, s2) \<Rightarrow>
                     (let (out, s3) = filterByAcquire E op use_cache urls s2 in (url # out, s3))
                 | (Inr acquired, s2) \<Rightarrow>
                     if \<not> acquired
                     then filterByAcquire E op use_cache urls
                            (if use_cache then s2\<lparr>ps_cache := seen_add (now_of E s2) url (ps_cache s2)\<rparr> else s2)
                     else (let (out, s3) = filterByAcquire E op use_cache urls s2 in (url # out, s3))))"

definition acquireViaGuard ::
  "'r pub_env \<Rightarrow> guard_config \<Rightarrow> string \<Rightarrow> string list \<Rightarrow> 'r pub_state \<Rightarrow> string list \<times> 'r pub_state" where
  "acquireViaGuard E g targetType urls s =
     filterByAcquire E (guard_check E g targetType) (targetType \<noteq> TargetTypeCategory) urls s"

definition acquireIngestion ::
  "'r pub_env \<Rightarrow> duration \<Rightarrow> string list \<Rightarrow> 'r pub_state \<Rightarrow> string list \<times> 'r pub_state" where
  "acquireIngestion E mttl urls s = filterByAcquire E (marker_check E mttl) True urls s"

definition chained_job :: "string \<Rightarrow> string \<Rightarrow> duration \<Rightarrow> gotime \<Rightarrow> string \<Rightarrow> string \<Rightarrow> crawl_job" where
  "chained_job crawlerName targetType timeout now jid url =
     \<lparr>job_id = jid, job_crawler = crawlerName,
      job_target = \<lparr>tg_url = url, tg_type = targetType, tg_meta = Map.empty\<rparr>,
      job_priority = 0, job_scheduled_at = now, job_timeout = timeout,
      job_retry_count = 0, job_max_retries = DefaultMaxRetries\<rparr>"

fun build_messages ::
  "'r pub_env \<Rightarrow> string \<Rightarrow> string \<Rightarrow> duration \<Rightarrow> gotime \<Rightarrow> string list \<Rightarrow> nat \<Rightarrow> (go_error + message list) \<times> nat" where
  "build_messages E crawlerName targetType timeout now [] n = (Inr [], n)"
| "build_messages E crawlerName targetType timeout now (url # urls) n =
     (case buildMessage (pe_pub E) (chained_job crawlerName targetType timeout now (pe_ids E n) url) of
        Inl err \<Rightarrow> (Inl (Wrapped (''build message for '' @ url) err), Suc n)
      | Inr m \<Rightarrow>
         (case build_messages E crawlerName targetType timeout now urls (Suc n) of
            (Inl err, n') \<Rightarrow> (Inl err, n')
          | (Inr ms, n') \<Rightarrow> (Inr (m # ms), n')))"

definition buildJobMessages ::
  "'r pub_env \<Rightarrow> string \<Rightarrow> string list \<Rightarrow> string \<Rightarrow> duration \<Rightarrow> 'r pub_state
     \<Rightarrow> (go_error + message list) \<times> 'r pub_state" where
  "buildJobMessages E crawlerName urls targetType timeout s =
     (let s1 = elapse E s;
          (v, n) = build_messages E crawlerName targetType timeout (now_of E s1) urls (ps_step s1)
      in (v, s1\<lparr>ps_step := n\<rparr>))"

text \<open>
  \<open>chained_prepare\<close> is the part before the markers, \<open>chained_acquire\<close> the choice of the marker.
\<close>

definition chained_prepare :: "'r pub_env \<Rightarrow> string list \<Rightarrow> string list" where
  "chained_prepare E urls =
     (let us = (case pe_normalizer E of None \<Rightarrow> urls | Some n \<Rightarrow> normalizeURLs n urls)
      in case pe_gate E of None \<Rightarrow> us | Some g \<Rightarrow> gate_filter g us)"

definition chained_acquire ::
  "'r pub_env \<Rightarrow> string \<Rightarrow> string list \<Rightarrow> 'r pub_state \<Rightarrow> string list \<times> 'r pub_state" where
  "chained_acquire E targetType urls s =
     (case pe_guard E of
        Some g \<Rightarrow> acquireViaGuard E g targetType urls s
      | None \<Rightarrow>
         (case pe_marker E of
            Some mttl \<Rightarrow>
              if targetType \<noteq> TargetTypeCategory then acquireIngestion E mttl urls s else (urls, s)
          | None \<Rightarrow> (urls, s)))"

definition PublishChained ::
  "'r pub_env \<Rightarrow> string \<Rightarrow> string list \<Rightarrow> string \<Rightarrow> duration \<Rightarrow> 'r pub_state \<Rightarrow> go_error option \<times> 'r pub_state" where
  "PublishChained E crawlerName urls targetType timeout s =
     (let us = chained_prepare E urls
      in if us = [] then (None, s)
         else (case chained_acquire E targetType us s of
             ([], s1) \<Rightarrow> (None, s1)
           | (kept, s1) \<Rightarrow>
               (case buildJobMessages E crawlerName kept targetType timeout s1 of
                  (Inl err, s2) \<Rightarrow> (Some err, s2)
                | (Inr msgs, s2) \<Rightarrow>
                    (case broker_send E msgs s2 of
                       (Some err, s3) \<Rightarrow>
                         (Some (Wrapped (''batch publish '' @ int_text (int (length msgs))
                                  @ '' jobs for crawler '' @ crawlerName) err), s3)
                     | (None, s3) \<Rightarrow> (None, s3)))))"

section \<open>Seed jobs\<close>

definition releaseGuardOnFailure ::
  "'r pub_env \<Rightarrow> string \<Rightarrow> bool \<Rightarrow> 'r pub_state \<Rightarrow> 'r pub_state" where
  "releaseGuardOnFailure E url guardAcquired s =
     (if \<not> guardAcquired then s
      else (case pe_guard E of None \<Rightarrow> s | Some g \<Rightarrow> snd (guard_free E url s)))"

definition seed_guard_url :: "'r pub_env \<Rightarrow> string \<Rightarrow> string" where
  "seed_guard_url E url =
     (case pe_normalizer E of
        None \<Rightarrow> url
      | Some n \<Rightarrow> (case n url of Inl _ \<Rightarrow> url | Inr normalized \<Rightarrow> if normalized \<noteq> [] then normalized else url))"

definition seed_publish ::
  "'r pub_env \<Rightarrow> crawl_job \<Rightarrow> string \<Rightarrow> bool \<Rightarrow> 'r pub_state \<Rightarrow> go_error option \<times> 'r pub_state" where
  "seed_publish E job guardURL guardAcquired s =
     (case buildMessage (pe_pub E) job of
        Inl err \<Rightarrow> (Some err, releaseGuardOnFailure E guardURL guardAcquired s)
      | Inr msg \<Rightarrow>
         (case broker_send E [msg] s of
            (Some err, s1) \<Rightarrow>
              (Some (Wrapped (''publish seed job '' @ job_id job @ '' to '' @ m_topic msg) err),
               releaseGuardOnFailure E guardURL guardAcquired s1)
          | (None, s1) \<Rightarrow> (None, s1)))"

definition PublishSeed ::
  "'r pub_env \<Rightarrow> crawl_job option \<Rightarrow> 'r pub_state \<Rightarrow> go_error option \<times> 'r pub_state" where
  "PublishSeed E jo s =
     (case jo of
        None \<Rightarrow> (Some (Opaque ''publish seed: nil job''), s)
      | Some job \<Rightarrow>
          let guardURL = seed_guard_url E (tg_url (job_target job))
          in case pe_guard E of
               None \<Rightarrow> seed_publish E job guardURL False s
             | Some g \<Rightarrow>
                (case guard_check E g (tg_type (job_target job)) guardURL s of
                   (Inl _, s1) \<Rightarrow> seed_publish E job guardURL False s1
                 | (Inr acquired, s1) \<Rightarrow>
                     if \<not> acquired then (Some (Sentinel PublishSkipped), s1)
                     else seed_publish E job guardURL True s1))"

section \<open>What the seen cache remembers\<close>

lemma seen_evict_fresh:
  assumes "distinct (map fst es)" and "fst ` set es \<subseteq> insert url (set order)" and "url \<notin> set order"
    and "0 < mx" and "seen_evict mx es (order @ [url]) = (es', order')" and "map_of es url = Some v"
  shows "map_of es' url = Some v"
  using assms
proof (induction order arbitrary: es)
  case Nil
  have "length es = card (fst ` set es)"
    using distinct_card [OF Nil.prems(1)] by simp
  also have "\<dots> \<le> card {url}"
    using Nil.prems(2) by (intro card_mono) auto
  finally have "length es \<le> card {url}" .
  then show ?case using Nil.prems by (auto split: if_splits)
next
  case (Cons k order)
  show ?case
  proof (cases "mx < int (length es)")
    case True
    have "fst ` set (AList.delete k es) \<subseteq> insert url (set order)"
      using Cons.prems(2) by (auto simp: alist_delete)
    then show ?thesis
      using Cons.IH [of "AList.delete k es"] Cons.prems True distinct_delete [of es k]
      by (simp add: delete_conv')
  qed (use Cons.prems in auto)
qed

lemma seen_add_remembers:
  assumes "seen_ok c" and "url \<notin> set (sc_order c)"
  shows "\<exists>c'. seen_add now url (Some c) = Some c' \<and> map_of (sc_entries c') url = Some now
    \<and> sc_ttl c' = sc_ttl c"
proof -
  have c: "distinct (map fst (sc_entries c))" "fst ` set (sc_entries c) \<subseteq> set (sc_order c)" "0 < sc_max c"
    using assms(1) by (simp_all add: seen_ok_def)
  then have new: "map_of (sc_entries c) url = None"
    using assms(2) map_of_eq_None_iff [of "sc_entries c" url] by auto
  obtain es order where ev:
    "seen_evict (sc_max c) (AList.update url now (sc_entries c)) (sc_order c @ [url]) = (es, order)"
    by (rule prod.exhaust)
  have "map_of es url = Some now"
    by (rule seen_evict_fresh [OF _ _ assms(2) c(3) ev])
      (use c in \<open>auto simp: distinct_update alist_update_keys update_conv'\<close>)
  then show ?thesis using new ev by (auto simp: seen_add_def Let_def)
qed

text \<open>Any sequence of calls.\<close>

datatype seen_op = OpHas gotime string | OpAdd gotime string

fun seen_step :: "seen_op \<Rightarrow> seen_cache option \<Rightarrow> seen_cache option" where
  "seen_step (OpHas now url) co = snd (seen_has now url co)"
| "seen_step (OpAdd now url) co = seen_add now url co"

lemma seen_ops_some:
  "\<exists>c'. snd (seen_has now url (Some c)) = Some c'" "\<exists>c'. seen_add now url (Some c) = Some c'"
  by (auto simp: seen_has_def seen_add_def Let_def split_beta split: option.splits)

lemma seen_run_ok:
  "seen_ok c \<Longrightarrow> \<exists>c'. fold seen_step ops (Some c) = Some c' \<and> seen_ok c'
     \<and> sc_max c' = sc_max c \<and> sc_ttl c' = sc_ttl c"
proof (induction ops arbitrary: c)
  case (Cons op ops)
  obtain c1 where c1: "seen_step op (Some c) = Some c1"
    using seen_ops_some by (cases op) (metis seen_step.simps)+
  have "seen_ok c1 \<and> sc_max c1 = sc_max c \<and> sc_ttl c1 = sc_ttl c"
  proof (cases op)
    case (OpHas now url)
    then show ?thesis
      using c1 Cons.prems seen_has_ok [of c now url "fst (seen_has now url (Some c))" c1]
      by (auto simp: seen_has_def split: option.splits if_splits)
  next
    case (OpAdd now url)
    then show ?thesis
      using c1 Cons.prems seen_add_ok [of c now url c1]
      by (auto simp: seen_add_def Let_def split_beta)
  qed
  then show ?case using Cons.IH [of c1] c1 by auto
qed simp

text \<open>A URL that expires and is added again leaves its old place in the order list.\<close>

definition expire_cycle :: "gotime \<Rightarrow> duration \<Rightarrow> string \<Rightarrow> seen_op list" where
  "expire_cycle t ttl url = [OpHas (t + ttl) url, OpAdd (t + ttl) url]"

fun cycles :: "nat \<Rightarrow> duration \<Rightarrow> string \<Rightarrow> seen_op list" where
  "cycles 0 ttl url = [OpAdd 0 url]"
| "cycles (Suc n) ttl url = cycles n ttl url @ expire_cycle (int n * ttl) ttl url"

lemma cycles_order:
  assumes "newSeenCache sz ttl = Some c" and "0 < ttl"
  shows "\<exists>c'. fold seen_step (cycles n ttl url) (Some c) = Some c' \<and> sc_ttl c' = ttl \<and> 0 < sc_max c'
    \<and> sc_entries c' = [(url, int n * ttl)] \<and> sc_order c' = replicate (Suc n) url"
proof (induction n)
  case 0
  then show ?case
    using assms by (auto simp: newSeenCache_def seen_add_def Let_def DefaultSeenCacheSize_def split: if_splits)
next
  case (Suc n)
  then obtain c' where c': "fold seen_step (cycles n ttl url) (Some c) = Some c'" "sc_ttl c' = ttl"
    "0 < sc_max c'" "sc_entries c' = [(url, int n * ttl)]" "sc_order c' = replicate (Suc n) url"
    by blast
  have "seen_evict (sc_max c') [(url, t)] (replicate (Suc n) url @ [url]) = ([(url, t)], replicate (Suc (Suc n)) url)" for t
    using c'(3) by (simp add: replicate_append_same)
  then show ?case
    using c' by (simp add: expire_cycle_def seen_has_def seen_add_def Let_def algebra_simps filter_id_conv replicate_append_same)
qed

section \<open>What the markers guarantee\<close>

text \<open>
  The setting of the guarantees: Redis answers, the context stays alive, a guard is set, all
  clock readings lie before the time \<open>T\<close> and no more than the hold time before it, and the
  other instances remove no mark.
\<close>

definition guarded :: "'r redis_ops \<Rightarrow> (string \<Rightarrow> string) \<Rightarrow> string \<Rightarrow> gotime \<Rightarrow> 'r pub_env \<Rightarrow> bool" where
  "guarded R hash tt T E \<longleftrightarrow> pe_redis E = R \<and> pe_hash E = hash
     \<and> (\<forall>n. pe_deliver E n = Answered) \<and> (\<forall>n. pe_ctx E n = None)
     \<and> (\<exists>g. pe_guard E = Some g \<and> 0 < gc_category_ttl g \<and> 0 < gc_marker_ttl g
          \<and> (\<forall>n. pe_clock E n \<le> T \<and> T < pe_clock E n + guard_hold g tt))
     \<and> (\<forall>n t u r. guard_marked R hash t u r \<longrightarrow> guard_marked R hash t u (pe_others E n r))"

lemma CheckAndAcquire_Inr: "\<exists>b. fst (CheckAndAcquire R hash g tt Answered t u r) = Inr b"
  by (auto simp: CheckAndAcquire_def marker_acquire_with_ttl_def marker_acquire_def AcquireLock_def
      Let_def split_beta)

lemma guard_check_answered:
  assumes "\<forall>n. pe_deliver E n = Answered"
  shows "guard_check E g tt u s =
    (let s1 = elapse E s;
         (ok, r) = guard_mark (pe_redis E) (pe_hash E) g tt (now_of E s1) u (ps_redis s1)
     in (Inr ok, s1\<lparr>ps_redis := r\<rparr>))"
proof -
  obtain b where "fst (CheckAndAcquire (pe_redis E) (pe_hash E) g tt Answered (now_of E (elapse E s)) u
      (ps_redis (elapse E s))) = Inr b"
    by (rule exE [OF CheckAndAcquire_Inr])
  then show ?thesis
    using assms by (simp add: guard_check_def guard_mark_def Let_def split_beta)
qed

lemma guard_check_marks:
  assumes R: "redis_ok R" and E: "guarded R hash tt T E" and g: "pe_guard E = Some g"
    and chk: "guard_check E g tt u s = (v, s')"
  shows "\<exists>ok. v = Inr ok \<and> ps_sent s' = ps_sent s \<and> ps_cache s' = ps_cache s
    \<and> (\<forall>x. guard_marked R hash T x (ps_redis s) \<longrightarrow> guard_marked R hash T x (ps_redis s'))
    \<and> (ok \<longrightarrow> guard_marked R hash T u (ps_redis s') \<and> \<not> guard_marked R hash T u (ps_redis s))"
proof -
  have env: "pe_redis E = R" "pe_hash E = hash" "\<forall>n. pe_deliver E n = Answered"
    "0 < gc_category_ttl g" "0 < gc_marker_ttl g"
    "\<And>n. pe_clock E n \<le> T" "\<And>n. T < pe_clock E n + guard_hold g tt"
    "\<And>n t u r. guard_marked R hash t u r \<Longrightarrow> guard_marked R hash t u (pe_others E n r)"
    using E g by (auto simp: guarded_def)
  note m = guard_is_marker [OF R env(4,5), of hash tt]
  let ?s1 = "elapse E s"
  let ?t = "now_of E ?s1"
  have t: "?t \<le> T" "T < ?t + guard_hold g tt" using env(6,7) by (simp_all add: now_of_def)
  have e: "guard_marked R hash T x (ps_redis ?s1)" if "guard_marked R hash T x (ps_redis s)" for x
    using env(8) [OF that] by (simp add: elapse_def)
  show ?thesis
    using chk e url_marker.mark_keeps [OF m t(1)] url_marker.mark_iff [OF m, of ?t u "ps_redis ?s1"]
      url_marker.mark_new [OF m _ t, of u "ps_redis ?s1"] url_marker.mark_earlier [OF m t(1)]
    by (auto simp: guard_check_answered [OF env(3)] env(1,2) Let_def split_beta elapse_def)
qed

lemma filterByAcquire_marks:
  assumes R: "redis_ok R" and E: "guarded R hash tt T E" and g: "pe_guard E = Some g"
  shows "filterByAcquire E (guard_check E g tt) uc urls s = (out, s') \<Longrightarrow>
    ps_sent s' = ps_sent s \<and> distinct out \<and> set out \<subseteq> set urls
    \<and> (\<forall>x. guard_marked R hash T x (ps_redis s) \<longrightarrow> guard_marked R hash T x (ps_redis s'))
    \<and> (\<forall>u \<in> set out. guard_marked R hash T u (ps_redis s') \<and> \<not> guard_marked R hash T u (ps_redis s))"
proof (induction urls arbitrary: s out s')
  case Nil
  then show ?case by simp
next
  case (Cons url urls)
  have ctx: "pe_ctx E n = None" for n using E by (simp add: guarded_def)
  obtain seen c where sc:
    "(if uc then seen_has (now_of E s) url (ps_cache s) else (False, ps_cache s)) = (seen, c)"
    by (rule prod.exhaust)
  let ?s1 = "s\<lparr>ps_cache := c\<rparr>"
  obtain v s2 where op: "guard_check E g tt url ?s1 = (v, s2)" by (rule prod.exhaust)
  obtain ok where ok: "v = Inr ok" "ps_sent s2 = ps_sent s"
    "\<And>x. guard_marked R hash T x (ps_redis s) \<Longrightarrow> guard_marked R hash T x (ps_redis s2)"
    "ok \<Longrightarrow> guard_marked R hash T url (ps_redis s2) \<and> \<not> guard_marked R hash T url (ps_redis s)"
    using guard_check_marks [OF R E g op] by auto
  show ?case
  proof (cases seen)
    case True
    then have "filterByAcquire E (guard_check E g tt) uc urls ?s1 = (out, s')"
      using Cons.prems sc by (simp add: ctx)
    from Cons.IH [OF this] show ?thesis by auto
  next
    case False
    let ?s3 = "if uc then s2\<lparr>ps_cache := seen_add (now_of E s2) url (ps_cache s2)\<rparr> else s2"
    have s3: "ps_sent ?s3 = ps_sent s2" "ps_redis ?s3 = ps_redis s2" by simp_all
    show ?thesis
    proof (cases ok)
      case True
      obtain out1 s4 where r: "filterByAcquire E (guard_check E g tt) uc urls s2 = (out1, s4)"
        by (rule prod.exhaust)
      have "out = url # out1" "s' = s4"
        using Cons.prems sc False op ok(1) True r by (simp_all add: ctx)
      then show ?thesis using Cons.IH [OF r] ok(2-4) True by auto
    next
      case no: False
      have "filterByAcquire E (guard_check E g tt) uc urls ?s3 = (out, s')"
        using Cons.prems sc False op ok(1) no by (simp add: ctx)
      from Cons.IH [OF this] show ?thesis using ok(2,3) s3 by auto
    qed
  qed
qed

lemma guarded_elapse:
  assumes "guarded R hash tt T E" and "guard_marked R hash t u (ps_redis s)"
  shows "guard_marked R hash t u (ps_redis (elapse E s))"
  using assms by (simp add: guarded_def elapse_def)

text \<open>
  \<open>url_of\<close> decodes the URL of an encoded job; an honest broker keeps a part of what it was given.
\<close>

definition decodes :: "(bytes \<Rightarrow> string) \<Rightarrow> publisher \<Rightarrow> bool" where
  "decodes url_of p \<longleftrightarrow> (\<forall>j b. pub_marshal p j = Inr b \<longrightarrow> url_of b = tg_url (job_target j))"

definition honest_broker :: "'r pub_env \<Rightarrow> bool" where
  "honest_broker E \<longleftrightarrow> (\<forall>n ms. subseq (snd (pe_broker E n ms)) ms)"

lemma buildMessage_url:
  assumes "buildMessage p job = Inr m" and "decodes url_of p"
  shows "url_of (m_value m) = tg_url (job_target job)"
proof -
  obtain data where "pub_marshal p (job\<lparr>job_priority :=
      (case pub_resolver p of None \<Rightarrow> job_priority job | Some f \<Rightarrow> f job)\<rparr>) = Inr data" "m_value m = data"
    using buildMessage_resolved [OF assms(1) refl] by (metis new_message_simps(3))
  then show ?thesis using assms(2) by (simp add: decodes_def)
qed

lemma build_messages_urls:
  assumes "decodes url_of (pe_pub E)"
  shows "build_messages E c tt tmo now urls n = (Inr ms, n') \<Longrightarrow> map (\<lambda>m. url_of (m_value m)) ms = urls"
proof (induction urls arbitrary: n ms n')
  case (Cons url urls)
  obtain m where m: "buildMessage (pe_pub E) (chained_job c tt tmo now (pe_ids E n) url) = Inr m"
    using Cons.prems by (auto split: sum.splits)
  obtain v n1 where r: "build_messages E c tt tmo now urls (Suc n) = (v, n1)" by (rule prod.exhaust)
  then obtain ms1 where v: "v = Inr ms1" using Cons.prems m by (cases v) auto
  then have "ms = m # ms1" using Cons.prems m r by simp
  then show ?case
    using Cons.IH r v buildMessage_url [OF m assms] by (simp add: chained_job_def)
qed simp

lemma normalizeURLs_length: "length (normalizeURLs n urls) \<le> length urls"
  by (induction urls) (auto split: sum.splits)

text \<open>One call of \<open>PublishChained\<close>, with whatever outcome.\<close>

lemma PublishChained_marks:
  assumes R: "redis_ok R" and E: "guarded R hash tt T E" and dec: "decodes url_of (pe_pub E)"
    and br: "honest_broker E" and call: "PublishChained E c urls tt tmo s = (e, s')"
  shows "\<exists>ms kept. ps_sent s' = ps_sent s @ ms \<and> subseq (map (\<lambda>m. url_of (m_value m)) ms) kept
    \<and> distinct kept \<and> set kept \<subseteq> set (chained_prepare E urls) \<and> (e \<noteq> None \<longrightarrow> kept \<noteq> [])
    \<and> (\<forall>x. guard_marked R hash T x (ps_redis s) \<longrightarrow> guard_marked R hash T x (ps_redis s'))
    \<and> (\<forall>u \<in> set kept. guard_marked R hash T u (ps_redis s') \<and> \<not> guard_marked R hash T u (ps_redis s))"
proof -
  let ?us = "chained_prepare E urls"
  obtain g where g: "pe_guard E = Some g" using E by (auto simp: guarded_def)
  obtain kept s1 where acq: "chained_acquire E tt ?us s = (kept, s1)" by (rule prod.exhaust)
  then have f: "filterByAcquire E (guard_check E g tt) (tt \<noteq> TargetTypeCategory) ?us s = (kept, s1)"
    using g by (simp add: chained_acquire_def acquireViaGuard_def)
  note kept = filterByAcquire_marks [OF R E g f]
  have el: "guard_marked R hash T x (ps_redis (elapse E s0))"
    if "guard_marked R hash T x (ps_redis s0)" for x s0
    using guarded_elapse [OF E that] .
  show ?thesis
  proof (cases "?us = [] \<or> kept = []")
    case True
    have "e = None \<and> ps_sent s' = ps_sent s \<and> (s' = s \<or> s' = s1)"
    proof (cases "?us = []")
      case us: False
      then have "kept = []" using True by simp
      then show ?thesis using us call acq kept by (simp add: PublishChained_def Let_def)
    qed (use call in \<open>simp add: PublishChained_def\<close>)
    then show ?thesis using kept by (intro exI [of _ "[]"]) auto
  next
    case False
    obtain v s2 where b: "buildJobMessages E c kept tt tmo s1 = (v, s2)" by (rule prod.exhaust)
    have s2: "ps_sent s2 = ps_sent s1" "ps_redis s2 = ps_redis (elapse E s1)"
      using b by (auto simp: buildJobMessages_def Let_def split_beta elapse_def)
    show ?thesis
    proof (cases v)
      case (Inl err)
      then have "s' = s2 \<and> ps_sent s' = ps_sent s @ []"
        using False call acq b s2 kept by (auto simp: PublishChained_def Let_def split: list.splits)
      then show ?thesis
        using kept s2 el False by (intro exI [of _ "[]"] exI [of _ kept]) simp
    next
      case (Inr msgs)
      obtain e3 s3 where snd: "broker_send E msgs s2 = (e3, s3)" by (rule prod.exhaust)
      have s': "s' = s3"
        using Inr False call acq b snd
        by (auto simp: PublishChained_def Let_def split: list.splits option.splits)
      obtain ms where ms: "ps_sent s3 = ps_sent s2 @ ms" "subseq ms msgs" "ps_redis s3 = ps_redis (elapse E s2)"
        using snd br by (auto simp: broker_send_def honest_broker_def Let_def split_beta elapse_def)
      have "map (\<lambda>m. url_of (m_value m)) msgs = kept"
        using b Inr build_messages_urls [OF dec] by (auto simp: buildJobMessages_def Let_def split_beta prod_eq_iff)
      then have "subseq (map (\<lambda>m. url_of (m_value m)) ms) kept"
        using subseq_map [OF ms(2)] by metis
      then show ?thesis
        using kept s2 ms s' el False by (intro exI [of _ ms] exI [of _ kept]) simp
    qed
  qed
qed

section \<open>Calls of several publishers\<close>

text \<open>
  A call of \<open>PublishChained\<close>: the instance's environment, its step counter and cache, and the
  arguments. The instances share one Redis; \<open>chained_calls\<close> gives all messages that were sent.
\<close>

record 'r chained_call =
  cc_env :: "'r pub_env"
  cc_step :: nat
  cc_cache :: "seen_cache option"
  cc_crawler :: string
  cc_urls :: "string list"
  cc_type :: string
  cc_timeout :: duration

definition run_call :: "'r chained_call \<Rightarrow> 'r \<Rightarrow> go_error option \<times> 'r pub_state" where
  "run_call c r =
     PublishChained (cc_env c) (cc_crawler c) (cc_urls c) (cc_type c) (cc_timeout c)
       \<lparr>ps_step = cc_step c, ps_redis = r, ps_sent = [], ps_cache = cc_cache c\<rparr>"

fun chained_calls :: "'r chained_call list \<Rightarrow> 'r \<Rightarrow> message list \<times> 'r" where
  "chained_calls [] r = ([], r)"
| "chained_calls (c # cs) r =
     (let s = snd (run_call c r); (ms, r') = chained_calls cs (ps_redis s) in (ps_sent s @ ms, r'))"

lemma run_call_marks:
  assumes "redis_ok R" and "guarded R hash (cc_type c) T (cc_env c)" and "decodes url_of (pe_pub (cc_env c))"
    and "honest_broker (cc_env c)" and "run_call c r = (e, s)"
  shows "\<exists>kept. subseq (map (\<lambda>m. url_of (m_value m)) (ps_sent s)) kept
    \<and> distinct kept \<and> set kept \<subseteq> set (chained_prepare (cc_env c) (cc_urls c)) \<and> (e \<noteq> None \<longrightarrow> kept \<noteq> [])
    \<and> (\<forall>x. guard_marked R hash T x r \<longrightarrow> guard_marked R hash T x (ps_redis s))
    \<and> (\<forall>u \<in> set kept. guard_marked R hash T u (ps_redis s) \<and> \<not> guard_marked R hash T u r)"
  using PublishChained_marks [OF assms(1-4) assms(5) [unfolded run_call_def]] by (simp only: pub_state.simps append_Nil) blast

lemma subseq_kept: "subseq xs ys \<Longrightarrow> set xs \<subseteq> set ys \<and> (distinct ys \<longrightarrow> distinct xs)"
  using set_nths_subset [of ys] by (auto simp: subseq_conv_nths)

lemma chained_calls_marks:
  assumes R: "redis_ok R"
  shows "\<forall>c \<in> set cs. guarded R hash (cc_type c) T (cc_env c) \<and> decodes url_of (pe_pub (cc_env c))
      \<and> honest_broker (cc_env c) \<Longrightarrow>
    distinct (map (\<lambda>m. url_of (m_value m)) (fst (chained_calls cs r)))
    \<and> (\<forall>m \<in> set (fst (chained_calls cs r)). \<not> guard_marked R hash T (url_of (m_value m)) r)"
proof (induction cs arbitrary: r)
  case (Cons c cs)
  define s where "s = snd (run_call c r)"
  have c: "guarded R hash (cc_type c) T (cc_env c)" "decodes url_of (pe_pub (cc_env c))" "honest_broker (cc_env c)"
    using Cons.prems by simp_all
  obtain ms kept where k: "ps_sent s = ms" "subseq (map (\<lambda>m. url_of (m_value m)) ms) kept" "distinct kept"
    "\<forall>x. guard_marked R hash T x r \<longrightarrow> guard_marked R hash T x (ps_redis s)"
    "\<forall>u \<in> set kept. guard_marked R hash T u (ps_redis s) \<and> \<not> guard_marked R hash T u r"
    using run_call_marks [OF R c, of r "fst (run_call c r)" s] unfolding s_def by auto
  have ms: "distinct (map (\<lambda>m. url_of (m_value m)) ms)" "(\<lambda>m. url_of (m_value m)) ` set ms \<subseteq> set kept"
    using subseq_kept [OF k(2)] k(3) by (auto simp del: distinct_map)
  have "distinct (map (\<lambda>m. url_of (m_value m)) (fst (chained_calls cs (ps_redis s))))
    \<and> (\<forall>m \<in> set (fst (chained_calls cs (ps_redis s))). \<not> guard_marked R hash T (url_of (m_value m)) (ps_redis s))"
    using Cons by simp
  moreover have "fst (chained_calls (c # cs) r) = ms @ fst (chained_calls cs (ps_redis s))"
    using k(1) by (simp add: s_def Let_def split_beta)
  ultimately show ?case using ms k(4,5) by fastforce
qed simp

section \<open>A sample publisher\<close>

definition sample_pub_env :: "gotime \<Rightarrow> (nat \<Rightarrow> message list \<Rightarrow> go_error option \<times> message list) \<Rightarrow> ref_redis pub_env" where
  "sample_pub_env t broker =
     \<lparr>pe_pub = \<lparr>pub_wired = True, pub_resolver = None, pub_marshal = (\<lambda>j. Inr (tg_url (job_target j)))\<rparr>,
      pe_normalizer = None, pe_gate = None, pe_guard = Some (NewPipelineGuard 0 0), pe_marker = None,
      pe_redis = ref_ops, pe_hash = id, pe_clock = (\<lambda>_. t), pe_ctx = (\<lambda>_. None),
      pe_deliver = (\<lambda>_. Answered), pe_broker = broker, pe_ids = (\<lambda>_. ''id''), pe_others = (\<lambda>_ r. r)\<rparr>"

lemma sample_guarded:
  assumes "t \<le> T" and "T < t + guard_hold (NewPipelineGuard 0 0) tt"
  shows "guarded ref_ops id tt T (sample_pub_env t broker)"
  using assms guard_ttls by (auto simp: guarded_def sample_pub_env_def)

lemma sample_decodes: "decodes id (pe_pub (sample_pub_env t broker))"
  by (simp add: decodes_def sample_pub_env_def)

definition accepting :: "nat \<Rightarrow> message list \<Rightarrow> go_error option \<times> message list" where
  "accepting n ms = (None, ms)"

definition refusing :: "nat \<Rightarrow> message list \<Rightarrow> go_error option \<times> message list" where
  "refusing n ms = (Some (Opaque ''broker down''), [])"

lemma sample_honest:
  "honest_broker (sample_pub_env t accepting)" "honest_broker (sample_pub_env t refusing)"
  by (simp_all add: honest_broker_def sample_pub_env_def accepting_def refusing_def)

lemma default_hold: "guard_hold (NewPipelineGuard 0 0) TargetTypeArticle = 24 * hour"
  by (simp add: guard_hold_def NewPipelineGuard_def NewRedisIngestionMarker_def
      DefaultIngestionMarkTTL_def TargetTypeArticle_def TargetTypeCategory_def)

text \<open>What evaluates a call of a sample publisher.\<close>

lemmas publish_eval =
  PublishChained_def chained_prepare_def chained_acquire_def acquireViaGuard_def guard_check_def
  CheckAndAcquire_def marker_acquire_def AcquireLock_def set_nx_def sample_pub_env_def accepting_def
  refusing_def ref_ops_def ref_string_defs ref_empty_def elapse_def now_of_def ingestionKey_def
  TargetTypeArticle_def TargetTypeCategory_def buildJobMessages_def buildMessage_def broker_send_def
  chained_job_def seen_has_def seen_add_def NewPipelineGuard_def NewRedisIngestionMarker_def
  DefaultIngestionMarkTTL_def Let_def

section \<open>Properties\<close>



text \<open>A failed PublishChained leaves its markers behind. When the call for a discovered URL fails
  after the guard let it pass (building the message or the batch publish failed), the error is
  returned but the URL stays marked: every later call for that URL, by any instance, until the
  hold time ends, reports success and sends nothing. PublishSeed releases the marker in this case.\<close>
theorem chained_failure_blocks_retry:
  assumes "redis_ok R" and "guarded R hash tt T E" and "decodes url_of (pe_pub E)" and "honest_broker E"
    and "guarded R hash tt T E'" and "decodes url_of (pe_pub E')" and "honest_broker E'"
    and "chained_prepare E [url] = [u]" and "chained_prepare E' [url] = [u]"
    and "PublishChained E c [url] tt tmo s = (Some err, s1)"
    and "ps_redis s' = ps_redis s1"
  shows "\<exists>s2. PublishChained E' c' [url] tt tmo' s' = (None, s2) \<and> ps_sent s2 = ps_sent s'"
proof -
  obtain kept where k: "kept \<noteq> []" "set kept \<subseteq> {u}" "\<forall>u \<in> set kept. guard_marked R hash T u (ps_redis s1)"
    using PublishChained_marks [OF assms(1-4,10)] by (auto simp: assms(8))
  then have u: "guard_marked R hash T u (ps_redis s')" using assms(11) by (cases kept) auto
  obtain g where g: "pe_guard E' = Some g" using assms(5) by (auto simp: guarded_def)
  obtain kept' s2 where acq: "filterByAcquire E' (guard_check E' g tt) (tt \<noteq> TargetTypeCategory) [u] s' = (kept', s2)"
    by (rule prod.exhaust)
  have "kept' = []" and "ps_sent s2 = ps_sent s'"
    using filterByAcquire_marks [OF assms(1,5) g acq] u by (cases kept'; auto)+
  then show ?thesis
    using acq g by (auto simp: PublishChained_def assms(9) chained_acquire_def acquireViaGuard_def)
qed

theorem chained_failure_blocks_retry_witness:
  "let s = \<lparr>ps_step = 0, ps_redis = ref_empty, ps_sent = [], ps_cache = None\<rparr>;
       E = sample_pub_env 0 refusing; E' = sample_pub_env (hour) accepting;
       (e, s1) = PublishChained E ''cnn'' [''u''] TargetTypeArticle 5 s;
       (e', s2) = PublishChained E' ''cnn'' [''u''] TargetTypeArticle 5 s1
   in e \<noteq> None \<and> e' = None \<and> ps_sent s2 = []"
proof -
  let ?s = "\<lparr>ps_step = 0, ps_redis = ref_empty, ps_sent = [], ps_cache = None\<rparr>"
  let ?E = "sample_pub_env 0 refusing" and ?E' = "sample_pub_env hour accepting"
  obtain e s1 where r: "PublishChained ?E ''cnn'' [''u''] TargetTypeArticle 5 ?s = (e, s1)"
    by (rule prod.exhaust)
  then obtain err where e: "e = Some err" and sent: "ps_sent s1 = []"
    by (auto simp: publish_eval)
  have g: "guarded ref_ops id TargetTypeArticle hour ?E" "guarded ref_ops id TargetTypeArticle hour ?E'"
    by (rule sample_guarded; simp add: default_hold)+
  have p: "chained_prepare ?E [''u''] = [''u'']" "chained_prepare ?E' [''u''] = [''u'']"
    by (simp_all add: chained_prepare_def sample_pub_env_def)
  show ?thesis
    using chained_failure_blocks_retry [OF ref_ops_ok g(1) sample_decodes sample_honest(2) g(2)
        sample_decodes sample_honest(1) p r [unfolded e] refl, of "''cnn''" 5] r e sent
    by auto
qed

text \<open>PublishSeed and its marker. With a guard and a Redis that answers, the call has one of three
  outcomes: the URL was marked and ErrPublishSkipped is returned with nothing sent; the message was
  handed to the broker, which took it, and the URL was marked by this call; or an error is returned
  and the marker this call had set is gone again, so that the next attempt is not skipped.\<close>
theorem seed_marker_discipline:
  assumes "redis_ok (pe_redis E)" and "\<forall>n. pe_deliver E n = Answered" and "pe_guard E = Some g"
    and "0 < gc_category_ttl g" and "0 < gc_marker_ttl g"
    and "u = seed_guard_url E (tg_url (job_target job))" and "s1 = elapse E s"
    and "PublishSeed E (Some job) s = (e, s')"
  shows "case e of
      Some err \<Rightarrow>
        (if guard_marked (pe_redis E) (pe_hash E) (now_of E s1) u (ps_redis s1)
         then err = Sentinel PublishSkipped \<and> ps_sent s' = ps_sent s
         else err \<noteq> Sentinel PublishSkipped \<and> (\<forall>t. \<not> guard_marked (pe_redis E) (pe_hash E) t u (ps_redis s')))
    | None \<Rightarrow> \<not> guard_marked (pe_redis E) (pe_hash E) (now_of E s1) u (ps_redis s1)
        \<and> (\<exists>m n. buildMessage (pe_pub E) job = Inr m \<and> fst (pe_broker E n [m]) = None
             \<and> ps_sent s' = ps_sent s @ snd (pe_broker E n [m]))"
proof -
  note m = guard_is_marker [OF assms(1,4,5), of "pe_hash E" "tg_type (job_target job)"]
  obtain ok r where gm: "guard_mark (pe_redis E) (pe_hash E) g (tg_type (job_target job)) (now_of E s1) u (ps_redis s1) = (ok, r)"
    by (rule prod.exhaust)
  have chk: "guard_check E g (tg_type (job_target job)) u s = (Inr ok, s1\<lparr>ps_redis := r\<rparr>)"
    using gm assms(7) by (simp add: guard_check_answered [OF assms(2)])
  have ok: "ok \<longleftrightarrow> \<not> guard_marked (pe_redis E) (pe_hash E) (now_of E s1) u (ps_redis s1)"
    using url_marker.mark_iff [OF m, of "now_of E s1" u "ps_redis s1"] gm by simp
  have free: "\<not> guard_marked (pe_redis E) (pe_hash E) t u (ps_redis (releaseGuardOnFailure E u True s0))" for t s0
    using url_marker.unmarked [OF m, of t u "ps_redis (elapse E s0)"] assms(2,3)
    by (simp add: releaseGuardOnFailure_def guard_free_def guard_unmark_def Let_def split_beta)
  have sent: "ps_sent (s1\<lparr>ps_redis := r\<rparr>) = ps_sent s"
    using assms(7) by (simp add: elapse_def)
  show ?thesis
  proof (cases ok)
    case False
    then have "e = Some (Sentinel PublishSkipped)" "s' = s1\<lparr>ps_redis := r\<rparr>"
      using assms(8) chk by (simp_all add: PublishSeed_def assms(3) assms(6) [symmetric] Let_def)
    then show ?thesis using ok False sent by simp
  next
    case True
    then have pub: "seed_publish E job u True (s1\<lparr>ps_redis := r\<rparr>) = (e, s')"
      using assms(8) chk by (simp add: PublishSeed_def assms(3) assms(6) [symmetric] Let_def)
    show ?thesis
    proof (cases "buildMessage (pe_pub E) job")
      case (Inl err)
      then have "err \<noteq> Sentinel PublishSkipped"
        by (auto simp: buildMessage_def Let_def split: sum.splits)
      then show ?thesis using pub Inl ok True free by (auto simp: seed_publish_def)
    next
      case (Inr msg)
      obtain b s2 where bs: "broker_send E [msg] (s1\<lparr>ps_redis := r\<rparr>) = (b, s2)" by (rule prod.exhaust)
      then show ?thesis
        using pub Inr ok True free sent
        by (cases b) (auto simp: seed_publish_def broker_send_def Let_def split_beta elapse_def)
    qed
  qed
qed

theorem seed_marker_discipline_witness:
  "let job = \<lparr>job_id = ''j'', job_crawler = ''cnn'',
        job_target = \<lparr>tg_url = ''u'', tg_type = TargetTypeArticle, tg_meta = Map.empty\<rparr>,
        job_priority = 1, job_scheduled_at = 0, job_timeout = 0, job_retry_count = 0, job_max_retries = 3\<rparr>;
       s = \<lparr>ps_step = 0, ps_redis = ref_empty, ps_sent = [], ps_cache = None\<rparr>
   in \<not> guard_marked ref_ops id 5 ''u'' (ps_redis (snd (PublishSeed (sample_pub_env 5 refusing) (Some job) s)))"
proof -
  define job where "job = \<lparr>job_id = ''j'', job_crawler = ''cnn'',
        job_target = \<lparr>tg_url = ''u'', tg_type = TargetTypeArticle, tg_meta = Map.empty\<rparr>,
        job_priority = 1, job_scheduled_at = 0, job_timeout = 0, job_retry_count = 0, job_max_retries = (3::int)\<rparr>"
  define s where "s = \<lparr>ps_step = 0, ps_redis = ref_empty, ps_sent = [], ps_cache = None\<rparr>"
  let ?E = "sample_pub_env 5 refusing"
  have e: "fst (PublishSeed ?E (Some job) s) = Some (Wrapped (''publish seed job j to '' @ TopicCrawlHigh) (Opaque ''broker down''))"
    by (simp add: PublishSeed_def seed_guard_url_def seed_publish_def job_def s_def publish_eval CrawlTopic_def priorities)
  have "seed_guard_url ?E (tg_url (job_target job)) = ''u''"
    by (simp add: seed_guard_url_def sample_pub_env_def job_def)
  moreover have "\<not> guard_marked ref_ops id 5 ''u'' ref_empty"
    by (simp add: guard_marked_def ref_ops_def ref_get_def ref_empty_def)
  ultimately have "\<not> guard_marked ref_ops id 5 ''u'' (ps_redis (snd (PublishSeed ?E (Some job) s)))"
    using seed_marker_discipline [of ?E "NewPipelineGuard 0 0" "''u''" job "elapse ?E s" s
        "fst (PublishSeed ?E (Some job) s)" "snd (PublishSeed ?E (Some job) s)"] e guard_ttls
    by (simp add: sample_pub_env_def ref_ops_ok elapse_def now_of_def s_def)
  then show ?thesis by (simp add: job_def s_def)
qed

text \<open>The seen cache is bounded and remembers what is new to it: after any calls it holds at most its
  maximum number of URLs, each of them still listed in the order list, and a URL that is not in the
  order list, once added, is reported for the whole time to live and not a nanosecond longer.\<close>
theorem seen_cache_spec:
  assumes "newSeenCache sz ttl = Some c0" and "fold seen_step ops (Some c0) = Some c"
    and "url \<notin> set (sc_order c)" and "now \<le> t"
  shows "seen_len (Some c) \<le> (if sz \<le> 0 then DefaultSeenCacheSize else sz)
    \<and> fst ` set (sc_entries c) \<subseteq> set (sc_order c)
    \<and> (fst (seen_has t url (seen_add now url (Some c))) \<longleftrightarrow> t < now + ttl)"
proof -
  have "seen_ok c" and c: "sc_max c = sc_max c0" "sc_ttl c = sc_ttl c0"
    using seen_run_ok [OF newSeenCache_ok [OF assms(1)], of ops] assms(2) by auto
  moreover have "sc_ttl c0 = ttl" "sc_max c0 = (if sz \<le> 0 then DefaultSeenCacheSize else sz)"
    using assms(1) by (auto simp: newSeenCache_def split: if_splits)
  moreover obtain c' where "seen_add now url (Some c) = Some c'" "map_of (sc_entries c') url = Some now"
    "sc_ttl c' = sc_ttl c"
    using seen_add_remembers [OF \<open>seen_ok c\<close> assms(3)] by blast
  ultimately show ?thesis
    using c by (auto simp: seen_has_def seen_ok_def seen_len_def)
qed

theorem seen_cache_spec_witness:
  "fst (seen_has 7 ''c'' (seen_add 3 ''c'' (Some
     \<lparr>sc_ttl = 5, sc_max = 2, sc_entries = [(''a'', 0), (''b'', 1)], sc_order = [''a'', ''b'']\<rparr>)))"
  using seen_cache_spec [of 2 5 "\<lparr>sc_ttl = 5, sc_max = 2, sc_entries = [], sc_order = []\<rparr>"
      "[OpAdd 0 ''a'', OpAdd 1 ''b'']"
      "\<lparr>sc_ttl = 5, sc_max = 2, sc_entries = [(''a'', 0), (''b'', 1)], sc_order = [''a'', ''b'']\<rparr>" "''c''" 3 7]
  by (simp add: newSeenCache_def seen_add_def Let_def)

text \<open>The order list of the seen cache keeps stale places. A URL that expires and is added again is
  listed twice: after n expiries of one URL the list has n + 1 entries although the cache
  holds one URL, whatever the maximum size, because the compaction keeps duplicates; and a stale place makes
  the eviction drop a URL the moment it is added, although an older one is in the cache.\<close>
theorem seen_cache_stale_order:
  "(0 < ttl \<longrightarrow> (\<exists>c. fold seen_step (cycles n ttl url) (newSeenCache sz ttl) = Some c
      \<and> seen_len (Some c) = 1 \<and> length (sc_order c) = n + 1))
   \<and> (let co = fold seen_step [OpAdd 0 ''a'', OpHas 10 ''a'', OpAdd 10 ''b'', OpAdd 11 ''a''] (newSeenCache 1 10)
      in \<not> fst (seen_has 11 ''a'' co) \<and> fst (seen_has 11 ''b'' co))"
proof (intro conjI impI)
  assume ttl: "0 < ttl"
  then obtain c0 where c0: "newSeenCache sz ttl = Some c0" by (auto simp: newSeenCache_def)
  show "\<exists>c. fold seen_step (cycles n ttl url) (newSeenCache sz ttl) = Some c
      \<and> seen_len (Some c) = 1 \<and> length (sc_order c) = n + 1"
    using cycles_order [OF c0 ttl, of n url] by (auto simp: c0 seen_len_def)
qed (simp add: newSeenCache_def seen_add_def seen_has_def Let_def)

theorem seen_cache_stale_order_witness:
  "\<exists>c. fold seen_step (cycles 100 5 ''a'') (newSeenCache 1 5) = Some c \<and> length (sc_order c) = 101"
  using seen_cache_stale_order [of 5 100 "''a''" 1] by auto

text \<open>The seen cache hides an expired marker. A URL found marked is remembered, and as long as the
  cache remembers it no later call asks Redis: it reports success and sends nothing, also when the
  marker expired right after it was seen. So a URL can be kept out of the pipeline for the cache's time to
  live beyond the end of its marker.\<close>
theorem seen_cache_hides_marker:
  assumes "tt \<noteq> TargetTypeCategory" and "chained_prepare E urls = [u]"
    and "pe_ctx E (ps_step s) = None" and "pe_guard E = Some g" and "ps_cache s = Some c" and "seen_ok c"
    and "guard_check E g tt u s = (Inr False, s1)" and "u \<notin> set (sc_order c)"
    and "map_of (sc_entries c) u = None"
    and "chained_prepare E' urls = [u]" and "pe_ctx E' (ps_step s') = None" and "pe_guard E' = Some g'"
    and "ps_cache s' = ps_cache (snd (PublishChained E cr urls tt tmo s))"
    and "now_of E s1 \<le> now_of E' s'" and "now_of E' s' < now_of E s1 + sc_ttl c"
  shows "PublishChained E' cr urls tt tmo s' = (None, s')"
proof -
  have has: "seen_has (now_of E s) u (Some c) = (False, Some c)"
    using assms(9) by (simp add: seen_has_def)
  have s1: "ps_cache s1 = Some c"
    using assms(5,7) by (auto simp: guard_check_def Let_def split_beta elapse_def)
  have "s\<lparr>ps_cache := Some c\<rparr> = s" using assms(5) by simp
  then have op: "guard_check E g tt u (s\<lparr>ps_cache := Some c\<rparr>) = (Inr False, s1)" using assms(7) by metis
  have "snd (PublishChained E cr urls tt tmo s) = s1\<lparr>ps_cache := seen_add (now_of E s1) u (ps_cache s1)\<rparr>"
    using assms(1-5) has op
    by (simp add: PublishChained_def chained_acquire_def acquireViaGuard_def)
  moreover obtain c' where c': "seen_add (now_of E s1) u (Some c) = Some c'"
    "map_of (sc_entries c') u = Some (now_of E s1)" "sc_ttl c' = sc_ttl c"
    using seen_add_remembers [OF assms(6,8)] by blast
  ultimately have cache: "ps_cache s' = Some c'" using assms(13) s1 by simp
  then have "seen_has (now_of E' s') u (ps_cache s') = (True, Some c')"
    using c' assms(15) by (simp add: seen_has_def)
  moreover have "s'\<lparr>ps_cache := Some c'\<rparr> = s'" using cache by simp
  ultimately show ?thesis
    using assms(1,10-12) by (simp add: PublishChained_def chained_acquire_def acquireViaGuard_def)
qed

theorem seen_cache_hides_marker_witness:
  "let s = \<lparr>ps_step = 0, ps_redis = ref_setx 0 ''ingestion:url:u'' ''1'' (24 * hour) ref_empty,
            ps_sent = [], ps_cache = newSeenCache 2 (10 * minute)\<rparr>;
       s1 = snd (PublishChained (sample_pub_env (24 * hour - second) accepting) ''cnn'' [''u''] TargetTypeArticle 5 s);
       (e, s2) = PublishChained (sample_pub_env (24 * hour + minute) accepting) ''cnn'' [''u''] TargetTypeArticle 5 s1
   in e = None \<and> ps_sent s2 = [] \<and> \<not> guard_marked ref_ops id (24 * hour + minute) ''u'' (ps_redis s1)"
proof -
  define c where "c = \<lparr>sc_ttl = 10 * minute, sc_max = 2, sc_entries = [], sc_order = []\<rparr>"
  define s where "s = \<lparr>ps_step = 0, ps_redis = ref_setx 0 ''ingestion:url:u'' ''1'' (24 * hour) ref_empty,
            ps_sent = [], ps_cache = Some c\<rparr>"
  define E where "E = sample_pub_env (24 * hour - second) accepting"
  define E' where "E' = sample_pub_env (24 * hour + minute) accepting"
  define s1 where "s1 = snd (PublishChained E ''cnn'' [''u''] TargetTypeArticle 5 s)"
  have c: "newSeenCache 2 (10 * minute) = Some c" by (simp add: newSeenCache_def c_def)
  have p: "chained_prepare E [''u''] = [''u'']" "chained_prepare E' [''u''] = [''u'']"
    "TargetTypeArticle \<noteq> TargetTypeCategory"
    "pe_guard E = Some (NewPipelineGuard 0 0)" "pe_guard E' = Some (NewPipelineGuard 0 0)"
    "pe_ctx E n = None" "pe_ctx E' n = None" for n
    by (simp_all add: E_def E'_def chained_prepare_def sample_pub_env_def TargetTypeArticle_def TargetTypeCategory_def)
  have chk: "guard_check E (NewPipelineGuard 0 0) TargetTypeArticle ''u'' s = (Inr False, elapse E s)"
    by (simp add: E_def s_def publish_eval)
  have gone: "\<not> guard_marked ref_ops id (24 * hour + minute) ''u'' (ps_redis s1)"
    by (simp add: s1_def s_def E_def publish_eval guard_marked_def c_def)
  have t: "ps_cache s = Some c" "''u'' \<notin> set (sc_order c)"
    "map_of (sc_entries c) ''u'' = None" "sc_ttl c = 10 * minute"
    "now_of E (elapse E s) = 24 * hour - second" "now_of E' s1 = 24 * hour + minute"
    by (simp_all add: now_of_def sample_pub_env_def s_def c_def E_def E'_def)
  have "PublishChained E' ''cnn'' [''u''] TargetTypeArticle 5 s1 = (None, s1)"
    by (rule seen_cache_hides_marker [OF p(3,1,6,4) t(1) newSeenCache_ok [OF c] chk t(2,3) p(2,7,5)])
      (simp_all add: t s1_def [symmetric])
  moreover have "ps_sent s1 = []" by (simp add: s1_def s_def E_def c_def publish_eval)
  ultimately show ?thesis
    using gone by (simp only: c s_def [symmetric] E_def [symmetric] E'_def [symmetric] s1_def [symmetric] Let_def prod.case) simp
qed

end
