(* ===== verification/PriorityZSet.thy ===== *)
theory PriorityZSet
  imports Bus RedisClient "HOL-Library.Sublist"
begin

text \<open>
  The priority queue on a Redis sorted set (\<^verbatim>\<open>pkg/queue/priority_zset.go\<close>): a member's score
  is its priority band plus its arrival time, its payload and headers are string keys. The
  consumer adapter pops one message at a time, and the intake of the validate stage
  (\<^verbatim>\<open>internal/processor/validate/worker/zset_intake.go\<close>) moves Kafka messages into the queue.
  Scores are whole numbers: all of them are below \<open>2 ^ 53\<close>. SHA-256 and the JSON codecs are
  parameters.
\<close>

section \<open>Configuration\<close>

definition PriorityZSetEntryTTL :: duration where "PriorityZSetEntryTTL = 24 * hour"
definition PriorityZSetMaxSize :: int where "PriorityZSetMaxSize = 100000"
definition priorityFactor :: int where "priorityFactor = 10000000000000"
definition headerPrefixMarker :: string where "headerPrefixMarker = ''hdr:''"

record zset_config =
  zc_key :: string
  zc_entry_prefix :: string
  zc_max :: int
  zc_ttl :: duration
  zc_header_prefix :: string

record zset_queue =
  zq_key :: string
  zq_entry :: string
  zq_header :: string
  zq_max :: int
  zq_ttl :: duration

text \<open>The Redis client is not nil here.\<close>

definition NewPriorityZSetQueue :: "zset_config \<Rightarrow> go_error + zset_queue" where
  "NewPriorityZSetQueue cfg =
     (let invalid = Opaque ''priority zset queue: ZSetKey and EntryKeyPrefix required''
      in if zc_key cfg = [] \<or> zc_entry_prefix cfg = [] then Inl invalid
         else
           let maxSize = (if zc_max cfg \<le> 0 then PriorityZSetMaxSize else zc_max cfg);
               entryTTL = (if zc_ttl cfg \<le> 0 then PriorityZSetEntryTTL else zc_ttl cfg);
               headerKey = (if zc_header_prefix cfg = [] then headerPrefixMarker @ zc_entry_prefix cfg
                            else zc_header_prefix cfg)
           in if prefix (zc_entry_prefix cfg) headerKey \<or> prefix headerKey (zc_entry_prefix cfg)
              then Inl (Annotated [] invalid '': entry/header key prefixes overlap'')
              else Inr \<lparr>zq_key = zc_key cfg, zq_entry = zc_entry_prefix cfg, zq_header = headerKey,
                        zq_max = maxSize, zq_ttl = entryTTL\<rparr>)"

definition headerKeyFor :: "zset_queue \<Rightarrow> string \<Rightarrow> string" where
  "headerKeyFor q i = zq_header q @ i"

section \<open>Scores\<close>

definition priorityScore :: "int \<Rightarrow> gotime \<Rightarrow> int" where
  "priorityScore priority arrival =
     (let p = (if priority < 1 \<or> 3 < priority then 2 else priority)
      in p * priorityFactor + unix_milli arrival)"

definition priorityFromScore :: "int \<Rightarrow> int" where
  "priorityFromScore score = (if score < 0 then - (- score div priorityFactor) else score div priorityFactor)"

definition clamp_priority :: "int \<Rightarrow> int" where
  "clamp_priority p = (if p < 1 \<or> 3 < p then 2 else p)"

section \<open>Push\<close>

record 'r zset_env = "'r client_env" +
  ze_digest :: "bytes \<Rightarrow> string"
  ze_encode :: "string \<times> headers \<Rightarrow> go_error + bytes"
  ze_decode :: "bytes \<Rightarrow> (string \<times> headers) option"
  ze_ctx :: "nat \<Rightarrow> go_error option"

definition header_command ::
  "('r, 'e) zset_env_scheme \<Rightarrow> zset_queue \<Rightarrow> string \<Rightarrow> bytes \<Rightarrow> headers \<Rightarrow> gotime \<Rightarrow> 'r \<Rightarrow> 'r" where
  "header_command E q i payload hs =
     (if hs \<noteq> Map.empty
      then (case ze_encode E (ze_digest E payload, hs) of
              Inl _ \<Rightarrow> (\<lambda>_. rd_del (cl_redis E) (headerKeyFor q i))
            | Inr encoded \<Rightarrow> (\<lambda>now. rd_setx (cl_redis E) now (headerKeyFor q i) encoded (zq_ttl q)))
      else (\<lambda>_. rd_del (cl_redis E) (headerKeyFor q i)))"

definition PushWithHeaders ::
  "('r, 'e) zset_env_scheme \<Rightarrow> zset_queue \<Rightarrow> int \<Rightarrow> string \<Rightarrow> bytes \<Rightarrow> headers
     \<Rightarrow> ('r, 's) client_state_scheme \<Rightarrow> go_error option \<times> ('r, 's) client_state_scheme" where
  "PushWithHeaders E q priority i payload hs s =
     (if i = [] then (Some (Opaque ''priority zset push: id required''), s)
      else if payload = [] then (Some (Opaque ''priority zset push: empty payload''), s)
      else
        let score = priorityScore priority (cl_now E s)
        in case run_pipe E
             [\<lambda>now. rd_setx (cl_redis E) now (zq_entry q @ i) payload (zq_ttl q),
              header_command E q i payload hs,
              \<lambda>_. rd_zadd (cl_redis E) (zq_key q) score i] s of
             (Some err, s1) \<Rightarrow> (Some (Wrapped (''priority zset push (id='' @ i @ '')'') err), s1)
           | (None, s1) \<Rightarrow>
               if zq_max q > 0
               then (None, snd (run_pipe E [\<lambda>_. rd_zcut (cl_redis E) (zq_key q) (nat (zq_max q))] s1))
               else (None, s1))"

definition Push ::
  "('r, 'e) zset_env_scheme \<Rightarrow> zset_queue \<Rightarrow> int \<Rightarrow> string \<Rightarrow> bytes
     \<Rightarrow> ('r, 's) client_state_scheme \<Rightarrow> go_error option \<times> ('r, 's) client_state_scheme" where
  "Push E q priority i payload s = PushWithHeaders E q priority i payload Map.empty s"

section \<open>Pop\<close>

record pop_result =
  pr_id :: string
  pr_score :: int
  pr_priority :: int
  pr_payload :: "bytes option"
  pr_headers :: "headers option"

text \<open>
  BZPOPMIN removes the first member of the set; \<open>None\<close> when the set is empty until the
  timeout of the command.
\<close>

definition zpopmin :: "'r zredis_ops \<Rightarrow> string \<Rightarrow> 'r \<Rightarrow> (int \<times> string) option \<times> 'r" where
  "zpopmin R k r =
     (case rd_zall R k r of
        [] \<Rightarrow> (None, r)
      | (s, m) # _ \<Rightarrow> (Some (s, m), rd_zrem R k m r))"

definition restoreOnPopFailure ::
  "('r, 'e) zset_env_scheme \<Rightarrow> zset_queue \<Rightarrow> string \<Rightarrow> int \<Rightarrow> go_error \<Rightarrow> ('r, 's) client_state_scheme
     \<Rightarrow> go_error \<times> ('r, 's) client_state_scheme" where
  "restoreOnPopFailure E q i score cause s =
     (case run_pipe E [\<lambda>_. rd_zadd (cl_redis E) (zq_key q) score i] s of
        (Some zaddErr, s1) \<Rightarrow> (Annotated [] cause (''; zset restore failed: '' @ error_text zaddErr), s1)
      | (None, s1) \<Rightarrow> (Annotated [] cause '' (restored to zset)'', s1))"

definition pop_entry_failed ::
  "('r, 'e) zset_env_scheme \<Rightarrow> zset_queue \<Rightarrow> string \<Rightarrow> int \<Rightarrow> go_error \<Rightarrow> ('r, 's) client_state_scheme
     \<Rightarrow> go_error \<times> ('r, 's) client_state_scheme" where
  "pop_entry_failed E q i score err s =
     (case run_pipe E [\<lambda>_. rd_zadd (cl_redis E) (zq_key q) score i] s of
        (Some zaddErr, s1) \<Rightarrow>
          (Annotated (''priority zset entry get failed and zset restore failed (id='' @ i @ ''): get='') err
             (''; zadd='' @ error_text zaddErr), s1)
      | (None, s1) \<Rightarrow>
          (Wrapped (''priority zset entry get (id='' @ i @ '', restored to zset)'') err, s1))"

definition restored_headers ::
  "('r, 'e) zset_env_scheme \<Rightarrow> bytes option \<Rightarrow> bytes option \<Rightarrow> headers option" where
  "restored_headers E payload raw =
     (case raw of
        None \<Rightarrow> None
      | Some b \<Rightarrow>
          if b = [] then None
          else (case ze_decode E b of
                  None \<Rightarrow> None
                | Some (sha, hs) \<Rightarrow>
                    if sha \<noteq> [] \<and> sha \<noteq> ze_digest E (case payload of None \<Rightarrow> [] | Some p \<Rightarrow> p) then None
                    else Some hs))"

definition Pop ::
  "('r, 'e) zset_env_scheme \<Rightarrow> zset_queue \<Rightarrow> ('r, 's) client_state_scheme
     \<Rightarrow> (go_error + pop_result option) \<times> ('r, 's) client_state_scheme" where
  "Pop E q s =
     (case run_query E (\<lambda>_. zpopmin (cl_redis E) (zq_key q)) s of
        (Inl err, s1) \<Rightarrow> (Inl (Wrapped ''priority zset bzpop'' err), s1)
      | (Inr None, s1) \<Rightarrow>
          (case ze_ctx E (cl_step s1) of Some cerr \<Rightarrow> (Inl cerr, s1) | None \<Rightarrow> (Inr None, s1))
      | (Inr (Some (score, i)), s1) \<Rightarrow>
         (case run_query E (\<lambda>now r. (rd_get (cl_redis E) now (zq_entry q @ i) r, r)) s1 of
            (Inl err, s2) \<Rightarrow> (let (e, s3) = pop_entry_failed E q i score err s2 in (Inl e, s3))
          | (Inr payload, s2) \<Rightarrow>
             (case run_query E (\<lambda>now r. (rd_get (cl_redis E) now (headerKeyFor q i) r, r)) s2 of
                (Inl herr, s3) \<Rightarrow>
                  (let (e, s4) = restoreOnPopFailure E q i score
                                   (Wrapped (''priority zset header get (id='' @ i @ '')'') herr) s3
                   in (Inl e, s4))
              | (Inr raw, s3) \<Rightarrow>
                  (Inr (Some \<lparr>pr_id = i, pr_score = score, pr_priority = priorityFromScore score,
                              pr_payload = payload, pr_headers = restored_headers E payload raw\<rparr>),
                   snd (run_pipe E [\<lambda>_ r. rd_del (cl_redis E) (headerKeyFor q i)
                                             (rd_del (cl_redis E) (zq_entry q @ i) r)] s3)))))"

definition zset_len ::
  "('r, 'e) zset_env_scheme \<Rightarrow> zset_queue \<Rightarrow> ('r, 's) client_state_scheme \<Rightarrow> (go_error + int) \<times> ('r, 's) client_state_scheme" where
  "zset_len E q s =
     (case run_query E (\<lambda>_ r. (int (length (rd_zall (cl_redis E) (zq_key q) r)), r)) s of
        (Inl err, s1) \<Rightarrow> (Inl (Wrapped ''priority zset len'' err), s1)
      | (Inr n, s1) \<Rightarrow> (Inr n, s1))"

section \<open>The consumer\<close>

definition popped_message :: "string \<Rightarrow> gotime \<Rightarrow> pop_result \<Rightarrow> bytes \<Rightarrow> message" where
  "popped_message topicLabel now res payload =
     (let hs = (case pr_headers res of None \<Rightarrow> Map.empty | Some h \<Rightarrow> h)
      in \<lparr>m_topic = topicLabel, m_partition = 0, m_offset = 0, m_key = pr_id res, m_value = payload,
          m_headers = hs(''priority'' \<mapsto> int_text (pr_priority res)), m_time = Some now\<rparr>)"

text \<open>
  The loop of \<open>FetchMessage\<close> may run forever on an empty queue: \<open>None\<close> is a call that does
  not return.
\<close>

partial_function (option) FetchMessage ::
  "('r, 'e) zset_env_scheme \<Rightarrow> zset_queue \<Rightarrow> string \<Rightarrow> ('r, 's) client_state_scheme
     \<Rightarrow> ((go_error + message) \<times> ('r, 's) client_state_scheme) option" where
  "FetchMessage E q topicLabel s =
     (case ze_ctx E (cl_step s) of
        Some err \<Rightarrow> Some (Inl err, s)
      | None \<Rightarrow>
         (case Pop E q s of
            (Inl err, s1) \<Rightarrow> Some (Inl err, s1)
          | (Inr None, s1) \<Rightarrow> FetchMessage E q topicLabel s1
          | (Inr (Some res), s1) \<Rightarrow>
             (case pr_payload res of
                None \<Rightarrow> FetchMessage E q topicLabel s1
              | Some payload \<Rightarrow> Some (Inr (popped_message topicLabel (cl_now E s1) res payload), s1))))"

section \<open>The intake\<close>

record 'r intake_env = "'r zset_env" +
  in_processing :: "bytes \<Rightarrow> processing_message option"
  in_ref :: "bytes \<Rightarrow> content_ref option"
  in_commit :: "nat \<Rightarrow> go_error option"

record 'r intake_state = "'r client_state" +
  is_committed :: "message list"

definition intake_commit :: "'r intake_env \<Rightarrow> message \<Rightarrow> 'r intake_state \<Rightarrow> 'r intake_state" where
  "intake_commit E msg s =
     (let s1 = cl_elapse E s
      in case in_commit E (cl_step s1) of
           Some _ \<Rightarrow> s1
         | None \<Rightarrow> s1\<lparr>is_committed := is_committed s1 @ [msg]\<rparr>)"

definition handleOne :: "'r intake_env \<Rightarrow> zset_queue \<Rightarrow> message \<Rightarrow> 'r intake_state \<Rightarrow> 'r intake_state" where
  "handleOne E q msg s =
     (case in_processing E (m_value msg) of
        None \<Rightarrow> intake_commit E msg s
      | Some pm \<Rightarrow>
         (case in_ref E (pm_data pm) of
            None \<Rightarrow> intake_commit E msg s
          | Some ref \<Rightarrow>
             if cr_id ref = [] then intake_commit E msg s
             else
               (case PushWithHeaders E q (PriorityFromHeader (m_headers msg)) (cr_id ref) (m_value msg) (m_headers msg) s of
                  (Some _, s1) \<Rightarrow> s1
                | (None, s1) \<Rightarrow> intake_commit E msg s1)))"

text \<open>
  The intake of the parse stage, whose messages name a raw: \<open>dec\<close> reads its id. The enrich stage's intake is the
  validate stage's.
\<close>

definition raw_handleOne ::
  "'r intake_env \<Rightarrow> (bytes \<Rightarrow> string option) \<Rightarrow> zset_queue \<Rightarrow> message \<Rightarrow> 'r intake_state \<Rightarrow> 'r intake_state" where
  "raw_handleOne E dec q msg s =
     (case dec (m_value msg) of
        None \<Rightarrow> intake_commit E msg s
      | Some i \<Rightarrow>
          if i = [] then intake_commit E msg s
          else
            (case PushWithHeaders E q (PriorityFromHeader (m_headers msg)) i (m_value msg) (m_headers msg) s of
               (Some _, s1) \<Rightarrow> s1
             | (None, s1) \<Rightarrow> intake_commit E msg s1))"

definition enrich_handleOne :: "'r intake_env \<Rightarrow> zset_queue \<Rightarrow> message \<Rightarrow> 'r intake_state \<Rightarrow> 'r intake_state" where
  "enrich_handleOne = handleOne"

lemma handleOne_raw:
  "handleOne E q msg s =
     raw_handleOne E (\<lambda>v. case in_processing E v of None \<Rightarrow> None
        | Some pm \<Rightarrow> map_option cr_id (in_ref E (pm_data pm))) q msg s"
  by (simp add: handleOne_def raw_handleOne_def split: option.split)

section \<open>A queue that is alone\<close>

lemma zset_keys:
  assumes "NewPriorityZSetQueue cfg = Inr q"
  shows "zq_entry q @ i \<noteq> headerKeyFor q j" "0 < zq_max q" "0 < zq_ttl q"
proof -
  have p: "\<not> prefix (zq_entry q) (zq_header q)" "\<not> prefix (zq_header q) (zq_entry q)"
    using assms by (auto simp: NewPriorityZSetQueue_def Let_def split: if_splits)
  show "zq_entry q @ i \<noteq> headerKeyFor q j"
  proof
    assume "zq_entry q @ i = headerKeyFor q j"
    then have "prefix (zq_entry q) (zq_header q @ j)" "prefix (zq_header q) (zq_header q @ j)"
      unfolding headerKeyFor_def by (metis prefixI)+
    then show False using p by (metis prefix_same_cases)
  qed
  show "0 < zq_max q" "0 < zq_ttl q"
    using assms by (auto simp: NewPriorityZSetQueue_def PriorityZSetMaxSize_def PriorityZSetEntryTTL_def
        Let_def split: if_splits)
qed

lemma Pop_alone:
  assumes "alone E t"
  shows "Pop E q s =
    (case rd_zall (cl_redis E) (zq_key q) (cl_db s) of
       [] \<Rightarrow>
         (case ze_ctx E (Suc (cl_step s)) of
            Some e \<Rightarrow> (Inl e, s\<lparr>cl_step := Suc (cl_step s)\<rparr>)
          | None \<Rightarrow> (Inr None, s\<lparr>cl_step := Suc (cl_step s)\<rparr>))
     | (score, i) # _ \<Rightarrow>
         let r = rd_zrem (cl_redis E) (zq_key q) i (cl_db s);
             payload = rd_get (cl_redis E) t (zq_entry q @ i) r
         in (Inr (Some \<lparr>pr_id = i, pr_score = score, pr_priority = priorityFromScore score, pr_payload = payload,
                         pr_headers = restored_headers E payload (rd_get (cl_redis E) t (headerKeyFor q i) r)\<rparr>),
             s\<lparr>cl_step := cl_step s + 5,
               cl_db := rd_del (cl_redis E) (headerKeyFor q i) (rd_del (cl_redis E) (zq_entry q @ i) r)\<rparr>))"
  by (simp add: Pop_def alone_run [OF assms] zpopmin_def run_pipe_def Let_def split: list.split option.split)

lemma Push_alone:
  assumes "alone E t" and "i \<noteq> []" and "payload \<noteq> []" and "0 < zq_max q"
  shows "PushWithHeaders E q p i payload hs s =
    (None, s\<lparr>cl_step := cl_step s + 6,
       cl_db := rd_zcut (cl_redis E) (zq_key q) (nat (zq_max q))
                  (rd_zadd (cl_redis E) (zq_key q) (priorityScore p t) i
                    (header_command E q i payload hs t
                      (rd_setx (cl_redis E) t (zq_entry q @ i) payload (zq_ttl q) (cl_db s))))\<rparr>)"
  using assms(2-4) by (simp add: PushWithHeaders_def alone_run [OF assms(1)] run_pipe_def Let_def)

lemma zset_frames:
  assumes "zredis_ok R"
  shows "rd_zall R k (rd_setx R now k' v ttl r) = rd_zall R k r" "rd_zall R k (rd_del R k' r) = rd_zall R k r"
    "rd_get R t k (rd_zadd R k' s m r) = rd_get R t k r" "rd_get R t k (rd_zrem R k' m r) = rd_get R t k r"
    "rd_get R t k (rd_zcut R k' n r) = rd_get R t k r"
  using redis_zsets.z_strings [OF assms] by auto

lemma header_command_frames:
  assumes "zredis_ok (cl_redis E)"
  shows "rd_zall (cl_redis E) k (header_command E q i payload hs now r) = rd_zall (cl_redis E) k r"
  by (auto simp: header_command_def zset_frames [OF assms] split: sum.splits)

lemma priority_score:
  assumes "0 \<le> unix_milli t" and "unix_milli t < priorityFactor"
  shows "priorityScore p t = clamp_priority p * priorityFactor + unix_milli t"
    and "priorityFromScore (priorityScore p t) = clamp_priority p"
proof -
  show eq: "priorityScore p t = clamp_priority p * priorityFactor + unix_milli t"
    by (simp add: priorityScore_def clamp_priority_def)
  have "(clamp_priority p * priorityFactor + unix_milli t) div priorityFactor = clamp_priority p"
    using assms by (simp add: div_mult_self3 div_pos_pos_trivial)
  moreover have "0 \<le> clamp_priority p * priorityFactor + unix_milli t"
    using assms by (simp add: clamp_priority_def priorityFactor_def)
  ultimately show "priorityFromScore (priorityScore p t) = clamp_priority p"
    by (simp add: eq priorityFromScore_def)
qed

text \<open>A sorted list with distinct members is determined by its set.\<close>

lemma zall_same:
  assumes "zredis_ok R" and "set (rd_zall R k r) = set (rd_zall R k r')"
  shows "rd_zall R k r = rd_zall R k r'"
proof (rule sorted_distinct_set_unique)
  show "sorted (rd_zall R k r)" "sorted (rd_zall R k r')"
    using redis_zsets.z_sorted [OF assms(1)] by auto
  show "distinct (rd_zall R k r)" "distinct (rd_zall R k r')"
    using redis_zsets.z_distinct [OF assms(1)] by (auto simp: distinct_map)
qed (rule assms(2))

lemma PushWithHeaders_more:
  "PushWithHeaders E q p i payload hs s = (e, s') \<Longrightarrow> client_state.more s' = client_state.more s"
  by (auto simp: PushWithHeaders_def Let_def split: prod.splits option.splits if_splits dest: run_pipe_more)

lemma same_committed: "client_state.more s = client_state.more s' \<Longrightarrow> is_committed s = is_committed s'"
  by (cases s; cases s') simp

section \<open>A sample queue\<close>

definition sample_zcfg :: zset_config where
  "sample_zcfg = \<lparr>zc_key = ''v:queue'', zc_entry_prefix = ''v:entry:'', zc_max = 1, zc_ttl = 100, zc_header_prefix = []\<rparr>"

definition sample_zq :: zset_queue where
  "sample_zq = \<lparr>zq_key = ''v:queue'', zq_entry = ''v:entry:'', zq_header = ''hdr:v:entry:'', zq_max = 1, zq_ttl = 100\<rparr>"

lemma sample_zq_new: "NewPriorityZSetQueue sample_zcfg = Inr sample_zq"
  by (simp add: NewPriorityZSetQueue_def sample_zcfg_def sample_zq_def headerPrefixMarker_def Let_def)

definition sample_intake :: "gotime \<Rightarrow> (nat \<Rightarrow> pipe) \<Rightarrow> ref_redis intake_env" where
  "sample_intake t pipes =
     \<lparr>cl_redis = ref_zops, cl_clock = (\<lambda>_. t), cl_pipe = pipes, cl_others = (\<lambda>_ r. r),
      ze_digest = id,
      ze_encode = (\<lambda>x. if x = (''p'', [''k'' \<mapsto> ''v'']) then Inr ''h'' else Inl (Opaque ''unsupported'')),
      ze_decode = (\<lambda>b. if b = ''h'' then Some (''p'', [''k'' \<mapsto> ''v'']) else None), ze_ctx = (\<lambda>_. None),
      in_processing = (\<lambda>b. Some \<lparr>pm_id = b, pm_timestamp = 0, pm_country = [], pm_stage = [], pm_data = b,
         pm_metadata = Map.empty, pm_retry_count = 0\<rparr>),
      in_ref = (\<lambda>b. Some \<lparr>cr_id = b, cr_url = [], cr_country = [],
         cr_source = \<lparr>si_country = [], si_type = [], si_name = [], si_base_url = [], si_language = []\<rparr>\<rparr>),
      in_commit = (\<lambda>_. None)\<rparr>"

lemma sample_intake_simps:
  "cl_redis (sample_intake t pipes) = ref_zops" "cl_pipe (sample_intake t pipes) = pipes"
  "cl_clock (sample_intake t pipes) n = t" "cl_others (sample_intake t pipes) n r = r"
  "ze_digest (sample_intake t pipes) = id" "ze_ctx (sample_intake t pipes) n = None"
  "in_commit (sample_intake t pipes) n = None"
  "alone (sample_intake t (\<lambda>_. PipeOk)) t" "undisturbed (sample_intake t pipes) t"
  by (simp_all add: sample_intake_def alone_def undisturbed_def)

lemma sample_store:
  "rd_zall ref_zops k (ref_zadd ''v:queue'' sc ''m'' ref_empty) = (if k = ''v:queue'' then [(sc, ''m'')] else [])"
  "rd_zall ref_zops k ref_empty = []"
proof -
  have e: "ref_zall k ref_empty = []" for k by (simp add: ref_zall_def ref_empty_def)
  then show "rd_zall ref_zops k ref_empty = []" by (simp add: ref_zops_def)
  show "rd_zall ref_zops k (ref_zadd ''v:queue'' sc ''m'' ref_empty) = (if k = ''v:queue'' then [(sc, ''m'')] else [])"
    using e by (simp add: ref_zops_def ref_zsets_simps)
qed

section \<open>Properties\<close>

text \<open>Scores order by priority first and by arrival second, and the priority can be read back: for
  arrival times from 1970 to the year 2286, a score is smaller exactly when the priority (unknown ones
  count as normal) is more urgent, or equal with an earlier arrival; the band of the score is that
  priority; and a score is below the bound up to which Redis' numbers are exact.\<close>
theorem priority_score_order:
  assumes "0 \<le> unix_milli t" and "unix_milli t < priorityFactor" and "0 \<le> unix_milli t'" and "unix_milli t' < priorityFactor"
  shows "(priorityScore p t < priorityScore p' t' \<longleftrightarrow> clamp_priority p < clamp_priority p'
      \<or> clamp_priority p = clamp_priority p' \<and> unix_milli t < unix_milli t')
    \<and> priorityFromScore (priorityScore p t) = clamp_priority p
    \<and> priorityScore p t < 2 ^ 53"
proof -
  have c: "clamp_priority p \<in> {1, 2, 3}" "clamp_priority p' \<in> {1, 2, 3}" by (auto simp: clamp_priority_def)
  have "priorityScore p t < priorityScore p' t' \<longleftrightarrow> clamp_priority p < clamp_priority p'
      \<or> clamp_priority p = clamp_priority p' \<and> unix_milli t < unix_milli t'"
    unfolding priority_score(1) [OF assms(1,2)] priority_score(1) [OF assms(3,4)]
    using assms c by (auto simp: priorityFactor_def)
  moreover have "priorityScore p t < 2 ^ 53"
    unfolding priority_score(1) [OF assms(1,2)] using assms c by (auto simp: priorityFactor_def)
  ultimately show ?thesis using priority_score(2) [OF assms(1,2)] by blast
qed

theorem priority_score_order_witness:
  "priorityScore 1 9000000000 < priorityScore 2 5000000 \<and> priorityFromScore (priorityScore 7 5000000) = 2"
  using priority_score_order [of 9000000000 5000000 1 2] priority_score_order [of 5000000 5000000 7 2]
  by (simp add: unix_milli_def priorityFactor_def clamp_priority_def)

text \<open>What is pushed can be popped. If the new member is the smallest of the queue, a pop before its
  entry expires returns its id, payload, priority and headers (the headers unless they could not be encoded),
  and leaves the queue without a trace of it: no member, no payload, no headers. The other members are
  those that were there, without those cut off by the size limit.\<close>
theorem push_pop_roundtrip:
  assumes "zredis_ok (cl_redis E)" and "NewPriorityZSetQueue cfg = Inr q" and "alone E t" and "alone E' t'"
    and "cl_redis E' = cl_redis E" and "ze_digest E' = ze_digest E"
    and "\<forall>x b. ze_encode E x = Inr b \<longrightarrow> b \<noteq> [] \<and> ze_decode E' b = Some x"
    and "i \<noteq> []" and "payload \<noteq> []" and "t \<le> t'" and "t' < t + zq_ttl q"
    and "0 \<le> unix_milli t" and "unix_milli t < priorityFactor"
    and "\<forall>(sc, m) \<in> set (rd_zall (cl_redis E) (zq_key q) (cl_db s)). m \<noteq> i \<longrightarrow> (priorityScore p t, i) < (sc, m)"
    and "PushWithHeaders E q p i payload hs s = (e, s1)" and "cl_db s1' = cl_db s1"
  shows "e = None \<and> (\<exists>s2. Pop E' q s1' =
      (Inr (Some \<lparr>pr_id = i, pr_score = priorityScore p t, pr_priority = clamp_priority p, pr_payload = Some payload,
         pr_headers = (if hs = Map.empty \<or> (\<exists>e. ze_encode E (ze_digest E payload, hs) = Inl e) then None else Some hs)\<rparr>), s2)
      \<and> set (rd_zall (cl_redis E) (zq_key q) (cl_db s2)) \<subseteq> {x \<in> set (rd_zall (cl_redis E) (zq_key q) (cl_db s)). snd x \<noteq> i}
      \<and> rd_get (cl_redis E) t' (zq_entry q @ i) (cl_db s2) = None
      \<and> rd_get (cl_redis E) t' (headerKeyFor q i) (cl_db s2) = None)"
proof -
  let ?R = "cl_redis E" and ?k = "zq_key q" and ?sc = "priorityScore p t"
  note keys = zset_keys [OF assms(2)]
  note str = redis_strings.get_setx [OF zredis_strings [OF assms(1)] keys(3) assms(10)]
    redis_strings.get_del [OF zredis_strings [OF assms(1)]]
  let ?r0 = "header_command E q i payload hs t (rd_setx ?R t (zq_entry q @ i) payload (zq_ttl q) (cl_db s))"
  let ?r1 = "rd_zadd ?R ?k ?sc i ?r0"
  have push: "e = None" "cl_db s1' = rd_zcut ?R ?k (nat (zq_max q)) ?r1"
    using assms(15,16) unfolding Push_alone [OF assms(3,8,9) keys(2)] by auto
  have all: "rd_zall ?R ?k ?r0 = rd_zall ?R ?k (cl_db s)"
    by (simp add: header_command_frames [OF assms(1)] zset_frames [OF assms(1)])
  have mem: "set (rd_zall ?R ?k ?r1) = insert (?sc, i) {x \<in> set (rd_zall ?R ?k (cl_db s)). snd x \<noteq> i}"
    using redis_zsets.z_add [OF assms(1), of ?k ?k ?sc i ?r0] by (simp add: all)
  have head: "\<exists>zs. rd_zall ?R ?k ?r1 = (?sc, i) # zs"
  proof (cases "rd_zall ?R ?k ?r1")
    case Nil
    then show ?thesis using mem by simp
  next
    case (Cons x zs)
    have srt: "\<forall>y \<in> set zs. x \<le> y"
      using redis_zsets.z_sorted [OF assms(1), of ?k ?r1] unfolding Cons by simp
    have "(?sc, i) \<in> set (x # zs)" using mem unfolding Cons by (simp only: insertI1)
    then have le: "x = (?sc, i) \<or> x \<le> (?sc, i)" using srt by auto
    have "x \<in> insert (?sc, i) {x \<in> set (rd_zall ?R ?k (cl_db s)). snd x \<noteq> i}"
      unfolding mem [symmetric] Cons by simp
    then have "x = (?sc, i) \<or> (?sc, i) < x"
      using assms(14) by (cases x) (simp del: less_prod_simp, blast)
    then have "x = (?sc, i)" using le leD by blast
    then show ?thesis using Cons by simp
  qed
  then obtain zs where zs: "rd_zall ?R ?k (cl_db s1') = (?sc, i) # take (nat (zq_max q) - 1) zs"
    using push(2) redis_zsets.z_cut [OF assms(1), of ?k ?k] keys(2)
    by (auto simp: take_Cons' nat_eq_iff)
  have entry: "rd_get ?R t' (zq_entry q @ i) (cl_db s1') = Some payload"
    using assms(11) keys(1) [of i i] unfolding push(2)
    by (auto simp: zset_frames [OF assms(1)] header_command_def str split: sum.splits)
  have hdr: "restored_headers E' (Some payload) (rd_get ?R t' (headerKeyFor q i) (cl_db s1'))
      = (if hs = Map.empty \<or> (\<exists>e. ze_encode E (ze_digest E payload, hs) = Inl e) then None else Some hs)"
    using assms(7,11) keys(1) [of i i] unfolding push(2)
    by (auto simp: zset_frames [OF assms(1)] header_command_def str restored_headers_def assms(6)
        split: sum.splits)
  have "set (rd_zall ?R ?k (cl_db s1')) \<subseteq> set (rd_zall ?R ?k ?r1)"
    using redis_zsets.z_cut [OF assms(1), of ?k ?k] set_take_subset unfolding push(2) by metis
  then have rest: "set (rd_zall ?R ?k (rd_zrem ?R ?k i (cl_db s1'))) \<subseteq> {x \<in> set (rd_zall ?R ?k (cl_db s)). snd x \<noteq> i}"
    using redis_zsets.z_rem [OF assms(1), of ?k ?k i] mem by auto
  show ?thesis
    using push(1) zs entry hdr rest priority_score(2) [OF assms(12,13)]
    by (simp add: Pop_alone [OF assms(4)] assms(5) Let_def zset_frames [OF assms(1)] str)
qed

theorem push_pop_roundtrip_witness:
  "let E = sample_intake 5 (\<lambda>_. PipeOk); s = \<lparr>cl_step = 0, cl_db = ref_empty\<rparr>;
       s1 = snd (PushWithHeaders E sample_zq 3 ''i'' ''p'' [''k'' \<mapsto> ''v''] s)
   in \<exists>s2. Pop E sample_zq s1 = (Inr (Some \<lparr>pr_id = ''i'', pr_score = priorityScore 3 5, pr_priority = 3,
        pr_payload = Some ''p'', pr_headers = Some [''k'' \<mapsto> ''v'']\<rparr>), s2)"
proof -
  define E where "E = sample_intake 5 (\<lambda>_. PipeOk)"
  define s where "s = \<lparr>cl_step = 0, cl_db = ref_empty\<rparr>"
  obtain e s1 where push: "PushWithHeaders E sample_zq 3 ''i'' ''p'' [''k'' \<mapsto> ''v''] s = (e, s1)"
    by (rule prod.exhaust)
  have E: "alone E 5" "cl_redis E = ref_zops" "ze_encode E (ze_digest E ''p'', [''k'' \<mapsto> ''v'']) = Inr ''h''"
    by (simp_all add: E_def sample_intake_simps) (simp add: sample_intake_def)
  have ok: "zredis_ok (cl_redis E)" by (simp add: E ref_zops_ok)
  have law: "\<forall>x b. ze_encode E x = Inr b \<longrightarrow> b \<noteq> [] \<and> ze_decode E b = Some x"
    by (auto simp: E_def sample_intake_def)
  have ms: "unix_milli 5 = 0" by (simp add: unix_milli_def)
  have least: "\<forall>(sc, m) \<in> set (rd_zall (cl_redis E) (zq_key sample_zq) (cl_db s)). m \<noteq> ''i'' \<longrightarrow> (priorityScore 3 5, ''i'') < (sc, m)"
    by (simp add: E s_def sample_store)
  have "\<exists>s2. Pop E sample_zq s1 = (Inr (Some \<lparr>pr_id = ''i'', pr_score = priorityScore 3 5, pr_priority = 3,
        pr_payload = Some ''p'', pr_headers = Some [''k'' \<mapsto> ''v'']\<rparr>), s2)"
    using push_pop_roundtrip [OF ok sample_zq_new E(1) E(1) refl refl law _ _ _ _ _ _ least push refl] E(3)
    by (auto simp: ms priorityFactor_def clamp_priority_def sample_zq_def)
  then show ?thesis using push by (simp add: E_def s_def Let_def)
qed

text \<open>A full queue silently drops what is pushed to it. When the queue holds its maximum number of members
  and all have smaller scores than the new one, PushWithHeaders reports success but the new member is cut off at
  once; the set is what it was. The intake then commits the Kafka message: it is neither in the queue nor will it be
  delivered again. The new member has the latest arrival in its band: among the least urgent it is the newest that is lost,
  where the comments of the limit say the oldest.\<close>
theorem full_queue_drops_new:
  assumes "zredis_ok (cl_redis E)" and "NewPriorityZSetQueue cfg = Inr q" and "alone E t"
    and "in_processing E (m_value msg) = Some pm" and "in_ref E (pm_data pm) = Some ref" and "cr_id ref \<noteq> []"
    and "m_value msg \<noteq> []" and "\<forall>n. in_commit E n = None"
    and "p = PriorityFromHeader (m_headers msg)"
    and "int (length (rd_zall (cl_redis E) (zq_key q) (cl_db s))) = zq_max q"
    and "\<forall>(sc, m) \<in> set (rd_zall (cl_redis E) (zq_key q) (cl_db s)). sc < priorityScore p t \<and> m \<noteq> cr_id ref"
  shows "fst (PushWithHeaders E q p (cr_id ref) (m_value msg) (m_headers msg) s) = None
    \<and> is_committed (handleOne E q msg s) = is_committed s @ [msg]
    \<and> rd_zall (cl_redis E) (zq_key q) (cl_db (handleOne E q msg s)) = rd_zall (cl_redis E) (zq_key q) (cl_db s)"
proof -
  let ?R = "cl_redis E" and ?k = "zq_key q" and ?sc = "priorityScore p t" and ?i = "cr_id ref"
  note push = Push_alone [OF assms(3,6,7) zset_keys(2) [OF assms(2)], of p "m_headers msg" s]
  let ?r0 = "header_command E q ?i (m_value msg) (m_headers msg) t
    (rd_setx ?R t (zq_entry q @ ?i) (m_value msg) (zq_ttl q) (cl_db s))"
  have all: "rd_zall ?R ?k ?r0 = rd_zall ?R ?k (cl_db s)"
    by (simp add: header_command_frames [OF assms(1)] zset_frames [OF assms(1)])
  have new: "rd_zall ?R ?k (rd_zadd ?R ?k ?sc ?i ?r0) = rd_zall ?R ?k (cl_db s) @ [(?sc, ?i)]"
  proof (rule sorted_distinct_set_unique)
    have "set (rd_zall ?R ?k (cl_db s)) = {x \<in> set (rd_zall ?R ?k (cl_db s)). snd x \<noteq> ?i}"
      using assms(11) by auto
    then show "set (rd_zall ?R ?k (rd_zadd ?R ?k ?sc ?i ?r0)) = set (rd_zall ?R ?k (cl_db s) @ [(?sc, ?i)])"
      using redis_zsets.z_add [OF assms(1), of ?k ?k ?sc ?i ?r0] by (simp add: all)
    show "sorted (rd_zall ?R ?k (cl_db s) @ [(?sc, ?i)])"
      using redis_zsets.z_sorted [OF assms(1), of ?k "cl_db s"] assms(11) by (fastforce simp: sorted_append)
    show "distinct (rd_zall ?R ?k (cl_db s) @ [(?sc, ?i)])"
      using redis_zsets.z_distinct [OF assms(1), of ?k "cl_db s"] assms(11) by (auto simp: distinct_map)
    show "sorted (rd_zall ?R ?k (rd_zadd ?R ?k ?sc ?i ?r0))" "distinct (rd_zall ?R ?k (rd_zadd ?R ?k ?sc ?i ?r0))"
      using redis_zsets.z_sorted [OF assms(1)] redis_zsets.z_distinct [OF assms(1)] by (auto simp: distinct_map)
  qed
  have "nat (zq_max q) = length (rd_zall ?R ?k (cl_db s))" using assms(10) by linarith
  then have "rd_zall ?R ?k (rd_zcut ?R ?k (nat (zq_max q)) (rd_zadd ?R ?k ?sc ?i ?r0)) = rd_zall ?R ?k (cl_db s)"
    using redis_zsets.z_cut [OF assms(1), of ?k ?k] by (simp add: new)
  then show ?thesis
    using assms(4-6,8) by (simp add: push handleOne_def assms(9) [symmetric] intake_commit_def alone_run [OF assms(3)] Let_def)
qed

theorem full_queue_drops_new_witness:
  "let E = sample_intake 5 (\<lambda>_. PipeOk);
       s = \<lparr>cl_step = 0, cl_db = ref_zadd ''v:queue'' 7 ''m'' ref_empty, is_committed = []\<rparr>;
       msg = new_message ''t'' ''k'' ''i'' Map.empty
   in is_committed (handleOne E sample_zq msg s) = [msg]
    \<and> rd_zall ref_zops ''v:queue'' (cl_db (handleOne E sample_zq msg s)) = [(7, ''m'')]"
proof -
  define E where "E = sample_intake 5 (\<lambda>_. PipeOk)"
  define s where "s = \<lparr>cl_step = 0, cl_db = ref_zadd ''v:queue'' 7 ''m'' ref_empty, is_committed = ([] :: message list)\<rparr>"
  define msg where "msg = new_message ''t'' ''k'' ''i'' Map.empty"
  define pm where "pm = the (in_processing E ''i'')"
  define ref where "ref = the (in_ref E ''i'')"
  have E: "alone E 5" "cl_redis E = ref_zops" "in_commit E n = None" for n
    by (simp_all add: E_def sample_intake_simps)
  have dec: "in_processing E (m_value msg) = Some pm" "in_ref E (pm_data pm) = Some ref" "cr_id ref = ''i''"
    by (simp_all add: E_def sample_intake_def pm_def ref_def msg_def)
  have z: "rd_zall ref_zops (zq_key sample_zq) (cl_db s) = [(7, ''m'')]"
    by (simp add: s_def sample_zq_def sample_store)
  have "is_committed (handleOne E sample_zq msg s) = [msg]
    \<and> rd_zall ref_zops ''v:queue'' (cl_db (handleOne E sample_zq msg s)) = [(7, ''m'')]"
    using full_queue_drops_new [OF _ sample_zq_new E(1) dec(1,2) _ _ _ refl, of s] dec(3) E z ref_zops_ok
    by (simp add: msg_def PriorityFromHeader_def priorityScore_def priorityFactor_def unix_milli_def s_def sample_zq_def)
  then show ?thesis by (simp add: E_def s_def msg_def Let_def)
qed

text \<open>The intake never gives up a message it has not handed over. If it commits a message that it can decode, then,
  as long as nobody else touches the queue and whichever Redis calls failed, the message's payload is stored under
  its id and the id is in the queue with the score of its priority, unless the queue is at its size limit.\<close>
theorem intake_commits_only_stored:
  assumes "zredis_ok (cl_redis E)" and "NewPriorityZSetQueue cfg = Inr q"
    and "\<forall>n r. cl_others E n r = r" and "\<forall>n. cl_clock E n = t"
    and "in_processing E (m_value msg) = Some pm" and "in_ref E (pm_data pm) = Some ref" and "cr_id ref \<noteq> []"
    and "s' = handleOne E q msg s" and "msg \<in> set (is_committed s')" and "msg \<notin> set (is_committed s)"
    and "p = PriorityFromHeader (m_headers msg)"
  shows "rd_get (cl_redis E) t (zq_entry q @ cr_id ref) (cl_db s') = Some (m_value msg)
    \<and> ((priorityScore p t, cr_id ref) \<in> set (rd_zall (cl_redis E) (zq_key q) (cl_db s'))
       \<or> int (length (rd_zall (cl_redis E) (zq_key q) (cl_db s'))) = zq_max q)"
proof -
  let ?R = "cl_redis E" and ?k = "zq_key q" and ?sc = "priorityScore p t" and ?i = "cr_id ref"
  note keys = zset_keys [OF assms(2)]
  note str = redis_strings.get_setx [OF zredis_strings [OF assms(1)] keys(3) order_refl]
    redis_strings.get_del [OF zredis_strings [OF assms(1)]]
  have U: "undisturbed E t" using assms(3,4) by (auto simp: undisturbed_def)
  have el: "cl_db (cl_elapse E x) = cl_db x" "cl_now E x = t" for x :: "'a intake_state"
    using U by (simp_all add: undisturbed_def cl_elapse_def cl_now_def)
  obtain e s1 where push: "PushWithHeaders E q p ?i (m_value msg) (m_headers msg) s = (e, s1)"
    by (rule prod.exhaust)
  have s1: "e = None" "cl_db s' = cl_db s1"
    using assms(5-10) push same_committed [OF PushWithHeaders_more [OF push]]
    by (auto simp: handleOne_def assms(11) [symmetric] intake_commit_def Let_def el split: option.splits)
  let ?cmds = "[\<lambda>now. rd_setx ?R now (zq_entry q @ ?i) (m_value msg) (zq_ttl q),
    header_command E q ?i (m_value msg) (m_headers msg), \<lambda>_. rd_zadd ?R ?k ?sc ?i]"
  obtain s0 where s0: "run_pipe E ?cmds s = (None, s0)"
    and cut: "s1 = snd (run_pipe E [\<lambda>_. rd_zcut ?R ?k (nat (zq_max q))] s0)"
    using push s1(1) keys(2) by (auto simp: PushWithHeaders_def el Let_def split: prod.splits option.splits if_splits)
  obtain n where "cl_db s0 = fold (\<lambda>c. c t) (take n ?cmds) (cl_db s)" "length ?cmds \<le> n"
    using run_pipe_db [OF U s0] by auto
  then have db0: "cl_db s0 = fold (\<lambda>c. c t) ?cmds (cl_db s)" by simp
  obtain k where db1: "cl_db s1 = fold (\<lambda>c. c t) (take k [\<lambda>_. rd_zcut ?R ?k (nat (zq_max q))]) (cl_db s0)"
    using run_pipe_db [OF U surjective_pairing, of "[\<lambda>_. rd_zcut ?R ?k (nat (zq_max q))]" s0] cut by auto
  have get: "rd_get ?R t (zq_entry q @ ?i) (cl_db s0) = Some (m_value msg)"
    using keys(1) [of ?i ?i] keys(3) unfolding db0
    by (auto simp: zset_frames [OF assms(1)] header_command_def str split: sum.splits)
  have mem: "(?sc, ?i) \<in> set (rd_zall ?R ?k (cl_db s0))"
    unfolding db0 by (simp add: redis_zsets.zadd_member [OF assms(1)])
  show ?thesis
  proof (cases k)
    case 0
    then show ?thesis using db1 get mem s1(2) by simp
  next
    case (Suc m)
    then have db: "cl_db s' = rd_zcut ?R ?k (nat (zq_max q)) (cl_db s0)" using db1 s1(2) by simp
    then have cutl: "rd_zall ?R ?k (cl_db s') = take (nat (zq_max q)) (rd_zall ?R ?k (cl_db s0))"
      using redis_zsets.z_cut [OF assms(1), of ?k ?k] by simp
    show ?thesis
    proof (cases "length (rd_zall ?R ?k (cl_db s0)) \<le> nat (zq_max q)")
      case True
      then show ?thesis using mem get db cutl by (simp add: zset_frames [OF assms(1)])
    next
      case False
      then show ?thesis using get db cutl keys(2) by (simp add: zset_frames [OF assms(1)])
    qed
  qed
qed

theorem intake_commits_only_stored_witness:
  "let E = sample_intake 5 (\<lambda>_. PipeOk); s = \<lparr>cl_step = 0, cl_db = ref_empty, is_committed = []\<rparr>;
       msg = new_message ''t'' ''k'' ''i'' Map.empty
   in rd_get ref_zops 5 ''v:entry:i'' (cl_db (handleOne E sample_zq msg s)) = Some ''i''"
proof -
  define E where "E = sample_intake 5 (\<lambda>_. PipeOk)"
  define s where "s = \<lparr>cl_step = 0, cl_db = ref_empty, is_committed = ([] :: message list)\<rparr>"
  define msg where "msg = new_message ''t'' ''k'' ''i'' Map.empty"
  define pm where "pm = the (in_processing E ''i'')"
  define ref where "ref = the (in_ref E ''i'')"
  have E: "alone E 5" "cl_redis E = ref_zops" "in_commit E n = None" "\<forall>n r. cl_others E n r = r" "\<forall>n. cl_clock E n = 5" for n
    by (simp_all add: E_def sample_intake_simps)
  have dec: "in_processing E (m_value msg) = Some pm" "in_ref E (pm_data pm) = Some ref" "cr_id ref = ''i''"
    by (simp_all add: E_def sample_intake_def pm_def ref_def msg_def)
  have "msg \<in> set (is_committed (handleOne E sample_zq msg s))"
    using dec E(3) by (simp add: handleOne_def Push_alone [OF E(1)] msg_def sample_zq_def intake_commit_def Let_def
        alone_run [OF E(1)])
  then have "rd_get ref_zops 5 ''v:entry:i'' (cl_db (handleOne E sample_zq msg s)) = Some ''i''"
    using intake_commits_only_stored [OF _ sample_zq_new E(4,5) dec(1,2) _ refl, of s] dec(3) E(2) ref_zops_ok
    by (simp add: s_def msg_def sample_zq_def)
  then show ?thesis by (simp add: E_def s_def msg_def Let_def)
qed

text \<open>A failed read does not lose a member. If, with nobody else at work, the read of the payload or of the headers fails
  after the member was popped, Pop returns an error and has put the member back with its old score: the queue is exactly
  what it was, and so are the stored payloads and headers.\<close>
theorem pop_failure_keeps_queue:
  fixes E :: "('r, 'e) zset_env_scheme" and s :: "('r, 's) client_state_scheme"
  assumes "zredis_ok (cl_redis E)" and "undisturbed E t" and "n = 2 \<or> n = 3"
    and "\<forall>m. cl_pipe E m = (if m = cl_step s + n then PipeFail k err else PipeOk)"
    and "rd_zall (cl_redis E) (zq_key q) (cl_db s) \<noteq> []"
  shows "\<exists>e s1. Pop E q s = (Inl e, s1)
    \<and> rd_zall (cl_redis E) (zq_key q) (cl_db s1) = rd_zall (cl_redis E) (zq_key q) (cl_db s)
    \<and> (\<forall>t key. rd_get (cl_redis E) t key (cl_db s1) = rd_get (cl_redis E) t key (cl_db s))"
proof -
  let ?R = "cl_redis E" and ?k = "zq_key q"
  obtain sc i zs where head: "rd_zall ?R ?k (cl_db s) = (sc, i) # zs"
    using assms(5) by (cases "rd_zall ?R ?k (cl_db s)") auto
  let ?r = "rd_zadd ?R ?k sc i (rd_zrem ?R ?k i (cl_db s))"
  have "set (rd_zall ?R ?k ?r) = insert (sc, i) {x \<in> set (rd_zall ?R ?k (cl_db s)). snd x \<noteq> i}"
    by (auto simp: redis_zsets.z_add [OF assms(1)] redis_zsets.z_rem [OF assms(1)])
  also have "\<dots> = set (rd_zall ?R ?k (cl_db s))"
  proof -
    have in_q: "(sc, i) \<in> set (rd_zall ?R ?k (cl_db s))" by (simp add: head)
    have "x = (sc, i)" if "x \<in> set (rd_zall ?R ?k (cl_db s))" "snd x = i" for x
      using redis_zsets.one_score [OF assms(1) in_q, of "fst x"] that by (cases x) simp
    then show ?thesis using in_q by blast
  qed
  finally have same: "rd_zall ?R ?k ?r = rd_zall ?R ?k (cl_db s)"
    by (rule zall_same [OF assms(1)])
  have el: "cl_elapse E x = x\<lparr>cl_step := Suc (cl_step x)\<rparr>" "cl_now E x = t" for x :: "('r, 's) client_state_scheme"
    using assms(2) by (simp_all add: undisturbed_def cl_elapse_def cl_now_def)
  let ?s1 = "s\<lparr>cl_step := Suc (cl_step s), cl_db := rd_zrem ?R ?k i (cl_db s)\<rparr>"
  have popped: "run_query E (\<lambda>_. zpopmin ?R ?k) s = (Inr (Some (sc, i)), ?s1)"
    using assms(3,4) by (auto simp: run_query_def zpopmin_def head el Let_def)
  obtain e s1 where "Pop E q s = (Inl e, s1)" "cl_db s1 = ?r"
    using assms(3,4)
    by (elim disjE) (simp_all add: Pop_def popped run_query_read [OF assms(2)] el run_pipe_def run_cmd_def Let_def
        pop_entry_failed_def restoreOnPopFailure_def)
  then show ?thesis using same by (auto simp: zset_frames [OF assms(1)])
qed

theorem pop_failure_keeps_queue_witness:
  "let E = sample_intake 5 (\<lambda>m. if m = 2 then PipeFail 0 (Opaque ''timeout'') else PipeOk);
       s = \<lparr>cl_step = 0, cl_db = ref_zadd ''v:queue'' 7 ''m'' ref_empty\<rparr>
   in rd_zall ref_zops ''v:queue'' (cl_db (snd (Pop E sample_zq s))) = [(7, ''m'')]"
proof -
  define E where "E = sample_intake 5 (\<lambda>m. if m = 2 then PipeFail 0 (Opaque ''timeout'') else PipeOk)"
  define s where "s = \<lparr>cl_step = 0, cl_db = ref_zadd ''v:queue'' 7 ''m'' ref_empty\<rparr>"
  have E: "cl_redis E = ref_zops" "undisturbed E 5"
    "\<forall>m. cl_pipe E m = (if m = cl_step s + 2 then PipeFail 0 (Opaque ''timeout'') else PipeOk)"
    by (simp_all add: E_def sample_intake_simps s_def)
  have "rd_zall ref_zops ''v:queue'' (cl_db s) = [(7, ''m'')]" by (simp add: s_def sample_store)
  then have "rd_zall ref_zops ''v:queue'' (cl_db (snd (Pop E sample_zq s))) = [(7, ''m'')]"
    using pop_failure_keeps_queue [OF _ E(2) _ E(3), of sample_zq] by (auto simp: E(1) ref_zops_ok sample_zq_def)
  then show ?thesis by (simp add: E_def s_def)
qed

section \<open>Fetching\<close>

lemma Pop_head:
  assumes E: "alone E t" and R: "zredis_ok (cl_redis E)"
    and head: "rd_zall (cl_redis E) (zq_key q) (cl_db s) = (sc, i) # zs"
  shows "\<exists>res s1. Pop E q s = (Inr (Some res), s1) \<and> pr_id res = i
    \<and> pr_payload res = rd_get (cl_redis E) t (zq_entry q @ i) (cl_db s)
    \<and> rd_zall (cl_redis E) (zq_key q) (cl_db s1) = zs \<and> (\<forall>m \<in> snd ` set zs. m \<noteq> i)
    \<and> (\<forall>t'. rd_get (cl_redis E) t' (zq_entry q @ i) (cl_db s1) = None)
    \<and> (\<forall>key. key \<noteq> zq_entry q @ i \<longrightarrow> key \<noteq> headerKeyFor q i
         \<longrightarrow> rd_get (cl_redis E) t key (cl_db s1) = rd_get (cl_redis E) t key (cl_db s))"
proof -
  let ?R = "cl_redis E" and ?k = "zq_key q"
  let ?r = "rd_del ?R (headerKeyFor q i) (rd_del ?R (zq_entry q @ i) (rd_zrem ?R ?k i (cl_db s)))"
  note str = redis_strings.get_del [OF zredis_strings [OF R]]
  have nd: "\<forall>m \<in> snd ` set zs. m \<noteq> i" "distinct zs"
    using redis_zsets.z_distinct [OF R, of ?k "cl_db s"] by (auto simp: head distinct_map)
  have "rd_zall ?R ?k (rd_zrem ?R ?k i (cl_db s)) = zs"
  proof (rule sorted_distinct_set_unique)
    show "set (rd_zall ?R ?k (rd_zrem ?R ?k i (cl_db s))) = set zs"
      using redis_zsets.z_rem [OF R, of ?k ?k i "cl_db s"] nd(1) by (auto simp: head)
    show "sorted zs" using redis_zsets.z_sorted [OF R, of ?k "cl_db s"] by (simp add: head)
    show "sorted (rd_zall ?R ?k (rd_zrem ?R ?k i (cl_db s)))" "distinct (rd_zall ?R ?k (rd_zrem ?R ?k i (cl_db s)))"
      using redis_zsets.z_sorted [OF R] redis_zsets.z_distinct [OF R] by (auto simp: distinct_map)
  qed (rule nd(2))
  then have "rd_zall ?R ?k ?r = zs" by (simp add: zset_frames [OF R])
  then show ?thesis
    using nd(1) by (simp add: Pop_alone [OF E] head Let_def zset_frames [OF R] str)
qed

text \<open>The first message whose payload is still there.\<close>

fun first_live :: "('a \<Rightarrow> 'b option) \<Rightarrow> (int \<times> 'a) list \<Rightarrow> ('a \<times> 'b) option" where
  "first_live f [] = None"
| "first_live f ((_, i) # zs) = (case f i of None \<Rightarrow> first_live f zs | Some p \<Rightarrow> Some (i, p))"

lemma first_live_cong: "(\<And>i. i \<in> snd ` set zs \<Longrightarrow> f i = g i) \<Longrightarrow> first_live f zs = first_live g zs"
proof (induction zs)
  case (Cons x zs)
  then show ?case by (cases x) (auto split: option.split)
qed simp

text \<open>Popping a member whose payload is gone changes no other payload.\<close>

lemma first_live_pop:
  assumes keys: "\<And>i j. zq_entry q @ i \<noteq> headerKeyFor q j" and "\<forall>m \<in> snd ` set zs. m \<noteq> i"
    and "\<forall>key. key \<noteq> zq_entry q @ i \<longrightarrow> key \<noteq> headerKeyFor q i \<longrightarrow> g key = f key"
  shows "first_live (\<lambda>j. g (zq_entry q @ j)) zs = first_live (\<lambda>j. f (zq_entry q @ j)) zs"
  by (rule first_live_cong) (use assms in auto)

lemma FetchMessage_finds:
  assumes E: "alone E t" and ctx: "\<forall>n. ze_ctx E n = None" and R: "zredis_ok (cl_redis E)"
    and keys: "\<And>i j. zq_entry q @ i \<noteq> headerKeyFor q j"
  shows "rd_zall (cl_redis E) (zq_key q) (cl_db s) = zs \<Longrightarrow>
    first_live (\<lambda>i. rd_get (cl_redis E) t (zq_entry q @ i) (cl_db s)) zs = Some (i, p) \<Longrightarrow>
    \<exists>m s1. FetchMessage E q l s = Some (Inr m, s1) \<and> m_key m = i \<and> m_value m = p
      \<and> (\<forall>m' \<in> snd ` set (rd_zall (cl_redis E) (zq_key q) (cl_db s1)). m' \<noteq> i)
      \<and> (\<forall>t'. rd_get (cl_redis E) t' (zq_entry q @ i) (cl_db s1) = None)"
proof (induction zs arbitrary: s)
  case (Cons x zs)
  obtain sc j where x: "x = (sc, j)" by (rule prod.exhaust)
  let ?get = "\<lambda>s k. rd_get (cl_redis E) t k (cl_db s)"
  obtain res s1 where pop: "Pop E q s = (Inr (Some res), s1)" "pr_id res = j" "pr_payload res = ?get s (zq_entry q @ j)"
    and gone: "\<forall>t'. rd_get (cl_redis E) t' (zq_entry q @ j) (cl_db s1) = None"
    and rest: "rd_zall (cl_redis E) (zq_key q) (cl_db s1) = zs" "\<forall>m \<in> snd ` set zs. m \<noteq> j"
    "\<forall>key. key \<noteq> zq_entry q @ j \<longrightarrow> key \<noteq> headerKeyFor q j \<longrightarrow> ?get s1 key = ?get s key"
    using Pop_head [OF E R Cons.prems(1) [unfolded x]] by blast
  show ?case
  proof (cases "?get s (zq_entry q @ j)")
    case None
    have "first_live (\<lambda>i. ?get s1 (zq_entry q @ i)) zs = Some (i, p)"
      using first_live_pop [OF keys rest(2,3)] Cons.prems(2) None x by simp
    from Cons.IH [OF rest(1) this] show ?thesis
      using pop None ctx by (subst FetchMessage.simps) simp
  next
    case (Some p')
    then show ?thesis
      using Cons.prems(2) pop ctx x rest(1,2) gone by (subst FetchMessage.simps) (simp add: popped_message_def Let_def)
  qed
qed simp

lemma FetchMessage_waits:
  fixes E :: "('r, 'e) zset_env_scheme" and s :: "('r, 's) client_state_scheme"
  assumes "FetchMessage E q l s = Some v" and "alone E t" and "\<forall>n. ze_ctx E n = None" and "zredis_ok (cl_redis E)"
    and "\<forall>i j. zq_entry q @ i \<noteq> headerKeyFor q j"
  shows "first_live (\<lambda>i. rd_get (cl_redis E) t (zq_entry q @ i) (cl_db s))
    (rd_zall (cl_redis E) (zq_key q) (cl_db s)) \<noteq> None"
proof -
  let ?hyps = "\<lambda>E q. alone E t \<and> (\<forall>n. ze_ctx E n = None) \<and> zredis_ok (cl_redis E)
    \<and> (\<forall>i j. zq_entry q @ i \<noteq> headerKeyFor q j)"
  let ?live = "\<lambda>E q s. first_live (\<lambda>i. rd_get (cl_redis E) t (zq_entry q @ i) (cl_db s))
    (rd_zall (cl_redis E) (zq_key q) (cl_db s))"
  have "?hyps E q \<longrightarrow> ?live E q s \<noteq> None"
  proof (rule FetchMessage.raw_induct [where P = "\<lambda>E q l s v. ?hyps E q \<longrightarrow> ?live E q s \<noteq> None", OF _ assms(1)], rule impI)
    fix f and E :: "('r, 'e) zset_env_scheme" and q l and s :: "('r, 's) client_state_scheme" and v
    assume IH: "\<And>E q l s v. f E q l s = Some v \<Longrightarrow> ?hyps E q \<longrightarrow> ?live E q s \<noteq> None"
      and body: "(case ze_ctx E (cl_step s) of
        Some err \<Rightarrow> Some (Inl err, s)
      | None \<Rightarrow>
         (case Pop E q s of
            (Inl err, s1) \<Rightarrow> Some (Inl err, s1)
          | (Inr None, s1) \<Rightarrow> f E q l s1
          | (Inr (Some res), s1) \<Rightarrow>
             (case pr_payload res of
                None \<Rightarrow> f E q l s1
              | Some payload \<Rightarrow> Some (Inr (popped_message l (cl_now E s1) res payload), s1)))) = Some v"
      and hyps: "?hyps E q"
    show "?live E q s \<noteq> None"
    proof (cases "rd_zall (cl_redis E) (zq_key q) (cl_db s)")
      case Nil
      have "Pop E q s = (Inr None, s\<lparr>cl_step := Suc (cl_step s)\<rparr>)"
        using hyps Nil by (simp add: Pop_alone [of E t])
      then have "f E q l (s\<lparr>cl_step := Suc (cl_step s)\<rparr>) = Some v" using body hyps by simp
      from IH [OF this] show ?thesis using hyps Nil by simp
    next
      case (Cons x zs)
      obtain sc j where x: "x = (sc, j)" by (rule prod.exhaust)
      have E: "alone E t" and R: "zredis_ok (cl_redis E)" using hyps by simp_all
      obtain res s1 where pop: "Pop E q s = (Inr (Some res), s1)" "pr_payload res = rd_get (cl_redis E) t (zq_entry q @ j) (cl_db s)"
        and rest: "rd_zall (cl_redis E) (zq_key q) (cl_db s1) = zs" "\<forall>m \<in> snd ` set zs. m \<noteq> j"
        "\<forall>key. key \<noteq> zq_entry q @ j \<longrightarrow> key \<noteq> headerKeyFor q j
           \<longrightarrow> rd_get (cl_redis E) t key (cl_db s1) = rd_get (cl_redis E) t key (cl_db s)"
        using Pop_head [OF E R Cons [unfolded x]] by blast
      show ?thesis
      proof (cases "pr_payload res")
        case None
        then have "f E q l s1 = Some v" using body hyps pop by simp
        then have "?live E q s1 \<noteq> None" using IH hyps by blast
        then show ?thesis
          using first_live_pop [of q zs j, OF _ rest(2,3)] hyps None pop(2) Cons x rest(1) by simp
      qed (use Cons x pop(2) in simp)
    qed
  qed
  then show ?thesis using assms(2-5) by blast
qed

text \<open>The consumer finds the first live message, and only waits when there is none. For a consumer that is
  alone and not cancelled, FetchMessage returns exactly when some member of the queue still has its payload, and then it
  returns the id and payload of the first such member in score order, skipping members whose payload has expired.\<close>
theorem fetch_returns_first_live:
  assumes "zredis_ok (cl_redis E)" and "NewPriorityZSetQueue cfg = Inr q" and "alone E t" and "\<forall>n. ze_ctx E n = None"
    and "live = first_live (\<lambda>i. rd_get (cl_redis E) t (zq_entry q @ i) (cl_db s)) (rd_zall (cl_redis E) (zq_key q) (cl_db s))"
  shows "case live of
      None \<Rightarrow> FetchMessage E q l s = None
    | Some (i, p) \<Rightarrow> \<exists>m s1. FetchMessage E q l s = Some (Inr m, s1) \<and> m_key m = i \<and> m_value m = p"
proof (cases live)
  case None
  have "FetchMessage E q l s = None"
  proof (rule ccontr)
    assume "FetchMessage E q l s \<noteq> None"
    then obtain v where "FetchMessage E q l s = Some v" by auto
    from FetchMessage_waits [OF this assms(3,4,1)] show False
      using None assms(5) zset_keys(1) [OF assms(2)] by simp
  qed
  then show ?thesis using None by simp
next
  case (Some ip)
  obtain i p where ip: "ip = (i, p)" by (rule prod.exhaust)
  have "first_live (\<lambda>i. rd_get (cl_redis E) t (zq_entry q @ i) (cl_db s)) (rd_zall (cl_redis E) (zq_key q) (cl_db s)) = Some (i, p)"
    using Some ip assms(5) by simp
  from FetchMessage_finds [OF assms(3,4,1) zset_keys(1) [OF assms(2)] refl this, of l] show ?thesis
    using Some ip by auto
qed

theorem fetch_returns_first_live_witness:
  "FetchMessage (sample_intake 5 (\<lambda>_. PipeOk)) sample_zq ''t'' \<lparr>cl_step = 0, cl_db = ref_zadd ''v:queue'' 7 ''m'' ref_empty\<rparr> = None
   \<and> (\<exists>m s1. FetchMessage (sample_intake 5 (\<lambda>_. PipeOk)) sample_zq ''t''
        \<lparr>cl_step = 0, cl_db = ref_setx 0 ''v:entry:m'' ''p'' 10 (ref_zadd ''v:queue'' 7 ''m'' ref_empty)\<rparr> = Some (Inr m, s1)
        \<and> m_value m = ''p'')"
proof -
  define E where "E = sample_intake 5 (\<lambda>_. PipeOk)"
  have E: "zredis_ok (cl_redis E)" "alone E 5" "\<forall>n. ze_ctx E n = None" "cl_redis E = ref_zops"
    by (simp_all add: E_def sample_intake_simps ref_zops_ok)
  have z: "rd_zall ref_zops (zq_key sample_zq) (ref_zadd ''v:queue'' 7 ''m'' ref_empty) = [(7, ''m'')]"
    "rd_zall ref_zops k (ref_setx 0 k' v ttl r) = rd_zall ref_zops k r"
    "rd_get ref_zops 5 (zq_entry sample_zq @ ''m'') (ref_zadd ''v:queue'' 7 ''m'' ref_empty) = None"
    "rd_get ref_zops 5 (zq_entry sample_zq @ ''m'') (ref_setx 0 ''v:entry:m'' ''p'' 10 r) = Some ''p''" for k k' v ttl r
    by (simp_all add: sample_store sample_zq_def)
      (simp_all add: ref_zops_def ref_zadd_def ref_string_defs ref_empty_def ref_zput_def ref_zall_def)
  show ?thesis
    using fetch_returns_first_live [OF E(1) sample_zq_new E(2,3) refl, where l = "''t''" and s = "\<lparr>cl_step = 0, cl_db = ref_zadd ''v:queue'' 7 ''m'' ref_empty\<rparr>"]
      fetch_returns_first_live [OF E(1) sample_zq_new E(2,3) refl, where l = "''t''" and s = "\<lparr>cl_step = 0, cl_db = ref_setx 0 ''v:entry:m'' ''p'' 10 (ref_zadd ''v:queue'' 7 ''m'' ref_empty)\<rparr>"]
    by (simp add: E(4) z E_def [symmetric]) blast
qed

end
