(* ===== verification/WorkerPool.thy ===== *)
theory WorkerPool
  imports PriorityZSet "HOL-Library.Multiset"
begin

text \<open>
  The pool every stage runs its handler in (\<^verbatim>\<open>internal/workerpool/pool.go\<close>): one goroutine polls
  a consumer and fills a bounded channel, a fixed number of workers empties it, and Stop lets the
  poller end, closes the channel, waits for the workers or for its context, and closes the
  consumer. Each statement of a goroutine that others can observe is a step of a relation. The
  handler is any computation that ends; a fetch returns a message or, once the context is
  cancelled, an error.
\<close>

section \<open>Configuration\<close>

definition DefaultDrainTimeout :: duration where "DefaultDrainTimeout = 5 * second"

record pool_config =
  wc_count :: int
  wc_drain :: duration

definition pool_New :: "pool_config \<Rightarrow> pool_config" where
  "pool_New cfg =
     cfg\<lparr>wc_count := (if wc_count cfg \<le> 0 then 1 else wc_count cfg),
         wc_drain := (if wc_drain cfg \<le> 0 then DefaultDrainTimeout else wc_drain cfg)\<rparr>"

definition jobs_capacity :: "pool_config \<Rightarrow> nat" where
  "jobs_capacity cfg = nat (wc_count cfg * 2)"

section \<open>States and steps\<close>

datatype 'm poller = Fetching | Holding 'm | PollDone

datatype 'm worker = Idle | Busy 'm | Exited

datatype stop_phase = NotStopped | WaitPoll | Draining | Stopped bool

text \<open>
  \<open>fetched\<close> are the messages the consumer has given out, \<open>taken\<close> those that workers received,
  \<open>handled\<close> those whose handler has returned. \<open>Stopped True\<close> is a graceful stop, \<open>Stopped False\<close>
  one after the timeout. \<open>panicked\<close> is a send on a closed channel.
\<close>

record 'm pool_state =
  wp_poll :: "'m poller"
  wp_jobs :: "'m list"
  wp_closed :: bool
  wp_workers :: "'m worker list"
  wp_cancelled :: bool
  wp_stop :: stop_phase
  wp_fetched :: "'m list"
  wp_taken :: "'m list"
  wp_handled :: "'m list"
  wp_panicked :: bool

definition pool_start :: "pool_config \<Rightarrow> 'm pool_state" where
  "pool_start cfg =
     \<lparr>wp_poll = Fetching, wp_jobs = [], wp_closed = False, wp_workers = replicate (nat (wc_count cfg)) Idle,
      wp_cancelled = False, wp_stop = NotStopped, wp_fetched = [], wp_taken = [], wp_handled = [], wp_panicked = False\<rparr>"

text \<open>A send is possible when there is room; on a closed channel it panics.\<close>

inductive pool_step :: "nat \<Rightarrow> 'm pool_state \<Rightarrow> 'm pool_state \<Rightarrow> bool" for cap where
  fetch: "wp_poll s = Fetching \<Longrightarrow> pool_step cap s (s\<lparr>wp_poll := Holding m, wp_fetched := wp_fetched s @ [m]\<rparr>)"
| fetch_ends: "wp_poll s = Fetching \<Longrightarrow> wp_cancelled s \<Longrightarrow> pool_step cap s (s\<lparr>wp_poll := PollDone\<rparr>)"
| send: "wp_poll s = Holding m \<Longrightarrow> \<not> wp_closed s \<Longrightarrow> length (wp_jobs s) < cap
    \<Longrightarrow> pool_step cap s (s\<lparr>wp_poll := Fetching, wp_jobs := wp_jobs s @ [m]\<rparr>)"
| send_closed: "wp_poll s = Holding m \<Longrightarrow> wp_closed s \<Longrightarrow> pool_step cap s (s\<lparr>wp_panicked := True\<rparr>)"
| leave: "wp_poll s = Holding m \<Longrightarrow> wp_cancelled s \<Longrightarrow> pool_step cap s (s\<lparr>wp_poll := PollDone\<rparr>)"
| take_job: "i < length (wp_workers s) \<Longrightarrow> wp_workers s ! i = Idle \<Longrightarrow> wp_jobs s = m # ms
    \<Longrightarrow> pool_step cap s (s\<lparr>wp_jobs := ms, wp_workers := (wp_workers s)[i := Busy m], wp_taken := wp_taken s @ [m]\<rparr>)"
| handled: "i < length (wp_workers s) \<Longrightarrow> wp_workers s ! i = Busy m
    \<Longrightarrow> pool_step cap s (s\<lparr>wp_workers := (wp_workers s)[i := Idle], wp_handled := wp_handled s @ [m]\<rparr>)"
| exit_worker: "i < length (wp_workers s) \<Longrightarrow> wp_workers s ! i = Idle \<Longrightarrow> wp_jobs s = [] \<Longrightarrow> wp_closed s
    \<Longrightarrow> pool_step cap s (s\<lparr>wp_workers := (wp_workers s)[i := Exited]\<rparr>)"
| cancel: "pool_step cap s (s\<lparr>wp_cancelled := True\<rparr>)"
| stop_polling: "wp_stop s = NotStopped \<Longrightarrow> pool_step cap s (s\<lparr>wp_cancelled := True, wp_stop := WaitPoll\<rparr>)"
| close_jobs: "wp_stop s = WaitPoll \<Longrightarrow> wp_poll s = PollDone
    \<Longrightarrow> pool_step cap s (s\<lparr>wp_closed := True, wp_stop := Draining\<rparr>)"
| drained: "wp_stop s = Draining \<Longrightarrow> set (wp_workers s) \<subseteq> {Exited} \<Longrightarrow> pool_step cap s (s\<lparr>wp_stop := Stopped True\<rparr>)"
| drain_timeout: "wp_stop s = Draining \<Longrightarrow> pool_step cap s (s\<lparr>wp_stop := Stopped False\<rparr>)"

inductive pool_run :: "nat \<Rightarrow> 'm pool_state \<Rightarrow> 'm pool_state \<Rightarrow> bool" for cap where
  run_refl: "pool_run cap s s"
| run_step: "pool_run cap s s1 \<Longrightarrow> pool_step cap s1 s2 \<Longrightarrow> pool_run cap s s2"

definition pool_reachable :: "pool_config \<Rightarrow> 'm pool_state \<Rightarrow> bool" where
  "pool_reachable cfg s \<longleftrightarrow> pool_run (jobs_capacity (pool_New cfg)) (pool_start (pool_New cfg)) s"

inductive_cases pool_stepE: "pool_step cap s s'"

section \<open>The invariant\<close>

fun busy :: "'m worker list \<Rightarrow> 'm multiset" where
  "busy [] = {#}"
| "busy (Busy m # ws) = add_mset m (busy ws)"
| "busy (_ # ws) = busy ws"

lemma busy_update:
  "i < length ws \<Longrightarrow> ws ! i = Busy m \<Longrightarrow> w \<in> {Idle, Exited} \<Longrightarrow> add_mset m (busy (ws[i := w])) = busy ws"
  "i < length ws \<Longrightarrow> ws ! i = Idle \<Longrightarrow> busy (ws[i := Busy m]) = add_mset m (busy ws)"
  "i < length ws \<Longrightarrow> ws ! i = Idle \<Longrightarrow> busy (ws[i := Exited]) = busy ws"
proof -
  show "i < length ws \<Longrightarrow> ws ! i = Busy m \<Longrightarrow> w \<in> {Idle, Exited} \<Longrightarrow> add_mset m (busy (ws[i := w])) = busy ws"
    by (induction ws arbitrary: i rule: busy.induct) (auto simp: nth_Cons split: nat.splits)
  show "i < length ws \<Longrightarrow> ws ! i = Idle \<Longrightarrow> busy (ws[i := Busy m]) = add_mset m (busy ws)"
    by (induction ws arbitrary: i rule: busy.induct) (auto simp: nth_Cons split: nat.splits)
  show "i < length ws \<Longrightarrow> ws ! i = Idle \<Longrightarrow> busy (ws[i := Exited]) = busy ws"
    by (induction ws arbitrary: i rule: busy.induct) (auto simp: nth_Cons split: nat.splits)
qed

lemma busy_exited: "set ws \<subseteq> {Exited} \<Longrightarrow> busy ws = {#}"
  by (induction ws rule: busy.induct) auto

definition held :: "'m poller \<Rightarrow> 'm list" where
  "held p = (case p of Holding m \<Rightarrow> [m] | _ \<Rightarrow> [])"

text \<open>
  \<open>lost\<close> is what was fetched and is neither taken nor waiting nor held: at most the one message
  the poller held when it was told to end.
\<close>

definition pool_inv :: "nat \<Rightarrow> nat \<Rightarrow> 'm list \<Rightarrow> 'm pool_state \<Rightarrow> bool" where
  "pool_inv n cap lost s \<longleftrightarrow>
     wp_fetched s = wp_taken s @ wp_jobs s @ held (wp_poll s) @ lost
     \<and> mset (wp_taken s) = mset (wp_handled s) + busy (wp_workers s)
     \<and> length (wp_jobs s) \<le> cap \<and> length (wp_workers s) = n \<and> \<not> wp_panicked s
     \<and> (wp_closed s \<longrightarrow> wp_poll s = PollDone)
     \<and> (Exited \<in> set (wp_workers s) \<longrightarrow> wp_closed s \<and> wp_jobs s = [])
     \<and> (lost = [] \<or> wp_poll s = PollDone \<and> length lost = 1)
     \<and> (wp_closed s \<longleftrightarrow> (wp_stop s = Draining \<or> (\<exists>b. wp_stop s = Stopped b)))
     \<and> (wp_stop s \<noteq> NotStopped \<longrightarrow> wp_cancelled s)
     \<and> (wp_stop s = Stopped True \<longrightarrow> set (wp_workers s) \<subseteq> {Exited})"

lemma pool_inv_step:
  assumes "pool_inv n cap lost s" and "pool_step cap s s'"
  shows "\<exists>lost'. pool_inv n cap lost' s'"
  using assms(2)
proof (cases rule: pool_step.cases)
  case (fetch m)
  then show ?thesis using assms(1) by (intro exI [of _ lost]) (auto simp: pool_inv_def held_def)
next
  case fetch_ends
  then show ?thesis using assms(1) by (intro exI [of _ lost]) (auto simp: pool_inv_def held_def)
next
  case (send m)
  then show ?thesis using assms(1) by (intro exI [of _ lost]) (auto simp: pool_inv_def held_def)
next
  case (send_closed m)
  then show ?thesis using assms(1) by (simp add: pool_inv_def)
next
  case (leave m)
  then show ?thesis using assms(1) by (intro exI [of _ "[m]"]) (auto simp: pool_inv_def held_def)
next
  case (take_job i m ms)
  have "wp_workers s ! i \<in> set (wp_workers s)" using take_job(2) by simp
  then have "Exited \<notin> set (wp_workers s) " using take_job(3,4) assms(1) by (auto simp: pool_inv_def)
  then have "Exited \<notin> set ((wp_workers s)[i := Busy m])" using set_update_subset_insert [of "wp_workers s" i "Busy m"] by auto
  moreover have "wp_stop s \<noteq> Stopped True"
    using assms(1) take_job(2,3) unfolding pool_inv_def by (metis nth_mem singletonD subsetD worker.distinct(3))
  ultimately show ?thesis
    using assms(1) take_job by (intro exI [of _ lost]) (auto simp: pool_inv_def busy_update)
next
  case (handled i m)
  have b: "add_mset m (busy ((wp_workers s)[i := Idle])) = busy (wp_workers s)"
    using handled by (intro busy_update(1)) simp_all
  have "Exited \<in> set (wp_workers s)" if "Exited \<in> set ((wp_workers s)[i := Idle])"
    using that set_update_subset_insert [of "wp_workers s" i Idle] by auto
  moreover have "wp_stop s \<noteq> Stopped True"
    using assms(1) handled(2,3) unfolding pool_inv_def by (metis nth_mem singletonD subsetD worker.distinct(5))
  ultimately show ?thesis
    using assms(1) handled b by (intro exI [of _ lost]) (auto simp: pool_inv_def)
next
  case (exit_worker i)
  have "set ((wp_workers s)[i := Exited]) \<subseteq> {Exited}" if "set (wp_workers s) \<subseteq> {Exited}"
    using that set_update_subset_insert [of "wp_workers s" i Exited] by auto
  then show ?thesis
    using assms(1) exit_worker by (intro exI [of _ lost]) (auto simp: pool_inv_def busy_update)
next
  case cancel
  then show ?thesis using assms(1) by (intro exI [of _ lost]) (auto simp: pool_inv_def)
next
  case stop_polling
  then show ?thesis using assms(1) by (intro exI [of _ lost]) (auto simp: pool_inv_def)
next
  case close_jobs
  then show ?thesis using assms(1) by (intro exI [of _ lost]) (auto simp: pool_inv_def)
next
  case drained
  then show ?thesis using assms(1) by (intro exI [of _ lost]) (auto simp: pool_inv_def)
next
  case drain_timeout
  then show ?thesis using assms(1) by (intro exI [of _ lost]) (auto simp: pool_inv_def)
qed

lemma pool_inv_run:
  assumes "pool_run cap s s'" and "pool_inv n cap lost s"
  shows "\<exists>lost'. pool_inv n cap lost' s'"
  using assms
proof induction
  case (run_step s s1 s2)
  then show ?case using pool_inv_step by blast
qed blast

lemma pool_inv_start: "pool_inv (nat (wc_count cfg)) cap [] (pool_start cfg)"
proof -
  have "busy (replicate k Idle) = {#}" for k by (induction k) simp_all
  then show ?thesis by (simp add: pool_inv_def pool_start_def held_def)
qed

lemma pool_reachable_inv:
  assumes "pool_reachable cfg s"
  shows "\<exists>lost. pool_inv (nat (wc_count (pool_New cfg))) (jobs_capacity (pool_New cfg)) lost s"
  using pool_inv_run [OF _ pool_inv_start] assms unfolding pool_reachable_def by blast

text \<open>From any state in which Stop has been called, some run ends gracefully: a measure goes down.\<close>

definition worker_work :: "'m worker \<Rightarrow> nat" where
  "worker_work w = (case w of Exited \<Rightarrow> 0 | Idle \<Rightarrow> 1 | Busy _ \<Rightarrow> 2)"

definition work_left :: "'m pool_state \<Rightarrow> nat" where
  "work_left s = 2 * length (wp_jobs s) + sum_list (map worker_work (wp_workers s))
     + (case wp_poll s of PollDone \<Rightarrow> 0 | _ \<Rightarrow> 1) + (case wp_stop s of NotStopped \<Rightarrow> 3 | WaitPoll \<Rightarrow> 2 | Draining \<Rightarrow> 1 | Stopped _ \<Rightarrow> 0)"

lemma work_update:
  "i < length ws \<Longrightarrow> sum_list (map worker_work (ws[i := w])) + worker_work (ws ! i) = sum_list (map worker_work ws) + worker_work w"
  by (induction ws arbitrary: i) (auto split: nat.split)

lemma stop_progress:
  assumes "pool_inv n cap lost s" and "0 < n" and "wp_stop s \<in> {WaitPoll, Draining}"
  shows "\<exists>s'. pool_step cap s s' \<and> work_left s' < work_left s \<and> wp_stop s' \<in> {WaitPoll, Draining, Stopped True}"
proof -
  have result: ?thesis if "pool_step cap s s'" "work_left s' < work_left s" "wp_stop s' \<in> {WaitPoll, Draining, Stopped True}" for s'
    using that by blast
  have c: "wp_cancelled s" and st: "wp_closed s \<longleftrightarrow> wp_stop s = Draining" and len: "length (wp_workers s) = n"
    and closed: "wp_closed s \<longrightarrow> wp_poll s = PollDone" and idle: "Exited \<in> set (wp_workers s) \<longrightarrow> wp_closed s \<and> wp_jobs s = []"
    using assms(1,3) by (auto simp: pool_inv_def)
  consider (waiting) "wp_poll s \<noteq> PollDone" | (close) "wp_poll s = PollDone" "wp_stop s = WaitPoll"
    | (busy) i m where "wp_stop s = Draining" "i < n" "wp_workers s ! i = Busy m"
    | (idle) i where "wp_stop s = Draining" "i < n" "wp_workers s ! i = Idle"
    | (gone) "wp_stop s = Draining" "set (wp_workers s) \<subseteq> {Exited}"
  proof (cases "set (wp_workers s) \<subseteq> {Exited}")
    case True
    then show ?thesis using that assms(3) by blast
  next
    case False
    then obtain w where "w \<in> set (wp_workers s)" "w \<noteq> Exited" by auto
    then obtain i where "i < n" "wp_workers s ! i = w" "w \<noteq> Exited" using len by (auto simp: in_set_conv_nth)
    then show ?thesis using that assms(3) by (cases w) blast+
  qed
  then show ?thesis
  proof cases
    case waiting
    have "pool_step cap s (s\<lparr>wp_poll := PollDone\<rparr>)"
      using waiting c by (cases "wp_poll s") (auto intro: pool_step.intros)
    then show ?thesis
      by (rule result) (use waiting assms(3) in \<open>auto simp: work_left_def split: poller.splits\<close>)
  next
    case close
    then show ?thesis
      by (intro result [OF pool_step.close_jobs [OF close(2,1)]]) (auto simp: work_left_def)
  next
    case (busy i m)
    then have "i < length (wp_workers s)" using len by simp
    then show ?thesis
      using work_update [of i "wp_workers s" Idle] busy
      by (intro result [OF pool_step.handled [of i s m]]) (auto simp: work_left_def worker_work_def)
  next
    case (idle i)
    then have i: "i < length (wp_workers s)" using len by simp
    show ?thesis
    proof (cases "wp_jobs s")
      case Nil
      then show ?thesis
        using work_update [OF i, of Exited] idle(1,3) st
        by (intro result [OF pool_step.exit_worker [OF i idle(3) Nil]]) (auto simp: work_left_def worker_work_def)
    next
      case (Cons m ms)
      then show ?thesis
        using work_update [OF i, of "Busy m"] idle(1,3)
        by (intro result [OF pool_step.take_job [OF i idle(3) Cons]]) (auto simp: work_left_def worker_work_def)
    qed
  next
    case gone
    then show ?thesis
      by (intro result [OF pool_step.drained [OF gone]]) (auto simp: work_left_def)
  qed
qed

lemma pool_run_trans: "pool_run cap b c \<Longrightarrow> pool_run cap a b \<Longrightarrow> pool_run cap a c"
  by (induction rule: pool_run.induct) (auto intro: pool_run.intros)

lemma pool_run_one: "pool_step cap a b \<Longrightarrow> pool_run cap a b"
  by (rule run_step [OF run_refl])

lemma stop_finishes:
  assumes "pool_inv n cap lost s" and "0 < n" and "wp_stop s \<in> {WaitPoll, Draining}"
  shows "\<exists>s'. pool_run cap s s' \<and> wp_stop s' = Stopped True"
  using assms
proof (induction "work_left s" arbitrary: s lost rule: less_induct)
  case less
  obtain s1 where s1: "pool_step cap s s1" "work_left s1 < work_left s"
    "wp_stop s1 = Stopped True \<or> wp_stop s1 \<in> {WaitPoll, Draining}"
    using stop_progress [OF less.prems] by blast
  obtain lost' where inv: "pool_inv n cap lost' s1" using pool_inv_step [OF less.prems(1) s1(1)] by blast
  show ?case
  proof (cases "wp_stop s1 = Stopped True")
    case True
    then show ?thesis using pool_run_one [OF s1(1)] by blast
  next
    case False
    then obtain s2 where "pool_run cap s1 s2" "wp_stop s2 = Stopped True"
      using less.hyps [OF s1(2) inv less.prems(2)] s1(3) by blast
    then show ?thesis using pool_run_trans [OF _ pool_run_one [OF s1(1)]] by blast
  qed
qed

section \<open>Properties\<close>

text \<open>C13. The pool neither loses nor repeats a message, except one. In every reachable state the messages fetched so far are, in
  order, those workers have taken, those in the channel, the one the poller holds, and at most one that the poller gave up
  when it was told to end; what was taken is what was handled or is being handled; the channel is within its bound and
  never written after it is closed. After a graceful stop everything fetched was handled, but for that one message.\<close>
theorem pool_conserves_messages:
  assumes "pool_reachable cfg s"
  shows "\<exists>lost. wp_fetched s = wp_taken s @ wp_jobs s @ held (wp_poll s) @ lost \<and> length lost \<le> 1
    \<and> mset (wp_taken s) = mset (wp_handled s) + busy (wp_workers s)
    \<and> int (length (wp_jobs s)) \<le> 2 * wc_count (pool_New cfg) \<and> \<not> wp_panicked s
    \<and> (if wp_stop s = Stopped True then mset (wp_fetched s) = mset (wp_handled s) + mset lost
       else length (wp_workers s) = nat (wc_count (pool_New cfg)))"
proof -
  obtain lost where inv: "pool_inv (nat (wc_count (pool_New cfg))) (jobs_capacity (pool_New cfg)) lost s"
    using pool_reachable_inv [OF assms] by blast
  have end': "mset (wp_fetched s) = mset (wp_handled s) + mset lost" if "wp_stop s = Stopped True"
  proof -
    have exited: "set (wp_workers s) \<subseteq> {Exited}" and "wp_closed s"
      using inv that by (auto simp: pool_inv_def)
    then have "wp_poll s = PollDone" and "length (wp_workers s) = nat (wc_count (pool_New cfg))"
      using inv by (auto simp: pool_inv_def)
    moreover have "0 < wc_count (pool_New cfg)" by (simp add: pool_New_def)
    ultimately have "wp_workers s \<noteq> []" by auto
    then have "Exited \<in> set (wp_workers s)" using exited by (cases "wp_workers s") auto
    then have "wp_jobs s = []" using inv by (auto simp: pool_inv_def)
    then show ?thesis
      using inv busy_exited [OF exited] \<open>wp_poll s = PollDone\<close> by (auto simp: pool_inv_def held_def)
  qed
  show ?thesis
    using inv end' by (intro exI [of _ lost]) (auto simp: pool_inv_def jobs_capacity_def pool_New_def)
qed

definition sample_pool :: pool_config where
  "sample_pool = \<lparr>wc_count = 1, wc_drain = 0\<rparr>"

lemma sample_pool_runs:
  fixes m :: 'm
  shows "\<exists>s. pool_reachable sample_pool s \<and> wp_stop s = Stopped True \<and> wp_fetched s = [m] \<and> wp_taken s = [] \<and> wp_handled s = []"
proof -
  let ?cap = "jobs_capacity (pool_New sample_pool)"
  define s0 :: "'m pool_state" where "s0 = pool_start (pool_New sample_pool)"
  define s1 where "s1 = s0\<lparr>wp_poll := Holding m, wp_fetched := wp_fetched s0 @ [m]\<rparr>"
  define s2 where "s2 = s1\<lparr>wp_cancelled := True, wp_stop := WaitPoll\<rparr>"
  define s3 where "s3 = s2\<lparr>wp_poll := PollDone\<rparr>"
  define s4 where "s4 = s3\<lparr>wp_closed := True, wp_stop := Draining\<rparr>"
  define s5 where "s5 = s4\<lparr>wp_workers := (wp_workers s4)[0 := Exited]\<rparr>"
  define s6 where "s6 = s5\<lparr>wp_stop := Stopped True\<rparr>"
  note defs = s6_def s5_def s4_def s3_def s2_def s1_def s0_def pool_start_def pool_New_def sample_pool_def
  have "pool_step ?cap s0 s1" unfolding s1_def by (rule pool_step.fetch) (simp add: defs)
  moreover have "pool_step ?cap s1 s2" unfolding s2_def by (rule pool_step.stop_polling) (simp add: defs)
  moreover have "pool_step ?cap s2 s3" unfolding s3_def by (rule pool_step.leave) (simp_all add: defs)
  moreover have "pool_step ?cap s3 s4" unfolding s4_def by (rule pool_step.close_jobs) (simp_all add: defs)
  moreover have "pool_step ?cap s4 s5" unfolding s5_def by (rule pool_step.exit_worker) (simp_all add: defs)
  moreover have "pool_step ?cap s5 s6" unfolding s6_def by (rule pool_step.drained) (simp_all add: defs)
  ultimately have "pool_run ?cap s0 s6" by (meson run_refl run_step)
  then have "pool_reachable sample_pool s6" by (simp add: pool_reachable_def s0_def)
  moreover have "wp_stop s6 = Stopped True" "wp_fetched s6 = [m]" "wp_taken s6 = []" "wp_handled s6 = []"
    by (simp_all add: defs)
  ultimately show ?thesis by blast
qed

theorem pool_conserves_messages_witness:
  "\<exists>s lost. pool_reachable sample_pool s \<and> wp_stop s = Stopped True
     \<and> mset (wp_fetched s) = mset (wp_handled s) + mset lost \<and> lost = [''m'']"
proof -
  obtain s where s: "pool_reachable sample_pool s" "wp_stop s = Stopped True" "wp_fetched s = [''m'']" "wp_handled s = []"
    using sample_pool_runs [of "''m''"] by (elim exE conjE)
  obtain lost where l: "mset (wp_fetched s) = mset (wp_handled s) + mset lost"
    using pool_conserves_messages [OF s(1)] unfolding s(2) by (simp only: if_True simp_thms) blast
  then have "lost = [''m'']" by (simp add: s(3,4))
  then show ?thesis using s(1,2) l by blast
qed

text \<open>A stop can always be graceful. From every state the pool can be in after Stop was called and before it returned, with
  messages held, waiting or being handled in any way, the goroutines can run on until the workers have all ended: none of
  them waits for another for ever, so Stop reaches its timeout only if handlers take too long.\<close>
theorem pool_stop_ends:
  assumes "pool_reachable cfg s" and "wp_stop s = WaitPoll \<or> wp_stop s = Draining"
  shows "\<exists>s'. pool_reachable cfg s' \<and> pool_run (jobs_capacity (pool_New cfg)) s s' \<and> wp_stop s' = Stopped True"
proof -
  obtain lost where inv: "pool_inv (nat (wc_count (pool_New cfg))) (jobs_capacity (pool_New cfg)) lost s"
    using pool_reachable_inv [OF assms(1)] by blast
  have "0 < nat (wc_count (pool_New cfg))" by (simp add: pool_New_def)
  then obtain s' where "pool_run (jobs_capacity (pool_New cfg)) s s'" "wp_stop s' = Stopped True"
    using stop_finishes [OF inv] assms(2) by blast
  then show ?thesis using assms(1) pool_run_trans unfolding pool_reachable_def by blast
qed

theorem pool_stop_ends_witness:
  "\<exists>s s' :: string pool_state. wp_stop s = WaitPoll \<and> pool_run (jobs_capacity (pool_New sample_pool)) s s' \<and> wp_stop s' = Stopped True"
proof -
  define s0 :: "string pool_state" where "s0 = pool_start (pool_New sample_pool)"
  have "pool_step (jobs_capacity (pool_New sample_pool)) s0 (s0\<lparr>wp_cancelled := True, wp_stop := WaitPoll\<rparr>)"
    by (rule pool_step.stop_polling) (simp add: s0_def pool_start_def)
  then have "pool_reachable sample_pool (s0\<lparr>wp_cancelled := True, wp_stop := WaitPoll\<rparr>)"
    unfolding pool_reachable_def s0_def by (rule pool_run_one)
  from pool_stop_ends [OF this] obtain s' where
    "pool_run (jobs_capacity (pool_New sample_pool)) (s0\<lparr>wp_cancelled := True, wp_stop := WaitPoll\<rparr>) s'" "wp_stop s' = Stopped True"
    by auto
  then show ?thesis by (intro exI [of _ "s0\<lparr>wp_cancelled := True, wp_stop := WaitPoll\<rparr>"] exI [of _ s']) simp
qed

text \<open>Stopping a stage that reads from the priority queue can lose a job. The consumer of that queue takes the entry out of
  Redis when it fetches it, and its commit does nothing. For every message it has fetched there is a run of the pool that
  ends with a graceful stop, in which the message was fetched and no worker ever got it: the poller chose the cancelled
  context over the channel. The id is no longer in the queue and its payload is deleted, so nothing can deliver it again.\<close>
theorem stop_loses_popped_job:
  assumes "zredis_ok (cl_redis E)" and "NewPriorityZSetQueue zcfg = Inr q" and "alone E t" and "\<forall>n. ze_ctx E n = None"
    and "FetchMessage E q topic s = Some (Inr m, s')"
  shows "m_key m \<notin> snd ` set (rd_zall (cl_redis E) (zq_key q) (cl_db s'))
    \<and> (\<forall>t'. rd_get (cl_redis E) t' (zq_entry q @ m_key m) (cl_db s') = None)
    \<and> (\<exists>p. pool_reachable sample_pool p \<and> wp_stop p = Stopped True \<and> wp_fetched p = [m] \<and> wp_taken p = [] \<and> wp_handled p = [])"
proof -
  let ?live = "first_live (\<lambda>i. rd_get (cl_redis E) t (zq_entry q @ i) (cl_db s)) (rd_zall (cl_redis E) (zq_key q) (cl_db s))"
  have "?live \<noteq> None" by (rule FetchMessage_waits [OF assms(5,3,4,1)]) (simp add: zset_keys(1) [OF assms(2)])
  then obtain i payload where "?live = Some (i, payload)" by auto
  then obtain m1 s1 where "FetchMessage E q topic s = Some (Inr m1, s1)" "m_key m1 = i"
    "\<forall>m' \<in> snd ` set (rd_zall (cl_redis E) (zq_key q) (cl_db s1)). m' \<noteq> i"
    "\<forall>t'. rd_get (cl_redis E) t' (zq_entry q @ i) (cl_db s1) = None"
    using FetchMessage_finds [OF assms(3,4,1) zset_keys(1) [OF assms(2)] refl, of s i payload topic] by auto
  then show ?thesis using assms(5) sample_pool_runs [of m] by auto
qed

theorem stop_loses_popped_job_witness:
  "\<exists>m s'. FetchMessage (sample_intake 5 (\<lambda>_. PipeOk)) sample_zq ''t''
        \<lparr>cl_step = 0, cl_db = ref_setx 0 ''v:entry:m'' ''p'' 10 (ref_zadd ''v:queue'' 7 ''m'' ref_empty)\<rparr> = Some (Inr m, s')
     \<and> ref_get 5 ''v:entry:m'' (cl_db s') = None
     \<and> (\<exists>p. pool_reachable sample_pool p \<and> wp_stop p = Stopped True \<and> wp_fetched p = [m] \<and> wp_taken p = [])"
proof -
  define E where "E = sample_intake 5 (\<lambda>_. PipeOk)"
  define s where "s = \<lparr>cl_step = 0, cl_db = ref_setx 0 ''v:entry:m'' ''p'' 10 (ref_zadd ''v:queue'' 7 ''m'' ref_empty)\<rparr>"
  have E: "zredis_ok (cl_redis E)" "alone E 5" "\<forall>n. ze_ctx E n = None" "cl_redis E = ref_zops"
    by (simp_all add: E_def sample_intake_simps ref_zops_ok)
  have z: "rd_zall ref_zops (zq_key sample_zq) (cl_db s) = [(7, ''m'')]"
    "rd_get ref_zops 5 (zq_entry sample_zq @ ''m'') (cl_db s) = Some ''p''"
    unfolding s_def by (simp_all add: sample_store sample_zq_def)
      (simp_all add: ref_zops_def ref_zadd_def ref_string_defs ref_empty_def ref_zput_def ref_zall_def)
  obtain m s' where f: "FetchMessage E sample_zq ''t'' s = Some (Inr m, s')" "m_key m = ''m''"
    using FetchMessage_finds [OF E(2,3,1) zset_keys(1) [OF sample_zq_new] z(1) [folded E(4)], of "''m''" "''p''" "''t''"]
    by (auto simp: E(4) z)
  have "ref_get 5 ''v:entry:m'' (cl_db s') = rd_get ref_zops 5 (zq_entry sample_zq @ m_key m) (cl_db s')"
    by (simp add: ref_zops_def sample_zq_def f(2))
  then show ?thesis
    using stop_loses_popped_job [OF E(1) sample_zq_new E(2,3) f(1)] f(1)
    unfolding E_def [symmetric] s_def [symmetric] E(4) by auto
qed

end
