(* ===== verification/JobBuffer.thy ===== *)
theory JobBuffer
  imports Bus RedisClient
begin

text \<open>
  The job buffer: normal and low priority messages wait in a Redis list
  (\<^verbatim>\<open>pkg/redis/job_buffer.go\<close>), the producer that puts them there
  (\<^verbatim>\<open>pkg/queue/buffering_producer.go\<close>, codec of \<^verbatim>\<open>buffered_message.go\<close>), and the
  drainer that moves them to Kafka while the backlog allows it
  (\<^verbatim>\<open>internal/scheduler/buffer_drainer.go\<close>). The JSON codec is a parameter. The tail of the
  Redis list is the oldest entry.
\<close>

section \<open>The environment\<close>

text \<open>
  \<open>jb_publish n msgs\<close> is the answer of the Kafka producer and what it has kept. Ranging over a
  Go map visits its keys in an order \<open>jb_range n\<close> decides.
\<close>

record drain_config =
  dc_interval :: duration
  dc_target :: int
  dc_batch :: int
  dc_max_len :: int
  dc_group :: string

record 'r jb_env = "'r client_env" +
  jb_publish :: "nat \<Rightarrow> message list \<Rightarrow> go_error option \<times> message list"
  jb_encode :: "gotime \<Rightarrow> message \<Rightarrow> go_error + bytes"
  jb_decode :: "bytes \<Rightarrow> message option"
  jb_job :: "bytes \<Rightarrow> crawl_job option"
  jb_retry :: "(nat \<Rightarrow> crawl_job \<Rightarrow> go_error option) option"
  jb_backlog :: "nat \<Rightarrow> string \<Rightarrow> go_error + int"
  jb_range :: "nat \<Rightarrow> string list \<Rightarrow> string list"
  jb_leader :: "(string \<times> duration) option"
  jb_rnd :: "nat \<Rightarrow> go_error + string"
  jb_cfg :: drain_config

record 'r jb_state = "'r client_state" +
  js_sent :: "message list"
  js_retried :: "crawl_job list"
  js_token :: string

section \<open>The Redis list\<close>

definition JobBufferKey :: "string \<Rightarrow> string" where
  "JobBufferKey label = ''publisher:buffer:'' @ label"

fun empty_index :: "nat \<Rightarrow> bytes list \<Rightarrow> nat option" where
  "empty_index i [] = None"
| "empty_index i (p # ps) = (if p = [] then Some i else empty_index (Suc i) ps)"

definition EnqueueBatch ::
  "('r, 'e) client_env_scheme \<Rightarrow> string \<Rightarrow> bytes list \<Rightarrow> int \<Rightarrow> ('r, 's) client_state_scheme
     \<Rightarrow> go_error option \<times> ('r, 's) client_state_scheme" where
  "EnqueueBatch E label payloads maxLen s =
     (if label = [] then (Some (Opaque ''enqueue batch: empty label''), s)
      else if payloads = [] then (None, s)
      else
        let key = JobBufferKey label
        in case empty_index 0 payloads of
             Some i \<Rightarrow> (Some (Opaque (''enqueue batch '' @ label @ '': empty payload at index '' @ int_text (int i))), s)
           | None \<Rightarrow>
              (case run_pipe E
                 ((\<lambda>_. rd_lpush (cl_redis E) key payloads)
                   # (if maxLen > 0 then [\<lambda>_. rd_lcut (cl_redis E) key (nat maxLen)] else [])) s of
                 (Some err, s1) \<Rightarrow> (Some (Wrapped (''enqueue batch '' @ label) err), s1)
               | (None, s1) \<Rightarrow> (None, s1)))"

definition EnqueueJob ::
  "('r, 'e) client_env_scheme \<Rightarrow> string \<Rightarrow> bytes \<Rightarrow> int \<Rightarrow> ('r, 's) client_state_scheme
     \<Rightarrow> go_error option \<times> ('r, 's) client_state_scheme" where
  "EnqueueJob E label payload maxLen s =
     (if payload = [] then (Some (Opaque (''enqueue job '' @ label @ '': empty payload'')), s)
      else EnqueueBatch E label [payload] maxLen s)"

definition DrainJobs ::
  "('r, 'e) client_env_scheme \<Rightarrow> string \<Rightarrow> int \<Rightarrow> ('r, 's) client_state_scheme
     \<Rightarrow> (go_error + bytes list) \<times> ('r, 's) client_state_scheme" where
  "DrainJobs E label n s =
     (if n \<le> 0 then (Inr [], s)
      else if label = [] then (Inl (Opaque ''drain jobs: empty label''), s)
      else (case run_query E (\<lambda>_. rd_rpop (cl_redis E) (JobBufferKey label) (nat n)) s of
              (Inl err, s1) \<Rightarrow> (Inl (Wrapped (''drain jobs '' @ label) err), s1)
            | (Inr res, s1) \<Rightarrow> (Inr res, s1)))"

definition JobBufferLen ::
  "('r, 'e) client_env_scheme \<Rightarrow> string \<Rightarrow> ('r, 's) client_state_scheme
     \<Rightarrow> (go_error + int) \<times> ('r, 's) client_state_scheme" where
  "JobBufferLen E label s =
     (if label = [] then (Inl (Opaque ''job buffer len: empty label''), s)
      else (case run_query E (\<lambda>_ r. (int (length (rd_lall (cl_redis E) (JobBufferKey label) r)), r)) s of
              (Inl err, s1) \<Rightarrow> (Inl (Wrapped (''llen '' @ JobBufferKey label) err), s1)
            | (Inr n, s1) \<Rightarrow> (Inr n, s1)))"

section \<open>The buffering producer\<close>

definition labelForTopic :: "string \<Rightarrow> string" where
  "labelForTopic topic =
     (if topic = TopicCrawlNormal then ''normal''
      else if topic = TopicCrawlLow then ''low''
      else [])"

definition underlying_publish ::
  "'r jb_env \<Rightarrow> message list \<Rightarrow> 'r jb_state \<Rightarrow> go_error option \<times> 'r jb_state" where
  "underlying_publish E msgs s =
     (let s1 = cl_elapse E s; (err, kept) = jb_publish E (cl_step s1) msgs
      in (err, s1\<lparr>js_sent := js_sent s1 @ kept\<rparr>))"

definition encodeBufferedMessage :: "'r jb_env \<Rightarrow> gotime \<Rightarrow> message \<Rightarrow> go_error + bytes" where
  "encodeBufferedMessage E now msg =
     (case jb_encode E now msg of
        Inl err \<Rightarrow> Inl (Wrapped ''encode buffered message'' err)
      | Inr data \<Rightarrow> Inr data)"

definition buffering_Publish ::
  "'r jb_env \<Rightarrow> int \<Rightarrow> message \<Rightarrow> 'r jb_state \<Rightarrow> go_error option \<times> 'r jb_state" where
  "buffering_Publish E maxLen msg s =
     (let label = labelForTopic (m_topic msg)
      in if label = [] then underlying_publish E [msg] s
         else (case encodeBufferedMessage E (cl_now E s) msg of
                 Inl _ \<Rightarrow> underlying_publish E [msg] s
               | Inr payload \<Rightarrow>
                  (case EnqueueJob E label payload maxLen s of
                     (Some _, s1) \<Rightarrow> underlying_publish E [msg] s1
                   | (None, s1) \<Rightarrow> (None, s1))))"

text \<open>
  The grouping pass: the messages to publish directly and, per label, the buffered items in order.
\<close>

fun group_messages ::
  "'r jb_env \<Rightarrow> gotime \<Rightarrow> message list \<Rightarrow> message list \<times> (string \<Rightarrow> (message \<times> bytes) list)" where
  "group_messages E now [] = ([], (\<lambda>_. []))"
| "group_messages E now (msg # msgs) =
     (let (direct, byLabel) = group_messages E now msgs; label = labelForTopic (m_topic msg)
      in if label = [] then (msg # direct, byLabel)
         else (case encodeBufferedMessage E now msg of
                 Inl _ \<Rightarrow> (msg # direct, byLabel)
               | Inr payload \<Rightarrow> (direct, byLabel(label := (msg, payload) # byLabel label))))"

fun enqueue_labels ::
  "'r jb_env \<Rightarrow> int \<Rightarrow> (string \<Rightarrow> (message \<times> bytes) list) \<Rightarrow> string list \<Rightarrow> message list \<Rightarrow> 'r jb_state
     \<Rightarrow> message list \<times> 'r jb_state" where
  "enqueue_labels E maxLen byLabel [] direct s = (direct, s)"
| "enqueue_labels E maxLen byLabel (label # labels) direct s =
     (case EnqueueBatch E label (map snd (byLabel label)) maxLen s of
        (Some _, s1) \<Rightarrow> enqueue_labels E maxLen byLabel labels (direct @ map fst (byLabel label)) s1
      | (None, s1) \<Rightarrow> enqueue_labels E maxLen byLabel labels direct s1)"

definition buffering_PublishBatch ::
  "'r jb_env \<Rightarrow> int \<Rightarrow> message list \<Rightarrow> 'r jb_state \<Rightarrow> go_error option \<times> 'r jb_state" where
  "buffering_PublishBatch E maxLen msgs s =
     (if msgs = [] then (None, s)
      else
        let (direct0, byLabel) = group_messages E (cl_now E s) msgs;
            labels = jb_range E (cl_step s) (filter (\<lambda>l. byLabel l \<noteq> []) [''normal'', ''low'']);
            (direct, s1) = enqueue_labels E maxLen byLabel labels direct0 s
        in if direct = [] then (None, s1)
           else (case underlying_publish E direct s1 of
                   (Some err, s2) \<Rightarrow>
                     (Some (Wrapped (''buffering producer direct batch ('' @ int_text (int (length direct)) @ '' msgs)'') err), s2)
                 | (None, s2) \<Rightarrow> (None, s2)))"

section \<open>The drainer\<close>

definition NewBufferDrainer :: "drain_config \<Rightarrow> drain_config" where
  "NewBufferDrainer cfg =
     cfg\<lparr>dc_interval := (if dc_interval cfg \<le> 0 then 30 * second else dc_interval cfg),
         dc_batch := (if dc_batch cfg \<le> 0 then 100 else dc_batch cfg),
         dc_target := (if dc_target cfg \<le> 0 then 3000 else dc_target cfg),
         dc_group := (if dc_group cfg = [] then ''issuetracker-crawler-workers'' else dc_group cfg)\<rparr>"

text \<open>
  \<open>msgs\<close> are the messages that could be decoded, \<open>payloads\<close> all that were drained; the code
  indexes both with the same \<open>i\<close>.
\<close>

fun dispatch_loop ::
  "'r jb_env \<Rightarrow> (nat \<Rightarrow> crawl_job \<Rightarrow> go_error option) \<Rightarrow> bytes list \<Rightarrow> nat \<Rightarrow> message list \<Rightarrow> 'r jb_state
     \<Rightarrow> bytes list \<times> 'r jb_state" where
  "dispatch_loop E enq payloads i [] s = ([], s)"
| "dispatch_loop E enq payloads i (msg # msgs) s =
     (let again = (if i < length payloads then [payloads ! i] else [])
      in case jb_job E (m_value msg) of
           None \<Rightarrow> (let (failed, s') = dispatch_loop E enq payloads (Suc i) msgs s in (again @ failed, s'))
         | Some job \<Rightarrow>
             let s1 = cl_elapse E s
             in case enq (cl_step s1) job of
                  Some _ \<Rightarrow> (let (failed, s') = dispatch_loop E enq payloads (Suc i) msgs s1 in (again @ failed, s'))
                | None \<Rightarrow> dispatch_loop E enq payloads (Suc i) msgs (s1\<lparr>js_retried := js_retried s1 @ [job]\<rparr>))"

definition dispatchToRetry ::
  "'r jb_env \<Rightarrow> (nat \<Rightarrow> crawl_job \<Rightarrow> go_error option) \<Rightarrow> message list \<Rightarrow> bytes list \<Rightarrow> string \<Rightarrow> 'r jb_state \<Rightarrow> 'r jb_state" where
  "dispatchToRetry E enq msgs payloads label s =
     (let (failedPayloads, s1) = dispatch_loop E enq payloads 0 msgs s
      in if failedPayloads \<noteq> [] then snd (EnqueueBatch E label failedPayloads (dc_max_len (jb_cfg E)) s1)
         else s1)"

definition decoded :: "'r jb_env \<Rightarrow> bytes list \<Rightarrow> message list" where
  "decoded E payloads = List.map_filter (jb_decode E) payloads"

definition publish_drained ::
  "'r jb_env \<Rightarrow> string \<Rightarrow> string \<Rightarrow> bytes list \<Rightarrow> 'r jb_state \<Rightarrow> go_error option \<times> 'r jb_state" where
  "publish_drained E label topic payloads s =
     (let msgs = decoded E payloads
      in if msgs = [] then (None, s)
         else (case underlying_publish E msgs s of
                 (None, s1) \<Rightarrow> (None, s1)
               | (Some pubErr, s1) \<Rightarrow>
                   (Some (Wrapped (''publish batch '' @ topic) pubErr),
                    case jb_retry E of
                      Some enq \<Rightarrow> dispatchToRetry E enq msgs payloads label s1
                    | None \<Rightarrow> snd (EnqueueBatch E label payloads (dc_max_len (jb_cfg E)) s1))))"

definition drainOnce ::
  "'r jb_env \<Rightarrow> string \<Rightarrow> string \<Rightarrow> 'r jb_state \<Rightarrow> go_error option \<times> 'r jb_state" where
  "drainOnce E label topic s0 =
     (let s = cl_elapse E s0
      in case jb_backlog E (cl_step s) topic of
           Inl err \<Rightarrow> (Some (Wrapped (''backlog check for '' @ topic) err), s)
         | Inr backlog \<Rightarrow>
            let available = dc_target (jb_cfg E) - backlog
            in if available \<le> 0 then (None, s)
               else (case JobBufferLen E label s of
                  (Inl err, s1) \<Rightarrow> (Some (Wrapped (''buffer len '' @ label) err), s1)
                | (Inr bufLen, s1) \<Rightarrow>
                    if bufLen = 0 then (None, s1)
                    else
                      let n = min bufLen (min (dc_batch (jb_cfg E)) available)
                      in case DrainJobs E label n s1 of
                           (Inl err, s2) \<Rightarrow> (Some (Wrapped (''drain '' @ label) err), s2)
                         | (Inr payloads, s2) \<Rightarrow>
                             if payloads = [] then (None, s2)
                             else publish_drained E label topic payloads s2))"

definition drainTargets :: "(string \<times> string) list" where
  "drainTargets = [(''normal'', TopicCrawlNormal), (''low'', TopicCrawlLow)]"

definition pipe_delivery :: "pipe \<Rightarrow> delivery" where
  "pipe_delivery p = (case p of PipeOk \<Rightarrow> Answered | PipeFail k e \<Rightarrow> if k = 0 then NotSent e else ReplyLost e)"

definition drain_targets :: "'r jb_env \<Rightarrow> 'r jb_state \<Rightarrow> 'r jb_state" where
  "drain_targets E s = fold (\<lambda>(label, topic) s. snd (drainOnce E label topic s)) drainTargets s"

definition drainAll :: "'r jb_env \<Rightarrow> 'r jb_state \<Rightarrow> 'r jb_state" where
  "drainAll E s =
     (case jb_leader E of
        None \<Rightarrow> drain_targets E s
      | Some (role, ttl) \<Rightarrow>
         let s1 = cl_elapse E s;
             (v, (tok, r)) = leader_try_acquire (cl_redis E) role ttl (jb_rnd E (cl_step s1))
                (pipe_delivery (cl_pipe E (cl_step s1))) (cl_now E s1) (js_token s1, cl_db s1);
             s2 = s1\<lparr>js_token := tok, cl_db := r\<rparr>
         in if v \<noteq> Inr True then s2
            else
              let s3 = cl_elapse E (drain_targets E s2);
                  (_, (tok', r')) = leader_release (cl_redis E) role (pipe_delivery (cl_pipe E (cl_step s3)))
                     (cl_now E s3) (js_token s3, cl_db s3)
              in s3\<lparr>js_token := tok', cl_db := r'\<rparr>)"

section \<open>The buffer as a queue\<close>

text \<open>The buffered payloads of a label, the oldest first.\<close>

definition buffered :: "'r zredis_ops \<Rightarrow> string \<Rightarrow> 'r \<Rightarrow> bytes list" where
  "buffered R label r = rev (rd_lall R (JobBufferKey label) r)"

definition last_n :: "int \<Rightarrow> bytes list \<Rightarrow> bytes list" where
  "last_n n xs = (if n \<le> 0 then xs else drop (length xs - nat n) xs)"

lemma last_n_all: "n \<le> 0 \<or> int (length xs) \<le> n \<Longrightarrow> last_n n xs = xs"
  by (auto simp: last_n_def)

lemma last_n_length: "0 < n \<Longrightarrow> int (length (last_n n xs)) \<le> n"
  by (auto simp: last_n_def)

lemma key_inj_label [simp]: "JobBufferKey a = JobBufferKey b \<longleftrightarrow> a = b"
  by (simp add: JobBufferKey_def)

lemma empty_index_none: "empty_index i ps = None \<longleftrightarrow> [] \<notin> set ps"
  by (induction ps arbitrary: i) auto

lemma push_buffered:
  assumes "lredis_ok R"
  shows "buffered R l (rd_lpush R (JobBufferKey label) ps r) = (if l = label then buffered R l r @ ps else buffered R l r)"
    and "0 < n \<Longrightarrow> buffered R l (rd_lcut R (JobBufferKey label) (nat n) r)
      = (if l = label then last_n n (buffered R l r) else buffered R l r)"
  by (simp_all add: buffered_def last_n_def redis_lists.l_push [OF assms] redis_lists.l_cut [OF assms] rev_take)

text \<open>Whatever happens to the pipeline, other labels keep their payloads; without a limit the label gets none or all.\<close>

lemma EnqueueBatch_effect:
  assumes R: "lredis_ok (cl_redis E)" and U: "undisturbed E t" and call: "EnqueueBatch E label ps mx s = (e, s')"
  shows "client_state.more s' = client_state.more s
    \<and> (\<forall>l. l \<noteq> label \<longrightarrow> buffered (cl_redis E) l (cl_db s') = buffered (cl_redis E) l (cl_db s))
    \<and> (e = None \<longrightarrow> buffered (cl_redis E) label (cl_db s')
          = (if ps = [] then buffered (cl_redis E) label (cl_db s) else last_n mx (buffered (cl_redis E) label (cl_db s) @ ps)))
    \<and> (mx \<le> 0 \<longrightarrow> set (buffered (cl_redis E) label (cl_db s)) \<subseteq> set (buffered (cl_redis E) label (cl_db s')))"
proof (cases "label = [] \<or> ps = [] \<or> [] \<in> set ps")
  case True
  then show ?thesis
    using call empty_index_none [of 0 ps] by (auto simp: EnqueueBatch_def Let_def split: if_splits option.splits)
next
  case False
  let ?key = "JobBufferKey label"
  let ?cmds = "(\<lambda>_::gotime. rd_lpush (cl_redis E) ?key ps) # (if mx > 0 then [\<lambda>_::gotime. rd_lcut (cl_redis E) ?key (nat mx)] else [])"
  obtain e0 s0 where p: "run_pipe E ?cmds s = (e0, s0)" by (rule prod.exhaust)
  have c: "label \<noteq> []" "ps \<noteq> []" "empty_index 0 ps = None"
    using False empty_index_none [of 0 ps] by auto
  have "(e, s') = EnqueueBatch E label ps mx s"
    using call by (rule sym)
  also have "\<dots> = (map_option (Wrapped (''enqueue batch '' @ label)) e0, s0)"
    unfolding EnqueueBatch_def Let_def by (subst p) (cases e0; simp only: c if_False option.case prod.case option.map)
  finally have s': "s' = s0" "e = None \<longleftrightarrow> e0 = None"
    by simp_all
  obtain k where k: "cl_db s0 = fold (\<lambda>c. c t) (take k ?cmds) (cl_db s)" "e0 = None \<longrightarrow> length ?cmds \<le> k"
    using run_pipe_db [OF U p] by blast
  have m: "client_state.more s' = client_state.more s"
    using s'(1) run_pipe_more [OF p] by simp
  have ne: "ps \<noteq> []"
    using False by simp
  let ?B = "\<lambda>l r. buffered (cl_redis E) l r"
  have "(\<forall>l. l \<noteq> label \<longrightarrow> ?B l (cl_db s0) = ?B l (cl_db s))
    \<and> (e0 = None \<longrightarrow> ?B label (cl_db s0) = last_n mx (?B label (cl_db s) @ ps))
    \<and> (mx \<le> 0 \<longrightarrow> set (?B label (cl_db s)) \<subseteq> set (?B label (cl_db s0)))"
  proof (cases "mx > 0")
    case True
    consider "k = 0" | "k = Suc 0" | n where "k = Suc (Suc n)"
      by (metis not0_implies_Suc)
    then show ?thesis
    proof cases
      case 1
      then show ?thesis using k True by auto
    next
      case 2
      then show ?thesis using k True by (auto simp: push_buffered(1) [OF R])
    next
      case 3
      then show ?thesis using k True by (simp add: push_buffered [OF R])
    qed
  next
    case False
    then show ?thesis
      using k by (cases k) (auto simp: push_buffered(1) [OF R] last_n_def)
  qed
  then show ?thesis
    using m ne s' by simp
qed

lemma DrainJobs_alone:
  assumes R: "lredis_ok (cl_redis E)" and A: "alone E t" and "0 < n" and "label \<noteq> []"
  shows "\<exists>s'. DrainJobs E label n s = (Inr (take (nat n) (buffered (cl_redis E) label (cl_db s))), s')
    \<and> client_state.more s' = client_state.more s
    \<and> (\<forall>l. buffered (cl_redis E) l (cl_db s')
          = (if l = label then drop (nat n) (buffered (cl_redis E) l (cl_db s)) else buffered (cl_redis E) l (cl_db s)))"
  using assms(3,4)
  by (simp add: DrainJobs_def alone_run [OF A] buffered_def redis_lists.l_pop [OF R] redis_lists.l_pop_rest [OF R])

lemma EnqueueBatch_alone:
  assumes R: "lredis_ok (cl_redis E)" and A: "alone E t" and "label \<noteq> []" and "[] \<notin> set ps"
  shows "\<exists>s'. EnqueueBatch E label ps mx s = (None, s') \<and> client_state.more s' = client_state.more s
    \<and> (\<forall>l. buffered (cl_redis E) l (cl_db s')
          = (if l = label \<and> ps \<noteq> [] then last_n mx (buffered (cl_redis E) l (cl_db s) @ ps) else buffered (cl_redis E) l (cl_db s)))"
proof -
  obtain e s' where call: "EnqueueBatch E label ps mx s = (e, s')" by (rule prod.exhaust)
  have "e = None"
    using call assms(3,4) empty_index_none [of 0 ps]
    by (auto simp: EnqueueBatch_def run_pipe_def alone_run [OF A] Let_def split: if_splits option.splits)
  then show ?thesis
    using call EnqueueBatch_effect [OF R alone_undisturbed [OF A] call] by auto
qed

section \<open>What a round of the drainer keeps\<close>

lemma js_fields:
  fixes s :: "'r jb_state"
  assumes "client_state.more s' = client_state.more s"
  shows "js_sent s' = js_sent s" "js_retried s' = js_retried s" "js_token s' = js_token s"
  using assms by (cases s; cases s'; simp)+

lemma map_filter_total: "\<forall>x\<in>set xs. f x \<noteq> None \<Longrightarrow> List.map_filter f xs = map (\<lambda>x. the (f x)) xs"
  by (induction xs) (auto simp: List.map_filter_def)

lemma dispatch_loop_keeps:
  assumes "alone E t" and "dispatch_loop E enq ps i msgs s = (failed, s')" and "i + length msgs = length ps"
  shows "cl_db s' = cl_db s \<and> js_sent s' = js_sent s \<and> set failed \<subseteq> set ps \<and> length failed \<le> length msgs
    \<and> set (js_retried s) \<subseteq> set (js_retried s')
    \<and> (\<forall>j<length msgs. ps ! (i + j) \<in> set failed
          \<or> (\<exists>job. jb_job E (m_value (msgs ! j)) = Some job \<and> job \<in> set (js_retried s')))"
  using assms(2,3)
proof (induction msgs arbitrary: i s failed)
  case Nil
  then show ?case by simp
next
  case (Cons msg msgs)
  let ?s1 = "cl_elapse E s"
  have s1: "cl_db ?s1 = cl_db s" "js_sent ?s1 = js_sent s" "js_retried ?s1 = js_retried s"
    by (simp_all add: alone_run [OF assms(1)])
  have i: "i < length ps" "Suc i + length msgs = length ps" using Cons.prems(2) by simp_all
  have shift: "(\<forall>j<length (msg # msgs). P j) \<longleftrightarrow> P 0 \<and> (\<forall>j<length msgs. P (Suc j))" for P
    using less_Suc_eq_0_disj by auto
  consider (bad) "jb_job E (m_value msg) = None"
    | (full) job e where "jb_job E (m_value msg) = Some job" "enq (cl_step ?s1) job = Some e"
    | (taken) job where "jb_job E (m_value msg) = Some job" "enq (cl_step ?s1) job = None"
    by (cases "jb_job E (m_value msg)"; fastforce)
  then show ?case
  proof cases
    case bad
    obtain f where "dispatch_loop E enq ps (Suc i) msgs s = (f, s')" "failed = ps ! i # f"
      using Cons.prems(1) bad i(1) by (auto simp: Let_def split: prod.splits)
    from Cons.IH [OF this(1) i(2)] this(2) nth_mem [OF i(1)] show ?thesis unfolding shift by simp
  next
    case full
    obtain f where "dispatch_loop E enq ps (Suc i) msgs ?s1 = (f, s')" "failed = ps ! i # f"
      using Cons.prems(1) full i(1) by (auto simp: Let_def split: prod.splits)
    from Cons.IH [OF this(1) i(2)] this(2) s1 nth_mem [OF i(1)] show ?thesis unfolding shift by simp
  next
    case taken
    have "dispatch_loop E enq ps (Suc i) msgs (?s1\<lparr>js_retried := js_retried ?s1 @ [job]\<rparr>) = (failed, s')"
      using Cons.prems(1) taken by (simp add: Let_def)
    from Cons.IH [OF this i(2)] show ?thesis using s1 taken(1) unfolding shift by simp
  qed
qed

text \<open>A payload is safe if it is buffered, its message was sent, or its job waits in the retry queue.\<close>

definition payload_safe :: "'r jb_env \<Rightarrow> string \<Rightarrow> 'r jb_state \<Rightarrow> bytes \<Rightarrow> bool" where
  "payload_safe E label s p \<longleftrightarrow>
     p \<in> set (buffered (cl_redis E) label (cl_db s))
     \<or> (case jb_decode E p of
          None \<Rightarrow> False
        | Some msg \<Rightarrow> msg \<in> set (js_sent s)
            \<or> (case jb_job E (m_value msg) of None \<Rightarrow> False | Some job \<Rightarrow> job \<in> set (js_retried s)))"

lemma publish_drained_keeps:
  assumes R: "lredis_ok (cl_redis E)" and A: "alone E t" and "label \<noteq> []" and ps: "[] \<notin> set ps"
    and dec: "\<forall>p\<in>set ps. jb_decode E p \<noteq> None"
    and pub: "\<forall>n msgs kept. jb_publish E n msgs = (None, kept) \<longrightarrow> set msgs \<subseteq> set kept"
    and room: "dc_max_len (jb_cfg E) \<le> 0 \<or>
      int (length (buffered (cl_redis E) label (cl_db s)) + length ps) \<le> dc_max_len (jb_cfg E)"
    and p: "p \<in> set ps \<or> p \<in> set (buffered (cl_redis E) label (cl_db s))"
  shows "payload_safe E label (snd (publish_drained E label topic ps s)) p"
proof -
  let ?B = "\<lambda>s. buffered (cl_redis E) label (cl_db s)"
  have msgs: "decoded E ps = map (\<lambda>p. the (jb_decode E p)) ps"
    using dec by (simp add: decoded_def map_filter_total)
  have keeps: "set (?B s1 @ qs) \<subseteq> set (?B (snd (EnqueueBatch E label qs (dc_max_len (jb_cfg E)) s1)))
      \<and> client_state.more (snd (EnqueueBatch E label qs (dc_max_len (jb_cfg E)) s1)) = client_state.more s1"
    if "cl_db s1 = cl_db s" and "set qs \<subseteq> set ps" and "length qs \<le> length ps" for s1 qs
  proof -
    have "[] \<notin> set qs" using ps that(2) by auto
    from EnqueueBatch_alone [OF R A assms(3) this, of "dc_max_len (jb_cfg E)" s1]
    show ?thesis using that(1,3) room by (auto simp: last_n_all)
  qed
  show ?thesis
  proof (cases "ps = []")
    case True
    then show ?thesis using p by (simp add: publish_drained_def decoded_def map_filter_total payload_safe_def)
  next
    case False
    obtain err kept where k: "jb_publish E (Suc (cl_step s)) (decoded E ps) = (err, kept)" by (rule prod.exhaust)
    let ?s1 = "s\<lparr>cl_step := Suc (cl_step s), js_sent := js_sent s @ kept\<rparr>"
    have u: "underlying_publish E (decoded E ps) s = (err, ?s1)"
      using k by (simp add: underlying_publish_def alone_run [OF A] Let_def)
    have run: "snd (publish_drained E label topic ps s) =
        (case err of None \<Rightarrow> ?s1
         | Some e \<Rightarrow> (case jb_retry E of
             Some enq \<Rightarrow> dispatchToRetry E enq (decoded E ps) ps label ?s1
           | None \<Rightarrow> snd (EnqueueBatch E label ps (dc_max_len (jb_cfg E)) ?s1)))"
      using False msgs u by (simp add: publish_drained_def Let_def split: option.split)
    show ?thesis
    proof (cases err)
      case None
      have "set (decoded E ps) \<subseteq> set kept" using pub k None by blast
      then show ?thesis using p dec run None unfolding payload_safe_def msgs by fastforce
    next
      case (Some e)
      show ?thesis
      proof (cases "jb_retry E")
        case None
        then show ?thesis using keeps [of ?s1 ps] p run Some unfolding payload_safe_def by auto
      next
        case enq: (Some enq)
        obtain failed s2 where d: "dispatch_loop E enq ps 0 (decoded E ps) ?s1 = (failed, s2)" by (rule prod.exhaust)
        have len: "0 + length (decoded E ps) = length ps" by (simp add: msgs)
        note l = dispatch_loop_keeps [OF A d len]
        let ?s3 = "snd (EnqueueBatch E label failed (dc_max_len (jb_cfg E)) s2)"
        have s': "snd (publish_drained E label topic ps s) = (if failed = [] then s2 else ?s3)"
          using run Some enq d by (simp add: dispatchToRetry_def)
        have kp: "set (?B s2 @ failed) \<subseteq> set (?B ?s3)" "js_retried ?s3 = js_retried s2"
          using keeps [of s2 failed] l len js_fields(2) [of ?s3 s2] by simp_all
        have db: "cl_db s2 = cl_db s" using l by simp
        show ?thesis
        proof (cases "p \<in> set (?B s)")
          case True
          then show ?thesis using s' kp(1) db unfolding payload_safe_def by (auto split: if_splits)
        next
          case False
          then obtain j where j: "j < length ps" "ps ! j = p" using p by (auto simp: in_set_conv_nth)
          then obtain msg where m: "jb_decode E p = Some msg" "decoded E ps ! j = msg"
            using dec by (force simp: msgs)
          have "p \<in> set failed \<or> (\<exists>job. jb_job E (m_value msg) = Some job \<and> job \<in> set (js_retried s2))"
            using l j m(2) by (metis add_0 len)
          then show ?thesis
            using s' kp m(1) unfolding payload_safe_def by (auto split: if_splits)
        qed
      qed
    qed
  qed
qed

text \<open>A round either leaves the buffer alone or takes the oldest payloads and hands them on.\<close>

lemma drainOnce_keeps:
  fixes E :: "'r jb_env" and s :: "'r jb_state"
  assumes R: "lredis_ok (cl_redis E)" and A: "alone E t" and "label \<noteq> []"
    and drained: "\<And>(s' :: 'r jb_state) ps. buffered (cl_redis E) label (cl_db s) = ps @ buffered (cl_redis E) label (cl_db s')
      \<Longrightarrow> P (snd (publish_drained E label topic ps s'))"
    and idle: "\<And>s' :: 'r jb_state. cl_db s' = cl_db s \<Longrightarrow> P s'"
  shows "P (snd (drainOnce E label topic s))"
proof -
  let ?s1 = "s\<lparr>cl_step := Suc (cl_step s)\<rparr>"
  let ?s2 = "s\<lparr>cl_step := Suc (Suc (cl_step s))\<rparr>"
  let ?B = "\<lambda>s. buffered (cl_redis E) label (cl_db s)"
  have len: "JobBufferLen E label ?s1 = (Inr (int (length (?B s))), ?s2)"
    using assms(3) by (simp add: JobBufferLen_def alone_run [OF A] buffered_def)
  show ?thesis
  proof (cases "jb_backlog E (Suc (cl_step s)) topic")
    case (Inl err)
    then show ?thesis using idle [of ?s1] by (simp add: drainOnce_def alone_run [OF A] Let_def)
  next
    case (Inr backlog)
    let ?avail = "dc_target (jb_cfg E) - backlog"
    show ?thesis
    proof (cases "?avail \<le> 0 \<or> ?B s = []")
      case True
      then show ?thesis
        using idle [of ?s1] idle [of ?s2] Inr len by (auto simp: drainOnce_def alone_run [OF A] Let_def)
    next
      case False
      let ?n = "min (int (length (?B s))) (min (dc_batch (jb_cfg E)) ?avail)"
      have eq: "drainOnce E label topic s =
          (case DrainJobs E label ?n ?s2 of
             (Inl err, s2) \<Rightarrow> (Some (Wrapped (''drain '' @ label) err), s2)
           | (Inr payloads, s2) \<Rightarrow> if payloads = [] then (None, s2) else publish_drained E label topic payloads s2)"
        using False Inr len by (simp add: drainOnce_def alone_run [OF A] Let_def)
      show ?thesis
      proof (cases "0 < ?n")
        case True
        obtain s' where d: "DrainJobs E label ?n ?s2 = (Inr (take (nat ?n) (?B s)), s')"
            "?B s' = drop (nat ?n) (?B s)"
          using DrainJobs_alone [OF R A True assms(3), of ?s2] by auto
        have "0 < nat ?n" using True by simp
        then have "take (nat ?n) (?B s) \<noteq> []" using False by (simp only: take_eq_Nil de_Morgan_disj) blast
        then show ?thesis using drained [of "take (nat ?n) (?B s)" s'] eq d by simp
      next
        case n: False
        then have le: "?n \<le> 0" by (simp only: not_less)
        have "DrainJobs E label ?n ?s2 = (Inr [], ?s2)" unfolding DrainJobs_def by (simp only: le if_True)
        then show ?thesis using eq idle [of ?s2] by simp
      qed
    qed
  qed
qed

section \<open>Properties\<close>

text \<open>The job buffer is a bounded first-in first-out queue per label. For a client that is alone, enqueueing appends the
  payloads in order and, with a limit, keeps exactly the newest that fit; draining removes and returns the oldest, at most
  as many as asked for, in the order they were enqueued; other labels are not touched.\<close>
theorem job_buffer_is_fifo:
  assumes "lredis_ok (cl_redis E)" and "alone E t" and "label \<noteq> []" and "[] \<notin> set payloads" and "payloads \<noteq> []"
    and "0 < n" and "q = (\<lambda>l. buffered (cl_redis E) l (cl_db s))"
  shows "(\<exists>s1. EnqueueBatch E label payloads mx s = (None, s1)
        \<and> (\<lambda>l. buffered (cl_redis E) l (cl_db s1)) = q(label := last_n mx (q label @ payloads))
        \<and> (0 < mx \<longrightarrow> int (length (buffered (cl_redis E) label (cl_db s1))) \<le> mx))
    \<and> (\<exists>s2. DrainJobs E label n s = (Inr (take (nat n) (q label)), s2)
        \<and> (\<lambda>l. buffered (cl_redis E) l (cl_db s2)) = q(label := drop (nat n) (q label)))"
  using EnqueueBatch_alone [OF assms(1-4), of mx s] DrainJobs_alone [OF assms(1,2,6,3), of s] assms(5)
    last_n_length [of mx "q label @ payloads"]
  by (auto simp: assms(7) fun_eq_iff)

theorem job_buffer_is_fifo_witness:
  "let s = \<lparr>cl_step = 0, cl_db = ref_empty\<rparr>; s1 = snd (EnqueueBatch (ref_client 0) ''low'' [''a'', ''b'', ''c''] 2 s)
   in fst (DrainJobs (ref_client 0) ''low'' 5 s1) = Inr [''b'', ''c'']"
proof -
  have R: "lredis_ok (cl_redis (ref_client 0))" and A: "alone (ref_client 0) 0"
    by (simp_all add: ref_client_alone ref_zops_ok)
  define s where "s = \<lparr>cl_step = 0, cl_db = ref_empty\<rparr>"
  have "buffered (cl_redis (ref_client 0)) ''low'' (cl_db s) = []"
    by (simp add: buffered_def ref_client_alone ref_zops_def ref_list_defs ref_empty_def s_def)
  then have "fst (DrainJobs (ref_client 0) ''low'' 5 (snd (EnqueueBatch (ref_client 0) ''low'' [''a'', ''b'', ''c''] 2 s)))
      = Inr [''b'', ''c'']"
    using job_buffer_is_fifo [OF R A _ _ _ _ refl, where label = "''low''" and payloads = "[''a'', ''b'', ''c'']" and n = 5 and mx = 2 and s = s]
      job_buffer_is_fifo [OF R A _ _ _ _ refl, where label = "''low''" and payloads = "[''a'']" and n = 5 and mx = 2
        and s = "snd (EnqueueBatch (ref_client 0) ''low'' [''a'', ''b'', ''c''] 2 s)"]
    by (auto simp: fun_eq_iff last_n_def)
  then show ?thesis by (simp add: s_def)
qed


definition sample_drain :: "(nat \<Rightarrow> message list \<Rightarrow> go_error option \<times> message list) \<Rightarrow> ref_redis jb_env" where
  "sample_drain pub =
     \<lparr>cl_redis = ref_zops, cl_clock = (\<lambda>_. 0), cl_pipe = (\<lambda>_. PipeOk), cl_others = (\<lambda>_ r. r), jb_publish = pub, jb_encode = (\<lambda>_ msg. Inr (m_value msg)),
      jb_decode = (\<lambda>p. if p = ''bad'' then None else Some \<lparr>m_topic = TopicCrawlLow, m_partition = 0, m_offset = 0, m_key = [], m_value = p, m_headers = Map.empty, m_time = None\<rparr>),
      jb_job = (\<lambda>_. None), jb_retry = Some (\<lambda>_ _. Some (Opaque ''retry down'')), jb_backlog = (\<lambda>_ _. Inr 0),
      jb_range = (\<lambda>_ ls. ls), jb_leader = None, jb_rnd = (\<lambda>_. Inr ''t''),
      jb_cfg = \<lparr>dc_interval = 1, dc_target = 10, dc_batch = 10, dc_max_len = 0, dc_group = []\<rparr>\<rparr>"

lemma sample_drain_simps:
  "cl_redis (sample_drain pub) = ref_zops" "alone (sample_drain pub) 0" "lredis_ok (cl_redis (sample_drain pub))"
  "jb_publish (sample_drain pub) = pub" "jb_retry (sample_drain pub) = Some (\<lambda>_ _. Some (Opaque ''retry down''))"
  "jb_decode (sample_drain pub) = (\<lambda>p. if p = ''bad'' then None else Some \<lparr>m_topic = TopicCrawlLow, m_partition = 0, m_offset = 0, m_key = [], m_value = p, m_headers = Map.empty, m_time = None\<rparr>)"
  "jb_job (sample_drain pub) = (\<lambda>_. None)" "jb_backlog (sample_drain pub) = (\<lambda>_ _. Inr 0)"
  "jb_cfg (sample_drain pub) = \<lparr>dc_interval = 1, dc_target = 10, dc_batch = 10, dc_max_len = 0, dc_group = []\<rparr>"
  "jb_encode (sample_drain pub) = (\<lambda>_ msg. Inr (m_value msg))" "jb_range (sample_drain pub) = (\<lambda>_ ls. ls)"
  by (simp_all add: sample_drain_def alone_def ref_zops_ok)

definition sample_buffer :: "bytes list \<Rightarrow> ref_redis jb_state" where
  "sample_buffer ps = \<lparr>cl_step = 0, cl_db = rd_lpush ref_zops (JobBufferKey ''low'') ps ref_empty, js_sent = [], js_retried = [], js_token = []\<rparr>"

lemma sample_buffer_buffered: "buffered ref_zops ''low'' (cl_db (sample_buffer ps)) = ps"
proof -
  have "buffered ref_zops ''low'' ref_empty = []"
    by (simp add: buffered_def ref_zops_def ref_list_defs ref_empty_def)
  then show ?thesis
    by (simp add: sample_buffer_def  push_buffered(1) [OF ref_zops_ok(2)])
qed


text \<open>One undecodable entry makes the drainer lose another job. When a drained pair holds a payload that cannot be
  decoded and then a good one, and both Kafka and the retry queue refuse, the loop over the decoded messages indexes the
  drained payloads with the position among the decoded ones, so it puts the broken payload back into the buffer and the
  good job is gone: it is neither buffered, sent nor waiting for a retry.\<close>
theorem drain_misaligned:
  fixes E :: "'r jb_env" and s :: "'r jb_state"
  assumes R: "lredis_ok (cl_redis E)" and A: "alone E t" and label: "label \<noteq> []"
    and b: "buffered (cl_redis E) label (cl_db s) = [bad, good]" and ne: "bad \<noteq> []"
    and dec: "jb_decode E bad = None" "jb_decode E good = Some msg"
    and room: "jb_backlog E (Suc (cl_step s)) topic = Inr backlog" "backlog + 2 \<le> dc_target (jb_cfg E)"
      "2 \<le> dc_batch (jb_cfg E)" "dc_max_len (jb_cfg E) \<le> 0"
    and refused: "\<forall>n. jb_publish E n [msg] = (Some err, [])" "jb_retry E = Some (\<lambda>_ _. Some err')"
  shows "buffered (cl_redis E) label (cl_db (snd (drainOnce E label topic s))) = [bad]
    \<and> js_sent (snd (drainOnce E label topic s)) = js_sent s \<and> js_retried (snd (drainOnce E label topic s)) = js_retried s"
proof -
  let ?s2 = "s\<lparr>cl_step := Suc (Suc (cl_step s))\<rparr>"
  have len: "JobBufferLen E label (s\<lparr>cl_step := Suc (cl_step s)\<rparr>) = (Inr 2, ?s2)"
    using label b by (simp add: JobBufferLen_def alone_run [OF A] buffered_def)
  obtain s3 where d: "DrainJobs E label 2 ?s2 = (Inr [bad, good], s3)" "client_state.more s3 = client_state.more ?s2"
      "buffered (cl_redis E) label (cl_db s3) = []"
    using DrainJobs_alone [OF R A _ label, of 2 ?s2] b by auto
  have "min 2 (min (dc_batch (jb_cfg E)) (dc_target (jb_cfg E) - backlog)) = 2" using room by simp
  then have run: "drainOnce E label topic s = publish_drained E label topic [bad, good] s3"
    using room(1,2) len d(1) by (simp add: drainOnce_def alone_run [OF A] Let_def)
  have dd: "decoded E [bad, good] = [msg]"
    using dec by (simp add: decoded_def List.map_filter_def)
  let ?s4 = "s3\<lparr>cl_step := Suc (cl_step s3)\<rparr>"
  have u: "underlying_publish E [msg] s3 = (Some err, ?s4)"
    using refused(1) by (simp add: underlying_publish_def alone_run [OF A] Let_def)
  obtain s5 where l: "dispatch_loop E (\<lambda>_ _. Some err') [bad, good] 0 [msg] ?s4 = ([bad], s5)"
      "cl_db s5 = cl_db s3" "client_state.more s5 = client_state.more s3"
    by (cases "jb_job E (m_value msg)") (simp_all add: alone_run [OF A])
  obtain s6 where q: "EnqueueBatch E label [bad] (dc_max_len (jb_cfg E)) s5 = (None, s6)"
      "client_state.more s6 = client_state.more s5" "buffered (cl_redis E) label (cl_db s6) = [bad]"
    using EnqueueBatch_alone [OF R A label, of "[bad]" "dc_max_len (jb_cfg E)" s5] ne l(2) d(3) room(4)
    by (auto simp: last_n_def)
  have "snd (drainOnce E label topic s) = s6"
    unfolding run by (simp add: publish_drained_def dd u refused(2) dispatchToRetry_def l(1) q(1) del: dispatch_loop.simps)
  moreover have "client_state.more s6 = client_state.more s" using q(2) l(3) d(2) by simp
  ultimately show ?thesis using q(3) js_fields [of s6 s] by simp
qed

theorem drain_misaligned_witness:
  "let E = sample_drain (\<lambda>_ msgs. (Some (Opaque ''kafka down''), []));
       s = snd (drainOnce E ''low'' TopicCrawlLow (sample_buffer [''bad'', ''good'']))
   in buffered (cl_redis E) ''low'' (cl_db s) = [''bad''] \<and> js_sent s = [] \<and> js_retried s = []"
proof -
  define E where "E = sample_drain (\<lambda>_ msgs. (Some (Opaque ''kafka down''), []))"
  have s: "js_sent (sample_buffer ps) = []" "js_retried (sample_buffer ps) = []" for ps
    by (simp_all add: sample_buffer_def )
  have R: "lredis_ok (cl_redis E)" and A: "alone E 0" unfolding E_def by (rule sample_drain_simps)+
  have "buffered (cl_redis E) ''low'' (cl_db (snd (drainOnce E ''low'' TopicCrawlLow (sample_buffer [''bad'', ''good''])))) = [''bad'']
    \<and> js_sent (snd (drainOnce E ''low'' TopicCrawlLow (sample_buffer [''bad'', ''good'']))) = js_sent (sample_buffer [''bad'', ''good''])
    \<and> js_retried (snd (drainOnce E ''low'' TopicCrawlLow (sample_buffer [''bad'', ''good'']))) = js_retried (sample_buffer [''bad'', ''good''])"
    by (rule drain_misaligned [OF R A, where backlog = 0 and good = "''good''"])
      (simp_all add: E_def sample_drain_simps sample_buffer_buffered)
  then show ?thesis unfolding E_def [symmetric] Let_def s by simp
qed

section \<open>What the producer keeps\<close>

text \<open>A message is handed on if it was sent, or its payload waits in the buffer of its label.\<close>

definition handed_on :: "'r jb_env \<Rightarrow> gotime \<Rightarrow> 'r jb_state \<Rightarrow> message \<Rightarrow> bool" where
  "handed_on E t s msg \<longleftrightarrow> msg \<in> set (js_sent s)
     \<or> (case jb_encode E t msg of
          Inl _ \<Rightarrow> False
        | Inr payload \<Rightarrow> payload \<in> set (buffered (cl_redis E) (labelForTopic (m_topic msg)) (cl_db s)))"

lemma group_messages_split:
  assumes "group_messages E t msgs = (direct, byLabel)" and "msg \<in> set msgs"
  shows "msg \<in> set direct \<or> (\<exists>payload. jb_encode E t msg = Inr payload \<and> labelForTopic (m_topic msg) \<in> {''normal'', ''low''}
    \<and> (msg, payload) \<in> set (byLabel (labelForTopic (m_topic msg))))"
  using assms
proof (induction msgs arbitrary: direct byLabel)
  case (Cons m msgs)
  obtain d b where g: "group_messages E t msgs = (d, b)" by (rule prod.exhaust)
  have labels: "labelForTopic (m_topic m) = [] \<or> labelForTopic (m_topic m) \<in> {''normal'', ''low''}" for m
    by (simp add: labelForTopic_def)
  show ?case
    using Cons.prems Cons.IH [OF g] g labels [of m]
    by (auto simp: encodeBufferedMessage_def Let_def split: if_splits sum.splits)
qed simp

lemma enqueue_labels_keeps:
  fixes E :: "'r jb_env" and s :: "'r jb_state"
  assumes R: "lredis_ok (cl_redis E)" and U: "undisturbed E t" and "mx \<le> 0"
    and "enqueue_labels E mx byLabel labels direct s = (direct', s')"
  shows "set direct \<subseteq> set direct' \<and> js_sent s' = js_sent s
    \<and> (\<forall>l. set (buffered (cl_redis E) l (cl_db s)) \<subseteq> set (buffered (cl_redis E) l (cl_db s')))
    \<and> (\<forall>l\<in>set labels. \<forall>(m, p)\<in>set (byLabel l). m \<in> set direct' \<or> p \<in> set (buffered (cl_redis E) l (cl_db s')))"
  using assms(4)
proof (induction labels arbitrary: direct s)
  case (Cons label labels)
  obtain e s1 where c: "EnqueueBatch E label (map snd (byLabel label)) mx s = (e, s1)" by (rule prod.exhaust)
  have all: "last_n mx xs = xs" for xs using assms(3) by (simp add: last_n_all)
  note eff = EnqueueBatch_effect [OF R U c]
  have mono: "set (buffered (cl_redis E) l (cl_db s)) \<subseteq> set (buffered (cl_redis E) l (cl_db s1))" for l
    using eff assms(3) by (cases "l = label") auto
  have sent: "js_sent s1 = js_sent s" using eff js_fields(1) [of s1 s] by simp
  show ?case
  proof (cases e)
    case None
    then have "enqueue_labels E mx byLabel labels direct s1 = (direct', s')" using Cons.prems c by simp
    note ih = Cons.IH [OF this]
    have "p \<in> set (buffered (cl_redis E) label (cl_db s1))" if "(m, p) \<in> set (byLabel label)" for m p
    proof -
      have "p \<in> set (map snd (byLabel label))" using that by force
      then show ?thesis using eff None by (auto simp: all split: if_splits)
    qed
    moreover have "set (buffered (cl_redis E) label (cl_db s1)) \<subseteq> set (buffered (cl_redis E) label (cl_db s'))"
      using ih by simp
    ultimately have "\<forall>(m, p)\<in>set (byLabel label). p \<in> set (buffered (cl_redis E) label (cl_db s'))" by blast
    then show ?thesis using ih sent order_trans [OF mono] by (simp add: split_beta)
  next
    case (Some err)
    then have "enqueue_labels E mx byLabel labels (direct @ map fst (byLabel label)) s1 = (direct', s')"
      using Cons.prems c by simp
    note ih = Cons.IH [OF this]
    have "set direct \<union> fst ` set (byLabel label) \<subseteq> set direct'" using ih by simp
    then have "set direct \<subseteq> set direct'" and "\<forall>(m, p)\<in>set (byLabel label). m \<in> set direct'" by auto
    then show ?thesis using ih sent order_trans [OF mono] by (simp add: split_beta)
  qed
qed simp

text \<open>The buffering producer hands on every message it accepts. When a batch returns without an error and the buffer has
  no limit, each message of the batch was sent to Kafka or its payload waits in the buffer of its label, whichever of the
  Redis pipelines failed, before or after they were executed.\<close>
theorem buffering_hands_on_all:
  fixes E :: "'r jb_env" and s :: "'r jb_state"
  assumes R: "lredis_ok (cl_redis E)" and U: "undisturbed E t" and mx: "mx \<le> 0"
    and range: "\<forall>n ls. set (jb_range E n ls) = set ls"
    and pub: "\<forall>n msgs kept. jb_publish E n msgs = (None, kept) \<longrightarrow> set msgs \<subseteq> set kept"
    and call: "buffering_PublishBatch E mx msgs s = (None, s')"
    and msg: "msg \<in> set msgs"
  shows "handed_on E t s' msg"
proof -
  have now: "cl_now E s = t" using U by (simp add: undisturbed_def cl_now_def)
  obtain direct0 byLabel where g: "group_messages E t msgs = (direct0, byLabel)" by (rule prod.exhaust)
  define labels where "labels = jb_range E (cl_step s) (filter (\<lambda>l. byLabel l \<noteq> []) [''normal'', ''low''])"
  obtain direct s1 where q: "enqueue_labels E mx byLabel labels direct0 s = (direct, s1)" by (rule prod.exhaust)
  note eff = enqueue_labels_keeps [OF R U mx q]
  have ne: "msgs \<noteq> []" using msg by auto
  have run: "buffering_PublishBatch E mx msgs s = (if direct = [] then (None, s1)
      else (case underlying_publish E direct s1 of
         (Some err, s2) \<Rightarrow>
           (Some (Wrapped (''buffering producer direct batch ('' @ int_text (int (length direct)) @ '' msgs)'') err), s2)
       | (None, s2) \<Rightarrow> (None, s2)))"
    unfolding buffering_PublishBatch_def now Let_def
    by (simp only: ne if_False g prod.case q [unfolded labels_def])
  have s': "cl_db s' = cl_db s1 \<and> set direct \<subseteq> set (js_sent s')"
  proof (cases "direct = []")
    case True
    then show ?thesis using call run by simp
  next
    case False
    then obtain s2 where u: "underlying_publish E direct s1 = (None, s2)" and "s' = s2"
      using call run by (simp split: prod.splits option.splits)
    then show ?thesis using pub [rule_format, of "Suc (cl_step s1)" direct] U
      by (auto simp: underlying_publish_def Let_def undisturbed_def cl_elapse_def split: prod.splits)
  qed
  from group_messages_split [OF g msg] show ?thesis
  proof
    assume "msg \<in> set direct0"
    then show ?thesis using eff s' by (auto simp: handed_on_def)
  next
    assume "\<exists>payload. jb_encode E t msg = Inr payload \<and> labelForTopic (m_topic msg) \<in> {''normal'', ''low''}
      \<and> (msg, payload) \<in> set (byLabel (labelForTopic (m_topic msg)))"
    then obtain payload where p: "jb_encode E t msg = Inr payload" "labelForTopic (m_topic msg) \<in> {''normal'', ''low''}"
      "(msg, payload) \<in> set (byLabel (labelForTopic (m_topic msg)))" by blast
    have "byLabel (labelForTopic (m_topic msg)) \<noteq> []" using p(3) by auto
    then have "labelForTopic (m_topic msg) \<in> set labels" using p(2) range unfolding labels_def by auto
    then have "msg \<in> set direct \<or> payload \<in> set (buffered (cl_redis E) (labelForTopic (m_topic msg)) (cl_db s1))"
      using eff p(3) by fastforce
    then show ?thesis using s' p(1) by (auto simp: handed_on_def)
  qed
qed

definition sample_message :: message where
  "sample_message = \<lparr>m_topic = TopicCrawlLow, m_partition = 0, m_offset = 0, m_key = [], m_value = ''job'', m_headers = Map.empty, m_time = None\<rparr>"

theorem buffering_hands_on_all_witness:
  "handed_on (sample_drain (\<lambda>_ msgs. (None, msgs))) 0
     (snd (buffering_PublishBatch (sample_drain (\<lambda>_ msgs. (None, msgs))) 0 [sample_message] (sample_buffer []))) sample_message"
proof -
  let ?E = "sample_drain (\<lambda>_ msgs. (None, msgs))"
  have "fst (buffering_PublishBatch ?E 0 [sample_message] (sample_buffer [])) = None"
    by (simp add: buffering_PublishBatch_def underlying_publish_def Let_def sample_drain_simps split: prod.split)
  then have call: "buffering_PublishBatch ?E 0 [sample_message] (sample_buffer [])
      = (None, snd (buffering_PublishBatch ?E 0 [sample_message] (sample_buffer [])))"
    by (simp add: prod_eq_iff)
  show ?thesis
    by (rule buffering_hands_on_all [OF sample_drain_simps(3) alone_undisturbed [OF sample_drain_simps(2)] order_refl _ _ call])
      (simp_all add: sample_drain_simps)
qed

end
