(* ===== verification/RateLimiter.thy ===== *)
theory RateLimiter
  imports CrawlCore
begin

text \<open>
  Rate limiting of fetches (\<^verbatim>\<open>internal/processor/fetcher/rate_limiter\<close>): the token bucket
  (\<^verbatim>\<open>token_bucket.go\<close>), the registry of limiters per IP address (\<^verbatim>\<open>ip_registry.go\<close>), and the
  cached lookups it relies on (\<^verbatim>\<open>dns_resolver.go\<close>, \<^verbatim>\<open>source_config_resolver.go\<close>). Limiters are
  shared objects, so the registry keeps them in a store and maps addresses to positions in it.
  Token counts are real numbers (rounding of floats is left out). DNS, the repository, the
  clock and the other goroutines are parameters; the clock is Go's monotonic one.
\<close>

section \<open>The token bucket\<close>

record token_bucket =
  tb_rate :: real
  tb_burst :: int
  tb_tokens :: real
  tb_last :: gotime

datatype limiter = Noop | Bucket token_bucket

definition NewRateLimiter :: "int \<Rightarrow> int \<Rightarrow> gotime \<Rightarrow> limiter" where
  "NewRateLimiter requestsPerHour burst now =
     (if requestsPerHour \<le> 0 then Noop
      else
        let b = (if burst < 1 then 1 else burst)
        in Bucket \<lparr>tb_rate = real_of_int requestsPerHour / 3600, tb_burst = b,
             tb_tokens = real_of_int b, tb_last = now\<rparr>)"

definition elapsed_seconds :: "gotime \<Rightarrow> gotime \<Rightarrow> real" where
  "elapsed_seconds now before = real_of_int (now - before) / 1000000000"

definition minFloat :: "real \<Rightarrow> real \<Rightarrow> real" where
  "minFloat a b = (if a < b then a else b)"

definition refill :: "token_bucket \<Rightarrow> gotime \<Rightarrow> token_bucket" where
  "refill r now =
     (let newTokens = elapsed_seconds now (tb_last r) * tb_rate r
      in r\<lparr>tb_tokens := minFloat (tb_tokens r + newTokens) (real_of_int (tb_burst r)), tb_last := now\<rparr>)"

definition bucket_Allow :: "token_bucket \<Rightarrow> gotime \<Rightarrow> bool \<times> token_bucket" where
  "bucket_Allow r now =
     (let r1 = refill r now
      in if tb_tokens r1 \<ge> 1 then (True, r1\<lparr>tb_tokens := tb_tokens r1 - 1\<rparr>) else (False, r1))"

text \<open>The conversion to \<^verbatim>\<open>time.Duration\<close> truncates to whole nanoseconds.\<close>

definition timeToNextToken :: "token_bucket \<Rightarrow> duration" where
  "timeToNextToken r =
     (if tb_tokens r \<ge> 1 then 0
      else
        let tokensNeeded = 1 - tb_tokens r; secondsNeeded = tokensNeeded / tb_rate r
        in \<lfloor>secondsNeeded * 1000000000\<rfloor>)"

text \<open>
  The loop of \<^verbatim>\<open>Wait\<close>: \<open>we_clock n\<close> is the clock at the n-th attempt, \<open>we_done n\<close> tells whether
  the select after it took the branch of the context, \<open>we_others n\<close> is what others do to the
  bucket meanwhile. It need not end.
\<close>

record wait_env =
  we_clock :: "nat \<Rightarrow> gotime"
  we_done :: "nat \<Rightarrow> go_error option"
  we_others :: "nat \<Rightarrow> token_bucket \<Rightarrow> token_bucket"

partial_function (option) bucket_Wait ::
  "wait_env \<Rightarrow> nat \<Rightarrow> token_bucket \<Rightarrow> (go_error option \<times> token_bucket \<times> nat) option" where
  "bucket_Wait E n r =
     (let (ok, r1) = bucket_Allow r (we_clock E n)
      in if ok then Some (None, r1, n)
         else (case we_done E n of
                 Some err \<Rightarrow> Some (Some err, r1, n)
               | None \<Rightarrow> bucket_Wait E (Suc n) (we_others E n r1)))"

definition limiter_Wait ::
  "wait_env \<Rightarrow> limiter \<Rightarrow> (go_error option \<times> limiter) option" where
  "limiter_Wait E l =
     (case l of
        Noop \<Rightarrow> Some (None, Noop)
      | Bucket r \<Rightarrow> map_option (\<lambda>(err, r', n). (err, Bucket r')) (bucket_Wait E 0 r))"

section \<open>The registry of addresses\<close>

record ip_registry =
  rg_burst :: int
  rg_static :: int
  rg_evict :: duration
  rg_store :: "limiter list"
  rg_limiters :: "string \<rightharpoonup> nat \<times> gotime"

definition NewIPRateLimiterRegistry :: "int \<Rightarrow> int \<Rightarrow> ip_registry" where
  "NewIPRateLimiterRegistry requestsPerHour burst =
     \<lparr>rg_burst = burst, rg_static = requestsPerHour, rg_evict = hour, rg_store = [], rg_limiters = Map.empty\<rparr>"

definition evictExpired :: "ip_registry \<Rightarrow> gotime \<Rightarrow> ip_registry" where
  "evictExpired r now =
     (let cutoff = now - rg_evict r
      in r\<lparr>rg_limiters := (\<lambda>ip. case rg_limiters r ip of
             None \<Rightarrow> None
           | Some (i, lastUsed) \<Rightarrow> if lastUsed < cutoff then None else Some (i, lastUsed))\<rparr>)"

definition getOrCreate :: "ip_registry \<Rightarrow> string \<Rightarrow> int \<Rightarrow> gotime \<Rightarrow> nat \<times> ip_registry" where
  "getOrCreate r ip rph now =
     (case rg_limiters r ip of
        Some (i, _) \<Rightarrow> (i, r\<lparr>rg_limiters := (rg_limiters r)(ip \<mapsto> (i, now))\<rparr>)
      | None \<Rightarrow>
          let i = length (rg_store r);
              r1 = r\<lparr>rg_store := rg_store r @ [NewRateLimiter rph (rg_burst r) now],
                     rg_limiters := (rg_limiters r)(ip \<mapsto> (i, now))\<rparr>
          in (i, evictExpired r1 now))"

text \<open>
  The rate a request asks for: with a configuration resolver the one of its host, 0 if the host
  cannot be extracted; without, the static one.
\<close>

definition request_rph :: "ip_registry \<Rightarrow> (string \<Rightarrow> int) option \<Rightarrow> string option \<Rightarrow> int" where
  "request_rph r config host =
     (case config of
        None \<Rightarrow> rg_static r
      | Some resolve \<Rightarrow> (case host of None \<Rightarrow> rg_static r | Some h \<Rightarrow> resolve h))"

definition registry_Wait ::
  "wait_env \<Rightarrow> (string \<Rightarrow> go_error + string) \<Rightarrow> (string \<Rightarrow> int) option \<Rightarrow> (string \<Rightarrow> string option)
     \<Rightarrow> go_error option \<Rightarrow> gotime \<Rightarrow> string \<Rightarrow> ip_registry \<Rightarrow> (go_error option \<times> ip_registry) option" where
  "registry_Wait E resolve config extractHost ctx now rawURL r =
     (case resolve rawURL of
        Inl _ \<Rightarrow> (case ctx of Some ctxErr \<Rightarrow> Some (Some ctxErr, r) | None \<Rightarrow> Some (None, r))
      | Inr ip \<Rightarrow>
          let (i, r1) = getOrCreate r ip (request_rph r config (extractHost rawURL)) now
          in map_option (\<lambda>(err, l). (err, r1\<lparr>rg_store := (rg_store r1)[i := l]\<rparr>)) (limiter_Wait E (rg_store r1 ! i)))"

section \<open>Cached lookups\<close>

definition DefaultSourceConfigCacheTTL :: duration where "DefaultSourceConfigCacheTTL = 5 * minute"

definition NewSourceConfigResolver :: "duration \<Rightarrow> duration" where
  "NewSourceConfigResolver ttl = (if ttl \<le> 0 then DefaultSourceConfigCacheTTL else ttl)"

datatype rule_answer = RuleFound int | RuleNotFound | RuleFailed go_error

text \<open>\<open>rule n host\<close> is \<^verbatim>\<open>GetByHost\<close>; only rows and their absence are cached, a failure is not.\<close>

definition config_cached :: "duration \<Rightarrow> (string \<rightharpoonup> int \<times> gotime) \<Rightarrow> gotime \<Rightarrow> string \<Rightarrow> int option" where
  "config_cached ttl cache now host =
     (case cache host of
        None \<Rightarrow> None
      | Some (rph, cachedAt) \<Rightarrow> if now - cachedAt < ttl then Some rph else None)"

definition SourceConfig_Resolve ::
  "duration \<Rightarrow> (string \<Rightarrow> rule_answer) \<Rightarrow> gotime \<Rightarrow> string \<Rightarrow> (string \<rightharpoonup> int \<times> gotime)
     \<Rightarrow> int \<times> (string \<rightharpoonup> int \<times> gotime)" where
  "SourceConfig_Resolve ttl rule now host cache =
     (if host = [] then (0, cache)
      else (case config_cached ttl cache now host of
              Some rph \<Rightarrow> (rph, cache)
            | None \<Rightarrow>
                (case rule host of
                   RuleNotFound \<Rightarrow> (0, cache(host \<mapsto> (0, now)))
                 | RuleFailed _ \<Rightarrow> (0, cache)
                 | RuleFound rph \<Rightarrow> (rph, cache(host \<mapsto> (rph, now))))))"

definition SourceConfig_Invalidate :: "string \<Rightarrow> (string \<rightharpoonup> int \<times> gotime) \<Rightarrow> (string \<rightharpoonup> int \<times> gotime)" where
  "SourceConfig_Invalidate host cache = cache(host := None)"

definition extractHost :: "(string \<Rightarrow> go_error + string) \<Rightarrow> string \<Rightarrow> go_error + string" where
  "extractHost hostname rawURL =
     (case hostname rawURL of
        Inl err \<Rightarrow> Inl (Wrapped (''parse url '' @ rawURL) err)
      | Inr host \<Rightarrow> if host = [] then Inl (Opaque (''empty host in url '' @ rawURL)) else Inr host)"

definition DNS_Resolve ::
  "duration \<Rightarrow> (string \<Rightarrow> go_error + string) \<Rightarrow> (string \<Rightarrow> go_error + string list) \<Rightarrow> (nat \<Rightarrow> gotime) \<Rightarrow> string
     \<Rightarrow> (string \<rightharpoonup> string \<times> gotime) \<Rightarrow> (go_error + string) \<times> (string \<rightharpoonup> string \<times> gotime)" where
  "DNS_Resolve ttl hostname lookup clock rawURL cache =
     (case extractHost hostname rawURL of
        Inl err \<Rightarrow> (Inl err, cache)
      | Inr host \<Rightarrow>
          let now = clock 0;
              hit = (case cache host of None \<Rightarrow> None | Some (ip, expiresAt) \<Rightarrow> if now < expiresAt then Some ip else None)
          in case hit of
               Some ip \<Rightarrow> (Inr ip, cache)
             | None \<Rightarrow>
                 let cache1 = (case cache host of
                       None \<Rightarrow> cache
                     | Some (_, expiresAt) \<Rightarrow> if \<not> clock 1 < expiresAt then cache(host := None) else cache)
                 in case lookup host of
                      Inl err \<Rightarrow> (Inl (Wrapped (''dns lookup '' @ host) err), cache1)
                    | Inr [] \<Rightarrow> (Inl (Opaque (''dns lookup '' @ host @ '': no addresses found'')), cache1)
                    | Inr (ip # _) \<Rightarrow> (Inr ip, cache1(host \<mapsto> (ip, clock 2 + ttl))))"

section \<open>How many requests a bucket grants\<close>

fun grants :: "token_bucket \<Rightarrow> gotime list \<Rightarrow> nat \<times> token_bucket" where
  "grants r [] = (0, r)"
| "grants r (t # ts) =
     (let (ok, r1) = bucket_Allow r t; (n, r2) = grants r1 ts in ((if ok then Suc n else n), r2))"

definition bucket_ok :: "token_bucket \<Rightarrow> bool" where
  "bucket_ok r \<longleftrightarrow> 0 < tb_rate r \<and> 1 \<le> tb_burst r \<and> 0 \<le> tb_tokens r \<and> tb_tokens r \<le> real_of_int (tb_burst r)"

lemma elapsed_nonneg [simp]: "a \<le> b \<Longrightarrow> 0 \<le> elapsed_seconds b a"
  by (simp add: elapsed_seconds_def)

lemma elapsed_add: "elapsed_seconds c b + elapsed_seconds b a = elapsed_seconds c a"
  by (simp add: elapsed_seconds_def field_simps)

lemma Allow_ok:
  assumes "bucket_ok r" and "tb_last r \<le> t" and "bucket_Allow r t = (ok, r1)"
  shows "bucket_ok r1" "tb_last r1 = t" "tb_rate r1 = tb_rate r" "tb_burst r1 = tb_burst r"
    "of_bool ok + tb_tokens r1 \<le> tb_tokens r + elapsed_seconds t (tb_last r) * tb_rate r"
    "of_bool ok + tb_tokens r1 \<le> real_of_int (tb_burst r)"
  using assms
  by (auto simp: bucket_Allow_def refill_def bucket_ok_def minFloat_def Let_def split: if_splits)

lemma grants_all:
  assumes "bucket_ok r" and "sorted (tb_last r # ts)" and "grants r ts = (n, r')"
  shows "bucket_ok r' \<and> tb_rate r' = tb_rate r \<and> tb_burst r' = tb_burst r \<and> tb_last r' = last (tb_last r # ts)
    \<and> real n + tb_tokens r' \<le> tb_tokens r + elapsed_seconds (last (tb_last r # ts)) (tb_last r) * tb_rate r"
  using assms
proof (induction ts arbitrary: r n)
  case Nil
  then show ?case by (simp add: elapsed_seconds_def)
next
  case (Cons t ts)
  obtain ok r1 where a: "bucket_Allow r t = (ok, r1)" by (rule prod.exhaust)
  obtain m r2 where g: "grants r1 ts = (m, r2)" by (rule prod.exhaust)
  have t: "tb_last r \<le> t" using Cons.prems(2) by simp
  note ok = Allow_ok [OF Cons.prems(1) t a]
  have n: "n = of_bool ok + m" "r' = r2" using Cons.prems(3) a g by auto
  have s: "sorted (tb_last r1 # ts)" using Cons.prems(2) ok(2) by simp
  note ih = Cons.IH [OF ok(1) s, of m, unfolded n(2), OF g]
  have "real n + tb_tokens r' \<le> tb_tokens r + elapsed_seconds t (tb_last r) * tb_rate r
      + elapsed_seconds (last (t # ts)) t * tb_rate r"
    using ih ok(2,3,5) n by (auto split: if_splits)
  also have "\<dots> = tb_tokens r + elapsed_seconds (last (t # ts)) (tb_last r) * tb_rate r"
    by (simp only: elapsed_add [of "last (t # ts)" t "tb_last r", symmetric] distrib_right add.assoc add.commute)
  finally show ?case using ih ok(2,3,4) n by simp
qed

lemmas grants_bound = grants_all [THEN conjunct1] grants_all [THEN conjunct2, THEN conjunct1]
  grants_all [THEN conjunct2, THEN conjunct2, THEN conjunct1] grants_all [THEN conjunct2, THEN conjunct2, THEN conjunct2, THEN conjunct1]
  grants_all [THEN conjunct2, THEN conjunct2, THEN conjunct2, THEN conjunct2]

section \<open>Properties\<close>

text \<open>C15. A limiter never grants more than its burst plus its rate: in every stretch of requests, whatever came before and
  however the requests are spaced, the number granted is at most the burst plus the rate times the length of the stretch.\<close>
theorem grants_at_most_rate:
  assumes "bucket_ok r" and "sorted (tb_last r # before @ t # ts)" and "grants r before = (n, r1)" and "grants r1 (t # ts) = (m, r2)"
  shows "real m \<le> real_of_int (tb_burst r) + elapsed_seconds (last (t # ts)) t * tb_rate r"
proof -
  have s: "sorted (tb_last r # before)" using assms(2) by (simp add: sorted_append)
  note g1 = grants_bound [OF assms(1) s assms(3)]
  have "last (tb_last r # before) \<in> set (tb_last r # before)" by (rule last_in_set) simp
  then have l: "tb_last r1 \<le> t" using assms(2) g1(4) by (auto simp: sorted_append)
  obtain ok r' where a: "bucket_Allow r1 t = (ok, r')" by (rule prod.exhaust)
  obtain k r'' where g: "grants r' ts = (k, r'')" by (rule prod.exhaust)
  note ok = Allow_ok [OF g1(1) l a]
  have s2: "sorted (tb_last r' # ts)" using assms(2) ok(2) by (simp add: sorted_append)
  note g2 = grants_bound [OF ok(1) s2 g]
  have "m = of_bool ok + k" "r2 = r''" using assms(4) a g by auto
  moreover have "0 \<le> tb_tokens r''" using g2(1) by (simp add: bucket_ok_def)
  ultimately show ?thesis using g2(5) ok(2,3,6) g1(2,3) by (auto split: if_splits)
qed

lemma NewRateLimiter_ok: "NewRateLimiter rph burst now = Bucket r \<Longrightarrow> bucket_ok r \<and> tb_last r = now"
  by (auto simp: NewRateLimiter_def bucket_ok_def Let_def split: if_splits)

definition sample_bucket :: token_bucket where
  "sample_bucket = \<lparr>tb_rate = 1, tb_burst = 1, tb_tokens = 1, tb_last = 0\<rparr>"

theorem grants_at_most_rate_witness:
  "real (fst (grants sample_bucket [0, 1, 2])) \<le> 1 + elapsed_seconds 2 0"
proof -
  have "grants sample_bucket [0, 1, 2] = (fst (grants sample_bucket [0, 1, 2]), snd (grants sample_bucket [0, 1, 2]))" by simp
  from grants_at_most_rate [OF _ _ _ this, of sample_bucket "[]" 0] show ?thesis
    by (simp add: bucket_ok_def sample_bucket_def)
qed

lemma refill_enough:
  assumes "bucket_ok r" and "1 \<le> tb_tokens r + elapsed_seconds t (tb_last r) * tb_rate r"
  shows "fst (bucket_Allow r t)"
  using assms by (auto simp: bucket_Allow_def refill_def bucket_ok_def minFloat_def Let_def)

lemma refused:
  assumes "bucket_ok r" and "tb_last r \<le> t" and "bucket_Allow r t = (False, r1)"
  shows "tb_tokens r1 = tb_tokens r + elapsed_seconds t (tb_last r) * tb_rate r" "tb_tokens r1 < 1"
  using assms by (auto simp: bucket_Allow_def refill_def bucket_ok_def minFloat_def Let_def split: if_splits)

text \<open>C16. Waiting for a token ends. A goroutine that is alone on a limiter and not cancelled gets its token after at most two
  sleeps, if a sleep lasts at least as long as asked for and the clock moves on between attempts. Two, because the length
  of a sleep is truncated to whole nanoseconds.\<close>
theorem wait_gets_token:
  assumes "bucket_ok r" and "tb_last r \<le> we_clock E n"
    and "\<And>k b. we_others E k b = b" and "\<And>k. we_done E k = None"
    and "\<And>k. we_clock E k < we_clock E (Suc k)"
    and "we_clock E n + timeToNextToken (snd (bucket_Allow r (we_clock E n))) \<le> we_clock E (Suc n)"
  shows "\<exists>r' m. bucket_Wait E n r = Some (None, r', m) \<and> m \<le> n + 2"
proof -
  obtain ok0 r1 where a0: "bucket_Allow r (we_clock E n) = (ok0, r1)" by (rule prod.exhaust)
  note k0 = Allow_ok [OF assms(1,2) a0]
  obtain ok1 r2 where a1: "bucket_Allow r1 (we_clock E (Suc n)) = (ok1, r2)" by (rule prod.exhaust)
  have l1: "tb_last r1 \<le> we_clock E (Suc n)" using k0(2) assms(5) [of n] by simp
  note k1 = Allow_ok [OF k0(1) l1 a1]
  obtain ok2 r3 where a2: "bucket_Allow r2 (we_clock E (Suc (Suc n))) = (ok2, r3)" by (rule prod.exhaust)
  have step: "bucket_Wait E k b = (case bucket_Allow b (we_clock E k) of (ok, b1) \<Rightarrow>
      if ok then Some (None, b1, k) else bucket_Wait E (Suc k) b1)" for k b
    by (subst bucket_Wait.simps) (simp add: assms(3,4) Let_def split: prod.split)
  have "ok0 \<or> ok1 \<or> ok2"
  proof (rule ccontr)
    assume "\<not> (ok0 \<or> ok1 \<or> ok2)"
    then have no: "\<not> ok0" "\<not> ok1" "\<not> ok2" by simp_all
    let ?t0 = "we_clock E n" and ?t1 = "we_clock E (Suc n)" and ?t2 = "we_clock E (Suc (Suc n))"
    let ?x = "(1 - tb_tokens r1) / tb_rate r1 * 1000000000"
    have r1: "tb_tokens r1 < 1" using refused(2) [OF assms(1,2)] a0 no(1) by simp
    have t2: "tb_tokens r2 = tb_tokens r1 + elapsed_seconds ?t1 ?t0 * tb_rate r1"
      using refused(1) [OF k0(1) l1] a1 no(2) k0(2) by simp
    have "\<lfloor>?x\<rfloor> = timeToNextToken r1" using r1 by (simp add: timeToNextToken_def)
    then have "?t0 + \<lfloor>?x\<rfloor> + 1 \<le> ?t2" using assms(6) a0 assms(5) [of "Suc n"] by simp
    then have "?x \<le> real_of_int (?t2 - ?t0)" by linarith
    moreover have rate: "0 < tb_rate r1" using k0(1) by (simp add: bucket_ok_def)
    ultimately have "1 - tb_tokens r1 \<le> elapsed_seconds ?t2 ?t0 * tb_rate r1"
      by (simp add: elapsed_seconds_def field_simps)
    also have "\<dots> = elapsed_seconds ?t2 ?t1 * tb_rate r1 + elapsed_seconds ?t1 ?t0 * tb_rate r1"
      by (simp add: elapsed_add flip: distrib_right)
    finally have "1 \<le> tb_tokens r2 + elapsed_seconds ?t2 (tb_last r2) * tb_rate r2"
      using t2 k1(2,3) by simp
    then have "fst (bucket_Allow r2 ?t2)" by (rule refill_enough [OF k1(1)])
    then show False using a2 no(3) by simp
  qed
  then show ?thesis
    using a0 a1 a2 step [of n r] step [of "Suc n" r1] step [of "Suc (Suc n)" r2]
    by (cases ok0; cases ok1; cases ok2) auto
qed

theorem wait_gets_token_witness:
  "\<exists>r' m. bucket_Wait \<lparr>we_clock = (\<lambda>n. int n * 1000000000), we_done = (\<lambda>_. None), we_others = (\<lambda>_ b. b)\<rparr> 0
     (sample_bucket\<lparr>tb_tokens := 0\<rparr>) = Some (None, r', m) \<and> m \<le> 0 + 2"
  by (rule wait_gets_token)
    (simp_all add: bucket_ok_def sample_bucket_def bucket_Allow_def refill_def minFloat_def elapsed_seconds_def
      timeToNextToken_def Let_def)

fun requests :: "(string \<times> int \<times> gotime) list \<Rightarrow> ip_registry \<Rightarrow> ip_registry" where
  "requests [] r = r"
| "requests ((ip, rph, now) # rest) r = requests rest (snd (getOrCreate r ip rph now))"

text \<open>An address is in steady use if each request comes within the eviction time of its last one.\<close>

fun steady_use :: "string \<Rightarrow> duration \<Rightarrow> gotime \<Rightarrow> (string \<times> int \<times> gotime) list \<Rightarrow> bool" where
  "steady_use ip ttl lastUsed [] \<longleftrightarrow> True"
| "steady_use ip ttl lastUsed ((ip', rph, now) # rest) \<longleftrightarrow>
     now - ttl \<le> lastUsed \<and> steady_use ip ttl (if ip' = ip then now else lastUsed) rest"

lemma steady_use_keeps:
  assumes "rg_limiters r ip = Some (i, lastUsed)" and "steady_use ip (rg_evict r) lastUsed reqs" and "0 \<le> rg_evict r"
    and "i < length (rg_store r)"
  shows "\<exists>u. rg_limiters (requests reqs r) ip = Some (i, u) \<and> rg_store (requests reqs r) ! i = rg_store r ! i"
  using assms
proof (induction reqs arbitrary: r lastUsed)
  case (Cons q reqs)
  obtain ip' rph now where q: "q = (ip', rph, now)" by (cases q)
  let ?r1 = "snd (getOrCreate r ip' rph now)"
  have near: "now - rg_evict r \<le> lastUsed" and rest: "steady_use ip (rg_evict r) (if ip' = ip then now else lastUsed) reqs"
    using Cons.prems(2) q by simp_all
  have l: "rg_limiters ?r1 ip = Some (i, if ip' = ip then now else lastUsed)"
    using Cons.prems(1) near by (auto simp: getOrCreate_def evictExpired_def Let_def split: option.split)
  moreover have "rg_evict ?r1 = rg_evict r" "i < length (rg_store ?r1)" "rg_store ?r1 ! i = rg_store r ! i"
    using Cons.prems(4) by (auto simp: getOrCreate_def evictExpired_def Let_def nth_append split: option.split)
  ultimately show ?case using Cons.IH [of ?r1 "if ip' = ip then now else lastUsed"] rest Cons.prems(3) q by simp
qed auto

text \<open>A failure of the configuration lookup removes the rate limit of an address for as long as the address is in use. The
  resolver answers 0 when the database fails, which it does not cache; but the registry makes an unlimited limiter of it
  and keeps that for the address. As long as the address is requested at least once an hour, every later
  request passes without waiting, whatever rate its host is configured with.\<close>
theorem lookup_failure_unlimits_address:
  assumes "rg_limiters r ip = None" and "rg_evict r = hour" and "rg_static r = 0"
    and "host \<noteq> []" and "cache host = None" and "rule host = RuleFailed err"
    and "rph = request_rph r (Some (\<lambda>h. fst (SourceConfig_Resolve ttl rule now h cache))) (Some host)"
    and "steady_use ip hour now reqs" and "steady_use ip hour now (reqs @ [(ip, configured, t)])"
  shows "snd (SourceConfig_Resolve ttl rule now host cache) = cache
    \<and> (let r1 = requests reqs (snd (getOrCreate r ip rph now)); (i, r2) = getOrCreate r1 ip configured t
       in limiter_Wait E (rg_store r2 ! i) = Some (None, Noop))"
proof -
  have cfg: "SourceConfig_Resolve ttl rule now host cache = (0, cache)"
    using assms(4-6) by (simp add: SourceConfig_Resolve_def config_cached_def)
  then have rph: "rph = 0" using assms(7) by (simp add: request_rph_def)
  let ?r0 = "snd (getOrCreate r ip rph now)"
  have r0: "rg_limiters ?r0 ip = Some (length (rg_store r), now)" "rg_evict ?r0 = hour"
    "length (rg_store r) < length (rg_store ?r0)" "rg_store ?r0 ! length (rg_store r) = Noop"
    using assms(1,2) rph by (auto simp: getOrCreate_def evictExpired_def NewRateLimiter_def Let_def)
  obtain u where "rg_limiters (requests reqs ?r0) ip = Some (length (rg_store r), u)"
    "rg_store (requests reqs ?r0) ! length (rg_store r) = Noop"
    using steady_use_keeps [OF r0(1), of reqs] assms(8) r0(2-4) by auto
  then show ?thesis using cfg by (simp add: getOrCreate_def limiter_Wait_def)
qed

theorem lookup_failure_unlimits_address_witness:
  "\<forall>E. let r = NewIPRateLimiterRegistry 0 5;
       r1 = requests [(''other'', 1, 5), (''ip'', 60, 10)] (snd (getOrCreate r ''ip'' 0 0));
       (i, r2) = getOrCreate r1 ''ip'' 60 20
   in limiter_Wait E (rg_store r2 ! i) = Some (None, Noop)"
proof -
  have "request_rph (NewIPRateLimiterRegistry 0 5)
      (Some (\<lambda>h. fst (SourceConfig_Resolve 1 (\<lambda>_. RuleFailed (Opaque [])) 0 h Map.empty))) (Some ''h'') = 0"
    by (simp add: request_rph_def SourceConfig_Resolve_def config_cached_def)
  then show ?thesis
    using lookup_failure_unlimits_address [of "NewIPRateLimiterRegistry 0 5" "''ip''" "''h''" Map.empty "\<lambda>_. RuleFailed (Opaque [])"
        "Opaque []" 0 1 0 "[(''other'', 1, 5), (''ip'', 60, 10)]" 60 20]
    by (simp add: NewIPRateLimiterRegistry_def)
qed

end
