(* ===== verification/Scheduler.thy ===== *)
theory Scheduler
  imports Publish
begin

text \<open>
  The scheduler of seed jobs (\<^verbatim>\<open>internal/scheduler\<close>): its entries and where they come from
  (\<^verbatim>\<open>source.go\<close>, \<^verbatim>\<open>entries.go\<close>, \<^verbatim>\<open>resolver.go\<close>), the goroutine per entry and the refresh that
  reconciles them with the database (\<^verbatim>\<open>scheduler.go\<close>), and the throttle on the backlog
  (\<^verbatim>\<open>throttle.go\<close>, \<^verbatim>\<open>pkg/queue/backlog.go\<close>). A goroutine is a number; \<open>sd_live\<close> holds those that
  have not been cancelled. Ranging over a Go map visits the keys in any order, which is a
  parameter, as are DNS names of URLs, Kafka, the database and random ids.
\<close>

section \<open>Entries\<close>

record schedule_entry =
  se_crawler :: string
  se_url :: string
  se_type :: string
  se_interval :: duration
  se_priority :: priority
  se_timeout :: duration

definition entryKey :: "schedule_entry \<Rightarrow> string" where
  "entryKey e = se_crawler e @ ''|'' @ se_url e"

definition sameEntry :: "schedule_entry \<Rightarrow> schedule_entry \<Rightarrow> bool" where
  "sameEntry a b \<longleftrightarrow> se_interval a = se_interval b \<and> se_priority a = se_priority b
     \<and> se_type a = se_type b \<and> se_timeout a = se_timeout b"

definition intToPriority :: "int \<Rightarrow> priority" where
  "intToPriority p = (if p = 1 then PriorityHigh else if p = 3 then PriorityLow else PriorityNormal)"

text \<open>\<open>hostname url\<close> is the host name, \<open>None\<close> if the URL does not parse.\<close>

definition entry_hostOf :: "(string \<Rightarrow> string option) \<Rightarrow> string \<Rightarrow> string" where
  "entry_hostOf hostname rawURL =
     (case hostname rawURL of None \<Rightarrow> rawURL | Some h \<Rightarrow> if h = [] then rawURL else h)"

record entry_row =
  er_url :: string
  er_type :: string
  er_interval :: duration
  er_priority :: int

definition NewDefaultEntryConverter :: "(string \<Rightarrow> string option) \<Rightarrow> duration \<Rightarrow> entry_row \<Rightarrow> schedule_entry" where
  "NewDefaultEntryConverter hostname jobTimeout rec =
     \<lparr>se_crawler = entry_hostOf hostname (er_url rec), se_url = er_url rec, se_type = er_type rec,
      se_interval = er_interval rec, se_priority = intToPriority (er_priority rec), se_timeout = jobTimeout\<rparr>"

definition sourceCategoryURLs :: "(string \<times> string list) list" where
  "sourceCategoryURLs =
     [(''naver'', [''https://news.naver.com/section/100'', ''https://news.naver.com/section/101'',
        ''https://news.naver.com/section/102'', ''https://news.naver.com/section/103'',
        ''https://news.naver.com/section/104'', ''https://news.naver.com/section/105'']),
      (''daum'', [''https://news.daum.net/politics'', ''https://news.daum.net/economic'',
        ''https://news.daum.net/society'', ''https://news.daum.net/culture'', ''https://news.daum.net/foreign'',
        ''https://news.daum.net/tech'', ''https://news.daum.net/climate'', ''https://news.daum.net/life'',
        ''https://news.daum.net/understanding'']),
      (''yonhap'', [''https://www.yna.co.kr/politics/all'', ''https://www.yna.co.kr/economy/all'',
        ''https://www.yna.co.kr/society/all'', ''https://www.yna.co.kr/culture/all'',
        ''https://www.yna.co.kr/international/all'']),
      (''cnn'', [''https://edition.cnn.com'', ''https://edition.cnn.com/us'', ''https://edition.cnn.com/world'',
        ''https://edition.cnn.com/politics'', ''https://edition.cnn.com/business'',
        ''https://edition.cnn.com/business/tech'', ''https://edition.cnn.com/health'',
        ''https://edition.cnn.com/entertainment'', ''https://edition.cnn.com/sport''])]"

definition DefaultEntries ::
  "(string \<Rightarrow> string option) \<Rightarrow> duration \<Rightarrow> duration \<Rightarrow> (string \<times> string list) list \<Rightarrow> schedule_entry list" where
  "DefaultEntries hostname categoryInterval jobTimeout sources =
     concat (map (\<lambda>(_, urls). map (\<lambda>rawURL.
       \<lparr>se_crawler = entry_hostOf hostname rawURL, se_url = rawURL, se_type = TargetTypeCategory,
        se_interval = categoryInterval, se_priority = PriorityNormal, se_timeout = jobTimeout\<rparr>) urls) sources)"

section \<open>The entry resolver\<close>

text \<open>The cache: the entries if it holds any, and when they were stored (\<open>None\<close> is the zero time).\<close>

record entry_cache =
  ec_cached :: "schedule_entry list option"
  ec_at :: "gotime option"

definition DefaultEntryCacheTTL :: duration where "DefaultEntryCacheTTL = 5 * minute"

definition NewEntryResolver :: "duration \<Rightarrow> duration" where
  "NewEntryResolver ttl = (if ttl \<le> 0 then DefaultEntryCacheTTL else ttl)"

definition entry_cache_hit :: "duration \<Rightarrow> gotime \<Rightarrow> entry_cache \<Rightarrow> schedule_entry list option" where
  "entry_cache_hit ttl now c =
     (case ec_at c of None \<Rightarrow> None | Some t \<Rightarrow> if now - t < ttl then ec_cached c else None)"

definition entries_Resolve ::
  "duration \<Rightarrow> (entry_row \<Rightarrow> schedule_entry) \<Rightarrow> go_error + entry_row list \<Rightarrow> gotime \<Rightarrow> entry_cache
     \<Rightarrow> (go_error + schedule_entry list) \<times> entry_cache" where
  "entries_Resolve ttl convert listed now c =
     (case entry_cache_hit ttl now c of
        Some entries \<Rightarrow> (Inr entries, c)
      | None \<Rightarrow>
          (case listed of
             Inl listErr \<Rightarrow>
               (case ec_cached c of
                  Some cached \<Rightarrow> (Inr cached, c)
                | None \<Rightarrow> (Inl (Wrapped ''scheduler entries first load failed'' listErr), c))
           | Inr recs \<Rightarrow>
               let entries = map convert recs
               in (Inr entries, \<lparr>ec_cached = Some entries, ec_at = Some now\<rparr>)))"

definition entries_Invalidate :: "entry_cache \<Rightarrow> entry_cache" where
  "entries_Invalidate c = \<lparr>ec_cached = None, ec_at = None\<rparr>"

section \<open>Goroutines per entry\<close>

record sched =
  sd_running :: "string \<rightharpoonup> schedule_entry \<times> nat"
  sd_live :: "nat \<rightharpoonup> schedule_entry"
  sd_next :: nat

definition sched_New :: sched where
  "sched_New = \<lparr>sd_running = Map.empty, sd_live = Map.empty, sd_next = 0\<rparr>"

definition spawnEntryLocked :: "schedule_entry \<Rightarrow> sched \<Rightarrow> sched" where
  "spawnEntryLocked entry s =
     (if se_interval entry \<le> 0 then s
      else \<lparr>sd_running = (sd_running s)(entryKey entry \<mapsto> (entry, sd_next s)),
            sd_live = (sd_live s)(sd_next s \<mapsto> entry), sd_next = Suc (sd_next s)\<rparr>)"

definition cancel_entry :: "string \<Rightarrow> nat \<Rightarrow> sched \<Rightarrow> sched" where
  "cancel_entry key i s = s\<lparr>sd_live := (sd_live s)(i := None), sd_running := (sd_running s)(key := None)\<rparr>"

definition initialEntries ::
  "(go_error + schedule_entry list) option \<Rightarrow> schedule_entry list \<Rightarrow> schedule_entry list" where
  "initialEntries resolved staticEntries =
     (case resolved of
        None \<Rightarrow> staticEntries
      | Some (Inl _) \<Rightarrow> staticEntries
      | Some (Inr entries) \<Rightarrow> entries)"

definition sched_Start ::
  "(go_error + schedule_entry list) option \<Rightarrow> schedule_entry list \<Rightarrow> sched \<Rightarrow> sched" where
  "sched_Start resolved staticEntries s = fold spawnEntryLocked (initialEntries resolved staticEntries) s"

definition desired_entries :: "schedule_entry list \<Rightarrow> string \<rightharpoonup> schedule_entry" where
  "desired_entries entries = fold (\<lambda>e m. m(entryKey e \<mapsto> e)) entries Map.empty"

definition refresh_one :: "(string \<rightharpoonup> schedule_entry) \<Rightarrow> string \<Rightarrow> sched \<Rightarrow> sched" where
  "refresh_one desired key s =
     (case sd_running s key of
        None \<Rightarrow> s
      | Some (snapshot, i) \<Rightarrow>
          (case desired key of
             None \<Rightarrow> cancel_entry key i s
           | Some newE \<Rightarrow>
               if \<not> sameEntry snapshot newE then spawnEntryLocked newE (cancel_entry key i s) else s))"

definition refresh_add :: "(string \<rightharpoonup> schedule_entry) \<Rightarrow> string \<Rightarrow> sched \<Rightarrow> sched" where
  "refresh_add desired key s =
     (case desired key of
        None \<Rightarrow> s
      | Some e \<Rightarrow> if sd_running s key = None then spawnEntryLocked e s else s)"

text \<open>
  \<open>ks1\<close> are the keys the loop over the running entries visits. An entry put back during the
  loop may be visited again, so keys may repeat. \<open>ks2\<close> are the keys of the desired entries.
\<close>

definition Refresh ::
  "(go_error + schedule_entry list) option \<Rightarrow> string list \<Rightarrow> string list \<Rightarrow> sched \<Rightarrow> go_error option \<times> sched" where
  "Refresh resolved ks1 ks2 s =
     (case resolved of
        None \<Rightarrow> (None, s)
      | Some (Inl err) \<Rightarrow> (Some err, s)
      | Some (Inr entries) \<Rightarrow>
          let desired = desired_entries entries
          in (None, fold (refresh_add desired) ks2 (fold (refresh_one desired) ks1 s)))"

text \<open>One round of the refresh loop: the cache is dropped first.\<close>

definition refresh_round ::
  "duration \<Rightarrow> (entry_row \<Rightarrow> schedule_entry) \<Rightarrow> go_error + entry_row list \<Rightarrow> gotime \<Rightarrow> string list \<Rightarrow> string list
     \<Rightarrow> entry_cache \<times> sched \<Rightarrow> go_error option \<times> entry_cache \<times> sched" where
  "refresh_round ttl convert listed now ks1 ks2 cs =
     (let (answer, c) = entries_Resolve ttl convert listed now (entries_Invalidate (fst cs));
          (err, s) = Refresh (Some answer) ks1 ks2 (snd cs)
      in (err, c, s))"

section \<open>The backlog and the throttle\<close>

text \<open>
  Kafka's three answers: the topics with their partitions, the last offsets, and the committed
  offsets. An error of \<^verbatim>\<open>errors.Is UnknownTopicOrPartition\<close> is \<open>True\<close> in the first.
\<close>

record kafka_topic =
  kt_name :: string
  kt_error :: "(bool \<times> go_error) option"
  kt_partitions :: "int list"

record partition_offset =
  po_partition :: int
  po_error :: "go_error option"
  po_offset :: int

fun topic_partitions :: "string \<Rightarrow> kafka_topic list \<Rightarrow> int list \<Rightarrow> (go_error option + int list)" where
  "topic_partitions topic [] ids = Inr ids"
| "topic_partitions topic (t # ts) ids =
     (if kt_name t \<noteq> topic then topic_partitions topic ts ids
      else (case kt_error t of
              Some (True, _) \<Rightarrow> Inl None
            | Some (False, err) \<Rightarrow> Inl (Some (Wrapped (''topic '' @ topic @ '' metadata error'') err))
            | None \<Rightarrow> topic_partitions topic ts (ids @ kt_partitions t)))"

fun latest_offsets :: "partition_offset list \<Rightarrow> (int \<rightharpoonup> int) \<Rightarrow> go_error + (int \<rightharpoonup> int)" where
  "latest_offsets [] m = Inr m"
| "latest_offsets (po # pos) m =
     (case po_error po of
        Some err \<Rightarrow> Inl (Wrapped (''partition '' @ int_text (po_partition po) @ '' list offset error'') err)
      | None \<Rightarrow> latest_offsets pos (m(po_partition po \<mapsto> po_offset po)))"

fun total_lag :: "(int \<rightharpoonup> int) \<Rightarrow> partition_offset list \<Rightarrow> int \<Rightarrow> go_error + int" where
  "total_lag latest [] acc = Inr acc"
| "total_lag latest (op # ops) acc =
     (case po_error op of
        Some err \<Rightarrow> Inl (Wrapped (''partition '' @ int_text (po_partition op) @ '' committed offset error'') err)
      | None \<Rightarrow>
          (case latest (po_partition op) of
             None \<Rightarrow> total_lag latest ops acc
           | Some l \<Rightarrow>
               if po_offset op < 0 then total_lag latest ops acc
               else
                 let lag = l - po_offset op
                 in total_lag latest ops (acc + (if lag < 0 then 0 else lag))))"

definition Backlog ::
  "go_error + kafka_topic list \<Rightarrow> (int list \<Rightarrow> go_error + partition_offset list)
     \<Rightarrow> (int list \<Rightarrow> go_error + (go_error + partition_offset list)) \<Rightarrow> string \<Rightarrow> string \<Rightarrow> go_error + int" where
  "Backlog metadata offsets committed topic grp =
     (case metadata of
        Inl err \<Rightarrow> Inl (Wrapped (''metadata for '' @ topic) err)
      | Inr topics \<Rightarrow>
          (case topic_partitions topic topics [] of
             Inl None \<Rightarrow> Inr 0
           | Inl (Some err) \<Rightarrow> Inl err
           | Inr ids \<Rightarrow>
               if ids = [] then Inr 0
               else (case offsets ids of
                  Inl err \<Rightarrow> Inl (Wrapped (''list offsets for '' @ topic) err)
                | Inr pos \<Rightarrow>
                    (case latest_offsets pos Map.empty of
                       Inl err \<Rightarrow> Inl err
                     | Inr latest \<Rightarrow>
                         (case committed ids of
                            Inl err \<Rightarrow> Inl (Wrapped (''offset fetch for '' @ topic @ ''/'' @ grp) err)
                          | Inr (Inl err) \<Rightarrow> Inl (Wrapped (''offset fetch '' @ topic @ ''/'' @ grp) err)
                          | Inr (Inr ops) \<Rightarrow> total_lag latest ops 0)))))"

definition ShouldThrottle :: "int \<Rightarrow> (string \<Rightarrow> go_error + int) \<Rightarrow> crawl_job \<Rightarrow> bool" where
  "ShouldThrottle maxBacklog backlog job =
     (if maxBacklog \<le> 0 then False
      else (case backlog (CrawlTopic (job_priority job)) of
              Inl _ \<Rightarrow> False
            | Inr n \<Rightarrow> n > maxBacklog))"

section \<open>Publishing an entry\<close>

definition newJobID :: "go_error + bytes \<Rightarrow> (bytes \<Rightarrow> string) \<Rightarrow> go_error + string" where
  "newJobID random hex =
     (case random of Inl err \<Rightarrow> Inl (Wrapped ''generate job id'' err) | Inr b \<Rightarrow> Inr (hex b))"

definition entry_job :: "schedule_entry \<Rightarrow> string \<Rightarrow> gotime \<Rightarrow> int \<Rightarrow> crawl_job" where
  "entry_job entry ident now maxRetries =
     \<lparr>job_id = ident, job_crawler = se_crawler entry,
      job_target = \<lparr>tg_url = se_url entry, tg_type = se_type entry, tg_meta = Map.empty\<rparr>,
      job_priority = se_priority entry, job_scheduled_at = now, job_timeout = se_timeout entry,
      job_retry_count = 0, job_max_retries = maxRetries\<rparr>"

text \<open>\<open>throttle\<close> is the throttler set on the scheduler, if any; errors of PublishSeed are only logged.\<close>

definition publish_entry ::
  "'r pub_env \<Rightarrow> go_error + string \<Rightarrow> (string \<Rightarrow> string option) option \<Rightarrow> (crawl_job \<Rightarrow> bool) option \<Rightarrow> gotime \<Rightarrow> int
     \<Rightarrow> schedule_entry \<Rightarrow> 'r pub_state \<Rightarrow> 'r pub_state" where
  "publish_entry E ident gate throttle now maxRetries entry s =
     (case ident of
        Inl _ \<Rightarrow> s
      | Inr i \<Rightarrow>
          if (case gate of Some g \<Rightarrow> \<not> gate_allow g (se_url entry) | None \<Rightarrow> False) then s
          else
            let job = entry_job entry i now maxRetries
            in if (case throttle of Some t \<Rightarrow> t job | None \<Rightarrow> False) then s
               else snd (PublishSeed E (Some job) s))"

section \<open>The invariant of the scheduler\<close>

text \<open>
  The running entries and the live goroutines correspond one to one: an entry is filed under its
  key, has a positive interval and its goroutine is live, and every live goroutine is the one of
  the entry filed under its key.
\<close>

definition sched_ok :: "sched \<Rightarrow> bool" where
  "sched_ok s \<longleftrightarrow>
     (\<forall>k e i. sd_running s k = Some (e, i) \<longrightarrow> entryKey e = k \<and> 0 < se_interval e \<and> sd_live s i = Some e)
     \<and> (\<forall>i e. sd_live s i = Some e \<longrightarrow> i < sd_next s \<and> sd_running s (entryKey e) = Some (e, i))"

lemma sched_New_ok: "sched_ok sched_New"
  by (simp add: sched_ok_def sched_New_def)

lemma sched_okD:
  assumes "sched_ok s" and "sd_running s k = Some (e, i)"
  shows "entryKey e = k" "0 < se_interval e" "sd_live s i = Some e" "i < sd_next s"
  using assms unfolding sched_ok_def by blast+

lemma spawn_ok:
  assumes "sched_ok s" and "sd_running s (entryKey e) = None"
  shows "sched_ok (spawnEntryLocked e s)"
proof (cases "se_interval e \<le> 0")
  case True
  then show ?thesis using assms(1) by (simp add: spawnEntryLocked_def)
next
  case False
  have fresh: "sd_live s (sd_next s) = None"
  proof (rule ccontr)
    assume "sd_live s (sd_next s) \<noteq> None"
    then obtain e' where "sd_live s (sd_next s) = Some e'" by auto
    then show False using assms(1) unfolding sched_ok_def by blast
  qed
  have other: "sd_running s k \<noteq> Some (e', sd_next s)" for k e'
    using sched_okD(4) [OF assms(1), of k e' "sd_next s"] by auto
  show ?thesis
    unfolding sched_ok_def
  proof (intro conjI allI impI)
    fix k e' i
    assume r: "sd_running (spawnEntryLocked e s) k = Some (e', i)"
    show "entryKey e' = k" "0 < se_interval e'" "sd_live (spawnEntryLocked e s) i = Some e'"
      using r False sched_okD [OF assms(1), of k e' i] by (auto simp: spawnEntryLocked_def split: if_splits)
  next
    fix i e'
    assume l: "sd_live (spawnEntryLocked e s) i = Some e'"
    show "i < sd_next (spawnEntryLocked e s)"
      using l False assms(1) unfolding sched_ok_def spawnEntryLocked_def by (auto simp: less_Suc_eq split: if_splits)
    show "sd_running (spawnEntryLocked e s) (entryKey e') = Some (e', i)"
    proof (cases "i = sd_next s")
      case True
      then show ?thesis using l False by (simp add: spawnEntryLocked_def)
    next
      case i: False
      then have "sd_running s (entryKey e') = Some (e', i)"
        using l False assms(1) unfolding sched_ok_def spawnEntryLocked_def by (auto split: if_splits)
      then show ?thesis using False assms(2) by (auto simp: spawnEntryLocked_def)
    qed
  qed
qed

lemma cancel_ok:
  assumes "sched_ok s" and "sd_running s k = Some (e, i)"
  shows "sched_ok (cancel_entry k i s)"
proof -
  have other: "sd_running s k' \<noteq> Some (e', i)" if "k' \<noteq> k" for k' e'
    using sched_okD [OF assms(1), of k' e' i] sched_okD [OF assms] that by auto
  show ?thesis
    unfolding sched_ok_def
  proof (intro conjI allI impI)
    fix k' e' j
    assume r: "sd_running (cancel_entry k i s) k' = Some (e', j)"
    then have "k' \<noteq> k" "sd_running s k' = Some (e', j)" by (auto simp: cancel_entry_def split: if_splits)
    moreover from this have "j \<noteq> i" using other by auto
    ultimately show "entryKey e' = k'" "0 < se_interval e'" "sd_live (cancel_entry k i s) j = Some e'"
      using sched_okD [OF assms(1), of k' e' j] by (auto simp: cancel_entry_def)
  next
    fix j e'
    assume l: "sd_live (cancel_entry k i s) j = Some e'"
    then have j: "j \<noteq> i" "sd_live s j = Some e'" by (auto simp: cancel_entry_def split: if_splits)
    then have "j < sd_next s" "sd_running s (entryKey e') = Some (e', j)"
      using assms(1) unfolding sched_ok_def by blast+
    moreover from this have "entryKey e' \<noteq> k" using assms(2) j(1) by auto
    ultimately show "j < sd_next (cancel_entry k i s)" "sd_running (cancel_entry k i s) (entryKey e') = Some (e', j)"
      by (simp_all add: cancel_entry_def)
  qed
qed

lemma cancel_running [simp]: "sd_running (cancel_entry k i s) = (sd_running s)(k := None)"
  "sd_next (cancel_entry k i s) = sd_next s"
  by (simp_all add: cancel_entry_def)

lemma spawn_running:
  "sd_running (spawnEntryLocked e s) = (if se_interval e \<le> 0 then sd_running s else (sd_running s)(entryKey e \<mapsto> (e, sd_next s)))"
  "sd_next s \<le> sd_next (spawnEntryLocked e s)"
  by (simp_all add: spawnEntryLocked_def)

definition keyed :: "(string \<rightharpoonup> schedule_entry) \<Rightarrow> bool" where
  "keyed d \<longleftrightarrow> (\<forall>k e. d k = Some e \<longrightarrow> entryKey e = k)"

lemma keyed_fold: "keyed m \<Longrightarrow> keyed (fold (\<lambda>e m. m(entryKey e \<mapsto> e)) entries m)"
proof (induction entries arbitrary: m)
  case (Cons e entries)
  have "keyed (m(entryKey e \<mapsto> e))" using Cons.prems by (simp add: keyed_def)
  from Cons.IH [OF this] show ?case by (simp only: fold_simps)
qed simp

lemma desired_keyed: "keyed (desired_entries entries)"
  unfolding desired_entries_def by (rule keyed_fold) (simp add: keyed_def)

lemma sameEntry_refl [simp]: "sameEntry e e"
  by (simp add: sameEntry_def)

text \<open>The effect of one visit of each loop on the running entries.\<close>

definition visited :: "schedule_entry option \<Rightarrow> nat \<Rightarrow> (schedule_entry \<times> nat) option \<Rightarrow> (schedule_entry \<times> nat) option" where
  "visited want i old =
     (case old of
        None \<Rightarrow> None
      | Some (snapshot, j) \<Rightarrow>
          (case want of
             None \<Rightarrow> None
           | Some e \<Rightarrow> if sameEntry snapshot e then Some (snapshot, j)
                       else if se_interval e \<le> 0 then None else Some (e, i)))"

definition added :: "schedule_entry option \<Rightarrow> nat \<Rightarrow> (schedule_entry \<times> nat) option \<Rightarrow> (schedule_entry \<times> nat) option" where
  "added want i old =
     (case want of None \<Rightarrow> old | Some e \<Rightarrow> if old = None \<and> 0 < se_interval e then Some (e, i) else old)"

lemma refresh_one_running:
  assumes "keyed d"
  shows "sd_running (refresh_one d key s) = (sd_running s)(key := visited (d key) (sd_next s) (sd_running s key))"
  using assms by (auto simp: refresh_one_def visited_def spawn_running(1) keyed_def fun_eq_iff split: option.split)

lemma refresh_add_running:
  assumes "keyed d"
  shows "sd_running (refresh_add d key s) = (sd_running s)(key := added (d key) (sd_next s) (sd_running s key))"
  using assms by (auto simp: refresh_add_def added_def spawn_running(1) keyed_def fun_eq_iff split: option.split)

lemma refresh_next: "sd_next s \<le> sd_next (refresh_one d key s)" "sd_next s \<le> sd_next (refresh_add d key s)"
proof -
  have "sd_next s \<le> sd_next (spawnEntryLocked e (cancel_entry key i s))" for e i
    using spawn_running(2) [of "cancel_entry key i s" e] by simp
  then show "sd_next s \<le> sd_next (refresh_one d key s)" by (simp add: refresh_one_def split: option.split)
  show "sd_next s \<le> sd_next (refresh_add d key s)" by (simp add: refresh_add_def spawn_running(2) split: option.split)
qed

lemma refresh_ok:
  assumes "sched_ok s" and "keyed d"
  shows "sched_ok (refresh_one d key s)" "sched_ok (refresh_add d key s)"
proof -
  have key: "entryKey e = key" if "d key = Some e" for e using that assms(2) by (simp add: keyed_def)
  show "sched_ok (refresh_one d key s)"
  proof (cases "sd_running s key")
    case None
    then show ?thesis using assms(1) by (simp add: refresh_one_def)
  next
    case (Some p)
    obtain e0 i where p: "p = (e0, i)" by (rule prod.exhaust)
    have c: "sched_ok (cancel_entry key i s)" using cancel_ok [OF assms(1)] Some p by simp
    show ?thesis
    proof (cases "d key")
      case None
      then show ?thesis using Some p c by (simp add: refresh_one_def)
    next
      case d: (Some e)
      have "sched_ok (spawnEntryLocked e (cancel_entry key i s))"
        by (rule spawn_ok [OF c]) (simp add: key [OF d])
      then show ?thesis using Some p d assms(1) by (simp add: refresh_one_def)
    qed
  qed
  show "sched_ok (refresh_add d key s)"
  proof (cases "d key")
    case None
    then show ?thesis using assms(1) by (simp add: refresh_add_def)
  next
    case (Some e)
    then show ?thesis using assms(1) spawn_ok [OF assms(1), of e] key [OF Some] by (simp add: refresh_add_def)
  qed
qed

lemma fold_one:
  assumes "sched_ok s" and "keyed d" and "s' = fold (refresh_one d) ks s"
  shows "sched_ok s' \<and> sd_next s \<le> sd_next s'
    \<and> (\<forall>k. (k \<in> set ks \<longrightarrow> (\<exists>i\<ge>sd_next s. sd_running s' k = visited (d k) i (sd_running s k)))
          \<and> (k \<notin> set ks \<longrightarrow> sd_running s' k = sd_running s k))"
  using assms(1,3)
proof (induction ks arbitrary: s)
  case (Cons key ks)
  let ?s1 = "refresh_one d key s"
  have s': "s' = fold (refresh_one d) ks ?s1" using Cons.prems(2) by simp
  note ih = Cons.IH [OF refresh_ok(1) [OF Cons.prems(1) assms(2)] s']
  note run = refresh_one_running [OF assms(2), of key s]
  have again: "visited w j (visited w i old) = visited w i old" for w i j old
    by (simp add: visited_def split: option.split prod.split)
  have "(k \<in> set (key # ks) \<longrightarrow> (\<exists>i\<ge>sd_next s. sd_running s' k = visited (d k) i (sd_running s k)))
      \<and> (k \<notin> set (key # ks) \<longrightarrow> sd_running s' k = sd_running s k)" for k
  proof (cases "k = key")
    case True
    have "sd_running s' key = sd_running ?s1 key"
      using ih again by (auto simp: run split: if_splits)
    then show ?thesis using True by (auto simp: run)
  next
    case False
    have same: "sd_running ?s1 k = sd_running s k" using False by (simp add: run)
    show ?thesis
    proof (cases "k \<in> set ks")
      case True
      then obtain i where "sd_next ?s1 \<le> i" "sd_running s' k = visited (d k) i (sd_running ?s1 k)"
        using ih by blast
      moreover from this(1) have "sd_next s \<le> i" using refresh_next(1) [of s d key] by simp
      ultimately show ?thesis using True same by auto
    next
      case n: False
      then show ?thesis using False ih same by simp
    qed
  qed
  then show ?case using ih refresh_next(1) [of s d key] by auto
qed simp

lemma fold_add:
  assumes "sched_ok s" and "keyed d" and "s' = fold (refresh_add d) ks s"
  shows "sched_ok s' \<and> sd_next s \<le> sd_next s'
    \<and> (\<forall>k. (k \<in> set ks \<longrightarrow> (\<exists>i\<ge>sd_next s. sd_running s' k = added (d k) i (sd_running s k)))
          \<and> (k \<notin> set ks \<longrightarrow> sd_running s' k = sd_running s k))"
  using assms(1,3)
proof (induction ks arbitrary: s)
  case (Cons key ks)
  let ?s1 = "refresh_add d key s"
  have s': "s' = fold (refresh_add d) ks ?s1" using Cons.prems(2) by simp
  note ih = Cons.IH [OF refresh_ok(2) [OF Cons.prems(1) assms(2)] s']
  note run = refresh_add_running [OF assms(2), of key s]
  have again: "added w j (added w i old) = added w i old" for w i j old
    by (auto simp: added_def split: option.split)
  have "(k \<in> set (key # ks) \<longrightarrow> (\<exists>i\<ge>sd_next s. sd_running s' k = added (d k) i (sd_running s k)))
      \<and> (k \<notin> set (key # ks) \<longrightarrow> sd_running s' k = sd_running s k)" for k
  proof (cases "k = key")
    case True
    have "sd_running s' key = sd_running ?s1 key"
      using ih again by (auto simp: run split: if_splits)
    then show ?thesis using True by (auto simp: run)
  next
    case False
    have same: "sd_running ?s1 k = sd_running s k" using False by (simp add: run)
    show ?thesis
    proof (cases "k \<in> set ks")
      case True
      then obtain i where "sd_next ?s1 \<le> i" "sd_running s' k = added (d k) i (sd_running ?s1 k)"
        using ih by blast
      moreover from this(1) have "sd_next s \<le> i" using refresh_next(2) [of s d key] by simp
      ultimately show ?thesis using True same by auto
    next
      case n: False
      then show ?thesis using False ih same by simp
    qed
  qed
  then show ?case using ih refresh_next(2) [of s d key] by auto
qed simp

text \<open>
  What a whole refresh makes of the entry under one key: an unchanged entry keeps its goroutine, a
  changed or new one gets a fresh goroutine, anything else is gone.
\<close>

definition reconciled ::
  "schedule_entry option \<Rightarrow> nat \<Rightarrow> (schedule_entry \<times> nat) option \<Rightarrow> (schedule_entry \<times> nat) option \<Rightarrow> bool" where
  "reconciled want first old new =
     (case want of
        None \<Rightarrow> new = None
      | Some e \<Rightarrow>
          if (case old of Some (snapshot, i) \<Rightarrow> sameEntry snapshot e | None \<Rightarrow> False) then new = old
          else if se_interval e \<le> 0 then new = None else \<exists>j\<ge>first. new = Some (e, j))"

section \<open>Properties\<close>


definition sample_entry :: "string \<Rightarrow> duration \<Rightarrow> schedule_entry" where
  "sample_entry url i = \<lparr>se_crawler = ''h'', se_url = url, se_type = [], se_interval = i, se_priority = 2, se_timeout = 1\<rparr>"


text \<open>A goroutine that no running entry refers to can never be cancelled.\<close>

definition orphan :: "nat \<Rightarrow> schedule_entry \<Rightarrow> sched \<Rightarrow> bool" where
  "orphan i e s \<longleftrightarrow> sd_live s i = Some e \<and> i < sd_next s \<and> (\<forall>k e'. sd_running s k \<noteq> Some (e', i))"

lemma orphan_spawn: "orphan i e s \<Longrightarrow> orphan i e (spawnEntryLocked e' s)"
  by (auto simp: orphan_def spawnEntryLocked_def)

lemma orphan_cancel: "orphan i e s \<Longrightarrow> sd_running s k = Some (e', j) \<Longrightarrow> orphan i e (cancel_entry k j s)"
  by (auto simp: orphan_def cancel_entry_def)

lemma orphan_step: "orphan i e s \<Longrightarrow> orphan i e (refresh_one d k s)" "orphan i e s \<Longrightarrow> orphan i e (refresh_add d k s)"
  by (auto simp: refresh_one_def refresh_add_def intro: orphan_spawn orphan_cancel split: option.split)

lemma orphan_folds:
  "orphan i e s \<Longrightarrow> orphan i e (fold (refresh_one d) ks s)" "orphan i e s \<Longrightarrow> orphan i e (fold (refresh_add d) ks s)"
  by (induction ks arbitrary: s) (simp_all add: orphan_step)

lemma orphan_refresh: "orphan i e s \<Longrightarrow> orphan i e (snd (Refresh r ks1 ks2 s))"
  by (auto simp: Refresh_def orphan_folds Let_def split: option.split sum.split)

fun refreshes :: "((go_error + schedule_entry list) option \<times> string list \<times> string list) list \<Rightarrow> sched \<Rightarrow> sched" where
  "refreshes [] s = s"
| "refreshes ((r, ks1, ks2) # rs) s = refreshes rs (snd (Refresh r ks1 ks2 s))"

lemma orphan_refreshes: "orphan i e s \<Longrightarrow> orphan i e (refreshes rs s)"
  by (induction rs arbitrary: s) (auto simp: orphan_refresh)

text \<open>Two entries with one key leave a goroutine that nothing can stop. The table allows the same URL under two categories,
  and the key is made of host and URL only; when the scheduler starts with two such entries, the second replaces
  the first in the table of running entries, and the goroutine of the first keeps publishing whatever later refreshes find
  in the database, even if both entries are gone.\<close>
theorem duplicate_entry_never_stops:
  assumes "entryKey a = entryKey b" and "0 < se_interval a" and "0 < se_interval b"
    and "s = sched_Start (Some (Inr [a, b])) static sched_New"
  shows "sd_live (refreshes rs s) 0 = Some a
    \<and> (\<forall>k e. sd_running (refreshes rs s) k \<noteq> Some (e, 0))"
proof -
  have "orphan 0 a s"
    using assms by (auto simp: sched_Start_def initialEntries_def spawnEntryLocked_def sched_New_def orphan_def)
  then have "orphan 0 a (refreshes rs s)" by (rule orphan_refreshes)
  then show ?thesis by (simp add: orphan_def)
qed

theorem duplicate_entry_never_stops_witness:
  "sd_live (refreshes [(Some (Inr []), [''h|a''], [])]
      (sched_Start (Some (Inr [sample_entry ''a'' 5, sample_entry ''a'' 9])) [] sched_New)) 0 = Some (sample_entry ''a'' 5)"
  by (rule conjunct1 [OF duplicate_entry_never_stops [OF _ _ _ refl]]) (simp_all add: sample_entry_def entryKey_def)

end
