(* ===== verification/Spec2Isabelle.thy ===== *)
theory Spec2Isabelle
  imports FetchHandlers ValidateWorker ParserWorker EnrichWorker RuleGen RuleRefiner LlmPolicies Locks Publish RetryQueue WorkerPool JobBuffer Scoring
    RateLimiter Scheduler
begin

text \<open>
  IssueTracker is a crawling pipeline in Go. A scheduler (\<^verbatim>\<open>internal/scheduler\<close>) publishes a seed
  job per source; the fetcher pool (\<^verbatim>\<open>internal/processor/fetcher/worker\<close>) fetches pages and
  publishes what they contain; the parser, validate and enrich stages
  (\<^verbatim>\<open>internal/processor\<close>) each consume one topic and publish to the next. The stages share the
  bus (\<^verbatim>\<open>internal/bus\<close>), the consumer pool (\<^verbatim>\<open>internal/workerpool\<close>), Redis
  (\<^verbatim>\<open>pkg/redis\<close>, \<^verbatim>\<open>internal/locks\<close>) and the priority queue (\<^verbatim>\<open>pkg/queue\<close>).

  \<^bold>\<open>How programs are modelled.\<close> A Go struct is a record, an enumeration a datatype, an error
  a value of \<open>go_error\<close> (\<open>CrawlCore\<close>), a fallible call a sum. A worker's external calls
  (Kafka, database, schedulers) are actions of the datatype \<open>act\<close> (\<open>Bus\<close>): an \<open>io\<close>
  environment answers each one and the state carries the trace of calls and answers, so a property
  such as "committed only after it was settled" speaks of the trace, for every environment.
  Redis is a record of operations on an abstract store whose laws are the locales of
  \<open>Redis\<close> and \<open>RedisClient\<close>; both are interpreted on the reference store \<open>ref_redis\<close>. Between the
  commands of one client the other clients change the store as the environment says.
  Clocks, random numbers, context cancellation and map iteration order are functions of a step counter.
  Codecs, hashes, \<^verbatim>\<open>url.Parse\<close>, Unicode tables and regular expressions are parameters.

  \<^bold>\<open>Theories, in import order.\<close>
  \<^item> \<open>GoBase\<close>, \<open>GoFloat\<close>: time, decimal text, UTF-8, the trace of calls; floats with their special values.
  \<^item> \<open>CircuitBreaker\<close> (\<^verbatim>\<open>pkg/resilience\<close>): the breaker opens exactly at its threshold and lets one probe through.
  \<^item> \<open>CrawlCore\<close> (\<^verbatim>\<open>internal/processor/fetcher/core\<close>): errors, retry loop, jobs, contents, headers.
  \<^item> \<open>Bus\<close>, \<open>Publish\<close> (\<^verbatim>\<open>internal/bus\<close>, \<^verbatim>\<open>pkg/urlguard\<close>): messages and publisher; chained and seed
    jobs with markers and the seen cache: no URL twice within its marker's life.
  \<^item> \<open>StageWorker\<close>: what the stage workers share (gate skips, forwarding, dead letters) and the interface
    \<open>stage\<close> whose laws give "committed only when settled" once for every stage.
  \<^item> \<open>FetcherPool\<close>, \<open>ValidateWorker\<close>: the handlers with every branch; a message is committed only when settled,
    only valid contents go on, the reparse limit is forgotten.
  \<^item> \<open>ParserWorker\<close> (\<^verbatim>\<open>internal/processor/parser/worker\<close>): page and category jobs; the raw content is
    deleted only when its message is out of the stage.
  \<^item> \<open>Prompt\<close>, \<open>EnrichCore\<close>, \<open>EnrichWorker\<close> (\<^verbatim>\<open>internal/processor/enrich\<close>, \<^verbatim>\<open>pkg/prompts\<close>): templates, the
    model's answers decoded and range checked, the worker with its daily budget and retry lane.
  \<^item> \<open>Validation\<close> (\<^verbatim>\<open>internal/processor/validate/domain\<close>): the verdicts; the repeat scanner equals its specification.
  \<^item> \<open>Redis\<close>, \<open>RedisClient\<close>, \<open>Locks\<close> (\<^verbatim>\<open>pkg/redis\<close>, \<^verbatim>\<open>internal/locks\<close>): commands and pipelines, lease locks,
    semaphore, stage gate: at most one holder per lease, slots never leak.
  \<^item> \<open>RetryQueue\<close> (\<^verbatim>\<open>pkg/redis/retry_queue.go\<close>, \<^verbatim>\<open>internal/bus/retry.go\<close>): the delayed retries refine a map from
    job to due time; polling loses none when run alone; two races lose one.
  \<^item> \<open>PriorityZSet\<close> (\<^verbatim>\<open>pkg/queue/priority_zset.go\<close>): push/pop round trip, fetch returns the first live entry.
  \<^item> \<open>JobBuffer\<close> (\<^verbatim>\<open>pkg/redis/job_buffer.go\<close>, \<^verbatim>\<open>internal/scheduler/buffer_drainer.go\<close>): a first-in first-out buffer, drained without loss.
  \<^item> \<open>PriorityRouting\<close>, \<open>Scoring\<close>: the resolver chain and the host scores that feed it.
  \<^item> \<open>RateLimiter\<close>: the bucket grants at most its rate; waiting ends with a token.
  \<^item> \<open>Scheduler\<close>: a refresh reconciles the running entries with the desired ones; backlog throttle.
  \<^item> \<open>Links\<close> (\<^verbatim>\<open>pkg/links\<close>): the URL normalizer is idempotent; extraction keeps the first eligible links.
  \<^item> \<open>RuleLookup\<close>, \<open>RulePages\<close> (\<^verbatim>\<open>internal/processor/parser/rule\<close>, \<^verbatim>\<open>internal/processor/precheck\<close>): rule resolver and
    blacklist with their caches: bounded staleness, the batch verdicts equal the single ones; parsing of
    pages and link lists: discovery keeps the links of the page's host.
  \<^item> \<open>RuleGenCore\<close>, \<open>RuleGen\<close> (\<^verbatim>\<open>internal/processor/parser/rule/llmgen\<close>): rules generated by a model: what is
    stored was checked on the page, no window exceeds its cap, each goroutine releases its slot.
  \<^item> \<open>LlmClients\<close>, \<open>LlmPolicies\<close> (\<^verbatim>\<open>pkg/llm\<close>): providers, retries, statistics, the fallback chain and its
    policies, the wiring: the retry loop ends, the first decisive answer of the chain is returned.
  \<^item> \<open>PathInfer\<close> (\<^verbatim>\<open>parser/rule/pathinfer\<close>): a path pattern inferred from samples matches exactly the paths of their
    shape and is never too broad; what a pattern of the model has passed.
  \<^item> \<open>RuleStore\<close> (\<^verbatim>\<open>storage/postgres/parser_rule.go\<close>, \<^verbatim>\<open>sample_url.go\<close>, \<^verbatim>\<open>storage/decorator\<close>): the rule tables and
    the decorator that keeps the resolver's cache in step with them.
  \<^item> \<open>RuleRefiner\<close> (\<^verbatim>\<open>parser/rule/refiner\<close>, \<^verbatim>\<open>parser/rule/validator\<close>): a cycle writes checked versions of
    catch-all rules only; the validator pool and its salvage of a cut answer.
  \<^item> \<open>WorkerPool\<close>: the pool as a step relation, its messages conserved, its stop ending.

  \<^bold>\<open>Bounds and fuel.\<close> Loops recurse on their lists; loops that poll an external queue
  (\<open>FetchMessage\<close>, \<open>bucket_Wait\<close>) are partial functions whose result is \<open>None\<close> when they do not return,
  and their termination theorems say when they do.

  \<^bold>\<open>Not modelled.\<close> Text that another program runs (SQL, Lua is modelled by its effect), the drivers around
  Chrome, goquery, net/http and Kafka, JSON codecs, logging and metrics. Timeouts of single calls are part of what
  the environment answers.
\<close>

end
